(* ===== verification/Prelude.thy ===== *)
theory Prelude
  imports Main "HOL-Library.Word" "HOL-Library.Monad_Syntax"
begin

text \<open>
  Shared vocabulary of the development: the machine integers of the C sources as words,
  byte strings and C strings as lists of bytes, the big- and little-endian views of a
  word, and the facts about lists and words that several components use.
  The collection \<open>codec\<close> gathers the length and round-trip facts of the
  on-disk structures, \<open>regs\<close> the definitions of register addresses and bit
  fields.
\<close>

unbundle bit_operations_syntax

named_theorems codec
named_theorems regs

type_synonym u8 = "8 word"
type_synonym u16 = "16 word"
type_synonym u32 = "32 word"
type_synonym u64 = "64 word"

section \<open>Bytes and strings\<close>

text \<open>A C string literal as the bytes the compiler emits, without the closing NUL.\<close>

definition bytes :: "string \<Rightarrow> u8 list" where
  "bytes s = map of_char s"

lemma length_bytes [simp]: "length (bytes s) = length s"
  by (simp add: bytes_def)

lemma bytes_Nil [simp]: "bytes [] = []"
  by (simp add: bytes_def)

lemma bytes_Cons: "bytes (c # s) = of_char c # bytes s"
  by (simp add: bytes_def)

lemma bytes_append [simp]: "bytes (s @ t) = bytes s @ bytes t"
  by (simp add: bytes_def)

lemma of_char_u8_inject [simp]: "(of_char c :: u8) = of_char d \<longleftrightarrow> c = d"
proof
  assume "(of_char c :: u8) = of_char d"
  then have "unat (of_nat (of_char c) :: u8) = unat (of_nat (of_char d) :: u8)"
    by (simp only: of_nat_of_char)
  then have "(of_char c :: nat) = of_char d"
    by (simp add: unat_of_nat)
  then show "c = d"
    by simp
qed simp

lemma bytes_inject [simp]: "bytes s = bytes t \<longleftrightarrow> s = t"
proof
  show "bytes s = bytes t \<Longrightarrow> s = t"
    unfolding bytes_def by (rule map_injective) (auto simp: inj_on_def)
qed simp

section \<open>Lists\<close>

lemma take_take_append: "take n (take n xs @ ys) = take n (xs @ ys)"
  by (cases "length xs \<le> n") simp_all

section \<open>Decimal digits\<close>

definition digit_value :: "u8 \<Rightarrow> nat" where
  "digit_value c = unat (c - 48)"

definition decimal_value :: "u8 list \<Rightarrow> nat" where
  "decimal_value cs = foldl (\<lambda>acc c. 10 * acc + digit_value c) 0 cs"

lemma decimal_value_snoc: "decimal_value (cs @ [c]) = 10 * decimal_value cs + digit_value c"
  by (simp add: decimal_value_def)

lemma decimal_value_foldl:
  "foldl (\<lambda>acc c. 10 * acc + digit_value c) a cs = a * 10 ^ length cs + decimal_value cs"
proof (induction cs rule: rev_induct)
  case Nil
  then show ?case by (simp add: decimal_value_def)
next
  case (snoc c cs)
  then show ?case by (simp add: decimal_value_snoc)
qed

lemma decimal_value_Nil [simp]: "decimal_value [] = 0"
  by (simp add: decimal_value_def)

lemma decimal_value_Cons:
  "decimal_value (c # cs) = digit_value c * 10 ^ length cs + decimal_value cs"
  using decimal_value_foldl [of "digit_value c" cs] by (simp add: decimal_value_def)

lemma digit_value_of: "n < 10 \<Longrightarrow> digit_value (48 + of_nat n) = n"
  by (simp add: digit_value_def unat_of_nat)

lemma digit_value_word_mod:
  "digit_value (48 + ucast ((v :: u32) mod 10)) = unat v mod 10"
  "digit_value (48 + ucast ((w :: u64) mod 10)) = unat w mod 10"
proof -
  have "ucast (v mod 10) = (of_nat (unat (v mod 10)) :: u8)"
    "ucast (w mod 10) = (of_nat (unat (w mod 10)) :: u8)"
    by simp_all
  then show "digit_value (48 + ucast (v mod 10)) = unat v mod 10"
    "digit_value (48 + ucast (w mod 10)) = unat w mod 10"
    by (simp_all only: unat_mod unat_numeral digit_value_of) (simp_all add: digit_value_of)
qed

lemma unat_div_10:
  "unat ((v :: u32) div 10) = unat v div 10" "unat ((w :: u64) div 10) = unat w div 10"
  by (simp_all add: unat_div)

lemma unat_div_10_less:
  "(v :: u32) \<noteq> 0 \<Longrightarrow> unat v div 10 < unat v" "(w :: u64) \<noteq> 0 \<Longrightarrow> unat w div 10 < unat w"
  by (simp_all add: unat_gt_0)

lemma decimal_step:
  "v * 10 ^ k = (v div 10) * 10 ^ Suc k + (v mod 10) * 10 ^ k" for v :: nat
proof -
  have "v = (v div 10) * 10 + v mod 10" by simp
  then have "v * 10 ^ k = ((v div 10) * 10 + v mod 10) * 10 ^ k" by (rule arg_cong)
  then show ?thesis by (simp only: add_mult_distrib mult.assoc power_Suc)
qed

section \<open>Widening\<close>

lemma unat_ucast_widen:
  "LENGTH('a) \<le> LENGTH('b) \<Longrightarrow> unat (ucast (w :: 'a::len word) :: 'b::len word) = unat w"
  by (simp add: unsigned_ucast_eq take_bit_nat_eq_self_iff less_le_trans [OF unsigned_less])

lemma unat_widen [simp]:
  "unat (ucast (a :: u8) :: u16) = unat a" "unat (ucast (a :: u8) :: u32) = unat a"
  "unat (ucast (a :: u8) :: u64) = unat a" "unat (ucast (b :: u16) :: u32) = unat b"
  "unat (ucast (b :: u16) :: u64) = unat b" "unat (ucast (c :: u32) :: u64) = unat c"
  by (simp_all add: unat_ucast_widen)

section \<open>Words as bytes\<close>

definition be32_bytes :: "u32 \<Rightarrow> u8 list" where
  "be32_bytes w =
     [ucast (drop_bit 24 w), ucast (drop_bit 16 w), ucast (drop_bit 8 w), ucast w]"

fun be32_of :: "u8 list \<Rightarrow> u32" where
  "be32_of (a # b # c # d # _) =
     push_bit 24 (ucast a) OR push_bit 16 (ucast b) OR push_bit 8 (ucast c) OR ucast d"
| "be32_of _ = 0"

fun le32_of :: "u8 list \<Rightarrow> u32" where
  "le32_of (a # b # c # d # _) =
     ucast a OR push_bit 8 (ucast b) OR push_bit 16 (ucast c) OR push_bit 24 (ucast d)"
| "le32_of _ = 0"

lemma length_be32_bytes [simp, codec]: "length (be32_bytes w) = 4"
  by (simp add: be32_bytes_def)

lemma be32_roundtrip [simp, codec]: "be32_of (be32_bytes w @ xs) = w"
  unfolding be32_bytes_def append.simps be32_of.simps
proof (rule bit_word_eqI)
  fix n assume "n < LENGTH(32)"
  then have "n < 8 \<or> n = 8 + (n - 8) \<and> n - 8 < 8 \<or> n = 16 + (n - 16) \<and> n - 16 < 8 \<or>
      n = 24 + (n - 24) \<and> n - 24 < 8"
    by simp arith
  then consider "n < 8" | k where "n = 8 + k" "k < 8" | k where "n = 16 + k" "k < 8"
    | k where "n = 24 + k" "k < 8"
    by blast
  then show "bit (push_bit 24 (ucast (ucast (drop_bit 24 w) :: u8)) OR
      push_bit 16 (ucast (ucast (drop_bit 16 w) :: u8)) OR
      push_bit 8 (ucast (ucast (drop_bit 8 w) :: u8)) OR ucast (ucast w :: u8) :: u32) n = bit w n"
    by cases (auto simp: bit_simps)
qed

lemma be32_roundtrip_Nil [simp]: "be32_of (be32_bytes w) = w"
  using be32_roundtrip [of w "[]"] by (simp del: be32_roundtrip)

text \<open>
  \<open>snprintf(dst, n, "%s", s)\<close> into a zeroed field of \<open>n\<close> bytes: at most \<open>n - 1\<close>
  bytes of the string, the rest zero. \<open>cstring\<close> is what a reader of the field sees.
\<close>

definition fit :: "nat \<Rightarrow> u8 list \<Rightarrow> u8 list" where
  "fit n s = (let t = take (n - 1) s in t @ replicate (n - length t) 0)"

definition cstring :: "u8 list \<Rightarrow> u8 list" where
  "cstring xs = takeWhile (\<lambda>c. c \<noteq> 0) xs"

lemma length_fit [simp, codec]: "length (fit n s) = n"
  by (simp add: fit_def Let_def)

lemma cstring_fit: "0 < n \<Longrightarrow> 0 \<notin> set s \<Longrightarrow> cstring (fit n s @ xs) = take (n - 1) s"
proof -
  assume "0 < n" "0 \<notin> set s"
  then have "\<forall>c \<in> set (take (n - 1) s). c \<noteq> 0"
    by (metis in_set_takeD)
  moreover obtain k where "n - length (take (n - 1) s) = Suc k"
    using \<open>0 < n\<close> by (cases "n - length (take (n - 1) s)") auto
  ultimately show ?thesis
    by (simp only: cstring_def fit_def Let_def append_assoc replicate_Suc append_Cons
        takeWhile_append2) simp
qed

section \<open>Loops that may exit with an error\<close>

fun foldE :: "('a \<Rightarrow> 's \<Rightarrow> 'e + 's) \<Rightarrow> 'a list \<Rightarrow> 's \<Rightarrow> 'e + 's" where
  "foldE f [] s = Inr s"
| "foldE f (x # xs) s = (case f x s of Inl e \<Rightarrow> Inl e | Inr s' \<Rightarrow> foldE f xs s')"

definition bindE :: "'e + 'a \<Rightarrow> ('a \<Rightarrow> 'e + 'b) \<Rightarrow> 'e + 'b" where
  "bindE m f = (case m of Inl e \<Rightarrow> Inl e | Inr x \<Rightarrow> f x)"

lemma bindE_simps [simp]: "bindE (Inl e) f = Inl e" "bindE (Inr x) f = f x"
  by (simp_all add: bindE_def)

lemma bindE_Inr_iff: "bindE m f = Inr y \<longleftrightarrow> (\<exists>x. m = Inr x \<and> f x = Inr y)"
  by (cases m) auto

lemma foldE_invariant:
  assumes "foldE f xs s = Inr s'" "I s"
    and "\<And>x s t. x \<in> set xs \<Longrightarrow> I s \<Longrightarrow> f x s = Inr t \<Longrightarrow> I t"
  shows "I s'"
  using assms
proof (induction xs arbitrary: s)
  case Nil
  then show ?case by simp
next
  case (Cons x xs)
  then obtain t where t: "f x s = Inr t" "foldE f xs t = Inr s'"
    by (auto split: sum.splits)
  then have "I t"
    using Cons.prems by (meson list.set_intros(1))
  with t Cons show ?case
    by (meson list.set_intros(2))
qed

end
