(* ===== verification/Libc.thy ===== *)
theory Libc
  imports Prelude
begin

text \<open>
  The freestanding C library of p-boot, \<open>src/src/lib.c\<close>: memory is a total map from
  64-bit addresses to bytes and every routine is the loop the file writes, over that map.
  \<open>size_t\<close> counters are natural numbers below \<open>2 ^ 64\<close> (\<open>unat\<close> of the word
  argument), pointers are words, so pointer arithmetic wraps as it does on the CPU. The
  routines that scan for a NUL byte need not end on an arbitrary memory and are
  \<open>partial_function (option)\<close>.
\<close>

type_synonym mem = "u64 \<Rightarrow> u8"

section \<open>The routines\<close>

function memcpy_loop :: "mem \<Rightarrow> u64 \<Rightarrow> u64 \<Rightarrow> nat \<Rightarrow> nat \<Rightarrow> mem" where
  "memcpy_loop m d s i n =
     (if i < n then memcpy_loop (m(d + of_nat i := m (s + of_nat i))) d s (Suc i) n else m)"
  by pat_completeness auto
termination
  by (relation "measure (\<lambda>(m, d, s, i, n). n - i)") auto

declare memcpy_loop.simps [simp del]

definition memcpy :: "mem \<Rightarrow> u64 \<Rightarrow> u64 \<Rightarrow> u64 \<Rightarrow> mem" where
  "memcpy m dest src n = memcpy_loop m dest src 0 (unat n)"

fun memset_loop :: "mem \<Rightarrow> u64 \<Rightarrow> u8 \<Rightarrow> nat \<Rightarrow> mem" where
  "memset_loop m s c 0 = m"
| "memset_loop m s c (Suc n) = memset_loop (m(s := c)) (s + 1) c n"

definition memset :: "mem \<Rightarrow> u64 \<Rightarrow> int \<Rightarrow> u64 \<Rightarrow> mem" where
  "memset m dest c n = memset_loop m dest (word_of_int c) (unat n)"

fun memcmp_loop :: "mem \<Rightarrow> u64 \<Rightarrow> u64 \<Rightarrow> nat \<Rightarrow> int" where
  "memcmp_loop m l r 0 = 0"
| "memcmp_loop m l r (Suc n) =
     (if m l = m r then memcmp_loop m (l + 1) (r + 1) n else uint (m l) - uint (m r))"

definition memcmp :: "mem \<Rightarrow> u64 \<Rightarrow> u64 \<Rightarrow> u64 \<Rightarrow> int" where
  "memcmp m vl vr n = memcmp_loop m vl vr (unat n)"

fun memmove_fwd :: "mem \<Rightarrow> u64 \<Rightarrow> u64 \<Rightarrow> nat \<Rightarrow> mem" where
  "memmove_fwd m d s 0 = m"
| "memmove_fwd m d s (Suc n) = memmove_fwd (m(d := m s)) (d + 1) (s + 1) n"

fun memmove_bwd :: "mem \<Rightarrow> u64 \<Rightarrow> u64 \<Rightarrow> nat \<Rightarrow> mem" where
  "memmove_bwd m d s 0 = m"
| "memmove_bwd m d s (Suc n) =
     memmove_bwd (m(d + of_nat n := m (s + of_nat n))) d s n"

definition memmove :: "mem \<Rightarrow> u64 \<Rightarrow> u64 \<Rightarrow> u64 \<Rightarrow> mem" where
  "memmove m d s n =
     (if d = s then m
      else if s - d - n \<le> - 2 * n then memcpy m d s n
      else if d < s then memmove_fwd m d s (unat n)
      else memmove_bwd m d s (unat n))"

partial_function (option) strlen_from :: "mem \<Rightarrow> u64 \<Rightarrow> u64 \<Rightarrow> u64 option" where
  "strlen_from m a s = (if m s \<noteq> 0 then strlen_from m a (s + 1) else Some (s - a))"

definition strlen :: "mem \<Rightarrow> u64 \<Rightarrow> u64 option" where
  "strlen m s = strlen_from m s s"

fun memchr_loop :: "mem \<Rightarrow> u64 \<Rightarrow> u8 \<Rightarrow> nat \<Rightarrow> u64" where
  "memchr_loop m s c 0 = 0"
| "memchr_loop m s c (Suc n) = (if m s \<noteq> c then memchr_loop m (s + 1) c n else s)"

definition memchr :: "mem \<Rightarrow> u64 \<Rightarrow> int \<Rightarrow> u64 \<Rightarrow> u64" where
  "memchr m src c n = memchr_loop m src (word_of_int c) (unat n)"

partial_function (option) strcmp :: "mem \<Rightarrow> u64 \<Rightarrow> u64 \<Rightarrow> int option" where
  "strcmp m l r =
     (if m l = m r \<and> m l \<noteq> 0 then strcmp m (l + 1) (r + 1)
      else Some (uint (m l) - uint (m r)))"

text \<open>
  \<open>strstr\<close> keeps the lengths in a signed 32-bit \<open>int\<close>; its result \<open>0\<close> is NULL.
\<close>

function strstr_loop :: "mem \<Rightarrow> u64 \<Rightarrow> u64 \<Rightarrow> int \<Rightarrow> int \<Rightarrow> int \<Rightarrow> u64" where
  "strstr_loop m hay needle i hay_l needle_l =
     (if i \<le> hay_l - needle_l
      then if memcmp m (hay + word_of_int i) needle (word_of_int needle_l) = 0
           then hay + word_of_int i
           else strstr_loop m hay needle (i + 1) hay_l needle_l
      else 0)"
  by pat_completeness auto
termination
  by (relation "measure (\<lambda>(m, h, n, i, hl, nl). nat (hl - nl + 1 - i))") auto

declare strstr_loop.simps [simp del]

definition to_int :: "u64 \<Rightarrow> int" where
  "to_int n = sint (ucast n :: u32)"

definition strstr :: "mem \<Rightarrow> u64 \<Rightarrow> u64 \<Rightarrow> u64 option" where
  "strstr m hay needle = do {
     hay_l \<leftarrow> strlen m hay;
     needle_l \<leftarrow> strlen m needle;
     Some (strstr_loop m hay needle 0 (to_int hay_l) (to_int needle_l))
   }"

section \<open>What memory holds\<close>

definition mem_bytes :: "mem \<Rightarrow> u64 \<Rightarrow> u8 list \<Rightarrow> bool" where
  "mem_bytes m a xs \<longleftrightarrow> (\<forall>i < length xs. m (a + of_nat i) = xs ! i)"

definition cstr :: "mem \<Rightarrow> u64 \<Rightarrow> u8 list \<Rightarrow> bool" where
  "cstr m a xs \<longleftrightarrow> mem_bytes m a (xs @ [0]) \<and> 0 \<notin> set xs"

lemma mem_bytes_Nil [simp]: "mem_bytes m a []"
  by (simp add: mem_bytes_def)

lemma mem_bytes_Cons [simp]: "mem_bytes m a (x # xs) \<longleftrightarrow> m a = x \<and> mem_bytes m (a + 1) xs"
  by (auto simp: mem_bytes_def All_less_Suc2 ac_simps)

lemma mem_bytes_append [simp]:
  "mem_bytes m a (xs @ ys) \<longleftrightarrow> mem_bytes m a xs \<and> mem_bytes m (a + of_nat (length xs)) ys"
  by (induction xs arbitrary: a) (auto simp: ac_simps)

lemma cstr_Nil [simp]: "cstr m a [] \<longleftrightarrow> m a = 0"
  by (simp add: cstr_def)

lemma cstr_Cons [simp]: "cstr m a (x # xs) \<longleftrightarrow> x \<noteq> 0 \<and> m a = x \<and> cstr m (a + 1) xs"
  by (auto simp: cstr_def)

section \<open>Copying\<close>

lemma word_eq_iff_minus: "a = d + of_nat i \<longleftrightarrow> a - d = (of_nat i :: u64)"
  by (auto simp: algebra_simps)

lemma minus_eq_of_nat: "i < 2 ^ 64 \<Longrightarrow> a - d = (of_nat i :: u64) \<longleftrightarrow> unat (a - d) = i"
  by (simp add: word_unat_eq_iff unat_of_nat)

text \<open>
  The ascending copy is right as long as no byte is read after it was overwritten.
\<close>

lemma memcpy_loop_spec:
  assumes "\<And>i' j. i \<le> i' \<Longrightarrow> i' < j \<Longrightarrow> j < n \<Longrightarrow> s + of_nat j \<noteq> d + (of_nat i' :: u64)"
    and "n \<le> 2 ^ 64"
  shows "memcpy_loop m d s i n a =
    (if i \<le> unat (a - d) \<and> unat (a - d) < n then m (s + (a - d)) else m a)"
  using assms
proof (induction m d s i n rule: memcpy_loop.induct)
  case (1 m d s i n)
  let ?m = "m(d + of_nat i := m (s + of_nat i))"
  show ?case
  proof (cases "i < n")
    case True
    then have i: "i < 2 ^ 64" using "1.prems"(2) by simp
    have IH: "memcpy_loop ?m d s (Suc i) n a =
      (if Suc i \<le> unat (a - d) \<and> unat (a - d) < n then ?m (s + (a - d)) else ?m a)"
      using "1.prems" by (intro "1.IH" [OF True]) auto
    have hit: "a = d + of_nat i \<longleftrightarrow> unat (a - d) = i"
      using i by (simp add: word_eq_iff_minus minus_eq_of_nat)
    have keep: "s + (a - d) \<noteq> d + of_nat i" if "Suc i \<le> unat (a - d)" "unat (a - d) < n"
      using "1.prems"(1) [of i "unat (a - d)"] that by auto
    show ?thesis
      using True IH hit keep
      by (subst memcpy_loop.simps) (auto simp: le_Suc_eq Suc_le_eq order_le_less)
  next
    case False
    then show ?thesis by (subst memcpy_loop.simps) auto
  qed
qed

lemma memcpy_loop_shift:
  "memcpy_loop m d s (Suc i) (Suc n) = memcpy_loop m (d + 1) (s + 1) i n"
proof (induction m "d + 1" "s + 1" i n rule: memcpy_loop.induct)
  case (1 m i n)
  show ?case
    by (subst (1 2) memcpy_loop.simps) (use 1 in \<open>auto simp: ac_simps\<close>)
qed

lemma memmove_fwd_memcpy_loop: "memmove_fwd m d s n = memcpy_loop m d s 0 n"
proof (induction m d s n rule: memmove_fwd.induct)
  case (1 m d s)
  show ?case by (subst memcpy_loop.simps) simp
next
  case (2 m d s n)
  then show ?case
    by (subst memcpy_loop.simps) (simp add: memcpy_loop_shift fun_upd_def)
qed

lemma memmove_bwd_spec:
  assumes "\<And>i' j. j < i' \<Longrightarrow> i' < n \<Longrightarrow> s + of_nat j \<noteq> d + (of_nat i' :: u64)"
    and "n \<le> 2 ^ 64"
  shows "memmove_bwd m d s n a = (if unat (a - d) < n then m (s + (a - d)) else m a)"
  using assms
proof (induction m d s n rule: memmove_bwd.induct)
  case (2 m d s n)
  have hit: "a = d + of_nat n \<longleftrightarrow> unat (a - d) = n"
    using "2.prems"(2) by (simp add: word_eq_iff_minus minus_eq_of_nat)
  have keep: "s + (a - d) \<noteq> d + of_nat n" if "unat (a - d) < n"
    using "2.prems"(1) [of "unat (a - d)" n] that by auto
  show ?case
    using "2.IH" [of] "2.prems" hit keep by (auto simp: less_Suc_eq fun_upd_def)
qed simp

lemma unat_plus_of_nat:
  "unat (p :: u64) + n \<le> 2 ^ 64 \<Longrightarrow> j < n \<Longrightarrow> unat (p + of_nat j) = unat p + j"
  by (simp add: unat_word_ariths unat_of_nat)

lemma plus_of_nat_neq:
  assumes "p < q" "i < j" "j < n" "unat (p :: u64) + n \<le> 2 ^ 64" "unat q + n \<le> 2 ^ 64"
  shows "q + of_nat j \<noteq> p + of_nat i"
proof -
  have "unat p < unat q"
    using assms(1) by (simp add: word_less_nat_alt)
  moreover have "unat (q + of_nat j) = unat q + j" "unat (p + of_nat i) = unat p + i"
    using assms by (simp_all add: unat_plus_of_nat [of _ n])
  ultimately have "unat (p + of_nat i) < unat (q + of_nat j)"
    using assms(2) by linarith
  then show ?thesis
    by auto
qed

lemma int_mod_shift:
  assumes "- M \<le> x" "x < (0 :: int)"
  shows "x mod M = x + M"
proof -
  have "x mod M = (x + M) mod M" by simp
  also have "\<dots> = x + M" using assms by (intro mod_pos_pos_trivial) auto
  finally show ?thesis .
qed

text \<open>
  The single comparison \<open>s - d - n <= -2 * n\<close> of \<open>memmove\<close> decides whether the two
  regions are disjoint, wrap-around included, for lengths up to half of the address space.
\<close>

lemma memmove_test:
  assumes "0 < unat n" "unat n \<le> 2 ^ 63"
  shows "(x :: u64) - n \<le> - 2 * n \<longleftrightarrow> unat n \<le> unat x \<and> unat x + unat n \<le> 2 ^ 64"
proof -
  let ?X = "uint x" and ?N = "uint n"
  have n: "?N = int (unat n)"
    by simp
  have "int (unat n) \<le> int (2 ^ 63)"
    using assms(2) by (simp only: of_nat_le_iff)
  then have N: "0 < ?N" "?N \<le> 2 ^ 63"
    using assms(1) by (simp_all only: n of_nat_power of_nat_numeral of_nat_0_less_iff)
  have X: "0 \<le> ?X" "?X < 2 ^ 64"
    using uint_lt2p [of x] by simp_all
  have "uint (x - n) = (?X - ?N) mod 2 ^ 64"
    by (simp add: uint_word_ariths)
  also have "\<dots> = (if ?N \<le> ?X then ?X - ?N else ?X - ?N + 2 ^ 64)"
  proof (cases "?N \<le> ?X")
    case True
    then have "0 \<le> ?X - ?N" "?X - ?N < 2 ^ 64" using N X by linarith+
    then have "(?X - ?N) mod 2 ^ 64 = ?X - ?N" by (rule mod_pos_pos_trivial)
    then show ?thesis using True by presburger
  next
    case False
    moreover have "(2 :: int) ^ 63 \<le> 2 ^ 64" by simp
    ultimately have "- (2 ^ 64) \<le> ?X - ?N" "?X - ?N < 0" using N X by linarith+
    then have "(?X - ?N) mod 2 ^ 64 = ?X - ?N + 2 ^ 64" by (rule int_mod_shift)
    then show ?thesis using False by presburger
  qed
  finally have l: "uint (x - n) = (if ?N \<le> ?X then ?X - ?N else ?X - ?N + 2 ^ 64)" .
  have "uint (- 2 * n) = (- 2 * ?N) mod 2 ^ 64"
    by (simp add: uint_word_ariths mod_simps)
  also have "\<dots> = 2 ^ 64 - 2 * ?N"
    using N by (simp add: int_mod_shift)
  finally have r: "uint (- 2 * n) = 2 ^ 64 - 2 * ?N" .
  have x: "?X = int (unat x)"
    by simp
  have "unat x + unat n \<le> 2 ^ 64 \<longleftrightarrow> int (unat x + unat n) \<le> int (2 ^ 64)"
    by (simp only: of_nat_le_iff)
  also have "\<dots> \<longleftrightarrow> ?X + ?N \<le> 2 ^ 64"
    by (simp only: n x of_nat_add of_nat_power of_nat_numeral)
  finally have sum: "unat x + unat n \<le> 2 ^ 64 \<longleftrightarrow> ?X + ?N \<le> 2 ^ 64" .
  have le: "unat n \<le> unat x \<longleftrightarrow> ?N \<le> ?X"
    by (simp only: n x of_nat_le_iff)
  have "((if N \<le> X then X - N else X - N + 2 ^ 64) \<le> 2 ^ 64 - 2 * N) =
    (N \<le> X \<and> X + N \<le> 2 ^ 64)" if "0 < N" "0 \<le> X" for N X :: int
    using that by auto
  then show ?thesis
    unfolding word_le_def l r sum le using N(1) X(1) .
qed

lemma disjoint_of_nat_neq:
  assumes "k \<le> unat (s - d)" "unat (s - d) + k \<le> 2 ^ 64" "i < j" "j < k"
  shows "s + of_nat j \<noteq> d + (of_nat i :: u64)"
proof
  assume "s + of_nat j = d + of_nat i"
  then have "(s - d) + of_nat (j - i) = 0"
    using \<open>i < j\<close> by (simp add: of_nat_diff algebra_simps)
  then have "unat ((s - d) + of_nat (j - i)) = 0"
    by simp
  moreover have "unat ((s - d) + of_nat (j - i)) = unat (s - d) + (j - i)"
    using assms by (intro unat_plus_of_nat [of _ k]) auto
  ultimately show False
    using assms by simp
qed

lemma memmove_spec:
  assumes n: "unat n \<le> 2 ^ 63"
    and s: "unat s + unat n \<le> 2 ^ 64" and d: "unat d + unat n \<le> 2 ^ 64"
  shows "memmove m d s n a = (if unat (a - d) < unat n then m (s + (a - d)) else m a)"
proof (cases "d = s \<or> unat n = 0")
  case True
  then show ?thesis
    by (auto simp: memmove_def memcpy_def memcpy_loop.simps [of m d s 0 0])
next
  case False
  then have "0 < unat n" "d \<noteq> s" by auto
  note test = memmove_test [OF \<open>0 < unat n\<close> n, of "s - d"]
  have n64: "unat n \<le> 2 ^ 64" using n by simp
  show ?thesis
  proof (cases "s - d - n \<le> - 2 * n")
    case True
    then have "s + of_nat j \<noteq> d + of_nat i'" if "i' < j" "j < unat n" for i' j
      using that test by (intro disjoint_of_nat_neq [of "unat n"]) auto
    then show ?thesis
      using True \<open>d \<noteq> s\<close> n64 by (simp add: memmove_def memcpy_def memcpy_loop_spec)
  next
    case tst: False
    show ?thesis
    proof (cases "d < s")
      case True
      then have "s + of_nat j \<noteq> d + of_nat i'" if "i' < j" "j < unat n" for i' j
        using that s d by (intro plus_of_nat_neq)
      then show ?thesis
        using tst True n64
        by (simp add: memmove_def memmove_fwd_memcpy_loop memcpy_loop_spec)
    next
      case False
      then have "s < d" using \<open>d \<noteq> s\<close> by simp
      then have "s + of_nat j \<noteq> d + of_nat i'" if "j < i'" "i' < unat n" for i' j
        using that s d by (metis plus_of_nat_neq)
      then show ?thesis
        using tst False \<open>d \<noteq> s\<close> n64 by (simp add: memmove_def memmove_bwd_spec)
    qed
  qed
qed

text \<open>
  C14: \<open>memmove\<close> copies \<open>n\<close> bytes from \<open>s\<close> to \<open>d\<close> as if through a temporary buffer,
  whatever the overlap of the two regions, and changes no other byte, for regions that do
  not wrap around the address space and lengths up to half of it.
\<close>

theorem memmove_copies:
  assumes "unat n \<le> 2 ^ 63"
    and "unat s + unat n \<le> 2 ^ 64" and "unat d + unat n \<le> 2 ^ 64"
  shows "memmove m d s n a = (if unat (a - d) < unat n then m (s + (a - d)) else m a)"
  using assms by (rule memmove_spec)

theorem memmove_copies_witness:
  "unat (3 :: u64) \<le> 2 ^ 63 \<and> unat (10 :: u64) + unat (3 :: u64) \<le> 2 ^ 64 \<and>
   unat (11 :: u64) + unat (3 :: u64) \<le> 2 ^ 64 \<and>
   memmove (\<lambda>a. ucast a) 11 10 3 13 = (12 :: u8)"
  using memmove_copies [of 3 10 11 "\<lambda>a. ucast a" 13] by simp

section \<open>Comparing and scanning\<close>

lemma memcmp_loop_eq_0:
  "memcmp_loop m l r n = 0 \<longleftrightarrow> (\<forall>i < n. m (l + of_nat i) = m (r + of_nat i))"
  by (induction m l r n rule: memcmp_loop.induct)
    (auto simp: All_less_Suc2 ac_simps dest: unsigned_word_eqI)

lemma strlen_from_cstr: "cstr m s xs \<Longrightarrow> strlen_from m a s = Some (s + of_nat (length xs) - a)"
  by (induction xs arbitrary: s) (auto simp: strlen_from.simps [of m a] ac_simps)

lemma strlen_cstr: "cstr m s xs \<Longrightarrow> strlen m s = Some (of_nat (length xs))"
  by (simp add: strlen_def strlen_from_cstr)

lemma strcmp_cstr:
  "cstr m l xs \<Longrightarrow> cstr m r ys \<Longrightarrow> \<exists>v. strcmp m l r = Some v \<and> (v = 0 \<longleftrightarrow> xs = ys)"
proof (induction xs arbitrary: l r ys)
  case Nil
  then show ?case
    by (cases ys) (auto simp: strcmp.simps [of m l r] uint_0_iff)
next
  case (Cons x xs)
  then show ?case
    by (cases ys) (auto simp: strcmp.simps [of m l r] uint_0_iff dest: unsigned_word_eqI)
qed

definition occurs_at :: "'a list \<Rightarrow> 'a list \<Rightarrow> nat \<Rightarrow> bool" where
  "occurs_at ys xs i \<longleftrightarrow> i + length ys \<le> length xs \<and> take (length ys) (drop i xs) = ys"

lemma memcmp_occurs:
  assumes "mem_bytes m hay xs" "mem_bytes m needle ys" "i + length ys \<le> length xs"
    and "length xs < 2 ^ 31"
  shows "memcmp m (hay + of_nat i) needle (of_nat (length ys)) = 0 \<longleftrightarrow> occurs_at ys xs i"
proof -
  have "unat (of_nat (length ys) :: u64) = length ys"
    using assms by (simp add: unat_of_nat)
  then have "memcmp m (hay + of_nat i) needle (of_nat (length ys)) = 0 \<longleftrightarrow>
    (\<forall>k < length ys. m (hay + of_nat (i + k)) = m (needle + of_nat k))"
    by (simp add: memcmp_def memcmp_loop_eq_0 ac_simps)
  also have "\<dots> \<longleftrightarrow> (\<forall>k < length ys. xs ! (i + k) = ys ! k)"
  proof -
    have "m (hay + of_nat (i + k)) = xs ! (i + k)" "m (needle + of_nat k) = ys ! k"
      if "k < length ys" for k
      using assms(1-3) that unfolding mem_bytes_def by (auto simp del: of_nat_add)
    then show ?thesis by simp
  qed
  also have "\<dots> \<longleftrightarrow> occurs_at ys xs i"
    using assms(3) by (auto simp: occurs_at_def list_eq_iff_nth_eq)
  finally show ?thesis .
qed

definition first_from :: "'a list \<Rightarrow> 'a list \<Rightarrow> nat \<Rightarrow> nat option" where
  "first_from ys xs i = List.find (occurs_at ys xs) [i..<Suc (length xs)]"

lemma first_from_step:
  "first_from ys xs i =
     (if i + length ys \<le> length xs
      then if occurs_at ys xs i then Some i else first_from ys xs (Suc i) else None)"
proof (cases "i + length ys \<le> length xs")
  case True
  then have "[i..<Suc (length xs)] = i # [Suc i..<Suc (length xs)]"
    by (intro upt_conv_Cons) simp
  with True show ?thesis
    by (simp only: first_from_def List.find.simps if_True)
next
  case False
  then have "\<forall>j \<in> set [i..<Suc (length xs)]. \<not> occurs_at ys xs j"
    by (auto simp: occurs_at_def)
  with False show ?thesis
    unfolding first_from_def by (simp add: find_None_iff del: upt_Suc)
qed

lemma strstr_loop_first:
  assumes "mem_bytes m hay xs" "mem_bytes m needle ys" "length xs < 2 ^ 31"
  shows "strstr_loop m hay needle (int i) (int (length xs)) (int (length ys)) =
    (case first_from ys xs i of Some j \<Rightarrow> hay + of_nat j | None \<Rightarrow> 0)"
proof (induction "Suc (length xs) - i" arbitrary: i rule: less_induct)
  case less
  show ?case
  proof (cases "i + length ys \<le> length xs")
    case True
    then have "Suc (length xs) - Suc i < Suc (length xs) - i" by simp
    from less [OF this] have IH:
      "strstr_loop m hay needle (int i + 1) (int (length xs)) (int (length ys)) =
        (case first_from ys xs (Suc i) of Some j \<Rightarrow> hay + of_nat j | None \<Rightarrow> 0)"
      by (simp add: add.commute)
    have "memcmp m (hay + of_nat i) needle (of_nat (length ys)) = 0 \<longleftrightarrow> occurs_at ys xs i"
      using assms True by (intro memcmp_occurs)
    with True IH show ?thesis
      by (subst strstr_loop.simps, subst first_from_step) (simp add: le_diff_eq)
  next
    case False
    then show ?thesis
      by (subst strstr_loop.simps, subst first_from_step) simp
  qed
qed

lemma to_int_of_nat: "n < 2 ^ 31 \<Longrightarrow> to_int (of_nat n) = int n"
  unfolding to_int_def
  by (simp add: unsigned_of_nat signed_of_nat take_bit_nat_eq_self signed_take_bit_int_eq_self)

text \<open>
  On two C strings of less than 2 GiB, \<open>strstr\<close> ends and returns the address of the first
  occurrence of the needle, and NULL exactly when the needle does not occur.
\<close>

theorem strstr_finds_first:
  assumes "cstr m hay xs" "cstr m needle ys" "length xs < 2 ^ 31" "length ys < 2 ^ 31"
  shows "strstr m hay needle =
    Some (case first_from ys xs 0 of Some j \<Rightarrow> hay + of_nat j | None \<Rightarrow> 0)"
  using assms strstr_loop_first [of m hay xs needle ys 0]
  by (simp add: strstr_def strlen_cstr to_int_of_nat) (simp add: cstr_def)

definition sample_mem :: mem where
  "sample_mem a = (if a < 6 then ([2, 1, 2, 3, 2, 0] ! unat a) else if a = 8 then 2
    else if a = 9 then 3 else 0)"

theorem strstr_finds_first_witness:
  "cstr sample_mem 0 [2, 1, 2, 3, 2] \<and> cstr sample_mem 8 [2, 3] \<and>
   strstr sample_mem 0 8 = Some 2"
proof -
  have h: "cstr sample_mem 0 [2, 1, 2, 3, 2]" "cstr sample_mem 8 [2, 3]"
    by (simp_all add: sample_mem_def)
  have "first_from [2, 3] [2, 1, 2, 3, 2 :: u8] 0 = Some 2"
    by (simp add: first_from_step occurs_at_def eval_nat_numeral)
  then show ?thesis
    using h strstr_finds_first [OF h] by simp
qed

end
