(* ===== verification/Strbuf.thy ===== *)
theory Strbuf
  imports Prelude
begin

text \<open>
  The bounded string buffer of \<open>src/src/strbuf.c\<close>. The C structure holds three pointers
  into one allocation; the model holds the bytes of the allocation and the offsets of
  \<open>end\<close> and \<open>cur\<close> from \<open>start\<close>. A printf argument that has the wrong type, or
  a format that ends in a lone percent sign (the code then steps over the NUL), is
  undefined behaviour in C and \<open>None\<close> here.
\<close>

section \<open>State and operations\<close>

record strbuf =
  buf :: "u8 list"
  endp :: nat
  cur :: nat

text \<open>\<open>junk\<close> is what \<open>malloc\<close> returns: \<open>buf_size\<close> bytes that nobody has cleared.\<close>

definition strbuf_new :: "u8 list \<Rightarrow> u32 \<Rightarrow> strbuf" where
  "strbuf_new junk buf_size = \<lparr>buf = junk, endp = unat (buf_size - 1), cur = 0\<rparr>"

definition strbuf_putc :: "strbuf \<Rightarrow> u8 \<Rightarrow> strbuf" where
  "strbuf_putc b ch =
     (if cur b < endp b
      then b\<lparr>buf := (buf b)[cur b := ch, Suc (cur b) := 0], cur := Suc (cur b)\<rparr> else b)"

fun strbuf_puts :: "strbuf \<Rightarrow> u8 list \<Rightarrow> strbuf" where
  "strbuf_puts b [] = b"
| "strbuf_puts b (c # cs) = strbuf_puts (strbuf_putc b c) cs"

text \<open>The \<open>do ... while\<close> of \<open>strbuf_uint\<close>: digits are stored downwards from the end.\<close>

function strbuf_uint_loop :: "u32 \<Rightarrow> u8 list \<Rightarrow> u8 list" where
  "strbuf_uint_loop v p =
     (let p' = (48 + ucast (v mod 10)) # p; v' = v div 10
      in if v' \<noteq> 0 then strbuf_uint_loop v' p' else p')"
  by pat_completeness auto
termination
  by (relation "measure (\<lambda>(v, p). unat v)") (auto simp: unat_div_10 intro!: unat_div_10_less)

declare strbuf_uint_loop.simps [simp del]

definition strbuf_uint :: "strbuf \<Rightarrow> u32 \<Rightarrow> strbuf" where
  "strbuf_uint b value = strbuf_puts b (strbuf_uint_loop value [])"

datatype fmt_arg = ArgStr "u8 list" | ArgUInt u32 | ArgInt u32

fun strbuf_printf :: "strbuf \<Rightarrow> u8 list \<Rightarrow> fmt_arg list \<Rightarrow> strbuf option" where
  "strbuf_printf b [] args = Some b"
| "strbuf_printf b (c # p) args =
     (if c = of_char CHR ''%'' then
        (case p of
           [] \<Rightarrow> None
         | d # p' \<Rightarrow>
             if d = of_char CHR ''s'' then
               (case args of ArgStr s # as \<Rightarrow> strbuf_printf (strbuf_puts b s) p' as | _ \<Rightarrow> None)
             else if d = of_char CHR ''u'' then
               (case args of ArgUInt v # as \<Rightarrow> strbuf_printf (strbuf_uint b v) p' as | _ \<Rightarrow> None)
             else if d = of_char CHR ''c'' then
               (case args of
                  ArgInt v # as \<Rightarrow> strbuf_printf (strbuf_putc b (ucast v)) p' as | _ \<Rightarrow> None)
             else if d = of_char CHR ''%'' then strbuf_printf (strbuf_putc b d) p' args
             else strbuf_printf b p' args)
      else strbuf_printf (strbuf_putc b c) p args)"

section \<open>Specification: an unbounded text\<close>

text \<open>
  The buffer promises the text that an unbounded printf would produce, cut to its capacity.
\<close>

fun fmt_text :: "u8 list \<Rightarrow> fmt_arg list \<Rightarrow> u8 list option" where
  "fmt_text [] args = Some []"
| "fmt_text (c # p) args =
     (if c \<noteq> of_char CHR ''%'' then map_option ((#) c) (fmt_text p args)
      else case p of
        [] \<Rightarrow> None
      | d # p' \<Rightarrow>
          if d = of_char CHR ''s'' then
            (case args of ArgStr s # as \<Rightarrow> map_option ((@) s) (fmt_text p' as) | _ \<Rightarrow> None)
          else if d = of_char CHR ''u'' then
            (case args of
               ArgUInt v # as \<Rightarrow> map_option ((@) (strbuf_uint_loop v [])) (fmt_text p' as)
             | _ \<Rightarrow> None)
          else if d = of_char CHR ''c'' then
            (case args of ArgInt v # as \<Rightarrow> map_option ((#) (ucast v)) (fmt_text p' as) | _ \<Rightarrow> None)
          else if d = of_char CHR ''%'' then map_option ((#) d) (fmt_text p' args)
          else fmt_text p' args)"

definition text_of :: "strbuf \<Rightarrow> u8 list" where
  "text_of b = take (cur b) (buf b)"

text \<open>
  The representation invariant: the cursor and the byte after it are inside the
  allocation, and once something was written the text is NUL-terminated.
\<close>

definition strbuf_wf :: "strbuf \<Rightarrow> bool" where
  "strbuf_wf b \<longleftrightarrow> cur b \<le> endp b \<and> endp b < length (buf b) \<and>
     (0 < cur b \<longrightarrow> buf b ! cur b = 0)"

lemma strbuf_new_wf:
  "0 < unat n \<Longrightarrow> length junk = unat n \<Longrightarrow> strbuf_wf (strbuf_new junk n)"
  by (simp add: strbuf_wf_def strbuf_new_def unat_gt_0 unat_minus_one)

lemma strbuf_new_text [simp]: "text_of (strbuf_new junk n) = []"
  by (simp add: text_of_def strbuf_new_def)

lemma strbuf_putc_endp [simp]: "endp (strbuf_putc b c) = endp b"
  by (simp add: strbuf_putc_def)

lemma strbuf_puts_endp [simp]: "endp (strbuf_puts b cs) = endp b"
  by (induction b cs rule: strbuf_puts.induct) auto

lemma strbuf_putc_wf: "strbuf_wf b \<Longrightarrow> strbuf_wf (strbuf_putc b c)"
  by (auto simp: strbuf_wf_def strbuf_putc_def)

lemma strbuf_putc_text:
  "strbuf_wf b \<Longrightarrow> text_of (strbuf_putc b c) = take (endp b) (text_of b @ [c])"
  by (auto simp: strbuf_wf_def strbuf_putc_def text_of_def take_Suc_conv_app_nth)

lemma strbuf_puts_wf: "strbuf_wf b \<Longrightarrow> strbuf_wf (strbuf_puts b cs)"
  by (induction b cs rule: strbuf_puts.induct) (auto intro: strbuf_putc_wf)

lemma length_text_of: "strbuf_wf b \<Longrightarrow> length (text_of b) \<le> endp b"
  by (auto simp: strbuf_wf_def text_of_def)

lemma strbuf_puts_text:
  "strbuf_wf b \<Longrightarrow> text_of (strbuf_puts b cs) = take (endp b) (text_of b @ cs)"
proof (induction b cs rule: strbuf_puts.induct)
  case (1 b)
  then show ?case by (simp add: length_text_of)
next
  case (2 b c cs)
  then show ?case
    by (simp add: strbuf_putc_wf strbuf_putc_text take_take_append del: take_append)
qed

lemma strbuf_puts_append: "strbuf_puts b (xs @ ys) = strbuf_puts (strbuf_puts b xs) ys"
  by (induction b xs rule: strbuf_puts.induct) auto

lemma strbuf_printf_puts: "strbuf_printf b fmt args = map_option (strbuf_puts b) (fmt_text fmt args)"
  by (induction b fmt args rule: strbuf_printf.induct)
    (auto simp: strbuf_uint_def strbuf_puts_append option.map_comp comp_def
      split: list.split fmt_arg.split)

section \<open>Decimal numbers\<close>

lemma strbuf_uint_loop_value:
  "decimal_value (strbuf_uint_loop v p) = unat v * 10 ^ length p + decimal_value p"
proof (induction v p rule: strbuf_uint_loop.induct)
  case (1 v p)
  note d = digit_value_word_mod(1) [of v]
  show ?case
  proof (cases "v div 10 = 0")
    case True
    then have "unat v div 10 = 0"
      by (metis unat_0 unat_div_10(1))
    with True show ?thesis
      by (subst strbuf_uint_loop.simps, subst decimal_step) (simp add: decimal_value_Cons d)
  next
    case False
    with 1 [OF refl refl] show ?thesis
      by (subst strbuf_uint_loop.simps, subst decimal_step)
        (simp add: decimal_value_Cons d unat_div_10)
  qed
qed

lemma strbuf_uint_value: "decimal_value (strbuf_uint_loop v []) = unat v"
  by (simp add: strbuf_uint_loop_value)

text \<open>A 32-bit value has at most ten digits, so the eleven bytes of \<open>buf\<close> suffice.\<close>

lemma strbuf_uint_length_step:
  "unat v < 10 ^ Suc k \<Longrightarrow> length (strbuf_uint_loop v p) \<le> Suc k + length p"
proof (induction k arbitrary: v p)
  case 0
  then have "v div 10 = 0"
    by (metis One_nat_def div_less power_one_right unat_0_iff unat_div_10(1))
  then show ?case
    by (subst strbuf_uint_loop.simps) simp
next
  case (Suc k)
  then have "unat (v div 10) < 10 ^ Suc k"
    by (simp add: unat_div_10 less_mult_imp_div_less)
  from Suc.IH [OF this, of "(48 + ucast (v mod 10)) # p"] show ?case
    by (subst strbuf_uint_loop.simps) (simp add: Let_def)
qed

lemma strbuf_uint_fits: "length (strbuf_uint_loop v []) \<le> 10"
proof -
  have "unat v < 2 ^ 32" using unsigned_less [of v] by simp
  then show ?thesis
    using strbuf_uint_length_step [of v 9 "[]"] by simp
qed

section \<open>Properties\<close>

text \<open>
  A printf into a buffer that satisfies its invariant keeps the invariant (no write
  outside the allocation, NUL-terminated) and leaves the text an unbounded printf would
  have produced after the old text, cut to the capacity.
\<close>

theorem strbuf_printf_truncates:
  assumes "strbuf_wf b" "fmt_text fmt args = Some out"
  shows "\<exists>b'. strbuf_printf b fmt args = Some b' \<and> strbuf_wf b' \<and>
    text_of b' = take (endp b) (text_of b @ out)"
  using assms by (simp add: strbuf_printf_puts strbuf_puts_wf strbuf_puts_text)

theorem strbuf_printf_truncates_witness:
  "strbuf_wf (strbuf_new (replicate 6 255) 6) \<and>
   fmt_text (bytes ''v%u%%'') [ArgUInt 1024] = Some (bytes ''v1024%'') \<and>
   (\<exists>b'. strbuf_printf (strbuf_new (replicate 6 255) 6) (bytes ''v%u%%'') [ArgUInt 1024] =
     Some b' \<and> text_of b' = bytes ''v1024'')"
proof -
  let ?b = "strbuf_new (replicate 6 255) 6"
  have wf: "strbuf_wf ?b"
    by (rule strbuf_new_wf) simp_all
  have out: "fmt_text (bytes ''v%u%%'') [ArgUInt 1024] = Some (bytes ''v1024%'')"
    by (simp add: bytes_def strbuf_uint_loop.simps)
  have "endp ?b = 5"
    by (simp add: strbuf_new_def)
  then show ?thesis
    using wf out strbuf_printf_truncates [OF wf out] by (auto simp: bytes_def)
qed

text \<open>
  The digits \<open>strbuf_uint\<close> emits read back as the number, and there are at most ten
  of them, so the local array of eleven bytes is large enough.
\<close>

theorem strbuf_uint_roundtrip:
  "decimal_value (strbuf_uint_loop v []) = unat v \<and> length (strbuf_uint_loop v []) + 1 \<le> 11"
  using strbuf_uint_value [of v] strbuf_uint_fits [of v] by simp

end
