(* ===== verification/Bootfs_Format.thy ===== *)
theory Bootfs_Format
  imports Prelude
begin

text \<open>
  The on-disk structures of \<open>src/src/bootfs.h\<close>, as records whose integer fields hold the
  values and as the bytes the two programs exchange. The interface of a fixed-size
  structure is the locale \<open>fixed_codec\<close>; an array of such structures is read back
  element by element, which is proved once in the locale and used for the image table of a
  configuration, the file table of a files block and the table of metadata blocks.
\<close>

section \<open>Fixed-size structures\<close>

locale fixed_codec =
  fixes enc :: "'a \<Rightarrow> u8 list"
    and dec :: "u8 list \<Rightarrow> 'a"
    and wf :: "'a \<Rightarrow> bool"
    and size :: nat
  assumes length_enc: "wf x \<Longrightarrow> length (enc x) = size"
    and dec_enc: "wf x \<Longrightarrow> dec (enc x @ ys) = x"
    and size_pos: "0 < size"
begin

lemma length_concat_enc: "\<forall>x \<in> set xs. wf x \<Longrightarrow> length (concat (map enc xs)) = size * length xs"
  by (induction xs) (auto simp: length_enc)

lemma drop_concat_enc:
  "\<forall>x \<in> set xs. wf x \<Longrightarrow> i \<le> length xs \<Longrightarrow>
    drop (size * i) (concat (map enc xs) @ ys) = concat (map enc (drop i xs)) @ ys"
proof (induction xs arbitrary: i)
  case Nil
  then show ?case by simp
next
  case (Cons x xs)
  then show ?case
    by (cases i) (simp_all add: length_enc)
qed

lemma dec_nth:
  assumes "\<forall>x \<in> set xs. wf x" "i < length xs"
  shows "dec (drop (size * i) (concat (map enc xs) @ ys)) = xs ! i"
proof -
  have "drop i xs = xs ! i # drop (Suc i) xs"
    using assms(2) by (rule Cons_nth_drop_Suc [symmetric])
  moreover have "wf (xs ! i)"
    using assms by simp
  ultimately show ?thesis
    using assms by (simp add: drop_concat_enc dec_enc del: drop_append)
qed

lemma dec_array:
  assumes "\<forall>x \<in> set xs. wf x"
  shows "map (\<lambda>i. dec (drop (size * i) (concat (map enc xs) @ ys))) [0..<length xs] = xs"
  by (rule nth_equalityI) (simp_all add: assms dec_nth del: drop_append)

end

section \<open>The structures of bootfs\<close>

record bootfs_sb =
  sb_magic :: "u8 list"
  sb_version :: u32
  sb_default_conf :: u32
  sb_device_id :: "u8 list"
  sb_res :: "u8 list"

record bootfs_image =
  im_type :: u32
  im_data_off :: u32
  im_data_len :: u32

record bootfs_conf =
  bc_magic :: "u8 list"
  bc_images :: "bootfs_image list"
  bc_boot_args :: "u8 list"
  bc_name :: "u8 list"

record bootfs_file =
  fi_name :: "u8 list"
  fi_data_off :: u32
  fi_data_len :: u32

record bootfs_files =
  bf_magic :: "u8 list"
  bf_files :: "bootfs_file list"

definition block_size :: nat where
  "block_size = 2048"

definition boot_args_size :: nat where
  "boot_args_size = 2048 - 8 - 8 * 12 - 96"

definition enc_sb :: "bootfs_sb \<Rightarrow> u8 list" where
  "enc_sb s = sb_magic s @ be32_bytes (sb_version s) @ be32_bytes (sb_default_conf s) @
     sb_device_id s @ sb_res s"

definition dec_sb :: "u8 list \<Rightarrow> bootfs_sb" where
  "dec_sb b = \<lparr>sb_magic = take 8 b, sb_version = be32_of (drop 8 b),
     sb_default_conf = be32_of (drop 12 b), sb_device_id = take 32 (drop 16 b),
     sb_res = take 2000 (drop 48 b)\<rparr>"

definition wf_sb :: "bootfs_sb \<Rightarrow> bool" where
  "wf_sb s \<longleftrightarrow> length (sb_magic s) = 8 \<and> length (sb_device_id s) = 32 \<and> length (sb_res s) = 2000"

definition enc_image :: "bootfs_image \<Rightarrow> u8 list" where
  "enc_image i = be32_bytes (im_type i) @ be32_bytes (im_data_off i) @ be32_bytes (im_data_len i)"

definition dec_image :: "u8 list \<Rightarrow> bootfs_image" where
  "dec_image b =
     \<lparr>im_type = be32_of b, im_data_off = be32_of (drop 4 b), im_data_len = be32_of (drop 8 b)\<rparr>"

definition enc_conf :: "bootfs_conf \<Rightarrow> u8 list" where
  "enc_conf c = bc_magic c @ concat (map enc_image (bc_images c)) @ bc_boot_args c @ bc_name c"

definition dec_conf :: "u8 list \<Rightarrow> bootfs_conf" where
  "dec_conf b = \<lparr>bc_magic = take 8 b,
     bc_images = map (\<lambda>i. dec_image (drop (12 * i) (drop 8 b))) [0..<8],
     bc_boot_args = take boot_args_size (drop 104 b),
     bc_name = take 96 (drop (104 + boot_args_size) b)\<rparr>"

definition wf_conf :: "bootfs_conf \<Rightarrow> bool" where
  "wf_conf c \<longleftrightarrow> length (bc_magic c) = 8 \<and> length (bc_images c) = 8 \<and>
     length (bc_boot_args c) = boot_args_size \<and> length (bc_name c) = 96"

definition enc_file :: "bootfs_file \<Rightarrow> u8 list" where
  "enc_file f = fi_name f @ be32_bytes (fi_data_off f) @ be32_bytes (fi_data_len f)"

definition dec_file :: "u8 list \<Rightarrow> bootfs_file" where
  "dec_file b = \<lparr>fi_name = take 32 b, fi_data_off = be32_of (drop 32 b),
     fi_data_len = be32_of (drop 36 b)\<rparr>"

definition wf_file :: "bootfs_file \<Rightarrow> bool" where
  "wf_file f \<longleftrightarrow> length (fi_name f) = 32"

definition enc_files :: "bootfs_files \<Rightarrow> u8 list" where
  "enc_files f = bf_magic f @ concat (map enc_file (bf_files f))"

definition dec_files :: "u8 list \<Rightarrow> bootfs_files" where
  "dec_files b = \<lparr>bf_magic = take 8 b,
     bf_files = map (\<lambda>j. dec_file (drop (40 * j) (drop 8 b))) [0..<51]\<rparr>"

definition wf_files :: "bootfs_files \<Rightarrow> bool" where
  "wf_files f \<longleftrightarrow> length (bf_magic f) = 8 \<and> length (bf_files f) = 51 \<and>
     (\<forall>x \<in> set (bf_files f). wf_file x)"

section \<open>The structures satisfy the interface\<close>

interpretation sb_codec: fixed_codec enc_sb dec_sb wf_sb 2048
  by unfold_locales (auto simp: enc_sb_def dec_sb_def wf_sb_def)

interpretation image_codec: fixed_codec enc_image dec_image "\<lambda>_. True" 12
  by unfold_locales (auto simp: enc_image_def dec_image_def)

interpretation file_codec: fixed_codec enc_file dec_file wf_file 40
  by unfold_locales (auto simp: enc_file_def dec_file_def wf_file_def)

interpretation conf_codec: fixed_codec enc_conf dec_conf wf_conf 2048
proof unfold_locales
  fix c assume c: "wf_conf c"
  then have len: "length (concat (map enc_image (bc_images c))) = 96"
    by (simp add: image_codec.length_concat_enc wf_conf_def)
  with c show "length (enc_conf c) = 2048"
    by (simp add: wf_conf_def enc_conf_def boot_args_size_def)
  fix ys
  let ?rest = "bc_boot_args c @ bc_name c @ ys"
  have "map (\<lambda>i. dec_image (drop (12 * i) (concat (map enc_image (bc_images c)) @ ?rest))) [0..<8] =
      bc_images c"
    using image_codec.dec_array [of "bc_images c" ?rest] c
    by (simp add: wf_conf_def del: drop_append)
  moreover have "drop 8 (enc_conf c @ ys) = concat (map enc_image (bc_images c)) @ ?rest"
    using c by (simp add: wf_conf_def enc_conf_def)
  ultimately show "dec_conf (enc_conf c @ ys) = c"
    using c len unfolding dec_conf_def
    by (simp only:) (simp add: wf_conf_def enc_conf_def boot_args_size_def)
qed simp

interpretation files_codec: fixed_codec enc_files dec_files wf_files 2048
proof unfold_locales
  fix f assume f: "wf_files f"
  then have len: "length (concat (map enc_file (bf_files f))) = 2040"
    by (simp add: file_codec.length_concat_enc wf_files_def)
  with f show "length (enc_files f) = 2048"
    by (simp add: wf_files_def enc_files_def)
  fix ys
  have "map (\<lambda>j. dec_file (drop (40 * j) (concat (map enc_file (bf_files f)) @ ys))) [0..<51] =
      bf_files f"
    using file_codec.dec_array [of "bf_files f" ys] f by (simp add: wf_files_def del: drop_append)
  moreover have "drop 8 (enc_files f @ ys) = concat (map enc_file (bf_files f)) @ ys"
    using f by (simp add: wf_files_def enc_files_def)
  ultimately show "dec_files (enc_files f @ ys) = f"
    using f unfolding dec_files_def
    by (simp only:) (simp add: wf_files_def enc_files_def)
qed simp

end
