(* ===== verification/Conf_Tool.thy ===== *)
theory Conf_Tool
  imports Bootfs_Format
begin

text \<open>
  \<open>p-boot-conf\<close>, the host tool of \<open>src/src/conf.c\<close>: it parses \<open>boot.conf\<close>,
  collects the files directory and writes the boot filesystem. The operating system is the
  record \<open>os\<close>, a parameter: path resolution, what can be opened and the bytes read from
  an open file, and the directory listing. A call of \<open>exit(1)\<close> is an \<open>Inl\<close> with the
  reason. Writes to the block device are taken to succeed, a failing one makes the tool
  exit. C strings are lists of characters, cut where \<open>snprintf\<close> cuts them.
\<close>

section \<open>State\<close>

datatype dirent_kind = RegularFile | OtherFile | StatFails

record os =
  path_max :: nat
  os_realpath :: "string \<Rightarrow> string option"
  os_readable :: "string \<Rightarrow> bool"
  os_content :: "string \<Rightarrow> u8 list"
  os_fopen :: "string \<Rightarrow> string option"
  os_opendir :: "string \<Rightarrow> ((string \<times> dirent_kind) list \<times> bool) option"

record data =
  d_path :: string
  d_fd :: string
  d_offset :: u32
  d_size :: u32

record bconf =
  c_index :: int
  c_path :: string
  c_name :: string
  c_bootargs :: string
  c_images :: "(char \<times> nat) list"

text \<open>
  The static variables. A pointer to a \<open>struct data\<close> is its position in
  \<open>data_list\<close>; an unused slot of \<open>confs\<close> is \<open>None\<close>.
\<close>

record tool =
  device_id :: "string option"
  data_list :: "data list"
  confs :: "bconf option list"
  files :: "(string \<times> nat) list"

definition tool_init :: tool where
  "tool_init = \<lparr>device_id = None, data_list = [], confs = replicate 32 None, files = []\<rparr>"

datatype conf_error =
    CannotResolve string | CannotOpen string | SlotTaken int string | MissingName int
  | MissingImage int string | CannotOpenConf string | MultipleDeviceId nat | DeviceIdTooLong nat
  | IndexOutOfRange nat int | NoIndex nat | ImageAlreadySet nat string
  | CannotOpenDir string | CannotReadDir string | CannotStat string
  | FileNameTooLong string | TooManyFiles

section \<open>Parsing the configuration\<close>

fun find_data :: "string \<Rightarrow> data list \<Rightarrow> nat option" where
  "find_data rpath [] = None"
| "find_data rpath (d # ds) =
     (if rpath = d_path d then Some 0 else map_option Suc (find_data rpath ds))"

definition data_add_file :: "os \<Rightarrow> string \<Rightarrow> tool \<Rightarrow> conf_error + nat \<times> tool" where
  "data_add_file os path t =
     (case os_realpath os path of
        None \<Rightarrow> Inl (CannotResolve path)
      | Some rpath \<Rightarrow>
          (case find_data rpath (data_list t) of
             Some i \<Rightarrow> Inr (i, t)
           | None \<Rightarrow>
               if \<not> os_readable os rpath then Inl (CannotOpen path)
               else Inr (length (data_list t),
                 t\<lparr>data_list := data_list t @
                   [\<lparr>d_path = take (path_max os - 1) rpath, d_fd = rpath,
                     d_offset = 0, d_size = 0\<rparr>]\<rparr>)))"

definition image_types :: "(string \<times> char \<times> bool) list" where
  "image_types = [
     (''linux'', CHR ''L'', False),
     (''initramfs'', CHR ''I'', True),
     (''atf'', CHR ''A'', False),
     (''dtb'', CHR ''D'', False),
     (''dtb2'', CHR ''2'', True),
     (''splash'', CHR ''S'', True)]"

fun missing_image :: "(string \<times> char \<times> bool) list \<Rightarrow> (char \<times> nat) list \<Rightarrow> string option" where
  "missing_image [] images = None"
| "missing_image ((conf_var, type, optional) # ts) images =
     (if optional then missing_image ts images
      else if \<exists>im \<in> set images. fst im = type then missing_image ts images
      else Some conf_var)"

definition complete_conf :: "bconf \<Rightarrow> tool \<Rightarrow> conf_error + tool" where
  "complete_conf c t =
     (case confs t ! nat (c_index c) of
        Some c' \<Rightarrow> Inl (SlotTaken (c_index c) (c_path c'))
      | None \<Rightarrow>
          if c_name c = [] then Inl (MissingName (c_index c))
          else (case missing_image image_types (c_images c) of
            Some v \<Rightarrow> Inl (MissingImage (c_index c) v)
          | None \<Rightarrow> Inr (t\<lparr>confs := (confs t)[nat (c_index c) := Some c]\<rparr>)))"

text \<open>
  \<open>fgets\<close> into the 4096-byte line: at most 4095 characters, up to and with a newline; the
  line the code then sees ends at the first NUL. The trailing blanks go first (the loop
  tests \<open>line[-1]\<close> when the whole line was blank, which is outside the array; the model
  is the case that no blank is found there).
\<close>

definition fgets :: "string \<Rightarrow> string \<times> string" where
  "fgets s =
     (let l = take 4095 s; k = length (takeWhile (\<lambda>c. c \<noteq> CHR 0x0A) l)
      in if k < length l then (take (Suc k) l, drop (Suc k) s) else (l, drop (length l) s))"

lemma fgets_shorter: "s \<noteq> [] \<Longrightarrow> length (snd (fgets s)) < length s"
  by (cases s) (auto simp: fgets_def Let_def)

function fgets_lines :: "string \<Rightarrow> string list" where
  "fgets_lines s =
     (if s = [] then []
      else takeWhile (\<lambda>c. c \<noteq> CHR 0x00) (fst (fgets s)) # fgets_lines (snd (fgets s)))"
  by pat_completeness auto
termination
  by (relation "measure length") (auto intro: fgets_shorter)

declare fgets_lines.simps [simp del]

definition blank :: "char \<Rightarrow> bool" where
  "blank c \<longleftrightarrow> c = CHR '' '' \<or> c = CHR 0x09"

definition rtrim :: "(char \<Rightarrow> bool) \<Rightarrow> string \<Rightarrow> string" where
  "rtrim p s = rev (dropWhile p (rev s))"

datatype conf_line = Skip | Warn | Assign string string

definition parse_line :: "string \<Rightarrow> conf_line" where
  "parse_line line =
     (let name = dropWhile blank (rtrim (\<lambda>c. blank c \<or> c = CHR 0x0A) line)
      in case name of
           [] \<Rightarrow> Skip
         | c # _ \<Rightarrow>
             if c = CHR ''#'' then Skip
             else (let pre = takeWhile (\<lambda>c. c \<noteq> CHR ''='') name
                   in if length pre = length name then Warn
                      else Assign (rtrim blank pre)
                        (dropWhile blank (drop (Suc (length pre)) name))))"

text \<open>
  \<open>atoi\<close>: white space, a sign, digits; the value as an unbounded integer (C leaves a value
  outside \<open>int\<close> undefined; here it fails the range check that follows).
\<close>

definition isspace :: "char \<Rightarrow> bool" where
  "isspace c \<longleftrightarrow> c = CHR '' '' \<or> of_char c \<in> {9..13 :: nat}"

definition isdigit :: "char \<Rightarrow> bool" where
  "isdigit c \<longleftrightarrow> of_char c \<in> {48..57 :: nat}"

definition digits_int :: "string \<Rightarrow> int" where
  "digits_int s = foldl (\<lambda>n c. 10 * n + (of_char c - 48)) 0 (takeWhile isdigit s)"

definition atoi :: "string \<Rightarrow> int" where
  "atoi s =
     (case dropWhile isspace s of
        [] \<Rightarrow> 0
      | c # r \<Rightarrow>
          if c = CHR ''-'' then - digits_int r
          else if c = CHR ''+'' then digits_int r else digits_int (c # r))"

text \<open>The body of the loop of \<open>parse_conf\<close> for one valid line.\<close>

record parse =
  p_tool :: tool
  p_conf :: bconf
  p_started :: bool
  p_line :: nat

definition set_image :: "os \<Rightarrow> string \<Rightarrow> string \<Rightarrow> string \<times> char \<times> bool \<Rightarrow> parse \<Rightarrow> conf_error + parse" where
  "set_image os conf_dir val it s =
     (let path = take (path_max os - 1)
            (if take 1 val = ''/'' then val else conf_dir @ ''/'' @ val)
      in bindE (data_add_file os path (p_tool s)) (\<lambda>(d, t).
           if \<exists>im \<in> set (c_images (p_conf s)). fst im = fst (snd it)
           then Inl (ImageAlreadySet (p_line s) (fst it))
           else Inr (s\<lparr>p_tool := t,
             p_conf := (p_conf s)\<lparr>c_images := c_images (p_conf s) @ [(fst (snd it), d)]\<rparr>\<rparr>)))"

definition conf_assign ::
    "os \<Rightarrow> string \<Rightarrow> bconf \<Rightarrow> string \<Rightarrow> string \<Rightarrow> parse \<Rightarrow> conf_error + parse" where
  "conf_assign os conf_dir conf_tpl name val s =
     (if name = ''device_id'' then
        (if device_id (p_tool s) \<noteq> None then Inl (MultipleDeviceId (p_line s))
         else if length val > 31 then Inl (DeviceIdTooLong (p_line s))
         else Inr (s\<lparr>p_tool := (p_tool s)\<lparr>device_id := Some val\<rparr>\<rparr>))
      else if name = ''no'' then
        bindE (if p_started s then complete_conf (p_conf s) (p_tool s) else Inr (p_tool s))
          (\<lambda>t. let i = atoi val
                in if i < 0 \<or> i \<ge> 32 then Inl (IndexOutOfRange (p_line s) i)
                   else Inr (s\<lparr>p_tool := t, p_conf := conf_tpl\<lparr>c_index := i\<rparr>, p_started := True\<rparr>))
      else if \<not> p_started s then Inl (NoIndex (p_line s))
      else
        (let c = p_conf s;
             c = (if name = ''name'' then c\<lparr>c_name := take 1023 val\<rparr> else c);
             c = (if name = ''bootargs'' then c\<lparr>c_bootargs := take 4095 val\<rparr> else c)
         in foldE (set_image os conf_dir val) (filter (\<lambda>it. fst it = name) image_types)
              (s\<lparr>p_conf := c\<rparr>)))"

definition conf_line_step ::
    "os \<Rightarrow> string \<Rightarrow> bconf \<Rightarrow> string \<Rightarrow> parse \<Rightarrow> conf_error + parse" where
  "conf_line_step os conf_dir conf_tpl line s =
     (let s = s\<lparr>p_line := Suc (p_line s)\<rparr>
      in case parse_line line of
           Assign name val \<Rightarrow> conf_assign os conf_dir conf_tpl name val s
         | _ \<Rightarrow> Inr s)"

definition parse_conf :: "os \<Rightarrow> string \<Rightarrow> string \<Rightarrow> tool \<Rightarrow> conf_error + tool" where
  "parse_conf os conf_dir conf_filename t =
     (let path = take 1023 (conf_dir @ ''/'' @ conf_filename);
          conf_tpl = \<lparr>c_index = 0, c_path = path, c_name = [], c_bootargs = [], c_images = []\<rparr>
      in case os_fopen os path of
           None \<Rightarrow> Inl (CannotOpenConf path)
         | Some text \<Rightarrow>
             bindE (foldE (conf_line_step os conf_dir conf_tpl) (fgets_lines text)
                 \<lparr>p_tool = t, p_conf = conf_tpl, p_started = False, p_line = 0\<rparr>)
               (\<lambda>s. if p_started s then complete_conf (p_conf s) (p_tool s) else Inr (p_tool s)))"

definition include_entry ::
    "os \<Rightarrow> string \<Rightarrow> string \<times> dirent_kind \<Rightarrow> tool \<Rightarrow> conf_error + tool" where
  "include_entry os dir e t =
     (let path = take (path_max os - 1) (dir @ ''/'' @ fst e)
      in case snd e of
           StatFails \<Rightarrow> Inl (CannotStat path)
         | OtherFile \<Rightarrow> Inr t
         | RegularFile \<Rightarrow>
             if length (fst e) > 31 then Inl (FileNameTooLong path)
             else if length (files t) \<ge> 400 then Inl TooManyFiles
             else bindE (data_add_file os path t)
               (\<lambda>(d, t). Inr (t\<lparr>files := files t @ [(take 31 (fst e), d)]\<rparr>)))"

definition include_files :: "os \<Rightarrow> string \<Rightarrow> tool \<Rightarrow> conf_error + tool" where
  "include_files os dir t =
     (case os_opendir os dir of
        None \<Rightarrow> Inl (CannotOpenDir dir)
      | Some (entries, read_error) \<Rightarrow>
          bindE (foldE (include_entry os dir) entries t)
            (\<lambda>t. if read_error then Inl (CannotReadDir dir) else Inr t))"

section \<open>Writing the filesystem\<close>

type_synonym disk = "nat \<Rightarrow> u8"

definition disk_write :: "disk \<Rightarrow> nat \<Rightarrow> u8 list \<Rightarrow> disk" where
  "disk_write dk off bs =
     (\<lambda>a. if off \<le> a \<and> a < off + length bs then bs ! (a - off) else dk a)"

text \<open>\<open>write_fd_checked\<close> copies a file, without the 64-byte header when it is a uImage.\<close>

definition payload :: "u8 list \<Rightarrow> u8 list" where
  "payload content =
     (if 64 \<le> length content \<and> take 4 content = [0x27, 0x05, 0x19, 0x56]
      then drop 64 content else content)"

definition next_off :: "nat \<Rightarrow> u32 \<Rightarrow> nat" where
  "next_off off_i sz =
     (let off_i = off_i + unat sz
      in if off_i mod 512 \<noteq> 0 then off_i + (512 - off_i mod 512) else off_i)"

fun write_data :: "(string \<Rightarrow> u8 list) \<Rightarrow> data list \<Rightarrow> nat \<Rightarrow> disk \<Rightarrow> data list \<times> nat \<times> disk" where
  "write_data content [] off_i dk = ([], off_i, dk)"
| "write_data content (d # ds) off_i dk =
     (let p = payload (content (d_fd d));
          sz = of_nat (length p);
          (ds', off, dk') = write_data content ds (next_off off_i sz) (disk_write dk off_i p)
      in (d\<lparr>d_offset := of_nat off_i, d_size := sz\<rparr> # ds', off, dk'))"

definition sb_of :: "tool \<Rightarrow> bootfs_sb" where
  "sb_of t = \<lparr>sb_magic = bytes '':BOOTFS:'', sb_version = 1, sb_default_conf = 0,
     sb_device_id = (case device_id t of None \<Rightarrow> replicate 32 0 | Some v \<Rightarrow> fit 32 (bytes v)),
     sb_res = replicate 2000 0\<rparr>"

definition image_of :: "data list \<Rightarrow> char \<times> nat \<Rightarrow> bootfs_image" where
  "image_of ds im = \<lparr>im_type = of_char (fst im), im_data_off = d_offset (ds ! snd im),
     im_data_len = d_size (ds ! snd im)\<rparr>"

definition no_image :: bootfs_image where
  "no_image = \<lparr>im_type = 0, im_data_off = 0, im_data_len = 0\<rparr>"

definition conf_of :: "data list \<Rightarrow> bconf \<Rightarrow> bootfs_conf" where
  "conf_of ds c = \<lparr>bc_magic = bytes '':BFCONF:'',
     bc_images = map (image_of ds) (c_images c) @ replicate (8 - length (c_images c)) no_image,
     bc_boot_args = fit boot_args_size (bytes (c_bootargs c)),
     bc_name = fit 96 (bytes (c_name c))\<rparr>"

definition file_of :: "data list \<Rightarrow> string \<times> nat \<Rightarrow> bootfs_file" where
  "file_of ds f = \<lparr>fi_name = fit 32 (bytes (fst f)), fi_data_off = d_offset (ds ! snd f),
     fi_data_len = d_size (ds ! snd f)\<rparr>"

definition no_file :: bootfs_file where
  "no_file = \<lparr>fi_name = replicate 32 0, fi_data_off = 0, fi_data_len = 0\<rparr>"

definition files_of :: "data list \<Rightarrow> (string \<times> nat) list \<Rightarrow> bootfs_files" where
  "files_of ds fs = \<lparr>bf_magic = bytes '':BFILES:'',
     bf_files = map (file_of ds) fs @ replicate (51 - length fs) no_file\<rparr>"

text \<open>
  The loop over the 32 metadata blocks: \<open>cs\<close> are the slots still to be visited, \<open>fs\<close> the
  files not written yet. The result is the list of blocks, one per slot.
\<close>

fun metadata_blocks ::
    "data list \<Rightarrow> bconf option list \<Rightarrow> (string \<times> nat) list \<Rightarrow> u8 list list" where
  "metadata_blocks ds [] fs = []"
| "metadata_blocks ds (Some c # cs) fs =
     enc_conf (conf_of ds c) # metadata_blocks ds cs fs"
| "metadata_blocks ds (None # cs) fs =
     (if fs \<noteq> [] then
        (let files_rem = (if length fs > 51 then 51 else length fs)
         in enc_files (files_of ds (take files_rem fs)) #
              metadata_blocks ds cs (drop files_rem fs))
      else replicate 2048 0 # metadata_blocks ds cs fs)"

fun write_blocks :: "u8 list list \<Rightarrow> nat \<Rightarrow> disk \<Rightarrow> disk" where
  "write_blocks [] off_c dk = dk"
| "write_blocks (b # bs) off_c dk = write_blocks bs (off_c + 2048) (disk_write dk off_c b)"

definition write_fs :: "os \<Rightarrow> tool \<Rightarrow> disk \<Rightarrow> tool \<times> disk" where
  "write_fs os t dk =
     (let dk = disk_write dk 0 (enc_sb (sb_of t));
          (ds, off_i, dk) = write_data (os_content os) (data_list t) (2048 * 33) dk
      in (t\<lparr>data_list := ds\<rparr>,
          write_blocks (metadata_blocks ds (confs t) (files t)) 2048 dk))"

definition p_boot_conf :: "os \<Rightarrow> string \<Rightarrow> disk \<Rightarrow> conf_error + tool \<times> disk" where
  "p_boot_conf os conf_dir dk =
     bindE (parse_conf os conf_dir ''boot.conf'' tool_init) (\<lambda>t.
     bindE (include_files os (take (path_max os - 1) (conf_dir @ ''/files'')) t) (\<lambda>t.
       Inr (write_fs os t dk)))"

section \<open>The invariant of the parsed state\<close>

definition images_ok :: "nat \<Rightarrow> (char \<times> nat) list \<Rightarrow> bool" where
  "images_ok n ims \<longleftrightarrow> distinct (map fst ims) \<and>
     fst ` set ims \<subseteq> (fst \<circ> snd) ` set image_types \<and> (\<forall>im \<in> set ims. snd im < n)"

text \<open>A configuration while it is being read, and one that \<open>complete_conf\<close> has accepted.\<close>

definition conf_pre :: "nat \<Rightarrow> bconf \<Rightarrow> bool" where
  "conf_pre n c \<longleftrightarrow> 0 \<le> c_index c \<and> c_index c < 32 \<and> images_ok n (c_images c)"

definition conf_ok :: "nat \<Rightarrow> nat \<Rightarrow> bconf \<Rightarrow> bool" where
  "conf_ok n i c \<longleftrightarrow> c_index c = int i \<and> c_name c \<noteq> [] \<and> images_ok n (c_images c) \<and>
     {CHR ''L'', CHR ''A'', CHR ''D''} \<subseteq> fst ` set (c_images c)"

definition tool_wf :: "tool \<Rightarrow> bool" where
  "tool_wf t \<longleftrightarrow> length (confs t) = 32 \<and>
     (\<forall>i < 32. \<forall>c. confs t ! i = Some c \<longrightarrow> conf_ok (length (data_list t)) i c) \<and>
     length (files t) \<le> 400 \<and>
     (\<forall>f \<in> set (files t). length (fst f) \<le> 31 \<and> snd f < length (data_list t)) \<and>
     (\<forall>v. device_id t = Some v \<longrightarrow> length v \<le> 31)"

lemma tool_wf_init: "tool_wf tool_init"
  by (simp add: tool_wf_def tool_init_def)

lemma images_ok_mono: "images_ok n ims \<Longrightarrow> n \<le> m \<Longrightarrow> images_ok m ims"
  by (force simp: images_ok_def)

lemma images_ok_length: "images_ok n ims \<Longrightarrow> length ims \<le> 6"
proof -
  assume ok: "images_ok n ims"
  then have "length ims = card (fst ` set ims)"
    by (metis distinct_card images_ok_def length_map list.set_map)
  also have "\<dots> \<le> card ((fst \<circ> snd) ` set image_types)"
    using ok by (intro card_mono) (auto simp: images_ok_def)
  also have "\<dots> \<le> 6"
    by (rule order_trans [OF card_image_le]) (simp_all add: image_types_def)
  finally show ?thesis .
qed

lemma find_data_bound: "find_data p ds = Some i \<Longrightarrow> i < length ds"
  by (induction ds arbitrary: i) (auto split: if_splits)

lemma data_add_file_Inr:
  assumes "data_add_file os path t = Inr (d, t')"
  shows "\<exists>xs. t' = t\<lparr>data_list := data_list t @ xs\<rparr>" "d < length (data_list t')"
  using assms
  by (auto simp: data_add_file_def find_data_bound split: option.splits if_splits)
    (metis append_Nil2 tool.surjective tool.update_convs(2) tool.select_convs(2))

lemma conf_ok_mono: "conf_ok n i c \<Longrightarrow> n \<le> m \<Longrightarrow> conf_ok m i c"
  by (auto simp: conf_ok_def intro: images_ok_mono)

lemma tool_wf_more_data: "tool_wf t \<Longrightarrow> tool_wf (t\<lparr>data_list := data_list t @ xs\<rparr>)"
  unfolding tool_wf_def by (auto intro: conf_ok_mono [OF _ le_add1] simp: trans_less_add1)

lemma missing_image_None:
  "missing_image ts ims = None \<Longrightarrow> (v, k, False) \<in> set ts \<Longrightarrow> k \<in> fst ` set ims"
  by (induction ts ims rule: missing_image.induct) (auto split: if_splits)

lemma complete_conf_wf:
  assumes "complete_conf c t = Inr t'" "tool_wf t" "conf_pre (length (data_list t)) c"
  shows "tool_wf t' \<and> data_list t' = data_list t"
proof -
  have t': "t' = t\<lparr>confs := (confs t)[nat (c_index c) := Some c]\<rparr>"
    and ok: "c_name c \<noteq> []" "missing_image image_types (c_images c) = None"
    using assms(1) by (auto simp: complete_conf_def split: option.splits if_splits)
  have "{CHR ''L'', CHR ''A'', CHR ''D''} \<subseteq> fst ` set (c_images c)"
    using missing_image_None [OF ok(2)] by (auto simp: image_types_def)
  then have "conf_ok (length (data_list t)) (nat (c_index c)) c"
    using ok assms(3) by (simp add: conf_ok_def conf_pre_def)
  then have "conf_ok (length (data_list t)) i ca"
    if "i < 32" "(confs t)[nat (c_index c) := Some c] ! i = Some ca" for i ca
    using that assms(2) by (cases "i = nat (c_index c)") (auto simp: tool_wf_def)
  with assms(2) t' show ?thesis
    by (simp add: tool_wf_def)
qed

definition parse_wf :: "parse \<Rightarrow> bool" where
  "parse_wf s \<longleftrightarrow> tool_wf (p_tool s) \<and>
     (p_started s \<longrightarrow> conf_pre (length (data_list (p_tool s))) (p_conf s))"

lemma set_image_wf:
  assumes "set_image os dir val it s = Inr s'" "it \<in> set image_types" "parse_wf s" "p_started s"
  shows "parse_wf s' \<and> p_started s'"
proof -
  obtain d t path where add: "data_add_file os path (p_tool s) = Inr (d, t)"
    and new: "\<not> (\<exists>im \<in> set (c_images (p_conf s)). fst im = fst (snd it))"
    and s': "s' = s\<lparr>p_tool := t,
      p_conf := (p_conf s)\<lparr>c_images := c_images (p_conf s) @ [(fst (snd it), d)]\<rparr>\<rparr>"
    using assms(1) unfolding set_image_def Let_def
    by (auto simp: bindE_Inr_iff split: if_splits)
  note t = data_add_file_Inr [OF add]
  then have le: "length (data_list (p_tool s)) \<le> length (data_list t)"
    by auto
  have "tool_wf t"
    using t(1) assms(3) tool_wf_more_data by (auto simp: parse_wf_def)
  moreover have "images_ok (length (data_list t)) (c_images (p_conf s) @ [(fst (snd it), d)])"
    using assms(2-4) new t(2) images_ok_mono [OF _ le]
    by (auto simp: parse_wf_def conf_pre_def images_ok_def image_iff)
  ultimately show ?thesis
    using assms(3,4) s' by (simp add: parse_wf_def conf_pre_def)
qed

lemma conf_assign_wf:
  assumes "conf_assign os dir tpl name val s = Inr s'" "parse_wf s" "c_images tpl = []"
  shows "parse_wf s'"
proof -
  consider (dev) "name = ''device_id''" | (no) "name = ''no''"
    | (other) "name \<noteq> ''device_id''" "name \<noteq> ''no''" by blast
  then show ?thesis
  proof cases
    case dev
    with assms(1) have "length val \<le> 31"
      and s': "s' = s\<lparr>p_tool := (p_tool s)\<lparr>device_id := Some val\<rparr>\<rparr>"
      by (auto simp: conf_assign_def split: if_splits)
    with assms(2) show ?thesis
      unfolding parse_wf_def tool_wf_def s' by simp
  next
    case no
    then obtain t where t: "(if p_started s then complete_conf (p_conf s) (p_tool s)
        else Inr (p_tool s)) = Inr t"
      and i: "0 \<le> atoi val" "atoi val < 32"
      and s': "s' = s\<lparr>p_tool := t, p_conf := tpl\<lparr>c_index := atoi val\<rparr>, p_started := True\<rparr>"
      using assms(1) by (auto simp: conf_assign_def bindE_Inr_iff Let_def split: if_splits)
    have "tool_wf t"
      using t assms(2) complete_conf_wf by (auto simp: parse_wf_def split: if_splits)
    with s' i assms(3) show ?thesis
      by (simp add: parse_wf_def conf_pre_def images_ok_def)
  next
    case other
    define c where "c = (let c = p_conf s;
        c = (if name = ''name'' then c\<lparr>c_name := take 1023 val\<rparr> else c)
      in if name = ''bootargs'' then c\<lparr>c_bootargs := take 4095 val\<rparr> else c)"
    have c: "c_images c = c_images (p_conf s)" "c_index c = c_index (p_conf s)"
      by (simp_all add: c_def Let_def)
    have st: "p_started s"
      and fold: "foldE (set_image os dir val) (filter (\<lambda>it. fst it = name) image_types)
        (s\<lparr>p_conf := c\<rparr>) = Inr s'"
      using assms(1) other by (simp_all add: conf_assign_def c_def Let_def split: if_splits)
    have "parse_wf s' \<and> p_started s'"
      using fold
    proof (rule foldE_invariant)
      show "parse_wf (s\<lparr>p_conf := c\<rparr>) \<and> p_started (s\<lparr>p_conf := c\<rparr>)"
        using assms(2) st c by (simp add: parse_wf_def conf_pre_def)
    next
      fix it u v
      assume "it \<in> set (filter (\<lambda>it. fst it = name) image_types)"
        "parse_wf u \<and> p_started u" "set_image os dir val it u = Inr v"
      then show "parse_wf v \<and> p_started v"
        using set_image_wf [of os dir val it u v] by simp
    qed
    then show ?thesis by simp
  qed
qed

lemma parse_conf_wf:
  assumes "parse_conf os dir fname t = Inr t'" "tool_wf t"
  shows "tool_wf t'"
proof -
  define path where "path = take 1023 (dir @ ''/'' @ fname)"
  define tpl where
    "tpl = \<lparr>c_index = 0, c_path = path, c_name = [], c_bootargs = [], c_images = []\<rparr>"
  have tpl: "c_images tpl = []"
    by (simp add: tpl_def)
  obtain ls s where s: "foldE (conf_line_step os dir tpl) ls
      \<lparr>p_tool = t, p_conf = tpl, p_started = False, p_line = 0\<rparr> = Inr s"
    and t': "(if p_started s then complete_conf (p_conf s) (p_tool s) else Inr (p_tool s)) = Inr t'"
    using assms(1) unfolding parse_conf_def Let_def path_def [symmetric] tpl_def [symmetric]
    by (cases "os_fopen os path") (auto simp: bindE_Inr_iff)
  have "parse_wf s"
    using s
  proof (rule foldE_invariant)
    show "parse_wf \<lparr>p_tool = t, p_conf = tpl, p_started = False, p_line = 0\<rparr>"
      using assms(2) by (simp add: parse_wf_def)
  next
    fix line s s' assume "parse_wf s" "conf_line_step os dir tpl line s = Inr s'"
    moreover from \<open>parse_wf s\<close> have "parse_wf (s\<lparr>p_line := Suc (p_line s)\<rparr>)"
      by (simp add: parse_wf_def)
    ultimately show "parse_wf s'"
      by (auto simp: conf_line_step_def Let_def split: conf_line.splits
          dest: conf_assign_wf [OF _ _ tpl])
  qed
  then show ?thesis
    using t' complete_conf_wf by (auto simp: parse_wf_def split: if_splits)
qed

lemma include_entry_wf:
  assumes "include_entry os dir e t = Inr t'" "tool_wf t"
  shows "tool_wf t'"
proof (cases "snd e")
  case RegularFile
  then obtain d u path where add: "data_add_file os path t = Inr (d, u)"
    and len: "length (fst e) \<le> 31" "length (files t) < 400"
    and t': "t' = u\<lparr>files := files u @ [(take 31 (fst e), d)]\<rparr>"
    using assms(1) by (auto simp: include_entry_def bindE_Inr_iff Let_def split: if_splits)
  note u = data_add_file_Inr [OF add]
  then have "tool_wf u"
    using assms(2) tool_wf_more_data by auto
  moreover have "length (files u) < 400"
    using u(1) len(2) by auto
  ultimately show ?thesis
    using t' u(2) by (auto simp: tool_wf_def)
qed (use assms in \<open>auto simp: include_entry_def\<close>)

lemma include_files_wf:
  assumes "include_files os dir t = Inr t'" "tool_wf t"
  shows "tool_wf t'"
proof -
  obtain entries where "foldE (include_entry os dir) entries t = Inr t'"
    using assms(1) by (auto simp: include_files_def bindE_Inr_iff split: option.splits if_splits)
  then show ?thesis
    using assms(2) by (rule foldE_invariant) (auto intro: include_entry_wf)
qed

end
