(* ===== verification/Conf_Layout.thy ===== *)
theory Conf_Layout
  imports Conf_Tool
begin

text \<open>
  What \<open>p-boot-conf\<close> leaves on the disk: the layout of the data space, the metadata blocks,
  and the properties of the whole tool.
\<close>

section \<open>The layout of the data space\<close>

text \<open>The offset after the payloads of \<open>ds\<close>, without the 32-bit truncation of \<open>d->offset\<close>.\<close>

fun data_end :: "(string \<Rightarrow> u8 list) \<Rightarrow> data list \<Rightarrow> nat \<Rightarrow> nat" where
  "data_end content [] off = off"
| "data_end content (d # ds) off =
     data_end content ds ((off + length (payload (content (d_fd d))) + 511) div 512 * 512)"

lemma disk_write_outside: "a < off \<or> off + length bs \<le> a \<Longrightarrow> disk_write dk off bs a = dk a"
  by (auto simp: disk_write_def)

lemma disk_write_inside: "map (disk_write dk off bs) [off..<off + length bs] = bs"
  by (rule nth_equalityI) (simp_all add: disk_write_def)

lemma round_up_512: "(n + 511) div 512 * 512 = (if n mod 512 \<noteq> 0 then n + (512 - n mod 512) else n)"
  for n :: nat
proof -
  define q r where "q = n div 512" and "r = n mod 512"
  then have n: "n = 512 * q + r" and r: "r < 512" by simp_all
  show ?thesis
  proof (cases "r = 0")
    case True
    with n show ?thesis by simp
  next
    case False
    with n r have "(n + 511) div 512 = q + 1"
      by (intro div_nat_eqI) simp_all
    with False n r show ?thesis by simp
  qed
qed

lemma round_up_512_ge: "n \<le> (n + 511) div 512 * 512" for n :: nat
  by (simp only: round_up_512) auto

lemma data_end_ge: "off \<le> data_end content ds off"
proof (induction ds arbitrary: off)
  case (Cons d ds)
  have "off \<le> (off + length (payload (content (d_fd d))) + 511) div 512 * 512"
    by (rule order_trans [OF _ round_up_512_ge]) simp
  also note Cons.IH
  finally show ?case by simp
qed simp

lemma next_off_eq:
  "n < 2 ^ 32 \<Longrightarrow> next_off off (of_nat n) = (off + n + 511) div 512 * 512"
  unfolding round_up_512 by (simp add: next_off_def Let_def unat_of_nat)

lemma payload_room:
  "data_end content (d # ds) off < 2 ^ 32 \<Longrightarrow> off + length (payload (content (d_fd d))) < 2 ^ 32"
  using round_up_512_ge [of "off + length (payload (content (d_fd d)))"]
    data_end_ge [of "(off + length (payload (content (d_fd d))) + 511) div 512 * 512" content ds]
  by simp

text \<open>Where entry \<open>i\<close> starts, and what the copy loop leaves there.\<close>

definition data_start :: "(string \<Rightarrow> u8 list) \<Rightarrow> data list \<Rightarrow> nat \<Rightarrow> nat \<Rightarrow> nat" where
  "data_start content ds off i = data_end content (take i ds) off"

lemma data_start_simps [simp]:
  "data_start content ds off 0 = off"
  "data_start content (d # ds) off (Suc i) =
     data_start content ds ((off + length (payload (content (d_fd d))) + 511) div 512 * 512) i"
  by (simp_all add: data_start_def)

lemma write_data_below:
  "write_data content ds off dk = (ds', off', dk') \<Longrightarrow> data_end content ds off < 2 ^ 32 \<Longrightarrow>
    a < off \<Longrightarrow> dk' a = dk a"
proof (induction ds arbitrary: off dk ds')
  case (Cons d ds)
  let ?p = "payload (content (d_fd d))"
  have room: "off + length ?p < 2 ^ 32"
    using Cons.prems(2) by (rule payload_room)
  with Cons.prems(1) obtain ds1 where
    "write_data content ds ((off + length ?p + 511) div 512 * 512) (disk_write dk off ?p)
      = (ds1, off', dk')"
    by (auto simp: Let_def next_off_eq split: prod.splits)
  from Cons.IH [OF this] Cons.prems have "dk' a = disk_write dk off ?p a"
    using round_up_512_ge [of "off + length ?p"] by simp
  with Cons.prems(3) show ?case
    by (simp add: disk_write_outside)
qed simp

lemma write_data_entry:
  "write_data content ds off dk = (ds', off', dk') \<Longrightarrow> data_end content ds off < 2 ^ 32 \<Longrightarrow>
    length ds' = length ds \<and>
    (\<forall>i < length ds.
      let o_i = data_start content ds off i; p = payload (content (d_fd (ds ! i)))
      in unat (d_offset (ds' ! i)) = o_i \<and> unat (d_size (ds' ! i)) = length p \<and>
         d_fd (ds' ! i) = d_fd (ds ! i) \<and> map dk' [o_i..<o_i + length p] = p)"
proof (induction ds arbitrary: off dk ds')
  case (Cons d ds)
  let ?p = "payload (content (d_fd d))"
  let ?off = "(off + length ?p + 511) div 512 * 512"
  have room: "off + length ?p < 2 ^ 32"
    using Cons.prems(2) by (rule payload_room)
  with Cons.prems(1) obtain ds1 where
    rec: "write_data content ds ?off (disk_write dk off ?p) = (ds1, off', dk')"
    and ds': "ds' = d\<lparr>d_offset := of_nat off, d_size := of_nat (length ?p)\<rparr> # ds1"
    by (auto simp: Let_def next_off_eq split: prod.splits)
  note IH = Cons.IH [OF rec]
  have below: "dk' a = disk_write dk off ?p a" if "a < ?off" for a
    using write_data_below [OF rec _ that] Cons.prems(2) by simp
  have "map dk' [off..<off + length ?p] = map (disk_write dk off ?p) [off..<off + length ?p]"
    using round_up_512_ge [of "off + length ?p"] by (intro map_cong) (auto intro!: below)
  then have "map dk' [off..<off + length ?p] = ?p"
    by (simp only: disk_write_inside)
  moreover have "unat (of_nat off :: u32) = off" "unat (of_nat (length ?p) :: u32) = length ?p"
    using room by (simp_all add: unat_of_nat)
  ultimately show ?case
    using IH Cons.prems(2) ds' by (auto simp: Let_def nth_Cons split: nat.splits)
qed simp

lemma data_start_aligned: "off mod 512 = 0 \<Longrightarrow> data_start content ds off i mod 512 = 0"
proof (induction ds arbitrary: off i)
  case (Cons d ds)
  then show ?case by (cases i) simp_all
qed (simp add: data_start_def)

lemma data_start_ge: "off \<le> data_start content ds off i"
  by (simp add: data_start_def data_end_ge)

lemma data_start_order:
  "j < i \<Longrightarrow> i \<le> length ds \<Longrightarrow>
    data_start content ds off j + length (payload (content (d_fd (ds ! j))))
      \<le> data_start content ds off i"
proof (induction ds arbitrary: off i j)
  case (Cons d ds)
  obtain i' where i: "i = Suc i'" using Cons.prems(1) by (cases i) auto
  show ?case
  proof (cases j)
    case 0
    have "off + length (payload (content (d_fd d)))
        \<le> (off + length (payload (content (d_fd d))) + 511) div 512 * 512"
      by (rule round_up_512_ge)
    also have "\<dots> \<le> data_start content (d # ds) off i"
      by (simp add: i data_start_ge)
    finally show ?thesis using 0 by simp
  next
    case (Suc j')
    with Cons i show ?thesis by simp
  qed
qed simp

lemma data_start_room:
  "i < length ds \<Longrightarrow>
    (data_start content ds off i + length (payload (content (d_fd (ds ! i)))) + 511) div 512 * 512
      \<le> data_end content ds off"
proof (induction ds arbitrary: off i)
  case (Cons d ds)
  then show ?case
    by (cases i) (simp_all add: data_end_ge)
qed simp

section \<open>The metadata blocks\<close>

lemma wf_conf_of: "length (c_images c) \<le> 8 \<Longrightarrow> wf_conf (conf_of ds c)"
  by (simp add: wf_conf_def conf_of_def bytes_def)

lemma wf_files_of: "length fs \<le> 51 \<Longrightarrow> wf_files (files_of ds fs)"
  by (auto simp: wf_files_def files_of_def wf_file_def file_of_def no_file_def bytes_def)

lemma length_metadata_blocks [simp]: "length (metadata_blocks ds cs fs) = length cs"
  by (induction ds cs fs rule: metadata_blocks.induct) (auto simp: Let_def)

lemma metadata_block_size:
  "\<forall>c. Some c \<in> set cs \<longrightarrow> length (c_images c) \<le> 8 \<Longrightarrow>
    b \<in> set (metadata_blocks ds cs fs) \<Longrightarrow> length b = 2048"
proof (induction ds cs fs rule: metadata_blocks.induct)
  case (3 ds cs fs)
  then show ?case
    by (auto simp: Let_def files_codec.length_enc wf_files_of split: if_splits)
qed (auto simp: conf_codec.length_enc wf_conf_of)

lemma metadata_block_conf:
  "i < length cs \<Longrightarrow> cs ! i = Some c \<Longrightarrow> metadata_blocks ds cs fs ! i = enc_conf (conf_of ds c)"
  by (induction ds cs fs arbitrary: i rule: metadata_blocks.induct)
    (auto simp: Let_def nth_Cons split: nat.splits)

text \<open>The files go, 51 at a time and in order, to the slots that hold no configuration.\<close>

lemma metadata_block_files:
  "i < length cs \<Longrightarrow> cs ! i = None \<Longrightarrow>
    metadata_blocks ds cs fs ! i =
      (let rest = drop (51 * length (filter (\<lambda>c. c = None) (take i cs))) fs
       in if rest = [] then replicate 2048 0 else enc_files (files_of ds (take 51 rest)))"
proof (induction ds cs fs arbitrary: i rule: metadata_blocks.induct)
  case (2 ds c cs fs)
  then show ?case by (cases i) simp_all
next
  case (3 ds cs fs)
  show ?case
  proof (cases i)
    case 0
    then show ?thesis by (simp add: Let_def min_def not_less)
  next
    case (Suc k)
    show ?thesis
    proof (cases "fs = []")
      case True
      with 3 Suc show ?thesis by simp
    next
      case False
      have "drop (if length fs > 51 then 51 else length fs) fs = drop 51 fs"
        by simp
      with 3 Suc False show ?thesis
        by (simp add: Let_def add.commute split del: if_split)
    qed
  qed
qed simp

lemma write_blocks_outside:
  "\<forall>b \<in> set bs. length b = 2048 \<Longrightarrow> a < off \<or> off + 2048 * length bs \<le> a \<Longrightarrow>
    write_blocks bs off dk a = dk a"
  by (induction bs off dk rule: write_blocks.induct) (auto simp: disk_write_outside)

lemma write_blocks_nth:
  "\<forall>b \<in> set bs. length b = 2048 \<Longrightarrow> i < length bs \<Longrightarrow>
    map (write_blocks bs off dk) [off + 2048 * i..<off + 2048 * i + 2048] = bs ! i"
proof (induction bs off dk arbitrary: i rule: write_blocks.induct)
  case (2 b bs off dk)
  show ?case
  proof (cases i)
    case 0
    have "map (write_blocks (b # bs) off dk) [off..<off + 2048]
        = map (disk_write dk off b) [off..<off + 2048]"
      using 2(2) by (intro map_cong) (auto simp: write_blocks_outside)
    also have "\<dots> = b"
      using disk_write_inside [of dk off b] 2(2) by simp
    finally show ?thesis using 0 by simp
  next
    case (Suc k)
    with 2 show ?thesis by (simp add: algebra_simps)
  qed
qed simp

section \<open>What the tool guarantees\<close>

lemma length_write_data: "length (fst (write_data content ds off dk)) = length ds"
proof (induction ds arbitrary: off dk)
  case (Cons d ds)
  then show ?case
    by (simp add: Let_def split: prod.split) (metis fst_conv)
qed simp

lemma write_fs_wf:
  assumes "tool_wf t" "write_fs os t dk = (t', dk')"
  shows "tool_wf t'"
proof -
  obtain ds where "length ds = length (data_list t)" "t' = t\<lparr>data_list := ds\<rparr>"
    using assms(2) length_write_data by (auto simp: write_fs_def Let_def split: prod.splits)
      (metis fst_conv)
  with assms(1) show ?thesis
    by (simp add: tool_wf_def)
qed

lemma tool_wf_images:
  assumes "tool_wf t" "Some c \<in> set (confs t)"
  shows "length (c_images c) \<le> 8"
proof -
  obtain i where "i < 32" "confs t ! i = Some c"
    using assms by (auto simp: tool_wf_def in_set_conv_nth)
  then have "images_ok (length (data_list t)) (c_images c)"
    using assms(1) by (auto simp: tool_wf_def conf_ok_def)
  from images_ok_length [OF this] show ?thesis by simp
qed

lemma metadata_sizes:
  "tool_wf t \<Longrightarrow> \<forall>b \<in> set (metadata_blocks ds (confs t) (files t)). length b = 2048"
  using tool_wf_images metadata_block_size by meson

lemma write_fs_parts:
  assumes "write_fs os t dk = (t', dk')"
  obtains ds off dk1 where
    "write_data (os_content os) (data_list t) 67584 (disk_write dk 0 (enc_sb (sb_of t))) = (ds, off, dk1)"
    "t' = t\<lparr>data_list := ds\<rparr>"
    "dk' = write_blocks (metadata_blocks ds (confs t) (files t)) 2048 dk1"
  using assms by (auto simp: write_fs_def Let_def split: prod.splits)

lemma write_fs_block:
  assumes "tool_wf t" "write_fs os t dk = (t', dk')" "i < 32"
  shows "map dk' [2048 * (i + 1)..<2048 * (i + 2)] =
    metadata_blocks (data_list t') (confs t) (files t) ! i"
proof -
  obtain ds off dk1 where "t' = t\<lparr>data_list := ds\<rparr>"
    "dk' = write_blocks (metadata_blocks ds (confs t) (files t)) 2048 dk1"
    using assms(2) by (rule write_fs_parts)
  moreover have "length (confs t) = 32"
    using assms(1) by (simp add: tool_wf_def)
  ultimately show ?thesis
    using write_blocks_nth [OF metadata_sizes [OF assms(1), of ds], where i = i and off = 2048 and dk = dk1] assms(3)
    by (simp add: algebra_simps)
qed

text \<open>
  C3: every state in which \<open>p-boot-conf\<close> finishes is well formed: a configuration sits in the
  slot of its index, has a name and the three mandatory images (at most one image of a type,
  so the eight slots of the block suffice), every image and file refers to an entry of the data
  list, at most 400 files with names of at most 31 characters, a device id of at most 31.
\<close>

theorem p_boot_conf_wf:
  assumes "p_boot_conf os conf_dir dk = Inr (t, dk')"
  shows "tool_wf t"
proof -
  obtain t1 t2 where "parse_conf os conf_dir ''boot.conf'' tool_init = Inr t1"
    "include_files os (take (path_max os - 1) (conf_dir @ ''/files'')) t1 = Inr t2"
    and w: "write_fs os t2 dk = (t, dk')"
    using assms by (auto simp: p_boot_conf_def bindE_Inr_iff)
  then have "tool_wf t2"
    using parse_conf_wf tool_wf_init include_files_wf by blast
  then show ?thesis
    using w by (rule write_fs_wf)
qed

text \<open>A configuration directory for the witnesses: one configuration, a shared file, one payload.\<close>

definition demo_os :: os where
  "demo_os = \<lparr>path_max = 4096, os_realpath = Some, os_readable = (\<lambda>_. True),
     os_content = (\<lambda>p. if p = ''/b/a'' then [0x27, 0x05, 0x19, 0x56] @ replicate 60 0 @ [7, 8, 9]
                       else [1, 2, 3, 4, 5]),
     os_fopen = (\<lambda>p. Some (''no = 3'' @ [CHR 0x0A] @ ''name=x'' @ [CHR 0x0A] @ ''linux=/l'' @
       [CHR 0x0A] @ '' atf = a '' @ [CHR 0x0A] @ ''dtb=/l'' @ [CHR 0x0A])),
     os_opendir = (\<lambda>p. Some ([(''f'', RegularFile), (''.'', OtherFile)], False))\<rparr>"

definition demo_tool :: tool where
  "demo_tool = \<lparr>device_id = None,
     data_list = [\<lparr>d_path = ''/l'', d_fd = ''/l'', d_offset = 0, d_size = 0\<rparr>,
       \<lparr>d_path = ''/b/a'', d_fd = ''/b/a'', d_offset = 0, d_size = 0\<rparr>,
       \<lparr>d_path = ''/b/files/f'', d_fd = ''/b/files/f'', d_offset = 0, d_size = 0\<rparr>],
     confs = (replicate 32 None)[3 := Some \<lparr>c_index = 3, c_path = ''/b/boot.conf'', c_name = ''x'',
       c_bootargs = [], c_images = [(CHR ''L'', 0), (CHR ''A'', 1), (CHR ''D'', 0)]\<rparr>],
     files = [(''f'', 2)]\<rparr>"

lemma demo_parse:
  "bindE (parse_conf demo_os ''/b'' ''boot.conf'' tool_init) (include_files demo_os ''/b/files'') =
    Inr demo_tool"
  by (simp add: parse_conf_def demo_os_def fgets_lines.simps fgets_def Let_def conf_line_step_def
      parse_line_def rtrim_def blank_def conf_assign_def tool_init_def complete_conf_def
      atoi_def isspace_def isdigit_def digits_int_def set_image_def data_add_file_def image_types_def
      include_files_def include_entry_def demo_tool_def)

lemma demo_tool_wf: "tool_wf demo_tool"
proof -
  obtain t where "parse_conf demo_os ''/b'' ''boot.conf'' tool_init = Inr t"
    "include_files demo_os ''/b/files'' t = Inr demo_tool"
    using demo_parse by (auto simp: bindE_Inr_iff)
  then show ?thesis
    using parse_conf_wf tool_wf_init include_files_wf by blast
qed

lemma demo_end: "data_end (os_content demo_os) (data_list demo_tool) 67584 < 2 ^ 32"
  by (simp add: demo_os_def demo_tool_def payload_def)

lemma demo_run: "p_boot_conf demo_os ''/b'' dk = Inr (write_fs demo_os demo_tool dk)"
proof -
  obtain t where "parse_conf demo_os ''/b'' ''boot.conf'' tool_init = Inr t"
    "include_files demo_os ''/b/files'' t = Inr demo_tool"
    using demo_parse by (auto simp: bindE_Inr_iff)
  then show ?thesis
    by (simp add: p_boot_conf_def demo_os_def)
qed

theorem p_boot_conf_wf_witness: "tool_wf (fst (write_fs demo_os demo_tool (\<lambda>_. 0)))"
  using p_boot_conf_wf [of demo_os "''/b''" "\<lambda>_. 0"
      "fst (write_fs demo_os demo_tool (\<lambda>_. 0))" "snd (write_fs demo_os demo_tool (\<lambda>_. 0))"]
  by (simp add: demo_run)

lemma write_fs_entry:
  assumes "tool_wf t" "write_fs os t dk = (t', dk')"
    and "data_end (os_content os) (data_list t) 67584 < 2 ^ 32" "i < length (data_list t)"
  shows "unat (d_offset (data_list t' ! i)) = data_start (os_content os) (data_list t) 67584 i"
    and "unat (d_size (data_list t' ! i)) = length (payload (os_content os (d_fd (data_list t ! i))))"
    and "d_fd (data_list t' ! i) = d_fd (data_list t ! i)"
    and "map dk' [data_start (os_content os) (data_list t) 67584 i..<
        data_start (os_content os) (data_list t) 67584 i +
          length (payload (os_content os (d_fd (data_list t ! i))))] =
      payload (os_content os (d_fd (data_list t ! i)))"
proof -
  obtain ds off dk1 where w: "write_data (os_content os) (data_list t) 67584
        (disk_write dk 0 (enc_sb (sb_of t))) = (ds, off, dk1)"
    and t': "t' = t\<lparr>data_list := ds\<rparr>"
    and dk': "dk' = write_blocks (metadata_blocks ds (confs t) (files t)) 2048 dk1"
    using assms(2) by (rule write_fs_parts)
  let ?start = "data_start (os_content os) (data_list t) 67584"
  note entry = write_data_entry [OF w assms(3), THEN conjunct2, rule_format, unfolded Let_def]
  have "length (confs t) = 32"
    using assms(1) by (simp add: tool_wf_def)
  then have "dk' a = dk1 a" if "67584 \<le> a" for a
    unfolding dk' using metadata_sizes [OF assms(1)] that by (intro write_blocks_outside) auto
  then have "map dk' [?start i..<?start i + n] = map dk1 [?start i..<?start i + n]" for n
    using data_start_ge [of 67584 "os_content os" "data_list t" i] by (intro map_cong) simp_all
  then show "map dk' [?start i..<?start i + length (payload (os_content os (d_fd (data_list t ! i))))] =
      payload (os_content os (d_fd (data_list t ! i)))"
    using entry [OF assms(4)] by (simp del: map_eq_conv)
qed (use write_data_entry [OF _ assms(3)] assms(2,4) in
    \<open>fastforce simp: write_fs_def Let_def split: prod.splits\<close>)+

text \<open>
  C4: the layout of the data space. If the payloads end below 4 GiB, each entry of the data
  list is recorded with an offset that is a multiple of the sector size and lies behind the 33
  metadata blocks, with the length of its payload (a uImage loses its 64-byte header), entries
  follow each other without overlap, and the finished disk holds the payload at the offset:
  neither a later payload nor a metadata block overwrites it.
\<close>

theorem write_fs_data_layout:
  assumes "tool_wf t" "write_fs os t dk = (t', dk')"
    and "data_end (os_content os) (data_list t) 67584 < 2 ^ 32"
    and "i < length (data_list t)"
  shows "let d = data_list t' ! i; o_i = unat (d_offset d); n = unat (d_size d)
     in d_fd d = d_fd (data_list t ! i) \<and> 67584 \<le> o_i \<and> o_i mod 512 = 0 \<and>
        map dk' [o_i..<o_i + n] = payload (os_content os (d_fd d)) \<and>
        (\<forall>j < i. unat (d_offset (data_list t' ! j)) + unat (d_size (data_list t' ! j)) \<le> o_i)"
  using write_fs_entry [OF assms] write_fs_entry [OF assms(1-3) less_trans [OF _ assms(4)]]
    data_start_order [of _ i "data_list t" "os_content os" 67584]
    data_start_aligned [of 67584 "os_content os" "data_list t" i] assms(4)
  by (simp add: Let_def data_start_ge)

theorem write_fs_data_layout_witness:
  "let (t', dk') = write_fs demo_os demo_tool (\<lambda>_. 0); o_i = unat (d_offset (data_list t' ! 1))
   in 67584 \<le> o_i \<and> o_i mod 512 = 0 \<and>
     map dk' [o_i..<o_i + unat (d_size (data_list t' ! 1))] = [7, 8, 9]"
proof -
  note wf = demo_tool_wf
  have "1 < length (data_list demo_tool)"
    by (simp add: demo_tool_def)
  moreover have "payload (os_content demo_os (d_fd (data_list demo_tool ! 1))) = [7, 8, 9]"
    by (simp add: demo_os_def demo_tool_def payload_def)
  ultimately show ?thesis
    using write_fs_data_layout [OF wf _ demo_end, of "\<lambda>_. 0" _ _ 1]
    by (cases "write_fs demo_os demo_tool (\<lambda>_. 0)") (simp add: Let_def)
qed

text \<open>
  The metadata of the finished disk, read back with the structures of \<open>bootfs.h\<close>: the
  superblock carries the magic, the version and the device id, block \<open>i + 1\<close> the configuration
  of slot \<open>i\<close>; the free slots carry the files, 51 to a block in their order, and zeros when
  none are left.
\<close>

theorem write_fs_metadata:
  assumes "tool_wf t" "write_fs os t dk = (t', dk')"
    and "data_end (os_content os) (data_list t) 67584 < 2 ^ 32"
  shows "dec_sb (map dk' [0..<2048]) = sb_of t \<and>
    (\<forall>i < 32.
      let b = map dk' [2048 * (i + 1)..<2048 * (i + 2)];
          rest = drop (51 * length (filter (\<lambda>c. c = None) (take i (confs t)))) (files t)
      in case confs t ! i of
           Some c \<Rightarrow> dec_conf b = conf_of (data_list t') c
         | None \<Rightarrow> if rest = [] then b = replicate 2048 0
             else dec_files b = files_of (data_list t') (take 51 rest))"
proof -
  obtain ds off dk1 where w: "write_data (os_content os) (data_list t) 67584
        (disk_write dk 0 (enc_sb (sb_of t))) = (ds, off, dk1)"
    and t': "t' = t\<lparr>data_list := ds\<rparr>"
    and dk': "dk' = write_blocks (metadata_blocks ds (confs t) (files t)) 2048 dk1"
    using assms(2) by (rule write_fs_parts)
  note sizes = metadata_sizes [OF assms(1), of ds]
  have len: "length (confs t) = 32"
    using assms(1) by (simp add: tool_wf_def)
  have wf: "wf_sb (sb_of t)"
    by (auto simp: wf_sb_def sb_of_def split: option.splits)
  have "map dk' [0..<2048] = map (disk_write dk 0 (enc_sb (sb_of t))) [0..<2048]"
    using sizes write_data_below [OF w assms(3)] unfolding dk'
    by (intro map_cong) (simp_all add: write_blocks_outside)
  also have "\<dots> = enc_sb (sb_of t)"
    using disk_write_inside [of dk 0 "enc_sb (sb_of t)"] sb_codec.length_enc [OF wf] by simp
  finally have sb: "dec_sb (map dk' [0..<2048]) = sb_of t"
    using sb_codec.dec_enc [OF wf, of "[]"] by simp
  have block: "map dk' [2048 * (i + 1)..<2048 * (i + 2)] = metadata_blocks ds (confs t) (files t) ! i"
    if "i < 32" for i
    using write_fs_block [OF assms(1,2) that] t' by simp
  have conf: "dec_conf (enc_conf (conf_of ds c)) = conf_of ds c" if "Some c \<in> set (confs t)" for c
    using conf_codec.dec_enc [OF wf_conf_of [OF tool_wf_images [OF assms(1) that]], of ds "[]"]
    by simp
  have fil: "dec_files (enc_files (files_of ds (take 51 fs))) = files_of ds (take 51 fs)" for fs
    using files_codec.dec_enc [OF wf_files_of, of "take 51 fs" ds "[]"] by simp
  have "let b = map dk' [2048 * (i + 1)..<2048 * (i + 2)];
          rest = drop (51 * length (filter (\<lambda>c. c = None) (take i (confs t)))) (files t)
      in case confs t ! i of
           Some c \<Rightarrow> dec_conf b = conf_of (data_list t') c
         | None \<Rightarrow> if rest = [] then b = replicate 2048 0
             else dec_files b = files_of (data_list t') (take 51 rest)" if i: "i < 32" for i
  proof (cases "confs t ! i")
    case None
    with i len show ?thesis
      by (simp only: block Let_def option.case metadata_block_files t' split: if_split)
        (simp add: fil)
  next
    case (Some c)
    then have "Some c \<in> set (confs t)"
      using i len by (metis nth_mem)
    with Some i len show ?thesis
      by (simp only: block Let_def option.case metadata_block_conf conf t') simp
  qed
  with sb show ?thesis by blast
qed

theorem write_fs_metadata_witness:
  "dec_conf (map (snd (write_fs demo_os demo_tool (\<lambda>_. 0))) [8192..<10240]) =
    conf_of (data_list (fst (write_fs demo_os demo_tool (\<lambda>_. 0)))) (the (confs demo_tool ! 3))"
proof -
  obtain c where "confs demo_tool ! 3 = Some c"
    by (simp add: demo_tool_def)
  then show ?thesis
    using write_fs_metadata [OF demo_tool_wf surjective_pairing demo_end, of "\<lambda>_. 0",
        THEN conjunct2, THEN spec [of _ 3]]
    by (simp add: Let_def)
qed

end
