(* ===== verification/Heap.thy ===== *)
theory Heap
  imports Libc
begin

text \<open>
  The heap of \<open>src/src/main.c\<close> (\<open>malloc\<close>, \<open>zalloc\<close>, \<open>free\<close>): the end of the heap is
  moved up by the length rounded to 64 bytes, nothing is ever given back. What its users rely
  on is the locale \<open>allocator\<close>; the heap of the model is its interpretation.
\<close>

section \<open>Writing a run of bytes\<close>

definition mem_write :: "mem \<Rightarrow> u64 \<Rightarrow> u8 list \<Rightarrow> mem" where
  "mem_write m d bs = (\<lambda>a. if unat (a - d) < length bs then bs ! unat (a - d) else m a)"

lemma mem_write_Nil [simp]: "mem_write m d [] = m"
  by (simp add: mem_write_def)

lemma mem_write_bytes: "length bs \<le> 2 ^ 64 \<Longrightarrow> mem_bytes (mem_write m d bs) d bs"
  by (simp add: mem_bytes_def mem_write_def unat_of_nat)

lemma mem_write_same: "mem_bytes m a xs \<Longrightarrow> mem_write m a xs = m"
  by (rule ext) (force simp: mem_bytes_def mem_write_def)

lemma mem_write_append:
  assumes "length xs + length ys \<le> 2 ^ 64"
  shows "mem_write (mem_write m d xs) (d + of_nat (length xs)) ys = mem_write m d (xs @ ys)"
proof
  fix a
  let ?u = "unat (a - d)"
  show "mem_write (mem_write m d xs) (d + of_nat (length xs)) ys a = mem_write m d (xs @ ys) a"
  proof (cases "ys = []")
    case True
    then show ?thesis by simp
  next
    case False
    then have small: "length xs < 2 ^ 64"
      using assms by (cases ys) simp_all
    obtain x where x: "x = a - d" by simp
    have "unat (x - of_nat (length xs)) =
        (if length xs \<le> unat x then unat x - length xs else 2 ^ 64 + unat x - length xs)"
      using small by (auto simp: unat_sub_if' unat_of_nat)
    then have "unat (a - (d + of_nat (length xs))) =
        (if length xs \<le> ?u then ?u - length xs else 2 ^ 64 + ?u - length xs)"
      by (simp add: x diff_diff_eq)
    with assms show ?thesis
      by (auto simp: mem_write_def nth_append)
  qed
qed

lemma mem_write_outside: "length bs \<le> unat (a - d) \<Longrightarrow> mem_write m d bs a = m a"
  by (simp add: mem_write_def)

lemma memset_loop_write:
  "n \<le> 2 ^ 64 \<Longrightarrow> memset_loop m d c n = mem_write m d (replicate n c)"
proof (induction m d c n rule: memset_loop.induct)
  case (2 m d c n)
  have "mem_write m d [c] = m(d := c)"
    by (rule ext) (simp add: mem_write_def unat_eq_0 fun_upd_def)
  with 2 show ?case
    using mem_write_append [of "[c]" "replicate n c" m d] by (simp add: fun_upd_def)
qed simp

section \<open>Allocation\<close>

record heap =
  mem :: mem
  heap_end :: u64

definition align64 :: "u64 \<Rightarrow> u64" where
  "align64 x = (x + 63) AND NOT 63"

definition malloc :: "u64 \<Rightarrow> 'a heap_scheme \<Rightarrow> u64 \<times> 'a heap_scheme" where
  "malloc len s = (let p = heap_end s in (p, s\<lparr>heap_end := heap_end s + align64 len\<rparr>))"

definition zalloc :: "u64 \<Rightarrow> 'a heap_scheme \<Rightarrow> u64 \<times> 'a heap_scheme" where
  "zalloc len s = (let (p, s) = malloc len s in (p, s\<lparr>mem := memset (mem s) p 0 len\<rparr>))"

definition free :: "u64 \<Rightarrow> 'a heap_scheme \<Rightarrow> 'a heap_scheme" where
  "free p s = s"

text \<open>
  An allocator with a limit: the region handed out starts at the top, stays below the limit
  and the top moves behind it. Then all regions of a sequence of requests are disjoint.
\<close>

locale allocator =
  fixes alloc :: "u64 \<Rightarrow> 's \<Rightarrow> u64 \<times> 's"
    and top :: "'s \<Rightarrow> nat"
    and round :: "u64 \<Rightarrow> nat"
    and limit :: nat
  assumes alloc_region: "top s + round n \<le> limit \<Longrightarrow> unat (fst (alloc n s)) = top s"
    and alloc_top: "top s + round n \<le> limit \<Longrightarrow> top (snd (alloc n s)) = top s + round n"
    and round_le: "unat n + 63 < limit \<Longrightarrow> unat n \<le> round n"
begin

fun alloc_all :: "u64 list \<Rightarrow> 's \<Rightarrow> u64 list \<times> 's" where
  "alloc_all [] s = ([], s)"
| "alloc_all (n # ns) s =
     (let (p, s) = alloc n s; (ps, s) = alloc_all ns s in (p # ps, s))"

lemma alloc_all_top:
  "top s + sum_list (map round ns) \<le> limit \<Longrightarrow>
    length (fst (alloc_all ns s)) = length ns \<and>
    top (snd (alloc_all ns s)) = top s + sum_list (map round ns) \<and>
    (\<forall>i < length ns. unat (fst (alloc_all ns s) ! i) = top s + sum_list (map round (take i ns)))"
proof (induction ns arbitrary: s)
  case (Cons n ns)
  obtain p s1 where a: "alloc n s = (p, s1)" by fastforce
  obtain ps s2 where r: "alloc_all ns s1 = (ps, s2)" by fastforce
  have "unat p = top s" "top s1 = top s + round n"
    using alloc_region [of s n] alloc_top [of s n] Cons.prems a by simp_all
  with Cons.IH [of s1] Cons.prems a r show ?case
    by (auto simp: nth_Cons split: nat.splits)
qed simp

lemma alloc_all_disjoint:
  assumes "top s + sum_list (map round ns) \<le> limit" "\<forall>n \<in> set ns. unat n + 63 < limit"
    and "i < j" "j < length ns"
  shows "unat (fst (alloc_all ns s) ! i) + unat (ns ! i) \<le> unat (fst (alloc_all ns s) ! j)"
proof -
  have "unat (ns ! i) \<le> round (ns ! i)"
    using assms by (intro round_le) simp
  moreover have "take j ns = take i ns @ ns ! i # drop (Suc i) (take j ns)"
    using id_take_nth_drop [of i "take j ns"] assms(3,4) by (simp add: min_def)
  then have "sum_list (map round (take j ns)) =
      sum_list (map round (take i ns)) + round (ns ! i) +
      sum_list (map round (drop (Suc i) (take j ns)))"
    by (metis (no_types, lifting) add.assoc list.simps(9) map_append sum_list.Cons sum_list_append)
  ultimately show ?thesis
    using alloc_all_top [OF assms(1)] assms(3,4) by auto
qed

end

lemma unat_and_not_63: "unat (x AND NOT 63 :: u64) = unat x div 64 * 64"
proof -
  have m: "(63 :: u64) = mask 6"
    by (simp add: mask_eq_exp_minus_1)
  have "x AND NOT 63 = push_bit 6 (drop_bit 6 x)"
    unfolding m by (rule bit_word_eqI) (auto simp: bit_simps)
  moreover have "unat x < 2 ^ 64"
    using unsigned_less [of x] by simp
  then have "unat x div 64 * 64 < 2 ^ 64"
    by simp
  ultimately show ?thesis
    by (simp add: push_bit_eq_mult drop_bit_eq_div unat_word_ariths unat_div less_mult_imp_div_less)
qed

lemma align64_eq: "unat (align64 n) = (unat n + 63) mod 2 ^ 64 div 64 * 64"
  unfolding align64_def unat_and_not_63 by (simp add: unat_word_ariths)

interpretation pboot_heap: allocator malloc "\<lambda>s. unat (heap_end s)" "\<lambda>n. unat (align64 n)" "2 ^ 64 - 1"
proof unfold_locales
  fix s :: "'a heap_scheme" and n :: u64
  assume room: "unat (heap_end s) + unat (align64 n) \<le> 2 ^ 64 - 1"
  show "unat (fst (malloc n s)) = unat (heap_end s)"
    by (simp add: malloc_def)
  show "unat (heap_end (snd (malloc n s))) = unat (heap_end s) + unat (align64 n)"
    using room by (simp add: malloc_def unat_word_ariths)
next
  fix n :: u64
  assume "unat n + 63 < 2 ^ 64 - 1"
  moreover have "k \<le> (k + 63) div 64 * 64" for k :: nat
    by presburger
  ultimately show "unat n \<le> unat (align64 n)"
    by (simp add: align64_eq)
qed

fun mallocs :: "u64 list \<Rightarrow> 'a heap_scheme \<Rightarrow> u64 list \<times> 'a heap_scheme" where
  "mallocs [] s = ([], s)"
| "mallocs (n # ns) s = (let (p, s) = malloc n s; (ps, s) = mallocs ns s in (p # ps, s))"

lemma mallocs_alloc_all: "mallocs ns s = pboot_heap.alloc_all ns s"
  by (induction ns s rule: mallocs.induct) (auto simp: Let_def split: prod.splits)

text \<open>
  The regions handed out by any sequence of \<open>malloc\<close> calls are disjoint and in
  ascending order as long as the heap does not run over the end of the address space.
\<close>

theorem malloc_disjoint:
  assumes "unat (heap_end s) + sum_list (map (unat \<circ> align64) ns) < 2 ^ 64"
    and "\<forall>n \<in> set ns. unat n < 2 ^ 63" "i < j" "j < length ns"
  shows "unat (fst (mallocs ns s) ! i) + unat (ns ! i) \<le> unat (fst (mallocs ns s) ! j)"
  unfolding mallocs_alloc_all
  using assms by (intro pboot_heap.alloc_all_disjoint) (auto simp: comp_def)

theorem malloc_disjoint_witness:
  "fst (mallocs [96, 512, 40] \<lparr>mem = \<lambda>_. 0, heap_end = 0x4a000000\<rparr>)
     = [0x4a000000, 0x4a000080, 0x4a000280] \<and>
   unat (0x4a000080 :: u64) + 512 \<le> unat (0x4a000280 :: u64)"
proof -
  let ?s = "\<lparr>mem = \<lambda>_. 0, heap_end = 0x4a000000\<rparr>"
  have r: "fst (mallocs [96, 512, 40] ?s) = [0x4a000000, 0x4a000080, 0x4a000280]"
    by (simp add: malloc_def align64_def)
  have "unat (fst (mallocs [96, 512, 40] ?s) ! 1) + unat ([96, 512, 40 :: u64] ! 1)
      \<le> unat (fst (mallocs [96, 512, 40] ?s) ! 2)"
    by (rule malloc_disjoint) (simp_all add: align64_def)
  with r show ?thesis by simp
qed

end
