(* ===== verification/Storage.thy ===== *)
theory Storage
  imports Heap Bootfs_Format
begin

text \<open>
  Reading the card and the boot filesystem: \<open>mmc_read_blocks\<close>, \<open>mmc_set_blocklen\<close> and
  \<open>mmc_bread\<close> of \<open>src/src/uboot/drivers/mmc/mmc.c\<close> and \<open>src/src/storage.c\<close>. The host
  controller and the card are the parameter \<open>send_cmd\<close> of the \<open>mmc\<close> record: it takes
  the state of the card, a command and the number and size of the data blocks, and gives
  whether it failed, the bytes moved to \<open>data.dest\<close> and the new state. Messages to the
  console are left out.
\<close>

section \<open>The MMC block layer\<close>

record mmc_cmd =
  cmdidx :: nat
  cmdarg :: u32

record 'c mmc =
  send_cmd :: "'c \<Rightarrow> mmc_cmd \<Rightarrow> (u32 \<times> u32) option \<Rightarrow> bool \<times> u8 list \<times> 'c"
  read_bl_len :: u32
  b_max :: u32
  lba :: u64
  high_capacity :: bool
  ddr_mode :: bool
  retry_set_blocklen :: bool

record 'c store = heap +
  card :: 'c

text \<open>A command without a data phase, and one whose data goes to \<open>dst\<close>; the result is the error flag.\<close>

definition mmc_command :: "'c mmc \<Rightarrow> mmc_cmd \<Rightarrow> ('c, 'z) store_scheme \<Rightarrow> bool \<times> ('c, 'z) store_scheme" where
  "mmc_command m cmd s =
     (let (err, _, c) = send_cmd m (card s) cmd None in (err, s\<lparr>card := c\<rparr>))"

definition mmc_command_data ::
    "'c mmc \<Rightarrow> mmc_cmd \<Rightarrow> u64 \<Rightarrow> u32 \<Rightarrow> u32 \<Rightarrow> ('c, 'z) store_scheme \<Rightarrow> bool \<times> ('c, 'z) store_scheme" where
  "mmc_command_data m cmd dst blocks blocksize s =
     (let (err, bs, c) = send_cmd m (card s) cmd (Some (blocks, blocksize))
      in (err, s\<lparr>card := c, mem := mem_write (mem s) dst bs\<rparr>))"

definition mmc_read_blocks ::
    "'c mmc \<Rightarrow> u64 \<Rightarrow> u64 \<Rightarrow> u64 \<Rightarrow> ('c, 'z) store_scheme \<Rightarrow> u64 \<times> ('c, 'z) store_scheme" where
  "mmc_read_blocks m dst start blkcnt s =
     (let cmd = \<lparr>cmdidx = (if blkcnt > 1 then 18 else 17),
            cmdarg = (if high_capacity m then ucast start
                      else ucast (start * ucast (read_bl_len m)))\<rparr>;
          (err, s) = mmc_command_data m cmd dst (ucast blkcnt) (read_bl_len m) s
      in if err then (0, s)
         else if blkcnt > 1 then
           (let (err, s) = mmc_command m \<lparr>cmdidx = 12, cmdarg = 0\<rparr> s
            in if err then (0, s) else (blkcnt, s))
         else (blkcnt, s))"

fun retry_cmd :: "'c mmc \<Rightarrow> mmc_cmd \<Rightarrow> nat \<Rightarrow> ('c, 'z) store_scheme \<Rightarrow> bool \<times> ('c, 'z) store_scheme" where
  "retry_cmd m cmd retries s =
     (let (err, s) = mmc_command m cmd s
      in if \<not> err then (err, s)
         else (case retries of 0 \<Rightarrow> (err, s) | Suc r \<Rightarrow> retry_cmd m cmd r s))"

definition mmc_set_blocklen :: "'c mmc \<Rightarrow> u32 \<Rightarrow> ('c, 'z) store_scheme \<Rightarrow> bool \<times> ('c, 'z) store_scheme" where
  "mmc_set_blocklen m len s =
     (if ddr_mode m then (False, s)
      else (let cmd = \<lparr>cmdidx = 16, cmdarg = len\<rparr>; (err, s) = mmc_command m cmd s
            in if err \<and> retry_set_blocklen m then retry_cmd m cmd 4 s else (err, s)))"

text \<open>
  The loop of \<open>mmc_bread\<close>; true when every block was read. With \<open>b_max = 0\<close> the C loop
  would not end; \<open>mmc_create\<close> refuses such a configuration, and the model stops there.
\<close>

definition chunk :: "'c mmc \<Rightarrow> u64 \<Rightarrow> u64" where
  "chunk m todo = (if todo > ucast (b_max m) then ucast (b_max m) else todo)"

function bread_loop :: "'c mmc \<Rightarrow> u64 \<Rightarrow> u64 \<Rightarrow> u64 \<Rightarrow> ('c, 'z) store_scheme \<Rightarrow> bool \<times> ('c, 'z) store_scheme" where
  "bread_loop m dst start todo s =
     (let cur = chunk m todo; (n, s) = mmc_read_blocks m dst start cur s
      in if n \<noteq> cur \<or> cur = 0 then (False, s)
         else if todo - cur > 0 then
           bread_loop m (dst + cur * ucast (read_bl_len m)) (start + cur) (todo - cur) s
         else (True, s))"
  by pat_completeness auto
termination
proof (relation "measure (\<lambda>(m, dst, start, todo, s). unat todo)", goal_cases)
  case (2 m dst start todo s cur x n s')
  then have "cur \<le> todo" "cur \<noteq> 0"
    by (auto simp: chunk_def split: if_splits)
  then have "unat cur \<le> unat todo" "0 < unat cur"
    by (simp_all add: word_le_nat_alt unat_gt_0)
  then have "unat (todo - cur) < unat todo"
    by (simp add: unat_sub_if')
  then show ?case by simp
qed simp

declare bread_loop.simps [simp del]

definition mmc_bread :: "'c mmc \<Rightarrow> u64 \<Rightarrow> u64 \<Rightarrow> u64 \<Rightarrow> ('c, 'z) store_scheme \<Rightarrow> u64 \<times> ('c, 'z) store_scheme" where
  "mmc_bread m start blkcnt dst s =
     (if blkcnt = 0 then (0, s)
      else if start + blkcnt > lba m then (0, s)
      else (let (err, s) = mmc_set_blocklen m (read_bl_len m) s
            in if err then (0, s)
               else (let (ok, s) = bread_loop m dst start blkcnt s
                     in (if ok then blkcnt else 0, s))))"

text \<open>\<open>len + read_bl_len - 1\<close> is computed in 32 bits.\<close>

definition mmc_read_data :: "'c mmc \<Rightarrow> u64 \<Rightarrow> u64 \<Rightarrow> u32 \<Rightarrow> ('c, 'z) store_scheme \<Rightarrow> bool \<times> ('c, 'z) store_scheme" where
  "mmc_read_data m dest off len s =
     (let sectors = ucast ((len + read_bl_len m - 1) div read_bl_len m);
          (sectors_read, s) = mmc_bread m (off div ucast (read_bl_len m)) sectors dest s
      in (sectors = sectors_read, s))"

section \<open>Opening the boot filesystem\<close>

record part_info =
  start :: u64
  psize :: u64
  is_boot :: bool
  idx :: nat

record bootfs =
  mmc_offset :: u64
  fs_sb :: u64

definition read_bytes :: "mem \<Rightarrow> u64 \<Rightarrow> nat \<Rightarrow> u8 list" where
  "read_bytes m a n = map (\<lambda>i. m (a + of_nat i)) [0..<n]"

text \<open>The four slots of the partition table at \<open>buf + 0x1be\<close>; \<open>None\<close> is \<open>return NULL\<close>.\<close>

fun parse_slots :: "u8 list \<Rightarrow> nat list \<Rightarrow> part_info list option" where
  "parse_slots buf [] = Some []"
| "parse_slots buf (slot # slots) =
     (let p = drop (0x1be + 16 * slot) buf; boot_ind = p ! 0
      in if boot_ind \<noteq> 0 \<and> boot_ind \<noteq> 0x80 then None
         else map_option
           (\<lambda>ps. if p ! 4 = 0x83 then
               \<lparr>start = 512 * ucast (le32_of (drop 8 p)), psize = 512 * ucast (le32_of (drop 12 p)),
                is_boot = (boot_ind = 0x80), idx = slot\<rparr> # ps
             else ps)
           (parse_slots buf slots))"

text \<open>
  The flag the search loop looks at is \<open>parts[i].is_boot\<close> with \<open>i\<close> up to twice the number of
  partitions: behind the collected entries it is a byte of whatever follows in memory.
\<close>

definition boot_byte :: "mem \<Rightarrow> u64 \<Rightarrow> part_info list \<Rightarrow> nat \<Rightarrow> u8" where
  "boot_byte m parts ps i =
     (if i < length ps then (if is_boot (ps ! i) then 1 else 0)
      else m (parts + of_nat (24 * i + 16)))"

definition tried :: "mem \<Rightarrow> u64 \<Rightarrow> part_info list \<Rightarrow> nat \<Rightarrow> bool" where
  "tried m parts ps i \<longleftrightarrow> boot_byte m parts ps i XOR of_nat (i div length ps) \<noteq> 0"

fun search_parts ::
    "'c mmc \<Rightarrow> u64 \<Rightarrow> part_info list \<Rightarrow> u64 \<Rightarrow> nat list \<Rightarrow> ('c, 'z) store_scheme \<Rightarrow> bootfs option \<times> ('c, 'z) store_scheme" where
  "search_parts m parts ps sb [] s = (None, s)"
| "search_parts m parts ps sb (i # is) s =
     (let pi = ps ! (i mod length ps)
      in if tried (mem s) parts ps i then
           (let (ok, s) = mmc_read_data m sb (start pi) (33 * 2048) s
            in if ok \<and> read_bytes (mem s) sb 8 = bytes '':BOOTFS:'' then
                 (Some \<lparr>mmc_offset = start pi, fs_sb = sb\<rparr>, s)
               else search_parts m parts ps sb is s)
         else search_parts m parts ps sb is s)"

definition bootfs_open :: "'c mmc option \<Rightarrow> ('c, 'z) store_scheme \<Rightarrow> bootfs option \<times> ('c, 'z) store_scheme" where
  "bootfs_open mm s =
     (let (parts, s) = malloc 96 s; (buf, s) = malloc 512 s
      in case mm of
           None \<Rightarrow> (None, s)
         | Some m \<Rightarrow>
             (let (ok, s) = mmc_read_data m buf 0 512 s; b = read_bytes (mem s) buf 512
              in if \<not> ok then (None, s)
                 else if b ! 0x1fe \<noteq> 0x55 \<or> b ! 0x1ff \<noteq> 0xaa then (None, s)
                 else (case parse_slots b [0, 1, 2, 3] of
                     None \<Rightarrow> (None, s)
                   | Some ps \<Rightarrow>
                       (let (fs, s) = malloc 40 s; (sb, s) = malloc (2048 * 33) s
                        in search_parts m parts ps sb [0..<length ps * 2] s))))"

section \<open>Loading images and files\<close>

definition bootfs_load_image ::
    "'c mmc \<Rightarrow> bootfs \<Rightarrow> u32 \<Rightarrow> u64 \<Rightarrow> u32 \<Rightarrow> ('c, 'z) store_scheme \<Rightarrow> int \<times> ('c, 'z) store_scheme" where
  "bootfs_load_image m fs dest off len s =
     (if len = 0 then (0, s)
      else if off mod 512 \<noteq> 0 then (- 1, s)
      else if len > 512 * 1024 * 1024 then (- 1, s)
      else if dest = 0 then (uint len, s)
      else (let (ok, s) = mmc_read_data m (ucast dest) (mmc_offset fs + off) len s
            in (if ok then uint len else - 1, s)))"

definition block_addr :: "bootfs \<Rightarrow> nat \<Rightarrow> u64" where
  "block_addr fs i = fs_sb fs + of_nat (2048 * (i + 1))"

text \<open>
  \<open>strcmp\<close> gives 0 when the bytes from the entry on are the name and its NUL; a name field
  that is full continues in \<open>data_off\<close>.
\<close>

fun find_in_block :: "u8 list \<Rightarrow> mem \<Rightarrow> u64 \<Rightarrow> nat list \<Rightarrow> bootfs_file option" where
  "find_in_block name m blk [] = None"
| "find_in_block name m blk (j # js) =
     (let f = blk + of_nat (8 + 40 * j)
      in if m f = 0 then None
         else if read_bytes m f (length name + 1) \<noteq> name @ [0] then find_in_block name m blk js
         else Some (dec_file (read_bytes m f 40)))"

fun find_file :: "u8 list \<Rightarrow> mem \<Rightarrow> bootfs \<Rightarrow> nat list \<Rightarrow> bootfs_file option" where
  "find_file name m fs [] = None"
| "find_file name m fs (i # is) =
     (let blk = block_addr fs i
      in if read_bytes m blk 8 \<noteq> bytes '':BFILES:'' then find_file name m fs is
         else (case find_in_block name m blk [0..<51] of
             None \<Rightarrow> find_file name m fs is
           | Some f \<Rightarrow> Some f))"

definition bootfs_load_file ::
    "'c mmc \<Rightarrow> bootfs \<Rightarrow> u32 \<Rightarrow> u8 list \<Rightarrow> ('c, 'z) store_scheme \<Rightarrow> int \<times> ('c, 'z) store_scheme" where
  "bootfs_load_file m fs dest name s =
     (case find_file name (mem s) fs [0..<32] of
        None \<Rightarrow> (- 1, s)
      | Some f \<Rightarrow> bootfs_load_image m fs dest (ucast (fi_data_off f)) (fi_data_len f) s)"

section \<open>A card that answers\<close>

definition disk_bytes :: "(nat \<Rightarrow> u8) \<Rightarrow> nat \<Rightarrow> nat \<Rightarrow> u8 list" where
  "disk_bytes dk off n = map dk [off..<off + n]"

lemma length_disk_bytes [simp]: "length (disk_bytes dk off n) = n"
  by (simp add: disk_bytes_def)

lemma disk_bytes_append: "disk_bytes dk off n @ disk_bytes dk (off + n) k = disk_bytes dk off (n + k)"
  using upt_add_eq_append [of off "off + n" k] by (simp add: disk_bytes_def add.assoc)

text \<open>
  What p-boot relies on when all goes well: with 512-byte blocks the card, as long as it is in
  a state of \<open>ok\<close>, serves every read below its end with the bytes of the disk, accepts the
  other commands and stays in such a state.
\<close>

definition good_card :: "'c mmc \<Rightarrow> (nat \<Rightarrow> u8) \<Rightarrow> ('c \<Rightarrow> bool) \<Rightarrow> bool" where
  "good_card m dk ok \<longleftrightarrow>
     read_bl_len m = 512 \<and> b_max m \<noteq> 0 \<and> high_capacity m \<and> lba m \<le> 2 ^ 32 \<and>
     (\<forall>c first n. ok c \<longrightarrow> 0 < n \<longrightarrow> n \<le> unat (b_max m) \<longrightarrow> first + n \<le> unat (lba m) \<longrightarrow>
        (\<exists>c'. ok c' \<and> send_cmd m c \<lparr>cmdidx = (if n > 1 then 18 else 17), cmdarg = of_nat first\<rparr>
           (Some (of_nat n, 512)) = (False, disk_bytes dk (512 * first) (512 * n), c'))) \<and>
     (\<forall>c cmd. ok c \<longrightarrow> cmdidx cmd \<in> {12, 16} \<longrightarrow>
        (\<exists>bs c'. ok c' \<and> send_cmd m c cmd None = (False, bs, c')))"

lemma good_card_command:
  "good_card m dk ok \<Longrightarrow> ok (card s) \<Longrightarrow> cmdidx cmd \<in> {12, 16} \<Longrightarrow>
    \<exists>c'. ok c' \<and> mmc_command m cmd s = (False, s\<lparr>card := c'\<rparr>)"
  by (fastforce simp: good_card_def mmc_command_def)

lemma mmc_read_blocks_good:
  assumes "good_card m dk ok" "ok (card s)" "0 < unat n" "unat n \<le> unat (b_max m)"
    and "unat first + unat n \<le> unat (lba m)"
  shows "\<exists>c'. ok c' \<and> mmc_read_blocks m dst first n s =
    (n, s\<lparr>card := c', mem := mem_write (mem s) dst (disk_bytes dk (512 * unat first) (512 * unat n))\<rparr>)"
proof -
  have n1: "n > 1 \<longleftrightarrow> unat n > 1"
    by (simp add: word_less_nat_alt)
  have cast: "ucast first = (of_nat (unat first) :: u32)" "ucast n = (of_nat (unat n) :: u32)"
    by simp_all
  obtain c' where c': "ok c'" "send_cmd m (card s)
      \<lparr>cmdidx = (if n > 1 then 18 else 17), cmdarg = ucast first\<rparr> (Some (ucast n, 512)) =
      (False, disk_bytes dk (512 * unat first) (512 * unat n), c')"
    using assms unfolding good_card_def cast n1 by blast
  let ?s = "s\<lparr>card := c', mem := mem_write (mem s) dst
    (disk_bytes dk (512 * unat first) (512 * unat n))\<rparr>"
  obtain c2 where "ok c2" "mmc_command m \<lparr>cmdidx = 12, cmdarg = 0\<rparr> ?s = (False, ?s\<lparr>card := c2\<rparr>)"
    using good_card_command [OF assms(1), of ?s "\<lparr>cmdidx = 12, cmdarg = 0\<rparr>"] c'(1) by auto
  with c' assms(1) show ?thesis
    by (auto simp: mmc_read_blocks_def mmc_command_data_def Let_def good_card_def)
qed

lemma bread_loop_good:
  assumes "good_card m dk ok" "ok (card s)" "0 < unat todo"
    and "unat first + unat todo \<le> unat (lba m)"
  shows "\<exists>c'. ok c' \<and> bread_loop m dst first todo s = (True,
    s\<lparr>card := c',
      mem := mem_write (mem s) dst (disk_bytes dk (512 * unat first) (512 * unat todo))\<rparr>)"
  using assms
proof (induction m dst first todo s rule: bread_loop.induct)
  case (1 m dst first todo s)
  define cur where "cur = chunk m todo"
  have lba: "unat (lba m) \<le> 2 ^ 32" and bl: "read_bl_len m = 512"
    and bm: "0 < unat (b_max m)"
    using "1.prems"(1) by (auto simp: good_card_def word_le_nat_alt unat_gt_0)
  have cur: "unat cur = min (unat todo) (unat (b_max m))"
    by (auto simp: cur_def chunk_def word_less_nat_alt min_def)
  obtain c1 where c1: "ok c1" and r: "mmc_read_blocks m dst first cur s = (cur, s\<lparr>card := c1,
      mem := mem_write (mem s) dst (disk_bytes dk (512 * unat first) (512 * unat cur))\<rparr>)"
    using mmc_read_blocks_good [OF "1.prems"(1,2), of cur first dst] "1.prems"(3,4) cur bm
    by (auto simp: min_def split: if_splits)
  let ?s = "s\<lparr>card := c1,
    mem := mem_write (mem s) dst (disk_bytes dk (512 * unat first) (512 * unat cur))\<rparr>"
  have nz: "cur \<noteq> 0"
    using cur bm "1.prems"(3) by (auto simp: unat_0_iff [symmetric] min_def split: if_splits)
  have left: "unat (todo - cur) = unat todo - unat cur"
    using cur by (simp add: unat_sub word_le_nat_alt)
  have next_first: "unat (first + cur) = unat first + unat cur"
    using "1.prems"(4) lba cur by (simp add: unat_word_ariths)
  show ?case
  proof (cases "todo - cur > 0")
    case True
    then have pos: "0 < unat (todo - cur)"
      by (simp add: unat_gt_0 word_gt_0)
    have dst: "dst + cur * ucast (read_bl_len m) = dst + of_nat (512 * unat cur)"
      by (simp add: bl mult.commute)
    have "\<exists>c'. ok c' \<and> bread_loop m (dst + cur * ucast (read_bl_len m)) (first + cur) (todo - cur) ?s
      = (True, ?s\<lparr>card := c', mem := mem_write (mem ?s) (dst + cur * ucast (read_bl_len m))
          (disk_bytes dk (512 * unat (first + cur)) (512 * unat (todo - cur)))\<rparr>)"
      using c1 pos left next_first "1.prems" cur
      by (intro "1.IH" [OF cur_def r [symmetric] refl]) (auto simp: nz True)
    then obtain c' where c': "ok c'"
      and rec: "bread_loop m (dst + cur * ucast (read_bl_len m)) (first + cur) (todo - cur) ?s
      = (True, ?s\<lparr>card := c', mem := mem_write (mem ?s) (dst + cur * ucast (read_bl_len m))
          (disk_bytes dk (512 * unat (first + cur)) (512 * unat (todo - cur)))\<rparr>)"
      by blast
    have "mem_write (mem ?s) (dst + cur * ucast (read_bl_len m))
        (disk_bytes dk (512 * unat (first + cur)) (512 * unat (todo - cur))) =
      mem_write (mem s) dst (disk_bytes dk (512 * unat first) (512 * unat todo))"
      using mem_write_append [of "disk_bytes dk (512 * unat first) (512 * unat cur)"
          "disk_bytes dk (512 * unat (first + cur)) (512 * unat (todo - cur))" "mem s" dst]
        disk_bytes_append [of dk "512 * unat first" "512 * unat cur" "512 * unat (todo - cur)"]
        left next_first cur lba "1.prems"(4)
      by (simp add: dst algebra_simps)
    with c' rec show ?thesis
      by (subst bread_loop.simps) (auto simp: Let_def r nz True cur_def [symmetric])
  next
    case False
    then have eq: "todo = cur"
      using word_gt_0 by fastforce
    then have z: "\<not> todo - cur > 0"
      by simp
    have "bread_loop m dst first todo s = (True, s\<lparr>card := c1,
        mem := mem_write (mem s) dst (disk_bytes dk (512 * unat first) (512 * unat cur))\<rparr>)"
      using r nz z unfolding cur_def
      by (subst bread_loop.simps) (simp only: Let_def prod.case not_True_eq_False if_False simp_thms)
    with c1 eq show ?thesis by blast
  qed
qed

lemma mmc_bread_good:
  assumes "good_card m dk ok" "ok (card s)" "unat first + unat n \<le> unat (lba m)"
  shows "\<exists>c'. ok c' \<and> mmc_bread m first n dst s =
    (n, s\<lparr>card := c', mem := mem_write (mem s) dst (disk_bytes dk (512 * unat first) (512 * unat n))\<rparr>)"
proof (cases "n = 0")
  case True
  then show ?thesis
    using assms(2) by (auto simp: mmc_bread_def disk_bytes_def intro: exI [of _ "card s"])
next
  case False
  have "unat (lba m) \<le> 2 ^ 32"
    using assms(1) by (auto simp: good_card_def word_le_nat_alt)
  then have "unat (first + n) = unat first + unat n"
    using assms(3) by (simp add: unat_word_ariths)
  then have fits: "\<not> first + n > lba m"
    using assms(3) by (simp add: word_less_nat_alt not_less)
  obtain c1 where c1: "ok c1" "mmc_set_blocklen m (read_bl_len m) s = (False, s\<lparr>card := c1\<rparr>)"
    using good_card_command [OF assms(1,2), of "\<lparr>cmdidx = 16, cmdarg = read_bl_len m\<rparr>"] assms(2)
    by (cases "ddr_mode m") (auto simp: mmc_set_blocklen_def Let_def intro: that [of "card s"])
  then show ?thesis
    using bread_loop_good [OF assms(1), of "s\<lparr>card := c1\<rparr>" n first dst] False fits assms(3)
    by (auto simp: mmc_bread_def Let_def unat_gt_0)
qed

lemma ucast_numeral_512: "ucast (512 :: u32) = (512 :: u64)"
  by simp

definition sectors_of :: "nat \<Rightarrow> nat" where
  "sectors_of n = (n + 511) div 512"

lemma mmc_read_data_good:
  assumes "good_card m dk ok" "ok (card s)" "unat off mod 512 = 0" "unat n + 511 < 2 ^ 32"
    and "unat off div 512 + sectors_of (unat n) \<le> unat (lba m)"
  shows "\<exists>c'. ok c' \<and> mmc_read_data m dest off n s =
    (True, s\<lparr>card := c',
       mem := mem_write (mem s) dest (disk_bytes dk (unat off) (512 * sectors_of (unat n)))\<rparr>)"
proof -
  have bl: "read_bl_len m = 512"
    using assms(1) by (simp add: good_card_def)
  have "unat (n + 512 - 1) = unat n + 511"
    using assms(4) by (simp add: unat_word_ariths)
  then have sec: "unat (ucast ((n + 512 - 1) div 512) :: u64) = sectors_of (unat n)"
    by (simp add: unat_div sectors_of_def)
  have off: "unat (off div 512) = unat off div 512"
    by (simp add: unat_div)
  have off512: "512 * (unat off div 512) = unat off"
    using assms(3) by (metis add_0_right mult_div_mod_eq)
  note bread = mmc_bread_good [OF assms(1,2), of "off div 512" "ucast ((n + 512 - 1) div 512)" dest,
      unfolded sec off off512, OF assms(5)]
  then obtain c' where "ok c'" "mmc_bread m (off div 512) (ucast ((n + 512 - 1) div 512)) dest s =
      (ucast ((n + 512 - 1) div 512), s\<lparr>card := c',
        mem := mem_write (mem s) dest (disk_bytes dk (unat off) (512 * sectors_of (unat n)))\<rparr>)"
    by blast
  then show ?thesis
    unfolding mmc_read_data_def bl ucast_numeral_512 by (intro exI [of _ c']) (simp only: Let_def prod.case simp_thms)
qed

section \<open>Opening and loading from such a card\<close>

lemma length_read_bytes [simp]: "length (read_bytes m a n) = n"
  by (simp add: read_bytes_def)

lemma read_bytes_Suc: "read_bytes m a (Suc n) = m a # read_bytes m (a + 1) n"
  by (simp add: read_bytes_def map_upt_Suc ac_simps del: upt_Suc)

lemma read_bytes_mem_bytes: "read_bytes m a (length xs) = xs \<longleftrightarrow> mem_bytes m a xs"
proof (induction xs arbitrary: a)
  case Nil
  then show ?case by (simp add: read_bytes_def)
qed (simp add: read_bytes_Suc)

lemma read_bytes_write:
  "n \<le> length bs \<Longrightarrow> length bs \<le> 2 ^ 64 \<Longrightarrow> read_bytes (mem_write m d bs) d n = take n bs"
  by (rule nth_equalityI) (simp_all add: read_bytes_def mem_write_def unat_of_nat)

lemma take_disk_bytes: "k \<le> n \<Longrightarrow> take k (disk_bytes dk off n) = disk_bytes dk off k"
  by (simp add: disk_bytes_def take_map)

lemma disk_bytes_nth: "i < n \<Longrightarrow> disk_bytes dk off n ! i = dk (off + i)"
  by (simp add: disk_bytes_def)

lemma parse_slots_start:
  "parse_slots buf slots = Some ps \<Longrightarrow> p \<in> set ps \<Longrightarrow>
    unat (start p) mod 512 = 0 \<and> unat (start p) < 2 ^ 41"
proof (induction slots arbitrary: ps)
  case (Cons slot slots)
  have lt: "unat w < 2 ^ LENGTH(32)" for w :: u32
    by (rule unsigned_less)
  have "unat (512 * ucast w :: u64) = 512 * unat w" for w :: u32
    using lt [of w] by (simp add: unat_word_ariths)
  moreover have "512 * unat w < 2 ^ 41" for w :: u32
    using lt [of w] by simp
  ultimately show ?case
    using Cons by (fastforce simp: Let_def split: if_splits)
qed simp

definition part_fits :: "'c mmc \<Rightarrow> part_info \<Rightarrow> bool" where
  "part_fits m p \<longleftrightarrow> unat (start p) mod 512 = 0 \<and> unat (start p) div 512 + 132 \<le> unat (lba m)"

definition holds_bootfs :: "(nat \<Rightarrow> u8) \<Rightarrow> part_info \<Rightarrow> bool" where
  "holds_bootfs dk p \<longleftrightarrow> disk_bytes dk (unat (start p)) 8 = bytes '':BOOTFS:''"

lemma read_part_good:
  assumes "good_card m dk ok" "ok (card s)" "part_fits m p"
  shows "\<exists>c'. ok c' \<and> mmc_read_data m sb (start p) (33 * 2048) s =
    (True, s\<lparr>card := c', mem := mem_write (mem s) sb (disk_bytes dk (unat (start p)) 67584)\<rparr>)"
  using mmc_read_data_good [OF assms(1,2), of "start p" "33 * 2048" sb] assms(3)
  by (simp add: part_fits_def sectors_of_def)

text \<open>One round of the search, on a partition that fits the card.\<close>

lemma search_step:
  assumes "good_card m dk ok" "ok (card s)" "part_fits m (ps ! (i mod length ps))"
  shows "\<exists>c'. ok c' \<and> search_parts m parts ps sb (i # is) s =
    (let p = ps ! (i mod length ps);
         s1 = s\<lparr>card := c', mem := mem_write (mem s) sb (disk_bytes dk (unat (start p)) 67584)\<rparr>
     in if \<not> tried (mem s) parts ps i then search_parts m parts ps sb is s
        else if holds_bootfs dk p then (Some \<lparr>mmc_offset = start p, fs_sb = sb\<rparr>, s1)
        else search_parts m parts ps sb is s1)"
proof -
  let ?p = "ps ! (i mod length ps)"
  obtain c' where "ok c'" "mmc_read_data m sb (start ?p) (33 * 2048) s =
    (True, s\<lparr>card := c', mem := mem_write (mem s) sb (disk_bytes dk (unat (start ?p)) 67584)\<rparr>)"
    using read_part_good [OF assms] by blast
  then show ?thesis
    by (intro exI [of _ c'])
      (simp add: Let_def holds_bootfs_def read_bytes_write take_disk_bytes)
qed

lemma tried_first: "i < length ps \<Longrightarrow> tried m parts ps i \<longleftrightarrow> is_boot (ps ! i)"
  by (simp add: tried_def boot_byte_def)

lemma search_first_boot:
  assumes "good_card m dk ok" "\<forall>p \<in> set ps. part_fits m p"
    and "k < length ps" "is_boot (ps ! k)" "holds_bootfs dk (ps ! k)"
    and "\<forall>j < k. is_boot (ps ! j) \<longrightarrow> \<not> holds_bootfs dk (ps ! j)"
    and "j \<le> k" "ok (card s)" "k < n"
  shows "\<exists>s'. search_parts m parts ps sb [j..<n] s =
      (Some \<lparr>mmc_offset = start (ps ! k), fs_sb = sb\<rparr>, s') \<and> ok (card s') \<and>
      read_bytes (mem s') sb 67584 = disk_bytes dk (unat (start (ps ! k))) 67584"
  using assms(7-)
proof (induction "k - j" arbitrary: j s)
  case 0
  then have "j = k" by simp
  moreover have "[k..<n] = k # [Suc k..<n]"
    using 0 by (simp add: upt_conv_Cons)
  ultimately show ?case
    using search_step [OF assms(1), of s ps k parts sb "[Suc k..<n]"] assms 0
    by (auto simp: Let_def tried_first read_bytes_write)
next
  case (Suc d)
  then have j: "j < k" and split: "[j..<n] = j # [Suc j..<n]" by (simp_all add: upt_conv_Cons)
  have fits: "part_fits m (ps ! (j mod length ps))" and mod: "j mod length ps = j"
    using assms(2,3) j by simp_all
  obtain c' where c': "ok c'" and step: "search_parts m parts ps sb (j # [Suc j..<n]) s =
    (let p = ps ! j;
         s1 = s\<lparr>card := c', mem := mem_write (mem s) sb (disk_bytes dk (unat (start p)) 67584)\<rparr>
     in if \<not> tried (mem s) parts ps j then search_parts m parts ps sb [Suc j..<n] s
        else if holds_bootfs dk p then (Some \<lparr>mmc_offset = start p, fs_sb = sb\<rparr>, s1)
        else search_parts m parts ps sb [Suc j..<n] s1)"
    using search_step [OF assms(1) Suc.prems(2) fits, of parts sb "[Suc j..<n]"] unfolding mod by blast
  have d: "d = k - Suc j" "Suc j \<le> k"
    using Suc.hyps(2) by simp_all
  show ?case
    using Suc.hyps(1) [OF d, of s] Suc.prems assms(6) c' j tried_first [of j ps "mem s" parts] assms(3)
      Suc.hyps(1) [OF d, of "s\<lparr>card := c',
        mem := mem_write (mem s) sb (disk_bytes dk (unat (start (ps ! j))) 67584)\<rparr>"]
    by (auto simp: split step Let_def simp del: search_parts.simps)
qed

lemma xor_eq_zero: "a XOR b = 0 \<longleftrightarrow> a = b" for a b :: "'a::len word"
  by (metis xor.assoc xor.left_neutral xor.right_neutral xor_self_eq)

text \<open>What \<open>bootfs_open\<close> has done when the search starts.\<close>

lemma bootfs_open_search:
  assumes "good_card m dk ok" "ok (card s)" "0 < unat (lba m)"
    and "dk 510 = 0x55" "dk 511 = 0xaa" "parse_slots (disk_bytes dk 0 512) [0, 1, 2, 3] = Some ps"
  shows "\<exists>c'. ok c' \<and> bootfs_open (Some m) s =
    search_parts m (heap_end s) ps (heap_end s + 704) [0..<length ps * 2]
      (s\<lparr>card := c', mem := mem_write (mem s) (heap_end s + 128) (disk_bytes dk 0 512),
         heap_end := heap_end s + 68288\<rparr>)"
proof -
  have al: "align64 96 = 128" "align64 512 = 512" "align64 40 = 64" "align64 67584 = 67584"
    by (simp_all add: align64_def)
  let ?s = "s\<lparr>heap_end := heap_end s + 640\<rparr>"
  obtain c' where "ok c'" "mmc_read_data m (heap_end s + 128) 0 512 ?s =
      (True, ?s\<lparr>card := c', mem := mem_write (mem s) (heap_end s + 128) (disk_bytes dk 0 512)\<rparr>)"
    using mmc_read_data_good [OF assms(1), of ?s 0 512 "heap_end s + 128"] assms(2,3)
    by (auto simp: sectors_of_def)
  then show ?thesis
    using assms(4-6)
    by (intro exI [of _ c'])
      (simp add: bootfs_open_def malloc_def Let_def al read_bytes_write disk_bytes_nth add.assoc
        del: parse_slots.simps)
qed

text \<open>
  C5: on a card with a valid partition table, \<open>bootfs_open\<close> finds the first partition that is
  flagged bootable and holds a boot filesystem: the result names its offset on the card and a
  buffer with its superblock and 32 metadata blocks.
\<close>

theorem bootfs_open_boot_partition:
  assumes "good_card m dk ok" "ok (card s)"
    and "dk 510 = 0x55" "dk 511 = 0xaa" "parse_slots (disk_bytes dk 0 512) [0, 1, 2, 3] = Some ps"
    and "\<forall>p \<in> set ps. unat (start p) div 512 + 132 \<le> unat (lba m)"
    and "k < length ps" "is_boot (ps ! k)" "holds_bootfs dk (ps ! k)"
    and "\<forall>j < k. is_boot (ps ! j) \<longrightarrow> \<not> holds_bootfs dk (ps ! j)"
  shows "\<exists>fs s'. bootfs_open (Some m) s = (Some fs, s') \<and> ok (card s') \<and>
    mmc_offset fs = start (ps ! k) \<and>
    read_bytes (mem s') (fs_sb fs) 67584 = disk_bytes dk (unat (start (ps ! k))) 67584"
proof -
  have fits: "\<forall>p \<in> set ps. part_fits m p"
    using assms(6) parse_slots_start [OF assms(5)] by (auto simp: part_fits_def)
  have "ps ! k \<in> set ps"
    using assms(7) by simp
  then have "0 < unat (lba m)"
    using assms(6) by fastforce
  then obtain c' where c': "ok c'" "bootfs_open (Some m) s =
    search_parts m (heap_end s) ps (heap_end s + 704) [0..<length ps * 2]
      (s\<lparr>card := c', mem := mem_write (mem s) (heap_end s + 128) (disk_bytes dk 0 512),
         heap_end := heap_end s + 68288\<rparr>)"
    using bootfs_open_search [OF assms(1,2) _ assms(3-5)] by blast
  with search_first_boot [OF assms(1) fits assms(7-10), of 0 _ "length ps * 2" "heap_end s"
      "heap_end s + 704"] assms(7)
  show ?thesis by force
qed

text \<open>A card that holds an image, for the witnesses: 256 GiB, always ready.\<close>

definition image_card :: "(nat \<Rightarrow> u8) \<Rightarrow> unit mmc" where
  "image_card dk = \<lparr>send_cmd = (\<lambda>c cmd d. case d of
       None \<Rightarrow> (False, [], ())
     | Some (n, bl) \<Rightarrow> (False, disk_bytes dk (512 * unat (cmdarg cmd)) (unat bl * unat n), ())),
     read_bl_len = 512, b_max = 65535, lba = 0x20000000, high_capacity = True,
     ddr_mode = False, retry_set_blocklen = True\<rparr>"

lemma good_image_card: "good_card (image_card dk) dk (\<lambda>_. True)"
proof -
  have "unat (of_nat n :: u32) = n" if "n \<le> 65535" for n
    using that by (simp add: unat_of_nat)
  moreover have "unat (of_nat n :: u32) = n" if "n + k \<le> 0x20000000" for n k
    using that by (simp add: unat_of_nat)
  ultimately show ?thesis
    by (auto simp: good_card_def image_card_def)
qed

lemma drop_disk_bytes: "drop k (disk_bytes dk off n) = disk_bytes dk (off + k) (n - k)"
  by (rule nth_equalityI) (simp_all add: disk_bytes_def add.assoc)

lemma disk_bytes_Suc: "disk_bytes dk off (Suc n) = dk off # disk_bytes dk (Suc off) n"
  by (rule nth_equalityI) (auto simp: disk_bytes_def nth_Cons simp del: upt_Suc split: nat.splits)

lemma le32_disk_bytes:
  "4 \<le> n \<Longrightarrow> le32_of (disk_bytes dk off n) =
    le32_of [dk off, dk (Suc off), dk (Suc (Suc off)), dk (Suc (Suc (Suc off)))]"
proof -
  assume "4 \<le> n"
  then obtain k where "n = Suc (Suc (Suc (Suc k)))"
    using le_Suc_ex [of 4 n] by (auto simp: eval_nat_numeral)
  then show ?thesis by (simp only: disk_bytes_Suc le32_of.simps)
qed

text \<open>One partition at sector 2048, flagged bootable or not, with the magic of bootfs.\<close>

definition demo_disk :: "u8 \<Rightarrow> nat \<Rightarrow> u8" where
  "demo_disk flag a =
     (if a = 510 then 0x55 else if a = 511 then 0xaa
      else if a = 446 then flag else if a = 450 then 0x83 else if a = 455 then 8
      else if 1048576 \<le> a \<and> a < 1048584 then bytes '':BOOTFS:'' ! (a - 1048576) else 0)"

lemma demo_disk_slots:
  "flag = 0 \<or> flag = 0x80 \<Longrightarrow> parse_slots (disk_bytes (demo_disk flag) 0 512) [0, 1, 2, 3] =
    Some [\<lparr>start = 1048576, psize = 0, is_boot = (flag = 0x80), idx = 0\<rparr>]"
  by (auto simp: Let_def drop_disk_bytes le32_disk_bytes disk_bytes_nth demo_disk_def)

lemma demo_disk_holds: "start p = 1048576 \<Longrightarrow> holds_bootfs (demo_disk flag) p"
  unfolding holds_bootfs_def
  by (rule nth_equalityI) (auto simp: disk_bytes_nth demo_disk_def)

definition demo_store :: "u8 \<Rightarrow> unit store" where
  "demo_store junk = \<lparr>mem = (\<lambda>a. junk), heap_end = 0x4a000000, card = ()\<rparr>"

theorem bootfs_open_boot_partition_witness:
  "\<exists>fs s'. bootfs_open (Some (image_card (demo_disk 0x80))) (demo_store 1) = (Some fs, s') \<and>
    mmc_offset fs = 1048576"
proof -
  let ?ps = "[\<lparr>start = 1048576, psize = 0, is_boot = True, idx = 0\<rparr>]"
  have "parse_slots (disk_bytes (demo_disk 0x80) 0 512) [0, 1, 2, 3] = Some ?ps"
    using demo_disk_slots [of "0x80"] by (simp only: simp_thms)
  from bootfs_open_boot_partition [OF good_image_card _ _ _ this, of 0 "demo_store 1"]
  show ?thesis
    by (simp add: demo_disk_holds demo_disk_def [of _ 510] demo_disk_def [of _ 511] image_card_def
        del: parse_slots.simps) blast
qed

text \<open>
  The search order depends on memory nobody wrote: with a single partition that holds a boot
  filesystem but is not flagged bootable, \<open>bootfs_open\<close> opens it unless the byte 40 bytes into
  the freshly allocated table (\<open>parts[1].is_boot\<close>, one past the last entry) happens to be 1.
\<close>

theorem bootfs_open_unflagged:
  assumes "good_card m dk ok" "ok (card s)"
    and "dk 510 = 0x55" "dk 511 = 0xaa"
    and "parse_slots (disk_bytes dk 0 512) [0, 1, 2, 3] = Some [p]"
    and "unat (start p) div 512 + 132 \<le> unat (lba m)" "\<not> is_boot p" "holds_bootfs dk p"
  shows "fst (bootfs_open (Some m) s) \<noteq> None \<longleftrightarrow> mem s (heap_end s + 40) \<noteq> 1"
proof -
  have fits: "part_fits m p"
    using assms(6) parse_slots_start [OF assms(5)] by (auto simp: part_fits_def)
  have "0 < unat (lba m)"
    using assms(6) by simp
  then obtain c' where c': "ok c'" "bootfs_open (Some m) s =
    search_parts m (heap_end s) [p] (heap_end s + 704) [0, 1]
      (s\<lparr>card := c', mem := mem_write (mem s) (heap_end s + 128) (disk_bytes dk 0 512),
         heap_end := heap_end s + 68288\<rparr>)"
    using bootfs_open_search [OF assms(1,2) _ assms(3-5)] by (auto simp: upt_rec)
  let ?s = "s\<lparr>card := c', mem := mem_write (mem s) (heap_end s + 128) (disk_bytes dk 0 512),
         heap_end := heap_end s + 68288\<rparr>"
  have "mem ?s (heap_end s + 40) = mem s (heap_end s + 40)"
    by (simp add: mem_write_outside)
  then have tried1: "tried (mem ?s) (heap_end s) [p] 1 \<longleftrightarrow> mem s (heap_end s + 40) \<noteq> 1"
    by (simp add: tried_def boot_byte_def xor_eq_zero)
  have "\<not> tried (mem ?s) (heap_end s) [p] 0"
    using assms(7) by (simp add: tried_first)
  then show ?thesis
    using search_step [OF assms(1), of ?s "[p]" 0 "heap_end s" "heap_end s + 704" "[1]"]
      search_step [OF assms(1), of ?s "[p]" 1 "heap_end s" "heap_end s + 704" "[]"]
      tried1 fits c' assms(8)
    by (auto simp: Let_def)
qed

theorem bootfs_open_unflagged_witness:
  "fst (bootfs_open (Some (image_card (demo_disk 0))) (demo_store 1)) = None"
  using bootfs_open_unflagged
      [OF good_image_card, where s = "demo_store 1" and dk = "demo_disk 0"]
    demo_disk_slots [of 0] demo_disk_holds [of _ 0]
  by (simp add: demo_disk_def [of _ 510] demo_disk_def [of _ 511] image_card_def demo_store_def
      del: parse_slots.simps)

end
