(* ===== verification/Bootfs_Roundtrip.thy ===== *)
theory Bootfs_Roundtrip
  imports Conf_Layout Storage
begin

text \<open>
  The two programs together: what the boot loader's \<open>src/src/storage.c\<close> reads back from a
  partition that \<open>p-boot-conf\<close> (\<open>src/src/conf.c\<close>) has written.
\<close>

section \<open>Memory that holds a block\<close>

lemma read_bytes_sub:
  "read_bytes m a n = xs \<Longrightarrow> k + l \<le> n \<Longrightarrow> read_bytes m (a + of_nat k) l = take l (drop k xs)"
proof -
  assume eq: "read_bytes m a n = xs" and kl: "k + l \<le> n"
  have len: "length xs = n" using eq by auto
  have nth: "xs ! i = m (a + of_nat i)" if "i < n" for i
    using that unfolding eq [symmetric] by (simp add: read_bytes_def)
  show ?thesis
    using len kl by (intro nth_equalityI) (simp_all add: nth read_bytes_def add.assoc)
qed

lemma cstr_unique: "cstr m a x \<Longrightarrow> cstr m a y \<Longrightarrow> x = y"
proof (induction x arbitrary: a y)
  case Nil
  then show ?case by (cases y) auto
next
  case (Cons c x)
  then show ?case by (cases y) auto
qed

lemma strcmp_name:
  assumes "cstr m a x" "0 \<notin> set name"
  shows "read_bytes m a (length name + 1) = name @ [0] \<longleftrightarrow> x = name"
proof -
  have "read_bytes m a (length name + 1) = name @ [0] \<longleftrightarrow> cstr m a name"
    using read_bytes_mem_bytes [of m a "name @ [0]"] assms(2) by (simp add: cstr_def)
  with assms(1) cstr_unique show ?thesis by blast
qed

section \<open>Looking for a file\<close>

definition name_ok :: "string \<Rightarrow> bool" where
  "name_ok n \<longleftrightarrow> n \<noteq> [] \<and> length n \<le> 31 \<and> CHR 0x00 \<notin> set n"

lemma bytes_no_nul: "CHR 0x00 \<notin> set n \<Longrightarrow> 0 \<notin> set (bytes n)"
proof -
  have "of_char c = (0 :: u8) \<Longrightarrow> c = CHR 0x00" for c
    by (rule iffD1 [OF of_char_u8_inject]) simp
  moreover assume "CHR 0x00 \<notin> set n"
  ultimately show ?thesis unfolding bytes_def by (metis imageE list.set_map)
qed

lemma fit_short: "length s < n \<Longrightarrow> fit n s = s @ 0 # replicate (n - length s - 1) 0"
  by (cases "n - length s") (simp_all add: fit_def Let_def)

lemma file_entry_cstr:
  assumes "read_bytes m a 40 = enc_file (file_of ds f)" "name_ok (fst f)"
  shows "cstr m a (bytes (fst f))" "m a \<noteq> 0"
proof -
  have "mem_bytes m a (enc_file (file_of ds f))"
    using assms(1) read_bytes_mem_bytes [of m a "enc_file (file_of ds f)"]
      file_codec.length_enc [of "file_of ds f"]
    by (simp add: wf_file_def file_of_def)
  then have "mem_bytes m a (bytes (fst f) @ [0])"
    using assms(2) by (simp add: enc_file_def file_of_def fit_short name_ok_def)
  then show c: "cstr m a (bytes (fst f))"
    using assms(2) bytes_no_nul by (simp add: cstr_def name_ok_def)
  then show "m a \<noteq> 0"
    using assms(2) by (cases "fst f") (auto simp: name_ok_def bytes_Cons)
qed

definition lookup_file :: "u8 list \<Rightarrow> (string \<times> nat) list \<Rightarrow> (string \<times> nat) option" where
  "lookup_file name fs = find (\<lambda>f. bytes (fst f) = name) fs"

lemma find_in_block_files:
  assumes "read_bytes m blk 2048 = enc_files (files_of ds fs)" "length fs \<le> 51"
    and "\<forall>f \<in> set fs. name_ok (fst f)" "0 \<notin> set name" "j \<le> length fs"
  shows "find_in_block name m blk [j..<51] = map_option (file_of ds) (lookup_file name (drop j fs))"
  using assms(5)
proof (induction "length fs - j" arbitrary: j)
  case 0
  then have j: "j = length fs" by simp
  show ?case
  proof (cases "length fs = 51")
    case True
    with j show ?thesis by (simp add: lookup_file_def)
  next
    case False
    then have less: "length fs < 51" using assms(2) by simp
    let ?f = "blk + of_nat (8 + 40 * j)"
    have "read_bytes m ?f 1 = take 1 (drop (8 + 40 * j) (enc_files (files_of ds fs)))"
      using less j by (intro read_bytes_sub [OF assms(1)]) simp
    also have "\<dots> = take 1 (drop (40 * j) (concat (map enc_file (bf_files (files_of ds fs))) @ []))"
      by (simp add: enc_files_def files_of_def)
    also have "\<dots> = [0]"
    proof -
      have "\<forall>x \<in> set (bf_files (files_of ds fs)). wf_file x" "j \<le> length (bf_files (files_of ds fs))"
        using wf_files_of [OF assms(2)] j assms(2) by (simp_all add: wf_files_def files_of_def)
      moreover have "drop j (bf_files (files_of ds fs)) = no_file # replicate (50 - length fs) no_file"
        using less j by (cases "51 - length fs") (simp_all add: files_of_def)
      ultimately show ?thesis
        by (subst file_codec.drop_concat_enc)
          (simp_all add: enc_file_def no_file_def numeral_eq_Suc del: drop_append)
    qed
    finally have "m ?f = 0" by (simp add: read_bytes_def)
    moreover have "[j..<51] = j # [Suc j..<51]"
      using less j by (simp add: upt_conv_Cons)
    ultimately show ?thesis
      using j by (simp add: Let_def lookup_file_def)
  qed
next
  case (Suc d)
  then have j: "j < length fs" "j < 51" using assms(2) by simp_all
  let ?f = "blk + of_nat (8 + 40 * j)"
  have "read_bytes m ?f 40 = take 40 (drop (8 + 40 * j) (enc_files (files_of ds fs)))"
    using j by (intro read_bytes_sub [OF assms(1)]) simp
  also have "\<dots> = take 40 (drop (40 * j) (concat (map enc_file (bf_files (files_of ds fs))) @ []))"
    by (simp add: enc_files_def files_of_def)
  also have "\<dots> = enc_file (file_of ds (fs ! j))"
  proof -
    have wf: "\<forall>x \<in> set (bf_files (files_of ds fs)). wf_file x" "j \<le> length (bf_files (files_of ds fs))"
      using wf_files_of [OF assms(2)] j by (simp_all add: wf_files_def files_of_def)
    moreover have "drop j (bf_files (files_of ds fs)) =
        file_of ds (fs ! j) # drop (Suc j) (bf_files (files_of ds fs))"
      using j wf(2) by (simp add: files_of_def Cons_nth_drop_Suc [symmetric])
    moreover have "length (enc_file (file_of ds (fs ! j))) = 40"
      by (rule file_codec.length_enc) (simp add: wf_file_def file_of_def)
    ultimately show ?thesis
      by (subst file_codec.drop_concat_enc) (simp_all del: drop_append)
  qed
  finally have entry: "read_bytes m ?f 40 = enc_file (file_of ds (fs ! j))" .
  have "name_ok (fst (fs ! j))"
    using assms(3) j by simp
  note c = file_entry_cstr [OF entry this]
  have dec: "dec_file (read_bytes m ?f 40) = file_of ds (fs ! j)"
    using file_codec.dec_enc [of "file_of ds (fs ! j)" "[]"]
    by (simp only: entry) (simp add: wf_file_def file_of_def)
  have IH: "find_in_block name m blk [Suc j..<51] =
      map_option (file_of ds) (lookup_file name (drop (Suc j) fs))"
    using Suc by (intro Suc.hyps(1)) simp_all
  have "drop j fs = fs ! j # drop (Suc j) fs" "[j..<51] = j # [Suc j..<51]"
    using j by (simp_all add: Cons_nth_drop_Suc upt_conv_Cons)
  then show ?case
    using c(2) strcmp_name [OF c(1) assms(4)] dec IH
    by (simp add: Let_def lookup_file_def)
qed

text \<open>The magic of a block tells what the tool put there.\<close>

lemma block_magic:
  "take 8 (enc_files (files_of ds fs)) = bytes '':BFILES:''"
  "take 8 (enc_conf (conf_of ds c)) = bytes '':BFCONF:''"
  "take 8 (replicate 2048 (0 :: u8)) \<noteq> bytes '':BFILES:''"
  "bytes '':BFCONF:'' \<noteq> bytes '':BFILES:''"
proof -
  have "hd (take 8 (replicate 2048 (0 :: u8))) = 0" "hd (bytes '':BFILES:'') = 58"
    by (simp_all add: bytes_Cons)
  moreover have "(0 :: u8) \<noteq> 58" by simp
  ultimately show "take 8 (replicate 2048 (0 :: u8)) \<noteq> bytes '':BFILES:''"
    by metis
qed (simp_all add: enc_files_def files_of_def enc_conf_def conf_of_def)

lemma find_append:
  "find P (xs @ ys) = (case find P xs of None \<Rightarrow> find P ys | Some x \<Rightarrow> Some x)"
  by (induction xs) auto

definition free_slots :: "bconf option list \<Rightarrow> nat" where
  "free_slots cs = length (filter (\<lambda>c. c = None) cs)"

lemma find_file_blocks:
  assumes "\<forall>f \<in> set fs. name_ok (fst f)" "0 \<notin> set name" "i + length cs = n"
    and "\<forall>k < length cs. read_bytes m (block_addr bfs (i + k)) 2048 = metadata_blocks ds cs fs ! k"
  shows "find_file name m bfs [i..<n] =
    map_option (file_of ds) (lookup_file name (take (51 * free_slots cs) fs))"
  using assms
proof (induction ds cs fs arbitrary: i rule: metadata_blocks.induct)
  case (1 ds fs)
  then show ?case by (simp add: lookup_file_def free_slots_def)
next
  case (2 ds c cs fs)
  have upt: "[i..<n] = i # [Suc i..<n]"
    using "2.prems"(3) by (simp add: upt_conv_Cons)
  have "read_bytes m (block_addr bfs i) 2048 = enc_conf (conf_of ds c)"
    using "2.prems"(4) by fastforce
  from read_bytes_sub [OF this, of 0 8]
  have magic: "read_bytes m (block_addr bfs i) 8 \<noteq> bytes '':BFILES:''"
    by (simp add: block_magic)
  have "find_file name m bfs [Suc i..<n] =
      map_option (file_of ds) (lookup_file name (take (51 * free_slots cs) fs))"
    using "2.prems" by (intro "2.IH") fastforce+
  with upt magic show ?case
    by (simp add: Let_def free_slots_def)
next
  case (3 ds cs fs)
  have upt: "[i..<n] = i # [Suc i..<n]"
    using "3.prems"(3) by (simp add: upt_conv_Cons)
  show ?case
  proof (cases "fs = []")
    case True
    then have "read_bytes m (block_addr bfs i) 2048 = replicate 2048 0"
      using "3.prems"(4) by fastforce
    from read_bytes_sub [OF this, of 0 8]
    have magic: "read_bytes m (block_addr bfs i) 8 \<noteq> bytes '':BFILES:''"
      using block_magic(3) by simp
    have "find_file name m bfs [Suc i..<n] =
      map_option (file_of ds) (lookup_file name (take (51 * free_slots cs) fs))"
      using "3.prems" True by (intro "3.IH"(2)) fastforce+
    with upt magic True show ?thesis
      by (simp add: Let_def lookup_file_def)
  next
    case False
    define r where "r = (if length fs > 51 then 51 else length fs)"
    have r: "take r fs = take 51 fs" "drop r fs = drop 51 fs"
      by (simp_all add: r_def)
    have blocks: "metadata_blocks ds (None # cs) fs =
        enc_files (files_of ds (take 51 fs)) # metadata_blocks ds cs (drop 51 fs)"
      using False by (simp add: Let_def flip: r r_def)
    then have block: "read_bytes m (block_addr bfs i) 2048 = enc_files (files_of ds (take 51 fs))"
      using "3.prems"(4) by fastforce
    from read_bytes_sub [OF this, of 0 8]
    have magic: "read_bytes m (block_addr bfs i) 8 = bytes '':BFILES:''"
      by (simp add: block_magic)
    have ok: "\<forall>f \<in> set (take 51 fs). name_ok (fst f)" and len: "length (take 51 fs) \<le> 51"
      using "3.prems"(1) by (auto dest: in_set_takeD)
    have here: "find_in_block name m (block_addr bfs i) [0..<51] =
        map_option (file_of ds) (lookup_file name (take 51 fs))"
      using find_in_block_files [OF block len ok "3.prems"(2), of 0] by (simp only: drop_0 le0)
    have rest: "find_file name m bfs [Suc i..<n] =
      map_option (file_of ds) (lookup_file name (take (51 * free_slots cs) (drop 51 fs)))"
    proof (rule "3.IH"(1) [OF False r_def, unfolded r])
      show "\<forall>k < length cs. read_bytes m (block_addr bfs (Suc i + k)) 2048 =
          metadata_blocks ds cs (drop 51 fs) ! k"
        using "3.prems"(4) unfolding blocks by fastforce
    qed (use "3.prems" in \<open>auto dest: in_set_dropD\<close>)
    have "take (51 * free_slots (None # cs)) fs =
        take 51 fs @ take (51 * free_slots cs) (drop 51 fs)"
    proof -
      have "51 * free_slots (None # cs) = 51 + 51 * free_slots cs"
        by (simp add: free_slots_def)
      then show ?thesis by (simp only: take_add)
    qed
    then have "lookup_file name (take (51 * free_slots (None # cs)) fs) =
        (case lookup_file name (take 51 fs) of None \<Rightarrow>
            lookup_file name (take (51 * free_slots cs) (drop 51 fs)) | Some f \<Rightarrow> Some f)"
      by (simp only: lookup_file_def find_append)
    with upt magic here rest show ?thesis
      by (simp add: Let_def split: option.split)
  qed
qed

section \<open>Reading back what was written\<close>

lemma block_from_buffer:
  assumes "read_bytes m (fs_sb bfs) 67584 = map dk [0..<67584]" "i < 32"
  shows "read_bytes m (block_addr bfs i) 2048 = map dk [2048 * (i + 1)..<2048 * (i + 2)]"
proof -
  have "read_bytes m (block_addr bfs i) 2048 = take 2048 (drop (2048 * (i + 1)) (map dk [0..<67584]))"
    unfolding block_addr_def using assms(2) by (intro read_bytes_sub [OF assms(1)]) simp
  also have "\<dots> = map dk [2048 * (i + 1)..<2048 * (i + 2)]"
    using assms(2) by (simp add: drop_map take_map drop_upt take_upt del: upt_Suc)
  finally show ?thesis .
qed

text \<open>
  A file looked up by the boot loader in the metadata that \<open>p-boot-conf\<close> wrote is the
  first file of that name in the order of the files directory, among those that fit: 51 for
  each slot without a configuration. Files beyond that are not found, though the tool reported
  no error.
\<close>

theorem find_file_written:
  assumes "tool_wf t" "write_fs os t dk = (t', dk')"
    and "\<forall>f \<in> set (files t). name_ok (fst f)" "0 \<notin> set name"
    and "read_bytes m (fs_sb bfs) 67584 = map dk' [0..<67584]"
  shows "find_file name m bfs [0..<32] = map_option (file_of (data_list t'))
    (lookup_file name (take (51 * free_slots (confs t)) (files t)))"
proof (rule find_file_blocks [OF assms(3,4)])
  show len: "0 + length (confs t) = 32"
    using assms(1) by (simp add: tool_wf_def)
  show "\<forall>k < length (confs t). read_bytes m (block_addr bfs (0 + k)) 2048 =
      metadata_blocks (data_list t') (confs t) (files t) ! k"
    using block_from_buffer [OF assms(5)] write_fs_block [OF assms(1,2)] len by simp
qed

lemma unat_lt2p_u32: "unat (w :: u32) < 2 ^ 32"
  using unsigned_less [of w] by simp

text \<open>Loading an entry of the data list from its recorded offset.\<close>

lemma load_data_entry:
  assumes "tool_wf t" "write_fs os t dk = (t', dk')"
    and "data_end (os_content os) (data_list t) 67584 < 2 ^ 32"
    and "i < length (data_list t)" "p = payload (os_content os (d_fd (data_list t ! i)))"
    and "p \<noteq> []" "length p \<le> 536870912" "dest \<noteq> 0"
    and "good_card m cd ok" "ok (card s)"
    and "unat (mmc_offset fs) mod 512 = 0" "unat (mmc_offset fs) < 2 ^ 41"
    and "\<forall>a < data_end (os_content os) (data_list t) 67584. cd (unat (mmc_offset fs) + a) = dk' a"
    and "unat (mmc_offset fs) + data_end (os_content os) (data_list t) 67584 \<le> 512 * unat (lba m)"
  shows "\<exists>s'. bootfs_load_image m fs dest (ucast (d_offset (data_list t' ! i)))
      (d_size (data_list t' ! i)) s = (int (length p), s') \<and> ok (card s') \<and>
      read_bytes (mem s') (ucast dest) (length p) = p"
proof -
  let ?d = "data_list t' ! i" and ?fin = "data_end (os_content os) (data_list t) 67584"
  note entry = write_fs_entry [OF assms(1-4), folded assms(5)]
  define o_i where "o_i = unat (d_offset ?d)"
  have size: "unat (d_size ?d) = length p" and content: "map dk' [o_i..<o_i + length p] = p"
    using entry by (simp_all add: o_i_def)
  have al: "o_i mod 512 = 0"
    unfolding o_i_def entry(1) by (rule data_start_aligned) simp
  then obtain q where q: "o_i = 512 * q" by (metis mod_0_imp_dvd dvdE)
  obtain r where r: "unat (mmc_offset fs) = 512 * r"
    using assms(11) by (metis mod_0_imp_dvd dvdE)
  have "(o_i + length p + 511) div 512 * 512 \<le> ?fin"
    using data_start_room [OF assms(4), of "os_content os" 67584] entry(1) assms(5)
    by (simp add: o_i_def)
  moreover have "(512 * q + length p + 511) div 512 * 512 = 512 * q + 512 * sectors_of (length p)"
    unfolding sectors_of_def by (simp add: add.assoc)
  moreover have "length p \<le> 512 * sectors_of (length p)"
    by (simp add: sectors_of_def)
  ultimately have last: "o_i + 512 * sectors_of (length p) \<le> ?fin" "o_i + length p \<le> ?fin"
    unfolding q by linarith+
  define off where "off = mmc_offset fs + ucast (d_offset ?d)"
  have off: "unat off = 512 * (r + q)"
    using r q assms(12) unat_lt2p_u32 [of "d_offset ?d"]
    by (simp add: off_def unat_word_ariths o_i_def [symmetric])
  obtain c' where c': "ok c'" "mmc_read_data m (ucast dest) off (d_size ?d) s = (True,
      s\<lparr>card := c', mem := mem_write (mem s) (ucast dest)
        (disk_bytes cd (unat off) (512 * sectors_of (unat (d_size ?d))))\<rparr>)"
    using mmc_read_data_good [OF assms(9,10), of off "d_size ?d" "ucast dest"]
      off size assms(7,14) last(1) q r
    by auto
  have "length p \<le> 512 * sectors_of (length p)" "512 * sectors_of (length p) \<le> 2 ^ 64"
    using assms(7) by (simp_all add: sectors_of_def)
  then have "read_bytes (mem_write (mem s) (ucast dest)
      (disk_bytes cd (unat off) (512 * sectors_of (length p)))) (ucast dest) (length p) =
      disk_bytes cd (unat off) (length p)"
    by (simp add: read_bytes_write take_disk_bytes)
  also have "\<dots> = map (\<lambda>a. cd (unat (mmc_offset fs) + a)) [o_i..<o_i + length p]"
    by (rule nth_equalityI) (simp_all add: disk_bytes_nth off r q algebra_simps)
  also have "\<dots> = map dk' [o_i..<o_i + length p]"
    using assms(13) last(2) by (intro map_cong) simp_all
  finally have read: "read_bytes (mem_write (mem s) (ucast dest)
      (disk_bytes cd (unat off) (512 * sectors_of (length p)))) (ucast dest) (length p) = p"
    using content by simp
  have "0 < length p"
    using assms(6) by simp
  then have nz: "d_size ?d \<noteq> 0"
    by (simp add: unat_gt_0 flip: size)
  have "unat (d_size ?d) \<le> unat (512 * 1024 * 1024 :: u32)"
    using size assms(7) by simp
  then have small: "\<not> d_size ?d > 512 * 1024 * 1024"
    by (simp only: word_less_nat_alt not_less)
  have "unat ((ucast (d_offset ?d) :: u64) mod 512) = 0"
    using al by (simp only: unat_mod unat_widen o_i_def) simp
  then have mod: "(ucast (d_offset ?d) :: u64) mod 512 = 0"
    by (simp only: unat_eq_0)
  have len: "uint (d_size ?d) = int (length p)"
    using size by (simp flip: size)
  note conds = nz small mod len
  show ?thesis
    using c' read conds assms(8) size
    by (simp add: bootfs_load_image_def off_def [symmetric])
qed

lemma lookup_file_Some: "lookup_file name fs = Some f \<Longrightarrow> f \<in> set fs \<and> bytes (fst f) = name"
  by (induction fs) (auto simp: lookup_file_def split: if_splits)

text \<open>
  C1: end to end. The partition at \<open>mmc_offset fs\<close> of a good card holds what \<open>p-boot-conf\<close>
  wrote, and the loader's buffer its metadata: then \<open>bootfs_load_file\<close>, asked for a file that
  the tool stored, returns the length of the file's payload and puts exactly that payload at the
  destination in memory.
\<close>

theorem bootfs_load_file_written:
  assumes "tool_wf t" "write_fs os t dk = (t', dk')"
    and "data_end (os_content os) (data_list t) 67584 < 2 ^ 32"
    and "\<forall>f \<in> set (files t). name_ok (fst f)" "0 \<notin> set name"
    and "lookup_file name (take (51 * free_slots (confs t)) (files t)) = Some f"
    and "p = payload (os_content os (d_fd (data_list t ! snd f)))"
    and "p \<noteq> []" "length p \<le> 536870912" "dest \<noteq> 0"
    and "good_card m cd ok" "ok (card s)"
    and "unat (mmc_offset fs) mod 512 = 0" "unat (mmc_offset fs) < 2 ^ 41"
    and "\<forall>a < data_end (os_content os) (data_list t) 67584. cd (unat (mmc_offset fs) + a) = dk' a"
    and "unat (mmc_offset fs) + data_end (os_content os) (data_list t) 67584 \<le> 512 * unat (lba m)"
    and "read_bytes (mem s) (fs_sb fs) 67584 = map dk' [0..<67584]"
  shows "\<exists>s'. bootfs_load_file m fs dest name s = (int (length p), s') \<and>
      read_bytes (mem s') (ucast dest) (length p) = p"
proof -
  have "f \<in> set (files t)"
    using lookup_file_Some [OF assms(6)] by (auto dest: in_set_takeD)
  then have i: "snd f < length (data_list t)"
    using assms(1) by (auto simp: tool_wf_def)
  have "find_file name (mem s) fs [0..<32] = map_option (file_of (data_list t'))
    (lookup_file name (take (51 * free_slots (confs t)) (files t)))"
  proof (rule find_file_blocks [OF assms(4,5)])
    show len: "0 + length (confs t) = 32"
      using assms(1) by (simp add: tool_wf_def)
    show "\<forall>k < length (confs t). read_bytes (mem s) (block_addr fs (0 + k)) 2048 =
        metadata_blocks (data_list t') (confs t) (files t) ! k"
      using block_from_buffer [OF assms(17)] write_fs_block [OF assms(1,2)] len by simp
  qed
  then have "bootfs_load_file m fs dest name s = bootfs_load_image m fs dest
      (ucast (d_offset (data_list t' ! snd f))) (d_size (data_list t' ! snd f)) s"
    by (simp add: bootfs_load_file_def assms(6) file_of_def)
  with load_data_entry [OF assms(1-3) i assms(7-16)] show ?thesis
    by (simp only:) blast
qed

text \<open>
  C2: the same for the images of a configuration: the block of the chosen configuration, as the
  loader reads it from its buffer, lists each image with an offset and a length from which
  \<open>bootfs_load_image\<close> brings the payload of the configured file to memory.
\<close>

theorem bootfs_load_image_written:
  assumes "tool_wf t" "write_fs os t dk = (t', dk')"
    and "data_end (os_content os) (data_list t) 67584 < 2 ^ 32"
    and "no < 32" "confs t ! no = Some c" "j < length (c_images c)"
    and "p = payload (os_content os (d_fd (data_list t ! snd (c_images c ! j))))"
    and "p \<noteq> []" "length p \<le> 536870912" "dest \<noteq> 0"
    and "good_card m cd ok" "ok (card s)"
    and "unat (mmc_offset fs) mod 512 = 0" "unat (mmc_offset fs) < 2 ^ 41"
    and "\<forall>a < data_end (os_content os) (data_list t) 67584. cd (unat (mmc_offset fs) + a) = dk' a"
    and "unat (mmc_offset fs) + data_end (os_content os) (data_list t) 67584 \<le> 512 * unat (lba m)"
    and "read_bytes (mem s) (fs_sb fs) 67584 = map dk' [0..<67584]"
  shows "\<exists>s'. let im = bc_images (dec_conf (read_bytes (mem s) (block_addr fs no) 2048)) ! j in
      im_type im = of_char (fst (c_images c ! j)) \<and>
      bootfs_load_image m fs dest (ucast (im_data_off im)) (im_data_len im) s = (int (length p), s') \<and>
      read_bytes (mem s') (ucast dest) (length p) = p"
proof -
  have len: "length (confs t) = 32"
    using assms(1) by (simp add: tool_wf_def)
  then have c: "Some c \<in> set (confs t)"
    using assms(4,5) by (metis nth_mem)
  have "images_ok (length (data_list t)) (c_images c)"
    using assms(1,4,5) by (auto simp: tool_wf_def conf_ok_def)
  then have i: "snd (c_images c ! j) < length (data_list t)"
    using assms(6) by (auto simp: images_ok_def)
  have "read_bytes (mem s) (block_addr fs no) 2048 = enc_conf (conf_of (data_list t') c)"
    using block_from_buffer [OF assms(17,4)] write_fs_block [OF assms(1,2,4)] len assms(4,5)
    by (simp add: metadata_block_conf)
  then have "dec_conf (read_bytes (mem s) (block_addr fs no) 2048) = conf_of (data_list t') c"
    using conf_codec.dec_enc [OF wf_conf_of [OF tool_wf_images [OF assms(1) c]],
        of "data_list t'" "[]"] by simp
  then have im: "bc_images (dec_conf (read_bytes (mem s) (block_addr fs no) 2048)) ! j =
      image_of (data_list t') (c_images c ! j)"
    using assms(6) by (simp add: conf_of_def nth_append)
  show ?thesis
    using load_data_entry [OF assms(1-3) i assms(7-16)]
    by (simp add: im Let_def image_of_def) blast
qed

section \<open>A whole run\<close>

text \<open>The demonstration directory written to a card at sector 2048 and its metadata in memory.\<close>

definition demo_image :: "nat \<Rightarrow> u8" where
  "demo_image = snd (write_fs demo_os demo_tool (\<lambda>_. 0))"

definition demo_fs :: bootfs where
  "demo_fs = \<lparr>mmc_offset = 1048576, fs_sb = 0x4a000000\<rparr>"

definition demo_loaded :: "unit store" where
  "demo_loaded = \<lparr>mem = mem_write (\<lambda>_. 0) 0x4a000000 (map demo_image [0..<67584]),
     heap_end = 0x4a011000, card = ()\<rparr>"

definition demo_card_bytes :: "nat \<Rightarrow> u8" where
  "demo_card_bytes a = demo_image (a - 1048576)"

lemma demo_setup:
  "write_fs demo_os demo_tool (\<lambda>_. 0) = (fst (write_fs demo_os demo_tool (\<lambda>_. 0)), demo_image)"
  "\<forall>f \<in> set (files demo_tool). name_ok (fst f)"
  "unat (mmc_offset demo_fs) mod 512 = 0" "unat (mmc_offset demo_fs) < 2 ^ 41"
  "\<forall>a < n. demo_card_bytes (unat (mmc_offset demo_fs) + a) = demo_image a"
  "unat (mmc_offset demo_fs) + data_end (os_content demo_os) (data_list demo_tool) 67584
    \<le> 512 * unat (lba (image_card demo_card_bytes))"
  "read_bytes (mem demo_loaded) (fs_sb demo_fs) 67584 = map demo_image [0..<67584]"
  by (simp_all add: demo_image_def demo_tool_def name_ok_def demo_fs_def demo_card_bytes_def
      demo_os_def payload_def image_card_def demo_loaded_def read_bytes_write)

lemma demo_lookup:
  "lookup_file (bytes ''f'') (take (51 * free_slots (confs demo_tool)) (files demo_tool)) =
    Some (''f'', 2)"
proof -
  have "free_slots (confs demo_tool) = 31"
    by (simp add: free_slots_def demo_tool_def numeral_eq_Suc)
  then show ?thesis
    by (simp add: lookup_file_def demo_tool_def)
qed

theorem find_file_written_witness:
  "find_file (bytes ''f'') (mem demo_loaded) demo_fs [0..<32] =
    Some (file_of (data_list (fst (write_fs demo_os demo_tool (\<lambda>_. 0)))) (''f'', 2))"
proof -
  show ?thesis
    using find_file_written [OF demo_tool_wf demo_setup(1,2) _ demo_setup(7), of "bytes ''f''"]
    by (simp add: bytes_no_nul demo_lookup)
qed

theorem bootfs_load_file_written_witness:
  "fst (bootfs_load_file (image_card demo_card_bytes) demo_fs 0x44000000 (bytes ''f'') demo_loaded) = 5"
proof -
  note load = bootfs_load_file_written [OF demo_tool_wf demo_setup(1) demo_end demo_setup(2) _ demo_lookup
      refl _ _ _ good_image_card _ demo_setup(3-7)]
  have "payload (os_content demo_os (d_fd (data_list demo_tool ! snd (''f'', 2)))) = [1, 2, 3, 4, 5]"
    by (simp add: demo_os_def demo_tool_def payload_def)
  with load [of "0x44000000"] show ?thesis
    by (auto simp: bytes_no_nul)
qed

theorem bootfs_load_image_written_witness:
  "\<exists>s'. let im = bc_images (dec_conf (read_bytes (mem demo_loaded) (block_addr demo_fs 3) 2048)) ! 1 in
    bootfs_load_image (image_card demo_card_bytes) demo_fs 0x44000 (ucast (im_data_off im))
      (im_data_len im) demo_loaded = (3, s') \<and> read_bytes (mem s') 0x44000 3 = [7, 8, 9]"
proof -
  obtain c where c: "confs demo_tool ! 3 = Some c" and ims: "1 < length (c_images c)"
    "snd (c_images c ! 1) = 1"
    by (simp add: demo_tool_def)
  note load = bootfs_load_image_written [OF demo_tool_wf demo_setup(1) demo_end _ c ims(1)
      refl _ _ _ good_image_card _ demo_setup(3-7)]
  have "payload (os_content demo_os (d_fd (data_list demo_tool ! 1))) = [7, 8, 9]"
    by (simp add: demo_os_def demo_tool_def payload_def)
  moreover have "length [7, 8, 9 :: u8] = 3" by simp
  ultimately show ?thesis
    using load [of "0x44000"] ims(2)
    by (simp only: Let_def) auto
qed

end
