(* ===== verification/Machine.thy ===== *)
theory Machine
  imports Prelude
begin

text \<open>
  Memory-mapped registers. What the program does to the hardware is a history of events, the
  newest first; the hardware is a parameter, a function from the history to the value that a
  read of a register returns. \<open>readl\<close>, \<open>writel\<close> and the read-modify-write macros of
  \<open>asm/io.h\<close> extend the history. A straight line of register accesses is a list of \<open>op\<close>
  run by \<open>exec\<close>. A wait without a bound is a \<open>partial_function (option)\<close>: it gives \<open>None\<close>
  when the awaited bit never appears.
\<close>

section \<open>Histories and devices\<close>

type_synonym addr = u32

datatype event = Rd addr u32 | Wr addr u32 | Delay nat

type_synonym history = "event list"
type_synonym device = "history \<Rightarrow> addr \<Rightarrow> u32"

definition readl :: "device \<Rightarrow> addr \<Rightarrow> history \<Rightarrow> u32 \<times> history" where
  "readl d a t = (let v = d t a in (v, Rd a v # t))"

definition writel :: "u32 \<Rightarrow> addr \<Rightarrow> history \<Rightarrow> history" where
  "writel v a t = Wr a v # t"

definition udelay :: "nat \<Rightarrow> history \<Rightarrow> history" where
  "udelay us t = Delay us # t"

definition clrsetbits :: "device \<Rightarrow> addr \<Rightarrow> u32 \<Rightarrow> u32 \<Rightarrow> history \<Rightarrow> history" where
  "clrsetbits d a clear bset t = (let (v, t) = readl d a t in writel ((v AND NOT clear) OR bset) a t)"

definition setbits :: "device \<Rightarrow> addr \<Rightarrow> u32 \<Rightarrow> history \<Rightarrow> history" where
  "setbits d a bset t = (let (v, t) = readl d a t in writel (v OR bset) a t)"

definition clrbits :: "device \<Rightarrow> addr \<Rightarrow> u32 \<Rightarrow> history \<Rightarrow> history" where
  "clrbits d a clear t = (let (v, t) = readl d a t in writel (v AND NOT clear) a t)"

datatype op =
    Writel u32 addr | Setbits addr u32 | Clrbits addr u32 | Clrsetbits addr u32 u32 | Udelay nat

fun exec1 :: "device \<Rightarrow> op \<Rightarrow> history \<Rightarrow> history" where
  "exec1 d (Writel v a) t = writel v a t"
| "exec1 d (Setbits a s) t = setbits d a s t"
| "exec1 d (Clrbits a c) t = clrbits d a c t"
| "exec1 d (Clrsetbits a c s) t = clrsetbits d a c s t"
| "exec1 d (Udelay n) t = udelay n t"

definition exec :: "device \<Rightarrow> op list \<Rightarrow> history \<Rightarrow> history" where
  "exec d ops t = fold (exec1 d) ops t"

lemma exec_Nil [simp]: "exec d [] t = t"
  by (simp add: exec_def)

lemma exec_Cons [simp]: "exec d (p # ops) t = exec d ops (exec1 d p t)"
  by (simp add: exec_def)

lemma exec_append: "exec d (ops @ ops') t = exec d ops' (exec d ops t)"
  by (simp add: exec_def)

lemmas io_defs = readl_def writel_def udelay_def clrsetbits_def setbits_def clrbits_def Let_def

section \<open>Register files\<close>

text \<open>The last value written to a register, and the device that reads back what was written.\<close>

fun last_wr :: "(addr \<Rightarrow> u32) \<Rightarrow> history \<Rightarrow> addr \<Rightarrow> u32" where
  "last_wr r0 [] a = r0 a"
| "last_wr r0 (Wr b v # t) a = (if a = b then v else last_wr r0 t a)"
| "last_wr r0 (_ # t) a = last_wr r0 t a"

definition regfile :: "(addr \<Rightarrow> u32) \<Rightarrow> device" where
  "regfile r0 t a = last_wr r0 t a"

fun writes :: "history \<Rightarrow> (addr \<times> u32) list" where
  "writes [] = []"
| "writes (Wr a v # t) = (a, v) # writes t"
| "writes (_ # t) = writes t"

lemma last_wr_unwritten: "a \<notin> fst ` set (writes t) \<Longrightarrow> last_wr r0 t a = r0 a"
  by (induction t rule: writes.induct) auto

section \<open>Waiting\<close>

text \<open>\<open>while (!(readl(a) & m));\<close>\<close>

partial_function (option) poll_set :: "device \<Rightarrow> addr \<Rightarrow> u32 \<Rightarrow> history \<Rightarrow> history option" where
  "poll_set d a m t =
     (let (v, t) = readl d a t in if v AND m \<noteq> 0 then Some t else poll_set d a m t)"

text \<open>
  \<open>do reg = readl(a); while ((reg & m) && --tries);\<close> for \<open>tries = Suc n\<close>: the last value read.
\<close>

fun poll_clear :: "device \<Rightarrow> addr \<Rightarrow> u32 \<Rightarrow> nat \<Rightarrow> history \<Rightarrow> u32 \<times> history" where
  "poll_clear d a m n t =
     (let (reg, t) = readl d a t
      in if reg AND m = 0 then (reg, t)
         else (case n of 0 \<Rightarrow> (reg, t) | Suc n \<Rightarrow> poll_clear d a m n t))"

declare poll_clear.simps [simp del]

text \<open>The history after \<open>n\<close> more reads of a register.\<close>

fun reads :: "device \<Rightarrow> addr \<Rightarrow> nat \<Rightarrow> history \<Rightarrow> history" where
  "reads d a 0 t = t"
| "reads d a (Suc n) t = reads d a n (snd (readl d a t))"

lemma reads_snoc: "reads d a (Suc n) t = Rd a (d (reads d a n t) a) # reads d a n t"
  by (induction n arbitrary: t) (simp_all add: readl_def Let_def)

lemma length_reads [simp]: "length (reads d a n t) = n + length t"
  by (induction n arbitrary: t) (simp_all add: readl_def Let_def)

lemma last_wr_reads [simp]: "last_wr r0 (reads d a n t) = last_wr r0 t"
  by (induction d a n t rule: reads.induct) (auto simp: readl_def Let_def fun_eq_iff)

lemma writes_reads [simp]: "writes (reads d a n t) = writes t"
  by (induction d a n t rule: reads.induct) (auto simp: readl_def Let_def)

text \<open>The wait ends exactly when some read sees the bit.\<close>

lemma poll_set_reads:
  "d (reads d a n t) a AND m \<noteq> 0 \<Longrightarrow> \<exists>k \<le> n. poll_set d a m t = Some (reads d a (Suc k) t) \<and>
    d (reads d a k t) a AND m \<noteq> 0 \<and> (\<forall>j < k. d (reads d a j t) a AND m = 0)"
proof (induction n arbitrary: t)
  case 0
  then show ?case
    by (subst poll_set.simps) (simp add: readl_def Let_def)
next
  case (Suc n)
  show ?case
  proof (cases "d t a AND m = 0")
    case True
    let ?t = "snd (readl d a t)"
    obtain k where k: "k \<le> n" "poll_set d a m ?t = Some (reads d a (Suc k) ?t)"
      "d (reads d a k ?t) a AND m \<noteq> 0" "\<forall>j < k. d (reads d a j ?t) a AND m = 0"
      using Suc.IH [of ?t] Suc.prems by auto
    then have "poll_set d a m t = Some (reads d a (Suc (Suc k)) t)"
      using True by (subst poll_set.simps) (simp add: readl_def Let_def)
    with k True show ?thesis
      by (intro exI [of _ "Suc k"]) (auto simp: less_Suc_eq_0_disj)
  next
    case False
    then show ?thesis
      by (intro exI [of _ 0], subst poll_set.simps) (simp add: readl_def Let_def)
  qed
qed

lemma poll_clear_result:
  "\<exists>k \<le> n. poll_clear d a m n t = (d (reads d a k t) a, reads d a (Suc k) t) \<and>
    (d (reads d a k t) a AND m = 0 \<or> k = n) \<and> (\<forall>j < k. d (reads d a j t) a AND m \<noteq> 0)"
proof (induction n arbitrary: t)
  case 0
  then show ?case
    by (subst poll_clear.simps) (simp add: readl_def Let_def)
next
  case (Suc n)
  show ?case
  proof (cases "d t a AND m = 0")
    case True
    then show ?thesis
      by (intro exI [of _ 0], subst poll_clear.simps) (simp add: readl_def Let_def)
  next
    case False
    let ?t = "snd (readl d a t)"
    obtain k where k: "k \<le> n" "poll_clear d a m n ?t = (d (reads d a k ?t) a, reads d a (Suc k) ?t)"
      "d (reads d a k ?t) a AND m = 0 \<or> k = n" "\<forall>j < k. d (reads d a j ?t) a AND m \<noteq> 0"
      using Suc.IH [of ?t] by auto
    then have "poll_clear d a m (Suc n) t = (d (reads d a (Suc k) t) a, reads d a (Suc (Suc k)) t)"
      using False by (subst poll_clear.simps) (simp add: readl_def Let_def)
    with k False show ?thesis
      by (intro exI [of _ "Suc k"]) (auto simp: less_Suc_eq_0_disj)
  qed
qed

end
