(* ===== verification/Gpio.thy ===== *)
theory Gpio
  imports Machine
begin

text \<open>
  The pin controller: \<open>src/src/uboot/arch/arm/mach-sunxi/pinmux.c\<close>,
  \<open>src/src/uboot/drivers/gpio/sunxi_gpio.c\<close>, and the users of it in \<open>src/src/main.c\<close> and
  \<open>src/src/debug.c\<close> (the LEDs, the detection of the board revision, the UART).
\<close>

section \<open>Pin numbers and register addresses\<close>

definition gpio_bank :: "u32 \<Rightarrow> u32" where
  "gpio_bank pin = drop_bit 5 pin"

definition gpio_num :: "u32 \<Rightarrow> u32" where
  "gpio_num pin = pin AND 0x1f"

definition gpio_cfg_index :: "u32 \<Rightarrow> u32" where
  "gpio_cfg_index pin = drop_bit 3 (pin AND 0x1f)"

definition gpio_cfg_offset :: "u32 \<Rightarrow> u32" where
  "gpio_cfg_offset pin = push_bit 2 ((pin AND 0x1f) AND 7)"

definition gpio_drv_index :: "u32 \<Rightarrow> u32" where
  "gpio_drv_index pin = drop_bit 4 (pin AND 0x1f)"

definition gpio_drv_offset :: "u32 \<Rightarrow> u32" where
  "gpio_drv_offset pin = push_bit 1 ((pin AND 0x1f) AND 0xf)"

text \<open>\<open>struct sunxi_gpio\<close>: \<open>cfg[4]\<close> at 0, \<open>dat\<close> at 16, \<open>drv[2]\<close> at 20, \<open>pull[2]\<close> at 28; 36 bytes.\<close>

definition bank_to_gpio :: "u32 \<Rightarrow> addr" where
  "bank_to_gpio bank =
     (if bank < 11 then 0x01c20800 + 0x24 * bank else 0x01f02c00 + 0x24 * (bank - 11))"

definition SUNXI_GPB :: "u32 \<Rightarrow> u32" where "SUNXI_GPB nr = 32 + nr"
definition SUNXI_GPC :: "u32 \<Rightarrow> u32" where "SUNXI_GPC nr = 64 + nr"
definition SUNXI_GPD :: "u32 \<Rightarrow> u32" where "SUNXI_GPD nr = 96 + nr"
definition SUNXI_GPF :: "u32 \<Rightarrow> u32" where "SUNXI_GPF nr = 160 + nr"
definition SUNXI_GPH :: "u32 \<Rightarrow> u32" where "SUNXI_GPH nr = 224 + nr"
definition SUNXI_GPL :: "u32 \<Rightarrow> u32" where "SUNXI_GPL nr = 352 + nr"

section \<open>The operations\<close>

definition sunxi_gpio_set_cfgbank :: "device \<Rightarrow> addr \<Rightarrow> u32 \<Rightarrow> u32 \<Rightarrow> history \<Rightarrow> history" where
  "sunxi_gpio_set_cfgbank d pio bank_offset val t =
     (let index = gpio_cfg_index bank_offset; off = unat (gpio_cfg_offset bank_offset)
      in clrsetbits d (pio + 4 * index) (push_bit off 0xf) (push_bit off val) t)"

definition sunxi_gpio_set_cfgpin :: "device \<Rightarrow> u32 \<Rightarrow> u32 \<Rightarrow> history \<Rightarrow> history" where
  "sunxi_gpio_set_cfgpin d pin val t =
     sunxi_gpio_set_cfgbank d (bank_to_gpio (gpio_bank pin)) pin val t"

definition sunxi_gpio_get_cfgbank :: "device \<Rightarrow> addr \<Rightarrow> u32 \<Rightarrow> history \<Rightarrow> u32 \<times> history" where
  "sunxi_gpio_get_cfgbank d pio bank_offset t =
     (let index = gpio_cfg_index bank_offset; off = unat (gpio_cfg_offset bank_offset);
          (cfg, t) = readl d (pio + 4 * index) t
      in (drop_bit off cfg AND 0xf, t))"

definition sunxi_gpio_get_cfgpin :: "device \<Rightarrow> u32 \<Rightarrow> history \<Rightarrow> u32 \<times> history" where
  "sunxi_gpio_get_cfgpin d pin t = sunxi_gpio_get_cfgbank d (bank_to_gpio (gpio_bank pin)) pin t"

definition sunxi_gpio_set_drv :: "device \<Rightarrow> u32 \<Rightarrow> u32 \<Rightarrow> history \<Rightarrow> history" where
  "sunxi_gpio_set_drv d pin val t =
     (let index = gpio_drv_index pin; off = unat (gpio_drv_offset pin)
      in clrsetbits d (bank_to_gpio (gpio_bank pin) + 20 + 4 * index)
           (push_bit off 3) (push_bit off val) t)"

definition sunxi_gpio_set_pull :: "device \<Rightarrow> u32 \<Rightarrow> u32 \<Rightarrow> history \<Rightarrow> history" where
  "sunxi_gpio_set_pull d pin val t =
     (let index = gpio_drv_index pin; off = unat (gpio_drv_offset pin)
      in clrsetbits d (bank_to_gpio (gpio_bank pin) + 28 + 4 * index)
           (push_bit off 3) (push_bit off val) t)"

definition sunxi_gpio_output :: "device \<Rightarrow> u32 \<Rightarrow> u32 \<Rightarrow> history \<Rightarrow> history" where
  "sunxi_gpio_output d pin val t =
     (let num = unat (gpio_num pin); a = bank_to_gpio (gpio_bank pin) + 16;
          (dat, t) = readl d a t;
          dat = (if val \<noteq> 0 then dat OR push_bit num 1 else dat AND NOT (push_bit num 1))
      in writel dat a t)"

definition sunxi_gpio_input :: "device \<Rightarrow> u32 \<Rightarrow> history \<Rightarrow> u32 \<times> history" where
  "sunxi_gpio_input d pin t =
     (let num = unat (gpio_num pin); a = bank_to_gpio (gpio_bank pin) + 16;
          (dat, t) = readl d a t
      in (drop_bit num dat AND 1, t))"

definition gpio_direction_input :: "device \<Rightarrow> u32 \<Rightarrow> history \<Rightarrow> history" where
  "gpio_direction_input d gpio t = sunxi_gpio_set_cfgpin d gpio 0 t"

definition gpio_direction_output :: "device \<Rightarrow> u32 \<Rightarrow> u32 \<Rightarrow> history \<Rightarrow> history" where
  "gpio_direction_output d gpio val t =
     sunxi_gpio_output d gpio val (sunxi_gpio_set_cfgpin d gpio 1 t)"

definition gpio_get_value :: "device \<Rightarrow> u32 \<Rightarrow> history \<Rightarrow> u32 \<times> history" where
  "gpio_get_value d gpio t = sunxi_gpio_input d gpio t"

definition gpio_set_value :: "device \<Rightarrow> u32 \<Rightarrow> u32 \<Rightarrow> history \<Rightarrow> history" where
  "gpio_set_value d gpio val t = sunxi_gpio_output d gpio val t"

section \<open>Its users\<close>

definition green_led_set :: "device \<Rightarrow> bool \<Rightarrow> history \<Rightarrow> history" where
  "green_led_set d on t = gpio_direction_output d (SUNXI_GPD 18) (of_bool on) t"

definition red_led_set :: "device \<Rightarrow> bool \<Rightarrow> history \<Rightarrow> history" where
  "red_led_set d on t = gpio_direction_output d (SUNXI_GPD 19) (of_bool on) t"

definition detect_pinephone_revision :: "device \<Rightarrow> history \<Rightarrow> nat \<times> history" where
  "detect_pinephone_revision d t =
     (let t = sunxi_gpio_set_pull d (SUNXI_GPL 6) 1 t;
          t = sunxi_gpio_set_cfgpin d (SUNXI_GPL 6) 0 t;
          t = udelay 100 t;
          (v, t) = gpio_get_value d (SUNXI_GPL 6) t;
          ret = (if v = 0 then 2 else 1);
          t = sunxi_gpio_set_cfgpin d (SUNXI_GPL 6) 7 t;
          t = sunxi_gpio_set_pull d (SUNXI_GPL 6) 0 t
      in (ret, t))"

definition console_init :: "device \<Rightarrow> history \<Rightarrow> history" where
  "console_init d t =
     (let t = setbits d 0x01c2006c (push_bit 16 1) t;
          t = setbits d 0x01c202d8 (push_bit 16 1) t;
          t = sunxi_gpio_set_cfgpin d (SUNXI_GPB 8) 4 t;
          t = sunxi_gpio_set_cfgpin d (SUNXI_GPB 9) 4 t;
          t = sunxi_gpio_set_pull d (SUNXI_GPB 9) 1 t
      in exec d [Writel 0x80 0x01c2800c, Writel 0 0x01c28004, Writel 0xd 0x01c28000,
           Writel (push_bit 3 0 OR push_bit 2 0 OR 3) 0x01c2800c] t)"

text \<open>\<open>mmc_probe\<close> of \<open>src/src/storage.c\<close>: the pins of the card slot, and of the eMMC.\<close>

definition mmc_pin :: "device \<Rightarrow> u32 \<Rightarrow> u32 \<Rightarrow> history \<Rightarrow> history" where
  "mmc_pin d fn pin t =
     sunxi_gpio_set_drv d pin 2 (sunxi_gpio_set_pull d pin 1 (sunxi_gpio_set_cfgpin d pin fn t))"

definition mmc_pins :: "device \<Rightarrow> nat \<Rightarrow> history \<Rightarrow> history" where
  "mmc_pins d mmc_no t =
     (if mmc_no = 0 then fold (\<lambda>n. mmc_pin d 2 (SUNXI_GPF (of_nat n))) [0..<6] t
      else fold (\<lambda>n. mmc_pin d 3 (SUNXI_GPC (of_nat n))) (filter (\<lambda>n. n \<noteq> 7) [5..<17]) t)"

section \<open>Pins are configured independently\<close>

text \<open>The pins of the PinePhone's SoC: banks A to I, and L and M.\<close>

definition valid_pin :: "u32 \<Rightarrow> bool" where
  "valid_pin p \<longleftrightarrow> p < 288 \<or> 352 \<le> p \<and> p < 416"

lemma and_31: "unat (p AND 0x1f :: u32) = unat p mod 32"
proof -
  have "(0x1f :: u32) = mask 5" by (simp add: mask_eq_exp_minus_1)
  then have "p AND 0x1f = take_bit 5 p" by (simp add: take_bit_eq_mask)
  then show ?thesis by (simp add: take_bit_eq_mod unat_mod)
qed

lemma and_7: "unat (p AND 7 :: u32) = unat p mod 8"
proof -
  have "(7 :: u32) = mask 3" by (simp add: mask_eq_exp_minus_1)
  then have "p AND 7 = take_bit 3 p" by (simp add: take_bit_eq_mask)
  then show ?thesis by (simp add: take_bit_eq_mod unat_mod)
qed

lemma unat_bank: "unat (gpio_bank p) = unat p div 32"
  by (simp add: gpio_bank_def drop_bit_eq_div unat_div)

lemma unat_cfg_index: "unat (gpio_cfg_index p) = unat p mod 32 div 8"
  by (simp add: gpio_cfg_index_def drop_bit_eq_div unat_div and_31)

lemma unat_cfg_offset: "unat (gpio_cfg_offset p) = 4 * (unat p mod 8)"
proof -
  have "unat p mod 32 mod 8 = unat p mod 8"
    by (rule mod_mod_cancel) simp
  then show ?thesis
    by (simp add: gpio_cfg_offset_def push_bit_eq_mult unat_word_ariths and_7 and_31)
qed

definition cfg_addr :: "u32 \<Rightarrow> addr" where
  "cfg_addr p = bank_to_gpio (gpio_bank p) + 4 * gpio_cfg_index p"

lemma unat_cfg_addr:
  assumes "valid_pin p"
  shows "unat (cfg_addr p) = (if unat p < 352 then 0x01c20800 + 36 * (unat p div 32)
      else 0x01f02c00 + 36 * (unat p div 32 - 11)) + 4 * (unat p mod 32 div 8)"
proof -
  have p: "unat p < 288 \<or> 352 \<le> unat p \<and> unat p < 416"
    using assms by (simp add: valid_pin_def word_less_nat_alt word_le_nat_alt)
  have b: "gpio_bank p < 11 \<longleftrightarrow> unat p < 352"
    by (simp add: word_less_nat_alt unat_bank) arith
  show ?thesis
  proof (cases "unat p < 352")
    case True
    with p have "unat p div 32 \<le> 8" by simp
    with True b show ?thesis
      by (simp add: cfg_addr_def bank_to_gpio_def unat_word_ariths unat_bank unat_cfg_index)
  next
    case False
    with p have "unat p div 32 \<le> 12" "11 \<le> unat p div 32" by simp_all
    with False b show ?thesis
      by (simp add: cfg_addr_def bank_to_gpio_def unat_word_ariths unat_bank unat_cfg_index
          unat_sub word_le_nat_alt)
  qed
qed

lemma div_8_split: "n div 8 = 4 * (n div 32) + n mod 32 div 8" for n :: nat
proof -
  have "n div 32 = n div 8 div 4" "n mod 32 = 8 * (n div 8 mod 4) + n mod 8"
    using div_mult2_eq [of n 8 4] mod_mult2_eq [of n 8 4] by simp_all
  moreover have "(8 * (n div 8 mod 4) + n mod 8) div 8 = n div 8 mod 4"
    by simp
  ultimately show ?thesis
    using mult_div_mod_eq [of 4 "n div 8"] by (simp only:)
qed

lemma cfg_addr_eq:
  assumes "valid_pin p" "valid_pin q" "cfg_addr p = cfg_addr q"
  shows "unat p div 8 = unat q div 8"
proof -
  have p: "unat p < 288 \<or> 352 \<le> unat p \<and> unat p < 416"
    and q: "unat q < 288 \<or> 352 \<le> unat q \<and> unat q < 416"
    using assms by (simp_all add: valid_pin_def word_less_nat_alt word_le_nat_alt)
  define pb pr qb qr where "pb = unat p div 32" "pr = unat p mod 32 div 8"
    "qb = unat q div 32" "qr = unat q mod 32 div 8"
  have small: "pr < 4" "qr < 4" "pb \<le> 12" "qb \<le> 12"
    using p q by (auto simp: pb_pr_qb_qr_def less_mult_imp_div_less)
  have div8: "unat p div 8 = 4 * pb + pr" "unat q div 8 = 4 * qb + qr"
    unfolding pb_pr_qb_qr_def by (rule div_8_split)+
  have "(if unat p < 352 then 0x01c20800 + 36 * pb else 0x01f02c00 + 36 * (pb - 11)) + 4 * pr =
      (if unat q < 352 then 0x01c20800 + 36 * qb else 0x01f02c00 + 36 * (qb - 11)) + 4 * qr"
    unfolding pb_pr_qb_qr_def unat_cfg_addr [OF assms(1), symmetric]
      unat_cfg_addr [OF assms(2), symmetric] by (rule arg_cong [OF assms(3)])
  moreover have "11 \<le> pb" if "\<not> unat p < 352" using that by (simp add: pb_pr_qb_qr_def)
  moreover have "11 \<le> qb" if "\<not> unat q < 352" using that by (simp add: pb_pr_qb_qr_def)
  ultimately have "pb = qb \<and> pr = qr"
  proof -
    assume eq: "(if unat p < 352 then 0x01c20800 + 36 * pb else 0x01f02c00 + 36 * (pb - 11)) + 4 * pr =
      (if unat q < 352 then 0x01c20800 + 36 * qb else 0x01f02c00 + 36 * (qb - 11)) + 4 * qr"
      and ge: "\<not> unat p < 352 \<Longrightarrow> 11 \<le> pb" "\<not> unat q < 352 \<Longrightarrow> 11 \<le> qb"
    have split: "a = b \<and> r = s" if "36 * a + 4 * r = 36 * b + 4 * s" "r < 4" "s < 4" for a b r s :: nat
    proof -
      have eq: "9 * a + r = 9 * b + s" using that(1) by simp
      have "(9 * a + r) div 9 = a" "(9 * b + s) div 9 = b"
        using that(2,3) by simp_all
      with eq show ?thesis by simp
    qed
    consider "unat p < 352" "unat q < 352" | "\<not> unat p < 352" "\<not> unat q < 352"
      | "unat p < 352 \<longleftrightarrow> \<not> unat q < 352" by blast
    then show ?thesis
    proof cases
      case 1
      with eq split [of pb pr qb qr] small show ?thesis by simp
    next
      case 2
      with eq split [of "pb - 11" pr "qb - 11" qr] small ge show ?thesis by fastforce
    next
      case 3
      with eq small show ?thesis by (cases "unat p < 352") simp_all
    qed
  qed
  with div8 show ?thesis by simp
qed

text \<open>Writing one four-bit field of a register.\<close>

lemma field_update:
  assumes "k < 8" "l < 8" "v < 16"
  shows "drop_bit (4 * l) ((x AND NOT (push_bit (4 * k) 0xf)) OR push_bit (4 * k) v :: u32) AND 0xf =
    (if k = l then v else drop_bit (4 * l) x AND 0xf)"
proof -
  have m: "(0xf :: u32) = mask 4" by (simp add: mask_eq_exp_minus_1)
  have "v = take_bit 4 v"
    using assms(3) by (simp add: take_bit_eq_mod word_unat_eq_iff unat_mod word_less_nat_alt)
  then have v: "bit v i \<longleftrightarrow> i < 4 \<and> bit v i" for i
    by (metis bit_take_bit_iff)
  show ?thesis
    unfolding m
  proof (rule bit_word_eqI)
    fix i assume "i < LENGTH(32)"
    have "4 * l + i < 32" if "i < 4" using that assms(2) by simp
    moreover have "k = l" if "i < 4" "4 * k \<le> 4 * l + i" "4 * l + i - 4 * k < 4"
      using that by presburger
    ultimately show "bit (drop_bit (4 * l) ((x AND NOT (push_bit (4 * k) (mask 4))) OR
        push_bit (4 * k) v) AND mask 4) i \<longleftrightarrow>
      bit (if k = l then v else drop_bit (4 * l) x AND mask 4) i"
      using v [of i] v [of "4 * l + i - 4 * k"] by (auto simp: bit_simps)
  qed
qed

text \<open>
  On pin registers that keep what is written to them, configuring a pin gives it the
  function asked for and leaves the function of every other pin of the chip alone.
\<close>

theorem set_cfgpin_only:
  assumes "valid_pin p" "valid_pin q" "v < 16"
  shows "fst (sunxi_gpio_get_cfgpin (regfile r0) q (sunxi_gpio_set_cfgpin (regfile r0) p v t)) =
    (if q = p then v else fst (sunxi_gpio_get_cfgpin (regfile r0) q t))"
proof -
  have cfg: "fst (sunxi_gpio_get_cfgpin (regfile r0) q t) =
      drop_bit (4 * (unat q mod 8)) (last_wr r0 t (cfg_addr q)) AND 0xf" for q t
    by (simp add: sunxi_gpio_get_cfgpin_def sunxi_gpio_get_cfgbank_def readl_def Let_def
        regfile_def cfg_addr_def unat_cfg_offset)
  have upd: "last_wr r0 (sunxi_gpio_set_cfgpin (regfile r0) p v t) a =
      (if a = cfg_addr p then (last_wr r0 t (cfg_addr p) AND NOT (push_bit (4 * (unat p mod 8)) 0xf)) OR
        push_bit (4 * (unat p mod 8)) v else last_wr r0 t a)" for a
    by (simp add: sunxi_gpio_set_cfgpin_def sunxi_gpio_set_cfgbank_def io_defs regfile_def
        cfg_addr_def [symmetric] unat_cfg_offset)
  show ?thesis
  proof (cases "cfg_addr q = cfg_addr p")
    case True
    then have "q = p \<longleftrightarrow> unat p mod 8 = unat q mod 8"
      using cfg_addr_eq [OF assms(2,1)] by (metis mult_div_mod_eq word_unat_eq_iff)
    with True show ?thesis
      using field_update [of "unat p mod 8" "unat q mod 8" v] assms(3) by (simp add: cfg upd)
  next
    case False
    then show ?thesis by (auto simp: cfg upd)
  qed
qed

theorem set_cfgpin_only_witness:
  "fst (sunxi_gpio_get_cfgpin (regfile (\<lambda>_. 0x77777777)) (SUNXI_GPB 9)
     (sunxi_gpio_set_cfgpin (regfile (\<lambda>_. 0x77777777)) (SUNXI_GPB 8) 4 [])) = 7"
  using set_cfgpin_only [of "SUNXI_GPB 8" "SUNXI_GPB 9" 4 "\<lambda>_. 0x77777777" "[]"]
  by (simp add: valid_pin_def SUNXI_GPB_def sunxi_gpio_get_cfgpin_def sunxi_gpio_get_cfgbank_def
      readl_def regfile_def Let_def gpio_cfg_offset_def)

end
