(* ===== verification/Pmic.thy ===== *)
theory Pmic
  imports Machine
begin

text \<open>
  The power management chip behind the RSB bus, \<open>src/src/pmic.c\<close>. A function that returns an
  \<open>int\<close> returns an integer here, negative for an error. Waits are bounded by \<open>MAX_TRIES\<close>
  reads. What the PMIC code relies on in the bus is the locale \<open>register_bus\<close>: a read returns
  the register, a write changes that register only; the bus functions satisfy it on every
  device that behaves as an RSB controller with a slave, the locale \<open>rsb_slave\<close>.
\<close>

section \<open>Registers\<close>

abbreviation RSB_CTRL :: addr where "RSB_CTRL \<equiv> 0x01f03400"
abbreviation RSB_CCR :: addr where "RSB_CCR \<equiv> 0x01f03404"
abbreviation RSB_STAT :: addr where "RSB_STAT \<equiv> 0x01f0340c"
abbreviation RSB_DADDR0 :: addr where "RSB_DADDR0 \<equiv> 0x01f03410"
abbreviation RSB_DATA0 :: addr where "RSB_DATA0 \<equiv> 0x01f0341c"
abbreviation RSB_PMCR :: addr where "RSB_PMCR \<equiv> 0x01f03428"
abbreviation RSB_CMD :: addr where "RSB_CMD \<equiv> 0x01f0342c"
abbreviation RSB_SADDR :: addr where "RSB_SADDR \<equiv> 0x01f03430"
abbreviation R_PRCM :: addr where "R_PRCM \<equiv> 0x01f01400"
abbreviation R_PIO :: addr where "R_PIO \<equiv> 0x01f02c00"

definition RSBCMD_SRTA :: u32 where "RSBCMD_SRTA = 0xE8"
definition RSBCMD_RD8 :: u32 where "RSBCMD_RD8 = 0x8B"
definition RSBCMD_WR8 :: u32 where "RSBCMD_WR8 = 0x4E"
definition AXP803_HW_ADDR :: u16 where "AXP803_HW_ADDR = 0x3a3"
definition AXP803_RT_ADDR :: u8 where "AXP803_RT_ADDR = 0x2d"
definition MAX_TRIES :: nat where "MAX_TRIES = 100000"
definition ETIMEDOUT :: int where "ETIMEDOUT = 110"
definition EINVAL :: int where "EINVAL = 22"

section \<open>The bus\<close>

definition rsb_wait_bit :: "device \<Rightarrow> addr \<Rightarrow> u32 \<Rightarrow> history \<Rightarrow> int \<times> history" where
  "rsb_wait_bit d reg msk t =
     (let (v, t) = poll_clear d reg msk (MAX_TRIES - 1) t
      in if v AND msk \<noteq> 0 then (- ETIMEDOUT, t) else (0, t))"

text \<open>\<open>return -reg\<close> negates the unsigned value and converts it to \<open>int\<close>.\<close>

definition rsb_wait_stat :: "device \<Rightarrow> history \<Rightarrow> int \<times> history" where
  "rsb_wait_stat d t =
     (let (ret, t) = rsb_wait_bit d RSB_CTRL (push_bit 7 1) t
      in if ret \<noteq> 0 then (ret, t)
         else (let (reg, t) = readl d RSB_STAT t
               in if reg = 1 then (0, t) else (sint (- reg), t)))"

definition rsb_init_controller :: "device \<Rightarrow> history \<Rightarrow> int \<times> history" where
  "rsb_init_controller d t = rsb_wait_bit d RSB_CTRL (push_bit 0 1) (writel 1 RSB_CTRL t)"

definition rsb_read :: "device \<Rightarrow> u8 \<Rightarrow> u8 \<Rightarrow> history \<Rightarrow> int \<times> history" where
  "rsb_read d rt_addr reg_addr t =
     (let t = exec d [Writel RSBCMD_RD8 RSB_CMD, Writel (push_bit 16 (ucast rt_addr)) RSB_SADDR,
                Writel (ucast reg_addr) RSB_DADDR0, Writel 0x80 RSB_CTRL] t;
          (ret, t) = rsb_wait_stat d t
      in if ret \<noteq> 0 then (ret, t)
         else (let (v, t) = readl d RSB_DATA0 t in (uint (v AND 0xff), t)))"

definition rsb_write :: "device \<Rightarrow> u8 \<Rightarrow> u8 \<Rightarrow> u8 \<Rightarrow> history \<Rightarrow> int \<times> history" where
  "rsb_write d rt_addr reg_addr val t =
     rsb_wait_stat d
       (exec d [Writel RSBCMD_WR8 RSB_CMD, Writel (push_bit 16 (ucast rt_addr)) RSB_SADDR,
          Writel (ucast reg_addr) RSB_DADDR0, Writel (ucast val) RSB_DATA0, Writel 0x80 RSB_CTRL] t)"

definition rsb_set_device_mode :: "device \<Rightarrow> u32 \<Rightarrow> history \<Rightarrow> int \<times> history" where
  "rsb_set_device_mode d device_mode t =
     rsb_wait_bit d RSB_PMCR (push_bit 31 1)
       (writel ((device_mode AND 0x00ffffff) OR push_bit 31 1) RSB_PMCR t)"

definition rsb_set_bus_speed :: "u32 \<Rightarrow> u32 \<Rightarrow> history \<Rightarrow> int \<times> history" where
  "rsb_set_bus_speed source_freq bus_freq t =
     (if bus_freq = 0 then (- EINVAL, t)
      else (let reg = source_freq div bus_freq
            in if reg < 2 then (- EINVAL, t)
               else (0, writel ((reg div 2 - 1) OR push_bit 8 1) RSB_CCR t)))"

definition rsb_assign_runtime_address :: "device \<Rightarrow> u16 \<Rightarrow> u8 \<Rightarrow> history \<Rightarrow> int \<times> history" where
  "rsb_assign_runtime_address d hw_addr rt_addr t =
     rsb_wait_stat d
       (exec d [Writel (ucast hw_addr OR push_bit 16 (ucast rt_addr)) RSB_SADDR,
          Writel RSBCMD_SRTA RSB_CMD, Writel 0x80 RSB_CTRL] t)"

definition rsb_init :: "device \<Rightarrow> history \<Rightarrow> int \<times> history" where
  "rsb_init d t =
     (let t = exec d
            [Setbits (R_PRCM + 0x28) (push_bit 0 1),
             Clrsetbits (R_PIO + 0x00) 0xff 0x22,
             Clrsetbits (R_PIO + 0x14) 0x0f 0xa,
             Clrsetbits (R_PIO + 0x1c) 0x0f 0x5,
             Clrbits (R_PRCM + 0xb0) (push_bit 3 1),
             Setbits (R_PRCM + 0xb0) (push_bit 3 1),
             Setbits (R_PRCM + 0x28) (push_bit 3 1)] t;
          (ret, t) = rsb_init_controller d t
      in if ret \<noteq> 0 then (ret, t)
         else (let (ret, t) = rsb_set_bus_speed 24000000 400000 t
      in if ret \<noteq> 0 then (ret, t)
         else (let (ret, t) = rsb_set_device_mode d 0x7c3e00 t
      in if ret \<noteq> 0 then (ret, t)
         else (let (ret, t) = rsb_set_bus_speed 24000000 3000000 t
      in if ret \<noteq> 0 then (ret, t)
         else rsb_assign_runtime_address d AXP803_HW_ADDR AXP803_RT_ADDR t))))"

section \<open>The PMIC\<close>

definition pmic_write :: "device \<Rightarrow> u8 \<Rightarrow> u8 \<Rightarrow> history \<Rightarrow> int \<times> history" where
  "pmic_write d reg val t = rsb_write d AXP803_RT_ADDR reg val t"

definition pmic_read :: "device \<Rightarrow> u8 \<Rightarrow> history \<Rightarrow> int \<times> history" where
  "pmic_read d reg_addr t = rsb_read d AXP803_RT_ADDR reg_addr t"

definition pmic_clrsetbits :: "device \<Rightarrow> u8 \<Rightarrow> u8 \<Rightarrow> u8 \<Rightarrow> history \<Rightarrow> int \<times> history" where
  "pmic_clrsetbits d reg clr_mask set_mask t =
     (let (ret, t) = rsb_read d AXP803_RT_ADDR reg t
      in if ret < 0 then (ret, t)
         else rsb_write d AXP803_RT_ADDR reg ((word_of_int ret AND NOT clr_mask) OR set_mask) t)"

text \<open>\<open>pmic_poweroff\<close> and \<open>pmic_reboot\<close> up to the endless \<open>hang()\<close>.\<close>

definition pmic_poweroff :: "device \<Rightarrow> history \<Rightarrow> history" where
  "pmic_poweroff d t = snd (pmic_clrsetbits d 0x32 0 (push_bit 7 1) t)"

definition pmic_reboot :: "device \<Rightarrow> history \<Rightarrow> history" where
  "pmic_reboot d t = snd (pmic_clrsetbits d 0x31 0 (push_bit 6 1) t)"

definition pmic_write_data :: "device \<Rightarrow> u32 \<Rightarrow> u8 \<Rightarrow> history \<Rightarrow> history" where
  "pmic_write_data d off data t =
     (if off > 11 then t else snd (pmic_write d (ucast (0x04 + off)) data t))"

definition pmic_read_data :: "device \<Rightarrow> u32 \<Rightarrow> history \<Rightarrow> int \<times> history" where
  "pmic_read_data d off t =
     (if off > 11 then (- 1, t) else pmic_read d (ucast (0x04 + off)) t)"

definition pmic_write_all :: "device \<Rightarrow> (u8 \<times> u8) list \<Rightarrow> history \<Rightarrow> history" where
  "pmic_write_all d rvs t = fold (\<lambda>(r, v) t. snd (pmic_write d r v t)) rvs t"

definition pmic_init :: "device \<Rightarrow> history \<Rightarrow> history" where
  "pmic_init d t =
     pmic_write_all d
       [(0x3b, 0x88), (0x21, 0x4b), (0x30, 0x02 OR push_bit 3 5), (0x2c, 0x95), (0x36, 0x08)] t"

text \<open>
  \<open>src/src/main.c\<close>: the battery's temperature sensor with its thresholds, and the table of
  the open circuit voltage.
\<close>

definition pmic_setup_bat_temp_sensor :: "device \<Rightarrow> history \<Rightarrow> history" where
  "pmic_setup_bat_temp_sensor d t =
     (let t = snd (pmic_clrsetbits d 0x82 0 (push_bit 0 1) t);
          t = pmic_write_all d
            [(0x38, word_of_nat (9750 * 80 div 12800)), (0x39, word_of_nat (1080 * 80 div 12800)),
             (0x3c, word_of_nat (16500 * 80 div 12800)), (0x3d, word_of_nat (896 * 80 div 12800))] t
      in snd (pmic_clrsetbits d 0x84 0x37 0x31 t))"

definition ocv_tab :: "u8 list" where
  "ocv_tab =
     [0,  1,   1,  2 , 2,  4,  4,  5,
      6,  8,  11, 15, 22, 36, 44, 48,
      51, 53, 56, 60, 64, 69, 71, 75,
      78, 82, 84, 85, 88, 92, 95, 98]"

definition pmic_setup_ocv_table :: "device \<Rightarrow> history \<Rightarrow> history" where
  "pmic_setup_ocv_table d t =
     pmic_write_all d (map (\<lambda>i. (0xc0 + of_nat i, ocv_tab ! i)) [0..<length ocv_tab]) t"

section \<open>The interface of a register bus\<close>

locale register_bus =
  fixes rd :: "u8 \<Rightarrow> 's \<Rightarrow> int \<times> 's"
    and wr :: "u8 \<Rightarrow> u8 \<Rightarrow> 's \<Rightarrow> int \<times> 's"
    and regs :: "'s \<Rightarrow> u8 \<Rightarrow> u8"
  assumes rd_val: "fst (rd r s) = uint (regs s r)"
    and rd_regs: "regs (snd (rd r s)) = regs s"
    and wr_ok: "fst (wr r v s) = 0"
    and wr_regs: "regs (snd (wr r v s)) = (regs s)(r := v)"
begin

definition update :: "u8 \<Rightarrow> u8 \<Rightarrow> u8 \<Rightarrow> 's \<Rightarrow> int \<times> 's" where
  "update r clr bset s =
     (let (ret, s) = rd r s
      in if ret < 0 then (ret, s) else wr r ((word_of_int ret AND NOT clr) OR bset) s)"

lemma update_regs:
  "fst (update r clr bset s) = 0 \<and>
    regs (snd (update r clr bset s)) = (regs s)(r := (regs s r AND NOT clr) OR bset)"
  using rd_val [of r s] rd_regs [of r s] wr_ok wr_regs
  by (cases "rd r s") (simp add: update_def)

lemma write_all_regs:
  "regs (fold (\<lambda>(r, v) s. snd (wr r v s)) rvs s) = fold (\<lambda>(r, v) f. f(r := v)) rvs (regs s)"
  by (induction rvs arbitrary: s) (auto simp: wr_regs)

end

section \<open>A slave on the bus\<close>

lemma ucast_ucast_widen: "ucast (ucast (w :: u8) :: u32) = w"
  by (rule bit_word_eqI) (auto simp: bit_simps)

lemma uint_ucast_and_ff: "uint ((ucast (w :: u8) :: u32) AND 0xff) = uint w"
proof -
  have "(ucast w :: u32) AND mask 8 = ucast w"
    by (rule bit_word_eqI) (auto simp: bit_simps dest: bit_imp_le_length)
  moreover have "(0xff :: u32) = mask 8"
    by (simp add: mask_eq_exp_minus_1)
  moreover have "uint (ucast w :: u32) = uint w"
    by (simp add: unsigned_ucast_eq take_bit_int_eq_self_iff less_trans [OF unsigned_less])
  ultimately show ?thesis by (simp only:)
qed

text \<open>
  The registers of the slave after a history: a transaction starts with the write of 0x80 to
  \<open>RSB_CTRL\<close>; a byte write changes the register named by \<open>RSB_DADDR0\<close>.
\<close>

fun slave_regs :: "(u8 \<Rightarrow> u8) \<Rightarrow> history \<Rightarrow> u8 \<Rightarrow> u8" where
  "slave_regs r0 [] = r0"
| "slave_regs r0 (Wr a v # t) =
     (if a = RSB_CTRL \<and> v = 0x80 \<and> last_wr (\<lambda>_. 0) t RSB_CMD = RSBCMD_WR8 \<and>
        last_wr (\<lambda>_. 0) t RSB_SADDR = push_bit 16 (ucast AXP803_RT_ADDR)
      then (slave_regs r0 t)(ucast (last_wr (\<lambda>_. 0) t RSB_DADDR0) := ucast (last_wr (\<lambda>_. 0) t RSB_DATA0))
      else slave_regs r0 t)"
| "slave_regs r0 (_ # t) = slave_regs r0 t"

lemma slave_regs_reads [simp]: "slave_regs r0 (reads d a n t) = slave_regs r0 t"
  by (induction d a n t rule: reads.induct) (auto simp: readl_def Let_def)

text \<open>
  A controller that ends each transaction within the patience of the driver, reports success and
  returns the byte of a read.
\<close>

locale rsb_slave =
  fixes d :: device and r0 :: "u8 \<Rightarrow> u8"
  assumes idle: "\<exists>n < MAX_TRIES. d (reads d RSB_CTRL n t) RSB_CTRL AND 0x80 = 0"
    and stat: "d t RSB_STAT = 1"
    and data: "last_wr (\<lambda>_. 0) t RSB_CMD = RSBCMD_RD8 \<Longrightarrow>
      last_wr (\<lambda>_. 0) t RSB_SADDR = push_bit 16 (ucast AXP803_RT_ADDR) \<Longrightarrow>
      d t RSB_DATA0 = ucast (slave_regs r0 t (ucast (last_wr (\<lambda>_. 0) t RSB_DADDR0)))"
begin

lemma wait_stat:
  "\<exists>k. rsb_wait_stat d t = (0, Rd RSB_STAT 1 # reads d RSB_CTRL k t)"
proof -
  obtain k where k: "k \<le> MAX_TRIES - 1"
    "poll_clear d RSB_CTRL 0x80 (MAX_TRIES - 1) t =
      (d (reads d RSB_CTRL k t) RSB_CTRL, reads d RSB_CTRL (Suc k) t)"
    "d (reads d RSB_CTRL k t) RSB_CTRL AND 0x80 = 0 \<or> k = MAX_TRIES - 1"
    "\<forall>j < k. d (reads d RSB_CTRL j t) RSB_CTRL AND 0x80 \<noteq> 0"
    using poll_clear_result [of "MAX_TRIES - 1" d RSB_CTRL "0x80" t] by blast
  obtain n where n: "n < MAX_TRIES" "d (reads d RSB_CTRL n t) RSB_CTRL AND 0x80 = 0"
    using idle by blast
  then have "k \<le> n"
    using k(4) not_le by blast
  then have "d (reads d RSB_CTRL k t) RSB_CTRL AND 0x80 = 0"
    using k(3) n by (cases "k = n") (auto simp: MAX_TRIES_def)
  with k(2) show ?thesis
    by (intro exI [of _ "Suc k"]) (simp add: rsb_wait_stat_def rsb_wait_bit_def readl_def Let_def stat)
qed

lemma write_effect:
  "fst (pmic_write d r v t) = 0 \<and>
    slave_regs r0 (snd (pmic_write d r v t)) = (slave_regs r0 t)(r := v)"
proof -
  let ?t = "exec d [Writel RSBCMD_WR8 RSB_CMD, Writel (push_bit 16 (ucast AXP803_RT_ADDR)) RSB_SADDR,
    Writel (ucast r) RSB_DADDR0, Writel (ucast v) RSB_DATA0, Writel 0x80 RSB_CTRL] t"
  obtain k where "rsb_wait_stat d ?t = (0, Rd RSB_STAT 1 # reads d RSB_CTRL k ?t)"
    using wait_stat by blast
  then show ?thesis
    unfolding pmic_write_def rsb_write_def by (simp add: writel_def ucast_ucast_widen)
qed

lemma read_effect:
  "fst (pmic_read d r t) = uint (slave_regs r0 t r) \<and>
    slave_regs r0 (snd (pmic_read d r t)) = slave_regs r0 t"
proof -
  let ?t = "exec d [Writel RSBCMD_RD8 RSB_CMD, Writel (push_bit 16 (ucast AXP803_RT_ADDR)) RSB_SADDR,
    Writel (ucast r) RSB_DADDR0, Writel 0x80 RSB_CTRL] t"
  obtain k where k: "rsb_wait_stat d ?t = (0, Rd RSB_STAT 1 # reads d RSB_CTRL k ?t)"
    using wait_stat by blast
  have regs: "slave_regs r0 ?t = slave_regs r0 t"
    by (simp add: writel_def RSBCMD_RD8_def RSBCMD_WR8_def)
  have "d (Rd RSB_STAT 1 # reads d RSB_CTRL k ?t) RSB_DATA0 = ucast (slave_regs r0 t r)"
    using data [of "Rd RSB_STAT 1 # reads d RSB_CTRL k ?t"] regs
    by (simp add: writel_def ucast_ucast_widen)
  then show ?thesis
    using k regs unfolding pmic_read_def rsb_read_def
    by (simp add: readl_def Let_def uint_ucast_and_ff)
qed

end

text \<open>The bus functions provide the interface whenever the slave behaves.\<close>

sublocale rsb_slave \<subseteq> rsb: register_bus "pmic_read d" "pmic_write d" "slave_regs r0"
  by unfold_locales (simp_all add: read_effect write_effect)

context rsb_slave
begin

lemma clrsetbits_update: "pmic_clrsetbits d r c s t = rsb.update r c s t"
  by (simp add: pmic_clrsetbits_def rsb.update_def pmic_read_def pmic_write_def
      split: prod.split if_split)

lemma clrsetbits_effect:
  "fst (pmic_clrsetbits d r c s t) = 0 \<and>
    slave_regs r0 (snd (pmic_clrsetbits d r c s t)) =
      (slave_regs r0 t)(r := (slave_regs r0 t r AND NOT c) OR s)"
  unfolding clrsetbits_update by (rule rsb.update_regs)

lemma write_all_effect:
  "slave_regs r0 (pmic_write_all d rvs t) = fold (\<lambda>(r, v) f. f(r := v)) rvs (slave_regs r0 t)"
  unfolding pmic_write_all_def by (rule rsb.write_all_regs)

end

text \<open>A slave that answers at once, with any initial registers.\<close>

definition rsb_dev :: "(u8 \<Rightarrow> u8) \<Rightarrow> device" where
  "rsb_dev r0 t a =
     (if a = RSB_STAT then 1
      else if a = RSB_DATA0 then ucast (slave_regs r0 t (ucast (last_wr (\<lambda>_. 0) t RSB_DADDR0)))
      else 0)"

interpretation rsb_dev: rsb_slave "rsb_dev r0" r0 for r0
proof unfold_locales
  fix t
  show "\<exists>n < MAX_TRIES. rsb_dev r0 (reads (rsb_dev r0) RSB_CTRL n t) RSB_CTRL AND 0x80 = 0"
    by (intro exI [of _ 0]) (simp add: rsb_dev_def MAX_TRIES_def)
qed (simp_all add: rsb_dev_def)

section \<open>Properties\<close>

text \<open>
  C18: on a bus with a working slave, \<open>pmic_clrsetbits\<close> succeeds and replaces the register by
  its old value with the bits of the first mask cleared and those of the second set; every
  other register of the PMIC keeps its value.
\<close>

theorem pmic_clrsetbits_effect:
  assumes "rsb_slave d r0"
  shows "fst (pmic_clrsetbits d r c s t) = 0 \<and>
    slave_regs r0 (snd (pmic_clrsetbits d r c s t)) =
      (slave_regs r0 t)(r := (slave_regs r0 t r AND NOT c) OR s)"
  using assms by (rule rsb_slave.clrsetbits_effect)

theorem pmic_clrsetbits_effect_witness:
  "slave_regs (\<lambda>_. 0x35) (snd (pmic_clrsetbits (rsb_dev (\<lambda>_. 0x35)) 0x84 0x37 0x31 [])) 0x84 = 0x31"
  using pmic_clrsetbits_effect [OF rsb_dev.rsb_slave_axioms, of "\<lambda>_. 0x35" "0x84" "0x37" "0x31" "[]"]
  by simp

definition pmic_setup :: "device \<Rightarrow> history \<Rightarrow> history" where
  "pmic_setup d t = pmic_setup_ocv_table d (pmic_setup_bat_temp_sensor d (pmic_init d t))"

definition pmic_setup_spec :: "(u8 \<Rightarrow> u8) \<Rightarrow> u8 \<Rightarrow> u8" where
  "pmic_setup_spec f r =
     (if 0xc0 \<le> r \<and> r \<le> 0xdf then ocv_tab ! unat (r - 0xc0)
      else if r = 0x3b then 0x88 else if r = 0x21 then 0x4b else if r = 0x30 then 0x2a
      else if r = 0x2c then 0x95 else if r = 0x36 then 0x08
      else if r = 0x38 then 60 else if r = 0x39 then 6 else if r = 0x3c then 103
      else if r = 0x3d then 5 else if r = 0x82 then f r OR 1
      else if r = 0x84 then (f r AND NOT 0x37) OR 0x31 else f r)"

lemma fold_table:
  "n \<le> 32 \<Longrightarrow> fold (\<lambda>(r, v) f. f(r := v)) (map (\<lambda>i. (0xc0 + of_nat i, tab ! i)) [0..<n]) f r =
    (if unat (r - 0xc0 :: u8) < n then tab ! unat (r - 0xc0) else f r)"
proof (induction n)
  case (Suc n)
  have "r = 0xc0 + of_nat n \<longleftrightarrow> r - 0xc0 = of_nat n"
    by (auto simp: algebra_simps)
  also have "\<dots> \<longleftrightarrow> unat (r - 0xc0) = n"
    using Suc.prems by (simp add: word_unat_eq_iff unat_of_nat)
  finally have "r = 0xc0 + of_nat n \<longleftrightarrow> unat (r - 0xc0) = n" .
  then show ?case
    using Suc by (auto simp: less_Suc_eq)
qed simp

lemma table_range: "unat (r - 0xc0 :: u8) < 32 \<longleftrightarrow> 0xc0 \<le> r \<and> r \<le> 0xdf"
proof -
  have "unat r < 256" using unsigned_less [of r] by simp
  then show ?thesis
    by (auto simp: unat_sub_if' word_le_nat_alt)
qed

text \<open>
  What the initialisation of the PMIC amounts to: the chip's registers after \<open>pmic_init\<close>,
  the battery sensor setup and the voltage table, in the order \<open>main\<close> runs them: the fixed
  values, the two read-modify-write registers from their old values, the 32 entries of the
  table at 0xc0, and nothing else.
\<close>


theorem pmic_setup_registers:
  assumes "rsb_slave d r0"
  shows "slave_regs r0 (pmic_setup d t) = pmic_setup_spec (slave_regs r0 t)"
proof
  fix r
  have len: "length ocv_tab = 32" by (simp add: ocv_tab_def)
  note eff = rsb_slave.write_all_effect [OF assms] rsb_slave.clrsetbits_effect [OF assms, THEN conjunct2]
  show "slave_regs r0 (pmic_setup d t) r = pmic_setup_spec (slave_regs r0 t) r"
    unfolding pmic_setup_def pmic_setup_ocv_table_def eff len
    by (subst fold_table)
      (simp_all add: table_range pmic_setup_bat_temp_sensor_def pmic_init_def eff pmic_setup_spec_def)
qed

theorem pmic_setup_registers_witness:
  "slave_regs (\<lambda>_. 0) (pmic_setup (rsb_dev (\<lambda>_. 0)) []) 0xc3 = 2 \<and>
   slave_regs (\<lambda>_. 0) (pmic_setup (rsb_dev (\<lambda>_. 0)) []) 0x82 = 1"
  using pmic_setup_registers [OF rsb_dev.rsb_slave_axioms, of "\<lambda>_. 0" "[]"]
  by (simp add: pmic_setup_spec_def ocv_tab_def)

text \<open>
  The driver is patient for exactly \<open>MAX_TRIES\<close> reads: the wait for a transaction ends,
  whatever the hardware does, with a timeout exactly when the busy bit was set in each of them;
  and a finished transaction counts as a success when the status register reads 1, but also
  when it reads 0.
\<close>

theorem rsb_wait_stat_cases:
  "let busy = (\<lambda>n. d (reads d RSB_CTRL n t) RSB_CTRL AND 0x80 \<noteq> 0)
   in (\<forall>n < MAX_TRIES. busy n) \<and> fst (rsb_wait_stat d t) = - 110 \<or>
      (\<exists>n < MAX_TRIES. \<not> busy n \<and> (\<forall>j < n. busy j) \<and>
        (let st = d (reads d RSB_CTRL (Suc n) t) RSB_STAT
         in fst (rsb_wait_stat d t) = (if st = 1 then 0 else sint (- st)) \<and>
            (fst (rsb_wait_stat d t) = 0 \<longleftrightarrow> st = 1 \<or> st = 0)))"
proof -
  obtain k where k: "k \<le> MAX_TRIES - 1"
    "poll_clear d RSB_CTRL 0x80 (MAX_TRIES - 1) t =
      (d (reads d RSB_CTRL k t) RSB_CTRL, reads d RSB_CTRL (Suc k) t)"
    "d (reads d RSB_CTRL k t) RSB_CTRL AND 0x80 = 0 \<or> k = MAX_TRIES - 1"
    "\<forall>j < k. d (reads d RSB_CTRL j t) RSB_CTRL AND 0x80 \<noteq> 0"
    using poll_clear_result [of "MAX_TRIES - 1" d RSB_CTRL "0x80" t] by blast
  show ?thesis
  proof (cases "d (reads d RSB_CTRL k t) RSB_CTRL AND 0x80 = 0")
    case True
    have "sint (- st) = 0 \<longleftrightarrow> st = 0" for st :: u32
      by (metis add.inverse_neutral minus_equation_iff sint_0 signed_word_eqI)
    then show ?thesis
      unfolding Let_def using True k
      by (intro disjI2 exI [of _ k])
        (simp add: rsb_wait_stat_def rsb_wait_bit_def readl_def Let_def MAX_TRIES_def)
  next
    case False
    then have "\<forall>n < MAX_TRIES. d (reads d RSB_CTRL n t) RSB_CTRL AND 0x80 \<noteq> 0"
    proof (intro allI impI)
      fix n assume "n < MAX_TRIES"
      then have "n = MAX_TRIES - 1 \<or> n < MAX_TRIES - 1"
        unfolding MAX_TRIES_def by arith
      with False k show "d (reads d RSB_CTRL n t) RSB_CTRL AND 0x80 \<noteq> 0"
        by blast
    qed
    with False k show ?thesis
      by (simp add: rsb_wait_stat_def rsb_wait_bit_def ETIMEDOUT_def Let_def)
  qed
qed

text \<open>A bus that is always idle and whose status reads 0: reported as a success.\<close>

theorem rsb_wait_stat_cases_witness: "fst (rsb_wait_stat (\<lambda>_ _. 0) []) = 0"
  using rsb_wait_stat_cases [of "\<lambda>_ _. 0" "[]"] by (auto simp: Let_def MAX_TRIES_def dest: spec [of _ 0])

end
