(* ===== verification/Board.thy ===== *)
theory Board
  imports Gpio Pmic
begin

text \<open>
  The board services of \<open>src/src/main.c\<close>: the persistent options in the RTC, the clock fix, the
  chip id and the MAC address made from it, the watchdog and the status of the PMIC. The
  fields of \<open>struct globals\<close> that they set are the record \<open>board\<close>.
\<close>

section \<open>RTC data registers\<close>

abbreviation RTC_YMD :: addr where "RTC_YMD \<equiv> 0x01f00010"
abbreviation RTC_HMS :: addr where "RTC_HMS \<equiv> 0x01f00014"
abbreviation RTC_PERSIST :: addr where "RTC_PERSIST \<equiv> 0x01f00100"
abbreviation RTC_ONESHOT :: addr where "RTC_ONESHOT \<equiv> 0x01f00104"

definition BOOTSEL_POWEROFF :: int where "BOOTSEL_POWEROFF = 64"
definition BOOTSEL_EMMC :: int where "BOOTSEL_EMMC = 65"
definition BOOTSEL_FEL :: int where "BOOTSEL_FEL = 66"

text \<open>\<open>struct bootsel\<close> is its only field \<open>def\<close>, -1 when undefined.\<close>

definition rtc_bootsel_get :: "device \<Rightarrow> history \<Rightarrow> int \<times> history" where
  "rtc_bootsel_get d t = (let (vp, t) = readl d RTC_PERSIST t in (uint (vp AND 0xff) - 1, t))"

definition rtc_bootsel_set :: "int \<Rightarrow> history \<Rightarrow> history" where
  "rtc_bootsel_set def t =
     (let v = 0; v = v OR (word_of_int (def + 1) AND 0xff) in writel v RTC_PERSIST t)"

definition rtc_set_flag :: "device \<Rightarrow> u32 \<Rightarrow> u32 \<Rightarrow> history \<Rightarrow> history" where
  "rtc_set_flag d flag val t =
     (let (v, t) = readl d RTC_PERSIST t;
          v = v AND NOT (push_bit 16 flag);
          v = v OR push_bit 16 val
      in writel v RTC_PERSIST t)"

definition rtc_get_flag :: "device \<Rightarrow> u32 \<Rightarrow> history \<Rightarrow> bool \<times> history" where
  "rtc_get_flag d flag t =
     (let (v, t) = readl d RTC_PERSIST t in (v AND push_bit 16 flag \<noteq> 0, t))"

text \<open>The date is moved to the build date when the clock is behind the build year.\<close>

definition rtc_fixup :: "device \<Rightarrow> nat \<Rightarrow> nat \<Rightarrow> nat \<Rightarrow> history \<Rightarrow> history" where
  "rtc_fixup d build_year build_month build_day t =
     (let (ymd, t) = readl d RTC_YMD t;
          (hms, t) = readl d RTC_HMS t;
          rtc_year = 1970 + unat (drop_bit 16 ymd AND 0x3f)
      in if rtc_year < build_year then
           (let ymd = push_bit 16 (of_nat (build_year - 1970) AND 0x3f);
                ymd = ymd OR (push_bit 8 (of_nat build_month) OR of_nat build_day)
            in exec d [Writel ymd RTC_YMD, Writel 0 RTC_HMS] t)
         else t)"

section \<open>Watchdog\<close>

abbreviation TIMER :: addr where "TIMER \<equiv> 0x01c20c00"

definition wdog_ping :: "op list" where
  "wdog_ping = [Writel 1 (TIMER + 0xb4), Writel 0x81 (TIMER + 0xb8),
     Writel (push_bit 1 0xa57 OR 1) (TIMER + 0xb0)]"

definition wdog_disable :: "op list" where
  "wdog_disable = [Writel 0 (TIMER + 0xb8)]"

text \<open>\<open>soc_reset\<close> up to the panic that follows if the chip does not reset.\<close>

definition soc_reset :: "op list" where
  "soc_reset = [Writel 1 (TIMER + 0xb4), Writel 1 (TIMER + 0xb8),
     Writel (push_bit 1 0xa57 OR 1) (TIMER + 0xb0), Udelay 1000000]"

definition reboot_to :: "device \<Rightarrow> int \<Rightarrow> history \<Rightarrow> history" where
  "reboot_to d bootsel t =
     (if bootsel = BOOTSEL_FEL then exec d (Writel 0xb0010fe1 RTC_ONESHOT # soc_reset) t
      else if bootsel = BOOTSEL_EMMC then exec d (Writel 0xb001e33c RTC_ONESHOT # soc_reset) t
      else t)"

section \<open>Identity\<close>

definition get_soc_id :: "device \<Rightarrow> history \<Rightarrow> u32 list \<times> history" where
  "get_soc_id d t =
     fold (\<lambda>i (sid, t). let (v, t) = readl d (0x01c14200 + 4 * of_nat i) t in (sid @ [v], t))
       [0..<4] ([], t)"

text \<open>The result is the success flag, the address and \<open>globals->sid\<close>, whose last word it overwrites.\<close>

definition get_mac_address :: "u32 \<Rightarrow> u32 list \<Rightarrow> bool \<times> u8 list \<times> u32 list" where
  "get_mac_address no sid =
     (if sid ! 0 = 0 then (False, [], sid)
      else (let sid = sid[3 := sid ! 1 XOR sid ! 2 XOR sid ! 3];
                sid = (if sid ! 3 AND 0xffffff = 0 then sid[3 := sid ! 3 OR 0x800000] else sid)
            in (True,
                [ucast (push_bit 4 no OR 0x02),
                 ucast (drop_bit 0 (sid ! 0) AND 0xff),
                 ucast (drop_bit 24 (sid ! 3) AND 0xff),
                 ucast (drop_bit 16 (sid ! 3) AND 0xff),
                 ucast (drop_bit 8 (sid ! 3) AND 0xff),
                 ucast (drop_bit 0 (sid ! 3) AND 0xff)], sid)))"

text \<open>The eight bytes at \<open>SPL_ADDR + 4\<close> and the boot source byte at \<open>SPL_ADDR + 0x28\<close>.\<close>

definition get_boot_source :: "u8 list \<Rightarrow> u8 \<Rightarrow> nat" where
  "get_boot_source magic src = (if magic \<noteq> bytes ''eGON.BT0'' then 0xff else unat src)"

definition get_boot_source_name :: "nat \<Rightarrow> string" where
  "get_boot_source_name src =
     (if src = 0 then ''SD'' else if src = 2 then ''eMMC'' else if src = 0xff then ''FEL'' else ''?'')"

section \<open>PMIC status\<close>

record board =
  uvlo_shutdown :: bool
  vbus_powerup :: bool
  pok_powerup :: bool
  vbus_preset :: bool
  bat_present :: bool
  bat_safe_mode :: bool
  bat_charging :: bool
  bat_capacity :: int

definition board_zero :: board where
  "board_zero = \<lparr>uvlo_shutdown = False, vbus_powerup = False, pok_powerup = False,
     vbus_preset = False, bat_present = False, bat_safe_mode = False, bat_charging = False,
     bat_capacity = 0\<rparr>"

definition pmic_read_status :: "device \<Rightarrow> board \<Rightarrow> history \<Rightarrow> board \<times> history" where
  "pmic_read_status d g t =
     (let (status0, t) = pmic_read d 0x00 t;
          (status1, t) = pmic_read d 0x01 t;
          (status2, t) = pmic_read d 0x02 t;
          t = snd (pmic_write d 0x02 0xff t);
          g = (if status0 \<ge> 0 \<and> status1 \<ge> 0 \<and> status2 \<ge> 0 then
                 (let g = g\<lparr>uvlo_shutdown := bit status2 5, vbus_powerup := bit status2 1,
                        pok_powerup := bit status2 0, vbus_preset := bit status0 5\<rparr>
                  in if bit status1 5 \<and> bit status1 4 then
                       (let g = g\<lparr>bat_present := True, bat_charging := bit status0 2\<rparr>
                        in if bit status1 3 then g\<lparr>bat_safe_mode := True\<rparr> else g)
                     else g)
               else g);
          g = g\<lparr>bat_capacity := - 1\<rparr>
      in if bat_present g then
           (let (cap, t) = pmic_read d 0xb9 t
            in if cap \<ge> 0 \<and> bit cap 7 then (g\<lparr>bat_capacity := cap AND 0x7f\<rparr>, t) else (g, t))
         else (g, t))"

section \<open>Properties\<close>

text \<open>
  The persistent default survives in a register that keeps what is written: after
  \<open>rtc_bootsel_set\<close> of any selection from -1 to 254, \<open>rtc_bootsel_get\<close> returns it. But all
  flags are lost on the way: every one reads as clear, the privacy mode among them.
\<close>

theorem rtc_bootsel_roundtrip:
  assumes "- 1 \<le> def" "def \<le> 254"
  shows "fst (rtc_bootsel_get (regfile r0) (rtc_bootsel_set def t)) = def \<and>
    \<not> fst (rtc_get_flag (regfile r0) flag (rtc_bootsel_set def t))"
proof -
  have m: "(0xff :: u32) = mask 8" by (simp add: mask_eq_exp_minus_1)
  have v: "last_wr r0 (rtc_bootsel_set def t) RTC_PERSIST = take_bit 8 (word_of_int (def + 1))"
    unfolding rtc_bootsel_set_def m
    by (simp only: take_bit_eq_mask [symmetric]) (simp add: writel_def Let_def)
  have "uint (word_of_int (def + 1) :: u32) = def + 1"
    using assms by (simp add: unsigned_of_int take_bit_int_eq_self_iff del: of_int_add)
  then have "uint (take_bit 8 (word_of_int (def + 1) :: u32)) = def + 1"
    using assms by (simp only: unsigned_take_bit_eq) (simp add: take_bit_int_eq_self_iff)
  then have "uint (take_bit 8 (word_of_int (def + 1) :: u32) AND 0xff) = def + 1"
    unfolding m by (simp only: take_bit_eq_mask [symmetric] take_bit_take_bit min.idem)
  moreover have "take_bit 8 (word_of_int (def + 1) :: u32) AND push_bit 16 flag = 0"
    by (rule bit_word_eqI) (auto simp: bit_simps)
  ultimately show ?thesis
    by (simp add: rtc_bootsel_get_def rtc_get_flag_def readl_def Let_def regfile_def v)
qed

theorem rtc_bootsel_roundtrip_witness:
  "fst (rtc_bootsel_get (regfile (\<lambda>_. 0x10007)) (rtc_bootsel_set 33 [])) = 33 \<and>
   fst (rtc_get_flag (regfile (\<lambda>_. 0x10007)) 1 []) \<and>
   \<not> fst (rtc_get_flag (regfile (\<lambda>_. 0x10007)) 1 (rtc_bootsel_set 33 []))"
  using rtc_bootsel_roundtrip [of 33 "\<lambda>_. 0x10007" "[]" 1]
  by (simp add: rtc_get_flag_def readl_def regfile_def Let_def)

text \<open>
  Setting a flag of the upper half leaves the stored boot selection alone, reads back as
  set or clear, and does not change another flag.
\<close>

theorem rtc_set_flag_effect:
  assumes "val = flag \<or> val = 0" "flag AND other = 0" "flag < 0x10000" "other < 0x10000"
  shows "let t' = rtc_set_flag (regfile r0) flag val t
     in fst (rtc_get_flag (regfile r0) flag t') = (val \<noteq> 0) \<and>
        fst (rtc_get_flag (regfile r0) other t') = fst (rtc_get_flag (regfile r0) other t) \<and>
        fst (rtc_bootsel_get (regfile r0) t') = fst (rtc_bootsel_get (regfile r0) t)"
proof -
  let ?v = "last_wr r0 t RTC_PERSIST"
  let ?w = "(?v AND NOT (push_bit 16 flag)) OR push_bit 16 val"
  have w: "last_wr r0 (rtc_set_flag (regfile r0) flag val t) RTC_PERSIST = ?w"
    by (simp add: rtc_set_flag_def io_defs regfile_def)
  have "flag = take_bit 16 flag"
    using assms(3) by (simp add: take_bit_eq_mod word_unat_eq_iff unat_mod word_less_nat_alt)
  then have small: "bit flag i \<Longrightarrow> i < 16" for i
    by (metis bit_take_bit_iff)
  have val: "bit val i \<Longrightarrow> bit flag i" for i
    using assms(1) by auto
  have no: "bit flag i \<Longrightarrow> \<not> bit other i" for i
    using arg_cong [OF assms(2), of "\<lambda>x. bit x i"] by (simp add: bit_and_iff)
  have "?w AND push_bit 16 flag = push_bit 16 val"
    by (rule bit_word_eqI) (auto simp: bit_simps dest: val)
  moreover have "push_bit 16 val = 0 \<longleftrightarrow> val = 0"
  proof
    assume z: "push_bit 16 val = 0"
    show "val = 0"
    proof (rule bit_word_eqI)
      fix i
      show "bit val i \<longleftrightarrow> bit (0 :: u32) i"
        using arg_cong [OF z, of "\<lambda>x. bit x (16 + i)"] small [of i] val [of i]
        by (auto simp: bit_simps)
    qed
  qed simp
  moreover have "?w AND push_bit 16 other = ?v AND push_bit 16 other"
    by (rule bit_word_eqI) (use no in \<open>auto simp: bit_simps dest: val\<close>)
  moreover have "?w AND 0xff = ?v AND 0xff"
  proof -
    have m: "(0xff :: u32) = mask 8" by (simp add: mask_eq_exp_minus_1)
    show ?thesis unfolding m by (rule bit_word_eqI) (auto simp: bit_simps)
  qed
  ultimately show ?thesis
    by (simp add: rtc_get_flag_def rtc_bootsel_get_def readl_def Let_def regfile_def w)
qed

theorem rtc_set_flag_effect_witness:
  "fst (rtc_bootsel_get (regfile (\<lambda>_. 0x22)) (rtc_set_flag (regfile (\<lambda>_. 0x22)) 1 1 [])) = 33"
  using rtc_set_flag_effect [of 1 1 2 "\<lambda>_. 0x22" "[]"]
  by (simp add: Let_def rtc_bootsel_get_def [of _ "[]"] readl_def regfile_def)

lemma bit_2_iff: "bit (2 :: u32) n \<longleftrightarrow> n = 1"
proof -
  have two: "(2 :: u32) = push_bit 1 1" by simp
  show ?thesis unfolding two bit_push_bit_iff bit_1_iff by auto
qed

lemma first_byte:
  assumes "no < 16"
  shows "unat (ucast (push_bit 4 no OR 0x02 :: u32) :: u8) = 16 * unat no + 2"
proof -
  have n: "unat no < 16" using assms by (simp add: word_less_nat_alt)
  have "push_bit 4 no OR 2 = push_bit 4 no + (2 :: u32)"
    by (rule disjunctive_add [symmetric]) (auto simp: bit_simps bit_2_iff)
  then have "unat (push_bit 4 no OR 0x02 :: u32) = 16 * unat no + 2"
    using n by (simp add: push_bit_eq_mult unat_word_ariths)
  then show ?thesis
    using n by (simp add: unsigned_ucast_eq take_bit_nat_eq_self_iff)
qed

lemma low_bytes_zero:
  fixes x :: u32
  assumes "ucast (drop_bit 16 x AND 0xff) = (0 :: u8)" "ucast (drop_bit 8 x AND 0xff) = (0 :: u8)"
    and "ucast (drop_bit 0 x AND 0xff) = (0 :: u8)"
  shows "x AND 0xffffff = 0"
proof -
  have m: "(0xff :: u32) = mask 8" "(0xffffff :: u32) = mask 24"
    by (simp_all add: mask_eq_exp_minus_1)
  have byte: "\<not> bit x (k + j)" if "ucast (drop_bit k x AND 0xff) = (0 :: u8)" "j < 8" for k j
    using arg_cong [OF that(1), of "\<lambda>b. bit b j"] that(2) unfolding m by (simp add: bit_simps)
  show ?thesis
    unfolding m
  proof (rule bit_word_eqI)
    fix n assume "n < LENGTH(32)"
    consider "n < 8" | "8 \<le> n" "n < 16" | "16 \<le> n" "n < 24" | "24 \<le> n" by linarith
    then show "bit (x AND mask 24) n \<longleftrightarrow> bit (0 :: u32) n"
      using byte [OF assms(1), of "n - 16"] byte [OF assms(2), of "n - 8"] byte [OF assms(3), of n]
      by cases (auto simp: bit_simps)
  qed
qed

lemma mac_address_bytes:
  assumes "sid ! 0 \<noteq> 0" "length sid = 4"
  obtains x :: u32 where "x AND 0xffffff \<noteq> 0"
    "\<And>no. fst (get_mac_address no sid)"
    "\<And>no. fst (snd (get_mac_address no sid)) = [ucast (push_bit 4 no OR 0x02),
       ucast (drop_bit 0 (sid ! 0) AND 0xff), ucast (drop_bit 24 x AND 0xff),
       ucast (drop_bit 16 x AND 0xff), ucast (drop_bit 8 x AND 0xff), ucast (drop_bit 0 x AND 0xff)]"
proof -
  let ?y = "sid ! 1 XOR sid ! 2 XOR sid ! 3"
  let ?x = "if ?y AND 0xffffff = 0 then ?y OR 0x800000 else ?y"
  have "(?y OR 0x800000) AND 0xffffff \<noteq> 0"
  proof -
    have m: "(0xffffff :: u32) = mask 24" by (simp add: mask_eq_exp_minus_1)
    have "(0x800000 :: u32) = push_bit 23 1" by simp
    then have "bit (0x800000 :: u32) 23"
      by (simp only: bit_push_bit_iff bit_1_iff) simp
    then have "bit ((?y OR 0x800000) AND mask 24) 23" by (simp add: bit_simps)
    then show ?thesis unfolding m by (metis bit_0_eq bot_apply bot_bool_def)
  qed
  then have "?x AND 0xffffff \<noteq> 0" by simp
  then show thesis
    using assms by (intro that [of ?x]) (simp_all add: get_mac_address_def Let_def)
qed

text \<open>
  When the chip has an id, the address made for interface \<open>no\<close> below 16 has six bytes and is a
  locally administered unicast address whose lower three bytes are not all zero; addresses of
  different interfaces differ, whatever the id.
\<close>

theorem mac_address_valid:
  assumes "sid ! 0 \<noteq> 0" "no < 16" "no' < 16" "length sid = 4"
  shows "let (ok, mac, _) = get_mac_address no sid
     in ok \<and> length mac = 6 \<and> bit (mac ! 0) 1 \<and> \<not> bit (mac ! 0) 0 \<and>
        drop 3 mac \<noteq> [0, 0, 0] \<and>
        (fst (snd (get_mac_address no' sid)) = mac \<longleftrightarrow> no' = no)"
proof -
  obtain x :: u32 where x: "x AND 0xffffff \<noteq> 0" and ok: "\<And>no. fst (get_mac_address no sid)"
    and mac: "\<And>no. fst (snd (get_mac_address no sid)) = [ucast (push_bit 4 no OR 0x02),
       ucast (drop_bit 0 (sid ! 0) AND 0xff), ucast (drop_bit 24 x AND 0xff),
       ucast (drop_bit 16 x AND 0xff), ucast (drop_bit 8 x AND 0xff), ucast (drop_bit 0 x AND 0xff)]"
    using mac_address_bytes [OF assms(1,4)] by metis
  have low: "drop 3 (fst (snd (get_mac_address no sid))) \<noteq> [0, 0, 0]"
    using x low_bytes_zero [of x] unfolding mac by auto
  have "bit (ucast (push_bit 4 no OR 0x02 :: u32) :: u8) 1"
    "\<not> bit (ucast (push_bit 4 no OR 0x02 :: u32) :: u8) 0"
    by (simp_all add: bit_simps bit_2_iff)
  moreover have "fst (snd (get_mac_address no' sid)) = fst (snd (get_mac_address no sid)) \<longleftrightarrow> no' = no"
  proof
    assume "fst (snd (get_mac_address no' sid)) = fst (snd (get_mac_address no sid))"
    then have "(ucast (push_bit 4 no' OR 0x02 :: u32) :: u8) = ucast (push_bit 4 no OR 0x02 :: u32)"
      by (simp only: mac list.inject)
    then have "16 * unat no' + 2 = 16 * unat no + 2"
      by (metis first_byte assms(2,3))
    then show "no' = no" by (simp add: word_unat_eq_iff)
  qed simp
  ultimately show ?thesis
    using ok [of no] low mac [of no] by (cases "get_mac_address no sid") auto
qed

theorem mac_address_valid_witness:
  "let mac = fst (snd (get_mac_address 1 [0x92c000ba, 0x10, 0x20, 0x30])) in mac ! 0 = 0x12 \<and> bit (mac ! 0) 1"
  using mac_address_valid [of "[0x92c000ba, 0x10, 0x20, 0x30]" 1 0]
  by (simp add: get_mac_address_def Let_def)

text \<open>
  \<open>get_mac_address\<close> folds the id into its last word in place, so a second call starts from
  the folded word: it undoes the first one and, for most ids, yields another address for the
  same interface.
\<close>

theorem mac_address_twice:
  assumes "length sid = 4" "sid ! 0 \<noteq> 0" "(sid ! 1 XOR sid ! 2 XOR sid ! 3) AND 0xffffff \<noteq> 0"
  shows "let sid' = snd (snd (get_mac_address no sid))
     in sid' ! 1 XOR sid' ! 2 XOR sid' ! 3 = sid ! 3"
proof -
  have "a XOR (b XOR (a XOR (b XOR c))) = c" for a b c :: u32
    by (simp add: xor.left_commute [of b a])
  then show ?thesis
    using assms by (simp add: get_mac_address_def Let_def xor.assoc)
qed

theorem mac_address_twice_witness:
  "let sid = [0x92c000ba, 0x10, 0x20, 0x33]; sid' = snd (snd (get_mac_address 0 sid))
   in fst (snd (get_mac_address 0 sid)) ! 5 = 3 \<and> fst (snd (get_mac_address 0 sid')) ! 5 = 0x33 \<and>
      sid' ! 1 XOR sid' ! 2 XOR sid' ! 3 = 0x33"
  using mac_address_twice [of "[0x92c000ba, 0x10, 0x20, 0x33]" 0]
  by (simp add: get_mac_address_def Let_def)

lemma read_pair:
  assumes "rsb_slave d r0"
  obtains t' where "pmic_read d r t = (uint (slave_regs r0 t r), t')" "slave_regs r0 t' = slave_regs r0 t"
  using rsb_slave.read_effect [OF assms, of r t] by (metis prod.collapse)

text \<open>
  The board status after \<open>pmic_read_status\<close> from a zeroed \<open>globals\<close>: each flag is its bit of
  the PMIC's status registers, the battery flags only when a battery is detected and valid, the
  capacity only when the gauge marks it valid; and the power-up reasons have been cleared.
\<close>

theorem pmic_read_status_effect:
  assumes "rsb_slave d r0"
  shows "let f = slave_regs r0 t; (g, t') = pmic_read_status d board_zero t;
         bat = bit (f 1) 5 \<and> bit (f 1) 4
     in g = \<lparr>uvlo_shutdown = bit (f 2) 5, vbus_powerup = bit (f 2) 1, pok_powerup = bit (f 2) 0,
          vbus_preset = bit (f 0) 5, bat_present = bat, bat_safe_mode = (bat \<and> bit (f 1) 3),
          bat_charging = (bat \<and> bit (f 0) 2),
          bat_capacity = (if bat \<and> bit (f 0xb9) 7 then uint (f 0xb9 AND 0x7f) else - 1)\<rparr> \<and>
        slave_regs r0 t' = f(2 := 0xff)"
proof -
  let ?f = "slave_regs r0 t"
  obtain t0 where t0: "pmic_read d 0 t = (uint (?f 0), t0)" "slave_regs r0 t0 = ?f"
    using read_pair [OF assms] by metis
  obtain t1 where t1: "pmic_read d 1 t0 = (uint (?f 1), t1)" "slave_regs r0 t1 = ?f"
    using read_pair [OF assms] t0(2) by metis
  obtain t2 where t2: "pmic_read d 2 t1 = (uint (?f 2), t2)" "slave_regs r0 t2 = ?f"
    using read_pair [OF assms] t1(2) by metis
  obtain t3 where t3: "snd (pmic_write d 2 0xff t2) = t3" "slave_regs r0 t3 = ?f(2 := 0xff)"
    using rsb_slave.write_effect [OF assms, of 2 "0xff" t2] t2(2) by simp
  obtain t4 where t4: "pmic_read d 0xb9 t3 = (uint (?f 0xb9), t4)" "slave_regs r0 t4 = ?f(2 := 0xff)"
    using read_pair [OF assms, of "0xb9" t3] t3(2) by auto
  have "uint (?f 0xb9) AND 0x7f = uint (?f 0xb9 AND 0x7f)"
    by (simp add: unsigned_and_eq)
  then show ?thesis
    using t3(2) t4(2)
    by (simp add: pmic_read_status_def Let_def t0(1) t1(1) t2(1) t3(1) t4(1) board_zero_def bit_uint_iff)
      blast
qed

theorem pmic_read_status_effect_witness:
  "bat_capacity (fst (pmic_read_status (rsb_dev (\<lambda>_. 0xb0)) board_zero [])) = 0x30"
  using pmic_read_status_effect [OF rsb_dev.rsb_slave_axioms, of "\<lambda>_. 0xb0" "[]"]
  by (simp add: Let_def split: prod.splits)

text \<open>
  After \<open>rtc_fixup\<close> the clock is not behind the build year, for a build date that the fields
  of the register can hold; a clock that was not behind is not written.
\<close>

theorem rtc_fixup_year:
  assumes "1970 \<le> y" "y \<le> 2033" "m < 256" "day < 256"
  shows "let year = (\<lambda>t. 1970 + unat (drop_bit 16 (last_wr r0 t RTC_YMD) AND 0x3f));
         t' = rtc_fixup (regfile r0) y m day t
     in y \<le> year t' \<and> (y \<le> year t \<longrightarrow> writes t' = writes t)"
proof -
  have mk: "(0x3f :: u32) = mask 6" by (simp add: mask_eq_exp_minus_1)
  let ?y = "of_nat (y - 1970) :: u32"
  have small: "bit m i \<Longrightarrow> i < 8" "bit day i \<Longrightarrow> i < 8" for i
  proof -
    have "k = take_bit 8 k" if "k < 256" for k :: nat
      using that by (simp add: take_bit_eq_mod)
    then show "bit m i \<Longrightarrow> i < 8" "bit day i \<Longrightarrow> i < 8"
      using assms(3,4) by (metis bit_take_bit_iff)+
  qed
  have "drop_bit 16 (push_bit 16 (?y AND 0x3f) OR (push_bit 8 (of_nat m) OR of_nat day)) AND 0x3f =
      ?y AND 0x3f"
    unfolding mk by (rule bit_word_eqI) (auto simp: bit_simps dest!: small)
  moreover have "unat (?y AND 0x3f) = y - 1970"
  proof -
    have "y - 1970 < 64" using assms(2) by simp
    then show ?thesis
      unfolding mk by (simp only: take_bit_eq_mask [symmetric])
        (simp add: take_bit_eq_mod unat_mod unat_of_nat)
  qed
  ultimately show ?thesis
    using assms(1) by (simp add: rtc_fixup_def io_defs regfile_def)
qed

theorem rtc_fixup_year_witness:
  "last_wr (\<lambda>_. 0) (rtc_fixup (regfile (\<lambda>_. 0)) 2020 6 15 []) RTC_YMD = 0x32060f \<and>
   2020 \<le> 1970 + unat (drop_bit 16 (last_wr (\<lambda>_. 0) (rtc_fixup (regfile (\<lambda>_. 0)) 2020 6 15 []) RTC_YMD)
     AND 0x3f)"
  using rtc_fixup_year [of 2020 6 15 "\<lambda>_. 0" "[]"]
  by (simp add: Let_def rtc_fixup_def io_defs regfile_def)

end
