(* ===== verification/Lradc.thy ===== *)
theory Lradc
  imports Machine
begin

text \<open>
  The volume keys, \<open>src/src/lradc.c\<close>: a resistor ladder read by a six-bit converter.
\<close>

abbreviation LRADC_CTRL :: addr where "LRADC_CTRL \<equiv> 0x01c21800"
abbreviation LRADC_INTC :: addr where "LRADC_INTC \<equiv> 0x01c21804"
abbreviation LRADC_INTS :: addr where "LRADC_INTS \<equiv> 0x01c21808"
abbreviation LRADC_DATA0 :: addr where "LRADC_DATA0 \<equiv> 0x01c2180c"

datatype key = NoKey | VolumeDown | VolumeUp

definition key_of_volts :: "u32 \<Rightarrow> key" where
  "key_of_volts val =
     (if val < 200000 then VolumeUp else if val < 400000 then VolumeDown else NoKey)"

definition lradc_get_pressed_key :: "device \<Rightarrow> history \<Rightarrow> key \<times> history" where
  "lradc_get_pressed_key d t =
     (let vref = 3000000 * 2 div 3 :: u32;
          (r, t) = readl d LRADC_DATA0 t;
          val = r AND 0x3f;
          val = val * vref div 63
      in (key_of_volts val, t))"

definition lradc_enable :: "op list" where
  "lradc_enable =
     [Writel 0xffffffff LRADC_INTS,
      Writel 0 LRADC_INTC,
      Writel (push_bit 24 0 OR push_bit 8 0 OR push_bit 6 0 OR push_bit 2 0 OR push_bit 0 1) LRADC_CTRL]"

definition lradc_disable :: "op list" where
  "lradc_disable =
     [Writel 0xffffffff LRADC_INTS,
      Writel 0 LRADC_INTC,
      Writel (push_bit 24 2 OR push_bit 8 1 OR push_bit 6 1 OR push_bit 2 2) LRADC_CTRL]"

text \<open>
  The 32-bit voltage computation does not overflow for any converter value, so the decision
  is exactly by the six-bit code: up to 6 is volume up, 7 to 12 volume down, more is no key.
\<close>

theorem lradc_key_by_code:
  "fst (lradc_get_pressed_key d t) =
    (let code = unat (d t LRADC_DATA0) mod 64
     in if code \<le> 6 then VolumeUp else if code \<le> 12 then VolumeDown else NoKey)"
proof -
  let ?r = "d t LRADC_DATA0" and ?c = "unat (d t LRADC_DATA0) mod 64"
  have m: "(0x3f :: u32) = mask 6" by (simp add: mask_eq_exp_minus_1)
  have code: "unat (?r AND 0x3f) = ?c"
    unfolding m by (simp only: take_bit_eq_mask [symmetric]) (simp add: take_bit_eq_mod unat_mod)
  have less: "?c < 64" by simp
  have "unat ((?r AND 0x3f) * 2000000) = ?c * 2000000"
    using less by (simp add: unat_word_ariths code del: mod_less_divisor)
  then have v: "unat ((?r AND 0x3f) * 2000000 div 63) = ?c * 2000000 div 63"
    by (simp add: unat_div)
  have "?c * 2000000 div 63 < 200000 \<longleftrightarrow> ?c \<le> 6" "?c * 2000000 div 63 < 400000 \<longleftrightarrow> ?c \<le> 12"
    by (simp_all add: div_less_iff_less_mult) arith+
  then show ?thesis
    by (simp add: lradc_get_pressed_key_def key_of_volts_def readl_def Let_def word_less_nat_alt v)
qed

end
