(* ===== verification/Boot_Select.thy ===== *)
theory Boot_Select
  imports Storage Board Lradc
begin

text \<open>
  Choosing what to boot, \<open>src/src/main.c\<close>: loading the boot filesystems of the SD card and the
  eMMC on demand, the configuration selected by the RTC registers, and the priorities of
  \<open>main\<close> in both builds. The state is the record \<open>world\<close>: memory, heap and card of
  \<open>Storage\<close>, the history of register accesses and the fields of \<open>struct globals\<close>. The
  initialisation of a controller and its card (\<open>sunxi_mmc_init\<close> and \<open>mmc_init\<close>, of U-Boot) is
  the parameter \<open>init\<close>.
\<close>

section \<open>State\<close>

record 'c world = "'c store" +
  hist :: history
  sd :: "('c mmc \<times> bootfs) option"
  emmc :: "('c mmc \<times> bootfs) option"
  mmc_tried :: u32
  board_rev :: nat
  linux_image_pa :: u64

type_synonym 'c card_init = "nat \<Rightarrow> 'c store \<times> history \<Rightarrow> 'c mmc option \<times> 'c store \<times> history"

definition on_hist :: "(history \<Rightarrow> history) \<Rightarrow> 'c world \<Rightarrow> 'c world" where
  "on_hist f w = w\<lparr>hist := f (hist w)\<rparr>"

section \<open>Loading the filesystems\<close>

definition mmc_probe :: "device \<Rightarrow> 'c card_init \<Rightarrow> nat \<Rightarrow> 'c world \<Rightarrow> 'c mmc option \<times> 'c world" where
  "mmc_probe d init mmc_no w =
     (let (m, s, t) = init mmc_no (store.truncate w, mmc_pins d mmc_no (hist w))
      in (m, w\<lparr>mem := mem s, heap_end := heap_end s, card := card s, hist := t\<rparr>))"

definition open_card ::
    "device \<Rightarrow> 'c card_init \<Rightarrow> nat \<Rightarrow> 'c world \<Rightarrow> ('c mmc \<times> bootfs) option \<times> 'c world" where
  "open_card d init no w =
     (let (m, w) = mmc_probe d init no w; (fs, w) = bootfs_open m w
      in (case fs of None \<Rightarrow> None | Some fs \<Rightarrow> Some (the m, fs), w))"

definition load_sd :: "device \<Rightarrow> 'c card_init \<Rightarrow> 'c world \<Rightarrow> 'c world" where
  "load_sd d init w = (let (fs, w) = open_card d init 0 w in w\<lparr>sd := fs\<rparr>)"

definition load_emmc :: "device \<Rightarrow> 'c card_init \<Rightarrow> 'c world \<Rightarrow> 'c world" where
  "load_emmc d init w = (let (fs, w) = open_card d init 2 w in w\<lparr>emmc := fs\<rparr>)"

definition mmc_try_load :: "device \<Rightarrow> 'c card_init \<Rightarrow> u32 \<Rightarrow> 'c world \<Rightarrow> 'c world" where
  "mmc_try_load d init msk w =
     (let w = (if msk AND push_bit 0 1 AND NOT (mmc_tried w) \<noteq> 0 then load_sd d init w else w);
          w = (if msk AND push_bit 2 1 AND NOT (mmc_tried w) \<noteq> 0 then load_emmc d init w else w)
      in w\<lparr>mmc_tried := mmc_tried w OR msk\<rparr>)"

section \<open>The configuration selected by the RTC\<close>

definition is_conf :: "mem \<Rightarrow> bootfs \<Rightarrow> nat \<Rightarrow> bool" where
  "is_conf m fs i \<longleftrightarrow> read_bytes m (block_addr fs i) 8 = bytes '':BFCONF:''"

text \<open>The result: the option, the filesystem, the index of the selected block.\<close>

type_synonym 'c selection = "int \<times> ('c mmc \<times> bootfs) option \<times> nat option"

definition bootfs_select_configuration ::
    "device \<Rightarrow> 'c card_init \<Rightarrow> 'c world \<Rightarrow> 'c selection \<times> 'c world" where
  "bootfs_select_configuration d init w =
     (let (vt, t) = readl d RTC_ONESHOT (hist w);
          (def, t) = rtc_bootsel_get d t;
          oneshot = (vt AND 0xffff0000 = 0xb0010000);
          w = w\<lparr>hist := (if oneshot then writel 0 RTC_ONESHOT t else t)\<rparr>
      in if \<not> oneshot \<and> def < 0 then ((- 1, None, None), w)
         else
           (let bootsel = (if oneshot then uint (vt AND 0xffff) else def)
            in if bootsel \<ge> 64 then ((bootsel, None, None), w)
               else
                 (let w = mmc_try_load d init (push_bit (if bootsel < 32 then 2 else 0) 1) w;
                      fs = (if bootsel < 32 then emmc w else sd w);
                      i = nat (if bootsel < 32 then bootsel else bootsel - 32)
                  in case fs of
                       None \<Rightarrow> ((bootsel, None, None), w)
                     | Some (m, b) \<Rightarrow>
                         ((bootsel, fs, if is_conf (mem w) b i then Some i else None), w))))"

section \<open>The priorities of main\<close>

datatype 'c choice = Menu | Boot "'c mmc \<times> bootfs" nat | Nothing

text \<open>With the menu (\<open>ENABLE_GUI\<close>): what happens before the display is needed.\<close>

definition main_gui :: "device \<Rightarrow> 'c card_init \<Rightarrow> key \<Rightarrow> bool \<Rightarrow> 'c world \<Rightarrow> 'c choice \<times> 'c world" where
  "main_gui d init key vbus w =
     (let w = (if key = VolumeUp then on_hist (reboot_to d BOOTSEL_FEL) w else w)
      in if key = VolumeDown \<or> key = VolumeUp \<or> vbus then (Menu, w)
         else (let ((bootsel, fs, sbc), w) = bootfs_select_configuration d init w
               in case sbc of
                    None \<Rightarrow> (Menu, on_hist (reboot_to d bootsel) w)
                  | Some i \<Rightarrow> (Boot (the fs) i, w)))"

text \<open>Without it.\<close>

definition conf_of_fs :: "('c mmc \<times> bootfs) option \<Rightarrow> nat \<Rightarrow> 'c world \<Rightarrow> 'c choice option" where
  "conf_of_fs fs i w =
     (case fs of None \<Rightarrow> None
      | Some f \<Rightarrow> if is_conf (mem w) (snd f) i then Some (Boot f i) else None)"

text \<open>One round of \<open>try_conf0\<close>: the eMMC, then the SD card.\<close>

definition try_conf :: "device \<Rightarrow> 'c card_init \<Rightarrow> nat \<Rightarrow> 'c world \<Rightarrow> 'c choice option \<times> 'c world" where
  "try_conf d init i w =
     (let w = mmc_try_load d init (push_bit 2 1) w
      in case conf_of_fs (emmc w) i w of
           Some c \<Rightarrow> (Some c, w)
         | None \<Rightarrow> (let w = mmc_try_load d init (push_bit 0 1) w in (conf_of_fs (sd w) i w, w)))"

definition try_confs :: "device \<Rightarrow> 'c card_init \<Rightarrow> nat \<Rightarrow> 'c world \<Rightarrow> 'c choice \<times> 'c world" where
  "try_confs d init bootsel w =
     (let (c, w) = try_conf d init bootsel w
      in case c of
           Some c \<Rightarrow> (c, w)
         | None \<Rightarrow>
             if bootsel = 1 then
               (let (c, w) = try_conf d init 0 w in (case c of Some c \<Rightarrow> c | None \<Rightarrow> Nothing, w))
             else (Nothing, w))"

definition main_nogui :: "device \<Rightarrow> 'c card_init \<Rightarrow> key \<Rightarrow> 'c world \<Rightarrow> 'c choice \<times> 'c world" where
  "main_nogui d init key w =
     (if key = VolumeUp then
        (let w = mmc_try_load d init (push_bit 0 1) w
         in case conf_of_fs (sd w) 0 w of Some c \<Rightarrow> (c, w) | None \<Rightarrow> (Nothing, w))
      else if key = VolumeDown then try_confs d init 1 w
      else
        (let ((bootsel, fs, sbc), w) = bootfs_select_configuration d init w
         in case sbc of
              Some i \<Rightarrow> (Boot (the fs) i, w)
            | None \<Rightarrow> try_confs d init 0 (on_hist (reboot_to d bootsel) w)))"

section \<open>Properties\<close>

text \<open>Reading a card changes memory, heap and card only; the fields of \<open>globals\<close> stay.\<close>

named_theorems frame

lemma mmc_command_frame [frame]: "store.more (snd (mmc_command m cmd s)) = store.more s"
  by (simp add: mmc_command_def split: prod.split)

lemma mmc_command_data_frame [frame]:
  "store.more (snd (mmc_command_data m cmd dst n b s)) = store.more s"
  by (simp add: mmc_command_data_def split: prod.split)

lemma mmc_read_blocks_frame [frame]: "store.more (snd (mmc_read_blocks m dst st n s)) = store.more s"
proof -
  obtain e1 s1 where a: "mmc_command_data m
      \<lparr>cmdidx = (if n > 1 then 18 else 17), cmdarg = (if high_capacity m then ucast st
        else ucast (st * ucast (read_bl_len m)))\<rparr> dst (ucast n) (read_bl_len m) s = (e1, s1)"
    by fastforce
  obtain e2 s2 where b: "mmc_command m \<lparr>cmdidx = 12, cmdarg = 0\<rparr> s1 = (e2, s2)"
    by fastforce
  have "store.more s1 = store.more s" "store.more s2 = store.more s1"
    using mmc_command_data_frame mmc_command_frame a b by (metis snd_conv)+
  with a b show ?thesis
    by (simp add: mmc_read_blocks_def Let_def)
qed

lemma retry_cmd_frame [frame]: "store.more (snd (retry_cmd m cmd n s)) = store.more s"
proof (induction n arbitrary: s)
  case 0
  obtain e s1 where a: "mmc_command m cmd s = (e, s1)" by fastforce
  then have "store.more s1 = store.more s" using mmc_command_frame by (metis snd_conv)
  with a show ?case by simp
next
  case (Suc n)
  obtain e s1 where a: "mmc_command m cmd s = (e, s1)" by fastforce
  then have "store.more s1 = store.more s" using mmc_command_frame by (metis snd_conv)
  with a Suc show ?case by simp
qed

lemma mmc_set_blocklen_frame [frame]: "store.more (snd (mmc_set_blocklen m len s)) = store.more s"
proof -
  obtain e s1 where a: "mmc_command m \<lparr>cmdidx = 16, cmdarg = len\<rparr> s = (e, s1)" by fastforce
  then have "store.more s1 = store.more s" using mmc_command_frame by (metis snd_conv)
  with a show ?thesis
    by (simp add: mmc_set_blocklen_def Let_def retry_cmd_frame del: retry_cmd.simps)
qed

lemma bread_loop_frame [frame]: "store.more (snd (bread_loop m dst st n s)) = store.more s"
proof (induction m dst st n s rule: bread_loop.induct)
  case (1 m dst st todo s)
  obtain k s1 where a: "mmc_read_blocks m dst st (chunk m todo) s = (k, s1)" by fastforce
  then have "store.more s1 = store.more s" using mmc_read_blocks_frame by (metis snd_conv)
  with 1 [OF refl, of "(k, s1)" k s1] a show ?case
    by (subst bread_loop.simps) (auto simp: Let_def)
qed

lemma mmc_bread_frame [frame]: "store.more (snd (mmc_bread m st n dst s)) = store.more s"
proof -
  obtain e s1 where a: "mmc_set_blocklen m (read_bl_len m) s = (e, s1)" by fastforce
  obtain k s2 where b: "bread_loop m dst st n s1 = (k, s2)" by fastforce
  have "store.more s1 = store.more s" "store.more s2 = store.more s1"
    using mmc_set_blocklen_frame bread_loop_frame a b by (metis snd_conv)+
  with a b show ?thesis
    by (simp add: mmc_bread_def Let_def)
qed

lemma mmc_read_data_frame [frame]: "store.more (snd (mmc_read_data m dst off n s)) = store.more s"
  unfolding mmc_read_data_def Let_def
  by (simp only: split_beta snd_conv mmc_bread_frame)

lemma search_parts_frame [frame]: "store.more (snd (search_parts m parts ps sb is s)) = store.more s"
proof (induction m parts ps sb "is" s rule: search_parts.induct)
  case (2 m parts ps sb i "is" s)
  obtain k s1 where a: "mmc_read_data m sb (start (ps ! (i mod length ps))) (33 * 2048) s = (k, s1)"
    by fastforce
  then have "store.more s1 = store.more s" using mmc_read_data_frame by (metis snd_conv)
  with 2 a show ?case by (auto simp: Let_def)
qed simp

lemma bootfs_open_frame [frame]: "store.more (snd (bootfs_open mm s)) = store.more s"
proof (cases mm)
  case None
  then show ?thesis by (simp add: bootfs_open_def malloc_def)
next
  case (Some m)
  let ?s = "s\<lparr>heap_end := heap_end s + align64 96 + align64 512\<rparr>"
  obtain ok s1 where a: "mmc_read_data m (heap_end s + align64 96) 0 512 ?s = (ok, s1)" by fastforce
  then have "store.more s1 = store.more s"
    using mmc_read_data_frame [of m "heap_end s + align64 96" 0 512 ?s] by simp
  with Some a show ?thesis
    by (auto simp: bootfs_open_def malloc_def Let_def search_parts_frame split: option.splits)
qed

lemma open_card_frame:
  "mmc_tried (snd (open_card d init no w)) = mmc_tried w"
  "sd (snd (open_card d init no w)) = sd w" "emmc (snd (open_card d init no w)) = emmc w"
proof -
  obtain m w1 where a: "mmc_probe d init no w = (m, w1)" by fastforce
  obtain fs w2 where b: "bootfs_open m w1 = (fs, w2)" by fastforce
  have "mmc_tried w1 = mmc_tried w \<and> sd w1 = sd w \<and> emmc w1 = emmc w"
    using a by (auto simp: mmc_probe_def split: prod.splits)
  moreover have "store.more w2 = store.more w1"
    using bootfs_open_frame b by (metis snd_conv)
  then have "mmc_tried w2 = mmc_tried w1 \<and> sd w2 = sd w1 \<and> emmc w2 = emmc w1"
    by (cases w1; cases w2) simp
  ultimately show "mmc_tried (snd (open_card d init no w)) = mmc_tried w"
    "sd (snd (open_card d init no w)) = sd w" "emmc (snd (open_card d init no w)) = emmc w"
    by (simp_all add: open_card_def a b)
qed

lemma load_frame:
  "mmc_tried (load_sd d init w) = mmc_tried w" "emmc (load_sd d init w) = emmc w"
  "mmc_tried (load_emmc d init w) = mmc_tried w" "sd (load_emmc d init w) = sd w"
  using open_card_frame [of d init 0 w] open_card_frame [of d init 2 w]
  by (cases "open_card d init 0 w"; cases "open_card d init 2 w";
      simp add: load_sd_def load_emmc_def)+

lemma mmc_try_load_frame:
  "mmc_tried (mmc_try_load d init msk w) = mmc_tried w OR msk"
  "msk AND push_bit 0 1 = 0 \<Longrightarrow> sd (mmc_try_load d init msk w) = sd w"
  "msk AND push_bit 2 1 = 0 \<Longrightarrow> emmc (mmc_try_load d init msk w) = emmc w"
  by (simp_all add: mmc_try_load_def Let_def load_frame flip: and.assoc)

lemma mmc_try_load_subset:
  assumes "msk AND NOT (mmc_tried w) = 0"
  shows "mmc_try_load d init msk w = w"
proof -
  have sub: "bit msk i \<Longrightarrow> bit (mmc_tried w) i" for i
    using arg_cong [OF assms, of "\<lambda>x. bit x i"] bit_imp_le_length [of msk i] by (auto simp: bit_simps)
  have "msk AND b AND NOT (mmc_tried w) = 0" for b
    by (rule bit_word_eqI) (auto simp: bit_simps dest: sub)
  moreover have "mmc_tried w OR msk = mmc_tried w"
    by (rule bit_word_eqI) (auto simp: bit_simps dest: sub)
  ultimately show ?thesis
    by (simp add: mmc_try_load_def)
qed

text \<open>
  A card is probed at most once: loading a set of cards all of which have been tried before,
  successfully or not, changes nothing, not even the history of the hardware.
\<close>

theorem mmc_try_load_once:
  assumes "msk AND NOT (mmc_tried w) = 0"
  shows "mmc_try_load d init msk w = w"
  using assms by (rule mmc_try_load_subset)

text \<open>A world for the witnesses: no card answers, the RTC register asks for configuration 34.\<close>

definition demo_world :: "unit world" where
  "demo_world = \<lparr>mem = (\<lambda>_. 0), heap_end = 0x50000000, card = (), hist = [], sd = None,
     emmc = None, mmc_tried = 5, board_rev = 1, linux_image_pa = 0\<rparr>"

definition no_cards :: "unit card_init" where
  "no_cards no s = (None, s)"

theorem mmc_try_load_once_witness:
  "mmc_try_load (regfile (\<lambda>_. 0)) no_cards 4 demo_world = demo_world"
  using mmc_try_load_once [of 4 demo_world "regfile (\<lambda>_. 0)" no_cards]
  by (simp add: demo_world_def)

definition one_shot :: "u32 \<Rightarrow> bool" where
  "one_shot vt \<longleftrightarrow> vt AND 0xffff0000 = 0xb0010000"

definition selected :: "u32 \<Rightarrow> u32 \<Rightarrow> int" where
  "selected vt vp = (if one_shot vt then uint (vt AND 0xffff) else uint (vp AND 0xff) - 1)"

lemma selected_cases: "\<not> one_shot vt \<and> selected vt vp = - 1 \<or> 0 \<le> selected vt vp"
proof -
  have "0 \<le> uint (vp AND 0xff)" by (rule unsigned_greater_eq)
  then have "uint (vp AND 0xff) - 1 = - 1 \<or> 0 \<le> uint (vp AND 0xff) - 1" by linarith
  then show ?thesis
    by (cases "one_shot vt") (simp_all only: selected_def if_True if_False unsigned_greater_eq simp_thms)
qed

lemma select_unfold:
  fixes w d
  defines "vt \<equiv> d (hist w) RTC_ONESHOT" and "vp \<equiv> d (Rd RTC_ONESHOT (d (hist w) RTC_ONESHOT) # hist w) RTC_PERSIST"
  defines "w1 \<equiv> w\<lparr>hist := (if one_shot vt then [Wr RTC_ONESHOT 0] else []) @
      [Rd RTC_PERSIST vp, Rd RTC_ONESHOT vt] @ hist w\<rparr>"
  defines "bs \<equiv> selected vt vp"
  shows "bootfs_select_configuration d init w =
    (if bs < 0 \<or> 64 \<le> bs then ((bs, None, None), w1)
     else (let w2 = mmc_try_load d init (push_bit (if bs < 32 then 2 else 0) 1) w1;
               fs = (if bs < 32 then emmc w2 else sd w2);
               i = nat (bs mod 32)
           in case fs of
                None \<Rightarrow> ((bs, None, None), w2)
              | Some (m, b) \<Rightarrow> ((bs, fs, if is_conf (mem w2) b i then Some i else None), w2)))"
proof -
  have m: "bs mod 32 = (if bs < 32 then bs else bs - 32)" if "0 \<le> bs" "bs < 64"
    using that by (auto simp: mod_pos_pos_trivial) presburger
  show ?thesis
    using selected_cases [of vt vp] m unfolding bootfs_select_configuration_def rtc_bootsel_get_def
    by (auto simp: readl_def writel_def Let_def bs_def w1_def vt_def vp_def one_shot_def selected_def
        split: option.splits if_splits)
qed

text \<open>
  C6: a one-shot request in the second RTC register takes precedence over the persistent
  default, and is cleared; without either no option is chosen and no card touched. Values below
  32 are configurations of the eMMC, below 64 those of the SD card less 32, others select
  nothing, and a selected block always carries the magic of a configuration.
\<close>

theorem select_configuration_result:
  assumes "vt = d (hist w) RTC_ONESHOT" "vp = d (Rd RTC_ONESHOT vt # hist w) RTC_PERSIST"
    and "bootfs_select_configuration d init w = ((opt, fs, sel), w')"
  shows "opt = (if vt AND 0xffff0000 = 0xb0010000 then uint (vt AND 0xffff) else uint (vp AND 0xff) - 1)
    \<and> (fs \<noteq> None \<longrightarrow> 0 \<le> opt \<and> opt < 64 \<and> fs = (if opt < 32 then emmc w' else sd w'))
    \<and> (sel = Some i \<longrightarrow> fs \<noteq> None \<and> int i = opt mod 32 \<and> is_conf (mem w') (snd (the fs)) i)
    \<and> (opt < 0 \<or> opt \<ge> 64 \<longrightarrow> w' = w\<lparr>hist :=
      (if vt AND 0xffff0000 = 0xb0010000 then [Wr RTC_ONESHOT 0] else []) @
      [Rd RTC_PERSIST vp, Rd RTC_ONESHOT vt] @ hist w\<rparr>)"
proof -
  let ?bs = "selected vt vp"
  let ?w = "w\<lparr>hist := (if one_shot vt then [Wr RTC_ONESHOT 0] else []) @
      [Rd RTC_PERSIST vp, Rd RTC_ONESHOT vt] @ hist w\<rparr>"
  have bs: "?bs = (if vt AND 0xffff0000 = 0xb0010000 then uint (vt AND 0xffff) else uint (vp AND 0xff) - 1)"
    by (simp add: selected_def one_shot_def)
  note sel = select_unfold [of d init w, folded assms(1), folded assms(2)]
  show ?thesis
  proof (cases "?bs < 0 \<or> 64 \<le> ?bs")
    case True
    then have "((opt, fs, sel), w') = ((?bs, None, None), ?w)"
      using sel assms(3) by (simp only: if_True)
    then show ?thesis
      unfolding bs [symmetric] by (simp add: one_shot_def)
  next
    case False
    define w2 where "w2 = mmc_try_load d init (push_bit (if ?bs < 32 then 2 else 0) 1) ?w"
    define f where "f = (if ?bs < 32 then emmc w2 else sd w2)"
    have res: "((opt, fs, sel), w') = (case f of None \<Rightarrow> ((?bs, None, None), w2)
        | Some (m, b) \<Rightarrow> ((?bs, f, if is_conf (mem w2) b (nat (?bs mod 32)) then Some (nat (?bs mod 32))
            else None), w2))"
      using sel assms(3) False unfolding Let_def w2_def f_def by (simp only: if_False)
    show ?thesis
    proof (cases f)
      case None
      with res False show ?thesis
        unfolding bs [symmetric] by auto
    next
      case (Some mb)
      with res have r: "opt = ?bs" "fs = f" "w' = w2" "sel = (if is_conf (mem w2) (snd mb) (nat (?bs mod 32))
          then Some (nat (?bs mod 32)) else None)"
        by (auto split: prod.splits)
      with Some False show ?thesis
        unfolding bs [symmetric] by (auto simp: f_def)
    qed
  qed
qed

theorem select_configuration_result_witness:
  "let d = regfile ((\<lambda>_. 0)(RTC_PERSIST := 35));
       ((opt, fs, sel), w') = bootfs_select_configuration d no_cards demo_world
   in opt = 34 \<and> sel = None"
proof -
  let ?d = "regfile ((\<lambda>_. 0)(RTC_PERSIST := 35))"
  obtain opt fs sel w' where r: "bootfs_select_configuration ?d no_cards demo_world = ((opt, fs, sel), w')"
    by (metis prod.collapse)
  have "opt = 34" "fs \<noteq> None \<longrightarrow> fs = (if opt < 32 then emmc w' else sd w')" "sel \<noteq> None \<longrightarrow> fs \<noteq> None"
    using select_configuration_result [OF refl refl r]
    by (auto simp: regfile_def demo_world_def)
  moreover have "sd w' = None"
    using r by (simp add: select_unfold Let_def selected_def one_shot_def regfile_def demo_world_def
        mmc_try_load_def split: option.splits) auto
  ultimately show ?thesis
    by (auto simp: r)
qed

lemma conf_of_fs_Some:
  "conf_of_fs fs i w = Some c \<Longrightarrow> \<exists>f. c = Boot f i \<and> is_conf (mem w) (snd f) i"
  by (auto simp: conf_of_fs_def split: option.splits if_splits)

lemma try_conf_Some:
  "try_conf d init i w = (Some c, w') \<Longrightarrow> \<exists>f. c = Boot f i \<and> is_conf (mem w') (snd f) i"
  by (auto simp: try_conf_def Let_def dest!: conf_of_fs_Some split: option.splits)

lemma try_confs_Boot:
  assumes "try_confs d init j w = (Boot f i, w')"
  shows "is_conf (mem w') (snd f) i"
proof -
  obtain c w1 where a: "try_conf d init j w = (c, w1)" by fastforce
  obtain c2 w2 where b: "try_conf d init 0 w1 = (c2, w2)" by fastforce
  from a b assms show ?thesis
    by (cases c; cases c2) (auto simp: try_confs_def dest!: try_conf_Some split: if_splits)
qed

lemma select_is_conf:
  assumes "bootfs_select_configuration d init w = ((opt, fs, Some i), w')"
  shows "is_conf (mem w') (snd (the fs)) i"
  using assms unfolding select_unfold
  by (auto simp: Let_def split: if_splits option.splits)

text \<open>
  Whichever way \<open>main\<close> comes to boot a configuration directly, the block carries the magic of a
  configuration in the memory at that point.
\<close>

lemma direct_is_conf:
  assumes "main_nogui d init key w = (Boot f i, w') \<or> main_gui d init key vbus w = (Boot f i, w')"
  shows "is_conf (mem w') (snd f) i"
  using assms
proof
  assume m: "main_gui d init key vbus w = (Boot f i, w')"
  then have nk: "\<not> (key = VolumeDown \<or> key = VolumeUp \<or> vbus)"
    by (auto simp: main_gui_def Let_def)
  obtain opt fs sel w1 where s: "bootfs_select_configuration d init w = ((opt, fs, sel), w1)"
    by (metis prod.collapse)
  then show ?thesis
    using m nk select_is_conf [of d init w opt fs i w1]
    by (cases sel) (auto simp: main_gui_def)
next
  assume m: "main_nogui d init key w = (Boot f i, w')"
  obtain opt fs sel w1 where s: "bootfs_select_configuration d init w = ((opt, fs, sel), w1)"
    by (metis prod.collapse)
  show ?thesis
  proof (cases key)
    case NoKey
    then show ?thesis
      using m s select_is_conf [of d init w opt fs i w1]
      by (cases sel) (auto simp: main_nogui_def intro: try_confs_Boot)
  next
    case VolumeDown
    then show ?thesis
      using m by (auto simp: main_nogui_def intro: try_confs_Boot)
  next
    case VolumeUp
    then show ?thesis
      using m by (auto simp: main_nogui_def Let_def dest!: conf_of_fs_Some split: option.splits)
  qed
qed

text \<open>A world whose eMMC holds one configuration, number 0.\<close>

definition demo_world_emmc :: "unit world" where
  "demo_world_emmc = demo_world\<lparr>mem := mem_write (\<lambda>_. 0) 0x60000800 (bytes '':BFCONF:''),
     emmc := Some (image_card (\<lambda>_. 0), \<lparr>mmc_offset = 0, fs_sb = 0x60000000\<rparr>)\<rparr>"

lemma demo_is_conf: "is_conf (mem demo_world_emmc) \<lparr>mmc_offset = 0, fs_sb = 0x60000000\<rparr> 0"
  by (simp add: is_conf_def demo_world_emmc_def block_addr_def read_bytes_write)

lemma demo_main: "main_nogui (regfile (\<lambda>_. 0)) no_cards VolumeDown demo_world_emmc =
    (Boot (image_card (\<lambda>_. 0), \<lparr>mmc_offset = 0, fs_sb = 0x60000000\<rparr>) 0, demo_world_emmc)"
proof -
  have load: "mmc_try_load (regfile (\<lambda>_. 0)) no_cards 4 demo_world_emmc = demo_world_emmc"
    "mmc_try_load (regfile (\<lambda>_. 0)) no_cards 1 demo_world_emmc = demo_world_emmc"
    by (rule mmc_try_load_subset, simp add: demo_world_emmc_def demo_world_def)+
  have "mem demo_world_emmc (block_addr \<lparr>mmc_offset = 0, fs_sb = 0x60000000\<rparr> 1) = 0"
    by (simp add: demo_world_emmc_def block_addr_def mem_write_def)
  then have "\<not> is_conf (mem demo_world_emmc) \<lparr>mmc_offset = 0, fs_sb = 0x60000000\<rparr> 1"
    by (simp add: is_conf_def read_bytes_def bytes_Cons upt_rec)
  then have "conf_of_fs (emmc demo_world_emmc) 1 demo_world_emmc = None"
    "conf_of_fs (sd demo_world_emmc) 1 demo_world_emmc = None"
    "conf_of_fs (emmc demo_world_emmc) 0 demo_world_emmc =
      Some (Boot (image_card (\<lambda>_. 0), \<lparr>mmc_offset = 0, fs_sb = 0x60000000\<rparr>) 0)"
    using demo_is_conf by (simp_all add: conf_of_fs_def demo_world_emmc_def demo_world_def)
  with load show ?thesis
    by (simp add: main_nogui_def try_confs_def try_conf_def)
qed

text \<open>
  The order of preference without the menu when volume down is held: configuration 1 of the
  eMMC, configuration 1 of the SD card, then configuration 0 of each, and only then nothing;
  the SD card is not touched when the eMMC has configuration 1, and each card is opened once.
\<close>

theorem main_volume_down_order:
  "let w1 = mmc_try_load d init 4 w; w2 = mmc_try_load d init 1 w1;
       cand = [conf_of_fs (sd w2) 1 w2, conf_of_fs (emmc w2) 0 w2, conf_of_fs (sd w2) 0 w2]
   in main_nogui d init VolumeDown w =
     (case conf_of_fs (emmc w1) 1 w1 of
        Some c \<Rightarrow> (c, w1)
      | None \<Rightarrow> (case find (\<lambda>c. c \<noteq> None) cand of Some (Some c) \<Rightarrow> c | _ \<Rightarrow> Nothing, w2))"
proof -
  let ?w1 = "mmc_try_load d init 4 w" and ?w2 = "mmc_try_load d init 1 (mmc_try_load d init 4 w)"
  have "mmc_tried ?w2 = mmc_tried w OR 4 OR 1"
    by (simp add: mmc_try_load_frame or.assoc)
  moreover have sub: "x AND NOT (y OR x OR z) = 0" "x AND NOT (y OR z OR x) = 0" for x y z :: u32
    by (rule bit_word_eqI; auto simp: bit_simps)+
  ultimately have "mmc_try_load d init 4 ?w2 = ?w2" "mmc_try_load d init 1 ?w2 = ?w2"
    by (simp_all only: mmc_try_load_subset sub)
  then show ?thesis
    by (simp add: main_nogui_def try_confs_def try_conf_def Let_def split: option.split)
qed

end
