(* ===== verification/Fdt.thy ===== *)
theory Fdt
  imports Storage
begin

text \<open>
  The core of libfdt as p-boot links it (\<open>scripts/dtc/libfdt/fdt.c\<close>, the header accessors of
  \<open>libfdt.h\<close> and \<open>libfdt_internal.h\<close> under \<open>src/src/uboot\<close>): a flattened device tree is a range
  of memory. An \<open>int\<close> offset or result and an \<open>unsigned\<close> are both the 32-bit word the processor
  keeps; \<open>neg\<close> reads the sign. The pointer 0 is \<open>NULL\<close>, and reading through it reads address 0. The
  depth counter is an \<open>int\<close> option, \<open>None\<close> where the caller passes no counter. The build
  (\<open>configure.php\<close>) sets \<open>FDT_ASSUME_MASK\<close> to \<open>0xff\<close>: none of the optional checks is compiled in.
  The definitions keep them under the conditions that the code writes.
\<close>

section \<open>Loads and stores\<close>

definition neg :: "u32 \<Rightarrow> bool" where
  "neg x \<longleftrightarrow> sint x < 0"

definition fdt32_ld :: "mem \<Rightarrow> u64 \<Rightarrow> u32" where
  "fdt32_ld m a = be32_of (read_bytes m a 4)"

definition fdt64_ld :: "mem \<Rightarrow> u64 \<Rightarrow> u64" where
  "fdt64_ld m a = push_bit 32 (ucast (fdt32_ld m a)) OR ucast (fdt32_ld m (a + 4))"

definition fdt32_st :: "u64 \<Rightarrow> u32 \<Rightarrow> mem \<Rightarrow> mem" where
  "fdt32_st a v m = mem_write m a (be32_bytes v)"

definition be64_bytes :: "u64 \<Rightarrow> u8 list" where
  "be64_bytes v = be32_bytes (ucast (drop_bit 32 v)) @ be32_bytes (ucast v)"

definition fdt64_st :: "u64 \<Rightarrow> u64 \<Rightarrow> mem \<Rightarrow> mem" where
  "fdt64_st a v m = mem_write m a (be64_bytes v)"

section \<open>Error codes and tags\<close>

abbreviation (input) FDT_ERR_NOTFOUND :: u32 where "FDT_ERR_NOTFOUND \<equiv> 1"
abbreviation (input) FDT_ERR_EXISTS :: u32 where "FDT_ERR_EXISTS \<equiv> 2"
abbreviation (input) FDT_ERR_NOSPACE :: u32 where "FDT_ERR_NOSPACE \<equiv> 3"
abbreviation (input) FDT_ERR_BADOFFSET :: u32 where "FDT_ERR_BADOFFSET \<equiv> 4"
abbreviation (input) FDT_ERR_BADPATH :: u32 where "FDT_ERR_BADPATH \<equiv> 5"
abbreviation (input) FDT_ERR_BADPHANDLE :: u32 where "FDT_ERR_BADPHANDLE \<equiv> 6"
abbreviation (input) FDT_ERR_BADSTATE :: u32 where "FDT_ERR_BADSTATE \<equiv> 7"
abbreviation (input) FDT_ERR_TRUNCATED :: u32 where "FDT_ERR_TRUNCATED \<equiv> 8"
abbreviation (input) FDT_ERR_BADMAGIC :: u32 where "FDT_ERR_BADMAGIC \<equiv> 9"
abbreviation (input) FDT_ERR_BADVERSION :: u32 where "FDT_ERR_BADVERSION \<equiv> 10"
abbreviation (input) FDT_ERR_BADSTRUCTURE :: u32 where "FDT_ERR_BADSTRUCTURE \<equiv> 11"
abbreviation (input) FDT_ERR_BADLAYOUT :: u32 where "FDT_ERR_BADLAYOUT \<equiv> 12"
abbreviation (input) FDT_ERR_INTERNAL :: u32 where "FDT_ERR_INTERNAL \<equiv> 13"
abbreviation (input) FDT_ERR_BADNCELLS :: u32 where "FDT_ERR_BADNCELLS \<equiv> 14"
abbreviation (input) FDT_ERR_BADVALUE :: u32 where "FDT_ERR_BADVALUE \<equiv> 15"
abbreviation (input) FDT_ERR_NOPHANDLES :: u32 where "FDT_ERR_NOPHANDLES \<equiv> 17"

abbreviation (input) FDT_BEGIN_NODE :: u32 where "FDT_BEGIN_NODE \<equiv> 1"
abbreviation (input) FDT_END_NODE :: u32 where "FDT_END_NODE \<equiv> 2"
abbreviation (input) FDT_PROP :: u32 where "FDT_PROP \<equiv> 3"
abbreviation (input) FDT_NOP :: u32 where "FDT_NOP \<equiv> 4"
abbreviation (input) FDT_END :: u32 where "FDT_END \<equiv> 9"

abbreviation (input) FDT_MAGIC :: u32 where "FDT_MAGIC \<equiv> 0xd00dfeed"
abbreviation (input) FDT_SW_MAGIC :: u32 where "FDT_SW_MAGIC \<equiv> NOT 0xd00dfeed"

definition FDT_TAGALIGN :: "u32 \<Rightarrow> u32" where
  "FDT_TAGALIGN x = (x + 3) AND NOT 3"

section \<open>Checking controls\<close>

definition FDT_ASSUME_MASK :: u32 where "FDT_ASSUME_MASK = 0xff"
definition fdt_chk_basic :: bool where "fdt_chk_basic \<longleftrightarrow> FDT_ASSUME_MASK AND 1 = 0"
definition fdt_chk_version :: bool where "fdt_chk_version \<longleftrightarrow> FDT_ASSUME_MASK AND 2 = 0"
definition fdt_chk_extra :: bool where "fdt_chk_extra \<longleftrightarrow> FDT_ASSUME_MASK AND 4 = 0"

lemma no_checks [simp]: "\<not> fdt_chk_basic" "\<not> fdt_chk_version" "\<not> fdt_chk_extra"
  by (simp_all add: fdt_chk_basic_def fdt_chk_version_def fdt_chk_extra_def FDT_ASSUME_MASK_def)

section \<open>The header\<close>

definition fdt_magic :: "mem \<Rightarrow> u64 \<Rightarrow> u32" where "fdt_magic m fdt = fdt32_ld m fdt"
definition fdt_totalsize :: "mem \<Rightarrow> u64 \<Rightarrow> u32" where "fdt_totalsize m fdt = fdt32_ld m (fdt + 4)"
definition fdt_off_dt_struct :: "mem \<Rightarrow> u64 \<Rightarrow> u32" where "fdt_off_dt_struct m fdt = fdt32_ld m (fdt + 8)"
definition fdt_off_dt_strings :: "mem \<Rightarrow> u64 \<Rightarrow> u32" where "fdt_off_dt_strings m fdt = fdt32_ld m (fdt + 12)"
definition fdt_off_mem_rsvmap :: "mem \<Rightarrow> u64 \<Rightarrow> u32" where "fdt_off_mem_rsvmap m fdt = fdt32_ld m (fdt + 16)"
definition fdt_version :: "mem \<Rightarrow> u64 \<Rightarrow> u32" where "fdt_version m fdt = fdt32_ld m (fdt + 20)"
definition fdt_last_comp_version :: "mem \<Rightarrow> u64 \<Rightarrow> u32" where "fdt_last_comp_version m fdt = fdt32_ld m (fdt + 24)"
definition fdt_boot_cpuid_phys :: "mem \<Rightarrow> u64 \<Rightarrow> u32" where "fdt_boot_cpuid_phys m fdt = fdt32_ld m (fdt + 28)"
definition fdt_size_dt_strings :: "mem \<Rightarrow> u64 \<Rightarrow> u32" where "fdt_size_dt_strings m fdt = fdt32_ld m (fdt + 32)"
definition fdt_size_dt_struct :: "mem \<Rightarrow> u64 \<Rightarrow> u32" where "fdt_size_dt_struct m fdt = fdt32_ld m (fdt + 36)"

definition fdt_set_magic :: "u64 \<Rightarrow> u32 \<Rightarrow> mem \<Rightarrow> mem" where "fdt_set_magic fdt = fdt32_st fdt"
definition fdt_set_totalsize :: "u64 \<Rightarrow> u32 \<Rightarrow> mem \<Rightarrow> mem" where "fdt_set_totalsize fdt = fdt32_st (fdt + 4)"
definition fdt_set_off_dt_struct :: "u64 \<Rightarrow> u32 \<Rightarrow> mem \<Rightarrow> mem" where "fdt_set_off_dt_struct fdt = fdt32_st (fdt + 8)"
definition fdt_set_off_dt_strings :: "u64 \<Rightarrow> u32 \<Rightarrow> mem \<Rightarrow> mem" where "fdt_set_off_dt_strings fdt = fdt32_st (fdt + 12)"
definition fdt_set_off_mem_rsvmap :: "u64 \<Rightarrow> u32 \<Rightarrow> mem \<Rightarrow> mem" where "fdt_set_off_mem_rsvmap fdt = fdt32_st (fdt + 16)"
definition fdt_set_version :: "u64 \<Rightarrow> u32 \<Rightarrow> mem \<Rightarrow> mem" where "fdt_set_version fdt = fdt32_st (fdt + 20)"
definition fdt_set_last_comp_version :: "u64 \<Rightarrow> u32 \<Rightarrow> mem \<Rightarrow> mem" where "fdt_set_last_comp_version fdt = fdt32_st (fdt + 24)"
definition fdt_set_boot_cpuid_phys :: "u64 \<Rightarrow> u32 \<Rightarrow> mem \<Rightarrow> mem" where "fdt_set_boot_cpuid_phys fdt = fdt32_st (fdt + 28)"
definition fdt_set_size_dt_strings :: "u64 \<Rightarrow> u32 \<Rightarrow> mem \<Rightarrow> mem" where "fdt_set_size_dt_strings fdt = fdt32_st (fdt + 32)"
definition fdt_set_size_dt_struct :: "u64 \<Rightarrow> u32 \<Rightarrow> mem \<Rightarrow> mem" where "fdt_set_size_dt_struct fdt = fdt32_st (fdt + 36)"

lemmas fdt_set_defs = fdt_set_magic_def fdt_set_totalsize_def fdt_set_off_dt_struct_def
  fdt_set_off_dt_strings_def fdt_set_off_mem_rsvmap_def fdt_set_version_def
  fdt_set_last_comp_version_def fdt_set_boot_cpuid_phys_def fdt_set_size_dt_strings_def
  fdt_set_size_dt_struct_def

lemmas fdt_hdr_defs = fdt_magic_def fdt_totalsize_def fdt_off_dt_struct_def
  fdt_off_dt_strings_def fdt_off_mem_rsvmap_def fdt_version_def
  fdt_last_comp_version_def fdt_boot_cpuid_phys_def fdt_size_dt_strings_def
  fdt_size_dt_struct_def

text \<open>\<open>INT32_MAX\<close> and \<open>INT_MAX\<close>.\<close>

definition fdt_ro_probe :: "mem \<Rightarrow> u64 \<Rightarrow> u32" where
  "fdt_ro_probe m fdt =
     (let totalsize = fdt_totalsize m fdt;
          ok = (if totalsize < 0x7fffffff then totalsize else - FDT_ERR_TRUNCATED)
      in if fdt_magic m fdt = FDT_MAGIC then
           (if fdt_chk_version \<and> fdt_version m fdt < 2 then - FDT_ERR_BADVERSION
            else if fdt_chk_version \<and> fdt_last_comp_version m fdt > 17 then - FDT_ERR_BADVERSION
            else ok)
         else if fdt_magic m fdt = FDT_SW_MAGIC then
           (if fdt_size_dt_struct m fdt = 0 then - FDT_ERR_BADSTATE else ok)
         else - FDT_ERR_BADMAGIC)"

definition check_off :: "u32 \<Rightarrow> u32 \<Rightarrow> u32 \<Rightarrow> bool" where
  "check_off hdrsize totalsize off \<longleftrightarrow> off \<ge> hdrsize \<and> off \<le> totalsize"

definition check_block :: "u32 \<Rightarrow> u32 \<Rightarrow> u32 \<Rightarrow> u32 \<Rightarrow> bool" where
  "check_block hdrsize totalsize base sz \<longleftrightarrow>
     check_off hdrsize totalsize base \<and> \<not> base + sz < base \<and> check_off hdrsize totalsize (base + sz)"

definition fdt_header_size_of :: "u32 \<Rightarrow> u32" where
  "fdt_header_size_of version =
     (if version \<le> 1 then 28 else if version \<le> 2 then 32 else if version \<le> 3 then 36
      else if version \<le> 16 then 36 else 40)"

definition fdt_header_size :: "mem \<Rightarrow> u64 \<Rightarrow> u32" where
  "fdt_header_size m fdt = (if fdt_chk_version then fdt_header_size_of (fdt_version m fdt) else 40)"

definition fdt_check_header :: "u64 \<Rightarrow> mem \<Rightarrow> u32" where
  "fdt_check_header fdt m =
     (let hdrsize = fdt_header_size m fdt; total = fdt_totalsize m fdt
      in if fdt_magic m fdt \<noteq> FDT_MAGIC then - FDT_ERR_BADMAGIC
         else if fdt_chk_version \<and> (fdt_version m fdt < 2 \<or> fdt_last_comp_version m fdt > 17)
         then - FDT_ERR_BADVERSION
         else if fdt_chk_version \<and> fdt_version m fdt < fdt_last_comp_version m fdt then - FDT_ERR_BADVERSION
         else if fdt_chk_basic \<and> (total < hdrsize \<or> total > 0x7fffffff) then - FDT_ERR_TRUNCATED
         else if fdt_chk_basic \<and> \<not> check_off hdrsize total (fdt_off_mem_rsvmap m fdt)
         then - FDT_ERR_TRUNCATED
         else if fdt_chk_extra \<and>
           \<not> (if fdt_chk_version \<and> fdt_version m fdt < 17
              then check_off hdrsize total (fdt_off_dt_struct m fdt)
              else check_block hdrsize total (fdt_off_dt_struct m fdt) (fdt_size_dt_struct m fdt))
         then - FDT_ERR_TRUNCATED
         else if fdt_chk_extra \<and>
           \<not> check_block hdrsize total (fdt_off_dt_strings m fdt) (fdt_size_dt_strings m fdt)
         then - FDT_ERR_TRUNCATED
         else 0)"

section \<open>The structure block\<close>

definition fdt_offset_ptr_raw :: "mem \<Rightarrow> u64 \<Rightarrow> u32 \<Rightarrow> u64" where
  "fdt_offset_ptr_raw m fdt offset = fdt + ucast (fdt_off_dt_struct m fdt) + scast offset"

definition fdt_offset_ptr :: "mem \<Rightarrow> u64 \<Rightarrow> u32 \<Rightarrow> u32 \<Rightarrow> u64" where
  "fdt_offset_ptr m fdt offset len =
     (let absoffset = offset + fdt_off_dt_struct m fdt
      in if fdt_chk_basic \<and>
           (absoffset < offset \<or> absoffset + len < absoffset \<or> absoffset + len > fdt_totalsize m fdt)
         then 0
         else if (\<not> fdt_chk_version \<or> fdt_version m fdt \<ge> 17) \<and>
           (offset + len < offset \<or> offset + len > fdt_size_dt_struct m fdt) then 0
         else fdt_offset_ptr_raw m fdt offset)"

lemma word_Suc_grows: "\<not> x + 1 < x \<Longrightarrow> unat (x + 1) = Suc (unat x)" for x :: u32
proof -
  assume "\<not> x + 1 < x"
  then have "x + 1 \<noteq> 0"
    by (metis add.commute add_0 not_gr_zero word_gt_0 zero_neq_one add_eq_0_iff)
  then show ?thesis
    by (simp add: unatSuc add.commute)
qed

text \<open>The loop over the name of a node: the last pointer and the offset after it.\<close>

function skip_name :: "mem \<Rightarrow> u64 \<Rightarrow> u32 \<Rightarrow> u64 \<times> u32" where
  "skip_name m fdt offset =
     (let p = fdt_offset_ptr m fdt offset 1
      in if p \<noteq> 0 \<and> m p \<noteq> 0 then skip_name m fdt (offset + 1) else (p, offset + 1))"
  by pat_completeness auto
termination
proof (relation "measure (\<lambda>(m, fdt, offset). unat (fdt_size_dt_struct m fdt) - unat offset)")
  fix m fdt offset and p :: u64
  assume "p = fdt_offset_ptr m fdt offset 1" "p \<noteq> 0 \<and> m p \<noteq> 0"
  then have "\<not> offset + 1 < offset" "\<not> offset + 1 > fdt_size_dt_struct m fdt"
    by (auto simp: fdt_offset_ptr_def Let_def split: if_splits)
  then show "((m, fdt, offset + 1), m, fdt, offset)
      \<in> measure (\<lambda>(m, fdt, offset). unat (fdt_size_dt_struct m fdt) - unat offset)"
    using word_Suc_grows [of offset] by (simp add: word_less_nat_alt)
qed auto

declare skip_name.simps [simp del]

text \<open>
  The tag at an offset and the offset after it; a tag that cannot be read, or is not a tag, is
  \<open>FDT_END\<close> with an error in place of the offset.
\<close>

definition fdt_next_tag :: "mem \<Rightarrow> u64 \<Rightarrow> u32 \<Rightarrow> u32 \<times> u32" where
  "fdt_next_tag m fdt startoffset =
     (let tagp = fdt_offset_ptr m fdt startoffset 4
      in if fdt_chk_basic \<and> tagp = 0 then (FDT_END, - FDT_ERR_TRUNCATED)
         else
          (let tag = fdt32_ld m tagp; offset = startoffset + 4;
               skipped =
                 (if tag = FDT_BEGIN_NODE then
                    (let (p, offset) = skip_name m fdt offset
                     in if fdt_chk_basic \<and> p = 0 then None else Some offset)
                  else if tag = FDT_PROP then
                    (let lenp = fdt_offset_ptr m fdt offset 4
                     in if fdt_chk_basic \<and> lenp = 0 then None
                        else
                         (let len = fdt32_ld m lenp; offset = offset + 8 + len
                          in Some (if fdt_chk_version \<and> fdt_version m fdt < 16 \<and> len \<ge> 8 \<and>
                                      (offset - len) mod 8 \<noteq> 0
                                   then offset + 4 else offset)))
                  else if tag = FDT_END \<or> tag = FDT_END_NODE \<or> tag = FDT_NOP then Some offset
                  else None)
           in case skipped of
                None \<Rightarrow> (FDT_END, - FDT_ERR_BADSTRUCTURE)
              | Some offset \<Rightarrow>
                  if fdt_chk_basic \<and> fdt_offset_ptr m fdt startoffset (offset - startoffset) = 0
                  then (FDT_END, - FDT_ERR_BADSTRUCTURE)
                  else (tag, FDT_TAGALIGN offset)))"

definition fdt_check_node_offset :: "mem \<Rightarrow> u64 \<Rightarrow> u32 \<Rightarrow> u32" where
  "fdt_check_node_offset m fdt offset =
     (let (tag, next_off) = fdt_next_tag m fdt offset
      in if neg offset \<or> offset mod 4 \<noteq> 0 \<or> tag \<noteq> FDT_BEGIN_NODE then - FDT_ERR_BADOFFSET
         else next_off)"

definition fdt_check_prop_offset :: "mem \<Rightarrow> u64 \<Rightarrow> u32 \<Rightarrow> u32" where
  "fdt_check_prop_offset m fdt offset =
     (let (tag, next_off) = fdt_next_tag m fdt offset
      in if neg offset \<or> offset mod 4 \<noteq> 0 \<or> tag \<noteq> FDT_PROP then - FDT_ERR_BADOFFSET
         else next_off)"

section \<open>Walking the nodes\<close>

text \<open>The loop of \<open>fdt_next_node\<close>; the result is an offset or an error, with the depth.\<close>

partial_function (option) next_node_loop ::
    "mem \<Rightarrow> u64 \<Rightarrow> u32 \<Rightarrow> int option \<Rightarrow> (u32 \<times> int option) option" where
  "next_node_loop m fdt offset depth =
     (let (tag, nextoffset) = fdt_next_tag m fdt offset
      in if tag = FDT_BEGIN_NODE then Some (offset, map_option (\<lambda>d. d + 1) depth)
         else if tag = FDT_END_NODE then
           (let depth = map_option (\<lambda>d. d - 1) depth
            in if (case depth of Some d \<Rightarrow> d < 0 | None \<Rightarrow> False) then Some (nextoffset, depth)
               else next_node_loop m fdt nextoffset depth)
         else if tag = FDT_END then
           Some (if \<not> neg nextoffset \<or> (nextoffset = - FDT_ERR_TRUNCATED \<and> depth = None)
                 then - FDT_ERR_NOTFOUND else nextoffset, depth)
         else next_node_loop m fdt nextoffset depth)"

definition fdt_next_node :: "mem \<Rightarrow> u64 \<Rightarrow> u32 \<Rightarrow> int option \<Rightarrow> (u32 \<times> int option) option" where
  "fdt_next_node m fdt offset depth =
     (if neg offset then next_node_loop m fdt 0 depth
      else (let nextoffset = fdt_check_node_offset m fdt offset
            in if neg nextoffset then Some (nextoffset, depth) else next_node_loop m fdt nextoffset depth))"

definition fdt_first_subnode :: "mem \<Rightarrow> u64 \<Rightarrow> u32 \<Rightarrow> u32 option" where
  "fdt_first_subnode m fdt offset = do {
     (offset, depth) \<leftarrow> fdt_next_node m fdt offset (Some 0);
     Some (if neg offset \<or> depth \<noteq> Some 1 then - FDT_ERR_NOTFOUND else offset)
   }"

partial_function (option) next_subnode_loop :: "mem \<Rightarrow> u64 \<Rightarrow> u32 \<Rightarrow> int option \<Rightarrow> u32 option" where
  "next_subnode_loop m fdt offset depth = do {
     (offset, depth) \<leftarrow> fdt_next_node m fdt offset depth;
     if neg offset \<or> the depth < 1 then Some (- FDT_ERR_NOTFOUND)
     else if the depth > 1 then next_subnode_loop m fdt offset depth
     else Some offset
   }"

definition fdt_next_subnode :: "mem \<Rightarrow> u64 \<Rightarrow> u32 \<Rightarrow> u32 option" where
  "fdt_next_subnode m fdt offset = next_subnode_loop m fdt offset (Some 1)"

section \<open>Strings and moving\<close>

text \<open>
  The search in the string table for a string with its NUL: the offset of the first match. The
  loop's pointers are offsets from \<open>strtab\<close>.
\<close>

definition fdt_find_string :: "mem \<Rightarrow> u64 \<Rightarrow> u32 \<Rightarrow> u8 list \<Rightarrow> nat option" where
  "fdt_find_string m strtab tabsize s =
     (let len = length s + 1
      in List.find (\<lambda>p. read_bytes m (strtab + of_nat p) len = s @ [0])
           [0..<nat (sint tabsize - int len + 1)])"

definition fdt_move :: "u64 \<Rightarrow> u64 \<Rightarrow> u32 \<Rightarrow> mem \<Rightarrow> u32 \<times> mem" where
  "fdt_move fdt buf bufsize m =
     (if fdt_chk_basic \<and> neg (fdt_ro_probe m fdt) then (fdt_ro_probe m fdt, m)
      else if fdt_totalsize m fdt > bufsize then (- FDT_ERR_NOSPACE, m)
      else (0, memmove m buf fdt (ucast (fdt_totalsize m fdt))))"

declare next_node_loop.simps [code] next_subnode_loop.simps [code]

end
