(* ===== verification/Fdt_Ro.thy ===== *)
theory Fdt_Ro
  imports Fdt
begin

text \<open>
  The read-only functions of libfdt, \<open>src/src/uboot/lib/libfdt/fdt_ro.c\<close>, and
  \<open>fdt_addresses.c\<close>. A name or path that the caller passes is the list of its bytes, with its
  length for \<open>namelen\<close>; one that is read from the blob is a pointer. A function that walks the
  blob is an option, \<open>None\<close> when it does not return. A result that is a pointer with a length is
  a sum, \<open>Inl\<close> the error code that goes to \<open>*lenp\<close>.
\<close>

abbreviation (input) slash :: u8 where "slash \<equiv> 47"
abbreviation (input) at_sign :: u8 where "at_sign \<equiv> 64"

section \<open>Strings\<close>

text \<open>The C library's \<open>strrchr\<close>, which only the branch for old versions uses.\<close>

definition strrchr :: "mem \<Rightarrow> u64 \<Rightarrow> u8 \<Rightarrow> u64 option" where
  "strrchr m s c = do {
     n \<leftarrow> strlen m s;
     let is = filter (\<lambda>i. m (s + of_nat i) = c) [0..<unat n + 1];
     Some (if is = [] then 0 else s + of_nat (last is))
   }"

definition fdt_get_name :: "mem \<Rightarrow> u64 \<Rightarrow> u32 \<Rightarrow> (u64 \<times> u32) option" where
  "fdt_get_name m fdt nodeoffset =
     (let nh = fdt_offset_ptr_raw m fdt nodeoffset; nameptr = nh + 4
      in if fdt_chk_extra \<and> neg (fdt_ro_probe m fdt) then Some (0, fdt_ro_probe m fdt)
         else if fdt_chk_extra \<and> neg (fdt_check_node_offset m fdt nodeoffset)
         then Some (0, fdt_check_node_offset m fdt nodeoffset)
         else do {
           leaf \<leftarrow> (if fdt_chk_version \<and> fdt_version m fdt < 16
                   then map_option (\<lambda>l. if l = 0 then 0 else l + 1) (strrchr m nameptr slash)
                   else Some nameptr);
           if leaf = 0 \<and> fdt_chk_version \<and> fdt_version m fdt < 16 then Some (0, - FDT_ERR_BADSTRUCTURE)
           else do {
             n \<leftarrow> strlen m leaf;
             Some (leaf, ucast n)
           }
         })"

definition fdt_nodename_eq :: "mem \<Rightarrow> u64 \<Rightarrow> u32 \<Rightarrow> u8 list \<Rightarrow> bool option" where
  "fdt_nodename_eq m fdt offset s = do {
     (p, olen) \<leftarrow> fdt_get_name m fdt offset;
     Some (if p = 0 \<or> (fdt_chk_extra \<and> sint olen < int (length s)) then False
           else if read_bytes m p (length s) \<noteq> s then False
           else m (p + of_nat (length s)) = 0 \<or>
             (at_sign \<notin> set s \<and> m (p + of_nat (length s)) = at_sign))
   }"

text \<open>\<open>fdt_get_string\<close> with the extra checks.\<close>

definition get_string_checked :: "mem \<Rightarrow> u64 \<Rightarrow> u32 \<Rightarrow> u64 \<times> u32" where
  "get_string_checked m fdt stroffset =
     (let totalsize = fdt_ro_probe m fdt; absoffset = stroffset + fdt_off_dt_strings m fdt;
          strings = fdt_size_dt_strings m fdt
      in if neg totalsize then (0, totalsize)
         else if absoffset \<ge> totalsize then (0, - FDT_ERR_BADOFFSET)
         else
          (let len = totalsize - absoffset;
               limit =
                 (if fdt_magic m fdt = FDT_MAGIC then
                    (if neg stroffset then Inl (- FDT_ERR_BADOFFSET)
                     else if \<not> fdt_chk_version \<or> fdt_version m fdt \<ge> 17 then
                       (if stroffset \<ge> strings then Inl (- FDT_ERR_BADOFFSET)
                        else Inr (min len (strings - stroffset)))
                     else Inr len)
                  else if fdt_magic m fdt = FDT_SW_MAGIC then
                    (if \<not> neg stroffset \<or> stroffset < - strings then Inl (- FDT_ERR_BADOFFSET)
                     else Inr (min len (- stroffset)))
                  else Inl (- FDT_ERR_INTERNAL))
           in case limit of
                Inl err \<Rightarrow> (0, err)
              | Inr len \<Rightarrow>
                 (let s = fdt + ucast absoffset; n = memchr m s 0 (ucast len)
                  in if n = 0 then (0, - FDT_ERR_TRUNCATED) else (s, ucast (n - s)))))"

definition string_ptr :: "mem \<Rightarrow> u64 \<Rightarrow> u32 \<Rightarrow> u64" where
  "string_ptr m fdt stroffset = fdt + ucast (fdt_off_dt_strings m fdt) + scast stroffset"

definition fdt_get_string :: "mem \<Rightarrow> u64 \<Rightarrow> u32 \<Rightarrow> (u64 \<times> u32) option" where
  "fdt_get_string m fdt stroffset =
     (if \<not> fdt_chk_extra then
        (let s = string_ptr m fdt stroffset in map_option (\<lambda>n. (s, ucast n)) (strlen m s))
      else Some (get_string_checked m fdt stroffset))"

definition fdt_string :: "mem \<Rightarrow> u64 \<Rightarrow> u32 \<Rightarrow> u64" where
  "fdt_string m fdt stroffset =
     (if \<not> fdt_chk_extra then string_ptr m fdt stroffset else fst (get_string_checked m fdt stroffset))"

definition fdt_string_eq :: "mem \<Rightarrow> u64 \<Rightarrow> u32 \<Rightarrow> u8 list \<Rightarrow> bool option" where
  "fdt_string_eq m fdt stroffset s = do {
     (p, slen) \<leftarrow> fdt_get_string m fdt stroffset;
     Some (p \<noteq> 0 \<and> sint slen = int (length s) \<and> read_bytes m p (length s) = s)
   }"

section \<open>The memory reservations\<close>

definition fdt_mem_rsv_raw :: "mem \<Rightarrow> u64 \<Rightarrow> u32 \<Rightarrow> u64" where
  "fdt_mem_rsv_raw m fdt n = fdt + ucast (fdt_off_mem_rsvmap m fdt) + 16 * scast n"

definition fdt_mem_rsv :: "mem \<Rightarrow> u64 \<Rightarrow> u32 \<Rightarrow> u64" where
  "fdt_mem_rsv m fdt n =
     (let absoffset = fdt_off_mem_rsvmap m fdt + n * 16
      in if fdt_chk_extra \<and> absoffset < fdt_off_mem_rsvmap m fdt then 0
         else if fdt_chk_extra \<and> (scast absoffset :: u64) > ucast (fdt_totalsize m fdt) - 16 then 0
         else fdt_mem_rsv_raw m fdt n)"

definition fdt_get_mem_rsv :: "mem \<Rightarrow> u64 \<Rightarrow> u32 \<Rightarrow> u32 + u64 \<times> u64" where
  "fdt_get_mem_rsv m fdt n =
     (if fdt_chk_basic \<and> neg (fdt_ro_probe m fdt) then Inl (fdt_ro_probe m fdt)
      else (let re = fdt_mem_rsv m fdt n
            in if fdt_chk_extra \<and> re = 0 then Inl (- FDT_ERR_BADOFFSET)
               else Inr (fdt64_ld m re, fdt64_ld m (re + 8))))"

partial_function (option) num_mem_rsv_loop :: "mem \<Rightarrow> u64 \<Rightarrow> u32 \<Rightarrow> u32 option" where
  "num_mem_rsv_loop m fdt i =
     (let re = fdt_mem_rsv m fdt i
      in if re = 0 then Some (- FDT_ERR_TRUNCATED)
         else if fdt64_ld m (re + 8) = 0 then Some i
         else num_mem_rsv_loop m fdt (i + 1))"

definition fdt_num_mem_rsv :: "mem \<Rightarrow> u64 \<Rightarrow> u32 option" where
  "fdt_num_mem_rsv m fdt = num_mem_rsv_loop m fdt 0"

section \<open>Properties\<close>

partial_function (option) nextprop :: "mem \<Rightarrow> u64 \<Rightarrow> u32 \<Rightarrow> u32 option" where
  "nextprop m fdt offset =
     (let (tag, nextoffset) = fdt_next_tag m fdt offset
      in if tag = FDT_END then Some (if \<not> neg nextoffset then - FDT_ERR_BADSTRUCTURE else nextoffset)
         else if tag = FDT_PROP then Some offset
         else if tag = FDT_NOP then nextprop m fdt nextoffset
         else Some (- FDT_ERR_NOTFOUND))"

definition fdt_first_property_offset :: "mem \<Rightarrow> u64 \<Rightarrow> u32 \<Rightarrow> u32 option" where
  "fdt_first_property_offset m fdt nodeoffset =
     (let offset = fdt_check_node_offset m fdt nodeoffset
      in if neg offset then Some offset else nextprop m fdt offset)"

definition fdt_next_property_offset :: "mem \<Rightarrow> u64 \<Rightarrow> u32 \<Rightarrow> u32 option" where
  "fdt_next_property_offset m fdt offset =
     (let offset = fdt_check_prop_offset m fdt offset
      in if neg offset then Some offset else nextprop m fdt offset)"

text \<open>The pointer to the property, or 0, and what goes to \<open>*lenp\<close>.\<close>

definition get_property_by_offset :: "mem \<Rightarrow> u64 \<Rightarrow> u32 \<Rightarrow> u64 \<times> u32" where
  "get_property_by_offset m fdt offset =
     (if fdt_chk_basic \<and> neg (fdt_check_prop_offset m fdt offset)
      then (0, fdt_check_prop_offset m fdt offset)
      else (let prop = fdt_offset_ptr_raw m fdt offset in (prop, fdt32_ld m (prop + 4))))"

definition fdt_get_property_by_offset :: "mem \<Rightarrow> u64 \<Rightarrow> u32 \<Rightarrow> u64 \<times> u32" where
  "fdt_get_property_by_offset m fdt offset =
     (if fdt_chk_version \<and> fdt_version m fdt < 16 then (0, - FDT_ERR_BADVERSION)
      else get_property_by_offset m fdt offset)"

text \<open>The property, its length and its offset.\<close>

partial_function (option) property_loop ::
    "mem \<Rightarrow> u64 \<Rightarrow> u32 \<Rightarrow> u8 list \<Rightarrow> (u32 + u64 \<times> u32 \<times> u32) option" where
  "property_loop m fdt offset name =
     (if neg offset then Some (Inl offset)
      else
       (let (prop, len) = get_property_by_offset m fdt offset
        in if fdt_chk_extra \<and> prop = 0 then Some (Inl (- FDT_ERR_INTERNAL))
           else do {
             eq \<leftarrow> fdt_string_eq m fdt (fdt32_ld m (prop + 8)) name;
             if eq then Some (Inr (prop, len, offset))
             else do {
               offset \<leftarrow> fdt_next_property_offset m fdt offset;
               property_loop m fdt offset name
             }
           }))"

definition get_property_namelen ::
    "mem \<Rightarrow> u64 \<Rightarrow> u32 \<Rightarrow> u8 list \<Rightarrow> (u32 + u64 \<times> u32 \<times> u32) option" where
  "get_property_namelen m fdt offset name = do {
     offset \<leftarrow> fdt_first_property_offset m fdt offset;
     property_loop m fdt offset name
   }"

definition fdt_get_property_namelen ::
    "mem \<Rightarrow> u64 \<Rightarrow> u32 \<Rightarrow> u8 list \<Rightarrow> (u32 + u64 \<times> u32) option" where
  "fdt_get_property_namelen m fdt offset name =
     (if fdt_chk_version \<and> fdt_version m fdt < 16 then Some (Inl (- FDT_ERR_BADVERSION))
      else map_option (map_sum id (\<lambda>(prop, len, _). (prop, len))) (get_property_namelen m fdt offset name))"

definition fdt_get_property :: "mem \<Rightarrow> u64 \<Rightarrow> u32 \<Rightarrow> string \<Rightarrow> (u32 + u64 \<times> u32) option" where
  "fdt_get_property m fdt nodeoffset name = fdt_get_property_namelen m fdt nodeoffset (bytes name)"

text \<open>The value of a property found at \<open>poffset\<close>: its address, realigned in old versions.\<close>

definition prop_data :: "mem \<Rightarrow> u64 \<Rightarrow> u64 \<Rightarrow> u32 \<Rightarrow> u64" where
  "prop_data m fdt prop poffset =
     (if fdt_chk_version \<and> fdt_version m fdt < 16 \<and> (ucast poffset + 12 :: u64) mod 8 \<noteq> 0 \<and>
         fdt32_ld m (prop + 4) \<ge> 8
      then prop + 12 + 4 else prop + 12)"

definition fdt_getprop_namelen ::
    "mem \<Rightarrow> u64 \<Rightarrow> u32 \<Rightarrow> u8 list \<Rightarrow> (u32 + u64 \<times> u32) option" where
  "fdt_getprop_namelen m fdt nodeoffset name =
     map_option (map_sum id (\<lambda>(prop, len, poffset). (prop_data m fdt prop poffset, len)))
       (get_property_namelen m fdt nodeoffset name)"

definition fdt_getprop :: "mem \<Rightarrow> u64 \<Rightarrow> u32 \<Rightarrow> string \<Rightarrow> (u32 + u64 \<times> u32) option" where
  "fdt_getprop m fdt nodeoffset name = fdt_getprop_namelen m fdt nodeoffset (bytes name)"

text \<open>The name (a pointer), the value and its length of the property at an offset.\<close>

definition fdt_getprop_by_offset :: "mem \<Rightarrow> u64 \<Rightarrow> u32 \<Rightarrow> (u32 + u64 \<times> u64 \<times> u32) option" where
  "fdt_getprop_by_offset m fdt offset =
     (let (prop, len) = get_property_by_offset m fdt offset; nameoff = fdt32_ld m (prop + 8)
      in if prop = 0 then Some (Inl len)
         else if fdt_chk_extra then do {
           (name, namelen) \<leftarrow> fdt_get_string m fdt nameoff;
           Some (if name = 0 then Inl namelen else Inr (name, prop_data m fdt prop offset, len))
         }
         else Some (Inr (fdt_string m fdt nameoff, prop_data m fdt prop offset, len)))"

section \<open>Finding nodes\<close>

partial_function (option) subnode_loop ::
    "mem \<Rightarrow> u64 \<Rightarrow> u32 \<Rightarrow> int \<Rightarrow> u8 list \<Rightarrow> u32 option" where
  "subnode_loop m fdt offset depth name =
     (if neg offset \<or> depth < 0 then Some (if depth < 0 then - FDT_ERR_NOTFOUND else offset)
      else do {
        found \<leftarrow> (if depth = 1 then fdt_nodename_eq m fdt offset name else Some False);
        if found then Some offset
        else do {
          (offset, depth) \<leftarrow> fdt_next_node m fdt offset (Some depth);
          subnode_loop m fdt offset (the depth) name
        }
      })"

definition fdt_subnode_offset_namelen :: "mem \<Rightarrow> u64 \<Rightarrow> u32 \<Rightarrow> u8 list \<Rightarrow> u32 option" where
  "fdt_subnode_offset_namelen m fdt offset name =
     (if fdt_chk_basic \<and> neg (fdt_ro_probe m fdt) then Some (fdt_ro_probe m fdt)
      else subnode_loop m fdt offset 0 name)"

definition fdt_subnode_offset :: "mem \<Rightarrow> u64 \<Rightarrow> u32 \<Rightarrow> string \<Rightarrow> u32 option" where
  "fdt_subnode_offset m fdt parentoffset name =
     fdt_subnode_offset_namelen m fdt parentoffset (bytes name)"

text \<open>The loop over the components of a path, from a node.\<close>

function path_walk :: "mem \<Rightarrow> u64 \<Rightarrow> u8 list \<Rightarrow> u32 \<Rightarrow> u32 option" where
  "path_walk m fdt path offset =
     (let p = dropWhile (\<lambda>c. c = slash) path
      in if p = [] then Some offset
         else do {
           offset \<leftarrow> fdt_subnode_offset_namelen m fdt offset (takeWhile (\<lambda>c. c \<noteq> slash) p);
           if neg offset then Some offset
           else path_walk m fdt (dropWhile (\<lambda>c. c \<noteq> slash) p) offset
         })"
  by pat_completeness auto
termination
proof (relation "measure (\<lambda>(m, fdt, path, offset). length path)")
  fix m fdt path offset p x2
  assume p: "p = dropWhile (\<lambda>c. c = slash) (path :: u8 list)" "p \<noteq> []"
  then have "hd p \<noteq> slash"
    using hd_dropWhile [of "\<lambda>c. c = slash" path] by simp
  then have "length (dropWhile (\<lambda>c. c \<noteq> slash) p) < length p"
    using p(2) by (cases p) (auto simp: length_dropWhile_le less_Suc_eq_le)
  also have "\<dots> \<le> length path"
    by (simp add: p(1) length_dropWhile_le)
  finally show "((m, fdt, dropWhile (\<lambda>c. c \<noteq> slash) p, x2), m, fdt, path, offset)
      \<in> measure (\<lambda>(m, fdt, path, offset). length path)"
    by simp
qed simp

declare path_walk.simps [simp del]

text \<open>
  A pointer to the path that an alias stands for, or 0. The path of the aliases begins with a
  slash, so that only the loop of \<open>fdt_path_offset\<close> is involved.
\<close>

definition fdt_get_alias_namelen :: "mem \<Rightarrow> u64 \<Rightarrow> u8 list \<Rightarrow> u64 option" where
  "fdt_get_alias_namelen m fdt name = do {
     aliasoffset \<leftarrow> (if fdt_chk_basic \<and> neg (fdt_ro_probe m fdt) then Some (fdt_ro_probe m fdt)
                    else path_walk m fdt (bytes ''/aliases'') 0);
     if neg aliasoffset then Some 0
     else map_option (case_sum (\<lambda>_. 0) fst) (fdt_getprop_namelen m fdt aliasoffset name)
   }"

definition fdt_get_alias :: "mem \<Rightarrow> u64 \<Rightarrow> string \<Rightarrow> u64 option" where
  "fdt_get_alias m fdt name = fdt_get_alias_namelen m fdt (bytes name)"

partial_function (option) fdt_path_offset_namelen :: "mem \<Rightarrow> u64 \<Rightarrow> u8 list \<Rightarrow> u32 option" where
  "fdt_path_offset_namelen m fdt path =
     (if fdt_chk_basic \<and> neg (fdt_ro_probe m fdt) then Some (fdt_ro_probe m fdt)
      else if take 1 path \<noteq> [slash] then do {
        p \<leftarrow> fdt_get_alias_namelen m fdt (takeWhile (\<lambda>c. c \<noteq> slash) path);
        if p = 0 then Some (- FDT_ERR_BADPATH)
        else do {
          n \<leftarrow> strlen m p;
          offset \<leftarrow> fdt_path_offset_namelen m fdt (read_bytes m p (unat n));
          path_walk m fdt (dropWhile (\<lambda>c. c \<noteq> slash) path) offset
        }
      }
      else path_walk m fdt path 0)"

definition fdt_path_offset :: "mem \<Rightarrow> u64 \<Rightarrow> string \<Rightarrow> u32 option" where
  "fdt_path_offset m fdt path = fdt_path_offset_namelen m fdt (bytes path)"

text \<open>A path that is a string in memory.\<close>

definition fdt_path_offset_at :: "mem \<Rightarrow> u64 \<Rightarrow> u64 \<Rightarrow> u32 option" where
  "fdt_path_offset_at m fdt p = do {
     n \<leftarrow> strlen m p;
     fdt_path_offset_namelen m fdt (read_bytes m p (unat n))
   }"

declare num_mem_rsv_loop.simps [code] nextprop.simps [code] property_loop.simps [code]
  subnode_loop.simps [code] fdt_path_offset_namelen.simps [code]

end
