(* ===== verification/Fdt_Rw.thy ===== *)
theory Fdt_Rw
  imports Fdt_Ro
begin

text \<open>
  The functions of libfdt that edit a tree, \<open>scripts/dtc/libfdt/fdt_rw.c\<close> under \<open>src/src/uboot\<close>:
  each gives the result code (or the offset that the code returns in it) and the memory after it,
  \<open>None\<close> when a walk over the blob does not return. The value of a property is the list of bytes
  that the caller passes.
\<close>

section \<open>Checks\<close>

definition fdt_blocks_misordered :: "mem \<Rightarrow> u64 \<Rightarrow> u32 \<Rightarrow> u32 \<Rightarrow> bool" where
  "fdt_blocks_misordered m fdt mem_rsv_size struct_size \<longleftrightarrow>
     fdt_chk_basic \<and>
     (fdt_off_mem_rsvmap m fdt < 40 \<or>
      fdt_off_dt_struct m fdt < fdt_off_mem_rsvmap m fdt + mem_rsv_size \<or>
      fdt_off_dt_strings m fdt < fdt_off_dt_struct m fdt + struct_size \<or>
      fdt_totalsize m fdt < fdt_off_dt_strings m fdt + fdt_size_dt_strings m fdt)"

definition fdt_rw_probe :: "u64 \<Rightarrow> mem \<Rightarrow> u32 \<times> mem" where
  "fdt_rw_probe fdt m =
     (if \<not> fdt_chk_basic then (0, m)
      else if neg (fdt_ro_probe m fdt) then (fdt_ro_probe m fdt, m)
      else if fdt_chk_version \<and> fdt_version m fdt < 17 then (- FDT_ERR_BADVERSION, m)
      else if fdt_blocks_misordered m fdt 16 (fdt_size_dt_struct m fdt) then (- FDT_ERR_BADLAYOUT, m)
      else (0, if fdt_chk_version \<and> fdt_version m fdt > 17 then fdt_set_version fdt 17 m else m))"

text \<open>\<open>FDT_RW_PROBE\<close>: what follows runs when the probe gives 0.\<close>

definition rw_probed :: "u64 \<Rightarrow> mem \<Rightarrow> (mem \<Rightarrow> (u32 \<times> mem) option) \<Rightarrow> (u32 \<times> mem) option" where
  "rw_probed fdt m f =
     (if fdt_chk_extra then (let (err, m) = fdt_rw_probe fdt m in if err \<noteq> 0 then Some (err, m) else f m)
      else f m)"

lemma rw_probed_unchecked [simp]: "rw_probed fdt m f = f m"
  by (simp add: rw_probed_def)

section \<open>Splicing\<close>

definition fdt_data_size :: "mem \<Rightarrow> u64 \<Rightarrow> u32" where
  "fdt_data_size m fdt = fdt_off_dt_strings m fdt + fdt_size_dt_strings m fdt"

definition fdt_splice :: "u64 \<Rightarrow> u64 \<Rightarrow> u32 \<Rightarrow> u32 \<Rightarrow> mem \<Rightarrow> u32 \<times> mem" where
  "fdt_splice fdt p oldlen newlen m =
     (let data_end = fdt + scast (fdt_data_size m fdt); old = scast oldlen; new = scast newlen
      in if p + old < p \<or> p + old > data_end then (- FDT_ERR_BADOFFSET, m)
         else if p < fdt \<or> data_end - old + new < fdt then (- FDT_ERR_BADOFFSET, m)
         else if data_end - old + new > fdt + ucast (fdt_totalsize m fdt) then (- FDT_ERR_NOSPACE, m)
         else (0, memmove m (p + new) (p + old) (data_end - p - old)))"

definition fdt_splice_mem_rsv :: "u64 \<Rightarrow> u64 \<Rightarrow> u32 \<Rightarrow> u32 \<Rightarrow> mem \<Rightarrow> u32 \<times> mem" where
  "fdt_splice_mem_rsv fdt p oldn newn m =
     (let delta = (newn - oldn) * 16; (err, m) = fdt_splice fdt p (oldn * 16) (newn * 16) m
      in if err \<noteq> 0 then (err, m)
         else (let m = fdt_set_off_dt_struct fdt (fdt_off_dt_struct m fdt + delta) m;
                   m = fdt_set_off_dt_strings fdt (fdt_off_dt_strings m fdt + delta) m
               in (0, m)))"

definition fdt_splice_struct :: "u64 \<Rightarrow> u64 \<Rightarrow> u32 \<Rightarrow> u32 \<Rightarrow> mem \<Rightarrow> u32 \<times> mem" where
  "fdt_splice_struct fdt p oldlen newlen m =
     (let delta = newlen - oldlen; (err, m) = fdt_splice fdt p oldlen newlen m
      in if err \<noteq> 0 then (err, m)
         else (let m = fdt_set_size_dt_struct fdt (fdt_size_dt_struct m fdt + delta) m;
                   m = fdt_set_off_dt_strings fdt (fdt_off_dt_strings m fdt + delta) m
               in (0, m)))"

definition fdt_del_last_string :: "u64 \<Rightarrow> u8 list \<Rightarrow> mem \<Rightarrow> mem" where
  "fdt_del_last_string fdt s m =
     fdt_set_size_dt_strings fdt (fdt_size_dt_strings m fdt - of_nat (length s + 1)) m"

definition fdt_splice_string :: "u64 \<Rightarrow> u32 \<Rightarrow> mem \<Rightarrow> u32 \<times> mem" where
  "fdt_splice_string fdt newlen m =
     (let p = fdt + ucast (fdt_off_dt_strings m fdt) + ucast (fdt_size_dt_strings m fdt);
          (err, m) = fdt_splice fdt p 0 newlen m
      in if err \<noteq> 0 then (err, m)
         else (0, fdt_set_size_dt_strings fdt (fdt_size_dt_strings m fdt + newlen) m))"

text \<open>The offset of the string, whether it was allocated, the memory.\<close>

definition fdt_find_add_string :: "u64 \<Rightarrow> u8 list \<Rightarrow> mem \<Rightarrow> u32 \<times> bool \<times> mem" where
  "fdt_find_add_string fdt s m =
     (let strtab = fdt + ucast (fdt_off_dt_strings m fdt); tabsize = fdt_size_dt_strings m fdt
      in case fdt_find_string m strtab tabsize s of
           Some p \<Rightarrow> (of_nat p, False, m)
         | None \<Rightarrow>
             (let new = strtab + ucast tabsize;
                  (err, m) = fdt_splice_string fdt (of_nat (length s + 1)) m
              in if err \<noteq> 0 then (err, False, m)
                 else (ucast (new - strtab), fdt_chk_basic, mem_write m new (s @ [0]))))"

section \<open>Memory reservations\<close>

definition fdt_add_mem_rsv :: "u64 \<Rightarrow> u64 \<Rightarrow> u64 \<Rightarrow> mem \<Rightarrow> (u32 \<times> mem) option" where
  "fdt_add_mem_rsv fdt address sz m =
     rw_probed fdt m (\<lambda>m. do {
       n \<leftarrow> fdt_num_mem_rsv m fdt;
       let re = fdt_mem_rsv_raw m fdt n;
       let (err, m) = fdt_splice_mem_rsv fdt re 0 1 m;
       Some (if err \<noteq> 0 then (err, m) else (0, fdt64_st (re + 8) sz (fdt64_st re address m)))
     })"

definition fdt_del_mem_rsv :: "u64 \<Rightarrow> u32 \<Rightarrow> mem \<Rightarrow> (u32 \<times> mem) option" where
  "fdt_del_mem_rsv fdt n m =
     (let re = fdt_mem_rsv_raw m fdt n
      in rw_probed fdt m (\<lambda>m. do {
           total \<leftarrow> fdt_num_mem_rsv m fdt;
           Some (if sint n \<ge> sint total then (- FDT_ERR_NOTFOUND, m) else fdt_splice_mem_rsv fdt re 1 0 m)
         }))"

section \<open>Properties\<close>

text \<open>
  \<open>fdt_resize_property_\<close> and \<open>fdt_add_property_\<close> also give the property: the result is an error or
  its address, and the memory.
\<close>

definition fdt_resize_property ::
    "u64 \<Rightarrow> u32 \<Rightarrow> u8 list \<Rightarrow> u32 \<Rightarrow> mem \<Rightarrow> ((u32 + u64) \<times> mem) option" where
  "fdt_resize_property fdt nodeoffset name len m = do {
     found \<leftarrow> fdt_get_property_namelen m fdt nodeoffset name;
     Some (case found of
         Inl oldlen \<Rightarrow> (Inl oldlen, m)
       | Inr (prop, oldlen) \<Rightarrow>
           (let (err, m) = fdt_splice_struct fdt (prop + 12) (FDT_TAGALIGN oldlen) (FDT_TAGALIGN len) m
            in if err \<noteq> 0 then (Inl err, m) else (Inr prop, fdt32_st (prop + 4) len m)))
   }"

definition fdt_add_property :: "u64 \<Rightarrow> u32 \<Rightarrow> u8 list \<Rightarrow> u32 \<Rightarrow> mem \<Rightarrow> (u32 + u64) \<times> mem" where
  "fdt_add_property fdt nodeoffset name len m =
     (let nextoffset = fdt_check_node_offset m fdt nodeoffset
      in if neg nextoffset then (Inl nextoffset, m)
         else (let (namestroff, allocated, m) = fdt_find_add_string fdt name m
      in if neg namestroff then (Inl namestroff, m)
         else (let prop = fdt_offset_ptr_raw m fdt nextoffset; proplen = 12 + FDT_TAGALIGN len;
                   (err, m) = fdt_splice_struct fdt prop 0 proplen m
      in if err \<noteq> 0 then (Inl err, if fdt_chk_basic \<and> allocated then fdt_del_last_string fdt name m else m)
         else (Inr prop, fdt32_st (prop + 4) len (fdt32_st (prop + 8) namestroff (fdt32_st prop FDT_PROP m))))))"

definition fdt_setprop_placeholder ::
    "u64 \<Rightarrow> u32 \<Rightarrow> u8 list \<Rightarrow> u32 \<Rightarrow> mem \<Rightarrow> ((u32 + u64) \<times> mem) option" where
  "fdt_setprop_placeholder fdt nodeoffset name len m = do {
     (r, m) \<leftarrow> (if fdt_chk_extra \<and> fst (fdt_rw_probe fdt m) \<noteq> 0
               then Some (Inl (fst (fdt_rw_probe fdt m)), snd (fdt_rw_probe fdt m))
               else do {
                 let m = (if fdt_chk_extra then snd (fdt_rw_probe fdt m) else m);
                 (r, m) \<leftarrow> fdt_resize_property fdt nodeoffset name len m;
                 Some (if r = Inl (- FDT_ERR_NOTFOUND) then fdt_add_property fdt nodeoffset name len m
                       else (r, m))
               });
     Some (map_sum id (\<lambda>prop. prop + 12) r, m)
   }"

definition fdt_setprop :: "u64 \<Rightarrow> u32 \<Rightarrow> string \<Rightarrow> u8 list \<Rightarrow> mem \<Rightarrow> (u32 \<times> mem) option" where
  "fdt_setprop fdt nodeoffset name val m = do {
     (r, m) \<leftarrow> fdt_setprop_placeholder fdt nodeoffset (bytes name) (of_nat (length val)) m;
     Some (case r of Inl err \<Rightarrow> (err, m) | Inr p \<Rightarrow> (0, mem_write m p val))
   }"

definition fdt_setprop_u32 :: "u64 \<Rightarrow> u32 \<Rightarrow> string \<Rightarrow> u32 \<Rightarrow> mem \<Rightarrow> (u32 \<times> mem) option" where
  "fdt_setprop_u32 fdt nodeoffset name val = fdt_setprop fdt nodeoffset name (be32_bytes val)"

definition fdt_setprop_u64 :: "u64 \<Rightarrow> u32 \<Rightarrow> string \<Rightarrow> u64 \<Rightarrow> mem \<Rightarrow> (u32 \<times> mem) option" where
  "fdt_setprop_u64 fdt nodeoffset name val = fdt_setprop fdt nodeoffset name (be64_bytes val)"

definition fdt_appendprop :: "u64 \<Rightarrow> u32 \<Rightarrow> string \<Rightarrow> u8 list \<Rightarrow> mem \<Rightarrow> (u32 \<times> mem) option" where
  "fdt_appendprop fdt nodeoffset name val m =
     rw_probed fdt m (\<lambda>m. do {
       found \<leftarrow> fdt_get_property m fdt nodeoffset name;
       Some (case found of
           Inr (prop, oldlen) \<Rightarrow>
             (let newlen = of_nat (length val) + oldlen;
                  (err, m) = fdt_splice_struct fdt (prop + 12) (FDT_TAGALIGN oldlen) (FDT_TAGALIGN newlen) m
              in if err \<noteq> 0 then (err, m)
                 else (0, mem_write (fdt32_st (prop + 4) newlen m) (prop + 12 + scast oldlen) val))
         | Inl _ \<Rightarrow>
             (let (r, m) = fdt_add_property fdt nodeoffset (bytes name) (of_nat (length val)) m
              in case r of Inl err \<Rightarrow> (err, m) | Inr prop \<Rightarrow> (0, mem_write m (prop + 12) val)))
     })"

definition fdt_delprop :: "u64 \<Rightarrow> u32 \<Rightarrow> string \<Rightarrow> mem \<Rightarrow> (u32 \<times> mem) option" where
  "fdt_delprop fdt nodeoffset name m =
     rw_probed fdt m (\<lambda>m. do {
       found \<leftarrow> fdt_get_property m fdt nodeoffset name;
       Some (case found of
           Inl len \<Rightarrow> (len, m)
         | Inr (prop, len) \<Rightarrow> fdt_splice_struct fdt prop (12 + FDT_TAGALIGN len) 0 m)
     })"

section \<open>Nodes\<close>

definition fdt_set_name :: "u64 \<Rightarrow> u32 \<Rightarrow> u8 list \<Rightarrow> mem \<Rightarrow> (u32 \<times> mem) option" where
  "fdt_set_name fdt nodeoffset name m =
     rw_probed fdt m (\<lambda>m. do {
       (namep, oldlen) \<leftarrow> fdt_get_name m fdt nodeoffset;
       Some (if namep = 0 then (oldlen, m)
         else (let (err, m) = fdt_splice_struct fdt namep (FDT_TAGALIGN (oldlen + 1))
                     (FDT_TAGALIGN (of_nat (length name) + 1)) m
               in if err \<noteq> 0 then (err, m) else (0, mem_write m namep (name @ [0]))))
     })"

text \<open>The first tag after a node's properties, from an offset.\<close>

partial_function (option) skip_props :: "mem \<Rightarrow> u64 \<Rightarrow> u32 \<Rightarrow> u32 option" where
  "skip_props m fdt offset =
     (let (tag, nextoffset) = fdt_next_tag m fdt offset
      in if tag = FDT_PROP \<or> tag = FDT_NOP then skip_props m fdt nextoffset else Some offset)"

definition fdt_add_subnode_namelen :: "u64 \<Rightarrow> u32 \<Rightarrow> u8 list \<Rightarrow> mem \<Rightarrow> (u32 \<times> mem) option" where
  "fdt_add_subnode_namelen fdt parentoffset name m =
     rw_probed fdt m (\<lambda>m. do {
       offset \<leftarrow> fdt_subnode_offset_namelen m fdt parentoffset name;
       if \<not> neg offset then Some (- FDT_ERR_EXISTS, m)
       else if offset \<noteq> - FDT_ERR_NOTFOUND then Some (offset, m)
       else do {
         offset \<leftarrow> skip_props m fdt (snd (fdt_next_tag m fdt parentoffset));
         let nh = fdt_offset_ptr_raw m fdt offset;
         let namesize = FDT_TAGALIGN (of_nat (length name) + 1);
         let nodelen = 4 + namesize + 4;
         let (err, m) = fdt_splice_struct fdt nh 0 nodelen m;
         Some (if err \<noteq> 0 then (err, m)
           else (let m = fdt32_st nh FDT_BEGIN_NODE m;
                     m = memset m (nh + 4) 0 (ucast namesize);
                     m = mem_write m (nh + 4) name;
                     m = fdt32_st (nh + scast nodelen - 4) FDT_END_NODE m
                 in (offset, m)))
       }
     })"

definition fdt_add_subnode :: "u64 \<Rightarrow> u32 \<Rightarrow> string \<Rightarrow> mem \<Rightarrow> (u32 \<times> mem) option" where
  "fdt_add_subnode fdt parentoffset name = fdt_add_subnode_namelen fdt parentoffset (bytes name)"

text \<open>\<open>fdt_node_end_offset_\<close> of \<open>fdt_wip.c\<close>.\<close>

partial_function (option) node_end_loop :: "mem \<Rightarrow> u64 \<Rightarrow> u32 \<Rightarrow> int \<Rightarrow> u32 option" where
  "node_end_loop m fdt offset depth =
     (if \<not> neg offset \<and> depth \<ge> 0 then do {
        (offset, depth) \<leftarrow> fdt_next_node m fdt offset (Some depth);
        node_end_loop m fdt offset (the depth)
      }
      else Some offset)"

definition fdt_node_end_offset :: "mem \<Rightarrow> u64 \<Rightarrow> u32 \<Rightarrow> u32 option" where
  "fdt_node_end_offset m fdt offset = node_end_loop m fdt offset 0"

definition fdt_del_node :: "u64 \<Rightarrow> u32 \<Rightarrow> mem \<Rightarrow> (u32 \<times> mem) option" where
  "fdt_del_node fdt nodeoffset m =
     rw_probed fdt m (\<lambda>m. do {
       endoffset \<leftarrow> fdt_node_end_offset m fdt nodeoffset;
       Some (if neg endoffset then (endoffset, m)
         else fdt_splice_struct fdt (fdt_offset_ptr_raw m fdt nodeoffset) (endoffset - nodeoffset) 0 m)
     })"

section \<open>Whole blobs\<close>

definition fdt_packblocks :: "u64 \<Rightarrow> u64 \<Rightarrow> u32 \<Rightarrow> u32 \<Rightarrow> mem \<Rightarrow> mem" where
  "fdt_packblocks old new mem_rsv_size struct_size m =
     (let mem_rsv_off = 40; struct_off = mem_rsv_off + mem_rsv_size; strings_off = struct_off + struct_size;
          m = memmove m (new + scast mem_rsv_off) (old + ucast (fdt_off_mem_rsvmap m old)) (scast mem_rsv_size);
          m = fdt_set_off_mem_rsvmap new mem_rsv_off m;
          m = memmove m (new + scast struct_off) (old + ucast (fdt_off_dt_struct m old)) (scast struct_size);
          m = fdt_set_off_dt_struct new struct_off m;
          m = fdt_set_size_dt_struct new struct_size m;
          m = memmove m (new + scast strings_off) (old + ucast (fdt_off_dt_strings m old))
                (ucast (fdt_size_dt_strings m old));
          m = fdt_set_off_dt_strings new strings_off m
      in fdt_set_size_dt_strings new (fdt_size_dt_strings m old) m)"

text \<open>The structure block of an old version ends where the tags do.\<close>

partial_function (option) struct_size_loop :: "mem \<Rightarrow> u64 \<Rightarrow> u32 \<Rightarrow> u32 option" where
  "struct_size_loop m fdt struct_size =
     (let (tag, struct_size) = fdt_next_tag m fdt struct_size
      in if tag \<noteq> FDT_END then struct_size_loop m fdt struct_size else Some struct_size)"

definition fdt_open_into :: "u64 \<Rightarrow> u64 \<Rightarrow> u32 \<Rightarrow> mem \<Rightarrow> (u32 \<times> mem) option" where
  "fdt_open_into fdt buf bufsize m =
     (let fdtend = fdt + ucast (fdt_totalsize m fdt)
      in if fdt_chk_basic \<and> neg (fdt_ro_probe m fdt) then Some (fdt_ro_probe m fdt, m)
         else do {
           n \<leftarrow> fdt_num_mem_rsv m fdt;
           let mem_rsv_size = (n + 1) * 16;
           struct_size \<leftarrow> (if \<not> fdt_chk_version \<or> fdt_version m fdt \<ge> 17 then Some (fdt_size_dt_struct m fdt)
                          else struct_size_loop m fdt 0);
           if (fdt_chk_version \<and> fdt_version m fdt < 17) \<and> neg struct_size then Some (struct_size, m)
           else if \<not> fdt_blocks_misordered m fdt mem_rsv_size struct_size then
             (let (err, m) = fdt_move fdt buf bufsize m
              in if err \<noteq> 0 then Some (err, m)
                 else Some (0, fdt_set_totalsize buf bufsize
                        (fdt_set_size_dt_struct buf struct_size (fdt_set_version buf 17 m))))
           else
             (let newsize = 40 + mem_rsv_size + struct_size + fdt_size_dt_strings m fdt;
                  overlaps = (buf + scast newsize > fdt \<and> buf < fdtend);
                  tmp = (if overlaps then fdtend else buf)
              in if sint bufsize < sint newsize then Some (- FDT_ERR_NOSPACE, m)
                 else if overlaps \<and> tmp + scast newsize > buf + scast bufsize then Some (- FDT_ERR_NOSPACE, m)
                 else
                  (let m = fdt_packblocks fdt tmp mem_rsv_size struct_size m;
                       m = memmove m buf tmp (scast newsize);
                       m = fdt_set_magic buf FDT_MAGIC m;
                       m = fdt_set_totalsize buf bufsize m;
                       m = fdt_set_version buf 17 m;
                       m = fdt_set_last_comp_version buf 16 m;
                       m = fdt_set_boot_cpuid_phys buf (fdt_boot_cpuid_phys m fdt) m
                   in Some (0, m)))
         })"

definition fdt_pack :: "u64 \<Rightarrow> mem \<Rightarrow> (u32 \<times> mem) option" where
  "fdt_pack fdt m =
     rw_probed fdt m (\<lambda>m. do {
       n \<leftarrow> fdt_num_mem_rsv m fdt;
       let m = fdt_packblocks fdt fdt ((n + 1) * 16) (fdt_size_dt_struct m fdt) m;
       Some (0, fdt_set_totalsize fdt (fdt_data_size m fdt) m)
     })"

declare skip_props.simps [code] node_end_loop.simps [code] struct_size_loop.simps [code]

end
