(* ===== verification/Fdt_Support.thy ===== *)
theory Fdt_Support
  imports Fdt_Rw
begin

text \<open>
  U-Boot's helpers on top of libfdt, \<open>src/src/uboot/common/fdt_support.c\<close>, with the cell counts of
  \<open>fdt_addresses.c\<close>. The printed messages are left out. \<open>None\<close> is a walk over the blob that does
  not return, or an access outside a local array.
\<close>

section \<open>Reading numbers\<close>

definition fdt_cells :: "mem \<Rightarrow> u64 \<Rightarrow> u32 \<Rightarrow> string \<Rightarrow> u32 option" where
  "fdt_cells m fdt nodeoffset name = do {
     c \<leftarrow> fdt_getprop m fdt nodeoffset name;
     Some (case c of
         Inl len \<Rightarrow> len
       | Inr (c, len) \<Rightarrow>
           if len \<noteq> 4 \<or> fdt32_ld m c > 4 then - FDT_ERR_BADNCELLS else fdt32_ld m c)
   }"

definition fdt_address_cells :: "mem \<Rightarrow> u64 \<Rightarrow> u32 \<Rightarrow> u32 option" where
  "fdt_address_cells m fdt nodeoffset = do {
     val \<leftarrow> fdt_cells m fdt nodeoffset ''#address-cells'';
     Some (if val = 0 then - FDT_ERR_BADNCELLS else if val = - FDT_ERR_NOTFOUND then 2 else val)
   }"

definition fdt_size_cells :: "mem \<Rightarrow> u64 \<Rightarrow> u32 \<Rightarrow> u32 option" where
  "fdt_size_cells m fdt nodeoffset = do {
     val \<leftarrow> fdt_cells m fdt nodeoffset ''#size-cells'';
     Some (if val = - FDT_ERR_NOTFOUND then 1 else val)
   }"

text \<open>The length is compared as an \<open>unsigned long\<close>: a negative \<open>cell\<close> is a huge one.\<close>

definition fdt_getprop_u32_default_node ::
    "mem \<Rightarrow> u64 \<Rightarrow> u32 \<Rightarrow> u32 \<Rightarrow> string \<Rightarrow> u32 \<Rightarrow> u32 option" where
  "fdt_getprop_u32_default_node m fdt off cell prop dflt = do {
     r \<leftarrow> fdt_getprop m fdt off prop;
     Some (case r of
         Inl _ \<Rightarrow> dflt
       | Inr (val, len) \<Rightarrow> if (scast len :: u64) < scast (cell + 1) * 4 then dflt else fdt32_ld m val)
   }"

definition fdt_getprop_u32_default :: "mem \<Rightarrow> u64 \<Rightarrow> string \<Rightarrow> string \<Rightarrow> u32 \<Rightarrow> u32 option" where
  "fdt_getprop_u32_default m fdt path prop dflt = do {
     off \<leftarrow> fdt_path_offset m fdt path;
     if neg off then Some dflt else fdt_getprop_u32_default_node m fdt off 0 prop dflt
   }"

section \<open>Nodes and properties\<close>

text \<open>The path is a string in memory, which the callers take from the blob itself.\<close>

definition fdt_find_and_setprop :: "u64 \<Rightarrow> u64 \<Rightarrow> string \<Rightarrow> u8 list \<Rightarrow> bool \<Rightarrow> mem \<Rightarrow> (u32 \<times> mem) option" where
  "fdt_find_and_setprop fdt node prop val create m = do {
     nodeoff \<leftarrow> fdt_path_offset_at m fdt node;
     if neg nodeoff then Some (nodeoff, m)
     else do {
       found \<leftarrow> (if create then Some True else map_option (\<lambda>r. \<not> isl r) (fdt_get_property m fdt nodeoff prop));
       if \<not> found then Some (0, m) else fdt_setprop fdt nodeoff prop val m
     }
   }"

definition fdt_find_or_add_subnode :: "u64 \<Rightarrow> u32 \<Rightarrow> string \<Rightarrow> mem \<Rightarrow> (u32 \<times> mem) option" where
  "fdt_find_or_add_subnode fdt parentoffset name m = do {
     offset \<leftarrow> fdt_subnode_offset m fdt parentoffset name;
     if offset = - FDT_ERR_NOTFOUND then fdt_add_subnode fdt parentoffset name m else Some (offset, m)
   }"

definition fdt_del_node_and_alias :: "u64 \<Rightarrow> string \<Rightarrow> mem \<Rightarrow> mem option" where
  "fdt_del_node_and_alias blob alias m = do {
     off \<leftarrow> fdt_path_offset m blob alias;
     if neg off then Some m
     else do {
       (_, m) \<leftarrow> fdt_del_node blob off m;
       off \<leftarrow> fdt_path_offset m blob ''/aliases'';
       map_option snd (fdt_delprop blob off alias m)
     }
   }"

definition fdt_setprop_uxx :: "u64 \<Rightarrow> u32 \<Rightarrow> string \<Rightarrow> u64 \<Rightarrow> bool \<Rightarrow> mem \<Rightarrow> (u32 \<times> mem) option" where
  "fdt_setprop_uxx fdt nodeoffset name val is_u64 =
     (if is_u64 then fdt_setprop_u64 fdt nodeoffset name val
      else fdt_setprop_u32 fdt nodeoffset name (ucast val))"

section \<open>Memory reservations\<close>

text \<open>The loop that looks for the reservation at an address and deletes it: whether there was one.\<close>

definition find_rsv :: "mem \<Rightarrow> u64 \<Rightarrow> u64 \<Rightarrow> u32 \<Rightarrow> u32 option" where
  "find_rsv m fdt addr num =
     map_option of_nat (List.find
       (\<lambda>j. case fdt_get_mem_rsv m fdt (of_nat j) of Inl _ \<Rightarrow> False | Inr (a, _) \<Rightarrow> a = addr)
       [0..<nat (sint num)])"

definition drop_rsv :: "u64 \<Rightarrow> u64 \<Rightarrow> mem \<Rightarrow> (bool \<times> mem) option" where
  "drop_rsv fdt addr m = do {
     num \<leftarrow> fdt_num_mem_rsv m fdt;
     case find_rsv m fdt addr num of
       None \<Rightarrow> Some (False, m)
     | Some j \<Rightarrow> map_option (\<lambda>(_, m). (True, m)) (fdt_del_mem_rsv fdt j m)
   }"

definition fdt_initrd :: "u64 \<Rightarrow> u64 \<Rightarrow> u64 \<Rightarrow> mem \<Rightarrow> (u32 \<times> mem) option" where
  "fdt_initrd fdt initrd_start initrd_end m =
     (if initrd_start = initrd_end then Some (0, m)
      else do {
        (nodeoffset, m) \<leftarrow> fdt_find_or_add_subnode fdt 0 ''chosen'' m;
        if neg nodeoffset then Some (nodeoffset, m)
        else do {
          (_, m) \<leftarrow> drop_rsv fdt initrd_start m;
          (err, m) \<leftarrow> fdt_add_mem_rsv fdt initrd_start (initrd_end - initrd_start) m;
          if neg err then Some (err, m)
          else do {
            cells \<leftarrow> fdt_address_cells m fdt 0;
            let is_u64 = (cells = 2);
            (err, m) \<leftarrow> fdt_setprop_uxx fdt nodeoffset ''linux,initrd-start'' initrd_start is_u64 m;
            if neg err then Some (err, m)
            else do {
              (err, m) \<leftarrow> fdt_setprop_uxx fdt nodeoffset ''linux,initrd-end'' initrd_end is_u64 m;
              Some (if neg err then err else 0, m)
            }
          }
        }
      })"

section \<open>The memory node\<close>

text \<open>
  \<open>fdt_pack_reg\<close> writes at \<open>p\<close>, which is \<open>pos\<close> bytes into the array \<open>buf\<close>, and steps over as many
  cells as the tree says, whatever it wrote.
\<close>

definition put_cells :: "u32 \<Rightarrow> u64 \<Rightarrow> u8 list \<times> int \<Rightarrow> (u8 list \<times> int) option" where
  "put_cells cells v bp =
     (let (buf, pos) = bp; bs = (if cells = 2 then be64_bytes v else be32_bytes (ucast v))
      in if pos < 0 \<or> pos + int (length bs) > int (length buf) then None
         else Some (take (nat pos) buf @ bs @ drop (nat pos + length bs) buf, pos + 4 * sint cells))"

fun pack_regs :: "u32 \<Rightarrow> u32 \<Rightarrow> (u64 \<times> u64) list \<Rightarrow> u8 list \<times> int \<Rightarrow> (u8 list \<times> int) option" where
  "pack_regs ac sc [] bp = Some bp"
| "pack_regs ac sc ((a, s) # rs) bp = do {
     bp \<leftarrow> put_cells ac a bp;
     bp \<leftarrow> put_cells sc s bp;
     pack_regs ac sc rs bp
   }"

text \<open>The bytes of \<open>tmp\<close> that \<open>fdt_setprop\<close> takes; \<open>tmp\<close> starts with whatever is on the stack.\<close>

definition fdt_pack_reg :: "mem \<Rightarrow> u64 \<Rightarrow> u8 list \<Rightarrow> (u64 \<times> u64) list \<Rightarrow> u8 list option" where
  "fdt_pack_reg m fdt tmp regs = do {
     address_cells \<leftarrow> fdt_address_cells m fdt 0;
     size_cells \<leftarrow> fdt_size_cells m fdt 0;
     (buf, pos) \<leftarrow> pack_regs address_cells size_cells regs (tmp, 0);
     if pos < 0 \<or> pos > int (length buf) then None else Some (take (nat pos) buf)
   }"

definition MEMORY_BANKS_MAX :: nat where "MEMORY_BANKS_MAX = 4"

definition fdt_fixup_memory_banks ::
    "u64 \<Rightarrow> u8 list \<Rightarrow> (u64 \<times> u64) list \<Rightarrow> mem \<Rightarrow> (u32 \<times> mem) option" where
  "fdt_fixup_memory_banks blob tmp banks m =
     (if length banks > MEMORY_BANKS_MAX then Some (- 1, m)
      else if neg (fdt_check_header blob m) then Some (fdt_check_header blob m, m)
      else do {
        (nodeoffset, m) \<leftarrow> fdt_find_or_add_subnode blob 0 ''memory'' m;
        if neg nodeoffset then Some (nodeoffset, m)
        else do {
          (err, m) \<leftarrow> fdt_setprop blob nodeoffset ''device_type'' (bytes ''memory'' @ [0]) m;
          if neg err then Some (err, m)
          else
            (let banks = takeWhile (\<lambda>b. b \<noteq> (0, 0)) banks
             in if banks = [] then Some (0, m)
                else do {
                  val \<leftarrow> fdt_pack_reg m blob tmp banks;
                  (err, m) \<leftarrow> fdt_setprop blob nodeoffset ''reg'' val m;
                  Some (if neg err then err else 0, m)
                })
        }
      })"

definition fdt_set_usable_memory ::
    "u64 \<Rightarrow> u8 list \<Rightarrow> (u64 \<times> u64) list \<Rightarrow> mem \<Rightarrow> (u32 \<times> mem) option" where
  "fdt_set_usable_memory blob tmp areas m =
     (if length areas > 8 then Some (- 1, m)
      else if neg (fdt_check_header blob m) then Some (fdt_check_header blob m, m)
      else do {
        (nodeoffset, m) \<leftarrow> fdt_find_or_add_subnode blob 0 ''memory'' m;
        if neg nodeoffset then Some (nodeoffset, m)
        else do {
          val \<leftarrow> fdt_pack_reg m blob tmp areas;
          (err, m) \<leftarrow> fdt_setprop blob nodeoffset ''linux,usable-memory'' val m;
          Some (if neg err then err else 0, m)
        }
      })"

definition fdt_fixup_memory :: "u64 \<Rightarrow> u8 list \<Rightarrow> u64 \<Rightarrow> u64 \<Rightarrow> mem \<Rightarrow> (u32 \<times> mem) option" where
  "fdt_fixup_memory blob tmp st sz = fdt_fixup_memory_banks blob tmp [(st, sz)]"

section \<open>The size of the blob\<close>

definition fdt_increase_size :: "u64 \<Rightarrow> u32 \<Rightarrow> mem \<Rightarrow> (u32 \<times> mem) option" where
  "fdt_increase_size fdt add_len m = fdt_open_into fdt fdt (fdt_totalsize m fdt + add_len) m"

text \<open>The pointer is narrowed to 64 bits before the alignment, the size afterwards to 32.\<close>

definition shrunk_size :: "mem \<Rightarrow> u64 \<Rightarrow> u32 \<Rightarrow> u32" where
  "shrunk_size m blob extrasize =
     (let actualsize = fdt_off_dt_strings m blob + fdt_size_dt_strings m blob + 5 * 16 + extrasize;
          actualsize = ucast ((ucast actualsize + (blob AND 0xfff) + 0xfff) AND NOT 0xfff) :: u32
      in ucast (ucast actualsize - (blob AND 0xfff)))"

definition fdt_shrink_to_minimum :: "u64 \<Rightarrow> u32 \<Rightarrow> mem \<Rightarrow> (u32 \<times> mem) option" where
  "fdt_shrink_to_minimum blob extrasize m =
     (if blob = 0 then Some (0, m)
      else do {
        (fdt_memrsv, m) \<leftarrow> drop_rsv blob blob m;
        let actualsize = shrunk_size m blob extrasize;
        let m = fdt_set_totalsize blob actualsize m;
        if fdt_memrsv then do {
          (ret, m) \<leftarrow> fdt_add_mem_rsv blob blob (ucast actualsize) m;
          Some (if neg ret then ret else actualsize, m)
        }
        else Some (actualsize, m)
      })"

section \<open>Handles\<close>

definition fdt_get_phandle :: "mem \<Rightarrow> u64 \<Rightarrow> u32 \<Rightarrow> u32 option" where
  "fdt_get_phandle m fdt nodeoffset = do {
     php \<leftarrow> fdt_getprop m fdt nodeoffset ''phandle'';
     case php of
       Inr (p, len) \<Rightarrow>
         if len = 4 then Some (fdt32_ld m p)
         else do {
           php \<leftarrow> fdt_getprop m fdt nodeoffset ''linux,phandle'';
           Some (case php of Inl _ \<Rightarrow> 0 | Inr (p, len) \<Rightarrow> if len = 4 then fdt32_ld m p else 0)
         }
     | Inl _ \<Rightarrow> do {
         php \<leftarrow> fdt_getprop m fdt nodeoffset ''linux,phandle'';
         Some (case php of Inl _ \<Rightarrow> 0 | Inr (p, len) \<Rightarrow> if len = 4 then fdt32_ld m p else 0)
       }
   }"

partial_function (option) max_phandle_loop :: "mem \<Rightarrow> u64 \<Rightarrow> u32 \<Rightarrow> u32 \<Rightarrow> u32 option" where
  "max_phandle_loop m blob offset phandle =
     (if neg offset then Some phandle
      else do {
        h \<leftarrow> fdt_get_phandle m blob offset;
        (offset, _) \<leftarrow> fdt_next_node m blob offset None;
        max_phandle_loop m blob offset (max phandle h)
      })"

definition fdt_alloc_phandle :: "mem \<Rightarrow> u64 \<Rightarrow> u32 option" where
  "fdt_alloc_phandle m blob = do {
     (offset, _) \<leftarrow> fdt_next_node m blob (- 1) None;
     phandle \<leftarrow> max_phandle_loop m blob offset 0;
     Some (phandle + 1)
   }"

definition fdt_set_phandle :: "u64 \<Rightarrow> u32 \<Rightarrow> u32 \<Rightarrow> mem \<Rightarrow> (u32 \<times> mem) option" where
  "fdt_set_phandle fdt nodeoffset phandle m = do {
     (ret, m) \<leftarrow> fdt_setprop_u32 fdt nodeoffset ''phandle'' phandle m;
     if neg ret then Some (ret, m) else fdt_setprop_u32 fdt nodeoffset ''linux,phandle'' phandle m
   }"

definition fdt_create_phandle :: "u64 \<Rightarrow> u32 \<Rightarrow> mem \<Rightarrow> (u32 \<times> mem) option" where
  "fdt_create_phandle fdt nodeoffset m = do {
     phandle \<leftarrow> fdt_get_phandle m fdt nodeoffset;
     if phandle \<noteq> 0 then Some (phandle, m)
     else do {
       phandle \<leftarrow> fdt_alloc_phandle m fdt;
       (ret, m) \<leftarrow> fdt_set_phandle fdt nodeoffset phandle m;
       Some (if neg ret then 0 else phandle, m)
     }
   }"

declare max_phandle_loop.simps [code]

end
