(* ===== verification/Fdt_Blob.thy ===== *)
theory Fdt_Blob
  imports Fdt
begin

text \<open>
  What a flattened device tree in memory is, in two steps. A \<open>blob\<close> is the header's values and the
  contents of the three blocks; \<open>blob_at\<close> says that memory holds it, in the order that the
  read-write functions ask for (memory reservations, structure, strings). The structure block is
  the encoding of a list of tokens, \<open>toks_enc\<close>: names are resolved through the string table
  and the padding is left open. \<open>fdt_next_tag\<close> reads that list token by token.
\<close>

section \<open>Small numbers as words\<close>

lemma unat_u32: "n < 2 ^ 32 \<Longrightarrow> unat (of_nat n :: u32) = n"
  by (simp add: unat_of_nat)

lemma of_nat_u32_less: "a < 2 ^ 32 \<Longrightarrow> b < 2 ^ 32 \<Longrightarrow> (of_nat a :: u32) < of_nat b \<longleftrightarrow> a < b"
  by (simp add: word_less_nat_alt unat_u32 del: unat_of_nat)

lemma of_nat_u32_le: "a < 2 ^ 32 \<Longrightarrow> b < 2 ^ 32 \<Longrightarrow> (of_nat a :: u32) \<le> of_nat b \<longleftrightarrow> a \<le> b"
  by (simp add: word_le_nat_alt unat_u32 del: unat_of_nat)

lemma of_nat_u32_eq: "a < 2 ^ 32 \<Longrightarrow> b < 2 ^ 32 \<Longrightarrow> (of_nat a :: u32) = of_nat b \<longleftrightarrow> a = b"
  by (metis unat_u32)

lemma ucast_u32: "n < 2 ^ 32 \<Longrightarrow> (ucast (of_nat n :: u32) :: u64) = of_nat n"
  by (simp add: word_unat_eq_iff unat_ucast_widen unat_u32 unat_of_nat)

lemma sint_u32: "n < 2 ^ 31 \<Longrightarrow> sint (of_nat n :: u32) = int n"
  by (simp add: signed_of_nat signed_take_bit_int_eq_self)

lemma scast_u32: "n < 2 ^ 31 \<Longrightarrow> (scast (of_nat n :: u32) :: u64) = of_nat n"
  by (simp add: scast_eq sint_u32 del: of_nat_unat signed_of_nat)

lemma neg_u32 [simp]: "n < 2 ^ 31 \<Longrightarrow> \<not> neg (of_nat n)"
  by (simp add: neg_def sint_u32)

lemma neg_minus [simp]:
  "\<not> neg 0" "\<not> neg 1" "neg (- 1)" "neg (- 2)" "neg (- 3)" "neg (- 4)" "neg (- 5)" "neg (- 14)"
  by (simp_all add: neg_def)

lemma word_mod_4: "n < 2 ^ 32 \<Longrightarrow> (of_nat n :: u32) mod 4 = of_nat (n mod 4)"
  by (simp add: word_unat_eq_iff unat_mod unat_u32 del: unat_of_nat)

definition pad4 :: "nat \<Rightarrow> nat" where
  "pad4 n = (4 - n mod 4) mod 4"

lemma pad4_less: "pad4 n < 4"
  by (simp add: pad4_def)

lemma align4_nat: "(n + 3) div 4 * 4 = n + pad4 n"
proof -
  obtain q r where n: "n = 4 * q + r" "r < 4"
    using mod_less_divisor [of 4 n] by (metis mult_div_mod_eq zero_less_numeral)
  then consider "r = 0" | "r = 1" | "r = 2" | "r = 3"
    by linarith
  moreover have "(4 * q + r) mod 4 = r"
    using n(2) by simp
  ultimately show ?thesis
    unfolding pad4_def n(1) by cases simp_all
qed

lemma pad4_mod [simp]: "(n + pad4 n) mod 4 = 0"
  by (simp flip: align4_nat)

lemma and_not_mask: "x AND NOT (mask k) = push_bit k (drop_bit k x)" for x :: u32
  by (rule bit_word_eqI) (auto simp: bit_simps)

lemma TAGALIGN_of_nat: "n < 2 ^ 32 - 3 \<Longrightarrow> FDT_TAGALIGN (of_nat n) = of_nat (n + pad4 n)"
proof -
  assume n: "n < 2 ^ 32 - 3"
  have m: "(3 :: u32) = mask 2"
    by (simp add: mask_eq_exp_minus_1)
  define x where "x = (of_nat (n + 3) :: u32)"
  have "x AND NOT 3 = push_bit 2 (drop_bit 2 x)"
    unfolding m by (rule and_not_mask)
  moreover have "unat x = n + 3"
    unfolding x_def using n by (intro unat_u32) simp
  ultimately have "unat (x AND NOT 3) = (n + 3) div 4 * 4"
    using n by (simp add: push_bit_eq_mult drop_bit_eq_div unat_word_ariths unat_div)
  then have "x AND NOT 3 = of_nat (n + pad4 n)"
    by (metis align4_nat of_nat_unat ucast_id)
  then show ?thesis
    by (simp add: FDT_TAGALIGN_def x_def)
qed

lemma pad4_shift: "k mod 4 = 0 \<Longrightarrow> pad4 (k + n) = pad4 n"
  by (simp add: pad4_def mod_add_left_eq [symmetric])

section \<open>Bytes of memory relative to the blob\<close>

lemma mem_bytes_nth: "mem_bytes m a xs \<Longrightarrow> i < length xs \<Longrightarrow> m (a + of_nat i) = xs ! i"
  by (simp add: mem_bytes_def)

lemma mem_bytes_moved:
  "mem_bytes m a xs \<Longrightarrow> (\<And>i. i < length xs \<Longrightarrow> m' (a' + of_nat i) = m (a + of_nat i)) \<Longrightarrow>
    mem_bytes m' a' xs"
  by (simp add: mem_bytes_def)

lemma fdt32_ld_bytes: "mem_bytes m a (be32_bytes v) \<Longrightarrow> fdt32_ld m a = v"
  using read_bytes_mem_bytes [of m a "be32_bytes v"] by (simp add: fdt32_ld_def)

section \<open>Blobs\<close>

record blob =
  b_total :: nat
  b_roff :: nat
  b_rsv :: "(u64 \<times> u64) list"
  b_soff :: nat
  b_struct :: "u8 list"
  b_toff :: nat
  b_strs :: "u8 list"
  b_lcv :: u32
  b_cpu :: u32

definition fdt_header :: "blob \<Rightarrow> u8 list" where
  "fdt_header B = concat (map be32_bytes
     [FDT_MAGIC, of_nat (b_total B), of_nat (b_soff B), of_nat (b_toff B), of_nat (b_roff B), 17,
      b_lcv B, b_cpu B, of_nat (length (b_strs B)), of_nat (length (b_struct B))])"

definition rsvmap :: "(u64 \<times> u64) list \<Rightarrow> u8 list" where
  "rsvmap rs = concat (map (\<lambda>(a, s). be64_bytes a @ be64_bytes s) rs)"

definition blob_ok :: "u64 \<Rightarrow> blob \<Rightarrow> bool" where
  "blob_ok fdt B \<longleftrightarrow>
     unat fdt + 2 ^ 32 \<le> 2 ^ 64 \<and> b_total B < 2 ^ 31 - 1 \<and> b_lcv B \<le> 17 \<and>
     40 \<le> b_roff B \<and> b_roff B + 16 * (length (b_rsv B) + 1) \<le> b_soff B \<and>
     b_soff B + length (b_struct B) \<le> b_toff B \<and> b_toff B + length (b_strs B) \<le> b_total B \<and>
     (\<forall>(a, s) \<in> set (b_rsv B). s \<noteq> 0)"

definition blob_at :: "mem \<Rightarrow> u64 \<Rightarrow> blob \<Rightarrow> bool" where
  "blob_at m fdt B \<longleftrightarrow>
     blob_ok fdt B \<and> mem_bytes m fdt (fdt_header B) \<and>
     mem_bytes m (fdt + of_nat (b_roff B)) (rsvmap (b_rsv B @ [(0, 0)])) \<and>
     mem_bytes m (fdt + of_nat (b_soff B)) (b_struct B) \<and>
     mem_bytes m (fdt + of_nat (b_toff B)) (b_strs B)"

lemma length_fdt_header [simp]: "length (fdt_header B) = 40"
  by (simp add: fdt_header_def)

lemma length_be64_bytes [simp]: "length (be64_bytes v) = 8"
  by (simp add: be64_bytes_def)

lemma length_rsvmap [simp]: "length (rsvmap rs) = 16 * length rs"
  by (induction rs) (auto simp: rsvmap_def)

lemma header_fields:
  assumes "mem_bytes m fdt (fdt_header B)"
  shows "fdt_magic m fdt = FDT_MAGIC" "fdt_totalsize m fdt = of_nat (b_total B)"
    "fdt_off_dt_struct m fdt = of_nat (b_soff B)" "fdt_off_dt_strings m fdt = of_nat (b_toff B)"
    "fdt_off_mem_rsvmap m fdt = of_nat (b_roff B)" "fdt_version m fdt = 17"
    "fdt_last_comp_version m fdt = b_lcv B" "fdt_boot_cpuid_phys m fdt = b_cpu B"
    "fdt_size_dt_strings m fdt = of_nat (length (b_strs B))"
    "fdt_size_dt_struct m fdt = of_nat (length (b_struct B))"
  using assms by (simp_all add: fdt_header_def fdt_hdr_defs fdt32_ld_bytes add.assoc)

lemma blob_header_bytes: "blob_at m fdt B \<Longrightarrow> mem_bytes m fdt (fdt_header B)"
  by (simp add: blob_at_def)

lemmas blob_header = header_fields [OF blob_header_bytes]

lemma blob_bounds:
  assumes "blob_at m fdt B"
  shows "unat fdt + 2 ^ 32 \<le> 2 ^ 64" "b_total B < 2 ^ 31 - 1" "b_lcv B \<le> 17" "40 \<le> b_roff B"
    "b_roff B + 16 * length (b_rsv B) + 16 \<le> b_soff B"
    "b_soff B + length (b_struct B) \<le> b_toff B" "b_toff B + length (b_strs B) \<le> b_total B"
  using assms by (auto simp: blob_at_def blob_ok_def)

lemma blob_ro_probe:
  assumes "blob_at m fdt B"
  shows "fdt_ro_probe m fdt = of_nat (b_total B)"
proof -
  have "(of_nat (b_total B) :: u32) < of_nat 0x7fffffff"
    using blob_bounds(2) [OF assms] by (subst of_nat_u32_less) simp_all
  then show ?thesis
    using blob_bounds(3) [OF assms] by (simp add: fdt_ro_probe_def blob_header [OF assms] Let_def leD)
qed

lemma blob_ro_probe_pos: "blob_at m fdt B \<Longrightarrow> \<not> neg (fdt_ro_probe m fdt)"
  using blob_ro_probe [of m fdt B] blob_bounds(2) [of m fdt B] by simp

section \<open>Pointers into the structure block\<close>

lemma struct_byte:
  "blob_at m fdt B \<Longrightarrow> o' < length (b_struct B) \<Longrightarrow> m (fdt + of_nat (b_soff B + o')) = b_struct B ! o'"
  using mem_bytes_nth [of m "fdt + of_nat (b_soff B)" "b_struct B" o'] by (simp add: blob_at_def add.assoc)

lemma struct_bytes:
  assumes "blob_at m fdt B" "b_struct B = pre @ xs @ post"
  shows "mem_bytes m (fdt + of_nat (b_soff B + length pre)) xs"
  using assms by (simp add: blob_at_def add.assoc)

lemma offset_ptr_raw:
  assumes "blob_at m fdt B" "k \<le> length (b_struct B)"
  shows "fdt_offset_ptr_raw m fdt (of_nat k) = fdt + of_nat (b_soff B + k)"
  using blob_bounds [OF assms(1)] assms(2)
  by (simp add: fdt_offset_ptr_raw_def blob_header [OF assms(1)] ucast_u32 scast_u32 add.assoc)

lemma offset_ptr:
  assumes B: "blob_at m fdt B" and k: "k \<le> length (b_struct B)" and n: "n < 2 ^ 31"
  shows "fdt_offset_ptr m fdt (of_nat k) (of_nat n) =
    (if k + n \<le> length (b_struct B) then fdt + of_nat (b_soff B + k) else 0)"
proof -
  note b = blob_bounds [OF B] and h = blob_header [OF B]
  have "(of_nat (k + n) :: u32) < of_nat k \<longleftrightarrow> k + n < k"
    using b k n by (intro of_nat_u32_less) auto
  moreover have "(of_nat (length (b_struct B)) :: u32) < of_nat (k + n) \<longleftrightarrow> length (b_struct B) < k + n"
    using b k n by (intro of_nat_u32_less) auto
  moreover note offset_ptr_raw [OF B k]
  ultimately show ?thesis
    using b by (auto simp: fdt_offset_ptr_def h)
qed

lemma offset_ptr_in:
  assumes "blob_at m fdt B" "k + n \<le> length (b_struct B)"
  shows "fdt_offset_ptr m fdt (of_nat k) (of_nat n) = fdt + of_nat (b_soff B + k)"
  using assms blob_bounds [OF assms(1)] offset_ptr [of m fdt B k n] by simp

lemma blob_ptr_not_null:
  assumes "blob_at m fdt B" "0 < k" "k < b_total B"
  shows "fdt + of_nat k \<noteq> 0"
proof -
  have "unat (fdt + of_nat k) = unat fdt + k"
    using assms blob_bounds(1,2) [OF assms(1)] by (simp add: unat_plus_of_nat [of _ "2 ^ 32"])
  then show ?thesis
    using assms(2) by auto
qed

section \<open>Tokens\<close>

datatype tok = TBegin "u8 list" | TProp "u8 list" "u8 list" | TEndNode | TNop | TEnd

fun tok_len :: "tok \<Rightarrow> nat" where
  "tok_len (TBegin n) = 4 + (length n + 1 + pad4 (length n + 1))"
| "tok_len (TProp nm d) = 12 + (length d + pad4 (length d))"
| "tok_len _ = 4"

fun tok_tag :: "tok \<Rightarrow> u32" where
  "tok_tag (TBegin n) = FDT_BEGIN_NODE"
| "tok_tag (TProp nm d) = FDT_PROP"
| "tok_tag TEndNode = FDT_END_NODE"
| "tok_tag TNop = FDT_NOP"
| "tok_tag TEnd = FDT_END"

text \<open>A string of the string table at an offset.\<close>

definition str_at :: "u8 list \<Rightarrow> nat \<Rightarrow> u8 list \<Rightarrow> bool" where
  "str_at S no nm \<longleftrightarrow> 0 \<notin> set nm \<and> no + length nm + 1 \<le> length S \<and> take (length nm + 1) (drop no S) = nm @ [0]"

fun tok_enc :: "u8 list \<Rightarrow> tok \<Rightarrow> u8 list \<Rightarrow> bool" where
  "tok_enc S (TBegin n) xs \<longleftrightarrow>
     0 \<notin> set n \<and> (\<exists>p. length p = pad4 (length n + 1) \<and> xs = be32_bytes FDT_BEGIN_NODE @ (n @ [0]) @ p)"
| "tok_enc S (TProp nm d) xs \<longleftrightarrow>
     (\<exists>no p. str_at S no nm \<and> length p = pad4 (length d) \<and>
        xs = be32_bytes FDT_PROP @ be32_bytes (of_nat (length d)) @ be32_bytes (of_nat no) @ d @ p)"
| "tok_enc S t xs \<longleftrightarrow> xs = be32_bytes (tok_tag t)"

fun toks_enc :: "u8 list \<Rightarrow> tok list \<Rightarrow> u8 list \<Rightarrow> bool" where
  "toks_enc S [] xs \<longleftrightarrow> xs = []"
| "toks_enc S (t # ts) xs \<longleftrightarrow> (\<exists>y z. xs = y @ z \<and> tok_enc S t y \<and> toks_enc S ts z)"

abbreviation toks_len :: "tok list \<Rightarrow> nat" where
  "toks_len ts \<equiv> sum_list (map tok_len ts)"

lemma tok_enc_length: "tok_enc S t xs \<Longrightarrow> length xs = tok_len t"
  by (cases t) auto

lemma toks_enc_length: "toks_enc S ts xs \<Longrightarrow> length xs = toks_len ts"
  by (induction ts arbitrary: xs) (auto simp: tok_enc_length)

lemma toks_enc_append:
  "toks_enc S (ts @ us) xs \<longleftrightarrow> (\<exists>y z. xs = y @ z \<and> toks_enc S ts y \<and> toks_enc S us z)"
proof (induction ts arbitrary: xs)
  case (Cons t ts)
  show ?case
  proof
    assume "toks_enc S ((t # ts) @ us) xs"
    then obtain a b c where "xs = a @ b @ c" "tok_enc S t a" "toks_enc S ts b" "toks_enc S us c"
      by (auto simp: Cons.IH)
    then show "\<exists>y z. xs = y @ z \<and> toks_enc S (t # ts) y \<and> toks_enc S us z"
      by (intro exI [of _ "a @ b"] exI [of _ c]) auto
  next
    assume "\<exists>y z. xs = y @ z \<and> toks_enc S (t # ts) y \<and> toks_enc S us z"
    then obtain a b c where "xs = a @ b @ c" "tok_enc S t a" "toks_enc S ts b" "toks_enc S us c"
      by auto
    then show "toks_enc S ((t # ts) @ us) xs"
      by (auto simp: Cons.IH)
  qed
qed simp

lemma toks_enc_appI: "toks_enc S ts x \<Longrightarrow> toks_enc S us y \<Longrightarrow> toks_enc S (ts @ us) (x @ y)"
  unfolding toks_enc_append by blast

lemma toks_encI: "toks_enc S pre x \<Longrightarrow> tok_enc S t y \<Longrightarrow> toks_enc S post z \<Longrightarrow> toks_enc S (pre @ t # post) (x @ y @ z)"
  unfolding toks_enc_append toks_enc.simps(2) by blast

lemma tok_len_mod4 [simp]: "tok_len t mod 4 = 0"
proof (cases t)
  case (TBegin n)
  have "(4 + x) mod 4 = x mod 4" for x :: nat by simp
  then show ?thesis unfolding TBegin tok_len.simps by (metis pad4_mod)
next
  case (TProp nm d)
  have "(12 + x) mod 4 = x mod 4" for x :: nat
    using mod_mult_self3 [of 3 4 x] by simp
  then show ?thesis unfolding TProp tok_len.simps by (metis pad4_mod)
qed simp_all

lemma toks_len_mod4 [simp]: "toks_len ts mod 4 = 0"
proof (induction ts)
  case (Cons t ts)
  then show ?case
    using tok_len_mod4 [of t] by (simp only: mod_eq_0_iff_dvd list.map sum_list.Cons dvd_add)
qed simp

text \<open>A token in the middle of the structure block.\<close>

lemma toks_enc_split:
  assumes "toks_enc S (pre @ t # post) xs"
  obtains x y z where "xs = x @ y @ z" "length x = toks_len pre" "tok_enc S t y" "length y = tok_len t"
    "toks_enc S pre x" "toks_enc S post z"
  using assms by (auto simp: toks_enc_append dest: toks_enc_length tok_enc_length)

section \<open>Reading a token\<close>

lemma skip_name_cstr:
  assumes B: "blob_at m fdt B"
  shows "b_struct B = x @ n @ 0 # z \<Longrightarrow> 0 \<notin> set n \<Longrightarrow>
    skip_name m fdt (of_nat (length x)) =
      (fdt + of_nat (b_soff B + length x + length n), of_nat (length x + length n + 1))"
proof (induction n arbitrary: x)
  case Nil
  then have "m (fdt + of_nat (b_soff B + length x)) = 0"
    using struct_byte [OF B, of "length x"] by simp
  then show ?case
    using offset_ptr_in [OF B, of "length x" 1] Nil
    by (subst skip_name.simps) (simp add: add.commute)
next
  case (Cons c n)
  then have "m (fdt + of_nat (b_soff B + length x)) = c" "c \<noteq> 0"
    using struct_byte [OF B, of "length x"] by auto
  moreover have "fdt + of_nat (b_soff B + length x) \<noteq> 0"
    using blob_bounds [OF B] Cons.prems by (intro blob_ptr_not_null [OF B]) auto
  moreover have "skip_name m fdt (of_nat (length (x @ [c]))) =
      (fdt + of_nat (b_soff B + length (x @ [c]) + length n), of_nat (length (x @ [c]) + length n + 1))"
    using Cons by (intro Cons.IH) auto
  ultimately show ?case
    using offset_ptr_in [OF B, of "length x" 1] Cons.prems
    by (subst skip_name.simps) (simp add: ac_simps)
qed

theorem next_tag_tok:
  assumes B: "blob_at m fdt B" and T: "toks_enc (b_strs B) (pre @ t # post) (b_struct B)"
  shows "fdt_next_tag m fdt (of_nat (toks_len pre)) = (tok_tag t, of_nat (toks_len (pre @ [t])))"
proof -
  obtain x y z where s: "b_struct B = x @ y @ z" "length x = toks_len pre" "tok_enc (b_strs B) t y"
    "length y = tok_len t"
    using T by (rule toks_enc_split)
  note b = blob_bounds [OF B]
  have len: "toks_len pre + tok_len t \<le> length (b_struct B)"
    using s by simp
  have "4 \<le> tok_len t"
    by (cases t) auto
  then have p0: "fdt_offset_ptr m fdt (of_nat (toks_len pre)) 4 = fdt + of_nat (b_soff B + toks_len pre)"
    using offset_ptr_in [OF B, of "toks_len pre" 4] len by simp
  have y: "mem_bytes m (fdt + of_nat (b_soff B + toks_len pre)) y"
    using struct_bytes [OF B s(1)] s(2) by simp
  have align: "FDT_TAGALIGN (of_nat (toks_len pre + k)) = of_nat (toks_len pre + (k + pad4 k))"
    if "k \<le> tok_len t" for k
    using that len b by (subst TAGALIGN_of_nat) (simp_all add: pad4_shift add.assoc)
  show ?thesis
  proof (cases t)
    case (TBegin n)
    obtain p where p: "y = be32_bytes FDT_BEGIN_NODE @ (n @ [0]) @ p" "0 \<notin> set n"
      using s(3) TBegin by auto
    have tag: "fdt32_ld m (fdt + of_nat (b_soff B + toks_len pre)) = FDT_BEGIN_NODE"
      using y p(1) by (simp add: fdt32_ld_bytes)
    have "skip_name m fdt (of_nat (length (x @ be32_bytes FDT_BEGIN_NODE))) =
        (fdt + of_nat (b_soff B + length (x @ be32_bytes FDT_BEGIN_NODE) + length n),
         of_nat (length (x @ be32_bytes FDT_BEGIN_NODE) + length n + 1))"
      by (rule skip_name_cstr [OF B _ p(2)]) (simp add: s(1) p(1))
    then have "snd (skip_name m fdt (of_nat (toks_len pre) + 4)) = of_nat (toks_len pre + (5 + length n))"
      by (simp add: s(2) ac_simps)
    moreover have "pad4 (5 + length n) = pad4 (length n + 1)"
      using pad4_shift [of 4 "length n + 1"] by simp
    ultimately show ?thesis
      using align [of "5 + length n"] tag
      by (simp add: fdt_next_tag_def p0 TBegin Let_def case_prod_beta ac_simps)
  next
    case (TProp nm d)
    obtain no p where p: "y = be32_bytes FDT_PROP @ be32_bytes (of_nat (length d)) @ be32_bytes (of_nat no) @ d @ p"
      using s(3) TProp by auto
    have tag: "fdt32_ld m (fdt + of_nat (b_soff B + toks_len pre)) = FDT_PROP"
      "fdt32_ld m (fdt + of_nat (b_soff B + (toks_len pre + 4))) = of_nat (length d)"
      using y p(1) by (simp_all add: fdt32_ld_bytes add.assoc)
    have "fdt_offset_ptr m fdt (of_nat (toks_len pre + 4)) (of_nat 4) =
        fdt + of_nat (b_soff B + (toks_len pre + 4))"
      using len TProp by (intro offset_ptr_in [OF B]) simp
    then have lenp: "fdt_offset_ptr m fdt (of_nat (toks_len pre) + 4) 4 =
        fdt + of_nat (b_soff B + (toks_len pre + 4))"
      by simp
    have "pad4 (12 + length d) = pad4 (length d)"
      using pad4_shift [of 12 "length d"] by simp
    then show ?thesis
      using align [of "12 + length d"] tag lenp
      by (simp add: fdt_next_tag_def p0 TProp Let_def ac_simps)
  qed (use s(3) y align [of 4] in
      \<open>simp_all add: fdt_next_tag_def p0 Let_def fdt32_ld_bytes pad4_def\<close>)
qed

end
