(* ===== verification/Fdt_Tree.thy ===== *)
theory Fdt_Tree
  imports Fdt_Ro Fdt_Blob
begin

text \<open>
  Device trees as trees: \<open>flat\<close> lists the tokens of a tree, \<open>tree_at\<close> says that the blob in memory
  is that tree. The lookups of \<open>fdt_ro.c\<close> are the lookups in the tree: a node is found by its
  name with or without the unit address, a property by its name, in the order of the blob.
\<close>

datatype dtree = DNode (dt_name: "u8 list") (dt_props: "(u8 list \<times> u8 list) list") (dt_kids: "dtree list")

abbreviation prop_toks :: "(u8 list \<times> u8 list) list \<Rightarrow> tok list" where
  "prop_toks ps \<equiv> map (\<lambda>(nm, d). TProp nm d) ps"

primrec flat :: "dtree \<Rightarrow> tok list" where
  "flat (DNode n ps ks) = TBegin n # prop_toks ps @ concat (map flat ks) @ [TEndNode]"

definition tree_at :: "mem \<Rightarrow> u64 \<Rightarrow> blob \<Rightarrow> dtree \<Rightarrow> bool" where
  "tree_at m fdt B t \<longleftrightarrow> blob_at m fdt B \<and> toks_enc (b_strs B) (flat t @ [TEnd]) (b_struct B)"

text \<open>The structure block as a list of tokens, with a position in it.\<close>

definition toks_at :: "mem \<Rightarrow> u64 \<Rightarrow> blob \<Rightarrow> tok list \<Rightarrow> bool" where
  "toks_at m fdt B ts \<longleftrightarrow> blob_at m fdt B \<and> toks_enc (b_strs B) ts (b_struct B)"

abbreviation pos :: "tok list \<Rightarrow> u32" where
  "pos ts \<equiv> of_nat (toks_len ts)"

lemma toks_at_bound:
  assumes "toks_at m fdt B (pre @ post)"
  shows "toks_len pre + toks_len post = length (b_struct B)" "toks_len pre < 2 ^ 31 - 50"
  using assms blob_bounds [of m fdt B] toks_enc_length [of "b_strs B" "pre @ post" "b_struct B"]
  by (auto simp: toks_at_def)

lemma toks_at_pos [simp]:
  assumes "toks_at m fdt B (pre @ post)"
  shows "\<not> neg (pos pre)"
  using toks_at_bound(2) [OF assms] by simp

lemma next_tag_at:
  "toks_at m fdt B (pre @ t # post) \<Longrightarrow> fdt_next_tag m fdt (pos pre) = (tok_tag t, pos (pre @ [t]))"
  unfolding toks_at_def by (blast intro: next_tag_tok)

lemma toks_at_assoc: "toks_at m fdt B (pre @ t # post) \<Longrightarrow> toks_at m fdt B ((pre @ [t]) @ post)"
  by simp

lemma check_node_at:
  assumes "toks_at m fdt B (pre @ TBegin n # post)"
  shows "fdt_check_node_offset m fdt (pos pre) = pos (pre @ [TBegin n])"
  using toks_at_bound [OF assms] next_tag_at [OF assms] toks_at_pos [OF assms]
  by (simp add: fdt_check_node_offset_def word_mod_4)

lemma check_prop_at:
  assumes "toks_at m fdt B (pre @ TProp nm d # post)"
  shows "fdt_check_prop_offset m fdt (pos pre) = pos (pre @ [TProp nm d])"
  using toks_at_bound [OF assms] next_tag_at [OF assms] toks_at_pos [OF assms]
  by (simp add: fdt_check_prop_offset_def word_mod_4)

section \<open>The names of nodes\<close>

definition node_named :: "u8 list \<Rightarrow> u8 list \<Rightarrow> bool" where
  "node_named s n \<longleftrightarrow> n = s \<or> (at_sign \<notin> set s \<and> (\<exists>r. n = s @ at_sign # r))"

lemma tok_bytes_at:
  assumes "toks_at m fdt B (pre @ t # post)"
  obtains y where "tok_enc (b_strs B) t y" "mem_bytes m (fdt + of_nat (b_soff B + toks_len pre)) y"
proof -
  obtain x y z where s: "b_struct B = x @ y @ z" "length x = toks_len pre" "tok_enc (b_strs B) t y"
    using assms unfolding toks_at_def by (auto elim: toks_enc_split)
  then show thesis
    using assms struct_bytes [of m fdt B x y z] that by (auto simp: toks_at_def)
qed

lemma ptr_at:
  assumes "toks_at m fdt B (pre @ post)"
  shows "fdt_offset_ptr_raw m fdt (pos pre) = fdt + of_nat (b_soff B + toks_len pre)"
  using assms toks_at_bound(1) [OF assms] by (intro offset_ptr_raw) (auto simp: toks_at_def)

lemma node_cstr:
  assumes "toks_at m fdt B (pre @ TBegin n # post)"
  shows "cstr m (fdt_offset_ptr_raw m fdt (pos pre) + 4) n"
proof -
  obtain y where y: "tok_enc (b_strs B) (TBegin n) y" "mem_bytes m (fdt + of_nat (b_soff B + toks_len pre)) y"
    using assms by (rule tok_bytes_at)
  then show ?thesis
    unfolding ptr_at [OF assms] by (auto simp: cstr_def)
qed

lemma get_name_at:
  assumes "toks_at m fdt B (pre @ TBegin n # post)"
  shows "fdt_get_name m fdt (pos pre) = Some (fdt_offset_ptr_raw m fdt (pos pre) + 4, of_nat (length n))"
proof -
  have "length n < 2 ^ 32"
    using toks_at_bound [OF assms] assms blob_bounds [of m fdt B] by (auto simp: toks_at_def)
  then show ?thesis
    by (simp add: fdt_get_name_def Let_def strlen_cstr [OF node_cstr [OF assms]] unsigned_of_nat
        word_unat_eq_iff unat_u32 take_bit_nat_eq_self del: unat_of_nat)
qed

lemma read_bytes_prefix:
  assumes "cstr m p n" "0 \<notin> set s"
  shows "read_bytes m p (length s) = s \<longleftrightarrow> take (length s) n = s"
  using assms
proof (induction s arbitrary: p n)
  case Nil
  then show ?case by (simp add: read_bytes_def)
next
  case (Cons c s)
  then show ?case by (cases n) (auto simp: read_bytes_Suc)
qed

lemma cstr_nth: "cstr m p n \<Longrightarrow> i \<le> length n \<Longrightarrow> m (p + of_nat i) = (if i < length n then n ! i else 0)"
  by (auto simp: cstr_def mem_bytes_def nth_append dest!: spec [of _ i])

lemma nodename_eq_at:
  assumes T: "toks_at m fdt B (pre @ TBegin n # post)" and s: "0 \<notin> set s"
  shows "fdt_nodename_eq m fdt (pos pre) s = Some (node_named s n)"
proof -
  let ?p = "fdt_offset_ptr_raw m fdt (pos pre) + 4"
  have c: "cstr m ?p n" by (rule node_cstr [OF T])
  have "?p = fdt + of_nat (b_soff B + toks_len pre + 4)"
    using ptr_at [OF T] by simp
  moreover have "fdt + of_nat (b_soff B + toks_len pre + 4) \<noteq> 0"
    using T toks_at_bound [OF T] blob_bounds [of m fdt B]
    by (intro blob_ptr_not_null [of m fdt B]) (auto simp: toks_at_def)
  ultimately have nn: "?p \<noteq> 0" by (simp add: add.assoc)
  have "m (?p + of_nat (length s)) = (if length s < length n then n ! length s else 0)"
    if "take (length s) n = s"
    using that by (intro cstr_nth [OF c]) (metis length_take min.cobounded1)
  moreover have "take (length s) n = s \<and> length s < length n \<and> n ! length s = at_sign \<longleftrightarrow>
      (\<exists>r. n = s @ at_sign # r)"
    by (metis append_eq_conv_conj append_take_drop_id Cons_nth_drop_Suc length_append list.size(4)
        less_add_Suc1 nth_append_length add_Suc_right)
  moreover have "take (length s) n = s \<and> length n \<le> length s \<longleftrightarrow> n = s"
    by auto
  moreover have "take (length s) n = s \<Longrightarrow> length s < length n \<Longrightarrow> n ! length s \<noteq> 0"
    using c by (metis cstr_def nth_mem)
  ultimately show ?thesis
    using nn by (auto simp: fdt_nodename_eq_def get_name_at [OF T] read_bytes_prefix [OF c s]
        node_named_def not_less)
qed

section \<open>Walking from token to token\<close>

text \<open>
  The loop of \<open>fdt_subnode_offset_namelen\<close> with the loop of \<open>fdt_next_node\<close> inside it, from an
  offset and a depth.
\<close>

definition find_node :: "mem \<Rightarrow> u64 \<Rightarrow> u32 \<Rightarrow> int \<Rightarrow> u8 list \<Rightarrow> u32 option" where
  "find_node m fdt offset depth s = do {
     (offset, depth) \<leftarrow> next_node_loop m fdt offset (Some depth);
     subnode_loop m fdt offset (the depth) s
   }"

lemma subnode_loop_at:
  assumes T: "toks_at m fdt B (pre @ TBegin n # post)" and s: "0 \<notin> set s" and d: "0 \<le> d"
  shows "subnode_loop m fdt (pos pre) d s =
    (if d = 1 \<and> node_named s n then Some (pos pre) else find_node m fdt (pos (pre @ [TBegin n])) d s)"
proof -
  have "fdt_next_node m fdt (pos pre) (Some d) = next_node_loop m fdt (pos (pre @ [TBegin n])) (Some d)"
    using toks_at_pos [OF T] toks_at_pos [OF toks_at_assoc [OF T]]
    by (simp add: fdt_next_node_def check_node_at [OF T] del: map_append sum_list_append)
  with d show ?thesis
    using toks_at_pos [OF T] nodename_eq_at [OF T s]
    by (subst subnode_loop.simps) (auto simp: find_node_def)
qed

lemma find_node_begin:
  assumes "toks_at m fdt B (pre @ TBegin n # post)" "0 \<notin> set s" "0 \<le> d"
  shows "find_node m fdt (pos pre) d s =
    (if d = 0 \<and> node_named s n then Some (pos pre) else find_node m fdt (pos (pre @ [TBegin n])) (d + 1) s)"
proof -
  have "find_node m fdt (pos pre) d s = subnode_loop m fdt (pos pre) (d + 1) s"
    using next_tag_at [OF assms(1)] by (simp add: find_node_def next_node_loop.simps [of m fdt "pos pre"])
  with assms show ?thesis
    by (simp add: subnode_loop_at [of m fdt B])
qed

lemma find_node_skip:
  assumes "toks_at m fdt B (pre @ t # post)" "tok_tag t \<in> {FDT_PROP, FDT_NOP}"
  shows "find_node m fdt (pos pre) d s = find_node m fdt (pos (pre @ [t])) d s"
  using next_tag_at [OF assms(1)] assms(2)
  by (auto simp: find_node_def next_node_loop.simps [of m fdt "pos pre"])

lemma find_node_end:
  assumes T: "toks_at m fdt B (pre @ TEndNode # post)"
  shows "find_node m fdt (pos pre) d s =
    (if d \<le> 0 then Some (- FDT_ERR_NOTFOUND) else find_node m fdt (pos (pre @ [TEndNode])) (d - 1) s)"
proof (cases "d \<le> 0")
  case True
  then show ?thesis
    using next_tag_at [OF T] toks_at_pos [OF toks_at_assoc [OF T]]
    by (simp add: find_node_def next_node_loop.simps [of m fdt "pos pre"] subnode_loop.simps)
next
  case False
  then show ?thesis
    using next_tag_at [OF T]
    by (simp add: find_node_def next_node_loop.simps [of m fdt "pos pre"])
qed

lemma find_node_props:
  "toks_at m fdt B (pre @ prop_toks ps @ post) \<Longrightarrow>
    find_node m fdt (pos pre) d s = find_node m fdt (pos (pre @ prop_toks ps)) d s"
proof (induction ps arbitrary: pre)
  case (Cons p ps)
  obtain nm v where p: "p = (nm, v)" by (cases p)
  have "find_node m fdt (pos pre) d s = find_node m fdt (pos (pre @ [TProp nm v])) d s"
    using Cons.prems p by (intro find_node_skip) auto
  also have "\<dots> = find_node m fdt (pos ((pre @ [TProp nm v]) @ prop_toks ps)) d s"
    using Cons.prems p by (intro Cons.IH) simp
  finally show ?case by (simp add: p add.assoc)
qed simp

text \<open>Below the children of the node, whole subtrees are passed over.\<close>

lemma find_node_below:
  assumes "0 \<notin> set s"
  shows "toks_at m fdt B (pre @ flat t @ post) \<Longrightarrow> 1 \<le> d \<Longrightarrow>
    find_node m fdt (pos pre) d s = find_node m fdt (pos (pre @ flat t)) d s"
proof (induction t arbitrary: pre post d)
  case (DNode n ps ks)
  have kids: "toks_at m fdt B (pre' @ concat (map flat ks') @ post') \<Longrightarrow>
      find_node m fdt (pos pre') (d + 1) s = find_node m fdt (pos (pre' @ concat (map flat ks'))) (d + 1) s"
    if "set ks' \<subseteq> set ks" for ks' pre' post'
    using that
  proof (induction ks' arbitrary: pre')
    case (Cons k ks')
    have "find_node m fdt (pos pre') (d + 1) s = find_node m fdt (pos (pre' @ flat k)) (d + 1) s"
      using Cons.prems DNode.prems(2)
      by (intro DNode.IH [of k pre' "concat (map flat ks') @ post'"]) auto
    also have "\<dots> = find_node m fdt (pos ((pre' @ flat k) @ concat (map flat ks'))) (d + 1) s"
      using Cons.prems by (intro Cons.IH) auto
    finally show ?case by (simp add: add.assoc)
  qed simp
  let ?a = "pre @ [TBegin n]" and ?b = "pre @ [TBegin n] @ prop_toks ps"
  let ?c = "?b @ concat (map flat ks)"
  have T: "toks_at m fdt B (pre @ TBegin n # prop_toks ps @ concat (map flat ks) @ [TEndNode] @ post)"
    using DNode.prems(1) by simp
  have "find_node m fdt (pos pre) d s = find_node m fdt (pos ?a) (d + 1) s"
    using DNode.prems(2) by (subst find_node_begin [OF T assms]) auto
  also have "\<dots> = find_node m fdt (pos ?b) (d + 1) s"
    using find_node_props [of m fdt B ?a ps "concat (map flat ks) @ [TEndNode] @ post"] T by simp
  also have "\<dots> = find_node m fdt (pos ?c) (d + 1) s"
    using kids [of ks ?b "[TEndNode] @ post"] T by simp
  also have "\<dots> = find_node m fdt (pos (?c @ [TEndNode])) d s"
    using find_node_end [of m fdt B ?c post] T DNode.prems(2) by simp
  finally show ?case by (simp add: add.assoc)
qed

lemma find_node_child:
  assumes T: "toks_at m fdt B (pre @ flat t @ post)" and s: "0 \<notin> set s"
  shows "find_node m fdt (pos pre) 0 s =
    (if node_named s (dt_name t) then Some (pos pre) else find_node m fdt (pos (pre @ flat t)) 0 s)"
proof -
  obtain n ps ks where t: "t = DNode n ps ks" by (cases t)
  let ?a = "pre @ [TBegin n]" and ?b = "pre @ [TBegin n] @ prop_toks ps"
  have kids: "toks_at m fdt B (pre' @ concat (map flat ks') @ post') \<Longrightarrow>
      find_node m fdt (pos pre') 1 s = find_node m fdt (pos (pre' @ concat (map flat ks'))) 1 s"
    for ks' pre' post'
  proof (induction ks' arbitrary: pre')
    case (Cons k ks')
    then show ?case
      using find_node_below [OF s, of m fdt B pre' k "concat (map flat ks') @ post'" 1]
        Cons.IH [of "pre' @ flat k"] by (simp add: add.assoc)
  qed simp
  have U: "toks_at m fdt B (pre @ TBegin n # prop_toks ps @ concat (map flat ks) @ [TEndNode] @ post)"
    using T by (simp add: t)
  have "find_node m fdt (pos ?a) 1 s = find_node m fdt (pos ?b) 1 s"
    using find_node_props [of m fdt B ?a ps "concat (map flat ks) @ [TEndNode] @ post"] U by simp
  also have "\<dots> = find_node m fdt (pos (?b @ concat (map flat ks))) 1 s"
    using kids [of ?b ks "[TEndNode] @ post"] U by simp
  also have "\<dots> = find_node m fdt (pos (?b @ concat (map flat ks) @ [TEndNode])) 0 s"
    using find_node_end [of m fdt B "?b @ concat (map flat ks)" post] U by simp
  finally show ?thesis
    using find_node_begin [OF U s, of 0] by (simp add: t add.assoc)
qed

section \<open>Finding a child\<close>

text \<open>The children before the first one with a name.\<close>

abbreviation before :: "u8 list \<Rightarrow> dtree list \<Rightarrow> dtree list" where
  "before s ks \<equiv> takeWhile (\<lambda>k. \<not> node_named s (dt_name k)) ks"

lemma find_node_kids:
  assumes "0 \<notin> set s"
  shows "toks_at m fdt B (pre @ concat (map flat ks) @ TEndNode # post) \<Longrightarrow>
    find_node m fdt (pos pre) 0 s =
      Some (if before s ks = ks then - FDT_ERR_NOTFOUND
            else pos (pre @ concat (map flat (before s ks))))"
proof (induction ks arbitrary: pre)
  case Nil
  then show ?case
    using find_node_end [of m fdt B pre post 0 s] by simp
next
  case (Cons k ks)
  then show ?case
    using find_node_child [of m fdt B pre k "concat (map flat ks) @ TEndNode # post" s] assms
      Cons.IH [of "pre @ flat k"]
    by (auto simp: add.assoc)
qed

theorem subnode_offset_at:
  assumes T: "toks_at m fdt B (pre @ flat (DNode n ps ks) @ post)" and s: "0 \<notin> set s"
  shows "fdt_subnode_offset_namelen m fdt (pos pre) s =
    Some (if before s ks = ks then - FDT_ERR_NOTFOUND
          else pos (pre @ TBegin n # prop_toks ps @ concat (map flat (before s ks))))"
proof -
  let ?a = "pre @ [TBegin n]" and ?b = "pre @ [TBegin n] @ prop_toks ps"
  have U: "toks_at m fdt B (pre @ TBegin n # prop_toks ps @ concat (map flat ks) @ [TEndNode] @ post)"
    using T by simp
  have "subnode_loop m fdt (pos pre) 0 s = find_node m fdt (pos ?a) 0 s"
    by (subst subnode_loop_at [OF U s]) simp_all
  also have "\<dots> = find_node m fdt (pos ?b) 0 s"
    using find_node_props [of m fdt B ?a ps "concat (map flat ks) @ [TEndNode] @ post"] U by simp
  finally show ?thesis
    using find_node_kids [OF s, of m fdt B ?b ks post] U
    by (simp add: fdt_subnode_offset_namelen_def add.assoc)
qed

section \<open>Finding a property\<close>

lemma strs_cstr:
  assumes B: "blob_at m fdt B" and no: "str_at (b_strs B) no nm"
  shows "cstr m (fdt + of_nat (b_toff B + no)) nm" "0 < b_toff B + no" "b_toff B + no < b_total B"
proof -
  have "b_strs B = take no (b_strs B) @ drop no (b_strs B)" by simp
  also have "\<dots> = take no (b_strs B) @ (nm @ [0]) @ drop (length nm + 1) (drop no (b_strs B))"
    using no unfolding str_at_def by (metis append_take_drop_id)
  finally have "mem_bytes m (fdt + of_nat (b_toff B) + of_nat (length (take no (b_strs B)))) (nm @ [0])"
    using B unfolding blob_at_def by (metis mem_bytes_append)
  then show "cstr m (fdt + of_nat (b_toff B + no)) nm"
    using no by (simp add: cstr_def str_at_def add.assoc)
  show "0 < b_toff B + no" "b_toff B + no < b_total B"
    using no blob_bounds [OF B] by (auto simp: str_at_def)
qed

lemma string_eq_at:
  assumes B: "blob_at m fdt B" and no: "str_at (b_strs B) no nm" and s: "0 \<notin> set s"
  shows "fdt_string_eq m fdt (of_nat no) s = Some (nm = s)"
proof -
  note b = blob_bounds [OF B] and c = strs_cstr [OF B no]
  have small: "length nm < 2 ^ 31" "no < 2 ^ 31"
    using no b by (auto simp: str_at_def)
  have ptr: "string_ptr m fdt (of_nat no) = fdt + of_nat (b_toff B + no)"
    using b small by (simp add: string_ptr_def blob_header [OF B] ucast_u32 scast_u32 add.assoc)
  have len: "(ucast (of_nat (length nm) :: u64) :: u32) = of_nat (length nm)"
    using small by (simp add: unsigned_of_nat word_unat_eq_iff unat_u32 take_bit_nat_eq_self del: unat_of_nat)
  have "fdt + of_nat (b_toff B + no) \<noteq> 0"
    using c by (intro blob_ptr_not_null [OF B])
  then show ?thesis
    using read_bytes_prefix [OF c(1) s] small
    by (auto simp: fdt_string_eq_def fdt_get_string_def ptr strlen_cstr [OF c(1)] len sint_u32 Let_def
        simp del: of_nat_add)
qed

text \<open>A property token in memory: the length, the offset of the name, the value.\<close>

lemma prop_at:
  assumes T: "toks_at m fdt B (pre @ TProp nm d # post)"
  obtains no where "str_at (b_strs B) no nm" "fdt32_ld m (fdt_offset_ptr_raw m fdt (pos pre) + 4) = of_nat (length d)"
    "fdt32_ld m (fdt_offset_ptr_raw m fdt (pos pre) + 8) = of_nat no"
    "mem_bytes m (fdt_offset_ptr_raw m fdt (pos pre) + 12) d"
proof -
  obtain y where y: "tok_enc (b_strs B) (TProp nm d) y" "mem_bytes m (fdt_offset_ptr_raw m fdt (pos pre)) y"
    using tok_bytes_at [OF T] unfolding ptr_at [OF T] by blast
  then obtain no p where p: "str_at (b_strs B) no nm"
    "y = be32_bytes FDT_PROP @ be32_bytes (of_nat (length d)) @ be32_bytes (of_nat no) @ d @ p"
    by auto
  show thesis
    using y(2) p by (intro that [of no]) (simp_all add: fdt32_ld_bytes ac_simps)
qed

lemma nextprop_at:
  assumes "toks_at m fdt B (pre @ t # post)"
  shows "tok_tag t = FDT_PROP \<Longrightarrow> nextprop m fdt (pos pre) = Some (pos pre)"
    and "tok_tag t \<in> {FDT_BEGIN_NODE, FDT_END_NODE} \<Longrightarrow> nextprop m fdt (pos pre) = Some (- FDT_ERR_NOTFOUND)"
  using next_tag_at [OF assms] by (auto simp: nextprop.simps [of m fdt "pos pre"])

abbreviation props_before :: "u8 list \<Rightarrow> (u8 list \<times> u8 list) list \<Rightarrow> (u8 list \<times> u8 list) list" where
  "props_before s ps \<equiv> takeWhile (\<lambda>p. fst p \<noteq> s) ps"

text \<open>What \<open>fdt_get_property_namelen_\<close> finds among properties that start at \<open>pre\<close>.\<close>

definition found_prop :: "mem \<Rightarrow> u64 \<Rightarrow> tok list \<Rightarrow> (u8 list \<times> u8 list) list \<Rightarrow> u8 list \<Rightarrow> u32 + u64 \<times> u32 \<times> u32" where
  "found_prop m fdt pre ps s =
     (case map_of ps s of
        None \<Rightarrow> Inl (- FDT_ERR_NOTFOUND)
      | Some d \<Rightarrow>
         (let q = pos (pre @ prop_toks (props_before s ps))
          in Inr (fdt_offset_ptr_raw m fdt q, of_nat (length d), q)))"

lemma property_loop_at:
  assumes s: "0 \<notin> set s" and t: "tok_tag t \<in> {FDT_BEGIN_NODE, FDT_END_NODE}"
  shows "toks_at m fdt B (pre @ prop_toks ps @ t # post) \<Longrightarrow>
    do { offset \<leftarrow> nextprop m fdt (pos pre); property_loop m fdt offset s } = Some (found_prop m fdt pre ps s)"
proof (induction ps arbitrary: pre)
  case Nil
  then show ?case
    using nextprop_at(2) [of m fdt B pre t post] t
    by (simp add: property_loop.simps found_prop_def)
next
  case (Cons p ps)
  obtain nm d where p: "p = (nm, d)" by (cases p)
  have T: "toks_at m fdt B (pre @ TProp nm d # prop_toks ps @ t # post)"
    using Cons.prems p by simp
  obtain no where no: "str_at (b_strs B) no nm"
    "fdt32_ld m (fdt_offset_ptr_raw m fdt (pos pre) + 4) = of_nat (length d)"
    "fdt32_ld m (fdt_offset_ptr_raw m fdt (pos pre) + 8) = of_nat no"
    using prop_at [OF T] by blast
  have eq: "fdt_string_eq m fdt (of_nat no) s = Some (nm = s)"
    using T no(1) s unfolding toks_at_def by (intro string_eq_at) auto
  have np: "nextprop m fdt (pos pre) = Some (pos pre)"
    using nextprop_at(1) [OF T] by simp
  show ?case
  proof (cases "nm = s")
    case True
    then show ?thesis
      using np eq toks_at_pos [OF T]
      by (simp add: property_loop.simps [of m fdt "pos pre"] get_property_by_offset_def no Let_def
          found_prop_def p)
  next
    case False
    have "fdt_next_property_offset m fdt (pos pre) = nextprop m fdt (pos (pre @ [TProp nm d]))"
      using toks_at_pos [OF toks_at_assoc [OF T]]
      by (simp add: fdt_next_property_offset_def check_prop_at [OF T] Let_def del: map_append sum_list_append)
    moreover have "do { offset \<leftarrow> nextprop m fdt (pos (pre @ [TProp nm d])); property_loop m fdt offset s } =
        Some (found_prop m fdt (pre @ [TProp nm d]) ps s)"
      using T by (intro Cons.IH) simp
    ultimately show ?thesis
      using np eq toks_at_pos [OF T] False
      by (simp add: property_loop.simps [of m fdt "pos pre"] get_property_by_offset_def no Let_def
          found_prop_def p split: option.splits)
  qed
qed

lemma node_after_props:
  obtains t post where "prop_toks ps @ concat (map flat ks) @ [TEndNode] @ rest = prop_toks ps @ t # post"
    "tok_tag t \<in> {FDT_BEGIN_NODE, FDT_END_NODE}"
proof (cases ks)
  case Nil
  then show thesis by (intro that [of TEndNode rest]) auto
next
  case (Cons k ks')
  obtain n ps' ks'' where "k = DNode n ps' ks''" by (cases k)
  with Cons show thesis by (intro that [of "TBegin n"]) auto
qed

theorem get_property_at:
  assumes T: "toks_at m fdt B (pre @ flat (DNode n ps ks) @ post)" and s: "0 \<notin> set s"
  shows "get_property_namelen m fdt (pos pre) s = Some (found_prop m fdt (pre @ [TBegin n]) ps s)"
proof -
  have U: "toks_at m fdt B (pre @ TBegin n # prop_toks ps @ concat (map flat ks) @ [TEndNode] @ post)"
    using T by simp
  obtain t r where t: "prop_toks ps @ concat (map flat ks) @ [TEndNode] @ post = prop_toks ps @ t # r"
    "tok_tag t \<in> {FDT_BEGIN_NODE, FDT_END_NODE}"
    by (rule node_after_props)
  have "fdt_first_property_offset m fdt (pos pre) = nextprop m fdt (pos (pre @ [TBegin n]))"
    using toks_at_pos [OF toks_at_assoc [OF U]]
    by (simp add: fdt_first_property_offset_def check_node_at [OF U] Let_def del: map_append sum_list_append)
  moreover have "toks_at m fdt B ((pre @ [TBegin n]) @ prop_toks ps @ t # r)"
    using U unfolding t(1) by simp
  then have "do { offset \<leftarrow> nextprop m fdt (pos (pre @ [TBegin n])); property_loop m fdt offset s } =
      Some (found_prop m fdt (pre @ [TBegin n]) ps s)"
    by (rule property_loop_at [OF s t(2)])
  ultimately show ?thesis
    by (simp add: get_property_namelen_def del: map_append sum_list_append)
qed

text \<open>The value of a property, and where it is.\<close>

lemma found_prop_split:
  assumes "map_of ps s = Some d"
  obtains qs where "ps = props_before s ps @ (s, d) # qs"
proof -
  have "\<exists>qs. ps = props_before s ps @ (s, d) # qs"
    using assms by (induction ps) (auto split: if_splits)
  then show thesis using that by blast
qed

theorem getprop_at:
  assumes T: "toks_at m fdt B (pre @ flat (DNode n ps ks) @ post)" and s: "0 \<notin> set s"
  shows "map_of ps s = None \<Longrightarrow> fdt_getprop_namelen m fdt (pos pre) s = Some (Inl (- FDT_ERR_NOTFOUND))"
    and "map_of ps s = Some d \<Longrightarrow>
      \<exists>p. fdt_getprop_namelen m fdt (pos pre) s = Some (Inr (p, of_nat (length d))) \<and> mem_bytes m p d \<and> p \<noteq> 0"
proof -
  note g = get_property_at [OF T s]
  show "map_of ps s = None \<Longrightarrow> fdt_getprop_namelen m fdt (pos pre) s = Some (Inl (- FDT_ERR_NOTFOUND))"
    by (simp add: fdt_getprop_namelen_def g found_prop_def)
  assume d: "map_of ps s = Some d"
  then obtain qs where ps: "ps = props_before s ps @ (s, d) # qs"
    by (rule found_prop_split)
  let ?q = "(pre @ [TBegin n]) @ prop_toks (props_before s ps)"
  have P: "toks_at m fdt B (?q @ TProp s d # prop_toks qs @ concat (map flat ks) @ [TEndNode] @ post)"
    using T by (subst (asm) ps) simp
  then have val: "mem_bytes m (fdt_offset_ptr_raw m fdt (pos ?q) + 12) d"
    by (rule prop_at)
  have "fdt + of_nat (b_soff B + toks_len ?q + 12) \<noteq> 0"
    using P toks_at_bound [OF P] blob_bounds [of m fdt B]
    by (intro blob_ptr_not_null [of m fdt B]) (auto simp: toks_at_def)
  then have "fdt_offset_ptr_raw m fdt (pos ?q) + 12 \<noteq> 0"
    unfolding ptr_at [OF P] by (simp add: add.assoc)
  with val show "\<exists>p. fdt_getprop_namelen m fdt (pos pre) s = Some (Inr (p, of_nat (length d))) \<and> mem_bytes m p d \<and> p \<noteq> 0"
    using d by (intro exI [of _ "fdt_offset_ptr_raw m fdt (pos ?q) + 12"])
      (simp add: fdt_getprop_namelen_def g found_prop_def Let_def prop_data_def)
qed

end
