(* ===== verification/Fdt_Splice.thy ===== *)
theory Fdt_Splice
  imports Fdt_Rw Fdt_Blob
begin

text \<open>
  What the splices of \<open>fdt_rw.c\<close> do to a blob: the block grows or shrinks at the place, what comes
  after it moves, nothing outside of the blob changes; or there is no space and nothing changes.
\<close>

section \<open>Addresses relative to the blob\<close>

lemma unat_ptr: "unat fdt + 2 ^ 32 \<le> 2 ^ 64 \<Longrightarrow> k < 2 ^ 32 \<Longrightarrow> unat (fdt + of_nat k) = unat fdt + k"
  for fdt :: u64
  by (rule unat_plus_of_nat [of _ "2 ^ 32"]) simp_all

lemma ptr_le:
  fixes fdt :: u64
  assumes "unat fdt + 2 ^ 32 \<le> 2 ^ 64" "j < 2 ^ 32" "k < 2 ^ 32"
  shows "fdt + of_nat j \<le> fdt + of_nat k \<longleftrightarrow> j \<le> k" "fdt + of_nat j < fdt + of_nat k \<longleftrightarrow> j < k"
    "fdt + of_nat j = fdt + of_nat k \<longleftrightarrow> j = k"
  using unat_ptr [OF assms(1,2)] unat_ptr [OF assms(1,3)]
  by (simp_all add: word_le_nat_alt word_less_nat_alt word_unat_eq_iff)

lemma ptr_diff:
  fixes fdt :: u64
  assumes "j \<le> k" "k < 2 ^ 32"
  shows "unat (fdt + of_nat k - (fdt + of_nat j)) = k - j"
  using assms by (simp add: unat_of_nat flip: of_nat_diff)

lemma ptr_diff_wrap:
  fixes fdt :: u64
  assumes "k < j" "j \<le> 2 ^ 32"
  shows "2 ^ 63 \<le> unat (fdt + of_nat k - (fdt + of_nat j))"
proof -
  have "unat (of_nat k - of_nat j :: u64) = 2 ^ 64 + k - j"
    using assms by (auto simp: unat_sub_if' unat_of_nat)
  then show ?thesis
    using assms by simp
qed

lemma write_at:
  fixes fdt :: u64
  assumes "j + length bs \<le> 2 ^ 32" "k < 2 ^ 32"
  shows "mem_write m (fdt + of_nat j) bs (fdt + of_nat k) =
    (if j \<le> k \<and> k < j + length bs then bs ! (k - j) else m (fdt + of_nat k))"
proof (cases "j \<le> k")
  case True
  then show ?thesis
    using ptr_diff [OF True assms(2), of fdt] by (auto simp: mem_write_def)
next
  case False
  then have "2 ^ 63 \<le> unat (fdt + of_nat k - (fdt + of_nat j))"
    using assms(1) by (intro ptr_diff_wrap) simp_all
  with False assms show ?thesis
    by (auto simp: mem_write_def)
qed

definition same_outside :: "mem \<Rightarrow> mem \<Rightarrow> u64 \<Rightarrow> nat \<Rightarrow> bool" where
  "same_outside m m' fdt n \<longleftrightarrow> (\<forall>a. n \<le> unat (a - fdt) \<longrightarrow> m' a = m a)"

lemma same_outside_refl [simp]: "same_outside m m fdt n"
  by (simp add: same_outside_def)

lemma same_outside_trans [trans]:
  "same_outside m m' fdt n \<Longrightarrow> same_outside m' m'' fdt n \<Longrightarrow> same_outside m m'' fdt n"
  by (simp add: same_outside_def)

lemma unat_minus_off:
  fixes a :: u64
  assumes "j \<le> unat (a - fdt)"
  shows "unat (a - (fdt + of_nat j)) = unat (a - fdt) - j"
proof -
  define x where "x = a - fdt"
  have "unat x < 2 ^ 64"
    using unsigned_less [of x] by simp
  then have "j < 2 ^ 64"
    using assms by (simp flip: x_def)
  then have "unat (x - of_nat j) = unat x - j"
    using assms by (simp add: unat_sub_if' unat_of_nat flip: x_def)
  then show ?thesis
    by (simp add: x_def diff_diff_eq)
qed

lemma same_outside_write:
  assumes "j + length bs \<le> n" "n \<le> 2 ^ 32" "same_outside m m' fdt n"
  shows "same_outside m (mem_write m' (fdt + of_nat j) bs) fdt n"
  unfolding same_outside_def
proof (intro allI impI)
  fix a
  assume a: "n \<le> unat (a - fdt)"
  have "unat (a - (fdt + of_nat j)) = unat (a - fdt) - j"
    using a assms(1) by (intro unat_minus_off) simp
  then have "length bs \<le> unat (a - (fdt + of_nat j))"
    using a assms(1) by simp
  then show "mem_write m' (fdt + of_nat j) bs a = m a"
    using assms(3) a by (simp add: mem_write_outside same_outside_def)
qed

lemma mem_bytes_write_other:
  assumes "mem_bytes m (fdt + of_nat i) xs" "i + length xs \<le> j \<or> j + length bs \<le> i"
    "i + length xs \<le> 2 ^ 32" "j + length bs \<le> 2 ^ 32"
  shows "mem_bytes (mem_write m (fdt + of_nat j) bs) (fdt + of_nat i) xs"
  using assms(1)
proof (rule mem_bytes_moved)
  fix k
  assume "k < length xs"
  then show "mem_write m (fdt + of_nat j) bs (fdt + of_nat i + of_nat k) = m (fdt + of_nat i + of_nat k)"
    using assms(2-4) write_at [of j bs "i + k" m fdt] by (auto simp: add.assoc)
qed

lemma mem_bytes_drop:
  assumes "mem_bytes m a xs" "j \<le> length xs"
  shows "mem_bytes m (a + of_nat j) (drop j xs)"
  unfolding mem_bytes_def
proof (intro allI impI)
  fix i
  assume "i < length (drop j xs)"
  then have "j + i < length xs" by simp
  then have "m (a + of_nat (j + i)) = xs ! (j + i)"
    using assms(1) unfolding mem_bytes_def by blast
  then show "m (a + of_nat j + of_nat i) = drop j xs ! i"
    using assms(2) by (simp add: add.assoc)
qed

definition overwrite :: "nat \<Rightarrow> u8 list \<Rightarrow> u8 list \<Rightarrow> u8 list" where
  "overwrite j bs xs = take j xs @ bs @ drop (j + length bs) xs"

lemma length_overwrite [simp]: "j + length bs \<le> length xs \<Longrightarrow> length (overwrite j bs xs) = length xs"
  by (simp add: overwrite_def)

lemma nth_overwrite:
  "j + length bs \<le> length xs \<Longrightarrow> k < length xs \<Longrightarrow>
    overwrite j bs xs ! k = (if j \<le> k \<and> k < j + length bs then bs ! (k - j) else xs ! k)"
  by (auto simp: overwrite_def nth_append)

lemma mem_bytes_overwrite:
  assumes "mem_bytes m (fdt + of_nat i) xs" "j + length bs \<le> length xs" "i + length xs \<le> 2 ^ 32"
  shows "mem_bytes (mem_write m (fdt + of_nat (i + j)) bs) (fdt + of_nat i) (overwrite j bs xs)"
  unfolding mem_bytes_def
proof (intro allI impI)
  fix k
  assume "k < length (overwrite j bs xs)"
  then have k: "k < length xs"
    using assms(2) by simp
  then have "m (fdt + of_nat (i + k)) = xs ! k"
    using assms(1) by (simp add: mem_bytes_def add.assoc)
  with k show "mem_write m (fdt + of_nat (i + j)) bs (fdt + of_nat i + of_nat k) = overwrite j bs xs ! k"
    using assms(2,3) write_at [of "i + j" bs "i + k" m fdt]
    by (auto simp: nth_overwrite add.assoc simp del: of_nat_add simp flip: of_nat_add)
qed

lemma memmove_at:
  assumes fdt: "unat fdt + 2 ^ 32 \<le> 2 ^ 64" and n: "i + n < 2 ^ 32" "j + n < 2 ^ 32" and k: "k < 2 ^ 32"
  shows "memmove m (fdt + of_nat j) (fdt + of_nat i) (of_nat n) (fdt + of_nat k) =
    (if j \<le> k \<and> k < j + n then m (fdt + of_nat (i + (k - j))) else m (fdt + of_nat k))"
proof -
  have u: "unat (of_nat n :: u64) = n"
    using n by (simp add: unat_of_nat)
  have "memmove m (fdt + of_nat j) (fdt + of_nat i) (of_nat n) (fdt + of_nat k) =
    (if unat (fdt + of_nat k - (fdt + of_nat j)) < n
     then m (fdt + of_nat i + (fdt + of_nat k - (fdt + of_nat j))) else m (fdt + of_nat k))"
    using memmove_spec [of "of_nat n" "fdt + of_nat i" "fdt + of_nat j" m] unat_ptr [OF fdt, of i]
      unat_ptr [OF fdt, of j] n fdt u by simp
  moreover have eq: "fdt + of_nat i + (fdt + of_nat k - (fdt + of_nat j)) = fdt + of_nat (i + (k - j))"
    if "j \<le> k"
    using that by (simp add: of_nat_diff)
  have "m (fdt + of_nat i + (fdt + of_nat k - (fdt + of_nat j))) = m (fdt + of_nat (i + (k - j)))"
    if "j \<le> k"
    using eq [OF that] by (rule arg_cong)
  moreover have "\<not> unat (fdt + of_nat k - (fdt + of_nat j)) < n" if "k < j"
    using ptr_diff_wrap [OF that, of fdt] n by simp
  moreover have "unat (fdt + of_nat k - (fdt + of_nat j)) = k - j" if "j \<le> k"
    using ptr_diff [OF that k] .
  ultimately show ?thesis
    by (cases "j \<le> k") (auto simp: not_le simp del: add_diff_cancel_left of_nat_add)
qed

lemma memmove_outside:
  assumes "unat fdt + 2 ^ 32 \<le> 2 ^ 64" "i + n < 2 ^ 32" "j + n \<le> N" "N < 2 ^ 32"
  shows "same_outside m (memmove m (fdt + of_nat j) (fdt + of_nat i) (of_nat n)) fdt N"
  unfolding same_outside_def
proof (intro allI impI)
  fix a
  assume a: "N \<le> unat (a - fdt)"
  have n: "unat (of_nat n :: u64) = n"
    using assms by (simp add: unat_of_nat)
  have "unat (a - (fdt + of_nat j)) = unat (a - fdt) - j"
    using a assms(3) by (intro unat_minus_off) simp
  then have "\<not> unat (a - (fdt + of_nat j)) < n"
    using a assms(3) by simp
  then show "memmove m (fdt + of_nat j) (fdt + of_nat i) (of_nat n) a = m a"
    using memmove_spec [of "of_nat n" "fdt + of_nat i" "fdt + of_nat j" m] unat_ptr [OF assms(1), of i]
      unat_ptr [OF assms(1), of j] assms n by simp
qed

section \<open>The splice\<close>

lemma fdt_splice_at:
  assumes B: "blob_at m fdt B" and P: "P + ol \<le> b_toff B + length (b_strs B)" and nl: "nl < 2 ^ 31"
  shows "fdt_splice fdt (fdt + of_nat P) (of_nat ol) (of_nat nl) m =
    (if b_toff B + length (b_strs B) - ol + nl > b_total B then (- FDT_ERR_NOSPACE, m)
     else (0, memmove m (fdt + of_nat (P + nl)) (fdt + of_nat (P + ol))
            (of_nat (b_toff B + length (b_strs B) - (P + ol)))))"
proof -
  define D where "D = b_toff B + length (b_strs B)"
  note b = blob_bounds [OF B]
  have size: "scast (fdt_data_size m fdt) = (of_nat D :: u64)"
    using b scast_u32 [of D] by (simp add: fdt_data_size_def blob_header [OF B] D_def)
  have lens: "(scast (of_nat ol :: u32) :: u64) = of_nat ol" "(scast (of_nat nl :: u32) :: u64) = of_nat nl"
    using P b nl by (auto intro!: scast_u32)
  have D: "D < 2 ^ 31" "P + ol \<le> D"
    using b P by (auto simp: D_def)
  have e: "fdt + of_nat D - of_nat ol + of_nat nl = fdt + of_nat (D - ol + nl)"
    "fdt + of_nat D - (fdt + of_nat P) - of_nat ol = of_nat (D - (P + ol))"
    using D(2) by (simp_all add: of_nat_diff)
  have p: "fdt + of_nat P + of_nat ol = fdt + of_nat (P + ol)" "fdt + of_nat P + of_nat nl = fdt + of_nat (P + nl)"
    by (simp_all add: add.assoc)
  have z: "fdt = fdt + of_nat 0" by simp
  have total: "(ucast (fdt_totalsize m fdt) :: u64) = of_nat (b_total B)"
    using b by (simp add: blob_header [OF B] ucast_u32)
  note le = ptr_le [OF b(1)]
  have "\<not> fdt + of_nat (P + ol) < fdt + of_nat P" "\<not> fdt + of_nat (P + ol) > fdt + of_nat D"
    "\<not> fdt + of_nat P < fdt" "\<not> fdt + of_nat (D - ol + nl) < fdt"
    using D nl le(2) [of "P + ol" P] le(2) [of D "P + ol"] le(2) [of P 0] le(2) [of "D - ol + nl" 0] by auto
  moreover have "fdt + of_nat (D - ol + nl) > fdt + of_nat (b_total B) \<longleftrightarrow> D - ol + nl > b_total B"
    using D nl b by (intro le) auto
  ultimately show ?thesis
    unfolding fdt_splice_def size lens total Let_def e p D_def [symmetric] by auto
qed

text \<open>The bytes after the splice point move with it, those before stay.\<close>

lemma splice_bytes:
  fixes fdt :: u64
  assumes fdt: "unat fdt + 2 ^ 32 \<le> 2 ^ 64" and "P + ol \<le> D" "D < 2 ^ 31" "nl < 2 ^ 31"
    and m': "m' = memmove m (fdt + of_nat (P + nl)) (fdt + of_nat (P + ol)) (of_nat (D - (P + ol)))"
    and xs: "mem_bytes m (fdt + of_nat i) xs"
  shows "i + length xs \<le> P \<Longrightarrow> mem_bytes m' (fdt + of_nat i) xs"
    and "P + ol \<le> i \<Longrightarrow> i + length xs \<le> D \<Longrightarrow> mem_bytes m' (fdt + of_nat (i + nl - ol)) xs"
proof -
  have b: "P + ol + (D - (P + ol)) < 2 ^ 32" "P + nl + (D - (P + ol)) < 2 ^ 32"
    using assms(2-4) by auto
  have at: "m' (fdt + of_nat k) = (if P + nl \<le> k \<and> k < P + nl + (D - (P + ol))
      then m (fdt + of_nat (P + ol + (k - (P + nl)))) else m (fdt + of_nat k))" if "k < 2 ^ 32" for k
    unfolding m' by (rule memmove_at [OF fdt b that])
  show "mem_bytes m' (fdt + of_nat i) xs" if "i + length xs \<le> P"
    using xs
  proof (rule mem_bytes_moved)
    fix k
    assume "k < length xs"
    then show "m' (fdt + of_nat i + of_nat k) = m (fdt + of_nat i + of_nat k)"
      using at [of "i + k"] that assms(2,3) by (simp add: add.assoc)
  qed
  show "mem_bytes m' (fdt + of_nat (i + nl - ol)) xs" if "P + ol \<le> i" "i + length xs \<le> D"
    using xs
  proof (rule mem_bytes_moved)
    fix k
    assume k: "k < length xs"
    then have "m' (fdt + of_nat (i + nl - ol + k)) = m (fdt + of_nat (P + ol + (i + nl - ol + k - (P + nl))))"
      using that assms(2-4) by (subst at) auto
    also have "P + ol + (i + nl - ol + k - (P + nl)) = i + k"
      using that by simp
    finally show "m' (fdt + of_nat (i + nl - ol) + of_nat k) = m (fdt + of_nat i + of_nat k)"
      by (simp add: add.assoc)
  qed
qed

section \<open>The header\<close>

lemma overwrite_header:
  "v = of_nat n \<Longrightarrow>
    overwrite 4 (be32_bytes v) (fdt_header B) = fdt_header (B\<lparr>b_total := n\<rparr>)"
  "v = of_nat n \<Longrightarrow>
    overwrite 8 (be32_bytes v) (fdt_header B) = fdt_header (B\<lparr>b_soff := n\<rparr>)"
  "v = of_nat n \<Longrightarrow>
    overwrite 12 (be32_bytes v) (fdt_header B) = fdt_header (B\<lparr>b_toff := n\<rparr>)"
  "v = of_nat (length xs) \<Longrightarrow>
    overwrite 32 (be32_bytes v) (fdt_header B) = fdt_header (B\<lparr>b_strs := xs\<rparr>)"
  "v = of_nat (length xs) \<Longrightarrow>
    overwrite 36 (be32_bytes v) (fdt_header B) = fdt_header (B\<lparr>b_struct := xs\<rparr>)"
  by (simp_all add: overwrite_def fdt_header_def)

lemma header_set:
  assumes "mem_bytes m fdt (fdt_header B)"
  shows "v = of_nat n \<Longrightarrow> mem_bytes (fdt_set_totalsize fdt v m) fdt (fdt_header (B\<lparr>b_total := n\<rparr>))"
    "v = of_nat n \<Longrightarrow> mem_bytes (fdt_set_off_dt_struct fdt v m) fdt (fdt_header (B\<lparr>b_soff := n\<rparr>))"
    "v = of_nat n \<Longrightarrow> mem_bytes (fdt_set_off_dt_strings fdt v m) fdt (fdt_header (B\<lparr>b_toff := n\<rparr>))"
    "v = of_nat (length xs) \<Longrightarrow> mem_bytes (fdt_set_size_dt_strings fdt v m) fdt (fdt_header (B\<lparr>b_strs := xs\<rparr>))"
    "v = of_nat (length xs) \<Longrightarrow> mem_bytes (fdt_set_size_dt_struct fdt v m) fdt (fdt_header (B\<lparr>b_struct := xs\<rparr>))"
proof -
  have "mem_bytes (mem_write m (fdt + of_nat j) (be32_bytes v)) fdt (overwrite j (be32_bytes v) (fdt_header B))"
    if "j \<le> 36" for j
    using mem_bytes_overwrite [of m fdt 0 "fdt_header B" j "be32_bytes v"] assms that by simp
  from this [of 4] this [of 8] this [of 12] this [of 32] this [of 36] show
    "v = of_nat n \<Longrightarrow> mem_bytes (fdt_set_totalsize fdt v m) fdt (fdt_header (B\<lparr>b_total := n\<rparr>))"
    "v = of_nat n \<Longrightarrow> mem_bytes (fdt_set_off_dt_struct fdt v m) fdt (fdt_header (B\<lparr>b_soff := n\<rparr>))"
    "v = of_nat n \<Longrightarrow> mem_bytes (fdt_set_off_dt_strings fdt v m) fdt (fdt_header (B\<lparr>b_toff := n\<rparr>))"
    "v = of_nat (length xs) \<Longrightarrow> mem_bytes (fdt_set_size_dt_strings fdt v m) fdt (fdt_header (B\<lparr>b_strs := xs\<rparr>))"
    "v = of_nat (length xs) \<Longrightarrow> mem_bytes (fdt_set_size_dt_struct fdt v m) fdt (fdt_header (B\<lparr>b_struct := xs\<rparr>))"
    by (simp_all add: overwrite_header fdt_set_defs fdt32_st_def)
qed

text \<open>A store into the header leaves the blocks alone.\<close>

lemma block_set_header:
  assumes "mem_bytes m (fdt + of_nat i) xs" "40 \<le> i" "i + length xs \<le> 2 ^ 32"
  shows "mem_bytes (fdt_set_totalsize fdt v m) (fdt + of_nat i) xs"
    "mem_bytes (fdt_set_off_dt_struct fdt v m) (fdt + of_nat i) xs"
    "mem_bytes (fdt_set_off_dt_strings fdt v m) (fdt + of_nat i) xs"
    "mem_bytes (fdt_set_size_dt_strings fdt v m) (fdt + of_nat i) xs"
    "mem_bytes (fdt_set_size_dt_struct fdt v m) (fdt + of_nat i) xs"
proof -
  have "mem_bytes (mem_write m (fdt + of_nat j) (be32_bytes v)) (fdt + of_nat i) xs" if "j \<le> 36" for j
    using assms that by (intro mem_bytes_write_other) auto
  from this [of 4] this [of 8] this [of 12] this [of 32] this [of 36] show
    "mem_bytes (fdt_set_totalsize fdt v m) (fdt + of_nat i) xs"
    "mem_bytes (fdt_set_off_dt_struct fdt v m) (fdt + of_nat i) xs"
    "mem_bytes (fdt_set_off_dt_strings fdt v m) (fdt + of_nat i) xs"
    "mem_bytes (fdt_set_size_dt_strings fdt v m) (fdt + of_nat i) xs"
    "mem_bytes (fdt_set_size_dt_struct fdt v m) (fdt + of_nat i) xs"
    by (simp_all add: fdt_set_defs fdt32_st_def)
qed

lemma same_outside_set:
  assumes "same_outside m0 m fdt n" "40 \<le> n" "n \<le> 2 ^ 32"
  shows "same_outside m0 (fdt_set_totalsize fdt v m) fdt n"
    "same_outside m0 (fdt_set_off_dt_struct fdt v m) fdt n"
    "same_outside m0 (fdt_set_off_dt_strings fdt v m) fdt n"
    "same_outside m0 (fdt_set_size_dt_strings fdt v m) fdt n"
    "same_outside m0 (fdt_set_size_dt_struct fdt v m) fdt n"
proof -
  have "same_outside m0 (mem_write m (fdt + of_nat j) (be32_bytes v)) fdt n" if "j \<le> 36" for j
    using assms that by (intro same_outside_write) auto
  from this [of 4] this [of 8] this [of 12] this [of 32] this [of 36] show
    "same_outside m0 (fdt_set_totalsize fdt v m) fdt n"
    "same_outside m0 (fdt_set_off_dt_struct fdt v m) fdt n"
    "same_outside m0 (fdt_set_off_dt_strings fdt v m) fdt n"
    "same_outside m0 (fdt_set_size_dt_strings fdt v m) fdt n"
    "same_outside m0 (fdt_set_size_dt_struct fdt v m) fdt n"
    by (simp_all add: fdt_set_defs fdt32_st_def)
qed

section \<open>The three blocks\<close>

lemma garbage: "mem_bytes m a (read_bytes m a n)"
  by (simp add: mem_bytes_def read_bytes_def)

text \<open>The structure block: \<open>nl\<close> bytes of whatever value in place of \<open>ol\<close>, at offset \<open>k\<close>.\<close>

abbreviation spliced :: "nat \<Rightarrow> nat \<Rightarrow> u8 list \<Rightarrow> blob \<Rightarrow> blob" where
  "spliced k ol new B \<equiv>
     B\<lparr>b_struct := take k (b_struct B) @ new @ drop (k + ol) (b_struct B),
       b_toff := b_toff B + length new - ol\<rparr>"

lemma splice_struct_at:
  assumes B: "blob_at m fdt B" and k: "k + ol \<le> length (b_struct B)" and nl: "nl < 2 ^ 31"
  shows "b_toff B + length (b_strs B) - ol + nl > b_total B \<Longrightarrow>
      fdt_splice_struct fdt (fdt + of_nat (b_soff B + k)) (of_nat ol) (of_nat nl) m = (- FDT_ERR_NOSPACE, m)"
    and "b_toff B + length (b_strs B) - ol + nl \<le> b_total B \<Longrightarrow>
      \<exists>m' new. fdt_splice_struct fdt (fdt + of_nat (b_soff B + k)) (of_nat ol) (of_nat nl) m = (0, m') \<and>
        length new = nl \<and> blob_at m' fdt (spliced k ol new B) \<and> same_outside m m' fdt (b_total B)"
proof -
  define D where "D = b_toff B + length (b_strs B)"
  define P where "P = b_soff B + k"
  note b = blob_bounds [OF B] and ok = B [unfolded blob_at_def]
  have P: "P + ol \<le> D" "D < 2 ^ 31"
    using k b by (auto simp: P_def D_def)
  note sp = fdt_splice_at [OF B, of P ol nl, folded D_def, OF P(1) nl]
  show "D - ol + nl > b_total B \<Longrightarrow> fdt_splice_struct fdt (fdt + of_nat P) (of_nat ol) (of_nat nl) m = (- FDT_ERR_NOSPACE, m)"
    by (simp add: fdt_splice_struct_def sp)
  assume room: "D - ol + nl \<le> b_total B"
  define m1 where "m1 = memmove m (fdt + of_nat (P + nl)) (fdt + of_nat (P + ol)) (of_nat (D - (P + ol)))"
  define new where "new = read_bytes m1 (fdt + of_nat P) nl"
  define st where "st = take k (b_struct B) @ new @ drop (k + ol) (b_struct B)"
  define B1 where "B1 = B\<lparr>b_struct := st\<rparr>"
  define v where "v = (of_nat (length (b_struct B)) + (of_nat nl - of_nat ol) :: u32)"
  define v' where "v' = (of_nat (b_toff B) + (of_nat nl - of_nat ol) :: u32)"
  define m2 where "m2 = fdt_set_size_dt_struct fdt v m1"
  define m3 where "m3 = fdt_set_off_dt_strings fdt v' m2"
  note move = splice_bytes [OF b(1) P nl m1_def]
  have new: "length new = nl" and len: "length st = length (b_struct B) + nl - ol"
    using k by (simp_all add: new_def st_def)
  have v: "v = of_nat (length st)" "v' = of_nat (b_toff B + nl - ol)"
    using k b len by (simp_all add: v_def v'_def of_nat_diff)
  have "mem_bytes m (fdt + of_nat 0) (fdt_header B)"
    using ok by simp
  from move(1) [OF this] have h1: "mem_bytes m1 fdt (fdt_header B)"
    using b by (simp add: P_def)
  have h2: "mem_bytes m2 fdt (fdt_header B1)"
    unfolding m2_def B1_def by (rule header_set(5) [OF h1 v(1)])
  have h3: "mem_bytes m3 fdt (fdt_header (spliced k ol new B))"
    using header_set(3) [OF h2 v(2)] by (simp add: m3_def B1_def st_def new)
  have s1: "mem_bytes m1 (fdt + of_nat (b_soff B)) (take k (b_struct B))"
    using ok k by (intro move(1)) (auto simp: P_def mem_bytes_def)
  have "mem_bytes m (fdt + of_nat (P + ol)) (drop (k + ol) (b_struct B))"
    using ok k mem_bytes_drop [of m "fdt + of_nat (b_soff B)" "b_struct B" "k + ol"]
    by (simp add: P_def add.assoc)
  from move(2) [OF this] have s2: "mem_bytes m1 (fdt + of_nat (P + nl)) (drop (k + ol) (b_struct B))"
    using b k by (simp add: P_def D_def add.assoc)
  have "mem_bytes m1 (fdt + of_nat (b_soff B)) st"
    using s1 s2 garbage [of m1 "fdt + of_nat P" nl] k
    by (simp add: st_def P_def new [unfolded new_def] new_def add.assoc)
  then have s3: "mem_bytes m3 (fdt + of_nat (b_soff B)) st"
    using b len room by (auto simp: m2_def m3_def D_def intro!: block_set_header)
  have "mem_bytes m1 (fdt + of_nat (b_roff B)) (rsvmap (b_rsv B @ [(0, 0)]))"
    using ok b by (intro move(1)) (auto simp: P_def)
  then have r3: "mem_bytes m3 (fdt + of_nat (b_roff B)) (rsvmap (b_rsv B @ [(0, 0)]))"
    using b by (auto simp: m2_def m3_def intro!: block_set_header)
  have t1: "mem_bytes m1 (fdt + of_nat (b_toff B + nl - ol)) (b_strs B)"
    using ok b k by (intro move(2)) (auto simp: P_def D_def)
  have t3: "mem_bytes m3 (fdt + of_nat (b_toff B + nl - ol)) (b_strs B)"
    unfolding m2_def m3_def by (intro block_set_header t1) (use b k room D_def in auto)
  have "blob_ok fdt (spliced k ol new B)"
    using ok b k room len new by (auto simp: blob_ok_def D_def st_def)
  then have "blob_at m3 fdt (spliced k ol new B)"
    using h3 s3 r3 t3 by (simp add: blob_at_def st_def new)
  moreover have "same_outside m m3 fdt (b_total B)"
    unfolding m3_def m2_def
    using memmove_outside [OF b(1), of "P + ol" "D - (P + ol)" "P + nl" "b_total B" m] P room b
    by (intro same_outside_set) (auto simp: m1_def)
  moreover have "fdt_splice fdt (fdt + of_nat P) (of_nat ol) (of_nat nl) m = (0, m1)"
    using room unfolding m1_def by (subst sp) simp
  then have "fdt_splice_struct fdt (fdt + of_nat P) (of_nat ol) (of_nat nl) m = (0, m3)"
    unfolding fdt_splice_struct_def m3_def m2_def v_def v'_def
    by (simp add: header_fields [OF h1] header_fields [OF h2 [unfolded m2_def v_def]] B1_def Let_def)
  ultimately show "\<exists>m' new. fdt_splice_struct fdt (fdt + of_nat P) (of_nat ol) (of_nat nl) m = (0, m') \<and>
      length new = nl \<and> blob_at m' fdt (spliced k ol new B) \<and> same_outside m m' fdt (b_total B)"
    using new by blast
qed

text \<open>A store into the structure block.\<close>

lemma struct_write:
  assumes B: "blob_at m fdt B" and k: "k + length bs \<le> length (b_struct B)"
  shows "blob_at (mem_write m (fdt + of_nat (b_soff B + k)) bs) fdt (B\<lparr>b_struct := overwrite k bs (b_struct B)\<rparr>)"
    "same_outside m (mem_write m (fdt + of_nat (b_soff B + k)) bs) fdt (b_total B)"
proof -
  let ?m = "mem_write m (fdt + of_nat (b_soff B + k)) bs"
  note b = blob_bounds [OF B] and ok = B [unfolded blob_at_def]
  have "mem_bytes ?m (fdt + of_nat 0) (fdt_header B)"
    using ok b k by (intro mem_bytes_write_other) auto
  moreover have "fdt_header (B\<lparr>b_struct := overwrite k bs (b_struct B)\<rparr>) = fdt_header B"
    using k by (simp add: fdt_header_def)
  moreover have "mem_bytes ?m (fdt + of_nat (b_roff B)) (rsvmap (b_rsv B @ [(0, 0)]))"
    using ok b k by (intro mem_bytes_write_other) auto
  moreover have "mem_bytes ?m (fdt + of_nat (b_toff B)) (b_strs B)"
    using ok b k by (intro mem_bytes_write_other) auto
  moreover have "mem_bytes ?m (fdt + of_nat (b_soff B)) (overwrite k bs (b_struct B))"
    using ok b k by (intro mem_bytes_overwrite) auto
  ultimately show "blob_at ?m fdt (B\<lparr>b_struct := overwrite k bs (b_struct B)\<rparr>)"
    using ok k by (simp add: blob_at_def blob_ok_def)
  show "same_outside m ?m fdt (b_total B)"
    using b k by (intro same_outside_write) auto
qed

section \<open>The string table\<close>

lemma same_outside_sym_write: "same_outside m m' fdt n \<Longrightarrow> n \<le> unat (a - fdt) \<Longrightarrow> m' a = m a"
  by (simp add: same_outside_def)

text \<open>The string at an offset: where \<open>fdt_find_string\<close> finds it.\<close>

lemma find_string_at:
  assumes B: "blob_at m fdt B" and s: "0 \<notin> set s" and len: "length s < 2 ^ 31"
  shows "fdt_find_string m (fdt + of_nat (b_toff B)) (of_nat (length (b_strs B))) s =
    List.find (\<lambda>k. str_at (b_strs B) k s) [0..<length (b_strs B) - length s]"
proof -
  note b = blob_bounds [OF B]
  have eq: "read_bytes m (fdt + of_nat (b_toff B) + of_nat k) (length s + 1) = s @ [0] \<longleftrightarrow> str_at (b_strs B) k s"
    if "k + length s < length (b_strs B)" for k
  proof -
    have "mem_bytes m (fdt + of_nat (b_toff B)) (b_strs B)"
      using B by (simp add: blob_at_def)
    then have "mem_bytes m (fdt + of_nat (b_toff B) + of_nat k) (drop k (b_strs B))"
      using that by (intro mem_bytes_drop) auto
    moreover have "length s + 1 \<le> length (drop k (b_strs B))"
      using that by simp
    ultimately have "read_bytes m (fdt + of_nat (b_toff B) + of_nat k) (length s + 1) =
        take (length s + 1) (drop k (b_strs B))"
      by (intro nth_equalityI) (simp_all add: read_bytes_def mem_bytes_def del: upt_Suc)
    then show ?thesis
      using that s by (auto simp: str_at_def)
  qed
  have "nat (sint (of_nat (length (b_strs B)) :: u32) - int (length s + 1) + 1) = length (b_strs B) - length s"
    using b sint_u32 [of "length (b_strs B)"] by simp
  then show ?thesis
    unfolding fdt_find_string_def Let_def by (simp only:) (rule find_cong [OF refl eq], auto)
qed

text \<open>
  \<open>fdt_find_add_string_\<close>: the string is in the table afterwards at the offset that it gives, and
  what was there stays; or there is no space.
\<close>

abbreviation with_strs :: "blob \<Rightarrow> u8 list \<Rightarrow> blob" where
  "with_strs B zs \<equiv> B\<lparr>b_strs := b_strs B @ zs\<rparr>"

lemma find_add_string_at:
  assumes B: "blob_at m fdt B" and s: "0 \<notin> set s" and len: "length s < 2 ^ 30"
  shows "(\<exists>k m' zs. fdt_find_add_string fdt s m = (of_nat k, False, m') \<and> k < 2 ^ 31 \<and>
      blob_at m' fdt (with_strs B zs) \<and> str_at (b_strs B @ zs) k s \<and>
      same_outside m m' fdt (b_total B) \<and> length zs \<le> length s + 1) \<or>
    fdt_find_add_string fdt s m = (- FDT_ERR_NOSPACE, False, m) \<and>
      b_toff B + length (b_strs B) + length s + 1 > b_total B"
proof -
  note b = blob_bounds [OF B] and ok = B [unfolded blob_at_def]
  let ?D = "b_toff B + length (b_strs B)"
  have tab: "fdt + ucast (fdt_off_dt_strings m fdt) = fdt + of_nat (b_toff B)"
    using b by (simp add: blob_header [OF B] ucast_u32)
  have new: "fdt + of_nat (b_toff B) + ucast (fdt_size_dt_strings m fdt) = fdt + of_nat ?D"
    using b by (simp add: blob_header [OF B] ucast_u32)
  have size: "fdt_size_dt_strings m fdt = of_nat (length (b_strs B))"
    by (rule blob_header [OF B])
  have offs: "ucast (fdt + of_nat ?D - (fdt + of_nat (b_toff B)) :: u64) = (of_nat (length (b_strs B)) :: u32)"
    using b by (simp add: unsigned_of_nat word_unat_eq_iff unat_u32 take_bit_nat_eq_self)
  have find: "fdt_find_string m (fdt + of_nat (b_toff B)) (fdt_size_dt_strings m fdt) s =
      List.find (\<lambda>k. str_at (b_strs B) k s) [0..<length (b_strs B) - length s]"
    unfolding size using len by (intro find_string_at [OF B s]) simp
  have found_eq: "fdt_find_add_string fdt s m =
    (case List.find (\<lambda>k. str_at (b_strs B) k s) [0..<length (b_strs B) - length s] of
       Some k \<Rightarrow> (of_nat k, False, m)
     | None \<Rightarrow> (let (err, m) = fdt_splice_string fdt (of_nat (length s + 1)) m
               in if err \<noteq> 0 then (err, False, m)
                  else (of_nat (length (b_strs B)), False, mem_write m (fdt + of_nat ?D) (s @ [0]))))"
    unfolding fdt_find_add_string_def Let_def tab new find offs by (simp split: option.splits prod.splits)
  show ?thesis
  proof (cases "List.find (\<lambda>k. str_at (b_strs B) k s) [0..<length (b_strs B) - length s]")
    case (Some k)
    then have "str_at (b_strs B) k s" "k < length (b_strs B)"
      by (auto simp: find_Some_iff)
    moreover have "fdt_find_add_string fdt s m = (of_nat k, False, m)"
      using Some by (simp add: found_eq)
    ultimately show ?thesis
      using B b by (intro disjI1 exI [of _ k] exI [of _ m] exI [of _ "[]"]) auto
  next
    case None
    let ?n = "length s + 1"
    have still: "memmove m (fdt + of_nat (?D + ?n)) (fdt + of_nat ?D) 0 = m"
      by (simp add: memmove_def memcpy_def memcpy_loop.simps)
    have "fdt_splice fdt (fdt + of_nat ?D) 0 (of_nat ?n) m =
      (if ?D + ?n > b_total B then (- FDT_ERR_NOSPACE, m) else (0, m))"
      using fdt_splice_at [OF B, of ?D 0 ?n] len still by simp
    then have sp: "fdt_splice_string fdt (of_nat ?n) m =
      (if ?D + ?n > b_total B then (- FDT_ERR_NOSPACE, m)
       else (0, fdt_set_size_dt_strings fdt (of_nat (length (b_strs B)) + of_nat ?n) m))"
      unfolding fdt_splice_string_def Let_def tab new by (simp add: size)
    show ?thesis
    proof (cases "?D + ?n > b_total B")
      case True
      then have "fdt_find_add_string fdt s m = (- FDT_ERR_NOSPACE, False, m)"
        unfolding found_eq sp using None by simp
      then show ?thesis
        using True by simp
    next
      case False
      define m2 where "m2 = fdt_set_size_dt_strings fdt (of_nat (length (b_strs B)) + of_nat ?n) m"
      define m3 where "m3 = mem_write m2 (fdt + of_nat ?D) (s @ [0])"
      have res: "fdt_find_add_string fdt s m = (of_nat (length (b_strs B)), False, m3)"
        unfolding found_eq sp m3_def m2_def using None False by simp
      moreover have h2: "mem_bytes m2 fdt (fdt_header (with_strs B (s @ [0])))"
        unfolding m2_def by (intro header_set(4) [OF blob_header_bytes [OF B]]) simp
      have h3: "mem_bytes m3 (fdt + of_nat 0) (fdt_header (with_strs B (s @ [0])))"
        unfolding m3_def using h2 b False by (intro mem_bytes_write_other) auto
      have m2b: "mem_bytes m (fdt + of_nat i) xs \<Longrightarrow> 40 \<le> i \<Longrightarrow> i + length xs \<le> ?D \<Longrightarrow>
          mem_bytes m3 (fdt + of_nat i) xs" for i xs
        unfolding m3_def m2_def using b False by (intro mem_bytes_write_other block_set_header) auto
      have "mem_bytes m3 (fdt + of_nat (b_roff B)) (rsvmap (b_rsv B @ [(0, 0)]))"
        "mem_bytes m3 (fdt + of_nat (b_soff B)) (b_struct B)"
        "mem_bytes m3 (fdt + of_nat (b_toff B)) (b_strs B)"
        using ok b by (auto intro!: m2b)
      moreover have "mem_bytes m3 (fdt + of_nat ?D) (s @ [0])"
        unfolding m3_def using len by (intro mem_write_bytes) simp
      ultimately have "blob_at m3 fdt (with_strs B (s @ [0]))"
        using ok h3 False by (simp add: blob_at_def blob_ok_def add.assoc)
      moreover have "same_outside m m3 fdt (b_total B)"
        unfolding m3_def m2_def using b False by (intro same_outside_write same_outside_set) auto
      moreover have "str_at (b_strs B @ s @ [0]) (length (b_strs B)) s"
        using s by (simp add: str_at_def)
      ultimately show ?thesis
        using res b
        by (intro disjI1 exI [of _ "length (b_strs B)"] exI [of _ m3] exI [of _ "s @ [0]"]) auto
    qed
  qed
qed

section \<open>The memory reservations\<close>

lemma rsvmap_append [simp]: "rsvmap (rs @ rs') = rsvmap rs @ rsvmap rs'"
  by (simp add: rsvmap_def)

text \<open>The reservations with room for \<open>nn\<close> entries in place of those in \<open>mid\<close>.\<close>

abbreviation shifted :: "nat \<Rightarrow> nat \<Rightarrow> blob \<Rightarrow> blob" where
  "shifted on nn B \<equiv> B\<lparr>b_soff := b_soff B + 16 * nn - 16 * on, b_toff := b_toff B + 16 * nn - 16 * on\<rparr>"

lemma splice_mem_rsv_at:
  assumes B: "blob_at m fdt B" and rs: "b_rsv B = pre @ mid @ post" and nn: "nn \<le> 1"
  defines "on \<equiv> length mid" and "P \<equiv> b_roff B + 16 * length pre"
  shows "b_toff B + length (b_strs B) + 16 * nn > b_total B + 16 * on \<Longrightarrow>
      fdt_splice_mem_rsv fdt (fdt + of_nat P) (of_nat on) (of_nat nn) m = (- FDT_ERR_NOSPACE, m)"
    and "b_toff B + length (b_strs B) + 16 * nn \<le> b_total B + 16 * on \<Longrightarrow>
      \<exists>m'. fdt_splice_mem_rsv fdt (fdt + of_nat P) (of_nat on) (of_nat nn) m = (0, m') \<and>
        mem_bytes m' fdt (fdt_header (shifted on nn B)) \<and>
        mem_bytes m' (fdt + of_nat (b_roff B)) (rsvmap pre) \<and>
        mem_bytes m' (fdt + of_nat (P + 16 * nn)) (rsvmap (post @ [(0, 0)])) \<and>
        mem_bytes m' (fdt + of_nat (b_soff (shifted on nn B))) (b_struct B) \<and>
        mem_bytes m' (fdt + of_nat (b_toff (shifted on nn B))) (b_strs B) \<and>
        same_outside m m' fdt (b_total B)"
proof -
  define D where "D = b_toff B + length (b_strs B)"
  define ol nl where "ol = 16 * on" and "nl = 16 * nn"
  note b = blob_bounds [OF B] and ok = B [unfolded blob_at_def]
  have len: "length (b_rsv B) = length pre + on + length post"
    by (simp add: rs on_def)
  have P: "P + ol \<le> D" "D < 2 ^ 31" "nl < 2 ^ 31" "40 \<le> P" "P + ol + 16 \<le> b_soff B"
    using b nn len by (auto simp: P_def D_def ol_def nl_def)
  have w: "(of_nat on * 16 :: u32) = of_nat ol" "(of_nat nn * 16 :: u32) = of_nat nl"
    "(of_nat nn - of_nat on) * 16 = (of_nat nl - of_nat ol :: u32)"
    by (simp_all add: ol_def nl_def algebra_simps)
  note sp = fdt_splice_at [OF B, of P ol nl, folded D_def, OF P(1,3)]
  show "D + 16 * nn > b_total B + 16 * on \<Longrightarrow>
      fdt_splice_mem_rsv fdt (fdt + of_nat P) (of_nat on) (of_nat nn) m = (- FDT_ERR_NOSPACE, m)"
    unfolding fdt_splice_mem_rsv_def w sp using P by (simp add: Let_def ol_def nl_def)
  assume "D + 16 * nn \<le> b_total B + 16 * on"
  then have room: "D - ol + nl \<le> b_total B"
    using P by (simp add: ol_def nl_def)
  define m1 where "m1 = memmove m (fdt + of_nat (P + nl)) (fdt + of_nat (P + ol)) (of_nat (D - (P + ol)))"
  define v where "v = (of_nat (b_soff B) + (of_nat nl - of_nat ol) :: u32)"
  define v' where "v' = (of_nat (b_toff B) + (of_nat nl - of_nat ol) :: u32)"
  define m2 where "m2 = fdt_set_off_dt_struct fdt v m1"
  define m3 where "m3 = fdt_set_off_dt_strings fdt v' m2"
  note move = splice_bytes [OF b(1) P(1,2,3) m1_def]
  have v: "v = of_nat (b_soff B + nl - ol)" "v' = of_nat (b_toff B + nl - ol)"
    using P b by (simp_all add: v_def v'_def of_nat_diff)
  have "mem_bytes m (fdt + of_nat 0) (fdt_header B)"
    using ok by simp
  from move(1) [OF this] have h1: "mem_bytes m1 fdt (fdt_header B)"
    using P by simp
  have h2: "mem_bytes m2 fdt (fdt_header (B\<lparr>b_soff := b_soff B + nl - ol\<rparr>))"
    unfolding m2_def by (rule header_set(2) [OF h1 v(1)])
  have h3: "mem_bytes m3 fdt (fdt_header (shifted on nn B))"
    using header_set(3) [OF h2 v(2)] by (simp add: m3_def ol_def nl_def)
  have keep: "mem_bytes m1 (fdt + of_nat i) xs \<Longrightarrow> 40 \<le> i \<Longrightarrow> i + length xs \<le> b_total B \<Longrightarrow>
      mem_bytes m3 (fdt + of_nat i) xs" for i xs
    unfolding m3_def m2_def using b by (intro block_set_header) auto
  have rsv: "mem_bytes m (fdt + of_nat (b_roff B)) (rsvmap pre @ rsvmap mid @ rsvmap (post @ [(0, 0)]))"
    using ok rs by simp
  then have "mem_bytes m1 (fdt + of_nat (b_roff B)) (rsvmap pre)"
    by (intro move(1)) (auto simp: P_def)
  then have r1: "mem_bytes m3 (fdt + of_nat (b_roff B)) (rsvmap pre)"
    by (rule keep) (use b len in auto)
  have "mem_bytes m (fdt + of_nat (P + ol)) (rsvmap (post @ [(0, 0)]))"
    using rsv by (simp add: P_def ol_def on_def add.assoc del: rsvmap_append)
  from move(2) [OF this] have "mem_bytes m1 (fdt + of_nat (P + nl)) (rsvmap (post @ [(0, 0)]))"
    using P b len by (simp add: D_def P_def ol_def add.assoc del: rsvmap_append)
  then have r2: "mem_bytes m3 (fdt + of_nat (P + nl)) (rsvmap (post @ [(0, 0)]))"
    by (rule keep) (use P b len room in \<open>auto simp: D_def P_def ol_def\<close>)
  have "mem_bytes m1 (fdt + of_nat (b_soff B + nl - ol)) (b_struct B)"
    using ok b P by (intro move(2)) (auto simp: D_def)
  then have s1: "mem_bytes m3 (fdt + of_nat (b_soff B + nl - ol)) (b_struct B)"
    by (rule keep) (use P b room in \<open>auto simp: D_def\<close>)
  have "mem_bytes m1 (fdt + of_nat (b_toff B + nl - ol)) (b_strs B)"
    using ok b P by (intro move(2)) (auto simp: D_def)
  then have t1: "mem_bytes m3 (fdt + of_nat (b_toff B + nl - ol)) (b_strs B)"
    by (rule keep) (use P b room in \<open>auto simp: D_def\<close>)
  have "same_outside m m3 fdt (b_total B)"
    unfolding m3_def m2_def
    using memmove_outside [OF b(1), of "P + ol" "D - (P + ol)" "P + nl" "b_total B" m] P room b
    by (intro same_outside_set) (auto simp: m1_def)
  moreover have "fdt_splice fdt (fdt + of_nat P) (of_nat ol) (of_nat nl) m = (0, m1)"
    using room unfolding m1_def by (subst sp) simp
  then have "fdt_splice_mem_rsv fdt (fdt + of_nat P) (of_nat on) (of_nat nn) m = (0, m3)"
    unfolding fdt_splice_mem_rsv_def w m3_def m2_def v_def v'_def
    by (simp add: header_fields [OF h1] header_fields [OF h2 [unfolded m2_def v_def]] Let_def)
  ultimately show "\<exists>m'. fdt_splice_mem_rsv fdt (fdt + of_nat P) (of_nat on) (of_nat nn) m = (0, m') \<and>
        mem_bytes m' fdt (fdt_header (shifted on nn B)) \<and>
        mem_bytes m' (fdt + of_nat (b_roff B)) (rsvmap pre) \<and>
        mem_bytes m' (fdt + of_nat (P + 16 * nn)) (rsvmap (post @ [(0, 0)])) \<and>
        mem_bytes m' (fdt + of_nat (b_soff (shifted on nn B))) (b_struct B) \<and>
        mem_bytes m' (fdt + of_nat (b_toff (shifted on nn B))) (b_strs B) \<and>
        same_outside m m' fdt (b_total B)"
    using h3 r1 r2 s1 t1 by (intro exI [of _ m3]) (simp add: ol_def nl_def del: rsvmap_append)
qed

end
