(* ===== verification/Fdt_Edit.thy ===== *)
theory Fdt_Edit
  imports Fdt_Tree Fdt_Splice
begin

text \<open>
  Editing a tree, the first part: what an edit of a blob is (\<open>edited\<close>), strings that are found or
  added, and a new property, which comes first in its node (\<open>fdt_add_property_\<close>). Either the blob is
  the edited tree, or the tree is as it was and the call reports that there is no space.
\<close>

section \<open>Edits of a blob\<close>

abbreviation used :: "blob \<Rightarrow> nat" where
  "used B \<equiv> b_toff B + length (b_strs B)"

definition edited :: "mem \<Rightarrow> mem \<Rightarrow> u64 \<Rightarrow> blob \<Rightarrow> blob \<Rightarrow> bool" where
  "edited m m' fdt B B' \<longleftrightarrow>
     b_total B' = b_total B \<and> b_rsv B' = b_rsv B \<and> same_outside m m' fdt (b_total B)"

lemma edited_refl [simp]: "edited m m fdt B B"
  by (simp add: edited_def)

lemma edited_trans [trans]: "edited m m' fdt B B' \<Longrightarrow> edited m' m'' fdt B' B'' \<Longrightarrow> edited m m'' fdt B B''"
  by (auto simp: edited_def intro: same_outside_trans)

lemma str_at_mono: "str_at S no nm \<Longrightarrow> str_at (S @ zs) no nm"
  by (simp add: str_at_def)

lemma tok_enc_mono: "tok_enc S t xs \<Longrightarrow> tok_enc (S @ zs) t xs"
  by (cases t) (simp_all, blast intro: str_at_mono)

lemma toks_enc_mono: "toks_enc S ts xs \<Longrightarrow> toks_enc (S @ zs) ts xs"
  by (induction ts arbitrary: xs) (auto intro: tok_enc_mono)

lemma splice_block:
  assumes B: "blob_at m fdt B" and st: "b_struct B = x @ y @ z" and nl: "nl < 2 ^ 31"
  shows "used B + nl > b_total B + length y \<and>
      fdt_splice_struct fdt (fdt + of_nat (b_soff B + length x)) (of_nat (length y)) (of_nat nl) m = (- FDT_ERR_NOSPACE, m) \<or>
    used B + nl \<le> b_total B + length y \<and>
      (\<exists>m' new. fdt_splice_struct fdt (fdt + of_nat (b_soff B + length x)) (of_nat (length y)) (of_nat nl) m = (0, m') \<and>
        length new = nl \<and>
        blob_at m' fdt (B\<lparr>b_struct := x @ new @ z, b_toff := b_toff B + nl - length y\<rparr>) \<and>
        same_outside m m' fdt (b_total B))"
proof -
  have k: "length x + length y \<le> length (b_struct B)" and y: "length y \<le> used B"
    using st blob_bounds [OF B] by simp_all
  show ?thesis
  proof (cases "used B + nl > b_total B + length y")
    case True
    with splice_struct_at(1) [OF B k nl] y show ?thesis by simp
  next
    case False
    then have room: "used B - length y + nl \<le> b_total B"
      using y by simp
    obtain m' new where
      "fdt_splice_struct fdt (fdt + of_nat (b_soff B + length x)) (of_nat (length y)) (of_nat nl) m = (0, m')"
      "length new = nl" "blob_at m' fdt (spliced (length x) (length y) new B)" "same_outside m m' fdt (b_total B)"
      using splice_struct_at(2) [OF B k nl room] by blast
    with False show ?thesis
      by (intro disjI2 conjI exI [of _ m'] exI [of _ new]) (simp_all add: st)
  qed
qed

lemma write_block:
  assumes B: "blob_at m fdt B" and st: "b_struct B = x @ w @ z" and len: "length w = length bs"
  shows "blob_at (mem_write m (fdt + of_nat (b_soff B + length x)) bs) fdt (B\<lparr>b_struct := x @ bs @ z\<rparr>)"
    "same_outside m (mem_write m (fdt + of_nat (b_soff B + length x)) bs) fdt (b_total B)"
proof -
  have "overwrite (length x) bs (b_struct B) = x @ bs @ z"
    by (simp add: overwrite_def st flip: len)
  then show "blob_at (mem_write m (fdt + of_nat (b_soff B + length x)) bs) fdt (B\<lparr>b_struct := x @ bs @ z\<rparr>)"
    using struct_write(1) [OF B, of "length x" bs] st len by simp
  show "same_outside m (mem_write m (fdt + of_nat (b_soff B + length x)) bs) fdt (b_total B)"
    using struct_write(2) [OF B, of "length x" bs] st len by simp
qed

section \<open>Setting a property\<close>

fun upd_prop :: "u8 list \<Rightarrow> u8 list \<Rightarrow> (u8 list \<times> u8 list) list \<Rightarrow> (u8 list \<times> u8 list) list" where
  "upd_prop s v [] = []"
| "upd_prop s v ((nm, d) # ps) = (if nm = s then (s, v) # ps else (nm, d) # upd_prop s v ps)"

definition set_prop :: "u8 list \<Rightarrow> u8 list \<Rightarrow> (u8 list \<times> u8 list) list \<Rightarrow> (u8 list \<times> u8 list) list" where
  "set_prop s v ps = (if map_of ps s = None then (s, v) # ps else upd_prop s v ps)"

lemma upd_prop_split: "s \<notin> fst ` set ps \<Longrightarrow> upd_prop s v (ps @ (s, d) # qs) = ps @ (s, v) # qs"
  by (induction ps) auto

lemma map_of_upd_prop: "map_of ps s \<noteq> None \<Longrightarrow> map_of (upd_prop s v ps) = (map_of ps)(s \<mapsto> v)"
  by (induction ps) (auto split: if_splits)

lemma map_of_set_prop [simp]: "map_of (set_prop s v ps) = (map_of ps)(s \<mapsto> v)"
  by (auto simp: set_prop_def map_of_upd_prop)

text \<open>The bytes of a property: the header, the value, the padding.\<close>

lemma split_prop:
  fixes new :: "u8 list"
  assumes "length new = 12 + (l + p)"
  obtains a b c d e where "new = a @ b @ c @ d @ e" "length a = 4" "length b = 4" "length c = 4"
    "length d = l" "length e = p"
proof -
  have split: "\<exists>u w. xs = u @ w \<and> length u = i \<and> length w = j" if "length xs = i + j" for xs :: "u8 list" and i j
    using that by (intro exI [of _ "take i xs"] exI [of _ "drop i xs"]) simp
  obtain a x1 where 1: "new = a @ x1" "length a = 4" "length x1 = 4 + (4 + (l + p))"
    using split [of new 4 "4 + (4 + (l + p))"] assms by auto
  obtain b x2 where 2: "x1 = b @ x2" "length b = 4" "length x2 = 4 + (l + p)"
    using split [OF 1(3)] by auto
  obtain c x3 where 3: "x2 = c @ x3" "length c = 4" "length x3 = l + p"
    using split [OF 2(3)] by auto
  obtain d e where 4: "x3 = d @ e" "length d = l" "length e = p"
    using split [OF 3(3)] by auto
  show thesis
    using 1 2 3 4 by (intro that [of a b c d e]) simp_all
qed

lemma fill_prop:
  assumes B: "blob_at m fdt B" and st: "b_struct B = x @ new @ z" and len: "length new = 12 + (length v + pad4 (length v))"
    and no: "str_at (b_strs B) no s"
  defines "p \<equiv> fdt + of_nat (b_soff B + length x)"
  defines "m' \<equiv> mem_write (fdt32_st (p + 4) (of_nat (length v)) (fdt32_st (p + 8) (of_nat no) (fdt32_st p FDT_PROP m))) (p + 12) v"
  obtains y where "tok_enc (b_strs B) (TProp s v) y" "blob_at m' fdt (B\<lparr>b_struct := x @ y @ z\<rparr>)"
    "same_outside m m' fdt (b_total B)"
proof -
  obtain a b c d e where new: "new = a @ b @ c @ d @ e" and l: "length a = 4" "length b = 4" "length c = 4"
    "length d = length v" "length e = pad4 (length v)"
    using len by (rule split_prop)
  let ?y = "be32_bytes FDT_PROP @ be32_bytes (of_nat (length v)) @ be32_bytes (of_nat no) @ v @ e"
  define m1 where "m1 = fdt32_st p FDT_PROP m"
  define m2 where "m2 = fdt32_st (p + 8) (of_nat no) m1"
  define m3 where "m3 = fdt32_st (p + 4) (of_nat (length v)) m2"
  let ?B = "\<lambda>y. B\<lparr>b_struct := x @ y @ z\<rparr>"
  have 1: "blob_at m1 fdt (?B (be32_bytes FDT_PROP @ b @ c @ d @ e))" "same_outside m m1 fdt (b_total B)"
    using write_block [OF B, of x a "b @ c @ d @ e @ z" "be32_bytes FDT_PROP"] st new l
    by (simp_all add: m1_def fdt32_st_def p_def)
  have 2: "blob_at m2 fdt (?B (be32_bytes FDT_PROP @ b @ be32_bytes (of_nat no) @ d @ e))" "same_outside m1 m2 fdt (b_total B)"
    using write_block [OF 1(1), of "x @ be32_bytes FDT_PROP @ b" c "d @ e @ z" "be32_bytes (of_nat no)"] l
    by (simp_all add: m2_def fdt32_st_def p_def add.assoc)
  have 3: "blob_at m3 fdt (?B (be32_bytes FDT_PROP @ be32_bytes (of_nat (length v)) @ be32_bytes (of_nat no) @ d @ e))"
    "same_outside m2 m3 fdt (b_total B)"
    using write_block [OF 2(1), of "x @ be32_bytes FDT_PROP" b "be32_bytes (of_nat no) @ d @ e @ z" "be32_bytes (of_nat (length v))"] l
    by (simp_all add: m3_def fdt32_st_def p_def add.assoc)
  have 4: "blob_at m' fdt (?B ?y)" "same_outside m3 m' fdt (b_total B)"
    using write_block [OF 3(1), of "x @ be32_bytes FDT_PROP @ be32_bytes (of_nat (length v)) @ be32_bytes (of_nat no)" d "e @ z" v] l
    by (simp_all add: m'_def m3_def m2_def m1_def p_def add.assoc)
  have "same_outside m m' fdt (b_total B)"
    using 1(2) 2(2) 3(2) 4(2) by (blast intro: same_outside_trans)
  moreover have "tok_enc (b_strs B) (TProp s v) ?y"
    using no l by auto
  ultimately show thesis
    using 4(1) by (intro that)
qed

definition prop_cost :: "u8 list \<Rightarrow> u8 list \<Rightarrow> nat" where
  "prop_cost s v = length s + 1 + (12 + (length v + pad4 (length v)))"

lemma add_property_at:
  assumes T: "toks_at m fdt B (pre @ TBegin n # post)" and s: "0 \<notin> set s"
    and len: "length s < 2 ^ 30" "length v < 2 ^ 30"
  shows "\<exists>B' m'. edited m m' fdt B B' \<and>
    ((\<exists>p m1. fdt_add_property fdt (pos pre) s (of_nat (length v)) m = (Inr p, m1) \<and>
        m' = mem_write m1 (p + 12) v \<and> used B' \<le> used B + prop_cost s v \<and>
        toks_at m' fdt B' (pre @ TBegin n # TProp s v # post)) \<or>
     (fdt_add_property fdt (pos pre) s (of_nat (length v)) m = (Inl (- FDT_ERR_NOSPACE), m') \<and>
        used B + prop_cost s v > b_total B \<and> toks_at m' fdt B' (pre @ TBegin n # post)))"
proof -
  let ?q = "pre @ [TBegin n]" and ?nl = "12 + (length v + pad4 (length v))"
  have B: "blob_at m fdt B" and E: "toks_enc (b_strs B) (?q @ post) (b_struct B)"
    using T by (simp_all add: toks_at_def)
  obtain x z where xz: "b_struct B = x @ z" "toks_enc (b_strs B) ?q x" "toks_enc (b_strs B) post z"
    using E unfolding toks_enc_append by blast
  have lx: "length x = toks_len ?q"
    using xz(2) by (rule toks_enc_length)
  have node: "fdt_check_node_offset m fdt (pos pre) = pos ?q" "\<not> neg (pos ?q)"
    using check_node_at [OF T] toks_at_pos [of m fdt B ?q post] T by simp_all
  have nl: "?nl < 2 ^ 31" "(12 + FDT_TAGALIGN (of_nat (length v)) :: u32) = of_nat ?nl"
    using len pad4_less [of "length v"] by (simp_all add: TAGALIGN_of_nat)
  have "length s < 2 ^ 31" using len by simp
  show ?thesis
    using find_add_string_at [OF B s len(1)]
  proof (elim disjE exE conjE)
    fix k m1 zs
    assume f: "fdt_find_add_string fdt s m = (of_nat k, False, m1)" "k < 2 ^ 31"
      and B1: "blob_at m1 fdt (with_strs B zs)" and no: "str_at (b_strs B @ zs) k s"
      and out: "same_outside m m1 fdt (b_total B)" and zs: "length zs \<le> length s + 1"
    let ?B1 = "with_strs B zs"
    have ptr: "fdt_offset_ptr_raw m1 fdt (pos ?q) = fdt + of_nat (b_soff B + length x)"
      using offset_ptr_raw [OF B1, of "toks_len ?q"] xz(1) lx by simp
    have st: "b_struct ?B1 = x @ [] @ z"
      using xz(1) by simp
    show ?thesis
      using splice_block [OF B1 st nl(1), unfolded list.size(3)]
    proof (elim disjE exE conjE)
      assume "used ?B1 + ?nl > b_total ?B1 + 0"
        "fdt_splice_struct fdt (fdt + of_nat (b_soff ?B1 + length x)) (of_nat 0) (of_nat ?nl) m1 = (- FDT_ERR_NOSPACE, m1)"
      then have "fdt_add_property fdt (pos pre) s (of_nat (length v)) m = (Inl (- FDT_ERR_NOSPACE), m1)"
        unfolding fdt_add_property_def Let_def node(1) f(1) using node(2) f(2) ptr nl(2) by simp
      moreover have "toks_at m1 fdt ?B1 (pre @ TBegin n # post)"
        using B1 toks_enc_mono [OF E, of zs] by (simp add: toks_at_def)
      moreover have "used B + prop_cost s v > b_total B"
        using \<open>used ?B1 + ?nl > _\<close> zs by (simp add: prop_cost_def)
      ultimately show ?thesis
        using out by (intro exI [of _ ?B1] exI [of _ m1]) (simp add: edited_def)
    next
      fix m2 new
      let ?B2 = "?B1\<lparr>b_struct := x @ new @ z, b_toff := b_toff ?B1 + ?nl - 0\<rparr>"
      let ?p = "fdt + of_nat (b_soff B + length x)"
      let ?m3 = "fdt32_st (?p + 4) (of_nat (length v)) (fdt32_st (?p + 8) (of_nat k) (fdt32_st ?p FDT_PROP m2))"
      assume room: "used ?B1 + ?nl \<le> b_total ?B1 + 0" and new: "length new = ?nl"
        and sp: "fdt_splice_struct fdt (fdt + of_nat (b_soff ?B1 + length x)) (of_nat 0) (of_nat ?nl) m1 = (0, m2)"
        and B2: "blob_at m2 fdt ?B2" and out2: "same_outside m1 m2 fdt (b_total ?B1)"
      obtain y where y: "tok_enc (b_strs ?B2) (TProp s v) y"
        "blob_at (mem_write ?m3 (?p + 12) v) fdt (?B2\<lparr>b_struct := x @ y @ z\<rparr>)"
        "same_outside m2 (mem_write ?m3 (?p + 12) v) fdt (b_total ?B2)"
        using fill_prop [OF B2, of x new z v k s] new no by auto
      have "fdt_add_property fdt (pos pre) s (of_nat (length v)) m = (Inr ?p, ?m3)"
        unfolding fdt_add_property_def Let_def node(1) f(1) using node(2) f(2) ptr nl(2) sp by simp
      moreover have "toks_enc (b_strs B @ zs) (?q @ TProp s v # post) (x @ y @ z)"
        using toks_enc_mono [OF xz(2), of zs] toks_enc_mono [OF xz(3), of zs] y(1)
        by (intro toks_encI) simp_all
      then have "toks_at (mem_write ?m3 (?p + 12) v) fdt (?B2\<lparr>b_struct := x @ y @ z\<rparr>) (pre @ TBegin n # TProp s v # post)"
        using y(2) by (simp add: toks_at_def)
      moreover have "edited m (mem_write ?m3 (?p + 12) v) fdt B (?B2\<lparr>b_struct := x @ y @ z\<rparr>)"
        using out out2 y(3) by (auto simp: edited_def intro: same_outside_trans)
      moreover have "used (?B2\<lparr>b_struct := x @ y @ z\<rparr>) \<le> used B + prop_cost s v"
        using zs by (simp add: prop_cost_def)
      ultimately show ?thesis
        by (intro exI [of _ "?B2\<lparr>b_struct := x @ y @ z\<rparr>"] exI [of _ "mem_write ?m3 (?p + 12) v"]) blast
    qed
  next
    assume "fdt_find_add_string fdt s m = (- FDT_ERR_NOSPACE, False, m)"
      "b_toff B + length (b_strs B) + length s + 1 > b_total B"
    moreover from this have "fdt_add_property fdt (pos pre) s (of_nat (length v)) m = (Inl (- FDT_ERR_NOSPACE), m)"
      unfolding fdt_add_property_def Let_def node(1) using node(2) by simp
    ultimately show ?thesis
      using T by (intro exI [of _ B] exI [of _ m]) (simp add: prop_cost_def)
  qed
qed

end
