(* ===== verification/Fdt_Set.thy ===== *)
theory Fdt_Set
  imports Fdt_Edit
begin

text \<open>
  What \<open>fdt_setprop\<close> and \<open>fdt_delprop\<close> do to the tree: the property is replaced in place, added in front
  or taken out, or there is no space and the tree is as it was.
\<close>

section \<open>Setting a property that is there\<close>

lemma TAGALIGN_len: "l < 2 ^ 30 \<Longrightarrow> FDT_TAGALIGN (of_nat l) = of_nat (l + pad4 l)"
  by (rule TAGALIGN_of_nat) simp

lemma resize_property_at:
  assumes T: "toks_at m fdt B (q @ TProp s d # post)" and len: "length v < 2 ^ 30"
    and found: "get_property_namelen m fdt off s =
      Some (Inr (fdt_offset_ptr_raw m fdt (pos q), of_nat (length d), pos q))"
  shows "\<exists>B' m'. edited m m' fdt B B' \<and>
    ((\<exists>p m1. fdt_resize_property fdt off s (of_nat (length v)) m = Some (Inr p, m1) \<and>
        m' = mem_write m1 (p + 12) v \<and> used B' \<le> used B + prop_cost s v \<and>
        toks_at m' fdt B' (q @ TProp s v # post)) \<or>
     (fdt_resize_property fdt off s (of_nat (length v)) m = Some (Inl (- FDT_ERR_NOSPACE), m') \<and>
        used B + prop_cost s v > b_total B \<and> toks_at m' fdt B' (q @ TProp s d # post)))"
proof -
  have B: "blob_at m fdt B"
    using T by (simp add: toks_at_def)
  obtain x y z where xyz: "b_struct B = x @ y @ z" "length x = toks_len q" "tok_enc (b_strs B) (TProp s d) y"
    "toks_enc (b_strs B) q x" "toks_enc (b_strs B) post z"
    using T unfolding toks_at_def by (blast elim: toks_enc_split)
  then obtain no p where y: "str_at (b_strs B) no s" "length p = pad4 (length d)"
    "y = be32_bytes FDT_PROP @ be32_bytes (of_nat (length d)) @ be32_bytes (of_nat no) @ d @ p"
    by auto
  let ?x = "x @ be32_bytes FDT_PROP @ be32_bytes (of_nat (length d)) @ be32_bytes (of_nat no)"
  let ?y = "d @ p" and ?nl = "length v + pad4 (length v)" and ?p = "fdt + of_nat (b_soff B + length x)"
  have st: "b_struct B = ?x @ ?y @ z"
    using xyz(1) y(3) by simp
  have ptr: "fdt_offset_ptr_raw m fdt (pos q) = ?p"
    using ptr_at [OF T] xyz(2) by simp
  have "length d < 2 ^ 31"
    using blob_bounds [OF B] st by simp
  have nl: "?nl < 2 ^ 31" "FDT_TAGALIGN (of_nat (length v)) = of_nat ?nl"
    using len pad4_less [of "length v"] by (simp_all add: TAGALIGN_len)
  have ol: "FDT_TAGALIGN (of_nat (length d)) = of_nat (length ?y)"
    using \<open>length d < 2 ^ 31\<close> y(2) by (simp add: TAGALIGN_of_nat)
  have data: "?p + 12 = fdt + of_nat (b_soff B + length ?x)"
    by (simp add: add.assoc)
  have unfolded: "fdt_resize_property fdt off s (of_nat (length v)) m =
    Some (let (err, m) = fdt_splice_struct fdt (?p + 12) (of_nat (length ?y)) (of_nat ?nl) m
          in if err \<noteq> 0 then (Inl err, m) else (Inr ?p, fdt32_st (?p + 4) (of_nat (length v)) m))"
    unfolding fdt_resize_property_def fdt_get_property_namelen_def found nl(2) ol ptr
    by (simp add: Let_def ol del: of_nat_add length_append)
  show ?thesis
    using splice_block [OF B st nl(1)]
  proof (elim disjE exE conjE)
    assume "used B + ?nl > b_total B + length ?y"
      "fdt_splice_struct fdt (fdt + of_nat (b_soff B + length ?x)) (of_nat (length ?y)) (of_nat ?nl) m = (- FDT_ERR_NOSPACE, m)"
    then have "fdt_resize_property fdt off s (of_nat (length v)) m = Some (Inl (- FDT_ERR_NOSPACE), m)"
      "used B + prop_cost s v > b_total B"
      unfolding unfolded data by (simp_all add: prop_cost_def)
    then show ?thesis
      using T by (intro exI [of _ B] exI [of _ m]) simp
  next
    fix m1 new
    let ?B1 = "B\<lparr>b_struct := ?x @ new @ z, b_toff := b_toff B + ?nl - length ?y\<rparr>"
    assume sp: "fdt_splice_struct fdt (fdt + of_nat (b_soff B + length ?x)) (of_nat (length ?y)) (of_nat ?nl) m = (0, m1)"
      and new: "length new = ?nl" and B1: "blob_at m1 fdt ?B1" and out1: "same_outside m m1 fdt (b_total B)"
    define m2 where "m2 = fdt32_st (?p + 4) (of_nat (length v)) m1"
    define m3 where "m3 = mem_write m2 (?p + 12) v"
    let ?h = "x @ be32_bytes FDT_PROP" and ?k = "be32_bytes (of_nat no)" and ?l = "be32_bytes (of_nat (length v))"
    let ?e = "drop (length v) new"
    have 2: "blob_at m2 fdt (?B1\<lparr>b_struct := ?h @ ?l @ ?k @ new @ z\<rparr>)" "same_outside m1 m2 fdt (b_total B)"
      using write_block [OF B1, of ?h "be32_bytes (of_nat (length d))" "?k @ new @ z" ?l]
      by (simp_all add: m2_def fdt32_st_def add.assoc)
    have 3: "blob_at m3 fdt (?B1\<lparr>b_struct := ?h @ ?l @ ?k @ v @ ?e @ z\<rparr>)" "same_outside m2 m3 fdt (b_total B)"
      using write_block [OF 2(1), of "?h @ ?l @ ?k" "take (length v) new" "?e @ z" v] new
      by (simp_all add: m3_def add.assoc)
    have "tok_enc (b_strs B) (TProp s v) (be32_bytes FDT_PROP @ ?l @ ?k @ v @ ?e)"
      using y(1) new by auto
    then have "toks_enc (b_strs B) (q @ TProp s v # post) (x @ (be32_bytes FDT_PROP @ ?l @ ?k @ v @ ?e) @ z)"
      using xyz(4,5) by (intro toks_encI)
    then have "toks_at m3 fdt (?B1\<lparr>b_struct := ?h @ ?l @ ?k @ v @ ?e @ z\<rparr>) (q @ TProp s v # post)"
      using 3(1) by (simp add: toks_at_def)
    moreover have "edited m m3 fdt B (?B1\<lparr>b_struct := ?h @ ?l @ ?k @ v @ ?e @ z\<rparr>)"
      using out1 2(2) 3(2) by (auto simp: edited_def intro: same_outside_trans)
    moreover have "fdt_resize_property fdt off s (of_nat (length v)) m = Some (Inr ?p, m2)"
      unfolding unfolded data sp m2_def by simp
    moreover have "used (?B1\<lparr>b_struct := ?h @ ?l @ ?k @ v @ ?e @ z\<rparr>) \<le> used B + prop_cost s v"
      by (simp add: prop_cost_def)
    ultimately show ?thesis
      unfolding m3_def by blast
  qed
qed

lemma setprop_resized:
  assumes "fdt_resize_property fdt off (bytes s) (of_nat (length v)) m = Some (r, m1)"
    and "r \<noteq> Inl (- FDT_ERR_NOTFOUND)"
  shows "fdt_setprop fdt off s v m =
    Some (case r of Inl err \<Rightarrow> (err, m1) | Inr p \<Rightarrow> (0, mem_write m1 (p + 12) v))"
  using assms by (simp add: fdt_setprop_def fdt_setprop_placeholder_def split: sum.splits)

lemma setprop_added:
  assumes "get_property_namelen m fdt off (bytes s) = Some (Inl (- FDT_ERR_NOTFOUND))"
    and "fdt_add_property fdt off (bytes s) (of_nat (length v)) m = (r, m1)"
  shows "fdt_setprop fdt off s v m =
    Some (case r of Inl err \<Rightarrow> (err, m1) | Inr p \<Rightarrow> (0, mem_write m1 (p + 12) v))"
  using assms by (simp add: fdt_setprop_def fdt_setprop_placeholder_def fdt_resize_property_def
      fdt_get_property_namelen_def split: sum.splits)

definition set_done :: "blob \<Rightarrow> nat \<Rightarrow> (mem \<Rightarrow> blob \<Rightarrow> bool) \<Rightarrow> (mem \<Rightarrow> blob \<Rightarrow> bool) \<Rightarrow> u32 \<Rightarrow> mem \<Rightarrow> blob \<Rightarrow> bool" where
  "set_done B cost new old r m' B' \<longleftrightarrow>
     (if r = 0 then used B' \<le> used B + cost \<and> new m' B'
      else r = - FDT_ERR_NOSPACE \<and> used B + cost > b_total B \<and> old m' B')"

theorem setprop_at:
  assumes T: "toks_at m fdt B (pre @ flat (DNode n ps ks) @ post)" and s: "0 \<notin> set (bytes s)"
    and len: "length (bytes s) < 2 ^ 30" "length v < 2 ^ 30"
  shows "\<exists>r m' B'. fdt_setprop fdt (pos pre) s v m = Some (r, m') \<and> edited m m' fdt B B' \<and>
    set_done B (prop_cost (bytes s) v)
      (\<lambda>m' B'. toks_at m' fdt B' (pre @ flat (DNode n (set_prop (bytes s) v ps) ks) @ post))
      (\<lambda>m' B'. toks_at m' fdt B' (pre @ flat (DNode n ps ks) @ post)) r m' B'"
proof (cases "map_of ps (bytes s)")
  case None
  let ?post = "prop_toks ps @ concat (map flat ks) @ [TEndNode] @ post"
  have g: "get_property_namelen m fdt (pos pre) (bytes s) = Some (Inl (- FDT_ERR_NOTFOUND))"
    using get_property_at [OF T s] None by (simp add: found_prop_def)
  have T': "toks_at m fdt B (pre @ TBegin n # ?post)"
    using T by simp
  show ?thesis
    using add_property_at [OF T' s len(1) len(2)] None
    by (elim exE conjE disjE) (auto simp: setprop_added [OF g] set_done_def set_prop_def)
next
  case (Some d)
  then obtain qs where ps: "ps = props_before (bytes s) ps @ (bytes s, d) # qs"
    by (rule found_prop_split)
  let ?q = "(pre @ [TBegin n]) @ prop_toks (props_before (bytes s) ps)"
    and ?post = "prop_toks qs @ concat (map flat ks) @ [TEndNode] @ post"
  have T': "toks_at m fdt B (?q @ TProp (bytes s) d # ?post)"
    using T by (subst (asm) ps) simp
  have "bytes s \<notin> fst ` set (props_before (bytes s) ps)"
    by (auto dest: set_takeWhileD)
  then have u: "upd_prop (bytes s) v ps = props_before (bytes s) ps @ (bytes s, v) # qs"
    using upd_prop_split [of "bytes s" "props_before (bytes s) ps" v d qs] ps by simp
  have old: "pre @ flat (DNode n ps ks) @ post = ?q @ TProp (bytes s) d # ?post"
    by (subst ps) simp
  have new: "pre @ flat (DNode n (set_prop (bytes s) v ps) ks) @ post = ?q @ TProp (bytes s) v # ?post"
    using Some by (simp add: set_prop_def u)
  have g: "get_property_namelen m fdt (pos pre) (bytes s) =
      Some (Inr (fdt_offset_ptr_raw m fdt (pos ?q), of_nat (length d), pos ?q))"
    using get_property_at [OF T s] Some by (simp add: found_prop_def Let_def)
  show ?thesis
    unfolding old new using resize_property_at [OF T' len(2) g]
    by (elim exE conjE disjE) (simp_all add: setprop_resized set_done_def, blast+)
qed

section \<open>Deleting a property\<close>

fun del_prop :: "u8 list \<Rightarrow> (u8 list \<times> u8 list) list \<Rightarrow> (u8 list \<times> u8 list) list" where
  "del_prop s [] = []"
| "del_prop s ((nm, d) # ps) = (if nm = s then ps else (nm, d) # del_prop s ps)"

lemma del_prop_split: "s \<notin> fst ` set ps \<Longrightarrow> del_prop s (ps @ (s, d) # qs) = ps @ qs"
  by (induction ps) auto

lemma map_of_del_prop: "distinct (map fst ps) \<Longrightarrow> map_of (del_prop s ps) = (map_of ps)(s := None)"
proof (induction s ps rule: del_prop.induct)
  case (2 s nm d ps)
  then have "map_of ps nm = None"
    by (simp add: map_of_eq_None_iff)
  with 2 show ?case by (auto simp: fun_upd_twist)
qed simp

theorem delprop_at:
  assumes T: "toks_at m fdt B (pre @ flat (DNode n ps ks) @ post)" and s: "0 \<notin> set (bytes s)"
  shows "map_of ps (bytes s) = None \<Longrightarrow> fdt_delprop fdt (pos pre) s m = Some (- FDT_ERR_NOTFOUND, m)"
    and "map_of ps (bytes s) = Some d \<Longrightarrow>
      \<exists>m' B'. fdt_delprop fdt (pos pre) s m = Some (0, m') \<and> edited m m' fdt B B' \<and> used B' < used B \<and>
        toks_at m' fdt B' (pre @ flat (DNode n (del_prop (bytes s) ps) ks) @ post)"
proof -
  note g = get_property_at [OF T s]
  show "map_of ps (bytes s) = None \<Longrightarrow> fdt_delprop fdt (pos pre) s m = Some (- FDT_ERR_NOTFOUND, m)"
    by (simp add: fdt_delprop_def rw_probed_def fdt_get_property_def fdt_get_property_namelen_def g found_prop_def)
  assume Some: "map_of ps (bytes s) = Some d"
  then obtain qs where ps: "ps = props_before (bytes s) ps @ (bytes s, d) # qs"
    by (rule found_prop_split)
  let ?q = "(pre @ [TBegin n]) @ prop_toks (props_before (bytes s) ps)"
    and ?post = "prop_toks qs @ concat (map flat ks) @ [TEndNode] @ post"
  have T': "toks_at m fdt B (?q @ TProp (bytes s) d # ?post)"
    using T by (subst (asm) ps) simp
  have B: "blob_at m fdt B"
    using T by (simp add: toks_at_def)
  obtain x y z where xyz: "b_struct B = x @ y @ z" "length x = toks_len ?q" "tok_enc (b_strs B) (TProp (bytes s) d) y"
    "toks_enc (b_strs B) ?q x" "toks_enc (b_strs B) ?post z"
    using T' unfolding toks_at_def by (blast elim: toks_enc_split)
  have y: "length y = 12 + (length d + pad4 (length d))"
    using tok_enc_length [OF xyz(3)] by simp
  have "length d < 2 ^ 31"
    using blob_bounds [OF B] xyz(1) y by simp
  then have ol: "12 + FDT_TAGALIGN (of_nat (length d)) = (of_nat (length y) :: u32)"
    by (simp add: TAGALIGN_of_nat y)
  have ptr: "fdt_offset_ptr_raw m fdt (pos ?q) = fdt + of_nat (b_soff B + length x)"
    using ptr_at [OF T'] xyz(2) by simp
  have g: "get_property_namelen m fdt (pos pre) (bytes s) =
      Some (Inr (fdt_offset_ptr_raw m fdt (pos ?q), of_nat (length d), pos ?q))"
    using get_property_at [OF T s] Some by (simp add: found_prop_def Let_def)
  have call: "fdt_delprop fdt (pos pre) s m =
      Some (fdt_splice_struct fdt (fdt + of_nat (b_soff B + length x)) (of_nat (length y)) (of_nat 0) m)"
    unfolding fdt_delprop_def rw_probed_def fdt_get_property_def fdt_get_property_namelen_def g ptr
    by (simp add: ol del: of_nat_add)
  have no_err: "\<not> used B + 0 > b_total B + length y"
    using blob_bounds [OF B] by simp
  obtain m' where m': "fdt_splice_struct fdt (fdt + of_nat (b_soff B + length x)) (of_nat (length y)) (of_nat 0) m = (0, m')"
    "blob_at m' fdt (B\<lparr>b_struct := x @ [] @ z, b_toff := b_toff B + 0 - length y\<rparr>)" (is "blob_at _ _ ?B'")
    "same_outside m m' fdt (b_total B)"
    using splice_block [OF B xyz(1), of 0] no_err by auto
  have "bytes s \<notin> fst ` set (props_before (bytes s) ps)"
    by (auto dest: set_takeWhileD)
  then have "del_prop (bytes s) ps = props_before (bytes s) ps @ qs"
    using del_prop_split [of "bytes s" "props_before (bytes s) ps" d qs] ps by simp
  then have new: "pre @ flat (DNode n (del_prop (bytes s) ps) ks) @ post = ?q @ ?post"
    by simp
  have "toks_at m' fdt ?B' (?q @ ?post)"
    unfolding toks_at_def using m'(2) toks_enc_appI [OF xyz(4,5)] by simp
  moreover have "length y \<le> b_toff B"
    using blob_bounds [OF B] xyz(1) by simp
  then have "used ?B' < used B"
    using y by simp
  ultimately show "\<exists>m' B'. fdt_delprop fdt (pos pre) s m = Some (0, m') \<and> edited m m' fdt B B' \<and> used B' < used B \<and>
      toks_at m' fdt B' (pre @ flat (DNode n (del_prop (bytes s) ps) ks) @ post)"
    unfolding new using call m'(1,3) by (intro exI [of _ m'] exI [of _ ?B']) (simp add: edited_def)
qed

end
