(* ===== verification/Fdt_Nodes.thy ===== *)
theory Fdt_Nodes
  imports Fdt_Set
begin

text \<open>
  Adding and deleting nodes: \<open>fdt_add_subnode\<close> puts an empty child first among the children of its
  parent, \<open>fdt_del_node\<close> finds the end of a node and takes it out.
\<close>

lemma skip_props_at:
  assumes "tok_tag t \<in> {FDT_BEGIN_NODE, FDT_END_NODE}"
  shows "toks_at m fdt B (pre @ prop_toks ps @ t # post) \<Longrightarrow>
    skip_props m fdt (pos pre) = Some (pos (pre @ prop_toks ps))"
proof (induction ps arbitrary: pre)
  case Nil
  then show ?case
    using next_tag_at [of m fdt B pre t post] assms
    by (simp add: skip_props.simps [of m fdt "pos pre"]) auto
next
  case (Cons p ps)
  obtain nm d where p: "p = (nm, d)" by (cases p)
  have T: "toks_at m fdt B (pre @ TProp nm d # prop_toks ps @ t # post)"
    using Cons.prems p by simp
  have "skip_props m fdt (pos pre) = skip_props m fdt (pos (pre @ [TProp nm d]))"
    using next_tag_at [OF T] by (simp add: skip_props.simps [of m fdt "pos pre"])
  also have "\<dots> = Some (pos ((pre @ [TProp nm d]) @ prop_toks ps))"
    using T by (intro Cons.IH) simp
  finally show ?case by (simp add: p add.assoc)
qed

definition node_cost :: "u8 list \<Rightarrow> nat" where
  "node_cost s = 8 + (length s + 1 + pad4 (length s + 1))"

lemma memset_write: "memset m p 0 (of_nat n) = mem_write m p (replicate n 0)" if "n < 2 ^ 64"
  using that by (simp add: memset_def memset_loop_write unat_of_nat take_bit_nat_eq_self)

lemma fill_node:
  assumes B: "blob_at m fdt B" and st: "b_struct B = x @ new @ z" and len: "length new = node_cost s"
    and s: "0 \<notin> set s" "length s < 2 ^ 30"
  defines "p \<equiv> fdt + of_nat (b_soff B + length x)" and "ns \<equiv> length s + 1 + pad4 (length s + 1)"
  defines "m' \<equiv> fdt32_st (p + of_nat (4 + ns)) FDT_END_NODE
    (mem_write (memset (fdt32_st p FDT_BEGIN_NODE m) (p + 4) 0 (of_nat ns)) (p + 4) s)"
  obtains y where "toks_enc (b_strs B) (flat (DNode s [] [])) y" "blob_at m' fdt (B\<lparr>b_struct := x @ y @ z\<rparr>)"
    "same_outside m m' fdt (b_total B)"
proof -
  obtain a d e where new: "new = a @ d @ e" and l: "length a = 4" "length d = ns" "length e = 4"
  proof (rule that)
    show "new = take 4 new @ take ns (drop 4 new) @ drop ns (drop 4 new)" by (metis append_take_drop_id)
  qed (use len in \<open>simp_all add: node_cost_def ns_def\<close>)
  let ?B = "\<lambda>y. B\<lparr>b_struct := x @ y @ z\<rparr>"
  let ?pad = "replicate (ns - length s) (0 :: u8)"
  define m1 where "m1 = fdt32_st p FDT_BEGIN_NODE m"
  define m2 where "m2 = memset m1 (p + 4) 0 (of_nat ns)"
  define m3 where "m3 = mem_write m2 (p + 4) s"
  have m2: "m2 = mem_write m1 (p + 4) (replicate ns 0)"
    unfolding m2_def using s(2) pad4_less [of "length s + 1"] by (intro memset_write) (simp add: ns_def)
  have 1: "blob_at m1 fdt (?B (be32_bytes FDT_BEGIN_NODE @ d @ e))" "same_outside m m1 fdt (b_total B)"
    using write_block [OF B, of x a "d @ e @ z" "be32_bytes FDT_BEGIN_NODE"] st new l
    by (simp_all add: m1_def fdt32_st_def p_def)
  have 2: "blob_at m2 fdt (?B (be32_bytes FDT_BEGIN_NODE @ replicate ns 0 @ e))" "same_outside m1 m2 fdt (b_total B)"
    using write_block [OF 1(1), of "x @ be32_bytes FDT_BEGIN_NODE" d "e @ z" "replicate ns 0"] l
    by (simp_all add: m2 p_def add.assoc)
  have r: "replicate ns (0 :: u8) = replicate (length s) 0 @ ?pad"
    by (simp only: replicate_add [symmetric]) (simp add: ns_def)
  have 3: "blob_at m3 fdt (?B (be32_bytes FDT_BEGIN_NODE @ s @ ?pad @ e))" "same_outside m2 m3 fdt (b_total B)"
    using write_block [OF 2(1), of "x @ be32_bytes FDT_BEGIN_NODE" "replicate (length s) 0" "?pad @ e @ z" s]
    by (simp_all add: m3_def r p_def add.assoc)
  let ?y = "be32_bytes FDT_BEGIN_NODE @ s @ ?pad @ be32_bytes FDT_END_NODE"
  have 4: "blob_at m' fdt (?B ?y)" "same_outside m3 m' fdt (b_total B)"
    using write_block [OF 3(1), of "x @ be32_bytes FDT_BEGIN_NODE @ s @ ?pad" e z "be32_bytes FDT_END_NODE"] l
    by (simp_all add: m'_def m3_def m2_def m1_def p_def ns_def fdt32_st_def ac_simps)
  have "?pad = [0] @ replicate (pad4 (length s + 1)) 0"
    by (simp add: ns_def)
  then have "toks_enc (b_strs B) (flat (DNode s [] [])) ?y"
    using s(1) by auto
  moreover have "same_outside m m' fdt (b_total B)"
    using 1(2) 2(2) 3(2) 4(2) by (blast intro: same_outside_trans)
  ultimately show thesis
    using 4(1) by (intro that)
qed

lemma TAGALIGN_name: "length s < 2 ^ 30 \<Longrightarrow>
    FDT_TAGALIGN (of_nat (length s) + 1) = of_nat (length s + 1 + pad4 (length s + 1))"
  using TAGALIGN_of_nat [of "length s + 1"] by (simp add: ac_simps)

lemma add_subnode_call:
  fixes s :: "u8 list"
  defines "ns \<equiv> length s + 1 + pad4 (length s + 1)"
  assumes none: "fdt_subnode_offset_namelen m fdt off s = Some (- FDT_ERR_NOTFOUND)"
    and sk: "skip_props m fdt (snd (fdt_next_tag m fdt off)) = Some first"
    and ptr: "fdt_offset_ptr_raw m fdt first = p" and s: "length s < 2 ^ 30"
  shows "fdt_add_subnode_namelen fdt off s m =
    Some (let (err, m) = fdt_splice_struct fdt p 0 (of_nat (node_cost s)) m
      in if err \<noteq> 0 then (err, m)
         else (first, fdt32_st (p + of_nat (4 + ns)) FDT_END_NODE
           (mem_write (memset (fdt32_st p FDT_BEGIN_NODE m) (p + 4) 0 (of_nat ns)) (p + 4) s)))"
proof -
  have small: "ns < 2 ^ 30 + 4" "node_cost s < 2 ^ 31" "node_cost s = 8 + ns"
    using s pad4_less [of "length s + 1"] by (simp_all add: node_cost_def ns_def)
  have ns: "FDT_TAGALIGN (of_nat (length s) + 1) = of_nat ns"
    using s by (simp add: TAGALIGN_name ns_def)
  have nl: "8 + of_nat ns = (of_nat (node_cost s) :: u32)"
    by (simp add: small(3))
  have e: "p + scast (of_nat (node_cost s) :: u32) - 4 = p + of_nat (4 + ns)"
    using small by (simp add: scast_u32 del: of_nat_add) (simp add: small(3))
  have "ucast (of_nat ns :: u32) = (of_nat ns :: u64)"
    using small by (simp add: ucast_u32)
  then show ?thesis
    unfolding fdt_add_subnode_namelen_def rw_probed_unchecked none ns
    by (simp add: sk ptr nl e Let_def case_prod_beta if_distrib del: of_nat_add)
qed

theorem add_subnode_at:
  assumes T: "toks_at m fdt B (pre @ flat (DNode n ps ks) @ post)" and s: "0 \<notin> set s" "length s < 2 ^ 30"
  shows "before s ks \<noteq> ks \<Longrightarrow> fdt_add_subnode_namelen fdt (pos pre) s m = Some (- FDT_ERR_EXISTS, m)"
    and "before s ks = ks \<Longrightarrow> used B + node_cost s > b_total B \<Longrightarrow>
      fdt_add_subnode_namelen fdt (pos pre) s m = Some (- FDT_ERR_NOSPACE, m)"
    and "before s ks = ks \<Longrightarrow> used B + node_cost s \<le> b_total B \<Longrightarrow>
      \<exists>m' B'. fdt_add_subnode_namelen fdt (pos pre) s m = Some (pos (pre @ TBegin n # prop_toks ps), m') \<and>
        edited m m' fdt B B' \<and> used B' = used B + node_cost s \<and>
        toks_at m' fdt B' (pre @ flat (DNode n ps (DNode s [] [] # ks)) @ post)"
proof -
  note f = subnode_offset_at [OF T s(1)]
  let ?q = "pre @ TBegin n # prop_toks ps" and ?post = "concat (map flat ks) @ [TEndNode] @ post"
  have T': "toks_at m fdt B (?q @ ?post)"
    using T by simp
  have B: "blob_at m fdt B" and E: "toks_enc (b_strs B) (?q @ ?post) (b_struct B)"
    using T' by (simp_all add: toks_at_def)
  show "fdt_add_subnode_namelen fdt (pos pre) s m = Some (- FDT_ERR_EXISTS, m)" if ex: "before s ks \<noteq> ks"
  proof -
    have ks: "concat (map flat ks) = concat (map flat (before s ks)) @
        concat (map flat (dropWhile (\<lambda>k. \<not> node_named s (dt_name k)) ks))"
      by (simp flip: concat_append map_append)
    have "\<not> neg (pos (?q @ concat (map flat (before s ks))))"
    proof (rule toks_at_pos)
      show "toks_at m fdt B ((?q @ concat (map flat (before s ks))) @
          concat (map flat (dropWhile (\<lambda>k. \<not> node_named s (dt_name k)) ks)) @ [TEndNode] @ post)"
        using T' by (subst (asm) ks) simp
    qed
    then show ?thesis
      unfolding fdt_add_subnode_namelen_def rw_probed_unchecked f if_not_P [OF ex]
      by (simp del: map_append sum_list_append of_nat_add)
  qed
  assume none: "before s ks = ks"
  obtain x z where xz: "b_struct B = x @ [] @ z" "toks_enc (b_strs B) ?q x" "toks_enc (b_strs B) ?post z"
    using E unfolding toks_enc_append [of _ ?q] append_Nil by blast
  have lx: "length x = toks_len ?q"
    using xz(2) by (rule toks_enc_length)
  obtain t r where t: "prop_toks ps @ concat (map flat ks) @ [TEndNode] @ post = prop_toks ps @ t # r"
    "tok_tag t \<in> {FDT_BEGIN_NODE, FDT_END_NODE}"
    by (rule node_after_props)
  have U: "toks_at m fdt B (pre @ TBegin n # prop_toks ps @ concat (map flat ks) @ [TEndNode] @ post)"
    using T by simp
  have "toks_at m fdt B ((pre @ [TBegin n]) @ prop_toks ps @ t # r)"
    using U unfolding t(1) by simp
  then have sk: "skip_props m fdt (snd (fdt_next_tag m fdt (pos pre))) = Some (pos ?q)"
    using skip_props_at [OF t(2), of m fdt B "pre @ [TBegin n]" ps r] next_tag_at [OF U] by simp
  have ptr: "fdt_offset_ptr_raw m fdt (pos ?q) = fdt + of_nat (b_soff B + length x)"
    using ptr_at [OF T'] lx by simp
  let ?ns = "length s + 1 + pad4 (length s + 1)" and ?p = "fdt + of_nat (b_soff B + length x)"
  let ?splice = "fdt_splice_struct fdt ?p (of_nat (length ([] :: u8 list))) (of_nat (node_cost s)) m"
  have small: "node_cost s < 2 ^ 31"
    using s(2) pad4_less [of "length s + 1"] by (simp add: node_cost_def)
  have "fdt_subnode_offset_namelen m fdt (pos pre) s = Some (- FDT_ERR_NOTFOUND)"
    using f none by simp
  note call = add_subnode_call [OF this sk ptr s(2)]
  show "fdt_add_subnode_namelen fdt (pos pre) s m = Some (- FDT_ERR_NOSPACE, m)" if "used B + node_cost s > b_total B"
    using splice_block [OF B xz(1) small] that unfolding call by auto
  show "\<exists>m' B'. fdt_add_subnode_namelen fdt (pos pre) s m = Some (pos ?q, m') \<and>
      edited m m' fdt B B' \<and> used B' = used B + node_cost s \<and>
      toks_at m' fdt B' (pre @ flat (DNode n ps (DNode s [] [] # ks)) @ post)"
    if room: "used B + node_cost s \<le> b_total B"
  proof -
    obtain m1 new where 1: "?splice = (0, m1)" "length new = node_cost s"
      "blob_at m1 fdt (B\<lparr>b_struct := x @ new @ z, b_toff := b_toff B + node_cost s - length ([] :: u8 list)\<rparr>)" (is "blob_at _ _ ?B1")
      "same_outside m m1 fdt (b_total B)"
      using splice_block [OF B xz(1) small] room by auto
    let ?m' = "fdt32_st (?p + of_nat (4 + ?ns)) FDT_END_NODE
        (mem_write (memset (fdt32_st ?p FDT_BEGIN_NODE m1) (?p + 4) 0 (of_nat ?ns)) (?p + 4) s)"
    obtain y where y: "toks_enc (b_strs ?B1) (flat (DNode s [] [])) y"
      "blob_at ?m' fdt (?B1\<lparr>b_struct := x @ y @ z\<rparr>)" "same_outside m1 ?m' fdt (b_total ?B1)"
      using fill_node [OF 1(3), of x new z s] 1(2) s by auto
    have "toks_enc (b_strs B) (?q @ flat (DNode s [] []) @ ?post) (x @ y @ z)"
      using y(1) xz(2,3) by (intro toks_enc_appI) simp_all
    then have "toks_at ?m' fdt (?B1\<lparr>b_struct := x @ y @ z\<rparr>) (pre @ flat (DNode n ps (DNode s [] [] # ks)) @ post)"
      using y(2) by (simp add: toks_at_def)
    moreover have "edited m ?m' fdt B (?B1\<lparr>b_struct := x @ y @ z\<rparr>)"
      using y(3) 1(4) by (auto simp: edited_def intro: same_outside_trans)
    moreover have "fdt_add_subnode_namelen fdt (pos pre) s m = Some (pos ?q, ?m')"
      using 1(1) unfolding call by (simp del: of_nat_add)
    ultimately show ?thesis
      by (intro exI [of _ ?m'] exI [of _ "?B1\<lparr>b_struct := x @ y @ z\<rparr>"]) simp
  qed
qed

section \<open>Deleting a node\<close>

text \<open>The loop of \<open>fdt_node_end_offset_\<close> with the loop of \<open>fdt_next_node\<close> inside it.\<close>

definition end_from :: "mem \<Rightarrow> u64 \<Rightarrow> u32 \<Rightarrow> int \<Rightarrow> u32 option" where
  "end_from m fdt offset depth = do {
     (offset, depth) \<leftarrow> next_node_loop m fdt offset (Some depth);
     node_end_loop m fdt offset (the depth)
   }"

lemma node_end_loop_at:
  assumes T: "toks_at m fdt B (pre @ TBegin n # post)" and d: "0 \<le> d"
  shows "node_end_loop m fdt (pos pre) d = end_from m fdt (pos (pre @ [TBegin n])) d"
proof -
  have "fdt_next_node m fdt (pos pre) (Some d) = next_node_loop m fdt (pos (pre @ [TBegin n])) (Some d)"
    using toks_at_pos [OF T] toks_at_pos [OF toks_at_assoc [OF T]]
    by (simp add: fdt_next_node_def check_node_at [OF T] del: map_append sum_list_append)
  with d show ?thesis
    using toks_at_pos [OF T] by (subst node_end_loop.simps) (simp add: end_from_def)
qed

lemma end_from_begin:
  assumes T: "toks_at m fdt B (pre @ TBegin n # post)" and d: "0 \<le> d"
  shows "end_from m fdt (pos pre) d = end_from m fdt (pos (pre @ [TBegin n])) (d + 1)"
proof -
  have "end_from m fdt (pos pre) d = node_end_loop m fdt (pos pre) (d + 1)"
    using next_tag_at [OF T] by (simp add: end_from_def next_node_loop.simps [of m fdt "pos pre"])
  then show ?thesis
    using node_end_loop_at [OF T] d by simp
qed

lemma end_from_end:
  assumes T: "toks_at m fdt B (pre @ TEndNode # post)"
  shows "end_from m fdt (pos pre) d =
    (if d \<le> 0 then Some (pos (pre @ [TEndNode])) else end_from m fdt (pos (pre @ [TEndNode])) (d - 1))"
proof (cases "d \<le> 0")
  case True
  then have "end_from m fdt (pos pre) d = node_end_loop m fdt (pos (pre @ [TEndNode])) (d - 1)"
    using next_tag_at [OF T] by (simp add: end_from_def next_node_loop.simps [of m fdt "pos pre"])
  with True show ?thesis
    by (simp add: node_end_loop.simps)
next
  case False
  then show ?thesis
    using next_tag_at [OF T] by (simp add: end_from_def next_node_loop.simps [of m fdt "pos pre"])
qed

lemma end_from_props:
  "toks_at m fdt B (pre @ prop_toks ps @ post) \<Longrightarrow>
    end_from m fdt (pos pre) d = end_from m fdt (pos (pre @ prop_toks ps)) d"
proof (induction ps arbitrary: pre)
  case (Cons p ps)
  obtain nm v where p: "p = (nm, v)" by (cases p)
  have T: "toks_at m fdt B (pre @ TProp nm v # prop_toks ps @ post)"
    using Cons.prems p by simp
  have "end_from m fdt (pos pre) d = end_from m fdt (pos (pre @ [TProp nm v])) d"
    using next_tag_at [OF T] by (simp add: end_from_def next_node_loop.simps [of m fdt "pos pre"])
  also have "\<dots> = end_from m fdt (pos ((pre @ [TProp nm v]) @ prop_toks ps)) d"
    using T by (intro Cons.IH) simp
  finally show ?case by (simp add: p add.assoc)
qed simp

text \<open>From inside a node to its end, given that subtrees are passed over.\<close>

lemma end_from_body:
  assumes pass: "\<And>k pre' post'. k \<in> set ks \<Longrightarrow> toks_at m fdt B (pre' @ flat k @ post') \<Longrightarrow>
      end_from m fdt (pos pre') d = end_from m fdt (pos (pre' @ flat k)) d"
    and T: "toks_at m fdt B (pre @ flat (DNode n ps ks) @ post)"
  shows "end_from m fdt (pos (pre @ [TBegin n])) d =
    (if d \<le> 0 then Some (pos (pre @ flat (DNode n ps ks)))
     else end_from m fdt (pos (pre @ flat (DNode n ps ks))) (d - 1))"
proof -
  have kids: "set ks' \<subseteq> set ks \<Longrightarrow> toks_at m fdt B (pre' @ concat (map flat ks') @ post') \<Longrightarrow>
      end_from m fdt (pos pre') d = end_from m fdt (pos (pre' @ concat (map flat ks'))) d" for ks' pre' post'
  proof (induction ks' arbitrary: pre')
    case (Cons k ks')
    have "end_from m fdt (pos pre') d = end_from m fdt (pos (pre' @ flat k)) d"
      using Cons.prems by (intro pass [of k pre' "concat (map flat ks') @ post'"]) auto
    also have "\<dots> = end_from m fdt (pos ((pre' @ flat k) @ concat (map flat ks'))) d"
      using Cons.prems by (intro Cons.IH) auto
    finally show ?case by (simp add: add.assoc)
  qed simp
  let ?b = "(pre @ [TBegin n]) @ prop_toks ps"
  let ?c = "?b @ concat (map flat ks)"
  have "end_from m fdt (pos (pre @ [TBegin n])) d = end_from m fdt (pos ?b) d"
    using T by (intro end_from_props [of m fdt B _ ps "concat (map flat ks) @ [TEndNode] @ post"]) simp
  also have "\<dots> = end_from m fdt (pos ?c) d"
    using T by (intro kids [of ks _ "[TEndNode] @ post"]) simp_all
  also have "\<dots> = (if d \<le> 0 then Some (pos (?c @ [TEndNode])) else end_from m fdt (pos (?c @ [TEndNode])) (d - 1))"
    using T by (intro end_from_end [of m fdt B ?c post]) simp
  finally show ?thesis by (simp add: add.assoc)
qed

lemma end_from_below:
  "toks_at m fdt B (pre @ flat t @ post) \<Longrightarrow> 0 \<le> d \<Longrightarrow>
    end_from m fdt (pos pre) d = end_from m fdt (pos (pre @ flat t)) d"
proof (induction t arbitrary: pre post d)
  case (DNode n ps ks)
  have "end_from m fdt (pos pre) d = end_from m fdt (pos (pre @ [TBegin n])) (d + 1)"
    using DNode.prems by (intro end_from_begin) simp_all
  also have "\<dots> = end_from m fdt (pos (pre @ flat (DNode n ps ks))) d"
    using end_from_body [of ks m fdt B "d + 1" pre n ps post] DNode.IH DNode.prems by simp
  finally show ?case .
qed

theorem node_end_offset_at:
  assumes T: "toks_at m fdt B (pre @ flat t @ post)"
  shows "fdt_node_end_offset m fdt (pos pre) = Some (pos (pre @ flat t))"
proof (cases t)
  case (DNode n ps ks)
  have "fdt_node_end_offset m fdt (pos pre) = end_from m fdt (pos (pre @ [TBegin n])) 0"
    unfolding fdt_node_end_offset_def using T DNode by (intro node_end_loop_at) simp_all
  also have "\<dots> = Some (pos (pre @ flat t))"
    using end_from_body [of ks m fdt B 0 pre n ps post] end_from_below [of m fdt B] T by (simp add: DNode)
  finally show ?thesis .
qed

theorem del_node_at:
  assumes T: "toks_at m fdt B (pre @ flat t @ post)"
  shows "\<exists>m' B'. fdt_del_node fdt (pos pre) m = Some (0, m') \<and> edited m m' fdt B B' \<and>
    used B' + toks_len (flat t) = used B \<and> toks_at m' fdt B' (pre @ post)"
proof -
  have B: "blob_at m fdt B" and E: "toks_enc (b_strs B) (pre @ flat t @ post) (b_struct B)"
    using T by (simp_all add: toks_at_def)
  obtain x y z where xyz: "b_struct B = x @ y @ z" "toks_enc (b_strs B) pre x" "toks_enc (b_strs B) (flat t) y"
    "toks_enc (b_strs B) post z"
    using E unfolding toks_enc_append by blast
  have l: "length x = toks_len pre" "length y = toks_len (flat t)"
    using xyz(2,3) by (simp_all add: toks_enc_length)
  have ptr: "fdt_offset_ptr_raw m fdt (pos pre) = fdt + of_nat (b_soff B + length x)"
    using ptr_at [OF T] l by simp
  have T': "toks_at m fdt B ((pre @ flat t) @ post)"
    using T by simp
  have ne: "\<not> neg (pos (pre @ flat t))"
    by (rule toks_at_pos [OF T'])
  have sz: "pos (pre @ flat t) - pos pre = (of_nat (length y) :: u32)"
    by (simp add: l)
  have call: "fdt_del_node fdt (pos pre) m =
      Some (fdt_splice_struct fdt (fdt + of_nat (b_soff B + length x)) (of_nat (length y)) (of_nat 0) m)"
    unfolding fdt_del_node_def rw_probed_unchecked node_end_offset_at [OF T] using ne
    by (simp add: ptr sz del: map_append sum_list_append of_nat_add)
  have room: "\<not> used B + 0 > b_total B + length y" "length y \<le> b_toff B"
    using blob_bounds [OF B] xyz(1) by simp_all
  obtain m' where m': "fdt_splice_struct fdt (fdt + of_nat (b_soff B + length x)) (of_nat (length y)) (of_nat 0) m = (0, m')"
    "blob_at m' fdt (B\<lparr>b_struct := x @ [] @ z, b_toff := b_toff B + 0 - length y\<rparr>)" (is "blob_at _ _ ?B'")
    "same_outside m m' fdt (b_total B)"
    using splice_block [OF B xyz(1), of 0] room by auto
  have "toks_at m' fdt ?B' (pre @ post)"
    unfolding toks_at_def using m'(2) toks_enc_appI [OF xyz(2,4)] by simp
  then show ?thesis
    using call m'(1,3) room(2) l(2)
    by (intro exI [of _ m'] exI [of _ ?B']) (simp add: edited_def)
qed

end
