(* ===== verification/Fdt_Rsv.thy ===== *)
theory Fdt_Rsv
  imports Fdt_Support Fdt_Nodes
begin

text \<open>
  The memory reservations of a blob and its size: what \<open>fdt_num_mem_rsv\<close>, \<open>fdt_get_mem_rsv\<close> read,
  what \<open>fdt_add_mem_rsv\<close> and \<open>fdt_del_mem_rsv\<close> leave, and the larger blob of \<open>fdt_increase_size\<close>.
\<close>

section \<open>Reading the reservations\<close>

lemma fdt64_ld_bytes:
  assumes "mem_bytes m a (be64_bytes v)"
  shows "fdt64_ld m a = v"
proof -
  have "fdt32_ld m a = ucast (drop_bit 32 v)" "fdt32_ld m (a + 4) = ucast v"
    using assms by (simp_all add: be64_bytes_def fdt32_ld_bytes)
  moreover have "push_bit 32 (ucast (ucast (drop_bit 32 v) :: u32)) OR ucast (ucast v :: u32) = v"
    by (rule bit_eqI) (auto simp: bit_simps)
  ultimately show ?thesis
    by (simp add: fdt64_ld_def)
qed

lemma rsv_entry_bytes:
  assumes B: "blob_at m fdt B" and i: "b_rsv B @ [(0, 0)] = xs @ (a, s) # ys"
  shows "mem_bytes m (fdt + of_nat (b_roff B + 16 * length xs)) (be64_bytes a @ be64_bytes s)"
proof -
  have "mem_bytes m (fdt + of_nat (b_roff B)) (rsvmap xs @ (be64_bytes a @ be64_bytes s) @ rsvmap ys)"
    using B unfolding blob_at_def i by (simp add: rsvmap_def)
  then have "mem_bytes m (fdt + of_nat (b_roff B) + of_nat (length (rsvmap xs))) (be64_bytes a @ be64_bytes s)"
    unfolding mem_bytes_append by simp
  then show ?thesis by (simp add: add.assoc)
qed

lemma rsv_ptr:
  assumes B: "blob_at m fdt B" and i: "i \<le> length (b_rsv B)"
  shows "fdt_mem_rsv_raw m fdt (of_nat i) = fdt + of_nat (b_roff B + 16 * i)"
    "fdt_mem_rsv_raw m fdt (of_nat i) \<noteq> 0"
proof -
  note b = blob_bounds [OF B]
  have "ucast (of_nat (b_roff B) :: u32) = (of_nat (b_roff B) :: u64)" "scast (of_nat i :: u32) = (of_nat i :: u64)"
    using b i by (simp_all add: ucast_u32 scast_u32)
  then show p: "fdt_mem_rsv_raw m fdt (of_nat i) = fdt + of_nat (b_roff B + 16 * i)"
    by (simp add: fdt_mem_rsv_raw_def blob_header [OF B])
  show "fdt_mem_rsv_raw m fdt (of_nat i) \<noteq> 0"
    unfolding p using b i by (intro blob_ptr_not_null [OF B]) auto
qed

lemma rsv_entry:
  assumes B: "blob_at m fdt B" and i: "b_rsv B @ [(0, 0)] = xs @ (a, s) # ys"
  shows "fdt64_ld m (fdt_mem_rsv_raw m fdt (of_nat (length xs))) = a"
    "fdt64_ld m (fdt_mem_rsv_raw m fdt (of_nat (length xs)) + 8) = s"
proof -
  have "length xs \<le> length (b_rsv B)"
    using arg_cong [OF i, of length] by simp
  note p = rsv_ptr(1) [OF B this]
  show "fdt64_ld m (fdt_mem_rsv_raw m fdt (of_nat (length xs))) = a"
    "fdt64_ld m (fdt_mem_rsv_raw m fdt (of_nat (length xs)) + 8) = s"
    unfolding p using rsv_entry_bytes [OF B i] by (auto intro!: fdt64_ld_bytes)
qed

lemma num_mem_rsv_loop_at:
  assumes B: "blob_at m fdt B"
  shows "b_rsv B = xs @ ys \<Longrightarrow>
    num_mem_rsv_loop m fdt (of_nat (length xs)) = Some (of_nat (length (b_rsv B)))"
proof (induction ys arbitrary: xs)
  case Nil
  then show ?case
    using rsv_ptr(2) [OF B, of "length xs"] rsv_entry [OF B, of xs 0 0 "[]"]
    by (subst num_mem_rsv_loop.simps) (simp add: fdt_mem_rsv_def Let_def)
next
  case (Cons y ys)
  obtain a s where y: "y = (a, s)" by (cases y)
  have "s \<noteq> 0"
    using B Cons.prems y by (auto simp: blob_at_def blob_ok_def)
  moreover have "num_mem_rsv_loop m fdt (of_nat (length xs) + 1) = Some (of_nat (length (b_rsv B)))"
    using Cons.IH [of "xs @ [y]"] Cons.prems by (simp add: add.commute)
  ultimately show ?case
    using rsv_ptr(2) [OF B, of "length xs"] rsv_entry [OF B, of xs a s "ys @ [(0, 0)]"] Cons.prems y
    by (subst num_mem_rsv_loop.simps) (simp add: fdt_mem_rsv_def Let_def)
qed

theorem num_mem_rsv_at:
  "blob_at m fdt B \<Longrightarrow> fdt_num_mem_rsv m fdt = Some (of_nat (length (b_rsv B)))"
  using num_mem_rsv_loop_at [of m fdt B "[]" "b_rsv B"] by (simp add: fdt_num_mem_rsv_def)

theorem get_mem_rsv_at:
  assumes B: "blob_at m fdt B" and i: "i < length (b_rsv B)"
  shows "fdt_get_mem_rsv m fdt (of_nat i) = Inr (b_rsv B ! i)"
proof -
  obtain a s where as: "b_rsv B ! i = (a, s)" by fastforce
  have "b_rsv B @ [(0, 0)] = take i (b_rsv B) @ (a, s) # drop (Suc i) (b_rsv B) @ [(0, 0)]"
    using id_take_nth_drop [OF i] as by simp
  from rsv_entry [OF B this] i as show ?thesis
    by (simp add: fdt_get_mem_rsv_def fdt_mem_rsv_def Let_def)
qed

section \<open>Adding and deleting a reservation\<close>

text \<open>Edits that may change the list of reservations or the size, not the tree.\<close>

definition kept :: "mem \<Rightarrow> mem \<Rightarrow> u64 \<Rightarrow> blob \<Rightarrow> blob \<Rightarrow> bool" where
  "kept m m' fdt B B' \<longleftrightarrow> blob_at m' fdt B' \<and> b_struct B' = b_struct B \<and> b_strs B' = b_strs B \<and>
     b_total B' = b_total B \<and> same_outside m m' fdt (b_total B)"

lemma kept_toks: "kept m m' fdt B B' \<Longrightarrow> toks_at m fdt B ts \<Longrightarrow> toks_at m' fdt B' ts"
  by (simp add: kept_def toks_at_def)

lemma kept_refl: "blob_at m fdt B \<Longrightarrow> kept m m fdt B B"
  by (simp add: kept_def)

theorem add_mem_rsv_at:
  assumes B: "blob_at m fdt B" and sz: "sz \<noteq> 0"
  shows "used B + 16 > b_total B \<Longrightarrow> fdt_add_mem_rsv fdt a sz m = Some (- FDT_ERR_NOSPACE, m)"
    and "used B + 16 \<le> b_total B \<Longrightarrow> \<exists>m' B'. fdt_add_mem_rsv fdt a sz m = Some (0, m') \<and>
      kept m m' fdt B B' \<and> b_rsv B' = b_rsv B @ [(a, sz)] \<and> used B' = used B + 16"
proof -
  note b = blob_bounds [OF B] and ok = B [unfolded blob_at_def]
  let ?n = "length (b_rsv B)"
  let ?re = "fdt + of_nat (b_roff B + 16 * ?n)"
  have call: "fdt_add_mem_rsv fdt a sz m =
    Some (let (err, m) = fdt_splice_mem_rsv fdt ?re (of_nat (length ([] :: (u64 \<times> u64) list))) (of_nat 1) m
      in if err \<noteq> 0 then (err, m) else (0, fdt64_st (?re + 8) sz (fdt64_st ?re a m)))"
    using rsv_ptr(1) [OF B, of ?n]
    by (simp add: fdt_add_mem_rsv_def num_mem_rsv_at [OF B] Let_def split: prod.split del: of_nat_add)
  note sp = splice_mem_rsv_at [OF B, of "b_rsv B" "[]" "[]" 1, unfolded append_Nil2]
  show "used B + 16 > b_total B \<Longrightarrow> fdt_add_mem_rsv fdt a sz m = Some (- FDT_ERR_NOSPACE, m)"
    unfolding call using sp(1) by simp
  assume "used B + 16 \<le> b_total B"
  then obtain m1 where m1: "fdt_splice_mem_rsv fdt ?re (of_nat (length ([] :: (u64 \<times> u64) list))) (of_nat 1) m = (0, m1)"
    "mem_bytes m1 fdt (fdt_header (shifted 0 1 B))" "mem_bytes m1 (fdt + of_nat (b_roff B)) (rsvmap (b_rsv B))"
    "mem_bytes m1 (fdt + of_nat (b_roff B + 16 * ?n + 16)) (rsvmap [(0, 0)])"
    "mem_bytes m1 (fdt + of_nat (b_soff B + 16)) (b_struct B)"
    "mem_bytes m1 (fdt + of_nat (b_toff B + 16)) (b_strs B)" "same_outside m m1 fdt (b_total B)"
    using sp(2) by (auto simp del: of_nat_add)
  let ?P = "b_roff B + 16 * ?n"
  let ?m' = "mem_write m1 (fdt + of_nat ?P) (be64_bytes a @ be64_bytes sz)"
  let ?B' = "(shifted 0 1 B)\<lparr>b_rsv := b_rsv B @ [(a, sz)]\<rparr>"
  have w: "fdt64_st (?re + 8) sz (fdt64_st ?re a m1) = ?m'"
    unfolding fdt64_st_def using mem_write_append [of "be64_bytes a" "be64_bytes sz" m1 ?re] by simp
  have keep: "mem_bytes m1 (fdt + of_nat i) xs \<Longrightarrow> i + length xs \<le> ?P \<or> ?P + 16 \<le> i \<Longrightarrow>
      i + length xs \<le> b_total B + 32 \<Longrightarrow> mem_bytes ?m' (fdt + of_nat i) xs" for i xs
    using b by (intro mem_bytes_write_other) auto
  have "mem_bytes ?m' (fdt + of_nat 0) (fdt_header (shifted 0 1 B))"
    using m1(2) b by (intro keep) auto
  then have h: "mem_bytes ?m' fdt (fdt_header ?B')"
    by (simp add: fdt_header_def)
  have r: "mem_bytes ?m' (fdt + of_nat (b_roff B)) (rsvmap (b_rsv B))"
    "mem_bytes ?m' (fdt + of_nat (?P + 16)) (rsvmap [(0, 0)])"
    and st: "mem_bytes ?m' (fdt + of_nat (b_soff B + 16)) (b_struct B)"
    "mem_bytes ?m' (fdt + of_nat (b_toff B + 16)) (b_strs B)"
    using m1(3-6) b by (auto intro!: keep simp del: of_nat_add)
  have "mem_bytes ?m' (fdt + of_nat ?P) (rsvmap [(a, sz)])"
    using mem_write_bytes [of "be64_bytes a @ be64_bytes sz" m1 "fdt + of_nat ?P"]
    by (simp add: rsvmap_def del: of_nat_add mem_bytes_append)
  then have "mem_bytes ?m' (fdt + of_nat (b_roff B)) (rsvmap (b_rsv B) @ rsvmap [(a, sz)] @ rsvmap [(0, 0)])"
    using r unfolding mem_bytes_append by (simp add: add.assoc)
  then have r: "mem_bytes ?m' (fdt + of_nat (b_roff B)) (rsvmap ((b_rsv B @ [(a, sz)]) @ [(0, 0)]))"
    by (simp only: rsvmap_append append_assoc)
  have "blob_ok fdt ?B'"
    using ok sz \<open>used B + 16 \<le> b_total B\<close> by (auto simp: blob_ok_def)
  with h r st have "blob_at ?m' fdt ?B'"
    unfolding blob_at_def by (simp del: rsvmap_append)
  moreover have "same_outside m ?m' fdt (b_total B)"
    using b m1(7) by (intro same_outside_write) auto
  moreover have "fdt_add_mem_rsv fdt a sz m = Some (0, ?m')"
    unfolding call m1(1) w [symmetric] by simp
  ultimately show "\<exists>m' B'. fdt_add_mem_rsv fdt a sz m = Some (0, m') \<and>
      kept m m' fdt B B' \<and> b_rsv B' = b_rsv B @ [(a, sz)] \<and> used B' = used B + 16"
    by (intro exI [of _ ?m'] exI [of _ ?B']) (simp add: kept_def)
qed

theorem del_mem_rsv_at:
  assumes B: "blob_at m fdt B"
  shows "length (b_rsv B) \<le> n \<Longrightarrow> n < 2 ^ 31 \<Longrightarrow> fdt_del_mem_rsv fdt (of_nat n) m = Some (- FDT_ERR_NOTFOUND, m)"
    and "b_rsv B = xs @ x # ys \<Longrightarrow> \<exists>m' B'. fdt_del_mem_rsv fdt (of_nat (length xs)) m = Some (0, m') \<and>
      kept m m' fdt B B' \<and> b_rsv B' = xs @ ys \<and> used B' + 16 = used B"
proof -
  note b = blob_bounds [OF B] and ok = B [unfolded blob_at_def]
  show "length (b_rsv B) \<le> n \<Longrightarrow> n < 2 ^ 31 \<Longrightarrow> fdt_del_mem_rsv fdt (of_nat n) m = Some (- FDT_ERR_NOTFOUND, m)"
    by (simp add: fdt_del_mem_rsv_def num_mem_rsv_at [OF B] sint_u32)
  assume rs: "b_rsv B = xs @ x # ys"
  let ?re = "fdt + of_nat (b_roff B + 16 * length xs)"
  have le: "length xs \<le> length (b_rsv B)" using rs by simp
  have "length (b_rsv B) < 2 ^ 31"
    using b by simp
  then have "\<not> sint (of_nat (length (b_rsv B)) :: u32) \<le> sint (of_nat (length xs) :: u32)"
    using rs by (subst sint_u32, simp, subst sint_u32) simp_all
  then have call: "fdt_del_mem_rsv fdt (of_nat (length xs)) m =
      Some (fdt_splice_mem_rsv fdt ?re (of_nat (length [x])) (of_nat 0) m)"
    using rsv_ptr(1) [OF B le]
    by (simp add: fdt_del_mem_rsv_def num_mem_rsv_at [OF B] del: of_nat_add)
  have rs': "b_rsv B = xs @ [x] @ ys" using rs by simp
  have "length (b_rsv B) \<ge> 1" using rs by simp
  then have off: "16 \<le> b_soff B" "16 \<le> b_toff B"
    using b by auto
  have "used B + 16 * 0 \<le> b_total B + 16 * length [x]"
    using b by simp
  from splice_mem_rsv_at(2) [OF B rs' _ this] obtain m1 where m1:
    "fdt_splice_mem_rsv fdt ?re (of_nat (length [x])) (of_nat 0) m = (0, m1)"
    "mem_bytes m1 fdt (fdt_header (shifted 1 0 B))" "mem_bytes m1 (fdt + of_nat (b_roff B)) (rsvmap xs)"
    "mem_bytes m1 (fdt + of_nat (b_roff B + 16 * length xs)) (rsvmap (ys @ [(0, 0)]))"
    "mem_bytes m1 (fdt + of_nat (b_soff B - 16)) (b_struct B)"
    "mem_bytes m1 (fdt + of_nat (b_toff B - 16)) (b_strs B)" "same_outside m m1 fdt (b_total B)"
    by (auto simp del: of_nat_add rsvmap_append)
  let ?B' = "(shifted 1 0 B)\<lparr>b_rsv := xs @ ys\<rparr>"
  have "fdt_header ?B' = fdt_header (shifted 1 0 B)"
    by (simp add: fdt_header_def)
  moreover have "mem_bytes m1 (fdt + of_nat (b_roff B)) (rsvmap ((xs @ ys) @ [(0, 0)]))"
    using m1(3,4) by (simp add: add.assoc)
  ultimately have "blob_at m1 fdt ?B'"
    using ok m1(2,5,6) rs off by (auto simp: blob_at_def blob_ok_def)
  then show "\<exists>m' B'. fdt_del_mem_rsv fdt (of_nat (length xs)) m = Some (0, m') \<and>
      kept m m' fdt B B' \<and> b_rsv B' = xs @ ys \<and> used B' + 16 = used B"
    using m1(1,7) off unfolding call by (intro exI [of _ m1] exI [of _ ?B']) (simp add: kept_def)
qed

text \<open>The first reservation at an address is dropped.\<close>

fun drop_addr :: "u64 \<Rightarrow> (u64 \<times> u64) list \<Rightarrow> (u64 \<times> u64) list" where
  "drop_addr a [] = []"
| "drop_addr a (p # ps) = (if fst p = a then ps else p # drop_addr a ps)"

lemma drop_addr_none: "a \<notin> fst ` set ps \<Longrightarrow> drop_addr a ps = ps"
  by (induction ps) auto

lemma drop_addr_split: "a \<notin> fst ` set xs \<Longrightarrow> drop_addr a (xs @ (a, s) # ys) = xs @ ys"
  by (induction xs) auto

lemma find_rsv_at:
  assumes B: "blob_at m fdt B"
  shows "find_rsv m fdt addr (of_nat (length (b_rsv B))) =
    map_option of_nat (List.find (\<lambda>j. fst (b_rsv B ! j) = addr) [0..<length (b_rsv B)])"
proof -
  have "nat (sint (of_nat (length (b_rsv B)) :: u32)) = length (b_rsv B)"
    using blob_bounds [OF B] by (simp add: sint_u32)
  moreover have "(case fdt_get_mem_rsv m fdt (of_nat j) of Inl _ \<Rightarrow> False | Inr (a, _) \<Rightarrow> a = addr) \<longleftrightarrow>
      fst (b_rsv B ! j) = addr" if "j < length (b_rsv B)" for j
    using get_mem_rsv_at [OF B that] by (simp add: split: prod.split)
  ultimately show ?thesis
    unfolding find_rsv_def by (auto intro!: arg_cong [of _ _ "map_option of_nat"] find_cong)
qed

theorem drop_rsv_at:
  assumes B: "blob_at m fdt B"
  shows "\<exists>m' B'. drop_rsv fdt addr m = Some (addr \<in> fst ` set (b_rsv B), m') \<and> kept m m' fdt B B' \<and>
    b_rsv B' = drop_addr addr (b_rsv B) \<and> used B' \<le> used B"
proof (cases "addr \<in> fst ` set (b_rsv B)")
  case False
  then have "List.find (\<lambda>j. fst (b_rsv B ! j) = addr) [0..<length (b_rsv B)] = None"
    using nth_mem [of _ "b_rsv B"] by (auto simp: find_None_iff simp del: nth_mem)
  then have "drop_rsv fdt addr m = Some (False, m)"
    by (simp add: drop_rsv_def num_mem_rsv_at [OF B] find_rsv_at [OF B])
  then show ?thesis
    using False kept_refl [OF B] by (auto simp: drop_addr_none)
next
  case True
  then have "\<exists>p \<in> set (b_rsv B). fst p = addr"
    by auto
  from split_list_first_prop [OF this] obtain xs p ys where "b_rsv B = xs @ p # ys" "fst p = addr"
    "\<forall>q \<in> set xs. fst q \<noteq> addr"
    by blast
  then obtain s where rs: "b_rsv B = xs @ (addr, s) # ys" "addr \<notin> fst ` set xs"
    by (cases p) auto
  have "fst (xs ! j) \<noteq> addr" if "j < length xs" for j
    using rs(2) that by (auto simp: image_iff dest: nth_mem)
  then have "List.find (\<lambda>j. fst (b_rsv B ! j) = addr) [0..<length (b_rsv B)] = Some (length xs)"
    unfolding find_Some_iff rs(1) by (intro exI [of _ "length xs"]) (auto simp: nth_append)
  then have "find_rsv m fdt addr (of_nat (length (b_rsv B))) = Some (of_nat (length xs))"
    by (simp add: find_rsv_at [OF B])
  moreover obtain m' B' where "fdt_del_mem_rsv fdt (of_nat (length xs)) m = Some (0, m')"
    "kept m m' fdt B B'" "b_rsv B' = xs @ ys" "used B' + 16 = used B"
    using del_mem_rsv_at(2) [OF B rs(1)] by blast
  ultimately show ?thesis
    using True rs by (intro exI [of _ m'] exI [of _ B'])
      (simp add: drop_rsv_def num_mem_rsv_at [OF B] drop_addr_split)
qed

section \<open>Making room\<close>

text \<open>
  \<open>fdt_increase_size\<close> opens the blob into its own place: only the total size in the header
  changes.
\<close>

lemma set_totalsize_at:
  assumes B: "blob_at m fdt B" and n: "used B \<le> n" "n < 2 ^ 31 - 1"
  shows "blob_at (fdt_set_totalsize fdt (of_nat n) m) fdt (B\<lparr>b_total := n\<rparr>)"
    "same_outside m (fdt_set_totalsize fdt (of_nat n) m) fdt 40"
proof -
  note b = blob_bounds [OF B] and ok = B [unfolded blob_at_def]
  have "mem_bytes (fdt_set_totalsize fdt (of_nat n) m) fdt (fdt_header (B\<lparr>b_total := n\<rparr>))"
    using ok by (intro header_set(1)) auto
  moreover have "mem_bytes (fdt_set_totalsize fdt (of_nat n) m) (fdt + of_nat (b_roff B)) (rsvmap (b_rsv B @ [(0, 0)]))"
    "mem_bytes (fdt_set_totalsize fdt (of_nat n) m) (fdt + of_nat (b_soff B)) (b_struct B)"
    "mem_bytes (fdt_set_totalsize fdt (of_nat n) m) (fdt + of_nat (b_toff B)) (b_strs B)"
    using ok b by (auto intro!: block_set_header simp del: rsvmap_append)
  ultimately show "blob_at (fdt_set_totalsize fdt (of_nat n) m) fdt (B\<lparr>b_total := n\<rparr>)"
    using ok n by (simp add: blob_at_def blob_ok_def)
  show "same_outside m (fdt_set_totalsize fdt (of_nat n) m) fdt 40"
    by (intro same_outside_set) simp_all
qed

theorem increase_size_at:
  assumes B: "blob_at m fdt B" and n: "b_total B + n < 2 ^ 31 - 1"
  shows "\<exists>m'. fdt_increase_size fdt (of_nat n) m = Some (0, m') \<and>
    blob_at m' fdt (B\<lparr>b_total := b_total B + n\<rparr>) \<and> same_outside m m' fdt 40"
proof -
  note b = blob_bounds [OF B]
  have hdr: "mem_bytes m fdt (fdt_header B)"
    by (rule blob_header_bytes [OF B])
  have "fdt_set_version fdt 17 m = m" "fdt_set_size_dt_struct fdt (of_nat (length (b_struct B))) m = m"
    using hdr by (simp_all add: fdt_set_defs fdt32_st_def mem_write_same fdt_header_def add.assoc)
  moreover have "\<not> (of_nat (b_total B + n) :: u32) < of_nat (b_total B)"
    using n by (subst of_nat_u32_less) simp_all
  ultimately have "fdt_increase_size fdt (of_nat n) m = Some (0, fdt_set_totalsize fdt (of_nat (b_total B + n)) m)"
    by (simp add: fdt_increase_size_def fdt_open_into_def num_mem_rsv_at [OF B] fdt_blocks_misordered_def
        fdt_move_def blob_header [OF B] memmove_def Let_def)
  moreover have "used B \<le> b_total B + n"
    using b by simp
  ultimately show ?thesis
    using set_totalsize_at [OF B _ n] by auto
qed

end
