(* ===== verification/Fdt_Fixup.thy ===== *)
theory Fdt_Fixup
  imports Fdt_Rsv
begin

text \<open>
  What the helpers of \<open>fdt_support.c\<close> do to the tree when the blob has room: the node that is found
  or added, a property of a child, the memory node, the reservation and the properties of the
  initial ramdisk, the final size.
\<close>

lemma of_char_0 [simp]: "(of_char c :: u8) = 0 \<longleftrightarrow> c = CHR 0x00"
  using bytes_inject [of "[c]" "[CHR 0x00]"] by (simp add: bytes_def)

lemma zero_in_bytes [simp]: "0 \<in> set (bytes s) \<longleftrightarrow> CHR 0x00 \<in> set s"
  by (force simp: bytes_def image_iff)

section \<open>A child of a node\<close>

definition with_child :: "u8 list \<Rightarrow> dtree list \<Rightarrow> dtree list" where
  "with_child s ks = (if before s ks = ks then DNode s [] [] # ks else ks)"

fun on_child :: "u8 list \<Rightarrow> (dtree \<Rightarrow> dtree) \<Rightarrow> dtree list \<Rightarrow> dtree list" where
  "on_child s f [] = []"
| "on_child s f (k # ks) = (if node_named s (dt_name k) then f k # ks else k # on_child s f ks)"

fun set_dt :: "u8 list \<Rightarrow> u8 list \<Rightarrow> dtree \<Rightarrow> dtree" where
  "set_dt s v (DNode n ps ks) = DNode n (set_prop s v ps) ks"

lemma node_named_self [simp]: "node_named s s"
  by (simp add: node_named_def)

lemma name_set_dt [simp]: "dt_name (set_dt s v t) = dt_name t"
  by (cases t) simp

lemma props_set_dt [simp]: "map_of (dt_props (set_dt s v t)) = (map_of (dt_props t))(s \<mapsto> v)"
  by (cases t) simp

lemma before_ne: "before s ks \<noteq> ks \<longleftrightarrow> (\<exists>k \<in> set ks. node_named s (dt_name k))"
  by (auto simp: takeWhile_eq_all_conv)

lemma with_child_named [simp]: "before s (with_child s ks) \<noteq> with_child s ks"
  by (auto simp: with_child_def)

lemma before_on_child: "(\<And>k. dt_name (f k) = dt_name k) \<Longrightarrow> before s (on_child s f ks) = before s ks"
  by (induction ks) auto

lemma on_child_named: "(\<And>k. dt_name (f k) = dt_name k) \<Longrightarrow> before s ks \<noteq> ks \<Longrightarrow>
    before s (on_child s f ks) \<noteq> on_child s f ks"
  by (induction ks) auto

lemma on_child_on_child: "(\<And>k. dt_name (f k) = dt_name k) \<Longrightarrow>
    on_child s g (on_child s f ks) = on_child s (\<lambda>k. g (f k)) ks"
  by (induction ks) auto

lemma child_split:
  assumes "before s ks \<noteq> ks"
  obtains k rest where "ks = before s ks @ k # rest" "\<And>f. on_child s f ks = before s ks @ f k # rest"
    "node_named s (dt_name k)"
proof -
  have "\<exists>k rest. ks = before s ks @ k # rest \<and> (\<forall>f. on_child s f ks = before s ks @ f k # rest) \<and> node_named s (dt_name k)"
    using assms by (induction ks) auto
  then show thesis using that by blast
qed

text \<open>The offset of the child with a name.\<close>

abbreviation child_pos :: "tok list \<Rightarrow> u8 list \<Rightarrow> (u8 list \<times> u8 list) list \<Rightarrow> u8 list \<Rightarrow> dtree list \<Rightarrow> u32" where
  "child_pos pre n ps s ks \<equiv> pos (pre @ TBegin n # prop_toks ps @ concat (map flat (before s ks)))"

lemma child_pos_not_neg:
  assumes T: "toks_at m fdt B (pre @ flat (DNode n ps ks) @ post)" and s: "before s ks \<noteq> ks"
  shows "\<not> neg (child_pos pre n ps s ks)"
proof -
  obtain k rest where "ks = before s ks @ k # rest"
    using child_split [OF s] by blast
  then have ks: "concat (map flat ks) = concat (map flat (before s ks)) @ flat k @ concat (map flat rest)"
    by (metis concat.simps(2) concat_append list.simps(9) map_append)
  have "toks_at m fdt B ((pre @ TBegin n # prop_toks ps @ concat (map flat (before s ks))) @
      flat k @ concat (map flat rest) @ [TEndNode] @ post)"
    using T by (simp add: ks)
  then show ?thesis by (rule toks_at_pos)
qed

theorem find_or_add_at:
  assumes T: "toks_at m fdt B (pre @ flat (DNode n ps ks) @ post)" and s: "0 \<notin> set (bytes s)" "length (bytes s) < 2 ^ 30"
    and room: "used B + node_cost (bytes s) \<le> b_total B"
  shows "\<exists>m' B'. fdt_find_or_add_subnode fdt (pos pre) s m =
      Some (child_pos pre n ps (bytes s) (with_child (bytes s) ks), m') \<and> edited m m' fdt B B' \<and>
    used B' \<le> used B + node_cost (bytes s) \<and>
    toks_at m' fdt B' (pre @ flat (DNode n ps (with_child (bytes s) ks)) @ post)"
proof (cases "before (bytes s) ks = ks")
  case True
  have "fdt_subnode_offset m fdt (pos pre) s = Some (- FDT_ERR_NOTFOUND)"
    using subnode_offset_at [OF T s(1)] True by (simp add: fdt_subnode_offset_def)
  then have "fdt_find_or_add_subnode fdt (pos pre) s m = fdt_add_subnode_namelen fdt (pos pre) (bytes s) m"
    by (simp add: fdt_find_or_add_subnode_def fdt_add_subnode_def)
  moreover obtain m' B' where
    "fdt_add_subnode_namelen fdt (pos pre) (bytes s) m = Some (pos (pre @ TBegin n # prop_toks ps), m')"
    "edited m m' fdt B B'" "used B' = used B + node_cost (bytes s)"
    "toks_at m' fdt B' (pre @ flat (DNode n ps (DNode (bytes s) [] [] # ks)) @ post)"
    using add_subnode_at(3) [OF T s True room] by blast
  ultimately show ?thesis
    using True by (intro exI [of _ m'] exI [of _ B']) (simp add: with_child_def)
next
  case False
  let ?o = "child_pos pre n ps (bytes s) ks"
  have "fdt_subnode_offset m fdt (pos pre) s = Some ?o"
    using subnode_offset_at [OF T s(1)] unfolding fdt_subnode_offset_def if_not_P [OF False] .
  moreover have nn: "\<not> neg ?o"
    using child_pos_not_neg [OF T False] .
  have "?o \<noteq> - FDT_ERR_NOTFOUND"
  proof
    assume "?o = - FDT_ERR_NOTFOUND"
    then have "neg ?o" by (simp only: neg_minus)
    with nn show False ..
  qed
  ultimately have "fdt_find_or_add_subnode fdt (pos pre) s m = Some (?o, m)"
    unfolding fdt_find_or_add_subnode_def by (simp only: Option.bind.bind_lunit if_False)
  moreover have "with_child (bytes s) ks = ks"
    using False by (simp add: with_child_def)
  ultimately show ?thesis
    using T by (intro exI [of _ m] exI [of _ B]) simp
qed

lemma setprop_room:
  assumes T: "toks_at m fdt B (pre @ flat (DNode n ps ks) @ post)" and s: "0 \<notin> set (bytes s)"
    and len: "length (bytes s) < 2 ^ 30" "length v < 2 ^ 30" and room: "used B + prop_cost (bytes s) v \<le> b_total B"
  shows "\<exists>m' B'. fdt_setprop fdt (pos pre) s v m = Some (0, m') \<and> edited m m' fdt B B' \<and>
    used B' \<le> used B + prop_cost (bytes s) v \<and>
    toks_at m' fdt B' (pre @ flat (DNode n (set_prop (bytes s) v ps) ks) @ post)"
  using setprop_at [OF T s len] room by (auto simp: set_done_def split: if_splits)

theorem child_setprop_at:
  assumes T: "toks_at m fdt B (pre @ flat (DNode n ps ks) @ post)" and c: "before c ks \<noteq> ks"
    and s: "0 \<notin> set (bytes s)" and len: "length (bytes s) < 2 ^ 30" "length v < 2 ^ 30"
    and room: "used B + prop_cost (bytes s) v \<le> b_total B"
  shows "\<exists>m' B'. fdt_setprop fdt (child_pos pre n ps c ks) s v m = Some (0, m') \<and> edited m m' fdt B B' \<and>
    used B' \<le> used B + prop_cost (bytes s) v \<and>
    toks_at m' fdt B' (pre @ flat (DNode n ps (on_child c (set_dt (bytes s) v) ks)) @ post)"
proof -
  obtain k rest where k: "ks = before c ks @ k # rest" "\<And>f. on_child c f ks = before c ks @ f k # rest"
    using child_split [OF c] by metis
  obtain kn kps kks where kd: "k = DNode kn kps kks" by (cases k)
  let ?pre = "pre @ TBegin n # prop_toks ps @ concat (map flat (before c ks))"
    and ?post = "concat (map flat rest) @ [TEndNode] @ post"
  have split: "pre @ flat (DNode n ps (before c ks @ t # rest)) @ post = ?pre @ flat t @ ?post" for t
    by simp
  have "toks_at m fdt B (?pre @ flat (DNode kn kps kks) @ ?post)"
    using T unfolding kd [symmetric] split [symmetric] k(1) [symmetric] .
  from setprop_room [OF this s len room] show ?thesis
    unfolding k(2) split kd set_dt.simps .
qed

text \<open>The same with a bound of the cost, as a step of longer proofs.\<close>

lemma child_setprop_step:
  assumes "toks_at m fdt B (pre @ flat (DNode n ps ks) @ post)" "before c ks \<noteq> ks" "prop_cost (bytes s) v \<le> k"
    and "used B + k \<le> b_total B" "CHR 0x00 \<notin> set s" "k < 2 ^ 30"
  obtains m' B' where "fdt_setprop fdt (child_pos pre n ps c ks) s v m = Some (0, m')" "edited m m' fdt B B'"
    "used B' \<le> used B + k" "toks_at m' fdt B' (pre @ flat (DNode n ps (on_child c (set_dt (bytes s) v) ks)) @ post)"
proof -
  have "length (bytes s) < 2 ^ 30" "length v < 2 ^ 30"
    using assms(3,6) by (simp_all add: prop_cost_def)
  moreover have "0 \<notin> set (bytes s)" "used B + prop_cost (bytes s) v \<le> b_total B"
    using assms(3-5) by simp_all
  ultimately obtain m' B' where 1: "fdt_setprop fdt (child_pos pre n ps c ks) s v m = Some (0, m')"
    "edited m m' fdt B B'" "used B' \<le> used B + prop_cost (bytes s) v"
    "toks_at m' fdt B' (pre @ flat (DNode n ps (on_child c (set_dt (bytes s) v) ks)) @ post)"
    using child_setprop_at [OF assms(1,2)] by blast
  moreover have "used B' \<le> used B + k"
    using 1(3) assms(3) by simp
  ultimately show thesis by (intro that)
qed

section \<open>The cell counts\<close>

definition dt_cells :: "(u8 list \<times> u8 list) list \<Rightarrow> string \<Rightarrow> u32" where
  "dt_cells ps nm =
     (case map_of ps (bytes nm) of
        None \<Rightarrow> - FDT_ERR_NOTFOUND
      | Some d \<Rightarrow> if length d \<noteq> 4 \<or> be32_of d > 4 then - FDT_ERR_BADNCELLS else be32_of d)"

definition dt_address_cells :: "(u8 list \<times> u8 list) list \<Rightarrow> u32" where
  "dt_address_cells ps =
     (let v = dt_cells ps ''#address-cells''
      in if v = 0 then - FDT_ERR_BADNCELLS else if v = - FDT_ERR_NOTFOUND then 2 else v)"

definition dt_size_cells :: "(u8 list \<times> u8 list) list \<Rightarrow> u32" where
  "dt_size_cells ps = (let v = dt_cells ps ''#size-cells'' in if v = - FDT_ERR_NOTFOUND then 1 else v)"

lemma prop_length:
  assumes T: "toks_at m fdt B (pre @ flat (DNode n ps ks) @ post)" and d: "map_of ps s = Some d"
  shows "length d < 2 ^ 31"
proof -
  obtain qs where ps: "ps = props_before s ps @ (s, d) # qs"
    using d by (rule found_prop_split)
  let ?q = "pre @ TBegin n # prop_toks (props_before s ps)"
  have "toks_at m fdt B (?q @ TProp s d # prop_toks qs @ concat (map flat ks) @ [TEndNode] @ post)"
    using T by (subst (asm) ps) simp
  from toks_at_bound(1) [OF this] show ?thesis
    using T blob_bounds [of m fdt B] by (simp add: toks_at_def)
qed

lemma fdt_cells_at:
  assumes T: "toks_at m fdt B (pre @ flat (DNode n ps ks) @ post)" and s: "0 \<notin> set (bytes nm)"
  shows "fdt_cells m fdt (pos pre) nm = Some (dt_cells ps nm)"
proof (cases "map_of ps (bytes nm)")
  case None
  then show ?thesis
    using getprop_at(1) [OF T s] by (simp add: fdt_cells_def fdt_getprop_def dt_cells_def)
next
  case (Some d)
  then obtain p where p: "fdt_getprop_namelen m fdt (pos pre) (bytes nm) = Some (Inr (p, of_nat (length d)))" "mem_bytes m p d"
    using getprop_at(2) [OF T s] by blast
  have "(of_nat (length d) :: u32) = 4 \<longleftrightarrow> length d = 4"
    using of_nat_u32_eq [of "length d" 4] prop_length [OF T Some] by simp
  moreover have "length d = 4 \<Longrightarrow> fdt32_ld m p = be32_of d"
    using p(2) by (simp add: fdt32_ld_def flip: read_bytes_mem_bytes)
  ultimately show ?thesis
    using p(1) Some by (auto simp: fdt_cells_def fdt_getprop_def dt_cells_def)
qed

lemma address_cells_at:
  assumes "toks_at m fdt B (pre @ flat (DNode n ps ks) @ post)"
  shows "fdt_address_cells m fdt (pos pre) = Some (dt_address_cells ps)"
    "fdt_size_cells m fdt (pos pre) = Some (dt_size_cells ps)"
proof -
  have "0 \<notin> set (bytes ''#address-cells'')" "0 \<notin> set (bytes ''#size-cells'')"
    by simp_all
  from this [THEN fdt_cells_at [OF assms]] show
    "fdt_address_cells m fdt (pos pre) = Some (dt_address_cells ps)"
    "fdt_size_cells m fdt (pos pre) = Some (dt_size_cells ps)"
    by (simp_all add: fdt_address_cells_def fdt_size_cells_def dt_address_cells_def dt_size_cells_def Let_def)
qed

section \<open>The initial ramdisk\<close>

definition cell_bytes :: "bool \<Rightarrow> u64 \<Rightarrow> u8 list" where
  "cell_bytes is64 v = (if is64 then be64_bytes v else be32_bytes (ucast v))"

lemma length_cell_bytes: "length (cell_bytes b v) = (if b then 8 else 4)"
  by (simp add: cell_bytes_def)

lemma setprop_uxx: "fdt_setprop_uxx fdt off s v b = fdt_setprop fdt off s (cell_bytes b v)"
  by (simp add: fdt_setprop_uxx_def fdt_setprop_u32_def fdt_setprop_u64_def cell_bytes_def)

lemma cost_cell_bytes: "prop_cost s (cell_bytes b v) \<le> length s + 21"
  by (simp add: prop_cost_def length_cell_bytes pad4_def)

definition initrd_tree :: "(u8 list \<times> u8 list) list \<Rightarrow> u64 \<Rightarrow> u64 \<Rightarrow> dtree list \<Rightarrow> dtree list" where
  "initrd_tree ps st en ks =
     (let is64 = (dt_address_cells ps = 2); c = bytes ''chosen''
      in on_child c (set_dt (bytes ''linux,initrd-end'') (cell_bytes is64 en))
           (on_child c (set_dt (bytes ''linux,initrd-start'') (cell_bytes is64 st)) (with_child c ks)))"

theorem initrd_at:
  assumes T: "toks_at m fdt B (flat (DNode n ps ks) @ post)" and ne: "st \<noteq> en" and room: "used B + 108 \<le> b_total B"
  shows "\<exists>m' B'. fdt_initrd fdt st en m = Some (0, m') \<and>
    b_total B' = b_total B \<and> same_outside m m' fdt (b_total B) \<and> used B' \<le> used B + 108 \<and>
    b_rsv B' = drop_addr st (b_rsv B) @ [(st, en - st)] \<and>
    toks_at m' fdt B' (flat (DNode n ps (initrd_tree ps st en ks)) @ post)"
proof -
  let ?c = "bytes ''chosen''" and ?is64 = "dt_address_cells ps = 2"
  let ?s = "bytes ''linux,initrd-start''" and ?e = "bytes ''linux,initrd-end''"
  have cost: "node_cost ?c = 16" "prop_cost ?s (cell_bytes ?is64 st) \<le> 39" "prop_cost ?e (cell_bytes ?is64 en) \<le> 37"
    using cost_cell_bytes [of ?s] cost_cell_bytes [of ?e] by (simp_all add: node_cost_def pad4_def)
  have T0: "toks_at m fdt B ([] @ flat (DNode n ps ks) @ post)"
    using T by simp
  obtain m1 B1 where 1: "fdt_find_or_add_subnode fdt (pos []) ''chosen'' m =
      Some (child_pos [] n ps ?c (with_child ?c ks), m1)" "edited m m1 fdt B B1" "used B1 \<le> used B + 16"
      "toks_at m1 fdt B1 ([] @ flat (DNode n ps (with_child ?c ks)) @ post)"
    using find_or_add_at [OF T0, of "''chosen''"] cost(1) room by auto
  let ?off = "child_pos [] n ps ?c (with_child ?c ks)"
  have B1: "blob_at m1 fdt B1" using 1(4) by (simp add: toks_at_def)
  obtain m2 B2 where 2: "drop_rsv fdt st m1 = Some (st \<in> fst ` set (b_rsv B1), m2)" "kept m1 m2 fdt B1 B2"
    "b_rsv B2 = drop_addr st (b_rsv B1)" "used B2 \<le> used B1"
    using drop_rsv_at [OF B1] by blast
  have B2: "blob_at m2 fdt B2" using 2(2) by (simp add: kept_def)
  have tot: "b_total B1 = b_total B" "b_total B2 = b_total B" "b_rsv B1 = b_rsv B"
    using 1(2) 2(2) by (simp_all add: edited_def kept_def)
  have "en - st \<noteq> 0" using ne by simp
  then obtain m3 B3 where 3: "fdt_add_mem_rsv fdt st (en - st) m2 = Some (0, m3)" "kept m2 m3 fdt B2 B3"
    "b_rsv B3 = b_rsv B2 @ [(st, en - st)]" "used B3 = used B2 + 16"
    using add_mem_rsv_at(2) [OF B2, of "en - st" st] 1(3) 2(4) tot room by auto
  have T3: "toks_at m3 fdt B3 ([] @ flat (DNode n ps (with_child ?c ks)) @ post)"
    using kept_toks [OF 3(2)] kept_toks [OF 2(2)] 1(4) by blast
  have tot3: "b_total B3 = b_total B" using 3(2) tot by (simp add: kept_def)
  have "used B3 + 39 \<le> b_total B3"
    using 1(3) 2(4) 3(4) tot3 room by simp
  then obtain m4 B4 where 4: "fdt_setprop fdt ?off ''linux,initrd-start'' (cell_bytes ?is64 st) m3 = Some (0, m4)"
    "edited m3 m4 fdt B3 B4" "used B4 \<le> used B3 + 39"
    "toks_at m4 fdt B4 ([] @ flat (DNode n ps (on_child ?c (set_dt ?s (cell_bytes ?is64 st)) (with_child ?c ks))) @ post)"
    by (rule child_setprop_step [OF T3 with_child_named cost(2)]) simp_all
  have tot4: "b_total B4 = b_total B" using 4(2) tot3 by (simp add: edited_def)
  have off4: "child_pos [] n ps ?c (on_child ?c (set_dt ?s (cell_bytes ?is64 st)) (with_child ?c ks)) = ?off"
    unfolding before_on_child [OF name_set_dt] ..
  have "used B4 + 37 \<le> b_total B4"
    using 1(3) 2(4) 3(4) 4(3) tot4 room by simp
  then obtain m5 B5 where 5: "fdt_setprop fdt ?off ''linux,initrd-end'' (cell_bytes ?is64 en) m4 = Some (0, m5)"
    "edited m4 m5 fdt B4 B5" "used B5 \<le> used B4 + 37"
    "toks_at m5 fdt B5 ([] @ flat (DNode n ps (initrd_tree ps st en ks)) @ post)"
    unfolding initrd_tree_def Let_def
    by (rule child_setprop_step [OF 4(4) on_child_named [OF name_set_dt with_child_named] cost(3), unfolded off4])
      simp_all
  have nn: "\<not> neg ?off"
    using child_pos_not_neg [OF 1(4) with_child_named] .
  have "fdt_initrd fdt st en m = Some (0, m5)"
    unfolding fdt_initrd_def if_not_P [OF ne] setprop_uxx
    using 1(1) nn 2(1) 3(1) address_cells_at(1) [OF T3] 4(1) 5(1)
    by (simp add: Let_def del: map_append sum_list_append)
  moreover have "same_outside m m5 fdt (b_total B)"
    using 1(2) 2(2) 3(2) 4(2) 5(2) tot tot3 tot4 by (simp add: edited_def kept_def same_outside_def)
  moreover have "b_rsv B5 = drop_addr st (b_rsv B) @ [(st, en - st)]"
    using 4(2) 5(2) 3(3) 2(3) tot(3) by (simp add: edited_def)
  moreover have "b_total B5 = b_total B"
    using 5(2) tot4 by (simp add: edited_def)
  ultimately show ?thesis
    using 5(4) 1(3) 2(4) 3(4) 4(3) 5(3) by (intro exI [of _ m5] exI [of _ B5]) simp
qed

section \<open>The memory node\<close>

lemma put_cells_at:
  assumes "a \<in> {1, 2}" "8 \<le> length ys"
  shows "put_cells a v (xs @ ys, int (length xs)) =
    Some (xs @ cell_bytes (a = 2) v @ drop (length (cell_bytes (a = 2) v)) ys, int (length xs + length (cell_bytes (a = 2) v)))"
  using assms by (auto simp: put_cells_def cell_bytes_def)

lemma pack_reg_at:
  assumes T: "toks_at m fdt B (flat (DNode n ps ks) @ post)" and tmp: "length tmp = 64"
    and cells: "dt_address_cells ps \<in> {1, 2}" "dt_size_cells ps \<in> {1, 2}"
  shows "fdt_pack_reg m fdt tmp [(st, sz)] =
    Some (cell_bytes (dt_address_cells ps = 2) st @ cell_bytes (dt_size_cells ps = 2) sz)"
proof -
  have T0: "toks_at m fdt B ([] @ flat (DNode n ps ks) @ post)"
    using T by simp
  have c: "fdt_address_cells m fdt 0 = Some (dt_address_cells ps)" "fdt_size_cells m fdt 0 = Some (dt_size_cells ps)"
    using address_cells_at [OF T0] by simp_all
  let ?x = "cell_bytes (dt_address_cells ps = 2) st" and ?y = "cell_bytes (dt_size_cells ps = 2) sz"
  have len: "length ?x \<le> 8" "length ?y \<le> 8"
    by (simp_all add: length_cell_bytes)
  have "put_cells (dt_address_cells ps) st (tmp, 0) = Some (?x @ drop (length ?x) tmp, int (length ?x))"
    using put_cells_at [OF cells(1), of tmp st "[]"] tmp by simp
  moreover have "put_cells (dt_size_cells ps) sz (?x @ drop (length ?x) tmp, int (length ?x)) =
      Some (?x @ ?y @ drop (length ?y) (drop (length ?x) tmp), int (length ?x + length ?y))"
    using tmp len by (intro put_cells_at [OF cells(2)]) simp
  ultimately show ?thesis
    using tmp len by (simp add: fdt_pack_reg_def c)
qed

definition memory_tree :: "(u8 list \<times> u8 list) list \<Rightarrow> u64 \<Rightarrow> u64 \<Rightarrow> dtree list \<Rightarrow> dtree list" where
  "memory_tree ps st sz ks =
     (let c = bytes ''memory'';
          reg = cell_bytes (dt_address_cells ps = 2) st @ cell_bytes (dt_size_cells ps = 2) sz
      in on_child c (set_dt (bytes ''reg'') reg)
           (on_child c (set_dt (bytes ''device_type'') (bytes ''memory'' @ [0])) (with_child c ks)))"

theorem fixup_memory_at:
  assumes T: "toks_at m fdt B (flat (DNode n ps ks) @ post)" and bank: "(st, sz) \<noteq> (0, 0)"
    and cells: "dt_address_cells ps \<in> {1, 2}" "dt_size_cells ps \<in> {1, 2}"
    and tmp: "length tmp = 64" and room: "used B + 80 \<le> b_total B"
  shows "\<exists>m' B'. fdt_fixup_memory fdt tmp st sz m = Some (0, m') \<and> edited m m' fdt B B' \<and>
    used B' \<le> used B + 80 \<and> toks_at m' fdt B' (flat (DNode n ps (memory_tree ps st sz ks)) @ post)"
proof -
  let ?c = "bytes ''memory''" and ?d = "bytes ''memory'' @ [0]"
  let ?reg = "cell_bytes (dt_address_cells ps = 2) st @ cell_bytes (dt_size_cells ps = 2) sz"
  have cost: "node_cost ?c = 16" "prop_cost (bytes ''device_type'') ?d \<le> 32" "prop_cost (bytes ''reg'') ?reg \<le> 32"
    by (simp_all add: node_cost_def prop_cost_def pad4_def length_cell_bytes)
  have T0: "toks_at m fdt B ([] @ flat (DNode n ps ks) @ post)"
    using T by simp
  have chk: "fdt_check_header fdt m = 0"
    using T by (auto simp: toks_at_def fdt_check_header_def dest: blob_header(1))
  obtain m1 B1 where 1: "fdt_find_or_add_subnode fdt (pos []) ''memory'' m =
      Some (child_pos [] n ps ?c (with_child ?c ks), m1)" "edited m m1 fdt B B1" "used B1 \<le> used B + 16"
      "toks_at m1 fdt B1 ([] @ flat (DNode n ps (with_child ?c ks)) @ post)"
    using find_or_add_at [OF T0, of "''memory''"] cost(1) room by auto
  let ?off = "child_pos [] n ps ?c (with_child ?c ks)"
  have nn: "\<not> neg ?off"
    using child_pos_not_neg [OF 1(4) with_child_named] .
  have tot1: "b_total B1 = b_total B" using 1(2) by (simp add: edited_def)
  have "used B1 + 32 \<le> b_total B1"
    using 1(3) tot1 room by simp
  then obtain m2 B2 where 2: "fdt_setprop fdt ?off ''device_type'' ?d m1 = Some (0, m2)" "edited m1 m2 fdt B1 B2"
    "used B2 \<le> used B1 + 32"
    "toks_at m2 fdt B2 ([] @ flat (DNode n ps (on_child ?c (set_dt (bytes ''device_type'') ?d) (with_child ?c ks))) @ post)"
    by (rule child_setprop_step [OF 1(4) with_child_named cost(2)]) simp_all
  have tot2: "b_total B2 = b_total B" using 2(2) tot1 by (simp add: edited_def)
  have T2: "toks_at m2 fdt B2 (flat (DNode n ps (on_child ?c (set_dt (bytes ''device_type'') ?d) (with_child ?c ks))) @ post)"
    using 2(4) by simp
  have off2: "child_pos [] n ps ?c (on_child ?c (set_dt (bytes ''device_type'') ?d) (with_child ?c ks)) = ?off"
    unfolding before_on_child [OF name_set_dt] ..
  have "used B2 + 32 \<le> b_total B2"
    using 1(3) 2(3) tot2 room by simp
  then obtain m3 B3 where 3: "fdt_setprop fdt ?off ''reg'' ?reg m2 = Some (0, m3)" "edited m2 m3 fdt B2 B3"
    "used B3 \<le> used B2 + 32" "toks_at m3 fdt B3 ([] @ flat (DNode n ps (memory_tree ps st sz ks)) @ post)"
    unfolding memory_tree_def Let_def
    by (rule child_setprop_step [OF 2(4) on_child_named [OF name_set_dt with_child_named] cost(3), unfolded off2])
      simp_all
  have "fdt_fixup_memory fdt tmp st sz m = Some (0, m3)"
    using 1(1) nn 2(1) 3(1) pack_reg_at [OF T2 tmp cells, of st sz] bank chk
    by (simp add: fdt_fixup_memory_def fdt_fixup_memory_banks_def MEMORY_BANKS_MAX_def Let_def
        del: map_append sum_list_append)
  moreover have "edited m m3 fdt B B3"
    using 1(2) 2(2) 3(2) by (blast intro: edited_trans)
  ultimately show ?thesis
    using 3(4) 1(3) 2(3) 3(3) by (intro exI [of _ m3] exI [of _ B3]) simp
qed

section \<open>The final size\<close>

lemma and_not_fff: "x AND NOT 0xfff = of_nat (unat x div 4096 * 4096)" for x :: u64
proof -
  have "x AND NOT (mask 12) = push_bit 12 (drop_bit 12 x)"
    by (rule bit_eqI) (auto simp: bit_simps)
  also have "\<dots> = of_nat (unat x div 4096 * 4096)"
    by (simp add: push_bit_eq_mult drop_bit_eq_div word_arith_nat_div)
  finally show ?thesis
    by (simp add: mask_eq_exp_minus_1)
qed

lemma and_fff: "x AND 0xfff = of_nat (unat x mod 4096)" for x :: u64
proof -
  have "x AND mask 12 = of_nat (unat x mod 4096)"
    by (simp add: take_bit_eq_mod flip: take_bit_eq_mask) (simp add: word_arith_nat_mod)
  then show ?thesis
    by (simp add: mask_eq_exp_minus_1)
qed

lemma page_end:
  fixes x p :: nat
  assumes "p < 4096"
  shows "x \<le> (x + p + 4095) div 4096 * 4096 - p" "(x + p + 4095) div 4096 * 4096 - p < x + 4096"
    "p \<le> (x + p + 4095) div 4096 * 4096 \<or> x = 0 \<and> p = 0"
proof -
  have "(x + p + 4095) div 4096 * 4096 + (x + p + 4095) mod 4096 = x + p + 4095"
    by (rule div_mult_mod_eq)
  moreover have "(x + p + 4095) mod 4096 < 4096" by simp
  ultimately have "x + p \<le> (x + p + 4095) div 4096 * 4096" "(x + p + 4095) div 4096 * 4096 < x + p + 4096"
    by linarith+
  then show "x \<le> (x + p + 4095) div 4096 * 4096 - p" "(x + p + 4095) div 4096 * 4096 - p < x + 4096"
    "p \<le> (x + p + 4095) div 4096 * 4096 \<or> x = 0 \<and> p = 0"
    by linarith+
qed

lemma shrunk_size_at:
  assumes B: "blob_at m fdt B" and e: "used B + e < 2 ^ 31"
  obtains t where "shrunk_size m fdt (of_nat e) = of_nat t" "used B + 80 + e \<le> t" "t < used B + 80 + e + 4096"
    "(unat fdt + t) mod 4096 = 0"
proof -
  define x p where "x = used B + 80 + e" and "p = unat fdt mod 4096"
  define t where "t = (x + p + 4095) div 4096 * 4096 - p"
  define y where "y = (x + p + 4095) div 4096 * 4096"
  have p: "p < 4096" by (simp add: p_def)
  have x: "x < 2 ^ 31 + 80" using e by (simp add: x_def)
  note bounds = page_end [OF p, of x, folded t_def]
  have "fdt_off_dt_strings m fdt + fdt_size_dt_strings m fdt + 5 * 16 + of_nat e = (of_nat x :: u32)"
    by (simp add: blob_header [OF B] x_def)
  moreover have "(ucast (of_nat x :: u32) :: u64) = of_nat x"
    using x by (simp add: ucast_u32)
  moreover have "unat (of_nat x + of_nat p + 0xfff :: u64) = x + p + 4095"
    using x p unat_of_nat [of "x + p + 4095", where ?'a = 64] by simp
  then have "(of_nat x + of_nat p + 0xfff) AND NOT 0xfff = (of_nat y :: u64)"
    unfolding and_not_fff y_def by simp
  moreover have "fdt AND 0xfff = of_nat p"
    by (simp add: and_fff p_def)
  moreover have y: "y < 2 ^ 32" "p \<le> y" "t = y - p"
    using bounds x p by (simp_all add: t_def y_def x_def)
  then have "(ucast (of_nat y :: u32) :: u64) = of_nat y" "of_nat y - of_nat p = (of_nat t :: u64)"
    by (simp_all add: ucast_u32)
  moreover have "(ucast (of_nat k :: u64) :: u32) = of_nat k" for k
    by (simp add: unsigned_of_nat word_of_nat_eq_iff)
  ultimately have "shrunk_size m fdt (of_nat e) = of_nat t"
    by (simp add: shrunk_size_def Let_def)
  moreover have "unat fdt + t = unat fdt div 4096 * 4096 + y"
    using y div_mult_mod_eq [of "unat fdt" 4096] unfolding p_def by linarith
  then have "(unat fdt + t) mod 4096 = 0"
    by (simp add: y_def)
  ultimately show thesis
    using bounds(1,2) by (intro that) (simp_all add: x_def)
qed

text \<open>
  After \<open>fdt_shrink_to_minimum\<close> the blob ends on a page boundary with room for five reservations;
  a reservation of the blob itself has the new size, and is not made when there was none.
\<close>

theorem shrink_at:
  assumes T: "toks_at m fdt B ts" and nz: "fdt \<noteq> 0" and e: "used B + e + 8192 < 2 ^ 31"
  shows "\<exists>t m' B'. fdt_shrink_to_minimum fdt (of_nat e) m = Some (of_nat t, m') \<and>
    toks_at m' fdt B' ts \<and> b_total B' = t \<and> t < used B + e + 4176 \<and> (unat fdt + t) mod 4096 = 0 \<and>
    same_outside m m' fdt (max t (b_total B)) \<and>
    b_rsv B' = (if fdt \<in> fst ` set (b_rsv B) then drop_addr fdt (b_rsv B) @ [(fdt, of_nat t)] else b_rsv B)"
proof -
  have B: "blob_at m fdt B" using T by (simp add: toks_at_def)
  obtain m1 B1 where 1: "drop_rsv fdt fdt m = Some (fdt \<in> fst ` set (b_rsv B), m1)" "kept m m1 fdt B B1"
    "b_rsv B1 = drop_addr fdt (b_rsv B)" "used B1 \<le> used B"
    using drop_rsv_at [OF B] by blast
  have B1: "blob_at m1 fdt B1" and tot: "b_total B1 = b_total B"
    using 1(2) by (simp_all add: kept_def)
  have "used B1 + e < 2 ^ 31" using 1(4) e by simp
  from shrunk_size_at [OF B1 this] obtain t where t: "shrunk_size m1 fdt (of_nat e) = of_nat t"
    "used B1 + 80 + e \<le> t" "t < used B1 + 80 + e + 4096" "(unat fdt + t) mod 4096 = 0" .
  define m2 where "m2 = fdt_set_totalsize fdt (of_nat t) m1"
  let ?B2 = "B1\<lparr>b_total := t\<rparr>"
  have small: "t < 2 ^ 31 - 1" using t(3) 1(4) e by simp
  have "used B1 \<le> t" using t(2) by simp
  from set_totalsize_at [OF B1 this small] have 2: "blob_at m2 fdt ?B2" "same_outside m1 m2 fdt 40"
    unfolding m2_def .
  have "40 \<le> t" using t(2) by simp
  have out2: "same_outside m m2 fdt (max t (b_total B))"
    using 1(2) 2(2) \<open>40 \<le> t\<close> tot by (simp add: kept_def same_outside_def)
  have "toks_at m1 fdt B1 ts"
    using kept_toks [OF 1(2) T] .
  then have T2: "toks_at m2 fdt ?B2 ts"
    using 2(1) by (simp add: toks_at_def)
  have bound: "t < used B + e + 4176" using t(3) 1(4) by simp
  show ?thesis
  proof (cases "fdt \<in> fst ` set (b_rsv B)")
    case False
    then have "fdt_shrink_to_minimum fdt (of_nat e) m = Some (of_nat t, m2)"
      using nz 1(1) t(1) by (simp add: fdt_shrink_to_minimum_def m2_def Let_def)
    then show ?thesis
      using T2 False t(4) bound out2 1(3) by (intro exI [of _ t] exI [of _ m2] exI [of _ ?B2]) (simp add: drop_addr_none)
  next
    case True
    have sz: "(ucast (of_nat t :: u32) :: u64) = of_nat t" "of_nat t \<noteq> (0 :: u64)"
      using small \<open>40 \<le> t\<close> by (simp_all add: ucast_u32 word_of_nat_eq_0_iff nat_dvd_not_less)
    have "used ?B2 + 16 \<le> b_total ?B2" using t(2) by simp
    from add_mem_rsv_at(2) [OF 2(1) sz(2) this] obtain m3 B3 where 3:
      "fdt_add_mem_rsv fdt fdt (of_nat t) m2 = Some (0, m3)" "kept m2 m3 fdt ?B2 B3"
      "b_rsv B3 = b_rsv ?B2 @ [(fdt, of_nat t)]"
      by blast
    have "fdt_shrink_to_minimum fdt (of_nat e) m = Some (of_nat t, m3)"
      using nz 1(1) True t(1) 3(1) sz(1) by (simp add: fdt_shrink_to_minimum_def m2_def [symmetric] Let_def)
    moreover have "toks_at m3 fdt B3 ts"
      using kept_toks [OF 3(2) T2] .
    moreover have "same_outside m m3 fdt (max t (b_total B))" "b_total B3 = t"
      using out2 3(2) by (simp_all add: kept_def same_outside_def)
    ultimately show ?thesis
      using True t(4) bound 1(3) 3(3) by (intro exI [of _ t] exI [of _ m3] exI [of _ B3]) simp
  qed
qed

end
