(* ===== verification/Fdt_Path.thy ===== *)
theory Fdt_Path
  imports Fdt_Fixup
begin

text \<open>
  Paths and aliases: \<open>fdt_path_offset\<close> follows an absolute path in the tree, and an alias gives the
  string in the blob. Nodes found by a path are changed in place.
\<close>

section \<open>The parts of a path\<close>

function parts :: "u8 list \<Rightarrow> u8 list list" where
  "parts path =
     (let p = dropWhile (\<lambda>c. c = slash) path
      in if p = [] then [] else takeWhile (\<lambda>c. c \<noteq> slash) p # parts (dropWhile (\<lambda>c. c \<noteq> slash) p))"
  by pat_completeness auto
termination
proof (relation "measure length")
  fix path p :: "u8 list"
  assume p: "p = dropWhile (\<lambda>c. c = slash) path" "p \<noteq> []"
  then have "hd p \<noteq> slash"
    using hd_dropWhile [of "\<lambda>c. c = slash" path] by simp
  then have "length (dropWhile (\<lambda>c. c \<noteq> slash) p) < length p"
    using p(2) by (cases p) (auto simp: length_dropWhile_le less_Suc_eq_le)
  also have "\<dots> \<le> length path"
    by (simp add: p(1) length_dropWhile_le)
  finally show "(dropWhile (\<lambda>c. c \<noteq> slash) p, path) \<in> measure length"
    by simp
qed simp

declare parts.simps [simp del]

text \<open>The node at the end of a path and what comes before it in the blob.\<close>

fun walk :: "u8 list list \<Rightarrow> tok list \<Rightarrow> dtree \<Rightarrow> (tok list \<times> dtree) option" where
  "walk [] pre t = Some (pre, t)"
| "walk (s # ss) pre (DNode n ps ks) =
     (case dropWhile (\<lambda>k. \<not> node_named s (dt_name k)) ks of
        [] \<Rightarrow> None
      | k # _ \<Rightarrow> walk ss (pre @ TBegin n # prop_toks ps @ concat (map flat (before s ks))) k)"

fun at_path :: "u8 list list \<Rightarrow> (dtree \<Rightarrow> dtree) \<Rightarrow> dtree \<Rightarrow> dtree" where
  "at_path [] f t = f t"
| "at_path (s # ss) f (DNode n ps ks) = DNode n ps (on_child s (at_path ss f) ks)"

lemma kids_split:
  "ks = before s ks @ dropWhile (\<lambda>k. \<not> node_named s (dt_name k)) ks"
  by simp

lemma walk_split:
  assumes "walk ss pre t = Some (q, t')"
  obtains post' where "\<And>f. q @ flat (f t') @ post' = pre @ flat (at_path ss f t) @ post"
proof -
  have "\<exists>post'. \<forall>f. q @ flat (f t') @ post' = pre @ flat (at_path ss f t) @ post"
    using assms
  proof (induction ss pre t arbitrary: post rule: walk.induct)
    case (1 pre t)
    then show ?case by auto
  next
    case (2 s ss pre n ps ks)
    obtain k rest where k: "dropWhile (\<lambda>k. \<not> node_named s (dt_name k)) ks = k # rest"
      using "2.prems" by (auto split: list.splits)
    then have "before s ks \<noteq> ks"
      using kids_split [of ks s] by (metis append_Nil2 list.distinct(1) same_append_eq)
    then obtain k' rest' where split: "ks = before s ks @ k' # rest'"
      "\<And>f. on_child s f ks = before s ks @ f k' # rest'"
      using child_split by metis
    have "before s ks @ k' # rest' = before s ks @ k # rest"
      using split(1) kids_split [of ks s] k by simp
    then have "k' = k" "rest' = rest" by simp_all
    note oc = split(2) [unfolded this]
    let ?pre = "pre @ TBegin n # prop_toks ps @ concat (map flat (before s ks))"
    have "walk ss ?pre k = Some (q, t')"
      using "2.prems" k by simp
    from "2.IH" [OF k this, of "concat (map flat rest) @ [TEndNode] @ post"]
    obtain post' where "\<forall>f. q @ flat (f t') @ post' = ?pre @ flat (at_path ss f k) @ concat (map flat rest) @ [TEndNode] @ post"
      by blast
    then show ?case
      by (intro exI [of _ post']) (simp add: oc)
  qed
  then show thesis using that by blast
qed

lemma on_child_id: "on_child s (\<lambda>k. k) ks = ks"
  by (induction ks) auto

lemma at_path_id: "at_path ss (\<lambda>t. t) t = t"
proof (induction ss arbitrary: t)
  case (Cons s ss)
  then have "at_path ss (\<lambda>t. t) = (\<lambda>t. t)" by blast
  then show ?case by (cases t) (simp add: on_child_id)
qed simp

theorem path_walk_at:
  assumes "toks_at m fdt B (pre @ flat t @ post)" "0 \<notin> set path"
  shows "path_walk m fdt path (pos pre) =
    Some (case walk (parts path) pre t of None \<Rightarrow> - FDT_ERR_NOTFOUND | Some (q, _) \<Rightarrow> pos q)"
  using assms
proof (induction path arbitrary: pre t post rule: parts.induct)
  case (1 path)
  define p where "p = dropWhile (\<lambda>c. c = slash) path"
  show ?case
  proof (cases "p = []")
    case True
    then show ?thesis
      using path_walk.simps [of m fdt path] parts.simps [of path] by (simp add: p_def [symmetric] Let_def)
  next
    case False
    let ?s = "takeWhile (\<lambda>c. c \<noteq> slash) p" and ?r = "dropWhile (\<lambda>c. c \<noteq> slash) p"
    have sub: "set ?s \<subseteq> set path" "set ?r \<subseteq> set path"
      by (auto simp: p_def dest: set_takeWhileD set_dropWhileD)
    then have z: "0 \<notin> set ?s" "0 \<notin> set ?r"
      using "1.prems"(2) by auto
    obtain n ps ks where t: "t = DNode n ps ks" by (cases t)
    note so = subnode_offset_at [OF "1.prems"(1) [unfolded t] z(1)]
    have step: "path_walk m fdt path (pos pre) =
        do { offset \<leftarrow> fdt_subnode_offset_namelen m fdt (pos pre) ?s;
             if neg offset then Some offset else path_walk m fdt ?r offset }"
      using False by (subst path_walk.simps) (simp only: p_def [symmetric] Let_def if_False)
    have parts: "parts path = ?s # parts ?r"
      using False by (subst parts.simps) (simp only: p_def [symmetric] Let_def if_False)
    show ?thesis
    proof (cases "before ?s ks = ks")
      case True
      then have nil: "dropWhile (\<lambda>k. \<not> node_named ?s (dt_name k)) ks = []"
        by (simp add: dropWhile_eq_Nil_conv takeWhile_eq_all_conv)
      show ?thesis
        unfolding step so parts t if_P [OF True] walk.simps nil by simp
    next
      case named: False
      obtain k rest where k: "ks = before ?s ks @ k # rest"
        using child_split [OF named] by metis
      then have dw: "dropWhile (\<lambda>k. \<not> node_named ?s (dt_name k)) ks = k # rest"
        using kids_split [of ks ?s] by (metis same_append_eq)
      let ?pre = "pre @ TBegin n # prop_toks ps @ concat (map flat (before ?s ks))"
      have "concat (map flat ks) = concat (map flat (before ?s ks)) @ flat k @ concat (map flat rest)"
        using k by (metis concat.simps(2) concat_append list.simps(9) map_append)
      then have "toks_at m fdt B (?pre @ flat k @ concat (map flat rest) @ [TEndNode] @ post)"
        using "1.prems"(1) t by simp
      from "1.IH" [OF p_def False this z(2)] show ?thesis
        unfolding step so parts t if_not_P [OF named]
        using child_pos_not_neg [OF "1.prems"(1) [unfolded t] named]
        by (simp add: dw del: map_append sum_list_append)
    qed
  qed
qed

section \<open>Paths and aliases in the blob\<close>

theorem path_offset_at:
  assumes T: "toks_at m fdt B (flat t @ post)" and path: "0 \<notin> set path" "take 1 path = [slash]"
  shows "fdt_path_offset_namelen m fdt path =
    Some (case walk (parts path) [] t of None \<Rightarrow> - FDT_ERR_NOTFOUND | Some (q, _) \<Rightarrow> pos q)"
proof -
  have "toks_at m fdt B ([] @ flat t @ post)" using T by simp
  from path_walk_at [OF this path(1)] path(2) show ?thesis
    by (subst fdt_path_offset_namelen.simps) simp
qed

text \<open>The string that an alias stands for: the bytes of the property.\<close>

definition dt_alias :: "string \<Rightarrow> dtree \<Rightarrow> u8 list option" where
  "dt_alias nm t = Option.bind (walk [bytes ''aliases''] [] t) (\<lambda>(_, k). map_of (dt_props k) (bytes nm))"

theorem get_alias_at:
  assumes T: "toks_at m fdt B (flat t @ post)" and nm: "CHR 0x00 \<notin> set nm"
  shows "dt_alias nm t = None \<Longrightarrow> fdt_get_alias m fdt nm = Some 0"
    and "dt_alias nm t = Some d \<Longrightarrow> \<exists>p. fdt_get_alias m fdt nm = Some p \<and> mem_bytes m p d \<and> p \<noteq> 0"
proof -
  have T0: "toks_at m fdt B ([] @ flat t @ post)" using T by simp
  have parts: "parts (bytes ''/aliases'') = [bytes ''aliases'']"
    by (simp add: parts.simps bytes_Cons)
  have pw: "path_walk m fdt (bytes ''/aliases'') 0 =
      Some (case walk [bytes ''aliases''] [] t of None \<Rightarrow> - FDT_ERR_NOTFOUND | Some (q, _) \<Rightarrow> pos q)"
    using path_walk_at [OF T0, of "bytes ''/aliases''"] by (simp add: parts)
  have z: "0 \<notin> set (bytes nm)" using nm by simp
  have both: "(dt_alias nm t = None \<longrightarrow> fdt_get_alias m fdt nm = Some 0) \<and>
      (\<forall>d. dt_alias nm t = Some d \<longrightarrow> (\<exists>p. fdt_get_alias m fdt nm = Some p \<and> mem_bytes m p d \<and> p \<noteq> 0))"
  proof (cases "walk [bytes ''aliases''] [] t")
    case None
    then show ?thesis
      using pw by (simp add: dt_alias_def fdt_get_alias_def fdt_get_alias_namelen_def)
  next
    case (Some qk)
    obtain q n ps ks where qk: "qk = (q, DNode n ps ks)"
      by (metis dtree.exhaust surj_pair)
    obtain post' where "q @ flat (DNode n ps ks) @ post' = [] @ flat (at_path [bytes ''aliases''] (\<lambda>t. t) t) @ post"
      using walk_split [OF Some [unfolded qk]] by metis
    then have A: "toks_at m fdt B (q @ flat (DNode n ps ks) @ post')"
      using T by (simp add: at_path_id)
    have off: "path_walk m fdt (bytes ''/aliases'') 0 = Some (pos q)" "\<not> neg (pos q)"
      using pw Some qk toks_at_pos [OF A] by simp_all
    then have call: "fdt_get_alias m fdt nm =
        map_option (case_sum (\<lambda>_. 0) fst) (fdt_getprop_namelen m fdt (pos q) (bytes nm))"
      by (simp add: fdt_get_alias_def fdt_get_alias_namelen_def)
    show ?thesis
      using getprop_at [OF A z] Some qk by (auto simp: call dt_alias_def)
  qed
  then show "dt_alias nm t = None \<Longrightarrow> fdt_get_alias m fdt nm = Some 0"
    "dt_alias nm t = Some d \<Longrightarrow> \<exists>p. fdt_get_alias m fdt nm = Some p \<and> mem_bytes m p d \<and> p \<noteq> 0"
    by blast+
qed

section \<open>Nodes at paths\<close>

lemma at_path_missing: "walk ss pre t = None \<Longrightarrow> at_path ss f t = t"
proof (induction ss pre t rule: walk.induct)
  case (2 s ss pre n ps ks)
  show ?case
  proof (cases "dropWhile (\<lambda>k. \<not> node_named s (dt_name k)) ks")
    case Nil
    then have "on_child s g ks = ks" for g
      by (induction ks) (auto split: if_splits)
    then show ?thesis by simp
  next
    case (Cons k rest)
    then have "before s ks \<noteq> ks"
      using kids_split [of ks s] by (metis append_Nil2 list.distinct(1) same_append_eq)
    then obtain k' rest' where split: "ks = before s ks @ k' # rest'"
      "\<And>f. on_child s f ks = before s ks @ f k' # rest'"
      using child_split by metis
    have "k' # rest' = k # rest"
      using split(1) kids_split [of ks s] Cons by (metis same_append_eq)
    moreover have "at_path ss f k = k"
      using "2.IH" [OF Cons] "2.prems" Cons by simp
    ultimately have "on_child s (at_path ss f) ks = ks"
      using split by (metis list.inject)
    then show ?thesis by simp
  qed
qed simp

lemma fixed_path_at:
  assumes T: "toks_at m fdt B (flat t @ post)" and p: "CHR 0x00 \<notin> set p" "take 1 p = ''/''"
  shows "fdt_path_offset m fdt p =
    Some (case walk (parts (bytes p)) [] t of None \<Rightarrow> - FDT_ERR_NOTFOUND | Some (q, _) \<Rightarrow> pos q)"
proof -
  have "take 1 (bytes p) = [slash]"
    using p(2) by (cases p) (simp_all add: bytes_Cons)
  then show ?thesis
    using path_offset_at [OF T, of "bytes p"] p(1) by (simp add: fdt_path_offset_def)
qed

lemma walk_node:
  assumes T: "toks_at m fdt B (flat t @ post)" and w: "walk ss [] t = Some (q, k)"
  obtains post' where "toks_at m fdt B (q @ flat k @ post')" "\<And>f. q @ flat (f k) @ post' = flat (at_path ss f t) @ post"
    "\<not> neg (pos q)"
proof -
  obtain post' where s: "\<And>f. q @ flat (f k) @ post' = [] @ flat (at_path ss f t) @ post"
    using walk_split [OF w] by blast
  have "toks_at m fdt B (q @ flat k @ post')"
    using s [of "\<lambda>t. t"] T by (simp add: at_path_id)
  moreover from this have "\<not> neg (pos q)"
    by (rule toks_at_pos)
  ultimately show thesis
    using that [of post'] s by simp
qed

section \<open>Editing at a path\<close>

theorem path_setprop_at:
  assumes T: "toks_at m fdt B (flat t @ post)" and w: "walk ss [] t = Some (q, t')"
    and cost: "prop_cost (bytes s) v \<le> k" "used B + k \<le> b_total B" "CHR 0x00 \<notin> set s" "k < 2 ^ 30"
  shows "\<exists>m' B'. fdt_setprop fdt (pos q) s v m = Some (0, m') \<and> edited m m' fdt B B' \<and> used B' \<le> used B + k \<and>
    toks_at m' fdt B' (flat (at_path ss (set_dt (bytes s) v) t) @ post)"
proof -
  obtain post' where split: "\<And>f. q @ flat (f t') @ post' = [] @ flat (at_path ss f t) @ post"
    using walk_split [OF w] by blast
  obtain n ps ks where t': "t' = DNode n ps ks" by (cases t')
  have "toks_at m fdt B (q @ flat (DNode n ps ks) @ post')"
    using T split [of "\<lambda>t. t"] by (simp add: at_path_id t')
  moreover have "length (bytes s) < 2 ^ 30" "length v < 2 ^ 30" "used B + prop_cost (bytes s) v \<le> b_total B"
    using cost by (simp_all add: prop_cost_def)
  moreover have "0 \<notin> set (bytes s)"
    using cost(3) by simp
  ultimately obtain m' B' where "fdt_setprop fdt (pos q) s v m = Some (0, m')" "edited m m' fdt B B'"
    "used B' \<le> used B + prop_cost (bytes s) v"
    "toks_at m' fdt B' (q @ flat (DNode n (set_prop (bytes s) v ps) ks) @ post')"
    using setprop_room by blast
  then show ?thesis
    using split [of "set_dt (bytes s) v"] cost(1) by (intro exI [of _ m'] exI [of _ B']) (simp add: t')
qed

section \<open>A blob without gaps\<close>

definition packed :: "blob \<Rightarrow> u8 list" where
  "packed B = fdt_header B @ rsvmap (b_rsv B @ [(0, 0)]) @ b_struct B @ b_strs B"

lemma blob_at_packed:
  assumes "blob_ok fdt B" "b_roff B = 40" "b_soff B = 56 + 16 * length (b_rsv B)"
    "b_toff B = b_soff B + length (b_struct B)" "mem_bytes m fdt (packed B)"
  shows "blob_at m fdt B"
  using assms unfolding blob_at_def packed_def by (simp add: add.assoc del: rsvmap_append)

text \<open>The smallest one: a root without properties and children.\<close>

definition root_blob :: blob where
  "root_blob = \<lparr>b_total = 72, b_roff = 40, b_rsv = [], b_soff = 56,
     b_struct = be32_bytes FDT_BEGIN_NODE @ [0, 0, 0, 0] @ be32_bytes FDT_END_NODE @ be32_bytes FDT_END,
     b_toff = 72, b_strs = [], b_lcv = 16, b_cpu = 0\<rparr>"

lemma root_toks:
  assumes "mem_bytes m fdt (packed root_blob)" "unat fdt + 2 ^ 32 \<le> 2 ^ 64"
  shows "toks_at m fdt root_blob (flat (DNode [] [] []) @ [TEnd])"
proof -
  have "blob_at m fdt root_blob"
    using assms by (intro blob_at_packed) (simp_all add: root_blob_def blob_ok_def)
  moreover have "toks_enc [] (flat (DNode [] [] []) @ [TEnd]) (b_struct root_blob)"
    by (simp add: root_blob_def pad4_def)
  ultimately show ?thesis
    by (simp add: toks_at_def root_blob_def)
qed

end
