(* ===== verification/Boot_Images.thy ===== *)
theory Boot_Images
  imports Boot_Select Fdt_Path
begin

text \<open>
  Booting a configuration, \<open>src/src/main.c\<close>: \<open>boot_prepare\<close> loads the images listed in its
  block, checks and places the kernel and opens the device tree; \<open>boot_finalize\<close> completes the
  tree with the functions of \<open>Fdt_Rw\<close> and \<open>Fdt_Support\<close>; \<open>boot_perform\<close> hands over. \<open>None\<close> is a
  string in memory without a NUL or a walk over the device tree that does not return. Messages to
  the console are left out. \<open>tmp\<close> is what the array on the stack of \<open>fdt_fixup_memory_banks\<close> holds.
\<close>

section \<open>Images\<close>

abbreviation IMAGE_ATF :: nat where "IMAGE_ATF \<equiv> 0"
abbreviation IMAGE_FDT :: nat where "IMAGE_FDT \<equiv> 1"
abbreviation IMAGE_LINUX :: nat where "IMAGE_LINUX \<equiv> 2"
abbreviation IMAGE_INITRD :: nat where "IMAGE_INITRD \<equiv> 3"
abbreviation IMAGE_FDT2 :: nat where "IMAGE_FDT2 \<equiv> 4"
abbreviation IMAGE_COUNT :: nat where "IMAGE_COUNT \<equiv> 5"

definition ATF_PA :: u32 where "ATF_PA = 0x44000"
definition LINUX_IMAGE_PA :: u32 where "LINUX_IMAGE_PA = 0x40000000"
definition FDT_BLOB_PA :: u32 where "FDT_BLOB_PA = 0x4a000000"
definition FDT_BLOB2_PA :: u32 where "FDT_BLOB2_PA = 0x4b000000"
definition INITRAMFS_PA :: u32 where "INITRAMFS_PA = 0x4fe00000"

record boot =
  loaded_images :: u32
  image_offsets :: "u64 list"
  image_sizes :: "u32 list"
  image_dests :: "u32 list"
  boot_fdt :: u64
  bootargs :: "u8 list"

definition boot_zero :: boot where
  "boot_zero = \<lparr>loaded_images = 0, image_offsets = replicate IMAGE_COUNT 0,
     image_sizes = replicate IMAGE_COUNT 0, image_dests = replicate IMAGE_COUNT 0,
     boot_fdt = 0, bootargs = []\<rparr>"

text \<open>The destination and the kind of an image type; other types are skipped.\<close>

definition image_kind :: "u32 \<Rightarrow> (u32 \<times> nat) option" where
  "image_kind type =
     (if type = of_char (CHR ''A'') then Some (ATF_PA, IMAGE_ATF)
      else if type = of_char (CHR ''D'') then Some (FDT_BLOB_PA, IMAGE_FDT)
      else if type = of_char (CHR ''2'') then Some (FDT_BLOB2_PA, IMAGE_FDT2)
      else if type = of_char (CHR ''L'') then Some (LINUX_IMAGE_PA, IMAGE_LINUX)
      else if type = of_char (CHR ''I'') then Some (INITRAMFS_PA, IMAGE_INITRD)
      else None)"

definition scan_image :: "bootfs_image \<Rightarrow> boot \<Rightarrow> boot" where
  "scan_image im b =
     (case image_kind (im_type im) of
        None \<Rightarrow> b
      | Some (dest, k) \<Rightarrow> b\<lparr>
          image_dests := (image_dests b)[k := dest],
          image_offsets := (image_offsets b)[k := ucast (im_data_off im)],
          image_sizes := (image_sizes b)[k := im_data_len im],
          loaded_images := loaded_images b OR push_bit k 1\<rparr>)"

definition missing_images :: "boot \<Rightarrow> bool" where
  "missing_images b \<longleftrightarrow> (\<exists>i \<in> set [0..<IMAGE_INITRD]. loaded_images b AND push_bit i 1 = 0)"

fun load_images :: "'c mmc \<Rightarrow> bootfs \<Rightarrow> boot \<Rightarrow> nat list \<Rightarrow> 'c world \<Rightarrow> bool \<times> 'c world" where
  "load_images m fs b [] w = (True, w)"
| "load_images m fs b (i # is) w =
     (if loaded_images b AND push_bit i 1 = 0 then load_images m fs b is w
      else (let (sz, w) = bootfs_load_image m fs (image_dests b ! i) (image_offsets b ! i)
                  (image_sizes b ! i) w
            in if sz < 0 then (False, w) else load_images m fs b is w))"

text \<open>The header of an arm64 kernel: \<open>text_offset\<close> at 8, the magic at 56.\<close>

definition le64_of :: "u8 list \<Rightarrow> u64" where
  "le64_of b = ucast (le32_of b) OR push_bit 32 (ucast (le32_of (drop 4 b)))"

definition kernel_magic :: "mem \<Rightarrow> u64 \<Rightarrow> u32" where
  "kernel_magic m h = le32_of (read_bytes m (h + 56) 4)"

definition text_offset :: "mem \<Rightarrow> u64 \<Rightarrow> u64" where
  "text_offset m h = le64_of (read_bytes m (h + 8) 8)"

definition relocate_kernel :: "boot \<Rightarrow> 'c world \<Rightarrow> 'c world" where
  "relocate_kernel b w =
     (let h = ucast (image_dests b ! IMAGE_LINUX); off = text_offset (mem w) h;
          w = w\<lparr>linux_image_pa := h\<rparr>
      in if off \<noteq> 0 then
           (let w = w\<lparr>linux_image_pa := linux_image_pa w + off\<rparr>
            in w\<lparr>mem := memmove (mem w) (linux_image_pa w) h (ucast (image_sizes b ! IMAGE_LINUX))\<rparr>)
         else w)"

section \<open>Preparing\<close>

text \<open>
  From the loaded images on: the second device tree for the newer board, the kernel, the first
  edits of the device tree. \<open>bc\<close> is the address of the configuration's block.
\<close>

definition select_fdt :: "boot \<Rightarrow> 'c world \<Rightarrow> 'c world" where
  "select_fdt b w =
     (if loaded_images b AND push_bit IMAGE_FDT2 1 \<noteq> 0 \<and> board_rev w = 2 then
        w\<lparr>mem := memcpy (mem w) (ucast (image_dests b ! IMAGE_FDT))
             (ucast (image_dests b ! IMAGE_FDT2)) (ucast (image_sizes b ! IMAGE_FDT2))\<rparr>
      else w)"

definition prepare_fdt :: "u64 \<Rightarrow> boot \<Rightarrow> 'c world \<Rightarrow> (bool \<times> boot \<times> 'c world) option" where
  "prepare_fdt bc b w =
     (let b = b\<lparr>boot_fdt := ucast (image_dests b ! IMAGE_FDT)\<rparr>
      in if neg (fdt_check_header (boot_fdt b) (mem w)) then Some (False, b, w)
         else do {
           (err, m) \<leftarrow> fdt_increase_size (boot_fdt b) (1024 * 256) (mem w);
           let w = w\<lparr>mem := m\<rparr>;
           if neg err then Some (False, b, w)
           else do {
             len \<leftarrow> strlen (mem w) (bc + 104);
             let b = b\<lparr>bootargs := read_bytes (mem w) (bc + 104) (unat len)\<rparr>;
             (chosen_off, m) \<leftarrow> fdt_find_or_add_subnode (boot_fdt b) 0 ''chosen'' (mem w);
             Some (\<not> neg chosen_off, b, w\<lparr>mem := m\<rparr>)
           }
         })"

definition boot_prepare ::
    "'c mmc \<Rightarrow> bootfs \<Rightarrow> nat \<Rightarrow> 'c world \<Rightarrow> (bool \<times> boot \<times> 'c world) option" where
  "boot_prepare m fs no w =
     (let bc = block_addr fs no;
          b = fold scan_image (bc_images (dec_conf (read_bytes (mem w) bc 2048))) boot_zero
      in if missing_images b then Some (False, b, w)
         else (let (ok, w) = load_images m fs b [0..<IMAGE_COUNT] w
               in if \<not> ok then Some (False, b, w)
                  else (let w = select_fdt b w
                        in if kernel_magic (mem w) (ucast (image_dests b ! IMAGE_LINUX)) \<noteq> 0x644d5241
                           then Some (False, b, w)
                           else prepare_fdt bc b (relocate_kernel b w))))"

definition boot_append_bootargs :: "u8 list \<Rightarrow> boot \<Rightarrow> boot" where
  "boot_append_bootargs args b = b\<lparr>bootargs := bootargs b @ bytes '' '' @ args\<rparr>"

section \<open>Finalizing\<close>

definition be32_cells :: "u32 list \<Rightarrow> u8 list" where
  "be32_cells ws = concat (map be32_bytes ws)"

definition fdt_setup_framebuffer :: "boot \<Rightarrow> u32 \<Rightarrow> mem \<Rightarrow> (int \<times> mem) option" where
  "fdt_setup_framebuffer b fb_addr m =
     (let fdt = boot_fdt b; fbsize = 1440 * 720 * 4 :: u32
      in do {
        (chosen_off, m) \<leftarrow> fdt_find_or_add_subnode fdt 0 ''chosen'' m;
        if neg chosen_off then Some (0, m)
        else do {
          (ret, m) \<leftarrow> fdt_setprop fdt chosen_off ''p-boot,framebuffer'' (be32_cells [fb_addr, fbsize]) m;
          if ret \<noteq> 0 then Some (- 1, m)
          else do {
            (ret, m) \<leftarrow> fdt_setprop_u32 fdt chosen_off ''p-boot,framebuffer-start'' fb_addr m;
            if ret \<noteq> 0 then Some (- 1, m)
            else do {
              (ret, m) \<leftarrow> fdt_add_mem_rsv fdt (ucast fb_addr) (ucast fbsize) m;
              Some (if ret \<noteq> 0 then - 1 else 0, m)
            }
          }
        }
      })"

text \<open>A pointer to the path of the node that an alias names, inside the blob, or 0.\<close>

definition fdt_get_alias_node :: "u64 \<Rightarrow> string \<Rightarrow> mem \<Rightarrow> u64 option" where
  "fdt_get_alias_node fdt alias m = do {
     path \<leftarrow> fdt_get_alias m fdt alias;
     if path = 0 then Some 0
     else do {
       node \<leftarrow> fdt_path_offset_at m fdt path;
       if neg node then Some 0
       else do {
         fdt_prop \<leftarrow> fdt_get_property m fdt node ''status'';
         Some (case fdt_prop of
             Inl _ \<Rightarrow> path
           | Inr (prop, _) \<Rightarrow> if read_bytes m (prop + 12) 9 = bytes ''disabled'' @ [0] then 0 else path)
       }
     }
   }"

definition fdt_fixup_wifi :: "u64 \<Rightarrow> u32 list \<Rightarrow> mem \<Rightarrow> (u32 list \<times> mem) option" where
  "fdt_fixup_wifi fdt sid m = do {
     path \<leftarrow> fdt_get_alias_node fdt ''ethernet0'' m;
     if path = 0 then Some (sid, m)
     else
       (let (ok, mac, sid) = get_mac_address 0 sid
        in if \<not> ok then Some (sid, m)
           else do {
             (_, m) \<leftarrow> fdt_find_and_setprop fdt path ''mac-address'' mac False m;
             (_, m) \<leftarrow> fdt_find_and_setprop fdt path ''local-mac-address'' mac True m;
             Some (sid, m)
           })
   }"

text \<open>
  What the build adds for the booted system, options of the compiler: the list of configurations
  (\<open>PBOOT_FDT_CONFIGS\<close>, in no variant of \<open>configure.php\<close>) and the log from \<open>globals->log_start\<close> to
  \<open>globals->log_end\<close> (\<open>PBOOT_FDT_LOG\<close>, in the variant for the serial port). The block of the heap
  that the list is put together in is left out.
\<close>

record build =
  PBOOT_FDT_CONFIGS :: bool
  PBOOT_FDT_LOG :: "(u64 \<times> u64) option"

fun decimal_index :: "nat \<Rightarrow> u8 list" where
  "decimal_index i =
     (if i div 10 \<noteq> 0 then [48 + of_nat (i div 10)] else []) @ [48 + of_nat (i mod 10)]"

definition config_line :: "mem \<Rightarrow> bootfs \<Rightarrow> nat \<Rightarrow> u8 list" where
  "config_line m fs i =
     (if is_conf m fs i then
        decimal_index i @ bytes '':'' @
        takeWhile (\<lambda>c. c \<noteq> 0) (read_bytes m (block_addr fs i + 1952) 96) @ [10]
      else [])"

definition fdt_add_pboot_data :: "build \<Rightarrow> u64 \<Rightarrow> bootfs \<Rightarrow> mem \<Rightarrow> mem option" where
  "fdt_add_pboot_data bld fdt fs m = do {
     (pboot_off, m) \<leftarrow> fdt_find_or_add_subnode fdt 0 ''p-boot'' m;
     if neg pboot_off then Some m
     else do {
       m \<leftarrow> (if PBOOT_FDT_CONFIGS bld
            then map_option snd (fdt_setprop fdt pboot_off ''configs'' (concat (map (config_line m fs) [0..<32])) m)
            else Some m);
       case PBOOT_FDT_LOG bld of
         None \<Rightarrow> Some m
       | Some (log_start, log_end) \<Rightarrow>
           map_option snd (fdt_setprop fdt pboot_off ''log'' (read_bytes m log_start (unat (log_end - log_start))) m)
     }
   }"

definition boot_finalize ::
    "build \<Rightarrow> u8 list \<Rightarrow> bootfs \<Rightarrow> u32 \<Rightarrow> u32 list \<Rightarrow> boot \<Rightarrow> mem \<Rightarrow> (bool \<times> mem) option" where
  "boot_finalize bld tmp fs dram_size sid b m =
     (let fdt = boot_fdt b
      in do {
        (_, m) \<leftarrow> fdt_fixup_wifi fdt sid m;
        m \<leftarrow> fdt_add_pboot_data bld fdt fs m;
        (chosen_off, m) \<leftarrow> fdt_find_or_add_subnode fdt 0 ''chosen'' m;
        if neg chosen_off then Some (False, m)
        else do {
          (err, m) \<leftarrow> fdt_setprop fdt chosen_off ''bootargs'' (bootargs b @ [0]) m;
          if neg err then Some (False, m)
          else do {
            (err, m) \<leftarrow> fdt_fixup_memory fdt tmp 0x40000000 (ucast dram_size) m;
            if neg err then Some (False, m)
            else do {
              (err, m) \<leftarrow>
                (if loaded_images b AND push_bit IMAGE_INITRD 1 \<noteq> 0 then
                   (let st = image_dests b ! IMAGE_INITRD
                    in fdt_initrd fdt (ucast st) (ucast (st + image_sizes b ! IMAGE_INITRD)) m)
                 else Some (0, m));
              if neg err then Some (False, m)
              else do {
                (err, m) \<leftarrow> fdt_shrink_to_minimum fdt 0 m;
                Some (\<not> neg err, m)
              }
            }
          }
        }
      })"

section \<open>Handing over\<close>

text \<open>
  \<open>boot_perform\<close> up to \<open>jump_to_atf\<close>, and the entry point information that is passed on: the
  address of the device tree, the kernel's entry.
\<close>

definition boot_perform :: "device \<Rightarrow> history \<Rightarrow> history" where
  "boot_perform d t =
     exec d wdog_disable (exec d lradc_disable (red_led_set d True (green_led_set d False t)))"

record entry_point_info =
  ep_arg0 :: u64
  ep_pc :: u64

definition bl33_ep_info :: "'c world \<Rightarrow> entry_point_info" where
  "bl33_ep_info w = \<lparr>ep_arg0 = ucast FDT_BLOB_PA, ep_pc = linux_image_pa w\<rparr>"

section \<open>The splash screen\<close>

fun splash_image :: "bootfs_image list \<Rightarrow> bootfs_image option" where
  "splash_image [] = None"
| "splash_image (im # ims) = (if im_type im = of_char (CHR ''S'') then Some im else splash_image ims)"

definition load_splash :: "'c mmc \<Rightarrow> bootfs \<Rightarrow> nat \<Rightarrow> u32 \<Rightarrow> 'c world \<Rightarrow> bool \<times> 'c world" where
  "load_splash m fs no dest w =
     (if \<not> is_conf (mem w) fs no then (False, w)
      else (case splash_image (bc_images (dec_conf (read_bytes (mem w) (block_addr fs no) 2048))) of
          None \<Rightarrow> (False, w)
        | Some im \<Rightarrow>
            (let (sz, w) = bootfs_load_image m fs dest (ucast (im_data_off im)) (im_data_len im) w
             in (sz > 0, w))))"

section \<open>Panic\<close>

fun blink_code :: "device \<Rightarrow> u32 \<Rightarrow> nat list \<Rightarrow> history \<Rightarrow> history" where
  "blink_code d code [] t = t"
| "blink_code d code (i # is) t =
     (let on = code AND push_bit (4 - i) 1 \<noteq> 0;
          t = green_led_set d True t;
          t = udelay (if on then 500000 else 100000) t;
          t = green_led_set d False t;
          t = udelay (if on then 500000 else 900000) t
      in blink_code d code is t)"

definition panic_shutdown :: "device \<Rightarrow> u32 \<Rightarrow> history \<Rightarrow> history" where
  "panic_shutdown d code t =
     (let t = green_led_set d False t;
          t = fold (\<lambda>i t. udelay 100000 (red_led_set d (odd i) t)) [0..<17] t;
          t = udelay 500000 t;
          t = blink_code d code [0..<5] t;
          t = red_led_set d True t;
          t = udelay 500000 t
      in pmic_poweroff d t)"

section \<open>Properties of the image table\<close>

text \<open>An image kind that the table holds: its last entry of the type decides.\<close>

definition last_image :: "nat \<Rightarrow> bootfs_image list \<Rightarrow> bootfs_image option" where
  "last_image k ims = find (\<lambda>im. map_option snd (image_kind (im_type im)) = Some k) (rev ims)"

definition boot_wf :: "boot \<Rightarrow> bool" where
  "boot_wf b \<longleftrightarrow> length (image_dests b) = 5 \<and> length (image_offsets b) = 5 \<and> length (image_sizes b) = 5"

lemma image_kind_range: "image_kind ty = Some (dest, k) \<Longrightarrow> k < 5"
  by (auto simp: image_kind_def split: if_splits)

lemma image_kind_dest:
  "image_kind ty = Some (dest, k) \<Longrightarrow>
    dest = [ATF_PA, FDT_BLOB_PA, LINUX_IMAGE_PA, INITRAMFS_PA, FDT_BLOB2_PA] ! k"
  by (auto simp: image_kind_def split: if_splits)

lemma one_bit_32: "bit (push_bit k (1 :: u32)) i \<longleftrightarrow> i = k \<and> k < 32"
  unfolding bit_push_bit_iff bit_1_iff by auto

lemma has_bit: "k < 32 \<Longrightarrow> w AND push_bit k 1 \<noteq> 0 \<longleftrightarrow> bit (w :: u32) k"
proof
  assume "k < 32" "bit w k"
  then have "bit (w AND push_bit k 1) k"
    by (simp only: bit_and_iff one_bit_32)
  then show "w AND push_bit k 1 \<noteq> 0" by (metis bit_0_eq bot_apply bot_bool_def)
next
  assume "w AND push_bit k 1 \<noteq> 0"
  then obtain i where "bit (w AND push_bit k 1) i"
    by (metis bit_0_eq bit_word_eqI bot_apply bot_bool_def)
  then show "bit w k" by (auto simp: bit_and_iff bit_exp_iff)
qed

lemma scan_images_aux:
  assumes "k < IMAGE_COUNT"
  shows "let b = fold scan_image ims boot_zero
    in (bit (loaded_images b) k \<longleftrightarrow> last_image k ims \<noteq> None) \<and>
       (\<forall>im. last_image k ims = Some im \<longrightarrow>
          image_offsets b ! k = ucast (im_data_off im) \<and> image_sizes b ! k = im_data_len im \<and>
          image_dests b ! k = [ATF_PA, FDT_BLOB_PA, LINUX_IMAGE_PA, INITRAMFS_PA, FDT_BLOB2_PA] ! k)"
proof -
  have "let b = fold scan_image ims boot_zero in boot_wf b \<and>
      (bit (loaded_images b) k \<longleftrightarrow> last_image k ims \<noteq> None) \<and>
       (\<forall>im. last_image k ims = Some im \<longrightarrow>
          image_offsets b ! k = ucast (im_data_off im) \<and> image_sizes b ! k = im_data_len im \<and>
          image_dests b ! k = [ATF_PA, FDT_BLOB_PA, LINUX_IMAGE_PA, INITRAMFS_PA, FDT_BLOB2_PA] ! k)"
  proof (induction ims rule: rev_induct)
    case Nil
    then show ?case
      by (simp add: boot_zero_def last_image_def boot_wf_def)
  next
    case (snoc im ims)
    define b where "b = fold scan_image ims boot_zero"
    have step: "fold scan_image (ims @ [im]) boot_zero = scan_image im b"
      by (simp add: b_def)
    note IH = snoc [folded b_def, unfolded Let_def]
    show ?case
    proof (cases "image_kind (im_type im)")
      case None
      then have "scan_image im b = b" "last_image k (ims @ [im]) = last_image k ims"
        by (simp_all add: last_image_def scan_image_def)
      with IH show ?thesis unfolding step Let_def by simp
    next
      case (Some dk)
      obtain dest k' where dk: "dk = (dest, k')" by fastforce
      then have kd: "k' < 5" "dest = [ATF_PA, FDT_BLOB_PA, LINUX_IMAGE_PA, INITRAMFS_PA, FDT_BLOB2_PA] ! k'"
        using Some image_kind_range image_kind_dest by auto
      have last: "last_image k (ims @ [im]) = (if k' = k then Some im else last_image k ims)"
        using Some dk by (simp add: last_image_def)
      have sc: "scan_image im b = b\<lparr>image_dests := (image_dests b)[k' := dest],
          image_offsets := (image_offsets b)[k' := ucast (im_data_off im)],
          image_sizes := (image_sizes b)[k' := im_data_len im],
          loaded_images := loaded_images b OR push_bit k' 1\<rparr>"
        using Some dk by (simp add: scan_image_def)
      show ?thesis
        using IH kd assms unfolding step sc last Let_def
        by (cases "k' = k") (auto simp: boot_wf_def bit_or_iff bit_exp_iff)
    qed
  qed
  then show ?thesis by (simp add: Let_def)
qed

text \<open>
  What \<open>boot_prepare\<close> reads from the table of images: a kind counts as present exactly when
  some entry has its type, the last such entry gives the offset and the length, the destination
  is the fixed one of the kind, and entries of other types are ignored.
\<close>

theorem scan_images_spec:
  assumes "k < IMAGE_COUNT"
  shows "let b = fold scan_image ims boot_zero
    in (bit (loaded_images b) k \<longleftrightarrow> last_image k ims \<noteq> None) \<and>
       (\<forall>im. last_image k ims = Some im \<longrightarrow>
          image_offsets b ! k = ucast (im_data_off im) \<and> image_sizes b ! k = im_data_len im \<and>
          image_dests b ! k = [ATF_PA, FDT_BLOB_PA, LINUX_IMAGE_PA, INITRAMFS_PA, FDT_BLOB2_PA] ! k)"
  using assms by (rule scan_images_aux)

definition demo_images :: "bootfs_image list" where
  "demo_images = [\<lparr>im_type = 0x4c, im_data_off = 512, im_data_len = 1\<rparr>,
     \<lparr>im_type = 0x53, im_data_off = 1024, im_data_len = 2\<rparr>,
     \<lparr>im_type = 0x4c, im_data_off = 1536, im_data_len = 3\<rparr>]"

theorem scan_images_spec_witness:
  "let b = fold scan_image demo_images boot_zero
   in image_offsets b ! IMAGE_LINUX = 1536 \<and> image_dests b ! IMAGE_LINUX = 0x40000000 \<and>
      bit (loaded_images b) IMAGE_LINUX"
proof -
  have "last_image IMAGE_LINUX demo_images = Some (demo_images ! 2)"
    by (simp add: last_image_def demo_images_def image_kind_def)
  then show ?thesis
    using scan_images_spec [of IMAGE_LINUX demo_images]
    by (simp add: Let_def demo_images_def LINUX_IMAGE_PA_def)
qed

section \<open>The kernel\<close>

lemma present_images:
  assumes "b = fold scan_image ims boot_zero" "\<not> missing_images b"
  shows "\<forall>k < 3. last_image k ims \<noteq> None"
    "image_dests b ! IMAGE_LINUX = LINUX_IMAGE_PA" "image_dests b ! IMAGE_FDT = FDT_BLOB_PA"
proof -
  have "bit (loaded_images b) k" if "k < 3" for k
    using assms(2) that has_bit [of k "loaded_images b"] by (auto simp: missing_images_def)
  then have have_image: "last_image k ims \<noteq> None" if "k < 3" for k
    using that scan_images_aux [of k ims] assms(1) by (simp add: Let_def)
  then show "\<forall>k < 3. last_image k ims \<noteq> None" by blast
  show "image_dests b ! IMAGE_LINUX = LINUX_IMAGE_PA"
    using have_image [of 2] scan_images_aux [of 2 ims] assms(1) by (auto simp: Let_def)
  show "image_dests b ! IMAGE_FDT = FDT_BLOB_PA"
    using have_image [of 1] scan_images_aux [of 1 ims] assms(1) by (auto simp: Let_def)
qed

section \<open>Opening the device tree\<close>

text \<open>
  On a device tree in order \<open>prepare_fdt\<close> succeeds: the blob is larger by 256 KiB, the tree has a
  \<open>chosen\<close> node, and the boot arguments are those of the block, which lies outside the header.
\<close>

lemma same_outside_cstr:
  assumes "cstr m a xs" "same_outside m m' fdt n" "\<And>i. i \<le> length xs \<Longrightarrow> n \<le> unat (a + of_nat i - fdt)"
  shows "cstr m' a xs"
  using assms by (auto simp: cstr_def mem_bytes_def same_outside_def nth_append)

lemma cstr_short:
  assumes "cstr m a xs"
  shows "length xs < 2 ^ 64"
proof (rule ccontr)
  assume long: "\<not> length xs < 2 ^ 64"
  then have "(of_nat (length xs - 2 ^ 64) :: u64) = of_nat (length xs)"
    by (simp add: of_nat_diff)
  then have "m (a + of_nat (length xs - 2 ^ 64)) = 0"
    using cstr_nth [OF assms, of "length xs"] by simp
  moreover have i: "length xs - 2 ^ 64 < length xs"
    using long by (cases xs) simp_all
  moreover have "0 \<notin> set xs"
    using assms by (simp add: cstr_def)
  ultimately show False
    using cstr_nth [OF assms less_imp_le [OF i]] nth_mem [OF i] by (auto simp del: of_nat_diff)
qed

lemma prepare_fdt_at:
  assumes fdt: "(ucast (image_dests b ! IMAGE_FDT) :: u64) = fdt"
    and T: "toks_at (mem w) fdt B (flat (DNode n ps ks) @ post)" and tot: "b_total B + 2 ^ 18 < 2 ^ 31 - 1"
    and args: "cstr (mem w) (bc + 104) args" "\<And>i. i \<le> length args \<Longrightarrow> 40 \<le> unat (bc + 104 + of_nat i - fdt)"
  shows "\<exists>m' B'. prepare_fdt bc b w = Some (True, b\<lparr>boot_fdt := fdt, bootargs := args\<rparr>, w\<lparr>mem := m'\<rparr>) \<and>
    b_total B' = b_total B + 2 ^ 18 \<and> used B' \<le> used B + 16 \<and> b_rsv B' = b_rsv B \<and>
    same_outside (mem w) m' fdt (b_total B + 2 ^ 18) \<and>
    toks_at m' fdt B' (flat (DNode n ps (with_child (bytes ''chosen'') ks)) @ post)"
proof -
  let ?c = "bytes ''chosen''"
  have B: "blob_at (mem w) fdt B" using T by (simp add: toks_at_def)
  note bounds = blob_bounds [OF B]
  have chk: "\<not> neg (fdt_check_header fdt (mem w))"
    using B by (auto simp: fdt_check_header_def dest: blob_header(1))
  obtain m1 where 1: "fdt_increase_size fdt (of_nat (2 ^ 18)) (mem w) = Some (0, m1)"
    "blob_at m1 fdt (B\<lparr>b_total := b_total B + 2 ^ 18\<rparr>)" (is "blob_at _ _ ?B1") "same_outside (mem w) m1 fdt 40"
    using increase_size_at [OF B tot] by blast
  have T1: "toks_at m1 fdt ?B1 ([] @ flat (DNode n ps ks) @ post)"
    using T 1(2) by (simp add: toks_at_def)
  have cost: "node_cost ?c = 16" by (simp add: node_cost_def pad4_def)
  have room: "used ?B1 + node_cost ?c \<le> b_total ?B1"
    using bounds cost by simp
  obtain m2 B2 where 2: "fdt_find_or_add_subnode fdt (pos []) ''chosen'' m1 =
      Some (child_pos [] n ps ?c (with_child ?c ks), m2)" "edited m1 m2 fdt ?B1 B2" "used B2 \<le> used ?B1 + 16"
      "toks_at m2 fdt B2 ([] @ flat (DNode n ps (with_child ?c ks)) @ post)"
    using find_or_add_at [OF T1 _ _ room] cost by auto
  have nn: "\<not> neg (child_pos [] n ps ?c (with_child ?c ks))"
    using child_pos_not_neg [OF 2(4) with_child_named] .
  have c1: "cstr m1 (bc + 104) args"
    using same_outside_cstr [OF args(1) 1(3) args(2)] .
  have "length args < 2 ^ 64"
    by (rule cstr_short [OF c1])
  then have str: "strlen m1 (bc + 104) = Some (of_nat (length args))" "unat (of_nat (length args) :: u64) = length args"
    "read_bytes m1 (bc + 104) (length args) = args"
    using strlen_cstr [OF c1] c1 by (simp_all add: unat_of_nat read_bytes_mem_bytes cstr_def)
  have "prepare_fdt bc b w = Some (True, b\<lparr>boot_fdt := fdt, bootargs := args\<rparr>, w\<lparr>mem := m2\<rparr>)"
    unfolding prepare_fdt_def fdt Let_def
    using chk 1(1) str 2(1) nn by (simp del: map_append sum_list_append)
  moreover have "same_outside (mem w) m2 fdt (b_total B + 2 ^ 18)"
    using 1(3) 2(2) bounds by (simp add: edited_def same_outside_def)
  ultimately show ?thesis
    using 2(2,3,4) by (intro exI [of _ m2] exI [of _ B2]) (simp add: edited_def)
qed

text \<open>
  C7: \<open>boot_prepare\<close> succeeds only for a configuration that lists ATF, a device tree and a kernel, when
  all listed images could be loaded, and when the memory that loading them left has the arm64 magic
  in the kernel's header and a device tree behind it. The kernel's entry is then its load address plus
  the text offset of that header, the device tree is at its fixed address, and sizes and addresses of
  the images are those of the configuration.
\<close>

theorem boot_prepare_success:
  fixes w :: "'c world"
  assumes "boot_prepare m fs no w = Some (True, b, w')"
  defines "ims \<equiv> bc_images (dec_conf (read_bytes (mem w) (block_addr fs no) 2048))"
  defines "b0 \<equiv> fold scan_image ims boot_zero"
  defines "w1 \<equiv> select_fdt b0 (snd (load_images m fs b0 [0..<IMAGE_COUNT] w))"
  shows "(\<forall>k < 3. last_image k ims \<noteq> None) \<and> fst (load_images m fs b0 [0..<IMAGE_COUNT] w) \<and>
    kernel_magic (mem w1) 0x40000000 = 0x644d5241 \<and>
    linux_image_pa w' = 0x40000000 + text_offset (mem w1) 0x40000000 \<and>
    \<not> neg (fdt_check_header 0x4a000000 (mem (relocate_kernel b0 w1))) \<and>
    b = b0\<lparr>boot_fdt := 0x4a000000, bootargs := bootargs b\<rparr>"
proof -
  obtain good w0 where load: "load_images m fs b0 [0..<IMAGE_COUNT] w = (good, w0)"
    by (metis prod.collapse)
  have w1: "w1 = select_fdt b0 w0"
    by (simp add: w1_def load)
  have all: "\<not> missing_images b0"
    using assms(1) by (auto simp: boot_prepare_def ims_def [symmetric] b0_def [symmetric] Let_def split: if_splits)
  have b0: "b0 = fold scan_image ims boot_zero" by (simp add: b0_def)
  note img = present_images [OF b0 all]
  have addr: "(ucast LINUX_IMAGE_PA :: u64) = 0x40000000" "(ucast FDT_BLOB_PA :: u64) = 0x4a000000"
    by (simp_all add: LINUX_IMAGE_PA_def FDT_BLOB_PA_def)
  have ok: "fst (load_images m fs b0 [0..<IMAGE_COUNT] w)"
    and magic: "kernel_magic (mem w1) 0x40000000 = 0x644d5241"
    and prep: "prepare_fdt (block_addr fs no) b0 (relocate_kernel b0 w1) = Some (True, b, w')"
    using assms(1) all unfolding boot_prepare_def ims_def [symmetric] b0_def [symmetric] Let_def w1 load
    by (auto simp: img addr split: if_splits)
  have pa: "linux_image_pa (relocate_kernel b0 w1) = 0x40000000 + text_offset (mem w1) 0x40000000"
    by (simp add: relocate_kernel_def Let_def img addr)
  have fdt: "(ucast (image_dests b0 ! Suc 0) :: u64) = 0x4a000000"
    using img(3) addr(2) by simp
  have "b = b0\<lparr>boot_fdt := 0x4a000000, bootargs := bootargs b\<rparr> \<and> linux_image_pa w' = linux_image_pa (relocate_kernel b0 w1) \<and>
      \<not> neg (fdt_check_header 0x4a000000 (mem (relocate_kernel b0 w1)))"
    using prep by (auto simp: prepare_fdt_def Let_def fdt split: if_splits prod.splits bind_splits)
  then show ?thesis
    using img(1) magic pa ok by simp
qed

text \<open>
  A run for the witness: every sector of the card looks like a kernel, apart from the one with the
  device tree; three images.
\<close>

definition kernel_disk :: "nat \<Rightarrow> u8" where
  "kernel_disk a =
     (if 2048 \<le> a \<and> a < 2048 + length (packed root_blob) then packed root_blob ! (a - 2048)
      else if a mod 512 = 56 then 0x41 else if a mod 512 = 57 then 0x52
      else if a mod 512 = 58 then 0x4d else if a mod 512 = 59 then 0x64 else 0)"

definition kernel_conf :: bootfs_conf where
  "kernel_conf = \<lparr>bc_magic = bytes '':BFCONF:'',
     bc_images = map (\<lambda>(c, off). \<lparr>im_type = of_char c, im_data_off = off, im_data_len = 64\<rparr>)
         [(CHR ''A'', 1024), (CHR ''D'', 2048), (CHR ''L'', 1024)] @
       replicate 5 \<lparr>im_type = 0, im_data_off = 0, im_data_len = 0\<rparr>,
     bc_boot_args = replicate boot_args_size 0, bc_name = replicate 96 0\<rparr>"

definition kernel_world :: "unit world" where
  "kernel_world = demo_world\<lparr>mem := mem_write (\<lambda>_. 0) 0x60000800 (enc_conf kernel_conf)\<rparr>"

definition kernel_fs :: bootfs where
  "kernel_fs = \<lparr>mmc_offset = 0, fs_sb = 0x60000000\<rparr>"

lemma kernel_load:
  assumes "dest \<noteq> 0" "off \<in> {1024, 2048}"
  shows "bootfs_load_image (image_card kernel_disk) kernel_fs dest off 64 w = (64,
    (w :: unit world)\<lparr>mem := mem_write (mem w) (ucast dest) (disk_bytes kernel_disk (unat off) 512)\<rparr>)"
proof -
  have "mmc_read_data (image_card kernel_disk) (ucast dest) off 64 w = (True,
    w\<lparr>card := (), mem := mem_write (mem w) (ucast dest) (disk_bytes kernel_disk (unat off) 512)\<rparr>)"
    using mmc_read_data_good [OF good_image_card, where s = w and off = off and n = 64 and dest = "ucast dest"] assms(2)
    by (auto simp: sectors_of_def image_card_def)
  with assms show ?thesis
    by (auto simp: bootfs_load_image_def kernel_fs_def)
qed

lemma kernel_block: "read_bytes (mem kernel_world) (block_addr kernel_fs 0) 2048 = enc_conf kernel_conf"
  and kernel_dec: "dec_conf (enc_conf kernel_conf) = kernel_conf"
  and kernel_length: "length (enc_conf kernel_conf) = 2048"
proof -
  have wf: "wf_conf kernel_conf"
    by (simp add: wf_conf_def kernel_conf_def)
  then show "dec_conf (enc_conf kernel_conf) = kernel_conf"
    using conf_codec.dec_enc [of kernel_conf "[]"] by simp
  show "length (enc_conf kernel_conf) = 2048"
    using wf by (rule conf_codec.length_enc)
  then show "read_bytes (mem kernel_world) (block_addr kernel_fs 0) 2048 = enc_conf kernel_conf"
    by (simp add: kernel_world_def block_addr_def kernel_fs_def read_bytes_write)
qed

lemma boot_zero_lists: "boot_zero = \<lparr>loaded_images = 0, image_offsets = [0, 0, 0, 0, 0],
    image_sizes = [0, 0, 0, 0, 0], image_dests = [0, 0, 0, 0, 0], boot_fdt = 0, bootargs = []\<rparr>"
  by (simp add: boot_zero_def numeral_eq_Suc)

lemma kernel_images: "bc_images kernel_conf =
    map (\<lambda>(c, off). \<lparr>im_type = c, im_data_off = off, im_data_len = 64\<rparr>) [(0x41, 1024), (0x44, 2048), (0x4c, 1024)] @
       (let z = \<lparr>im_type = 0, im_data_off = 0, im_data_len = 0\<rparr> in [z, z, z, z, z])"
  by (simp add: kernel_conf_def Let_def numeral_eq_Suc)

lemma kernel_kinds: "image_kind 0x41 = Some (ATF_PA, 0)" "image_kind 0x44 = Some (FDT_BLOB_PA, 1)"
  "image_kind 0x4c = Some (LINUX_IMAGE_PA, 2)" "image_kind 0 = None"
  by (simp_all add: image_kind_def)

lemma upd2: "(x # y # z # zs)[2 := u] = x # y # u # zs" by (simp add: numeral_2_eq_2)

lemma kernel_fold: "fold scan_image (bc_images kernel_conf) boot_zero = \<lparr>loaded_images = 7, image_offsets = [1024, 2048, 1024, 0, 0],
    image_sizes = [64, 64, 64, 0, 0], image_dests = [ATF_PA, FDT_BLOB_PA, LINUX_IMAGE_PA, 0, 0], boot_fdt = 0, bootargs = []\<rparr>"
  by (simp add: kernel_images Let_def kernel_kinds scan_image_def boot_zero_lists upd2)

lemma packed_root_length: "length (packed root_blob) = 72"
  by (simp add: packed_def root_blob_def)

lemma kernel_prepare:
  "\<exists>b w' B. boot_prepare (image_card kernel_disk) kernel_fs 0 kernel_world = Some (True, b, w') \<and>
     boot_fdt b = 0x4a000000 \<and> bootargs b = [] \<and> used B \<le> 88 \<and> b_total B = 72 + 2 ^ 18 \<and>
     toks_at (mem w') 0x4a000000 B (flat (DNode [] [] [DNode (bytes ''chosen'') [] []]) @ [TEnd])"
proof -
  define b where "b = fold scan_image (bc_images kernel_conf) boot_zero"
  have b: "image_dests b = [0x44000, 0x4a000000, 0x40000000, 0, 0]"
    "image_offsets b = [1024, 2048, 1024, 0, 0]" "image_sizes b = [64, 64, 64, 0, 0]"
    "loaded_images b = 7"
    by (simp_all add: b_def kernel_fold ATF_PA_def FDT_BLOB_PA_def LINUX_IMAGE_PA_def)
  define m where "m = mem_write (mem_write (mem_write (mem kernel_world)
      0x44000 (disk_bytes kernel_disk 1024 512)) 0x4a000000 (disk_bytes kernel_disk 2048 512))
      0x40000000 (disk_bytes kernel_disk 1024 512)"
  have load: "load_images (image_card kernel_disk) kernel_fs b [0..<IMAGE_COUNT] kernel_world =
      (True, kernel_world\<lparr>mem := m\<rparr>)"
    by (simp add: upt_rec b kernel_load m_def)
  have dk: "m (0x40000000 + of_nat i) = kernel_disk (1024 + i)" if "i < 512" for i
    using that by (simp add: m_def mem_write_def unat_of_nat disk_bytes_nth)
  have magic: "kernel_magic m 0x40000000 = 0x644d5241"
    using dk [of 56] dk [of 57] dk [of 58] dk [of 59]
    by (simp add: kernel_magic_def read_bytes_def upt_rec kernel_disk_def)
  have off: "text_offset m 0x40000000 = 0"
    using dk [of 8] dk [of 9] dk [of 10] dk [of 11] dk [of 12] dk [of 13] dk [of 14] dk [of 15]
    by (simp add: text_offset_def le64_of_def read_bytes_def upt_rec kernel_disk_def)
  have "take boot_args_size (drop 104 (enc_conf kernel_conf)) = replicate boot_args_size 0"
    using arg_cong [OF kernel_dec, of bc_boot_args] by (simp add: dec_conf_def kernel_conf_def)
  then have "take boot_args_size (drop 104 (enc_conf kernel_conf)) ! 0 = 0"
    by (simp add: boot_args_size_def)
  moreover have len: "length (enc_conf kernel_conf) = 2048"
    by (rule kernel_length)
  ultimately have "enc_conf kernel_conf ! 104 = 0"
    by (simp add: boot_args_size_def)
  then have "m 0x60000868 = 0"
    using len by (simp add: m_def mem_write_def kernel_world_def)
  then have str: "m 0x60000868 = 0" .
  have "m (0x4a000000 + of_nat i) = packed root_blob ! i" if "i < length (packed root_blob)" for i
  proof -
    have "unat (0xa000000 + of_nat i :: u64) = 0xa000000 + i"
      using that by (simp add: packed_root_length unat_word_ariths unat_of_nat)
    then show ?thesis
      using that by (simp add: m_def mem_write_def unat_of_nat disk_bytes_nth kernel_disk_def packed_root_length)
  qed
  then have "mem_bytes m 0x4a000000 (packed root_blob)"
    by (simp add: mem_bytes_def)
  then have "toks_at m 0x4a000000 root_blob (flat (DNode [] [] []) @ [TEnd])"
    by (rule root_toks) simp
  moreover have "relocate_kernel b (select_fdt b (kernel_world\<lparr>mem := m\<rparr>)) = kernel_world\<lparr>mem := m, linux_image_pa := 0x40000000\<rparr>"
    using off by (simp add: select_fdt_def relocate_kernel_def b)
  moreover have "with_child (bytes ''chosen'') [] = [DNode (bytes ''chosen'') [] []]"
    by (simp add: with_child_def)
  ultimately obtain m' B' where
    "prepare_fdt 0x60000800 b (relocate_kernel b (select_fdt b (kernel_world\<lparr>mem := m\<rparr>))) =
      Some (True, b\<lparr>boot_fdt := 0x4a000000, bootargs := []\<rparr>, (relocate_kernel b (select_fdt b (kernel_world\<lparr>mem := m\<rparr>)))\<lparr>mem := m'\<rparr>)"
    "b_total B' = 72 + 2 ^ 18" "used B' \<le> 88"
    "toks_at m' 0x4a000000 B' (flat (DNode [] [] [DNode (bytes ''chosen'') [] []]) @ [TEnd])"
    using prepare_fdt_at [of b "0x4a000000" "relocate_kernel b (select_fdt b (kernel_world\<lparr>mem := m\<rparr>))" root_blob "[]" "[]" "[]" "[TEnd]" "0x60000800" "[]"] str
    by (auto simp: b root_blob_def cstr_def)
  moreover have "\<not> missing_images b" "mem (select_fdt b (kernel_world\<lparr>mem := m\<rparr>)) = m"
    by (simp_all add: missing_images_def b select_fdt_def upt_rec)
  ultimately show ?thesis
    unfolding boot_prepare_def kernel_block kernel_dec b_def [symmetric] Let_def load
    using magic by (intro exI [of _ "b\<lparr>boot_fdt := 0x4a000000, bootargs := []\<rparr>"] exI [of _ "(relocate_kernel b (select_fdt b (kernel_world\<lparr>mem := m\<rparr>)))\<lparr>mem := m'\<rparr>"] exI [of _ B'])
      (simp add: b block_addr_def kernel_fs_def)
qed

theorem boot_prepare_success_witness:
  "\<exists>b w'. boot_prepare (image_card kernel_disk) kernel_fs 0 kernel_world = Some (True, b, w') \<and>
     boot_fdt b = 0x4a000000"
proof -
  obtain b w' where run:
    "boot_prepare (image_card kernel_disk) kernel_fs 0 kernel_world = Some (True, b, w')"
    using kernel_prepare by blast
  obtain b0 args where "b = b0\<lparr>boot_fdt := 0x4a000000, bootargs := args\<rparr>"
    using boot_prepare_success [OF run] by blast
  then have "boot_fdt b = 0x4a000000" by simp
  with run show ?thesis by blast
qed

text \<open>
  A kernel with a text offset is moved as a whole: after \<open>relocate_kernel\<close> the bytes at the
  entry are the loaded image, also when the new place overlaps the old one.
\<close>

theorem relocate_kernel_content:
  assumes "h = ucast (image_dests b ! IMAGE_LINUX)" "n = unat (image_sizes b ! IMAGE_LINUX)"
    and "unat h + unat (text_offset (mem w) h) + n < 2 ^ 64"
  shows "read_bytes (mem (relocate_kernel b w)) (linux_image_pa (relocate_kernel b w)) n =
    read_bytes (mem w) h n"
proof -
  let ?off = "text_offset (mem w) h"
  have "unat (h + ?off) = unat h + unat ?off"
    using assms(3) by (simp add: unat_word_ariths)
  moreover have "unat (image_sizes b ! IMAGE_LINUX) < 2 ^ LENGTH(32)"
    by (rule unsigned_less)
  then have n: "unat (ucast (image_sizes b ! IMAGE_LINUX) :: u64) = n" "n \<le> 2 ^ 63"
    using assms(2) by simp_all
  ultimately have "memmove (mem w) (h + ?off) h (ucast (image_sizes b ! IMAGE_LINUX)) (h + ?off + of_nat i)
      = mem w (h + of_nat i)" if "i < n" for i
    using that assms(3) by (subst memmove_spec) (auto simp: unat_of_nat)
  then show ?thesis
    by (simp add: relocate_kernel_def Let_def assms(1) [symmetric] read_bytes_def)
qed

definition shifted_world :: "unit world" where
  "shifted_world = demo_world\<lparr>mem := mem_write (\<lambda>_. 0) 0x40000000 [1, 2, 3, 0, 0, 0, 0, 0, 4, 0, 0, 0, 0, 0, 0, 0]\<rparr>"

definition shifted_boot :: boot where
  "shifted_boot = fold scan_image (bc_images kernel_conf) boot_zero"

theorem relocate_kernel_content_witness:
  "linux_image_pa (relocate_kernel shifted_boot shifted_world) = 0x40000004 \<and>
   read_bytes (mem (relocate_kernel shifted_boot shifted_world)) 0x40000004 64 =
   read_bytes (mem shifted_world) 0x40000000 64"
proof -
  have off: "text_offset (mem shifted_world) 0x40000000 = 4"
    by (simp add: text_offset_def le64_of_def read_bytes_def upt_rec shifted_world_def mem_write_def)
  then have "linux_image_pa (relocate_kernel shifted_boot shifted_world) = 0x40000004"
    by (simp add: relocate_kernel_def shifted_boot_def kernel_fold LINUX_IMAGE_PA_def)
  with off show ?thesis
    using relocate_kernel_content [of "0x40000000" shifted_boot 64 shifted_world]
    by (simp add: shifted_boot_def kernel_fold LINUX_IMAGE_PA_def)
qed

end
