(* ===== verification/Ccu.thy ===== *)
theory Ccu
  imports Machine
begin

text \<open>
  The clock control unit, \<open>src/src/ccu.c\<close>, \<open>clocks_init\<close>'s successor: the CPU clock is moved
  to the 24 MHz oscillator, the PLL is programmed, and the CPU goes back to the PLL when it has
  locked. The wait for the lock has no bound in the code: \<open>None\<close> when it never ends.
\<close>

section \<open>Registers\<close>

abbreviation CCU_PLL_CPUX :: addr where "CCU_PLL_CPUX \<equiv> 0x01c20000"
abbreviation CCU_PLL_PERIPH0 :: addr where "CCU_PLL_PERIPH0 \<equiv> 0x01c20028"
abbreviation CCU_CPUX_AXI_CFG :: addr where "CCU_CPUX_AXI_CFG \<equiv> 0x01c20050"
abbreviation CCU_AHB1_APB1_CFG :: addr where "CCU_AHB1_APB1_CFG \<equiv> 0x01c20054"
abbreviation CCU_APB2_CFG :: addr where "CCU_APB2_CFG \<equiv> 0x01c20058"
abbreviation CCU_AHB2_CFG :: addr where "CCU_AHB2_CFG \<equiv> 0x01c2005c"
abbreviation CCU_MBUS_CLK :: addr where "CCU_MBUS_CLK \<equiv> 0x01c2015c"
abbreviation CCU_PLL_LOCK_CTRL :: addr where "CCU_PLL_LOCK_CTRL \<equiv> 0x01c20320"

definition CCU_LOCK_MASK :: u32 where
  "CCU_LOCK_MASK = push_bit 28 1"

section \<open>Operations\<close>

definition pll_k :: "u32 \<Rightarrow> u32" where
  "pll_k clk = (if clk \<ge> 768000000 then 2 else 1)"

definition pll_n :: "u32 \<Rightarrow> u32" where
  "pll_n clk = clk div (24000000 * pll_k clk)"

definition pll_cpux_value :: "u32 \<Rightarrow> u32" where
  "pll_cpux_value clk =
     push_bit 31 1 OR push_bit 16 0 OR push_bit 8 (pll_n clk - 1) OR push_bit 4 (pll_k clk - 1) OR
     push_bit 0 0"

definition ccu_set_pll_cpux :: "device \<Rightarrow> u32 \<Rightarrow> history \<Rightarrow> history option" where
  "ccu_set_pll_cpux d clk t = do {
     let t = exec d [
         Writel (push_bit 16 1 OR push_bit 8 1 OR push_bit 0 2) CCU_CPUX_AXI_CFG,
         Udelay 2,
         Writel (pll_cpux_value clk) CCU_PLL_CPUX] t;
     t \<leftarrow> poll_set d CCU_PLL_CPUX CCU_LOCK_MASK t;
     Some (exec d [
         Writel (push_bit 16 2 OR push_bit 8 1 OR push_bit 0 2) CCU_CPUX_AXI_CFG,
         Udelay 2] t)
   }"

definition ccu_init :: "device \<Rightarrow> history \<Rightarrow> history option" where
  "ccu_init d t = do {
     let t = writel 0x1fff CCU_PLL_LOCK_CTRL t;
     t \<leftarrow> ccu_set_pll_cpux d 408000000 t;
     let t = writel 0x80041811 CCU_PLL_PERIPH0 t;
     t \<leftarrow> poll_set d CCU_PLL_PERIPH0 CCU_LOCK_MASK t;
     Some (exec d [
         Writel (push_bit 12 3 OR push_bit 8 1 OR push_bit 6 2 OR push_bit 4 1) CCU_AHB1_APB1_CFG,
         Writel (push_bit 31 1 OR push_bit 24 1 OR push_bit 0 2) CCU_MBUS_CLK,
         Writel (push_bit 24 1 OR push_bit 16 0 OR push_bit 0 0) CCU_APB2_CFG] t)
   }"

definition ccu_upclock :: "device \<Rightarrow> history \<Rightarrow> history option" where
  "ccu_upclock d t = do {
     t \<leftarrow> ccu_set_pll_cpux d 816000000 t;
     Some (exec d [
         Writel (push_bit 12 3 OR push_bit 8 1 OR push_bit 6 2 OR push_bit 4 0) CCU_AHB1_APB1_CFG,
         Writel (push_bit 0 1) CCU_AHB2_CFG] t)
   }"

section \<open>The rate of the PLL\<close>

text \<open>The formula of the comment: 24 MHz * N * K / (M * 2^P), from the fields of the register.\<close>

definition pll_rate :: "u32 \<Rightarrow> nat" where
  "pll_rate v =
     24000000 * (unat (drop_bit 8 v AND 0x1f) + 1) * (unat (drop_bit 4 v AND 3) + 1) div
       ((unat (v AND 3) + 1) * 2 ^ unat (drop_bit 16 v AND 3))"

lemma pll_fields:
  assumes "n \<le> 31" "k \<le> 3"
  shows "drop_bit 8 (push_bit 31 1 OR push_bit 8 n OR push_bit 4 k :: u32) AND 0x1f = n"
    "drop_bit 4 (push_bit 31 1 OR push_bit 8 n OR push_bit 4 k :: u32) AND 3 = k"
    "(push_bit 31 1 OR push_bit 8 n OR push_bit 4 k :: u32) AND 3 = 0"
    "drop_bit 16 (push_bit 31 1 OR push_bit 8 n OR push_bit 4 k :: u32) AND 3 = 0"
proof -
  have m: "(0x1f :: u32) = mask 5" "(3 :: u32) = mask 2"
    by (simp_all add: mask_eq_exp_minus_1)
  have "n = take_bit 5 n" "k = take_bit 2 k"
    using assms by (simp_all add: take_bit_eq_mod word_unat_eq_iff unat_mod word_le_nat_alt)
  then have nk: "bit n i \<Longrightarrow> i < 5" "bit k i \<Longrightarrow> i < 2" for i
    by (metis bit_take_bit_iff)+
  obtain e :: u32 where e: "push_bit 31 1 = e" by simp
  have b: "bit e i \<longleftrightarrow> i = 31" for i
    unfolding e [symmetric] bit_push_bit_iff bit_1_iff by auto
  show "drop_bit 8 (push_bit 31 1 OR push_bit 8 n OR push_bit 4 k :: u32) AND 0x1f = n"
    unfolding m e by (rule bit_word_eqI) (auto simp: bit_simps b dest: nk)
  show "drop_bit 4 (push_bit 31 1 OR push_bit 8 n OR push_bit 4 k :: u32) AND 3 = k"
    unfolding m e by (rule bit_word_eqI) (auto simp: bit_simps b dest: nk)
  show "(push_bit 31 1 OR push_bit 8 n OR push_bit 4 k :: u32) AND 3 = 0"
    unfolding m e by (rule bit_word_eqI) (auto simp: bit_simps b dest: nk)
  show "drop_bit 16 (push_bit 31 1 OR push_bit 8 n OR push_bit 4 k :: u32) AND 3 = 0"
    unfolding m e by (rule bit_word_eqI) (auto simp: bit_simps b dest: nk)
qed

text \<open>
  The value programmed for a rate that the factors can express (a multiple of 24 MHz, or of
  48 MHz from 768 MHz on, up to 1536 MHz) makes the PLL run at exactly that rate.
\<close>

theorem pll_cpux_rate:
  assumes "24000000 \<le> unat clk" "unat clk < 1560000000"
    and "24000000 * unat (pll_k clk) dvd unat clk"
  shows "pll_rate (pll_cpux_value clk) = unat clk"
proof -
  obtain q where q: "unat clk = 24000000 * unat (pll_k clk) * q"
    using assms(3) by (elim dvdE)
  have k: "pll_k clk = 1 \<and> unat clk < 768000000 \<or> pll_k clk = 2 \<and> 768000000 \<le> unat clk"
    by (auto simp: pll_k_def word_le_nat_alt)
  have n: "unat (pll_n clk) = q"
    using k q by (auto simp: pll_n_def unat_div)
  have bounds: "0 < q" "q \<le> 32"
    using k q assms(1,2) by auto
  have n1: "unat (pll_n clk - 1) = q - 1" "pll_n clk - 1 \<le> 31"
    using n bounds by (simp_all add: unat_sub_if' word_le_nat_alt)
  have k1: "unat (pll_k clk - 1) = unat (pll_k clk) - 1" "pll_k clk - 1 \<le> 3"
    using k by auto
  have "pll_cpux_value clk =
      push_bit 31 1 OR push_bit 8 (pll_n clk - 1) OR push_bit 4 (pll_k clk - 1)"
    by (simp add: pll_cpux_value_def)
  then have "pll_rate (pll_cpux_value clk) =
      24000000 * (unat (pll_n clk - 1) + 1) * (unat (pll_k clk - 1) + 1)"
    unfolding pll_rate_def using pll_fields [OF n1(2) k1(2)] by simp
  also have "\<dots> = unat clk"
    using n1 k1 bounds k q by auto
  finally show ?thesis .
qed

theorem pll_cpux_rate_witness:
  "pll_rate (pll_cpux_value 408000000) = 408000000 \<and> pll_rate (pll_cpux_value 816000000) = 816000000"
  using pll_cpux_rate [of 408000000] pll_cpux_rate [of 816000000]
  by (simp add: pll_k_def)

section \<open>Switching is safe\<close>

text \<open>
  C19: if the PLL reports its lock after some reads, \<open>ccu_set_pll_cpux\<close> returns, and its history
  is: the CPU leaves the PLL, then the PLL is programmed, then it is read until a value has the
  lock bit (no read before had it), and only then the CPU is switched back to the PLL.
\<close>

theorem ccu_set_pll_cpux_safe:
  assumes "t1 = Wr CCU_PLL_CPUX (pll_cpux_value clk) # Delay 2 # Wr CCU_CPUX_AXI_CFG 0x10102 # t"
    and "d (reads d CCU_PLL_CPUX n t1) CCU_PLL_CPUX AND CCU_LOCK_MASK \<noteq> 0"
  shows "\<exists>k \<le> n. \<exists>v. ccu_set_pll_cpux d clk t =
      Some (Delay 2 # Wr CCU_CPUX_AXI_CFG 0x20102 # Rd CCU_PLL_CPUX v # reads d CCU_PLL_CPUX k t1) \<and>
      v AND CCU_LOCK_MASK \<noteq> 0 \<and>
      (\<forall>j < k. d (reads d CCU_PLL_CPUX j t1) CCU_PLL_CPUX AND CCU_LOCK_MASK = 0)"
proof -
  obtain k where k: "k \<le> n" "poll_set d CCU_PLL_CPUX CCU_LOCK_MASK t1 =
      Some (reads d CCU_PLL_CPUX (Suc k) t1)"
    "d (reads d CCU_PLL_CPUX k t1) CCU_PLL_CPUX AND CCU_LOCK_MASK \<noteq> 0"
    "\<forall>j < k. d (reads d CCU_PLL_CPUX j t1) CCU_PLL_CPUX AND CCU_LOCK_MASK = 0"
    using poll_set_reads [of d CCU_PLL_CPUX n t1 CCU_LOCK_MASK] assms(2) by blast
  have "reads d CCU_PLL_CPUX (Suc k) t1 = Rd CCU_PLL_CPUX (d (reads d CCU_PLL_CPUX k t1) CCU_PLL_CPUX)
      # reads d CCU_PLL_CPUX k t1"
    by (rule reads_snoc)
  with k assms(1) show ?thesis
    by (intro exI [of _ k] conjI exI [of _ "d (reads d CCU_PLL_CPUX k t1) CCU_PLL_CPUX"])
      (simp_all add: ccu_set_pll_cpux_def io_defs)
qed

theorem ccu_set_pll_cpux_safe_witness:
  "ccu_set_pll_cpux (\<lambda>t a. if length t < 5 then 0 else CCU_LOCK_MASK) 408000000 [] \<noteq> None"
proof -
  let ?d = "\<lambda>t a. if length t < 5 then 0 else CCU_LOCK_MASK"
  have "CCU_LOCK_MASK \<noteq> 0"
    by (simp add: CCU_LOCK_MASK_def)
  then show ?thesis
    using ccu_set_pll_cpux_safe [OF refl, of ?d 2 408000000 "[]"] by auto
qed

end
