(* ===== verification/Dsi_Codes.thy ===== *)
theory Dsi_Codes
  imports Prelude
begin

text \<open>
  The two codes of the MIPI DSI link, \<open>src/src/display.c\<close> lines 613 to 742: the ECC of a packet
  header (\<open>sun6i_dsi_ecc_compute\<close>) and the CRC of a payload (\<open>crc_ccitt\<close>), and the packets
  that are built with them. The ECC is shown to be a code of distance four; the CRC table is
  shown to implement the bit-serial CRC.
\<close>

section \<open>The header ECC\<close>

text \<open>A disjunction of \<open>BIT(i)\<close>.\<close>

definition bits_of :: "nat list \<Rightarrow> u32" where
  "bits_of is = foldr (\<lambda>i w. push_bit i 1 OR w) is 0"

definition sun6i_dsi_ecc_array :: "u32 list" where
  "sun6i_dsi_ecc_array =
    [bits_of [0, 1, 2, 4, 5, 7, 10, 11, 13, 16, 20, 21, 22, 23],
     bits_of [0, 1, 3, 4, 6, 8, 10, 12, 14, 17, 20, 21, 22, 23],
     bits_of [0, 2, 3, 5, 6, 9, 11, 12, 15, 18, 20, 21, 22],
     bits_of [1, 2, 3, 7, 8, 9, 13, 14, 15, 19, 20, 21, 23],
     bits_of [4, 5, 6, 7, 8, 9, 16, 17, 18, 19, 20, 22, 23],
     bits_of [10, 11, 12, 13, 14, 15, 16, 17, 18, 19, 21, 22, 23]]"

text \<open>The inner loop; the state is \<open>init\<close> and \<open>val\<close>.\<close>

fun ecc_field :: "u32 \<Rightarrow> u32 \<Rightarrow> nat list \<Rightarrow> bool \<times> u8 \<Rightarrow> u8" where
  "ecc_field field data [] (init, val) = val"
| "ecc_field field data (j # js) (init, val) =
     (if push_bit j 1 AND field = 0 then ecc_field field data js (init, val)
      else (let b = (if push_bit j 1 AND data \<noteq> 0 then 1 else 0)
            in if \<not> init then ecc_field field data js (True, b)
               else ecc_field field data js (init, val XOR b)))"

definition sun6i_dsi_ecc_compute :: "u32 \<Rightarrow> u32" where
  "sun6i_dsi_ecc_compute data =
     ucast (fold (\<lambda>i ecc. ecc OR push_bit i (ecc_field (sun6i_dsi_ecc_array ! i) data [0..<24] (False, 0)))
       [0..<6] (0 :: u8))"

section \<open>The payload CRC\<close>

definition crc_ccitt_table :: "u16 list" where
  "crc_ccitt_table =
    [0x0000, 0x1189, 0x2312, 0x329b, 0x4624, 0x57ad, 0x6536, 0x74bf,
     0x8c48, 0x9dc1, 0xaf5a, 0xbed3, 0xca6c, 0xdbe5, 0xe97e, 0xf8f7,
     0x1081, 0x0108, 0x3393, 0x221a, 0x56a5, 0x472c, 0x75b7, 0x643e,
     0x9cc9, 0x8d40, 0xbfdb, 0xae52, 0xdaed, 0xcb64, 0xf9ff, 0xe876,
     0x2102, 0x308b, 0x0210, 0x1399, 0x6726, 0x76af, 0x4434, 0x55bd,
     0xad4a, 0xbcc3, 0x8e58, 0x9fd1, 0xeb6e, 0xfae7, 0xc87c, 0xd9f5,
     0x3183, 0x200a, 0x1291, 0x0318, 0x77a7, 0x662e, 0x54b5, 0x453c,
     0xbdcb, 0xac42, 0x9ed9, 0x8f50, 0xfbef, 0xea66, 0xd8fd, 0xc974,
     0x4204, 0x538d, 0x6116, 0x709f, 0x0420, 0x15a9, 0x2732, 0x36bb,
     0xce4c, 0xdfc5, 0xed5e, 0xfcd7, 0x8868, 0x99e1, 0xab7a, 0xbaf3,
     0x5285, 0x430c, 0x7197, 0x601e, 0x14a1, 0x0528, 0x37b3, 0x263a,
     0xdecd, 0xcf44, 0xfddf, 0xec56, 0x98e9, 0x8960, 0xbbfb, 0xaa72,
     0x6306, 0x728f, 0x4014, 0x519d, 0x2522, 0x34ab, 0x0630, 0x17b9,
     0xef4e, 0xfec7, 0xcc5c, 0xddd5, 0xa96a, 0xb8e3, 0x8a78, 0x9bf1,
     0x7387, 0x620e, 0x5095, 0x411c, 0x35a3, 0x242a, 0x16b1, 0x0738,
     0xffcf, 0xee46, 0xdcdd, 0xcd54, 0xb9eb, 0xa862, 0x9af9, 0x8b70,
     0x8408, 0x9581, 0xa71a, 0xb693, 0xc22c, 0xd3a5, 0xe13e, 0xf0b7,
     0x0840, 0x19c9, 0x2b52, 0x3adb, 0x4e64, 0x5fed, 0x6d76, 0x7cff,
     0x9489, 0x8500, 0xb79b, 0xa612, 0xd2ad, 0xc324, 0xf1bf, 0xe036,
     0x18c1, 0x0948, 0x3bd3, 0x2a5a, 0x5ee5, 0x4f6c, 0x7df7, 0x6c7e,
     0xa50a, 0xb483, 0x8618, 0x9791, 0xe32e, 0xf2a7, 0xc03c, 0xd1b5,
     0x2942, 0x38cb, 0x0a50, 0x1bd9, 0x6f66, 0x7eef, 0x4c74, 0x5dfd,
     0xb58b, 0xa402, 0x9699, 0x8710, 0xf3af, 0xe226, 0xd0bd, 0xc134,
     0x39c3, 0x284a, 0x1ad1, 0x0b58, 0x7fe7, 0x6e6e, 0x5cf5, 0x4d7c,
     0xc60c, 0xd785, 0xe51e, 0xf497, 0x8028, 0x91a1, 0xa33a, 0xb2b3,
     0x4a44, 0x5bcd, 0x6956, 0x78df, 0x0c60, 0x1de9, 0x2f72, 0x3efb,
     0xd68d, 0xc704, 0xf59f, 0xe416, 0x90a9, 0x8120, 0xb3bb, 0xa232,
     0x5ac5, 0x4b4c, 0x79d7, 0x685e, 0x1ce1, 0x0d68, 0x3ff3, 0x2e7a,
     0xe70e, 0xf687, 0xc41c, 0xd595, 0xa12a, 0xb0a3, 0x8238, 0x93b1,
     0x6b46, 0x7acf, 0x4854, 0x59dd, 0x2d62, 0x3ceb, 0x0e70, 0x1ff9,
     0xf78f, 0xe606, 0xd49d, 0xc514, 0xb1ab, 0xa022, 0x92b9, 0x8330,
     0x7bc7, 0x6a4e, 0x58d5, 0x495c, 0x3de3, 0x2c6a, 0x1ef1, 0x0f78]"

definition crc_ccitt_byte :: "u16 \<Rightarrow> u8 \<Rightarrow> u16" where
  "crc_ccitt_byte crc c = drop_bit 8 crc XOR crc_ccitt_table ! unat ((crc XOR ucast c) AND 0xff)"

fun crc_ccitt :: "u16 \<Rightarrow> u8 list \<Rightarrow> u16" where
  "crc_ccitt crc [] = crc"
| "crc_ccitt crc (c # cs) = crc_ccitt (crc_ccitt_byte crc c) cs"

definition sun6i_dsi_crc_compute :: "u8 list \<Rightarrow> u16" where
  "sun6i_dsi_crc_compute buffer = crc_ccitt 0xffff buffer"

definition sun6i_dsi_crc_repeat :: "u8 \<Rightarrow> nat \<Rightarrow> u16" where
  "sun6i_dsi_crc_repeat pd len = sun6i_dsi_crc_compute (replicate len pd)"

section \<open>Packets\<close>

definition MIPI_DSI_BLANKING_PACKET :: u8 where "MIPI_DSI_BLANKING_PACKET = 0x19"
definition MIPI_DSI_DCS_LONG_WRITE :: u8 where "MIPI_DSI_DCS_LONG_WRITE = 0x39"

definition sun6i_dsi_build_sync_pkt :: "u8 \<Rightarrow> u8 \<Rightarrow> u8 \<Rightarrow> u8 \<Rightarrow> u32" where
  "sun6i_dsi_build_sync_pkt dt vc d0 d1 =
     (let v = ucast dt AND 0x3f;
          v = v OR push_bit 6 (ucast vc AND 3);
          v = v OR push_bit 8 (ucast d0 AND 0xff);
          v = v OR push_bit 16 (ucast d1 AND 0xff)
      in v OR push_bit 24 (sun6i_dsi_ecc_compute v))"

definition sun6i_dsi_build_blk0_pkt :: "u8 \<Rightarrow> u16 \<Rightarrow> u32" where
  "sun6i_dsi_build_blk0_pkt vc wc =
     sun6i_dsi_build_sync_pkt MIPI_DSI_BLANKING_PACKET vc (ucast (wc AND 0xff)) (ucast (drop_bit 8 wc))"

definition sun6i_dsi_build_blk1_pkt :: "u16 \<Rightarrow> nat \<Rightarrow> u32" where
  "sun6i_dsi_build_blk1_pkt pd len =
     (ucast pd AND 0xff) OR push_bit 16 (ucast (sun6i_dsi_crc_repeat (ucast pd) len) AND 0xffff)"

definition sun6i_dsi_dcs_build_pkt_hdr :: "u8 \<Rightarrow> u8 list \<Rightarrow> nat \<Rightarrow> u32" where
  "sun6i_dsi_dcs_build_pkt_hdr type buf len =
     (let pkt = ucast type;
          n = of_nat len;
          pkt = (if type = MIPI_DSI_DCS_LONG_WRITE then
                   pkt OR push_bit 8 (n AND 0xffff) OR push_bit 16 (drop_bit 8 n AND 0xffff)
                 else
                   (let pkt = pkt OR push_bit 8 (ucast (buf ! 0))
                    in if len > 1 then pkt OR push_bit 16 (ucast (buf ! 1)) else pkt))
      in pkt OR push_bit 24 (sun6i_dsi_ecc_compute pkt))"

section \<open>The ECC has distance four\<close>

lemma bit_pow2_and [simp]: "(2 :: u32) ^ j AND w = 0 \<longleftrightarrow> \<not> (j < 32 \<and> bit w j)"
proof
  assume "(2 :: u32) ^ j AND w = 0"
  then have "\<not> bit ((2 :: u32) ^ j AND w) j" by simp
  then show "\<not> (j < 32 \<and> bit w j)" by (simp add: bit_and_iff bit_exp_iff)
next
  assume "\<not> (j < 32 \<and> bit w j)"
  then show "(2 :: u32) ^ j AND w = 0"
    by (intro bit_word_eqI) (auto simp: bit_and_iff bit_exp_iff)
qed

lemma bit_bits_of: "bit (bits_of is) j \<longleftrightarrow> j \<in> set is \<and> j < 32"
  by (induction "is") (auto simp: bits_of_def bit_or_iff bit_exp_iff)

text \<open>A field contributes the parity of the data bits it selects.\<close>

lemma ecc_field_parity:
  "\<forall>j \<in> set js. j < 32 \<Longrightarrow> \<not> init \<longrightarrow> v = 0 \<Longrightarrow>
    ecc_field field data js (init, v) =
      v XOR of_bool (odd (length (filter (\<lambda>j. bit field j \<and> bit data j) js)))"
proof (induction js arbitrary: init v)
  case (Cons j js)
  then show ?case
    by (cases "bit field j"; cases "bit data j"; cases init) (simp_all add: xor.assoc)
qed simp

text \<open>The data bits that enter code bit \<open>i\<close>, and the code bits that data bit \<open>j\<close> enters.\<close>

definition ecc_row :: "nat \<Rightarrow> nat set" where
  "ecc_row i = {j. j < 24 \<and> bit (sun6i_dsi_ecc_array ! i) j}"

definition ecc_col :: "nat \<Rightarrow> nat list" where
  "ecc_col j = filter (\<lambda>i. bit (sun6i_dsi_ecc_array ! i) j) [0..<6]"

lemma upt_6: "[0..<6] = [0, 1, 2, 3, 4, 5]"
  and upt_24: "[0..<24] = [0, 1, 2, 3, 4, 5, 6, 7, 8, 9, 10, 11, 12, 13, 14, 15, 16, 17, 18, 19, 20, 21, 22, 23]"
  by (simp_all add: upt_rec)

lemma fold_bits: "bit (fold (\<lambda>i ecc. ecc OR push_bit i (of_bool (P i))) [0..<6] (0 :: u8)) i \<longleftrightarrow> i < 6 \<and> P i"
proof (cases "i < 6")
  case True
  then consider "i = 0" | "i = 1" | "i = 2" | "i = 3" | "i = 4" | "i = 5" by linarith
  then show ?thesis
    by cases (simp_all add: upt_6 bit_or_iff bit_push_bit_iff)
next
  case False
  then consider "i = 6" | "i = 7" | "\<not> possible_bit TYPE(u8) i" by fastforce
  then show ?thesis
    using False by cases (simp_all add: upt_6 bit_or_iff bit_push_bit_iff impossible_bit)
qed

lemma bit_ecc:
  "bit (sun6i_dsi_ecc_compute d) i \<longleftrightarrow> i < 6 \<and> odd (card (ecc_row i \<inter> {j. bit d j}))"
proof -
  have len: "length (filter (\<lambda>j. bit (sun6i_dsi_ecc_array ! i) j \<and> bit d j) [0..<24]) =
      card (ecc_row i \<inter> {j. bit d j})" for i
    unfolding length_filter_conv_card by (rule arg_cong [of _ _ card]) (auto simp: ecc_row_def)
  have field: "ecc_field (sun6i_dsi_ecc_array ! i) d [0..<24] (False, 0) =
      of_bool (odd (card (ecc_row i \<inter> {j. bit d j})))" for i
    using ecc_field_parity [of "[0..<24]" False 0 "sun6i_dsi_ecc_array ! i" d] unfolding len by simp
  show ?thesis
    unfolding sun6i_dsi_ecc_compute_def bit_unsigned_iff field fold_bits by auto
qed

lemma ecc_rows:
  "bit (sun6i_dsi_ecc_array ! 0) j \<longleftrightarrow> j \<in> {0, 1, 2, 4, 5, 7, 10, 11, 13, 16, 20, 21, 22, 23}"
  "bit (sun6i_dsi_ecc_array ! Suc 0) j \<longleftrightarrow> j \<in> {0, 1, 3, 4, 6, 8, 10, 12, 14, 17, 20, 21, 22, 23}"
  "bit (sun6i_dsi_ecc_array ! 2) j \<longleftrightarrow> j \<in> {0, 2, 3, 5, 6, 9, 11, 12, 15, 18, 20, 21, 22}"
  "bit (sun6i_dsi_ecc_array ! 3) j \<longleftrightarrow> j \<in> {1, 2, 3, 7, 8, 9, 13, 14, 15, 19, 20, 21, 23}"
  "bit (sun6i_dsi_ecc_array ! 4) j \<longleftrightarrow> j \<in> {4, 5, 6, 7, 8, 9, 16, 17, 18, 19, 20, 22, 23}"
  "bit (sun6i_dsi_ecc_array ! 5) j \<longleftrightarrow> j \<in> {10, 11, 12, 13, 14, 15, 16, 17, 18, 19, 21, 22, 23}"
  by (auto simp: sun6i_dsi_ecc_array_def bit_bits_of)

lemma ecc_cols:
  "\<forall>j < 24. odd (length (ecc_col j)) \<and> length (ecc_col j) \<ge> 3"
  "inj_on ecc_col {..<24}"
proof -
  have e: "map ecc_col [0..<24] =
    [[0, 1, 2], [0, 1, 3], [0, 2, 3], [1, 2, 3], [0, 1, 4], [0, 2, 4], [1, 2, 4], [0, 3, 4],
     [1, 3, 4], [2, 3, 4], [0, 1, 5], [0, 2, 5], [1, 2, 5], [0, 3, 5], [1, 3, 5], [2, 3, 5],
     [0, 4, 5], [1, 4, 5], [2, 4, 5], [3, 4, 5], [0, 1, 2, 3, 4], [0, 1, 2, 3, 5],
     [0, 1, 2, 4, 5], [0, 1, 3, 4, 5]]"
    unfolding ecc_col_def upt_6 by (simp add: ecc_rows upt_24)
  then have "distinct (map ecc_col [0..<24])" by simp
  then show "inj_on ecc_col {..<24}" by (simp add: distinct_map atLeast0LessThan)
  have "\<forall>c \<in> set (map ecc_col [0..<24]). odd (length c) \<and> length c \<ge> 3"
    unfolding e by simp
  then show "\<forall>j < 24. odd (length (ecc_col j)) \<and> length (ecc_col j) \<ge> 3" by auto
qed

lemma card_rows: "(\<Sum>i<6. card (ecc_row i \<inter> X)) = (\<Sum>j \<in> X. length (ecc_col j))" if "X \<subseteq> {..<24}" for X
proof -
  have fin: "finite X" using that finite_subset by blast
  have "card (ecc_row i \<inter> X) = (\<Sum>j \<in> X. of_bool (bit (sun6i_dsi_ecc_array ! i) j))" for i
  proof -
    have "ecc_row i \<inter> X = {j \<in> X. bit (sun6i_dsi_ecc_array ! i) j}"
      using that by (auto simp: ecc_row_def)
    then show ?thesis using fin by (simp add: of_bool_def sum.If_cases Int_def)
  qed
  moreover have "length (ecc_col j) = (\<Sum>i<6. of_bool (bit (sun6i_dsi_ecc_array ! i) j))" for j
    unfolding ecc_col_def length_filter_conv_card
    by (simp add: of_bool_def sum.If_cases) (rule arg_cong [of _ _ card], auto)
  ultimately show ?thesis
    by (simp add: sum.swap)
qed

lemma parity_count:
  assumes "X \<subseteq> {..<24}" "E = {i. i < 6 \<and> odd (card (ecc_row i \<inter> X))}"
  shows "even (card E) \<longleftrightarrow> even (card X)"
proof -
  have fin: "finite X" using assms(1) finite_subset by blast
  have "even (\<Sum>i<6. card (ecc_row i \<inter> X)) \<longleftrightarrow> even (card {i \<in> {..<6}. odd (card (ecc_row i \<inter> X))})"
    by (rule even_sum_iff) simp
  moreover have "even (\<Sum>j \<in> X. length (ecc_col j)) \<longleftrightarrow> even (card {j \<in> X. odd (length (ecc_col j))})"
    by (rule even_sum_iff) (rule fin)
  moreover have "{j \<in> X. odd (length (ecc_col j))} = X"
    using assms(1) ecc_cols(1) by auto
  ultimately show ?thesis
    using card_rows [OF assms(1)] assms(2) by simp
qed

lemma odd_card_sym_diff:
  assumes "finite A" "finite B"
  shows "odd (card ((A - B) \<union> (B - A))) \<longleftrightarrow> odd (card A) \<noteq> odd (card B)"
proof -
  have "card (A - B) = card A - card (A \<inter> B)" "card (B - A) = card B - card (A \<inter> B)"
    using assms card_Diff_subset_Int [of A B] card_Diff_subset_Int [of B A] by (simp_all add: Int_commute)
  moreover have "card (A \<inter> B) \<le> card A" "card (A \<inter> B) \<le> card B"
    using assms by (simp_all add: card_mono)
  moreover have "card ((A - B) \<union> (B - A)) = card (A - B) + card (B - A)"
    using assms by (intro card_Un_disjoint) auto
  ultimately show ?thesis by presburger
qed

definition data_diff :: "u32 \<Rightarrow> u32 \<Rightarrow> nat set" where
  "data_diff d d' = {j. j < 24 \<and> bit d j \<noteq> bit d' j}"

definition ecc_diff :: "u32 \<Rightarrow> u32 \<Rightarrow> nat set" where
  "ecc_diff d d' = {i. i < 6 \<and> bit (sun6i_dsi_ecc_compute d) i \<noteq> bit (sun6i_dsi_ecc_compute d') i}"

lemma ecc_diff_odd: "ecc_diff d d' = {i. i < 6 \<and> odd (card (ecc_row i \<inter> data_diff d d'))}"
proof -
  have "odd (card (ecc_row i \<inter> data_diff d d')) \<longleftrightarrow>
      odd (card (ecc_row i \<inter> {j. bit d j})) \<noteq> odd (card (ecc_row i \<inter> {j. bit d' j}))" for i
  proof -
    have fin: "finite (ecc_row i)" by (simp add: ecc_row_def)
    have "ecc_row i \<inter> data_diff d d' =
        (ecc_row i \<inter> {j. bit d j} - ecc_row i \<inter> {j. bit d' j}) \<union>
        (ecc_row i \<inter> {j. bit d' j} - ecc_row i \<inter> {j. bit d j})"
      by (auto simp: ecc_row_def data_diff_def)
    with fin show ?thesis
      using odd_card_sym_diff [of "ecc_row i \<inter> {j. bit d j}" "ecc_row i \<inter> {j. bit d' j}"] by simp
  qed
  then show ?thesis
    unfolding ecc_diff_def bit_ecc by auto
qed

lemma ecc_row_col: "i < 6 \<Longrightarrow> j < 24 \<Longrightarrow> j \<in> ecc_row i \<longleftrightarrow> i \<in> set (ecc_col j)"
  by (simp add: ecc_row_def ecc_col_def)

lemma ecc_diff_single:
  assumes "data_diff d d' = {j}"
  shows "card (ecc_diff d d') \<ge> 3"
proof -
  have j: "j < 24" using assms by (auto simp: data_diff_def)
  have "odd (card (ecc_row i \<inter> {j})) \<longleftrightarrow> i \<in> set (ecc_col j)" if "i < 6" for i
    using ecc_row_col [OF that j] by (cases "j \<in> ecc_row i") simp_all
  then have "ecc_diff d d' = set (ecc_col j)"
    unfolding ecc_diff_odd assms by (auto simp: ecc_col_def)
  moreover have "distinct (ecc_col j)" by (simp add: ecc_col_def)
  ultimately show ?thesis
    using ecc_cols(1) j by (simp add: distinct_card)
qed

lemma ecc_diff_double:
  assumes "data_diff d d' = {j, k}" "j \<noteq> k"
  shows "ecc_diff d d' \<noteq> {}"
proof
  assume empty: "ecc_diff d d' = {}"
  have jk: "j < 24" "k < 24" using assms by (auto simp: data_diff_def)
  have "j \<in> ecc_row i \<longleftrightarrow> k \<in> ecc_row i" if "i < 6" for i
    using empty that assms(2) unfolding ecc_diff_odd assms(1)
    by (cases "j \<in> ecc_row i"; cases "k \<in> ecc_row i") auto
  then have "ecc_col j = ecc_col k"
    unfolding ecc_col_def using jk by (intro filter_cong) (auto simp: ecc_row_def)
  then show False
    using ecc_cols(2) jk assms(2) by (auto dest: inj_onD)
qed

text \<open>
  C20: the header ECC is a code of distance four: two headers that differ in \<open>n\<close> of their 24
  data bits have codes that differ in at least \<open>4 - n\<close> bits, so one wrong bit can be corrected
  and two wrong bits are noticed.
\<close>

theorem ecc_distance:
  assumes "data_diff d d' \<noteq> {}"
  shows "card (data_diff d d') + card (ecc_diff d d') \<ge> 4"
proof -
  have sub: "data_diff d d' \<subseteq> {..<24}" by (auto simp: data_diff_def)
  then have fin: "finite (data_diff d d')" using finite_subset by blast
  have par: "even (card (ecc_diff d d')) \<longleftrightarrow> even (card (data_diff d d'))"
    by (rule parity_count [OF sub ecc_diff_odd])
  have "card (data_diff d d') \<noteq> 0" using assms fin by simp
  then consider "card (data_diff d d') = 1" | "card (data_diff d d') = 2"
    | "card (data_diff d d') = 3" | "card (data_diff d d') \<ge> 4" by linarith
  then show ?thesis
  proof cases
    case 1
    then show ?thesis using ecc_diff_single by (auto simp: card_1_singleton_iff)
  next
    case 2
    then obtain j k where "data_diff d d' = {j, k}" "j \<noteq> k" by (auto simp: card_2_iff)
    then have "card (ecc_diff d d') \<noteq> 0" using ecc_diff_double by (simp add: ecc_diff_def)
    with par 2 show ?thesis by presburger
  next
    case 3
    with par show ?thesis by presburger
  qed simp
qed

theorem ecc_distance_witness: "card (data_diff 0x390400 0x390401) + card (ecc_diff 0x390400 0x390401) \<ge> 4"
proof (rule ecc_distance)
  have "0 \<in> data_diff 0x390400 0x390401" by (simp add: data_diff_def)
  then show "data_diff 0x390400 0x390401 \<noteq> {}" by blast
qed

section \<open>The table is the bit-serial CRC\<close>

text \<open>One bit of the reflected CRC-CCITT, polynomial 0x8408.\<close>

definition crc_bit :: "u16 \<Rightarrow> u16" where
  "crc_bit c = (if bit c 0 then drop_bit 1 c XOR 0x8408 else drop_bit 1 c)"

fun crc_serial :: "u16 \<Rightarrow> u8 list \<Rightarrow> u16" where
  "crc_serial crc [] = crc"
| "crc_serial crc (c # cs) = crc_serial ((crc_bit ^^ 8) (crc XOR ucast c)) cs"

lemma crc_bit_xor: "crc_bit (a XOR b) = crc_bit a XOR crc_bit b"
proof -
  have "drop_bit 1 (a XOR b) = drop_bit 1 a XOR drop_bit 1 b" by simp
  then show ?thesis
    by (cases "bit a 0"; cases "bit b 0") (simp_all add: crc_bit_def bit_xor_iff ac_simps)
qed

lemma crc_bits_xor: "(crc_bit ^^ n) (a XOR b) = (crc_bit ^^ n) a XOR (crc_bit ^^ n) b"
  by (induction n) (simp_all add: crc_bit_xor)

lemma funpow_8: "(f ^^ 8) x = f (f (f (f (f (f (f (f x)))))))"
  by (simp add: numeral_eq_Suc)

definition crc_byte :: "nat \<Rightarrow> u16" where
  "crc_byte i = (crc_bit ^^ 8) (of_nat i)"

lemma crc_byte_double:
  assumes "k < 16"
  shows "map crc_byte [0..<2 ^ Suc k] =
    map crc_byte [0..<2 ^ k] @ map (\<lambda>x. x XOR crc_byte (2 ^ k)) (map crc_byte [0..<2 ^ k])"
proof -
  have "crc_byte (2 ^ k + i) = crc_byte i XOR crc_byte (2 ^ k)" if "i < 2 ^ k" for i
  proof -
    have no: "\<not> bit i k"
      using that by (simp add: bit_iff_odd)
    have "2 ^ k AND i = 0"
      using no by (intro bit_eqI) (auto simp: bit_and_iff bit_exp_iff)
    then have "2 ^ k + i = 2 ^ k XOR i"
      by (simp add: disjunctive_add_eq_xor)
    then have "(of_nat (2 ^ k + i) :: u16) = of_nat (2 ^ k) XOR of_nat i"
      by (metis of_nat_xor_eq)
    then show ?thesis by (simp add: crc_byte_def crc_bits_xor xor.commute)
  qed
  then have "map crc_byte [2 ^ k..<2 ^ k + 2 ^ k] = map (\<lambda>i. crc_byte i XOR crc_byte (2 ^ k)) [0..<2 ^ k]"
    by (intro nth_equalityI) (auto simp: add.commute)
  then show ?thesis
    using upt_add_eq_append [of 0 "2 ^ k" "2 ^ k"] by (simp add: mult_2 comp_def)
qed

lemma crc_powers: "map (\<lambda>k. crc_byte (2 ^ k)) [0..<8] =
  [0x1189, 0x2312, 0x4624, 0x8c48, 0x1081, 0x2102, 0x4204, 0x8408]"
  by (simp add: upt_rec crc_byte_def funpow_8 crc_bit_def)

lemma crc_table: "crc_ccitt_table = map crc_byte [0..<2 ^ 8]"
proof -
  have z: "map crc_byte [0..<2 ^ 0] = [0]"
    by (simp add: crc_byte_def funpow_8 crc_bit_def)
  have p: "crc_byte (2 ^ 0) = 0x1189" "crc_byte (2 ^ 1) = 0x2312" "crc_byte (2 ^ 2) = 0x4624" "crc_byte (2 ^ 3) = 0x8c48"
   "crc_byte (2 ^ 4) = 0x1081" "crc_byte (2 ^ 5) = 0x2102" "crc_byte (2 ^ 6) = 0x4204" "crc_byte (2 ^ 7) = 0x8408"
    using crc_powers by (simp_all add: upt_rec)
  have "map crc_byte [0..<2 ^ 8] = (let f = \<lambda>p L. L @ map (\<lambda>x. x XOR p) L in f 0x8408 (f 0x4204 (f 0x2102 (f 0x1081 (f 0x8c48 (f 0x4624 (f 0x2312 (f 0x1189 [0]))))))))"
    using crc_byte_double [of 0] crc_byte_double [of 1] crc_byte_double [of 2] crc_byte_double [of 3] crc_byte_double [of 4] crc_byte_double [of 5] crc_byte_double [of 6] crc_byte_double [of 7]
    unfolding z p Let_def by (simp del: upt.simps)
  also have "... = crc_ccitt_table"
    unfolding Let_def crc_ccitt_table_def by simp
  finally show ?thesis by simp
qed
lemma crc_bits_high: "n \<le> 8 \<Longrightarrow> \<forall>i < 8. \<not> bit x i \<Longrightarrow> (crc_bit ^^ n) x = drop_bit n x"
  by (induction n) (simp_all add: crc_bit_def bit_drop_bit_eq drop_bit_drop_bit)

lemma crc_ccitt_byte_serial: "crc_ccitt_byte crc c = (crc_bit ^^ 8) (crc XOR ucast c)"
proof -
  let ?x = "crc XOR ucast c" and ?m = "0xff :: u16"
  have m: "?m = mask 8" by (simp add: mask_eq_exp_minus_1)
  have "unat (?x AND ?m) = unat ?x mod 256"
    unfolding m by (simp only: take_bit_eq_mask [symmetric]) (simp add: unsigned_take_bit_eq take_bit_eq_mod unat_mod)
  then have lt: "unat (?x AND ?m) < 2 ^ 8" by simp
  have table: "crc_ccitt_table ! unat (?x AND ?m) = (crc_bit ^^ 8) (?x AND ?m)"
    unfolding crc_table using lt by (subst nth_map) (simp_all add: crc_byte_def del: upt.simps)
  have "\<forall>i < 8. \<not> bit (?x AND NOT ?m) i"
    unfolding m by (simp add: bit_and_iff bit_not_iff bit_mask_iff)
  then have high: "(crc_bit ^^ 8) (?x AND NOT ?m) = drop_bit 8 (?x AND NOT ?m)"
    by (intro crc_bits_high) simp_all
  have "drop_bit 8 (?x AND NOT ?m) = drop_bit 8 crc"
    unfolding m by (rule bit_word_eqI)
      (auto simp: bit_drop_bit_eq bit_and_iff bit_not_iff bit_mask_iff bit_xor_iff bit_unsigned_iff dest: bit_imp_le_length)
  moreover have "?x = (?x AND NOT ?m) XOR (?x AND ?m)"
    unfolding m by (rule bit_word_eqI) (auto simp: bit_and_iff bit_not_iff bit_xor_iff bit_mask_iff)
  ultimately show ?thesis
    using high table by (simp only: crc_ccitt_byte_def) (metis crc_bits_xor)
qed

lemma crc_is_serial: "crc_ccitt crc cs = crc_serial crc cs"
  by (induction crc cs rule: crc_ccitt.induct) (simp_all add: crc_ccitt_byte_serial)

text \<open>
  The table driven CRC of the code is the bit-serial CRC-CCITT (reflected, polynomial
  0x8408): all 256 entries are right and a byte may be taken at once.
\<close>

theorem crc_ccitt_is_serial: "crc_ccitt crc cs = crc_serial crc cs"
  by (rule crc_is_serial)
lemma xor_zero: "a XOR b = (0 :: 'a :: len word) \<Longrightarrow> a = b"
  by (metis xor.assoc xor.left_neutral xor.right_neutral xor_self_eq)

lemma crc_bit_inj: "crc_bit a = crc_bit b \<Longrightarrow> a = b"
proof -
  assume eq: "crc_bit a = crc_bit b"
  then have "crc_bit (a XOR b) = 0" by (simp add: crc_bit_xor)
  then have zero: "\<And>i. \<not> bit (crc_bit (a XOR b)) i" by simp
  have "\<not> bit (drop_bit 1 (a XOR b) :: u16) 15"
    by (simp add: bit_xor_iff bit_drop_bit_eq impossible_bit)
  moreover have "bit (0x8408 :: u16) 15" by simp
  ultimately have low: "\<not> bit (a XOR b) 0"
    using zero [of 15] by (auto simp: crc_bit_def bit_xor_iff split: if_splits)
  then have "drop_bit 1 (a XOR b) = 0"
    using \<open>crc_bit (a XOR b) = 0\<close> by (simp add: crc_bit_def del: bit_0)
  then have drop: "\<not> bit (a XOR b) (Suc i)" for i
    using bit_drop_bit_eq [of 1 "a XOR b"] by (simp add: fun_eq_iff del: drop_bit_xor)
  then have "bit (a XOR b) i = False" for i
    using low by (cases i) (simp_all add: drop)
  then have "a XOR b = 0"
    by (intro bit_eqI) simp
  then show "a = b" by (rule xor_zero)
qed

lemma crc_bits_inj: "(crc_bit ^^ n) a = (crc_bit ^^ n) b \<longleftrightarrow> a = b"
  by (induction n arbitrary: a b) (auto dest: crc_bit_inj)

lemma crc_serial_inj: "crc_serial a cs = crc_serial b cs \<longleftrightarrow> a = b"
proof (induction cs arbitrary: a b)
  case (Cons c cs)
  have "a = b" if "a XOR ucast c = b XOR ucast c"
    using arg_cong [OF that, of "\<lambda>w. w XOR ucast c"] by (simp add: xor.assoc)
  then have "a XOR ucast c = b XOR ucast c \<longleftrightarrow> a = b" by blast
  then show ?case by (simp add: Cons crc_bits_inj)
qed simp

lemma crc_serial_append: "crc_serial crc (xs @ ys) = crc_serial (crc_serial crc xs) ys"
  by (induction crc xs rule: crc_serial.induct) simp_all

text \<open>A byte that is not zero leaves a trace in the upper half of the register.\<close>

lemma crc_byte_high:
  assumes "x \<noteq> 0"
  shows "drop_bit 8 ((crc_bit ^^ 8) (ucast (x :: u8))) \<noteq> 0"
proof -
  have "list_all (\<lambda>v. drop_bit 8 v \<noteq> 0) (tl crc_ccitt_table)"
    by (simp add: crc_ccitt_table_def)
  then have "\<forall>v \<in> set (tl crc_ccitt_table). drop_bit 8 v \<noteq> 0"
    by (simp only: list_all_iff)
  moreover have "unat x < 2 ^ LENGTH(8)"
    by (rule unsigned_less)
  then have lt: "unat x < 2 ^ 8" by simp
  then have "(crc_bit ^^ 8) (ucast x) = crc_ccitt_table ! unat x"
    unfolding crc_table by (subst nth_map) (simp_all add: crc_byte_def del: upt.simps)
  moreover have "crc_ccitt_table ! unat x \<in> set (tl crc_ccitt_table)"
  proof -
    have "unat x \<noteq> 0" using assms by (simp add: unat_eq_zero)
    then obtain n where "unat x = Suc n" by (cases "unat x") auto
    moreover have "length crc_ccitt_table = 256"
      unfolding crc_table by simp
    moreover have "unat x < 256" using lt by simp
    ultimately show ?thesis
      by (metis length_tl nth_mem nth_tl less_diff_conv Suc_eq_plus1)
  qed
  ultimately show ?thesis by simp
qed

lemma xor_move:
  assumes "(u XOR p) XOR q = (u XOR r) XOR (s :: u16)"
  shows "p XOR r = q XOR s"
proof (rule bit_word_eqI)
  fix n
  have "bit ((u XOR p) XOR q) n = bit ((u XOR r) XOR s) n" using assms by simp
  then show "bit (p XOR r) n = bit (q XOR s) n" by (auto simp: bit_xor_iff)
qed

text \<open>
  The payload CRC notices every change that is confined to two adjacent bytes.
\<close>

theorem crc_detects_burst:
  assumes "(a, a') \<noteq> (b, b')"
  shows "sun6i_dsi_crc_compute (xs @ [a, a'] @ ys) \<noteq> sun6i_dsi_crc_compute (xs @ [b, b'] @ ys)"
proof
  let ?s = "crc_serial 0xffff xs" and ?f = "crc_bit ^^ 8"
  assume "sun6i_dsi_crc_compute (xs @ [a, a'] @ ys) = sun6i_dsi_crc_compute (xs @ [b, b'] @ ys)"
  then have "?f (?s XOR ucast a) XOR ucast a' = ?f (?s XOR ucast b) XOR ucast b'"
    by (simp add: sun6i_dsi_crc_compute_def crc_is_serial crc_serial_append crc_serial_inj crc_bits_inj)
  then have eq: "?f (ucast (a XOR b)) = ucast (a' XOR b')"
    unfolding crc_bits_xor unsigned_xor_eq by (rule xor_move)
  moreover have "drop_bit 8 (ucast (a' XOR b') :: u16) = 0"
    by (rule bit_word_eqI) (auto simp: bit_drop_bit_eq bit_unsigned_iff dest: bit_imp_le_length)
  ultimately have ab: "a XOR b = 0"
    using crc_byte_high by metis
  have "ucast (a' XOR b') = (0 :: u16)"
    using eq crc_bits_high [of 8 0] unfolding ab by simp
  then have "a' XOR b' = 0"
    by (simp add: word_unat_eq_iff)
  with ab show False
    using assms xor_zero by blast
qed

theorem crc_detects_burst_witness:
  "sun6i_dsi_crc_compute ([0xb9] @ [0xf1, 0x12] @ [0x83]) \<noteq> sun6i_dsi_crc_compute ([0xb9] @ [0xf1, 0x13] @ [0x83])"
  by (rule crc_detects_burst) simp

end
