(* ===== verification/Dsi.thy ===== *)
theory Dsi
  imports Gpio Pmic Dsi_Codes
begin

text \<open>
  Bringing up the panel, \<open>src/src/display.c\<close> lines 83 to 1562 and \<open>display_board_init\<close>: the
  D-PHY, the DSI controller, the panel's command sequence sent as DCS packets, and the short
  variant that replays two precomputed tables of register writes. Histories are those of
  \<open>Machine\<close>; the timer \<open>timer_get_boot_us\<close> is a parameter \<open>clk\<close>, a function of the history.
  A wait that a stopped timer would never end is \<open>None\<close>.

  The tables were dumped from the long variant; the theorems at the end recompute them: every
  entry is what the packet and timing code produces.
\<close>

section \<open>The panel\<close>

definition PANEL_HDISPLAY :: u32 where "PANEL_HDISPLAY = 720"
definition PANEL_HSYNC_START :: u32 where "PANEL_HSYNC_START = 720 + 30"
definition PANEL_HSYNC_END :: u32 where "PANEL_HSYNC_END = 720 + 30 + 28"
definition PANEL_HTOTAL :: u32 where "PANEL_HTOTAL = 720 + 30 + 28 + 30"
definition PANEL_VDISPLAY :: u32 where "PANEL_VDISPLAY = 1440"
definition PANEL_VSYNC_START :: u32 where "PANEL_VSYNC_START = 1440 + 18"
definition PANEL_VSYNC_END :: u32 where "PANEL_VSYNC_END = 1440 + 18 + 10"
definition PANEL_VTOTAL :: u32 where "PANEL_VTOTAL = 1440 + 18 + 10 + 17"
definition PANEL_CLOCK :: u32 where "PANEL_CLOCK = 72000"
definition PANEL_LANES :: u32 where "PANEL_LANES = 4"
definition PANEL_DSI_BPP :: u32 where "PANEL_DSI_BPP = 24"
definition PANEL_BURST :: bool where "PANEL_BURST = False"

lemmas panel_defs = PANEL_HDISPLAY_def PANEL_HSYNC_START_def PANEL_HSYNC_END_def PANEL_HTOTAL_def
  PANEL_VDISPLAY_def PANEL_VSYNC_START_def PANEL_VSYNC_END_def PANEL_VTOTAL_def PANEL_CLOCK_def
  PANEL_LANES_def PANEL_DSI_BPP_def PANEL_BURST_def

text \<open>\<open>struct dcs_seq\<close>: a command with its parameters, or (\<open>type = 1\<close>) a pause of \<open>len\<close> milliseconds.\<close>

datatype dcs_seq = Dcs "u8 list" | Sleep nat

definition panel_dcs_seq_initlist :: "dcs_seq list" where
  "panel_dcs_seq_initlist =
    [Dcs [0xb9, 0xf1, 0x12, 0x83],
     Dcs [0xba, 0x33, 0x81, 0x05, 0xf9, 0x0e, 0x0e, 0x20, 0x00, 0x00, 0x00, 0x00, 0x00, 0x00, 0x00, 0x44,
       0x25, 0x00, 0x91, 0x0a, 0x00, 0x00, 0x02, 0x4f, 0x11, 0x00, 0x00, 0x37],
     Dcs [0xb8, 0x25, 0x22, 0x20, 0x03],
     Dcs [0xb3, 0x10, 0x10, 0x05, 0x05, 0x03, 0xff, 0x00, 0x00, 0x00, 0x00],
     Dcs [0xc0, 0x73, 0x73, 0x50, 0x50, 0x00, 0xc0, 0x08, 0x70, 0x00],
     Dcs [0xbc, 0x4e],
     Dcs [0xcc, 0x0b],
     Dcs [0xb4, 0x80],
     Dcs [0xb2, 0xf0, 0x12, 0xf0],
     Dcs [0xe3, 0x00, 0x00, 0x0b, 0x0b, 0x10, 0x10, 0x00, 0x00, 0x00, 0x00, 0xff, 0x00, 0xc0, 0x10],
     Dcs [0xc6, 0x01, 0x00, 0xff, 0xff, 0x00],
     Dcs [0xc1, 0x74, 0x00, 0x32, 0x32, 0x77, 0xf1, 0xff, 0xff, 0xcc, 0xcc, 0x77, 0x77],
     Dcs [0xb5, 0x07, 0x07],
     Dcs [0xb6, 0x2c, 0x2c],
     Dcs [0xbf, 0x02, 0x11, 0x00],
     Dcs [0xe9, 0x82, 0x10, 0x06, 0x05, 0xa2, 0x0a, 0xa5, 0x12, 0x31, 0x23, 0x37, 0x83, 0x04, 0xbc, 0x27,
       0x38, 0x0c, 0x00, 0x03, 0x00, 0x00, 0x00, 0x0c, 0x00, 0x03, 0x00, 0x00, 0x00, 0x75, 0x75, 0x31,
       0x88, 0x88, 0x88, 0x88, 0x88, 0x88, 0x13, 0x88, 0x64, 0x64, 0x20, 0x88, 0x88, 0x88, 0x88, 0x88,
       0x88, 0x02, 0x88, 0x00, 0x00, 0x00, 0x00, 0x00, 0x00, 0x00, 0x00, 0x00, 0x00, 0x00, 0x00, 0x00],
     Dcs [0xea, 0x02, 0x21, 0x00, 0x00, 0x00, 0x00, 0x00, 0x00, 0x00, 0x00, 0x00, 0x00, 0x02, 0x46, 0x02,
       0x88, 0x88, 0x88, 0x88, 0x88, 0x88, 0x64, 0x88, 0x13, 0x57, 0x13, 0x88, 0x88, 0x88, 0x88, 0x88,
       0x88, 0x75, 0x88, 0x23, 0x14, 0x00, 0x00, 0x02, 0x00, 0x00, 0x00, 0x00, 0x00, 0x00, 0x00, 0x00,
       0x00, 0x00, 0x00, 0x00, 0x00, 0x00, 0x00, 0x03, 0x0a, 0xa5, 0x00, 0x00, 0x00, 0x00],
     Dcs [0xe0, 0x00, 0x09, 0x0d, 0x23, 0x27, 0x3c, 0x41, 0x35, 0x07, 0x0d, 0x0e, 0x12, 0x13, 0x10, 0x12,
       0x12, 0x18, 0x00, 0x09, 0x0d, 0x23, 0x27, 0x3c, 0x41, 0x35, 0x07, 0x0d, 0x0e, 0x12, 0x13, 0x10,
       0x12, 0x12, 0x18],
     Dcs [0x11],
     Sleep 120,
     Dcs [0x29]]"

section \<open>The controller's registers\<close>

text \<open>\<open>((n) & m) << k\<close>.\<close>

definition fld :: "u32 \<Rightarrow> nat \<Rightarrow> u32 \<Rightarrow> u32" where
  "fld m k n = push_bit k (n AND m)"

abbreviation DSI_BASE :: addr where "DSI_BASE \<equiv> 0x01ca0000"
abbreviation SUN6I_DSI_BASIC_CTL0_REG :: u32 where "SUN6I_DSI_BASIC_CTL0_REG \<equiv> 0x010"
abbreviation SUN6I_DSI_INST_JUMP_SEL_REG :: u32 where "SUN6I_DSI_INST_JUMP_SEL_REG \<equiv> 0x048"
abbreviation SUN6I_DSI_CMD_CTL_REG :: u32 where "SUN6I_DSI_CMD_CTL_REG \<equiv> 0x200"

definition SUN6I_DSI_INST_FUNC_REG :: "u32 \<Rightarrow> u32" where "SUN6I_DSI_INST_FUNC_REG n = 0x020 + n * 4"
definition SUN6I_DSI_INST_LOOP_NUM_REG :: "u32 \<Rightarrow> u32" where "SUN6I_DSI_INST_LOOP_NUM_REG n = 0x044 + n * 0x10"
definition SUN6I_DSI_INST_JUMP_CFG_REG :: "u32 \<Rightarrow> u32" where "SUN6I_DSI_INST_JUMP_CFG_REG n = 0x04c + n * 4"
definition SUN6I_DSI_CMD_TX_REG :: "u32 \<Rightarrow> u32" where "SUN6I_DSI_CMD_TX_REG n = 0x300 + n * 4"

definition dsi_read :: "device \<Rightarrow> u32 \<Rightarrow> history \<Rightarrow> u32 \<times> history" where
  "dsi_read d reg t = readl d (DSI_BASE + reg) t"

definition dsi_write :: "u32 \<Rightarrow> u32 \<Rightarrow> history \<Rightarrow> history" where
  "dsi_write reg val t = writel val (DSI_BASE + reg) t"

definition dsi_update_bits :: "device \<Rightarrow> u32 \<Rightarrow> u32 \<Rightarrow> u32 \<Rightarrow> history \<Rightarrow> history" where
  "dsi_update_bits d reg msk val t =
     (let (tmp, t) = readl d (DSI_BASE + reg) t; tmp = tmp AND NOT msk
      in writel (tmp OR val) (DSI_BASE + reg) t)"

section \<open>Instructions\<close>

text \<open>\<open>enum sun6i_dsi_inst_id\<close>, \<open>enum sun6i_dsi_inst_mode\<close>, \<open>enum sun6i_dsi_inst_packet\<close>.\<close>

definition DSI_INST_ID_LP11 :: nat where "DSI_INST_ID_LP11 = 0"
definition DSI_INST_ID_TBA :: nat where "DSI_INST_ID_TBA = 1"
definition DSI_INST_ID_HSC :: nat where "DSI_INST_ID_HSC = 2"
definition DSI_INST_ID_HSD :: nat where "DSI_INST_ID_HSD = 3"
definition DSI_INST_ID_LPDT :: nat where "DSI_INST_ID_LPDT = 4"
definition DSI_INST_ID_HSCEXIT :: nat where "DSI_INST_ID_HSCEXIT = 5"
definition DSI_INST_ID_NOP :: nat where "DSI_INST_ID_NOP = 6"
definition DSI_INST_ID_DLY :: nat where "DSI_INST_ID_DLY = 7"
definition DSI_INST_ID_END :: nat where "DSI_INST_ID_END = 15"

definition DSI_INST_MODE_STOP :: u32 where "DSI_INST_MODE_STOP = 0"
definition DSI_INST_MODE_TBA :: u32 where "DSI_INST_MODE_TBA = 1"
definition DSI_INST_MODE_HS :: u32 where "DSI_INST_MODE_HS = 2"
definition DSI_INST_MODE_ESCAPE :: u32 where "DSI_INST_MODE_ESCAPE = 3"
definition DSI_INST_MODE_HSCEXIT :: u32 where "DSI_INST_MODE_HSCEXIT = 4"
definition DSI_INST_MODE_NOP :: u32 where "DSI_INST_MODE_NOP = 5"
definition DSI_INST_PACK_PIXEL :: u32 where "DSI_INST_PACK_PIXEL = 0"
definition DSI_INST_PACK_COMMAND :: u32 where "DSI_INST_PACK_COMMAND = 1"
definition DSI_INST_ESCA_LPDT :: u32 where "DSI_INST_ESCA_LPDT = 0"

lemmas inst_id_defs = DSI_INST_ID_LP11_def DSI_INST_ID_TBA_def DSI_INST_ID_HSC_def DSI_INST_ID_HSD_def
  DSI_INST_ID_LPDT_def DSI_INST_ID_HSCEXIT_def DSI_INST_ID_NOP_def DSI_INST_ID_DLY_def DSI_INST_ID_END_def
  DSI_INST_MODE_STOP_def DSI_INST_MODE_TBA_def DSI_INST_MODE_HS_def DSI_INST_MODE_ESCAPE_def
  DSI_INST_MODE_HSCEXIT_def DSI_INST_MODE_NOP_def DSI_INST_PACK_PIXEL_def
  DSI_INST_PACK_COMMAND_def DSI_INST_ESCA_LPDT_def

definition sun6i_dsi_inst_setup ::
    "nat \<Rightarrow> u32 \<Rightarrow> bool \<Rightarrow> u8 \<Rightarrow> u32 \<Rightarrow> u32 \<Rightarrow> history \<Rightarrow> history" where
  "sun6i_dsi_inst_setup n mode clock data packet escape t =
     dsi_write (SUN6I_DSI_INST_FUNC_REG (of_nat n))
       (fld 0xf 28 mode OR fld 0xf 24 escape OR fld 0xf 20 packet OR
        (if clock then 0x10 else 0) OR fld 0xf 0 (ucast data)) t"

definition sun6i_dsi_inst_init :: "history \<Rightarrow> history" where
  "sun6i_dsi_inst_init t =
     (let lanes_mask = 0xf;
          t = sun6i_dsi_inst_setup DSI_INST_ID_LP11 DSI_INST_MODE_STOP True lanes_mask 0 0 t;
          t = sun6i_dsi_inst_setup DSI_INST_ID_TBA DSI_INST_MODE_TBA False 1 0 0 t;
          t = sun6i_dsi_inst_setup DSI_INST_ID_HSC DSI_INST_MODE_HS True 0 DSI_INST_PACK_PIXEL 0 t;
          t = sun6i_dsi_inst_setup DSI_INST_ID_HSD DSI_INST_MODE_HS False lanes_mask DSI_INST_PACK_PIXEL 0 t;
          t = sun6i_dsi_inst_setup DSI_INST_ID_LPDT DSI_INST_MODE_ESCAPE False 1 DSI_INST_PACK_COMMAND
                DSI_INST_ESCA_LPDT t;
          t = sun6i_dsi_inst_setup DSI_INST_ID_HSCEXIT DSI_INST_MODE_HSCEXIT True 0 0 0 t;
          t = sun6i_dsi_inst_setup DSI_INST_ID_NOP DSI_INST_MODE_STOP False lanes_mask 0 0 t;
          t = sun6i_dsi_inst_setup DSI_INST_ID_DLY DSI_INST_MODE_NOP True lanes_mask 0 0 t
      in dsi_write (SUN6I_DSI_INST_JUMP_CFG_REG 0)
           (fld 0xf 16 (of_nat DSI_INST_ID_NOP) OR fld 0xf 20 (of_nat DSI_INST_ID_HSCEXIT) OR
            fld 0xffff 0 1) t)"

section \<open>Timing\<close>

definition sun6i_dsi_get_line_num :: u16 where
  "sun6i_dsi_get_line_num = ucast (PANEL_HTOTAL * (PANEL_DSI_BPP div 8) div PANEL_LANES)"

definition sun6i_dsi_get_drq_edge0 :: "u16 \<Rightarrow> u16 \<Rightarrow> u16" where
  "sun6i_dsi_get_drq_edge0 line_num edge1 =
     (let edge0 = edge1 + ucast ((PANEL_HDISPLAY + 40) * 6 div 8)
      in if edge0 > line_num then edge0 - line_num else 1)"

definition sun6i_dsi_get_drq_edge1 :: "u16 \<Rightarrow> u16" where
  "sun6i_dsi_get_drq_edge1 line_num =
     (let hbp = PANEL_HTOTAL - PANEL_HSYNC_END;
          edge1 = 40 + ucast ((PANEL_HDISPLAY + hbp + 20) * (PANEL_DSI_BPP div 8) div PANEL_LANES)
      in if edge1 > line_num then line_num else edge1)"

definition sun6i_dsi_setup_burst :: "history \<Rightarrow> history" where
  "sun6i_dsi_setup_burst t =
     (let (val, t) =
        (if PANEL_BURST then
           (let line_num = sun6i_dsi_get_line_num;
                edge1 = sun6i_dsi_get_drq_edge1 line_num;
                edge0 = sun6i_dsi_get_drq_edge0 line_num edge1;
                t = dsi_write 0x0f4 (fld 0xffff 0 (ucast edge0) OR fld 0xffff 16 (ucast edge1)) t;
                t = dsi_write 0x0f0 (fld 0xffff 0 (ucast line_num) OR fld 0xffff 16 40) t
            in (push_bit 28 1, t))
         else if PANEL_HSYNC_START - PANEL_HDISPLAY > 20 then
           (let drq = ucast (PANEL_HSYNC_START - PANEL_HDISPLAY - 20) :: u16;
                drq = drq * ucast PANEL_DSI_BPP;
                drq = drq div 32
            in (push_bit 28 1 OR fld 0x3ff 0 (ucast drq), t))
         else (0, t))
      in dsi_write 0x07c val t)"

definition sun6i_dsi_setup_inst_loop :: "history \<Rightarrow> history" where
  "sun6i_dsi_setup_inst_loop t =
     (let delay = (if PANEL_BURST then
              ucast ((PANEL_HTOTAL - PANEL_HDISPLAY) * 150 div ((PANEL_CLOCK div 1000) * 8)) - 50
            else 50 - 1 :: u16);
          t = dsi_write 0x040 (push_bit (4 * DSI_INST_ID_LP11) 2 OR push_bit (4 * DSI_INST_ID_DLY) 3) t;
          v = fld 0xfff 0 (50 - 1) OR fld 0xfff 16 (ucast delay);
          t = dsi_write (SUN6I_DSI_INST_LOOP_NUM_REG 0) v t
      in dsi_write (SUN6I_DSI_INST_LOOP_NUM_REG 1) v t)"

definition sun6i_dsi_setup_format :: "u32 \<Rightarrow> history \<Rightarrow> history" where
  "sun6i_dsi_setup_format channel t =
     (let val = fld 3 6 channel OR fld 0x3f 0 0x3e;
          wc = ucast (PANEL_HDISPLAY * PANEL_DSI_BPP div 8) :: u16;
          val = val OR fld 0xffff 8 (ucast wc);
          val = val OR fld 0xff 24 (sun6i_dsi_ecc_compute val);
          t = dsi_write 0x090 val t;
          t = dsi_write 0x098 (fld 0xffff 0 0xffff) t;
          t = dsi_write 0x09c (fld 0xffff 0 0xffff OR fld 0xffff 16 0xffff) t
      in dsi_write 0x080 (push_bit 16 1 OR fld 0xf 0 8) t)"

text \<open>The lengths of the blanking packets: \<open>hsa\<close>, \<open>hbp\<close>, \<open>hfp\<close>, \<open>hblk\<close>, \<open>vblk\<close> and \<open>basic_ctl\<close>.\<close>

definition dsi_blanking :: "u16 \<times> u16 \<times> u16 \<times> u16 \<times> u16 \<times> u32" where
  "dsi_blanking =
     (let Bpp = PANEL_DSI_BPP div 8
      in if PANEL_BURST then
           (0, 0, 0, ucast (PANEL_HDISPLAY * Bpp), 0,
            (push_bit 0 1 OR push_bit 1 1 OR push_bit 2 1) OR
            (if PANEL_LANES = 4 then push_bit 3 1 OR fld 0xf 4 0xc else 0))
         else
           (ucast (max 10 ((PANEL_HSYNC_END - PANEL_HSYNC_START) * Bpp - 10)),
            ucast (max 6 ((PANEL_HTOTAL - PANEL_HSYNC_END) * Bpp - 6)),
            ucast (max 16 ((PANEL_HSYNC_START - PANEL_HDISPLAY) * Bpp - 16)),
            ucast (max 10 ((PANEL_HTOTAL - (PANEL_HSYNC_END - PANEL_HSYNC_START)) * Bpp - 10)),
            0, 0))"

definition dsi_blank :: "u32 \<Rightarrow> u32 \<Rightarrow> u8 \<Rightarrow> u16 \<Rightarrow> history \<Rightarrow> history" where
  "dsi_blank reg0 reg1 channel n t =
     dsi_write reg1 (sun6i_dsi_build_blk1_pkt 0 (unat n))
       (dsi_write reg0 (sun6i_dsi_build_blk0_pkt channel n) t)"

definition sun6i_dsi_setup_timings :: "u8 \<Rightarrow> history \<Rightarrow> history" where
  "sun6i_dsi_setup_timings channel t =
     (let (hsa, hbp, hfp, hblk, vblk, basic_ctl) = dsi_blanking;
          t = dsi_write 0x00c basic_ctl t;
          t = dsi_write 0x0b0 (sun6i_dsi_build_sync_pkt 0x21 channel 0 0) t;
          t = dsi_write 0x0b4 (sun6i_dsi_build_sync_pkt 0x31 channel 0 0) t;
          t = dsi_write 0x0b8 (sun6i_dsi_build_sync_pkt 0x01 channel 0 0) t;
          t = dsi_write 0x0bc (sun6i_dsi_build_sync_pkt 0x11 channel 0 0) t;
          t = dsi_write 0x018 (fld 0xfff 0 (PANEL_VSYNC_END - PANEL_VSYNC_START) OR
                fld 0xfff 16 (PANEL_VTOTAL - PANEL_VSYNC_END)) t;
          t = dsi_write 0x01c (fld 0xfff 0 PANEL_VDISPLAY OR fld 0xfff 16 PANEL_VTOTAL) t;
          t = dsi_blank 0x0c0 0x0c4 channel hsa t;
          t = dsi_blank 0x0c8 0x0cc channel hbp t;
          t = dsi_blank 0x0d0 0x0d4 channel hfp t;
          t = dsi_blank 0x0e0 0x0e4 channel hblk t
      in dsi_blank 0x0e8 0x0ec channel vblk t)"

definition sun6i_dsi_get_video_start_delay :: u16 where
  "sun6i_dsi_get_video_start_delay =
     (let delay = ucast (PANEL_VTOTAL - (PANEL_VSYNC_START - PANEL_VDISPLAY) + 1) :: u16;
          delay = (if ucast delay > PANEL_VTOTAL then ucast (ucast delay mod PANEL_VTOTAL) else delay)
      in if delay < 1 then 1 else delay)"

section \<open>Running instructions\<close>

definition sun6i_dsi_inst_abort :: "device \<Rightarrow> history \<Rightarrow> history" where
  "sun6i_dsi_inst_abort d t = dsi_update_bits d SUN6I_DSI_BASIC_CTL0_REG 1 0 t"

definition sun6i_dsi_inst_commit :: "device \<Rightarrow> history \<Rightarrow> history" where
  "sun6i_dsi_inst_commit d t = dsi_update_bits d SUN6I_DSI_BASIC_CTL0_REG 1 1 t"

type_synonym clock = "history \<Rightarrow> u64"

partial_function (option) dsi_wait_loop :: "device \<Rightarrow> clock \<Rightarrow> u64 \<Rightarrow> history \<Rightarrow> (int \<times> history) option" where
  "dsi_wait_loop d clk end_ts t =
     (let (v, t) = dsi_read d SUN6I_DSI_BASIC_CTL0_REG t
      in if v AND 1 = 0 then Some (0, t)
         else if end_ts < clk t then Some (- 1, t)
         else dsi_wait_loop d clk end_ts t)"

definition sun6i_dsi_inst_wait_for_completion :: "device \<Rightarrow> clock \<Rightarrow> history \<Rightarrow> (int \<times> history) option" where
  "sun6i_dsi_inst_wait_for_completion d clk t = dsi_wait_loop d clk (clk t + 5000) t"

datatype start_inst = LPRX | LPTX | HSC | HSD

text \<open>\<open>from << (4 * to)\<close>, in the jump selection register.\<close>

definition jump :: "nat \<Rightarrow> nat \<Rightarrow> u32" where
  "jump to at = push_bit (4 * at) (of_nat to)"

fun dsi_jumps :: "start_inst \<Rightarrow> u32" where
  "dsi_jumps LPTX = jump DSI_INST_ID_LPDT DSI_INST_ID_LP11 OR jump DSI_INST_ID_END DSI_INST_ID_LPDT"
| "dsi_jumps LPRX = jump DSI_INST_ID_LPDT DSI_INST_ID_LP11 OR jump DSI_INST_ID_DLY DSI_INST_ID_LPDT OR
     jump DSI_INST_ID_TBA DSI_INST_ID_DLY OR jump DSI_INST_ID_END DSI_INST_ID_TBA"
| "dsi_jumps HSC = jump DSI_INST_ID_HSC DSI_INST_ID_LP11 OR jump DSI_INST_ID_END DSI_INST_ID_HSC"
| "dsi_jumps HSD = jump DSI_INST_ID_NOP DSI_INST_ID_LP11 OR jump DSI_INST_ID_HSD DSI_INST_ID_NOP OR
     jump DSI_INST_ID_DLY DSI_INST_ID_HSD OR jump DSI_INST_ID_NOP DSI_INST_ID_DLY OR
     jump DSI_INST_ID_END DSI_INST_ID_HSCEXIT"

definition sun6i_dsi_start :: "device \<Rightarrow> start_inst \<Rightarrow> history \<Rightarrow> history" where
  "sun6i_dsi_start d func t =
     (let t = dsi_write SUN6I_DSI_INST_JUMP_SEL_REG (dsi_jumps func) t;
          t = sun6i_dsi_inst_commit d t
      in if func = HSC then
           dsi_update_bits d (SUN6I_DSI_INST_FUNC_REG (of_nat DSI_INST_ID_LP11)) 0x10 0 t
         else t)"

section \<open>Commands for the panel\<close>

text \<open>\<open>RX_OVERFLOW | RX_FLAG | TX_FLAG\<close>.\<close>

definition dsi_cmd_flags :: u32 where
  "dsi_cmd_flags = push_bit 26 1 OR push_bit 25 1 OR push_bit 9 1"

text \<open>\<open>bounce\<close>: the parameters, their CRC, and the zeros that \<open>zalloc\<close> left behind them.\<close>

definition dcs_bounce :: "u8 list \<Rightarrow> u8 list" where
  "dcs_bounce data =
     (let crc = sun6i_dsi_crc_compute data
      in data @ [ucast crc, ucast (drop_bit 8 crc)] @ replicate 4 0)"

definition mipi_dsi_dcs_write :: "device \<Rightarrow> clock \<Rightarrow> u8 list \<Rightarrow> history \<Rightarrow> (int \<times> history) option" where
  "mipi_dsi_dcs_write d clk data t =
     (let len = length data;
          t = dsi_write SUN6I_DSI_CMD_CTL_REG dsi_cmd_flags t
      in if len = 0 then Some (- 1, t)
         else
           (let t = (if len \<le> 2 then
                (let t = dsi_write (SUN6I_DSI_CMD_TX_REG 0)
                       (sun6i_dsi_dcs_build_pkt_hdr (if len = 1 then 0x05 else 0x15) data len) t
                 in dsi_write SUN6I_DSI_CMD_CTL_REG (4 - 1) t)
              else
                (let t = dsi_write (SUN6I_DSI_CMD_TX_REG 0)
                       (sun6i_dsi_dcs_build_pkt_hdr MIPI_DSI_DCS_LONG_WRITE data len) t;
                     bounce = dcs_bounce data; bounce_len = len + 2;
                     t = fold (\<lambda>i t. dsi_write (SUN6I_DSI_CMD_TX_REG (1 + of_nat i))
                            (le32_of (drop (4 * i) bounce)) t) [0..<(bounce_len + 3) div 4] t
                 in dsi_write SUN6I_DSI_CMD_CTL_REG (of_nat (bounce_len + 4 - 1)) t));
                t = sun6i_dsi_start d LPTX t
            in do {
              (ret, t) \<leftarrow> sun6i_dsi_inst_wait_for_completion d clk t;
              if ret < 0 then Some (ret, sun6i_dsi_inst_abort d t) else Some (0, t)
            }))"

fun panel_init_loop :: "device \<Rightarrow> clock \<Rightarrow> dcs_seq list \<Rightarrow> history \<Rightarrow> history option" where
  "panel_init_loop d clk [] t = Some t"
| "panel_init_loop d clk (Sleep len # ss) t = panel_init_loop d clk ss (udelay (len * 1000) t)"
| "panel_init_loop d clk (Dcs data # ss) t = do {
     (ret, t) \<leftarrow> mipi_dsi_dcs_write d clk data t;
     if ret < 0 then Some t else panel_init_loop d clk ss t
   }"

definition panel_init :: "device \<Rightarrow> clock \<Rightarrow> history \<Rightarrow> history option" where
  "panel_init d clk t = panel_init_loop d clk panel_dcs_seq_initlist t"

section \<open>The D-PHY and the board\<close>

abbreviation DPHY_BASE :: addr where "DPHY_BASE \<equiv> 0x01ca1000"

definition dphy_write :: "u32 \<Rightarrow> u32 \<Rightarrow> history \<Rightarrow> history" where
  "dphy_write reg val t = writel val (DPHY_BASE + reg) t"

definition dphy_update_bits :: "device \<Rightarrow> u32 \<Rightarrow> u32 \<Rightarrow> u32 \<Rightarrow> history \<Rightarrow> history" where
  "dphy_update_bits d reg msk val t =
     (let (tmp, t) = readl d (DPHY_BASE + reg) t; tmp = tmp AND NOT msk
      in writel (tmp OR val) (DPHY_BASE + reg) t)"

definition dphy_enable :: "device \<Rightarrow> history \<Rightarrow> history" where
  "dphy_enable d t =
     (let lanes_mask = 0xf;
          t = writel (push_bit 15 1 OR push_bit 8 2 OR (4 - 1)) 0x01c20168 t;
          t = dphy_write 0x04 (push_bit 28 1) t;
          t = dphy_write 0x10 (fld 0xff 0 14 OR fld 0xff 16 6 OR fld 0xff 24 10) t;
          t = dphy_write 0x14 (fld 0xff 0 7 OR fld 0xff 8 50 OR fld 0xff 16 3 OR fld 0xff 24 10) t;
          t = dphy_write 0x18 (fld 0xff 0 30) t;
          t = dphy_write 0x1c 0 t;
          t = dphy_write 0x20 (fld 0xff 0 3 OR fld 0xff 8 3) t;
          t = dphy_write 0x00 (fld 3 4 (PANEL_LANES - 1) OR 1) t;
          t = dphy_write 0x4c (push_bit 31 1 OR push_bit 28 1 OR fld 7 12 7 OR fld 0xf 24 lanes_mask OR
                fld 0xf 8 lanes_mask) t;
          t = dphy_write 0x50 (fld 3 28 1 OR fld 0xf 24 7) t;
          t = dphy_write 0x5c (fld 0x1f 12 1 OR fld 3 10 1 OR fld 3 8 1 OR fld 3 6 1 OR fld 3 4 1 OR
                fld 3 2 1 OR fld 3 0 1 OR push_bit 24 1 OR fld 0xf 20 lanes_mask) t;
          t = dphy_write 0x54 (push_bit 1 1) t;
          t = udelay 5 t;
          t = dphy_write 0x58 (push_bit 18 1 OR push_bit 25 1 OR push_bit 24 1) t;
          t = udelay 1 t;
          t = dphy_update_bits d 0x58 (push_bit 27 1 OR 0xf0000000) (push_bit 27 1 OR fld 0xf 28 lanes_mask) t;
          t = udelay 1 t;
          t = dphy_update_bits d 0x58 (push_bit 26 1) (push_bit 26 1) t;
          t = udelay 1 t;
          t = dphy_update_bits d 0x54 (push_bit 4 1) (push_bit 4 1) t;
          t = udelay 1 t;
          t = dphy_update_bits d 0x50 (push_bit 31 1) (push_bit 31 1) t
      in dphy_update_bits d 0x54 0x0f000000 (fld 0xf 24 lanes_mask) t)"

text \<open>\<open>pmic_setbits\<close> of \<open>pmic.h\<close>; the results of the accesses are not looked at.\<close>

definition display_board_init :: "device \<Rightarrow> history \<Rightarrow> history" where
  "display_board_init d t =
     (let t = gpio_direction_output d (SUNXI_GPD 23) 0 t;
          t = snd (pmic_write d 0x15 0x1a t);
          t = snd (pmic_clrsetbits d 0x12 0 (push_bit 3 1) t);
          t = snd (pmic_write d 0x91 0x1a t);
          t = snd (pmic_write d 0x90 0x03 t);
          t = snd (pmic_write d 0x16 0x0b t);
          t = snd (pmic_clrsetbits d 0x12 0 (push_bit 4 1) t)
      in udelay 15000 t)"

section \<open>The long and the short initialisation\<close>

text \<open>From enabling the controller to the end of the timing setup.\<close>

definition dsi_setup :: "history \<Rightarrow> history" where
  "dsi_setup t =
     (let t = dsi_write 0x000 1 t;
          t = dsi_write SUN6I_DSI_BASIC_CTL0_REG (push_bit 16 1 OR push_bit 17 1) t;
          t = dsi_write 0x060 10 t;
          t = dsi_write 0x078 0 t;
          t = sun6i_dsi_inst_init t;
          t = dsi_write 0x2f8 0xff t;
          t = dsi_write 0x014 (fld 0x1fff 4 (ucast sun6i_dsi_get_video_start_delay) OR
                push_bit 2 1 OR push_bit 1 1 OR push_bit 0 1) t;
          t = sun6i_dsi_setup_burst t;
          t = sun6i_dsi_setup_inst_loop t;
          t = sun6i_dsi_setup_format 0 t
      in sun6i_dsi_setup_timings 0 t)"

definition dsi_bus_enable :: "device \<Rightarrow> history \<Rightarrow> history" where
  "dsi_bus_enable d t = setbits d 0x01c202c0 (push_bit 1 1) (setbits d 0x01c20060 (push_bit 1 1) t)"

definition dsi_init :: "device \<Rightarrow> clock \<Rightarrow> history \<Rightarrow> history option" where
  "dsi_init d clk t =
     (let t = display_board_init d t;
          t = dsi_bus_enable d t;
          t = dsi_setup t;
          t = dphy_enable d t;
          t = gpio_direction_output d (SUNXI_GPD 23) 1 t;
          t = udelay 15000 t
      in do {
        t \<leftarrow> panel_init d clk t;
        let t = sun6i_dsi_start d HSC t;
        let t = udelay 1000 t;
        Some (sun6i_dsi_start d HSD t)
      })"

text \<open>\<open>struct reg_inst\<close>: a register and a value, or one of two markers.\<close>

type_synonym reg_inst = "u16 \<times> u32"

abbreviation MAGIC_COMMIT :: u16 where "MAGIC_COMMIT \<equiv> 0xffff"
abbreviation MAGIC_SLEEP :: u16 where "MAGIC_SLEEP \<equiv> 0xfffe"

definition dsi_init_seq :: "reg_inst list" where
  "dsi_init_seq =
    [(0x0000, 0x00000001), (0x0010, 0x00030000), (0x0060, 0x0000000a), (0x0078, 0x00000000),
     (0x0020, 0x0000001f), (0x0024, 0x10000001), (0x0028, 0x20000010), (0x002c, 0x2000000f),
     (0x0030, 0x30100001), (0x0034, 0x40000010), (0x0038, 0x0000000f), (0x003c, 0x5000001f),
     (0x004c, 0x00560001), (0x02f8, 0x000000ff), (0x0014, 0x00005bc7), (0x007c, 0x10000007),
     (0x0040, 0x30000002), (0x0044, 0x00310031), (0x0054, 0x00310031), (0x0090, 0x1308703e),
     (0x0098, 0x0000ffff), (0x009c, 0xffffffff), (0x0080, 0x00010008), (0x000c, 0x00000000),
     (0x00b0, 0x12000021), (0x00b4, 0x01000031), (0x00b8, 0x07000001), (0x00bc, 0x14000011),
     (0x0018, 0x0011000a), (0x001c, 0x05cd05a0), (0x00c0, 0x09004a19), (0x00c4, 0x50b40000),
     (0x00c8, 0x35005419), (0x00cc, 0x757a0000), (0x00d0, 0x09004a19), (0x00d4, 0x50b40000),
     (0x00e0, 0x0c091a19), (0x00e4, 0x72bd0000), (0x00e8, 0x1a000019), (0x00ec, 0xffff0000)]"

definition dsi_panel_init_seq :: "reg_inst list" where
  "dsi_panel_init_seq =
    [(0x0300, 0x2c000439), (0x0304, 0x8312f1b9), (0x0308, 0x00005d84), (0x0200, 0x00000009),
     (0xffff, 0), (0x0300, 0x2f001c39), (0x0304, 0x058133ba), (0x0308, 0x200e0ef9),
     (0x030c, 0x00000000), (0x0310, 0x44000000), (0x0314, 0x0a910025), (0x0318, 0x4f020000),
     (0x031c, 0x37000011), (0x0320, 0x0000e22c), (0x0200, 0x00000021), (0xffff, 0),
     (0x0300, 0x36000539), (0x0304, 0x202225b8), (0x0308, 0x00720303), (0x0200, 0x0000000a),
     (0xffff, 0), (0x0300, 0x2c000b39), (0x0304, 0x051010b3), (0x0308, 0x00ff0305),
     (0x030c, 0x6f000000), (0x0310, 0x000000bc), (0x0200, 0x00000010), (0xffff, 0),
     (0x0300, 0x36000a39), (0x0304, 0x507373c0), (0x0308, 0x08c00050), (0x030c, 0x6a1b0070),
     (0x0200, 0x0000000f), (0xffff, 0), (0x0300, 0x354ebc15), (0x0200, 0x00000003),
     (0xffff, 0), (0x0300, 0x220bcc15), (0x0200, 0x00000003), (0xffff, 0),
     (0x0300, 0x2280b415), (0x0200, 0x00000003), (0xffff, 0), (0x0300, 0x2c000439),
     (0x0304, 0xf012f0b2), (0x0308, 0x00008651), (0x0200, 0x00000009), (0xffff, 0),
     (0x0300, 0x0f000f39), (0x0304, 0x0b0000e3), (0x0308, 0x0010100b), (0x030c, 0xff000000),
     (0x0310, 0x3610c000), (0x0314, 0x0000000f), (0x0200, 0x00000014), (0xffff, 0),
     (0x0300, 0x30000639), (0x0304, 0xff0001c6), (0x0308, 0x258e00ff), (0x0200, 0x0000000b),
     (0xffff, 0), (0x0300, 0x13000d39), (0x0304, 0x320074c1), (0x0308, 0xfff17732),
     (0x030c, 0x77ccccff), (0x0310, 0x00e46977), (0x0200, 0x00000012), (0xffff, 0),
     (0x0300, 0x09000339), (0x0304, 0x7b0707b5), (0x0308, 0x000000b3), (0x0200, 0x00000008),
     (0xffff, 0), (0x0300, 0x09000339), (0x0304, 0x552c2cb6), (0x0308, 0x00000004),
     (0x0200, 0x00000008), (0xffff, 0), (0x0300, 0x2c000439), (0x0304, 0x001102bf),
     (0x0308, 0x0000e9b5), (0x0200, 0x00000009), (0xffff, 0), (0x0300, 0x25004039),
     (0x0304, 0x061082e9), (0x0308, 0xa50aa205), (0x030c, 0x37233112), (0x0310, 0x27bc0483),
     (0x0314, 0x03000c38), (0x0318, 0x0c000000), (0x031c, 0x00000300), (0x0320, 0x31757500),
     (0x0324, 0x88888888), (0x0328, 0x88138888), (0x032c, 0x88206464), (0x0330, 0x88888888),
     (0x0334, 0x00880288), (0x0338, 0x00000000), (0x033c, 0x00000000), (0x0340, 0x00000000),
     (0x0344, 0x00000365), (0x0200, 0x00000045), (0xffff, 0), (0x0300, 0x1a003e39),
     (0x0304, 0x002102ea), (0x0308, 0x00000000), (0x030c, 0x00000000), (0x0310, 0x02460200),
     (0x0314, 0x88888888), (0x0318, 0x88648888), (0x031c, 0x88135713), (0x0320, 0x88888888),
     (0x0324, 0x23887588), (0x0328, 0x02000014), (0x032c, 0x00000000), (0x0330, 0x00000000),
     (0x0334, 0x00000000), (0x0338, 0x03000000), (0x033c, 0x0000a50a), (0x0340, 0x1b240000),
     (0x0200, 0x00000043), (0xffff, 0), (0x0300, 0x20002339), (0x0304, 0x0d0900e0),
     (0x0308, 0x413c2723), (0x030c, 0x0e0d0735), (0x0310, 0x12101312), (0x0314, 0x09001812),
     (0x0318, 0x3c27230d), (0x031c, 0x0d073541), (0x0320, 0x1013120e), (0x0324, 0x93181212),
     (0x0328, 0x000000bf), (0x0200, 0x00000028), (0xffff, 0), (0x0300, 0x36001105),
     (0x0200, 0x00000003), (0xffff, 0), (0xfffe, 120000), (0x0300, 0x1c002905),
     (0x0200, 0x00000003), (0xffff, 0)]"

fun dsi_run_insts :: "device \<Rightarrow> clock \<Rightarrow> reg_inst list \<Rightarrow> history \<Rightarrow> (int \<times> history) option" where
  "dsi_run_insts d clk [] t = Some (0, t)"
| "dsi_run_insts d clk ((inst, val) # is) t =
     (if inst = MAGIC_SLEEP then dsi_run_insts d clk is (udelay (unat val) t)
      else if inst = MAGIC_COMMIT then
        (let t = sun6i_dsi_start d LPTX t
         in do {
           (ret, t) \<leftarrow> sun6i_dsi_inst_wait_for_completion d clk t;
           if ret < 0 then Some (- 1, sun6i_dsi_inst_abort d t)
           else dsi_run_insts d clk is (dsi_write SUN6I_DSI_CMD_CTL_REG dsi_cmd_flags t)
         })
      else dsi_run_insts d clk is (dsi_write (ucast inst) val t))"

definition dsi_run_init_seq :: "device \<Rightarrow> clock \<Rightarrow> reg_inst list \<Rightarrow> history \<Rightarrow> (int \<times> history) option" where
  "dsi_run_init_seq d clk insts t =
     dsi_run_insts d clk insts (dsi_write SUN6I_DSI_CMD_CTL_REG dsi_cmd_flags t)"

definition dsi_init_fast :: "device \<Rightarrow> clock \<Rightarrow> history \<Rightarrow> history option" where
  "dsi_init_fast d clk t =
     (let t = dsi_bus_enable d t
      in do {
        (_, t) \<leftarrow> dsi_run_init_seq d clk dsi_init_seq t;
        let t = display_board_init d t;
        let t = dphy_enable d t;
        let t = gpio_direction_output d (SUNXI_GPD 23) 1 t;
        let t = udelay 15000 t;
        (_, t) \<leftarrow> dsi_run_init_seq d clk dsi_panel_init_seq t;
        let t = sun6i_dsi_start d HSC t;
        let t = udelay 1000 t;
        Some (sun6i_dsi_start d HSD t)
      })"

end
