(* ===== verification/Dsi_Tables.thy ===== *)
theory Dsi_Tables
  imports Dsi
begin

text \<open>
  The precomputed tables of \<open>dsi_init_fast\<close> against the code that computes them in \<open>dsi_init\<close>:
  every entry is recomputed here, with its ECC and CRC, and the two variants are shown to send
  the same to the panel.
\<close>

section \<open>Evaluating the codes\<close>

lemma ecc_array_value:
  "sun6i_dsi_ecc_array = [0xf12cb7, 0xf2555b, 0x749a6d, 0xb8e38e, 0xdf03f0, 0xeffc00]"
  by (simp add: sun6i_dsi_ecc_array_def bits_of_def)

lemmas ecc_eval = sun6i_dsi_ecc_compute_def ecc_array_value upt_24 upt_6

text \<open>The table of the CRC as rewrite rules, one for each entry.\<close>

lemma lookup_all: "list_all (\<lambda>(i, v). xs ! i = v) (enumerate 0 xs)"
  by (auto simp: list_all_iff in_set_enumerate_eq)

lemmas crc_lookup = lookup_all [of crc_ccitt_table,
  unfolded crc_ccitt_table_def [THEN arg_cong, of "enumerate 0"],
  simplified enumerate_simps list.pred_inject prod.case One_nat_def [symmetric] Suc_1
    numeral_plus_one Suc_numeral add_One Num.inc.simps simp_thms]

lemma crc_lookup_1: "crc_ccitt_table ! Suc 0 = 0x1189"
  by (simp add: crc_ccitt_table_def)

lemmas crc_eval = crc_ccitt_byte_def crc_lookup crc_lookup_1

text \<open>A run of zeros, cut into pieces that are evaluated one by one.\<close>

fun zeros :: "nat \<Rightarrow> u16 \<Rightarrow> u16" where
  "zeros 0 c = c"
| "zeros (Suc n) c = zeros n (crc_ccitt_byte c 0)"

lemma zeros_numeral: "zeros (numeral k) c = zeros (pred_numeral k) (crc_ccitt_byte c 0)"
  by (simp add: numeral_eq_Suc)

lemma crc_zeros: "sun6i_dsi_crc_repeat 0 n = zeros n 0xffff"
proof -
  have "crc_ccitt c (replicate n 0) = zeros n c" for c
    by (induction n arbitrary: c) simp_all
  then show ?thesis
    by (simp add: sun6i_dsi_crc_repeat_def sun6i_dsi_crc_compute_def)
qed

lemma zeros_add: "zeros (m + n) c = zeros n (zeros m c)"
  by (induction m arbitrary: c) simp_all

lemma zeros_74: "zeros 74 0xffff = 0x50b4" by (simp add: zeros_numeral crc_eval)
lemma zeros_84: "zeros 84 0xffff = 0x757a"
proof -
  have "zeros 84 0xffff = zeros 10 (zeros 74 0xffff)"
    using zeros_add [of 74 10] by simp
  then show ?thesis
    unfolding zeros_74 by (simp add: zeros_numeral crc_eval)
qed
lemma zeros_250: "zeros 250 0xffff = 0x5ec1" by (simp add: zeros_numeral crc_eval)
lemma zeros_500: "zeros 250 0x5ec1 = 0x1b18" by (simp add: zeros_numeral crc_eval)
lemma zeros_750: "zeros 250 0x1b18 = 0x32f7" by (simp add: zeros_numeral crc_eval)
lemma zeros_1000: "zeros 250 0x32f7 = 0xc5a0" by (simp add: zeros_numeral crc_eval)
lemma zeros_1250: "zeros 250 0xc5a0 = 0x1244" by (simp add: zeros_numeral crc_eval)
lemma zeros_1500: "zeros 250 0x1244 = 0xc48a" by (simp add: zeros_numeral crc_eval)
lemma zeros_1750: "zeros 250 0xc48a = 0xec76" by (simp add: zeros_numeral crc_eval)
lemma zeros_2000: "zeros 250 0xec76 = 0xb0c2" by (simp add: zeros_numeral crc_eval)
lemma zeros_2250: "zeros 250 0xb0c2 = 0x754a" by (simp add: zeros_numeral crc_eval)
lemma zeros_80: "zeros 80 0x754a = 0x72bd" by (simp add: zeros_numeral crc_eval)

lemma zeros_2330: "zeros 2330 0xffff = 0x72bd"
proof -
  have "(2330 :: nat) = 250 + (250 + (250 + (250 + (250 + (250 + (250 + (250 + (250 + 80))))))))"
    by simp
  then show ?thesis
    by (simp only: zeros_add zeros_250 zeros_500 zeros_750 zeros_1000 zeros_1250 zeros_1500
        zeros_1750 zeros_2000 zeros_2250 zeros_80)
qed

section \<open>The controller's setup\<close>

definition write_table :: "reg_inst list \<Rightarrow> history \<Rightarrow> history" where
  "write_table rs t = fold (\<lambda>(r, v) t. dsi_write (ucast r) v t) rs t"

lemma blanking_values: "dsi_blanking = (74, 84, 74, 2330, 0, 0)"
  by (simp add: dsi_blanking_def panel_defs)

lemma blk0_values:
  "sun6i_dsi_build_blk0_pkt 0 74 = 0x09004a19" "sun6i_dsi_build_blk0_pkt 0 84 = 0x35005419"
  "sun6i_dsi_build_blk0_pkt 0 2330 = 0x0c091a19" "sun6i_dsi_build_blk0_pkt 0 0 = 0x1a000019"
  by (simp_all add: sun6i_dsi_build_blk0_pkt_def sun6i_dsi_build_sync_pkt_def
      MIPI_DSI_BLANKING_PACKET_def ecc_eval)

lemma blk1_values:
  "sun6i_dsi_build_blk1_pkt 0 74 = 0x50b40000" "sun6i_dsi_build_blk1_pkt 0 84 = 0x757a0000"
  "sun6i_dsi_build_blk1_pkt 0 2330 = 0x72bd0000" "sun6i_dsi_build_blk1_pkt 0 0 = 0xffff0000"
  by (simp_all add: sun6i_dsi_build_blk1_pkt_def crc_zeros zeros_74 zeros_84 zeros_2330)

lemma sync_values:
  "sun6i_dsi_build_sync_pkt 0x21 0 0 0 = 0x12000021" "sun6i_dsi_build_sync_pkt 0x31 0 0 0 = 0x01000031"
  "sun6i_dsi_build_sync_pkt 0x01 0 0 0 = 0x07000001" "sun6i_dsi_build_sync_pkt 0x11 0 0 0 = 0x14000011"
  by (simp_all add: sun6i_dsi_build_sync_pkt_def ecc_eval)

lemma timings_events:
  "sun6i_dsi_setup_timings 0 t = write_table (drop 23 dsi_init_seq) t"
  by (simp add: sun6i_dsi_setup_timings_def blanking_values sync_values dsi_blank_def blk0_values
      blk1_values dsi_init_seq_def write_table_def panel_defs fld_def)

lemma format_events:
  "sun6i_dsi_setup_format 0 t = write_table (take 4 (drop 19 dsi_init_seq)) t"
  by (simp add: sun6i_dsi_setup_format_def dsi_init_seq_def write_table_def panel_defs fld_def
      Let_def ecc_eval)

lemma inst_events:
  "sun6i_dsi_inst_init t = write_table (take 9 (drop 4 dsi_init_seq)) t"
  by (simp add: sun6i_dsi_inst_init_def sun6i_dsi_inst_setup_def inst_id_defs dsi_init_seq_def
      write_table_def fld_def SUN6I_DSI_INST_FUNC_REG_def SUN6I_DSI_INST_JUMP_CFG_REG_def Let_def)

lemma burst_events:
  "sun6i_dsi_setup_inst_loop (sun6i_dsi_setup_burst
     (dsi_write 0x014 (fld 0x1fff 4 (ucast sun6i_dsi_get_video_start_delay) OR
        push_bit 2 1 OR push_bit 1 1 OR push_bit 0 1) (dsi_write 0x2f8 0xff t))) =
    write_table (take 6 (drop 13 dsi_init_seq)) t"
  by (simp add: sun6i_dsi_setup_inst_loop_def sun6i_dsi_setup_burst_def fld_def panel_defs
      sun6i_dsi_get_video_start_delay_def inst_id_defs SUN6I_DSI_INST_LOOP_NUM_REG_def
      dsi_init_seq_def write_table_def Let_def)

lemma write_table_append: "write_table (xs @ ys) t = write_table ys (write_table xs t)"
  by (simp add: write_table_def)

text \<open>
  C30: the table \<open>dsi_init_seq\<close> is what the long initialisation computes: writing its forty
  entries leaves the same history as the setup code, with its timings, ECCs and CRCs (one of
  them over 2330 zero bytes).
\<close>

theorem dsi_init_seq_computed: "dsi_setup t = write_table dsi_init_seq t"
proof -
  let ?r = dsi_init_seq
  have "?r = take 4 ?r @ take 9 (drop 4 ?r) @ take 6 (drop 13 ?r) @ take 4 (drop 19 ?r) @ drop 23 ?r"
    by (simp add: dsi_init_seq_def)
  then have "write_table ?r t = write_table (drop 23 ?r) (write_table (take 4 (drop 19 ?r))
      (write_table (take 6 (drop 13 ?r)) (write_table (take 9 (drop 4 ?r)) (write_table (take 4 ?r) t))))"
    by (metis write_table_append)
  then show ?thesis
    unfolding dsi_setup_def Let_def timings_events format_events inst_events burst_events
    by (simp add: dsi_init_seq_def write_table_def)
qed

section \<open>The panel's commands\<close>

text \<open>What the table should hold for a step of the panel's sequence.\<close>

fun words4 :: "u8 list \<Rightarrow> u32 list" where
  "words4 (a # b # c # d # r) = le32_of [a, b, c, d] # words4 r"
| "words4 _ = []"

definition dcs_words :: "u8 list \<Rightarrow> u32 list" where
  "dcs_words data = take ((length data + 5) div 4) (words4 (dcs_bounce data))"

definition dcs_payload :: "u8 list \<Rightarrow> reg_inst list" where
  "dcs_payload data =
     (let len = length data
      in if len \<le> 2 then
           [(0x300, sun6i_dsi_dcs_build_pkt_hdr (if len = 1 then 0x05 else 0x15) data len), (0x200, 3)]
         else (0x300, sun6i_dsi_dcs_build_pkt_hdr MIPI_DSI_DCS_LONG_WRITE data len) #
           map (\<lambda>(i, w). (0x304 + 4 * of_nat i, w)) (enumerate 0 (dcs_words data)) @
           [(0x200, of_nat (len + 5))])"

fun dcs_insts :: "dcs_seq \<Rightarrow> reg_inst list" where
  "dcs_insts (Sleep len) = [(MAGIC_SLEEP, of_nat (len * 1000))]"
| "dcs_insts (Dcs data) = dcs_payload data @ [(MAGIC_COMMIT, 0)]"

lemma replicate_4: "replicate 4 (0 :: u8) = [0, 0, 0, 0]"
  by (simp add: numeral_eq_Suc)

lemmas dcs_eval = dcs_payload_def dcs_words_def dcs_bounce_def replicate_4 Let_def
  sun6i_dsi_crc_compute_def crc_eval sun6i_dsi_dcs_build_pkt_hdr_def ecc_eval MIPI_DSI_DCS_LONG_WRITE_def

text \<open>The sequence in five parts, to keep the evaluations small.\<close>

lemma panel_part_1: "concat (map dcs_insts (take 9 (drop 0 panel_dcs_seq_initlist))) =
    take 48 (drop 0 dsi_panel_init_seq)"
  by (simp add: panel_dcs_seq_initlist_def dsi_panel_init_seq_def dcs_eval)

lemma panel_part_2: "concat (map dcs_insts (take 6 (drop 9 panel_dcs_seq_initlist))) =
    take 35 (drop 48 dsi_panel_init_seq)"
  by (simp add: panel_dcs_seq_initlist_def dsi_panel_init_seq_def dcs_eval)

lemma panel_part_3: "concat (map dcs_insts (take 1 (drop 15 panel_dcs_seq_initlist))) =
    take 20 (drop 83 dsi_panel_init_seq)"
  by (simp add: panel_dcs_seq_initlist_def dsi_panel_init_seq_def dcs_eval)

lemma panel_part_4: "concat (map dcs_insts (take 1 (drop 16 panel_dcs_seq_initlist))) =
    take 19 (drop 103 dsi_panel_init_seq)"
  by (simp add: panel_dcs_seq_initlist_def dsi_panel_init_seq_def dcs_eval)

lemma panel_part_5: "concat (map dcs_insts (take 4 (drop 17 panel_dcs_seq_initlist))) =
    take 20 (drop 122 dsi_panel_init_seq)"
  by (simp add: panel_dcs_seq_initlist_def dsi_panel_init_seq_def dcs_eval)

lemma panel_table: "dsi_panel_init_seq = concat (map dcs_insts panel_dcs_seq_initlist)"
proof -
  let ?p = panel_dcs_seq_initlist and ?t = dsi_panel_init_seq
  have "?p = take 9 (drop 0 ?p) @ take 6 (drop 9 ?p) @ take 1 (drop 15 ?p) @ take 1 (drop 16 ?p) @ take 4 (drop 17 ?p)"
    by (simp add: panel_dcs_seq_initlist_def)
  then have "concat (map dcs_insts ?p) = take 48 (drop 0 ?t) @ take 35 (drop 48 ?t) @ take 20 (drop 83 ?t) @ take 19 (drop 103 ?t) @ take 20 (drop 122 ?t)"
    by (metis concat_append map_append panel_part_1 panel_part_2 panel_part_3 panel_part_4 panel_part_5)
  then show ?thesis
    by (simp add: dsi_panel_init_seq_def)
qed

text \<open>
  The table \<open>dsi_panel_init_seq\<close> is the panel's command sequence as the long variant packs
  it: packet headers with ECC, the parameters with their CRC cut into words, the length, and a
  commit for each command, the pause between them.
\<close>

theorem dsi_panel_init_seq_computed:
  "dsi_panel_init_seq = concat (map dcs_insts panel_dcs_seq_initlist)"
  by (rule panel_table)

lemma le32_of_drop: "xs \<noteq> [] \<Longrightarrow> le32_of (take 4 xs) = le32_of xs"
  by (cases xs rule: words4.cases) simp_all

lemma drop_four: "drop (4 + n) (a # b # c # d # r) = drop n r"
  by (simp add: eval_nat_numeral)

lemma words4_eq: "map (\<lambda>i. le32_of (drop (4 * i) xs)) [0..<length xs div 4] = words4 xs"
proof (induction xs rule: words4.induct)
  case (1 a b c d r)
  have "(4 + length r) div 4 = Suc (length r div 4)" by simp
  then have "[0..<length (a # b # c # d # r) div 4] = 0 # map Suc [0..<length r div 4]"
    by (simp only: list.size add.assoc) (simp add: upt_conv_Cons map_Suc_upt del: upt.simps)
  then show ?case
    using 1 by (simp add: comp_def drop_four del: upt.simps)
qed simp_all

lemma length_words4: "length (words4 xs) = length xs div 4"
  by (induction xs rule: words4.induct) simp_all

lemma dcs_words_eq:
  "dcs_words data = map (\<lambda>i. le32_of (drop (4 * i) (dcs_bounce data))) [0..<(length data + 5) div 4]"
proof -
  have "length (dcs_bounce data) = length data + 6"
    by (simp add: dcs_bounce_def Let_def)
  moreover have "(length data + 5) div 4 \<le> (length data + 6) div 4"
    by (rule div_le_mono) simp
  ultimately show ?thesis
    unfolding dcs_words_def words4_eq [symmetric] by (simp add: take_map)
qed

text \<open>Plain writes of the table, and the events of a start with its wait.\<close>

definition plain :: "reg_inst list \<Rightarrow> bool" where
  "plain ws \<longleftrightarrow> (\<forall>(r, v) \<in> set ws. r < MAGIC_SLEEP)"

definition wr_events :: "reg_inst list \<Rightarrow> history" where
  "wr_events ws = rev (map (\<lambda>(r, v). Wr (DSI_BASE + ucast r) v) ws)"

lemma run_plain: "plain ws \<Longrightarrow> dsi_run_insts d clk (ws @ is) t = dsi_run_insts d clk is (wr_events ws @ t)"
  by (induction ws arbitrary: t)
    (auto simp: plain_def wr_events_def dsi_write_def writel_def)

definition flags_ev :: event where
  "flags_ev = Wr 0x01ca0200 dsi_cmd_flags"

definition sent_events :: "u32 \<Rightarrow> u8 list \<Rightarrow> history" where
  "sent_events v data = [Rd 0x01ca0010 v, Wr 0x01ca0010 (v OR 1), Rd 0x01ca0010 v,
     Wr 0x01ca0048 (dsi_jumps LPTX)] @ wr_events (dcs_payload data)"

text \<open>A controller that reports the instruction as done whenever it is asked.\<close>

definition dsi_idle :: "device \<Rightarrow> u32 \<Rightarrow> bool" where
  "dsi_idle d v \<longleftrightarrow> (\<forall>t. d t 0x01ca0010 = v) \<and> v AND 1 = 0"

lemma start_wait:
  assumes "dsi_idle d v"
  shows "sun6i_dsi_start d LPTX t =
      [Wr 0x01ca0010 (v OR 1), Rd 0x01ca0010 v, Wr 0x01ca0048 (dsi_jumps LPTX)] @ t"
    and "sun6i_dsi_inst_wait_for_completion d clk t = Some (0, Rd 0x01ca0010 v # t)"
proof -
  have "v AND NOT 1 = v"
  proof (rule bit_word_eqI)
    fix n
    have "\<not> bit v 0" using assms unfolding dsi_idle_def by (metis and_one_eq bit_0 even_iff_mod_2_eq_zero)
    then show "bit (v AND NOT 1) n = bit v n"
      by (cases n) (auto simp: bit_and_iff bit_not_iff bit_1_iff dest: bit_imp_le_length)
  qed
  then show "sun6i_dsi_start d LPTX t =
      [Wr 0x01ca0010 (v OR 1), Rd 0x01ca0010 v, Wr 0x01ca0048 (dsi_jumps LPTX)] @ t"
    using assms by (simp add: dsi_idle_def sun6i_dsi_start_def sun6i_dsi_inst_commit_def dsi_update_bits_def
        dsi_write_def io_defs del: dsi_jumps.simps)
  show "sun6i_dsi_inst_wait_for_completion d clk t = Some (0, Rd 0x01ca0010 v # t)"
    using assms by (simp add: dsi_idle_def sun6i_dsi_inst_wait_for_completion_def dsi_wait_loop.simps
        dsi_read_def readl_def)
qed

lemma fold_writes: "fold (\<lambda>i t. dsi_write (r i) (w i) t) is t = rev (map (\<lambda>i. Wr (DSI_BASE + r i) (w i)) is) @ t"
  by (induction "is" arbitrary: t) (simp_all add: dsi_write_def writel_def)

lemma tx_reg: "i < 100 \<Longrightarrow> DSI_BASE + ucast (0x304 + 4 * of_nat i :: u16) = DSI_BASE + SUN6I_DSI_CMD_TX_REG (1 + of_nat i)"
  by (simp add: SUN6I_DSI_CMD_TX_REG_def word_unat_eq_iff unat_word_ariths unat_of_nat unat_widen)


definition dcs_ok :: "u8 list \<Rightarrow> bool" where
  "dcs_ok data \<longleftrightarrow> 0 < length data \<and> length data \<le> 255"

lemma wr_events_append: "wr_events (xs @ ys) = wr_events ys @ wr_events xs"
  by (simp add: wr_events_def)

lemma wr_events_simps: "wr_events [] = []" "wr_events ((r, v) # ws) = wr_events ws @ [Wr (DSI_BASE + ucast r) v]"
  by (simp_all add: wr_events_def)

text \<open>The words of a long packet, written one by one, are the entries of the table.\<close>

lemma payload_words:
  assumes "length data \<le> 255" "n = (length data + 5) div 4"
  shows "rev (map (\<lambda>i. Wr (DSI_BASE + SUN6I_DSI_CMD_TX_REG (1 + of_nat i))
        (le32_of (drop (4 * i) (dcs_bounce data)))) [0..<n]) =
      wr_events (map (\<lambda>(i, w). (0x304 + 4 * of_nat i, w)) (enumerate 0 (dcs_words data)))"
proof -
  have "length (dcs_words data) = n"
    unfolding dcs_words_eq using assms(2) by simp
  then have "enumerate 0 (dcs_words data) = map (\<lambda>i. (i, le32_of (drop (4 * i) (dcs_bounce data)))) [0..<n]"
    unfolding enumerate_eq_zip dcs_words_eq assms(2) [symmetric]
    by (intro nth_equalityI) simp_all
  moreover have "n < 100" using assms by simp
  ultimately show ?thesis
    unfolding wr_events_def using tx_reg by (simp add: comp_def)
qed

lemma dcs_write_events:
  assumes "dsi_idle d v" "dcs_ok data"
  shows "mipi_dsi_dcs_write d clk data t = Some (0, sent_events v data @ flags_ev # t)"
proof (cases "length data \<le> 2")
  case True
  then show ?thesis
    using assms(2) unfolding mipi_dsi_dcs_write_def Let_def
    by (simp add: start_wait [OF assms(1)] sent_events_def dcs_payload_def wr_events_simps dcs_ok_def
        Let_def dsi_write_def writel_def SUN6I_DSI_CMD_TX_REG_def flags_ev_def del: dsi_jumps.simps)
next
  case False
  let ?n = "(length data + 5) div 4"
  have n: "(length data + 2 + 3) div 4 = ?n" by (simp add: add.assoc)
  show ?thesis
    using assms(2) False unfolding mipi_dsi_dcs_write_def Let_def n fold_writes
    by (simp add: start_wait [OF assms(1)] sent_events_def dcs_payload_def wr_events_simps wr_events_append
        payload_words [symmetric] dcs_ok_def
        Let_def dsi_write_def writel_def SUN6I_DSI_CMD_TX_REG_def flags_ev_def del: dsi_jumps.simps)
qed

lemma plain_payload: "dcs_ok data \<Longrightarrow> plain (dcs_payload data)"
proof -
  assume ok: "dcs_ok data"
  have "0x304 + 4 * of_nat i < (0xfffe :: u16)" if "i < length (dcs_words data)" for i
    using that ok unfolding dcs_words_eq
    by (auto simp: dcs_ok_def word_less_nat_alt unat_word_ariths unat_of_nat)
  then show ?thesis
    by (auto simp: plain_def dcs_payload_def Let_def in_set_enumerate_eq)
qed

lemma run_insts_events:
  assumes "dsi_idle d v" "dcs_ok data"
  shows "dsi_run_insts d clk (dcs_insts (Dcs data) @ is) t =
    dsi_run_insts d clk is (flags_ev # sent_events v data @ t)"
  using plain_payload [OF assms(2)]
  by (simp add: run_plain start_wait [OF assms(1)] sent_events_def dsi_write_def writel_def flags_ev_def
      del: dsi_jumps.simps)

text \<open>The history without the writes that reset the flags of the command register.\<close>

definition sans_flags :: "history \<Rightarrow> history" where
  "sans_flags t = filter (\<lambda>e. e \<noteq> flags_ev) t"

fun seq_ok :: "dcs_seq \<Rightarrow> bool" where
  "seq_ok (Sleep len) = (len * 1000 < 2 ^ 32)"
| "seq_ok (Dcs data) = dcs_ok data"

lemma panel_same:
  assumes dev: "dsi_idle d v"
  shows "\<forall>s \<in> set ss. seq_ok s \<Longrightarrow> sans_flags t = sans_flags t' \<Longrightarrow>
    \<exists>t1 t2. panel_init_loop d clk ss t = Some t1 \<and>
      dsi_run_insts d clk (concat (map dcs_insts ss)) t' = Some (0, t2) \<and> sans_flags t1 = sans_flags t2"
proof (induction ss arbitrary: t t')
  case (Cons s ss)
  show ?case
  proof (cases s)
    case (Sleep len)
    have word: "unat (of_nat n :: u32) = n" if "n < 2 ^ 32" for n
      using that by (simp add: unat_of_nat)
    have "unat (of_nat (len * 1000) :: u32) = len * 1000"
      using Cons.prems(1) Sleep by (intro word) simp
    then show ?thesis
      using Cons.IH [of "udelay (len * 1000) t" "udelay (len * 1000) t'"] Cons.prems Sleep
      by (simp add: sans_flags_def udelay_def flags_ev_def)
  next
    case (Dcs data)
    then have ok: "dcs_ok data" using Cons.prems by simp
    let ?t = "sent_events v data @ flags_ev # t" and ?t' = "flags_ev # sent_events v data @ t'"
    have "sans_flags ?t = sans_flags ?t'"
      using Cons.prems(2) by (simp add: sans_flags_def)
    then obtain t1 t2 where "panel_init_loop d clk ss ?t = Some t1"
      "dsi_run_insts d clk (concat (map dcs_insts ss)) ?t' = Some (0, t2)" "sans_flags t1 = sans_flags t2"
      using Cons.IH [of ?t ?t'] Cons.prems(1) by auto
    then show ?thesis
      using Dcs ok run_insts_events [OF dev ok] dcs_write_events [OF dev ok]
      by (simp del: dcs_insts.simps)
  qed
qed simp

text \<open>
  On a controller that has finished each time it is asked, the replay of the precomputed
  table and the packet code drive the panel alike: both complete, and their histories (writes,
  reads and pauses, in their order) coincide except for the writes that reset the flags of the
  command register, which one makes before and the other after a command.
\<close>

theorem panel_init_fast_same:
  assumes "dsi_idle d v"
  shows "\<exists>t1 t2. panel_init d clk t = Some t1 \<and>
    dsi_run_init_seq d clk dsi_panel_init_seq t = Some (0, t2) \<and> sans_flags t1 = sans_flags t2"
proof -
  have "list_all seq_ok panel_dcs_seq_initlist"
    by (simp add: panel_dcs_seq_initlist_def dcs_ok_def)
  then have "\<forall>s \<in> set panel_dcs_seq_initlist. seq_ok s"
    by (simp only: list_all_iff)
  moreover have "sans_flags t = sans_flags (dsi_write SUN6I_DSI_CMD_CTL_REG dsi_cmd_flags t)"
    by (simp add: sans_flags_def flags_ev_def dsi_write_def writel_def)
  ultimately show ?thesis
    unfolding panel_init_def dsi_run_init_seq_def panel_table
    using panel_same [OF assms] by blast
qed

theorem panel_init_fast_same_witness:
  "\<exists>t1 t2. panel_init (\<lambda>_ _. 0x30000) (\<lambda>_. 0) [] = Some t1 \<and>
    dsi_run_init_seq (\<lambda>_ _. 0x30000) (\<lambda>_. 0) dsi_panel_init_seq [] = Some (0, t2) \<and>
    sans_flags t1 = sans_flags t2"
  by (rule panel_init_fast_same [where v = "0x30000"]) (simp add: dsi_idle_def)

end
