(* ===== verification/Clock_Sun6i.thy ===== *)
theory Clock_Sun6i
  imports Machine "HOL-Library.Signed_Division"
begin

text \<open>
  The clock driver, \<open>src/src/uboot/arch/arm/mach-sunxi/clock_sun6i.c\<close>, as it is compiled for the A64:
  PLLs, the clock of the serial port, the rates that the registers stand for. \<open>clock_init_sec\<close> is
  empty here, \<open>clock_set_mipi_pll\<close> is compiled for another chip only. The waits for a lock have no
  bound in the code: \<open>None\<close> when they do not end.
\<close>

abbreviation CCM :: addr where "CCM \<equiv> 0x01c20000"

text \<open>\<open>while (readl(a) & m);\<close>\<close>

partial_function (option) spin_clear :: "device \<Rightarrow> addr \<Rightarrow> u32 \<Rightarrow> history \<Rightarrow> history option" where
  "spin_clear d a m t =
     (let (v, t) = readl d a t in if v AND m = 0 then Some t else spin_clear d a m t)"

declare spin_clear.simps [code]

section \<open>Setting clocks\<close>

definition clock_set_pll1 :: "device \<Rightarrow> u32 \<Rightarrow> history \<Rightarrow> history option" where
  "clock_set_pll1 d clk t =
     (let k = (if clk \<ge> 1368000000 then 3 else if clk \<ge> 768000000 then 2 else 1); m = 1;
          t = writel (2 OR push_bit 8 1 OR push_bit 16 1) (CCM + 0x50) t;
          t = writel (push_bit 31 1 OR push_bit 8 ((clk div (24000000 * k div m) - 1) AND 0x1f) OR
                push_bit 4 ((k - 1) AND 3) OR ((m - 1) AND 3)) CCM t
      in map_option (writel (2 OR push_bit 8 1 OR push_bit 16 2) (CCM + 0x50))
           (poll_set d CCM (push_bit 28 1) t))"

definition clock_init_safe :: "device \<Rightarrow> history \<Rightarrow> history option" where
  "clock_init_safe d t =
     Option.bind (clock_set_pll1 d 408000000 (writel 0x1fff (CCM + 0x320) t)) (\<lambda>t.
     map_option (exec d [Writel 0x3190 (CCM + 0x54), Writel 0x81000002 (CCM + 0x15c)])
       (poll_set d (CCM + 0x28) (push_bit 28 1) (writel 0x90041811 (CCM + 0x28) t)))"

text \<open>The port is the first one, \<open>CONFIG_CONS_INDEX\<close> is 1.\<close>

definition clock_init_uart :: "device \<Rightarrow> history \<Rightarrow> history" where
  "clock_init_uart d =
     exec d [Writel (push_bit 24 1) (CCM + 0x58), Setbits (CCM + 0x6c) (push_bit 16 1),
       Setbits (CCM + 0x2d8) (push_bit 16 1)]"

definition clock_set_pll3 :: "device \<Rightarrow> u32 \<Rightarrow> history \<Rightarrow> history" where
  "clock_set_pll3 d clk t =
     (let m = 4
      in if clk = 0 then clrbits d (CCM + 0x10) (push_bit 31 1) t
         else writel (push_bit 31 1 OR push_bit 24 1 OR push_bit 8 ((clk div (24000000 div m) - 1) AND 0x7f) OR
                ((m - 1) AND 0xf)) (CCM + 0x10) t)"

definition clock_set_pll3_factors :: "device \<Rightarrow> u32 \<Rightarrow> u32 \<Rightarrow> history \<Rightarrow> history option" where
  "clock_set_pll3_factors d m n t =
     poll_set d (CCM + 0x10) (push_bit 28 1)
       (writel (push_bit 31 1 OR push_bit 24 1 OR push_bit 8 ((n - 1) AND 0x7f) OR ((m - 1) AND 0xf)) (CCM + 0x10) t)"

definition clock_set_pll5 :: "device \<Rightarrow> u32 \<Rightarrow> bool \<Rightarrow> history \<Rightarrow> history" where
  "clock_set_pll5 d clk sigma_delta t =
     (let t = (if sigma_delta then writel 0xd1303333 (CCM + 0x290) t else t);
          (k, m) = (if clk > 24000000 * 32 div 2 then (if clk > 24000000 * 32 then (2, 1) else (1, 1)) else (1, 2))
      in udelay 5500 (writel (push_bit 31 1 OR (if sigma_delta then push_bit 24 1 else 0) OR push_bit 20 1 OR
           push_bit 8 ((clk div (24000000 * k div m) - 1) AND 0x1f) OR push_bit 4 ((k - 1) AND 3) OR
           ((m - 1) AND 3)) (CCM + 0x20) t))"

definition clock_set_pll_de :: "device \<Rightarrow> u32 \<Rightarrow> history \<Rightarrow> history option" where
  "clock_set_pll_de d clk t =
     (let m = 2
      in if clk = 0 then Some (clrbits d (CCM + 0x48) (push_bit 31 1) t)
         else
           (let t = writel (push_bit 31 1 OR push_bit 24 1 OR
                  push_bit 8 ((clk div (24000000 div m) - 1) AND 0x7f) OR (m - 1) AND 0xf) (CCM + 0x48) t
            in poll_set d (CCM + 0x48) (push_bit 28 1) t))"

definition clock_set_pll11 :: "device \<Rightarrow> u32 \<Rightarrow> bool \<Rightarrow> history \<Rightarrow> history option" where
  "clock_set_pll11 d clk sigma_delta t =
     (let t = (if sigma_delta then writel 0xf5860000 (CCM + 0x2ac) t else t);
          t = writel (push_bit 31 1 OR push_bit 30 1 OR (if sigma_delta then push_bit 24 1 else 0) OR
                push_bit 8 ((clk div 24000000 - 1) AND 0x3f)) (CCM + 0x4c) t
      in spin_clear d (CCM + 0x4c) (push_bit 30 1) t)"

section \<open>Reading clocks\<close>

definition clock_get_pll3 :: "device \<Rightarrow> history \<Rightarrow> u32 \<times> history" where
  "clock_get_pll3 d t =
     (let (rval, t) = readl d (CCM + 0x10) t; n = (drop_bit 8 rval AND 0x7f) + 1; m = (rval AND 0xf) + 1
      in (24000 * n div m * 1000, t))"

text \<open>
  The product is an \<open>int\<close>. From \<open>n * k = 90\<close> on it exceeds \<open>2 ^ 31 - 1\<close>, which C leaves undefined; here
  it wraps around, and the division is the signed one. Twice the result is the rate all the same.
\<close>

definition clock_get_pll6 :: "device \<Rightarrow> history \<Rightarrow> u32 \<times> history" where
  "clock_get_pll6 d t =
     (let (rval, t) = readl d 0x01c20028 t; n = (drop_bit 8 rval AND 0x1f) + 1; k = (drop_bit 4 rval AND 3) + 1
      in (word_of_int (sint (24000000 * n * k) sdiv 2), t))"

definition clock_get_mipi_pll :: "device \<Rightarrow> history \<Rightarrow> u32 \<times> history" where
  "clock_get_mipi_pll d t =
     (let (rval, t) = readl d (CCM + 0x40) t; n = (drop_bit 8 rval AND 0xf) + 1; k = (drop_bit 4 rval AND 3) + 1;
          m = (rval AND 0xf) + 1; (src, t) = clock_get_pll3 d t
      in (src div 1000 * n * k div m * 1000, t))"

text \<open>\<open>pll\<close> and \<open>div\<close> are \<open>int\<close>, the quotient is compared as an unsigned number.\<close>

function de_div :: "int \<Rightarrow> u32 \<Rightarrow> nat \<Rightarrow> nat" where
  "de_div pll hz dv = (if word_of_int (pll sdiv int dv) > hz then de_div pll hz (dv + 1) else dv)"
  by pat_completeness auto
termination
proof (relation "measure (\<lambda>(pll, hz, dv). nat \<bar>pll\<bar> + 1 - dv)", simp)
  fix pll :: int and hz :: u32 and dv
  assume "word_of_int (pll sdiv int dv) > hz"
  then have "pll sdiv int dv \<noteq> 0"
    by auto
  then have "dv \<le> nat \<bar>pll\<bar>"
    by (rule contrapos_np) (auto simp: signed_divide_int_def)
  then show "((pll, hz, dv + 1), pll, hz, dv) \<in> measure (\<lambda>(pll, hz, dv). nat \<bar>pll\<bar> + 1 - dv)"
    by simp
qed

declare de_div.simps [simp del]

definition clock_set_de_mod_clock :: "device \<Rightarrow> addr \<Rightarrow> u32 \<Rightarrow> history \<Rightarrow> history" where
  "clock_set_de_mod_clock d clk_cfg hz t =
     (let (pll6, t) = clock_get_pll6 d t; dv = de_div (sint (pll6 * 2)) hz 1
      in writel (push_bit 31 1 OR push_bit 24 2 OR ((of_nat dv - 1) AND 0xf)) clk_cfg t)"

end
