(* ===== verification/Compositor.thy ===== *)
theory Compositor
  imports Dsi Clock_Sun6i
begin

text \<open>
  The pixel pipeline of \<open>src/src/display.c\<close> lines 1565 to 2130: the timing controller TCON0, the
  DE2 mixer with its scaler units, the backlight, and \<open>display_commit\<close>, which clips the planes
  to the panel and programs overlay channels and blender. \<open>clock_set_pll_de\<close> is in
  \<open>mach-sunxi/clock_sun6i.c\<close>. Integers are \<open>u32\<close> as in the code; where the code casts to
  \<open>int\<close> the word is read by \<open>sint\<close>, and the signed subtractions wrap. A division by zero gives
  zero, as the \<open>udiv\<close> of the processor does; C leaves it undefined, and \<open>display_commit\<close> divides
  by the size of every plane before it looks whether the plane is used. The build option \<open>DE2_RESIZE\<close> is an argument.
\<close>

section \<open>The timing controller\<close>

abbreviation CCM_BASE :: addr where "CCM_BASE \<equiv> 0x01c20000"
abbreviation LCD0_BASE :: addr where "LCD0_BASE \<equiv> 0x01c0c000"

definition CCM_PLL3_CTRL_N :: "u32 \<Rightarrow> u32" where "CCM_PLL3_CTRL_N n = push_bit 8 ((n - 1) AND 0x7f)"
definition CCM_PLL3_CTRL_M :: "u32 \<Rightarrow> u32" where "CCM_PLL3_CTRL_M n = (n - 1) AND 0xf"
definition CCM_MIPI_PLL_CTRL_N :: "u32 \<Rightarrow> u32" where "CCM_MIPI_PLL_CTRL_N n = push_bit 8 ((n - 1) AND 0xf)"
definition CCM_MIPI_PLL_CTRL_K :: "u32 \<Rightarrow> u32" where "CCM_MIPI_PLL_CTRL_K n = push_bit 4 ((n - 1) AND 0x3)"
definition CCM_MIPI_PLL_CTRL_M :: "u32 \<Rightarrow> u32" where "CCM_MIPI_PLL_CTRL_M n = (n - 1) AND 0xf"
definition CCM_MIPI_PLL_CTRL_LDO_EN :: u32 where "CCM_MIPI_PLL_CTRL_LDO_EN = push_bit 22 3"

definition block_space :: u32 where
  "block_space = PANEL_HTOTAL * PANEL_DSI_BPP div (6 * PANEL_LANES) - (PANEL_HDISPLAY + 40)"

definition tcon_start_delay :: u32 where
  "tcon_start_delay =
     (PANEL_VTOTAL - PANEL_VDISPLAY - 10 - 1) * PANEL_HTOTAL * 149 div (PANEL_CLOCK div 1000) div 8"

definition tcon0_ops :: "op list" where
  "tcon0_ops =
    [Writel (push_bit 31 1 OR push_bit 24 1 OR CCM_PLL3_CTRL_N 99 OR CCM_PLL3_CTRL_M 8) (CCM_BASE + 0x10),
     Writel CCM_MIPI_PLL_CTRL_LDO_EN (CCM_BASE + 0x40),
     Udelay 100,
     Writel (CCM_MIPI_PLL_CTRL_N 8 OR CCM_MIPI_PLL_CTRL_K 2 OR CCM_MIPI_PLL_CTRL_M 11 OR
             push_bit 31 1 OR CCM_MIPI_PLL_CTRL_LDO_EN) (CCM_BASE + 0x40),
     Writel (push_bit 31 1 OR push_bit 24 0) (CCM_BASE + 0x118),
     Setbits (CCM_BASE + 0x64) (push_bit 3 1),
     Setbits (CCM_BASE + 0x2c4) (push_bit 3 1),
     Writel 0 LCD0_BASE,
     Writel 0 (LCD0_BASE + 0x04),
     Writel 0 (LCD0_BASE + 0x08),
     Writel 0xffffffff (LCD0_BASE + 0x8c),
     Writel 0xffffffff (LCD0_BASE + 0xf4),
     Writel (push_bit 31 1 OR 6) (LCD0_BASE + 0x44),
     Writel (push_bit 31 1 OR push_bit 24 1) (LCD0_BASE + 0x40),
     Writel (push_bit 16 (PANEL_HDISPLAY - 1) OR (PANEL_VDISPLAY - 1)) (LCD0_BASE + 0x48),
     Writel (push_bit 3 1) (LCD0_BASE + 0xf8),
     Writel (push_bit 28 1 OR push_bit 16 1 OR push_bit 2 1 OR push_bit 0 1) (LCD0_BASE + 0x60),
     Writel (push_bit 16 ((block_space - 1) AND 0xfff) OR (PANEL_HDISPLAY - 1) AND 0xfff) (LCD0_BASE + 0x160),
     Writel ((PANEL_VDISPLAY - 1) AND 0xffff) (LCD0_BASE + 0x164),
     Writel (10 AND 0xfff OR push_bit 16 (tcon_start_delay AND 0xffff)) (LCD0_BASE + 0x168),
     Writel (push_bit 16 (3000 AND 0xfff) OR 3 AND 0x3) (LCD0_BASE + 0x1f0),
     Writel 0xe0000000 (LCD0_BASE + 0x8c),
     Setbits LCD0_BASE (push_bit 31 1)]"

definition tcon0_init :: "device \<Rightarrow> history \<Rightarrow> history" where
  "tcon0_init d t = exec d tcon0_ops t"

section \<open>The mixer\<close>

abbreviation DE2_BASE :: addr where "DE2_BASE \<equiv> 0x01000000"
abbreviation MUX0_BASE :: addr where "MUX0_BASE \<equiv> DE2_BASE + 0x100000"

text \<open>The registers that are cleared: 24 KiB from the start of the mixer, then one per sub-unit.\<close>

definition de2_units :: "u32 list" where
  "de2_units = [0x20000, 0x30000, 0x40000, 0x50000, 0xa0000, 0xa2000, 0xa4000, 0xa6000, 0xa8000, 0xaa000, 0xb0000]"

definition de2_clear :: "history \<Rightarrow> history" where
  "de2_clear t =
     fold (\<lambda>u. writel 0 (MUX0_BASE + u)) de2_units
       (fold (\<lambda>i. writel 0 (MUX0_BASE + of_nat (4 * i))) [0..<0x6000 div 4] t)"

definition de2_init :: "device \<Rightarrow> history \<Rightarrow> history option" where
  "de2_init d t =
     (let (reg_value, t) = readl d (0x01c00000 + 0x04) t;
          t = writel (reg_value AND NOT (push_bit 24 1)) (0x01c00000 + 0x04) t
      in do {
        t \<leftarrow> clock_set_pll_de d 297000000 t;
        let t = clrsetbits d (CCM_BASE + 0x104) (push_bit 24 3) (push_bit 24 1 OR push_bit 31 1) t;
        let t = setbits d (CCM_BASE + 0x2c4) (push_bit 12 1) t;
        let t = setbits d (CCM_BASE + 0x64) (push_bit 12 1) t;
        let t = setbits d DE2_BASE (push_bit 0 1) t;
        let t = setbits d (DE2_BASE + 0x08) (push_bit 0 1) t;
        let t = setbits d (DE2_BASE + 0x04) (push_bit 0 1) t;
        let t = clrbits d (DE2_BASE + 0x10) 1 t;
        let t = de2_clear t;
        Some (writel 1 MUX0_BASE t)
      })"

section \<open>The scaler\<close>

definition lan2coefftab16 :: "u32 list" where
  "lan2coefftab16 =
    [0x00004000, 0x00033ffe, 0x00063efc, 0x000a3bfb, 0xff0f37fb, 0xfe1433fb, 0xfd192ffb, 0xfd1f29fb,
     0xfc2424fc, 0xfb291ffd, 0xfb2f19fd, 0xfb3314fe, 0xfb370fff, 0xfb3b0a00, 0xfc3e0600, 0xfe3f0300]"

text \<open>The code returns before it looks at the step.\<close>

definition sun8i_ui_scaler_coef_index :: "u32 \<Rightarrow> nat" where
  "sun8i_ui_scaler_coef_index step = 0"

definition mixer_write :: "u32 \<Rightarrow> u32 \<Rightarrow> history \<Rightarrow> history" where
  "mixer_write off v t = writel v (MUX0_BASE + off) t"

definition ui_scaler_base :: "nat \<Rightarrow> u32" where
  "ui_scaler_base layer = 0x20000 + 0x20000 * 1 + 0x10000 * of_nat layer"

definition sun8i_ui_scaler_setup :: "nat \<Rightarrow> u32 \<Rightarrow> u32 \<Rightarrow> u32 \<Rightarrow> u32 \<Rightarrow> history \<Rightarrow> history" where
  "sun8i_ui_scaler_setup layer insize outsize hscale vscale t =
     (let base = ui_scaler_base layer;
          hphase = push_bit 4 0; vphase = push_bit 4 0;
          t = mixer_write (base + 0x40) outsize t;
          t = mixer_write (base + 0x80) insize t;
          t = mixer_write (base + 0x88) hscale t;
          t = mixer_write (base + 0x8c) vscale t;
          t = mixer_write (base + 0x90) hphase t;
          t = mixer_write (base + 0x98) vphase t;
          offset = sun8i_ui_scaler_coef_index hscale * 16;
          t = fold (\<lambda>i. mixer_write (base + 0x200 + 0x4 * of_nat i) (lan2coefftab16 ! (offset + i))) [0..<16] t
      in mixer_write base (push_bit 0 1 OR push_bit 4 1) t)"

definition sun8i_ui_scaler_disable :: "nat \<Rightarrow> history \<Rightarrow> history" where
  "sun8i_ui_scaler_disable layer t = mixer_write (ui_scaler_base layer) 0 t"

section \<open>Backlight and initialisation\<close>

definition backlight_enable :: "device \<Rightarrow> u32 \<Rightarrow> history \<Rightarrow> history" where
  "backlight_enable d pct t =
     (let t = sunxi_gpio_set_cfgpin d (SUNXI_GPL 10) 2 t;
          t = clrbits d 0x01f03800 (push_bit 6 1) t;
          t = writel (push_bit 16 (1199 AND 0xffff) OR (1199 * pct div 100) AND 0xffff) 0x01f03804 t;
          t = writel (0xf OR push_bit 6 1 OR push_bit 4 5) 0x01f03800 t
      in gpio_direction_output d (SUNXI_GPH 10) 1 t)"

text \<open>\<open>full\<close> is the build option \<open>DSI_FULL_INIT\<close>.\<close>

definition display_init :: "device \<Rightarrow> clock \<Rightarrow> bool \<Rightarrow> history \<Rightarrow> (bool \<times> history) option" where
  "display_init d clk full t =
     (let t = tcon0_init d t
      in do {
        t \<leftarrow> (if full then dsi_init d clk t else dsi_init_fast d clk t);
        t \<leftarrow> de2_init d t;
        Some (True, t)
      })"

section \<open>The compositor\<close>

definition display_frame_done :: "device \<Rightarrow> history \<Rightarrow> bool \<times> history" where
  "display_frame_done d t =
     (let (status, t) = readl d (LCD0_BASE + 0x04) t;
          t = (if status AND push_bit 11 1 \<noteq> 0 then writel 0 (LCD0_BASE + 0x04) t else t)
      in (status AND push_bit 11 1 \<noteq> 0, t))"

record display_plane =
  fb_start :: u32
  fb_pitch :: u32
  src_x :: u32
  src_y :: u32
  src_w :: u32
  src_h :: u32
  dst_x :: u32
  dst_y :: u32
  dst_w :: u32
  dst_h :: u32
  alpha :: u32
  z :: u32

record display =
  planes :: "display_plane list"

definition PANEL_WIDTH :: int where "PANEL_WIDTH = 720"
definition PANEL_HEIGHT :: int where "PANEL_HEIGHT = 1440"

definition clamp :: "int \<Rightarrow> int \<Rightarrow> int \<Rightarrow> int" where
  "clamp val lo hi = min (max val lo) hi"

definition SUNXI_DE2_WH :: "u32 \<Rightarrow> u32 \<Rightarrow> u32" where
  "SUNXI_DE2_WH w h = push_bit 16 (h - 1) OR (w - 1)"

definition SUNXI_DE2_XY :: "u32 \<Rightarrow> u32 \<Rightarrow> u32" where
  "SUNXI_DE2_XY w h = push_bit 16 h OR w"

definition SUNXI_DE2_UI_CFG_ATTR_FMT :: "u32 \<Rightarrow> u32" where
  "SUNXI_DE2_UI_CFG_ATTR_FMT f = push_bit 8 (f AND 0xf)"

text \<open>One axis of the clipping: position and length of the destination, origin and length of the source.\<close>

definition clip_offset :: "u32 \<Rightarrow> u32" where
  "clip_offset dst = - word_of_int (min (sint dst) 0)"

definition clip_axis :: "int \<Rightarrow> u32 \<Rightarrow> u32 \<Rightarrow> u32 \<Rightarrow> u32 \<Rightarrow> u32 \<times> u32 \<times> u32 \<times> u32" where
  "clip_axis panel sx sw dx dw =
     (let dst_o = clip_offset dx;
          dst_p = word_of_int (clamp (sint dx) 0 panel);
          dst_l = word_of_int (clamp (sint (dw - dst_o)) 0 (panel - sint (dst_p :: u32)))
      in (dst_p, dst_l, sx + dst_o * sw div dw, dst_l * sw div dw))"

record clipped =
  c_dx :: u32
  c_dy :: u32
  c_dw :: u32
  c_dh :: u32
  c_sx :: u32
  c_sy :: u32
  c_sw :: u32
  c_sh :: u32

definition clip_plane :: "display_plane \<Rightarrow> clipped" where
  "clip_plane p =
     (let (dx, dw, sx, sw) = clip_axis PANEL_WIDTH (src_x p) (src_w p) (dst_x p) (dst_w p);
          (dy, dh, sy, sh) = clip_axis PANEL_HEIGHT (src_y p) (src_h p) (dst_y p) (dst_h p)
      in \<lparr>c_dx = dx, c_dy = dy, c_dw = dw, c_dh = dh, c_sx = sx, c_sy = sy, c_sw = sw, c_sh = sh\<rparr>)"

definition plane_fb :: "display_plane \<Rightarrow> clipped \<Rightarrow> u32" where
  "plane_fb p c =
     (if c_sw c = 0 \<or> c_sh c = 0 \<or> fb_start p = 0 then 0
      else fb_start p + 4 * c_sx c + c_sy c * fb_pitch p)"

definition de_ui_regs :: "nat \<Rightarrow> addr" where
  "de_ui_regs i = MUX0_BASE + 0x2000 + 0x1000 * of_nat (1 + i)"

abbreviation BLD_REGS :: addr where "BLD_REGS \<equiv> MUX0_BASE + 0x1000"

definition bld_attr :: "nat \<Rightarrow> addr" where
  "bld_attr pipe = BLD_REGS + 0x04 + 0x10 * of_nat pipe"

definition bld_mode :: "nat \<Rightarrow> addr" where
  "bld_mode pipe = BLD_REGS + 0x90 + 4 * of_nat pipe"

text \<open>What one round of the loop carries on: pipe, \<open>route_reg\<close>, \<open>fcolor_ctl\<close> and the history.\<close>

type_synonym commit_state = "nat \<times> u32 \<times> u32 \<times> history"

definition plane_attr :: "nat \<Rightarrow> display_plane \<Rightarrow> u32" where
  "plane_attr i p =
     (let format = SUNXI_DE2_UI_CFG_ATTR_FMT (if i = 0 then 4 else 0)
      in 1 OR push_bit 1 2 OR push_bit 24 (255 - alpha p mod 256) OR format)"

definition commit_overlay :: "nat \<Rightarrow> display_plane \<Rightarrow> clipped \<Rightarrow> history \<Rightarrow> history" where
  "commit_overlay i p c t =
     (let src_size = SUNXI_DE2_WH (c_sw c) (c_sh c);
          t = writel (plane_attr i p) (de_ui_regs i) t;
          t = writel (plane_fb p c) (de_ui_regs i + 0x10) t;
          t = writel (fb_pitch p) (de_ui_regs i + 0x0c) t;
          t = writel src_size (de_ui_regs i + 0x04) t;
          t = writel src_size (de_ui_regs i + 0x88) t
      in writel 0 (de_ui_regs i + 0x08) t)"

definition commit_blender :: "nat \<Rightarrow> nat \<Rightarrow> clipped \<Rightarrow> history \<Rightarrow> history" where
  "commit_blender i pipe c t =
     (let dst_size = SUNXI_DE2_WH (c_dw c) (c_dh c);
          t = (if i = 0 then writel dst_size (MUX0_BASE + 0x0c) (writel dst_size (BLD_REGS + 0x8c) t) else t);
          t = writel dst_size (bld_attr pipe + 0x04) t;
          t = writel 0xff000000 (bld_attr pipe) t;
          t = writel (SUNXI_DE2_XY (c_dx c) (c_dy c)) (bld_attr pipe + 0x08) t
      in writel 0x03010301 (bld_mode pipe) t)"

definition commit_scaler :: "nat \<Rightarrow> clipped \<Rightarrow> history \<Rightarrow> history" where
  "commit_scaler i c t =
     (if c_sw c \<noteq> c_dw c \<or> c_sh c \<noteq> c_dh c
      then sun8i_ui_scaler_setup i (SUNXI_DE2_WH (c_sw c) (c_sh c)) (SUNXI_DE2_WH (c_dw c) (c_dh c))
             (push_bit 4 0x10000 * c_sw c div c_dw c) (push_bit 4 0x10000 * c_sh c div c_dh c) t
      else sun8i_ui_scaler_disable i t)"

definition commit_plane :: "bool \<Rightarrow> nat \<Rightarrow> display_plane \<Rightarrow> clipped \<Rightarrow> commit_state \<Rightarrow> commit_state" where
  "commit_plane resize i p c s =
     (let (pipe, route_reg, fcolor_ctl, t) = s
      in if plane_fb p c = 0 then
           (let t = writel 0 (de_ui_regs i) t;
                t = (if resize then sun8i_ui_scaler_disable i t else t)
            in (pipe, route_reg, fcolor_ctl, t))
         else
           (let t = commit_overlay i p c t;
                route_reg = route_reg OR push_bit (pipe * 4) (of_nat (i + 1));
                fcolor_ctl = fcolor_ctl OR push_bit (8 + pipe) 1;
                fcolor_ctl = (if pipe = 0 then fcolor_ctl OR push_bit pipe 1 else fcolor_ctl);
                t = commit_blender i pipe c t;
                t = (if resize then commit_scaler i c t else t)
            in (pipe + 1, route_reg, fcolor_ctl, t)))"

fun commit_planes :: "bool \<Rightarrow> nat \<Rightarrow> display_plane list \<Rightarrow> commit_state \<Rightarrow> commit_state" where
  "commit_planes resize i [] s = s"
| "commit_planes resize i (p # ps) s =
     commit_planes resize (Suc i) ps (commit_plane resize i p (clip_plane p) s)"

definition display_commit :: "bool \<Rightarrow> display \<Rightarrow> history \<Rightarrow> history" where
  "display_commit resize dp t =
     (let t = writel 0xff000000 (BLD_REGS + 0x88) t;
          t = writel 0 (BLD_REGS + 0x84) t;
          (_, route_reg, fcolor_ctl, t) = commit_planes resize 0 (planes dp) (0, 0, 0, t);
          t = writel route_reg (BLD_REGS + 0x80) t;
          t = writel fcolor_ctl BLD_REGS t
      in writel 1 (MUX0_BASE + 0x08) t)"

section \<open>Clipping\<close>

lemma word_of_int_small:
  assumes "0 \<le> n" "n < 2 ^ 31"
  shows "uint (word_of_int n :: u32) = n" "sint (word_of_int n :: u32) = n"
  using assms by (simp_all add: uint_word_of_int signed_take_bit_int_eq_self sint_sbintrunc' flip: take_bit_eq_mod)

lemma clamp_bounds: "lo \<le> hi \<Longrightarrow> lo \<le> clamp v lo hi \<and> clamp v lo hi \<le> hi"
  by (simp add: clamp_def)

lemma clamp_pos: "0 < clamp v 0 hi \<Longrightarrow> clamp v 0 hi \<le> v"
  by (auto simp: clamp_def min_def max_def split: if_splits)

lemma clip_offset_uint: "uint (clip_offset dx) = max (- sint dx) 0"
proof -
  have "- (2 ^ 31) \<le> sint dx" "sint dx < 2 ^ 31"
    using sint_greater_eq [of dx] sint_less [of dx] by simp_all
  then have "0 \<le> max (- sint dx) 0" "max (- sint dx) 0 < 2 ^ 32" by auto
  moreover have "clip_offset dx = word_of_int (max (- sint dx) 0)"
    by (simp add: clip_offset_def max_def min_def flip: wi_hom_neg)
  ultimately show ?thesis
    by (simp add: uint_word_of_int)
qed

lemma clip_axis_dest:
  assumes "clip_axis panel sx sw dx dw = (p, l, x, m)" "0 \<le> panel" "panel < 2 ^ 31"
  shows "uint p + uint l \<le> panel" "uint p = clamp (sint dx) 0 panel"
    "uint l = clamp (sint (dw - clip_offset dx)) 0 (panel - uint p)"
proof -
  let ?p = "clamp (sint dx) 0 panel"
  let ?l = "clamp (sint (dw - clip_offset dx)) 0 (panel - ?p)"
  have p: "p = word_of_int ?p" "0 \<le> ?p" "?p \<le> panel"
    using assms clamp_bounds [of 0 panel "sint dx"] by (auto simp: clip_axis_def Let_def split: if_splits)
  then have up: "uint p = ?p" "sint p = ?p"
    using assms word_of_int_small [of ?p] by simp_all
  have l: "0 \<le> ?l" "?l \<le> panel - ?p"
    using clamp_bounds [of 0 "panel - ?p"] p by simp_all
  have "l = word_of_int ?l"
    using assms(1) up p(1) by (auto simp: clip_axis_def Let_def split: if_splits)
  then have ul: "uint l = ?l"
    using word_of_int_small [of ?l] l p assms by simp
  show "uint p = ?p" "uint l = clamp (sint (dw - clip_offset dx)) 0 (panel - uint p)" "uint p + uint l \<le> panel"
    using up ul l by simp_all
qed

lemma signed_diff:
  fixes a b :: u32
  assumes "uint a < 2 ^ 31" "uint b \<le> 2 ^ 31"
  shows "sint (a - b) = uint a - uint b"
proof -
  define n where "n = uint a - uint b"
  have "a - b = word_of_int n"
    by (simp add: n_def)
  moreover have "- (2 ^ 31) \<le> n" "n < 2 ^ 31"
    using assms uint_ge_0 [of a] uint_ge_0 [of b] unfolding n_def by linarith+
  ultimately show ?thesis
    unfolding n_def [symmetric] by (simp add: sint_sbintrunc' signed_take_bit_int_eq_self)
qed

lemma clip_offset_max: "uint (clip_offset dx) \<le> 2 ^ 31"
  using sint_greater_eq [of dx] by (simp add: clip_offset_uint)

lemma div_add_le: "0 < n \<Longrightarrow> a div n + b div n \<le> (a + b) div n" for n :: int
  using div_add1_eq [of a b n] by (simp add: pos_imp_zdiv_nonneg_iff)

text \<open>A part of an axis that is shown: the offset is inside the plane and nothing overflows.\<close>

lemma clip_axis_source:
  assumes clip: "clip_axis panel sx sw dx dw = (p, l, x, m)" and panel: "0 \<le> panel" "panel < 2 ^ 31"
    and dw: "uint dw < 2 ^ 31" "uint sw * uint dw < 2 ^ 32" and m: "m \<noteq> 0"
  shows "uint (clip_offset dx) + uint l \<le> uint dw"
    "uint (x - sx) = uint (clip_offset dx) * uint sw div uint dw"
    "uint m = uint l * uint sw div uint dw"
    "uint (x - sx) + uint m \<le> uint sw"
proof -
  let ?o = "uint (clip_offset dx)"
  have eqs: "x = sx + clip_offset dx * sw div dw" "m = l * sw div dw"
    using clip by (auto simp: clip_axis_def Let_def)
  then have "l \<noteq> 0" "dw \<noteq> 0"
    using m by auto
  then have "0 < uint l"
    using uint_ge_0 [of l] by (simp add: uint_0_iff order_less_le)
  moreover have "uint l = clamp (uint dw - ?o) 0 (panel - uint p)"
    using clip_axis_dest(3) [OF clip panel] unfolding signed_diff [OF dw(1) clip_offset_max] .
  ultimately have "uint l \<le> uint dw - ?o"
    using clamp_pos by metis
  then show le: "?o + uint l \<le> uint dw"
    by (simp only: le_diff_eq add.commute)
  have pos: "0 < uint dw" "0 \<le> ?o" "0 \<le> uint l" "0 \<le> uint sw"
    using \<open>dw \<noteq> 0\<close> by (simp_all add: order_less_le [of 0] uint_0_iff)
  have le_parts: "?o \<le> uint dw" "uint l \<le> uint dw"
    using le pos by linarith+
  have "?o * uint sw \<le> uint dw * uint sw" "uint l * uint sw \<le> uint dw * uint sw"
    using le_parts pos(4) by (simp_all add: mult_right_mono)
  then have prod: "?o * uint sw < 2 ^ 32" "uint l * uint sw < 2 ^ 32"
    using dw(2) by (simp_all add: mult.commute)
  then have "uint (clip_offset dx * sw) = ?o * uint sw" "uint (l * sw) = uint l * uint sw"
    by (simp_all add: uint_word_ariths)
  then show xs: "uint (x - sx) = ?o * uint sw div uint dw" and ms: "uint m = uint l * uint sw div uint dw"
    by (simp_all add: eqs uint_div)
  have "?o * uint sw div uint dw + uint l * uint sw div uint dw \<le> (?o + uint l) * uint sw div uint dw"
    using div_add_le [OF pos(1)] by (simp only: distrib_right)
  also have "\<dots> \<le> uint dw * uint sw div uint dw"
    using le pos by (intro zdiv_mono1 mult_right_mono) auto
  finally show "uint (x - sx) + uint m \<le> uint sw"
    using pos xs ms by simp
qed

lemma clip_axis_position:
  assumes clip: "clip_axis panel sx sw dx dw = (p, l, x, m)" and panel: "0 \<le> panel" "panel < 2 ^ 31"
    and m: "m \<noteq> 0"
  shows "uint p - sint dx = uint (clip_offset dx)"
proof -
  have "l \<noteq> 0"
    using m clip by (auto simp: clip_axis_def Let_def split: if_splits)
  then have "0 < uint l"
    by (simp add: order_less_le [of 0] uint_0_iff)
  with clip_axis_dest(1) [OF clip panel] have "uint p < panel"
    by linarith
  with clip_axis_dest(2) [OF clip panel] show ?thesis
    using panel by (auto simp: clip_offset_uint clamp_def min_def max_def split: if_splits)
qed

lemma clip_axis_unscaled:
  assumes "clip_axis panel sx sw dx dw = (p, l, x, m)" "0 \<le> panel" "panel < 2 ^ 31"
    "uint dw < 2 ^ 31" "uint sw * uint dw < 2 ^ 32" "m \<noteq> 0" "sw = dw"
  shows "m = l" "uint (x - sx) = uint p - sint dx"
proof -
  have "0 < uint dw"
    using assms by (auto simp: clip_axis_def Let_def order_less_le [of 0] uint_0_iff)
  then have "uint m = uint l" "uint (x - sx) = uint (clip_offset dx)"
    using clip_axis_source [OF assms(1-6)] assms(7) by simp_all
  then show "m = l" "uint (x - sx) = uint p - sint dx"
    using clip_axis_position [OF assms(1-3,6)] by (simp_all add: word_uint_eq_iff)
qed

text \<open>Sizes whose products fit in 32 bits.\<close>

definition plane_fits :: "display_plane \<Rightarrow> bool" where
  "plane_fits p \<longleftrightarrow> uint (dst_w p) < 2 ^ 31 \<and> uint (dst_h p) < 2 ^ 31 \<and>
     uint (src_w p) * uint (dst_w p) < 2 ^ 32 \<and> uint (src_h p) * uint (dst_h p) < 2 ^ 32"

lemma clip_planeE:
  assumes "clip_plane p = c"
  obtains "clip_axis PANEL_WIDTH (src_x p) (src_w p) (dst_x p) (dst_w p) = (c_dx c, c_dw c, c_sx c, c_sw c)"
    "clip_axis PANEL_HEIGHT (src_y p) (src_h p) (dst_y p) (dst_h p) = (c_dy c, c_dh c, c_sy c, c_sh c)"
  using assms by (auto simp: clip_plane_def case_prod_beta)

lemma panel_bounds: "0 \<le> PANEL_WIDTH" "PANEL_WIDTH < 2 ^ 31" "0 \<le> PANEL_HEIGHT" "PANEL_HEIGHT < 2 ^ 31"
  by (simp_all add: PANEL_WIDTH_def PANEL_HEIGHT_def)

text \<open>
  C22: what \<open>display_commit\<close> shows of a plane lies on the panel, it is fetched from inside the
  source rectangle of the plane, and an axis that is not scaled is cropped: the panel column
  \<open>X\<close> shows the source column \<open>X - dst_x\<close>.
\<close>

theorem commit_clips:
  assumes "clip_plane p = c" "plane_fb p c \<noteq> 0" "plane_fits p"
  shows "uint (c_dx c) + uint (c_dw c) \<le> 720 \<and> uint (c_dy c) + uint (c_dh c) \<le> 1440 \<and>
    uint (c_sx c - src_x p) + uint (c_sw c) \<le> uint (src_w p) \<and>
    uint (c_sy c - src_y p) + uint (c_sh c) \<le> uint (src_h p) \<and>
    (src_w p = dst_w p \<longrightarrow> c_sw c = c_dw c \<and> uint (c_sx c - src_x p) = uint (c_dx c) - sint (dst_x p)) \<and>
    (src_h p = dst_h p \<longrightarrow> c_sh c = c_dh c \<and> uint (c_sy c - src_y p) = uint (c_dy c) - sint (dst_y p))"
proof -
  obtain w: "clip_axis PANEL_WIDTH (src_x p) (src_w p) (dst_x p) (dst_w p) = (c_dx c, c_dw c, c_sx c, c_sw c)"
    and h: "clip_axis PANEL_HEIGHT (src_y p) (src_h p) (dst_y p) (dst_h p) = (c_dy c, c_dh c, c_sy c, c_sh c)"
    using assms(1) by (rule clip_planeE)
  have shown: "c_sw c \<noteq> 0" "c_sh c \<noteq> 0"
    using assms(2) by (auto simp: plane_fb_def)
  note fits = assms(3) [unfolded plane_fits_def, THEN conjunct1]
    assms(3) [unfolded plane_fits_def, THEN conjunct2, THEN conjunct1]
    assms(3) [unfolded plane_fits_def, THEN conjunct2, THEN conjunct2, THEN conjunct1]
    assms(3) [unfolded plane_fits_def, THEN conjunct2, THEN conjunct2, THEN conjunct2]
  show ?thesis
    using clip_axis_dest(1) [OF w panel_bounds(1,2)] clip_axis_dest(1) [OF h panel_bounds(3,4)]
      clip_axis_source(4) [OF w panel_bounds(1,2) fits(1,3) shown(1)]
      clip_axis_source(4) [OF h panel_bounds(3,4) fits(2,4) shown(2)]
      clip_axis_unscaled [OF w panel_bounds(1,2) fits(1,3) shown(1)]
      clip_axis_unscaled [OF h panel_bounds(3,4) fits(2,4) shown(2)]
    by (simp add: PANEL_WIDTH_def PANEL_HEIGHT_def)
qed

text \<open>A plane of the size of the panel, moved 100 to the left and 40 down.\<close>

definition shifted_plane :: display_plane where
  "shifted_plane = \<lparr>fb_start = 0x50000000, fb_pitch = 2880, src_x = 0, src_y = 0, src_w = 720, src_h = 1440,
     dst_x = - 100, dst_y = 40, dst_w = 720, dst_h = 1440, alpha = 0, z = 0\<rparr>"

lemma shifted_plane_clip:
  "clip_plane shifted_plane = \<lparr>c_dx = 0, c_dy = 40, c_dw = 620, c_dh = 1400,
     c_sx = 100, c_sy = 0, c_sw = 620, c_sh = 1400\<rparr>"
  by (simp add: shifted_plane_def clip_plane_def clip_axis_def clip_offset_def clamp_def
      PANEL_WIDTH_def PANEL_HEIGHT_def)

theorem commit_clips_witness:
  "uint (0::u32) + uint (620::u32) \<le> 720 \<and> uint (100 - 0 :: u32) + uint (620::u32) \<le> uint (720::u32) \<and>
    uint (100 - 0 :: u32) = uint (0::u32) - sint (- 100 :: u32)"
  using commit_clips [OF shifted_plane_clip]
  by (simp add: plane_fits_def plane_fb_def shifted_plane_def)

section \<open>What a commit leaves in the registers\<close>

text \<open>The scaler units lie behind every other register that a commit writes.\<close>

lemma upt_16: "[0..<16] = [0, 1, 2, 3, 4, 5, 6, 7, 8, 9, 10, 11, 12, 13, 14, 15]"
  by (simp add: upt_rec)

lemma less_3_cases: "i < (3 :: nat) \<longleftrightarrow> i = 0 \<or> i = 1 \<or> i = 2"
  by auto

lemma less_4_cases: "i < (4 :: nat) \<longleftrightarrow> i = 0 \<or> i = 1 \<or> i = 2 \<or> i = 3"
  by auto

lemma scaler_frame:
  assumes "i < 3" "a < 0x01140000"
  shows "last_wr r (sun8i_ui_scaler_disable i t) a = last_wr r t a"
    "last_wr r (commit_scaler i c t) a = last_wr r t a"
proof -
  have ne: "a \<noteq> k" if "0x01140000 \<le> k" for k
    using assms(2) that by auto
  show "last_wr r (sun8i_ui_scaler_disable i t) a = last_wr r t a" for t
    using assms(1) by (auto simp: less_3_cases sun8i_ui_scaler_disable_def mixer_write_def writel_def
        ui_scaler_base_def ne)
  moreover have "last_wr r (sun8i_ui_scaler_setup i u v x y t) a = last_wr r t a" for u v x y
    using assms(1) by (auto simp: less_3_cases sun8i_ui_scaler_setup_def Let_def mixer_write_def writel_def
        ui_scaler_base_def ne upt_16 sun8i_ui_scaler_coef_index_def)
  ultimately show "last_wr r (commit_scaler i c t) a = last_wr r t a"
    by (simp add: commit_scaler_def)
qed

text \<open>The registers of one round: what it writes and what it leaves alone.\<close>

definition chan_regs :: "(addr \<Rightarrow> u32) \<Rightarrow> history \<Rightarrow> nat \<Rightarrow> u32 \<times> u32 \<times> u32 \<times> u32 \<times> u32" where
  "chan_regs r t i = (last_wr r t (de_ui_regs i), last_wr r t (de_ui_regs i + 0x10),
     last_wr r t (de_ui_regs i + 0x0c), last_wr r t (de_ui_regs i + 0x04), last_wr r t (de_ui_regs i + 0x88))"

definition pipe_regs :: "(addr \<Rightarrow> u32) \<Rightarrow> history \<Rightarrow> nat \<Rightarrow> u32 \<times> u32 \<times> u32" where
  "pipe_regs r t k = (last_wr r t (bld_attr k + 0x04), last_wr r t (bld_attr k + 0x08), last_wr r t (bld_mode k))"

lemma last_writes:
  assumes "k < 4"
  shows "pipe_regs r (Wr (MUX0_BASE + 0x08) v # t) k = pipe_regs r t k"
    "pipe_regs r (Wr BLD_REGS v # t) k = pipe_regs r t k"
    "pipe_regs r (Wr (BLD_REGS + 0x80) v # t) k = pipe_regs r t k"
  using assms by (auto simp: less_4_cases pipe_regs_def bld_attr_def bld_mode_def)

lemma last_writes_chan:
  assumes "i < 3"
  shows "chan_regs r (Wr (MUX0_BASE + 0x08) v # t) i = chan_regs r t i"
    "chan_regs r (Wr BLD_REGS v # t) i = chan_regs r t i"
    "chan_regs r (Wr (BLD_REGS + 0x80) v # t) i = chan_regs r t i"
  using assms [unfolded less_3_cases] by (elim disjE; simp add: chan_regs_def de_ui_regs_def)+

lemma plane_hidden:
  assumes "i < 3" "plane_fb p c = 0"
    and "commit_plane resize i p c (k, ro, fc, t) = (k', ro', fc', t')"
  shows "k' = k" "ro' = ro" "fc' = fc" "last_wr r t' (de_ui_regs i) = 0"
    "\<And>j. j < 3 \<Longrightarrow> j \<noteq> i \<Longrightarrow> chan_regs r t' j = chan_regs r t j"
    "\<And>j. j < 3 \<Longrightarrow> pipe_regs r t' j = pipe_regs r t j"
proof -
  have t': "t' = (if resize then sun8i_ui_scaler_disable i (Wr (de_ui_regs i) 0 # t) else Wr (de_ui_regs i) 0 # t)"
    and "k' = k" "ro' = ro" "fc' = fc"
    using assms(2,3) by (auto simp: commit_plane_def writel_def Let_def split: if_splits)
  have frame: "last_wr r t' a = last_wr r (Wr (de_ui_regs i) 0 # t) a" if "a < 0x01140000" for a
    by (simp add: t' scaler_frame(1) [OF assms(1) that] del: last_wr.simps)
  show "k' = k" "ro' = ro" "fc' = fc" by fact+
  show "last_wr r t' (de_ui_regs i) = 0"
    using assms(1) by (auto simp: less_3_cases frame de_ui_regs_def)
  show "chan_regs r t' j = chan_regs r t j" if "j < 3" "j \<noteq> i" for j
    using assms(1) that by (auto simp: less_3_cases frame de_ui_regs_def chan_regs_def)
  show "pipe_regs r t' j = pipe_regs r t j" if "j < 3" for j
    using assms(1) that by (auto simp: less_3_cases frame de_ui_regs_def pipe_regs_def bld_attr_def bld_mode_def)
qed

lemma plane_shown:
  assumes "i < 3" "k < 3" "plane_fb p c \<noteq> 0"
    and "commit_plane resize i p c (k, ro, fc, t) = (k', ro', fc', t')"
  shows "k' = Suc k" "ro' = ro OR push_bit (k * 4) (of_nat (i + 1))"
    "chan_regs r t' i = (plane_attr i p, plane_fb p c, fb_pitch p, SUNXI_DE2_WH (c_sw c) (c_sh c), SUNXI_DE2_WH (c_sw c) (c_sh c))"
    "pipe_regs r t' k = (SUNXI_DE2_WH (c_dw c) (c_dh c), SUNXI_DE2_XY (c_dx c) (c_dy c), 0x03010301)"
    "\<And>j. j < 3 \<Longrightarrow> j \<noteq> i \<Longrightarrow> chan_regs r t' j = chan_regs r t j"
    "\<And>j. j < 3 \<Longrightarrow> j \<noteq> k \<Longrightarrow> pipe_regs r t' j = pipe_regs r t j"
proof -
  let ?t = "commit_blender i k c (commit_overlay i p c t)"
  have t': "t' = (if resize then commit_scaler i c ?t else ?t)"
    and "k' = Suc k" "ro' = ro OR push_bit (k * 4) (of_nat (i + 1))"
    using assms(3,4) by (auto simp: commit_plane_def Let_def split: if_splits)
  have frame: "last_wr r t' a = last_wr r ?t a" if "a < 0x01140000" for a
    using scaler_frame [OF assms(1) that] by (simp add: t')
  note defs = frame chan_regs_def pipe_regs_def de_ui_regs_def bld_attr_def bld_mode_def
    commit_blender_def commit_overlay_def writel_def Let_def
  show "k' = Suc k" "ro' = ro OR push_bit (k * 4) (of_nat (i + 1))" by fact+
  show "chan_regs r t' i = (plane_attr i p, plane_fb p c, fb_pitch p, SUNXI_DE2_WH (c_sw c) (c_sh c), SUNXI_DE2_WH (c_sw c) (c_sh c))"
    "pipe_regs r t' k = (SUNXI_DE2_WH (c_dw c) (c_dh c), SUNXI_DE2_XY (c_dx c) (c_dy c), 0x03010301)"
    using assms(1,2) by (auto simp: less_3_cases defs)
  show "chan_regs r t' j = chan_regs r t j" if "j < 3" "j \<noteq> i" for j
    using assms(1,2) that by (auto simp: less_3_cases defs)
  show "pipe_regs r t' j = pipe_regs r t j" if "j < 3" "j \<noteq> k" for j
    using assms(1,2) that by (auto simp: less_3_cases defs)
qed

definition shown :: "display_plane \<Rightarrow> bool" where
  "shown p \<longleftrightarrow> plane_fb p (clip_plane p) \<noteq> 0"

text \<open>The blender pipe of plane \<open>j\<close>: the number of planes below it that are shown.\<close>

definition pipe_of :: "display_plane list \<Rightarrow> nat \<Rightarrow> nat" where
  "pipe_of ps j = length (filter shown (take j ps))"

fun route_of :: "nat \<Rightarrow> nat \<Rightarrow> display_plane list \<Rightarrow> u32" where
  "route_of i k [] = 0"
| "route_of i k (p # ps) =
     (if shown p then push_bit (k * 4) (of_nat (i + 1)) OR route_of (Suc i) (Suc k) ps
      else route_of (Suc i) k ps)"

definition plane_done :: "(addr \<Rightarrow> u32) \<Rightarrow> history \<Rightarrow> nat \<Rightarrow> nat \<Rightarrow> display_plane \<Rightarrow> clipped \<Rightarrow> bool" where
  "plane_done r t i k p c \<longleftrightarrow>
     (if plane_fb p c = 0 then last_wr r t (de_ui_regs i) = 0
      else chan_regs r t i = (plane_attr i p, plane_fb p c, fb_pitch p,
             SUNXI_DE2_WH (c_sw c) (c_sh c), SUNXI_DE2_WH (c_sw c) (c_sh c)) \<and>
           pipe_regs r t k = (SUNXI_DE2_WH (c_dw c) (c_dh c), SUNXI_DE2_XY (c_dx c) (c_dy c), 0x03010301))"

lemma pipe_of_0 [simp]: "pipe_of ps 0 = 0"
  by (simp add: pipe_of_def)

lemma plane_done_cong:
  assumes "chan_regs r t' i = chan_regs r t i" "pipe_regs r t' k = pipe_regs r t k"
  shows "plane_done r t' i k p c = plane_done r t i k p c"
  using assms by (simp add: plane_done_def chan_regs_def)

lemma commit_planes_regs:
  assumes "commit_planes resize i ps (k, ro, fc, t) = (k', ro', fc', t')" "i + length ps \<le> 3" "k \<le> i"
  shows "ro' = ro OR route_of i k ps \<and>
    (\<forall>j < i. chan_regs r t' j = chan_regs r t j) \<and> (\<forall>j < k. pipe_regs r t' j = pipe_regs r t j) \<and>
    (\<forall>j < length ps. plane_done r t' (i + j) (k + pipe_of ps j) (ps ! j) (clip_plane (ps ! j)))"
  using assms
proof (induction ps arbitrary: i k ro fc t)
  case Nil
  then show ?case by simp
next
  case (Cons p ps)
  define c where "c = clip_plane p"
  obtain k1 ro1 fc1 t1 where step: "commit_plane resize i p c (k, ro, fc, t) = (k1, ro1, fc1, t1)"
    by (metis prod_cases4)
  have i: "i < 3" "k < 3" "Suc i + length ps \<le> 3"
    using Cons.prems by simp_all
  have here: "k1 = (if shown p then Suc k else k)" "plane_done r t1 i k p c"
    "ro1 OR route_of (Suc i) k1 ps = ro OR route_of i k (p # ps)"
    "\<forall>j < i. chan_regs r t1 j = chan_regs r t j" "\<forall>j < k. pipe_regs r t1 j = pipe_regs r t j"
    using plane_hidden [OF i(1) _ step] plane_shown [OF i(1,2) _ step] i Cons.prems(3)
    by (cases "plane_fb p c = 0"; simp add: shown_def c_def [symmetric] plane_done_def or.assoc)+
  note IH = Cons.IH [of "Suc i" k1 ro1 fc1 t1]
  have rest: "commit_planes resize (Suc i) ps (k1, ro1, fc1, t1) = (k', ro', fc', t')" "k1 \<le> Suc i"
    using Cons.prems(1,3) step here(1) by (auto simp: c_def)
  note IH = IH [OF rest(1) i(3) rest(2)]
  have "plane_done r t' i k p c"
  proof (cases "shown p")
    case True
    then show ?thesis
      using IH here(1,2) plane_done_cong [of r t' i t1 k] by simp
  next
    case False
    then have "plane_fb p c = 0" by (simp add: shown_def c_def)
    moreover have "chan_regs r t' i = chan_regs r t1 i" using IH by simp
    ultimately show ?thesis
      using here(2) by (simp add: plane_done_def chan_regs_def)
  qed
  moreover have "plane_done r t' (i + j) (k + pipe_of (p # ps) j) ((p # ps) ! j) (clip_plane ((p # ps) ! j))"
    if "0 < j" "j < length (p # ps)" for j
    using IH that here(1) by (cases j) (auto simp: pipe_of_def)
  ultimately have "\<forall>j < length (p # ps). plane_done r t' (i + j) (k + pipe_of (p # ps) j) ((p # ps) ! j) (clip_plane ((p # ps) ! j))"
    using c_def by (metis add_0_right gr0I nth_Cons_0 pipe_of_0)
  then show ?case
    using IH here(1,3,4,5) by auto
qed

lemma length_3: "length xs = 3 \<longleftrightarrow> (\<exists>a b c. xs = [a, b, c])"
  by (auto simp: numeral_3_eq_3 length_Suc_conv)

lemma route_nibble:
  assumes "length ps = 3" "j < 3" "shown (ps ! j)"
  shows "drop_bit (4 * pipe_of ps j) (route_of 0 0 ps) AND 0xf = of_nat (j + 1)"
  using assms by (auto simp: length_3 less_3_cases pipe_of_def)

lemma route_above:
  assumes "length ps = 3"
  shows "drop_bit (4 * length (filter shown ps)) (route_of 0 0 ps) = 0"
  using assms by (auto simp: length_3)

lemma pipe_of_less: "length ps = 3 \<Longrightarrow> pipe_of ps j < 4"
  by (rule le_less_trans [of _ "length ps"])
    (auto simp: pipe_of_def intro: order_trans [OF length_filter_le])


text \<open>
  A plane whose destination has width or height zero is hidden, as a zeroed plane must be:
  the quotient of the division by zero is never seen, because the clipped size is zero as well.
\<close>

theorem zero_size_hidden:
  assumes "dst_w p = 0 \<or> dst_h p = 0"
  shows "plane_fb p (clip_plane p) = 0"
  using assms by (auto simp: plane_fb_def clip_plane_def clip_axis_def Let_def)

theorem zero_size_hidden_witness:
  "plane_fb (shifted_plane\<lparr>dst_w := 0\<rparr>) (clip_plane (shifted_plane\<lparr>dst_w := 0\<rparr>)) = 0"
  by (rule zero_size_hidden) simp


section \<open>The mixer after its initialisation\<close>

lemma fold_writel_zero:
  "last_wr r (fold (\<lambda>i. writel 0 (f i)) is t) a = (if a \<in> f ` set is then 0 else last_wr r t a)"
  by (induction "is" arbitrary: t) (auto simp: writel_def)

text \<open>
  \<open>de2_init\<close> leaves the mixer enabled and everything else in its first 24 KiB zero: all channels
  and all blender pipes are off until the first commit.
\<close>

lemma de2_init_clears:
  assumes "de2_init d t = Some t'" "i < 0x1800"
  shows "last_wr r t' (MUX0_BASE + of_nat (4 * i)) = of_bool (i = 0)"
proof -
  obtain t1 where t': "t' = Wr MUX0_BASE 1 # de2_clear t1"
    using assms(1) by (auto simp: de2_init_def Let_def writel_def bind_eq_Some_conv split: prod.splits)
  have inj: "MUX0_BASE + of_nat (4 * i) = MUX0_BASE \<longleftrightarrow> i = 0"
  proof -
    have "unat (of_nat (4 * i) :: u32) = 4 * i"
      using assms(2) by (simp add: unsigned_of_nat take_bit_nat_eq_self del: of_nat_mult)
    then have "(of_nat (4 * i) :: u32) = 0 \<longleftrightarrow> i = 0"
      by (metis mult_eq_0_iff unat_eq_zero zero_neq_numeral)
    then show ?thesis by simp
  qed
  have "last_wr r (de2_clear t1) (MUX0_BASE + of_nat (4 * i)) = 0"
    using assms(2) unfolding de2_clear_def fold_writel_zero by auto
  with inj show ?thesis
    unfolding t' by (simp del: of_nat_mult)
qed

end
