(* ===== verification/Mmu.thy ===== *)
theory Mmu
  imports Prelude
begin

text \<open>
  The identity map of \<open>src/src/mmu.c\<close>: a level 1 table with three 1 GiB blocks and a link to a
  level 2 table of 2 MiB blocks, both in the last 8 KiB of the DRAM. The memory that holds them is
  a function from the address of an aligned doubleword to its value; the assembly statements are
  a list, the oldest first. The walk of the tables by the processor, for a granule of 4 KiB and
  32 bits of address, is the specification that the tables are read with.
\<close>

section \<open>The tables\<close>

type_synonym dmem = "u64 \<Rightarrow> u64"

definition MAIR_DEV_nGnRE :: u64 where "MAIR_DEV_nGnRE = 0x4"
definition MAIR_NORM_NC :: u64 where "MAIR_NORM_NC = 0x4"
definition MAIR_NORM_WB_NTR_RWA :: u64 where "MAIR_NORM_WB_NTR_RWA = 0xf"

definition MAIR_MEM :: "u64 \<Rightarrow> u64 \<Rightarrow> u64" where
  "MAIR_MEM inner outer = inner OR push_bit 4 outer"

definition MAIR_ATTR :: "nat \<Rightarrow> u64 \<Rightarrow> u64" where
  "MAIR_ATTR index attr = push_bit (index * 8) attr"

definition ATTR_NORMAL :: nat where "ATTR_NORMAL = 0x0"
definition ATTR_DEV :: nat where "ATTR_DEV = 0x1"
definition ATTR_NC :: nat where "ATTR_NC = 0x2"

definition LOWER_ATTRS :: "u64 \<Rightarrow> u64" where
  "LOWER_ATTRS x = push_bit 2 (x AND 0xfff)"

definition AP_RW :: u64 where "AP_RW = push_bit 5 0"
definition AP_ONE_VA_RANGE_RES1 :: u64 where "AP_ONE_VA_RANGE_RES1 = push_bit 4 1"
definition ACCESS_FLAG :: u64 where "ACCESS_FLAG = push_bit 8 1"
definition OSH :: u64 where "OSH = push_bit 6 2"
definition ISH :: u64 where "ISH = push_bit 6 3"

definition PTE_DEV :: "u64 \<Rightarrow> u64" where
  "PTE_DEV pa = 0x1 OR pa OR LOWER_ATTRS (ACCESS_FLAG OR OSH OR AP_RW OR AP_ONE_VA_RANGE_RES1 OR of_nat ATTR_DEV)"

definition PTE_MEM :: "u64 \<Rightarrow> u64" where
  "PTE_MEM pa = 0x1 OR pa OR LOWER_ATTRS (ACCESS_FLAG OR ISH OR AP_RW OR AP_ONE_VA_RANGE_RES1 OR of_nat ATTR_NORMAL)"

definition PTE_TAB :: "u64 \<Rightarrow> u64" where
  "PTE_TAB pa = 0x3 OR pa"

definition mmu_mair :: u64 where
  "mmu_mair = MAIR_ATTR ATTR_DEV MAIR_DEV_nGnRE OR
     MAIR_ATTR ATTR_NORMAL (MAIR_MEM MAIR_NORM_WB_NTR_RWA MAIR_NORM_WB_NTR_RWA) OR
     MAIR_ATTR ATTR_NC (MAIR_MEM MAIR_NORM_NC MAIR_NORM_NC)"

definition mmu_tcr :: u64 where
  "mmu_tcr = 32 OR push_bit 14 0 OR push_bit 12 0x3 OR push_bit 10 0x1 OR push_bit 8 0x1 OR
     (push_bit 31 1 OR push_bit 23 1) OR push_bit 16 0"

definition tt_base :: "u64 \<Rightarrow> u64" where
  "tt_base dram_size = 0x40000000 + dram_size - 4096 * 2"

text \<open>\<open>*l++ = pte(i)\<close> for each \<open>i\<close>: the pointer moves on by a doubleword.\<close>

definition push_entry :: "(nat \<Rightarrow> u64) \<Rightarrow> nat \<Rightarrow> u64 \<times> dmem \<Rightarrow> u64 \<times> dmem" where
  "push_entry pte i = (\<lambda>(l, m). (l + 8, m(l := pte i)))"

definition mmu_tables :: "u64 \<Rightarrow> dmem \<Rightarrow> dmem" where
  "mmu_tables dram_size m =
     (let l1 = tt_base dram_size;
          l2 = tt_base dram_size + 8 * 512;
          (l1, m) = push_entry (\<lambda>_. PTE_TAB l2) 0 (l1, m);
          (l1, m) = fold (push_entry (\<lambda>i. PTE_MEM (push_bit 20 (1024 * of_nat i)))) [1..<4] (l1, m);
          (l2, m) = push_entry (\<lambda>_. PTE_MEM (push_bit 20 (2 * 0))) 0 (l2, m);
          (l2, m) = fold (push_entry (\<lambda>i. PTE_DEV (push_bit 20 (2 * of_nat i)))) [1..<512] (l2, m)
      in m)"

datatype sysreg = MAIR_EL3 | TCR_EL3 | TTBR0_EL3 | SCTLR_EL3
datatype asm = Dsb_ishst | Tlbi_alle3 | Msr sysreg u64 | Dsb_ish | Isb

text \<open>\<open>sctlr\<close> is what \<open>mrs\<close> reads.\<close>

definition mmu_setup :: "u64 \<Rightarrow> u64 \<Rightarrow> dmem \<Rightarrow> dmem \<times> asm list" where
  "mmu_setup sctlr dram_size m =
     (mmu_tables dram_size m,
      [Dsb_ishst, Tlbi_alle3, Msr MAIR_EL3 mmu_mair, Msr TCR_EL3 mmu_tcr,
       Msr TTBR0_EL3 (tt_base dram_size), Dsb_ish, Isb,
       Msr SCTLR_EL3 (sctlr OR (push_bit 2 1 OR push_bit 0 1)), Isb])"

section \<open>The walk\<close>

text \<open>
  Address translation from level 1 with a 4 KiB granule: descriptor bits 1 and 0 tell a block
  (1) from a table (3), bit 10 is the access flag, bits 4 to 2 the attribute index. The result
  is the physical address and the attribute byte of \<open>MAIR_EL3\<close>.
\<close>

definition mair_attr :: "u64 \<Rightarrow> u64 \<Rightarrow> u64" where
  "mair_attr mair desc = drop_bit (8 * unat (drop_bit 2 desc AND 7)) mair AND 0xff"

definition block :: "nat \<Rightarrow> u64 \<Rightarrow> u64 \<Rightarrow> u64 \<Rightarrow> (u64 \<times> u64) option" where
  "block n mair desc va =
     (if \<not> bit desc 10 then None
      else Some (desc AND (mask 48 AND NOT (mask n)) OR va AND mask n, mair_attr mair desc))"

definition walk :: "u64 \<Rightarrow> u64 \<Rightarrow> dmem \<Rightarrow> u64 \<Rightarrow> (u64 \<times> u64) option" where
  "walk mair ttbr m va =
     (if drop_bit 32 va \<noteq> 0 then None
      else
        let desc = m (ttbr + 8 * (drop_bit 30 va AND 0x1ff))
        in if desc AND 3 = 1 then block 30 mair desc va
           else if desc AND 3 = 3 then
             (let desc2 = m ((desc AND (mask 48 AND NOT (mask 12))) + 8 * (drop_bit 21 va AND 0x1ff))
              in if desc2 AND 3 = 1 then block 21 mair desc2 va else None)
           else None)"

section \<open>The map is the identity\<close>

lemma of_nat_8_inject:
  assumes "j < 2 ^ 32" "k < 2 ^ 32"
  shows "(8 * of_nat j :: u64) = 8 * of_nat k \<longleftrightarrow> j = k"
proof -
  have "(of_nat (8 * j) :: u64) = of_nat (8 * k) \<longleftrightarrow> 8 * j = 8 * k"
    using assms by (simp add: word_of_nat_eq_iff take_bit_nat_eq_self del: of_nat_mult)
  then show ?thesis by simp
qed

lemma push_entry_eq [simp]: "push_entry pte i (l, m) = (l + 8, m(l := pte i))"
  by (simp add: push_entry_def)

lemma fold_push_entry:
  assumes "n \<le> 512"
  shows "\<exists>m'. fold (push_entry pte) [0..<n] (l, m) = (l + 8 * of_nat n, m') \<and>
    (\<forall>k < n. m' (l + 8 * of_nat k) = pte k) \<and> (\<forall>a. (\<forall>k < n. a \<noteq> l + 8 * of_nat k) \<longrightarrow> m' a = m a)"
  using assms
proof (induction n)
  case 0
  then show ?case by simp
next
  case (Suc n)
  then obtain m' where m': "fold (push_entry pte) [0..<n] (l, m) = (l + 8 * of_nat n, m')"
    "\<forall>k < n. m' (l + 8 * of_nat k) = pte k" "\<forall>a. (\<forall>k < n. a \<noteq> l + 8 * of_nat k) \<longrightarrow> m' a = m a"
    by auto
  have ne: "l + 8 * of_nat k \<noteq> l + 8 * of_nat n" if "k < n" for k
    using of_nat_8_inject [of k n] that Suc.prems by simp
  show ?case
    using m' ne by (intro exI [of _ "m'(l + 8 * of_nat n := pte n)"]) (auto simp: less_Suc_eq algebra_simps)
qed

lemma fold_from_1:
  assumes "0 < n"
  shows "fold (push_entry p) [1..<n] (push_entry q 0 s) = fold (push_entry (\<lambda>i. if i = 0 then q 0 else p i)) [0..<n] s"
proof -
  have "fold (push_entry p) [1..<n] t = fold (push_entry (\<lambda>i. if i = 0 then q 0 else p i)) [1..<n] t" for t
    by (rule fold_cong) (auto simp: push_entry_def)
  moreover have "push_entry (\<lambda>i. if i = 0 then q 0 else p i) 0 s = push_entry q 0 s"
    by (simp add: push_entry_def)
  ultimately show ?thesis
    using assms by (simp add: upt_conv_Cons)
qed

definition l1_entry :: "u64 \<Rightarrow> nat \<Rightarrow> u64" where
  "l1_entry l2 i = (if i = 0 then PTE_TAB l2 else PTE_MEM (push_bit 20 (1024 * of_nat i)))"

definition l2_entry :: "nat \<Rightarrow> u64" where
  "l2_entry i = (if i = 0 then PTE_MEM (push_bit 20 (2 * 0)) else PTE_DEV (push_bit 20 (2 * of_nat i)))"

lemma mmu_tables_fold:
  "mmu_tables dram_size m =
    (let l2 = tt_base dram_size + 8 * 512;
         (l1, m) = fold (push_entry (l1_entry l2)) [0..<4] (tt_base dram_size, m);
         (l2, m) = fold (push_entry l2_entry) [0..<512] (l2, m)
     in m)"
  unfolding mmu_tables_def Let_def l1_entry_def l2_entry_def
  by (simp only: case_prod_beta prod.collapse fold_from_1 [of 4, OF zero_less_numeral] fold_from_1 [of 512, OF zero_less_numeral])

lemma mmu_tables_entries:
  fixes dram_size :: u64
  defines "l1 \<equiv> tt_base dram_size"
  shows "i < 4 \<Longrightarrow> mmu_tables dram_size m (l1 + 8 * of_nat i) = l1_entry (l1 + 8 * 512) i"
    "j < 512 \<Longrightarrow> mmu_tables dram_size m (l1 + 8 * 512 + 8 * of_nat j) = l2_entry j"
proof -
  obtain m1 where m1: "fold (push_entry (l1_entry (l1 + 8 * 512))) [0..<4] (l1, m) = (l1 + 8 * of_nat 4, m1)"
    "\<forall>k < 4. m1 (l1 + 8 * of_nat k) = l1_entry (l1 + 8 * 512) k"
    using fold_push_entry [of 4 "l1_entry (l1 + 8 * 512)" l1 m] by auto
  obtain m2 where m2: "fold (push_entry l2_entry) [0..<512] (l1 + 8 * 512, m1) = (l1 + 8 * 512 + 8 * of_nat 512, m2)"
    "\<forall>k < 512. m2 (l1 + 8 * 512 + 8 * of_nat k) = l2_entry k"
    "\<forall>a. (\<forall>k < 512. a \<noteq> l1 + 8 * 512 + 8 * of_nat k) \<longrightarrow> m2 a = m1 a"
    using fold_push_entry [of 512 l2_entry "l1 + 8 * 512" m1] by auto
  have m: "mmu_tables dram_size m = m2"
    unfolding mmu_tables_fold Let_def l1_def [symmetric] by (simp only: m1(1) m2(1) prod.case)
  have ne: "l1 + 8 * of_nat i \<noteq> l1 + 8 * 512 + 8 * of_nat k" if "i < 4" "k < 512" for i k
    using of_nat_8_inject [of i "512 + k"] that by (simp add: algebra_simps)
  show "mmu_tables dram_size m (l1 + 8 * of_nat i) = l1_entry (l1 + 8 * 512) i" if "i < 4"
    using m1(2) m2(3) ne that by (simp add: m)
  show "mmu_tables dram_size m (l1 + 8 * 512 + 8 * of_nat j) = l2_entry j" if "j < 512"
    using m2(2) that by (simp add: m)
qed

lemma bit_low: "bit (3 :: int) k \<longleftrightarrow> k < 2" "bit (7 :: int) k \<longleftrightarrow> k < 3" "bit (0xfff :: int) k \<longleftrightarrow> k < 12"
proof -
  have "3 = (mask 2 :: int)" "7 = (mask 3 :: int)" "0xfff = (mask 12 :: int)"
    by (simp_all add: mask_eq_exp_minus_1)
  then show "bit (3 :: int) k \<longleftrightarrow> k < 2" "bit (7 :: int) k \<longleftrightarrow> k < 3" "bit (0xfff :: int) k \<longleftrightarrow> k < 12"
    by (simp_all only: bit_mask_iff) auto
qed

lemma drop_bit_0_bit:
  fixes va :: u64
  assumes "drop_bit n va = 0" "bit va k"
  shows "k < n"
proof (rule ccontr)
  assume "\<not> k < n"
  then have "bit (drop_bit n va) (k - n)"
    using assms(2) by (simp add: bit_drop_bit_eq)
  with assms(1) show False by simp
qed

text \<open>A block descriptor for the page of \<open>va\<close> translates \<open>va\<close> to itself.\<close>

lemma block_identity:
  assumes "desc = push_bit n (drop_bit n va) OR c" "10 < n" "bit c 10" "c AND NOT (mask n) = 0" "drop_bit 48 va = 0"
  shows "block n mair desc va = Some (va, mair_attr mair c)" "desc AND 3 = c AND 3"
proof -
  have low: "\<not> bit c (n + k)" if "n + k < 64" for k
    using arg_cong [OF assms(4), of "\<lambda>w. bit w (n + k)"] that by (simp add: bit_and_iff bit_not_iff bit_mask_iff)
  have "desc AND (mask 48 AND NOT (mask n)) OR va AND mask n = va"
  proof (rule bit_word_eqI)
    fix k assume k: "k < LENGTH(64)"
    have "\<not> bit c k" if "n \<le> k" using low [of "k - n"] k that by simp
    moreover have "k < 48" if "bit va k" using drop_bit_0_bit [OF assms(5) that] .
    ultimately show "bit (desc AND (mask 48 AND NOT (mask n)) OR va AND mask n) k = bit va k"
      using k by (auto simp: assms(1) bit_or_iff bit_and_iff bit_not_iff bit_mask_iff bit_push_bit_iff bit_drop_bit_eq)
  qed
  moreover have "drop_bit 2 desc AND 7 = drop_bit 2 c AND 7"
  proof (rule bit_word_eqI)
    fix k assume "k < LENGTH(64)"
    show "bit (drop_bit 2 desc AND 7) k = bit (drop_bit 2 c AND 7) k"
      using assms(2) by (auto simp: assms(1) bit_or_iff bit_and_iff bit_push_bit_iff bit_drop_bit_eq
          bit_low)
  qed
  ultimately show "block n mair desc va = Some (va, mair_attr mair c)"
    using assms(2,3) by (simp add: block_def mair_attr_def assms(1) bit_or_iff)
  show "desc AND 3 = c AND 3"
  proof (rule bit_word_eqI)
    fix k assume "k < LENGTH(64)"
    show "bit (desc AND 3) k = bit (c AND 3) k"
      using assms(2) by (auto simp: assms(1) bit_or_iff bit_and_iff bit_push_bit_iff bit_drop_bit_eq
          bit_low)
  qed
qed

text \<open>The constant parts of the two kinds of block descriptor.\<close>

definition mem_bits :: u64 where "mem_bits = 0x741"
definition dev_bits :: u64 where "dev_bits = 0x645"

lemma PTE_bits: "PTE_MEM pa = pa OR mem_bits" "PTE_DEV pa = pa OR dev_bits"
proof -
  have "PTE_MEM pa = pa OR (0x1 OR LOWER_ATTRS (ACCESS_FLAG OR ISH OR AP_RW OR AP_ONE_VA_RANGE_RES1 OR of_nat ATTR_NORMAL))"
    "PTE_DEV pa = pa OR (0x1 OR LOWER_ATTRS (ACCESS_FLAG OR OSH OR AP_RW OR AP_ONE_VA_RANGE_RES1 OR of_nat ATTR_DEV))"
    by (simp_all only: PTE_MEM_def PTE_DEV_def ac_simps)
  then show "PTE_MEM pa = pa OR mem_bits" "PTE_DEV pa = pa OR dev_bits"
    by (simp_all add: LOWER_ATTRS_def ACCESS_FLAG_def ISH_def OSH_def AP_RW_def AP_ONE_VA_RANGE_RES1_def
        ATTR_NORMAL_def ATTR_DEV_def mem_bits_def dev_bits_def)
qed

lemma mair_attr_bits: "mair_attr mmu_mair mem_bits = 0xff" "mair_attr mmu_mair dev_bits = 0x04"
  by (simp_all add: mair_attr_def mem_bits_def dev_bits_def mmu_mair_def MAIR_ATTR_def MAIR_MEM_def ATTR_DEV_def
      ATTR_NORMAL_def ATTR_NC_def MAIR_DEV_nGnRE_def MAIR_NORM_WB_NTR_RWA_def MAIR_NORM_NC_def)

lemma const_bits:
  "bit mem_bits 10" "mem_bits AND 3 = 1" "mem_bits AND NOT (mask 30) = 0" "mem_bits AND NOT (mask 21) = 0"
  "bit dev_bits 10" "dev_bits AND 3 = 1" "dev_bits AND NOT (mask 21) = 0"
  by (simp_all add: mem_bits_def dev_bits_def mask_eq_exp_minus_1)

lemma block_addr: "push_bit 20 (1024 * x) = push_bit 30 x" "push_bit 20 (2 * x) = push_bit 21 x" for x :: u64
  by (simp_all add: push_bit_eq_mult)

lemma drop_bit_less:
  fixes va :: u64
  assumes "unat va < 2 ^ (n + k)"
  shows "unat (drop_bit n va) < 2 ^ k"
proof -
  have "unat va div 2 ^ n < 2 ^ k"
    using assms by (intro less_mult_imp_div_less) (simp add: power_add mult.commute)
  then show ?thesis
    by (simp add: unat_drop_bit_eq flip: drop_bit_eq_div)
qed

lemma unat_drop: "unat (drop_bit n w) = unat w div 2 ^ n" for w :: u64
  by (subst unat_drop_bit_eq) (rule drop_bit_eq_div)

lemma unat_take: "unat (take_bit n w) = take_bit n (unat w)" for w :: u64
  by (rule unsigned_take_bit_eq)

lemma index_mask:
  fixes w :: u64
  assumes "unat w < 512"
  shows "w AND 0x1ff = w"
proof -
  have "w AND 0x1ff = take_bit 9 w"
    by (simp add: take_bit_eq_mask mask_eq_exp_minus_1)
  moreover have "unat (take_bit 9 w) = unat w"
    using assms unat_take [of 9 w] by (simp add: take_bit_nat_eq_self)
  ultimately show ?thesis by (simp add: word_unat_eq_iff)
qed

lemma numeral_pow_12: "(2 :: nat) ^ 12 = 4096"
  by simp

text \<open>The link to the level 2 table.\<close>

lemma table_address:
  assumes "l2 AND 0xfff = 0" "unat l2 < 2 ^ 48"
  shows "PTE_TAB l2 AND 3 = 3" "PTE_TAB l2 AND (mask 48 AND NOT (mask 12)) = l2"
proof -
  have low: "12 \<le> k" if "bit l2 k" for k
    using arg_cong [OF assms(1), of "\<lambda>w. bit w k"] that bit_imp_le_length [OF that]
    by (simp add: bit_and_iff bit_low)
  have "unat (drop_bit 48 l2) = 0"
    using drop_bit_less [of l2 48 0] assms(2) by simp
  then have high: "k < 48" if "bit l2 k" for k
    using drop_bit_0_bit [OF _ that] by (simp add: unat_eq_zero)
  show "PTE_TAB l2 AND 3 = 3"
    by (rule bit_word_eqI) (auto simp: PTE_TAB_def bit_and_iff bit_or_iff)
  show "PTE_TAB l2 AND (mask 48 AND NOT (mask 12)) = l2"
    using low high
    by (intro bit_word_eqI) (auto simp: PTE_TAB_def bit_and_iff bit_or_iff bit_not_iff bit_mask_iff not_less
        bit_low)
qed

definition mem_attr :: "u64 \<Rightarrow> u64" where
  "mem_attr va = (if unat va < 0x200000 \<or> 0x40000000 \<le> unat va then 0xff else 0x04)"

lemma tt_base_facts:
  assumes "dram_size AND 0xfff = 0" "0x2000 \<le> unat dram_size" "unat dram_size \<le> 0xc0000000"
  shows "unat (tt_base dram_size) = 0x3fffe000 + unat dram_size" "unat (tt_base dram_size + 8 * 512) < 2 ^ 48"
    "(tt_base dram_size + 8 * 512) AND 0xfff = 0"
proof -
  have "tt_base dram_size = of_nat (0x3fffe000 + unat dram_size)"
    by (simp add: tt_base_def)
  then show 1: "unat (tt_base dram_size) = 0x3fffe000 + unat dram_size"
    using assms(3) by (simp add: unsigned_of_nat take_bit_nat_eq_self del: of_nat_add)
  have eq: "tt_base dram_size + 8 * 512 = of_nat (0x3ffff000 + unat dram_size)"
    by (simp add: tt_base_def)
  then have 2: "unat (tt_base dram_size + 8 * 512) = 0x3ffff000 + unat dram_size"
    using assms(3) by (simp add: unsigned_of_nat take_bit_nat_eq_self del: of_nat_add)
  then show "unat (tt_base dram_size + 8 * 512) < 2 ^ 48"
    using assms(3) by simp
  have and_mod: "x AND 0xfff = 0 \<longleftrightarrow> unat x mod 4096 = 0" for x :: u64
  proof -
    have eq: "x AND 0xfff = take_bit 12 x"
      by (simp add: take_bit_eq_mask mask_eq_exp_minus_1)
    show ?thesis
      unfolding eq unat_eq_zero [symmetric] unat_take
      unfolding take_bit_eq_mod numeral_pow_12 ..
  qed
  show "(tt_base dram_size + 8 * 512) AND 0xfff = 0"
    using assms(1) mod_mult_self1 [of "unat dram_size" "0x3ffff" 4096] unfolding and_mod 2 by (simp add: add.commute)
qed

text \<open>
  C29: with the tables of \<open>mmu_setup\<close> every address below 4 GiB translates to itself: DRAM and the
  first 2 MiB as cacheable memory, everything else as device memory. The tables are read through
  \<open>ttbr0_el3\<close> and \<open>mair_el3\<close> as \<open>mmu_setup\<close> sets them, for any DRAM size of whole pages up to
  3 GiB.
\<close>

theorem mmu_identity:
  assumes dram: "dram_size AND 0xfff = 0" "0x2000 \<le> unat dram_size" "unat dram_size \<le> 0xc0000000"
    and va: "unat va < 2 ^ 32"
  shows "walk mmu_mair (tt_base dram_size) (fst (mmu_setup sctlr dram_size m)) va = Some (va, mem_attr va)"
proof -
  define i where "i = unat (drop_bit 30 va)"
  define l2 where "l2 = tt_base dram_size + 8 * 512"
  have i: "i < 4" "drop_bit 30 va = of_nat i"
    using drop_bit_less [of va 30 2] va by (simp_all add: i_def)
  have idx: "drop_bit 30 va AND 0x1ff = of_nat i"
    using index_mask [of "drop_bit 30 va", folded i_def] i unfolding i(2) by simp
  have high: "drop_bit 32 va = 0" "drop_bit 48 va = 0"
    using drop_bit_less [of va 32 0] drop_bit_less [of va 48 0] va by (simp_all add: unat_eq_zero)
  note l1 = mmu_tables_entries(1) [OF i(1), of dram_size m, folded l2_def]
  show ?thesis
  proof (cases "i = 0")
    case False
    then have desc: "l1_entry l2 i = push_bit 30 (drop_bit 30 va) OR mem_bits"
      by (simp add: l1_entry_def PTE_bits block_addr i(2))
    have "0x40000000 \<le> unat va"
      using False unfolding i_def unat_drop by (simp add: div_eq_0_iff not_less)
    then show ?thesis
      using block_identity(1) [OF desc, of mmu_mair] block_identity(2) [OF desc] high
      by (simp add: walk_def mmu_setup_def idx l1 mem_attr_def mair_attr_bits const_bits Let_def)
  next
    case True
    define j where "j = unat (drop_bit 21 va)"
    have "unat va < 2 ^ 30"
      using True unfolding i_def unat_drop by (simp add: div_eq_0_iff)
    then have j: "j < 512" "drop_bit 21 va = of_nat j"
      using drop_bit_less [of va 21 9] by (simp_all add: j_def)
    have jdx: "drop_bit 21 va AND 0x1ff = of_nat j"
      using index_mask [of "drop_bit 21 va", folded j_def] j unfolding j(2) by simp
    note l2 = mmu_tables_entries(2) [OF j(1), of dram_size m, folded l2_def]
    note link = table_address [OF tt_base_facts(3,2) [OF dram, folded l2_def]]
    have walk: "walk mmu_mair (tt_base dram_size) (fst (mmu_setup sctlr dram_size m)) va =
        (if l2_entry j AND 3 = 1 then block 21 mmu_mair (l2_entry j) va else None)"
      using True l1 by (simp add: walk_def mmu_setup_def idx jdx high l2 link l1_entry_def Let_def)
    have attr: "mem_attr va = (if j = 0 then 0xff else 0x04)"
      using \<open>unat va < 2 ^ 30\<close> unfolding j_def unat_drop by (simp add: mem_attr_def div_eq_0_iff)
    show ?thesis
    proof (cases "j = 0")
      case True
      then have "l2_entry j = push_bit 21 (drop_bit 21 va) OR mem_bits"
        by (simp add: l2_entry_def PTE_bits j(2))
      from block_identity(1) [OF this, of mmu_mair] block_identity(2) [OF this] show ?thesis
        using True walk attr high by (simp add: mair_attr_bits const_bits)
    next
      case False
      then have "l2_entry j = push_bit 21 (drop_bit 21 va) OR dev_bits"
        by (simp add: l2_entry_def PTE_bits j(2) block_addr)
      from block_identity(1) [OF this, of mmu_mair] block_identity(2) [OF this] show ?thesis
        using False walk attr high by (simp add: mair_attr_bits const_bits)
    qed
  qed
qed

theorem mmu_identity_witness:
  "walk mmu_mair (tt_base 0x80000000) (fst (mmu_setup 0 0x80000000 (\<lambda>_. 0))) 0x01c20000 = Some (0x01c20000, 0x04)"
  using mmu_identity [of "0x80000000" "0x01c20000" 0 "\<lambda>_. 0"] by (simp add: mem_attr_def)

end
