(* ===== verification/Rle.thy ===== *)
theory Rle
  imports Heap
begin

text \<open>
  The run-length code of the console font: the encoder \<open>rle\<close> of \<open>src/src/fonts/mkbin.c\<close>, the size
  that \<open>enc_size\<close> computes for it, and the decoder \<open>unrle\<close> of \<open>src/src/vidconsole.c\<close>. The
  encoder reads one byte past its input; it runs on a static array, so the bytes there are zero,
  and the input is a list with zeros behind it. The decoder works on byte-addressed memory.
\<close>

section \<open>The encoder\<close>

text \<open>\<open>pin[0]\<close> when \<open>pin\<close> is at the start of the list.\<close>

fun pin0 :: "u8 list \<Rightarrow> u8" where
  "pin0 [] = 0"
| "pin0 (x # xs) = x"

text \<open>
  \<open>while (pin[0] != pin[1])\<close> with the break at the end of the input and after 127 bytes: the bytes
  skipped and what is left.
\<close>

fun lits :: "nat \<Rightarrow> u8 list \<Rightarrow> u8 list \<times> u8 list" where
  "lits n [] = ([], [])"
| "lits n (x # xs) =
     (if x \<noteq> pin0 xs \<and> \<not> n > 0x7f - 1
      then (let (ls, rest) = lits (Suc n) xs in (x # ls, rest))
      else ([], x # xs))"

lemma lits_length: "length (snd (lits n xs)) \<le> length xs"
  by (induction n xs rule: lits.induct) (auto simp: case_prod_beta)

lemma lits_progress:
  "x \<noteq> pin0 xs \<Longrightarrow> n \<le> 0x7f - 1 \<Longrightarrow> length (snd (lits n (x # xs))) < length (x # xs)"
  using lits_length [of "Suc n" xs] by (auto simp: case_prod_beta)

definition rle_header :: "nat \<Rightarrow> u8" where
  "rle_header packet_size = push_bit 7 1 + (of_nat (packet_size + 1) AND 0x7f)"

definition raw_header :: "nat \<Rightarrow> u8" where
  "raw_header n = of_nat n AND 0x7f"

function rle_loop :: "nat \<Rightarrow> u8 list \<Rightarrow> u8 list" where
  "rle_loop packet_size [] = []"
| "rle_loop packet_size (x # pin) =
     (if x = pin0 pin \<and> packet_size < 0x7f - 1 then rle_loop (Suc packet_size) pin
      else
        (let (pout, pin) = (if 0 < packet_size then ([rle_header packet_size, x], pin) else ([], x # pin));
             (ls, pin) = lits 0 pin
         in pout @ raw_header (length ls) # ls @ rle_loop 0 pin))"
  by pat_completeness auto
termination
proof (relation "measure (\<lambda>(p, xs). length xs)")
  fix p :: nat and x :: u8 and pin pa pout pinb pb ls pinc
  assume run: "\<not> (x = pin0 pin \<and> p < 0x7f - 1)"
    and h: "pa = (if 0 < p then ([rle_header p, x], pin) else ([], x # pin))" "(pout, pinb) = pa"
    and l: "pb = lits 0 pinb" "(ls, pinc) = pb"
  show "((0, pinc), p, x # pin) \<in> measure (\<lambda>(p, xs). length xs)"
    using run h l lits_length [of 0 pin] lits_progress [of x pin 0]
    by (auto split: if_splits simp: less_Suc_eq_le simp del: lits.simps dest!: arg_cong [of "(ls, pinc)" _ snd])
qed auto

definition rle :: "u8 list \<Rightarrow> u8 list" where
  "rle xs = rle_loop 0 xs"

text \<open>\<open>enc_size\<close> goes through the same loops and counts.\<close>

function enc_size_loop :: "nat \<Rightarrow> u8 list \<Rightarrow> nat" where
  "enc_size_loop packet_size [] = 0"
| "enc_size_loop packet_size (x # pin) =
     (if x = pin0 pin \<and> packet_size < 0x7f - 1 then enc_size_loop (Suc packet_size) pin
      else
        (let (sizeout, pin) = (if 0 < packet_size then (2, pin) else (0, x # pin));
             (ls, pin) = lits 0 pin
         in sizeout + (length ls + 1) + enc_size_loop 0 pin))"
  by pat_completeness auto
termination
proof (relation "measure (\<lambda>(p, xs). length xs)")
  fix p :: nat and x :: u8 and pin pa sizeout pinb pb ls pinc
  assume run: "\<not> (x = pin0 pin \<and> p < 0x7f - 1)"
    and h: "pa = (if 0 < p then (2 :: nat, pin) else (0, x # pin))" "(sizeout, pinb) = pa"
    and l: "pb = lits 0 pinb" "(ls, pinc) = pb"
  show "((0, pinc), p, x # pin) \<in> measure (\<lambda>(p, xs). length xs)"
    using run h l lits_length [of 0 pin] lits_progress [of x pin 0]
    by (auto split: if_splits simp: less_Suc_eq_le simp del: lits.simps dest!: arg_cong [of "(ls, pinc)" _ snd])
qed auto

definition enc_size :: "u8 list \<Rightarrow> nat" where
  "enc_size xs = enc_size_loop 0 xs"

section \<open>The decoder\<close>

text \<open>\<open>for (i = 0; i < size; i++, out++) *out = *in;\<close>\<close>

fun fill :: "mem \<Rightarrow> u64 \<Rightarrow> u64 \<Rightarrow> nat \<Rightarrow> mem" where
  "fill m out inp 0 = m"
| "fill m out inp (Suc n) = fill (m(out := m inp)) (out + 1) inp n"

text \<open>The other loop copies upwards, as \<open>memmove_fwd\<close> does. \<open>i\<close> is the offset of \<open>in\<close>.\<close>

function unrle_loop :: "mem \<Rightarrow> u64 \<Rightarrow> u64 \<Rightarrow> nat \<Rightarrow> nat \<Rightarrow> mem \<times> u64" where
  "unrle_loop m out inp i in_len =
     (if i < in_len then
        (let packet_header = m (inp + of_nat i); i = i + 1;
             size = unat (packet_header AND 0x7f)
         in if packet_header AND 0x80 \<noteq> 0
            then unrle_loop (fill m out (inp + of_nat i) size) (out + of_nat size) inp (i + 1) in_len
            else unrle_loop (memmove_fwd m out (inp + of_nat i) size) (out + of_nat size) inp (i + size) in_len)
      else (m, out))"
  by pat_completeness auto
termination
  by (relation "measure (\<lambda>(m, out, inp, i, n). n - i)") auto

declare unrle_loop.simps [simp del]

definition unrle :: "mem \<Rightarrow> u64 \<Rightarrow> u64 \<Rightarrow> nat \<Rightarrow> mem \<times> u64" where
  "unrle m out inp in_len = unrle_loop m out inp 0 in_len"

section \<open>The code as a function on lists\<close>

function decode :: "u8 list \<Rightarrow> u8 list option" where
  "decode [] = Some []"
| "decode (h # es) =
     (let size = unat (h AND 0x7f)
      in if h AND 0x80 \<noteq> 0
         then (case es of [] \<Rightarrow> None | x # es' \<Rightarrow> map_option (\<lambda>ds. replicate size x @ ds) (decode es'))
         else if length es < size then None
         else map_option (\<lambda>ds. take size es @ ds) (decode (drop size es)))"
  by pat_completeness auto
termination
  by (relation "measure length") auto

lemma fill_write: "n \<le> 2 ^ 64 \<Longrightarrow> fill m out inp n = mem_write m out (replicate n (m inp))"
proof -
  have "fill m out inp n = memset_loop m out (m inp) n"
    by (induction m out inp n rule: fill.induct) (auto simp: fun_upd_def)
  then show "n \<le> 2 ^ 64 \<Longrightarrow> ?thesis"
    by (simp add: memset_loop_write)
qed

lemma mem_write_single: "mem_write m d [c] = m(d := c)"
  by (rule ext) (simp add: mem_write_def unat_eq_0 fun_upd_def)

lemma unat_lt_2_64: "unat w < 2 ^ 64" for w :: u64
proof -
  have "unat w < 2 ^ LENGTH(64)" by (rule unsigned_less)
  then show ?thesis by simp
qed

lemma unat_minus_of_nat:
  fixes w :: u64
  assumes "n \<le> unat w"
  shows "unat (w - of_nat n) = unat w - n"
proof -
  have n: "unat (of_nat n :: u64) = n"
    using assms unat_lt_2_64 [of w] by (simp add: unat_of_nat)
  then have "of_nat n \<le> w"
    using assms by (simp add: word_le_nat_alt)
  then show ?thesis
    using n by (simp add: unat_sub)
qed

lemma memmove_fwd_write:
  assumes "mem_bytes m s xs" "length xs \<le> 2 ^ 63" "\<forall>j < length xs. length xs \<le> unat (s + of_nat j - d)"
  shows "memmove_fwd m d s (length xs) = mem_write m d xs"
  using assms
proof (induction xs arbitrary: m d s)
  case Nil
  then show ?case by simp
next
  case (Cons x xs)
  have far: "length (x # xs) \<le> unat (s + of_nat (Suc j) - d)" if "j < length xs" for j
    using Cons.prems(3) that by auto
  have shift: "length xs \<le> unat (s + 1 + of_nat j - (d + 1))" if "j < length xs" for j
    using far [OF that] unat_minus_of_nat [of 1 "s + of_nat (Suc j) - d"] by (simp add: algebra_simps)
  have "mem_bytes (m(d := x)) (s + 1) xs"
    using Cons.prems(1) far by (fastforce simp: mem_bytes_def add.assoc)
  then have "memmove_fwd (m(d := x)) (d + 1) (s + 1) (length xs) = mem_write (m(d := x)) (d + 1) xs"
    using Cons.prems(2) shift by (intro Cons.IH) (auto simp: fun_upd_def)
  then show ?case
    using Cons.prems(1,2) mem_write_append [of "[x]" xs m d] by (simp add: mem_write_single fun_upd_def)
qed


lemma mem_bytes_mem_write:
  assumes "mem_bytes m a es" "\<forall>j < length es. length ds \<le> unat (a + of_nat j - d)"
  shows "mem_bytes (mem_write m d ds) a es"
  using assms by (simp add: mem_bytes_def mem_write_outside)

text \<open>The bytes from \<open>a\<close> on are not touched by writing \<open>n\<close> bytes to \<open>d\<close>.\<close>

definition outside :: "u64 \<Rightarrow> nat \<Rightarrow> u64 \<Rightarrow> nat \<Rightarrow> bool" where
  "outside a k d n \<longleftrightarrow> (\<forall>j < k. n \<le> unat (a + of_nat j - d))"

lemma outside_drop:
  assumes "outside a (i + k) d (n + n')"
  shows "outside (a + of_nat i) k (d + of_nat n) n'" "outside (a + of_nat i) k d n"
proof -
  have far: "n + n' \<le> unat (a + of_nat i + of_nat j - d)" if "j < k" for j
    using assms that [THEN nat_add_left_cancel_less [THEN iffD2], of i] by (simp add: outside_def add.assoc flip: of_nat_add)
  then show "outside (a + of_nat i) k d n"
    by (auto simp: outside_def dest: add_leD1)
  have "n' \<le> unat (a + of_nat i + of_nat j - d - of_nat n)" if "j < k" for j
    using far [OF that] unat_minus_of_nat [of n "a + of_nat i + of_nat j - d"] by simp
  then show "outside (a + of_nat i) k (d + of_nat n) n'"
    by (simp add: outside_def diff_diff_eq)
qed

lemma unrle_decode:
  assumes "decode es = Some ds" "mem_bytes m (inp + of_nat i) es" "i + length es = in_len"
    "outside (inp + of_nat i) (length es) out (length ds)" "length ds \<le> 2 ^ 63"
  shows "unrle_loop m out inp i in_len = (mem_write m out ds, out + of_nat (length ds))"
  using assms
proof (induction es arbitrary: m out i ds rule: decode.induct)
  case 1
  then show ?case by (simp add: unrle_loop.simps)
next
  case (2 h es)
  let ?n = "unat (h AND 0x7f)"
  have h: "m (inp + of_nat i) = h" "mem_bytes m (inp + of_nat (i + 1)) es" "i < in_len"
    using "2.prems"(2,3) by (auto simp: ac_simps)
  show ?case
  proof (cases "h AND 0x80 \<noteq> 0")
    case True
    then obtain x es' ds' where es: "es = x # es'" "decode es' = Some ds'" "ds = replicate ?n x @ ds'"
      using "2.prems"(1) by (auto split: list.splits)
    have out: "outside (inp + of_nat i) (2 + length es') out (?n + length ds')"
      using "2.prems"(4) es by simp
    let ?m = "mem_write m out (replicate ?n x)"
    have "mem_bytes ?m (inp + of_nat (i + 2)) es'"
      using h(2) es(1) outside_drop(2) [OF out] by (intro mem_bytes_mem_write) (auto simp: outside_def ac_simps)
    then have "unrle_loop ?m (out + of_nat ?n) inp (i + 2) in_len = (mem_write ?m (out + of_nat ?n) ds', out + of_nat ?n + of_nat (length ds'))"
      using True es "2.prems"(3,5) outside_drop(1) [OF out] by (intro "2.IH"(1)) (auto simp: ac_simps)
    moreover have "fill m out (inp + of_nat (i + 1)) ?n = ?m"
      using h(2) es(1) "2.prems"(5) es(3) by (simp add: fill_write)
    ultimately show ?thesis
      using h True es(3) "2.prems"(5) mem_write_append [of "replicate ?n x" ds' m out]
      by (subst unrle_loop.simps) (simp add: Let_def add.assoc)
  next
    case False
    then obtain ds' where es: "\<not> length es < ?n" "decode (drop ?n es) = Some ds'" "ds = take ?n es @ ds'"
      using "2.prems"(1) by (auto simp: Let_def split: if_splits)
    have len: "length (take ?n es) = ?n" using es(1) by simp
    have out: "outside (inp + of_nat i) (1 + ?n + length (drop ?n es)) out (?n + length ds')"
      using "2.prems"(4) es by simp
    let ?m = "mem_write m out (take ?n es)"
    have far: "outside (inp + of_nat (i + 1)) ?n out ?n"
      using outside_drop(2) [of "inp + of_nat i" 1 ?n out ?n "length ds'"] out by (auto simp: outside_def ac_simps)
    have copy: "memmove_fwd m out (inp + of_nat (i + 1)) ?n = ?m"
    proof -
      have "mem_bytes m (inp + of_nat (i + 1)) (take ?n es @ drop ?n es)" using h(2) by simp
      then have "mem_bytes m (inp + of_nat (i + 1)) (take ?n es)" by (simp only: mem_bytes_append)
      moreover have "length (take ?n es) \<le> 2 ^ 63"
        using "2.prems"(5) es(3) by simp
      ultimately show ?thesis
        using far memmove_fwd_write [of m "inp + of_nat (i + 1)" "take ?n es" out] unfolding len outside_def by blast
    qed
    have "mem_bytes m (inp + of_nat (i + 1 + ?n)) (drop ?n es)"
    proof -
      have "mem_bytes m (inp + of_nat (i + 1)) (take ?n es @ drop ?n es)" using h(2) by simp
      then show ?thesis unfolding mem_bytes_append len by (simp add: ac_simps)
    qed
    then have "mem_bytes ?m (inp + of_nat (i + 1 + ?n)) (drop ?n es)"
      using outside_drop(2) [OF out] len by (intro mem_bytes_mem_write) (auto simp: outside_def ac_simps)
    then have "unrle_loop ?m (out + of_nat ?n) inp (i + 1 + ?n) in_len = (mem_write ?m (out + of_nat ?n) ds', out + of_nat ?n + of_nat (length ds'))"
      using False es "2.prems"(3,5) outside_drop(1) [OF out] by (intro "2.IH"(2)) (auto simp: ac_simps)
    then show ?thesis
      using h False es(3) copy len "2.prems"(5) mem_write_append [of "take ?n es" ds' m out]
      by (subst unrle_loop.simps) (simp add: Let_def add.assoc)
  qed
qed

section \<open>Decoding what was encoded\<close>

lemma lits_spec: "n \<le> 127 \<Longrightarrow> fst (lits n xs) @ snd (lits n xs) = xs \<and> length (fst (lits n xs)) + n \<le> 127"
  by (induction n xs rule: lits.induct) (auto simp: case_prod_beta)

lemma low_seven_bits: "n \<le> 127 \<Longrightarrow> (of_nat n :: u8) AND 0x7f = of_nat n \<and> unat (of_nat n :: u8) = n"
proof -
  assume n: "n \<le> 127"
  then have u: "unat (of_nat n :: u8) = n"
    by (simp add: unat_of_nat)
  have "(of_nat n :: u8) AND 0x7f = take_bit 7 (of_nat n)"
    by (simp add: take_bit_eq_mask mask_eq_exp_minus_1)
  moreover have "unat (take_bit 7 (of_nat n :: u8)) = take_bit 7 (unat (of_nat n :: u8))"
    by (rule unsigned_take_bit_eq)
  ultimately show ?thesis
    using n u by (simp add: word_unat_eq_iff take_bit_nat_eq_self)
qed

lemma header_bits:
  assumes "n \<le> 127"
  shows "raw_header n AND 0x80 = 0" "unat (raw_header n AND 0x7f) = n"
    "n = Suc k \<Longrightarrow> rle_header k AND 0x80 \<noteq> 0" "n = Suc k \<Longrightarrow> unat (rle_header k AND 0x7f) = n"
proof -
  have low: "(of_nat n :: u8) AND 0x7f = of_nat n" "unat (of_nat n :: u8) = n"
    using low_seven_bits [OF assms] by simp_all
  have "(of_nat n AND 0x7f) AND 0x80 = (0 :: u8)"
    by (simp add: and.assoc)
  then have off: "(of_nat n :: u8) AND 0x80 = 0"
    unfolding low .
  show "raw_header n AND 0x80 = 0" "unat (raw_header n AND 0x7f) = n"
    using low off by (simp_all add: raw_header_def)
  have "push_bit 7 1 + (of_nat n :: u8) = 0x80 OR of_nat n"
    using off by (simp add: disjunctive_add_eq_or and.commute)
  then have h: "rle_header k = 0x80 OR of_nat n" if "n = Suc k"
    using that low by (simp add: rle_header_def del: of_nat_Suc)
  show "rle_header k AND 0x80 \<noteq> 0" if "n = Suc k"
    using off by (simp add: h [OF that] bit.conj_disj_distrib2 del: of_nat_Suc)
  show "unat (rle_header k AND 0x7f) = n" if "n = Suc k"
    using low by (simp add: h [OF that] bit.conj_disj_distrib2 del: of_nat_Suc)
qed

lemma decode_raw:
  "length ls \<le> 127 \<Longrightarrow> decode (raw_header (length ls) # ls @ es) = map_option (\<lambda>ds. ls @ ds) (decode es)"
  using header_bits(1,2) [of "length ls"] by (simp add: Let_def)

lemma decode_run:
  "p < 127 \<Longrightarrow> decode (rle_header p # x # es) = map_option (\<lambda>ds. replicate (Suc p) x @ ds) (decode es)"
  using header_bits(3,4) [of "Suc p" p] by (simp add: Let_def del: replicate.simps)

lemma rle_loop_step:
  assumes "\<not> (x = pin0 pin \<and> p < 0x7f - 1)" "lits 0 (if 0 < p then pin else x # pin) = (ls, pin')"
  shows "rle_loop p (x # pin) =
    (if 0 < p then [rle_header p, x] else []) @ raw_header (length ls) # ls @ rle_loop 0 pin'"
  using assms(2) unfolding rle_loop.simps(2) if_not_P [OF assms(1)]
  by (cases "0 < p") (simp_all del: lits.simps)

lemma enc_size_loop_step:
  assumes "\<not> (x = pin0 pin \<and> p < 0x7f - 1)" "lits 0 (if 0 < p then pin else x # pin) = (ls, pin')"
  shows "enc_size_loop p (x # pin) = (if 0 < p then 2 else 0) + (length ls + 1) + enc_size_loop 0 pin'"
  using assms(2) unfolding enc_size_loop.simps(2) if_not_P [OF assms(1)]
  by (cases "0 < p") (simp_all del: lits.simps)

lemma rle_loop_decode:
  assumes "p \<le> 126"
  shows "\<exists>ds k. decode (rle_loop p xs) = Some ds \<and> replicate p (pin0 xs) @ xs = ds @ replicate k 0 \<and> k \<le> 126"
  using assms
proof (induction p xs rule: rle_loop.induct)
  case (1 p)
  then show ?case by (intro exI [of _ "[]"] exI [of _ p]) simp
next
  case (2 p x pin)
  show ?case
  proof (cases "x = pin0 pin \<and> p < 0x7f - 1")
    case True
    then obtain ds k where "decode (rle_loop (Suc p) pin) = Some ds" "replicate (Suc p) (pin0 pin) @ pin = ds @ replicate k 0" "k \<le> 126"
      using "2.IH"(1) by auto
    then show ?thesis
      using True by (intro exI [of _ ds] exI [of _ k]) (simp add: replicate_app_Cons_same)
  next
    case False
    define out where "out = (if 0 < p then [rle_header p, x] else [])"
    define rest where "rest = (if 0 < p then pin else x # pin)"
    obtain ls pin' where l: "lits 0 rest = (ls, pin')" by (metis surj_pair)
    then have ls: "rest = ls @ pin'" "length ls \<le> 127"
      using lits_spec [of 0 rest] by simp_all
    have step: "rle_loop p (x # pin) = out @ raw_header (length ls) # ls @ rle_loop 0 pin'"
      using rle_loop_step [OF False l [unfolded rest_def]] by (simp only: out_def)
    obtain ds k where IH: "decode (rle_loop 0 pin') = Some ds" "pin' = ds @ replicate k 0" "k \<le> 126"
      using "2.IH"(2) [OF False] l by (fastforce simp: out_def rest_def split: if_splits)
    have "decode (raw_header (length ls) # ls @ rle_loop 0 pin') = Some (ls @ ds)"
      using decode_raw [OF ls(2)] IH(1) by simp
    then have "decode (rle_loop p (x # pin)) = Some ((if 0 < p then replicate (Suc p) x else []) @ ls @ ds)"
      using decode_run [of p x] "2.prems" unfolding step by (simp add: out_def del: decode.simps)
    moreover have "replicate p x @ x # pin = ((if 0 < p then replicate (Suc p) x else []) @ ls @ ds) @ replicate k 0"
      using ls(1) IH(2) by (auto simp: rest_def replicate_app_Cons_same split: if_splits)
    ultimately show ?thesis using IH(3) by auto
  qed
qed

lemma enc_size_loop_length: "enc_size_loop p xs = length (rle_loop p xs)"
proof (induction p xs rule: enc_size_loop.induct)
  case (2 p x pin)
  obtain ls pin' where l: "lits 0 (if 0 < p then pin else x # pin) = (ls, pin')" by (metis surj_pair)
  show ?case
  proof (cases "x = pin0 pin \<and> p < 0x7f - 1")
    case True
    then show ?thesis using "2.IH"(1) by simp
  next
    case False
    then have "enc_size_loop 0 pin' = length (rle_loop 0 pin')"
      using "2.IH"(2) l by (fastforce split: if_splits)
    then show ?thesis
      using rle_loop_step [OF False l] enc_size_loop_step [OF False l] by simp
  qed
qed simp

lemma enc_size_length: "enc_size xs = length (rle xs)"
  by (simp add: enc_size_def rle_def enc_size_loop_length)

lemma rle_decode: "\<exists>ds k. decode (rle xs) = Some ds \<and> xs = ds @ replicate k 0 \<and> k \<le> 126"
  using rle_loop_decode [of 0 xs] by (simp add: rle_def)

text \<open>
  What \<open>rle\<close> writes, cut to the length that \<open>enc_size\<close> computes, is unpacked by \<open>unrle\<close> into the
  original bytes, but for a run of at most 126 zeros at their end, as long as the output does not
  overlap the packed data; nothing else in memory changes.
\<close>

lemma unrle_rle_but_zeros:
  assumes "length xs \<le> 2 ^ 63"
    and "mem_bytes m inp (take (enc_size xs) (rle xs))" "outside inp (enc_size xs) out (length xs)"
  shows "\<exists>ds k. xs = ds @ replicate k 0 \<and> k \<le> 126 \<and> (xs \<noteq> [] \<and> last xs \<noteq> 0 \<longrightarrow> k = 0) \<and>
    unrle m out inp (enc_size xs) = (mem_write m out ds, out + of_nat (length ds))"
proof -
  obtain ds k where ds: "decode (rle xs) = Some ds" "xs = ds @ replicate k 0" "k \<le> 126"
    using rle_decode by blast
  have "outside inp (enc_size xs) out (length ds)"
    using assms(3) ds(2) by (force simp: outside_def)
  then have "unrle m out inp (enc_size xs) = (mem_write m out ds, out + of_nat (length ds))"
    using unrle_decode [OF ds(1), of m inp 0 "enc_size xs" out] assms(1,2) ds(2) by (simp add: unrle_def enc_size_length)
  moreover have "xs \<noteq> [] \<and> last xs \<noteq> 0 \<longrightarrow> k = 0"
    using ds(2) by (cases k) (auto simp: last_append last_replicate split: if_splits)
  ultimately show ?thesis using ds(2,3) by blast
qed

text \<open>So data that does not end in zero comes back, and so does any data where zeros were before.\<close>

lemma unrle_rle_on_zeros:
  assumes "length xs \<le> 2 ^ 63" "mem_bytes m out (replicate (length xs) 0)"
    and "mem_bytes m inp (take (enc_size xs) (rle xs))" "outside inp (enc_size xs) out (length xs)"
  shows "fst (unrle m out inp (enc_size xs)) = mem_write m out xs"
proof -
  obtain ds k where ds: "xs = ds @ replicate k 0"
    "unrle m out inp (enc_size xs) = (mem_write m out ds, out + of_nat (length ds))"
    using unrle_rle_but_zeros [OF assms(1,3,4)] by blast
  have zeros: "mem_bytes (mem_write m out ds) (out + of_nat (length ds)) (replicate k 0)"
    unfolding mem_bytes_def
  proof (intro allI impI)
    fix i assume i: "i < length (replicate k (0 :: u8))"
    then have j: "length ds + i < length xs" "length ds + i < 2 ^ 64"
      using assms(1) ds(1) by simp_all
    then have "m (out + of_nat (length ds + i)) = 0"
      using assms(2) by (simp add: mem_bytes_def del: of_nat_add)
    then show "mem_write m out ds (out + of_nat (length ds) + of_nat i) = replicate k 0 ! i"
      using i j(2) by (simp add: mem_write_def unat_of_nat add.assoc flip: of_nat_add)
  qed
  have "mem_write m out xs = mem_write (mem_write m out ds) (out + of_nat (length ds)) (replicate k 0)"
    using mem_write_append [of ds "replicate k 0" m out] ds(1) assms(1) by simp
  also have "\<dots> = mem_write m out ds" by (rule mem_write_same [OF zeros])
  finally show ?thesis using ds(2) by simp
qed

theorem unrle_rle:
  assumes "xs \<noteq> []" "last xs \<noteq> 0" "length xs \<le> 2 ^ 63"
    and "mem_bytes m inp (take (enc_size xs) (rle xs))" "outside inp (enc_size xs) out (length xs)"
  shows "unrle m out inp (enc_size xs) = (mem_write m out xs, out + of_nat (length xs))"
  using unrle_rle_but_zeros [OF assms(3-5)] assms(1,2) by auto

lemma all_less_4: "(\<forall>j < 4. P j) \<longleftrightarrow> P 0 \<and> P 1 \<and> P 2 \<and> P (3 :: nat)"
  by (auto simp: numeral_eq_Suc less_Suc_eq)

theorem unrle_rle_witness:
  "unrle (mem_write (\<lambda>_. 0) 0 (rle [7, 7, 7, 1])) 0x100 0 (enc_size [7, 7, 7, 1]) =
     (mem_write (mem_write (\<lambda>_. 0) 0 (rle [7, 7, 7, 1])) 0x100 [7, 7, 7, 1], 0x100 + 4)"
proof -
  let ?xs = "[7, 7, 7, 1] :: u8 list" and ?m = "mem_write (\<lambda>_. 0) 0 (rle [7, 7, 7, 1])"
  have len: "length (rle ?xs) = 4"
    by (simp add: rle_def)
  then have "mem_bytes ?m 0 (take (enc_size ?xs) (rle ?xs))"
    using mem_write_bytes [of "rle ?xs" "\<lambda>_. 0" 0] by (simp add: enc_size_length)
  moreover have "outside 0 (enc_size ?xs) 0x100 (length ?xs)"
    by (simp add: outside_def enc_size_length len all_less_4)
  ultimately show ?thesis
    using unrle_rle [of ?xs ?m 0 "0x100"] by simp
qed

text \<open>A trailing run of zeros is lost: the loop ends with the run pending.\<close>

lemma rle_drops_zeros: "decode (rle [5, 0, 0, 0]) = Some [5]"
  by (simp add: rle_def raw_header_def)
end
