(* ===== verification/Vidconsole.thy ===== *)
theory Vidconsole
  imports Rle
begin

text \<open>
  The text console of \<open>src/src/vidconsole.c\<close>: its initialisation with the glyph atlas, single cells,
  the redraw into the framebuffer and \<open>vidconsole_putc\<close>. The arrays of the console are functions
  of the index; beyond their allocated length they hold what the memory happens to hold. The
  framebuffer is a function of the pixel index from \<open>fb_start\<close>. Unsigned arithmetic is \<open>u32\<close>; an
  index is the \<open>unat\<close> of the expression in the code. The vector instructions of the redraw are
  written out bitwise; the cache flush has no effect here.
\<close>

section \<open>State and initialisation\<close>

definition FONT_WIDTH :: u32 where "FONT_WIDTH = 8"
definition FONT_HEIGHT :: u32 where "FONT_HEIGHT = 16"
definition FONT_CHARS :: u32 where "FONT_CHARS = 128"

record vidconsole =
  vc_w :: u32
  vc_h :: u32
  vc_size :: u32
  vc_fb_start :: u32
  vc_fb_pitch :: u32
  vc_fb_width :: u32
  vc_fb_height :: u32
  vc_scale :: u32
  vc_font :: "nat \<Rightarrow> u8"
  vc_atlas :: "nat \<Rightarrow> u32"
  vc_screen :: "nat \<Rightarrow> u8"
  vc_fg_color :: "nat \<Rightarrow> u32"
  vc_bg_color :: "nat \<Rightarrow> u32"
  vc_cursor :: u32
  vc_default_fg :: u32
  vc_default_bg :: u32

definition char_stride :: "u32 \<Rightarrow> u32" where "char_stride scale = FONT_WIDTH * scale"
definition char_size :: "u32 \<Rightarrow> u32" where "char_size scale = char_stride scale * FONT_HEIGHT"

text \<open>The innermost loop of the atlas: \<open>scale\<close> copies of the pixel \<open>x\<close> of a line of a glyph.\<close>

definition atlas_pixel :: "u32 \<Rightarrow> u32 \<Rightarrow> u32 \<Rightarrow> u8 \<Rightarrow> nat \<Rightarrow> (nat \<Rightarrow> u32) \<Rightarrow> (nat \<Rightarrow> u32)" where
  "atlas_pixel scale ch y ln_data x atlas =
     (let pix = if push_bit x ln_data AND 0x80 \<noteq> 0 then 0xffffffff else 0
      in fold (\<lambda>s atlas. atlas(unat (ch * char_size scale + y * char_stride scale + scale * of_nat x + of_nat s) := pix))
           [0..<unat scale] atlas)"

definition build_atlas :: "u32 \<Rightarrow> (nat \<Rightarrow> u8) \<Rightarrow> (nat \<Rightarrow> u32) \<Rightarrow> (nat \<Rightarrow> u32)" where
  "build_atlas scale font atlas =
     fold (\<lambda>ch. fold (\<lambda>y. fold (\<lambda>x. atlas_pixel scale (of_nat ch) (of_nat y) (font (ch * 16 + y)) x)
       [0..<unat FONT_WIDTH]) [0..<unat FONT_HEIGHT]) [0..<unat FONT_CHARS] atlas"

text \<open>
  \<open>font0\<close>, \<open>atlas0\<close>, \<open>screen0\<close> and \<open>color0\<close> are what the allocated memory held; \<open>glyphs\<close> is the
  unpacked \<open>font_data\<close>, written over the start of the font by \<open>unrle\<close>.
\<close>

definition vidconsole_init ::
  "u8 list \<Rightarrow> (nat \<Rightarrow> u8) \<Rightarrow> (nat \<Rightarrow> u32) \<Rightarrow> u32 \<Rightarrow> u32 \<Rightarrow> u32 \<Rightarrow> u32 \<Rightarrow> u32 \<Rightarrow> 'a heap_scheme \<Rightarrow>
     vidconsole \<times> 'a heap_scheme" where
  "vidconsole_init glyphs junk8 junk32 w h scale fg bg s =
     (let sz = w * h;
          fb_width = w * FONT_WIDTH * scale;
          fb_height = h * FONT_HEIGHT * scale;
          fb_pitch = fb_width * 4;
          (fb, s) = malloc (ucast (fb_pitch * fb_height)) s;
          (_, s) = malloc (ucast sz) s;
          screen = fold (\<lambda>i a. a(i := 0x20)) [0..<unat sz] junk8;
          (_, s) = malloc (ucast (sz * 4)) s;
          (_, s) = malloc (ucast (sz * 4)) s;
          fgs = fold (\<lambda>i a. a(i := fg)) [0..<unat sz] junk32;
          bgs = fold (\<lambda>i a. a(i := bg)) [0..<unat sz] junk32;
          (_, s) = malloc (ucast (FONT_HEIGHT * FONT_CHARS)) s;
          font = (\<lambda>i. if i < length glyphs then glyphs ! i else junk8 i);
          (_, s) = malloc (ucast (char_size scale * FONT_CHARS * 4)) s;
          atlas = build_atlas scale font junk32
      in (\<lparr>vc_w = w, vc_h = h, vc_size = sz, vc_fb_start = ucast fb, vc_fb_pitch = fb_pitch,
           vc_fb_width = fb_width, vc_fb_height = fb_height, vc_scale = scale, vc_font = font,
           vc_atlas = atlas, vc_screen = screen, vc_fg_color = fgs, vc_bg_color = bgs,
           vc_cursor = 0, vc_default_fg = fg, vc_default_bg = bg\<rparr>, s))"

section \<open>Cells and redraw\<close>

definition vidconsole_set_xy :: "u32 \<Rightarrow> u32 \<Rightarrow> u8 \<Rightarrow> u32 \<Rightarrow> u32 \<Rightarrow> vidconsole \<Rightarrow> vidconsole" where
  "vidconsole_set_xy x y ch fg bg c =
     (let pos = unat (x + y * vc_w c)
      in c\<lparr>vc_screen := (vc_screen c)(pos := ch),
           vc_fg_color := (vc_fg_color c)(pos := fg),
           vc_bg_color := (vc_bg_color c)(pos := bg)\<rparr>)"

text \<open>\<open>vbslq_u32\<close>: bit for bit the second operand where the first is set, else the third.\<close>

definition vbsl :: "u32 \<Rightarrow> u32 \<Rightarrow> u32 \<Rightarrow> u32" where
  "vbsl v a b = (v AND a) OR (NOT v AND b)"

text \<open>\<open>while (len >= 4 * 2)\<close>: eight pixels in a round.\<close>

function blit :: "(nat \<Rightarrow> u32) \<Rightarrow> u32 \<Rightarrow> u32 \<Rightarrow> nat \<Rightarrow> nat \<Rightarrow> nat \<Rightarrow> (nat \<Rightarrow> u32) \<Rightarrow> (nat \<Rightarrow> u32)" where
  "blit atlas fg bg dst src len fb =
     (if len \<ge> 4 * 2
      then blit atlas fg bg (dst + 4 * 2) (src + 4 * 2) (len - 4 * 2)
             (fold (\<lambda>k fb. fb(dst + k := vbsl (atlas (src + k)) fg bg)) [0..<4 * 2] fb)
      else fb)"
  by pat_completeness auto
termination
  by (relation "measure (\<lambda>(_, _, _, _, _, len, _). len)") auto

declare blit.simps [simp del]

definition cell_char :: "vidconsole \<Rightarrow> nat \<Rightarrow> u32" where
  "cell_char c pos = (let ch = ucast (vc_screen c pos) in if ch > FONT_CHARS then 0x3f else ch)"

definition redraw_line :: "vidconsole \<Rightarrow> u32 \<Rightarrow> nat \<Rightarrow> nat \<Rightarrow> nat \<Rightarrow> nat \<Rightarrow> (nat \<Rightarrow> u32) \<Rightarrow> (nat \<Rightarrow> u32)" where
  "redraw_line c ch pos con_p cy s fb =
     blit (vc_atlas c) (vc_fg_color c pos) (vc_bg_color c pos)
       (con_p + unat (vc_fb_width c * (vc_scale c * of_nat cy + of_nat s)))
       (unat (char_size (vc_scale c) * ch) + unat (char_stride (vc_scale c) * of_nat cy))
       (unat (char_stride (vc_scale c))) fb"

definition redraw_cell :: "vidconsole \<Rightarrow> nat \<Rightarrow> nat \<Rightarrow> (nat \<Rightarrow> u32) \<Rightarrow> (nat \<Rightarrow> u32)" where
  "redraw_cell c x y fb =
     (let pos = unat (of_nat y * vc_w c + of_nat x);
          ch = cell_char c pos;
          con_p = unat (vc_fb_width c * of_nat y * FONT_HEIGHT * vc_scale c) + unat (of_nat x * char_stride (vc_scale c))
      in fold (\<lambda>cy. fold (redraw_line c ch pos con_p cy) [0..<unat (vc_scale c)]) [0..<unat FONT_HEIGHT] fb)"

definition vidconsole_redraw :: "vidconsole \<Rightarrow> (nat \<Rightarrow> u32) \<Rightarrow> (nat \<Rightarrow> u32)" where
  "vidconsole_redraw c fb =
     fold (\<lambda>x. fold (redraw_cell c x) [0..<unat (vc_h c)]) [0..<unat (vc_w c)] fb"

section \<open>Characters in sequence\<close>

definition copy_array :: "nat \<Rightarrow> nat \<Rightarrow> nat \<Rightarrow> (nat \<Rightarrow> 'a) \<Rightarrow> (nat \<Rightarrow> 'a)" where
  "copy_array d s n a = fold (\<lambda>i a. a(d + i := a (s + i))) [0..<n] a"

definition scroll :: "vidconsole \<Rightarrow> vidconsole" where
  "scroll c =
     (let rest = vc_w c * (vc_h c - 1);
          a = copy_array 0 (unat (vc_w c)) (unat rest) (vc_screen c);
          a = fold (\<lambda>i a. a(unat rest + i := 0)) [0..<unat (vc_w c)] a
      in c\<lparr>vc_screen := a, vc_cursor := rest\<rparr>)"

text \<open>\<open>None\<close> is the null pointer.\<close>

definition vidconsole_putc :: "u8 \<Rightarrow> vidconsole option \<Rightarrow> vidconsole option" where
  "vidconsole_putc ch console =
     (case console of None \<Rightarrow> None
      | Some c \<Rightarrow>
          if ch = 0x0d then Some c
          else
            let c = (if ch = 0x0a then c\<lparr>vc_cursor := vc_cursor c + (vc_w c - vc_cursor c mod vc_w c)\<rparr> else c);
                c = (if vc_cursor c \<ge> vc_size c then scroll c else c)
            in if ch = 0x0a then Some c
               else Some (c\<lparr>vc_screen := (vc_screen c)(unat (vc_cursor c) := ch), vc_cursor := vc_cursor c + 1\<rparr>))"


section \<open>The text console\<close>

definition vc_ok :: "vidconsole \<Rightarrow> bool" where
  "vc_ok c \<longleftrightarrow> 0 < vc_w c \<and> 0 < vc_h c \<and> unat (vc_w c) * unat (vc_h c) < 2 ^ 31 \<and>
     vc_size c = vc_w c * vc_h c \<and> vc_cursor c \<le> vc_size c"

lemma pow_32: "(2 :: nat) ^ 32 = 2 * 2 ^ 31"
  by simp

lemma unat_mult: "unat a * unat b < 2 ^ 32 \<Longrightarrow> unat (a * b) = unat a * unat b" for a b :: u32
  by (simp add: unat_word_ariths)

lemma unat_add: "unat a + unat b < 2 ^ 32 \<Longrightarrow> unat (a + b) = unat a + unat b" for a b :: u32
  by (simp add: unat_word_ariths)

lemma fold_upd_other: "k \<notin> f ` set is \<Longrightarrow> fold (\<lambda>i a. a(f i := v i)) is a k = a k"
  by (induction "is" arbitrary: a) auto

lemma fold_upd:
  assumes "inj_on f (set is)" "i \<in> set is"
  shows "fold (\<lambda>i a. a(f i := v i)) is a (f i) = v i"
  using assms
proof (induction "is" arbitrary: a)
  case (Cons j "is")
  show ?case
  proof (cases "i \<in> set is")
    case True
    then show ?thesis using Cons by simp
  next
    case False
    then have "f i \<notin> f ` set is" "i = j"
      using Cons.prems by (auto simp: inj_on_def)
    then show ?thesis
      using fold_upd_other [of "f j" f "is" v] by (simp add: fun_upd_same del: fun_upd_apply)
  qed
qed simp

lemma copy_array_down:
  "copy_array 0 w n a = (\<lambda>i. if i < n then a (i + w) else a i)"
proof (induction n)
  case 0
  then show ?case by (simp add: copy_array_def)
next
  case (Suc n)
  have "copy_array 0 w (Suc n) a = (copy_array 0 w n a)(n := copy_array 0 w n a (w + n))"
    by (simp add: copy_array_def)
  then show ?case
    by (auto simp: Suc fun_eq_iff less_Suc_eq add.commute)
qed

lemma vc_ok_unat:
  assumes "vc_ok c"
  shows "unat (vc_size c) = unat (vc_w c) * unat (vc_h c)" "0 < unat (vc_w c)" "0 < unat (vc_h c)"
    "unat (vc_cursor c) \<le> unat (vc_w c) * unat (vc_h c)" "unat (vc_w c) * unat (vc_h c) < 2 ^ 31"
    "unat (vc_w c * (vc_h c - 1)) = unat (vc_w c) * (unat (vc_h c) - 1)"
proof -
  show s: "unat (vc_size c) = unat (vc_w c) * unat (vc_h c)" and "0 < unat (vc_w c)" "0 < unat (vc_h c)"
    "unat (vc_w c) * unat (vc_h c) < 2 ^ 31"
    using assms unat_mult [of "vc_w c" "vc_h c"] by (auto simp: vc_ok_def word_less_nat_alt)
  then show "unat (vc_cursor c) \<le> unat (vc_w c) * unat (vc_h c)"
    using assms by (simp add: vc_ok_def word_le_nat_alt)
  have h: "unat (vc_h c - 1) = unat (vc_h c) - 1"
    using \<open>0 < unat (vc_h c)\<close> by (simp add: unat_sub word_le_nat_alt)
  have "unat (vc_w c) * (unat (vc_h c) - 1) \<le> unat (vc_w c) * unat (vc_h c)" by simp
  then have "unat (vc_w c) * unat (vc_h c - 1) < 2 ^ 32"
    using \<open>unat (vc_w c) * unat (vc_h c) < 2 ^ 31\<close> pow_32 unfolding h by linarith
  from unat_mult [OF this] show "unat (vc_w c * (vc_h c - 1)) = unat (vc_w c) * (unat (vc_h c) - 1)"
    unfolding h .
qed

text \<open>One line up, the last line zero.\<close>

definition scrolled :: "vidconsole \<Rightarrow> nat \<Rightarrow> u8" where
  "scrolled c i =
     (if i < unat (vc_w c) * (unat (vc_h c) - 1) then vc_screen c (i + unat (vc_w c))
      else if i < unat (vc_w c) * unat (vc_h c) then 0 else vc_screen c i)"

lemma scroll_screen:
  assumes "vc_ok c"
  shows "vc_screen (scroll c) = scrolled c"
proof
  fix i
  let ?w = "unat (vc_w c)" and ?r = "unat (vc_w c) * (unat (vc_h c) - 1)"
  note ok = vc_ok_unat [OF assms]
  have total: "?r + ?w = unat (vc_w c) * unat (vc_h c)"
    using ok(3) by (cases "unat (vc_h c)") simp_all
  let ?a = "copy_array 0 ?w ?r (vc_screen c)"
  have s: "vc_screen (scroll c) = fold (\<lambda>i a. a(?r + i := 0)) [0..<?w] ?a"
    by (simp add: scroll_def Let_def ok(6))
  show "vc_screen (scroll c) i = scrolled c i"
  proof (cases "?r \<le> i \<and> i < ?r + ?w")
    case True
    then have "fold (\<lambda>i a. a(?r + i := 0)) [0..<?w] ?a (?r + (i - ?r)) = 0"
      by (intro fold_upd) (auto simp: inj_on_def)
    then show ?thesis using True total by (simp add: s scrolled_def)
  next
    case False
    then have "i \<notin> (\<lambda>i. ?r + i) ` set [0..<?w]" by auto
    then show ?thesis
      using False total by (auto simp: s fold_upd_other copy_array_down scrolled_def)
  qed
qed

lemma scroll_ok:
  assumes "vc_ok c"
  shows "vc_ok (scroll c\<lparr>vc_cursor := vc_w c * (vc_h c - 1)\<rparr>)" "vc_cursor (scroll c) = vc_w c * (vc_h c - 1)"
    "scroll c = c\<lparr>vc_screen := scrolled c, vc_cursor := vc_w c * (vc_h c - 1)\<rparr>"
proof -
  show eq: "scroll c = c\<lparr>vc_screen := scrolled c, vc_cursor := vc_w c * (vc_h c - 1)\<rparr>"
    using scroll_screen [OF assms] by (simp add: scroll_def Let_def)
  then show "vc_cursor (scroll c) = vc_w c * (vc_h c - 1)" by simp
  show "vc_ok (scroll c\<lparr>vc_cursor := vc_w c * (vc_h c - 1)\<rparr>)"
    using assms vc_ok_unat [OF assms] unfolding eq by (auto simp: vc_ok_def word_le_nat_alt)
qed

lemma next_row:
  fixes c w :: nat
  assumes "0 < w"
  shows "c + (w - c mod w) = (c div w + 1) * w"
proof -
  have "c mod w < w" using assms by simp
  moreover have "c = c div w * w + c mod w" by simp
  ultimately show ?thesis
    unfolding distrib_right by linarith
qed

text \<open>The place of the next character, and the screen and cursor before it is put there.\<close>

definition after_newline :: "vidconsole \<Rightarrow> nat" where
  "after_newline c = (unat (vc_cursor c) div unat (vc_w c) + 1) * unat (vc_w c)"

text \<open>
  C25: \<open>vidconsole_putc\<close> on a console in order. A carriage return does nothing. A character goes to
  the cursor; at the end of the screen the lines first move up by one, the last becomes zero and
  takes the character. A line feed moves to the start of the next line, and scrolls when there is
  none. The cursor never leaves the screen.
\<close>

theorem vidconsole_putc_effect:
  assumes "vc_ok c" "vidconsole_putc ch (Some c) = Some c'"
  shows "vc_ok c' \<and>
    (if ch = 0x0d then c' = c
     else if ch = 0x0a then
       (if after_newline c < unat (vc_size c)
        then vc_screen c' = vc_screen c \<and> unat (vc_cursor c') = after_newline c
        else vc_screen c' = scrolled c \<and> unat (vc_cursor c') = unat (vc_w c) * (unat (vc_h c) - 1))
     else if unat (vc_cursor c) < unat (vc_size c)
       then vc_screen c' = (vc_screen c)(unat (vc_cursor c) := ch) \<and> unat (vc_cursor c') = unat (vc_cursor c) + 1
       else vc_screen c' = (scrolled c)(unat (vc_w c) * (unat (vc_h c) - 1) := ch) \<and>
            unat (vc_cursor c') = unat (vc_w c) * (unat (vc_h c) - 1) + 1)"
proof -
  note ok = vc_ok_unat [OF assms(1)]
  have room: "unat (vc_w c) * (unat (vc_h c) - 1) < unat (vc_w c) * unat (vc_h c)"
    using ok(2,3) by simp
  then have room': "Suc (unat (vc_w c) * (unat (vc_h c) - 1)) \<le> unat (vc_w c) * unat (vc_h c)"
    by (simp only: Suc_le_eq)
  consider "ch = 0x0d" | "ch = 0x0a" | "ch \<noteq> 0x0d" "ch \<noteq> 0x0a" by blast
  then show ?thesis
  proof cases
    case 1
    then show ?thesis using assms by (simp add: vidconsole_putc_def)
  next
    case 2
    let ?cur = "vc_cursor c + (vc_w c - vc_cursor c mod vc_w c)"
    let ?m = "unat (vc_cursor c) mod unat (vc_w c)"
    have m: "?m < unat (vc_w c)" "unat (vc_w c) \<le> unat (vc_w c) * unat (vc_h c)"
      using ok(2,3) by simp_all
    then have sub: "unat (vc_w c - vc_cursor c mod vc_w c) = unat (vc_w c) - ?m"
      by (simp add: unat_sub word_le_nat_alt unat_mod)
    have "unat (vc_cursor c) + (unat (vc_w c) - ?m) < 2 ^ 32"
      using m(2) ok(4,5) pow_32 by linarith
    then have "unat ?cur = unat (vc_cursor c) + (unat (vc_w c) - ?m)"
      using unat_add [of "vc_cursor c" "vc_w c - vc_cursor c mod vc_w c"] sub by simp
    also have "\<dots> = after_newline c"
      unfolding after_newline_def by (rule next_row) (use ok(2) in simp)
    finally have cur: "unat ?cur = after_newline c" .
    have same: "scroll (c\<lparr>vc_cursor := k\<rparr>) = scroll c" for k
      by (simp add: scroll_def Let_def)
    show ?thesis
    proof (cases "after_newline c < unat (vc_size c)")
      case True
      then have "c' = c\<lparr>vc_cursor := ?cur\<rparr>"
        using 2 assms(2) cur by (auto simp: vidconsole_putc_def Let_def word_le_nat_alt)
      then show ?thesis
        using 2 True assms(1) cur by (simp add: vc_ok_def word_le_nat_alt)
    next
      case False
      then have "c' = scroll c"
        using 2 assms(2) cur by (auto simp: vidconsole_putc_def Let_def word_le_nat_alt same)
      then show ?thesis
        using 2 False assms(1) ok(1,6) room unfolding scroll_ok(3) [OF assms(1)] by (auto simp: vc_ok_def word_le_nat_alt)
    qed
  next
    case 3
    show ?thesis
    proof (cases "unat (vc_cursor c) < unat (vc_size c)")
      case True
      then have "unat (vc_cursor c + 1) = unat (vc_cursor c) + 1"
        using ok(1,4,5) by (subst unat_add) simp_all
      moreover have "c' = c\<lparr>vc_screen := (vc_screen c)(unat (vc_cursor c) := ch), vc_cursor := vc_cursor c + 1\<rparr>"
        using 3 assms(2) True by (auto simp: vidconsole_putc_def Let_def word_le_nat_alt)
      ultimately show ?thesis
        using 3 True assms(1) by (auto simp: vc_ok_def word_le_nat_alt)
    next
      case False
      let ?r = "vc_w c * (vc_h c - 1)"
      have "unat ?r + unat (1 :: u32) < 2 ^ 32"
        using room ok(5) pow_32 unfolding ok(6) unat_1 by linarith
      then have "unat (?r + 1) = unat ?r + 1"
        using unat_add [of ?r 1] by simp
      moreover have "c' = (scroll c)\<lparr>vc_screen := (vc_screen (scroll c))(unat ?r := ch), vc_cursor := ?r + 1\<rparr>"
        using 3 assms(2) False scroll_ok(2) [OF assms(1)] by (auto simp: vidconsole_putc_def Let_def word_le_nat_alt)
      ultimately show ?thesis
        using 3 False assms(1) ok(1,6) room' unfolding scroll_ok(3) [OF assms(1)] by (auto simp: vc_ok_def word_le_nat_alt)
    qed
  qed
qed

text \<open>Three columns and two lines, the last cell taken: the next character scrolls.\<close>

definition sample_console :: vidconsole where
  "sample_console = \<lparr>vc_w = 3, vc_h = 2, vc_size = 6, vc_fb_start = 0, vc_fb_pitch = 96, vc_fb_width = 24,
     vc_fb_height = 32, vc_scale = 1, vc_font = (\<lambda>_. 0), vc_atlas = (\<lambda>_. 0), vc_screen = (\<lambda>_. 0x41),
     vc_fg_color = (\<lambda>_. 0), vc_bg_color = (\<lambda>_. 0), vc_cursor = 6, vc_default_fg = 0, vc_default_bg = 0\<rparr>"

theorem vidconsole_putc_effect_witness:
  "\<exists>c'. vidconsole_putc 0x42 (Some sample_console) = Some c' \<and> vc_ok c' \<and> unat (vc_cursor c') = 4 \<and>
     vc_screen c' 3 = 0x42 \<and> vc_screen c' 4 = 0"
proof -
  have ok: "vc_ok sample_console"
    by (simp add: vc_ok_def sample_console_def)
  obtain c' where c': "vidconsole_putc 0x42 (Some sample_console) = Some c'"
    by (simp add: vidconsole_putc_def Let_def)
  show ?thesis
    using vidconsole_putc_effect [OF ok c'] c'
    by (intro exI [of _ c']) (simp add: sample_console_def scrolled_def)
qed

section \<open>What a redraw shows\<close>

text \<open>A step that stores \<open>v i\<close> at \<open>f i\<close> for every \<open>i\<close> of a set, and nothing else.\<close>

definition stores :: "((nat \<Rightarrow> 'a) \<Rightarrow> nat \<Rightarrow> 'a) \<Rightarrow> 'i set \<Rightarrow> ('i \<Rightarrow> nat) \<Rightarrow> ('i \<Rightarrow> 'a) \<Rightarrow> bool" where
  "stores F A f v \<longleftrightarrow> (\<forall>a. (\<forall>i \<in> A. F a (f i) = v i) \<and> (\<forall>k. k \<notin> f ` A \<longrightarrow> F a k = a k))"

lemma stores_fold:
  assumes "\<forall>x \<in> set xs. stores (F x) (A x) f v" "inj_on f (\<Union>x \<in> set xs. A x)"
  shows "stores (fold F xs) (\<Union>x \<in> set xs. A x) f v"
  using assms
proof (induction xs)
  case Nil
  then show ?case by (simp add: stores_def)
next
  case (Cons x xs)
  have IH: "stores (fold F xs) (\<Union>x \<in> set xs. A x) f v"
    using Cons.prems by (intro Cons.IH) (auto intro: inj_on_subset)
  have x: "stores (F x) (A x) f v" using Cons.prems(1) by simp
  show ?case
    unfolding stores_def
  proof (intro allI conjI ballI impI)
    fix a i assume i: "i \<in> (\<Union>x \<in> set (x # xs). A x)"
    show "fold F (x # xs) a (f i) = v i"
    proof (cases "i \<in> (\<Union>x \<in> set xs. A x)")
      case True
      then show ?thesis using IH by (auto simp: stores_def)
    next
      case False
      then have "f i \<notin> f ` (\<Union>x \<in> set xs. A x)"
        using i Cons.prems(2) by (auto dest!: inj_onD)
      then show ?thesis
        using IH x i False by (simp add: stores_def)
    qed
  next
    fix a k assume "k \<notin> f ` (\<Union>x \<in> set (x # xs). A x)"
    then have "k \<notin> f ` A x" "k \<notin> f ` (\<Union>x \<in> set xs. A x)" by auto
    then show "fold F (x # xs) a k = a k"
      using IH x by (simp add: stores_def)
  qed
qed

lemma stores_single: "stores (\<lambda>a. a(f i := v i)) {i} f v"
  by (simp add: stores_def)

lemma stores_fold_upd:
  assumes "inj_on f (set is)"
  shows "stores (fold (\<lambda>i a. a(f i := v i)) is) (set is) f v"
  using stores_fold [of "is" "\<lambda>i a. a(f i := v i)" "\<lambda>i. {i}" f v] assms by (simp add: stores_single)

lemma stores_image:
  assumes "stores F A f v" "\<And>i. i \<in> A \<Longrightarrow> f' (g i) = f i \<and> v' (g i) = v i"
  shows "stores F (g ` A) f' v'"
  using assms by (auto simp: stores_def image_image cong: image_cong)

lemma radix:
  fixes a b :: nat
  assumes "a * n + r = b * n + s" "r < n" "s < n"
  shows "a = b" "r = s"
proof -
  have "(a * n + r) div n = a" "(b * n + s) div n = b" using assms(2,3) by simp_all
  then show "a = b" using assms(1) by simp
  then show "r = s" using assms(1) by simp
qed

lemma radix_less:
  fixes a :: nat
  assumes "a < n" "s < S"
  shows "a * S + s < n * S"
proof -
  have "(a + 1) * S \<le> n * S" using assms(1) by (intro mult_le_mono1) simp
  then show ?thesis using assms(2) by simp
qed

lemma unat_of_nat_u32: "n < 2 ^ 32 \<Longrightarrow> unat (of_nat n :: u32) = n"
  by (simp add: unsigned_of_nat take_bit_nat_eq_self)

subsection \<open>The atlas\<close>

lemma atlas_bit: "push_bit x w AND 0x80 \<noteq> 0 \<longleftrightarrow> bit w (7 - x)" if "x < 8" for w :: u8
proof -
  have "x \<in> {0, 1, 2, 3, 4, 5, 6, 7}" using that by auto
  moreover have "push_bit x w AND 0x80 = push_bit x w AND push_bit 7 1" by simp
  moreover have "push_bit x w AND push_bit 7 1 \<noteq> 0 \<longleftrightarrow> bit (push_bit x w) 7"
    by (metis and_exp_eq_0_iff_not_bit push_bit_of_1)
  ultimately show ?thesis
    using that by (simp add: bit_push_bit_iff)
qed

definition atlas_index :: "nat \<Rightarrow> nat \<times> nat \<times> nat \<times> nat \<Rightarrow> nat" where
  "atlas_index S = (\<lambda>(ch, y, x, s). ((ch * 16 + y) * 8 + x) * S + s)"

definition atlas_value :: "(nat \<Rightarrow> u8) \<Rightarrow> nat \<times> nat \<times> nat \<times> nat \<Rightarrow> u32" where
  "atlas_value font = (\<lambda>(ch, y, x, s). if bit (font (ch * 16 + y)) (7 - x) then 0xffffffff else 0)"

lemma atlas_index_inj:
  "inj_on (atlas_index S) {(ch, y, x, s). y < 16 \<and> x < 8 \<and> s < S}"
proof (rule inj_onI)
  fix i j
  assume "i \<in> {(ch, y, x, s). y < 16 \<and> x < 8 \<and> s < S}" "j \<in> {(ch, y, x, s). y < 16 \<and> x < 8 \<and> s < S}"
    and eq: "atlas_index S i = atlas_index S j"
  then obtain ch y x s ch' y' x' s' where ij: "i = (ch, y, x, s)" "j = (ch', y', x', s')"
    and b: "y < 16" "x < 8" "s < S" "y' < 16" "x' < 8" "s' < S" by auto
  from radix [OF eq [unfolded ij atlas_index_def prod.case] b(3,6)]
  have 1: "(ch * 16 + y) * 8 + x = (ch' * 16 + y') * 8 + x'" "s = s'" by auto
  from radix [OF 1(1) b(2,5)] have 2: "ch * 16 + y = ch' * 16 + y'" "x = x'" by auto
  from radix [OF 2(1) b(1,4)] show "i = j" using 1 2 by (simp add: ij)
qed

lemma atlas_index_word:
  assumes "ch < 128" "y < 16" "x < 8" "s < unat scale" "unat scale < 2 ^ 16"
  shows "unat (of_nat ch * char_size scale + of_nat y * char_stride scale + scale * of_nat x + of_nat s) =
    atlas_index (unat scale) (ch, y, x, s)"
proof -
  let ?S = "unat scale"
  have "of_nat ch * char_size scale + of_nat y * char_stride scale + scale * of_nat x + of_nat s =
      (of_nat (atlas_index ?S (ch, y, x, s)) :: u32)"
    by (simp add: atlas_index_def char_size_def char_stride_def FONT_WIDTH_def FONT_HEIGHT_def algebra_simps)
  moreover have "atlas_index ?S (ch, y, x, s) < 2 ^ 32"
  proof -
    have "(ch * 16 + y) * 8 + x < 2 ^ 14" using assms by simp
    then have "((ch * 16 + y) * 8 + x) * ?S + s < 2 ^ 14 * ?S"
      using assms(4) by (rule radix_less)
    then show ?thesis using assms(5) by (simp add: atlas_index_def)
  qed
  ultimately show ?thesis
    by (simp only: unat_of_nat_u32)
qed

lemma unat_numerals: "unat (8 :: u32) = 8" "unat (16 :: u32) = 16" "unat (128 :: u32) = 128"
  by simp_all

lemma build_atlas_stores:
  assumes "unat scale < 2 ^ 16"
  shows "stores (build_atlas scale font) {(ch, y, x, s). ch < 128 \<and> y < 16 \<and> x < 8 \<and> s < unat scale}
    (atlas_index (unat scale)) (atlas_value font)"
proof -
  let ?S = "unat scale" and ?f = "atlas_index (unat scale)" and ?v = "atlas_value font"
  have inj: "inj_on ?f A" if "A \<subseteq> {(ch, y, x, s). y < 16 \<and> x < 8 \<and> s < ?S}" for A
    using inj_on_subset [OF atlas_index_inj that] .
  have pix: "stores (atlas_pixel scale (of_nat ch) (of_nat y) (font (ch * 16 + y)) x)
      ((\<lambda>s. (ch, y, x, s)) ` {0..<?S}) ?f ?v" if "ch < 128" "y < 16" "x < 8" for ch y x
  proof (rule stores_image)
    let ?g = "\<lambda>s. unat (of_nat ch * char_size scale + of_nat y * char_stride scale + scale * of_nat x + of_nat s)"
    have eq: "?g s = ?f (ch, y, x, s)" if "s < ?S" for s
      using atlas_index_word [OF \<open>ch < 128\<close> \<open>y < 16\<close> \<open>x < 8\<close> that assms] .
    then have "inj_on ?g {0..<?S}"
      using inj [of "(\<lambda>s. (ch, y, x, s)) ` {0..<?S}"] that by (fastforce simp: inj_on_def)
    moreover have "atlas_pixel scale (of_nat ch) (of_nat y) (font (ch * 16 + y)) x =
        fold (\<lambda>s a. a(?g s := ?v (ch, y, x, s))) [0..<?S]"
      using that by (intro ext) (simp add: atlas_pixel_def Let_def atlas_bit atlas_value_def)
    ultimately show "stores (atlas_pixel scale (of_nat ch) (of_nat y) (font (ch * 16 + y)) x) {0..<?S} ?g (\<lambda>s. ?v (ch, y, x, s))"
      using stores_fold_upd [of ?g "[0..<?S]" "\<lambda>s. ?v (ch, y, x, s)"] by simp
    show "?f (ch, y, x, s) = ?g s \<and> ?v (ch, y, x, s) = ?v (ch, y, x, s)" if "s \<in> {0..<?S}" for s
      using eq that by simp
  qed
  let ?A = "\<lambda>ch y x. (\<lambda>s. (ch, y, x, s)) ` {0..<?S}"
  have "stores (fold (\<lambda>x. atlas_pixel scale (of_nat ch) (of_nat y) (font (ch * 16 + y)) x) [0..<8])
      (\<Union>x \<in> set [0..<8]. ?A ch y x) ?f ?v" if "ch < 128" "y < 16" for ch y
    using that by (intro stores_fold inj ballI pix) auto
  note line = this
  have "stores (fold (\<lambda>y. fold (\<lambda>x. atlas_pixel scale (of_nat ch) (of_nat y) (font (ch * 16 + y)) x) [0..<8]) [0..<16])
      (\<Union>y \<in> set [0..<16]. \<Union>x \<in> set [0..<8]. ?A ch y x) ?f ?v" if "ch < 128" for ch
    using that by (intro stores_fold [OF _ inj] ballI line) auto
  note glyph = this
  have "stores (build_atlas scale font) (\<Union>ch \<in> set [0..<128]. \<Union>y \<in> set [0..<16]. \<Union>x \<in> set [0..<8]. ?A ch y x) ?f ?v"
    unfolding build_atlas_def FONT_WIDTH_def FONT_HEIGHT_def FONT_CHARS_def unat_numerals
    by (intro stores_fold [OF _ inj] ballI glyph) auto
  moreover have "(\<Union>ch \<in> set [0..<128]. \<Union>y \<in> set [0..<16]. \<Union>x \<in> set [0..<8]. ?A ch y x) =
      {(ch, y, x, s). ch < 128 \<and> y < 16 \<and> x < 8 \<and> s < ?S}"
    by (force simp: image_iff)
  ultimately show ?thesis by simp
qed

subsection \<open>The framebuffer\<close>

lemma blit_fold:
  "blit atlas fg bg dst src (8 * n) fb = fold (\<lambda>k fb. fb(dst + k := vbsl (atlas (src + k)) fg bg)) [0..<8 * n] fb"
proof (induction n arbitrary: dst src fb)
  case 0
  then show ?case by (simp add: blit.simps)
next
  case (Suc n)
  let ?step = "\<lambda>dst src k fb. fb(dst + k := vbsl (atlas (src + k)) fg bg)"
  have split: "[0..<8 * Suc n] = [0..<8] @ map (\<lambda>k. k + 8) [0..<8 * n]"
    using upt_add_eq_append [of 0 8 "8 * n"] map_add_upt [of 8 "8 * n"] by (simp add: add.commute)
  have "blit atlas fg bg dst src (8 * Suc n) fb = blit atlas fg bg (dst + 8) (src + 8) (8 * n) (fold (?step dst src) [0..<8] fb)"
    by (subst blit.simps) simp
  also have "\<dots> = fold (?step (dst + 8) (src + 8)) [0..<8 * n] (fold (?step dst src) [0..<8] fb)"
    by (rule Suc.IH)
  also have "\<dots> = fold (?step dst src) [0..<8 * Suc n] fb"
    unfolding split fold_append comp_apply fold_map by (simp add: comp_def ac_simps)
  finally show ?case .
qed

lemma vbsl_masks: "vbsl 0xffffffff fg bg = fg" "vbsl 0 fg bg = bg"
proof -
  have "(0xffffffff :: u32) = - 1" by simp
  then show "vbsl 0xffffffff fg bg = fg" "vbsl 0 fg bg = bg"
    unfolding vbsl_def by (simp_all only: and.left_neutral bit.compl_one bit.compl_zero zero_and_eq or.right_neutral or.left_neutral)
qed

text \<open>A console whose framebuffer has the size of its cells and fits below 4 GiB.\<close>

definition vc_fits :: "vidconsole \<Rightarrow> bool" where
  "vc_fits c \<longleftrightarrow> unat (vc_fb_width c) = unat (vc_w c) * (8 * unat (vc_scale c)) \<and>
     unat (vc_fb_width c) * (unat (vc_h c) * 16 * unat (vc_scale c)) < 2 ^ 32 \<and>
     unat (vc_w c) * unat (vc_h c) < 2 ^ 32 \<and> 0 < unat (vc_w c) \<and> 0 < unat (vc_h c) \<and>
     0 < unat (vc_scale c) \<and> unat (vc_scale c) < 2 ^ 16 \<and>
     (\<exists>atlas0. vc_atlas c = build_atlas (vc_scale c) (vc_font c) atlas0)"

text \<open>Column, line, line of the glyph, its copy and pixel of it.\<close>

type_synonym pixel = "nat \<times> nat \<times> nat \<times> nat \<times> nat"

definition pixel_index :: "vidconsole \<Rightarrow> pixel \<Rightarrow> nat" where
  "pixel_index c = (\<lambda>(x, y, cy, s, k).
     ((y * 16 + cy) * unat (vc_scale c) + s) * unat (vc_fb_width c) + (x * (8 * unat (vc_scale c)) + k))"

definition pixel_value :: "vidconsole \<Rightarrow> pixel \<Rightarrow> u32" where
  "pixel_value c = (\<lambda>(x, y, cy, s, k).
     let pos = y * unat (vc_w c) + x
     in vbsl (vc_atlas c ((unat (cell_char c pos) * 16 + cy) * (8 * unat (vc_scale c)) + k)) (vc_fg_color c pos) (vc_bg_color c pos))"

definition pixels :: "vidconsole \<Rightarrow> pixel set" where
  "pixels c = {(x, y, cy, s, k). x < unat (vc_w c) \<and> y < unat (vc_h c) \<and> cy < 16 \<and> s < unat (vc_scale c) \<and>
     k < 8 * unat (vc_scale c)}"

lemma pixel_index_inj:
  assumes "vc_fits c"
  shows "inj_on (pixel_index c) (pixels c)"
proof (rule inj_onI)
  let ?S = "unat (vc_scale c)" and ?W = "unat (vc_fb_width c)"
  fix i j
  assume "i \<in> pixels c" "j \<in> pixels c" and eq: "pixel_index c i = pixel_index c j"
  then obtain x y cy s k x' y' cy' s' k' where ij: "i = (x, y, cy, s, k)" "j = (x', y', cy', s', k')"
    and b: "x < unat (vc_w c)" "cy < 16" "s < ?S" "k < 8 * ?S" "x' < unat (vc_w c)" "cy' < 16" "s' < ?S" "k' < 8 * ?S"
    by (auto simp: pixels_def)
  have row: "x * (8 * ?S) + k < ?W" "x' * (8 * ?S) + k' < ?W"
    using radix_less b assms unfolding vc_fits_def by metis+
  from radix [OF eq [unfolded ij pixel_index_def prod.case] row]
  have 1: "(y * 16 + cy) * ?S + s = (y' * 16 + cy') * ?S + s'" "x * (8 * ?S) + k = x' * (8 * ?S) + k'" .
  from radix [OF 1(1) b(3,7)] have 2: "y * 16 + cy = y' * 16 + cy'" "s = s'" .
  from radix [OF 2(1) b(2,6)] radix [OF 1(2) b(4,8)] show "i = j" using 2 by (simp add: ij)
qed

lemma console_index:
  assumes "vc_fits c" "x < unat (vc_w c)" "y < unat (vc_h c)" "cy < 16" "s < unat (vc_scale c)"
  shows "unat (of_nat y * vc_w c + of_nat x) = y * unat (vc_w c) + x"
    "unat (vc_fb_width c * of_nat y * FONT_HEIGHT * vc_scale c) = unat (vc_fb_width c) * y * 16 * unat (vc_scale c)"
    "unat (of_nat x * char_stride (vc_scale c)) = x * (8 * unat (vc_scale c))"
    "unat (vc_fb_width c * (vc_scale c * of_nat cy + of_nat s)) = unat (vc_fb_width c) * (unat (vc_scale c) * cy + s)"
proof -
  let ?S = "unat (vc_scale c)" and ?W = "unat (vc_w c)" and ?H = "unat (vc_h c)" and ?F = "unat (vc_fb_width c)"
  have fits: "?F = ?W * (8 * ?S)" "?F * (?H * 16 * ?S) < 2 ^ 32" "?W * ?H < 2 ^ 32" "0 < ?H" "0 < ?S"
    using assms(1) by (auto simp: vc_fits_def)
  have "y * ?W + x < ?H * ?W"
    using radix_less assms(2,3) by blast
  then have "y * ?W + x < 2 ^ 32" using fits(3) by (simp add: mult.commute)
  moreover have "of_nat y * vc_w c + of_nat x = (of_nat (y * ?W + x) :: u32)" by simp
  ultimately show "unat (of_nat y * vc_w c + of_nat x) = y * ?W + x"
    by (simp only: unat_of_nat_u32)
  have "?F * y * 16 * ?S \<le> ?F * (?H * 16 * ?S)"
    using assms(3) by simp
  then have "?F * y * 16 * ?S < 2 ^ 32" using fits(2) by linarith
  moreover have "vc_fb_width c * of_nat y * FONT_HEIGHT * vc_scale c = (of_nat (?F * y * 16 * ?S) :: u32)"
    by (simp add: FONT_HEIGHT_def)
  ultimately show "unat (vc_fb_width c * of_nat y * FONT_HEIGHT * vc_scale c) = ?F * y * 16 * ?S"
    by (simp only: unat_of_nat_u32)
  have FH: "?F \<le> ?F * (?H * 16 * ?S)" using fits(4,5) by simp
  have "x * (8 * ?S) \<le> ?F" using assms(2) fits(1) by simp
  then have "x * (8 * ?S) < 2 ^ 32" using FH fits(2) by linarith
  moreover have "of_nat x * char_stride (vc_scale c) = (of_nat (x * (8 * ?S)) :: u32)"
    by (simp add: char_stride_def FONT_WIDTH_def)
  ultimately show "unat (of_nat x * char_stride (vc_scale c)) = x * (8 * ?S)"
    by (simp only: unat_of_nat_u32)
  have "cy * ?S + s < 16 * ?S" using radix_less assms(4,5) by blast
  also have "16 * ?S \<le> ?H * 16 * ?S" using fits(4) by simp
  finally have "?F * (?S * cy + s) \<le> ?F * (?H * 16 * ?S)" by (simp add: mult.commute)
  then have "?F * (?S * cy + s) < 2 ^ 32" using fits(2) by linarith
  moreover have "vc_fb_width c * (vc_scale c * of_nat cy + of_nat s) = (of_nat (?F * (?S * cy + s)) :: u32)"
    by simp
  ultimately show "unat (vc_fb_width c * (vc_scale c * of_nat cy + of_nat s)) = ?F * (?S * cy + s)"
    by (simp only: unat_of_nat_u32)
qed

lemma glyph_index:
  assumes "unat ch \<le> 128" "unat scale < 2 ^ 16" "cy < 16"
  shows "unat (char_size scale * ch) + unat (char_stride scale * of_nat cy) = (unat ch * 16 + cy) * (8 * unat scale)"
proof -
  let ?S = "unat scale"
  have "unat ch * ?S \<le> 128 * 2 ^ 16" using assms(1,2) by (intro mult_le_mono) simp_all
  then have "?S * 8 * 16 * unat ch < 2 ^ 32" by (simp add: mult.commute)
  moreover have "char_size scale * ch = of_nat (?S * 8 * 16 * unat ch)"
    by (simp add: char_size_def char_stride_def FONT_WIDTH_def FONT_HEIGHT_def)
  ultimately have 1: "unat (char_size scale * ch) = ?S * 8 * 16 * unat ch"
    by (simp only: unat_of_nat_u32)
  have "?S * cy \<le> 2 ^ 16 * 16" using assms(2,3) by (intro mult_le_mono) simp_all
  then have "?S * 8 * cy < 2 ^ 32" by (simp add: mult.commute mult.left_commute)
  moreover have "char_stride scale * of_nat cy = of_nat (?S * 8 * cy)"
    by (simp add: char_stride_def FONT_WIDTH_def)
  ultimately have 2: "unat (char_stride scale * of_nat cy) = ?S * 8 * cy"
    by (simp only: unat_of_nat_u32)
  show ?thesis unfolding 1 2 by (simp add: algebra_simps)
qed

lemma cell_char_le: "unat (cell_char c pos) \<le> 128"
proof -
  have "unat (0x3f :: u32) \<le> 128" by simp
  then show ?thesis
    by (auto simp: cell_char_def Let_def FONT_CHARS_def word_le_nat_alt not_less)
qed

lemma redraw_line_stores:
  assumes "vc_fits c" "x < unat (vc_w c)" "y < unat (vc_h c)" "cy < 16" "s < unat (vc_scale c)"
  shows "stores (redraw_line c (cell_char c (y * unat (vc_w c) + x)) (y * unat (vc_w c) + x)
      (unat (vc_fb_width c) * y * 16 * unat (vc_scale c) + x * (8 * unat (vc_scale c))) cy s)
    ((\<lambda>k. (x, y, cy, s, k)) ` {0..<8 * unat (vc_scale c)}) (pixel_index c) (pixel_value c)"
proof (rule stores_image)
  let ?S = "unat (vc_scale c)" and ?F = "unat (vc_fb_width c)"
  let ?pos = "y * unat (vc_w c) + x"
  let ?d = "?F * y * 16 * ?S + x * (8 * ?S) + ?F * (?S * cy + s)"
  let ?v = "\<lambda>k. vbsl (vc_atlas c ((unat (cell_char c ?pos) * 16 + cy) * (8 * ?S) + k)) (vc_fg_color c ?pos) (vc_bg_color c ?pos)"
  have S: "?S < 2 ^ 16" using assms(1) by (simp add: vc_fits_def)
  have "8 * ?S < 2 ^ 32" using S by simp
  then have stride: "unat (char_stride (vc_scale c)) = 8 * ?S"
    unfolding char_stride_def FONT_WIDTH_def by (subst unat_mult) simp_all
  have "redraw_line c (cell_char c ?pos) ?pos (?F * y * 16 * ?S + x * (8 * ?S)) cy s =
      fold (\<lambda>k fb. fb(?d + k := ?v k)) [0..<8 * ?S]"
    unfolding redraw_line_def stride console_index(4) [OF assms] glyph_index [OF cell_char_le S assms(4)]
    by (intro ext) (simp only: blit_fold)
  then show "stores (redraw_line c (cell_char c ?pos) ?pos (?F * y * 16 * ?S + x * (8 * ?S)) cy s)
      {0..<8 * ?S} (\<lambda>k. ?d + k) ?v"
    using stores_fold_upd [of "\<lambda>k. ?d + k" "[0..<8 * ?S]" ?v] by (simp add: inj_on_def)
  show "pixel_index c (x, y, cy, s, k) = ?d + k \<and> pixel_value c (x, y, cy, s, k) = ?v k" for k
    by (simp add: pixel_index_def pixel_value_def Let_def algebra_simps)
qed

lemma redraw_stores:
  assumes "vc_fits c"
  shows "stores (vidconsole_redraw c) (pixels c) (pixel_index c) (pixel_value c)"
proof -
  let ?S = "unat (vc_scale c)" and ?f = "pixel_index c" and ?v = "pixel_value c"
  let ?A = "\<lambda>x y cy s. (\<lambda>k. (x, y, cy, s, k)) ` {0..<8 * ?S}"
  have inj: "inj_on ?f B" if "B \<subseteq> pixels c" for B
    using inj_on_subset [OF pixel_index_inj [OF assms] that] .
  have cell: "redraw_cell c x y = fold (\<lambda>cy. fold (redraw_line c (cell_char c (y * unat (vc_w c) + x)) (y * unat (vc_w c) + x)
      (unat (vc_fb_width c) * y * 16 * ?S + x * (8 * ?S)) cy) [0..<?S]) [0..<16]"
    if "x < unat (vc_w c)" "y < unat (vc_h c)" for x y
  proof -
    have "0 < ?S" using assms by (simp add: vc_fits_def)
    note ix = console_index [OF assms that _ this, of 0]
    show ?thesis
      unfolding redraw_cell_def Let_def FONT_HEIGHT_def [THEN arg_cong, of unat] unat_numerals
      by (intro ext) (simp only: ix(1-3) [simplified])
  qed
  have copies: "stores (fold (redraw_line c (cell_char c (y * unat (vc_w c) + x)) (y * unat (vc_w c) + x)
      (unat (vc_fb_width c) * y * 16 * ?S + x * (8 * ?S)) cy) [0..<?S]) (\<Union>s \<in> set [0..<?S]. ?A x y cy s) ?f ?v"
    if "x < unat (vc_w c)" "y < unat (vc_h c)" "cy < 16" for x y cy
    using that by (intro stores_fold inj ballI redraw_line_stores assms) (auto simp: pixels_def)
  have cells: "stores (redraw_cell c x y) (\<Union>cy \<in> set [0..<16]. \<Union>s \<in> set [0..<?S]. ?A x y cy s) ?f ?v"
    if "x < unat (vc_w c)" "y < unat (vc_h c)" for x y
    unfolding cell [OF that] using that by (intro stores_fold inj ballI copies) (auto simp: pixels_def)
  have column: "stores (fold (redraw_cell c x) [0..<unat (vc_h c)])
      (\<Union>y \<in> set [0..<unat (vc_h c)]. \<Union>cy \<in> set [0..<16]. \<Union>s \<in> set [0..<?S]. ?A x y cy s) ?f ?v"
    if "x < unat (vc_w c)" for x
    using that by (intro stores_fold inj ballI cells) (auto simp: pixels_def)
  have "stores (fold (\<lambda>x. fold (redraw_cell c x) [0..<unat (vc_h c)]) [0..<unat (vc_w c)])
      (\<Union>x \<in> set [0..<unat (vc_w c)]. \<Union>y \<in> set [0..<unat (vc_h c)]. \<Union>cy \<in> set [0..<16]. \<Union>s \<in> set [0..<?S]. ?A x y cy s) ?f ?v"
    by (intro stores_fold inj ballI column) (auto simp: pixels_def)
  moreover have "(\<Union>x \<in> set [0..<unat (vc_w c)]. \<Union>y \<in> set [0..<unat (vc_h c)]. \<Union>cy \<in> set [0..<16]. \<Union>s \<in> set [0..<?S]. ?A x y cy s) = pixels c"
    by (force simp: pixels_def image_iff)
  ultimately show ?thesis
    by (simp add: vidconsole_redraw_def [abs_def])
qed
subsection \<open>Pixels told from the cells\<close>

text \<open>The colour of the pixel in column \<open>px\<close> and line \<open>py\<close> of the framebuffer, told from the cells.\<close>

definition shown_pixel :: "vidconsole \<Rightarrow> nat \<Rightarrow> nat \<Rightarrow> u32" where
  "shown_pixel c px py =
     (let S = unat (vc_scale c);
          pos = py div (16 * S) * unat (vc_w c) + px div (8 * S);
          ch = unat (vc_screen c pos);
          glyph = (if ch > 128 then 0x3f else ch);
          row = vc_font c (glyph * 16 + py mod (16 * S) div S)
      in if bit row (7 - px mod (8 * S) div S) then vc_fg_color c pos else vc_bg_color c pos)"

lemma atlas_read:
  assumes "vc_fits c" "ch < 128" "cy < 16" "k < 8 * unat (vc_scale c)"
  shows "vc_atlas c ((ch * 16 + cy) * (8 * unat (vc_scale c)) + k) =
    (if bit (vc_font c (ch * 16 + cy)) (7 - k div unat (vc_scale c)) then 0xffffffff else 0)"
proof -
  let ?S = "unat (vc_scale c)" and ?i = "(ch, cy, k div unat (vc_scale c), k mod unat (vc_scale c))"
  obtain atlas0 where a: "vc_atlas c = build_atlas (vc_scale c) (vc_font c) atlas0" and S: "0 < ?S" "?S < 2 ^ 16"
    using assms(1) by (auto simp: vc_fits_def)
  have "k div ?S < 8" using assms(4) S(1) by (simp add: less_mult_imp_div_less)
  then have "vc_atlas c (atlas_index ?S ?i) = atlas_value (vc_font c) ?i"
    using build_atlas_stores [OF S(2), of "vc_font c"] assms(2,3) S(1) by (auto simp: stores_def a)
  moreover have "((ch * 16 + cy) * 8 + k div ?S) * ?S + k mod ?S = (ch * 16 + cy) * (8 * ?S) + (k div ?S * ?S + k mod ?S)"
    by (simp only: distrib_right mult.assoc add.assoc)
  then have "atlas_index ?S ?i = (ch * 16 + cy) * (8 * ?S) + k"
    by (simp add: atlas_index_def)
  ultimately show ?thesis by (simp add: atlas_value_def)
qed

lemma pixel_position:
  fixes px py W H S :: nat
  assumes "px < W * (8 * S)" "py < H * (16 * S)"
  shows "px div (8 * S) < W" "py div (16 * S) < H" "py mod (16 * S) div S < 16" "py mod S < S" "px mod (8 * S) < 8 * S"
    "(py div (16 * S) * 16 + py mod (16 * S) div S) * S + py mod S = py"
    "px div (8 * S) * (8 * S) + px mod (8 * S) = px"
proof -
  have S: "0 < S" using assms(1) by (cases S) simp_all
  show "px div (8 * S) < W" "py div (16 * S) < H"
    using assms by (simp_all add: less_mult_imp_div_less)
  have "py mod (16 * S) < 16 * S" using S by simp
  then show "py mod (16 * S) div S < 16" by (simp add: less_mult_imp_div_less)
  show "py mod S < S" "px mod (8 * S) < 8 * S" using S by simp_all
  show "px div (8 * S) * (8 * S) + px mod (8 * S) = px" by (rule div_mult_mod_eq)
  have "py mod (16 * S) mod S = py mod S" by (rule mod_mod_cancel) simp
  then have "py mod (16 * S) div S * S + py mod S = py mod (16 * S)"
    using div_mult_mod_eq [of "py mod (16 * S)" S] by simp
  then have "(py div (16 * S) * 16 + py mod (16 * S) div S) * S + py mod S = py div (16 * S) * (16 * S) + py mod (16 * S)"
    by (simp only: distrib_right mult.assoc add.assoc)
  then show "(py div (16 * S) * 16 + py mod (16 * S) div S) * S + py mod S = py"
    by (simp only: div_mult_mod_eq)
qed

text \<open>
  C24: After a redraw every pixel of the framebuffer has the foreground colour of its cell where the
  bit of the glyph of the character of the cell is set, and its background colour elsewhere, at any
  scale; characters past the font show as a question mark. Nothing outside of the framebuffer
  changes. (The character 128 is let through by the test in the code and reads past the atlas.)
\<close>

theorem vidconsole_redraw_shows:
  assumes "vc_fits c"
  shows "(\<forall>px < unat (vc_fb_width c). \<forall>py < unat (vc_h c) * (16 * unat (vc_scale c)).
      vc_screen c (py div (16 * unat (vc_scale c)) * unat (vc_w c) + px div (8 * unat (vc_scale c))) \<noteq> 128 \<longrightarrow>
      vidconsole_redraw c fb (py * unat (vc_fb_width c) + px) = shown_pixel c px py) \<and>
    (\<forall>i \<ge> unat (vc_h c) * (16 * unat (vc_scale c)) * unat (vc_fb_width c). vidconsole_redraw c fb i = fb i)"
proof (intro conjI allI impI)
  let ?S = "unat (vc_scale c)" and ?F = "unat (vc_fb_width c)"
  note st = redraw_stores [OF assms]
  fix px py
  let ?pos = "py div (16 * ?S) * unat (vc_w c) + px div (8 * ?S)"
  assume px: "px < ?F" and py: "py < unat (vc_h c) * (16 * ?S)" and ch: "vc_screen c ?pos \<noteq> 128"
  have "px < unat (vc_w c) * (8 * ?S)" using px assms by (simp add: vc_fits_def)
  note pos = pixel_position [OF this py]
  let ?p = "(px div (8 * ?S), py div (16 * ?S), py mod (16 * ?S) div ?S, py mod ?S, px mod (8 * ?S))"
  have "?p \<in> pixels c" using pos(1-5) by (simp add: pixels_def)
  then have "vidconsole_redraw c fb (pixel_index c ?p) = pixel_value c ?p"
    using st by (simp add: stores_def)
  moreover have "pixel_index c ?p = py * ?F + px"
    unfolding pixel_index_def prod.case pos(6,7) ..
  moreover have "pixel_value c ?p = shown_pixel c px py"
  proof -
    let ?g = "if unat (vc_screen c ?pos) > 128 then 0x3f else unat (vc_screen c ?pos)"
    have unat_128: "unat (128 :: u8) = 128" by simp
    have "unat (vc_screen c ?pos) \<noteq> 128" using ch by (metis word_unat_eq_iff unat_128)
    then have "?g < 128" by auto
    moreover have "unat (cell_char c ?pos) = ?g"
      by (simp add: cell_char_def Let_def FONT_CHARS_def word_less_nat_alt)
    ultimately show ?thesis
      unfolding pixel_value_def shown_pixel_def Let_def prod.case
      by (simp add: atlas_read [OF assms _ pos(3,5)] vbsl_masks)
  qed
  ultimately show "vidconsole_redraw c fb (py * ?F + px) = shown_pixel c px py" by simp
next
  let ?S = "unat (vc_scale c)" and ?F = "unat (vc_fb_width c)"
  fix i assume i: "unat (vc_h c) * (16 * ?S) * ?F \<le> i"
  have "pixel_index c p \<noteq> i" if m: "p \<in> pixels c" for p
  proof -
    obtain x y cy s k where p: "p = (x, y, cy, s, k)" and b: "x < unat (vc_w c)" "y < unat (vc_h c)" "cy < 16" "s < ?S" "k < 8 * ?S"
      using m unfolding pixels_def by auto
    have "x * (8 * ?S) + k < ?F" using radix_less [OF b(1,5)] assms by (simp add: vc_fits_def)
    then have "pixel_index c p < unat (vc_h c) * 16 * ?S * ?F"
      unfolding p pixel_index_def prod.case by (intro radix_less b)
    then show ?thesis using i by (simp add: mult.assoc)
  qed
  then have "i \<notin> pixel_index c ` pixels c" by blast
  then show "vidconsole_redraw c fb i = fb i"
    using redraw_stores [OF assms] unfolding stores_def by blast
qed

text \<open>
  \<open>vidconsole_init\<close> makes a console in order: empty, the cursor at the start, every cell blank in
  the default colours, the framebuffer as wide and high as the cells and the atlas made from the
  font. So redraws and characters behave on it as stated, as long as the framebuffer has less than
  \<open>2 ^ 31\<close> pixels.
\<close>

theorem vidconsole_init_ok:
  assumes "vidconsole_init glyphs junk8 junk32 w h scale fg bg s = (c, s')"
    and "0 < w" "0 < h" "0 < scale" "unat scale < 2 ^ 16"
    and "unat w * (8 * unat scale) * (unat h * 16 * unat scale) < 2 ^ 31"
  shows "vc_ok c \<and> vc_fits c \<and> vc_cursor c = 0 \<and> unat (vc_fb_height c) = unat h * 16 * unat scale \<and>
    (\<forall>i < unat w * unat h. vc_screen c i = 0x20 \<and> vc_fg_color c i = fg \<and> vc_bg_color c i = bg)"
proof -
  let ?W = "unat w" and ?H = "unat h" and ?S = "unat scale"
  have pos: "0 < ?W" "0 < ?H" "0 < ?S" using assms(2-4) by (simp_all add: word_less_nat_alt)
  have "?W * ?H * 1 \<le> ?W * ?H * (8 * ?S * (16 * ?S))" using pos by (intro mult_le_mono2) simp
  also have "\<dots> = ?W * (8 * ?S) * (?H * 16 * ?S)" by (simp only: ac_simps)
  finally have cells: "?W * ?H < 2 ^ 31" using assms(6) by linarith
  have "?W * (8 * ?S) * 1 \<le> ?W * (8 * ?S) * (?H * 16 * ?S)" "1 * (?H * 16 * ?S) \<le> ?W * (8 * ?S) * (?H * 16 * ?S)"
    using pos by (intro mult_le_mono; simp)+
  then have F: "?W * (8 * ?S) < 2 ^ 32" and FH: "?H * 16 * ?S < 2 ^ 32"
    using assms(6) pow_32 by linarith+
  have wh: "unat (w * h) = ?W * ?H" using cells pow_32 by (intro unat_mult) linarith
  have "w * FONT_WIDTH * scale = of_nat (?W * (8 * ?S))" by (simp add: FONT_WIDTH_def)
  then have width: "unat (w * FONT_WIDTH * scale) = ?W * (8 * ?S)"
    using F by (simp only: unat_of_nat_u32)
  have "h * FONT_HEIGHT * scale = of_nat (?H * 16 * ?S)" by (simp add: FONT_HEIGHT_def)
  then have height: "unat (h * FONT_HEIGHT * scale) = ?H * 16 * ?S"
    using FH by (simp only: unat_of_nat_u32)
  have filled: "fold (\<lambda>i a. a(i := v)) [0..<n] a0 i = v" if "i < n" for n i :: nat and v :: 'z and a0
    using fold_upd [of id "[0..<n]" i "\<lambda>_. v" a0] that by simp
  obtain junk where c: "c = \<lparr>vc_w = w, vc_h = h, vc_size = w * h, vc_fb_start = vc_fb_start c,
      vc_fb_pitch = w * FONT_WIDTH * scale * 4, vc_fb_width = w * FONT_WIDTH * scale, vc_fb_height = h * FONT_HEIGHT * scale,
      vc_scale = scale, vc_font = vc_font c, vc_atlas = build_atlas scale (vc_font c) junk,
      vc_screen = fold (\<lambda>i a. a(i := 0x20)) [0..<unat (w * h)] junk8,
      vc_fg_color = fold (\<lambda>i a. a(i := fg)) [0..<unat (w * h)] junk32,
      vc_bg_color = fold (\<lambda>i a. a(i := bg)) [0..<unat (w * h)] junk32,
      vc_cursor = 0, vc_default_fg = fg, vc_default_bg = bg\<rparr>"
    using assms(1) by (auto simp: vidconsole_init_def Let_def split: prod.splits)
  have "vc_ok c"
    using assms(2,3) cells by (subst c) (simp add: vc_ok_def)
  moreover have "vc_fits c"
  proof -
    have "vc_fb_width c = w * FONT_WIDTH * scale" "vc_h c = h" "vc_w c = w" "vc_scale c = scale"
      "vc_atlas c = build_atlas scale (vc_font c) junk"
      by (subst c, simp)+
    then show ?thesis
      using pos assms(5,6) cells pow_32 width unfolding vc_fits_def by auto
  qed
  moreover have "vc_cursor c = 0 \<and> unat (vc_fb_height c) = ?H * 16 * ?S"
    using height by (subst (1 2) c) simp
  moreover have "vc_screen c i = 0x20 \<and> vc_fg_color c i = fg \<and> vc_bg_color c i = bg" if "i < ?W * ?H" for i
    using that by (subst (1 2 3) c) (simp add: wh filled)
  ultimately show ?thesis by blast
qed

text \<open>Two columns and a line at scale 2, the font a single pixel of the letter \<open>A\<close>.\<close>

definition sample_font :: "u8 list" where "sample_font = replicate (0x41 * 16) 0 @ [0x80]"

definition sample_blank :: vidconsole where
  "sample_blank = fst (vidconsole_init sample_font (\<lambda>_. 0) (\<lambda>_. 0) 2 1 2 1 3 \<lparr>mem = (\<lambda>_. 0), heap_end = 0x4a000000\<rparr>)"

lemma sample_blank_fits: "vc_fits sample_blank"
proof -
  have "fst (vidconsole_init sample_font (\<lambda>_. 0) (\<lambda>_. 0) 2 1 2 1 3 s) = c \<Longrightarrow> vc_fits c" for s c
    by (auto simp: vidconsole_init_def vc_fits_def FONT_WIDTH_def Let_def split: prod.splits)
  then show ?thesis by (simp add: sample_blank_def)
qed

theorem vidconsole_init_ok_witness: "vc_ok sample_blank \<and> vc_fits sample_blank \<and> vc_screen sample_blank 1 = 0x20"
proof -
  obtain c s where c: "vidconsole_init sample_font (\<lambda>_. 0) (\<lambda>_. 0) 2 1 2 1 3 \<lparr>mem = (\<lambda>_. 0), heap_end = 0x4a000000\<rparr> = (c, s)"
    by fastforce
  then show ?thesis
    using vidconsole_init_ok [OF c] by (simp add: sample_blank_def)
qed

lemma set_xy_fits: "vc_fits (vidconsole_set_xy x y ch fg bg c) = vc_fits c"
  by (simp add: vc_fits_def vidconsole_set_xy_def Let_def)

definition sample_shown :: vidconsole where
  "sample_shown = vidconsole_set_xy 1 0 0x41 7 9 sample_blank"

lemma sample_shown_values:
  "vc_w sample_shown = 2" "vc_h sample_shown = 1" "vc_scale sample_shown = 2" "vc_fb_width sample_shown = 32"
  "vc_screen sample_shown 1 = 0x41" "vc_fg_color sample_shown 1 = 7" "vc_bg_color sample_shown 1 = 9"
  "vc_font sample_shown (0x41 * 16) = 0x80"
  by (simp_all add: sample_shown_def sample_blank_def vidconsole_init_def vidconsole_set_xy_def Let_def
      FONT_WIDTH_def sample_font_def nth_append split: prod.splits)

theorem vidconsole_redraw_shows_witness:
  "vidconsole_redraw sample_shown (\<lambda>_. 0) (1 * 32 + 17) = 7 \<and> vidconsole_redraw sample_shown (\<lambda>_. 0) (1 * 32 + 18) = 9 \<and>
    vidconsole_redraw sample_shown (\<lambda>_. 0) 1024 = 0"
proof -
  have "vc_fits sample_shown"
    unfolding sample_shown_def set_xy_fits using sample_blank_fits by simp
  note r = vidconsole_redraw_shows [OF this, of "\<lambda>_. 0"]
  have "bit (0x80 :: u8) 7" by (simp add: bit_numeral_rec)
  moreover have "\<not> bit (0x80 :: u8) 6" by (simp add: bit_numeral_rec)
  ultimately have s: "shown_pixel sample_shown 17 1 = 7" "shown_pixel sample_shown 18 1 = 9"
    using sample_shown_values by (simp_all add: shown_pixel_def Let_def)
  show ?thesis
    using r [THEN conjunct1, rule_format, of 17 1] r [THEN conjunct1, rule_format, of 18 1]
      r [THEN conjunct2, rule_format, of 1024] s sample_shown_values by simp
qed
end
