(* ===== verification/Menu.thy ===== *)
theory Menu
  imports Vidconsole Compositor
begin

text \<open>
  The menu widget of \<open>src/src/gui.c\<close>: items, titles, selection and scrolling, and the cells that
  an update draws on the text console. A C string is its bytes up to the NUL. The array of items
  is a function of the index; what lies behind or before its 64 elements is whatever the memory
  holds. Counters and indices are \<open>int\<close>, columns and lines \<open>u32\<close> as in the code.
\<close>

section \<open>State\<close>

datatype event_kind = EV_VOLUME_UP | EV_VOLUME_DOWN | EV_POK_SHORT | EV_POK_LONG | EV_POK_DOWN | EV_VBLANK

record menu_item =
  it_text :: "u8 list"
  it_fg :: u32
  it_id :: int
  it_active_fg :: u32
  it_active :: bool

record menu =
  m_disabled :: bool
  m_items :: "int \<Rightarrow> menu_item"
  m_titles :: "u8 list list"
  m_titles_fg :: "u32 list"
  n_items :: int
  m_con :: vidconsole
  selection :: int
  scroll_top :: int
  scroll_height :: int
  changed :: bool
  selection_changed :: bool

definition POS_TOP_LEFT :: nat where "POS_TOP_LEFT = 0"
definition POS_TOP_RIGHT :: nat where "POS_TOP_RIGHT = 1"
definition POS_BOTTOM_LEFT :: nat where "POS_BOTTOM_LEFT = 2"
definition POS_BOTTOM_RIGHT :: nat where "POS_BOTTOM_RIGHT = 3"
definition SLACK :: int where "SLACK = 2"

definition item_zero :: menu_item where
  "item_zero = \<lparr>it_text = [], it_fg = 0, it_id = 0, it_active_fg = 0, it_active = False\<rparr>"

section \<open>Making a menu\<close>

text \<open>
  \<open>gui_menu\<close>; \<open>beyond\<close> is the memory around the items. The registration of the widget is in
  \<open>Gui_Events\<close>. The size of \<open>struct gui_menu\<close> is an argument, the console is in memory
  that \<open>zalloc\<close> cleared.
\<close>

definition gui_menu ::
  "u64 \<Rightarrow> (int \<Rightarrow> menu_item) \<Rightarrow> u8 list \<Rightarrow> (nat \<Rightarrow> u8) \<Rightarrow> (nat \<Rightarrow> u32) \<Rightarrow> 'a heap_scheme \<Rightarrow> menu \<times> 'a heap_scheme" where
  "gui_menu struct_size beyond glyphs junk8 junk32 s =
     (let (_, s) = zalloc struct_size s;
          w = 40; h = 21;
          (c, s) = vidconsole_init glyphs junk8 junk32 w h 2 0xff112233 0xcc000000 s
      in (\<lparr>m_disabled = False, m_items = (\<lambda>i. if 0 \<le> i \<and> i < 64 then item_zero else beyond i),
           m_titles = [[], [], [], []], m_titles_fg = [0, 0, 0, 0], n_items = 0, m_con = c, selection = 0,
           scroll_top = 0, scroll_height = uint (h - 4), changed = True, selection_changed = False\<rparr>, s))"

text \<open>The argument \<open>bg\<close> is not used. \<open>None\<close> is the null pointer.\<close>

definition gui_menu_set_title :: "nat \<Rightarrow> u8 list option \<Rightarrow> u32 \<Rightarrow> u32 \<Rightarrow> menu \<Rightarrow> menu" where
  "gui_menu_set_title pos text' fg bg m =
     (let m = m\<lparr>changed := True\<rparr>
      in case text' of
           Some s \<Rightarrow> m\<lparr>m_titles := (m_titles m)[pos := s], m_titles_fg := (m_titles_fg m)[pos := fg]\<rparr>
         | None \<Rightarrow> m\<lparr>m_titles := (m_titles m)[pos := []]\<rparr>)"

definition gui_menu_add_item :: "int \<Rightarrow> u8 list \<Rightarrow> u32 \<Rightarrow> u32 \<Rightarrow> menu \<Rightarrow> menu" where
  "gui_menu_add_item ident s fg active_fg m =
     (let it = (m_items m (n_items m))\<lparr>it_text := s, it_fg := fg, it_active_fg := active_fg, it_id := ident\<rparr>
      in m\<lparr>changed := True, m_items := (m_items m)(n_items m := it), n_items := n_items m + 1\<rparr>)"

definition gui_menu_get_selection :: "menu \<Rightarrow> int" where
  "gui_menu_get_selection m = it_id (m_items m (selection m))"

definition gui_menu_set_selection :: "int \<Rightarrow> menu \<Rightarrow> menu" where
  "gui_menu_set_selection ident m =
     (case find (\<lambda>i. it_id (m_items m i) = ident) [0..n_items m - 1] of
        None \<Rightarrow> m
      | Some i \<Rightarrow> m\<lparr>selection := i, changed := True\<rparr>)"

text \<open>\<open>gui_menu_set_active\<close> of \<open>main.c\<close>.\<close>

definition gui_menu_set_active :: "int \<Rightarrow> menu \<Rightarrow> menu" where
  "gui_menu_set_active ident m =
     (let items = fold (\<lambda>i items. if it_id (items i) < 67 then items(i := (items i)\<lparr>it_active := (it_id (items i) = ident)\<rparr>) else items)
            [0..n_items m - 1] (m_items m)
      in m\<lparr>m_items := items, changed := True\<rparr>)"

section \<open>Update\<close>

text \<open>\<open>do ... while (new_sel != m->selection && m->items[new_sel].id < 0)\<close>\<close>

definition wrap_sel :: "int \<Rightarrow> int \<Rightarrow> int" where
  "wrap_sel n i = (if i \<ge> n then 0 else if i < 0 then n - 1 else i)"

partial_function (option) select_loop :: "menu \<Rightarrow> int \<Rightarrow> int \<Rightarrow> int option" where
  "select_loop m dir new_sel =
     (let new_sel = wrap_sel (n_items m) (new_sel + dir)
      in if new_sel \<noteq> selection m \<and> it_id (m_items m new_sel) < 0 then select_loop m dir new_sel
         else Some new_sel)"

definition menu_select :: "event_kind set \<Rightarrow> menu \<Rightarrow> menu option" where
  "menu_select evs m =
     (let m = m\<lparr>selection_changed := False\<rparr>
      in if n_items m > 0 then do {
           let dir = (if EV_VOLUME_DOWN \<in> evs then 1 else if EV_VOLUME_UP \<in> evs then - 1 else 0);
           new_sel \<leftarrow> select_loop m dir (selection m);
           Some (if new_sel \<noteq> selection m \<and> it_id (m_items m new_sel) \<ge> 0
                 then m\<lparr>selection := new_sel, changed := True, selection_changed := True\<rparr> else m)
         } else Some m)"

definition menu_scroll :: "menu \<Rightarrow> menu" where
  "menu_scroll m =
     (let prev_scroll_top = scroll_top m;
          top =
            (if selection m > scroll_top m + scroll_height m - SLACK - 1
             then min (selection m + SLACK + 1 - scroll_height m) (n_items m - scroll_height m)
             else if selection m < scroll_top m + SLACK then max 0 (selection m - SLACK)
             else scroll_top m);
          m = m\<lparr>scroll_top := top\<rparr>
      in if prev_scroll_top \<noteq> scroll_top m then m\<lparr>changed := True\<rparr> else m)"

text \<open>
  The texts of a line: the title in its frame, if any, and the item shown with its colour and
  whether it is selected.
\<close>

definition line_title :: "menu \<Rightarrow> u32 \<Rightarrow> (u8 list \<times> u32) option" where
  "line_title m y =
     (let h = vc_h (m_con m);
          lh = (if y = 0 then Some (m_titles m ! POS_TOP_LEFT, m_titles_fg m ! POS_TOP_LEFT) else None)
      in if y = h - 1 then Some (m_titles m ! POS_BOTTOM_LEFT, m_titles_fg m ! POS_BOTTOM_LEFT) else lh)"

definition line_item :: "menu \<Rightarrow> u32 \<Rightarrow> (u8 list \<times> bool \<times> u32) option" where
  "line_item m y =
     (let pad = 1; h = vc_h (m_con m)
      in if y \<ge> pad + 1 \<and> y < h - pad - 1 then
           (let i = sint (y - pad - 1 + word_of_int (scroll_top m))
            in if i < n_items m then
                 (let it = m_items m i
                  in if it_text it \<noteq> [] then Some (it_text it, i = selection m, if it_active it then it_active_fg it else it_fg it)
                     else None)
               else None)
         else None)"

definition frame_char :: "vidconsole \<Rightarrow> u32 \<Rightarrow> u32 \<Rightarrow> u8" where
  "frame_char c y x =
     (let top = y = 0; bottom = y = vc_h c - 1; left = x = 0; right = x = vc_w c - 1
      in if left \<and> top then 0x08
         else if left \<and> bottom then 0x0a
         else if right \<and> top then 0x0b
         else if right \<and> bottom then 0x0e
         else if left \<or> right then 0x02
         else if bottom \<or> top then 0x07
         else 0x20)"

text \<open>Character, foreground and background of a cell.\<close>

definition menu_cell :: "menu \<Rightarrow> u32 \<Rightarrow> u32 \<Rightarrow> u8 \<times> u32 \<times> u32" where
  "menu_cell m y x =
     (let c = m_con m; w = vc_w c; h = vc_h c; pad = 1;
          bg = 0xaa000000; fg = 0xff00ff00; ch = frame_char c y x; right = x = w - 1;
          (ch, fg) =
            (if n_items m > scroll_height m \<and> right then
               (if y = 2 \<and> scroll_top m > 0 then (0x1e, 0xffffffff)
                else if y = h - 3 \<and> scroll_top m < n_items m - scroll_height m then (0x1f, 0xffffffff)
                else (ch, fg))
             else (ch, fg));
          (ch, fg) =
            (case line_title m y of None \<Rightarrow> (ch, fg)
             | Some (lh, lh_fg) \<Rightarrow>
                 if x = 2 then (0x11, fg)
                 else if x \<ge> 3 \<and> x < of_nat (length lh) + 3 then (lh ! unat (x - 3), lh_fg)
                 else if x = of_nat (length lh) + 3 then (0x12, fg)
                 else (ch, fg))
      in case line_item m y of None \<Rightarrow> (ch, fg, bg)
         | Some (line, line_sel, line_fg) \<Rightarrow>
             if x \<ge> 1 + pad \<and> x < w - 1 - pad \<and> x - 1 - pad < of_nat (length line)
             then (if line_sel then (line ! unat (x - 1 - pad), 0xaa000000, line_fg)
                   else (line ! unat (x - 1 - pad), line_fg, bg))
             else (ch, fg, bg))"

definition menu_draw :: "menu \<Rightarrow> menu" where
  "menu_draw m =
     (let c = fold (\<lambda>y. fold (\<lambda>x c. let (ch, fg, bg) = menu_cell m (of_nat y) (of_nat x)
                                    in vidconsole_set_xy (of_nat x) (of_nat y) ch fg bg c)
                [0..<unat (vc_w (m_con m))]) [0..<unat (vc_h (m_con m))] (m_con m)
      in m\<lparr>m_con := c\<rparr>)"

definition menu_plane :: "vidconsole \<Rightarrow> display_plane \<Rightarrow> display_plane" where
  "menu_plane c p =
     (let dx = (720 - vc_fb_width c) div 2
      in p\<lparr>fb_start := vc_fb_start c, fb_pitch := vc_fb_pitch c, src_w := vc_fb_width c, src_h := vc_fb_height c,
           dst_w := vc_fb_width c, dst_h := vc_fb_height c, dst_x := dx, dst_y := 1440 - vc_fb_height c - dx, alpha := 0\<rparr>)"

text \<open>\<open>fb\<close> is the framebuffer of the console.\<close>

definition gui_menu_update ::
  "event_kind set \<Rightarrow> menu \<Rightarrow> display \<Rightarrow> (nat \<Rightarrow> u32) \<Rightarrow> (menu \<times> display \<times> (nat \<Rightarrow> u32)) option" where
  "gui_menu_update evs m d fb = do {
     m \<leftarrow> menu_select evs m;
     let m = menu_scroll m;
     let (m, fb) = (if changed m then (let m = menu_draw m in (m\<lparr>changed := False\<rparr>, vidconsole_redraw (m_con m) fb)) else (m, fb));
     let d = (if EV_VBLANK \<in> evs then d\<lparr>planes := (planes d)[1 := menu_plane (m_con m) (planes d ! 1)]\<rparr> else d);
     Some (m, d, fb)
   }"
section \<open>Selection\<close>

text \<open>The item \<open>k\<close> steps away from the selection, around the ends of the list.\<close>

definition around :: "menu \<Rightarrow> int \<Rightarrow> nat \<Rightarrow> int" where
  "around m dir k = (selection m + dir * int k) mod n_items m"

definition menu_ok :: "menu \<Rightarrow> bool" where
  "menu_ok m \<longleftrightarrow> 0 \<le> selection m \<and> selection m < n_items m"

lemma wrap_sel_mod:
  assumes "0 \<le> i" "i < n" "dir = 1 \<or> dir = - 1 \<or> dir = 0"
  shows "wrap_sel n (i + dir) = (i + dir) mod n"
proof -
  consider "0 \<le> i + dir" "i + dir < n" | "i + dir = n" | "i + dir = - 1" using assms by linarith
  then show ?thesis
  proof cases
    case 3
    have "(- 1) mod n = n - 1" using assms by (simp add: zmod_minus1)
    then show ?thesis using 3 assms by (simp add: wrap_sel_def)
  qed (use assms in \<open>simp_all add: wrap_sel_def\<close>)
qed

lemma around_range: "menu_ok m \<Longrightarrow> 0 \<le> around m dir k \<and> around m dir k < n_items m"
  by (simp add: around_def menu_ok_def)

lemma around_Suc:
  assumes "menu_ok m" "dir = 1 \<or> dir = - 1 \<or> dir = 0"
  shows "wrap_sel (n_items m) (around m dir k + dir) = around m dir (Suc k)"
proof -
  have "wrap_sel (n_items m) (around m dir k + dir) = (around m dir k + dir) mod n_items m"
    using around_range [OF assms(1)] assms(2) by (intro wrap_sel_mod) auto
  also have "\<dots> = around m dir (Suc k)"
    by (simp add: around_def mod_add_right_eq algebra_simps)
  finally show ?thesis .
qed

lemma around_0: "menu_ok m \<Longrightarrow> around m dir 0 = selection m"
  by (simp add: around_def menu_ok_def)

lemma around_all: "menu_ok m \<Longrightarrow> around m dir (nat (n_items m)) = selection m"
  by (simp add: around_def menu_ok_def)

lemma around_ne:
  assumes "menu_ok m" "dir = 1 \<or> dir = - 1" "0 < k" "k < nat (n_items m)"
  shows "around m dir k \<noteq> selection m"
proof
  assume "around m dir k = selection m"
  then have "(selection m + dir * int k) mod n_items m = selection m mod n_items m"
    using assms(1) by (simp add: around_def menu_ok_def)
  then have "n_items m dvd dir * int k"
    by (metis add_diff_cancel_left' mod_eq_dvd_iff)
  then have "n_items m dvd int k" using assms(2) by auto
  then show False using assms(3,4) zdvd_imp_le [of "n_items m" "int k"] by linarith
qed

text \<open>The first step that meets a selectable item or comes back.\<close>

definition steps_to :: "menu \<Rightarrow> int \<Rightarrow> nat \<Rightarrow> bool" where
  "steps_to m dir k \<longleftrightarrow> 0 < k \<and> k \<le> nat (n_items m) \<and> (k = nat (n_items m) \<or> 0 \<le> it_id (m_items m (around m dir k))) \<and>
     (\<forall>j. 0 < j \<and> j < k \<longrightarrow> it_id (m_items m (around m dir j)) < 0)"

lemma select_loop_steps:
  assumes "menu_ok m" "dir = 1 \<or> dir = - 1" "i < nat (n_items m)"
    "\<forall>j. 0 < j \<and> j \<le> i \<longrightarrow> it_id (m_items m (around m dir j)) < 0"
  shows "\<exists>k. steps_to m dir k \<and> select_loop m dir (around m dir i) = Some (around m dir k)"
  using assms(3,4)
proof (induction "nat (n_items m) - i" arbitrary: i rule: less_induct)
  case less
  have loop: "select_loop m dir (around m dir i) =
      (if around m dir (Suc i) \<noteq> selection m \<and> it_id (m_items m (around m dir (Suc i))) < 0
       then select_loop m dir (around m dir (Suc i)) else Some (around m dir (Suc i)))"
    using around_Suc [OF assms(1), of dir i] assms(2) by (subst select_loop.simps) (auto simp: Let_def)
  show ?case
  proof (cases "around m dir (Suc i) \<noteq> selection m \<and> it_id (m_items m (around m dir (Suc i))) < 0")
    case True
    then have "Suc i \<noteq> nat (n_items m)" using around_all [OF assms(1)] by metis
    then have i: "Suc i < nat (n_items m)" using less.prems(1) by simp
    have "\<forall>j. 0 < j \<and> j \<le> Suc i \<longrightarrow> it_id (m_items m (around m dir j)) < 0"
      using less.prems(2) True by (auto simp: le_Suc_eq)
    with less.hyps [OF _ i] i True show ?thesis by (simp add: loop)
  next
    case False
    then have "Suc i = nat (n_items m) \<or> 0 \<le> it_id (m_items m (around m dir (Suc i)))"
      using around_ne [OF assms(1,2), of "Suc i"] less.prems(1) by fastforce
    then have "steps_to m dir (Suc i)"
      using less.prems by (auto simp: steps_to_def less_Suc_eq_le)
    with False show ?thesis by (auto simp: loop)
  qed
qed

definition pressed :: "event_kind set \<Rightarrow> int" where
  "pressed evs = (if EV_VOLUME_DOWN \<in> evs then 1 else if EV_VOLUME_UP \<in> evs then - 1 else 0)"

lemma menu_select_result:
  assumes "menu_ok m"
  shows "\<exists>m'. menu_select evs m = Some m' \<and>
    (if pressed evs = 0 \<or> (\<forall>j. 0 < j \<and> j < nat (n_items m) \<longrightarrow> it_id (m_items m (around m (pressed evs) j)) < 0)
     then m' = m\<lparr>selection_changed := False\<rparr>
     else \<exists>k. 0 < k \<and> k < nat (n_items m) \<and> 0 \<le> it_id (m_items m (around m (pressed evs) k)) \<and>
       (\<forall>j. 0 < j \<and> j < k \<longrightarrow> it_id (m_items m (around m (pressed evs) j)) < 0) \<and>
       m' = m\<lparr>selection := around m (pressed evs) k, changed := True, selection_changed := True\<rparr>)"
proof -
  let ?m = "m\<lparr>selection_changed := False\<rparr>" and ?d = "pressed evs"
  have ok: "menu_ok ?m" using assms by (simp add: menu_ok_def)
  have same: "around ?m = around m" by (simp add: around_def fun_eq_iff)
  have n: "0 < n_items m" using assms by (simp add: menu_ok_def)
  have sel: "menu_select evs m = Option.bind (select_loop ?m ?d (selection m)) (\<lambda>i.
      Some (if i \<noteq> selection m \<and> it_id (m_items m i) \<ge> 0
            then ?m\<lparr>selection := i, changed := True, selection_changed := True\<rparr> else ?m))"
    using n by (simp add: menu_select_def pressed_def Let_def)
  show ?thesis
  proof (cases "?d = 0")
    case True
    have "select_loop ?m 0 (selection m) = Some (selection m)"
      using around_Suc [OF ok, of 0 0] assms by (subst select_loop.simps) (simp add: around_def menu_ok_def)
    then show ?thesis using True by (simp add: sel)
  next
    case False
    then have d: "?d = 1 \<or> ?d = - 1" by (auto simp: pressed_def split: if_splits)
    obtain k where k: "steps_to ?m ?d k" "select_loop ?m ?d (selection m) = Some (around m ?d k)"
      using select_loop_steps [OF ok d, of 0] n around_0 [OF assms] by (auto simp: same)
    have id: "steps_to ?m ?d k = steps_to m ?d k" by (simp add: steps_to_def same)
    show ?thesis
    proof (cases "k = nat (n_items m)")
      case True
      then show ?thesis
        using k around_all [OF assms] unfolding id by (auto simp: sel steps_to_def)
    next
      case False
      then have "k < nat (n_items m)" using k(1) by (simp add: id steps_to_def)
      then show ?thesis
        using k False around_ne [OF assms d, of k] \<open>?d \<noteq> 0\<close> unfolding id
        by (auto simp: sel steps_to_def intro!: exI [of _ k])
    qed
  qed
qed

section \<open>Scrolling\<close>

text \<open>
  The window of the items shown. With exactly one item less than lines, the two terms of the
  minimum give \<open>-1\<close>.
\<close>

definition scroll_ok :: "menu \<Rightarrow> bool" where
  "scroll_ok m \<longleftrightarrow> 5 \<le> scroll_height m \<and>
     (if scroll_height m \<le> n_items m then 0 \<le> scroll_top m \<and> scroll_top m \<le> n_items m - scroll_height m
      else scroll_top m = 0 \<or> n_items m = scroll_height m - 1 \<and> scroll_top m = - 1)"

lemma menu_scroll_ok:
  assumes "menu_ok m" "scroll_ok m"
  shows "menu_ok (menu_scroll m)" "scroll_ok (menu_scroll m)"
    "scroll_top (menu_scroll m) \<le> selection m" "selection m < scroll_top (menu_scroll m) + scroll_height m"
  using assms by (auto simp: menu_ok_def scroll_ok_def menu_scroll_def SLACK_def Let_def)

lemma menu_scroll_frame:
  "selection (menu_scroll m) = selection m" "n_items (menu_scroll m) = n_items m" "m_items (menu_scroll m) = m_items m"
  "scroll_height (menu_scroll m) = scroll_height m" "m_con (menu_scroll m) = m_con m"
  "m_titles (menu_scroll m) = m_titles m" "m_titles_fg (menu_scroll m) = m_titles_fg m"
  "selection_changed (menu_scroll m) = selection_changed m" "m_disabled (menu_scroll m) = m_disabled m"
  "changed (menu_scroll m) = (changed m \<or> scroll_top (menu_scroll m) \<noteq> scroll_top m)"
  by (auto simp: menu_scroll_def Let_def)

section \<open>Drawing\<close>

lemma set_xy_frame:
  "vc_w (vidconsole_set_xy x y ch fg bg c) = vc_w c" "vc_h (vidconsole_set_xy x y ch fg bg c) = vc_h c"
  "vc_screen (vidconsole_set_xy x y ch fg bg c) = (vc_screen c)(unat (x + y * vc_w c) := ch)"
  "vc_fg_color (vidconsole_set_xy x y ch fg bg c) = (vc_fg_color c)(unat (x + y * vc_w c) := fg)"
  "vc_bg_color (vidconsole_set_xy x y ch fg bg c) = (vc_bg_color c)(unat (x + y * vc_w c) := bg)"
  by (simp_all add: vidconsole_set_xy_def Let_def)

definition draw_cell :: "menu \<Rightarrow> nat \<Rightarrow> nat \<Rightarrow> vidconsole \<Rightarrow> vidconsole" where
  "draw_cell m y x c = (let (ch, fg, bg) = menu_cell m (of_nat y) (of_nat x) in vidconsole_set_xy (of_nat x) (of_nat y) ch fg bg c)"

lemma menu_draw_cells:
  "menu_draw m = m\<lparr>m_con := fold (\<lambda>y. fold (draw_cell m y) [0..<unat (vc_w (m_con m))]) [0..<unat (vc_h (m_con m))] (m_con m)\<rparr>"
  by (simp add: menu_draw_def draw_cell_def [abs_def] Let_def)

text \<open>The three arrays of the console as one, and what drawing stores there.\<close>

definition cells :: "vidconsole \<Rightarrow> nat \<Rightarrow> u8 \<times> u32 \<times> u32" where
  "cells c i = (vc_screen c i, vc_fg_color c i, vc_bg_color c i)"

lemma cells_draw_cell:
  "cells (draw_cell m y x c) = (cells c)(unat (of_nat x + of_nat y * vc_w c) := menu_cell m (of_nat y) (of_nat x))"
  "vc_w (draw_cell m y x c) = vc_w c"
  by (auto simp: draw_cell_def cells_def set_xy_frame fun_eq_iff split: prod.splits)

lemma cells_draw_line:
  "cells (fold (draw_cell m y) xs c) =
     fold (\<lambda>x a. a(unat (of_nat x + of_nat y * vc_w c) := menu_cell m (of_nat y) (of_nat x))) xs (cells c) \<and>
   vc_w (fold (draw_cell m y) xs c) = vc_w c"
  by (induction xs arbitrary: c) (simp_all add: cells_draw_cell del: fun_upd_apply)

lemma cells_draw:
  "cells (fold (\<lambda>y. fold (draw_cell m y) xs) ys c) =
     fold (\<lambda>y. fold (\<lambda>x a. a(unat (of_nat x + of_nat y * vc_w c) := menu_cell m (of_nat y) (of_nat x))) xs) ys (cells c)"
  by (induction ys arbitrary: c) (simp_all add: cells_draw_line del: fun_upd_apply)

lemma menu_draw_shows:
  assumes "unat (vc_w (m_con m)) * unat (vc_h (m_con m)) < 2 ^ 32" "x < unat (vc_w (m_con m))" "y < unat (vc_h (m_con m))"
  shows "cells (m_con (menu_draw m)) (y * unat (vc_w (m_con m)) + x) = menu_cell m (of_nat y) (of_nat x)"
proof -
  let ?c = "m_con m" and ?w = "unat (vc_w (m_con m))" and ?h = "unat (vc_h (m_con m))"
  let ?f = "\<lambda>(x, y). y * ?w + x" and ?v = "\<lambda>(x, y). menu_cell m (of_nat y) (of_nat x)"
  have ix: "unat (of_nat x + of_nat y * vc_w ?c) = ?f (x, y)" if "x < ?w" "y < ?h" for x y
  proof -
    have "y * ?w + x < ?h * ?w" using that radix_less by blast
    then have "y * ?w + x < 2 ^ 32" using assms(1) by (simp add: mult.commute)
    moreover have "of_nat x + of_nat y * vc_w ?c = (of_nat (y * ?w + x) :: u32)" by simp
    ultimately show ?thesis by (simp only: unat_of_nat_u32 prod.case)
  qed
  have inj: "inj_on ?f ({0..<?w} \<times> {0..<?h})"
    by (rule inj_onI) (auto dest: radix)
  have line: "stores (fold (\<lambda>x a. a(unat (of_nat x + of_nat y * vc_w ?c) := menu_cell m (of_nat y) (of_nat x))) [0..<?w])
      ((\<lambda>x. (x, y)) ` {0..<?w}) ?f ?v" if "y < ?h" for y
  proof (rule stores_image)
    have "inj_on (\<lambda>x. unat (of_nat x + of_nat y * vc_w ?c)) {0..<?w}"
      using ix that by (auto simp: inj_on_def)
    then show "stores (fold (\<lambda>x a. a(unat (of_nat x + of_nat y * vc_w ?c) := menu_cell m (of_nat y) (of_nat x))) [0..<?w])
        {0..<?w} (\<lambda>x. unat (of_nat x + of_nat y * vc_w ?c)) (\<lambda>x. menu_cell m (of_nat y) (of_nat x))"
      using stores_fold_upd [of _ "[0..<?w]"] by simp
  qed (use ix that in auto)
  let ?F = "fold (\<lambda>y. fold (\<lambda>x a. a(unat (of_nat x + of_nat y * vc_w ?c) := menu_cell m (of_nat y) (of_nat x))) [0..<?w]) [0..<?h]"
  have "stores ?F (\<Union>y \<in> set [0..<?h]. (\<lambda>x. (x, y)) ` {0..<?w}) ?f ?v"
    by (intro stores_fold ballI line inj_on_subset [OF inj]) auto
  moreover have "(x, y) \<in> (\<Union>y \<in> set [0..<?h]. (\<lambda>x. (x, y)) ` {0..<?w})"
    using assms(2,3) by (intro UN_I [of y] imageI) auto
  ultimately have "?F (cells ?c) (?f (x, y)) = ?v (x, y)"
    unfolding stores_def by blast
  then show ?thesis
    unfolding menu_draw_cells by (simp add: cells_draw)
qed

text \<open>The menu as \<open>gui_menu\<close> makes it: 40 columns, 21 lines, a window of 17 items.\<close>

definition menu_wf :: "menu \<Rightarrow> bool" where
  "menu_wf m \<longleftrightarrow> menu_ok m \<and> scroll_ok m \<and> scroll_height m = 17 \<and> n_items m \<le> 64 \<and>
     vc_w (m_con m) = 40 \<and> vc_h (m_con m) = 21 \<and> (\<forall>i. length (it_text (m_items m i)) < 128)"

definition item_color :: "menu_item \<Rightarrow> u32" where
  "item_color it = (if it_active it then it_active_fg it else it_fg it)"

text \<open>The cell in column \<open>x\<close> of the place of item \<open>i\<close>.\<close>

definition item_cell :: "menu \<Rightarrow> int \<Rightarrow> nat \<Rightarrow> u8 \<times> u32 \<times> u32" where
  "item_cell m i x =
     (let it = m_items m i
      in if i < n_items m \<and> x < length (it_text it)
         then (if i = selection m then (it_text it ! x, 0xaa000000, item_color it) else (it_text it ! x, item_color it, 0xaa000000))
         else (0x20, 0xff00ff00, 0xaa000000))"

lemma less_17_word:
  assumes "j < 17"
  shows "unat (of_nat (j + 2) :: u32) = j + 2" "(of_nat (j + 2) :: u32) - 1 - 1 = of_nat j"
    "of_nat (j + 2) \<ge> (2 :: u32)" "of_nat (j + 2) < (21 - 1 - 1 :: u32)"
    "of_nat (j + 2) \<noteq> (0 :: u32)" "of_nat (j + 2) \<noteq> (21 - 1 :: u32)"
proof -
  show u: "unat (of_nat (j + 2) :: u32) = j + 2" using assms by (intro unat_of_nat_u32) simp
  show "(of_nat (j + 2) :: u32) - 1 - 1 = of_nat j" by simp
  show "of_nat (j + 2) \<ge> (2 :: u32)" "of_nat (j + 2) < (21 - 1 - 1 :: u32)"
    "of_nat (j + 2) \<noteq> (0 :: u32)" "of_nat (j + 2) \<noteq> (21 - 1 :: u32)"
    unfolding word_le_nat_alt word_less_nat_alt word_unat_eq_iff u using assms by simp_all
qed

lemma less_36_word:
  assumes "x < 36"
  shows "unat (of_nat (x + 2) - 1 - 1 :: u32) = x" "of_nat (x + 2) \<ge> (2 :: u32)" "of_nat (x + 2) < (40 - 1 - 1 :: u32)"
    "of_nat (x + 2) \<noteq> (0 :: u32)" "of_nat (x + 2) \<noteq> (40 - 1 :: u32)"
proof -
  have u: "unat (of_nat (x + 2) :: u32) = x + 2" using assms by (intro unat_of_nat_u32) simp
  have "(of_nat (x + 2) - 1 - 1 :: u32) = of_nat x" by simp
  then show "unat (of_nat (x + 2) - 1 - 1 :: u32) = x"
    using assms by (simp only:) (intro unat_of_nat_u32, simp)
  show "of_nat (x + 2) \<ge> (2 :: u32)" "of_nat (x + 2) < (40 - 1 - 1 :: u32)"
    "of_nat (x + 2) \<noteq> (0 :: u32)" "of_nat (x + 2) \<noteq> (40 - 1 :: u32)"
    unfolding word_le_nat_alt word_less_nat_alt word_unat_eq_iff u using assms by simp_all
qed

lemma sint_small: "- 1 \<le> i \<Longrightarrow> i < 81 \<Longrightarrow> sint (word_of_int i :: u32) = i"
  by (simp add: signed_of_int signed_take_bit_int_eq_self)

lemma line_item_shown:
  assumes "menu_wf m" "j < 17"
  shows "line_item m (of_nat (j + 2)) =
    (let i = scroll_top m + int j; it = m_items m i
     in if i < n_items m \<and> it_text it \<noteq> [] then Some (it_text it, i = selection m, item_color it) else None)"
proof -
  let ?i = "scroll_top m + int j"
  have "- 1 \<le> ?i" "?i < 81"
    using assms by (auto simp: menu_wf_def scroll_ok_def split: if_splits)
  then have "sint (word_of_int ?i :: u32) = ?i"
    by (rule sint_small)
  moreover have "of_nat (j + 2) - 1 - 1 + word_of_int (scroll_top m) = (word_of_int ?i :: u32)"
    by simp
  ultimately have "sint (of_nat (j + 2) - 1 - 1 + word_of_int (scroll_top m) :: u32) = ?i" by metis
  then show ?thesis
    using assms(1) less_17_word [OF assms(2)]
    by (simp add: line_item_def menu_wf_def Let_def item_color_def one_add_one del: of_nat_add)
qed

lemma menu_cell_item:
  assumes "menu_wf m" "j < 17" "x < 36"
  shows "menu_cell m (of_nat (j + 2)) (of_nat (x + 2)) = item_cell m (scroll_top m + int j) x"
proof -
  let ?i = "scroll_top m + int j"
  let ?t = "it_text (m_items m ?i)"
  have title: "line_title m (of_nat (j + 2)) = None"
    using assms(1) less_17_word [OF assms(2)] by (simp add: line_title_def menu_wf_def Let_def del: of_nat_add)
  have frame: "frame_char (m_con m) (of_nat (j + 2)) (of_nat (x + 2)) = 0x20"
    using assms(1) less_17_word [OF assms(2)] less_36_word [OF assms(3)]
    by (simp add: frame_char_def menu_wf_def Let_def del: of_nat_add)
  have "length ?t < 128" using assms(1) by (simp add: menu_wf_def)
  then have "unat (of_nat (length ?t) :: u32) = length ?t" by (intro unat_of_nat_u32) simp
  then have "(of_nat (x + 2) - 1 - 1 < (of_nat (length ?t) :: u32)) = (x < length ?t)"
    by (simp only: word_less_nat_alt less_36_word [OF assms(3)])
  then show ?thesis
    unfolding menu_cell_def title frame line_item_shown [OF assms(1,2)] item_cell_def Let_def
    using assms(1) less_36_word [OF assms(3)]
    by (auto simp: menu_wf_def one_add_one simp del: of_nat_add)
qed

section \<open>Properties of an update\<close>

definition redrawn :: "menu \<Rightarrow> menu" where
  "redrawn m = (if changed m then (menu_draw m)\<lparr>changed := False\<rparr> else m)"

lemma update_Some:
  "menu_select evs m = Some m1 \<Longrightarrow> \<exists>d'. gui_menu_update evs m d fb = Some (redrawn (menu_scroll m1), d',
     if changed (menu_scroll m1) then vidconsole_redraw (m_con (redrawn (menu_scroll m1))) fb else fb)"
  by (cases "changed (menu_scroll m1)") (simp_all add: gui_menu_update_def redrawn_def Let_def)

lemma update_cases:
  assumes "gui_menu_update evs m d fb = Some (m', d', fb')"
  obtains m1 where "menu_select evs m = Some m1" "m' = redrawn (menu_scroll m1)"
    "fb' = (if changed (menu_scroll m1) then vidconsole_redraw (m_con m') fb else fb)"
proof -
  obtain m1 where m1: "menu_select evs m = Some m1"
    using assms by (auto simp: gui_menu_update_def bind_eq_Some_conv)
  with update_Some [OF this, of d fb] assms show thesis by (intro that [of m1]) auto
qed

lemma menu_draw_frame:
  "selection (menu_draw m) = selection m" "n_items (menu_draw m) = n_items m" "m_items (menu_draw m) = m_items m"
  "scroll_height (menu_draw m) = scroll_height m" "scroll_top (menu_draw m) = scroll_top m"
  "selection_changed (menu_draw m) = selection_changed m" "changed (menu_draw m) = changed m"
  by (simp_all add: menu_draw_def Let_def)

lemma draw_cell_size: "vc_w (draw_cell m y x c) = vc_w c" "vc_h (draw_cell m y x c) = vc_h c" "vc_fits (draw_cell m y x c) = vc_fits c"
  by (auto simp: draw_cell_def set_xy_frame set_xy_fits split: prod.splits)

lemma fold_preserves: "(\<And>x c. g (f x c) = g c) \<Longrightarrow> g (fold f xs c) = g c"
  by (induction xs arbitrary: c) simp_all

lemma menu_draw_size:
  "vc_w (m_con (menu_draw m)) = vc_w (m_con m)" "vc_h (m_con (menu_draw m)) = vc_h (m_con m)"
  "vc_fits (m_con (menu_draw m)) = vc_fits (m_con m)"
  unfolding menu_draw_cells by (simp_all add: fold_preserves draw_cell_size)

text \<open>
  C26: An update takes the selection to the next item that can be selected in the direction of the
  pressed key, around the ends of the list, past headers and separators, and says that it changed;
  when no key is pressed or no other item can be selected nothing is selected anew. It always
  returns.
\<close>

theorem gui_menu_update_selects:
  assumes "menu_ok m"
  shows "\<exists>m' d' fb'. gui_menu_update evs m d fb = Some (m', d', fb') \<and>
    (if pressed evs = 0 \<or> (\<forall>j. 0 < j \<and> j < nat (n_items m) \<longrightarrow> it_id (m_items m (around m (pressed evs) j)) < 0)
     then selection m' = selection m \<and> \<not> selection_changed m'
     else selection_changed m' \<and>
       (\<exists>k. 0 < k \<and> k < nat (n_items m) \<and> selection m' = around m (pressed evs) k \<and>
          0 \<le> it_id (m_items m (selection m')) \<and>
          (\<forall>j. 0 < j \<and> j < k \<longrightarrow> it_id (m_items m (around m (pressed evs) j)) < 0)))"
proof -
  obtain m1 where m1: "menu_select evs m = Some m1" and res: "if pressed evs = 0 \<or>
      (\<forall>j. 0 < j \<and> j < nat (n_items m) \<longrightarrow> it_id (m_items m (around m (pressed evs) j)) < 0)
     then m1 = m\<lparr>selection_changed := False\<rparr>
     else \<exists>k. 0 < k \<and> k < nat (n_items m) \<and> 0 \<le> it_id (m_items m (around m (pressed evs) k)) \<and>
       (\<forall>j. 0 < j \<and> j < k \<longrightarrow> it_id (m_items m (around m (pressed evs) j)) < 0) \<and>
       m1 = m\<lparr>selection := around m (pressed evs) k, changed := True, selection_changed := True\<rparr>"
    using menu_select_result [OF assms, of evs] by blast
  obtain m' d' fb' where up: "gui_menu_update evs m d fb = Some (m', d', fb')" and m': "m' = redrawn (menu_scroll m1)"
    using update_Some [OF m1, of d fb] by blast
  have "selection m' = selection m1 \<and> selection_changed m' = selection_changed m1"
    by (simp add: m' redrawn_def menu_draw_frame menu_scroll_frame)
  with up res show ?thesis
    by (intro exI [of _ m'] exI [of _ d'] exI [of _ fb']) (auto split: if_splits)
qed

lemma menu_select_wf:
  assumes "menu_wf m" "menu_select evs m = Some m1"
  shows "menu_wf m1" "n_items m1 = n_items m" "m_items m1 = m_items m" "scroll_top m1 = scroll_top m" "m_con m1 = m_con m"
    "changed m1 = (changed m \<or> selection_changed m1)"
proof -
  have ok: "menu_ok m" using assms(1) by (simp add: menu_wf_def)
  have "m1 = m\<lparr>selection_changed := False\<rparr> \<or>
      (\<exists>k. m1 = m\<lparr>selection := around m (pressed evs) k, changed := True, selection_changed := True\<rparr>)"
    using menu_select_result [OF ok, of evs] assms(2) by (auto split: if_splits)
  then show "menu_wf m1" "n_items m1 = n_items m" "m_items m1 = m_items m" "scroll_top m1 = scroll_top m" "m_con m1 = m_con m"
    "changed m1 = (changed m \<or> selection_changed m1)"
    using assms(1) around_range [OF ok] by (auto simp: menu_wf_def menu_ok_def scroll_ok_def)
qed

lemma menu_scroll_wf: "menu_wf m \<Longrightarrow> menu_wf (menu_scroll m)"
  using menu_scroll_ok [of m] by (simp add: menu_wf_def menu_scroll_frame)

lemma menu_draw_wf: "menu_wf (menu_draw m) = menu_wf m"
  by (simp add: menu_wf_def menu_ok_def scroll_ok_def menu_draw_frame menu_draw_size)

lemma item_cell_draw: "item_cell (menu_draw m) = item_cell m"
  by (simp add: item_cell_def [abs_def] Let_def menu_draw_frame cong: if_cong)

text \<open>
  Every update keeps the menu in order and the selected item among the 17 lines shown. When the
  selection or the scroll position changed, or a change was pending, the cells of those lines are
  the texts of the items from \<open>scroll_top\<close> on, in their colours, the selected one inverted, and the
  framebuffer is redrawn from them. The scroll position is never negative except in a menu of
  exactly 16 items, one less than lines, where it can become -1.
\<close>

theorem gui_menu_update_shows:
  assumes "menu_wf m" "gui_menu_update evs m d fb = Some (m', d', fb')"
  shows "menu_wf m' \<and> scroll_top m' \<le> selection m' \<and> selection m' < scroll_top m' + 17 \<and>
    (n_items m \<noteq> 16 \<longrightarrow> 0 \<le> scroll_top m') \<and>
    (if changed m \<or> selection_changed m' \<or> scroll_top m' \<noteq> scroll_top m
     then fb' = vidconsole_redraw (m_con m') fb \<and>
       (\<forall>j < 17. \<forall>x < 36. cells (m_con m') ((j + 2) * 40 + (x + 2)) = item_cell m' (scroll_top m' + int j) x)
     else fb' = fb \<and> m_con m' = m_con m)"
proof -
  obtain m1 where m1: "menu_select evs m = Some m1"
    and m'r: "m' = redrawn (menu_scroll m1)"
    and fb': "fb' = (if changed (menu_scroll m1) then vidconsole_redraw (m_con m') fb else fb)"
    using assms(2) by (rule update_cases)
  let ?m2 = "menu_scroll m1"
  note m' = m'r [unfolded redrawn_def]
  note sel = menu_select_wf [OF assms(1) m1]
  have wf2: "menu_wf ?m2" by (rule menu_scroll_wf [OF sel(1)])
  have same: "selection m' = selection ?m2" "scroll_top m' = scroll_top ?m2" "n_items m' = n_items m"
    "selection_changed m' = selection_changed ?m2"
    using m' sel by (auto simp: menu_draw_frame menu_scroll_frame)
  have drop: "menu_wf (m\<lparr>changed := b\<rparr>) = menu_wf m" "item_cell (m\<lparr>changed := b\<rparr>) = item_cell m" for m b
    by (simp_all add: menu_wf_def menu_ok_def scroll_ok_def item_cell_def [abs_def] Let_def cong: if_cong)
  have wf': "menu_wf m'" using wf2 by (simp add: m' menu_draw_wf drop)
  have ok1: "menu_ok m1" "scroll_ok m1" "scroll_height m1 = 17" using sel(1) by (simp_all add: menu_wf_def)
  have vis: "scroll_top m' \<le> selection m' \<and> selection m' < scroll_top m' + 17"
    using menu_scroll_ok [OF ok1(1,2)] ok1(3) by (simp add: same menu_scroll_frame)
  have "scroll_ok m'" "scroll_height m' = 17" using wf' by (simp_all add: menu_wf_def)
  then have top: "n_items m \<noteq> 16 \<longrightarrow> 0 \<le> scroll_top m'"
    by (auto simp: scroll_ok_def same(3) split: if_splits)
  have ch: "changed ?m2 = (changed m \<or> selection_changed m' \<or> scroll_top m' \<noteq> scroll_top m)"
    by (auto simp: menu_scroll_frame sel same)
  have drawn: "cells (m_con (menu_draw ?m2)) ((j + 2) * 40 + (x + 2)) = item_cell ?m2 (scroll_top ?m2 + int j) x"
    if "j < 17" "x < 36" for j x
  proof -
    have size: "vc_w (m_con ?m2) = 40" "vc_h (m_con ?m2) = 21" using wf2 by (simp_all add: menu_wf_def)
    then have "cells (m_con (menu_draw ?m2)) ((j + 2) * unat (vc_w (m_con ?m2)) + (x + 2)) = menu_cell ?m2 (of_nat (j + 2)) (of_nat (x + 2))"
      using that by (intro menu_draw_shows) simp_all
    then show ?thesis by (simp only: size menu_cell_item [OF wf2 that]) simp
  qed
  show ?thesis
  proof (cases "changed ?m2")
    case True
    then have m: "m' = (menu_draw ?m2)\<lparr>changed := False\<rparr>" by (simp add: m')
    have parts: "m_con m' = m_con (menu_draw ?m2)" "item_cell m' = item_cell ?m2" "scroll_top m' = scroll_top ?m2"
      by (simp_all add: m drop item_cell_draw menu_draw_frame)
    have cells: "cells (m_con m') ((j + 2) * 40 + (x + 2)) = item_cell m' (scroll_top m' + int j) x" if "j < 17" "x < 36" for j x
      unfolding parts using drawn [OF that] .
    have "fb' = vidconsole_redraw (m_con m') fb" using fb' True by simp
    then show ?thesis
      using wf' vis top cells True ch by (simp only: if_True) blast
  next
    case False
    then have "fb' = fb \<and> m_con m' = m_con m" using fb' sel(5) by (simp add: m' menu_scroll_frame)
    then show ?thesis
      using wf' vis top False ch by (simp only: if_False simp_thms)
  qed
qed

text \<open>A header, two entries, a separator and a last entry; the first entry selected.\<close>

definition sample_base :: menu where
  "sample_base = fst (gui_menu 16384 (\<lambda>_. item_zero) [] (\<lambda>_. 0) (\<lambda>_. 0) \<lparr>mem = (\<lambda>_. 0), heap_end = 0x4a000000\<rparr>)"

lemma sample_base_values:
  "n_items sample_base = 0" "selection sample_base = 0" "scroll_top sample_base = 0" "scroll_height sample_base = 17"
  "vc_w (m_con sample_base) = 40" "vc_h (m_con sample_base) = 21" "m_items sample_base = (\<lambda>_. item_zero)"
  by (simp_all add: sample_base_def gui_menu_def vidconsole_init_def Let_def split: prod.splits)

definition sample_items :: menu where
  "sample_items = (gui_menu_add_item 64 (bytes ''Poweroff'') 5 6 \<circ> gui_menu_add_item (- 2) [] 0 0 \<circ>
      gui_menu_add_item 1 (bytes ''two'') 3 4 \<circ> gui_menu_add_item 0 (bytes ''one'') 3 4 \<circ>
      gui_menu_add_item (- 2) (bytes ''SD:'') 1 2) sample_base"

definition sample_menu :: menu where
  "sample_menu = gui_menu_set_selection 0 sample_items"

lemma sample_items_values:
  "n_items sample_items = 5" "selection sample_items = 0" "scroll_top sample_items = 0" "scroll_height sample_items = 17"
  "vc_w (m_con sample_items) = 40" "vc_h (m_con sample_items) = 21"
  "m_items sample_items = (\<lambda>_. item_zero)(0 := \<lparr>it_text = bytes ''SD:'', it_fg = 1, it_id = - 2, it_active_fg = 2, it_active = False\<rparr>,
     1 := \<lparr>it_text = bytes ''one'', it_fg = 3, it_id = 0, it_active_fg = 4, it_active = False\<rparr>,
     2 := \<lparr>it_text = bytes ''two'', it_fg = 3, it_id = 1, it_active_fg = 4, it_active = False\<rparr>,
     3 := \<lparr>it_text = [], it_fg = 0, it_id = - 2, it_active_fg = 0, it_active = False\<rparr>,
     4 := \<lparr>it_text = bytes ''Poweroff'', it_fg = 5, it_id = 64, it_active_fg = 6, it_active = False\<rparr>)"
  by (simp_all add: sample_items_def gui_menu_add_item_def sample_base_values Let_def item_zero_def)

lemma sample_menu_eq: "sample_menu = sample_items\<lparr>selection := 1, changed := True\<rparr>"
  by (simp add: sample_menu_def gui_menu_set_selection_def sample_items_values upto_rec1)

lemma sample_menu_values:
  "n_items sample_menu = 5" "selection sample_menu = 1" "scroll_top sample_menu = 0" "m_items sample_menu = m_items sample_items"
  "changed sample_menu" "scroll_height sample_menu = 17"
  by (simp_all add: sample_menu_eq sample_items_values)

lemma sample_menu_wf: "menu_wf sample_menu"
  by (simp add: menu_wf_def menu_ok_def scroll_ok_def sample_menu_eq sample_items_values item_zero_def bytes_def)

theorem gui_menu_update_selects_witness:
  "\<exists>m' d' fb'. gui_menu_update {EV_VOLUME_UP} sample_menu \<lparr>planes = []\<rparr> (\<lambda>_. 0) = Some (m', d', fb') \<and> selection m' = 4 \<and> selection_changed m'"
proof -
  have ok: "menu_ok sample_menu" using sample_menu_wf by (simp add: menu_wf_def)
  have p: "pressed {EV_VOLUME_UP} = - 1" by (simp add: pressed_def)
  have a: "around sample_menu (- 1) 1 = 0" "around sample_menu (- 1) 2 = 4" by (simp_all add: around_def sample_menu_values)
  have one: "0 < j \<and> j < 2 \<longleftrightarrow> j = 1" for j :: nat by auto
  have first: "k = 2" if "0 < k" "0 \<le> it_id (m_items sample_menu (around sample_menu (- 1) k))"
    "\<forall>j. 0 < j \<and> j < k \<longrightarrow> it_id (m_items sample_menu (around sample_menu (- 1) j)) < 0" for k
  proof -
    have "k \<noteq> 1" using that(2) a(1) by (auto simp: sample_menu_values sample_items_values)
    moreover have "\<not> 2 < k" using that(3) a(2) by (auto simp: sample_menu_values sample_items_values dest!: spec [of _ 2])
    ultimately show ?thesis using that(1) by simp
  qed
  have some: "\<not> (\<forall>j. 0 < j \<and> j < nat (n_items sample_menu) \<longrightarrow> it_id (m_items sample_menu (around sample_menu (- 1) j)) < 0)"
    using a(2) by (auto simp: sample_menu_values sample_items_values intro!: exI [of _ 2])
  obtain m' d' fb' k where "gui_menu_update {EV_VOLUME_UP} sample_menu \<lparr>planes = []\<rparr> (\<lambda>_. 0) = Some (m', d', fb')" "selection_changed m'"
    and k: "0 < k" "selection m' = around sample_menu (- 1) k" "0 \<le> it_id (m_items sample_menu (around sample_menu (- 1) k))"
      "\<forall>j. 0 < j \<and> j < k \<longrightarrow> it_id (m_items sample_menu (around sample_menu (- 1) j)) < 0"
    using gui_menu_update_selects [OF ok, of "{EV_VOLUME_UP}" "\<lparr>planes = []\<rparr>" "\<lambda>_. 0"] some unfolding p by auto
  moreover have "k = 2" using first k by blast
  ultimately show ?thesis using a(2) by auto
qed

theorem gui_menu_update_shows_witness:
  "\<exists>m' d' fb'. gui_menu_update {} sample_menu \<lparr>planes = []\<rparr> (\<lambda>_. 0) = Some (m', d', fb') \<and>
     cells (m_con m') (3 * 40 + 2) = (0x6f, 0xaa000000, 3)"
proof -
  have ok: "menu_ok sample_menu" using sample_menu_wf by (simp add: menu_wf_def)
  obtain m1 where m1: "menu_select {} sample_menu = Some m1" and e: "m1 = sample_menu\<lparr>selection_changed := False\<rparr>"
    using menu_select_result [OF ok, of "{}"] by (auto simp: pressed_def)
  obtain d' fb' where up: "gui_menu_update {} sample_menu \<lparr>planes = []\<rparr> (\<lambda>_. 0) = Some (redrawn (menu_scroll m1), d', fb')"
    using update_Some [OF m1] by blast
  have v: "scroll_top (redrawn (menu_scroll m1)) = 0" "n_items (redrawn (menu_scroll m1)) = 5" "m_items (redrawn (menu_scroll m1)) = m_items sample_menu"
    "selection (redrawn (menu_scroll m1)) = 1"
    by (simp_all add: e redrawn_def menu_draw_frame menu_scroll_frame sample_menu_values)
      (simp_all add: menu_scroll_def sample_menu_values SLACK_def Let_def)
  have "if changed sample_menu \<or> selection_changed (redrawn (menu_scroll m1)) \<or> scroll_top (redrawn (menu_scroll m1)) \<noteq> scroll_top sample_menu
      then fb' = vidconsole_redraw (m_con (redrawn (menu_scroll m1))) (\<lambda>_. 0) \<and> (\<forall>j < 17. \<forall>x < 36. cells (m_con (redrawn (menu_scroll m1))) ((j + 2) * 40 + (x + 2)) =
        item_cell (redrawn (menu_scroll m1)) (scroll_top (redrawn (menu_scroll m1)) + int j) x)
      else fb' = (\<lambda>_. 0) \<and> m_con (redrawn (menu_scroll m1)) = m_con sample_menu"
    using gui_menu_update_shows [OF sample_menu_wf up] by blast
  then have "\<forall>j < 17. \<forall>x < 36. cells (m_con (redrawn (menu_scroll m1))) ((j + 2) * 40 + (x + 2)) =
      item_cell (redrawn (menu_scroll m1)) (0 + int j) x"
    unfolding v(1) using sample_menu_values(5) by (simp only: if_True simp_thms) blast
  from this [rule_format, of 1 0] have "cells (m_con (redrawn (menu_scroll m1))) (3 * 40 + 2) = item_cell (redrawn (menu_scroll m1)) 1 0"
    by simp
  then show ?thesis
    using up by (intro exI) (auto simp: item_cell_def v sample_menu_values sample_items_values item_color_def bytes_def)
qed

text \<open>
  In a menu of 16 items with the last one selected the window starts at -1: the first line shows
  what the memory in front of the items holds.
\<close>

lemma menu_sixteen_items:
  assumes "menu_wf m" "n_items m = 16" "selection m = 15"
  shows "scroll_top (menu_scroll m) = - 1"
    "line_item (menu_scroll m) 2 =
       (let it = m_items m (- 1) in if it_text it \<noteq> [] then Some (it_text it, False, item_color it) else None)"
proof -
  have ok: "scroll_ok m" "scroll_height m = 17" using assms(1) by (simp_all add: menu_wf_def)
  then show top: "scroll_top (menu_scroll m) = - 1"
    using assms(2,3) by (auto simp: menu_scroll_def scroll_ok_def SLACK_def Let_def)
  show "line_item (menu_scroll m) 2 =
       (let it = m_items m (- 1) in if it_text it \<noteq> [] then Some (it_text it, False, item_color it) else None)"
    using line_item_shown [OF menu_scroll_wf [OF assms(1)], of 0] assms(2,3) top
    by (simp add: menu_scroll_frame Let_def)
qed
end
