(* ===== verification/Gui_Events.thy ===== *)
theory Gui_Events
  imports Menu Lradc Pmic
begin

text \<open>
  The events of the user interface, \<open>src/src/gui.c\<close>: frame interrupts of the display, the power
  button behind the interrupt flags of the PMIC, and the volume keys with debouncing and repeat.
  The widgets of the interface are menus, each with the framebuffer of its console. The clock is
  a function of the history, as in \<open>Dsi\<close>.
\<close>

section \<open>State\<close>

record gui =
  g_events :: "event_kind set"
  g_now :: u64
  key_change_ts :: u64
  last_key :: key
  auto_repeat :: bool
  g_display :: display
  g_widgets :: "(menu \<times> (nat \<Rightarrow> u32)) list"

definition gui_zero :: gui where
  "gui_zero = \<lparr>g_events = {}, g_now = 0, key_change_ts = 0, last_key = NoKey, auto_repeat = False,
     g_display = \<lparr>planes = []\<rparr>, g_widgets = []\<rparr>"

definition R_INTC_BASE :: addr where "R_INTC_BASE = 0x01f00c00"
definition SUN6I_R_INTC_CTRL :: addr where "SUN6I_R_INTC_CTRL = 0x0c"
definition SUN6I_R_INTC_PENDING :: addr where "SUN6I_R_INTC_PENDING = 0x10"
definition SUN6I_R_INTC_ENABLE :: addr where "SUN6I_R_INTC_ENABLE = 0x40"
definition SUN6I_R_INTC_MASK :: addr where "SUN6I_R_INTC_MASK = 0x50"
definition SUNXI_SRC_TYPE_LEVEL_LOW :: u32 where "SUNXI_SRC_TYPE_LEVEL_LOW = 0"

section \<open>Operations\<close>

definition gui_init :: "device \<Rightarrow> clock \<Rightarrow> display \<Rightarrow> gui \<Rightarrow> history \<Rightarrow> gui \<times> history" where
  "gui_init d clk dp g t =
     (let t = exec d [Writel SUNXI_SRC_TYPE_LEVEL_LOW (R_INTC_BASE + SUN6I_R_INTC_CTRL),
                Writel (push_bit 0 1) (R_INTC_BASE + SUN6I_R_INTC_MASK),
                Writel (push_bit 0 1) (R_INTC_BASE + SUN6I_R_INTC_ENABLE),
                Writel (push_bit 0 1) (R_INTC_BASE + SUN6I_R_INTC_PENDING)] t;
          g = g\<lparr>g_now := clk t\<rparr>;
          (key, t) = lradc_get_pressed_key d t
      in (g\<lparr>last_key := key, g_display := dp\<rparr>, t))"

definition gui_fini :: "op list" where
  "gui_fini =
     [Writel 0 (R_INTC_BASE + SUN6I_R_INTC_MASK),
      Writel 0 (R_INTC_BASE + SUN6I_R_INTC_ENABLE),
      Writel (push_bit 0 1) (R_INTC_BASE + SUN6I_R_INTC_PENDING)]"

text \<open>The flags of the power button.\<close>

definition pok_events :: "u32 \<Rightarrow> event_kind set" where
  "pok_events f =
     (if f AND push_bit 4 1 \<noteq> 0 then {EV_POK_SHORT} else {}) \<union>
     (if f AND push_bit 3 1 \<noteq> 0 then {EV_POK_LONG} else {}) \<union>
     (if f AND push_bit 5 1 \<noteq> 0 then {EV_POK_DOWN} else {})"

text \<open>The result of \<open>pmic_read\<close>, errors included, is taken for the flags.\<close>

fun pmic_flags :: "device \<Rightarrow> u8 list \<Rightarrow> event_kind set \<Rightarrow> history \<Rightarrow> event_kind set \<times> history" where
  "pmic_flags d [] evs t = (evs, t)"
| "pmic_flags d (i # is) evs t =
     (let (ret, t) = pmic_read d i t; f = word_of_int ret :: u32
      in if f = 0 then pmic_flags d is evs t
         else (let evs = (if i = 0x4c then evs \<union> pok_events f else evs);
                   t = snd (pmic_write d i (ucast f) t)
               in pmic_flags d is evs t))"

definition power_events :: "device \<Rightarrow> event_kind set \<Rightarrow> history \<Rightarrow> event_kind set \<times> history" where
  "power_events d evs t =
     (let (v, t) = readl d (R_INTC_BASE + SUN6I_R_INTC_PENDING) t
      in if v AND push_bit 0 1 \<noteq> 0 then
           (let (evs, t) = pmic_flags d [0x48, 0x49, 0x4a, 0x4b, 0x4c, 0x4d] evs t
            in (evs, writel (push_bit 0 1) (R_INTC_BASE + SUN6I_R_INTC_PENDING) t))
         else (evs, t))"

text \<open>The volume keys: \<open>now\<close> is the time at the start of the round, \<open>later\<close> when a change is seen.\<close>

definition volume_events :: "key \<Rightarrow> u64 \<Rightarrow> u64 \<Rightarrow> gui \<Rightarrow> gui" where
  "volume_events key now later g =
     (let g = (if last_key g \<noteq> key then g\<lparr>last_key := key, key_change_ts := later + 30000, auto_repeat := False\<rparr> else g)
      in if key_change_ts g \<noteq> 0 \<and> key_change_ts g < now then
           (let g = (if auto_repeat g then g\<lparr>key_change_ts := now + 150000\<rparr>
                     else g\<lparr>auto_repeat := True, key_change_ts := now + 350000\<rparr>)
            in if key = VolumeDown then g\<lparr>g_events := insert EV_VOLUME_DOWN (g_events g)\<rparr>
               else if key = VolumeUp then g\<lparr>g_events := insert EV_VOLUME_UP (g_events g)\<rparr>
               else g\<lparr>key_change_ts := 0\<rparr>)
         else g)"

fun update_widgets ::
  "event_kind set \<Rightarrow> (menu \<times> (nat \<Rightarrow> u32)) list \<Rightarrow> display \<Rightarrow> ((menu \<times> (nat \<Rightarrow> u32)) list \<times> display) option" where
  "update_widgets evs [] dp = Some ([], dp)"
| "update_widgets evs ((m, fb) # ws) dp = do {
     (m, dp, fb) \<leftarrow> (if m_disabled m then Some (m, dp, fb) else gui_menu_update evs m dp fb);
     (ws, dp) \<leftarrow> update_widgets evs ws dp;
     Some ((m, fb) # ws, dp)
   }"

definition gui_get_events :: "device \<Rightarrow> clock \<Rightarrow> gui \<Rightarrow> history \<Rightarrow> (gui \<times> history) option" where
  "gui_get_events d clk g t =
     (let now = clk t;
          (done, t) = display_frame_done d t;
          evs = (if done then {EV_VBLANK} else {});
          (evs, t) = power_events d evs t;
          (key, t) = lradc_get_pressed_key d t;
          g = volume_events key now (clk t) (g\<lparr>g_events := evs\<rparr>);
          g = g\<lparr>g_now := now\<rparr>
      in do {
        (ws, dp) \<leftarrow> update_widgets (g_events g) (g_widgets g) (g_display g);
        Some (g\<lparr>g_widgets := ws, g_display := dp\<rparr>, t)
      })"

section \<open>Debouncing\<close>

text \<open>A run of rounds, each with the key it sees, its time and the later time of the key.\<close>

type_synonym sample = "key \<times> u64 \<times> u64"

definition key_round :: "gui \<Rightarrow> sample \<Rightarrow> gui" where
  "key_round g = (\<lambda>(key, now, later). volume_events key now later (g\<lparr>g_events := {}\<rparr>))"

definition key_rounds :: "sample list \<Rightarrow> gui \<Rightarrow> gui" where
  "key_rounds xs g = foldl key_round g xs"

definition seen_key :: "sample \<Rightarrow> key" where "seen_key = fst"
definition seen_at :: "sample \<Rightarrow> nat" where "seen_at x = unat (fst (snd x))"
definition seen_later :: "sample \<Rightarrow> nat" where "seen_later x = unat (snd (snd x))"

definition in_time :: "sample \<Rightarrow> bool" where
  "in_time x \<longleftrightarrow> seen_at x < 2 ^ 63 \<and> seen_later x < 2 ^ 63"

lemmas seen_defs = seen_key_def seen_at_def seen_later_def in_time_def

text \<open>The last rounds all saw the key \<open>k\<close>, the first of them 30 ms before \<open>T\<close>.\<close>

definition held :: "sample list \<Rightarrow> key \<Rightarrow> nat \<Rightarrow> bool" where
  "held xs k T \<longleftrightarrow> (\<exists>ys z zs. xs = ys @ z # zs \<and> (\<forall>x \<in> set (z # zs). seen_key x = k) \<and> seen_later z + 30000 \<le> T)"

lemma held_snoc: "held xs k T \<Longrightarrow> seen_key x = k \<Longrightarrow> T \<le> T' \<Longrightarrow> held (xs @ [x]) k T'"
  unfolding held_def by (elim exE conjE) (rule exI, rule exI, rule exI [of _ "_ @ [x]"], auto)

lemma held_new: "seen_later x + 30000 \<le> T \<Longrightarrow> held (xs @ [x]) (seen_key x) T"
  unfolding held_def by (intro exI [of _ xs] exI [of _ x] exI [of _ "[]"]) simp

lemma unat_plus_u64: "unat a < 2 ^ 63 \<Longrightarrow> n < 2 ^ 62 \<Longrightarrow> unat (a + of_nat n) = unat a + n" for a :: u64
  by (simp add: unat_word_ariths unsigned_of_nat take_bit_nat_eq_self)

lemma later_times:
  "seen_later x < 2 ^ 63 \<Longrightarrow> unat (snd (snd x) + 30000) = seen_later x + 30000"
  "seen_at x < 2 ^ 63 \<Longrightarrow> unat (fst (snd x) + 150000) = seen_at x + 150000"
  "seen_at x < 2 ^ 63 \<Longrightarrow> unat (fst (snd x) + 350000) = seen_at x + 350000"
  using unat_plus_u64 [of "snd (snd x)" 30000] unat_plus_u64 [of "fst (snd x)" 150000] unat_plus_u64 [of "fst (snd x)" 350000]
  by (simp_all add: seen_defs)

text \<open>When the next event of the key is due, zero for never, as the round \<open>x\<close> sees it.\<close>

definition due :: "gui \<Rightarrow> sample \<Rightarrow> u64" where
  "due g x = (if last_key g \<noteq> seen_key x then snd (snd x) + 30000 else key_change_ts g)"

lemma key_round_parts:
  fixes g x
  defines "fires \<equiv> due g x \<noteq> 0 \<and> due g x < fst (snd x)"
  shows "last_key (key_round g x) = seen_key x"
    "\<not> fires \<Longrightarrow> key_change_ts (key_round g x) = due g x \<and> g_events (key_round g x) = {}"
    "fires \<Longrightarrow> seen_key x = NoKey \<Longrightarrow> key_change_ts (key_round g x) = 0 \<and> g_events (key_round g x) = {}"
    "fires \<Longrightarrow> seen_key x \<noteq> NoKey \<Longrightarrow> key_change_ts (key_round g x) \<in> {fst (snd x) + 150000, fst (snd x) + 350000} \<and>
       g_events (key_round g x) = {if seen_key x = VolumeDown then EV_VOLUME_DOWN else EV_VOLUME_UP}"
proof -
  obtain k n l where x: "x = (k, n, l)" by (cases x) auto
  let ?g = "g\<lparr>g_events := {}\<rparr>"
  let ?c = "if last_key g \<noteq> k then ?g\<lparr>last_key := k, key_change_ts := l + 30000, auto_repeat := False\<rparr> else ?g"
  have c: "last_key ?c = k" "key_change_ts ?c = due g x" "g_events ?c = {}"
    by (simp_all add: x due_def seen_key_def)
  have step: "key_round g x =
      (if fires then
         (let g = (if auto_repeat ?c then ?c\<lparr>key_change_ts := n + 150000\<rparr>
                   else ?c\<lparr>auto_repeat := True, key_change_ts := n + 350000\<rparr>)
          in if k = VolumeDown then g\<lparr>g_events := insert EV_VOLUME_DOWN (g_events g)\<rparr>
             else if k = VolumeUp then g\<lparr>g_events := insert EV_VOLUME_UP (g_events g)\<rparr>
             else g\<lparr>key_change_ts := 0\<rparr>)
       else ?c)"
    unfolding fires_def c(2) [symmetric] by (simp add: key_round_def volume_events_def x Let_def)
  define c where "c = ?c"
  note step = step [folded c_def] and c = c [folded c_def]
  show "last_key (key_round g x) = seen_key x"
    unfolding step using c(1) by (simp add: x seen_key_def Let_def)
  show "key_change_ts (key_round g x) = due g x \<and> g_events (key_round g x) = {}" if "\<not> fires"
    unfolding step using c(2,3) that by simp
  show "key_change_ts (key_round g x) = 0 \<and> g_events (key_round g x) = {}" if "fires" "seen_key x = NoKey"
    unfolding step using c(3) that by (simp add: x seen_key_def Let_def)
  show "key_change_ts (key_round g x) \<in> {fst (snd x) + 150000, fst (snd x) + 350000} \<and>
       g_events (key_round g x) = {if seen_key x = VolumeDown then EV_VOLUME_DOWN else EV_VOLUME_UP}"
    if "fires" "seen_key x \<noteq> NoKey"
    unfolding step using c(3) that by (cases k) (simp_all add: x seen_key_def Let_def)
qed

text \<open>Either nothing is due, or the key is held long enough before that time.\<close>

definition keys_ok :: "sample list \<Rightarrow> gui \<Rightarrow> bool" where
  "keys_ok xs g \<longleftrightarrow> key_change_ts g = 0 \<or> held xs (last_key g) (unat (key_change_ts g))"

lemma due_held:
  assumes "in_time x" "keys_ok xs g" "due g x \<noteq> 0"
  shows "held (xs @ [x]) (seen_key x) (unat (due g x))"
proof (cases "last_key g = seen_key x")
  case True
  then show ?thesis using assms(2,3) by (auto simp: keys_ok_def due_def intro: held_snoc)
next
  case False
  then show ?thesis
    using assms(1) later_times(1) [of x] by (intro held_new) (simp add: due_def in_time_def)
qed

lemma keys_ok_round:
  assumes "in_time x" "keys_ok xs g"
  shows "keys_ok (xs @ [x]) (key_round g x)"
    "g_events (key_round g x) \<noteq> {} \<Longrightarrow> held (xs @ [x]) (seen_key x) (seen_at x - 1) \<and>
       g_events (key_round g x) = {if seen_key x = VolumeDown then EV_VOLUME_DOWN else EV_VOLUME_UP} \<and> seen_key x \<noteq> NoKey"
proof -
  note parts = key_round_parts [of g x]
  have due: "due g x \<noteq> 0 \<Longrightarrow> held (xs @ [x]) (seen_key x) (unat (due g x))"
    using due_held [OF assms] .
  have less: "unat (due g x) < seen_at x" if "due g x < fst (snd x)"
    using that by (simp add: word_less_nat_alt seen_at_def)
  have mono: "held ys k T \<Longrightarrow> T \<le> T' \<Longrightarrow> held ys k T'" for ys k T T'
    by (fastforce simp: held_def)
  have more: "seen_at x \<le> unat (key_change_ts (key_round g x))"
    if "key_change_ts (key_round g x) \<in> {fst (snd x) + 150000, fst (snd x) + 350000}"
    using that later_times(2,3) [of x] assms(1) by (auto simp: in_time_def)
  show "keys_ok (xs @ [x]) (key_round g x)"
    unfolding keys_ok_def parts(1)
  proof (cases "due g x \<noteq> 0 \<and> due g x < fst (snd x)")
    case False
    then show "key_change_ts (key_round g x) = 0 \<or> held (xs @ [x]) (seen_key x) (unat (key_change_ts (key_round g x)))"
      using parts(2) due by auto
  next
    case True
    then have held: "unat (due g x) \<le> seen_at x" "held (xs @ [x]) (seen_key x) (unat (due g x))"
      using less due by (auto intro: less_imp_le)
    then show "key_change_ts (key_round g x) = 0 \<or> held (xs @ [x]) (seen_key x) (unat (key_change_ts (key_round g x)))"
    proof (cases "seen_key x = NoKey")
      case True
      then show ?thesis using parts(3) \<open>due g x \<noteq> 0 \<and> due g x < fst (snd x)\<close> by simp
    next
      case False
      then have "seen_at x \<le> unat (key_change_ts (key_round g x))" using parts(4) True by (intro more) blast
      then show ?thesis using held mono by (meson order_trans)
    qed
  qed
  show "held (xs @ [x]) (seen_key x) (seen_at x - 1) \<and>
       g_events (key_round g x) = {if seen_key x = VolumeDown then EV_VOLUME_DOWN else EV_VOLUME_UP} \<and> seen_key x \<noteq> NoKey"
    if "g_events (key_round g x) \<noteq> {}"
  proof -
    have f: "due g x \<noteq> 0 \<and> due g x < fst (snd x)" using that parts(2) by blast
    then have k: "seen_key x \<noteq> NoKey" using that parts(3) by blast
    have "unat (due g x) < seen_at x" using f less by blast
    then have "unat (due g x) \<le> seen_at x - 1" by linarith
    then show ?thesis using mono [OF due] f k parts(4) by blast
  qed
qed

lemma keys_ok_rounds:
  "\<forall>x \<in> set xs. in_time x \<Longrightarrow> key_change_ts g = 0 \<Longrightarrow> keys_ok xs (key_rounds xs g)"
  by (induction xs rule: rev_induct) (simp_all add: keys_ok_def [of "[]"] key_rounds_def keys_ok_round(1))

lemma due_again:
  assumes "\<forall>y \<in> set ys. in_time y \<and> seen_key y = k" "last_key g = k" "k \<noteq> NoKey" "T \<le> unat (key_change_ts g)" "0 < T"
  shows "T \<le> unat (key_change_ts (key_rounds ys g)) \<and> last_key (key_rounds ys g) = k"
  using assms(1)
proof (induction ys rule: rev_induct)
  case Nil
  then show ?case using assms(2,4) by (simp add: key_rounds_def)
next
  case (snoc y ys)
  let ?g = "key_rounds ys g"
  have IH: "T \<le> unat (key_change_ts ?g)" "last_key ?g = k" using snoc by simp_all
  have y: "in_time y" "seen_key y = k" using snoc.prems by simp_all
  then have d: "due ?g y = key_change_ts ?g" by (simp add: due_def IH)
  have "seen_at y \<le> unat (key_change_ts (key_round ?g y))"
    if "key_change_ts (key_round ?g y) \<in> {fst (snd y) + 150000, fst (snd y) + 350000}"
    using that later_times(2,3) [of y] y(1) by (auto simp: in_time_def)
  then have "T \<le> unat (key_change_ts (key_round ?g y))"
    using key_round_parts(2,4) [of ?g y] d IH(1) y(2) assms(3)
    by (cases "due ?g y \<noteq> 0 \<and> due ?g y < fst (snd y)") (auto simp: word_less_nat_alt seen_at_def)
  then show ?case using key_round_parts(1) [of ?g y] y(2) by (simp add: key_rounds_def)
qed

text \<open>
  C27: The volume keys are debounced: a round reports a volume key only when it sees that key, and
  when all rounds of more than the last 30 ms have seen it, whatever the rounds before were. While
  the key stays down, two rounds that report it are more than 150 ms apart.
\<close>

theorem volume_keys_debounced:
  assumes "\<forall>x \<in> set (xs @ [x]). in_time x" "key_change_ts g = 0" "g_events (key_rounds (xs @ [x]) g) \<noteq> {}"
  shows "seen_key x \<noteq> NoKey \<and> g_events (key_rounds (xs @ [x]) g) = {if seen_key x = VolumeDown then EV_VOLUME_DOWN else EV_VOLUME_UP} \<and>
    held (xs @ [x]) (seen_key x) (seen_at x - 1) \<and>
    (\<forall>ys y. (\<forall>z \<in> set (ys @ [y]). in_time z \<and> seen_key z = seen_key x) \<longrightarrow>
       g_events (key_rounds (xs @ x # ys @ [y]) g) \<noteq> {} \<longrightarrow> seen_at x + 150000 < seen_at y)"
proof -
  let ?g = "key_rounds xs g" and ?g1 = "key_rounds (xs @ [x]) g"
  have x: "in_time x" "keys_ok xs ?g" using assms keys_ok_rounds by auto
  have g1: "?g1 = key_round ?g x" by (simp add: key_rounds_def)
  note first = keys_ok_round(2) [OF x] assms(3) [unfolded g1]
  have "key_change_ts ?g1 \<in> {fst (snd x) + 150000, fst (snd x) + 350000}"
    using key_round_parts(2-4) [of ?g x] first unfolding g1 by blast
  then have ts: "seen_at x + 150000 \<le> unat (key_change_ts ?g1)"
    using later_times(2,3) [of x] x(1) by (auto simp: in_time_def)
  have again: "seen_at x + 150000 < seen_at y"
    if "\<forall>z \<in> set (ys @ [y]). in_time z \<and> seen_key z = seen_key x" "g_events (key_rounds (xs @ x # ys @ [y]) g) \<noteq> {}" for ys y
  proof -
    have "seen_at x + 150000 \<le> unat (key_change_ts (key_rounds ys ?g1)) \<and> last_key (key_rounds ys ?g1) = seen_key x"
      using that(1) first key_round_parts(1) [of ?g x] ts x(1)
      by (intro due_again) (auto simp: g1 in_time_def)
    moreover have "key_rounds (xs @ x # ys @ [y]) g = key_round (key_rounds ys ?g1) y"
      by (simp add: key_rounds_def)
    then have "due (key_rounds ys ?g1) y < fst (snd y)"
      using that(2) key_round_parts(2) [of "key_rounds ys ?g1" y] by metis
    ultimately show ?thesis
      using that(1) by (simp add: due_def word_less_nat_alt seen_at_def)
  qed
  then show ?thesis using first unfolding g1 by blast
qed

text \<open>A press of volume down that lasts, sampled every 20 ms.\<close>

definition sample_press :: "sample list" where
  "sample_press = [(NoKey, 1000, 1001), (VolumeDown, 21000, 21001), (VolumeDown, 41000, 41001)]"

lemma sample_press_event: "g_events (key_rounds (sample_press @ [(VolumeDown, 61000, 61001)]) gui_zero) = {EV_VOLUME_DOWN}"
  by (simp add: sample_press_def key_rounds_def key_round_def volume_events_def gui_zero_def Let_def)

theorem volume_keys_debounced_witness:
  "held (sample_press @ [(VolumeDown, 61000, 61001)]) VolumeDown 60999"
proof -
  have "\<forall>x \<in> set (sample_press @ [(VolumeDown, 61000, 61001)]). in_time x"
    by (simp add: sample_press_def seen_defs)
  moreover have "key_change_ts gui_zero = 0" by (simp add: gui_zero_def)
  moreover have "g_events (key_rounds (sample_press @ [(VolumeDown, 61000, 61001)]) gui_zero) \<noteq> {}"
    by (simp add: sample_press_event)
  ultimately show ?thesis
    using volume_keys_debounced [of sample_press "(VolumeDown, 61000, 61001)" gui_zero] by (simp add: seen_key_def seen_at_def)
qed

section \<open>The power button on a bus that does not answer\<close>

definition bus_stuck :: "device \<Rightarrow> bool" where
  "bus_stuck d \<longleftrightarrow> (\<forall>t. d t RSB_CTRL AND push_bit 7 1 \<noteq> 0)"

lemma stuck_read:
  assumes "bus_stuck d"
  shows "fst (pmic_read d i t) = - 110"
proof -
  have "fst (rsb_wait_bit d RSB_CTRL (push_bit 7 1) t) = - 110" for t
    using poll_clear_result [where d = d and a = RSB_CTRL and m = "push_bit 7 1" and n = "MAX_TRIES - 1" and t = t] assms
    by (auto simp: bus_stuck_def rsb_wait_bit_def ETIMEDOUT_def Let_def split: prod.split)
  then have "fst (rsb_wait_stat d t) = - 110" for t
    by (simp add: rsb_wait_stat_def split_beta Let_def)
  then show ?thesis
    by (simp add: pmic_read_def rsb_read_def split_beta Let_def)
qed

lemma stuck_flags:
  assumes "bus_stuck d"
  shows "fst (pmic_flags d is evs t) = evs \<union> (if 0x4c \<in> set is then {EV_POK_SHORT} else {})"
proof (induction "is" arbitrary: evs t)
  case (Cons i "is")
  obtain t1 where r: "pmic_read d i t = (- 110, t1)"
    using stuck_read [OF assms, of i t] by (cases "pmic_read d i t") simp
  have "pok_events (word_of_int (- 110)) = {EV_POK_SHORT}" by (simp add: pok_events_def)
  then show ?case by (auto simp: r Cons.IH Let_def)
qed simp

text \<open>
  When the PMIC asks for attention and the bus does not answer, the error code of the timed out
  read is taken for the interrupt flags: -110 has bit 4 set, so the interface sees a short press of
  the power button that nobody made.
\<close>

theorem stuck_bus_presses_power:
  assumes "bus_stuck d" "d t (R_INTC_BASE + SUN6I_R_INTC_PENDING) AND push_bit 0 1 \<noteq> 0"
  shows "fst (power_events d evs t) = insert EV_POK_SHORT evs"
  using assms(2) stuck_flags [OF assms(1), of "[0x48, 0x49, 0x4a, 0x4b, 0x4c, 0x4d]" evs]
  by (simp add: power_events_def readl_def split_beta Let_def)

theorem stuck_bus_presses_power_witness: "EV_POK_SHORT \<in> fst (power_events (\<lambda>t a. 0x81) {} [])"
  using stuck_bus_presses_power [of "\<lambda>t a. 0x81" "[]" "{}"] by (simp add: bus_stuck_def)
end
