(* ===== verification/Boot_Gui.thy ===== *)
theory Boot_Gui
  imports Boot_Images Gui_Events Strbuf
begin

text \<open>
  The boot menu of \<open>src/src/main.c\<close>: \<open>boot_selection\<close>, the items made from the configurations of
  both cards, and the loop of \<open>boot_gui\<close>, one round of it as a step from state to state. What
  leaves the loop is a value of \<open>gui_step\<close>: power off, a reset, or the attempt to boot.
  \<open>None\<close> stands for what C leaves undefined, a null file system or a block before the first.
\<close>

section \<open>Parameters\<close>

text \<open>The hardware, the fields of \<open>struct globals\<close> that the menu reads, the options of the build, the stack's old contents.\<close>

record gui_env =
  e_dev :: device
  e_clk :: clock
  e_stack :: "u8 list"
  e_build :: build
  e_resize :: bool
  e_board :: board
  e_boot_source :: nat
  e_version :: "u8 list"
  e_dram_size :: u32
  e_sid :: "u32 list"

section \<open>Booting a selection\<close>

definition fdt_path_disable :: "u64 \<Rightarrow> string \<Rightarrow> mem \<Rightarrow> mem option" where
  "fdt_path_disable fdt path m = do {
     node \<leftarrow> fdt_path_offset m fdt path;
     if neg node then Some m
     else map_option snd (fdt_setprop fdt node ''status'' (bytes ''disabled'' @ [0]) m)
   }"

definition priv_nodes :: "string list" where
  "priv_nodes =
     [''/soc/mmc@1c10000'', ''/sound'', ''/soc/serial@1c28400'', ''/soc/i2c@1c2b000'', ''/i2c-csi'', ''/soc/csi@1cb0000'']"

fun contains :: "u8 list \<Rightarrow> u8 list \<Rightarrow> bool" where
  "contains pat [] \<longleftrightarrow> pat = []"
| "contains pat (x # xs) \<longleftrightarrow> take (length pat) (x # xs) = pat \<or> contains pat xs"

fun disable_paths :: "u64 \<Rightarrow> string list \<Rightarrow> mem \<Rightarrow> mem option" where
  "disable_paths fdt [] m = Some m"
| "disable_paths fdt (path # paths) m = do {
     m \<leftarrow> fdt_path_disable fdt path m;
     disable_paths fdt paths m
   }"

definition fdt_privacy :: "u64 \<Rightarrow> mem \<Rightarrow> mem option" where
  "fdt_privacy fdt m = do {
     m \<leftarrow> disable_paths fdt priv_nodes m;
     node \<leftarrow> fdt_path_offset m fdt ''/soc/serial@1c28c00/modem'';
     if neg node then Some m else map_option snd (fdt_setprop_u32 fdt node ''blocked'' 1 m)
   }"

definition fdt_modem_manager :: "u64 \<Rightarrow> mem \<Rightarrow> mem option" where
  "fdt_modem_manager fdt m = do {
     node \<leftarrow> fdt_path_offset m fdt ''/soc/serial@1c28c00/modem'';
     m \<leftarrow> (if neg node then Some m else map_option snd (fdt_del_node fdt node m));
     node \<leftarrow> fdt_path_offset m fdt ''/vbat-bb'';
     if neg node then Some m else map_option snd (fdt_setprop fdt node ''regulator-always-on'' [] m)
   }"

definition fdt_adjust :: "bool \<Rightarrow> boot \<Rightarrow> mem \<Rightarrow> mem option" where
  "fdt_adjust privacy b m =
     (let fdt = boot_fdt b
      in do {
        adc_node \<leftarrow> fdt_path_offset m fdt ''/soc/rsb@1f03400/pmic@3a3/adc'';
        m \<leftarrow> (if neg adc_node then Some m
             else map_option snd (fdt_delprop fdt adc_node ''x-powers,ts-as-gpadc'' m));
        _ \<leftarrow> fdt_getprop m fdt 0 ''model'';
        if privacy then fdt_privacy fdt m
        else if contains (bytes ''eg25-manager'') (bootargs b) then fdt_modem_manager fdt m
        else Some m
      })"

text \<open>A panic with its code, after which the device is off, or the jump to the firmware.\<close>

datatype boot_result = Panicked u32 | Handed_over entry_point_info

definition boot_selection ::
  "gui_env \<Rightarrow> 'c mmc \<times> bootfs \<Rightarrow> nat \<Rightarrow> u32 \<Rightarrow> 'c world \<Rightarrow> (boot_result \<times> 'c world) option" where
  "boot_selection e bfs no splash_fb w =
     (let (m, fs) = bfs
      in do {
        (ok, b, w) \<leftarrow> boot_prepare m fs no w;
        if \<not> ok then Some (Panicked 12, on_hist (panic_shutdown (e_dev e) 12) w)
        else do {
          mm \<leftarrow> (if splash_fb \<noteq> 0 then map_option snd (fdt_setup_framebuffer b splash_fb (mem w)) else Some (mem w));
          let (privacy, t) = rtc_get_flag (e_dev e) (push_bit 0 1) (hist w);
          mm \<leftarrow> fdt_adjust privacy b mm;
          (ok, mm) \<leftarrow> boot_finalize (e_build e) (e_stack e) fs (e_dram_size e) (e_sid e) b mm;
          let w = w\<lparr>hist := t, mem := mm\<rparr>;
          Some (if \<not> ok then (Panicked 13, on_hist (panic_shutdown (e_dev e) 13) w)
            else (Handed_over (bl33_ep_info w), on_hist (boot_perform (e_dev e)) w))
        }
      })"

section \<open>Making the menu\<close>

definition COLOR_NORMAL_ITEM :: u32 where "COLOR_NORMAL_ITEM = 0xffeeccdd"
definition COLOR_DEFAULT_ITEM :: u32 where "COLOR_DEFAULT_ITEM = 0xff11ff22"
definition COLOR_SD_HEADER :: u32 where "COLOR_SD_HEADER = 0xffff8569"
definition COLOR_EMMC_HEADER :: u32 where "COLOR_EMMC_HEADER = 0xffa0c5ff"
definition COLOR_POWEROFF_ITEM :: u32 where "COLOR_POWEROFF_ITEM = 0xffff2211"
definition COLOR_FEL_ITEM :: u32 where "COLOR_FEL_ITEM = 0xffee77ff"
definition COLOR_HEADER :: u32 where "COLOR_HEADER = 0xffddee77"
definition COLOR_FOOTER :: u32 where "COLOR_FOOTER = 0xffddee77"
definition COLOR_FOOTER_BAD :: u32 where "COLOR_FOOTER_BAD = 0xffff1122"

text \<open>The name of a configuration: at most its field of 96 bytes, up to the NUL.\<close>

definition conf_name :: "mem \<Rightarrow> bootfs \<Rightarrow> nat \<Rightarrow> u8 list" where
  "conf_name m fs i = takeWhile (\<lambda>c. c \<noteq> 0) (read_bytes m (block_addr fs i + 1952) 96)"

definition add_conf :: "mem \<Rightarrow> bootfs \<Rightarrow> int \<Rightarrow> nat \<Rightarrow> menu \<Rightarrow> menu" where
  "add_conf mm fs base i m =
     (if is_conf mm fs i then gui_menu_add_item (int i + base) (conf_name mm fs i) COLOR_NORMAL_ITEM COLOR_DEFAULT_ITEM m
      else m)"

definition add_emmc_items :: "gui_env \<Rightarrow> 'c world \<Rightarrow> menu \<Rightarrow> menu" where
  "add_emmc_items e w m =
     (if emmc w \<noteq> None \<or> e_boot_source e \<noteq> 2 then
        (let m = gui_menu_add_item (- 2) (bytes ''eMMC:'') COLOR_EMMC_HEADER COLOR_EMMC_HEADER m;
             m = (case emmc w of None \<Rightarrow> m | Some (_, fs) \<Rightarrow> fold (add_conf (mem w) fs 0) [0..<32] m);
             m = (if e_boot_source e \<noteq> 2
                  then gui_menu_add_item BOOTSEL_EMMC (bytes ''Boot via bootloader on eMMC'') COLOR_NORMAL_ITEM COLOR_DEFAULT_ITEM m
                  else m)
         in gui_menu_add_item (- 2) [] 0 0 m)
      else m)"

definition add_sd_items :: "'c world \<Rightarrow> menu \<Rightarrow> menu" where
  "add_sd_items w m =
     (case sd w of
        None \<Rightarrow> m
      | Some (_, fs) \<Rightarrow>
          (let m = gui_menu_add_item (- 2) (bytes ''SD:'') COLOR_SD_HEADER COLOR_SD_HEADER m;
               m = fold (add_conf (mem w) fs 32) [0..<32] m
           in gui_menu_add_item (- 2) [] 0 0 m))"

definition set_item_active :: "int \<Rightarrow> bool \<Rightarrow> menu \<Rightarrow> menu" where
  "set_item_active i a m = m\<lparr>m_items := (m_items m)(i := (m_items m i)\<lparr>it_active := a\<rparr>)\<rparr>"

text \<open>All items; the second result is the index that the pointer \<open>priv\<close> keeps.\<close>

definition add_items :: "gui_env \<Rightarrow> 'c world \<Rightarrow> bool \<Rightarrow> menu \<Rightarrow> menu \<times> int" where
  "add_items e w privacy m =
     (let m = add_sd_items w (add_emmc_items e w m);
          m = gui_menu_add_item 100 (bytes ''Privacy mode'') 0xff777777 COLOR_DEFAULT_ITEM m;
          priv = n_items m - 1;
          m = set_item_active priv privacy m;
          m = gui_menu_add_item BOOTSEL_FEL (bytes ''Reboot to FEL'') COLOR_FEL_ITEM COLOR_DEFAULT_ITEM m;
          m = gui_menu_add_item BOOTSEL_POWEROFF (bytes ''Poweroff'') COLOR_POWEROFF_ITEM COLOR_POWEROFF_ITEM m
      in (m, priv))"

definition select_default :: "int \<Rightarrow> bool \<Rightarrow> menu \<Rightarrow> menu" where
  "select_default def no_emmc m =
     (if def \<ge> 0 then gui_menu_set_selection def (gui_menu_set_active def m)
      else gui_menu_set_selection (if no_emmc then 32 else 0) m)"

text \<open>The title: the device id of the superblock, closed by a NUL in memory, or a fixed text.\<close>

definition device_id_addr :: "bootfs \<Rightarrow> u64" where "device_id_addr fs = fs_sb fs + 16"

definition menu_title :: "bootfs \<Rightarrow> mem \<Rightarrow> u8 list \<times> mem" where
  "menu_title fs m =
     (if m (device_id_addr fs) \<noteq> 0 then
        (let m = m(device_id_addr fs + 31 := 0)
         in (takeWhile (\<lambda>c. c \<noteq> 0) (read_bytes m (device_id_addr fs) 32), m))
      else (bytes ''Boot menu'', m))"

definition menu_footer :: "gui_env \<Rightarrow> u8 list \<Rightarrow> strbuf option" where
  "menu_footer e junk =
     (let g = e_board e; footer = strbuf_new junk 64
      in do {
        footer \<leftarrow> strbuf_printf footer (bytes ''p-boot %s, %s '')
                   [ArgStr (e_version e), ArgStr (bytes (get_boot_source_name (e_boot_source e)))];
        if bat_present g then
          (let footer = (if bat_safe_mode g then strbuf_putc footer (of_char CHR ''S'') else footer);
               footer = (if uvlo_shutdown g then strbuf_putc footer (of_char CHR ''U'') else footer)
           in if bat_capacity g \<ge> 0 then
                (let footer = strbuf_putc footer (if bat_charging g then 0x17 else 0x18);
                     footer = strbuf_putc footer (word_of_int (0x13 + bat_capacity g * 3 div 100))
                 in strbuf_printf footer (bytes '' %u%%'') [ArgUInt (word_of_int (bat_capacity g))])
              else Some footer)
        else strbuf_printf footer (bytes ''NO BAT'') []
      })"

definition footer_color :: "board \<Rightarrow> u32" where
  "footer_color g =
     (if bat_present g \<and> \<not> bat_safe_mode g \<and> \<not> uvlo_shutdown g \<and> bat_capacity g > 30
      then COLOR_FOOTER else COLOR_FOOTER_BAD)"

section \<open>The loop\<close>

datatype gui_mode = STATE_MENU | STATE_OFF | STATE_BOOT

record 'c gui_run =
  r_gui :: gui
  r_world :: "'c world"
  r_def :: int
  r_priv :: int
  r_flips :: int
  r_boot_sel :: int
  r_mode :: gui_mode
  r_end :: u64

datatype 'c gui_step =
    Continue "'c gui_run" | Power_off "'c world" | Reset "'c world" | Booted boot_result "'c world"

text \<open>The menu is the only widget; the loop reads and changes it through a pointer.\<close>

definition the_menu :: "gui \<Rightarrow> menu" where
  "the_menu g = fst (hd (g_widgets g))"

definition on_menu :: "(menu \<Rightarrow> menu) \<Rightarrow> gui \<Rightarrow> gui" where
  "on_menu f g = g\<lparr>g_widgets := (case g_widgets g of [] \<Rightarrow> [] | (m, fb) # ws \<Rightarrow> (f m, fb) # ws)\<rparr>"

text \<open>\<open>confs_blocks[id % 32]\<close> of the card that an id belongs to.\<close>

definition conf_block :: "int \<Rightarrow> 'c world \<Rightarrow> (('c mmc \<times> bootfs) \<times> nat) option" where
  "conf_block ident w = do {
     bfs \<leftarrow> (if ident < 32 then emmc w else sd w);
     if ident < 0 then None else Some (bfs, nat (ident mod 32))
   }"

definition SPLASH_FB :: u32 where "SPLASH_FB = 0x48000000"

definition hide_menu :: "display \<Rightarrow> display" where
  "hide_menu dp = dp\<lparr>planes := (planes dp)[1 := (planes dp ! 1)\<lparr>fb_start := 0\<rparr>]\<rparr>"

definition load_named :: "'c mmc \<times> bootfs \<Rightarrow> u8 list \<Rightarrow> 'c world \<Rightarrow> 'c world" where
  "load_named bfs name w = snd (bootfs_load_file (fst bfs) (snd bfs) SPLASH_FB name w)"

definition gui_power_off :: "gui_env \<Rightarrow> 'c mmc \<times> bootfs \<Rightarrow> gui \<Rightarrow> 'c world \<Rightarrow> 'c world" where
  "gui_power_off e bfs g w =
     (let w = load_named bfs (bytes ''off.argb'') w;
          dp = hide_menu (g_display g)
      in on_hist (\<lambda>t. pmic_poweroff (e_dev e) (udelay 1000000 (display_commit (e_resize e) dp t))) w)"

definition gui_boot :: "gui_env \<Rightarrow> int \<Rightarrow> gui \<Rightarrow> 'c world \<Rightarrow> (boot_result \<times> 'c world) option" where
  "gui_boot e boot_sel g w = do {
     (bfs, no) \<leftarrow> conf_block boot_sel w;
     let w = snd (load_splash (fst bfs) (snd bfs) no SPLASH_FB w);
     let dp = hide_menu (g_display g);
     let w = on_hist (\<lambda>t. exec (e_dev e) gui_fini (display_commit (e_resize e) dp t)) w;
     boot_selection e bfs no SPLASH_FB w
   }"

text \<open>The part of a round after a frame was shown; \<open>Inl\<close> leaves the loop.\<close>

definition round_vblank ::
  "gui_env \<Rightarrow> 'c mmc \<times> bootfs \<Rightarrow> 'c gui_run \<Rightarrow> ('c gui_step + 'c gui_run) option" where
  "round_vblank e bfs r =
     (let g = r_gui r; w = r_world r
      in case r_mode r of
           STATE_OFF \<Rightarrow> Some (Inl (Power_off (gui_power_off e bfs g w)))
         | STATE_BOOT \<Rightarrow> do {
             (res, w) \<leftarrow> gui_boot e (r_boot_sel r) g w;
             Some (Inl (Booted res w))
           }
         | STATE_MENU \<Rightarrow>
             (let w = on_hist (display_commit (e_resize e) (g_display g)) w;
                  flips = r_flips r + 1;
                  w = (if flips = 1 then on_hist (backlight_enable (e_dev e) 60) w else w)
              in Some (Inr (r\<lparr>r_world := w, r_flips := flips\<rparr>))))"

definition round_deadline :: "gui_env \<Rightarrow> 'c gui_run \<Rightarrow> 'c gui_run" where
  "round_deadline e r =
     (let r = (if g_events (r_gui r) - {EV_VBLANK} \<noteq> {}
               then r\<lparr>r_end := e_clk e (hist (r_world r)) + 10000000\<rparr> else r)
      in if r_end r < g_now (r_gui r) then r\<lparr>r_mode := STATE_OFF\<rparr> else r)"

definition round_preview :: "'c mmc \<times> bootfs \<Rightarrow> 'c gui_run \<Rightarrow> 'c gui_run option" where
  "round_preview bfs r =
     (let m = the_menu (r_gui r); w = r_world r; ident = gui_menu_get_selection m
      in if \<not> selection_changed m then Some r
         else if ident = BOOTSEL_POWEROFF then Some (r\<lparr>r_world := load_named bfs (bytes ''off.argb'') w\<rparr>)
         else if ident < 64 then do {
           (cfs, no) \<leftarrow> conf_block ident w;
           let (ok, w) = load_splash (fst cfs) (snd cfs) no SPLASH_FB w;
           Some (r\<lparr>r_world := (if ok then w else load_named bfs (bytes ''pboot2.argb'') w)\<rparr>)
         } else Some r)"

definition round_long_press :: "gui_env \<Rightarrow> 'c gui_run \<Rightarrow> 'c gui_run" where
  "round_long_press e r =
     (if EV_POK_LONG \<notin> g_events (r_gui r) then r
      else
        (let ident = gui_menu_get_selection (the_menu (r_gui r))
         in if ident = 100 then
              (let a = \<not> it_active (m_items (the_menu (r_gui r)) (r_priv r))
               in r\<lparr>r_gui := on_menu (\<lambda>m. (set_item_active (r_priv r) a m)\<lparr>changed := True\<rparr>) (r_gui r),
                    r_world := on_hist (rtc_set_flag (e_dev e) (push_bit 0 1) (if a then push_bit 0 1 else 0)) (r_world r)\<rparr>)
            else
              (let def = (if ident = BOOTSEL_POWEROFF then - 1 else ident)
               in r\<lparr>r_def := def, r_world := on_hist (rtc_bootsel_set def) (r_world r),
                    r_gui := on_menu (gui_menu_set_active def) (r_gui r)\<rparr>)))"

definition round_short_press :: "gui_env \<Rightarrow> 'c gui_run \<Rightarrow> 'c gui_step" where
  "round_short_press e r =
     (if EV_POK_SHORT \<notin> g_events (r_gui r) then Continue r
      else
        (let ident = gui_menu_get_selection (the_menu (r_gui r))
         in if ident = BOOTSEL_FEL \<or> ident = BOOTSEL_EMMC then Reset (on_hist (reboot_to (e_dev e) ident) (r_world r))
            else if ident = BOOTSEL_POWEROFF then Continue (r\<lparr>r_mode := STATE_OFF\<rparr>)
            else if ident < 64 then Continue (r\<lparr>r_mode := STATE_BOOT, r_boot_sel := ident\<rparr>)
            else Continue r))"

text \<open>One round of \<open>while (true)\<close>.\<close>

definition gui_round :: "gui_env \<Rightarrow> 'c mmc \<times> bootfs \<Rightarrow> 'c gui_run \<Rightarrow> 'c gui_step option" where
  "gui_round e bfs r = do {
     (g, t) \<leftarrow> gui_get_events (e_dev e) (e_clk e) (r_gui r) (hist (r_world r));
     let r = r\<lparr>r_gui := g, r_world := (r_world r)\<lparr>hist := t\<rparr>\<rparr>;
     x \<leftarrow> (if EV_VBLANK \<in> g_events g then round_vblank e bfs r else Some (Inr r));
     case x of
       Inl s \<Rightarrow> Some s
     | Inr r \<Rightarrow> do {
         r \<leftarrow> round_preview bfs (round_deadline e r);
         Some (round_short_press e (round_long_press e r))
       }
   }"

partial_function (option) gui_loop :: "gui_env \<Rightarrow> 'c mmc \<times> bootfs \<Rightarrow> 'c gui_run \<Rightarrow> 'c gui_step option" where
  "gui_loop e bfs r =
     (case gui_round e bfs r of
        None \<Rightarrow> None
      | Some (Continue r) \<Rightarrow> gui_loop e bfs r
      | Some s \<Rightarrow> Some s)"

definition background :: display_plane where
  "background = \<lparr>fb_start = SPLASH_FB, fb_pitch = 720 * 4, src_x = 0, src_y = 0, src_w = 720, src_h = 1440,
     dst_x = 0, dst_y = 0, dst_w = 720, dst_h = 1440, alpha = 0, z = 0\<rparr>"

definition plane_zero :: display_plane where
  "plane_zero = \<lparr>fb_start = 0, fb_pitch = 0, src_x = 0, src_y = 0, src_w = 0, src_h = 0,
     dst_x = 0, dst_y = 0, dst_w = 0, dst_h = 0, alpha = 0, z = 0\<rparr>"

text \<open>
  From the start of \<open>boot_gui\<close> to the loop. \<open>alloc\<close> is what \<open>gui_menu\<close> needs of the heap: the
  menu with its empty console, the framebuffer that was allocated, and \<open>junk\<close> for the footer.
\<close>

definition gui_start ::
  "gui_env \<Rightarrow> 'c mmc \<times> bootfs \<Rightarrow> menu \<times> (nat \<Rightarrow> u32) \<Rightarrow> u8 list \<Rightarrow> 'c world \<Rightarrow> 'c gui_run option" where
  "gui_start e bfs alloc junk w =
     (let d = e_dev e;
          w = on_hist (exec d wdog_disable) w;
          w = load_named bfs (bytes ''pboot2.argb'') w;
          dp = \<lparr>planes = [background, plane_zero, plane_zero]\<rparr>;
          (g, t) = gui_init d (e_clk e) dp gui_zero (hist w);
          t = display_commit (e_resize e) (g_display g) t;
          (def, t) = rtc_bootsel_get d t;
          (m, fb) = alloc;
          (privacy, t) = rtc_get_flag d (push_bit 0 1) t;
          (m, priv) = add_items e w privacy m;
          m = select_default def (emmc w = None) m;
          (title, mm) = menu_title (snd bfs) (mem w);
          m = gui_menu_set_title POS_TOP_LEFT (Some title) COLOR_HEADER 0x55000000 m;
          w = w\<lparr>hist := t, mem := mm\<rparr>
      in do {
        footer \<leftarrow> menu_footer e junk;
        let m = gui_menu_set_title POS_BOTTOM_LEFT (Some (text_of footer)) (footer_color (e_board e)) 0x55000000 m;
        Some \<lparr>r_gui = g\<lparr>g_widgets := [(m, fb)]\<rparr>, r_world = w, r_def = def, r_priv = priv, r_flips = 0,
          r_boot_sel = - 1, r_mode = STATE_MENU, r_end = e_clk e t + 10000000\<rparr>
      })"

definition boot_gui ::
  "gui_env \<Rightarrow> menu \<times> (nat \<Rightarrow> u32) \<Rightarrow> u8 list \<Rightarrow> 'c world \<Rightarrow> 'c gui_step option" where
  "boot_gui e alloc junk w = do {
     bfs \<leftarrow> (if emmc w \<noteq> None then emmc w else sd w);
     r \<leftarrow> gui_start e bfs alloc junk w;
     gui_loop e bfs r
   }"
end
