(* ===== verification/Boot_Menu.thy ===== *)
theory Boot_Menu
  imports Boot_Gui
begin

text \<open>
  Properties of the boot menu: what it lists, that its loop boots nothing else, what happens when
  the stored default is gone, and the mark of the privacy mode.
  A state in order (\<open>run_ok\<close>) is kept by every round; \<open>gui_reaches\<close> are the states that rounds
  lead to.
\<close>

section \<open>The items\<close>

definition ids :: "menu \<Rightarrow> int list" where
  "ids m = map (\<lambda>i. it_id (m_items m i)) [0..n_items m - 1]"

definition confs :: "mem \<Rightarrow> bootfs \<Rightarrow> nat list" where
  "confs mm fs = filter (is_conf mm fs) [0..<32]"

text \<open>What the menu offers: headers and separators are -2.\<close>

definition menu_ids :: "gui_env \<Rightarrow> 'c world \<Rightarrow> int list" where
  "menu_ids e w =
     (if emmc w \<noteq> None \<or> e_boot_source e \<noteq> 2
      then [- 2] @ (case emmc w of None \<Rightarrow> [] | Some (_, fs) \<Rightarrow> map int (confs (mem w) fs)) @
           (if e_boot_source e \<noteq> 2 then [BOOTSEL_EMMC] else []) @ [- 2]
      else []) @
     (case sd w of None \<Rightarrow> [] | Some (_, fs) \<Rightarrow> [- 2] @ map (\<lambda>i. int i + 32) (confs (mem w) fs) @ [- 2]) @
     [100, BOOTSEL_FEL, BOOTSEL_POWEROFF]"

lemma add_item_ids:
  assumes "0 \<le> n_items m"
  shows "ids (gui_menu_add_item k s fg afg m) = ids m @ [k]" "n_items (gui_menu_add_item k s fg afg m) = n_items m + 1"
  using assms by (auto simp: ids_def gui_menu_add_item_def Let_def upto_rec2)

lemma add_confs_ids:
  assumes "0 \<le> n_items m"
  shows "ids (fold (add_conf mm fs base) is m) = ids m @ map (\<lambda>i. int i + base) (filter (is_conf mm fs) is) \<and>
    n_items (fold (add_conf mm fs base) is m) = n_items m + int (length (filter (is_conf mm fs) is))"
  using assms
proof (induction "is" arbitrary: m)
  case (Cons i "is")
  let ?m = "add_conf mm fs base i m"
  have m: "ids ?m = ids m @ (if is_conf mm fs i then [int i + base] else [])"
    "n_items ?m = n_items m + (if is_conf mm fs i then 1 else 0)"
    using add_item_ids [OF Cons.prems] by (simp_all add: add_conf_def)
  then have "0 \<le> n_items ?m" using Cons.prems by simp
  from Cons.IH [OF this] m show ?case by simp
qed simp

lemma ids_set_active: "ids (set_item_active i a m) = ids m" "n_items (set_item_active i a m) = n_items m"
  by (auto simp: ids_def set_item_active_def)

lemma length_ids: "0 \<le> n_items m \<Longrightarrow> n_items m = int (length (ids m))"
  by (simp add: ids_def)

lemma emmc_items_ids:
  assumes "0 \<le> n_items m"
  shows "ids (add_emmc_items e w m) = ids m @
    (if emmc w \<noteq> None \<or> e_boot_source e \<noteq> 2
      then [- 2] @ (case emmc w of None \<Rightarrow> [] | Some (_, fs) \<Rightarrow> map int (confs (mem w) fs)) @
           (if e_boot_source e \<noteq> 2 then [BOOTSEL_EMMC] else []) @ [- 2]
      else []) \<and> 0 \<le> n_items (add_emmc_items e w m)"
  using assms by (auto simp: add_emmc_items_def Let_def add_item_ids add_confs_ids confs_def split: option.splits prod.splits)

lemma sd_items_ids:
  assumes "0 \<le> n_items m"
  shows "ids (add_sd_items w m) = ids m @
    (case sd w of None \<Rightarrow> [] | Some (_, fs) \<Rightarrow> [- 2] @ map (\<lambda>i. int i + 32) (confs (mem w) fs) @ [- 2]) \<and>
    0 \<le> n_items (add_sd_items w m)"
  using assms by (auto simp: add_sd_items_def Let_def add_item_ids add_confs_ids confs_def split: option.splits prod.splits)

lemma add_items_ids:
  assumes "n_items m = 0"
  shows "ids (fst (add_items e w p m)) = menu_ids e w" "n_items (fst (add_items e w p m)) = int (length (menu_ids e w))"
proof -
  have m0: "0 \<le> n_items m" "ids m = []" using assms by (simp_all add: ids_def)
  note a = emmc_items_ids [OF m0(1), of e w]
  note b = sd_items_ids [OF a [THEN conjunct2], of w]
  show "ids (fst (add_items e w p m)) = menu_ids e w"
    using a b m0(2) by (simp add: add_items_def Let_def add_item_ids ids_set_active menu_ids_def)
  moreover have "0 \<le> n_items (fst (add_items e w p m))"
    using b by (simp add: add_items_def Let_def add_item_ids ids_set_active)
  ultimately show "n_items (fst (add_items e w p m)) = int (length (menu_ids e w))"
    using length_ids by metis
qed

lemma menu_ids_iff:
  assumes "0 \<le> k" "k < 64"
  shows "k \<in> set (menu_ids e w) \<longleftrightarrow>
    (\<exists>c fs. (if k < 32 then emmc w else sd w) = Some (c, fs) \<and> is_conf (mem w) fs (nat (k mod 32)))"
proof -
  have low: "k \<in> int ` set (confs (mem w) fs) \<longleftrightarrow> k < 32 \<and> is_conf (mem w) fs (nat (k mod 32))" for fs
    using assms by (force simp: confs_def image_iff)
  have high: "k \<in> (\<lambda>i. int i + 32) ` set (confs (mem w) fs) \<longleftrightarrow> \<not> k < 32 \<and> is_conf (mem w) fs (nat (k mod 32))" for fs
  proof -
    have "\<not> k < 32 \<Longrightarrow> k mod 32 = k - 32" using assms by (auto simp: mod_pos_pos_trivial) presburger
    then show ?thesis using assms by (force simp: confs_def image_iff)
  qed
  show ?thesis
    using assms low high by (cases "emmc w"; cases "sd w") (auto simp: menu_ids_def BOOTSEL_EMMC_def BOOTSEL_FEL_def BOOTSEL_POWEROFF_def split: option.splits if_splits)
qed

text \<open>
  C11: The menu lists the configurations of the eMMC under their own numbers and those of the SD
  card from 32 on, each block with the magic exactly once and in order, between headers that cannot
  be selected; the two special boots and the privacy switch follow. With more than 56
  configurations on both cards the items no longer fit their array of 64.
\<close>

theorem boot_menu_items:
  assumes "n_items m = 0"
  shows "ids (fst (add_items e w p m)) = menu_ids e w \<and>
    (0 \<le> k \<and> k < 64 \<longrightarrow> (k \<in> set (menu_ids e w) \<longleftrightarrow>
       (\<exists>c fs. (if k < 32 then emmc w else sd w) = Some (c, fs) \<and> is_conf (mem w) fs (nat (k mod 32))))) \<and>
    (\<forall>c fs c' fs'. emmc w = Some (c, fs) \<and> sd w = Some (c', fs') \<and> e_boot_source e = 0 \<longrightarrow>
       n_items (fst (add_items e w p m)) = 8 + int (length (confs (mem w) fs)) + int (length (confs (mem w) fs')))"
proof (intro conjI impI allI)
  show "ids (fst (add_items e w p m)) = menu_ids e w" by (rule add_items_ids [OF assms])
next
  assume "0 \<le> k \<and> k < 64"
  then show "k \<in> set (menu_ids e w) \<longleftrightarrow>
       (\<exists>c fs. (if k < 32 then emmc w else sd w) = Some (c, fs) \<and> is_conf (mem w) fs (nat (k mod 32)))"
    by (intro menu_ids_iff) simp_all
next
  fix c fs c' fs'
  assume "emmc w = Some (c, fs) \<and> sd w = Some (c', fs') \<and> e_boot_source e = 0"
  then show "n_items (fst (add_items e w p m)) = 8 + int (length (confs (mem w) fs)) + int (length (confs (mem w) fs'))"
    by (simp add: add_items_ids(2) [OF assms] menu_ids_def)
qed

section \<open>What the rounds keep\<close>

text \<open>The selected item can be selected; every listed configuration is on a card that was found.\<close>

definition listed :: "menu \<Rightarrow> 'c world \<Rightarrow> int \<Rightarrow> bool" where
  "listed m w k \<longleftrightarrow> k \<in> set (ids m) \<and> 0 \<le> k \<and> k < 64 \<and> conf_block k w \<noteq> None"

definition run_menu_ok :: "menu \<Rightarrow> 'c world \<Rightarrow> bool" where
  "run_menu_ok m w \<longleftrightarrow> menu_ok m \<and> 0 \<le> gui_menu_get_selection m \<and>
     (\<forall>k \<in> set (ids m). 0 \<le> k \<and> k < 64 \<longrightarrow> conf_block k w \<noteq> None)"

definition run_ok :: "int list \<Rightarrow> 'c gui_run \<Rightarrow> bool" where
  "run_ok L r \<longleftrightarrow> ids (the_menu (r_gui r)) = L \<and> length (g_widgets (r_gui r)) = 1 \<and> run_menu_ok (the_menu (r_gui r)) (r_world r) \<and>
     (r_mode r = STATE_BOOT \<longrightarrow> listed (the_menu (r_gui r)) (r_world r) (r_boot_sel r))"

lemma selection_listed:
  assumes "run_menu_ok m w"
  shows "gui_menu_get_selection m \<in> set (ids m)"
    "gui_menu_get_selection m < 64 \<Longrightarrow> listed m w (gui_menu_get_selection m)"
proof -
  show "gui_menu_get_selection m \<in> set (ids m)"
    using assms by (auto simp: run_menu_ok_def menu_ok_def ids_def gui_menu_get_selection_def)
  then show "gui_menu_get_selection m < 64 \<Longrightarrow> listed m w (gui_menu_get_selection m)"
    using assms by (auto simp: run_menu_ok_def listed_def)
qed

text \<open>The rounds change the menu in ways that keep this: only ids, selection and cards matter.\<close>

lemma run_menu_ok_cong:
  assumes "n_items m' = n_items m" "\<And>i. it_id (m_items m' i) = it_id (m_items m i)" "selection m' = selection m"
    "emmc w' = emmc w" "sd w' = sd w"
  shows "run_menu_ok m' w' = run_menu_ok m w" "listed m' w' k = listed m w k" "ids m' = ids m"
  using assms by (simp_all add: run_menu_ok_def listed_def menu_ok_def ids_def gui_menu_get_selection_def conf_block_def)

lemma menu_select_keeps:
  assumes "menu_ok m" "menu_select evs m = Some m1" "0 \<le> gui_menu_get_selection m"
  shows "menu_ok m1" "0 \<le> gui_menu_get_selection m1" "n_items m1 = n_items m" "m_items m1 = m_items m"
proof -
  obtain k where "m1 = m\<lparr>selection_changed := False\<rparr> \<or>
      m1 = m\<lparr>selection := around m (pressed evs) k, changed := True, selection_changed := True\<rparr> \<and>
      0 \<le> it_id (m_items m (around m (pressed evs) k))"
    using menu_select_result [OF assms(1), of evs] assms(2) by (auto split: if_splits)
  then show "menu_ok m1" "0 \<le> gui_menu_get_selection m1" "n_items m1 = n_items m" "m_items m1 = m_items m"
    using assms(1,3) around_range [OF assms(1)] by (auto simp: menu_ok_def gui_menu_get_selection_def)
qed

lemma update_keeps:
  assumes "run_menu_ok m w"
  shows "\<exists>m' d' fb'. gui_menu_update evs m d fb = Some (m', d', fb') \<and> run_menu_ok m' w \<and> ids m' = ids m"
proof -
  have ok: "menu_ok m" "0 \<le> gui_menu_get_selection m" using assms by (auto simp: run_menu_ok_def)
  obtain m1 where m1: "menu_select evs m = Some m1" using menu_select_result [OF ok(1), of evs] by blast
  note k = menu_select_keeps [OF ok(1) m1 ok(2)]
  obtain d' fb' where up: "gui_menu_update evs m d fb = Some (redrawn (menu_scroll m1), d', fb')"
    using update_Some [OF m1] by blast
  have same: "ids (redrawn (menu_scroll m1)) = ids m1" "menu_ok (redrawn (menu_scroll m1)) = menu_ok m1"
    "gui_menu_get_selection (redrawn (menu_scroll m1)) = gui_menu_get_selection m1"
    by (simp_all add: redrawn_def ids_def menu_ok_def gui_menu_get_selection_def menu_draw_frame menu_scroll_frame)
  moreover have "ids m1 = ids m" using k by (simp add: ids_def)
  ultimately show ?thesis
    using up k assms by (auto simp: run_menu_ok_def)
qed

lemma get_events_shape:
  "\<exists>g1 t1. g_widgets g1 = g_widgets g \<and> gui_get_events d clk g t =
     Option.bind (update_widgets (g_events g1) (g_widgets g1) (g_display g1)) (\<lambda>(ws, dp). Some (g1\<lparr>g_widgets := ws, g_display := dp\<rparr>, t1))"
proof -
  have volume: "g_widgets (volume_events k n l g) = g_widgets g" for k n l g
    by (simp add: volume_events_def Let_def)
  obtain dn t1 where a: "display_frame_done d t = (dn, t1)" by fastforce
  obtain evs t2 where b: "power_events d (if dn then {EV_VBLANK} else {}) t1 = (evs, t2)" by fastforce
  obtain key t3 where c: "lradc_get_pressed_key d t2 = (key, t3)" by fastforce
  let ?g1 = "(volume_events key (clk t) (clk t3) (g\<lparr>g_events := evs\<rparr>))\<lparr>g_now := clk t\<rparr>"
  have "gui_get_events d clk g t =
     Option.bind (update_widgets (g_events ?g1) (g_widgets ?g1) (g_display ?g1)) (\<lambda>(ws, dp). Some (?g1\<lparr>g_widgets := ws, g_display := dp\<rparr>, t3))"
    by (simp add: gui_get_events_def a b c Let_def)
  moreover have "g_widgets ?g1 = g_widgets g" by (simp add: volume)
  ultimately show ?thesis by blast
qed

lemma get_events_keeps:
  assumes "length (g_widgets g) = 1" "run_menu_ok (the_menu g) w"
  shows "\<exists>g' t'. gui_get_events d clk g t = Some (g', t') \<and> length (g_widgets g') = 1 \<and> run_menu_ok (the_menu g') w \<and>
    ids (the_menu g') = ids (the_menu g)"
proof -
  obtain m fb where ws: "g_widgets g = [(m, fb)]"
    using assms(1) by (cases "g_widgets g"; cases "hd (g_widgets g)") auto
  then have m: "run_menu_ok m w" "the_menu g = m" using assms(2) by (simp_all add: the_menu_def)
  have step: "\<exists>m' dp' fb'. update_widgets evs [(m, fb)] dp = Some ([(m', fb')], dp') \<and> run_menu_ok m' w \<and> ids m' = ids m" for evs dp
    using update_keeps [OF m(1), of evs dp fb] m(1) by (cases "m_disabled m") auto
  obtain g1 t1 where g1: "g_widgets g1 = [(m, fb)]" "gui_get_events d clk g t =
      Option.bind (update_widgets (g_events g1) (g_widgets g1) (g_display g1)) (\<lambda>(ws, dp). Some (g1\<lparr>g_widgets := ws, g_display := dp\<rparr>, t1))"
    using get_events_shape [where d = d and clk = clk and g = g and t = t] ws by metis
  obtain m' dp' fb' where "update_widgets (g_events g1) [(m, fb)] (g_display g1) = Some ([(m', fb')], dp')"
      "run_menu_ok m' w" "ids m' = ids m"
    using step by blast
  then show ?thesis
    by (simp add: g1 the_menu_def m(2) [unfolded the_menu_def])
qed

section \<open>Rounds\<close>

named_theorems cards

lemma cards_more: "store.more w' = store.more w \<Longrightarrow> emmc w' = emmc w \<and> sd w' = sd w"
  by (cases w; cases w') simp

lemma load_image_more [frame]: "store.more (snd (bootfs_load_image m fs dest off len s)) = store.more s"
  by (simp add: bootfs_load_image_def split_beta Let_def mmc_read_data_frame)

lemma load_file_more [frame]: "store.more (snd (bootfs_load_file m fs dest name s)) = store.more s"
  by (auto simp: bootfs_load_file_def frame split: option.splits)

lemma load_named_cards [cards]: "emmc (load_named bfs name w) = emmc w" "sd (load_named bfs name w) = sd w"
  using cards_more [OF load_file_more, of "fst bfs" "snd bfs" SPLASH_FB name w] by (simp_all add: load_named_def)

lemma load_splash_cards [cards]: "emmc (snd (load_splash m fs no dest w)) = emmc w" "sd (snd (load_splash m fs no dest w)) = sd w"
proof -
  have "store.more (snd (load_splash m fs no dest w)) = store.more w"
    by (auto simp: load_splash_def frame split_beta Let_def split: option.splits)
  then show "emmc (snd (load_splash m fs no dest w)) = emmc w" "sd (snd (load_splash m fs no dest w)) = sd w"
    using cards_more by blast+
qed

lemma on_hist_cards [cards]: "emmc (on_hist f w) = emmc w" "sd (on_hist f w) = sd w"
  by (simp_all add: on_hist_def)

lemma conf_block_cong: "emmc w' = emmc w \<Longrightarrow> sd w' = sd w \<Longrightarrow> conf_block k w' = conf_block k w"
  by (simp add: conf_block_def)

text \<open>Changes of the state that do not touch what \<open>run_ok\<close> says.\<close>

lemma run_ok_cong:
  assumes "run_ok L r" "length (g_widgets (r_gui r')) = 1" "emmc (r_world r') = emmc (r_world r)" "sd (r_world r') = sd (r_world r)"
    "n_items (the_menu (r_gui r')) = n_items (the_menu (r_gui r))" "selection (the_menu (r_gui r')) = selection (the_menu (r_gui r))"
    "\<And>i. it_id (m_items (the_menu (r_gui r')) i) = it_id (m_items (the_menu (r_gui r)) i)"
    "r_mode r' = STATE_BOOT \<Longrightarrow> r_mode r = STATE_BOOT \<and> r_boot_sel r' = r_boot_sel r"
  shows "run_ok L r'"
  using assms run_menu_ok_cong [OF assms(5,7,6,3,4)] by (simp add: run_ok_def)

lemma round_vblank_keeps:
  assumes "run_ok L r"
  shows "round_vblank e bfs r = Some (Inr r') \<Longrightarrow> run_ok L r' \<and> r_mode r' = STATE_MENU"
    "round_vblank e bfs r = None \<Longrightarrow> r_mode r = STATE_BOOT \<and> gui_boot e (r_boot_sel r) (r_gui r) (r_world r) = None"
proof -
  have len: "length (g_widgets (r_gui r)) = 1" using assms by (simp add: run_ok_def)
  show "run_ok L r' \<and> r_mode r' = STATE_MENU" if r': "round_vblank e bfs r = Some (Inr r')"
  proof
    have "r_gui r' = r_gui r \<and> emmc (r_world r') = emmc (r_world r) \<and> sd (r_world r') = sd (r_world r) \<and> r_mode r' = STATE_MENU"
      using r' by (auto simp: round_vblank_def Let_def cards bind_eq_Some_conv split: gui_mode.splits)
    then show "run_ok L r'" "r_mode r' = STATE_MENU" using run_ok_cong [OF assms, of r'] len by simp_all
  qed
  show "r_mode r = STATE_BOOT \<and> gui_boot e (r_boot_sel r) (r_gui r) (r_world r) = None" if "round_vblank e bfs r = None"
    using that by (cases "gui_boot e (r_boot_sel r) (r_gui r) (r_world r)")
      (auto simp: round_vblank_def Let_def split: gui_mode.splits)
qed

lemma round_deadline_parts:
  "\<exists>en md. round_deadline e r = r\<lparr>r_end := en, r_mode := md\<rparr> \<and> (md = r_mode r \<or> md = STATE_OFF)"
proof -
  have same: "r = r\<lparr>r_end := r_end r, r_mode := r_mode r\<rparr>" by simp
  define en where "en = (if g_events (r_gui r) - {EV_VBLANK} \<noteq> {} then e_clk e (hist (r_world r)) + 10000000 else r_end r)"
  have "(if g_events (r_gui r) - {EV_VBLANK} \<noteq> {} then r\<lparr>r_end := e_clk e (hist (r_world r)) + 10000000\<rparr> else r) = r\<lparr>r_end := en\<rparr>"
    by (simp add: en_def)
  then have "round_deadline e r = r\<lparr>r_end := en, r_mode := if en < g_now (r_gui r) then STATE_OFF else r_mode r\<rparr>"
    by (simp add: round_deadline_def Let_def)
  then show ?thesis by (intro exI conjI, assumption) simp
qed

lemma round_deadline_keeps: "run_ok L r \<Longrightarrow> run_ok L (round_deadline e r)"
  using round_deadline_parts [of e r] by (elim exE conjE) (auto simp: run_ok_def)

lemma round_preview_keeps:
  assumes "run_ok L r"
  shows "\<exists>r'. round_preview bfs r = Some r' \<and> run_ok L r' \<and> r_mode r' = r_mode r"
proof -
  let ?m = "the_menu (r_gui r)"
  let ?k = "gui_menu_get_selection ?m"
  have ok: "run_menu_ok ?m (r_world r)" using assms by (simp add: run_ok_def)
  have keep: "run_ok L (r\<lparr>r_world := w\<rparr>)" if "emmc w = emmc (r_world r)" "sd w = sd (r_world r)" for w
    using assms by (rule run_ok_cong) (use assms that in \<open>auto simp: run_ok_def\<close>)
  have block: "\<exists>c fs no. conf_block ?k (r_world r) = Some ((c, fs), no)" if "?k < 64"
    using selection_listed(2) [OF ok that] by (auto simp: listed_def)
  show ?thesis
    using assms block by (auto simp: round_preview_def Let_def split_beta cards intro!: keep)
qed

lemma the_menu_on_menu: "length (g_widgets g) = 1 \<Longrightarrow> the_menu (on_menu f g) = f (the_menu g)"
  "length (g_widgets (on_menu f g)) = length (g_widgets g)"
  by (auto simp: the_menu_def on_menu_def length_Suc_conv split: list.splits)

lemma set_active_ids: "it_id (m_items (gui_menu_set_active k m) i) = it_id (m_items m i)"
  "n_items (gui_menu_set_active k m) = n_items m" "selection (gui_menu_set_active k m) = selection m"
proof -
  have "it_id (fold (\<lambda>i items. if it_id (items i) < 67 then items(i := (items i)\<lparr>it_active := (it_id (items i) = k)\<rparr>) else items) is items i) = it_id (items i)"
    for "is" :: "int list" and items i
    by (induction "is" arbitrary: items) auto
  then show "it_id (m_items (gui_menu_set_active k m) i) = it_id (m_items m i)"
    by (simp add: gui_menu_set_active_def Let_def)
qed (simp_all add: gui_menu_set_active_def Let_def)

lemma round_long_press_keeps:
  assumes "run_ok L r"
  shows "run_ok L (round_long_press e r)" "r_mode (round_long_press e r) = r_mode r" "g_events (r_gui (round_long_press e r)) = g_events (r_gui r)"
proof -
  have "length (g_widgets (r_gui r)) = 1" using assms by (simp add: run_ok_def)
  note m = the_menu_on_menu(1) [OF this] the_menu_on_menu(2) this
  show mode: "r_mode (round_long_press e r) = r_mode r" "g_events (r_gui (round_long_press e r)) = g_events (r_gui r)"
    by (simp_all add: round_long_press_def Let_def on_menu_def)
  have "r_boot_sel (round_long_press e r) = r_boot_sel r"
    by (simp add: round_long_press_def Let_def)
  then show "run_ok L (round_long_press e r)"
    using assms by (intro run_ok_cong [OF assms])
      (simp_all only: mode simp_thms, simp_all add: round_long_press_def Let_def cards m set_item_active_def set_active_ids)
qed

lemma round_short_press_keeps:
  assumes "run_ok L r"
  shows "round_short_press e r = Continue r' \<Longrightarrow> run_ok L r'" "round_short_press e r \<noteq> Booted res w"
proof -
  have ok: "run_menu_ok (the_menu (r_gui r)) (r_world r)" using assms by (simp add: run_ok_def)
  show "round_short_press e r = Continue r' \<Longrightarrow> run_ok L r'"
    using assms selection_listed(2) [OF ok]
    by (auto simp: round_short_press_def run_ok_def Let_def split: if_splits)
  show "round_short_press e r \<noteq> Booted res w"
    by (simp add: round_short_press_def Let_def)
qed

text \<open>A run of rounds that stay in the loop.\<close>

inductive gui_reaches :: "gui_env \<Rightarrow> 'c mmc \<times> bootfs \<Rightarrow> 'c gui_run \<Rightarrow> 'c gui_run \<Rightarrow> bool" for e bfs where
  start: "gui_reaches e bfs r r"
| step: "gui_reaches e bfs r0 r \<Longrightarrow> gui_round e bfs r = Some (Continue r') \<Longrightarrow> gui_reaches e bfs r0 r'"

lemma gui_reaches_trans: "gui_reaches e bfs r1 r2 \<Longrightarrow> gui_reaches e bfs r0 r1 \<Longrightarrow> gui_reaches e bfs r0 r2"
  by (induction rule: gui_reaches.induct) (auto intro: gui_reaches.step)

text \<open>A round after its events.\<close>

definition round_start :: "gui_env \<Rightarrow> 'c gui_run \<Rightarrow> 'c gui_run" where
  "round_start e r = (let (g, t) = the (gui_get_events (e_dev e) (e_clk e) (r_gui r) (hist (r_world r)))
     in r\<lparr>r_gui := g, r_world := (r_world r)\<lparr>hist := t\<rparr>\<rparr>)"

lemma round_unfold:
  assumes "run_ok L r"
  shows "run_ok L (round_start e r)" "r_mode (round_start e r) = r_mode r" "r_boot_sel (round_start e r) = r_boot_sel r"
    "emmc (r_world (round_start e r)) = emmc (r_world r)" "sd (r_world (round_start e r)) = sd (r_world r)"
    "ids (the_menu (r_gui (round_start e r))) = ids (the_menu (r_gui r))"
    "gui_round e bfs r = do {
       x \<leftarrow> (if EV_VBLANK \<in> g_events (r_gui (round_start e r)) then round_vblank e bfs (round_start e r) else Some (Inr (round_start e r)));
       case x of Inl s \<Rightarrow> Some s
       | Inr r \<Rightarrow> do { r \<leftarrow> round_preview bfs (round_deadline e r); Some (round_short_press e (round_long_press e r)) } }"
proof -
  have r: "length (g_widgets (r_gui r)) = 1" "run_menu_ok (the_menu (r_gui r)) (r_world r)"
    using assms by (simp_all add: run_ok_def)
  obtain g t where ev: "gui_get_events (e_dev e) (e_clk e) (r_gui r) (hist (r_world r)) = Some (g, t)" "length (g_widgets g) = 1"
      "run_menu_ok (the_menu g) (r_world r)" "ids (the_menu g) = ids (the_menu (r_gui r))"
    using get_events_keeps [OF r, of "e_dev e" "e_clk e" "hist (r_world r)"] by blast
  then have s: "round_start e r = r\<lparr>r_gui := g, r_world := (r_world r)\<lparr>hist := t\<rparr>\<rparr>" by (simp add: round_start_def)
  then show "r_mode (round_start e r) = r_mode r" "r_boot_sel (round_start e r) = r_boot_sel r"
    "emmc (r_world (round_start e r)) = emmc (r_world r)" "sd (r_world (round_start e r)) = sd (r_world r)"
    "ids (the_menu (r_gui (round_start e r))) = ids (the_menu (r_gui r))"
    using ev(4) by simp_all
  have hist_block: "conf_block k ((r_world r)\<lparr>hist := t\<rparr>) = conf_block k (r_world r)" for k
    by (rule conf_block_cong) simp_all
  show "run_ok L (round_start e r)"
    using assms ev(2-4) by (auto simp: s run_ok_def listed_def run_menu_ok_def hist_block)
  show "gui_round e bfs r = do {
       x \<leftarrow> (if EV_VBLANK \<in> g_events (r_gui (round_start e r)) then round_vblank e bfs (round_start e r) else Some (Inr (round_start e r)));
       case x of Inl s \<Rightarrow> Some s
       | Inr r \<Rightarrow> do { r \<leftarrow> round_preview bfs (round_deadline e r); Some (round_short_press e (round_long_press e r)) } }"
    by (simp add: gui_round_def ev(1) s)
qed

text \<open>What a round can do from a state in order.\<close>

definition step_ok :: "int list \<Rightarrow> gui_env \<Rightarrow> 'c gui_run \<Rightarrow> 'c gui_step option \<Rightarrow> bool" where
  "step_ok L e r x =
     (case x of
        None \<Rightarrow> r_mode r = STATE_BOOT \<and> (\<exists>b no w. conf_block (r_boot_sel r) (r_world r) = Some (b, no) \<and> boot_selection e b no SPLASH_FB w = None)
      | Some (Continue r') \<Rightarrow> run_ok L r'
      | Some (Booted res w') \<Rightarrow> r_mode r = STATE_BOOT \<and>
          (\<exists>b no w. conf_block (r_boot_sel r) (r_world r) = Some (b, no) \<and> boot_selection e b no SPLASH_FB w = Some (res, w'))
      | Some _ \<Rightarrow> True)"

lemma gui_boot_cases:
  assumes "conf_block k w \<noteq> None"
  shows "\<exists>b no w'. conf_block k w = Some (b, no) \<and> gui_boot e k g w = boot_selection e b no SPLASH_FB w'"
  using assms by (auto simp: gui_boot_def Let_def)

lemma gui_round_ok:
  assumes "run_ok L r"
  shows "step_ok L e r (gui_round e bfs r)"
proof -
  let ?r = "round_start e r"
  note u = round_unfold(1-6) [OF assms, of e] round_unfold(7) [OF assms, of e bfs]
  have rest: "step_ok L e r (do { r \<leftarrow> round_preview bfs (round_deadline e r1); Some (round_short_press e (round_long_press e r)) })"
    if r1: "run_ok L r1" for r1
  proof -
    obtain r2 where r2: "round_preview bfs (round_deadline e r1) = Some r2" "run_ok L r2"
      using round_preview_keeps [OF round_deadline_keeps [OF r1]] by blast
    then show ?thesis
      using round_short_press_keeps [OF round_long_press_keeps(1) [OF r2(2), of e]]
      by (auto simp: step_ok_def split: gui_step.splits)
  qed
  show ?thesis
  proof (cases "EV_VBLANK \<in> g_events (r_gui ?r)")
    case False
    then show ?thesis using rest [OF u(1)] by (simp add: u(7))
  next
    case True
    show ?thesis
    proof (cases "round_vblank e bfs ?r")
      case None
      note n = round_vblank_keeps(2) [OF u(1) None]
      then have "conf_block (r_boot_sel r) (r_world ?r) \<noteq> None"
        using u(1-3) by (auto simp: run_ok_def listed_def)
      from gui_boot_cases [OF this] obtain b no w' where b: "conf_block (r_boot_sel r) (r_world ?r) = Some (b, no)"
          "gui_boot e (r_boot_sel r) (r_gui ?r) (r_world ?r) = boot_selection e b no SPLASH_FB w'" by blast
      then have "conf_block (r_boot_sel r) (r_world r) = Some (b, no)" "boot_selection e b no SPLASH_FB w' = None"
        using n u(3) conf_block_cong [OF u(4,5)] by simp_all
      then show ?thesis
        using None True n u(2) by (auto simp: u(7) step_ok_def)
    next
      case (Some x)
      show ?thesis
      proof (cases x)
        case (Inr r1)
        then show ?thesis
          using rest round_vblank_keeps(1) [OF u(1)] Some True by (simp add: u(7))
      next
        case (Inl s)
        have "step_ok L e r (Some s)"
        proof (cases "r_mode r")
          case STATE_BOOT
          then have "conf_block (r_boot_sel r) (r_world ?r) \<noteq> None"
            using u(1-3) by (auto simp: run_ok_def listed_def)
          from gui_boot_cases [OF this, of e "r_gui ?r"] show ?thesis
            using Some Inl STATE_BOOT u(2,3) conf_block_cong [OF u(4,5)]
            by (auto simp: round_vblank_def step_ok_def bind_eq_Some_conv split: prod.splits)
        qed (use Some Inl u(2) in \<open>auto simp: round_vblank_def step_ok_def Let_def\<close>)
        then show ?thesis using Some Inl True by (simp add: u(7))
      qed
    qed
  qed
qed

lemma reaches_ok: "gui_reaches e bfs r0 r \<Longrightarrow> run_ok L r0 \<Longrightarrow> run_ok L r"
proof (induction rule: gui_reaches.induct)
  case (step r0 r r')
  then show ?case using gui_round_ok [of L r e bfs] by (simp add: step_ok_def)
qed

lemma reaches_loop: "gui_reaches e bfs r0 r \<Longrightarrow> gui_loop e bfs r0 = gui_loop e bfs r"
proof (induction rule: gui_reaches.induct)
  case (step r0 r r')
  then show ?case by (subst (asm) (2) gui_loop.simps) simp
qed simp

lemma round_cards:
  assumes "gui_round e bfs r = Some (Continue r')" "run_ok L r"
  shows "emmc (r_world r') = emmc (r_world r) \<and> sd (r_world r') = sd (r_world r)"
proof -
  note u = round_unfold(1-6) [OF assms(2), of e] round_unfold(7) [OF assms(2), of e bfs]
  have short: "round_short_press e r = Continue r' \<Longrightarrow> r_world r' = r_world r" for r
    by (auto simp: round_short_press_def Let_def split: if_splits)
  have long: "emmc (r_world (round_long_press e r)) = emmc (r_world r)" "sd (r_world (round_long_press e r)) = sd (r_world r)" for r :: "'a gui_run"
    by (simp_all add: round_long_press_def Let_def cards)
  have preview: "emmc (r_world r2) = emmc (r_world r1) \<and> sd (r_world r2) = sd (r_world r1)" if "round_preview bfs r1 = Some r2" for r1 r2
    using that by (auto simp: round_preview_def Let_def split_beta cards bind_eq_Some_conv split: if_splits)
  have deadline: "r_world (round_deadline e r) = r_world r" for r :: "'a gui_run"
    using round_deadline_parts [of e r] by auto
  have vblank: "emmc (r_world r2) = emmc (r_world r1) \<and> sd (r_world r2) = sd (r_world r1)" if "round_vblank e bfs r1 = Some (Inr r2)" for r1 r2
    using that by (auto simp: round_vblank_def Let_def cards bind_eq_Some_conv split: gui_mode.splits)
  obtain x where x: "(if EV_VBLANK \<in> g_events (r_gui (round_start e r)) then round_vblank e bfs (round_start e r) else Some (Inr (round_start e r))) = Some x"
    using assms(1) u(7) by (auto simp: bind_eq_Some_conv)
  show ?thesis
  proof (cases x)
    case (Inl s)
    then have "s = Continue r'" using assms(1) u(7) x by simp
    then show ?thesis
      using x Inl by (auto simp: round_vblank_def Let_def bind_eq_Some_conv split: if_splits gui_mode.splits)
  next
    case (Inr r1)
    obtain r2 where r2: "round_preview bfs (round_deadline e r1) = Some r2" "round_short_press e (round_long_press e r2) = Continue r'"
      using assms(1) u(7) x Inr by (auto simp: bind_eq_Some_conv)
    have "emmc (r_world r1) = emmc (r_world r) \<and> sd (r_world r1) = sd (r_world r)"
      using x Inr vblank u(4,5) by (auto split: if_splits)
    then show ?thesis
      using short [OF r2(2)] long [of r2] preview [OF r2(1)] deadline [of r1] by simp
  qed
qed

lemma reaches_cards:
  "gui_reaches e bfs r0 r \<Longrightarrow> run_ok L r0 \<Longrightarrow> emmc (r_world r) = emmc (r_world r0) \<and> sd (r_world r) = sd (r_world r0)"
proof (induction rule: gui_reaches.induct)
  case (step r0 r r')
  then show ?case using round_cards [OF step.hyps(2) reaches_ok [OF step.hyps(1) step.prems]] by simp
qed simp

section \<open>The start\<close>

lemma set_selection_listed:
  assumes "k \<in> set (ids m)"
  shows "menu_ok (gui_menu_set_selection k m)" "gui_menu_get_selection (gui_menu_set_selection k m) = k"
proof -
  have "\<exists>i. find (\<lambda>i. it_id (m_items m i) = k) [0..n_items m - 1] = Some i"
    using assms by (auto simp: ids_def find_None_iff simp flip: not_None_eq)
  then obtain i where i: "find (\<lambda>i. it_id (m_items m i) = k) [0..n_items m - 1] = Some i" by blast
  then have "it_id (m_items m i) = k" "0 \<le> i" "i < n_items m" by (auto simp: find_Some_iff in_set_conv_nth)
  with i show "menu_ok (gui_menu_set_selection k m)" "gui_menu_get_selection (gui_menu_set_selection k m) = k"
    by (simp_all add: gui_menu_set_selection_def gui_menu_get_selection_def menu_ok_def)
qed

lemma set_selection_missing: "k \<notin> set (ids m) \<Longrightarrow> gui_menu_set_selection k m = m"
proof -
  assume "k \<notin> set (ids m)"
  then have "find (\<lambda>i. it_id (m_items m i) = k) [0..n_items m - 1] = None"
    by (auto simp: ids_def find_None_iff)
  then show ?thesis by (simp add: gui_menu_set_selection_def)
qed

lemma set_selection_ids: "ids (gui_menu_set_selection k m) = ids m"
  by (auto simp: gui_menu_set_selection_def ids_def split: option.splits)

lemma set_title_keeps:
  "ids (gui_menu_set_title p s fg bg m) = ids m" "menu_ok (gui_menu_set_title p s fg bg m) = menu_ok m"
  "gui_menu_get_selection (gui_menu_set_title p s fg bg m) = gui_menu_get_selection m"
  by (auto simp: gui_menu_set_title_def ids_def menu_ok_def gui_menu_get_selection_def Let_def split: option.splits)

text \<open>The item that the menu should start on.\<close>

definition wanted :: "'c gui_run \<Rightarrow> int" where
  "wanted r = (if r_def r \<ge> 0 then r_def r else if emmc (r_world r) = None then 32 else 0)"

lemma set_active_menu_ids: "ids (gui_menu_set_active k m) = ids m"
  by (simp add: ids_def set_active_ids)

lemma select_default_ids: "ids (select_default def b m) = ids m"
  by (simp add: select_default_def set_selection_ids set_active_menu_ids)

lemma select_default_keeps:
  "(if def \<ge> 0 then def else if b then 32 else 0) \<in> set (ids m) \<Longrightarrow>
     menu_ok (select_default def b m) \<and> gui_menu_get_selection (select_default def b m) = (if def \<ge> 0 then def else if b then 32 else 0)"
  "(if def \<ge> 0 then def else if b then 32 else 0) \<notin> set (ids m) \<Longrightarrow>
     gui_menu_get_selection (select_default def b m) = gui_menu_get_selection m"
  using set_selection_listed [of def "gui_menu_set_active def m"] set_selection_listed [of 32 m] set_selection_listed [of 0 m]
    set_selection_missing [of def "gui_menu_set_active def m"] set_selection_missing [of 32 m] set_selection_missing [of 0 m]
  by (auto simp: select_default_def set_active_menu_ids gui_menu_get_selection_def set_active_ids split: if_splits)

lemma add_items_selection: "selection (fst (add_items e w p m)) = selection m"
proof -
  have add: "selection (gui_menu_add_item k s f a m) = selection m" for k s f a m
    by (simp add: gui_menu_add_item_def Let_def)
  have confs: "selection (fold (add_conf mm fs base) is m) = selection m" for mm fs base "is" m
    by (induction "is" arbitrary: m) (simp_all add: add_conf_def add)
  show ?thesis
    by (auto simp: add_items_def add_emmc_items_def add_sd_items_def set_item_active_def add confs Let_def split: option.splits prod.splits)
qed

text \<open>
  What the first state looks like; the items are made with the background picture in memory.
\<close>

definition menu_world :: "gui_env \<Rightarrow> 'c mmc \<times> bootfs \<Rightarrow> 'c world \<Rightarrow> 'c world" where
  "menu_world e bfs w = load_named bfs (bytes ''pboot2.argb'') (on_hist (exec (e_dev e) wdog_disable) w)"

lemma gui_start_shape:
  assumes "gui_start e bfs (m, fb) junk w = Some r" "n_items m = 0" "selection m = 0"
  shows "\<exists>w1. w1 = menu_world e bfs w \<and> emmc w1 = emmc w \<and> sd w1 = sd w \<and> (\<exists>t. r_def r = fst (rtc_bootsel_get (e_dev e) t)) \<and> ids (the_menu (r_gui r)) = menu_ids e w1 \<and> length (g_widgets (r_gui r)) = 1 \<and>
    emmc (r_world r) = emmc w \<and> sd (r_world r) = sd w \<and> r_mode r = STATE_MENU \<and>
    (wanted r \<in> set (menu_ids e w1) \<longrightarrow> menu_ok (the_menu (r_gui r)) \<and> gui_menu_get_selection (the_menu (r_gui r)) = wanted r) \<and>
    (wanted r \<notin> set (menu_ids e w1) \<longrightarrow> gui_menu_get_selection (the_menu (r_gui r)) = hd (menu_ids e w1))"
proof -
  define w1 where "w1 = menu_world e bfs w"
  note w1_def = w1_def [unfolded menu_world_def]
  have c1: "emmc w1 = emmc w" "sd w1 = sd w" by (simp_all add: w1_def cards)
  obtain g t where g: "gui_init (e_dev e) (e_clk e) \<lparr>planes = [background, plane_zero, plane_zero]\<rparr> gui_zero (hist w1) = (g, t)" by fastforce
  obtain def t1 where d: "rtc_bootsel_get (e_dev e) (display_commit (e_resize e) (g_display g) t) = (def, t1)" by fastforce
  obtain p t2 where p: "rtc_get_flag (e_dev e) (push_bit 0 1) t1 = (p, t2)" by fastforce
  obtain m1 priv where m1: "add_items e w1 p m = (m1, priv)" by fastforce
  obtain title mm where mt: "menu_title (snd bfs) (mem w1) = (title, mm)" by fastforce
  let ?m2 = "gui_menu_set_title POS_TOP_LEFT (Some title) COLOR_HEADER 0x55000000 (select_default def (emmc w1 = None) m1)"
  obtain footer where f: "menu_footer e junk = Some footer"
    and r: "r = \<lparr>r_gui = g\<lparr>g_widgets := [(gui_menu_set_title POS_BOTTOM_LEFT (Some (text_of footer)) (footer_color (e_board e)) 0x55000000 ?m2, fb)]\<rparr>,
      r_world = w1\<lparr>hist := t2, mem := mm\<rparr>, r_def = def, r_priv = priv, r_flips = 0, r_boot_sel = - 1, r_mode = STATE_MENU, r_end = e_clk e t2 + 10000000\<rparr>"
    using assms(1) unfolding gui_start_def Let_def w1_def [symmetric] prod.case g d p m1 mt
    by (auto simp: bind_eq_Some_conv)
  have ids1: "ids m1 = menu_ids e w1" using add_items_ids(1) [OF assms(2), of e w1 p] by (simp add: m1)
  have n1: "menu_ids e w1 \<noteq> []" by (simp add: menu_ids_def)
  have "selection m1 = 0" using add_items_selection [of e w1 p m] assms(3) by (simp add: m1)
  moreover have "0 < n_items m1" using n1 add_items_ids(2) [OF assms(2), of e w1 p] by (simp add: m1)
  ultimately have head: "gui_menu_get_selection m1 = hd (menu_ids e w1)"
    by (simp add: gui_menu_get_selection_def ids_def upto_rec1 flip: ids1)
  have menu: "the_menu (r_gui r) = gui_menu_set_title POS_BOTTOM_LEFT (Some (text_of footer)) (footer_color (e_board e)) 0x55000000 ?m2"
    by (simp add: r the_menu_def)
  have w: "wanted r = (if def \<ge> 0 then def else if emmc w1 = None then 32 else 0)"
    by (simp add: wanted_def r)
  have all: "ids (the_menu (r_gui r)) = menu_ids e w1" "menu_ok (the_menu (r_gui r)) = menu_ok (select_default def (emmc w1 = None) m1)"
    "gui_menu_get_selection (the_menu (r_gui r)) = gui_menu_get_selection (select_default def (emmc w1 = None) m1)"
    by (simp_all add: menu set_title_keeps select_default_ids ids1)
  note sel = select_default_keeps [of "def" "emmc w1 = None" m1, unfolded ids1]
  have found: "wanted r \<in> set (menu_ids e w1) \<Longrightarrow> menu_ok (the_menu (r_gui r)) \<and> gui_menu_get_selection (the_menu (r_gui r)) = wanted r"
    unfolding w all by (rule sel(1))
  have missing: "wanted r \<notin> set (menu_ids e w1) \<Longrightarrow> gui_menu_get_selection (the_menu (r_gui r)) = hd (menu_ids e w1)"
    unfolding w all head [symmetric] by (rule sel(2))
  show ?thesis
    using c1 all(1) found missing fst_conv [of "def" t1, folded d, symmetric]
    by (intro exI [of _ w1]) (auto simp: r menu_world_def w1_def)
qed

lemma gui_start_ok:
  assumes "gui_start e bfs (m, fb) junk w = Some r" "n_items m = 0" "selection m = 0" "wanted r \<in> set (ids (the_menu (r_gui r)))"
  shows "run_ok (ids (the_menu (r_gui r))) r"
proof -
  obtain w1 where w1: "emmc w1 = emmc w" "sd w1 = sd w" "ids (the_menu (r_gui r)) = menu_ids e w1" "length (g_widgets (r_gui r)) = 1"
      "emmc (r_world r) = emmc w" "sd (r_world r) = sd w" "r_mode r = STATE_MENU"
    and sel: "menu_ok (the_menu (r_gui r))" "gui_menu_get_selection (the_menu (r_gui r)) = wanted r"
    using gui_start_shape [OF assms(1-3)] assms(4) by metis
  have "conf_block k (r_world r) \<noteq> None" if "k \<in> set (menu_ids e w1)" "0 \<le> k" "k < 64" for k
    using menu_ids_iff [of k e w1] that w1(1,2,5,6) by (auto simp: conf_block_def split: if_splits)
  then show ?thesis
    using w1(3,4,7) sel by (auto simp: run_ok_def run_menu_ok_def wanted_def)
qed

text \<open>The block that a round from a reachable state boots, or would read.\<close>

lemma menu_block:
  assumes "gui_start e bfs (m, fb) junk w = Some r0" "n_items m = 0" "selection m = 0"
    and "wanted r0 \<in> set (ids (the_menu (r_gui r0)))" "gui_reaches e bfs r0 r"
    and a: "gui_round e bfs r = Some (Booted res w') \<or> gui_round e bfs r = None"
  shows "r_boot_sel r \<in> set (ids (the_menu (r_gui r0))) \<and> 0 \<le> r_boot_sel r \<and> r_boot_sel r < 64 \<and>
      (\<exists>b no w1. (if r_boot_sel r < 32 then emmc w else sd w) = Some b \<and> no = nat (r_boot_sel r mod 32) \<and>
         boot_selection e b no SPLASH_FB w1 = (if gui_round e bfs r = None then None else Some (res, w')))"
proof -
  let ?L = "ids (the_menu (r_gui r0))"
  have ok0: "run_ok ?L r0" by (rule gui_start_ok [OF assms(1-4)])
  have ok: "run_ok ?L r" by (rule reaches_ok [OF assms(5) ok0])
  have cards: "emmc (r_world r) = emmc w" "sd (r_world r) = sd w"
    using reaches_cards [OF assms(5) ok0] gui_start_shape [OF assms(1-3)] by metis+
  have s: "step_ok ?L e r (gui_round e bfs r)" by (rule gui_round_ok [OF ok])
  have mode: "r_mode r = STATE_BOOT"
    using s a by (auto simp: step_ok_def)
  obtain b no w1 where b: "conf_block (r_boot_sel r) (r_world r) = Some (b, no)"
      "boot_selection e b no SPLASH_FB w1 = (if gui_round e bfs r = None then None else Some (res, w'))"
    using s a by (auto simp: step_ok_def)
  have "listed (the_menu (r_gui r)) (r_world r) (r_boot_sel r)" "ids (the_menu (r_gui r)) = ?L"
    using ok mode by (auto simp: run_ok_def)
  moreover have "(if r_boot_sel r < 32 then emmc w else sd w) = Some b \<and> no = nat (r_boot_sel r mod 32)"
    using b(1) by (auto simp: conf_block_def cards bind_eq_Some_conv split: if_splits)
  ultimately show "r_boot_sel r \<in> set ?L \<and> 0 \<le> r_boot_sel r \<and> r_boot_sel r < 64 \<and>
      (\<exists>b no w1. (if r_boot_sel r < 32 then emmc w else sd w) = Some b \<and> no = nat (r_boot_sel r mod 32) \<and>
         boot_selection e b no SPLASH_FB w1 = (if gui_round e bfs r = None then None else Some (res, w')))"
    using b(2) by (auto simp: listed_def)
qed

text \<open>
  C10: When the item that the menu should start on exists, every boot from the menu is of a
  configuration that the menu lists, on a card that was found, whatever keys are pressed and in
  whatever order: the loop never reads a block outside of the array. It leaves undefined only what
  \<open>boot_selection\<close> of that block does.
\<close>

theorem boot_menu_safe:
  assumes "gui_start e bfs (m, fb) junk w = Some r0" "n_items m = 0" "selection m = 0"
    and "wanted r0 \<in> set (ids (the_menu (r_gui r0)))" "gui_reaches e bfs r0 r"
  shows "(\<forall>res w'. gui_round e bfs r = Some (Booted res w') \<or> gui_round e bfs r = None \<longrightarrow>
      r_boot_sel r \<in> set (ids (the_menu (r_gui r0))) \<and> 0 \<le> r_boot_sel r \<and> r_boot_sel r < 64 \<and>
      (\<exists>b no w1. (if r_boot_sel r < 32 then emmc w else sd w) = Some b \<and> no = nat (r_boot_sel r mod 32) \<and>
         boot_selection e b no SPLASH_FB w1 = (if gui_round e bfs r = None then None else Some (res, w'))))"
  using menu_block [OF assms] by blast

text \<open>
  C12: When that item is missing, because the stored default was removed or the SD card has no
  configuration 0, the menu starts on the header of a list. A short press there selects block -2
  for booting, and the next frame reads in front of the array of blocks.
\<close>

theorem missing_default_undefined:
  assumes "gui_start e bfs (m, fb) junk w = Some r" "n_items m = 0" "selection m = 0"
    and "wanted r \<notin> set (ids (the_menu (r_gui r)))" "emmc w \<noteq> None \<or> sd w \<noteq> None"
  shows "gui_menu_get_selection (the_menu (r_gui r)) = - 2 \<and>
    (\<forall>g w'. the_menu g = the_menu (r_gui r) \<and> EV_POK_SHORT \<in> g_events g \<longrightarrow>
       round_short_press e (r\<lparr>r_gui := g\<rparr>) = Continue (r\<lparr>r_gui := g, r_mode := STATE_BOOT, r_boot_sel := - 2\<rparr>) \<and>
       round_vblank e bfs (r\<lparr>r_gui := g, r_mode := STATE_BOOT, r_boot_sel := - 2, r_world := w'\<rparr>) = None)"
proof -
  obtain w1 where w1: "emmc w1 = emmc w" "sd w1 = sd w" "ids (the_menu (r_gui r)) = menu_ids e w1"
    and sel: "gui_menu_get_selection (the_menu (r_gui r)) = hd (menu_ids e w1)"
    using gui_start_shape [OF assms(1-3)] assms(4) by metis
  have head: "hd (menu_ids e w1) = - 2"
    using assms(5) w1(1,2) by (auto simp: menu_ids_def)
  have "conf_block (- 2) w' = None" for w' :: "'a world"
    by (auto simp: conf_block_def bind_eq_None_conv)
  then show ?thesis
    using sel head by (auto simp: round_short_press_def round_vblank_def gui_boot_def Let_def
        BOOTSEL_FEL_def BOOTSEL_EMMC_def BOOTSEL_POWEROFF_def)
qed

section \<open>The privacy switch\<close>

lemma set_active_keeps_priv:
  "67 \<le> it_id (m_items m i) \<Longrightarrow> it_active (m_items (gui_menu_set_active k m) i) = it_active (m_items m i)"
proof -
  let ?F = "\<lambda>i items. if it_id (items i) < 67 then items(i := (items i)\<lparr>it_active := (it_id (items i) = k)\<rparr>) else items"
  have "67 \<le> it_id (items i) \<Longrightarrow> fold ?F is items i = items i" for "is" :: "int list" and items i
  proof (induction "is" arbitrary: items)
    case (Cons a "is")
    have "?F a items i = items i" using Cons.prems by auto
    then show ?case using Cons.IH [of "?F a items"] Cons.prems by simp
  qed simp
  from this [of "m_items m" i "[0..n_items m - 1]"]
  show "67 \<le> it_id (m_items m i) \<Longrightarrow> it_active (m_items (gui_menu_set_active k m) i) = it_active (m_items m i)"
    by (simp add: gui_menu_set_active_def Let_def)
qed

lemma bootsel_set_drops_flag: "\<not> fst (rtc_get_flag (regfile f) (push_bit 0 1) (rtc_bootsel_set k t))"
proof -
  have "(word_of_int (k + 1) AND 0xff) AND push_bit 16 1 = (word_of_int (k + 1) :: u32) AND (0xff AND push_bit 16 1)"
    by (rule and.assoc)
  also have "\<dots> = 0" by simp
  finally show ?thesis by (simp add: rtc_get_flag_def rtc_bootsel_set_def readl_def writel_def regfile_def Let_def)
qed

lemma set_flag_get_flag: "fst (rtc_get_flag (regfile f) (push_bit 0 1) (rtc_set_flag (regfile f) (push_bit 0 1) (if a then push_bit 0 1 else 0) t)) = a"
proof -
  have "((v AND NOT (push_bit 16 1)) OR push_bit 16 1) AND push_bit 16 1 = (push_bit 16 1 :: u32)"
    "(v AND NOT (push_bit 16 1)) AND push_bit 16 1 = 0" for v :: u32
    by (rule bit_word_eqI; auto simp: bit_simps)+
  moreover have "push_bit 16 1 \<noteq> (0 :: u32)" by simp
  ultimately show ?thesis
    by (cases a) (simp_all add: rtc_get_flag_def rtc_set_flag_def readl_def writel_def regfile_def Let_def del: push_bit_of_1)
qed

text \<open>
  A long press on the privacy item keeps the flag in the RTC and the mark of the item equal. A
  long press on any other item, which stores a default, clears the flag and leaves the mark: the
  menu goes on to show the privacy mode that the next boot will not have.
\<close>

theorem privacy_mark:
  assumes "run_ok L r" "EV_POK_LONG \<in> g_events (r_gui r)" "it_id (m_items (the_menu (r_gui r)) (r_priv r)) = 100"
    and "e_dev e = regfile f"
  shows "let r' = round_long_press e r;
      flag = fst (rtc_get_flag (e_dev e) (push_bit 0 1) (hist (r_world r')));
      mark = it_active (m_items (the_menu (r_gui r')) (r_priv r))
    in if gui_menu_get_selection (the_menu (r_gui r)) = 100
       then flag = mark \<and> mark = (\<not> it_active (m_items (the_menu (r_gui r)) (r_priv r)))
       else \<not> flag \<and> mark = it_active (m_items (the_menu (r_gui r)) (r_priv r))"
proof -
  have "length (g_widgets (r_gui r)) = 1" using assms(1) by (simp add: run_ok_def)
  note m = the_menu_on_menu(1) [OF this]
  show ?thesis
  proof (cases "gui_menu_get_selection (the_menu (r_gui r)) = 100")
    case True
    then show ?thesis
      using assms(2) by (simp add: round_long_press_def Let_def m set_item_active_def on_hist_def assms(4)
          set_flag_get_flag [of f True, simplified] set_flag_get_flag [of f False, simplified])
  next
    case False
    then show ?thesis
      using assms(2,3) by (simp add: round_long_press_def Let_def m on_hist_def assms(4) bootsel_set_drops_flag [simplified] set_active_keeps_priv)
  qed
qed

section \<open>Witnesses\<close>

text \<open>Registers that read as zero, no battery.\<close>

definition demo_env :: gui_env where
  "demo_env = \<lparr>e_dev = (\<lambda>_ _. 0), e_clk = (\<lambda>_. 5),
     e_stack = [], e_build = \<lparr>PBOOT_FDT_CONFIGS = False, PBOOT_FDT_LOG = None\<rparr>,
     e_resize = False, e_board = board_zero, e_boot_source = 0, e_version = bytes ''1.0'', e_dram_size = 0, e_sid = [0, 0, 0, 0]\<rparr>"

definition demo_card :: "unit mmc \<times> bootfs" where
  "demo_card = (image_card (\<lambda>_. 0), \<lparr>mmc_offset = 0, fs_sb = 0x60000000\<rparr>)"

theorem boot_menu_items_witness:
  "ids (fst (add_items demo_env demo_world_emmc False sample_base)) = menu_ids demo_env demo_world_emmc"
  using boot_menu_items [of sample_base demo_env demo_world_emmc False] sample_base_values(1) by simp

lemma demo_menu_world:
  assumes "\<forall>a. mem w a \<noteq> of_char CHR ''I''"
  shows "mem (menu_world e bfs w) = mem w"
proof -
  have "read_bytes (mem w) a 8 \<noteq> bytes '':BFILES:''" for a
  proof
    assume "read_bytes (mem w) a 8 = bytes '':BFILES:''"
    from arg_cong [OF this, of "\<lambda>xs. xs ! 3"] have "mem w (a + 3) = of_char CHR ''I''"
      by (simp add: read_bytes_def bytes_def)
    then show False using assms by blast
  qed
  then have "find_file name (mem w) fs is = None" for name fs "is"
    by (induction "is") (simp_all add: Let_def)
  then show ?thesis
    by (simp add: menu_world_def load_named_def bootfs_load_file_def on_hist_def)
qed

lemma demo_start:
  "\<exists>r. gui_start (demo_env\<lparr>e_dev := d\<rparr>) bfs (sample_base, \<lambda>_. 0) (replicate 64 0) w = Some r"
proof -
  have "\<exists>footer. menu_footer (demo_env\<lparr>e_dev := d\<rparr>) junk = Some footer" for junk
    by (simp add: menu_footer_def demo_env_def board_zero_def get_boot_source_name_def bytes_def Let_def del: strbuf_puts.simps)
  then obtain footer where "menu_footer (demo_env\<lparr>e_dev := d\<rparr>) (replicate 64 0) = Some footer" by blast
  then show ?thesis
    by (simp add: gui_start_def Let_def split_beta)
qed

lemma demo_def: "fst (rtc_bootsel_get (e_dev demo_env) t) = - 1"
  by (simp add: demo_env_def rtc_bootsel_get_def readl_def Let_def)

theorem boot_menu_safe_witness:
  "\<exists>r. gui_start demo_env demo_card (sample_base, \<lambda>_. 0) (replicate 64 0) demo_world_emmc = Some r \<and>
    (\<forall>res w'. gui_round demo_env demo_card r = Some (Booted res w') \<longrightarrow> 0 \<le> r_boot_sel r \<and> r_boot_sel r < 64)"
proof -
  obtain r where r: "gui_start demo_env demo_card (sample_base, \<lambda>_. 0) (replicate 64 0) demo_world_emmc = Some r"
    using demo_start [of "e_dev demo_env" demo_card demo_world_emmc] by auto
  have no_I: "\<forall>a. mem demo_world_emmc a \<noteq> of_char CHR ''I''"
  proof
    fix a
    have "mem_write (\<lambda>_. 0) 0x60000800 bs a \<in> insert 0 (set bs)" for bs
      by (auto simp: mem_write_def)
    from this [of "bytes '':BFCONF:''"] show "mem demo_world_emmc a \<noteq> of_char CHR ''I''"
      by (auto simp: demo_world_emmc_def bytes_def)
  qed
  have start: "n_items sample_base = 0" "selection sample_base = 0" by (rule sample_base_values)+
  obtain w1 where w1: "w1 = menu_world demo_env demo_card demo_world_emmc" "emmc w1 = emmc demo_world_emmc"
      "ids (the_menu (r_gui r)) = menu_ids demo_env w1" "r_def r = - 1" "emmc (r_world r) = emmc demo_world_emmc"
    using gui_start_shape [OF r start] demo_def by metis
  have "mem w1 = mem demo_world_emmc" unfolding w1(1) by (rule demo_menu_world [OF no_I])
  then have "0 \<in> set (menu_ids demo_env w1)"
    using w1(2) demo_is_conf by (subst menu_ids_iff) (auto simp: demo_world_emmc_def)
  then have "wanted r \<in> set (ids (the_menu (r_gui r)))"
    using w1(3-5) by (simp add: wanted_def demo_world_emmc_def)
  from boot_menu_safe [OF r start this gui_reaches.start]
  show ?thesis using r by blast
qed

theorem missing_default_undefined_witness:
  "\<exists>r. gui_start demo_env demo_card (sample_base, \<lambda>_. 0) (replicate 64 0) (demo_world\<lparr>emmc := Some demo_card\<rparr>) = Some r \<and>
    gui_menu_get_selection (the_menu (r_gui r)) = - 2"
proof -
  let ?w = "demo_world\<lparr>emmc := Some demo_card\<rparr>"
  obtain r where r: "gui_start demo_env demo_card (sample_base, \<lambda>_. 0) (replicate 64 0) ?w = Some r"
    using demo_start [of "e_dev demo_env" demo_card ?w] by auto
  have no_I: "\<forall>a. mem ?w a \<noteq> of_char CHR ''I''" by (simp add: demo_world_def)
  have start: "n_items sample_base = 0" "selection sample_base = 0" by (rule sample_base_values)+
  obtain w1 where w1: "w1 = menu_world demo_env demo_card ?w" "emmc w1 = emmc ?w"
      "ids (the_menu (r_gui r)) = menu_ids demo_env w1" "r_def r = - 1" "emmc (r_world r) = emmc ?w"
    using gui_start_shape [OF r start] demo_def by metis
  have "mem w1 = mem ?w" unfolding w1(1) by (rule demo_menu_world [OF no_I])
  then have "\<not> is_conf (mem w1) fs i" for fs i
    by (simp add: is_conf_def read_bytes_def demo_world_def bytes_def upt_rec)
  then have "0 \<notin> set (menu_ids demo_env w1)" by (subst menu_ids_iff) auto
  then have "wanted r \<notin> set (ids (the_menu (r_gui r)))"
    using w1(3-5) by (simp add: wanted_def)
  from missing_default_undefined [OF r start this] show ?thesis using r by simp
qed

text \<open>A menu with the privacy item alone.\<close>

definition privacy_menu :: menu where
  "privacy_menu = gui_menu_add_item 100 (bytes ''Privacy mode'') 1 2 sample_base"

definition privacy_run :: "event_kind set \<Rightarrow> unit gui_run" where
  "privacy_run evs = \<lparr>r_gui = gui_zero\<lparr>g_events := evs, last_key := VolumeUp, g_widgets := [(privacy_menu, \<lambda>_. 0)]\<rparr>,
     r_world = demo_world, r_def = - 1, r_priv = 0, r_flips = 0, r_boot_sel = - 1, r_mode = STATE_MENU, r_end = 1\<rparr>"

lemma privacy_menu_values: "n_items privacy_menu = 1" "selection privacy_menu = 0" "it_id (m_items privacy_menu 0) = 100" "ids privacy_menu = [100]"
  by (simp_all add: privacy_menu_def gui_menu_add_item_def sample_base_values ids_def Let_def)

lemma privacy_run_ok: "run_ok [100] (privacy_run evs)"
  by (simp add: run_ok_def run_menu_ok_def menu_ok_def privacy_run_def the_menu_def privacy_menu_values gui_menu_get_selection_def)

theorem privacy_mark_witness:
  "\<exists>r'. r' = round_long_press (demo_env\<lparr>e_dev := regfile (\<lambda>_. 0)\<rparr>) (privacy_run {EV_POK_LONG}) \<and>
     fst (rtc_get_flag (regfile (\<lambda>_. 0)) (push_bit 0 1) (hist (r_world r'))) = it_active (m_items (the_menu (r_gui r')) 0)"
proof -
  have m: "the_menu (r_gui (privacy_run {EV_POK_LONG})) = privacy_menu" "r_priv (privacy_run {EV_POK_LONG}) = 0"
    "EV_POK_LONG \<in> g_events (r_gui (privacy_run {EV_POK_LONG}))"
    by (simp_all add: privacy_run_def the_menu_def)
  show ?thesis
    using privacy_mark [OF privacy_run_ok m(3), of "demo_env\<lparr>e_dev := regfile (\<lambda>_. 0)\<rparr>" "\<lambda>_. 0"]
    by (simp add: m privacy_menu_values gui_menu_get_selection_def Let_def)
qed
end
