(* ===== verification/Elapse.thy ===== *)
theory Elapse
  imports Clock_Sun6i
begin

text \<open>
  Time and histories: what an access costs, properties of histories that every event keeps, and steps
  that return. A wait that is bounded by a timer ends because time passes with its own reads.
\<close>

section \<open>Time\<close>

text \<open>
  The interface of the hardware clock, in nanoseconds: a read takes time, a write does not take time
  back, a delay lasts at least as long as was asked for.
\<close>

locale hardware_clock =
  fixes clk :: "history \<Rightarrow> nat"
  assumes read_clk: "clk t < clk (Rd a v # t)"
    and write_clk: "clk t \<le> clk (Wr a v # t)"
    and delay_clk: "clk t + n * 1000 \<le> clk (Delay n # t)"

text \<open>A property of histories that every event keeps: that time has not gone back, what came before.\<close>

locale kept =
  fixes Q :: "history \<Rightarrow> bool"
  assumes event: "Q t \<Longrightarrow> Q (e # t)"

text \<open>A step that returns, and ends in a history of which \<open>Q\<close> holds.\<close>

definition passes :: "(history \<Rightarrow> bool) \<Rightarrow> ('r \<Rightarrow> history) \<Rightarrow> 'r option \<Rightarrow> bool" where
  "passes Q g r \<longleftrightarrow> (\<exists>y. r = Some y \<and> Q (g y))"

named_theorems pass_rules

lemma passes_Some [simp]: "passes Q g (Some r) \<longleftrightarrow> Q (g r)"
  by (simp add: passes_def)

lemma passes_bind:
  "passes Q g r \<Longrightarrow> (\<And>y. Q (g y) \<Longrightarrow> passes Q g' (f y)) \<Longrightarrow> passes Q g' (Option.bind r f)"
  by (auto simp: passes_def)

lemma passes_if:
  "(b \<Longrightarrow> passes Q g r) \<Longrightarrow> (\<not> b \<Longrightarrow> passes Q g r') \<Longrightarrow> passes Q g (if b then r else r')"
  by simp

lemma passes_map:
  "passes Q g r \<Longrightarrow> (\<And>y. Q (g y) \<Longrightarrow> Q (g' (f y))) \<Longrightarrow> passes Q g' (map_option f r)"
  by (auto simp: passes_def)

context kept begin

lemma kept_readl [pass_rules]: "Q t \<Longrightarrow> Q (snd (readl d a t))"
  by (simp add: readl_def Let_def event)

lemma kept_writel [pass_rules]: "Q t \<Longrightarrow> Q (writel v a t)"
  by (simp add: writel_def event)

lemma kept_udelay [pass_rules]: "Q t \<Longrightarrow> Q (udelay n t)"
  by (simp add: udelay_def event)

lemma kept_exec1: "Q t \<Longrightarrow> Q (exec1 d x t)"
  by (cases x) (auto simp: setbits_def clrbits_def clrsetbits_def Let_def case_prod_beta intro!: pass_rules)

lemma kept_exec [pass_rules]: "Q t \<Longrightarrow> Q (exec d ops t)"
  by (induction ops arbitrary: t) (auto intro: kept_exec1)

lemma kept_setbits [pass_rules]: "Q t \<Longrightarrow> Q (setbits d a v t)"
  using kept_exec1 [of t d "Setbits a v"] by simp

lemma kept_clrbits [pass_rules]: "Q t \<Longrightarrow> Q (clrbits d a v t)"
  using kept_exec1 [of t d "Clrbits a v"] by simp

lemma kept_reads: "Q t \<Longrightarrow> Q (reads d a k t)"
  by (induction k arbitrary: t) (auto intro: kept_readl)

lemma passes_spin_clear:
  "d (reads d a k t) a AND m = 0 \<Longrightarrow> Q t \<Longrightarrow> passes Q (\<lambda>u. u) (spin_clear d a m t)"
proof (induction k arbitrary: t)
  case 0
  then show ?case
    using kept_readl [of t d a] by (subst spin_clear.simps) (simp add: readl_def Let_def)
next
  case (Suc k)
  have "passes Q (\<lambda>u. u) (spin_clear d a m (snd (readl d a t)))"
    using Suc.prems by (intro Suc.IH) (auto intro: kept_readl)
  then show ?case
    using Suc.prems kept_readl [of t d a] by (subst spin_clear.simps) (auto simp: readl_def Let_def)
qed

end

text \<open>Time does not go back.\<close>

sublocale hardware_clock \<subseteq> onward: kept "\<lambda>u. clk t \<le> clk u" for t
proof
  fix e u assume "clk t \<le> clk u"
  moreover have "clk u \<le> clk (e # u)"
  proof (cases e)
    case (Delay n)
    then show ?thesis using delay_clk [of u n] by simp
  qed (simp_all add: read_clk write_clk less_imp_le)
  ultimately show "clk t \<le> clk (e # u)"
    by (rule order_trans)
qed

text \<open>What was done since \<open>t\<close> contains the events \<open>A\<close>.\<close>

definition since :: "history \<Rightarrow> event set \<Rightarrow> history \<Rightarrow> bool" where
  "since t A u \<longleftrightarrow> (\<exists>xs. u = xs @ t \<and> A \<subseteq> set xs)"

interpretation since: kept "since t A" for t A
  by unfold_locales (auto simp: since_def intro: exI [of _ "_ # _"])

section \<open>A bus that takes time\<close>

text \<open>A clock on which an access takes 100 ns.\<close>

fun bus_time :: "history \<Rightarrow> nat" where
  "bus_time [] = 0"
| "bus_time (Rd a v # t) = bus_time t + 100"
| "bus_time (Wr a v # t) = bus_time t + 100"
| "bus_time (Delay n # t) = bus_time t + n * 1000"

interpretation bus: hardware_clock bus_time
  by unfold_locales simp_all

end
