(* ===== verification/Boot_Idle.thy ===== *)
theory Boot_Idle
  imports Boot_Menu Elapse
begin

text \<open>
  The boot menu without input: every round accesses the hardware and keeps the deadline, so the
  deadline is over after finitely many rounds; from then on the wish to power off stays until a
  frame carries it out. So the loop ends with the power off.
\<close>

section \<open>What a round adds to the history\<close>

context kept begin

lemma kept_poll_clear [pass_rules]: "Q t \<Longrightarrow> Q (snd (poll_clear d a m n t))"
proof -
  assume t: "Q t"
  obtain k where "poll_clear d a m n t = (d (reads d a k t) a, reads d a (Suc k) t)"
    using poll_clear_result [of n d a m t] by blast
  then show ?thesis using kept_reads [OF t, of d a "Suc k"] by simp
qed

lemma kept_rsb_wait [pass_rules]: "Q t \<Longrightarrow> Q (snd (rsb_wait_bit d a m t))" "Q t \<Longrightarrow> Q (snd (rsb_wait_stat d t))"
proof -
  have bit: "Q (snd (rsb_wait_bit d a m t))" if "Q t" for d a m t
    using kept_poll_clear [OF that, of d a m "MAX_TRIES - 1"] by (simp add: rsb_wait_bit_def split_beta)
  then show "Q t \<Longrightarrow> Q (snd (rsb_wait_bit d a m t))" .
  show "Q t \<Longrightarrow> Q (snd (rsb_wait_stat d t))"
    by (auto simp: rsb_wait_stat_def split_beta Let_def intro!: bit kept_readl)
qed

lemma kept_rsb [pass_rules]: "Q t \<Longrightarrow> Q (snd (rsb_read d rt a t))" "Q t \<Longrightarrow> Q (snd (rsb_write d rt a v t))"
  by (auto simp only: rsb_read_def rsb_write_def split_beta Let_def snd_conv intro!: pass_rules split: if_split)

lemma kept_pmic_flags [pass_rules]: "Q t \<Longrightarrow> Q (snd (pmic_flags d is evs t))"
proof (induction "is" arbitrary: evs t)
  case (Cons i "is")
  show ?case
    using kept_rsb(1) [OF Cons.prems] by (auto simp: pmic_read_def pmic_write_def split_beta Let_def intro!: Cons.IH kept_rsb(2))
qed simp

lemma kept_power_events [pass_rules]:
  assumes "Q t"
  shows "Q (snd (power_events d evs t))"
proof -
  note step = kept_readl [OF assms, of d "R_INTC_BASE + SUN6I_R_INTC_PENDING"]
  show ?thesis
    using step kept_writel [OF kept_pmic_flags [OF step]]
    by (simp only: power_events_def split_beta Let_def snd_conv simp_thms split: if_split)
qed

lemma kept_key [pass_rules]: "Q t \<Longrightarrow> Q (snd (lradc_get_pressed_key d t))"
  by (simp add: lradc_get_pressed_key_def split_beta Let_def kept_readl)

lemma kept_scaler [pass_rules]: "Q t \<Longrightarrow> Q (commit_scaler i c t)" "Q t \<Longrightarrow> Q (sun8i_ui_scaler_disable i t)"
proof -
  have writes: "Q t \<Longrightarrow> Q (fold (\<lambda>i. mixer_write (a i) (v i)) is t)" for a v "is" t
    by (induction "is" arbitrary: t) (simp_all add: mixer_write_def kept_writel)
  have one: "Q t \<Longrightarrow> Q (mixer_write a v t)" for a v t
    by (simp add: mixer_write_def kept_writel)
  show "Q t \<Longrightarrow> Q (commit_scaler i c t)" "Q t \<Longrightarrow> Q (sun8i_ui_scaler_disable i t)"
    by (auto simp: commit_scaler_def sun8i_ui_scaler_setup_def sun8i_ui_scaler_disable_def Let_def intro!: writes one)
qed

lemma kept_commit_plane: "Q (snd (snd (snd s))) \<Longrightarrow> Q (snd (snd (snd (commit_plane resize i p c s))))"
  by (auto simp: commit_plane_def commit_overlay_def commit_blender_def split_beta Let_def intro!: pass_rules)

lemma kept_commit [pass_rules]: "Q t \<Longrightarrow> Q (display_commit resize dp t)"
proof -
  have "Q (snd (snd (snd s))) \<Longrightarrow> Q (snd (snd (snd (commit_planes resize i ps s))))" for i ps s
    by (induction ps arbitrary: i s) (simp_all add: kept_commit_plane)
  then show "Q t \<Longrightarrow> Q (display_commit resize dp t)"
    by (simp add: display_commit_def split_beta Let_def kept_writel)
qed

lemma kept_backlight [pass_rules]: "Q t \<Longrightarrow> Q (backlight_enable d pct t)"
  by (simp add: backlight_enable_def sunxi_gpio_set_cfgpin_def sunxi_gpio_set_cfgbank_def gpio_direction_output_def
      sunxi_gpio_output_def clrsetbits_def split_beta Let_def pass_rules)

end

text \<open>At least \<open>n\<close> events since \<open>t\<close>.\<close>

definition at_least :: "nat \<Rightarrow> history \<Rightarrow> history \<Rightarrow> bool" where
  "at_least n t u \<longleftrightarrow> (\<exists>xs. u = xs @ t \<and> n \<le> length xs)"

interpretation at_least: kept "at_least n t" for n t
  by unfold_locales (auto simp: at_least_def intro: exI [of _ "_ # _"])

lemma at_least_read: "at_least n t u \<Longrightarrow> at_least (Suc n) t (snd (readl d a u))"
  by (auto simp: at_least_def readl_def Let_def)

text \<open>The events of a round: the time is that of its start, and at least one access is made.\<close>

lemma get_events_time:
  assumes "gui_get_events d clk g t = Some (g', t')" "at_least n t0 t"
  shows "g_now g' = clk t" "at_least (Suc n) t0 t'"
proof -
  have "at_least (Suc n) t0 (snd (display_frame_done d t))"
    using assms(2) by (auto simp: display_frame_done_def split_beta Let_def intro!: at_least.kept_writel at_least_read)
  then show "g_now g' = clk t" "at_least (Suc n) t0 t'"
    using assms(1) by (auto simp: gui_get_events_def split_beta Let_def bind_eq_Some_conv intro!: at_least.kept_key at_least.kept_power_events)
qed

lemma load_hist: "hist (load_named bfs name w) = hist w" "hist (snd (load_splash m fs no dest w)) = hist w"
proof -
  have more: "store.more w' = store.more w \<Longrightarrow> hist w' = hist w" for w w' :: "'a world"
    by (cases w; cases w') simp
  show "hist (load_named bfs name w) = hist w"
    using more [OF load_file_more, of "fst bfs" "snd bfs" SPLASH_FB name w] by (simp add: load_named_def)
  show "hist (snd (load_splash m fs no dest w)) = hist w"
    by (rule more) (auto simp: load_splash_def frame split_beta Let_def split: option.splits)
qed

section \<open>Rounds without input\<close>

text \<open>The events that a round sees.\<close>

definition seen_events :: "gui_env \<Rightarrow> 'c gui_run \<Rightarrow> event_kind set" where
  "seen_events e r = g_events (r_gui (round_start e r))"

lemma preview_parts:
  assumes "round_preview bfs r = Some r'"
  shows "r_gui r' = r_gui r" "r_mode r' = r_mode r" "r_end r' = r_end r" "r_flips r' = r_flips r"
    "hist (r_world r') = hist (r_world r)"
  using assms by (auto simp: round_preview_def Let_def split_beta load_hist bind_eq_Some_conv split: if_splits)

lemma start_parts:
  assumes ok: "run_ok L r" and "at_least n t0 (hist (r_world r))"
  shows "g_now (r_gui (round_start e r)) = e_clk e (hist (r_world r))" "at_least (Suc n) t0 (hist (r_world (round_start e r)))"
proof -
  have "length (g_widgets (r_gui r)) = 1" "run_menu_ok (the_menu (r_gui r)) (r_world r)"
    using ok by (simp_all add: run_ok_def)
  from get_events_keeps [OF this, of "e_dev e" "e_clk e" "hist (r_world r)"]
  obtain g t where g: "gui_get_events (e_dev e) (e_clk e) (r_gui r) (hist (r_world r)) = Some (g, t)" by blast
  then show "g_now (r_gui (round_start e r)) = e_clk e (hist (r_world r))" "at_least (Suc n) t0 (hist (r_world (round_start e r)))"
    using get_events_time [OF g assms(2)] by (simp_all add: round_start_def)
qed

text \<open>An idle round powers off, or it stays in the loop and does nothing but watch the deadline.\<close>

lemma idle_round:
  assumes ok: "run_ok L r" and mode: "r_mode r \<noteq> STATE_BOOT" and idle: "seen_events e r \<subseteq> {EV_VBLANK}"
  shows "r_mode r = STATE_OFF \<Longrightarrow> EV_VBLANK \<in> seen_events e r \<Longrightarrow> \<exists>w. gui_round e bfs r = Some (Power_off w)"
    and "\<not> (r_mode r = STATE_OFF \<and> EV_VBLANK \<in> seen_events e r) \<Longrightarrow>
      \<exists>r'. gui_round e bfs r = Some (Continue r') \<and> r_gui r' = r_gui (round_start e r) \<and> r_end r' = r_end r \<and>
        r_mode r' = (if r_end r < e_clk e (hist (r_world r)) then STATE_OFF else r_mode r) \<and>
        (\<forall>n t. at_least n t (hist (r_world r)) \<longrightarrow> at_least (Suc n) t (hist (r_world r')))"
proof -
  let ?s = "round_start e r"
  note u = round_unfold(1-6) [OF ok, of e] round_unfold(7) [OF ok, of e bfs]
  show "\<exists>w. gui_round e bfs r = Some (Power_off w)" if "r_mode r = STATE_OFF" "EV_VBLANK \<in> seen_events e r"
    using that u(2) by (simp add: u(7) seen_events_def round_vblank_def Let_def)
  assume stay: "\<not> (r_mode r = STATE_OFF \<and> EV_VBLANK \<in> seen_events e r)"
  have ends: "r_end ?s = r_end r" by (simp add: round_start_def split_beta Let_def)
  have "\<exists>r1. (if EV_VBLANK \<in> g_events (r_gui ?s) then round_vblank e bfs ?s else Some (Inr ?s)) = Some (Inr r1) \<and>
    r_gui r1 = r_gui ?s \<and> r_end r1 = r_end ?s \<and> r_mode r1 = r_mode ?s \<and>
    (\<forall>n t. at_least n t (hist (r_world ?s)) \<longrightarrow> at_least n t (hist (r_world r1)))"
  proof (cases "EV_VBLANK \<in> g_events (r_gui ?s)")
    case True
    then have "r_mode ?s = STATE_MENU"
      using stay mode u(2) by (cases "r_mode r") (simp_all add: seen_events_def)
    then show ?thesis
      using True by (simp add: round_vblank_def Let_def on_hist_def at_least.kept_commit at_least.kept_backlight)
  qed simp
  then obtain r1 where r1: "(if EV_VBLANK \<in> g_events (r_gui ?s) then round_vblank e bfs ?s else Some (Inr ?s)) = Some (Inr r1)"
    "r_gui r1 = r_gui ?s" "r_end r1 = r_end r" "r_mode r1 = r_mode r"
    "\<And>n t. at_least n t (hist (r_world ?s)) \<Longrightarrow> at_least n t (hist (r_world r1))"
    using ends u(2) by auto
  have now: "g_now (r_gui ?s) = e_clk e (hist (r_world r))"
    by (rule start_parts(1) [OF ok, of 0 "hist (r_world r)"]) (simp add: at_least_def)
  have ok1: "run_ok L r1"
    using r1(1) u(1) round_vblank_keeps(1) [OF u(1), of e bfs r1] by (simp split: if_splits)
  have dl: "round_deadline e r1 = (if r_end r < e_clk e (hist (r_world r)) then r1\<lparr>r_mode := STATE_OFF\<rparr> else r1)"
    using idle r1(2,3) now by (auto simp: round_deadline_def Let_def seen_events_def)
  obtain r2 where r2: "round_preview bfs (round_deadline e r1) = Some r2"
    using round_preview_keeps [OF round_deadline_keeps [OF ok1, of e], of bfs] by blast
  note p = preview_parts [OF r2]
  have "g_events (r_gui r2) \<subseteq> {EV_VBLANK}"
    using idle r1(2) p(1) dl by (auto simp: seen_events_def split: if_splits)
  then have "round_short_press e (round_long_press e r2) = Continue r2"
    by (auto simp: round_long_press_def round_short_press_def)
  then have "gui_round e bfs r = Some (Continue r2)"
    by (simp add: u(7) r1(1) r2)
  moreover have "at_least (Suc n) t (hist (r_world r2))" if "at_least n t (hist (r_world r))" for n t
    using r1(5) [OF start_parts(2) [OF ok that]] p(5) dl by (simp split: if_splits)
  ultimately show "\<exists>r'. gui_round e bfs r = Some (Continue r') \<and> r_gui r' = r_gui ?s \<and> r_end r' = r_end r \<and>
      r_mode r' = (if r_end r < e_clk e (hist (r_world r)) then STATE_OFF else r_mode r) \<and>
      (\<forall>n t. at_least n t (hist (r_world r)) \<longrightarrow> at_least (Suc n) t (hist (r_world r')))"
    using p dl r1(2,3,4) by (intro exI [of _ r2]) (simp split: if_splits)
qed

text \<open>Along idle rounds the deadline stays, and so does the wish to power off.\<close>

definition idle_run :: "gui_env \<Rightarrow> 'c mmc \<times> bootfs \<Rightarrow> 'c gui_run \<Rightarrow> bool" where
  "idle_run e bfs r \<longleftrightarrow> (\<forall>r1. gui_reaches e bfs r r1 \<longrightarrow> seen_events e r1 \<subseteq> {EV_VBLANK})"

lemma idle_run_later: "idle_run e bfs r \<Longrightarrow> gui_reaches e bfs r r1 \<Longrightarrow> idle_run e bfs r1"
  by (auto simp: idle_run_def intro: gui_reaches_trans)

lemma idle_reaches:
  assumes "gui_reaches e bfs r r1" "run_ok L r" "r_mode r \<noteq> STATE_BOOT" "idle_run e bfs r"
  shows "r_end r1 = r_end r \<and> r_mode r1 \<noteq> STATE_BOOT \<and> (r_mode r = STATE_OFF \<longrightarrow> r_mode r1 = STATE_OFF)"
  using assms
proof (induction rule: gui_reaches.induct)
  case (step r0 r r')
  have r: "r_end r = r_end r0" "r_mode r \<noteq> STATE_BOOT" "r_mode r0 = STATE_OFF \<longrightarrow> r_mode r = STATE_OFF"
    using step.IH step.prems by simp_all
  have ok: "run_ok L r" by (rule reaches_ok [OF step.hyps(1) step.prems(1)])
  have idle: "seen_events e r \<subseteq> {EV_VBLANK}"
    using step.hyps(1) step.prems(3) by (simp add: idle_run_def)
  note i = idle_round [OF ok r(2) idle, of bfs]
  have "\<not> (r_mode r = STATE_OFF \<and> EV_VBLANK \<in> seen_events e r)"
    using i(1) step.hyps(2) by auto
  from i(2) [OF this] show ?case
    using step.hyps(2) r by auto
qed simp

text \<open>In the state before the power off any frame carries it out.\<close>

lemma off_ends:
  assumes ok: "run_ok L r" and off: "r_mode r = STATE_OFF" and idle: "idle_run e bfs r"
    and frame: "gui_reaches e bfs r r1" "EV_VBLANK \<in> seen_events e r1"
  shows "\<exists>w. gui_loop e bfs r = Some (Power_off w)"
proof -
  have r1: "run_ok L r1" "r_mode r1 = STATE_OFF" "seen_events e r1 \<subseteq> {EV_VBLANK}"
    using reaches_ok [OF frame(1) ok] idle_reaches [OF frame(1) ok _ idle] off idle frame(1) by (auto simp: idle_run_def)
  then obtain w where "gui_round e bfs r1 = Some (Power_off w)"
    using idle_round(1) [OF r1(1) _ r1(3) r1(2) frame(2), of bfs] by auto
  then show ?thesis
    using reaches_loop [OF frame(1)] by (subst (asm) (2) gui_loop.simps) simp
qed

lemma power_off_ends: "gui_round e bfs r = Some (Power_off w) \<Longrightarrow> gui_loop e bfs r = Some (Power_off w)"
  by (subst gui_loop.simps) simp

text \<open>
  Rounds go on until the loop ends with the power off, and each makes at least one access.
\<close>

lemma idle_rounds:
  assumes ok: "run_ok L r" and mode: "r_mode r \<noteq> STATE_BOOT" and idle: "idle_run e bfs r"
  shows "(\<exists>w. gui_loop e bfs r = Some (Power_off w)) \<or>
    (\<exists>r'. gui_reaches e bfs r r' \<and> at_least n (hist (r_world r)) (hist (r_world r')))"
proof (induction n)
  case 0
  have "at_least 0 (hist (r_world r)) (hist (r_world r))" by (simp add: at_least_def)
  then show ?case using gui_reaches.start by blast
next
  case (Suc n)
  show ?case
  proof (cases "\<exists>w. gui_loop e bfs r = Some (Power_off w)")
    case False
    then obtain r' where r': "gui_reaches e bfs r r'" "at_least n (hist (r_world r)) (hist (r_world r'))"
      using Suc by blast
    have "r_mode r' \<noteq> STATE_BOOT" "seen_events e r' \<subseteq> {EV_VBLANK}"
      using idle_reaches [OF r'(1) ok mode idle] idle r'(1) by (simp_all add: idle_run_def)
    note i = idle_round [OF reaches_ok [OF r'(1) ok] this, of bfs]
    have "\<not> (r_mode r' = STATE_OFF \<and> EV_VBLANK \<in> seen_events e r')"
      using i(1) power_off_ends reaches_loop [OF r'(1)] False by metis
    from i(2) [OF this] show ?thesis
      using gui_reaches.step [OF r'(1)] r'(2) by blast
  qed simp
qed

section \<open>The loop ends\<close>

text \<open>
  C13: the menu does not stay on for ever. From any state of the loop that is not about to boot: if
  no key is pressed from then on, if the clock passes the deadline after some number of accesses,
  and if there is always another frame, then the whole run of the loop ends, with the power off.
\<close>

theorem idle_powers_off:
  assumes "run_ok L r0" "gui_reaches e bfs r0 r" "r_mode r \<noteq> STATE_BOOT"
    and idle: "\<forall>r1. gui_reaches e bfs r r1 \<longrightarrow> seen_events e r1 \<subseteq> {EV_VBLANK}"
    and clock: "\<forall>u. N \<le> length u \<longrightarrow> r_end r < e_clk e (u @ hist (r_world r))"
    and frames: "\<forall>r1. gui_reaches e bfs r r1 \<longrightarrow> (\<exists>r2. gui_reaches e bfs r1 r2 \<and> EV_VBLANK \<in> seen_events e r2)"
  shows "\<exists>w. gui_loop e bfs r0 = Some (Power_off w)"
proof -
  have ok: "run_ok L r" by (rule reaches_ok [OF assms(2,1)])
  have ir: "idle_run e bfs r" using idle by (simp add: idle_run_def)
  have "\<exists>w. gui_loop e bfs r = Some (Power_off w)"
  proof (rule ccontr)
    assume on: "\<nexists>w. gui_loop e bfs r = Some (Power_off w)"
    then obtain r1 where r1: "gui_reaches e bfs r r1" "at_least N (hist (r_world r)) (hist (r_world r1))"
      using idle_rounds [OF ok assms(3) ir, of N] by blast
    have k: "r_end r1 = r_end r" "r_mode r1 \<noteq> STATE_BOOT" "seen_events e r1 \<subseteq> {EV_VBLANK}"
      using idle_reaches [OF r1(1) ok assms(3) ir] idle r1(1) by simp_all
    note ok1 = reaches_ok [OF r1(1) ok]
    note i = idle_round [OF ok1 k(2,3), of bfs]
    have "\<not> (r_mode r1 = STATE_OFF \<and> EV_VBLANK \<in> seen_events e r1)"
      using i(1) power_off_ends reaches_loop [OF r1(1)] on by metis
    moreover have "r_end r1 < e_clk e (hist (r_world r1))"
      using clock r1(2) k(1) by (auto simp: at_least_def)
    ultimately obtain r2 where r2: "gui_round e bfs r1 = Some (Continue r2)" "r_mode r2 = STATE_OFF"
      using i(2) by auto
    note reach = gui_reaches.step [OF r1(1) r2(1)]
    obtain r3 where "gui_reaches e bfs r2 r3" "EV_VBLANK \<in> seen_events e r3"
      using frames reach by blast
    then obtain w where "gui_loop e bfs r2 = Some (Power_off w)"
      using off_ends [OF reaches_ok [OF reach ok] r2(2) idle_run_later [OF ir reach]] by blast
    then show False using reaches_loop [OF reach] on by simp
  qed
  then show ?thesis using reaches_loop [OF assms(2)] by simp
qed

section \<open>Witness\<close>

text \<open>
  A display that always has a new frame, no keys, and a clock that counts accesses up to 1000; the
  deadline is at 50.
\<close>

definition idle_env :: gui_env where
  "idle_env = demo_env\<lparr>e_dev := (\<lambda>_ a. if a = LCD0_BASE + 0x04 then 0x800 else 0),
     e_clk := (\<lambda>t. if length t < 1000 then of_nat (length t) else 1000)\<rparr>"

definition idle_begin :: "unit gui_run" where
  "idle_begin = (privacy_run {})\<lparr>r_flips := 1, r_end := 50\<rparr>"

definition keys_at_rest :: "gui \<Rightarrow> bool" where
  "keys_at_rest g \<longleftrightarrow> last_key g = VolumeUp \<and> key_change_ts g = 0"

lemma idle_env_events:
  assumes "run_ok L r" "keys_at_rest (r_gui r)"
  shows "seen_events idle_env r = {EV_VBLANK}" "keys_at_rest (r_gui (round_start idle_env r))"
proof -
  have "length (g_widgets (r_gui r)) = 1" "run_menu_ok (the_menu (r_gui r)) (r_world r)"
    using assms(1) by (simp_all add: run_ok_def)
  from get_events_keeps [OF this, of "e_dev idle_env" "e_clk idle_env" "hist (r_world r)"]
  obtain g t where g: "gui_get_events (e_dev idle_env) (e_clk idle_env) (r_gui r) (hist (r_world r)) = Some (g, t)" by blast
  moreover have "g_events g = {EV_VBLANK} \<and> keys_at_rest g"
    using g assms(2) by (auto simp: idle_env_def gui_get_events_def display_frame_done_def power_events_def R_INTC_BASE_def
        SUN6I_R_INTC_PENDING_def lradc_get_pressed_key_def key_of_volts_def volume_events_def readl_def writel_def keys_at_rest_def
        Let_def bind_eq_Some_conv)
  ultimately show "seen_events idle_env r = {EV_VBLANK}" "keys_at_rest (r_gui (round_start idle_env r))"
    by (simp_all add: seen_events_def round_start_def)
qed

lemma idle_begin_reaches:
  "gui_reaches idle_env bfs r0 r \<Longrightarrow> run_ok [100] r0 \<and> keys_at_rest (r_gui r0) \<and> r_mode r0 \<noteq> STATE_BOOT \<Longrightarrow>
     run_ok [100] r \<and> keys_at_rest (r_gui r) \<and> r_mode r \<noteq> STATE_BOOT"
proof (induction rule: gui_reaches.induct)
  case (step r0 r r')
  have r: "run_ok [100] r" "keys_at_rest (r_gui r)" "r_mode r \<noteq> STATE_BOOT"
    using step.IH step.prems by simp_all
  have ev: "seen_events idle_env r \<subseteq> {EV_VBLANK}" using idle_env_events(1) [OF r(1,2)] by simp
  note i = idle_round [OF r(1,3) ev, of bfs]
  have "\<not> (r_mode r = STATE_OFF \<and> EV_VBLANK \<in> seen_events idle_env r)"
    using i(1) step.hyps(2) by auto
  from i(2) [OF this] have "r_gui r' = r_gui (round_start idle_env r)" "r_mode r' \<noteq> STATE_BOOT"
    using step.hyps(2) r(3) by auto
  then show ?case
    using idle_env_events(2) [OF r(1,2)] reaches_ok [OF gui_reaches.step [OF gui_reaches.start step.hyps(2)] r(1)] by simp
qed simp

theorem idle_powers_off_witness: "\<exists>w. gui_loop idle_env demo_card idle_begin = Some (Power_off w)"
proof (rule idle_powers_off)
  have "run_ok [100] (privacy_run {})" by (rule privacy_run_ok)
  then show ok: "run_ok [100] idle_begin" by (simp add: idle_begin_def run_ok_def)
  show start: "gui_reaches idle_env demo_card idle_begin idle_begin" by (rule gui_reaches.start)
  show mode: "r_mode idle_begin \<noteq> STATE_BOOT" by (simp add: idle_begin_def privacy_run_def)
  have "keys_at_rest (r_gui idle_begin)" by (simp add: idle_begin_def privacy_run_def keys_at_rest_def gui_zero_def)
  then have all: "seen_events idle_env r = {EV_VBLANK}" if "gui_reaches idle_env demo_card idle_begin r" for r
    using idle_begin_reaches [OF that] ok mode idle_env_events(1) by blast
  then show "\<forall>r1. gui_reaches idle_env demo_card idle_begin r1 \<longrightarrow> seen_events idle_env r1 \<subseteq> {EV_VBLANK}" by simp
  show "\<forall>r1. gui_reaches idle_env demo_card idle_begin r1 \<longrightarrow>
      (\<exists>r2. gui_reaches idle_env demo_card r1 r2 \<and> EV_VBLANK \<in> seen_events idle_env r2)"
    using all gui_reaches.start by blast
  show "\<forall>u. 1000 \<le> length u \<longrightarrow> r_end idle_begin < e_clk idle_env (u @ hist (r_world idle_begin))"
    by (simp add: idle_env_def idle_begin_def)
qed

end
