(* ===== verification/Boot_Main.thy ===== *)
theory Boot_Main
  imports Boot_Idle
begin

text \<open>
  What \<open>main\<close> boots, over all its ways: directly from the RTC registers or the keys, without the
  menu, and through the whole run of the menu.
\<close>

section \<open>The run of the menu\<close>

text \<open>A boot that ends the loop is the boot of a round from a reachable state.\<close>

lemma loop_booted:
  assumes "gui_loop e bfs r = Some s" "s = Booted res w'"
  shows "\<exists>r1. gui_reaches e bfs r r1 \<and> gui_round e bfs r1 = Some (Booted res w')"
proof -
  have "s = Booted res w' \<longrightarrow> (\<exists>r1. gui_reaches e bfs r r1 \<and> gui_round e bfs r1 = Some (Booted res w'))"
  proof (rule gui_loop.raw_induct [where P = "\<lambda>e bfs r s. s = Booted res w' \<longrightarrow>
      (\<exists>r1. gui_reaches e bfs r r1 \<and> gui_round e bfs r1 = Some (Booted res w'))", OF _ assms(1)], intro impI)
    fix loop :: "gui_env \<Rightarrow> 'a mmc \<times> bootfs \<Rightarrow> 'a gui_run \<Rightarrow> 'a gui_step option" and e bfs r s
    assume IH: "\<And>e bfs r s. loop e bfs r = Some s \<Longrightarrow> s = Booted res w' \<longrightarrow>
        (\<exists>r1. gui_reaches e bfs r r1 \<and> gui_round e bfs r1 = Some (Booted res w'))"
      and run: "(case gui_round e bfs r of None \<Rightarrow> None | Some (Continue r) \<Rightarrow> loop e bfs r | Some s \<Rightarrow> Some s) = Some s"
      and s: "s = Booted res w'"
    show "\<exists>r1. gui_reaches e bfs r r1 \<and> gui_round e bfs r1 = Some (Booted res w')"
    proof (cases "\<exists>r1. gui_round e bfs r = Some (Continue r1)")
      case True
      then obtain r1 where r1: "gui_round e bfs r = Some (Continue r1)" by blast
      then have "loop e bfs r1 = Some s" using run by simp
      then obtain r2 where "gui_reaches e bfs r1 r2" "gui_round e bfs r2 = Some (Booted res w')"
        using IH s by blast
      then show ?thesis
        using gui_reaches_trans [OF _ gui_reaches.step [OF gui_reaches.start r1]] by blast
    next
      case False
      then have "gui_round e bfs r = Some s"
        using run by (auto split: option.splits gui_step.splits)
      then show ?thesis using s gui_reaches.start by blast
    qed
  qed
  then show ?thesis using assms(2) by blast
qed

lemma menu_boots_conf:
  assumes start: "gui_start e bfs (m, fb) junk w = Some r0" "n_items m = 0" "selection m = 0"
    and listed: "wanted r0 \<in> set (ids (the_menu (r_gui r0)))" and loop: "gui_loop e bfs r0 = Some (Booted res w')"
  shows "\<exists>b no w1. (emmc w = Some b \<or> sd w = Some b) \<and> is_conf (mem (menu_world e bfs w)) (snd b) no \<and>
    boot_selection e b no SPLASH_FB w1 = Some (res, w')"
proof -
  obtain r where r: "gui_reaches e bfs r0 r" "gui_round e bfs r = Some (Booted res w')"
    using loop_booted [OF loop refl] by blast
  let ?k = "r_boot_sel r"
  obtain b no w1 where k: "?k \<in> set (ids (the_menu (r_gui r0)))" "0 \<le> ?k" "?k < 64"
    and b: "(if ?k < 32 then emmc w else sd w) = Some b" "no = nat (?k mod 32)" "boot_selection e b no SPLASH_FB w1 = Some (res, w')"
    using menu_block [OF start listed r(1) disjI1 [OF r(2)]] r(2) by auto
  have w: "ids (the_menu (r_gui r0)) = menu_ids e (menu_world e bfs w)" "emmc (menu_world e bfs w) = emmc w" "sd (menu_world e bfs w) = sd w"
    using gui_start_shape [OF start] by auto
  have "is_conf (mem (menu_world e bfs w)) (snd b) no"
    using menu_ids_iff [OF k(2,3), of e "menu_world e bfs w"] k(1) b(1,2) by (auto simp: w split: if_splits)
  moreover have "emmc w = Some b \<or> sd w = Some b"
    using b(1) by (simp split: if_splits)
  ultimately show ?thesis using b(3) by blast
qed

text \<open>
  C9: whichever way \<open>main\<close> comes to boot a configuration, its block carries the magic of a
  configuration. Directly, in the build with the menu or in the one without it, the magic is in
  memory at that point. From the menu, over the whole run of \<open>boot_gui\<close>, the block is one of a card
  that was found, and the magic is in memory when the menu lists its items; that is so whenever the
  item exists that the menu should start on.
\<close>

theorem main_boots_conf:
  "(main_nogui d init key w = (Boot f i, w') \<or> main_gui d init key vbus w = (Boot f i, w') \<longrightarrow> is_conf (mem w') (snd f) i) \<and>
   (boot_gui e (m, fb) junk w = Some (Booted res w') \<and> n_items m = 0 \<and> selection m = 0 \<and>
      bfs = the (if emmc w \<noteq> None then emmc w else sd w) \<and>
      (\<forall>r0. gui_start e bfs (m, fb) junk w = Some r0 \<longrightarrow> wanted r0 \<in> set (ids (the_menu (r_gui r0)))) \<longrightarrow>
    (\<exists>b no w1. (emmc w = Some b \<or> sd w = Some b) \<and> is_conf (mem (menu_world e bfs w)) (snd b) no \<and>
       boot_selection e b no SPLASH_FB w1 = Some (res, w')))"
proof (intro conjI impI)
  assume "main_nogui d init key w = (Boot f i, w') \<or> main_gui d init key vbus w = (Boot f i, w')"
  then show "is_conf (mem w') (snd f) i" by (rule direct_is_conf)
next
  assume a: "boot_gui e (m, fb) junk w = Some (Booted res w') \<and> n_items m = 0 \<and> selection m = 0 \<and>
      bfs = the (if emmc w \<noteq> None then emmc w else sd w) \<and>
      (\<forall>r0. gui_start e bfs (m, fb) junk w = Some r0 \<longrightarrow> wanted r0 \<in> set (ids (the_menu (r_gui r0))))"
  then obtain r0 where "gui_start e bfs (m, fb) junk w = Some r0" "gui_loop e bfs r0 = Some (Booted res w')"
    by (auto simp: boot_gui_def bind_eq_Some_conv)
  with a show "\<exists>b no w1. (emmc w = Some b \<or> sd w = Some b) \<and> is_conf (mem (menu_world e bfs w)) (snd b) no \<and>
       boot_selection e b no SPLASH_FB w1 = Some (res, w')"
    using menu_boots_conf [of e bfs m fb junk w r0 res w'] by blast
qed

section \<open>Witness\<close>

text \<open>A display that always has a new frame, and a PMIC that always reports a short press.\<close>

definition pressed_device :: device where
  "pressed_device = (\<lambda>_ a. if a = LCD0_BASE + 0x04 then 0x800 else if a = RSB_STAT then 1 else if a = RSB_DATA0 then 0x10
     else if a = R_INTC_BASE + SUN6I_R_INTC_PENDING then 1 else 0)"

definition press_env :: gui_env where
  "press_env = demo_env\<lparr>e_dev := pressed_device\<rparr>"

lemma pressed_flags: "fst (pmic_read pressed_device a t) = 0x10"
proof -
  have "fst (poll_clear pressed_device RSB_CTRL m n t) = 0" for m n t
    by (subst poll_clear.simps) (simp add: readl_def pressed_device_def R_INTC_BASE_def SUN6I_R_INTC_PENDING_def Let_def)
  then show ?thesis
    by (simp add: pmic_read_def rsb_read_def rsb_wait_stat_def rsb_wait_bit_def split_beta readl_def pressed_device_def Let_def)
qed

lemma pressed_power: "fst (power_events pressed_device {EV_VBLANK} t) = {EV_VBLANK, EV_POK_SHORT}"
  by (simp add: power_events_def split_beta readl_def Let_def pressed_flags pok_events_def)
    (simp add: pressed_device_def R_INTC_BASE_def SUN6I_R_INTC_PENDING_def insert_commute)

text \<open>A round sees the frame and the press, and the menu stays as it is.\<close>

lemma press_events:
  assumes "run_ok L r" "keys_at_rest (r_gui r)" "\<not> selection_changed (the_menu (r_gui r))"
  shows "seen_events press_env r = {EV_VBLANK, EV_POK_SHORT}" "keys_at_rest (r_gui (round_start press_env r))"
    "g_now (r_gui (round_start press_env r)) = 5"
    "gui_menu_get_selection (the_menu (r_gui (round_start press_env r))) = gui_menu_get_selection (the_menu (r_gui r))"
    "\<not> selection_changed (the_menu (r_gui (round_start press_env r)))"
proof -
  let ?evs = "{EV_VBLANK, EV_POK_SHORT}" and ?t = "hist (r_world r)"
  obtain m fb where ws: "g_widgets (r_gui r) = [(m, fb)]"
    using assms(1) by (cases "g_widgets (r_gui r)"; cases "hd (g_widgets (r_gui r))") (auto simp: run_ok_def)
  then have m: "run_menu_ok m (r_world r)" "the_menu (r_gui r) = m"
    using assms(1) by (simp_all add: run_ok_def the_menu_def)
  have "menu_select ?evs m = Some (m\<lparr>selection_changed := False\<rparr>)"
    using menu_select_result [of m ?evs] m(1) by (simp add: run_menu_ok_def pressed_def)
  note up = update_Some [OF this]
  let ?m = "redrawn (menu_scroll (m\<lparr>selection_changed := False\<rparr>))"
  have m': "gui_menu_get_selection ?m = gui_menu_get_selection m" "\<not> selection_changed ?m"
    by (simp_all add: redrawn_def gui_menu_get_selection_def menu_draw_frame menu_scroll_frame)
  have "\<exists>dp' m2 fb2. update_widgets ?evs [(m, fb)] dp = Some ([(m2, fb2)], dp') \<and>
      gui_menu_get_selection m2 = gui_menu_get_selection m \<and> \<not> selection_changed m2" for dp
  proof (cases "m_disabled m")
    case True
    then show ?thesis using assms(3) m(2) by simp
  next
    case False
    obtain d' fb' where "gui_menu_update ?evs m dp fb = Some (?m, d', fb')" using up [of dp fb] by blast
    then have "update_widgets ?evs [(m, fb)] dp = Some ([(?m, fb')], d')" using False by simp
    then show ?thesis using m' by blast
  qed
  then obtain dp' m2 fb2 where w: "update_widgets ?evs [(m, fb)] (g_display (r_gui r)) = Some ([(m2, fb2)], dp')"
      "gui_menu_get_selection m2 = gui_menu_get_selection m" "\<not> selection_changed m2"
    by blast
  obtain t1 where vblank: "display_frame_done pressed_device ?t = (True, t1)"
    by (simp add: display_frame_done_def readl_def pressed_device_def Let_def)
  obtain t2 where power: "power_events pressed_device {EV_VBLANK} t1 = (?evs, t2)"
    using pressed_power [of t1] by (metis prod.collapse)
  obtain t3 where key: "lradc_get_pressed_key pressed_device t2 = (VolumeUp, t3)"
    by (simp add: lradc_get_pressed_key_def readl_def pressed_device_def R_INTC_BASE_def SUN6I_R_INTC_PENDING_def key_of_volts_def Let_def)
  have rest: "last_key (r_gui r) = VolumeUp" "key_change_ts (r_gui r) = 0"
    using assms(2) by (simp_all add: keys_at_rest_def)
  have "gui_get_events (e_dev press_env) (e_clk press_env) (r_gui r) ?t =
      Some ((r_gui r)\<lparr>g_events := ?evs, g_now := 5, g_widgets := [(m2, fb2)], g_display := dp'\<rparr>, t3)"
    by (simp add: gui_get_events_def press_env_def demo_env_def vblank power key volume_events_def rest ws w(1) Let_def del: update_widgets.simps)
  then show "seen_events press_env r = ?evs" "keys_at_rest (r_gui (round_start press_env r))"
    "g_now (r_gui (round_start press_env r)) = 5"
    "gui_menu_get_selection (the_menu (r_gui (round_start press_env r))) = gui_menu_get_selection (the_menu (r_gui r))"
    "\<not> selection_changed (the_menu (r_gui (round_start press_env r)))"
    using w(2,3) m(2) rest by (simp_all add: round_start_def seen_events_def keys_at_rest_def the_menu_def)
qed

lemma start_mem: "mem (r_world (round_start e r)) = mem (r_world r)"
  by (simp add: round_start_def split_beta Let_def)

text \<open>The round that is left for a boot.\<close>

lemma press_round:
  assumes ok: "run_ok L r" and keys: "keys_at_rest (r_gui r)" "\<not> selection_changed (the_menu (r_gui r))"
    and "r_mode r = STATE_MENU" "gui_menu_get_selection (the_menu (r_gui r)) < 64"
  shows "\<exists>r'. gui_round press_env bfs r = Some (Continue r') \<and> r_mode r' = STATE_BOOT \<and>
    r_boot_sel r' = gui_menu_get_selection (the_menu (r_gui r)) \<and> mem (r_world r') = mem (r_world r) \<and>
    keys_at_rest (r_gui r') \<and> \<not> selection_changed (the_menu (r_gui r'))"
proof -
  let ?s = "round_start press_env r"
  note ev = press_events [OF ok keys]
  note u = round_unfold(2) [OF ok, of press_env] round_unfold(7) [OF ok, of press_env bfs]
  obtain r1 where r1: "round_vblank press_env bfs ?s = Some (Inr r1)" "r_gui r1 = r_gui ?s" "r_mode r1 = STATE_MENU"
      "mem (r_world r1) = mem (r_world r)"
    using u(1) assms(4) by (simp add: round_vblank_def Let_def on_hist_def start_mem)
  have evs: "g_events (r_gui ?s) = {EV_VBLANK, EV_POK_SHORT}" using ev(1) by (simp add: seen_events_def)
  let ?r2 = "r1\<lparr>r_end := 10000005\<rparr>"
  have r2: "round_deadline press_env r1 = ?r2"
    using r1(2) evs ev(3) by (simp add: round_deadline_def Let_def press_env_def demo_env_def)
  have preview: "round_preview bfs ?r2 = Some ?r2"
    using ev(5) r1(2) by (simp add: round_preview_def)
  have "round_short_press press_env (round_long_press press_env ?r2) =
      Continue (?r2\<lparr>r_mode := STATE_BOOT, r_boot_sel := gui_menu_get_selection (the_menu (r_gui r))\<rparr>)"
    using evs ev(4) r1(2) assms(5) by (simp add: round_long_press_def round_short_press_def Let_def BOOTSEL_FEL_def BOOTSEL_EMMC_def BOOTSEL_POWEROFF_def)
  then have "gui_round press_env bfs r =
      Some (Continue (?r2\<lparr>r_mode := STATE_BOOT, r_boot_sel := gui_menu_get_selection (the_menu (r_gui r))\<rparr>))"
    by (simp add: u(2) evs r1(1) r2 preview)
  then show ?thesis
    using r1(2,4) ev(2,5) by simp
qed

text \<open>The first state.\<close>

lemma start_more:
  assumes "gui_start e bfs (m, fb) junk w = Some r"
  shows "key_change_ts (r_gui r) = 0" "\<exists>t. last_key (r_gui r) = fst (lradc_get_pressed_key (e_dev e) t)"
    "selection_changed (the_menu (r_gui r)) = selection_changed m" "r_mode r = STATE_MENU"
    "mem (r_world r) = snd (menu_title (snd bfs) (mem (menu_world e bfs w)))"
proof -
  have add: "selection_changed (gui_menu_add_item k s f a m) = selection_changed m" for k s f a m
    by (simp add: gui_menu_add_item_def Let_def)
  have confs: "selection_changed (fold (add_conf mm fs base) is m) = selection_changed m" for mm fs base "is" m
    by (induction "is" arbitrary: m) (simp_all add: add_conf_def add)
  have items: "selection_changed (fst (add_items e w p m)) = selection_changed m" for w :: "'a world" and p m
    by (auto simp: add_items_def add_emmc_items_def add_sd_items_def set_item_active_def add confs Let_def split: option.splits prod.splits)
  have sel: "selection_changed (select_default k b m) = selection_changed m" for k b m
    by (simp add: select_default_def gui_menu_set_selection_def gui_menu_set_active_def Let_def split: option.split)
  have title: "selection_changed (gui_menu_set_title p s fg bg m) = selection_changed m" for p s fg bg m
    by (simp add: gui_menu_set_title_def Let_def split: option.split)
  show "key_change_ts (r_gui r) = 0" "\<exists>t. last_key (r_gui r) = fst (lradc_get_pressed_key (e_dev e) t)"
    "selection_changed (the_menu (r_gui r)) = selection_changed m" "r_mode r = STATE_MENU"
    "mem (r_world r) = snd (menu_title (snd bfs) (mem (menu_world e bfs w)))"
    using assms by (auto simp: gui_start_def menu_world_def gui_init_def gui_zero_def split_beta Let_def the_menu_def items sel title bind_eq_Some_conv)
qed

text \<open>The only configuration has no images, so the attempt to boot it ends in a panic.\<close>

lemma demo_block: "read_bytes (mem demo_world_emmc) (block_addr (snd demo_card) 0) 2048 = bytes '':BFCONF:'' @ replicate 2040 0"
proof -
  have "mem demo_world_emmc (0x60000800 + of_nat i) = (bytes '':BFCONF:'' @ replicate 2040 0) ! i" if "i < 2048" for i
    using that by (simp add: demo_world_emmc_def mem_write_def nth_append unat_of_nat)
  then show ?thesis
    by (intro nth_equalityI) (simp_all add: read_bytes_def block_addr_def demo_card_def)
qed

lemma demo_images_none: "\<forall>im \<in> set (bc_images (dec_conf (bytes '':BFCONF:'' @ replicate 2040 0))). im_type im = 0"
proof -
  have zero: "be32_of (replicate n 0) = 0" if four: "4 \<le> n" for n
  proof -
    obtain k where "n = 4 + k" using le_Suc_ex [OF four] by blast
    then have "replicate n (0 :: u8) = 0 # 0 # 0 # 0 # replicate k 0" by (simp add: numeral_eq_Suc)
    then show ?thesis by simp
  qed
  have "drop 8 (bytes '':BFCONF:'' @ replicate 2040 0) = replicate 2040 (0 :: u8)"
    by simp
  then show ?thesis
    by (auto simp: dec_conf_def dec_image_def intro!: zero simp del: drop_append)
qed

lemma demo_panics:
  assumes "mem w = mem demo_world_emmc"
  shows "\<exists>w'. boot_selection e demo_card 0 fbn w = Some (Panicked 12, w')"
    "load_splash (fst demo_card) (snd demo_card) 0 dest w = (False, w)"
proof -
  let ?ims = "bc_images (dec_conf (bytes '':BFCONF:'' @ replicate 2040 0))"
  have "last_image 0 ?ims = None"
    using demo_images_none by (auto simp: last_image_def image_kind_def find_None_iff)
  then have missing: "missing_images (fold scan_image ?ims boot_zero)"
    using present_images(1) [OF refl, of ?ims] by (meson zero_less_numeral)
  then show "\<exists>w'. boot_selection e demo_card 0 fbn w = Some (Panicked 12, w')"
    by (simp add: boot_selection_def boot_prepare_def assms demo_block split_beta Let_def)
  have "splash_image ims = None" if "\<forall>im \<in> set ims. im_type im = 0" for ims
    using that by (induction ims) auto
  then show "load_splash (fst demo_card) (snd demo_card) 0 dest w = (False, w)"
    using demo_images_none by (simp add: load_splash_def assms demo_block)
qed

text \<open>The menu boots configuration 0 of the eMMC in its second round.\<close>

lemma press_boots: "\<exists>w'. boot_gui press_env (sample_base, \<lambda>_. 0) (replicate 64 0) demo_world_emmc = Some (Booted (Panicked 12) w')"
  "\<forall>r0. gui_start press_env demo_card (sample_base, \<lambda>_. 0) (replicate 64 0) demo_world_emmc = Some r0 \<longrightarrow>
     wanted r0 \<in> set (ids (the_menu (r_gui r0)))"
proof -
  let ?w = "demo_world_emmc"
  obtain r where r: "gui_start press_env demo_card (sample_base, \<lambda>_. 0) (replicate 64 0) ?w = Some r"
    using demo_start [of pressed_device demo_card ?w] by (auto simp: press_env_def)
  have no_I: "\<forall>a. mem ?w a \<noteq> of_char CHR ''I''"
  proof
    fix a
    have "mem_write (\<lambda>_. 0) 0x60000800 bs a \<in> insert 0 (set bs)" for bs
      by (auto simp: mem_write_def)
    from this [of "bytes '':BFCONF:''"] show "mem ?w a \<noteq> of_char CHR ''I''"
      by (auto simp: demo_world_emmc_def bytes_def)
  qed
  have start: "n_items sample_base = 0" "selection sample_base = 0" "\<not> selection_changed sample_base"
    by (rule sample_base_values)+ (simp add: sample_base_def gui_menu_def Let_def split_beta)
  have mem: "mem (menu_world press_env demo_card ?w) = mem ?w" by (rule demo_menu_world [OF no_I])
  note shape = gui_start_shape [OF r start(1,2)] and more = start_more [OF r]
  obtain w1 where w1: "w1 = menu_world press_env demo_card ?w" "emmc w1 = emmc ?w" "ids (the_menu (r_gui r)) = menu_ids press_env w1"
      "emmc (r_world r) = emmc ?w" "\<exists>t. r_def r = fst (rtc_bootsel_get (e_dev press_env) t)"
    and sel: "wanted r \<in> set (menu_ids press_env w1) \<Longrightarrow> gui_menu_get_selection (the_menu (r_gui r)) = wanted r"
    using shape by metis
  have "r_def r = - 1"
    using w1(5) by (auto simp: press_env_def demo_env_def rtc_bootsel_get_def readl_def pressed_device_def R_INTC_BASE_def
        SUN6I_R_INTC_PENDING_def Let_def)
  then have wanted: "wanted r = 0" using w1(4) by (simp add: wanted_def demo_world_emmc_def)
  have "0 \<in> set (menu_ids press_env w1)"
    using w1(2) demo_is_conf mem by (subst menu_ids_iff) (auto simp: demo_world_emmc_def w1(1))
  then have listed: "wanted r \<in> set (ids (the_menu (r_gui r)))" and zero: "gui_menu_get_selection (the_menu (r_gui r)) = 0"
    using sel wanted w1(3) by simp_all
  show "\<forall>r0. gui_start press_env demo_card (sample_base, \<lambda>_. 0) (replicate 64 0) ?w = Some r0 \<longrightarrow>
     wanted r0 \<in> set (ids (the_menu (r_gui r0)))"
    using r listed by simp
  let ?L = "ids (the_menu (r_gui r))"
  have ok: "run_ok ?L r" by (rule gui_start_ok [OF r start(1,2) listed])
  have keys: "keys_at_rest (r_gui r)" "\<not> selection_changed (the_menu (r_gui r))"
    using more(1-3) start(3) by (auto simp: keys_at_rest_def press_env_def lradc_get_pressed_key_def readl_def pressed_device_def
        R_INTC_BASE_def SUN6I_R_INTC_PENDING_def key_of_volts_def Let_def)
  have rmem: "mem (r_world r) = mem ?w"
    using more(5) mem by (simp add: menu_title_def device_id_addr_def demo_card_def demo_world_emmc_def mem_write_def)
  obtain r1 where r1: "gui_round press_env demo_card r = Some (Continue r1)" "r_mode r1 = STATE_BOOT" "r_boot_sel r1 = 0"
      "mem (r_world r1) = mem ?w" "keys_at_rest (r_gui r1)" "\<not> selection_changed (the_menu (r_gui r1))"
    using press_round [OF ok keys more(4), of demo_card] zero rmem by auto
  have ok1: "run_ok ?L r1" using gui_round_ok [OF ok, of press_env demo_card] r1(1) by (simp add: step_ok_def)
  have cards: "emmc (r_world r1) = emmc ?w" using round_cards [OF r1(1) ok] w1(4) by simp
  let ?s = "round_start press_env r1"
  note u = round_unfold(2-5) [OF ok1, of press_env] round_unfold(7) [OF ok1, of press_env demo_card]
  have block: "conf_block 0 (r_world ?s) = Some (demo_card, 0)"
    using u(3) cards by (simp add: conf_block_def demo_world_emmc_def demo_card_def)
  have smem: "mem (r_world ?s) = mem ?w" by (simp add: start_mem r1(4))
  then have after: "\<exists>w'. boot_selection press_env demo_card 0 SPLASH_FB (on_hist h (r_world ?s)) = Some (Panicked 12, w')" for h
    by (intro demo_panics(1)) (simp add: on_hist_def)
  then obtain w2 where "gui_boot press_env 0 (r_gui ?s) (r_world ?s) = Some (Panicked 12, w2)"
    by (simp add: gui_boot_def block demo_panics(2) [OF smem] Let_def) blast
  then have "gui_round press_env demo_card r1 = Some (Booted (Panicked 12) w2)"
    using press_events(1) [OF ok1 r1(5,6)] u(1,2) r1(2,3) by (simp add: u(5) seen_events_def round_vblank_def Let_def)
  then have "gui_loop press_env demo_card r = Some (Booted (Panicked 12) w2)"
    using r1(1) by (subst gui_loop.simps, simp, subst gui_loop.simps) simp
  then show "\<exists>w'. boot_gui press_env (sample_base, \<lambda>_. 0) (replicate 64 0) ?w = Some (Booted (Panicked 12) w')"
    using r by (simp add: boot_gui_def demo_world_emmc_def demo_card_def)
qed

theorem main_boots_conf_witness:
  "is_conf (mem demo_world_emmc) (snd demo_card) 0 \<and>
   (\<exists>w' b no w1. boot_gui press_env (sample_base, \<lambda>_. 0) (replicate 64 0) demo_world_emmc = Some (Booted (Panicked 12) w') \<and>
      boot_selection press_env b no SPLASH_FB w1 = Some (Panicked 12, w'))"
proof -
  obtain w' where run: "boot_gui press_env (sample_base, \<lambda>_. 0) (replicate 64 0) demo_world_emmc = Some (Booted (Panicked 12) w')"
    using press_boots(1) by blast
  have card: "the (if emmc demo_world_emmc \<noteq> None then emmc demo_world_emmc else sd demo_world_emmc) = demo_card"
    by (simp add: demo_world_emmc_def demo_card_def)
  have start: "n_items sample_base = 0" "selection sample_base = 0" by (rule sample_base_values)+
  have "is_conf (mem demo_world_emmc) (snd demo_card) 0"
    using main_boots_conf demo_main by (metis demo_card_def)
  moreover have "\<exists>b no w1. boot_selection press_env b no SPLASH_FB w1 = Some (Panicked 12, w')"
    using main_boots_conf [of _ _ _ _ _ _ _ _ press_env sample_base "\<lambda>_. 0" "replicate 64 0" "Panicked 12" demo_card] run start press_boots(2) card
    by metis
  ultimately show ?thesis using run by blast
qed

end
