(* ===== verification/Mksunxiboot.thy ===== *)
theory Mksunxiboot
  imports Prelude
begin

text \<open>
  The tool that puts the header of the boot ROM in front of the boot loader,
  \<open>src/src/uboot/tools/mksunxiboot.c\<close>, with the header structure of \<open>asm/arch/spl.h\<close>. The fields
  of the header hold the values that \<open>le32toh\<close> reads. The host (opening, reading and writing
  files) is a parameter. \<open>brom_accepts\<close> is what the boot ROM asks of an image: the magic, the
  length and the sum over the words with the stamp in the place of the checksum.
\<close>

section \<open>Little-endian words\<close>

definition le32_bytes :: "u32 \<Rightarrow> u8 list" where
  "le32_bytes w = [ucast w, ucast (drop_bit 8 w), ucast (drop_bit 16 w), ucast (drop_bit 24 w)]"

lemma length_le32_bytes [simp, codec]: "length (le32_bytes w) = 4"
  by (simp add: le32_bytes_def)

lemma le32_roundtrip [simp, codec]: "le32_of (le32_bytes w @ xs) = w"
  using be32_roundtrip_Nil [of w]
  by (simp add: le32_bytes_def be32_bytes_def ac_simps)

lemma le32_roundtrip_Nil [simp]: "le32_of (le32_bytes w) = w"
  using le32_roundtrip [of w "[]"] by (simp del: le32_roundtrip)

text \<open>The buffer seen as an array of words.\<close>

fun le32_words :: "u8 list \<Rightarrow> u32 list" where
  "le32_words (a # b # c # d # xs) = le32_of [a, b, c, d] # le32_words xs"
| "le32_words _ = []"

lemma le32_words_bytes [simp]: "le32_words (le32_bytes w @ xs) = w # le32_words xs"
proof -
  obtain a b c d where w: "le32_bytes w = [a, b, c, d]"
    by (simp add: le32_bytes_def)
  with le32_roundtrip_Nil [of w] show ?thesis
    by simp
qed

lemma le32_words_append:
  "4 dvd length xs \<Longrightarrow> le32_words (xs @ ys) = le32_words xs @ le32_words ys"
proof (induction xs rule: le32_words.induct)
  case (1 a b c d xs)
  from \<open>4 dvd length (a # b # c # d # xs)\<close> have "4 dvd length xs" by simp presburger
  with 1 show ?case by simp
qed (simp_all, presburger+)

lemma length_le32_words: "length (le32_words xs) = length xs div 4"
  by (induction xs rule: le32_words.induct) auto

lemma take_le32_words: "le32_words (take (4 * n) xs) = take n (le32_words xs)"
proof (induction n arbitrary: xs)
  case (Suc n)
  have "4 * Suc n = Suc (Suc (Suc (Suc (4 * n))))" by simp
  then show ?case
    by (cases xs rule: le32_words.cases) (simp_all add: Suc del: mult_Suc_right)
qed simp

section \<open>The header\<close>

definition BOOT0_MAGIC :: "u8 list" where
  "BOOT0_MAGIC = bytes ''eGON.BT0''"

definition SPL_SIGNATURE :: "u8 list" where
  "SPL_SIGNATURE = bytes ''SPL''"

definition SPL_VERSION :: "u32 \<Rightarrow> u32 \<Rightarrow> u32" where
  "SPL_VERSION maj mi =
     push_bit 5 (maj AND (push_bit 3 1 - 1)) OR (mi AND (push_bit 5 1 - 1))"

definition SPL_HEADER_VERSION :: u32 where
  "SPL_HEADER_VERSION = SPL_VERSION 0 2"

record boot_file_head =
  b_instruction :: u32
  magic :: "u8 list"
  check_sum :: u32
  head_length :: u32
  spl_signature :: "u8 list"
  fel_script_address :: u32
  fel_uEnv_length :: u32
  dt_name_offset :: u32
  dram_size :: u32
  boot_media :: u32
  string_pool :: "u8 list"

definition zero_head :: boot_file_head where
  "zero_head = \<lparr>b_instruction = 0, magic = replicate 8 0, check_sum = 0, head_length = 0,
     spl_signature = replicate 4 0, fel_script_address = 0, fel_uEnv_length = 0,
     dt_name_offset = 0, dram_size = 0, boot_media = 0, string_pool = replicate 52 0\<rparr>"

text \<open>\<open>sizeof(struct boot_file_head)\<close> and \<open>offsetof(struct boot_file_head, string_pool)\<close>.\<close>

definition head_size :: nat where
  "head_size = 96"

definition string_pool_offset :: nat where
  "string_pool_offset = 44"

definition enc_head :: "boot_file_head \<Rightarrow> u8 list" where
  "enc_head h = le32_bytes (b_instruction h) @ magic h @ le32_bytes (check_sum h) @
     le32_bytes (head_length h) @ spl_signature h @ le32_bytes (fel_script_address h) @
     le32_bytes (fel_uEnv_length h) @ le32_bytes (dt_name_offset h) @ le32_bytes (dram_size h) @
     le32_bytes (boot_media h) @ string_pool h"

definition head_wf :: "boot_file_head \<Rightarrow> bool" where
  "head_wf h \<longleftrightarrow> length (magic h) = 8 \<and> length (spl_signature h) = 4 \<and> length (string_pool h) = 52"

lemma length_enc_head [codec]: "head_wf h \<Longrightarrow> length (enc_head h) = head_size"
  by (simp add: head_wf_def enc_head_def head_size_def)

text \<open>\<open>struct boot_img\<close>: the header, the code and room for the padding.\<close>

definition SRAM_LOAD_MAX_SIZE :: nat where
  "SRAM_LOAD_MAX_SIZE = 0x8000 - head_size"

definition BLOCK_SIZE :: nat where
  "BLOCK_SIZE = 0x200"

record boot_img =
  header :: boot_file_head
  code :: "u8 list"
  pad :: "u8 list"

definition zero_img :: boot_img where
  "zero_img = \<lparr>header = zero_head, code = replicate SRAM_LOAD_MAX_SIZE 0, pad = replicate BLOCK_SIZE 0\<rparr>"

definition enc_img :: "boot_img \<Rightarrow> u8 list" where
  "enc_img img = enc_head (header img) @ code img @ pad img"

section \<open>The checksum\<close>

definition STAMP_VALUE :: u32 where
  "STAMP_VALUE = 0x5F0A6C39"

text \<open>\<open>gen_check_sum\<close>: \<open>None\<close> is the return value -1.\<close>

definition gen_check_sum :: "boot_img \<Rightarrow> boot_img option" where
  "gen_check_sum img =
     (let len = head_length (header img)
      in if len AND 3 \<noteq> 0 then None
         else
           (let img = img\<lparr>header := (header img)\<lparr>check_sum := STAMP_VALUE\<rparr>\<rparr>;
                loop = unat (drop_bit 2 len);
                sum = foldl (+) 0 (take loop (le32_words (enc_img img)))
            in Some (img\<lparr>header := (header img)\<lparr>check_sum := sum\<rparr>\<rparr>)))"

section \<open>The program\<close>

text \<open>
  The host: the content of an input file that can be opened, whether the output file can be
  created, and how many bytes \<open>read\<close> and \<open>write\<close> transfer for a request.
\<close>

record host =
  open_in :: "u8 list \<Rightarrow> u8 list option"
  open_out :: "u8 list \<Rightarrow> bool"
  read_count :: "u32 \<Rightarrow> int"
  write_count :: "u32 \<Rightarrow> int"

datatype mk_error =
    NoDtArg | BadOption "u8 list" | Usage | OpenInput | TooLarge | OpenOutput | Reading | Checksum
  | Writing

text \<open>The arguments behind the name of the tool.\<close>

fun options :: "u8 list list \<Rightarrow> u8 list option \<Rightarrow> mk_error + (u8 list list \<times> u8 list option)" where
  "options [] dt = Inr ([], dt)"
| "options (a # as) dt =
     (if take 1 a = [of_char CHR ''-'']
      then if a = bytes ''--default-dt''
           then (case as of [] \<Rightarrow> Inl NoDtArg | d # as' \<Rightarrow> options as' (Some d))
           else Inl (BadOption a)
      else Inr (a # as, dt))"

text \<open>\<open>ALIGN(file_size + sizeof(struct boot_file_head), BLOCK_SIZE)\<close>, in the width of \<open>size_t\<close>.\<close>

definition align_block :: "u32 \<Rightarrow> u32" where
  "align_block file_size =
     ucast ((ucast file_size + of_nat head_size + (of_nat BLOCK_SIZE - 1)) AND NOT (of_nat BLOCK_SIZE - 1) :: u64)"

text \<open>\<open>strcpy\<close> into the string pool and the offset of the name, when it fits.\<close>

definition set_dt_name :: "u8 list option \<Rightarrow> boot_file_head \<Rightarrow> boot_file_head" where
  "set_dt_name default_dt h =
     (case default_dt of
        None \<Rightarrow> h
      | Some dt \<Rightarrow>
          if length dt + 1 \<le> length (string_pool h)
          then h\<lparr>string_pool := dt @ 0 # drop (length dt + 1) (string_pool h),
                 dt_name_offset := of_nat string_pool_offset\<rparr>
          else h)"

definition fill_header :: "u32 \<Rightarrow> u8 list option \<Rightarrow> boot_file_head \<Rightarrow> boot_file_head" where
  "fill_header file_size default_dt h =
     (let h = h\<lparr>b_instruction := 0xEA000000 OR (of_nat (head_size div 4 - 2) AND 0x00FFFFFF)\<rparr>;
          h = h\<lparr>magic := take 8 BOOT0_MAGIC\<rparr>;
          h = h\<lparr>head_length := align_block file_size\<rparr>;
          h = h\<lparr>spl_signature := take 3 SPL_SIGNATURE @ drop 3 (spl_signature h)\<rparr>;
          h = h\<lparr>spl_signature := (spl_signature h)[3 := ucast SPL_HEADER_VERSION]\<rparr>
      in set_dt_name default_dt h)"

text \<open>
  \<open>main\<close> from the reading of the file on: the error, if any, and what is in the output file.
\<close>

definition make_image :: "host \<Rightarrow> u32 \<Rightarrow> u8 list \<Rightarrow> u8 list option \<Rightarrow> mk_error option \<times> u8 list" where
  "make_image h file_size content default_dt =
     (if word_of_int (read_count h file_size) \<noteq> file_size then (Some Reading, [])
      else
        (let img = zero_img;
             img = img\<lparr>code := take (unat file_size) content @ drop (unat file_size) (code img)\<rparr>;
             img = img\<lparr>header := fill_header file_size default_dt (header img)\<rparr>
         in case gen_check_sum img of
              None \<Rightarrow> (Some Checksum, [])
            | Some img \<Rightarrow>
                (let len = head_length (header img); count = write_count h len;
                     out = take (nat count) (take (unat len) (enc_img img))
                 in (if word_of_int count \<noteq> len then Some Writing else None, out))))"

text \<open>
  \<open>main\<close>: the content of the output file is \<open>None\<close> while it has not been opened. \<open>file_size\<close> is
  what \<open>lseek\<close> returns, as an \<open>unsigned\<close>.
\<close>

definition mksunxiboot :: "host \<Rightarrow> u8 list list \<Rightarrow> mk_error option \<times> u8 list option" where
  "mksunxiboot h argv =
     (case options argv None of
        Inl e \<Rightarrow> (Some e, None)
      | Inr (infile # outfile # _, default_dt) \<Rightarrow>
          (case open_in h infile of
             None \<Rightarrow> (Some OpenInput, None)
           | Some content \<Rightarrow>
               (let file_size = of_nat (length content)
                in if unat file_size > SRAM_LOAD_MAX_SIZE then (Some TooLarge, None)
                   else if \<not> open_out h outfile then (Some OpenOutput, None)
                   else apsnd Some (make_image h file_size content default_dt)))
      | Inr _ \<Rightarrow> (Some Usage, None))"

lemma options_cases:
  obtains (err) e where "options argv None = Inl e"
    | (few) as dt where "options argv None = Inr (as, dt)" "length as < 2"
    | (two) i j as dt where "options argv None = Inr (i # j # as, dt)"
proof (cases "options argv None")
  case (Inr r)
  obtain as dt where r: "r = (as, dt)"
    by (cases r)
  show ?thesis
  proof (cases as)
    case (Cons i as')
    with Inr r few [of as dt] two [of i _ _ dt] show ?thesis
      by (cases as') auto
  qed (use Inr r few [of as dt] in simp)
qed (rule err)

lemma mksunxiboot_few:
  "options argv None = Inr (as, dt) \<Longrightarrow> length as < 2 \<Longrightarrow> mksunxiboot h argv = (Some Usage, None)"
  by (auto simp: mksunxiboot_def split: list.splits)

lemma mksunxiboot_two:
  assumes "options argv None = Inr (i # j # as, dt)"
  shows "mksunxiboot h argv =
    (case open_in h i of
       None \<Rightarrow> (Some OpenInput, None)
     | Some content \<Rightarrow>
         if unat (of_nat (length content) :: u32) > SRAM_LOAD_MAX_SIZE then (Some TooLarge, None)
         else if \<not> open_out h j then (Some OpenOutput, None)
         else apsnd Some (make_image h (of_nat (length content)) content dt))"
  unfolding mksunxiboot_def assms by (simp add: Let_def cong: option.case_cong)

section \<open>What the boot ROM asks of an image\<close>

definition brom_accepts :: "u8 list \<Rightarrow> bool" where
  "brom_accepts im \<longleftrightarrow>
     (let len = unat (le32_of (drop 16 im)); ws = le32_words (take len im)
      in take 8 (drop 4 im) = bytes ''eGON.BT0'' \<and> len mod 4 = 0 \<and> len \<le> length im \<and>
         4 \<le> length ws \<and> foldl (+) 0 (ws[3 := STAMP_VALUE]) = ws ! 3)"

lemma and_3: "(len :: u32) AND 3 = 0 \<longleftrightarrow> unat len mod 4 = 0"
proof -
  have "len AND 3 = take_bit 2 len"
    by (simp add: take_bit_eq_mask mask_numeral)
  then show ?thesis
    by (simp add: take_bit_eq_mod unat_mod flip: unat_eq_0)
qed

lemma words_of_img:
  assumes "head_wf h"
  shows "le32_words (enc_img \<lparr>header = h\<lparr>check_sum := c\<rparr>, code = cs, pad = ps\<rparr>) =
    le32_words (le32_bytes (b_instruction h) @ magic h) @ c #
    le32_words (drop 16 (enc_img \<lparr>header = h, code = cs, pad = ps\<rparr>))"
    "length (le32_words (le32_bytes (b_instruction h) @ magic h)) = 3"
proof -
  have "length (magic h) = 8"
    using assms by (simp add: head_wf_def)
  then have "length (le32_bytes (b_instruction h) @ magic h) = 12"
    by simp
  then show "length (le32_words (le32_bytes (b_instruction h) @ magic h)) = 3"
    by (simp only: length_le32_words)
  have "enc_img \<lparr>header = h\<lparr>check_sum := c\<rparr>, code = cs, pad = ps\<rparr> =
      (le32_bytes (b_instruction h) @ magic h) @ le32_bytes c @
      drop 16 (enc_img \<lparr>header = h, code = cs, pad = ps\<rparr>)"
    using \<open>length (magic h) = 8\<close> by (simp add: enc_img_def enc_head_def)
  with \<open>length (_ @ _) = 12\<close> show "le32_words (enc_img \<lparr>header = h\<lparr>check_sum := c\<rparr>, code = cs, pad = ps\<rparr>) =
    le32_words (le32_bytes (b_instruction h) @ magic h) @ c #
    le32_words (drop 16 (enc_img \<lparr>header = h, code = cs, pad = ps\<rparr>))"
    by (simp only: le32_words_append le32_words_bytes) (simp add: le32_words_append)
qed

lemma brom_acceptsI:
  assumes "take 8 (drop 4 im) = bytes ''eGON.BT0''" "le32_of (drop 16 im) = len"
    and "unat len mod 4 = 0" "unat len \<le> length im"
    and "le32_words (take (unat len) im) = pre @ c # tail" "length pre = 3"
    and "c = foldl (+) 0 (pre @ STAMP_VALUE # tail)"
  shows "brom_accepts im"
  unfolding brom_accepts_def Let_def
  using assms by (simp add: list_update_append nth_append)

text \<open>What the tool makes of an image with the checksum is what the boot ROM accepts.\<close>

lemma gen_check_sum_accepted:
  assumes "head_wf (header img)" "magic (header img) = BOOT0_MAGIC"
    and "unat (head_length (header img)) mod 4 = 0" "20 \<le> unat (head_length (header img))"
    and "unat (head_length (header img)) \<le> length (enc_img img)"
  shows "\<exists>c. gen_check_sum img = Some (img\<lparr>header := (header img)\<lparr>check_sum := c\<rparr>\<rparr>) \<and>
    brom_accepts (take (unat (head_length (header img))) (enc_img (img\<lparr>header := (header img)\<lparr>check_sum := c\<rparr>\<rparr>)))"
proof -
  obtain h cs ps where img: "img = \<lparr>header = h, code = cs, pad = ps\<rparr>"
    by (cases img)
  let ?n = "unat (head_length h)"
  define pre where "pre = le32_words (le32_bytes (b_instruction h) @ magic h)"
  let ?tail = "le32_words (drop 16 (enc_img img))"
  let ?img = "\<lambda>c. img\<lparr>header := h\<lparr>check_sum := c\<rparr>\<rparr>"
  have "20 \<le> ?n" "?n mod 4 = 0"
    using assms(3,4) by (simp_all add: img)
  then have "?n = 4 * Suc (Suc (Suc (Suc (?n div 4 - 4))))"
    by presburger
  then obtain k where k: "?n = 4 * Suc (Suc (Suc (Suc k)))"
    by blast
  have wf: "head_wf h" and mg: "magic h = BOOT0_MAGIC" and len: "?n \<le> length (enc_img img)"
    using assms by (simp_all add: img)
  have words: "le32_words (enc_img (?img c)) = pre @ c # ?tail" for c
    using words_of_img(1) [OF wf] by (simp add: img pre_def)
  have pre: "length pre = 3"
    unfolding pre_def by (rule words_of_img(2) [OF wf])
  have taken: "le32_words (take ?n (enc_img (?img c))) = pre @ c # take k ?tail" for c
    unfolding k take_le32_words words using pre by simp
  define c where "c = foldl (+) 0 (pre @ STAMP_VALUE # take k ?tail)"
  have loop: "unat (drop_bit 2 (head_length h)) = Suc (Suc (Suc (Suc k)))"
    using k by (simp add: drop_bit_eq_div unat_div)
  have run: "gen_check_sum img = Some (?img c)"
    unfolding gen_check_sum_def and_3
    using assms(3) pre by (simp add: img Let_def loop c_def)
      (use words [of STAMP_VALUE] in \<open>simp add: img\<close>)
  have "length (enc_img (?img c)) = length (enc_img img)"
    using wf by (simp add: img enc_img_def enc_head_def)
  moreover obtain rest where enc: "enc_img (?img c) =
      le32_bytes (b_instruction h) @ BOOT0_MAGIC @ le32_bytes c @ le32_bytes (head_length h) @ rest"
    by (simp add: img enc_img_def enc_head_def mg)
  have "drop 16 (take ?n (enc_img (?img c))) = le32_bytes (head_length h) @ take (?n - 20) rest"
    unfolding enc using \<open>20 \<le> ?n\<close> by (simp add: drop_take BOOT0_MAGIC_def)
  then have "le32_of (drop 16 (take ?n (enc_img (?img c)))) = head_length h"
    by simp
  moreover have "take 8 (drop 4 (take ?n (enc_img (?img c)))) = bytes ''eGON.BT0''"
    unfolding enc using \<open>20 \<le> ?n\<close> by (simp add: drop_take BOOT0_MAGIC_def)
  ultimately have "brom_accepts (take ?n (enc_img (?img c)))"
    using len \<open>?n mod 4 = 0\<close> pre taken [of c] by (intro brom_acceptsI) (auto simp: c_def)
  with run show ?thesis
    by (auto simp: img)
qed

section \<open>The header that the tool writes\<close>

lemma align_block_value:
  assumes "n \<le> SRAM_LOAD_MAX_SIZE"
  shows "unat (align_block (of_nat n)) = (n + 607) div 512 * 512"
proof -
  have m: "(511 :: u64) = mask 9"
    by (simp add: mask_numeral)
  have "NOT (511 :: u64) AND x = push_bit 9 (drop_bit 9 x)" for x
    unfolding m by (rule bit_word_eqI) (auto simp: bit_simps)
  then have and_not: "- 512 AND x = push_bit 9 (drop_bit 9 x)" for x :: u64
    by simp
  have small: "n \<le> 32672"
    using assms by (simp add: SRAM_LOAD_MAX_SIZE_def head_size_def)
  then have "(ucast (of_nat n :: u32) :: u64) = of_nat n"
    by (simp add: word_unat_eq_iff unat_of_nat)
  then have "align_block (of_nat n) = ucast (push_bit 9 (drop_bit 9 (of_nat (n + 607) :: u64)))"
    by (simp add: align_block_def head_size_def BLOCK_SIZE_def and_not ac_simps)
  also have "push_bit 9 (drop_bit 9 (of_nat (n + 607) :: u64)) = of_nat ((n + 607) div 512 * 512)"
  proof -
    have "(of_nat (n + 607) :: u64) div 512 = of_nat ((n + 607) div 512)"
      unfolding word_unat_eq_iff unat_div using small by (simp add: unat_of_nat del: of_nat_add)
    then show ?thesis
      by (simp add: push_bit_eq_mult drop_bit_eq_div del: of_nat_add)
  qed
  also have "(ucast (of_nat k :: u64) :: u32) = of_nat k" for k
    by (simp add: word_unat_eq_iff unat_of_nat unsigned_ucast_eq take_bit_eq_mod mod_mod_cancel)
  finally have "align_block (of_nat n) = of_nat ((n + 607) div 512 * 512)" .
  moreover have "(n + 607) div 512 * 512 < 2 ^ 32"
    using small by simp
  moreover have "k < 2 ^ 32 \<Longrightarrow> unat (of_nat k :: u32) = k" for k
    by (simp add: unat_of_nat)
  ultimately show ?thesis
    by (simp only:)
qed

lemma fill_header_fields:
  assumes "head_wf h"
  shows "head_wf (fill_header n dt h)" "magic (fill_header n dt h) = BOOT0_MAGIC"
    "head_length (fill_header n dt h) = align_block n"
    "b_instruction (fill_header n dt h) = 0xEA000016"
    "spl_signature (fill_header n dt h) = bytes ''SPL'' @ [2]"
    "check_sum (fill_header n dt h) = check_sum h"
proof -
  obtain a b c d where "spl_signature h = [a, b, c, d]"
    using assms by (auto simp: head_wf_def numeral_eq_Suc length_Suc_conv)
  then show "head_wf (fill_header n dt h)" "magic (fill_header n dt h) = BOOT0_MAGIC"
    "head_length (fill_header n dt h) = align_block n"
    "b_instruction (fill_header n dt h) = 0xEA000016"
    "spl_signature (fill_header n dt h) = bytes ''SPL'' @ [2]"
    "check_sum (fill_header n dt h) = check_sum h"
    using assms by (auto simp: fill_header_def Let_def set_dt_name_def head_wf_def head_size_def
        BOOT0_MAGIC_def SPL_SIGNATURE_def SPL_HEADER_VERSION_def SPL_VERSION_def bytes_def
        split: option.split)
qed

lemma zero_head_wf: "head_wf zero_head"
  by (simp add: head_wf_def zero_head_def)

text \<open>The header that reaches the disk.\<close>

definition spl_head :: "u32 \<Rightarrow> u8 list option \<Rightarrow> boot_file_head" where
  "spl_head n dt = fill_header n dt zero_head"

lemma spl_img_bytes:
  assumes "length content \<le> SRAM_LOAD_MAX_SIZE" "head_wf h"
  shows "enc_img (zero_img\<lparr>code := content @ drop (length content) (code zero_img), header := h\<rparr>) =
    enc_head h @ content @ replicate (SRAM_LOAD_MAX_SIZE + BLOCK_SIZE - length content) 0"
  using assms by (simp add: enc_img_def zero_img_def replicate_add [symmetric])

lemma block_bounds:
  fixes k :: nat
  assumes "k \<le> 32672"
  shows "(k + 607) div 512 * 512 mod 4 = 0" "512 \<le> (k + 607) div 512 * 512"
    "(k + 607) div 512 * 512 \<le> 32768" "k + 96 \<le> (k + 607) div 512 * 512"
proof -
  define q where "q = (k + 607) div 512"
  have k: "512 * q + (k + 607) mod 512 = k + 607" "(k + 607) mod 512 < 512"
    unfolding q_def by simp_all
  have "1 \<le> q" "q \<le> 64"
    using k assms by linarith+
  with k show "(k + 607) div 512 * 512 mod 4 = 0" "512 \<le> (k + 607) div 512 * 512"
    "(k + 607) div 512 * 512 \<le> 32768" "k + 96 \<le> (k + 607) div 512 * 512"
    unfolding q_def [symmetric] by (simp_all add: mult.commute [of q])
qed

lemma mksunxiboot_success:
  assumes "options argv None = Inr (infile # outfile # rest, dt)"
    and "open_in h infile = Some content" "length content \<le> SRAM_LOAD_MAX_SIZE"
    and "open_out h outfile" "\<And>n. read_count h n = uint n" "\<And>n. write_count h n = uint n"
  defines "n \<equiv> (length content + 607) div 512 * 512"
  shows "\<exists>c. mksunxiboot h argv =
    (None, Some (take n (enc_head ((spl_head (of_nat (length content)) dt)\<lparr>check_sum := c\<rparr>) @ content @
       replicate (SRAM_LOAD_MAX_SIZE + BLOCK_SIZE - length content) 0))) \<and>
    brom_accepts (take n (enc_head ((spl_head (of_nat (length content)) dt)\<lparr>check_sum := c\<rparr>) @ content @
       replicate (SRAM_LOAD_MAX_SIZE + BLOCK_SIZE - length content) 0))"
proof -
  let ?hd = "spl_head (of_nat (length content)) dt"
  let ?img = "zero_img\<lparr>code := content @ drop (length content) (code zero_img), header := ?hd\<rparr>"
  note fields = fill_header_fields [OF zero_head_wf, folded spl_head_def]
  have small: "length content \<le> 32672"
    using assms(3) by (simp add: SRAM_LOAD_MAX_SIZE_def head_size_def)
  then have size: "unat (of_nat (length content) :: u32) = length content"
    by (simp add: unat_of_nat)
  have wf: "head_wf ?hd" "head_wf (?hd\<lparr>check_sum := c\<rparr>)" for c
    using fields(1) by (simp_all add: head_wf_def)
  have n: "unat (head_length ?hd) = n"
    using align_block_value [OF assms(3)] by (simp add: n_def fields)
  note n_bounds = block_bounds [OF small, folded n_def]
  have "length (enc_img ?img) = 33280"
    unfolding spl_img_bytes [OF assms(3) wf(1)] length_append length_replicate length_enc_head [OF wf(1)]
    using small by (simp add: SRAM_LOAD_MAX_SIZE_def BLOCK_SIZE_def head_size_def)
  then have sz: "n mod 4 = 0" "20 \<le> n" "n \<le> length (enc_img ?img)"
    using n_bounds by simp_all
  define img where "img = ?img"
  then have hd: "header img = ?hd"
    by simp
  have len: "n \<le> length (enc_img img)"
    unfolding img_def by (rule sz(3))
  have "\<exists>c. gen_check_sum img = Some (img\<lparr>header := ?hd\<lparr>check_sum := c\<rparr>\<rparr>) \<and>
      brom_accepts (take n (enc_img (img\<lparr>header := ?hd\<lparr>check_sum := c\<rparr>\<rparr>)))"
    by (rule gen_check_sum_accepted [of img, unfolded hd n, OF wf(1) fields(2) sz(1,2) len])
  then obtain c where c: "gen_check_sum ?img = Some (?img\<lparr>header := ?hd\<lparr>check_sum := c\<rparr>\<rparr>)"
    "brom_accepts (take n (enc_img (?img\<lparr>header := ?hd\<lparr>check_sum := c\<rparr>\<rparr>)))"
    unfolding img_def by blast
  have head: "fill_header (of_nat (length content)) dt (header zero_img) = ?hd"
    by (simp add: spl_head_def zero_img_def)
  have "make_image h (of_nat (length content)) content dt =
      (None, take n (enc_img (?img\<lparr>header := ?hd\<lparr>check_sum := c\<rparr>\<rparr>)))"
    unfolding make_image_def Let_def
    using assms(5,6) c(1) n size head by (simp add: nat_uint_eq)
  then have "mksunxiboot h argv = (None, Some (take n (enc_img (?img\<lparr>header := ?hd\<lparr>check_sum := c\<rparr>\<rparr>))))"
    using assms(3) by (simp add: mksunxiboot_two [OF assms(1)] assms(2,4) size)
  then show ?thesis
    using c spl_img_bytes [OF assms(3) wf(2)] by auto
qed

text \<open>Before the header is complete, nothing that could be taken for an image is written.\<close>

lemma brom_rejects_short:
  assumes "length im \<le> unat (le32_of (drop 16 x))" "im = take k x" "length im < unat (le32_of (drop 16 x))"
  shows "\<not> brom_accepts im"
proof (cases "20 \<le> length im")
  case True
  then have "take 4 (drop 16 im) = take 4 (drop 16 x)" "4 \<le> length (drop 16 im)" "4 \<le> length (drop 16 x)"
    using assms(2) by (auto simp: drop_take min_def split: if_splits)
  moreover have "le32_of (take 4 ys) = le32_of ys" if "4 \<le> length ys" for ys
    using that by (cases ys rule: le32_of.cases) (auto simp: numeral_eq_Suc)
  ultimately have "le32_of (drop 16 im) = le32_of (drop 16 x)"
    by metis
  with assms(3) show ?thesis
    by (simp add: brom_accepts_def Let_def)
next
  case False
  then have "length (drop 16 im) < 4"
    by simp
  moreover have "le32_of ys = 0" if "length ys < 4" for ys
    using that by (cases ys rule: le32_of.cases) auto
  ultimately have "le32_of (drop 16 im) = 0"
    by blast
  then show ?thesis
    by (simp add: brom_accepts_def Let_def)
qed

lemma brom_rejects_Nil: "\<not> brom_accepts []"
  by (simp add: brom_accepts_def Let_def bytes_Cons)

lemma enc_img_length_field:
  "head_wf (header img) \<Longrightarrow> le32_of (drop 16 (enc_img img)) = head_length (header img)"
  by (simp add: enc_img_def enc_head_def head_wf_def)

lemma make_image_rejected:
  assumes "make_image h fs content dt = (Some e, out)" "\<And>n. write_count h n \<le> uint n"
  shows "\<not> brom_accepts out"
proof -
  let ?img0 = "zero_img\<lparr>code := take (unat fs) content @ drop (unat fs) (code zero_img)\<rparr>"
  let ?img1 = "?img0\<lparr>header := fill_header fs dt (header ?img0)\<rparr>"
  show ?thesis
  proof (cases "out = []")
    case True
    then show ?thesis
      by (simp add: brom_rejects_Nil)
  next
    case False
    then obtain img where gen: "gen_check_sum ?img1 = Some img"
      using assms(1) unfolding make_image_def Let_def by (auto split: option.splits if_splits)
    let ?n = "head_length (header img)"
    have w: "word_of_int (write_count h ?n) \<noteq> ?n"
      and out: "out = take (nat (write_count h ?n)) (take (unat ?n) (enc_img img))"
      using assms(1) False unfolding make_image_def Let_def gen by (simp_all split: if_splits)
    have "header ?img0 = zero_head"
      by (simp add: zero_img_def)
    then have "head_wf (header img)"
      using gen fill_header_fields(1) [OF zero_head_wf]
      by (auto simp: gen_check_sum_def Let_def head_wf_def split: if_splits)
    then have len: "le32_of (drop 16 (enc_img img)) = ?n"
      by (rule enc_img_length_field)
    have "write_count h ?n \<noteq> uint ?n"
      using w by auto
    then have "write_count h ?n < uint ?n"
      using assms(2) [of ?n] by simp
    moreover have "0 \<le> write_count h ?n"
      using False out by (cases "0 \<le> write_count h ?n") auto
    ultimately have "nat (write_count h ?n) < nat (uint ?n)"
      by (simp only: nat_less_eq_zless)
    then have "nat (write_count h ?n) < unat ?n"
      by (simp only: nat_uint_eq)
    moreover have "out = take (min (nat (write_count h ?n)) (unat ?n)) (enc_img img)"
      unfolding out by simp
    ultimately show ?thesis
      by (intro brom_rejects_short [of _ "enc_img img"]) (auto simp: len)
  qed
qed

section \<open>Properties\<close>

text \<open>
  C21: for an input that fits, and a host that does what it is asked, the tool writes a whole
  number of blocks that the boot ROM accepts: magic, length and checksum are right, the first
  instruction branches to the byte behind the header, and there the input follows.
\<close>

theorem mksunxiboot_bootable:
  assumes "options argv None = Inr (infile # outfile # rest, dt)"
    and "open_in h infile = Some content" "length content \<le> SRAM_LOAD_MAX_SIZE"
    and "open_out h outfile" "\<And>n. read_count h n = uint n" "\<And>n. write_count h n = uint n"
  shows "\<exists>out. mksunxiboot h argv = (None, Some out) \<and> brom_accepts out \<and>
    length out = (length content + 607) div 512 * 512 \<and> length out \<le> 0x8000 \<and>
    le32_of out = 0xEA000000 OR of_nat ((head_size - 8) div 4) \<and>
    take (length content) (drop head_size out) = content"
proof -
  define n where "n = (length content + 607) div 512 * 512"
  let ?z = "replicate (SRAM_LOAD_MAX_SIZE + BLOCK_SIZE - length content) 0"
  let ?hd = "\<lambda>c. (spl_head (of_nat (length content)) dt)\<lparr>check_sum := c\<rparr>"
  have small: "length content \<le> 32672"
    using assms(3) by (simp add: SRAM_LOAD_MAX_SIZE_def head_size_def)
  note b = block_bounds [OF small, folded n_def]
  obtain c where run: "mksunxiboot h argv = (None, Some (take n (enc_head (?hd c) @ content @ ?z)))"
    "brom_accepts (take n (enc_head (?hd c) @ content @ ?z))"
    using mksunxiboot_success [OF assms, folded n_def] by blast
  define out where "out = take n (enc_head (?hd c) @ content @ ?z)"
  note fields = fill_header_fields [OF zero_head_wf, folded spl_head_def]
  have len: "length (enc_head (?hd c)) = head_size"
    using fields(1) by (intro length_enc_head) (simp add: head_wf_def)
  have "take (length content) (drop head_size out) = content"
    unfolding out_def using b(4) len by (simp add: drop_take head_size_def)
  moreover have "n \<le> length (enc_head (?hd c) @ content @ ?z)"
    unfolding length_append len length_replicate
    using b(3) small by (simp add: SRAM_LOAD_MAX_SIZE_def BLOCK_SIZE_def head_size_def)
  then have "length out = n"
    unfolding out_def length_take by (rule min_absorb2)
  moreover have "le32_of out = 0xEA000000 OR of_nat ((head_size - 8) div 4)"
  proof -
    have "out = le32_bytes 0xEA000016 @ take (n - 4) (drop 4 (enc_head (?hd c) @ content @ ?z))"
      unfolding out_def using b(2) by (simp add: enc_head_def fields)
    then show ?thesis
      by (simp add: head_size_def)
  qed
  ultimately show ?thesis
    using run b(3) unfolding out_def [symmetric] n_def [symmetric] by (intro exI [of _ out]) auto
qed

definition demo_host :: "(u32 \<Rightarrow> int) \<Rightarrow> host" where
  "demo_host rc = \<lparr>open_in = (\<lambda>_. Some [1, 2, 3, 4]), open_out = (\<lambda>_. True), read_count = rc, write_count = uint\<rparr>"

definition demo_args :: "u8 list list" where
  "demo_args = [bytes ''--default-dt'', bytes ''dt'', bytes ''in'', bytes ''out'']"

lemma demo_options: "options demo_args None = Inr ([bytes ''in'', bytes ''out''], Some (bytes ''dt''))"
  by (simp add: demo_args_def bytes_def)

theorem mksunxiboot_bootable_witness:
  "\<exists>out. mksunxiboot (demo_host uint) demo_args = (None, Some out) \<and> brom_accepts out \<and> length out = 512 \<and>
    take (length [1 :: u8, 2, 3, 4]) (drop head_size out) = [1, 2, 3, 4]"
  using mksunxiboot_bootable [OF demo_options, of "demo_host uint" "[1, 2, 3, 4]"]
  by (auto simp: demo_host_def SRAM_LOAD_MAX_SIZE_def head_size_def)

text \<open>
  When the tool reports an error, the boot ROM does not take what it left in the output
  file for an image, as long as \<open>write\<close> transfers no more than it was given.
\<close>

theorem mksunxiboot_error_rejected:
  assumes "mksunxiboot h argv = (Some e, Some out)" "\<And>n. write_count h n \<le> uint n"
  shows "\<not> brom_accepts out"
proof (cases argv rule: options_cases)
  case (two i j as dt)
  then obtain content where "make_image h (of_nat (length content)) content dt = (Some e, out)"
    using assms(1) by (auto simp: mksunxiboot_two apsnd_def map_prod_def split: option.splits if_splits prod.splits)
  then show ?thesis
    by (rule make_image_rejected) (rule assms(2))
qed (use assms(1) in \<open>simp_all add: mksunxiboot_few, simp add: mksunxiboot_def\<close>)

theorem mksunxiboot_error_rejected_witness:
  "mksunxiboot (demo_host (\<lambda>_. 3)) demo_args = (Some Reading, Some []) \<and> \<not> brom_accepts []"
proof -
  have run: "mksunxiboot (demo_host (\<lambda>_. 3)) demo_args = (Some Reading, Some [])"
    unfolding mksunxiboot_two [OF demo_options]
    by (simp add: demo_host_def SRAM_LOAD_MAX_SIZE_def head_size_def make_image_def)
  moreover have "write_count (demo_host (\<lambda>_. 3)) n \<le> uint n" for n
    by (simp add: demo_host_def)
  ultimately show ?thesis
    using mksunxiboot_error_rejected [OF run] by blast
qed

text \<open>
  The size of the input is kept in 32 bits: a file of 4 GiB and more is taken for what is left
  of its size, and the image holds the beginning of the file without an error.
\<close>

theorem mksunxiboot_wraps:
  "mksunxiboot h argv =
   mksunxiboot (h\<lparr>open_in := map_option (\<lambda>c. take (length c mod 2 ^ 32) c) \<circ> open_in h\<rparr>) argv"
proof -
  have wrap: "(of_nat (length (take (length c mod 2 ^ 32) c)) :: u32) = of_nat (length c)"
    "take (unat (of_nat (length c) :: u32)) (take (length c mod 2 ^ 32) c) =
      take (unat (of_nat (length c) :: u32)) c" for c :: "u8 list"
    by (simp_all add: word_unat_eq_iff unat_of_nat min_def)
  let ?h = "h\<lparr>open_in := map_option (\<lambda>c. take (length c mod 2 ^ 32) c) \<circ> open_in h\<rparr>"
  have sel: "open_in ?h i = map_option (\<lambda>c. take (length c mod 2 ^ 32) c) (open_in h i)"
    "open_out ?h = open_out h" "read_count ?h = read_count h" "write_count ?h = write_count h" for i
    by simp_all
  show ?thesis
  proof (cases argv rule: options_cases)
    case (two i j as dt)
    show ?thesis
      unfolding mksunxiboot_two [OF two] sel make_image_def
      by (cases "open_in h i") (simp_all only: wrap option.map option.case)
  qed (simp_all add: mksunxiboot_few, simp add: mksunxiboot_def)
qed

end
