(* ===== verification/Debug_Fmt.thy ===== *)
theory Debug_Fmt
  imports Strbuf
begin

text \<open>
  The printers of \<open>src/src/debug.c\<close>. A printer is a function to the sequence of characters that
  it hands to \<open>real_putc\<close>; where these go is in theory \<open>Console\<close>. The variable arguments of
  \<open>real_printf\<close> are a list of tagged values; an argument of the wrong type is undefined
  behaviour in C and \<open>None\<close> here. \<open>unsigned long\<close> has 64 bits, as on the processor.
\<close>

section \<open>Numbers\<close>

fun real_puts :: "u8 list \<Rightarrow> u8 list" where
  "real_puts [] = []"
| "real_puts (c # s) = (if c = of_char CHR 0x0A then [of_char CHR 0x0D] else []) @ c # real_puts s"

text \<open>\<open>while (value)\<close>: the digits are stored downwards, in front of those in \<open>p\<close>.\<close>

function put_uint_loop :: "u64 \<Rightarrow> u8 list \<Rightarrow> u8 list" where
  "put_uint_loop v p = (if v \<noteq> 0 then put_uint_loop (v div 10) ((48 + ucast (v mod 10)) # p) else p)"
  by pat_completeness auto
termination
  by (relation "measure (\<lambda>(v, p). unat v)") (auto simp: unat_div_10 intro!: unat_div_10_less)

declare put_uint_loop.simps [simp del]

definition uint_digits :: "u64 \<Rightarrow> u8 list" where
  "uint_digits v = put_uint_loop v (if v = 0 then [48] else [])"

definition padding :: "int \<Rightarrow> bool \<Rightarrow> u8 list" where
  "padding n pad0 = replicate (nat n) (if pad0 then of_char CHR ''0'' else of_char CHR '' '')"

definition put_uint :: "u64 \<Rightarrow> int \<Rightarrow> bool \<Rightarrow> u8 list" where
  "put_uint v align pad0 =
     (let p = uint_digits v; len = length p in padding (align - int len) pad0 @ real_puts p)"

definition put_int :: "u64 \<Rightarrow> int \<Rightarrow> bool \<Rightarrow> u8 list" where
  "put_int v align pad0 =
     (if sint v < 0 then of_char CHR ''-'' # put_uint (- v) (align - 1) False
      else put_uint v align False)"

definition put_uint_div_by_1000 :: "u32 \<Rightarrow> u8 list" where
  "put_uint_div_by_1000 v =
     (if v \<ge> 1000 then put_uint (ucast (v div 1000)) 0 False else [of_char CHR ''0'']) @
     of_char CHR ''.'' # put_uint (ucast (v mod 1000)) 0 False"

text \<open>\<open>__builtin_clzll\<close>, the zeros above the highest bit.\<close>

definition clzll :: "u64 \<Rightarrow> nat" where
  "clzll w = length (takeWhile (\<lambda>i. \<not> bit w i) (rev [0..<64]))"

definition nibble_char :: "u32 \<Rightarrow> u8" where
  "nibble_char nibble =
     (if nibble < 10 then 48 + ucast nibble else of_char CHR ''a'' + (ucast nibble - 10))"

definition hex_nibble :: "u64 \<Rightarrow> nat \<Rightarrow> u32" where
  "hex_nibble hex i = ucast (drop_bit (4 * (15 - i)) hex AND 0xf)"

definition real_put_hex :: "u64 \<Rightarrow> int \<Rightarrow> bool \<Rightarrow> u8 list" where
  "real_put_hex hex align pad0 =
     (let skip_nibbles = (if hex > 0 then clzll hex div 4 else 15)
      in padding (align - (16 - int skip_nibbles)) pad0 @
         map (\<lambda>i. nibble_char (hex_nibble hex i)) [skip_nibbles..<16])"

section \<open>printf\<close>

datatype va_arg = VaInt u32 | VaLong u64 | VaStr "u8 list"

definition is_dec :: "u8 \<Rightarrow> bool" where
  "is_dec c \<longleftrightarrow> of_char CHR ''0'' \<le> c \<and> c \<le> of_char CHR ''9''"

text \<open>The flags behind the percent sign: zero padding, width, number of \<open>l\<close>, and the rest.\<close>

definition parse_spec :: "u8 list \<Rightarrow> bool \<times> int \<times> nat \<times> u8 list" where
  "parse_spec p =
     (let pad0 = takeWhile (\<lambda>c. c = of_char CHR ''0'') p \<noteq> [];
          p = dropWhile (\<lambda>c. c = of_char CHR ''0'') p;
          align = foldl (\<lambda>align c. align * 10 + (uint c - 48)) 0 (takeWhile is_dec p);
          p = dropWhile is_dec p;
          l = length (takeWhile (\<lambda>c. c = of_char CHR ''l'') p);
          p = dropWhile (\<lambda>c. c = of_char CHR ''l'') p;
          p = dropWhile (\<lambda>c. c = of_char CHR ''h'') p
      in (pad0, align, l, p))"

lemma parse_spec_shorter: "parse_spec p = (pad0, align, l, p') \<Longrightarrow> length p' \<le> length p"
  by (auto simp: parse_spec_def Let_def intro: le_trans [OF length_dropWhile_le])

text \<open>\<open>va_arg\<close> of the width that \<open>l\<close> selects, widened with or without the sign.\<close>

fun va_unsigned :: "nat \<Rightarrow> va_arg list \<Rightarrow> (u64 \<times> va_arg list) option" where
  "va_unsigned l (VaInt v # ap) = (if l = 0 then Some (ucast v, ap) else None)"
| "va_unsigned l (VaLong v # ap) = (if l = 0 then None else Some (v, ap))"
| "va_unsigned l _ = None"

fun va_signed :: "nat \<Rightarrow> va_arg list \<Rightarrow> (u64 \<times> va_arg list) option" where
  "va_signed l (VaInt v # ap) = (if l = 0 then Some (scast v, ap) else None)"
| "va_signed l (VaLong v # ap) = (if l = 0 then None else Some (v, ap))"
| "va_signed l _ = None"

text \<open>The \<open>switch\<close> on the conversion character.\<close>

definition convert :: "u8 \<Rightarrow> bool \<Rightarrow> int \<Rightarrow> nat \<Rightarrow> va_arg list \<Rightarrow> (u8 list \<times> va_arg list) option" where
  "convert c pad0 align l ap =
     (if c = of_char CHR ''c'' then
        (case ap of VaInt v # ap \<Rightarrow> Some ([ucast v], ap) | _ \<Rightarrow> None)
      else if c = of_char CHR ''s'' then
        (case ap of VaStr s # ap \<Rightarrow> Some (real_puts s, ap) | _ \<Rightarrow> None)
      else if c = of_char CHR ''u'' then
        map_option (apfst (\<lambda>v. put_uint v align pad0)) (va_unsigned l ap)
      else if c = of_char CHR ''x'' then
        map_option (apfst (\<lambda>v. real_put_hex v align pad0)) (va_unsigned l ap)
      else if c = of_char CHR ''d'' then
        map_option (apfst (\<lambda>v. put_int v align pad0)) (va_signed l ap)
      else if c = of_char CHR ''f'' then
        (case ap of VaInt v # ap \<Rightarrow> Some (put_uint_div_by_1000 v, ap) | _ \<Rightarrow> None)
      else if c = of_char CHR ''p'' then
        (case ap of VaLong v # ap \<Rightarrow> Some (real_put_hex v 8 True, ap) | _ \<Rightarrow> None)
      else if c = of_char CHR ''%'' then Some ([c], ap)
      else Some ([of_char CHR ''%'', c], ap))"

function real_printf :: "u8 list \<Rightarrow> va_arg list \<Rightarrow> u8 list option" where
  "real_printf [] ap = Some []"
| "real_printf (c # p) ap =
     (if c = of_char CHR ''%'' then
        (case parse_spec p of
           (pad0, align, l, p') \<Rightarrow>
             if l > 2 then Some []
             else (case p' of
                     [] \<Rightarrow> Some []
                   | d # q \<Rightarrow>
                       (case convert d pad0 align l ap of
                          None \<Rightarrow> None
                        | Some (out, ap) \<Rightarrow> map_option ((@) out) (real_printf q ap))))
      else if c = of_char CHR 0x0A then map_option ((@) [of_char CHR 0x0D, c]) (real_printf p ap)
      else map_option ((#) c) (real_printf p ap))"
  by pat_completeness auto
termination
  by (relation "measure (\<lambda>(p, ap). length p)") (auto dest!: parse_spec_shorter [OF sym])

declare real_printf.simps [simp del]

section \<open>Decimal numbers\<close>

lemma is_dec_of: "n < 10 \<Longrightarrow> is_dec (48 + of_nat n)"
proof -
  assume "n < 10"
  then have "n \<in> set [0..<10]"
    by simp
  moreover have "list_all (\<lambda>n. is_dec (48 + of_nat n)) [0..<10]"
    by (simp add: is_dec_def upt_conv_Cons)
  ultimately show ?thesis
    by (simp add: list_all_iff)
qed

lemma decimal_char: "48 + ucast ((v :: u64) mod 10) = (48 + of_nat (unat v mod 10) :: u8)"
proof -
  have "ucast (v mod 10) = (of_nat (unat (v mod 10)) :: u8)"
    by simp
  then show ?thesis
    by (simp add: unat_mod)
qed

lemma put_uint_loop_step:
  "v \<noteq> 0 \<Longrightarrow> put_uint_loop v p = put_uint_loop (v div 10) ((48 + of_nat (unat v mod 10)) # p)"
  by (subst put_uint_loop.simps) (simp add: decimal_char)

lemma put_uint_loop_0 [simp]: "put_uint_loop 0 p = p"
  by (subst put_uint_loop.simps) simp

lemma put_uint_loop_induct [case_names zero step]:
  fixes v :: u64 and p :: "u8 list"
  assumes "\<And>p. P (0 :: u64) p"
    and "\<And>v p. v \<noteq> 0 \<Longrightarrow> P (v div 10) ((48 + of_nat (unat v mod 10)) # p) \<Longrightarrow> P v p"
  shows "P v p"
  using assms by (induction v p rule: put_uint_loop.induct) (metis decimal_char)

lemma put_uint_loop_digits: "list_all is_dec p \<Longrightarrow> list_all is_dec (put_uint_loop v p)"
  by (induction v p rule: put_uint_loop_induct) (simp_all add: put_uint_loop_step is_dec_of)

lemma put_uint_loop_value:
  "decimal_value (put_uint_loop v p) = unat v * 10 ^ length p + decimal_value p"
proof (induction v p rule: put_uint_loop_induct)
  case (step v p)
  then show ?case
    by (subst decimal_step) (simp add: put_uint_loop_step decimal_value_Cons digit_value_of unat_div)
qed simp

lemma put_uint_loop_hd: "v \<noteq> 0 \<Longrightarrow> hd (put_uint_loop v p) \<noteq> 48"
proof (induction v p rule: put_uint_loop_induct)
  case (step v p)
  show ?case
  proof (cases "v div 10 = 0")
    case True
    then have small: "unat v < 10"
      by (metis div_eq_0_iff unat_0 unat_div_10(2) zero_neq_numeral)
    then have "digit_value (48 + of_nat (unat v mod 10)) \<noteq> 0"
      using step(1) by (simp only: digit_value_of mod_less) (simp add: unat_eq_0)
    then have "48 + of_nat (unat v mod 10) \<noteq> (48 :: u8)"
      by (auto simp: digit_value_def)
    with True show ?thesis
      using step(1) by (simp add: put_uint_loop_step del: add_left_cancel add_cancel_right_right)
  qed (use step in \<open>simp add: put_uint_loop_step\<close>)
qed simp

lemma put_uint_loop_length: "unat v < 10 ^ k \<Longrightarrow> length (put_uint_loop v p) \<le> k + length p"
proof (induction k arbitrary: v p)
  case 0
  then show ?case by (simp add: unat_eq_0)
next
  case (Suc k)
  show ?case
  proof (cases "v = 0")
    case False
    have "unat (v div 10) < 10 ^ k"
      using Suc.prems by (simp add: unat_div less_mult_imp_div_less)
    from Suc.IH [OF this, of "(48 + of_nat (unat v mod 10)) # p"] False show ?thesis
      by (simp add: put_uint_loop_step)
  qed simp
qed

lemma uint_digits_props:
  "list_all is_dec (uint_digits v)" "decimal_value (uint_digits v) = unat v"
  "hd (uint_digits v) = 48 \<longleftrightarrow> v = 0" "length (uint_digits v) \<le> 20" "uint_digits v \<noteq> []"
proof -
  have "unat v < 2 ^ 64"
    using unsigned_less [of v] by simp
  then have "unat v < 10 ^ 20"
    by simp
  then show "list_all is_dec (uint_digits v)" "decimal_value (uint_digits v) = unat v"
    "hd (uint_digits v) = 48 \<longleftrightarrow> v = 0" "length (uint_digits v) \<le> 20"
    using put_uint_loop_length [of v 20 "[]"] put_uint_loop_hd [of v "[]"]
    by (auto simp: uint_digits_def put_uint_loop_digits put_uint_loop_value is_dec_def
        decimal_value_Cons digit_value_def)
  then show "uint_digits v \<noteq> []"
    by (cases "v = 0") (auto simp: uint_digits_def unat_eq_0)
qed

lemma real_puts_plain: "of_char CHR 0x0A \<notin> set s \<Longrightarrow> real_puts s = s"
  by (induction s) auto

lemma real_puts_digits: "list_all is_dec s \<Longrightarrow> real_puts s = s"
  by (rule real_puts_plain) (auto simp: list_all_iff is_dec_def)

lemma put_uint_padded: "put_uint v align pad0 = padding (align - int (length (uint_digits v))) pad0 @ uint_digits v"
  by (simp add: put_uint_def Let_def real_puts_digits uint_digits_props)

section \<open>Hexadecimal numbers\<close>

definition hex_digit :: "u8 \<Rightarrow> nat" where
  "hex_digit c = (if is_dec c then digit_value c else unat (c - of_char CHR ''a'') + 10)"

definition hex_value :: "u8 list \<Rightarrow> nat" where
  "hex_value cs = foldl (\<lambda>acc c. 16 * acc + hex_digit c) 0 cs"

lemma hex_digit_nibble:
  assumes "n < 16"
  shows "hex_digit (nibble_char (of_nat n)) = n" "nibble_char (of_nat n) = 48 \<longleftrightarrow> n = 0"
proof -
  have n: "n \<in> set [0..<16]"
    using assms by simp
  have "list_all (\<lambda>n. hex_digit (nibble_char (of_nat n)) = n \<and> (nibble_char (of_nat n) = 48) = (n = 0)) [0..<16]"
    by (simp add: upt_conv_Cons hex_digit_def is_dec_def nibble_char_def digit_value_def)
  with n show "hex_digit (nibble_char (of_nat n)) = n" "nibble_char (of_nat n) = 48 \<longleftrightarrow> n = 0"
    by (auto simp: list_all_iff)
qed

lemma unat_drop_u64: "unat (drop_bit n w) = unat w div 2 ^ n" for w :: u64
proof -
  have "unat (drop_bit n w) = drop_bit n (take_bit 64 (unat w))"
    using unsigned_drop_bit_eq [of n w, where ?'a = nat] by (simp del: drop_bit_eq_div)
  moreover have "unat w < 2 ^ 64"
    using unsigned_less [of w] by simp
  ultimately show ?thesis
    by (simp add: take_bit_nat_eq_self drop_bit_nat_def)
qed

lemma hex_nibble_value:
  "hex_nibble hex i = of_nat (unat hex div 16 ^ (15 - i) mod 16)"
proof -
  have "drop_bit (4 * (15 - i)) hex AND 0xf = take_bit 4 (drop_bit (4 * (15 - i)) hex)"
    by (simp add: take_bit_eq_mask mask_numeral)
  then have "unat (drop_bit (4 * (15 - i)) hex AND 0xf) = unat hex div 2 ^ (4 * (15 - i)) mod 16"
    by (simp only: unsigned_take_bit_eq take_bit_eq_mod unat_drop_u64) (simp add: take_bit_eq_mod unat_mod flip: unat_drop_u64)
  moreover have "(2 :: nat) ^ (4 * (15 - i)) = 16 ^ (15 - i)"
    by (simp add: power_mult)
  moreover have "hex_nibble hex i = of_nat (unat (drop_bit (4 * (15 - i)) hex AND 0xf))"
    by (simp add: hex_nibble_def)
  ultimately show ?thesis
    by simp
qed

lemma clzll_bit:
  assumes "w \<noteq> 0"
  shows "clzll w < 64" "bit w (63 - clzll w)" "\<And>i. 64 - clzll w \<le> i \<Longrightarrow> \<not> bit w i"
proof -
  let ?xs = "rev [0..<64]"
  have nth: "k < 64 \<Longrightarrow> ?xs ! k = 63 - k" for k
    by (simp add: rev_nth)
  obtain i where i: "bit w i"
    using assms by (auto simp: bit_eq_iff)
  then have "i < 64"
    using bit_imp_le_length by fastforce
  then have "i \<in> set ?xs"
    by simp
  show less: "clzll w < 64"
  proof (rule ccontr)
    assume "\<not> clzll w < 64"
    moreover have "clzll w \<le> length ?xs"
      unfolding clzll_def by (rule length_takeWhile_le)
    ultimately have "takeWhile (\<lambda>i. \<not> bit w i) ?xs = ?xs"
      unfolding clzll_def by (metis length_rev length_upt diff_zero le_antisym linorder_not_less takeWhile_eq_take take_all)
    then have "\<forall>i \<in> set ?xs. \<not> bit w i"
      by (simp only: takeWhile_eq_all_conv)
    with i \<open>i \<in> set ?xs\<close> show False
      by blast
  qed
  then show "bit w (63 - clzll w)"
    using nth_length_takeWhile [of "\<lambda>i. \<not> bit w i" ?xs] nth [of "clzll w"] by (simp add: clzll_def)
  fix j assume j: "64 - clzll w \<le> j"
  show "\<not> bit w j"
  proof (cases "j < 64")
    case True
    then have "63 - j < clzll w"
      using j by simp
    then have "takeWhile (\<lambda>i. \<not> bit w i) ?xs ! (63 - j) = j"
      using True nth [of "63 - j"] by (simp add: clzll_def takeWhile_nth)
    with \<open>63 - j < clzll w\<close> show ?thesis
      unfolding clzll_def by (metis nth_mem set_takeWhileD)
  qed (use bit_imp_le_length [of w j] in auto)
qed

lemma skip_bounds:
  assumes "w \<noteq> 0"
  shows "clzll w div 4 < 16" "unat w < 16 ^ (16 - clzll w div 4)" "16 ^ (15 - clzll w div 4) \<le> unat w"
proof -
  let ?c = "clzll w"
  note c = clzll_bit [OF assms]
  show "?c div 4 < 16"
    using c(1) by simp
  have "drop_bit (64 - ?c) w = 0"
    by (rule bit_word_eqI) (simp add: bit_simps c(3))
  then have "unat w div 2 ^ (64 - ?c) = 0"
    by (metis unat_0 unat_drop_u64)
  then have "unat w < 2 ^ (64 - ?c)"
    by (simp add: div_eq_0_iff)
  also have "\<dots> \<le> 2 ^ (4 * (16 - ?c div 4))"
    by (intro power_increasing) auto
  finally show "unat w < 16 ^ (16 - ?c div 4)"
    by (simp add: power_mult)
  have "odd (drop_bit (63 - ?c) w)"
    using c(2) by (simp add: bit_iff_odd_drop_bit)
  then have "unat w div 2 ^ (63 - ?c) \<noteq> 0"
    by (metis even_zero unat_eq_0 unat_drop_u64)
  then have "2 ^ (63 - ?c) \<le> unat w"
    by (simp add: div_eq_0_iff not_less)
  moreover have "(2 :: nat) ^ (4 * (15 - ?c div 4)) \<le> 2 ^ (63 - ?c)"
    using c(1) by (intro power_increasing) auto
  ultimately show "16 ^ (15 - ?c div 4) \<le> unat w"
    by (simp add: power_mult)
qed

lemma hex_value_prefix:
  assumes "unat w < 16 ^ (16 - s)" "s \<le> j" "j \<le> 16"
  shows "hex_value (map (\<lambda>i. nibble_char (hex_nibble w i)) [s..<j]) = unat w div 16 ^ (16 - j)"
  using assms(2,3)
proof (induction j rule: dec_induct)
  case base
  with assms(1) show ?case by (simp add: hex_value_def)
next
  case (step j)
  let ?q = "unat w div 16 ^ (15 - j)"
  have "16 - j = Suc (15 - j)"
    using step by simp
  then have "unat w div 16 ^ (16 - j) = ?q div 16"
    by (simp only: power_Suc2 div_mult2_eq)
  moreover have "hex_digit (nibble_char (hex_nibble w j)) = ?q mod 16"
    unfolding hex_nibble_value by (rule hex_digit_nibble(1)) simp
  ultimately show ?case
    using step by (simp add: hex_value_def)
qed

lemma hex_text:
  defines "skip \<equiv> \<lambda>v. if v > 0 then clzll v div 4 else 15"
  defines "ds \<equiv> \<lambda>v. map (\<lambda>i. nibble_char (hex_nibble v i)) [skip v..<16]"
  shows "real_put_hex v align pad0 = padding (align - int (length (ds v))) pad0 @ ds v"
    "hex_value (ds v) = unat v" "hd (ds v) = 48 \<longleftrightarrow> v = 0" "0 < length (ds v)" "length (ds v) \<le> 16"
proof -
  have skip: "skip v < 16" "unat v < 16 ^ (16 - skip v)"
    using skip_bounds [of v] by (auto simp: skip_def word_neq_0_conv [symmetric])
  then show "0 < length (ds v)" "length (ds v) \<le> 16"
    by (simp_all add: ds_def)
  show "real_put_hex v align pad0 = padding (align - int (length (ds v))) pad0 @ ds v"
    using skip(1) by (simp add: real_put_hex_def ds_def skip_def Let_def of_nat_diff)
  show "hex_value (ds v) = unat v"
    using hex_value_prefix [OF skip(2), of 16] skip(1) by (simp add: ds_def)
  have "hd (ds v) = nibble_char (of_nat (unat v div 16 ^ (15 - skip v) mod 16))"
    using skip(1) by (simp add: ds_def hd_map upt_conv_Cons hex_nibble_value)
  then have "hd (ds v) = 48 \<longleftrightarrow> unat v div 16 ^ (15 - skip v) mod 16 = 0"
    using hex_digit_nibble(2) [of "unat v div 16 ^ (15 - skip v) mod 16"] by simp
  moreover have "16 - skip v = Suc (15 - skip v)"
    using skip(1) by simp
  then have "unat v div 16 ^ (15 - skip v) < 16"
    using skip(2) by (simp add: less_mult_imp_div_less)
  ultimately have "hd (ds v) = 48 \<longleftrightarrow> unat v < 16 ^ (15 - skip v)"
    by (simp add: div_eq_0_iff)
  then show "hd (ds v) = 48 \<longleftrightarrow> v = 0"
    using skip_bounds(3) [of v] by (cases "v = 0") (auto simp: skip_def word_neq_0_conv [symmetric])
qed

section \<open>The two formatters agree\<close>

text \<open>
  The formats that \<open>strbuf_printf\<close> knows as well: no flags, no line feeds.
\<close>

fun common_fmt :: "u8 list \<Rightarrow> bool" where
  "common_fmt [] = True"
| "common_fmt [c] = (c \<notin> set (bytes ''%'') \<and> c \<noteq> of_char CHR 0x0A)"
| "common_fmt (c # d # p) =
     (if c = of_char CHR ''%'' then d \<in> set (bytes ''suc%'') \<and> common_fmt p
      else c \<noteq> of_char CHR 0x0A \<and> common_fmt (d # p))"

fun va_of :: "fmt_arg \<Rightarrow> va_arg" where
  "va_of (ArgStr s) = VaStr s"
| "va_of (ArgUInt v) = VaInt v"
| "va_of (ArgInt v) = VaInt v"

fun one_line :: "fmt_arg \<Rightarrow> bool" where
  "one_line (ArgStr s) = (of_char CHR 0x0A \<notin> set s)"
| "one_line _ = True"

lemma parse_spec_plain:
  "d \<in> set (bytes ''suc%'') \<Longrightarrow> parse_spec (d # p) = (False, 0, 0, d # p)"
  by (auto simp: parse_spec_def bytes_def is_dec_def)

lemma ucast_eq_0: "(ucast v :: u64) = 0 \<longleftrightarrow> v = 0" for v :: u32
  by (simp add: word_unat_eq_iff)

lemma digits_agree: "uint_digits (ucast v) = strbuf_uint_loop v []" for v :: u32
proof -
  have "strbuf_uint_loop v p = (if v = 0 then 48 # p else put_uint_loop (ucast v) p)" for p
  proof (induction v p rule: strbuf_uint_loop.induct)
    case (1 v p)
    have div: "ucast (v div 10) = (ucast v :: u64) div 10"
      by (simp add: word_unat_eq_iff unat_div)
    have digit: "(48 + ucast (v mod 10) :: u8) = 48 + of_nat (unat v mod 10)"
    proof -
      have "ucast (v mod 10) = (of_nat (unat (v mod 10)) :: u8)"
        by simp
      then show ?thesis
        by (simp add: unat_mod)
    qed
    show ?case
    proof (cases "v div 10 = 0")
      case True
      then have "(ucast v :: u64) div 10 = 0"
        using div by simp
      with True show ?thesis
        by (subst strbuf_uint_loop.simps) (simp add: digit put_uint_loop_step Let_def ucast_eq_0)
    next
      case False
      then have "v \<noteq> 0" by auto
      with False 1 [OF refl refl] show ?thesis
        by (subst strbuf_uint_loop.simps) (simp add: digit div put_uint_loop_step Let_def ucast_eq_0)
    qed
  qed
  then show ?thesis
    by (simp add: uint_digits_def ucast_eq_0)
qed

lemma printf_char:
  "c \<notin> set (bytes ''%'') \<Longrightarrow> c \<noteq> of_char CHR 0x0A \<Longrightarrow>
    real_printf (c # p) ap = map_option ((#) c) (real_printf p ap)"
  by (simp add: real_printf.simps bytes_def)

lemma printf_conversion:
  "d \<in> set (bytes ''suc%'') \<Longrightarrow> real_printf (of_char CHR ''%'' # d # p) ap =
    (case convert d False 0 0 ap of
       None \<Rightarrow> None
     | Some (out, ap) \<Rightarrow> map_option ((@) out) (real_printf p ap))"
  using parse_spec_plain [of d p] by (simp add: real_printf.simps)

lemma put_uint_0: "put_uint (ucast v) 0 b = strbuf_uint_loop v []"
  by (simp add: put_uint_padded padding_def digits_agree)

lemmas printf_convert = convert_def put_uint_0 real_puts_plain

section \<open>Properties\<close>

text \<open>
  \<open>put_uint\<close> prints the number with its decimal digits, without leading zeros, behind the
  padding that fills the width; the digits and the NUL fit the local buffer of 30 bytes.
\<close>

theorem put_uint_prints:
  "\<exists>ds. put_uint v align pad0 = padding (align - int (length ds)) pad0 @ ds \<and> list_all is_dec ds \<and>
    decimal_value ds = unat v \<and> (hd ds = 48) = (v = 0) \<and> 0 < length ds \<and> length ds + 1 \<le> 30"
  using uint_digits_props [of v] by (intro exI [of _ "uint_digits v"]) (simp add: put_uint_padded)

text \<open>
  \<open>real_put_hex\<close> prints at least one and at most 16 hexadecimal digits that read back as the
  number, without leading zeros, behind the padding that fills the width.
\<close>

theorem real_put_hex_roundtrip:
  "\<exists>ds. real_put_hex v align pad0 = padding (align - int (length ds)) pad0 @ ds \<and>
    hex_value ds = unat v \<and> (hd ds = 48) = (v = 0) \<and> 0 < length ds \<and> length ds \<le> 16"
  using hex_text(1) [of v align pad0] hex_text(2-5) [of v] by blast

text \<open>
  Where the two formatters of the program know the same conversions, and nothing holds a
  line feed, \<open>real_printf\<close> prints what \<open>strbuf_printf\<close> would put into a large buffer.
\<close>

theorem printf_agrees_with_strbuf:
  assumes "common_fmt fmt" "list_all one_line args" "fmt_text fmt args = Some out"
  shows "real_printf fmt (map va_of args) = Some out"
  using assms
proof (induction fmt arbitrary: args out rule: common_fmt.induct)
  case 1
  then show ?case by (simp add: real_printf.simps)
next
  case (2 c)
  then show ?case by (auto simp: printf_char real_printf.simps(1) bytes_def)
next
  case (3 c d p)
  show ?case
  proof (cases "c = of_char CHR ''%''")
    case False
    with 3 show ?thesis
      by (auto simp: printf_char bytes_def)
  next
    case True
    with 3 have d: "d \<in> set (bytes ''suc%'')"
      by simp
    have run: "real_printf (c # d # p) ap =
        (case convert d False 0 0 ap of
           None \<Rightarrow> None
         | Some (out, ap) \<Rightarrow> map_option ((@) out) (real_printf p ap))" for ap
      unfolding True by (rule printf_conversion [OF d])
    have IH: "common_fmt p" "\<And>args out. list_all one_line args \<Longrightarrow> fmt_text p args = Some out \<Longrightarrow>
        real_printf p (map va_of args) = Some out"
      using 3 True by auto
    from d consider "d = of_char CHR ''s''" | "d = of_char CHR ''u''" | "d = of_char CHR ''c''"
      | "d = of_char CHR ''%''"
      by (auto simp: bytes_def)
    then show ?thesis
      unfolding run
      by cases (use 3(4,5) True IH(2) in
          \<open>auto simp: printf_convert split: list.splits fmt_arg.splits\<close>)
  qed
qed

theorem printf_agrees_with_strbuf_witness:
  "common_fmt (bytes ''%s: %u%%'') \<and> real_printf (bytes ''%s: %u%%'') [VaStr (bytes ''bat''), VaInt 97] =
     Some (bytes ''bat: 97%'')"
proof -
  have "fmt_text (bytes ''%s: %u%%'') [ArgStr (bytes ''bat''), ArgUInt 97] = Some (bytes ''bat: 97%'')"
    by (simp add: bytes_def strbuf_uint_loop.simps)
  moreover have "common_fmt (bytes ''%s: %u%%'')"
    by (simp add: bytes_def)
  moreover have "list_all one_line [ArgStr (bytes ''bat''), ArgUInt 97]"
    by (simp add: bytes_def)
  ultimately show ?thesis
    using printf_agrees_with_strbuf by fastforce
qed

text \<open>
  Two oddities of the printers: the remainder of \<open>%f\<close> has no leading zeros, so 1.005 comes out as
  1.5, and \<open>%d\<close> ignores the zero padding and pads between the sign and the digits.
\<close>

lemma thousandths_without_zeros:
  "put_uint_div_by_1000 1005 = bytes ''1.5''" "put_uint_div_by_1000 1500 = bytes ''1.500''"
  by (simp_all add: put_uint_div_by_1000_def put_uint_def padding_def uint_digits_def put_uint_loop.simps bytes_def)

lemma negative_padding:
  "real_printf (bytes ''%03d'') [VaInt (- 5)] = Some (bytes ''- 5'')"
  by (simp add: bytes_def real_printf.simps parse_spec_def is_dec_def convert_def put_int_def put_uint_def
      padding_def uint_digits_def put_uint_loop.simps)

end
