(* ===== verification/Console.thy ===== *)
theory Console
  imports Debug_Fmt Vidconsole Pmic Ccu
begin

text \<open>
  Where the characters of the printers go (\<open>real_putc\<close> of \<open>src/src/debug.c\<close> and \<open>append_log\<close> of
  \<open>src/src/main.c\<close>): the serial port, the log for the kernel, the console on the display, as the
  build selects. On top of it the register dumps of \<open>debug.c\<close>, \<open>ccu.c\<close> and \<open>pmic.c\<close>.
\<close>

section \<open>State\<close>

text \<open>\<open>SERIAL_CONSOLE\<close>, \<open>PBOOT_FDT_LOG\<close> and \<open>VIDEO_CONSOLE\<close>.\<close>

record outputs =
  serial_console :: bool
  fdt_log :: bool
  video_console :: bool

text \<open>
  \<open>log_end\<close> is the pointer in use: into SRAM C before there is a heap, into the heap afterwards.
\<close>

record console =
  con_hist :: history
  con_mem :: mem
  log_end :: u64
  sys_console :: "vidconsole option"

abbreviation UART0_THR :: addr where "UART0_THR \<equiv> 0x01c28000"
abbreviation UART0_LSR :: addr where "UART0_LSR \<equiv> 0x01c28014"

definition append_log :: "u8 \<Rightarrow> console \<Rightarrow> console" where
  "append_log c con =
     (if c \<noteq> of_char CHR 0x0D
      then con\<lparr>con_mem := (con_mem con)(log_end con := c), log_end := log_end con + 1\<rparr> else con)"

text \<open>\<open>while (!TX_READY);\<close> and the write, \<open>None\<close> when the port never gets ready.\<close>

definition serial_putc :: "device \<Rightarrow> u8 \<Rightarrow> history \<Rightarrow> history option" where
  "serial_putc d c t = map_option (writel (ucast c) UART0_THR) (poll_set d UART0_LSR (push_bit 6 1) t)"

definition real_putc :: "outputs \<Rightarrow> device \<Rightarrow> u8 \<Rightarrow> console \<Rightarrow> console option" where
  "real_putc cfg d c con =
     (case (if serial_console cfg then serial_putc d c (con_hist con) else Some (con_hist con)) of
        None \<Rightarrow> None
      | Some t \<Rightarrow>
          (let con = con\<lparr>con_hist := t\<rparr>;
               con = (if fdt_log cfg then append_log c con else con)
           in Some (if video_console cfg then con\<lparr>sys_console := vidconsole_putc c (sys_console con)\<rparr> else con)))"

fun put_chars :: "outputs \<Rightarrow> device \<Rightarrow> u8 list \<Rightarrow> console \<Rightarrow> console option" where
  "put_chars cfg d [] con = Some con"
| "put_chars cfg d (c # cs) con = Option.bind (real_putc cfg d c con) (put_chars cfg d cs)"

definition con_printf :: "outputs \<Rightarrow> device \<Rightarrow> u8 list \<Rightarrow> va_arg list \<Rightarrow> console \<Rightarrow> console option" where
  "con_printf cfg d fmt ap con = Option.bind (real_printf fmt ap) (\<lambda>cs. put_chars cfg d cs con)"

section \<open>Dumps\<close>

text \<open>Reads a register and prints it.\<close>

definition print_reg :: "outputs \<Rightarrow> device \<Rightarrow> u8 list \<Rightarrow> va_arg list \<Rightarrow> addr \<Rightarrow> console \<Rightarrow> console option" where
  "print_reg cfg d fmt ap a con =
     (let (v, t) = readl d a (con_hist con)
      in con_printf cfg d fmt (ap @ [VaInt v]) (con\<lparr>con_hist := t\<rparr>))"

text \<open>The loop of \<open>dump_regs\<close>; \<open>off\<close> is only used in a comment.\<close>

partial_function (option) dump_regs_loop ::
    "outputs \<Rightarrow> device \<Rightarrow> u32 \<Rightarrow> u32 \<Rightarrow> console \<Rightarrow> console option" where
  "dump_regs_loop cfg d start len con =
     (if start < start + len then
        (let (val, t) = readl d start (con_hist con); con = con\<lparr>con_hist := t\<rparr>
         in Option.bind
              (if val \<noteq> 0 then con_printf cfg d (bytes ''0x%08x : %08x'' @ [10]) [VaInt start, VaInt val] con
               else Some con)
              (dump_regs_loop cfg d (start + 4) len))
      else Some con)"

definition dump_regs :: "outputs \<Rightarrow> device \<Rightarrow> u32 \<Rightarrow> u32 \<Rightarrow> u8 list \<Rightarrow> console \<Rightarrow> console option" where
  "dump_regs cfg d start len reg_name con =
     Option.bind
       (con_printf cfg d ([10] @ bytes ''# %s (0x%08x - 0x%08x):'' @ [10, 10])
          [VaStr reg_name, VaInt start, VaInt (start + len - 4)] con)
       (dump_regs_loop cfg d start len)"

fun each :: "('a \<Rightarrow> 'c \<Rightarrow> 'c option) \<Rightarrow> 'a list \<Rightarrow> 'c \<Rightarrow> 'c option" where
  "each f [] con = Some con"
| "each f (x # xs) con = Option.bind (f x con) (each f xs)"

definition PIO :: "u32 \<Rightarrow> u32 \<Rightarrow> addr" where
  "PIO n a = 0x01C20800 + n * 0x24 + a"

definition RPIO :: "u32 \<Rightarrow> addr" where
  "RPIO a = 0x01f02c00 + a"

definition pio_regs :: "(string \<times> u32) list" where
  "pio_regs = [(''_CFG0'', 0x00), (''_CFG1'', 0x04), (''_CFG2'', 0x08), (''_CFG3'', 0x0c),
     (''_DAT '', 0x10), (''_DRV0'', 0x14), (''_DRV1'', 0x18), (''_PUL0'', 0x1c), (''_PUL1'', 0x20)]"

definition dump_pio :: "outputs \<Rightarrow> device \<Rightarrow> console \<Rightarrow> console option" where
  "dump_pio cfg d con =
     Option.bind (con_printf cfg d ([10] @ bytes ''# PIO:'' @ [10, 10]) [] con)
       (\<lambda>con. Option.bind
          (each (\<lambda>i. each (\<lambda>(r, a).
             print_reg cfg d (bytes ''P%c'' @ bytes r @ bytes '' = %08x'' @ [10]) [VaInt (of_char CHR ''A'' + i)] (PIO i a))
             pio_regs) (map of_nat [1..<8]) con)
          (each (\<lambda>(r, a). print_reg cfg d (bytes ''PL'' @ bytes r @ bytes '' = %08x'' @ [10]) [] (RPIO a)) pio_regs))"

definition dump_all :: "outputs \<Rightarrow> device \<Rightarrow> (u32 \<times> u32 \<times> string) list \<Rightarrow> console \<Rightarrow> console option" where
  "dump_all cfg d = each (\<lambda>(start, len, nm). dump_regs cfg d start len (bytes nm))"

definition dump_de2_registers :: "outputs \<Rightarrow> device \<Rightarrow> console \<Rightarrow> console option" where
  "dump_de2_registers cfg d = dump_all cfg d
     [(0x01000000, 0x14, ''de2''), (0x01100000 + 0x0000, 0x10, ''mixer0 GLB''),
      (0x01100000 + 0x1000, 0x100, ''mixer0 BLD''), (0x01100000 + 0x2000, 0x100, ''mixer0 VI''),
      (0x01100000 + 0x3000, 0x8c, ''mixer0 UI1''), (0x01100000 + 0x4000, 0x8c, ''mixer0 UI2''),
      (0x01100000 + 0x5000, 0x8c, ''mixer0 UI3'')]"

definition dump_dsi_registers :: "outputs \<Rightarrow> device \<Rightarrow> console \<Rightarrow> console option" where
  "dump_dsi_registers cfg d = dump_all cfg d
     [(0x01c0c000, 0x200, ''tcon''), (0x01ca1000, 0x100, ''dphy''), (0x01ca0000, 0x1000, ''dsi'')]"

definition dump_ccu_registers :: "outputs \<Rightarrow> device \<Rightarrow> console \<Rightarrow> console option" where
  "dump_ccu_registers cfg d = dump_all cfg d [(0x01c20000, 0x1000, ''ccu'')]"

text \<open>\<open>ccu_dump\<close>: the addresses are \<open>unsigned long\<close>, the values \<open>u32\<close>.\<close>

definition ccu_dump_regs :: "addr list" where
  "ccu_dump_regs = [0x01c2009c, 0x01c20060, 0x01c202c0, CCU_CPUX_AXI_CFG, CCU_PLL_CPUX, CCU_PLL_LOCK_CTRL,
     CCU_PLL_PERIPH0, CCU_AHB1_APB1_CFG, CCU_MBUS_CLK, CCU_AHB2_CFG]"

definition ccu_dump :: "outputs \<Rightarrow> device \<Rightarrow> console \<Rightarrow> console option" where
  "ccu_dump cfg d =
     each (\<lambda>r. print_reg cfg d (bytes ''%08x %08lx'' @ [10]) [VaLong (ucast r)] r) ccu_dump_regs"

definition on_hist :: "(history \<Rightarrow> 'a \<times> history) \<Rightarrow> console \<Rightarrow> 'a \<times> console" where
  "on_hist f con = (let (x, t) = f (con_hist con) in (x, con\<lparr>con_hist := t\<rparr>))"

definition pmic_dump_registers :: "outputs \<Rightarrow> device \<Rightarrow> console \<Rightarrow> console option" where
  "pmic_dump_registers cfg d con =
     Option.bind (con_printf cfg d (bytes ''Dumping PMIC registers:'') [] con)
       (each (\<lambda>i con.
          let (v, con) = on_hist (pmic_read d (of_nat i)) con
          in con_printf cfg d (bytes ''%x: %x'' @ [10]) [VaInt (of_nat i), VaInt (word_of_int v)] con) [0..<0x80])"

definition when_printf :: "outputs \<Rightarrow> device \<Rightarrow> bool \<times> string \<Rightarrow> console \<Rightarrow> console option" where
  "when_printf cfg d bs con = (if fst bs then con_printf cfg d (bytes (snd bs) @ [10]) [] con else Some con)"

definition present :: "outputs \<Rightarrow> device \<Rightarrow> string \<times> bool \<times> string \<times> string \<Rightarrow> console \<Rightarrow> console option" where
  "present cfg d = (\<lambda>(fmt, b, s1, s2). con_printf cfg d (bytes fmt @ [10]) [VaStr (bytes (if b then s1 else s2))])"

definition pmic_dump_status :: "outputs \<Rightarrow> device \<Rightarrow> console \<Rightarrow> console option" where
  "pmic_dump_status cfg d con =
     (let (status0, con) = on_hist (pmic_read d 0x00) con;
          (status1, con) = on_hist (pmic_read d 0x01) con;
          (status2, con) = on_hist (pmic_read d 0x02) con;
          (_, con) = on_hist (pmic_write d 0x02 0xff) con
      in if status0 \<ge> 0 \<and> status1 \<ge> 0 \<and> status2 \<ge> 0 then
           Option.bind
             (each (when_printf cfg d)
                [(bit status2 0, ''  PMIC power up by POK''), (bit status2 1, ''  PMIC power up by USB power''),
                 (bit status2 5, ''  PMIC UVLO!'')] con)
             (\<lambda>con. Option.bind (present cfg d (''  VBUS %s'', bit status0 5, ''present'', ''absent'') con)
                (\<lambda>con.
                   if bit status1 5 \<and> bit status1 4 then
                     Option.bind
                       (each (present cfg d)
                          [(''  Battery %s3.5V'', bit status0 3, ''>'', ''<''),
                           (''  Battery %s'', bit status0 2, ''charging'', ''discharging'')] con)
                       (when_printf cfg d (bit status1 3, ''  Battery in SAFE mode''))
                   else con_printf cfg d (bytes ''  Battery absent'' @ [10]) [] con))
         else Some con)"

section \<open>What reaches the outputs\<close>

text \<open>The serial port is ready again after finitely many polls, whatever came before.\<close>

definition uart_ready :: "device \<Rightarrow> bool" where
  "uart_ready d \<longleftrightarrow> (\<forall>t. \<exists>n. bit (d (reads d UART0_LSR n t) UART0_LSR) 6)"

lemma bit_6: "v AND 0x40 \<noteq> 0 \<longleftrightarrow> bit v 6" for v :: u32
  using and_exp_eq_0_iff_not_bit [of v 6] by simp

lemma serial_putc_ready:
  assumes "uart_ready d"
  shows "\<exists>k. serial_putc d c t = Some (writel (ucast c) UART0_THR (reads d UART0_LSR k t))"
proof -
  obtain n where "bit (d (reads d UART0_LSR n t) UART0_LSR) 6"
    using assms unfolding uart_ready_def by blast
  then have "d (reads d UART0_LSR n t) UART0_LSR AND push_bit 6 1 \<noteq> 0"
    using bit_6 by simp
  then show ?thesis
    using poll_set_reads [of d UART0_LSR n t "push_bit 6 1"] unfolding serial_putc_def by fastforce
qed

text \<open>The characters that stay in the log, and the writes they cause on the serial port.\<close>

definition log_text :: "u8 list \<Rightarrow> u8 list" where
  "log_text cs = filter (\<lambda>c. c \<noteq> of_char CHR 0x0D) cs"

definition thr_writes :: "u8 list \<Rightarrow> (addr \<times> u32) list" where
  "thr_writes cs = rev (map (\<lambda>c. (UART0_THR, ucast c)) cs)"

definition shown :: "outputs \<Rightarrow> u8 list \<Rightarrow> console \<Rightarrow> console \<Rightarrow> bool" where
  "shown cfg cs con con' \<longleftrightarrow>
     writes (con_hist con') = (if serial_console cfg then thr_writes cs else []) @ writes (con_hist con) \<and>
     con_mem con' = (if fdt_log cfg then mem_write (con_mem con) (log_end con) (log_text cs) else con_mem con) \<and>
     log_end con' = (if fdt_log cfg then log_end con + of_nat (length (log_text cs)) else log_end con) \<and>
     sys_console con' = (if video_console cfg then fold vidconsole_putc cs (sys_console con) else sys_console con)"

lemma real_putc_shown:
  assumes "uart_ready d"
  shows "\<exists>con'. real_putc cfg d c con = Some con' \<and> shown cfg [c] con con'"
proof -
  have one: "mem_write m a [x] = m(a := x)" for m a x
    by (rule ext) (simp add: mem_write_def unat_eq_0)
  show ?thesis
    using serial_putc_ready [OF assms, of c "con_hist con"]
    by (auto simp: real_putc_def shown_def append_log_def Let_def log_text_def thr_writes_def writel_def one)
qed

lemma shown_append:
  assumes "shown cfg [c] con con1" "shown cfg cs con1 con2" "length cs < 2 ^ 64"
  shows "shown cfg (c # cs) con con2"
proof -
  have "length (log_text cs) < 2 ^ 64"
    unfolding log_text_def by (rule le_less_trans [OF length_filter_le assms(3)])
  moreover have "length (log_text [c]) \<le> 1"
    by (simp add: log_text_def)
  ultimately have "length (log_text [c]) + length (log_text cs) \<le> 2 ^ 64"
    by linarith
  then have "mem_write (mem_write m a (log_text [c])) (a + of_nat (length (log_text [c]))) (log_text cs) =
      mem_write m a (log_text (c # cs))" for m a
    using mem_write_append [of "log_text [c]" "log_text cs" m a] by (auto simp: log_text_def)
  with assms(1,2) show ?thesis
    by (auto simp: shown_def thr_writes_def log_text_def ac_simps)
qed

lemma put_chars_shown:
  assumes "uart_ready d" "length cs < 2 ^ 64"
  shows "\<exists>con'. put_chars cfg d cs con = Some con' \<and> shown cfg cs con con'"
  using assms(2)
proof (induction cs arbitrary: con)
  case Nil
  then show ?case
    by (simp add: shown_def thr_writes_def log_text_def)
next
  case (Cons c cs)
  obtain con1 where one: "real_putc cfg d c con = Some con1" "shown cfg [c] con con1"
    using real_putc_shown [OF assms(1)] by blast
  obtain con2 where "put_chars cfg d cs con1 = Some con2" "shown cfg cs con1 con2"
    using Cons by fastforce
  with one show ?case
    using shown_append [OF one(2)] Cons.prems by auto
qed

text \<open>
  On a serial port that gets ready again, what \<open>real_printf\<close> formats is written to the port
  character by character in order, appended to the log without the carriage returns, and fed to
  the console on the display, each when the build enables it; nothing else is written.
\<close>

theorem printf_reaches_outputs:
  assumes "uart_ready d" "real_printf fmt ap = Some cs" "length cs < 2 ^ 64"
  shows "\<exists>con'. con_printf cfg d fmt ap con = Some con' \<and>
    writes (con_hist con') =
      (if serial_console cfg then rev (map (\<lambda>c. (UART0_THR, ucast c)) cs) else []) @ writes (con_hist con) \<and>
    con_mem con' = (if fdt_log cfg
      then mem_write (con_mem con) (log_end con) (filter (\<lambda>c. c \<noteq> of_char CHR 0x0D) cs) else con_mem con) \<and>
    sys_console con' = (if video_console cfg then fold vidconsole_putc cs (sys_console con) else sys_console con)"
  using put_chars_shown [OF assms(1,3), of cfg con] assms(2)
  by (auto simp: con_printf_def shown_def thr_writes_def log_text_def)

definition idle_uart :: device where
  "idle_uart t a = (if a = UART0_LSR then 0x60 else 0)"

lemma idle_uart_ready: "uart_ready idle_uart"
proof -
  have "bit (0x60 :: u32) 6"
    using bit_6 [of "0x60"] by simp
  then show ?thesis
    unfolding uart_ready_def idle_uart_def by auto
qed

theorem printf_reaches_outputs_witness:
  "\<exists>con'. con_printf \<lparr>serial_console = True, fdt_log = True, video_console = False\<rparr> idle_uart
      (bytes ''ok'' @ [10]) [] \<lparr>con_hist = [], con_mem = (\<lambda>_. 0), log_end = 0x18000, sys_console = None\<rparr> = Some con' \<and>
    writes (con_hist con') = [(UART0_THR, 10), (UART0_THR, 13), (UART0_THR, 0x6b), (UART0_THR, 0x6f)] \<and>
    con_mem con' = mem_write (\<lambda>_. 0) 0x18000 [0x6f, 0x6b, 10]"
proof -
  have chars: "real_printf (bytes ''ok'' @ [10]) [] = Some [0x6f, 0x6b, 13, 10]"
    by (simp add: bytes_def real_printf.simps)
  show ?thesis
    using printf_reaches_outputs [OF idle_uart_ready chars, of "\<lparr>serial_console = True, fdt_log = True, video_console = False\<rparr>"
        "\<lparr>con_hist = [], con_mem = (\<lambda>_. 0), log_end = 0x18000, sys_console = None\<rparr>"]
    by auto
qed

section \<open>The dumps run too far\<close>

text \<open>Nothing that happened is forgotten.\<close>

lemma poll_set_extends:
  assumes "poll_set d a m t = Some t'"
  shows "set t \<subseteq> set t'"
proof (rule poll_set.raw_induct [where P = "\<lambda>d a m t t'. set t \<subseteq> set t'", OF _ assms])
  fix ps d a m t t'
  assume IH: "\<And>d a m t t'. ps d a m t = Some t' \<Longrightarrow> set t \<subseteq> set t'"
    and body: "(let (v, t) = readl d a t in if v AND m \<noteq> 0 then Some t else ps d a m t) = Some t'"
  from body show "set t \<subseteq> set t'"
    by (auto simp: readl_def Let_def split: if_splits dest!: IH)
qed

lemma real_putc_extends:
  "real_putc cfg d c con = Some con' \<Longrightarrow> set (con_hist con) \<subseteq> set (con_hist con')"
  by (auto simp: real_putc_def serial_putc_def append_log_def Let_def writel_def
      split: option.splits if_splits dest!: poll_set_extends)

lemma put_chars_extends:
  "put_chars cfg d cs con = Some con' \<Longrightarrow> set (con_hist con) \<subseteq> set (con_hist con')"
  by (induction cs arbitrary: con) (auto simp: bind_eq_Some_conv dest!: real_putc_extends)

lemma con_printf_extends:
  "con_printf cfg d fmt ap con = Some con' \<Longrightarrow> set (con_hist con) \<subseteq> set (con_hist con')"
  by (auto simp: con_printf_def bind_eq_Some_conv dest: put_chars_extends)

lemma dump_regs_step:
  assumes "dump_regs_loop cfg d start len con = Some con'" "start < start + len"
  shows "\<exists>con1. Rd start (d (con_hist con) start) \<in> set (con_hist con1) \<and>
    dump_regs_loop cfg d (start + 4) len con1 = Some con'"
proof -
  let ?con = "con\<lparr>con_hist := Rd start (d (con_hist con) start) # con_hist con\<rparr>"
  let ?print = "if d (con_hist con) start \<noteq> 0
      then con_printf cfg d (bytes ''0x%08x : %08x'' @ [10]) [VaInt start, VaInt (d (con_hist con) start)] ?con
      else Some ?con"
  have "Option.bind ?print (dump_regs_loop cfg d (start + 4) len) = Some con'"
    using assms(1) unfolding dump_regs_loop.simps [of cfg d start len con]
    by (simp add: assms(2) readl_def Let_def)
  then obtain con1 where con1: "?print = Some con1" "dump_regs_loop cfg d (start + 4) len con1 = Some con'"
    unfolding bind_eq_Some_conv by blast
  have "set (con_hist ?con) \<subseteq> set (con_hist con1)"
    using con1(1) con_printf_extends by (metis option.inject order_refl)
  with con1(2) show ?thesis
    by auto
qed

lemma dump_regs_loop_extends:
  assumes "dump_regs_loop cfg d start len con = Some con'"
  shows "set (con_hist con) \<subseteq> set (con_hist con')"
proof (rule dump_regs_loop.raw_induct [where P = "\<lambda>cfg d start len con con'. set (con_hist con) \<subseteq> set (con_hist con')", OF _ assms])
  fix loop cfg d start len con con'
  assume IH: "\<And>cfg d start len con con'. loop cfg d start len con = Some con' \<Longrightarrow> set (con_hist con) \<subseteq> set (con_hist con')"
    and body: "(if start < start + len then
        (let (val, t) = readl d start (con_hist con); con = con\<lparr>con_hist := t\<rparr>
         in Option.bind
              (if val \<noteq> 0 then con_printf cfg d (bytes ''0x%08x : %08x'' @ [10]) [VaInt start, VaInt val] con
               else Some con)
              (loop cfg d (start + 4) len))
      else Some con) = Some con'"
  from body show "set (con_hist con) \<subseteq> set (con_hist con')"
    by (auto simp: readl_def Let_def bind_eq_Some_conv split: if_splits dest!: IH con_printf_extends)
qed

text \<open>
  \<open>dump_regs\<close> does not stop at the end of the range: its condition moves with the counter, so
  when it returns, every word from the start up to the end of the address space has been read.
\<close>

theorem dump_regs_overruns:
  assumes "dump_regs cfg d start len nm con = Some con'" "0 < len"
    and "unat start + 4 * k + unat len < 2 ^ 32"
  shows "\<exists>v. Rd (start + of_nat (4 * k)) v \<in> set (con_hist con')"
proof -
  obtain con0 where "dump_regs_loop cfg d start len con0 = Some con'"
    using assms(1) by (auto simp: dump_regs_def bind_eq_Some_conv)
  then show ?thesis
    using assms(3)
  proof (induction k arbitrary: start con0)
    case (0 start con0)
    then have "start < start + len"
      using assms(2) by (simp add: word_less_nat_alt unat_word_ariths)
    then show ?case
      using dump_regs_step [OF 0(1)] dump_regs_loop_extends by fastforce
  next
    case (Suc k start con0)
    have plus: "unat (start + 4) = unat start + 4"
      using Suc.prems(2) by (simp add: unat_word_ariths)
    have "start < start + len"
      using assms(2) Suc.prems(2) by (simp add: word_less_nat_alt unat_word_ariths)
    then obtain con1 where "dump_regs_loop cfg d (start + 4) len con1 = Some con'"
      using dump_regs_step [OF Suc.prems(1)] by blast
    then show ?case
      using Suc.IH [of "start + 4" con1] Suc.prems(2) by (simp add: plus ac_simps)
  qed
qed

definition quiet :: outputs where
  "quiet = \<lparr>serial_console = False, fdt_log = False, video_console = False\<rparr>"

lemma put_chars_quiet: "put_chars quiet d cs con = Some con"
  by (induction cs arbitrary: con) (simp_all add: real_putc_def quiet_def Let_def)

definition blank_console :: console where
  "blank_console = \<lparr>con_hist = [], con_mem = (\<lambda>_. 0), log_end = 0, sys_console = None\<rparr>"

theorem dump_regs_overruns_witness:
  "\<exists>con'. dump_regs quiet (regfile (\<lambda>_. 0)) 0xFFFFFFF0 4 (bytes ''top'') blank_console = Some con' \<and>
    (\<exists>v. Rd 0xFFFFFFF8 v \<in> set (con_hist con'))"
proof -
  let ?d = "regfile (\<lambda>_. 0)"
  have z: "?d t a = 0" if "writes t = []" for t a
    using that last_wr_unwritten [of a t "\<lambda>_. 0"] by (simp add: regfile_def)
  have "\<exists>cs. real_printf ([10] @ bytes ''# %s (0x%08x - 0x%08x):'' @ [10, 10])
      [VaStr (bytes ''top''), VaInt 0xFFFFFFF0, VaInt 0xFFFFFFF0] = Some cs"
    by (simp add: bytes_def real_printf.simps parse_spec_def is_dec_def convert_def)
  then have head: "con_printf quiet ?d ([10] @ bytes ''# %s (0x%08x - 0x%08x):'' @ [10, 10])
      [VaStr (bytes ''top''), VaInt 0xFFFFFFF0, VaInt 0xFFFFFFF0] blank_console = Some blank_console"
    by (auto simp: con_printf_def put_chars_quiet)
  obtain con' where run: "dump_regs_loop quiet ?d 0xFFFFFFF0 4 blank_console = Some con'"
    by (simp add: dump_regs_loop.simps [of _ _ "0xFFFFFFF0"] dump_regs_loop.simps [of _ _ "0xFFFFFFF4"]
        dump_regs_loop.simps [of _ _ "0xFFFFFFF8"] dump_regs_loop.simps [of _ _ "0xFFFFFFFC"]
        blank_console_def readl_def z Let_def)
  have "dump_regs quiet ?d 0xFFFFFFF0 4 (bytes ''top'') blank_console = Some con'"
    using head run by (simp add: dump_regs_def)
  then show ?thesis
    using dump_regs_overruns [of quiet ?d "0xFFFFFFF0" 4 "bytes ''top''" blank_console con' 2] by auto
qed

text \<open>
  \<open>ccu_dump\<close> hands a 64-bit address to \<open>%08x\<close> and a 32-bit value to \<open>%08lx\<close>: by the rules of C its
  behaviour is undefined.
\<close>

lemma ccu_dump_undefined: "ccu_dump cfg d con = None"
  by (simp add: ccu_dump_def ccu_dump_regs_def print_reg_def con_printf_def readl_def Let_def bytes_def
      real_printf.simps parse_spec_def is_dec_def convert_def)

end
