(* ===== verification/Mkbin.thy ===== *)
theory Mkbin
  imports Rle Conf_Tool
begin

text \<open>
  The font converter \<open>src/src/fonts/mkbin.c\<close>: it reads a font description, a height and then for
  every character a line with its code and as many lines of eight cells as the height says, and
  writes the bitmaps, packed or not. Standard input is a string; what is left of it is passed on.
  More output than the static array of 16384 bytes is undefined and \<open>Overflow\<close> here.
\<close>

section \<open>Lines\<close>

datatype mkbin_error =
    MoreInput | NoHeight | BadHeight | CodeOrder nat | BadWidth | Overflow

text \<open>\<open>fgets\<close> into the 128 bytes of \<open>ln\<close>: the characters read and what is left.\<close>

definition fgets_ln :: "string \<Rightarrow> string \<times> string" where
  "fgets_ln s =
     (let n = length (takeWhile (\<lambda>c. c \<noteq> CHR 0x0A) (take 127 s));
          k = min (Suc n) (length (take 127 s))
      in (take k s, drop k s))"

lemma fgets_ln_shorter: "s \<noteq> [] \<Longrightarrow> length (snd (fgets_ln s)) < length s"
  by (cases s) (auto simp: fgets_ln_def Let_def)

text \<open>\<open>strlen\<close> and the newline that is cut off.\<close>

definition chomp :: "string \<Rightarrow> string" where
  "chomp s =
     (let ln = takeWhile (\<lambda>c. c \<noteq> CHR 0x00) s
      in if ln \<noteq> [] \<and> last ln = CHR 0x0A then butlast ln else ln)"

definition isblank :: "char \<Rightarrow> bool" where
  "isblank c \<longleftrightarrow> c = CHR '' '' \<or> c = CHR 0x09"

text \<open>\<open>next_line\<close>: \<open>None\<close> at the end of the input; lines of blanks are skipped.\<close>

function next_line :: "string \<Rightarrow> (string \<times> string) option" where
  "next_line s =
     (if s = [] then None
      else
        (let ln = chomp (fst (fgets_ln s)); rest = snd (fgets_ln s)
         in if list_all isblank ln then next_line rest else Some (ln, rest)))"
  by pat_completeness auto
termination
  by (relation "measure length") (auto intro: fgets_ln_shorter)

declare next_line.simps [simp del]

definition require_line :: "string \<Rightarrow> mkbin_error + (string \<times> string)" where
  "require_line s = (case next_line s of None \<Rightarrow> Inl MoreInput | Some r \<Rightarrow> Inr r)"

section \<open>Numbers\<close>

text \<open>\<open>sscanf(ln, "%u", &n) == 1\<close>: white space, a sign and at least one digit.\<close>

definition scan_uint :: "string \<Rightarrow> u32 option" where
  "scan_uint s =
     (let s = dropWhile isspace s;
          sgn = take 1 s;
          ds = (if sgn = ''-'' \<or> sgn = ''+'' then drop 1 s else s)
      in if takeWhile isdigit ds = [] then None
         else Some (word_of_int (if sgn = ''-'' then - digits_int ds else digits_int ds)))"

definition isxdigit :: "char \<Rightarrow> bool" where
  "isxdigit c \<longleftrightarrow> of_char c \<in> {48..57} \<union> {65..70} \<union> {97..102 :: nat}"

definition xdigit :: "char \<Rightarrow> nat" where
  "xdigit c =
     (if of_char c \<in> {48..57 :: nat} then of_char c - 48
      else if of_char c \<in> {65..70 :: nat} then of_char c - 55 else of_char c - 87)"

text \<open>
  The line \<open>0xHH\<close> that gives the code of the character, and what \<open>sscanf\<close> with \<open>%x\<close> makes of it.
\<close>

definition code_line :: "string \<Rightarrow> nat option" where
  "code_line ln =
     (case ln of
        [a, b, h, l] \<Rightarrow>
          if a = CHR ''0'' \<and> b = CHR ''x'' \<and> isxdigit h \<and> isxdigit l then Some (16 * xdigit h + xdigit l)
          else None
      | _ \<Rightarrow> None)"

section \<open>Characters\<close>

text \<open>The byte of a line: \<open>ch_line |= (ln[x] == '#') ? 1 << (7 - x) : 0\<close>.\<close>

definition line_byte :: "string \<Rightarrow> u8" where
  "line_byte ln = fold (\<lambda>x b. b OR (if ln ! x = CHR ''#'' then push_bit (7 - x) 1 else 0)) [0..<8] 0"

fun read_rows :: "nat \<Rightarrow> string \<Rightarrow> u8 list \<Rightarrow> mkbin_error + (u8 list \<times> string)" where
  "read_rows 0 s out = Inr (out, s)"
| "read_rows (Suc n) s out =
     bindE (require_line s) (\<lambda>(ln, s).
       if length ln \<noteq> 8 then Inl BadWidth
       else if length out \<ge> 16384 then Inl Overflow
       else read_rows n s (out @ [line_byte ln]))"

lemma next_line_shorter: "next_line s = Some (ln, r) \<Longrightarrow> length r < length s"
proof (induction s rule: next_line.induct)
  case (1 s)
  have ne: "s \<noteq> []"
    using 1(2) by (auto simp: next_line.simps)
  show ?case
  proof (cases "list_all isblank (chomp (fst (fgets_ln s)))")
    case True
    then show ?thesis
      using 1 ne fgets_ln_shorter [OF ne] by (fastforce simp: next_line.simps [of s])
  next
    case False
    then show ?thesis
      using 1(2) ne fgets_ln_shorter [OF ne] by (auto simp: next_line.simps [of s] Let_def)
  qed
qed

lemma read_rows_shorter: "read_rows n s out = Inr (out', r) \<Longrightarrow> length r \<le> length s"
proof (induction n arbitrary: s out)
  case (Suc n)
  then obtain ln s1 where "next_line s = Some (ln, s1)" "length ln = 8"
    "read_rows n s1 (out @ [line_byte ln]) = Inr (out', r)"
    by (auto simp: bindE_Inr_iff require_line_def split: option.splits if_splits)
  with Suc.IH show ?case
    by (meson le_trans less_imp_le next_line_shorter)
qed simp

text \<open>\<open>while (next_line(false))\<close>: the bytes and the number of characters.\<close>

function read_chars :: "nat \<Rightarrow> nat \<Rightarrow> string \<Rightarrow> u8 list \<Rightarrow> mkbin_error + (u8 list \<times> nat)" where
  "read_chars ch_height ch_index s out =
     (case next_line s of
        None \<Rightarrow> Inr (out, ch_index)
      | Some (ln, s) \<Rightarrow>
          (case code_line ln of
             Some ch \<Rightarrow>
               if ch_index \<noteq> ch then Inl (CodeOrder ch)
               else (case read_rows ch_height s out of
                       Inl e \<Rightarrow> Inl e | Inr (out, s) \<Rightarrow> read_chars ch_height (Suc ch_index) s out)
           | None \<Rightarrow>
               (case read_rows ch_height s out of
                  Inl e \<Rightarrow> Inl e | Inr (out, s) \<Rightarrow> read_chars ch_height (Suc ch_index) s out)))"
  by pat_completeness auto
termination
  by (relation "measure (\<lambda>(h, i, s, out). length s)")
    (auto dest!: next_line_shorter read_rows_shorter)

declare read_chars.simps [simp del]

definition read_font :: "string \<Rightarrow> mkbin_error + (nat \<times> u8 list \<times> nat)" where
  "read_font s =
     bindE (require_line s) (\<lambda>(ln, s).
       case scan_uint ln of
         None \<Rightarrow> Inl NoHeight
       | Some ch_height \<Rightarrow>
           if ch_height < 8 \<or> ch_height > 16 then Inl BadHeight
           else bindE (read_chars (unat ch_height) 0 s []) (\<lambda>(out, n). Inr (unat ch_height, out, n)))"

section \<open>Output\<close>

text \<open>\<open>%u\<close> and \<open>%02x\<close> of the \<open>printf\<close> of the host.\<close>

fun show_uint :: "nat \<Rightarrow> string" where
  "show_uint n = (if n < 10 then [] else show_uint (n div 10)) @ [''0123456789'' ! (n mod 10)]"

declare show_uint.simps [simp del]

definition show_nibble :: "nat \<Rightarrow> char" where
  "show_nibble n = ''0123456789abcdef'' ! n"

definition show_hex2 :: "nat \<Rightarrow> string" where
  "show_hex2 n = [show_nibble (n div 16), show_nibble (n mod 16)]"

datatype mode = Raw | Packed | Header

definition mode_of :: "string list \<Rightarrow> mode" where
  "mode_of args = (if args = [''rle''] then Packed else if args = [''h''] then Header else Raw)"

definition nl :: string where
  "nl = [CHR 0x0A]"

definition header_text :: "nat \<Rightarrow> nat \<Rightarrow> u8 list \<Rightarrow> string" where
  "header_text ch_height ch_index out_rle =
     ''#define FONT_WIDTH 8'' @ nl @
     ''#define FONT_HEIGHT '' @ show_uint ch_height @ nl @
     ''#define FONT_CHARS '' @ show_uint ch_index @ nl @
     ''__attribute__((unused))'' @ nl @ ''static uint8_t font_data['' @ show_uint (length out_rle) @ ''] = {'' @ nl @
     concat (map (\<lambda>i. ''0x'' @ show_hex2 (unat (out_rle ! i)) @ '','' @ (if i mod 16 = 15 then nl else []))
       [0..<length out_rle]) @
     ''};'' @ nl"

text \<open>What the program writes to standard output, by its arguments.\<close>

definition mkbin :: "string list \<Rightarrow> string \<Rightarrow> mkbin_error + u8 list" where
  "mkbin args s =
     bindE (read_font s) (\<lambda>(ch_height, out, ch_index).
       case mode_of args of
         Raw \<Rightarrow> Inr out
       | Packed \<Rightarrow> Inr (take (enc_size out) (rle out))
       | Header \<Rightarrow> Inr (bytes (header_text ch_height ch_index (take (enc_size out) (rle out)))))"

section \<open>Descriptions\<close>

text \<open>
  A row of a character as the font files draw it, and the description of a font, as
  \<open>src/fonts/mkfont.php\<close> prints it (without the blank lines, which \<open>next_line\<close> skips).
\<close>

definition draw_row :: "u8 \<Rightarrow> string" where
  "draw_row b = map (\<lambda>x. if bit b (7 - x) then CHR ''#'' else CHR ''.'') [0..<8]"

definition draw_char :: "nat \<Rightarrow> u8 list \<Rightarrow> string" where
  "draw_char i g = ''0x'' @ show_hex2 i @ nl @ concat (map (\<lambda>b. draw_row b @ nl) g)"

fun draw_chars :: "nat \<Rightarrow> u8 list list \<Rightarrow> string" where
  "draw_chars i [] = []"
| "draw_chars i (g # gs) = draw_char i g @ draw_chars (Suc i) gs"

definition draw_font :: "nat \<Rightarrow> u8 list list \<Rightarrow> string" where
  "draw_font h gs = show_uint h @ nl @ draw_chars 0 gs"

lemma takeWhile_line:
  "CHR 0x0A \<notin> set ln \<Longrightarrow> length ln < 127 \<Longrightarrow>
    takeWhile (\<lambda>c. c \<noteq> CHR 0x0A) (take 127 (ln @ nl @ rest)) = ln"
proof -
  assume a: "CHR 0x0A \<notin> set ln" "length ln < 127"
  then obtain k where "127 - length ln = Suc k"
    by (cases "127 - length ln") auto
  with a show ?thesis
    by (simp add: nl_def) (subst takeWhile_append2, auto)
qed

lemma next_line_line:
  assumes "CHR 0x0A \<notin> set ln" "CHR 0x00 \<notin> set ln" "length ln < 127" "\<not> list_all isblank ln"
  shows "next_line (ln @ nl @ rest) = Some (ln, rest)"
proof -
  have "fgets_ln (ln @ nl @ rest) = (ln @ nl, rest)"
    unfolding fgets_ln_def takeWhile_line [OF assms(1,3)] Let_def
    using assms(3) by (simp add: nl_def min_def) arith
  moreover have "chomp (ln @ nl) = ln"
  proof -
    have "takeWhile (\<lambda>c. c \<noteq> CHR 0x00) (ln @ nl) = ln @ nl"
      using assms(2) by (subst takeWhile_eq_all_conv) (auto simp: nl_def)
    then show ?thesis
      by (simp add: chomp_def nl_def)
  qed
  ultimately show ?thesis
    using assms(4) by (subst next_line.simps) (simp add: nl_def)
qed

lemma next_line_end: "next_line [] = None"
  by (subst next_line.simps) simp

lemma row_line: "next_line (draw_row b @ nl @ rest) = Some (draw_row b, rest)"
  by (rule next_line_line) (auto simp: draw_row_def isblank_def upt_conv_Cons)

lemma row_byte: "line_byte (draw_row b) = b"
proof (rule bit_word_eqI)
  fix n assume "n < LENGTH(8)"
  then have "n \<in> set [0, 1, 2, 3, 4, 5, 6, 7]"
    by simp arith
  moreover have "list_all (\<lambda>n. bit (line_byte (draw_row b)) n = bit b n) [0, 1, 2, 3, 4, 5, 6, 7]"
    by (simp add: line_byte_def draw_row_def upt_conv_Cons bit_or_iff bit_push_bit_iff if_distrib [of "\<lambda>w. bit w _"] cong: if_cong)
  ultimately show "bit (line_byte (draw_row b)) n = bit b n"
    unfolding list_all_iff by blast
qed

lemma read_drawn_rows:
  "length out + length g \<le> 16384 \<Longrightarrow>
    read_rows (length g) (concat (map (\<lambda>b. draw_row b @ nl) g) @ rest) out = Inr (out @ g, rest)"
proof (induction g arbitrary: out)
  case (Cons b g)
  then show ?case
    by (simp add: require_line_def row_line row_byte) (simp add: draw_row_def)
qed simp

section \<open>Reading a description\<close>

lemma show_hex2_line:
  assumes "i < 256"
  shows "next_line (''0x'' @ show_hex2 i @ nl @ rest) = Some (''0x'' @ show_hex2 i, rest)"
    "code_line (''0x'' @ show_hex2 i) = Some i"
proof -
  have nib: "isxdigit (show_nibble n) \<and> xdigit (show_nibble n) = n \<and> show_nibble n \<noteq> CHR 0x0A \<and>
      show_nibble n \<noteq> CHR 0x00" if "n < 16" for n
  proof -
    have "n \<in> set [0..<16]"
      using that by simp
    moreover have "list_all (\<lambda>n. isxdigit (show_nibble n) \<and> xdigit (show_nibble n) = n \<and>
        show_nibble n \<noteq> CHR 0x0A \<and> show_nibble n \<noteq> CHR 0x00) [0..<16]"
      by (simp add: upt_conv_Cons isxdigit_def xdigit_def show_nibble_def)
    ultimately show ?thesis
      by (simp add: list_all_iff)
  qed
  have i: "i div 16 < 16" "i mod 16 < 16"
    using assms by simp_all
  have "next_line ((''0x'' @ show_hex2 i) @ nl @ rest) = Some (''0x'' @ show_hex2 i, rest)"
    using nib [OF i(1)] nib [OF i(2)] by (intro next_line_line) (auto simp: show_hex2_def isblank_def)
  then show "next_line (''0x'' @ show_hex2 i @ nl @ rest) = Some (''0x'' @ show_hex2 i, rest)"
    by simp
  show "code_line (''0x'' @ show_hex2 i) = Some i"
    using nib [OF i(1)] nib [OF i(2)] by (simp add: code_line_def show_hex2_def)
qed

lemma read_drawn_chars:
  assumes "\<forall>g \<in> set gs. length g = h" "i + length gs \<le> 256" "length out + length gs * h \<le> 16384"
  shows "read_chars h i (draw_chars i gs) out = Inr (out @ concat gs, i + length gs)"
  using assms
proof (induction gs arbitrary: i out)
  case Nil
  then show ?case
    by (subst read_chars.simps) (simp add: next_line_end)
next
  case (Cons g gs)
  have step: "read_rows h (concat (map (\<lambda>b. draw_row b @ nl) g) @ draw_chars (Suc i) gs) out =
      Inr (out @ g, draw_chars (Suc i) gs)"
    using read_drawn_rows [of out g] Cons.prems by simp
  have "i < 256"
    using Cons.prems by simp
  then show ?case
    using Cons.IH [of "Suc i" "out @ g"] Cons.prems
    by (subst read_chars.simps) (simp add: draw_char_def show_hex2_line [simplified] step)
qed

lemma height_text:
  "show_uint 8 = ''8''" "show_uint 9 = ''9''" "show_uint 10 = ''10''" "show_uint 11 = ''11''"
  "show_uint 12 = ''12''" "show_uint 13 = ''13''" "show_uint 14 = ''14''" "show_uint 15 = ''15''"
  "show_uint 16 = ''16''"
  by (simp_all add: show_uint.simps)

lemma height_line:
  assumes "h \<in> {8..16}"
  shows "next_line (show_uint h @ nl @ rest) = Some (show_uint h, rest)"
    "scan_uint (show_uint h) = Some (of_nat h)"
proof -
  have "h \<in> set [8, 9, 10, 11, 12, 13, 14, 15, 16]"
    using assms by auto
  moreover have "list_all (\<lambda>h. CHR 0x0A \<notin> set (show_uint h) \<and> CHR 0x00 \<notin> set (show_uint h) \<and>
      length (show_uint h) < 127 \<and> \<not> list_all isblank (show_uint h) \<and> scan_uint (show_uint h) = Some (of_nat h))
      [8, 9, 10, 11, 12, 13, 14, 15, 16]"
    by (simp add: height_text isblank_def scan_uint_def isspace_def isdigit_def digits_int_def)
  ultimately have "CHR 0x0A \<notin> set (show_uint h) \<and> CHR 0x00 \<notin> set (show_uint h) \<and>
      length (show_uint h) < 127 \<and> \<not> list_all isblank (show_uint h) \<and> scan_uint (show_uint h) = Some (of_nat h)"
    unfolding list_all_iff by blast
  then show "next_line (show_uint h @ nl @ rest) = Some (show_uint h, rest)"
    "scan_uint (show_uint h) = Some (of_nat h)"
    by (auto intro: next_line_line)
qed

lemma read_drawn_font:
  assumes "h \<in> {8..16}" "\<forall>g \<in> set gs. length g = h" "length gs \<le> 256"
  shows "read_font (draw_font h gs) = Inr (h, concat gs, length gs)"
proof -
  have "unat (of_nat h :: u32) = h" "\<not> (of_nat h :: u32) < 8" "\<not> (of_nat h :: u32) > 16"
    using assms(1) by (auto simp: unat_of_nat word_less_nat_alt)
  moreover have "length gs * h \<le> 256 * 16"
    using assms by (intro mult_le_mono) auto
  ultimately show ?thesis
    using read_drawn_chars [of gs h 0 "[]"] assms
    by (simp add: read_font_def draw_font_def require_line_def height_line)
qed

section \<open>Properties\<close>

text \<open>
  C28: from the description of any font the converter reads the bitmaps that were drawn. What it
  writes packed is unpacked by \<open>unrle\<close> of the console into the same bitmaps but for a run of at
  most 126 empty rows at the very end, which \<open>rle\<close> drops: there the target keeps what it held. So
  the bitmaps come back as a whole when the font does not end in an empty row, and also when the
  target held zeros before. The target must not overlap the packed data.
\<close>

theorem font_roundtrip:
  assumes "h \<in> {8..16}" "\<forall>g \<in> set gs. length g = h" "length gs \<le> 256"
    and "mkbin [''rle''] (draw_font h gs) = Inr packed"
    and "mem_bytes m inp packed" "outside inp (length packed) out (length gs * h)"
  shows "mkbin [] (draw_font h gs) = Inr (concat gs) \<and>
    (\<exists>rows k. concat gs = rows @ replicate k 0 \<and> k \<le> 126 \<and> (concat gs \<noteq> [] \<and> last (concat gs) \<noteq> 0 \<longrightarrow> k = 0) \<and>
       unrle m out inp (length packed) = (mem_write m out rows, out + of_nat (length rows))) \<and>
    (mem_bytes m out (replicate (length gs * h) 0) \<longrightarrow>
       fst (unrle m out inp (length packed)) = mem_write m out (concat gs))"
proof -
  have size: "length (concat gs) = length gs * h"
    using assms(2) by (induction gs) simp_all
  have "length gs * h \<le> 256 * 16"
    using assms(1,3) by (intro mult_le_mono) auto
  then have bits: "length (concat gs) \<le> 2 ^ 63"
    using size by simp
  have font: "read_font (draw_font h gs) = Inr (h, concat gs, length gs)"
    by (rule read_drawn_font [OF assms(1-3)])
  have packed: "packed = take (enc_size (concat gs)) (rle (concat gs))"
    using assms(4) by (simp add: mkbin_def mode_of_def font)
  then have len: "length packed = enc_size (concat gs)"
    by (simp add: enc_size_length)
  have at: "mem_bytes m inp (take (enc_size (concat gs)) (rle (concat gs)))"
    "outside inp (enc_size (concat gs)) out (length (concat gs))"
    using assms(5,6) packed len size by simp_all
  show ?thesis
    using unrle_rle_but_zeros [OF bits at] unrle_rle_on_zeros [OF bits _ at]
    by (simp add: mkbin_def mode_of_def font len size)
qed

text \<open>A font of one character that ends in three empty rows, unpacked over zeros.\<close>

theorem font_roundtrip_witness:
  "\<exists>packed. mkbin [''rle''] (draw_font 8 [[0, 0, 24, 24, 255, 0, 0, 0]]) = Inr packed \<and>
    fst (unrle (mem_write (\<lambda>_. 0) 0 packed) 0x100 0 (length packed)) =
      mem_write (mem_write (\<lambda>_. 0) 0 packed) 0x100 [0, 0, 24, 24, 255, 0, 0, 0]"
proof -
  let ?g = "[0, 0, 24, 24, 255, 0, 0, 0] :: u8 list"
  let ?p = "rle ?g" and ?m = "mem_write (\<lambda>_. 0) 0 (rle [0, 0, 24, 24, 255, 0, 0, 0])"
  have "read_font (draw_font 8 [?g]) = Inr (8, ?g, 1)"
    using read_drawn_font [of 8 "[?g]"] by simp
  then have packed: "mkbin [''rle''] (draw_font 8 [?g]) = Inr ?p"
    by (simp add: mkbin_def mode_of_def enc_size_length)
  have len: "length ?p \<le> 16"
    by (simp add: rle_def)
  have bytes: "mem_bytes ?m 0 ?p"
    using len by (intro mem_write_bytes) simp
  have out: "outside 0 (length ?p) 0x100 (length [?g] * 8)"
    unfolding outside_def
  proof (intro allI impI)
    fix j assume "j < length ?p"
    then have "j < 16"
      using len by simp
    then have "unat (0 + of_nat j - (0x100 :: u64)) = 2 ^ 64 + j - 0x100"
      by (simp add: unat_sub_if' unat_of_nat)
    then show "length [?g] * 8 \<le> unat (0 + of_nat j - (0x100 :: u64))"
      by simp
  qed
  have "mem_bytes ?m 0x100 (replicate (length [?g] * 8) 0)"
    unfolding mem_bytes_def
  proof (intro allI impI)
    fix j assume "j < length (replicate (length [?g] * 8) (0 :: u8))"
    then have j: "j < 8" by simp
    then have "unat (0x100 + of_nat j - 0 :: u64) = 0x100 + j"
      by (simp add: unat_word_ariths unat_of_nat)
    then show "?m (0x100 + of_nat j) = replicate (length [?g] * 8) 0 ! j"
      using len j by (simp add: mem_write_def)
  qed
  then show ?thesis
    using font_roundtrip [of 8 "[?g]" ?p ?m 0 "0x100"] packed bytes out by auto
qed

end
