(* ===== verification/Mmc_Init.thy ===== *)
theory Mmc_Init
  imports Storage
begin

text \<open>
  Bringing a card up, \<open>src/src/uboot/drivers/mmc/mmc.c\<close>: identification of SD cards and of eMMC,
  their capacity, the choice of bus mode and width, for the options of \<open>configure.php\<close> (no driver
  model, no UHS, HS200 or HS400 modes, no writing). The host controller is the record \<open>host\<close>, a
  parameter: sending a command, setting clock and width, the reset of the controller, time. Its
  functions act on a state \<open>'c\<close> that holds the controller, the card and the clock. A wait that is
  bounded by the clock alone is a \<open>partial_function\<close>.
\<close>

section \<open>Constants\<close>

abbreviation ETIMEDOUT :: int where "ETIMEDOUT \<equiv> 110"
abbreviation EOPNOTSUPP :: int where "EOPNOTSUPP \<equiv> 95"
abbreviation ENOTSUPP :: int where "ENOTSUPP \<equiv> 524"
abbreviation EINVAL :: int where "EINVAL \<equiv> 22"
abbreviation ECOMM :: int where "ECOMM \<equiv> 70"
abbreviation EIO :: int where "EIO \<equiv> 5"
abbreviation EBADMSG :: int where "EBADMSG \<equiv> 74"
abbreviation ENOMEDIUM :: int where "ENOMEDIUM \<equiv> 123"

definition SD_VERSION :: "nat \<Rightarrow> nat \<Rightarrow> nat \<Rightarrow> u32" where
  "SD_VERSION a b c = push_bit 31 1 OR push_bit 16 (of_nat a) OR push_bit 8 (of_nat b) OR of_nat c"

definition MMC_VERSION :: "nat \<Rightarrow> nat \<Rightarrow> nat \<Rightarrow> u32" where
  "MMC_VERSION a b c = push_bit 30 1 OR push_bit 16 (of_nat a) OR push_bit 8 (of_nat b) OR of_nat c"

definition OCR_BUSY :: u32 where "OCR_BUSY = 0x80000000"
definition OCR_HCS :: u32 where "OCR_HCS = 0x40000000"
definition OCR_VOLTAGE_MASK :: u32 where "OCR_VOLTAGE_MASK = 0x007FFF80"
definition OCR_ACCESS_MODE :: u32 where "OCR_ACCESS_MODE = 0x60000000"

definition MMC_RSP_R1 :: u32 where "MMC_RSP_R1 = 0x15"
definition MMC_RSP_R1b :: u32 where "MMC_RSP_R1b = 0x1d"
definition MMC_RSP_R2 :: u32 where "MMC_RSP_R2 = 0x7"
definition MMC_RSP_R3 :: u32 where "MMC_RSP_R3 = 0x1"

datatype bus_mode =
    MMC_LEGACY | SD_LEGACY | MMC_HS | SD_HS | MMC_HS_52 | MMC_DDR_52 | UHS_SDR12 | UHS_SDR25
  | UHS_SDR50 | UHS_DDR50 | UHS_SDR104 | MMC_HS_200 | MMC_HS_400 | MMC_HS_400_ES

fun mode_number :: "bus_mode \<Rightarrow> nat" where
  "mode_number MMC_LEGACY = 0" | "mode_number SD_LEGACY = 1" | "mode_number MMC_HS = 2"
| "mode_number SD_HS = 3" | "mode_number MMC_HS_52 = 4" | "mode_number MMC_DDR_52 = 5"
| "mode_number UHS_SDR12 = 6" | "mode_number UHS_SDR25 = 7" | "mode_number UHS_SDR50 = 8"
| "mode_number UHS_DDR50 = 9" | "mode_number UHS_SDR104 = 10" | "mode_number MMC_HS_200 = 11"
| "mode_number MMC_HS_400 = 12" | "mode_number MMC_HS_400_ES = 13"

definition MMC_CAP :: "bus_mode \<Rightarrow> u32" where
  "MMC_CAP mode = push_bit (mode_number mode) 1"

definition MMC_MODE_8BIT :: u32 where "MMC_MODE_8BIT = push_bit 30 1"
definition MMC_MODE_4BIT :: u32 where "MMC_MODE_4BIT = push_bit 29 1"
definition MMC_MODE_1BIT :: u32 where "MMC_MODE_1BIT = push_bit 28 1"

definition MMC_MODE_HS :: u32 where "MMC_MODE_HS = MMC_CAP MMC_HS OR MMC_CAP SD_HS"

definition UHS_CAPS :: u32 where
  "UHS_CAPS = MMC_CAP UHS_SDR12 OR MMC_CAP UHS_SDR25 OR MMC_CAP UHS_SDR50 OR MMC_CAP UHS_SDR104 OR
     MMC_CAP UHS_DDR50"

definition mmc_is_mode_ddr :: "bus_mode \<Rightarrow> bool" where
  "mmc_is_mode_ddr mode \<longleftrightarrow> mode = MMC_DDR_52"

section \<open>The host and the device\<close>

record command =
  c_idx :: u32
  c_resp :: u32
  c_arg :: u32

record ios =
  io_clock :: u32
  io_clk_disable :: bool
  io_bus_width :: u32
  io_ddr :: bool

text \<open>
  \<open>h_send_cmd\<close> gives the error code, the four words of the response and the bytes read.
\<close>

record 'c host =
  h_send_cmd :: "'c \<Rightarrow> command \<Rightarrow> (u32 \<times> u32) option \<Rightarrow> int \<times> u32 list \<times> u8 list \<times> 'c"
  h_set_ios :: "ios \<Rightarrow> 'c \<Rightarrow> int \<times> 'c"
  h_init :: "'c \<Rightarrow> int \<times> 'c"
  h_getcd :: "'c \<Rightarrow> int \<times> 'c"
  h_power_cycle :: "('c \<Rightarrow> int \<times> 'c) option"
  h_udelay :: "nat \<Rightarrow> 'c \<Rightarrow> 'c"
  h_now :: "'c \<Rightarrow> nat"
  cfg_host_caps :: u32
  cfg_voltages :: u32
  cfg_f_min :: u32
  cfg_f_max :: u32
  cfg_b_max :: u32

record 'c mdev =
  dev :: 'c
  d_version :: u32
  d_has_init :: bool
  d_high_capacity :: bool
  d_clk_disable :: bool
  d_bus_width :: u32
  d_clock :: u32
  d_card_caps :: u32
  d_host_caps :: u32
  d_ocr :: u32
  d_dsr :: u32
  d_dsr_imp :: u32
  d_scr :: "u32 list"
  d_csd :: "u32 list"
  d_cid :: "u32 list"
  d_rca :: u16
  d_part_support :: u8
  d_part_attr :: u8
  d_wr_rel_set :: u8
  d_part_config :: u8
  d_gen_cmd6_time :: u8
  d_part_switch_time :: u8
  d_tran_speed :: u32
  d_legacy_speed :: u32
  d_read_bl_len :: u32
  d_capacity :: u64
  d_capacity_user :: u64
  d_capacity_boot :: u64
  d_capacity_rpmb :: u64
  d_capacity_gp :: "u64 list"
  d_op_cond_pending :: bool
  d_init_in_progress :: bool
  d_ddr_mode :: bool
  d_ext_csd :: "u8 list option"
  d_cardtype :: u32
  d_selected_mode :: bus_mode
  d_best_mode :: bus_mode
  d_quirks :: u32
  d_hwpart :: nat
  d_blksz :: u32
  d_log2blksz :: nat
  d_lba :: u64

text \<open>\<open>if (err) return err;\<close> between two steps, without and with a wait that may not end.\<close>

definition andthen :: "int \<times> 's \<Rightarrow> ('s \<Rightarrow> int \<times> 's) \<Rightarrow> int \<times> 's" where
  "andthen r f = (if fst r \<noteq> 0 then r else f (snd r))"

definition andthenO :: "(int \<times> 's) option \<Rightarrow> ('s \<Rightarrow> (int \<times> 's) option) \<Rightarrow> (int \<times> 's) option" where
  "andthenO r f = (case r of None \<Rightarrow> None | Some r \<Rightarrow> if fst r \<noteq> 0 then Some r else f (snd r))"

definition send :: "'c host \<Rightarrow> u32 \<Rightarrow> u32 \<Rightarrow> u32 \<Rightarrow> 'c mdev \<Rightarrow> int \<times> u32 list \<times> 'c mdev" where
  "send h ci resp arg s =
     (let (err, r, _, c) = h_send_cmd h (dev s) \<lparr>c_idx = ci, c_resp = resp, c_arg = arg\<rparr> None
      in (err, r, s\<lparr>dev := c\<rparr>))"

text \<open>A command whose response is not looked at.\<close>

definition send0 :: "'c host \<Rightarrow> u32 \<Rightarrow> u32 \<Rightarrow> u32 \<Rightarrow> 'c mdev \<Rightarrow> int \<times> 'c mdev" where
  "send0 h ci resp arg s = (let (err, _, s) = send h ci resp arg s in (err, s))"

definition send_data :: "'c host \<Rightarrow> u32 \<Rightarrow> u32 \<Rightarrow> u32 \<Rightarrow> u32 \<Rightarrow> 'c mdev \<Rightarrow> int \<times> u8 list \<times> 'c mdev" where
  "send_data h ci resp arg blocksize s =
     (let (err, _, bs, c) = h_send_cmd h (dev s) \<lparr>c_idx = ci, c_resp = resp, c_arg = arg\<rparr> (Some (1, blocksize))
      in (err, bs, s\<lparr>dev := c\<rparr>))"

definition delay :: "'c host \<Rightarrow> nat \<Rightarrow> 'c mdev \<Rightarrow> 'c mdev" where
  "delay h us s = s\<lparr>dev := h_udelay h us (dev s)\<rparr>"

definition get_timer :: "'c host \<Rightarrow> nat \<Rightarrow> 'c mdev \<Rightarrow> nat" where
  "get_timer h base s = h_now h (dev s) - base"

section \<open>Clock and width\<close>

definition mmc_mode2freq :: "'c mdev \<Rightarrow> bus_mode \<Rightarrow> u32" where
  "mmc_mode2freq s mode =
     (case mode of
        MMC_LEGACY \<Rightarrow> d_legacy_speed s | SD_LEGACY \<Rightarrow> 25000000 | MMC_HS \<Rightarrow> 26000000 | SD_HS \<Rightarrow> 50000000
      | MMC_HS_52 \<Rightarrow> 52000000 | MMC_DDR_52 \<Rightarrow> 52000000 | _ \<Rightarrow> 0)"

definition mmc_select_mode :: "bus_mode \<Rightarrow> 'c mdev \<Rightarrow> 'c mdev" where
  "mmc_select_mode mode s =
     s\<lparr>d_selected_mode := mode, d_tran_speed := mmc_mode2freq s mode, d_ddr_mode := mmc_is_mode_ddr mode\<rparr>"

definition mmc_set_ios :: "'c host \<Rightarrow> 'c mdev \<Rightarrow> int \<times> 'c mdev" where
  "mmc_set_ios h s =
     (let (ret, c) = h_set_ios h \<lparr>io_clock = d_clock s, io_clk_disable = d_clk_disable s,
            io_bus_width = d_bus_width s, io_ddr = (d_selected_mode s = MMC_DDR_52)\<rparr> (dev s)
      in (ret, s\<lparr>dev := c\<rparr>))"

definition mmc_set_clock :: "'c host \<Rightarrow> u32 \<Rightarrow> bool \<Rightarrow> 'c mdev \<Rightarrow> int \<times> 'c mdev" where
  "mmc_set_clock h clk disable s =
     (let clk = (if disable then clk
                 else let clk = (if clk > cfg_f_max h then cfg_f_max h else clk)
                      in if clk < cfg_f_min h then cfg_f_min h else clk)
      in mmc_set_ios h (s\<lparr>d_clock := clk, d_clk_disable := disable\<rparr>))"

definition mmc_set_bus_width :: "'c host \<Rightarrow> u32 \<Rightarrow> 'c mdev \<Rightarrow> int \<times> 'c mdev" where
  "mmc_set_bus_width h width s = mmc_set_ios h (s\<lparr>d_bus_width := width\<rparr>)"

text \<open>Without \<open>MMC_IO_VOLTAGE\<close> the signal voltage is not touched: it always succeeds.\<close>

definition mmc_set_initial_state :: "'c host \<Rightarrow> 'c mdev \<Rightarrow> 'c mdev" where
  "mmc_set_initial_state h s =
     (let s = mmc_select_mode MMC_LEGACY s; (_, s) = mmc_set_bus_width h 1 s; (_, s) = mmc_set_clock h 0 False s
      in s)"

section \<open>Identification\<close>

definition mmc_go_idle :: "'c host \<Rightarrow> 'c mdev \<Rightarrow> int \<times> 'c mdev" where
  "mmc_go_idle h s =
     (let s = delay h 1000 s in andthen (send0 h 0 0 0 s) (\<lambda>s. (0, delay h 2000 s)))"

definition mmc_send_if_cond :: "'c host \<Rightarrow> 'c mdev \<Rightarrow> int \<times> 'c mdev" where
  "mmc_send_if_cond h s =
     (let (err, r, s) = send h 8 MMC_RSP_R1
            (push_bit 8 (if cfg_voltages h AND 0xff8000 \<noteq> 0 then 1 else 0) OR 0xaa) s
      in if err \<noteq> 0 then (err, s)
         else if r ! 0 AND 0xff \<noteq> 0xaa then (- EOPNOTSUPP, s)
         else (0, s\<lparr>d_version := SD_VERSION 2 0 0\<rparr>))"

text \<open>The loop of \<open>sd_send_op_cond\<close>, with \<open>timeout\<close>; the last response.\<close>

fun op_cond_loop :: "'c host \<Rightarrow> u32 \<Rightarrow> nat \<Rightarrow> 'c mdev \<Rightarrow> int \<times> u32 \<times> 'c mdev" where
  "op_cond_loop h arg timeout s =
     (let (err, s) = send0 h 55 MMC_RSP_R1 0 s
      in if err \<noteq> 0 then (err, 0, s)
         else
           (let (err, r, s) = send h 41 MMC_RSP_R3 arg s
            in if err \<noteq> 0 then (err, 0, s)
               else if r ! 0 AND OCR_BUSY \<noteq> 0 then (0, r ! 0, s)
               else (case timeout of
                       0 \<Rightarrow> (- EOPNOTSUPP, 0, s)
                     | Suc t \<Rightarrow> op_cond_loop h arg t (delay h 1000 s))))"

declare op_cond_loop.simps [simp del]

text \<open>\<open>uhs_en\<close> is false in this build.\<close>

definition sd_send_op_cond :: "'c host \<Rightarrow> 'c mdev \<Rightarrow> int \<times> 'c mdev" where
  "sd_send_op_cond h s =
     (let arg = (cfg_voltages h AND 0xff8000) OR (if d_version s = SD_VERSION 2 0 0 then OCR_HCS else 0);
          (err, r, s) = op_cond_loop h arg 1000 s
      in if err \<noteq> 0 then (err, s)
         else
           (let s = (if d_version s \<noteq> SD_VERSION 2 0 0 then s\<lparr>d_version := SD_VERSION 1 0 0\<rparr> else s)
            in (0, s\<lparr>d_ocr := r, d_high_capacity := (r AND OCR_HCS = OCR_HCS), d_rca := 0\<rparr>)))"

definition mmc_send_op_cond_iter :: "'c host \<Rightarrow> bool \<Rightarrow> 'c mdev \<Rightarrow> int \<times> 'c mdev" where
  "mmc_send_op_cond_iter h use_arg s =
     (let arg = (if use_arg
                 then OCR_HCS OR (cfg_voltages h AND (d_ocr s AND OCR_VOLTAGE_MASK)) OR (d_ocr s AND OCR_ACCESS_MODE)
                 else 0);
          (err, r, s) = send h 1 MMC_RSP_R3 arg s
      in if err \<noteq> 0 then (err, s) else (0, s\<lparr>d_ocr := r ! 0\<rparr>))"

definition mmc_send_op_cond :: "'c host \<Rightarrow> 'c mdev \<Rightarrow> int \<times> 'c mdev" where
  "mmc_send_op_cond h s =
     (let (_, s) = mmc_go_idle h s
      in andthen
           (andthen (mmc_send_op_cond_iter h False s)
              (\<lambda>s. if d_ocr s AND OCR_BUSY \<noteq> 0 then (0, s) else mmc_send_op_cond_iter h True s))
           (\<lambda>s. (0, s\<lparr>d_op_cond_pending := True\<rparr>)))"

partial_function (option) complete_loop :: "'c host \<Rightarrow> nat \<Rightarrow> 'c mdev \<Rightarrow> (int \<times> 'c mdev) option" where
  "complete_loop h st0 s =
     (let (err, s) = mmc_send_op_cond_iter h True s
      in if err \<noteq> 0 then Some (err, s)
         else if d_ocr s AND OCR_BUSY \<noteq> 0 then Some (0, s)
         else if get_timer h st0 s > 1000 then Some (- EOPNOTSUPP, s)
         else complete_loop h st0 (delay h 100 s))"

declare complete_loop.simps [code]

definition mmc_complete_op_cond :: "'c host \<Rightarrow> 'c mdev \<Rightarrow> (int \<times> 'c mdev) option" where
  "mmc_complete_op_cond h s =
     (let s = s\<lparr>d_op_cond_pending := False\<rparr>
      in andthenO
           (if d_ocr s AND OCR_BUSY = 0
            then (let (_, s) = mmc_go_idle h s in complete_loop h (get_timer h 0 s) s)
            else Some (0, s))
           (\<lambda>s. Some (0, s\<lparr>d_version := MMC_VERSION 0 0 0,
              d_high_capacity := (d_ocr s AND OCR_HCS = OCR_HCS), d_rca := 1\<rparr>)))"

section \<open>Switching the eMMC\<close>

fun send_status_loop :: "'c host \<Rightarrow> nat \<Rightarrow> 'c mdev \<Rightarrow> int \<times> u32 \<times> 'c mdev" where
  "send_status_loop h 0 s = (- ECOMM, 0, s)"
| "send_status_loop h (Suc retries) s =
     (let (err, r, s) = send h 13 MMC_RSP_R1 (push_bit 16 (ucast (d_rca s))) s
      in if err = 0 then (0, r ! 0, s) else send_status_loop h retries s)"

definition mmc_send_status :: "'c host \<Rightarrow> 'c mdev \<Rightarrow> int \<times> u32 \<times> 'c mdev" where
  "mmc_send_status h s = send_status_loop h 5 s"

text \<open>\<open>do ... while (ret && retries-- > 0)\<close>.\<close>

fun send_retry :: "'c host \<Rightarrow> u32 \<Rightarrow> u32 \<Rightarrow> u32 \<Rightarrow> nat \<Rightarrow> 'c mdev \<Rightarrow> int \<times> u32 list \<times> 'c mdev" where
  "send_retry h ci resp arg retries s =
     (let (err, r, s) = send h ci resp arg s
      in if err = 0 then (err, r, s)
         else (case retries of 0 \<Rightarrow> (err, r, s) | Suc n \<Rightarrow> send_retry h ci resp arg n s))"

declare send_retry.simps [simp del]

partial_function (option) switch_wait :: "'c host \<Rightarrow> nat \<Rightarrow> nat \<Rightarrow> 'c mdev \<Rightarrow> (int \<times> 'c mdev) option" where
  "switch_wait h st0 timeout_ms s =
     (let (ret, status, s) = mmc_send_status h s
      in if ret = 0 \<and> status AND push_bit 7 1 \<noteq> 0 then Some (- EIO, s)
         else if ret = 0 \<and> status AND push_bit 8 1 \<noteq> 0 then Some (0, s)
         else
           (let s = delay h 100 s
            in if get_timer h st0 s < timeout_ms then switch_wait h st0 timeout_ms s
               else Some (- ETIMEDOUT, s)))"

declare switch_wait.simps [code]

text \<open>
  \<open>__mmc_switch\<close>: the timer is stored in an \<open>unsigned int\<close>; \<open>mmc_wait_dat0\<close> is not supported.
\<close>

definition mmc_switch_status ::
    "'c host \<Rightarrow> u8 \<Rightarrow> u8 \<Rightarrow> u8 \<Rightarrow> bool \<Rightarrow> 'c mdev \<Rightarrow> (int \<times> 'c mdev) option" where
  "mmc_switch_status h cset index v send_status s =
     (let is_part_switch = (cset = 1 \<and> index = 179);
          timeout_ms = (if d_gen_cmd6_time s \<noteq> 0 then unat (d_gen_cmd6_time s) * 10 else 500);
          timeout_ms = (if is_part_switch \<and> d_part_switch_time s \<noteq> 0 then unat (d_part_switch_time s) * 10
                        else timeout_ms);
          (ret, _, s) = send_retry h 6 MMC_RSP_R1b
            (push_bit 24 3 OR push_bit 16 (ucast index) OR push_bit 8 (ucast v)) 3 s
      in if ret \<noteq> 0 then Some (ret, s)
         else
           (let st0 = get_timer h 0 s mod 2 ^ 32;
                s = (if \<not> send_status then delay h (timeout_ms * 1000) s else s)
            in switch_wait h st0 timeout_ms s))"

definition mmc_switch :: "'c host \<Rightarrow> u8 \<Rightarrow> u8 \<Rightarrow> u8 \<Rightarrow> 'c mdev \<Rightarrow> (int \<times> 'c mdev) option" where
  "mmc_switch h cset index v s = mmc_switch_status h cset index v True s"

definition mmc_send_ext_csd :: "'c host \<Rightarrow> 'c mdev \<Rightarrow> int \<times> u8 list \<times> 'c mdev" where
  "mmc_send_ext_csd h s = send_data h 8 MMC_RSP_R1 0 512 s"

definition mmc_set_card_speed :: "'c host \<Rightarrow> bus_mode \<Rightarrow> bool \<Rightarrow> 'c mdev \<Rightarrow> (int \<times> 'c mdev) option" where
  "mmc_set_card_speed h mode hsdowngrade s =
     (if mode \<in> {MMC_HS, MMC_HS_52, MMC_DDR_52, MMC_LEGACY} then
        andthenO (mmc_switch_status h 1 185 (if mode = MMC_LEGACY then 0 else 1) (\<not> hsdowngrade) s)
          (\<lambda>s. if mode = MMC_HS \<or> mode = MMC_HS_52 then
                 (let (err, test_csd, s) = mmc_send_ext_csd h s
                  in Some (if err \<noteq> 0 then (err, s)
                           else if test_csd ! 185 = 0 then (- ENOTSUPP, s) else (0, s)))
               else Some (0, s))
      else Some (- EINVAL, s))"

section \<open>Capabilities\<close>

definition mmc_get_capabilities :: "'c mdev \<Rightarrow> int \<times> 'c mdev" where
  "mmc_get_capabilities s =
     (let s = s\<lparr>d_card_caps := MMC_MODE_1BIT OR MMC_CAP MMC_LEGACY\<rparr>
      in if d_version s < MMC_VERSION 4 0 0 then (0, s)
         else (case d_ext_csd s of
                 None \<Rightarrow> (- ENOTSUPP, s)
               | Some ext_csd \<Rightarrow>
                   (let cardtype = ext_csd ! 196;
                        caps = d_card_caps s OR MMC_MODE_4BIT OR MMC_MODE_8BIT;
                        caps = (if cardtype AND 2 \<noteq> 0
                                then (if cardtype AND 12 \<noteq> 0 then caps OR MMC_CAP MMC_DDR_52 else caps) OR MMC_CAP MMC_HS_52
                                else caps);
                        caps = (if cardtype AND 1 \<noteq> 0 then caps OR MMC_MODE_HS else caps)
                    in (0, s\<lparr>d_card_caps := caps, d_cardtype := ucast cardtype\<rparr>))))"

definition mmc_set_capacity :: "nat \<Rightarrow> 'c mdev \<Rightarrow> int \<times> 'c mdev" where
  "mmc_set_capacity part_num s =
     (if part_num > 7 then (- 1, s)
      else
        (let cap = (if part_num = 0 then d_capacity_user s
                    else if part_num = 1 \<or> part_num = 2 then d_capacity_boot s
                    else if part_num = 3 then d_capacity_rpmb s
                    else d_capacity_gp s ! (part_num - 4))
         in (0, s\<lparr>d_capacity := cap, d_lba := cap div ucast (d_read_bl_len s)\<rparr>)))"

definition sd_switch :: "'c host \<Rightarrow> nat \<Rightarrow> nat \<Rightarrow> u8 \<Rightarrow> 'c mdev \<Rightarrow> int \<times> u8 list \<times> 'c mdev" where
  "sd_switch h mode gr v s =
     (let arg = push_bit 31 (of_nat mode) OR 0xffffff;
          arg = arg AND NOT (push_bit (gr * 4) 0xf);
          arg = arg OR push_bit (gr * 4) (ucast v)
      in send_data h 6 MMC_RSP_R1 arg 64 s)"

text \<open>\<open>goto retry_scr\<close> while \<open>timeout--\<close>.\<close>

fun read_scr :: "'c host \<Rightarrow> nat \<Rightarrow> 'c mdev \<Rightarrow> int \<times> u8 list \<times> 'c mdev" where
  "read_scr h timeout s =
     (let (err, bs, s) = send_data h 51 MMC_RSP_R1 0 8 s
      in if err = 0 then (err, bs, s)
         else (case timeout of 0 \<Rightarrow> (err, bs, s) | Suc t \<Rightarrow> read_scr h t s))"

declare read_scr.simps [simp del]

text \<open>The word \<open>i\<close> of a big-endian buffer.\<close>

definition be32_at :: "u8 list \<Rightarrow> nat \<Rightarrow> u32" where
  "be32_at bs i = be32_of (drop (4 * i) bs)"

fun sd_check_loop :: "'c host \<Rightarrow> nat \<Rightarrow> u8 list \<Rightarrow> 'c mdev \<Rightarrow> int \<times> u8 list \<times> 'c mdev" where
  "sd_check_loop h 0 status s = (0, status, s)"
| "sd_check_loop h (Suc timeout) status s =
     (let (err, status, s) = sd_switch h 0 0 1 s
      in if err \<noteq> 0 then (err, status, s)
         else if be32_at status 7 AND 0x00020000 = 0 then (0, status, s)
         else sd_check_loop h timeout status s)"

definition scr_version :: "u32 \<Rightarrow> u32" where
  "scr_version scr0 =
     (let v = drop_bit 24 scr0 AND 0xf
      in if v = 0 then SD_VERSION 1 0 0 else if v = 1 then SD_VERSION 1 10 0
         else if v = 2 then (if drop_bit 15 scr0 AND 1 \<noteq> 0 then SD_VERSION 3 0 0 else SD_VERSION 2 0 0)
         else SD_VERSION 1 0 0)"

definition sd_get_capabilities :: "'c host \<Rightarrow> 'c mdev \<Rightarrow> int \<times> 'c mdev" where
  "sd_get_capabilities h s =
     (let s = s\<lparr>d_card_caps := MMC_MODE_1BIT OR MMC_CAP SD_LEGACY\<rparr>
      in andthen (send0 h 55 MMC_RSP_R1 (push_bit 16 (ucast (d_rca s))) s) (\<lambda>s.
           let (err, bs, s) = read_scr h 3 s
           in if err \<noteq> 0 then (err, s)
              else
                (let scr0 = be32_at bs 0;
                     s = s\<lparr>d_scr := [scr0, be32_at bs 1], d_version := scr_version scr0\<rparr>;
                     s = (if scr0 AND 0x00040000 \<noteq> 0 then s\<lparr>d_card_caps := d_card_caps s OR MMC_MODE_4BIT\<rparr> else s)
                 in if d_version s = SD_VERSION 1 0 0 then (0, s)
                    else
                      (let (err, status, s) = sd_check_loop h 4 [] s
                       in if err \<noteq> 0 then (err, s)
                          else if be32_at status 3 AND 0x00020000 \<noteq> 0
                          then (0, s\<lparr>d_card_caps := d_card_caps s OR MMC_CAP SD_HS\<rparr>)
                          else (0, s)))))"

section \<open>Bus mode and width of an SD card\<close>

definition sd_set_card_speed :: "'c host \<Rightarrow> bus_mode \<Rightarrow> 'c mdev \<Rightarrow> int \<times> 'c mdev" where
  "sd_set_card_speed h mode s =
     (if d_version s = SD_VERSION 1 0 0 then (0, s)
      else if mode = SD_LEGACY \<or> mode = SD_HS then
        (let speed = (if mode = SD_LEGACY then 0 else 1); (err, status, s) = sd_switch h 1 0 speed s
         in if err \<noteq> 0 then (err, s)
            else if drop_bit 24 (be32_at status 4) AND 0xF \<noteq> ucast speed then (- ENOTSUPP, s)
            else (0, s))
      else (- EINVAL, s))"

definition sd_select_bus_width :: "'c host \<Rightarrow> nat \<Rightarrow> 'c mdev \<Rightarrow> int \<times> 'c mdev" where
  "sd_select_bus_width h w s =
     (if w \<noteq> 4 \<and> w \<noteq> 1 then (- EINVAL, s)
      else andthen (send0 h 55 MMC_RSP_R1 (push_bit 16 (ucast (d_rca s))) s)
             (send0 h 6 MMC_RSP_R1 (if w = 4 then 2 else 0)))"

definition bus_width :: "u32 \<Rightarrow> nat" where
  "bus_width cap =
     (if cap = MMC_MODE_8BIT then 8 else if cap = MMC_MODE_4BIT then 4 else if cap = MMC_MODE_1BIT then 1 else 0)"

definition sd_modes_by_pref :: "(bus_mode \<times> u32) list" where
  "sd_modes_by_pref = [(SD_HS, MMC_MODE_4BIT OR MMC_MODE_1BIT), (SD_LEGACY, MMC_MODE_4BIT OR MMC_MODE_1BIT)]"

text \<open>The combinations that the two nested loops go through.\<close>

definition sd_choices :: "u32 \<Rightarrow> (bus_mode \<times> u32) list" where
  "sd_choices caps =
     concat (map (\<lambda>(mode, widths).
       if caps AND MMC_CAP mode \<noteq> 0
       then map (\<lambda>w. (mode, w)) (filter (\<lambda>w. w AND caps AND widths \<noteq> 0) [MMC_MODE_4BIT, MMC_MODE_1BIT])
       else []) sd_modes_by_pref)"

definition sd_try :: "'c host \<Rightarrow> bus_mode \<times> u32 \<Rightarrow> 'c mdev \<Rightarrow> int \<times> 'c mdev" where
  "sd_try h mw s =
     (let (mode, w) = mw
      in andthen (sd_select_bus_width h (bus_width w) s) (\<lambda>s.
           let (_, s) = mmc_set_bus_width h (of_nat (bus_width w)) s
           in andthen (sd_set_card_speed h mode s) (\<lambda>s.
                let s = mmc_select_mode mode s; (_, s) = mmc_set_clock h (d_tran_speed s) False s
                in (0, s))))"

definition sd_revert :: "'c host \<Rightarrow> 'c mdev \<Rightarrow> 'c mdev" where
  "sd_revert h s =
     (let s = mmc_select_mode SD_LEGACY s; (_, s) = mmc_set_clock h (d_tran_speed s) False s in s)"

fun sd_try_all :: "'c host \<Rightarrow> (bus_mode \<times> u32) list \<Rightarrow> 'c mdev \<Rightarrow> int \<times> 'c mdev" where
  "sd_try_all h [] s = (- ENOTSUPP, s)"
| "sd_try_all h (mw # mws) s =
     (let (err, s) = sd_try h mw s in if err = 0 then (0, s) else sd_try_all h mws (sd_revert h s))"

definition sd_select_mode_and_width :: "'c host \<Rightarrow> u32 \<Rightarrow> 'c mdev \<Rightarrow> int \<times> 'c mdev" where
  "sd_select_mode_and_width h card_caps s =
     sd_try_all h (sd_choices (card_caps AND d_host_caps s AND NOT UHS_CAPS)) s"

section \<open>Bus mode and width of an eMMC\<close>

definition mmc_read_and_compare_ext_csd :: "'c host \<Rightarrow> 'c mdev \<Rightarrow> int \<times> 'c mdev" where
  "mmc_read_and_compare_ext_csd h s =
     (if d_version s < MMC_VERSION 4 0 0 then (0, s)
      else
        (let ext_csd = the (d_ext_csd s); (err, test_csd, s) = mmc_send_ext_csd h s
         in if err \<noteq> 0 then (err, s)
            else if list_all (\<lambda>i. ext_csd ! i = test_csd ! i) [160, 221, 192, 224, 212, 213, 214, 215] then (0, s)
            else (- EBADMSG, s)))"

definition mmc_modes_by_pref :: "(bus_mode \<times> u32) list" where
  "mmc_modes_by_pref =
     [(MMC_DDR_52, MMC_MODE_8BIT OR MMC_MODE_4BIT),
      (MMC_HS_52, MMC_MODE_8BIT OR MMC_MODE_4BIT OR MMC_MODE_1BIT),
      (MMC_HS, MMC_MODE_8BIT OR MMC_MODE_4BIT OR MMC_MODE_1BIT),
      (MMC_LEGACY, MMC_MODE_8BIT OR MMC_MODE_4BIT OR MMC_MODE_1BIT)]"

text \<open>Capability, double data rate, bits for the card.\<close>

definition ext_csd_bus_width :: "(u32 \<times> bool \<times> u8) list" where
  "ext_csd_bus_width =
     [(MMC_MODE_8BIT, True, 6), (MMC_MODE_4BIT, True, 5), (MMC_MODE_8BIT, False, 2),
      (MMC_MODE_4BIT, False, 1), (MMC_MODE_1BIT, False, 0)]"

definition mmc_choices :: "u32 \<Rightarrow> (bus_mode \<times> u32 \<times> u8) list" where
  "mmc_choices caps =
     concat (map (\<lambda>(mode, widths).
       if caps AND MMC_CAP mode \<noteq> 0
       then map (\<lambda>(cap, _, bits). (mode, cap, bits))
              (filter (\<lambda>(cap, ddr, _). mmc_is_mode_ddr mode = ddr \<and> caps AND widths AND cap \<noteq> 0) ext_csd_bus_width)
       else []) mmc_modes_by_pref)"

definition mmc_try :: "'c host \<Rightarrow> bus_mode \<times> u32 \<times> u8 \<Rightarrow> 'c mdev \<Rightarrow> (int \<times> 'c mdev) option" where
  "mmc_try h mwb s =
     (let (mode, w, bits) = mwb
      in andthenO (mmc_switch h 1 183 (bits AND NOT 4) s) (\<lambda>s.
           let (_, s) = mmc_set_bus_width h (of_nat (bus_width w)) s
           in andthenO (mmc_set_card_speed h mode False s) (\<lambda>s.
                andthenO (if bits AND 4 \<noteq> 0 then mmc_switch h 1 183 bits s else Some (0, s)) (\<lambda>s.
                  let s = mmc_select_mode mode s; (_, s) = mmc_set_clock h (d_tran_speed s) False s
                  in Some (mmc_read_and_compare_ext_csd h s)))))"

definition mmc_revert :: "'c host \<Rightarrow> 'c mdev \<Rightarrow> 'c mdev option" where
  "mmc_revert h s =
     map_option (\<lambda>(_, s). snd (mmc_set_bus_width h 1 (mmc_select_mode MMC_LEGACY s))) (mmc_switch h 1 183 0 s)"

fun mmc_try_all :: "'c host \<Rightarrow> (bus_mode \<times> u32 \<times> u8) list \<Rightarrow> 'c mdev \<Rightarrow> (int \<times> 'c mdev) option" where
  "mmc_try_all h [] s = Some (- ENOTSUPP, s)"
| "mmc_try_all h (mwb # mwbs) s =
     Option.bind (mmc_try h mwb s) (\<lambda>(err, s).
       if err = 0 then Some (0, s) else Option.bind (mmc_revert h s) (mmc_try_all h mwbs))"

definition mmc_select_mode_and_width :: "'c host \<Rightarrow> u32 \<Rightarrow> 'c mdev \<Rightarrow> (int \<times> 'c mdev) option" where
  "mmc_select_mode_and_width h card_caps s =
     (if d_version s < MMC_VERSION 4 0 0 then Some (0, s)
      else if d_ext_csd s = None then Some (- ENOTSUPP, s)
      else (let (_, s') = mmc_set_clock h (d_legacy_speed s) False s
            in mmc_try_all h (mmc_choices (card_caps AND d_host_caps s)) s'))"

end
