(* ===== verification/Mmc_Startup.thy ===== *)
theory Mmc_Startup
  imports Mmc_Init
begin

text \<open>
  The rest of bringing a card up, \<open>src/src/uboot/drivers/mmc/mmc.c\<close>: the decoding of CSD and
  extended CSD (\<open>mmc_startup\<close>, \<open>mmc_startup_v4\<close>), the reset and the probing of the card
  (\<open>mmc_get_op_cond\<close>), \<open>mmc_init\<close>. \<open>malloc\<close> of this program never fails, \<open>free\<close> does nothing.
\<close>

section \<open>The extended CSD\<close>

definition mmc_versions :: "u32 list" where
  "mmc_versions =
     [MMC_VERSION 4 0 0, MMC_VERSION 4 1 0, MMC_VERSION 4 2 0, MMC_VERSION 4 3 0, MMC_VERSION 4 4 0,
      MMC_VERSION 4 4 1, MMC_VERSION 4 5 0, MMC_VERSION 5 0 0, MMC_VERSION 5 1 0]"

definition is_sd :: "'c mdev \<Rightarrow> bool" where
  "is_sd s \<longleftrightarrow> d_version s AND push_bit 31 1 \<noteq> 0"

text \<open>
  The four bytes are put together in an \<open>int\<close>; the conversion to \<open>u64\<close> extends its sign.
\<close>

definition ext_csd_capacity :: "u8 list \<Rightarrow> u64" where
  "ext_csd_capacity ext_csd =
     scast (ucast (ext_csd ! 212) OR push_bit 8 (ucast (ext_csd ! 213)) OR push_bit 16 (ucast (ext_csd ! 214)) OR
            push_bit 24 (ucast (ext_csd ! 215)) :: u32) * 512"

definition part_completed :: "u8 list \<Rightarrow> bool" where
  "part_completed ext_csd \<longleftrightarrow> ext_csd ! 155 AND 1 \<noteq> 0"

definition gp_mult :: "u8 list \<Rightarrow> nat \<Rightarrow> u32" where
  "gp_mult ext_csd i =
     (let k = 143 + i * 3
      in push_bit 16 (ucast (ext_csd ! (k + 2))) + push_bit 8 (ucast (ext_csd ! (k + 1))) + ucast (ext_csd ! k))"

definition gp_capacity :: "u8 list \<Rightarrow> nat \<Rightarrow> u64" where
  "gp_capacity ext_csd i =
     push_bit 19 (ucast (gp_mult ext_csd i) * ucast (ext_csd ! 224) * ucast (ext_csd ! 221))"

definition has_parts :: "u8 list \<Rightarrow> bool" where
  "has_parts ext_csd \<longleftrightarrow>
     list_ex (\<lambda>i. gp_mult ext_csd i \<noteq> 0) [0, 1, 2, 3] \<or> part_completed ext_csd \<or>
     (ext_csd ! 160 AND 1 \<noteq> 0 \<and> ext_csd ! 156 AND 0x1f \<noteq> 0)"

text \<open>The fields that \<open>mmc_startup_v4\<close> takes from the extended CSD, up to the switch.\<close>

definition take_ext_csd :: "u8 list \<Rightarrow> 'c mdev \<Rightarrow> 'c mdev" where
  "take_ext_csd ext_csd s =
     (let s = s\<lparr>d_version := mmc_versions ! unat (ext_csd ! 192)\<rparr>;
          capacity = ext_csd_capacity ext_csd;
          s = (if d_version s \<ge> MMC_VERSION 4 2 0 \<and> drop_bit 20 capacity > 2 * 1024
               then s\<lparr>d_capacity_user := capacity\<rparr> else s);
          s = (if d_version s \<ge> MMC_VERSION 4 5 0 then s\<lparr>d_gen_cmd6_time := ext_csd ! 248\<rparr> else s);
          t = ext_csd ! 199;
          s = s\<lparr>d_part_switch_time := (if t < 30 \<and> t \<noteq> 0 then 30 else t), d_part_support := ext_csd ! 160\<rparr>;
          s = (if ext_csd ! 160 AND 1 \<noteq> 0 \<or> ext_csd ! 226 \<noteq> 0 then s\<lparr>d_part_config := ext_csd ! 179\<rparr> else s);
          s = (if part_completed ext_csd \<and> ext_csd ! 160 AND 2 \<noteq> 0 then s\<lparr>d_part_attr := ext_csd ! 156\<rparr> else s);
          s = s\<lparr>d_capacity_boot := push_bit 17 (ucast (ext_csd ! 226)),
                d_capacity_rpmb := push_bit 17 (ucast (ext_csd ! 168))\<rparr>
      in if part_completed ext_csd then s\<lparr>d_capacity_gp := map (gp_capacity ext_csd) [0, 1, 2, 3]\<rparr> else s)"

text \<open>
  The capacity of a device with completed partitioning, and the end of \<open>mmc_startup_v4\<close>. After a
  successful switch the bit \<open>ERASE_GROUP_DEF\<close> of the copy is set.
\<close>

definition group_capacity :: "u8 list \<Rightarrow> 'c mdev \<Rightarrow> 'c mdev" where
  "group_capacity ext_csd s =
     (let group_def = has_parts ext_csd \<or> ext_csd ! 175 AND 1 \<noteq> 0;
          s = (if group_def \<and> d_high_capacity s \<and> part_completed ext_csd
               then s\<lparr>d_capacity_user := ext_csd_capacity ext_csd\<rparr> else s)
      in s\<lparr>d_wr_rel_set := ext_csd ! 167\<rparr>)"

definition mmc_startup_v4 :: "'c host \<Rightarrow> 'c mdev \<Rightarrow> (int \<times> 'c mdev) option" where
  "mmc_startup_v4 h s =
     (if is_sd s \<or> d_version s < MMC_VERSION 4 0 0 then Some (0, s)
      else
        (let (err, ext_csd, s) = mmc_send_ext_csd h s
         in if err \<noteq> 0 then Some (err, s\<lparr>d_ext_csd := None\<rparr>)
            else
              (let s = s\<lparr>d_ext_csd := Some ext_csd\<rparr>
               in if unat (ext_csd ! 192) \<ge> 9 then Some (- EINVAL, s)
                  else
                    Option.bind
                      (if has_parts ext_csd then mmc_switch h 1 175 1 (take_ext_csd ext_csd s)
                       else Some (0, take_ext_csd ext_csd s))
                      (\<lambda>(err, s).
                        if err \<noteq> 0 then Some (err, s\<lparr>d_ext_csd := None\<rparr>)
                        else Some (0, group_capacity ext_csd s)))))"

section \<open>The CSD\<close>

text \<open>Four units; the other four codes read past the end of the table.\<close>

definition fbase :: "u32 list" where
  "fbase = [10000, 100000, 1000000, 10000000]"

definition multipliers :: "u32 list" where
  "multipliers = [0, 10, 12, 13, 15, 20, 25, 30, 35, 40, 45, 50, 55, 60, 70, 80]"

definition csd_version :: "u32 \<Rightarrow> u32" where
  "csd_version csd0 =
     (let v = drop_bit 26 csd0 AND 0xf
      in if v = 0 then MMC_VERSION 1 2 0 else if v = 1 then MMC_VERSION 1 4 0 else if v = 2 then MMC_VERSION 2 2 0
         else if v = 3 then MMC_VERSION 3 0 0 else if v = 4 then MMC_VERSION 4 0 0 else MMC_VERSION 1 2 0)"

definition csd_speed :: "u32 \<Rightarrow> u32" where
  "csd_speed csd0 = fbase ! unat (csd0 AND 7) * multipliers ! unat (drop_bit 3 csd0 AND 0xf)"

definition csd_read_bl_len :: "u32 list \<Rightarrow> u32" where
  "csd_read_bl_len csd = push_bit (unat (drop_bit 16 (csd ! 1) AND 0xf)) 1"

definition csd_capacity :: "bool \<Rightarrow> u32 list \<Rightarrow> u64" where
  "csd_capacity hc csd =
     (let (csize, cmult) =
            (if hc then (push_bit 16 (csd ! 1 AND 0x3f) OR drop_bit 16 (csd ! 2 AND 0xffff0000), 8 :: u32)
             else (push_bit 2 (csd ! 1 AND 0x3ff) OR drop_bit 30 (csd ! 2 AND 0xc0000000),
                   drop_bit 15 (csd ! 2 AND 0x00038000)))
      in push_bit (unat cmult + 2) (ucast csize + 1) * ucast (csd_read_bl_len csd))"

definition take_csd :: "u32 list \<Rightarrow> 'c mdev \<Rightarrow> 'c mdev" where
  "take_csd r s =
     (let s = s\<lparr>d_csd := take 4 r\<rparr>;
          s = (if d_version s = MMC_VERSION 0 0 0 then s\<lparr>d_version := csd_version (r ! 0)\<rparr> else s);
          s = s\<lparr>d_legacy_speed := csd_speed (r ! 0)\<rparr>;
          s = mmc_select_mode MMC_LEGACY s;
          len = csd_read_bl_len r
      in s\<lparr>d_dsr_imp := drop_bit 12 (r ! 1) AND 1,
           d_capacity_user := csd_capacity (d_high_capacity s) r, d_capacity_boot := 0, d_capacity_rpmb := 0,
           d_capacity_gp := [0, 0, 0, 0], d_read_bl_len := (if len > 512 then 512 else len)\<rparr>)"

section \<open>Startup\<close>

fun retry_cid :: "'c host \<Rightarrow> nat \<Rightarrow> 'c mdev \<Rightarrow> int \<times> u32 list \<times> 'c mdev" where
  "retry_cid h retries s =
     (let (err, r, s) = send h 2 MMC_RSP_R2 0 s
      in if err = 0 then (err, r, s)
         else (case retries of 0 \<Rightarrow> (err, r, s) | Suc n \<Rightarrow> retry_cid h n s))"

declare retry_cid.simps [simp del]

text \<open>The first part, up to the CSD: identification, the address, the CSD.\<close>

definition startup_identify :: "'c host \<Rightarrow> 'c mdev \<Rightarrow> int \<times> 'c mdev" where
  "startup_identify h s =
     (let (err, r, s) = send h 2 MMC_RSP_R2 0 s;
          (err, r, s) = (if err \<noteq> 0 \<and> d_quirks s AND 1 \<noteq> 0 then retry_cid h 4 s else (err, r, s))
      in if err \<noteq> 0 then (err, s)
         else
           (let s = s\<lparr>d_cid := take 4 r\<rparr>;
                (err, r, s) = send h 3 MMC_RSP_R1 (push_bit 16 (ucast (d_rca s))) s
            in if err \<noteq> 0 then (err, s)
               else
                 (let s = (if is_sd s then s\<lparr>d_rca := ucast (drop_bit 16 (r ! 0) AND 0xffff)\<rparr> else s);
                      (err, r, s) = send h 9 MMC_RSP_R2 (push_bit 16 (ucast (d_rca s))) s
                  in if err \<noteq> 0 then (err, s) else (0, take_csd r s))))"

text \<open>The driver stage register, for the cards that have one, and the transfer state.\<close>

definition startup_select :: "'c host \<Rightarrow> 'c mdev \<Rightarrow> int \<times> 'c mdev" where
  "startup_select h s =
     (let s = (if d_dsr_imp s \<noteq> 0 \<and> d_dsr s \<noteq> 0xffffffff
               then snd (send0 h 4 0 (push_bit 16 (d_dsr s AND 0xffff)) s) else s)
      in andthen (send0 h 7 MMC_RSP_R1 (push_bit 16 (ucast (d_rca s))) s) (\<lambda>s. (0, s\<lparr>d_part_config := 0xff\<rparr>)))"

text \<open>For an eMMC the result of the choice of mode is not looked at.\<close>

definition startup_mode :: "'c host \<Rightarrow> 'c mdev \<Rightarrow> (int \<times> 'c mdev) option" where
  "startup_mode h s =
     (if is_sd s then
        Some (andthen (sd_get_capabilities h s) (\<lambda>s. sd_select_mode_and_width h (d_card_caps s) s))
      else
        andthenO (Some (mmc_get_capabilities s))
          (\<lambda>s. map_option (\<lambda>(_, s). (0, s)) (mmc_select_mode_and_width h (d_card_caps s) s)))"

definition LOG2 :: "u32 \<Rightarrow> nat" where
  "LOG2 x =
     (if x AND 0xaaaaaaaa \<noteq> 0 then 1 else 0) + (if x AND 0xcccccccc \<noteq> 0 then 2 else 0) +
     (if x AND 0xf0f0f0f0 \<noteq> 0 then 4 else 0) + (if x AND 0xff00ff00 \<noteq> 0 then 8 else 0) +
     (if x AND 0xffff0000 \<noteq> 0 then 16 else 0)"

definition startup_finish :: "'c mdev \<Rightarrow> 'c mdev" where
  "startup_finish s =
     (let s = s\<lparr>d_best_mode := d_selected_mode s\<rparr>;
          s = (if d_ddr_mode s then s\<lparr>d_read_bl_len := 512\<rparr> else s)
      in s\<lparr>d_hwpart := 0, d_blksz := d_read_bl_len s, d_log2blksz := LOG2 (d_read_bl_len s),
           d_lba := d_capacity s div ucast (d_read_bl_len s)\<rparr>)"

definition mmc_startup :: "'c host \<Rightarrow> 'c mdev \<Rightarrow> (int \<times> 'c mdev) option" where
  "mmc_startup h s =
     andthenO (Some (startup_identify h s)) (\<lambda>s.
     andthenO (Some (startup_select h s)) (\<lambda>s.
     andthenO (mmc_startup_v4 h s) (\<lambda>s.
     andthenO (Some (mmc_set_capacity (d_hwpart s) s)) (\<lambda>s.
     andthenO (startup_mode h s) (\<lambda>s. Some (0, startup_finish s))))))"

section \<open>Probing\<close>

definition mmc_power_cycle :: "'c host \<Rightarrow> 'c mdev \<Rightarrow> int \<times> 'c mdev" where
  "mmc_power_cycle h s =
     (let (_, s) = mmc_set_clock h 0 True s;
          (ret, s) = (case h_power_cycle h of
                        None \<Rightarrow> (0, s)
                      | Some f \<Rightarrow> (let (ret, c) = f (dev s) in (ret, s\<lparr>dev := c\<rparr>)))
      in if ret \<noteq> 0 then (ret, s) else (0, delay h 2000 s))"

text \<open>After the reset of the controller; \<open>uhs_en\<close> is false in this build.\<close>

definition probe_card :: "'c host \<Rightarrow> 'c mdev \<Rightarrow> int \<times> 'c mdev" where
  "probe_card h s =
     (let s = mmc_set_initial_state h s
      in andthen (mmc_go_idle h s) (\<lambda>s.
           let (_, s) = mmc_send_if_cond h (s\<lparr>d_hwpart := 0\<rparr>); (err, s) = sd_send_op_cond h s
           in if err = - ETIMEDOUT
              then (let (err, s) = mmc_send_op_cond h s in (if err \<noteq> 0 then - EOPNOTSUPP else 0, s))
              else (err, s)))"

definition mmc_get_op_cond :: "'c host \<Rightarrow> 'c mdev \<Rightarrow> int \<times> 'c mdev" where
  "mmc_get_op_cond h s =
     (if d_has_init s then (0, s)
      else
        (let s = s\<lparr>d_quirks := 3\<rparr>;
             (err, s) = mmc_power_cycle h s;
             s = (if err \<noteq> 0 then s\<lparr>d_host_caps := d_host_caps s AND NOT UHS_CAPS\<rparr> else s);
             (ret, c) = h_init h (dev s);
             s = s\<lparr>dev := c\<rparr>
         in if ret \<noteq> 0 then (ret, s) else probe_card h (s\<lparr>d_ddr_mode := False\<rparr>)))"

definition mmc_start_init :: "'c host \<Rightarrow> 'c mdev \<Rightarrow> int \<times> 'c mdev" where
  "mmc_start_init h s =
     (let s = s\<lparr>d_host_caps := cfg_host_caps h OR MMC_CAP SD_LEGACY OR MMC_CAP MMC_LEGACY OR MMC_MODE_1BIT\<rparr>;
          (cd, c) = h_getcd h (dev s);
          s = s\<lparr>dev := c\<rparr>
      in if cd = 0 then (- ENOMEDIUM, s\<lparr>d_has_init := False\<rparr>)
         else andthen (mmc_get_op_cond h s) (\<lambda>s. (0, s\<lparr>d_init_in_progress := True\<rparr>)))"

definition mmc_complete_init :: "'c host \<Rightarrow> 'c mdev \<Rightarrow> (int \<times> 'c mdev) option" where
  "mmc_complete_init h s =
     (let s = s\<lparr>d_init_in_progress := False\<rparr>
      in map_option (\<lambda>(err, s). (err, s\<lparr>d_has_init := (err = 0)\<rparr>))
           (andthenO (if d_op_cond_pending s then mmc_complete_op_cond h s else Some (0, s)) (mmc_startup h)))"

definition mmc_init :: "'c host \<Rightarrow> 'c mdev \<Rightarrow> (int \<times> 'c mdev) option" where
  "mmc_init h s =
     (if d_has_init s then Some (0, s)
      else andthenO (Some (if \<not> d_init_in_progress s then mmc_start_init h s else (0, s))) (mmc_complete_init h))"

text \<open>\<open>mmc_create\<close> of \<open>src/src/storage.c\<close>: everything zero, but for \<open>dsr\<close>; \<open>None\<close> is \<open>NULL\<close>.\<close>

definition mmc_create :: "'c host \<Rightarrow> 'c \<Rightarrow> 'c mdev option" where
  "mmc_create h c =
     (if cfg_f_min h = 0 \<or> cfg_f_max h = 0 \<or> cfg_b_max h = 0 then None
      else Some \<lparr>dev = c, d_version = 0, d_has_init = False, d_high_capacity = False, d_clk_disable = False,
        d_bus_width = 0, d_clock = 0, d_card_caps = 0, d_host_caps = 0, d_ocr = 0, d_dsr = 0xffffffff,
        d_dsr_imp = 0, d_scr = [0, 0], d_csd = [0, 0, 0, 0], d_cid = [0, 0, 0, 0], d_rca = 0,
        d_part_support = 0, d_part_attr = 0, d_wr_rel_set = 0, d_part_config = 0, d_gen_cmd6_time = 0,
        d_part_switch_time = 0, d_tran_speed = 0, d_legacy_speed = 0, d_read_bl_len = 0, d_capacity = 0,
        d_capacity_user = 0, d_capacity_boot = 0, d_capacity_rpmb = 0, d_capacity_gp = [0, 0, 0, 0],
        d_op_cond_pending = False, d_init_in_progress = False, d_ddr_mode = False, d_ext_csd = None,
        d_cardtype = 0, d_selected_mode = MMC_LEGACY, d_best_mode = MMC_LEGACY, d_quirks = 0, d_hwpart = 0,
        d_blksz = 0, d_log2blksz = 0, d_lba = 0\<rparr>)"

lemma u32_less: "unat (w :: u32) < 2 ^ 32"
  using unsigned_less [of w] by simp

end
