(* ===== verification/Mmc_Csd.thy ===== *)
theory Mmc_Csd
  imports Mmc_Startup
begin

text \<open>
  The decoding of the CSD by \<open>mmc_startup\<close> of \<open>src/src/uboot/drivers/mmc/mmc.c\<close> against the definition of the
  documents: fields of a register of 128 bits.
\<close>

section \<open>The capacity\<close>

text \<open>
  The CSD as one number of 128 bits, as the SD and JEDEC documents have it; the bits from \<open>lo\<close>
  to \<open>hi\<close>.
\<close>

definition csd128 :: "u32 list \<Rightarrow> nat" where
  "csd128 ws = foldl (\<lambda>n w. n * 2 ^ 32 + unat w) 0 (take 4 ws)"

definition csd_field :: "nat \<Rightarrow> nat \<Rightarrow> u32 list \<Rightarrow> nat" where
  "csd_field hi lo ws = csd128 ws div 2 ^ lo mod 2 ^ (hi + 1 - lo)"

lemma div_shift: "b < 2 ^ j \<Longrightarrow> (a * 2 ^ j + b) div 2 ^ (j + k) = a div 2 ^ k" for a b :: nat
  by (simp add: power_add div_mult2_eq)

lemma div_part: "(a * 2 ^ (j + k) + b) div 2 ^ j = a * 2 ^ k + b div 2 ^ j" for a b :: nat
proof -
  have "a * 2 ^ (j + k) + b = b + (a * 2 ^ k) * 2 ^ j"
    by (simp add: power_add)
  then show ?thesis
    by (simp only: div_mult_self1 [of "2 ^ j"] power_not_zero zero_neq_numeral simp_thms)
qed

lemma mod_part: "c < 2 ^ j \<Longrightarrow> (b * 2 ^ j + c) mod 2 ^ (j + k) = b mod 2 ^ k * 2 ^ j + c" for b c :: nat
  by (simp add: power_add mod_mult2_eq)

lemma mod_high: "(a * 2 ^ (j + k) + b) mod 2 ^ j = b mod 2 ^ j" for a b :: nat
proof -
  have "a * 2 ^ (j + k) + b = b + (a * 2 ^ k) * 2 ^ j"
    by (simp add: power_add)
  then show ?thesis
    by (simp only: mod_mult_self1)
qed

lemma unat_or_push_bit:
  assumes "unat b < 2 ^ k" "unat a * 2 ^ k + unat b < 2 ^ LENGTH('a)"
  shows "unat (push_bit k a OR b :: 'a::len word) = unat a * 2 ^ k + unat b"
proof -
  have "\<not> bit b n" if "k \<le> n" for n
  proof
    assume "bit b n"
    then have "bit (unat b) n"
      by (simp add: bit_simps)
    moreover have "take_bit k (unat b) = unat b"
      using assms(1) by (simp add: take_bit_nat_eq_self)
    ultimately show False
      using that by (metis bit_take_bit_iff not_le)
  qed
  then have "push_bit k a OR b = push_bit k a + b"
    by (subst disjunctive_add) (auto simp: bit_push_bit_iff not_le)
  moreover have "unat (push_bit k a) = unat a * 2 ^ k"
    using assms(2) by (subst unsigned_push_bit_eq) (simp add: push_bit_eq_mult take_bit_nat_eq_self)
  ultimately show ?thesis
    using assms(2) by (simp add: unat_add_lem [THEN iffD1])
qed

lemma csd_masks:
  fixes w :: u32
  shows "w AND 0x3ff = take_bit 10 w" "w AND 0x3f = take_bit 6 w" "w AND 0xf = take_bit 4 w"
    "drop_bit 30 (w AND 0xc0000000) = drop_bit 30 w" "drop_bit 16 (w AND 0xffff0000) = drop_bit 16 w"
    "drop_bit 15 (w AND 0x00038000) = take_bit 3 (drop_bit 15 w)"
proof -
  have "drop_bit 30 (w AND push_bit 30 (mask 2)) = drop_bit 30 w" "drop_bit 16 (w AND push_bit 16 (mask 16)) = drop_bit 16 w"
    using bit_imp_le_length [of w] by (fastforce intro!: bit_word_eqI simp: bit_simps)+
  moreover have "drop_bit 15 (w AND push_bit 15 (mask 3)) = take_bit 3 (drop_bit 15 w)"
    by (auto intro!: bit_word_eqI simp: bit_simps)
  ultimately show "drop_bit 30 (w AND 0xc0000000) = drop_bit 30 w" "drop_bit 16 (w AND 0xffff0000) = drop_bit 16 w"
    "drop_bit 15 (w AND 0x00038000) = take_bit 3 (drop_bit 15 w)"
    by (simp_all add: mask_eq_exp_minus_1)
qed (simp_all add: take_bit_eq_mask mask_eq_exp_minus_1)

lemma unat_take_bit: "n \<le> 32 \<Longrightarrow> unat (take_bit n w :: u32) = unat w mod 2 ^ n"
  by (subst unsigned_take_bit_eq) (simp_all add: take_bit_eq_mod)

lemma unat_drop_bit: "unat (drop_bit n w :: u32) = unat w div 2 ^ n"
  using u32_less [of w] by (subst unsigned_drop_bit_eq) (simp add: drop_bit_eq_div take_bit_nat_eq_self)

lemma csd_size_v1:
  fixes w1 w2 :: u32
  shows "unat (push_bit 2 (w1 AND 0x3ff) OR drop_bit 30 (w2 AND 0xc0000000)) = unat w1 mod 2 ^ 10 * 2 ^ 2 + unat w2 div 2 ^ 30"
  using u32_less [of w2] mod_less_divisor [of "2 ^ 10" "unat w1"] unfolding csd_masks
  by (subst unat_or_push_bit) (auto simp: unat_take_bit unat_drop_bit)

lemma csd_size_v2:
  fixes w1 w2 :: u32
  shows "unat (push_bit 16 (w1 AND 0x3f) OR drop_bit 16 (w2 AND 0xffff0000)) = unat w1 mod 2 ^ 6 * 2 ^ 16 + unat w2 div 2 ^ 16"
  using u32_less [of w2] mod_less_divisor [of "2 ^ 6" "unat w1"] unfolding csd_masks
  by (subst unat_or_push_bit) (auto simp: unat_take_bit unat_drop_bit)

lemma csd_fields:
  "csd_field 73 62 [w0, w1, w2, w3] = unat w1 mod 2 ^ 10 * 2 ^ 2 + unat w2 div 2 ^ 30"
  "csd_field 69 48 [w0, w1, w2, w3] = unat w1 mod 2 ^ 6 * 2 ^ 16 + unat w2 div 2 ^ 16"
  "csd_field 49 47 [w0, w1, w2, w3] = unat w2 div 2 ^ 15 mod 2 ^ 3"
  "csd_field 83 80 [w0, w1, w2, w3] = unat w1 div 2 ^ 16 mod 2 ^ 4"
proof -
  define x where "x = unat w0 * 2 ^ 32 + unat w1"
  have low: "unat w2 div 2 ^ 30 < 2 ^ 2" "unat w2 div 2 ^ 16 < 2 ^ 16" "unat w2 * 2 ^ 32 + unat w3 < 2 ^ 64"
    using u32_less [of w2] u32_less [of w3] by auto
  have n: "csd128 [w0, w1, w2, w3] = (x * 2 ^ 32 + unat w2) * 2 ^ 32 + unat w3"
    by (simp add: csd128_def x_def)
  also have "\<dots> = x * 2 ^ 64 + (unat w2 * 2 ^ 32 + unat w3)"
    by simp
  finally have n': "csd128 [w0, w1, w2, w3] = x * 2 ^ 64 + (unat w2 * 2 ^ 32 + unat w3)" .
  have w2: "csd128 [w0, w1, w2, w3] div 2 ^ (32 + k) = (x * 2 ^ 32 + unat w2) div 2 ^ k" for k
    unfolding n by (rule div_shift [OF u32_less])
  have x: "x mod 2 ^ 10 = unat w1 mod 2 ^ 10" "x mod 2 ^ 6 = unat w1 mod 2 ^ 6"
    using mod_high [of "unat w0" 10 22 "unat w1"] mod_high [of "unat w0" 6 26 "unat w1"] by (simp_all add: x_def)
  show "csd_field 73 62 [w0, w1, w2, w3] = unat w1 mod 2 ^ 10 * 2 ^ 2 + unat w2 div 2 ^ 30"
    using w2 [of 30] div_part [of x 30 2 "unat w2"] mod_part [OF low(1), of x 10] x(1) by (simp add: csd_field_def)
  show "csd_field 69 48 [w0, w1, w2, w3] = unat w1 mod 2 ^ 6 * 2 ^ 16 + unat w2 div 2 ^ 16"
    using w2 [of 16] div_part [of x 16 16 "unat w2"] mod_part [OF low(2), of x 6] x(2) by (simp add: csd_field_def)
  show "csd_field 49 47 [w0, w1, w2, w3] = unat w2 div 2 ^ 15 mod 2 ^ 3"
    using w2 [of 15] div_part [of x 15 17 "unat w2"] mod_high [of x 3 14 "unat w2 div 2 ^ 15"]
    by (simp add: csd_field_def)
  show "csd_field 83 80 [w0, w1, w2, w3] = unat w1 div 2 ^ 16 mod 2 ^ 4"
    using n' div_shift [OF low(3), of x 16] div_part [of "unat w0" 16 16 "unat w1"]
      mod_high [of "unat w0" 4 12 "unat w1 div 2 ^ 16"]
    by (simp add: csd_field_def x_def)
qed

lemma csd_read_bl_len_field: "unat (csd_read_bl_len [w0, w1, w2, w3]) = 2 ^ csd_field 83 80 [w0, w1, w2, w3]"
proof -
  have "unat (drop_bit 16 w1 AND 0xf) = csd_field 83 80 [w0, w1, w2, w3]" and "unat (drop_bit 16 w1 AND 0xf) < 16"
    unfolding csd_masks csd_fields by (simp_all add: unat_take_bit unat_drop_bit)
  moreover have "unat (push_bit k 1 :: u32) = 2 ^ k" if "k < 16" for k
    using that power_strict_increasing [of k 32 "2 :: nat"]
    by (subst unsigned_push_bit_eq) (simp add: push_bit_eq_mult take_bit_nat_eq_self)
  ultimately show ?thesis
    by (simp add: csd_read_bl_len_def)
qed

lemma unat_scaled:
  fixes c b :: u32
  assumes "unat c < 2 ^ 22" "m \<le> 10" "unat b \<le> 2 ^ 15"
  shows "unat (push_bit m (ucast c + 1) * ucast b :: u64) = (unat c + 1) * 2 ^ m * unat b"
proof -
  have c: "unat (ucast c + 1 :: u64) = unat c + 1"
    using assms(1) by (simp add: unat_word_ariths unsigned_ucast_eq take_bit_nat_eq_self)
  have m: "(unat c + 1) * 2 ^ m \<le> 2 ^ 22 * 2 ^ 10"
    using assms by (intro mult_mono power_increasing) auto
  then have p: "unat (push_bit m (ucast c + 1 :: u64)) = (unat c + 1) * 2 ^ m"
    by (subst unsigned_push_bit_eq) (simp only: c push_bit_eq_mult, simp add: take_bit_nat_eq_self)
  have "(unat c + 1) * 2 ^ m * unat b \<le> (2 ^ 22 * 2 ^ 10) * 2 ^ 15"
    using m assms(3) by (rule mult_mono) simp_all
  then show ?thesis
    using assms(3) by (subst unat_word_ariths) (simp add: p unsigned_ucast_eq take_bit_nat_eq_self)
qed

text \<open>
  The capacity that \<open>mmc_startup\<close> computes from the four words of the CSD is, without overflow,
  the one the documents define from the fields of the 128-bit register: \<open>(C_SIZE + 1) * 2 ^
  (C_SIZE_MULT + 2)\<close> blocks of \<open>2 ^ READ_BL_LEN\<close> bytes, and \<open>(C_SIZE + 1) * 1024\<close> blocks for a card of
  high capacity.
\<close>

theorem csd_capacity_exact:
  "unat (csd_capacity hc [w0, w1, w2, w3]) =
    (if hc then (csd_field 69 48 [w0, w1, w2, w3] + 1) * 2 ^ 10 * 2 ^ csd_field 83 80 [w0, w1, w2, w3]
     else (csd_field 73 62 [w0, w1, w2, w3] + 1) * 2 ^ (csd_field 49 47 [w0, w1, w2, w3] + 2) *
          2 ^ csd_field 83 80 [w0, w1, w2, w3])"
proof -
  let ?c1 = "push_bit 2 (w1 AND 0x3ff) OR drop_bit 30 (w2 AND 0xc0000000)"
  let ?c2 = "push_bit 16 (w1 AND 0x3f) OR drop_bit 16 (w2 AND 0xffff0000)"
  let ?m = "drop_bit 15 (w2 AND 0x00038000)"
  let ?b = "csd_read_bl_len [w0, w1, w2, w3]"
  have c: "unat ?c1 = csd_field 73 62 [w0, w1, w2, w3]" "unat ?c2 = csd_field 69 48 [w0, w1, w2, w3]"
    by (simp_all only: csd_size_v1 csd_size_v2 csd_fields)
  have less: "csd_field 73 62 [w0, w1, w2, w3] < 2 ^ 22" "csd_field 69 48 [w0, w1, w2, w3] < 2 ^ 22"
    "csd_field 49 47 [w0, w1, w2, w3] < 8" "csd_field 83 80 [w0, w1, w2, w3] \<le> 15"
    using mod_less_divisor [of "2 ^ 12"] mod_less_divisor [of "2 ^ 22"] mod_less_divisor [of "2 ^ 3"]
      mod_less_divisor [of "2 ^ 4"]
    by (auto simp: csd_field_def less_Suc_eq_le intro: order.strict_trans)
  have m: "unat ?m = csd_field 49 47 [w0, w1, w2, w3]"
    unfolding csd_masks csd_fields by (simp add: unat_take_bit unat_drop_bit)
  have b: "unat ?b \<le> 2 ^ 15"
    unfolding csd_read_bl_len_field using less(4) by (intro power_increasing) auto
  have "unat (csd_capacity True [w0, w1, w2, w3]) = (unat ?c2 + 1) * 2 ^ 10 * unat ?b"
  proof -
    have "push_bit 8 (4 * x + 4) = push_bit 10 (x + 1)" for x :: u64
      by (simp add: push_bit_eq_mult)
    then have "csd_capacity True [w0, w1, w2, w3] = push_bit 10 (ucast ?c2 + 1) * ucast ?b"
      by (simp add: csd_capacity_def)
    then show ?thesis
      using unat_scaled [of ?c2 10 ?b] b less(2) by (simp only: c)
  qed
  moreover have "unat (csd_capacity False [w0, w1, w2, w3]) = (unat ?c1 + 1) * 2 ^ (unat ?m + 2) * unat ?b"
  proof -
    have "csd_capacity False [w0, w1, w2, w3] = push_bit (unat ?m + 2) (ucast ?c1 + 1) * ucast ?b"
      by (simp add: csd_capacity_def)
    then show ?thesis
      using unat_scaled [of ?c1 "unat ?m + 2" ?b] b less(1,3) by (simp only: c m)
  qed
  ultimately show ?thesis
    by (cases hc) (simp_all only: c m csd_read_bl_len_field if_True if_False)
qed

end
