(* ===== verification/Mmc_Ready.thy ===== *)
theory Mmc_Ready
  imports Mmc_Startup
begin

text \<open>
  What \<open>mmc_init\<close> guarantees: it returns for every card, a device that is ready has a block
  length that divides 512 and the block count of its capacity, the decoding of the CSD is that
  of the SD and JEDEC documents, a slot in which nothing answers gives the documented error.
\<close>

section \<open>Time\<close>

text \<open>
  The interface of the timer: milliseconds are read off a counter of nanoseconds, which no command
  turns back and a delay advances.
\<close>

locale timed_host =
  fixes h :: "'c host" and clk :: "'c \<Rightarrow> nat"
  assumes now_clk: "h_now h c = clk c div 1000000"
    and udelay_clk: "clk c + n * 1000 \<le> clk (h_udelay h n c)"
    and send_cmd_clk: "clk c \<le> clk (snd (snd (snd (h_send_cmd h c cmd data))))"
    and set_ios_clk: "clk c \<le> clk (snd (h_set_ios h io c))"

section \<open>What a step leaves alone\<close>

definition same_card :: "'c mdev \<Rightarrow> 'c mdev \<Rightarrow> bool" where
  "same_card s t \<longleftrightarrow> d_read_bl_len t = d_read_bl_len s \<and> d_high_capacity t = d_high_capacity s \<and>
     d_capacity t = d_capacity s \<and> d_capacity_user t = d_capacity_user s \<and> d_hwpart t = d_hwpart s \<and>
     d_csd t = d_csd s \<and> is_sd t = is_sd s"

definition tick :: "('c \<Rightarrow> nat) \<Rightarrow> 'c mdev \<Rightarrow> 'c mdev \<Rightarrow> bool" where
  "tick clk s t \<longleftrightarrow> clk (dev s) \<le> clk (dev t) \<and> same_card s t"

definition ticks :: "('c \<Rightarrow> nat) \<Rightarrow> 'c mdev \<Rightarrow> (int \<times> 'c mdev) option \<Rightarrow> bool" where
  "ticks clk s r \<longleftrightarrow> (\<exists>e t. r = Some (e, t) \<and> tick clk s t)"

named_theorems tick_rules

lemma tick_refl [tick_rules]: "tick clk s s"
  by (simp add: tick_def same_card_def)

lemma tick_trans: "tick clk s t \<Longrightarrow> tick clk t u \<Longrightarrow> tick clk s u"
  by (auto simp: tick_def same_card_def)

lemma tick_updates [simp]:
  "tick clk s (t\<lparr>d_clk_disable := a\<rparr>) = tick clk s t" "tick clk s (t\<lparr>d_bus_width := b\<rparr>) = tick clk s t"
  "tick clk s (t\<lparr>d_clock := b\<rparr>) = tick clk s t" "tick clk s (t\<lparr>d_card_caps := b\<rparr>) = tick clk s t"
  "tick clk s (t\<lparr>d_ocr := b\<rparr>) = tick clk s t" "tick clk s (t\<lparr>d_scr := l\<rparr>) = tick clk s t"
  "tick clk s (t\<lparr>d_tran_speed := b\<rparr>) = tick clk s t" "tick clk s (t\<lparr>d_selected_mode := m\<rparr>) = tick clk s t"
  "tick clk s (t\<lparr>d_ddr_mode := a\<rparr>) = tick clk s t" "tick clk s (t\<lparr>d_cardtype := b\<rparr>) = tick clk s t"
  "tick clk s (t\<lparr>d_op_cond_pending := a\<rparr>) = tick clk s t" "tick clk s (t\<lparr>d_part_config := c\<rparr>) = tick clk s t"
  by (simp_all add: tick_def same_card_def is_sd_def)

lemma tick_andthen [tick_rules]:
  "tick clk s (snd r) \<Longrightarrow> (\<And>t. tick clk s t \<Longrightarrow> tick clk s (snd (f t))) \<Longrightarrow> tick clk s (snd (andthen r f))"
  by (simp add: andthen_def)

lemma ticks_Some [simp]: "ticks clk s (Some r) = tick clk s (snd r)"
  by (cases r) (auto simp: ticks_def)

lemma ticks_andthenO [tick_rules]:
  "ticks clk s r \<Longrightarrow> (\<And>t. tick clk s t \<Longrightarrow> ticks clk s (f t)) \<Longrightarrow> ticks clk s (andthenO r f)"
  by (auto simp: ticks_def andthenO_def)

lemma tick_if [tick_rules]:
  "(b \<Longrightarrow> tick clk s (snd r)) \<Longrightarrow> (\<not> b \<Longrightarrow> tick clk s (snd r')) \<Longrightarrow> tick clk s (snd (if b then r else r'))"
  by simp

lemma ticks_if [tick_rules]:
  "(b \<Longrightarrow> ticks clk s r) \<Longrightarrow> (\<not> b \<Longrightarrow> ticks clk s r') \<Longrightarrow> ticks clk s (if b then r else r')"
  by simp

lemma ticks_map_ok: "ticks clk s r \<Longrightarrow> ticks clk s (map_option (\<lambda>(_, s). (0, s)) r)"
  by (auto simp: ticks_def)

lemma tick_select_mode [simp]: "tick clk s (mmc_select_mode m t) = tick clk s t"
  by (simp add: mmc_select_mode_def)

context timed_host begin

lemma tick_send [tick_rules]: "tick clk s t \<Longrightarrow> tick clk s (snd (snd (send h i r a t)))"
  using send_cmd_clk [of "dev t" "\<lparr>c_idx = i, c_resp = r, c_arg = a\<rparr>" None]
  by (auto simp: send_def tick_def same_card_def is_sd_def Let_def split: prod.splits)

lemma tick_send0 [tick_rules]: "tick clk s t \<Longrightarrow> tick clk s (snd (send0 h i r a t))"
  using tick_send [of s t i r a] by (simp add: send0_def case_prod_beta)

lemma tick_send_data [tick_rules]: "tick clk s t \<Longrightarrow> tick clk s (snd (snd (send_data h i r a n t)))"
  using send_cmd_clk [of "dev t" "\<lparr>c_idx = i, c_resp = r, c_arg = a\<rparr>" "Some (1, n)"]
  by (auto simp: send_data_def tick_def same_card_def is_sd_def Let_def split: prod.splits)

lemma tick_delay [tick_rules]: "tick clk s t \<Longrightarrow> tick clk s (delay h n t)"
  using udelay_clk [of "dev t" n] by (auto simp: delay_def tick_def same_card_def is_sd_def)

lemma clk_delay: "clk (dev s) + n * 1000 \<le> clk (dev (delay h n s))"
  by (simp add: delay_def udelay_clk)

lemma tick_go_idle [tick_rules]: "tick clk s t \<Longrightarrow> tick clk s (snd (mmc_go_idle h t))"
  by (auto simp: mmc_go_idle_def Let_def intro!: tick_rules)

lemma tick_op_cond_iter [tick_rules]: "tick clk s t \<Longrightarrow> tick clk s (snd (mmc_send_op_cond_iter h b t))"
  by (auto simp: mmc_send_op_cond_iter_def Let_def case_prod_beta intro!: tick_rules)

lemma tick_send_status [tick_rules]: "tick clk s t \<Longrightarrow> tick clk s (snd (snd (send_status_loop h n t)))"
  by (induction n arbitrary: t) (auto simp: Let_def case_prod_beta intro!: tick_rules)

lemma tick_send_retry [tick_rules]: "tick clk s t \<Longrightarrow> tick clk s (snd (snd (send_retry h i r a n t)))"
proof (induction n arbitrary: t)
  case 0
  then show ?case by (subst send_retry.simps) (simp add: Let_def case_prod_beta tick_rules)
next
  case (Suc n)
  then show ?case by (subst send_retry.simps) (simp add: Let_def case_prod_beta tick_rules)
qed

text \<open>The two waits end.\<close>

lemma ticks_complete_loop: "tick clk s t \<Longrightarrow> ticks clk s (complete_loop h st0 t)"
proof (induction "(st0 + 1001) * 1000000 - clk (dev t)" arbitrary: t rule: less_induct)
  case less
  define u where "u = snd (mmc_send_op_cond_iter h True t)"
  have su: "tick clk s u" and tu: "tick clk t u"
    using less.prems by (auto simp: u_def intro!: tick_rules)
  show ?case
  proof (cases "get_timer h st0 u > 1000")
    case True
    then show ?thesis
      using su by (subst complete_loop.simps) (simp add: Let_def case_prod_beta flip: u_def)
  next
    case False
    then have "clk (dev u) < (st0 + 1001) * 1000000"
      by (simp add: get_timer_def now_clk)
    then have "ticks clk s (complete_loop h st0 (delay h 100 u))"
      using clk_delay [of u 100] tu su
      by (intro less.hyps) (auto simp: tick_def [of clk t] intro!: tick_delay)
    then show ?thesis
      using su by (subst complete_loop.simps) (simp add: Let_def case_prod_beta flip: u_def)
  qed
qed

lemma ticks_switch_wait [tick_rules]: "tick clk s t \<Longrightarrow> ticks clk s (switch_wait h st0 n t)"
proof (induction "(st0 + n) * 1000000 - clk (dev t)" arbitrary: t rule: less_induct)
  case less
  define u where "u = delay h 100 (snd (snd (mmc_send_status h t)))"
  have sx: "tick clk s (snd (snd (mmc_send_status h t)))" and tu: "tick clk t (snd (snd (mmc_send_status h t)))"
    using less.prems by (auto simp: mmc_send_status_def intro!: tick_rules)
  then have su: "tick clk s u"
    by (simp add: u_def tick_delay)
  have "ticks clk s (if get_timer h st0 u < n then switch_wait h st0 n u else Some (- ETIMEDOUT, u))"
  proof (cases "get_timer h st0 u < n")
    case True
    have "clk (dev t) + 100000 \<le> clk (dev u)"
      using tu clk_delay [of "snd (snd (mmc_send_status h t))" 100] by (simp add: u_def tick_def)
    moreover have "clk (dev u) < (st0 + n) * 1000000"
      using True by (simp add: get_timer_def now_clk)
    ultimately show ?thesis
      using True su by (auto intro: less.hyps)
  qed (use su in simp)
  then show ?case
    using sx by (subst switch_wait.simps) (simp add: Let_def case_prod_beta flip: u_def)
qed

lemma ticks_switch_status [tick_rules]:
  "tick clk s t \<Longrightarrow> ticks clk s (mmc_switch_status h cset k v b t)"
  by (auto simp: mmc_switch_status_def Let_def case_prod_beta intro!: tick_rules)

lemma ticks_switch [tick_rules]: "tick clk s t \<Longrightarrow> ticks clk s (mmc_switch h cset k v t)"
  by (simp add: mmc_switch_def tick_rules)

text \<open>Clock and width, the modes.\<close>

lemma tick_set_ios [tick_rules]: "tick clk s t \<Longrightarrow> tick clk s (snd (mmc_set_ios h t))"
  using order_trans [OF _ set_ios_clk [of "dev t"], of "clk (dev s)"]
  by (simp add: mmc_set_ios_def tick_def same_card_def is_sd_def Let_def case_prod_beta)

lemma tick_set_clock [tick_rules]: "tick clk s t \<Longrightarrow> tick clk s (snd (mmc_set_clock h f b t))"
  by (simp add: mmc_set_clock_def Let_def tick_rules)

lemma tick_set_bus_width [tick_rules]: "tick clk s t \<Longrightarrow> tick clk s (snd (mmc_set_bus_width h w t))"
  by (simp add: mmc_set_bus_width_def tick_rules)

lemma tick_send_ext_csd [tick_rules]: "tick clk s t \<Longrightarrow> tick clk s (snd (snd (mmc_send_ext_csd h t)))"
  by (simp add: mmc_send_ext_csd_def tick_rules)

lemma tick_sd_switch [tick_rules]: "tick clk s t \<Longrightarrow> tick clk s (snd (snd (sd_switch h m g v t)))"
  by (simp add: sd_switch_def Let_def tick_rules)

lemma tick_compare [tick_rules]: "tick clk s t \<Longrightarrow> tick clk s (snd (mmc_read_and_compare_ext_csd h t))"
  by (auto simp: mmc_read_and_compare_ext_csd_def Let_def case_prod_beta intro!: tick_rules)

lemma ticks_set_card_speed [tick_rules]: "tick clk s t \<Longrightarrow> ticks clk s (mmc_set_card_speed h m b t)"
  by (auto simp: mmc_set_card_speed_def Let_def case_prod_beta intro!: tick_rules)

lemma tick_sd_card_speed [tick_rules]: "tick clk s t \<Longrightarrow> tick clk s (snd (sd_set_card_speed h m t))"
  by (auto simp: sd_set_card_speed_def Let_def case_prod_beta intro!: tick_rules)

lemma tick_sd_select_bus_width [tick_rules]: "tick clk s t \<Longrightarrow> tick clk s (snd (sd_select_bus_width h w t))"
  by (auto simp: sd_select_bus_width_def intro!: tick_rules)

lemma tick_sd_try [tick_rules]: "tick clk s t \<Longrightarrow> tick clk s (snd (sd_try h mw t))"
  by (auto simp: sd_try_def Let_def case_prod_beta intro!: tick_rules)

lemma tick_sd_revert [tick_rules]: "tick clk s t \<Longrightarrow> tick clk s (sd_revert h t)"
  by (auto simp: sd_revert_def Let_def case_prod_beta intro!: tick_rules)

lemma tick_sd_try_all [tick_rules]: "tick clk s t \<Longrightarrow> tick clk s (snd (sd_try_all h mws t))"
proof (induction mws arbitrary: t)
  case (Cons mw mws)
  then show ?case
    by (simp add: case_prod_beta tick_sd_try tick_sd_revert)
qed simp

lemma ticks_mmc_try [tick_rules]: "tick clk s t \<Longrightarrow> ticks clk s (mmc_try h mwb t)"
  by (auto simp: mmc_try_def Let_def case_prod_beta intro!: tick_rules)

lemma mmc_revert_tick: "tick clk s t \<Longrightarrow> \<exists>u. mmc_revert h t = Some u \<and> tick clk s u"
  using ticks_switch [of s t 1 183 0] by (auto simp: mmc_revert_def ticks_def intro!: tick_rules)

lemma ticks_mmc_try_all [tick_rules]: "tick clk s t \<Longrightarrow> ticks clk s (mmc_try_all h mwbs t)"
proof (induction mwbs arbitrary: t)
  case (Cons mwb mwbs)
  obtain e u where u: "mmc_try h mwb t = Some (e, u)" "tick clk s u"
    using ticks_mmc_try [OF Cons.prems, of mwb] unfolding ticks_def by blast
  obtain v where "mmc_revert h u = Some v" "tick clk s v"
    using mmc_revert_tick [OF u(2)] by blast
  with u Cons.IH [of v] show ?case by simp
qed simp

lemma ticks_mmc_select_mode_and_width [tick_rules]:
  "tick clk s t \<Longrightarrow> ticks clk s (mmc_select_mode_and_width h caps t)"
  by (auto simp: mmc_select_mode_and_width_def Let_def case_prod_beta intro!: tick_rules)

lemma tick_sd_check [tick_rules]: "tick clk s t \<Longrightarrow> tick clk s (snd (snd (sd_check_loop h n status t)))"
proof (induction n arbitrary: status t)
  case (Suc n)
  then show ?case by (simp add: Let_def case_prod_beta tick_rules)
qed simp

lemma tick_read_scr [tick_rules]: "tick clk s t \<Longrightarrow> tick clk s (snd (snd (read_scr h n t)))"
proof (induction n arbitrary: t)
  case 0
  then show ?case by (subst read_scr.simps) (simp add: Let_def case_prod_beta tick_rules)
next
  case (Suc n)
  then show ?case by (subst read_scr.simps) (simp add: Let_def case_prod_beta tick_rules)
qed

lemma tick_retry_cid [tick_rules]: "tick clk s t \<Longrightarrow> tick clk s (snd (snd (retry_cid h n t)))"
proof (induction n arbitrary: t)
  case 0
  then show ?case by (subst retry_cid.simps) (simp add: Let_def case_prod_beta tick_rules)
next
  case (Suc n)
  then show ?case by (subst retry_cid.simps) (simp add: Let_def case_prod_beta tick_rules)
qed

lemma tick_startup_select [tick_rules]: "tick clk s t \<Longrightarrow> tick clk s (snd (startup_select h t))"
  by (auto simp: startup_select_def Let_def intro!: tick_rules)

end

lemma scr_version_sd: "scr_version w AND push_bit 31 1 \<noteq> 0"
  by (simp add: scr_version_def Let_def SD_VERSION_def)

lemma tick_version: "tick clk s t \<Longrightarrow> is_sd s \<Longrightarrow> tick clk s (t\<lparr>d_version := scr_version w\<rparr>)"
  using scr_version_sd [of w] by (simp add: tick_def same_card_def is_sd_def)

context timed_host begin

lemma tick_sd_get_capabilities:
  "tick clk s t \<Longrightarrow> is_sd s \<Longrightarrow> tick clk s (snd (sd_get_capabilities h t))"
  unfolding sd_get_capabilities_def Let_def case_prod_beta
  by (intro tick_rules) (auto intro!: tick_rules tick_version)

lemma tick_sd_select_mode [tick_rules]:
  "tick clk s t \<Longrightarrow> tick clk s (snd (sd_select_mode_and_width h caps t))"
  by (simp add: sd_select_mode_and_width_def tick_rules)

lemma ticks_startup_mode: "tick clk s t \<Longrightarrow> ticks clk s (startup_mode h t)"
proof (cases "is_sd t")
  case True
  assume t: "tick clk s t"
  then have "is_sd s"
    using True by (simp add: tick_def same_card_def)
  with True t show ?thesis
    by (auto simp: startup_mode_def intro!: tick_rules tick_sd_get_capabilities)
next
  case False
  assume t: "tick clk s t"
  have "tick clk s (snd (mmc_get_capabilities t))"
    using t by (auto simp: mmc_get_capabilities_def Let_def split: option.split)
  then show ?thesis
    using False by (auto simp: startup_mode_def intro!: tick_rules ticks_map_ok)
qed

end

section \<open>Geometry\<close>

definition sector_sized :: "'c mdev \<Rightarrow> bool" where
  "sector_sized s \<longleftrightarrow> (\<exists>k \<le> 9. d_read_bl_len s = 2 ^ k) \<and> d_hwpart s = 0 \<and>
     (is_sd s \<longrightarrow> d_capacity_user s = csd_capacity (d_high_capacity s) (d_csd s))"

lemma clipped_block_length:
  "(\<exists>k \<le> 9. (if csd_read_bl_len r > 512 then 512 else csd_read_bl_len r) = 2 ^ k)"
proof -
  define n where "n = unat (drop_bit 16 (r ! 1) AND 0xf)"
  have "drop_bit 16 (r ! 1) AND 0xf \<le> 0xf"
    by (rule word_and_le1)
  then have "n \<le> 15"
    by (simp add: n_def word_le_nat_alt)
  then have "n \<in> {0, 1, 2, 3, 4, 5, 6, 7, 8, 9} \<or> n \<in> {10, 11, 12, 13, 14, 15}"
    by simp arith
  then have "(n \<le> 9 \<and> \<not> 512 < (2 :: u32) ^ n) \<or> 512 < (2 :: u32) ^ n"
    by auto
  moreover have "(512 :: u32) = 2 ^ 9"
    by simp
  ultimately show ?thesis
    unfolding csd_read_bl_len_def n_def [symmetric] by (auto simp: push_bit_eq_mult simp del: power_numeral)
qed

lemma LOG2_power: "k \<le> 9 \<Longrightarrow> LOG2 (2 ^ k) = k"
proof -
  assume "k \<le> 9"
  then have "k \<in> {0, 1, 2, 3, 4, 5, 6, 7, 8, 9}"
    by auto
  then show ?thesis
    by (auto simp: LOG2_def)
qed

lemma csd_capacity_take: "csd_capacity hc (take 4 r) = csd_capacity hc r"
  by (simp add: csd_capacity_def csd_read_bl_len_def)

lemma take_csd_sized: "d_hwpart s = 0 \<Longrightarrow> sector_sized (take_csd r s)"
  using clipped_block_length [of r]
  by (auto simp: sector_sized_def take_csd_def Let_def mmc_select_mode_def csd_capacity_take)

lemma tick_sized: "tick clk s t \<Longrightarrow> sector_sized s \<Longrightarrow> sector_sized t"
  by (auto simp: tick_def same_card_def sector_sized_def)

lemma sized_updates [simp]:
  "sector_sized (s\<lparr>d_ext_csd := e\<rparr>) = sector_sized s" "sector_sized (s\<lparr>d_wr_rel_set := b\<rparr>) = sector_sized s"
  "sector_sized (s\<lparr>d_cid := l\<rparr>) = sector_sized s" "sector_sized (s\<lparr>d_rca := a\<rparr>) = sector_sized s"
  by (simp_all add: sector_sized_def is_sd_def)

lemma sized_user: "\<not> is_sd s \<Longrightarrow> sector_sized (s\<lparr>d_capacity_user := c\<rparr>) = sector_sized s"
  by (simp add: sector_sized_def is_sd_def)

lemma mmc_versions_not_sd: "k < 9 \<Longrightarrow> mmc_versions ! k AND push_bit 31 1 = 0"
proof -
  assume "k < 9"
  then have "k \<in> {0, 1, 2, 3, 4, 5, 6, 7, 8}"
    by simp arith
  then show ?thesis
    by (auto simp: mmc_versions_def MMC_VERSION_def nth_Cons split: nat.splits)
qed

lemma take_ext_csd_fields:
  "d_read_bl_len (take_ext_csd x s) = d_read_bl_len s" "d_hwpart (take_ext_csd x s) = d_hwpart s"
  "d_version (take_ext_csd x s) = mmc_versions ! unat (x ! 192)"
  by (simp_all add: take_ext_csd_def Let_def)

lemma take_ext_csd_sized:
  "sector_sized s \<Longrightarrow> unat (x ! 192) < 9 \<Longrightarrow> sector_sized (take_ext_csd x s) \<and> \<not> is_sd (take_ext_csd x s)"
  using mmc_versions_not_sd [of "unat (x ! 192)"]
  by (simp add: sector_sized_def is_sd_def take_ext_csd_fields)

lemma tick_capacity: "tick clk s t \<Longrightarrow> d_capacity t = d_capacity s \<and> d_capacity_user t = d_capacity_user s"
  by (simp add: tick_def same_card_def)

lemma tick_hwpart: "tick clk s t \<Longrightarrow> d_hwpart t = d_hwpart s"
  by (simp add: tick_def same_card_def)

lemma tick_is_sd: "tick clk s t \<Longrightarrow> is_sd t = is_sd s"
  by (simp add: tick_def same_card_def)

definition returns :: "('c mdev \<Rightarrow> bool) \<Rightarrow> (int \<times> 'c mdev) option \<Rightarrow> bool" where
  "returns P r \<longleftrightarrow> (\<exists>e t. r = Some (e, t) \<and> (e = 0 \<longrightarrow> P t))"

lemma returns_andthenO:
  "returns P r \<Longrightarrow> (\<And>t. P t \<Longrightarrow> returns Q (f t)) \<Longrightarrow> returns Q (andthenO r f)"
  by (auto simp: returns_def andthenO_def)

lemma ticks_returns: "ticks clk s r \<Longrightarrow> (\<And>t. tick clk s t \<Longrightarrow> P t) \<Longrightarrow> returns P r"
  by (auto simp: returns_def ticks_def)

lemma returns_Some [simp]: "returns P (Some r) \<longleftrightarrow> (fst r = 0 \<longrightarrow> P (snd r))"
  by (cases r) (auto simp: returns_def)

context timed_host begin

lemma startup_v4_returns: "sector_sized s \<Longrightarrow> returns sector_sized (mmc_startup_v4 h s)"
proof (cases "is_sd s \<or> d_version s < MMC_VERSION 4 0 0")
  case False
  assume s: "sector_sized s"
  obtain e x u where read: "mmc_send_ext_csd h s = (e, x, u)"
    by (cases "mmc_send_ext_csd h s")
  then have u: "sector_sized u"
    using tick_send_ext_csd [OF tick_refl, of s] s by (auto elim: tick_sized)
  define v where "v = take_ext_csd x (u\<lparr>d_ext_csd := Some x\<rparr>)"
  define r where "r = (if has_parts x then mmc_switch h 1 175 1 v else Some (0, v))"
  have "ticks clk v r"
    by (auto simp: r_def intro!: tick_rules)
  then obtain e' w where r: "r = Some (e', w)" "tick clk v w"
    unfolding ticks_def by blast
  show ?thesis
  proof (cases "e \<noteq> 0 \<or> 9 \<le> unat (x ! 192)")
    case True
    then show ?thesis
      using False read u by (auto simp: mmc_startup_v4_def Let_def)
  next
    case ok: False
    then have v: "sector_sized v \<and> \<not> is_sd v"
      unfolding v_def using u by (intro take_ext_csd_sized) auto
    then have w: "sector_sized w" "\<not> is_sd w"
      using r(2) tick_sized tick_is_sd by blast+
    have "mmc_startup_v4 h s =
        Option.bind r (\<lambda>(err, s). if err \<noteq> 0 then Some (err, s\<lparr>d_ext_csd := None\<rparr>) else Some (0, group_capacity x s))"
      using False read ok by (simp add: mmc_startup_v4_def Let_def r_def v_def)
    then show ?thesis
      using w r(1) by (simp add: group_capacity_def Let_def sized_user)
  qed
qed (simp add: mmc_startup_v4_def)

lemma startup_identify_sized:
  assumes "d_hwpart s = 0"
  shows "returns sector_sized (Some (startup_identify h s))"
proof -
  obtain e r u where a: "send h 2 MMC_RSP_R2 0 s = (e, r, u)"
    by (cases "send h 2 MMC_RSP_R2 0 s")
  obtain e' r' u' where b: "(if e \<noteq> 0 \<and> d_quirks u AND 1 \<noteq> 0 then retry_cid h 4 u else (e, r, u)) = (e', r', u')"
    by (cases "if e \<noteq> 0 \<and> d_quirks u AND 1 \<noteq> 0 then retry_cid h 4 u else (e, r, u)")
  have u: "tick clk s u"
    using tick_send [OF tick_refl, of s 2 MMC_RSP_R2 0] a by simp
  then have "tick clk s u'"
    using tick_retry_cid [of s u 4] b by (auto split: if_splits)
  then have u': "d_hwpart u' = 0"
    using assms by (simp add: tick_def same_card_def)
  have hw: "d_hwpart (snd (snd (send h i q x t))) = d_hwpart t" for i q x t
    using tick_send [OF tick_refl, of t i q x] by (simp add: tick_def same_card_def)
  show ?thesis
    unfolding startup_identify_def a b prod.case Let_def
    using u' by (auto simp: case_prod_beta hw intro!: take_csd_sized)
qed

end

lemma set_capacity_returns:
  "sector_sized s \<Longrightarrow>
   returns (\<lambda>t. sector_sized t \<and> d_capacity t = d_capacity_user t) (Some (mmc_set_capacity (d_hwpart s) s))"
  by (auto simp: mmc_set_capacity_def sector_sized_def is_sd_def Let_def)

text \<open>What the block reader relies on.\<close>

definition block_device :: "'c mdev \<Rightarrow> bool" where
  "block_device s \<longleftrightarrow> d_has_init s \<and> (\<exists>k \<le> 9. d_read_bl_len s = 2 ^ k \<and> d_log2blksz s = k) \<and>
     d_blksz s = d_read_bl_len s \<and> d_hwpart s = 0 \<and> (d_ddr_mode s \<longrightarrow> d_read_bl_len s = 512) \<and>
     d_capacity s = d_capacity_user s \<and> d_lba s = d_capacity s div ucast (d_read_bl_len s) \<and>
     (is_sd s \<longrightarrow> d_capacity s = csd_capacity (d_high_capacity s) (d_csd s))"

lemma startup_finish_device:
  assumes "sector_sized s" "d_capacity s = d_capacity_user s"
  shows "block_device ((startup_finish s)\<lparr>d_has_init := True\<rparr>)"
proof -
  obtain k where "k \<le> 9" "d_read_bl_len s = 2 ^ k"
    using assms(1) by (auto simp: sector_sized_def)
  moreover have "(512 :: u32) = 2 ^ 9"
    by simp
  ultimately have *: "\<exists>k \<le> 9. d_read_bl_len s = 2 ^ k \<and> LOG2 (d_read_bl_len s) = k"
      "\<exists>k \<le> 9. (512 :: u32) = 2 ^ k \<and> LOG2 512 = k"
    using LOG2_power [of k] LOG2_power [of 9] by (auto simp del: power_numeral)
  show ?thesis
  proof (cases "d_ddr_mode s")
    case True
    then show ?thesis
      using *(2) assms by (simp add: block_device_def startup_finish_def sector_sized_def is_sd_def Let_def)
  next
    case False
    then show ?thesis
      using *(1) assms by (simp add: block_device_def startup_finish_def sector_sized_def is_sd_def Let_def)
  qed
qed

context timed_host begin

lemma mmc_startup_returns:
  assumes "d_hwpart s = 0"
  shows "returns (\<lambda>t. block_device (t\<lparr>d_has_init := True\<rparr>)) (mmc_startup h s)"
  unfolding mmc_startup_def
proof (rule returns_andthenO [OF startup_identify_sized [OF assms]])
  fix t :: "'c mdev" assume t: "sector_sized t"
  have select: "returns sector_sized (Some (startup_select h t))"
    using t tick_sized [OF tick_startup_select [OF tick_refl]] by simp
  show "returns (\<lambda>t. block_device (t\<lparr>d_has_init := True\<rparr>))
     (andthenO (Some (startup_select h t)) (\<lambda>s. andthenO (mmc_startup_v4 h s) (\<lambda>s.
        andthenO (Some (mmc_set_capacity (d_hwpart s) s)) (\<lambda>s.
          andthenO (startup_mode h s) (\<lambda>s. Some (0, startup_finish s))))))"
  proof (rule returns_andthenO [OF select], rule returns_andthenO [OF startup_v4_returns],
      assumption, rule returns_andthenO [OF set_capacity_returns], assumption)
    fix u :: "'c mdev" assume u: "sector_sized u \<and> d_capacity u = d_capacity_user u"
    have "returns (\<lambda>v. sector_sized v \<and> d_capacity v = d_capacity_user v) (startup_mode h u)"
      using u by (intro ticks_returns [OF ticks_startup_mode [OF tick_refl]]) (simp add: tick_sized tick_capacity)
    then show "returns (\<lambda>t. block_device (t\<lparr>d_has_init := True\<rparr>))
        (andthenO (startup_mode h u) (\<lambda>s. Some (0, startup_finish s)))"
      by (rule returns_andthenO) (simp add: startup_finish_device)
  qed
qed

end

section \<open>Initialisation\<close>

named_theorems hwpart_simps

lemma hwpart_send [hwpart_simps]: "d_hwpart (snd (snd (send h i r a s))) = d_hwpart s"
  by (simp add: send_def case_prod_beta)

lemma hwpart_send0 [hwpart_simps]: "d_hwpart (snd (send0 h i r a s)) = d_hwpart s"
  by (simp add: send0_def case_prod_beta hwpart_simps)

lemma hwpart_delay [hwpart_simps]: "d_hwpart (delay h n s) = d_hwpart s"
  by (simp add: delay_def)

lemma hwpart_go_idle [hwpart_simps]: "d_hwpart (snd (mmc_go_idle h s)) = d_hwpart s"
  by (simp add: mmc_go_idle_def andthen_def Let_def hwpart_simps)

lemma hwpart_if_cond [hwpart_simps]: "d_hwpart (snd (mmc_send_if_cond h s)) = d_hwpart s"
  by (simp add: mmc_send_if_cond_def Let_def case_prod_beta hwpart_simps)

lemma hwpart_op_cond_loop [hwpart_simps]: "d_hwpart (snd (snd (op_cond_loop h a n s))) = d_hwpart s"
proof (induction n arbitrary: s)
  case 0
  then show ?case by (subst op_cond_loop.simps) (simp add: Let_def case_prod_beta hwpart_simps)
next
  case (Suc n)
  then show ?case by (subst op_cond_loop.simps) (simp add: Let_def case_prod_beta hwpart_simps)
qed

lemma hwpart_sd_op_cond [hwpart_simps]: "d_hwpart (snd (sd_send_op_cond h s)) = d_hwpart s"
  by (simp add: sd_send_op_cond_def Let_def case_prod_beta hwpart_simps)

lemma hwpart_op_cond_iter [hwpart_simps]: "d_hwpart (snd (mmc_send_op_cond_iter h b s)) = d_hwpart s"
  by (simp add: mmc_send_op_cond_iter_def Let_def case_prod_beta hwpart_simps)

lemma hwpart_op_cond [hwpart_simps]: "d_hwpart (snd (mmc_send_op_cond h s)) = d_hwpart s"
  by (simp add: mmc_send_op_cond_def andthen_def Let_def case_prod_beta hwpart_simps)

lemma hwpart_probe_card: "fst (probe_card h s) = 0 \<Longrightarrow> d_hwpart (snd (probe_card h s)) = 0"
  by (simp add: probe_card_def andthen_def Let_def case_prod_beta hwpart_simps split: if_splits)

lemma hwpart_start_init:
  "\<not> d_has_init s \<Longrightarrow> fst (mmc_start_init h s) = 0 \<Longrightarrow> d_hwpart (snd (mmc_start_init h s)) = 0"
  by (auto simp: mmc_start_init_def Let_def case_prod_beta andthen_def mmc_get_op_cond_def mmc_power_cycle_def delay_def
      mmc_set_clock_def mmc_set_ios_def hwpart_probe_card split: if_splits option.splits)

lemma returns_has_init:
  "returns (\<lambda>t. P (t\<lparr>d_has_init := True\<rparr>)) r \<Longrightarrow>
   returns P (map_option (\<lambda>(err, s). (err, s\<lparr>d_has_init := (err = 0)\<rparr>)) r)"
  by (auto simp: returns_def)

context timed_host begin

lemma complete_op_cond_returns:
  assumes "d_hwpart s = 0"
  shows "returns (\<lambda>t. d_hwpart t = 0) (mmc_complete_op_cond h s)"
proof -
  let ?s = "s\<lparr>d_op_cond_pending := False\<rparr>"
  have "ticks clk ?s (if d_ocr ?s AND OCR_BUSY = 0
      then (let (_, s) = mmc_go_idle h ?s in complete_loop h (get_timer h 0 s) s) else Some (0, ?s))"
    by (auto simp: Let_def case_prod_beta intro!: tick_rules ticks_complete_loop simp del: tick_updates)
  then have "returns (\<lambda>t. d_hwpart t = 0) (if d_ocr ?s AND OCR_BUSY = 0
      then (let (_, s) = mmc_go_idle h ?s in complete_loop h (get_timer h 0 s) s) else Some (0, ?s))"
    using assms by (rule_tac ticks_returns) (auto dest: tick_hwpart)
  then show ?thesis
    unfolding mmc_complete_op_cond_def Let_def [of ?s] by (rule returns_andthenO) simp
qed

lemma mmc_complete_init_returns:
  assumes "d_hwpart s = 0"
  shows "returns block_device (mmc_complete_init h s)"
proof -
  let ?s = "s\<lparr>d_init_in_progress := False\<rparr>"
  have "returns (\<lambda>t. d_hwpart t = 0) (if d_op_cond_pending ?s then mmc_complete_op_cond h ?s else Some (0, ?s))"
    using assms complete_op_cond_returns [of ?s] by simp
  then have "returns (\<lambda>t. block_device (t\<lparr>d_has_init := True\<rparr>))
      (andthenO (if d_op_cond_pending ?s then mmc_complete_op_cond h ?s else Some (0, ?s)) (mmc_startup h))"
    by (rule returns_andthenO) (rule mmc_startup_returns)
  from returns_has_init [OF this] show ?thesis
    by (simp add: mmc_complete_init_def Let_def)
qed

lemma mmc_init_returns:
  assumes "\<not> d_has_init s" "\<not> d_init_in_progress s"
  shows "returns block_device (mmc_init h s)"
proof -
  have "returns (\<lambda>t. d_hwpart t = 0) (Some (mmc_start_init h s))"
    using hwpart_start_init [OF assms(1), of h] by simp
  from returns_andthenO [OF this mmc_complete_init_returns]
  show ?thesis
    using assms by (simp add: mmc_init_def)
qed

end

lemma mmc_create_fields:
  "mmc_create h c = Some s \<Longrightarrow> \<not> d_has_init s \<and> \<not> d_init_in_progress s \<and> d_dsr s = 0xffffffff"
  by (auto simp: mmc_create_def split: if_splits)

text \<open>
  C31: bringing up a card returns, whatever it answers. When it succeeds the device has a block
  length that is a power of two up to 512 (512 in the double data rate mode), the main area of the
  card is selected, and the number of blocks is the capacity divided by the block length; for an SD
  card the capacity is that of the CSD it gave.
\<close>

theorem mmc_init_block_device:
  assumes "timed_host h clk" "mmc_create h c = Some s"
  shows "\<exists>e t. mmc_init h s = Some (e, t) \<and> (e = 0 \<longrightarrow> block_device t)"
  using timed_host.mmc_init_returns [OF assms(1)] mmc_create_fields [OF assms(2)]
  by (auto simp: returns_def)

text \<open>A high-capacity SD card; its state is a counter of microseconds.\<close>

definition sdhc_switch_status :: "u8 list" where
  "sdhc_switch_status =
     [0, 0, 0, 0, 0, 0, 0, 0, 0, 0, 0, 0, 0, 2, 0, 0, 1, 0, 0, 0, 0, 0, 0, 0, 0, 0, 0, 0, 0, 0,
      0, 0, 0, 0, 0, 0, 0, 0, 0, 0, 0, 0, 0, 0, 0, 0, 0, 0, 0, 0, 0, 0, 0, 0, 0, 0, 0, 0, 0, 0,
      0, 0, 0, 0]"

definition sdhc_answer :: "command \<Rightarrow> int \<times> u32 list \<times> u8 list" where
  "sdhc_answer cmd =
     (let i = c_idx cmd
      in if i = 8 then (0, [0x1aa], [])
         else if i = 41 then (0, [0xC0FF8000], [])
         else if i = 2 then (0, [0x03534453, 0x44333247, 0x80123456, 0x78013C00], [])
         else if i = 3 then (0, [0x00010000], [])
         else if i = 9 then (0, [0x400E0032, 0x5B590000, 0x76B27F80, 0x0A404000], [])
         else if i = 51 then (0, [0x920], [0x02, 0x35, 0x80, 0x43, 0, 0, 0, 0])
         else if i = 6 \<and> c_arg cmd > 2
         then (0, [0x900], sdhc_switch_status)
         else (0, [0x900], []))"

definition sdhc_host :: "nat host" where
  "sdhc_host =
     \<lparr>h_send_cmd = (\<lambda>c cmd data. let (e, r, bs) = sdhc_answer cmd in (e, r, bs, c + 10)),
      h_set_ios = (\<lambda>io c. (0, c)), h_init = (\<lambda>c. (0, c)), h_getcd = (\<lambda>c. (1, c)), h_power_cycle = None,
      h_udelay = (\<lambda>n c. c + n), h_now = (\<lambda>c. c div 1000),
      cfg_host_caps = MMC_MODE_4BIT OR MMC_CAP MMC_HS_52 OR MMC_MODE_HS, cfg_voltages = 0x300000,
      cfg_f_min = 400000, cfg_f_max = 52000000, cfg_b_max = 65535\<rparr>"

lemma sdhc_timed: "timed_host sdhc_host (\<lambda>c. c * 1000)"
  by unfold_locales (simp_all add: sdhc_host_def Let_def case_prod_beta)

section \<open>An SD card, step by step\<close>

lemmas sdhc_simps = sdhc_host_def sdhc_answer_def Let_def send_def send0_def send_data_def andthen_def delay_def
  mmc_set_ios_def mmc_set_clock_def mmc_set_bus_width_def mmc_select_mode_def mmc_mode2freq_def
  mmc_is_mode_ddr_def SD_VERSION_def MMC_VERSION_def MMC_RSP_R1_def MMC_RSP_R3_def sdhc_switch_status_def be32_at_def
  MMC_CAP_def UHS_CAPS_def MMC_MODE_4BIT_def MMC_MODE_1BIT_def MMC_MODE_8BIT_def MMC_MODE_HS_def

lemma sdhc_op_cond:
  "\<not> d_has_init s \<Longrightarrow> mmc_get_op_cond sdhc_host s =
    (0, s\<lparr>d_quirks := 3, d_selected_mode := MMC_LEGACY, d_tran_speed := d_legacy_speed s, d_ddr_mode := False,
       d_bus_width := 1, d_clock := 400000, d_clk_disable := False, d_hwpart := 0, d_version := 0x80020000,
       dev := 5040 + dev s, d_ocr := 0xC0FF8000, d_high_capacity := True, d_rca := 0\<rparr>)"
  by (simp add: mmc_get_op_cond_def mmc_power_cycle_def probe_card_def mmc_set_initial_state_def mmc_go_idle_def
      mmc_send_if_cond_def sd_send_op_cond_def op_cond_loop.simps [of _ _ 1000] OCR_BUSY_def OCR_HCS_def sdhc_simps)

lemma sdhc_identify:
  "d_version s = 0x80020000 \<Longrightarrow> d_high_capacity s \<Longrightarrow> startup_identify sdhc_host s =
    (0, s\<lparr>d_cid := [0x03534453, 0x44333247, 0x80123456, 0x78013C00], d_rca := 1, dev := 30 + dev s,
       d_csd := [0x400E0032, 0x5B590000, 0x76B27F80, 0x0A404000], d_legacy_speed := 25000000,
       d_selected_mode := MMC_LEGACY, d_tran_speed := 25000000, d_ddr_mode := False, d_dsr_imp := 0,
       d_capacity_user := 15931539456, d_capacity_boot := 0, d_capacity_rpmb := 0,
       d_capacity_gp := [0, 0, 0, 0], d_read_bl_len := 512\<rparr>)"
  by (simp add: startup_identify_def take_csd_def is_sd_def csd_read_bl_len_def csd_speed_def csd_capacity_def
      fbase_def multipliers_def sdhc_simps)

lemma sdhc_select:
  "d_dsr s = 0xffffffff \<Longrightarrow> startup_select sdhc_host s = (0, s\<lparr>dev := dev s + 10, d_part_config := 255\<rparr>)"
  by (simp add: startup_select_def sdhc_simps)

lemma sdhc_capabilities:
  "sd_get_capabilities sdhc_host s =
    (0, s\<lparr>dev := 30 + dev s, d_scr := [0x02358043, 0], d_version := 0x80030000, d_card_caps := 0x3000000A\<rparr>)"
  by (simp add: sd_get_capabilities_def read_scr.simps [of _ 3] sd_check_loop.simps(2) [of _ 3, simplified]
      scr_version_def sd_switch_def sdhc_simps)

lemma sdhc_mode:
  assumes "d_version s = 0x80030000" "d_host_caps s = 0x3000001F"
  shows "sd_select_mode_and_width sdhc_host 0x3000000A s =
    (0, s\<lparr>d_bus_width := 4, dev := 30 + dev s, d_selected_mode := SD_HS, d_tran_speed := 50000000,
       d_ddr_mode := False, d_clock := 50000000, d_clk_disable := False\<rparr>)"
proof -
  have "sd_choices (0x3000000A AND 0x3000001F AND NOT UHS_CAPS) = [(SD_HS, MMC_MODE_4BIT), (SD_HS, MMC_MODE_1BIT),
      (SD_LEGACY, MMC_MODE_4BIT), (SD_LEGACY, MMC_MODE_1BIT)]"
    by (simp add: sd_choices_def sd_modes_by_pref_def sdhc_simps)
  then show ?thesis
    using assms by (simp add: sd_select_mode_and_width_def sd_try_def bus_width_def sd_select_bus_width_def
        sd_set_card_speed_def sd_switch_def sdhc_simps)
qed

lemma sdhc_startup:
  assumes "d_version s = 0x80020000" "d_high_capacity s" "d_dsr s = 0xffffffff" "d_hwpart s = 0"
    "d_host_caps s = 0x3000001F"
  shows "\<exists>t. mmc_startup sdhc_host s = Some (0, t) \<and> d_lba t = 31116288 \<and> d_read_bl_len t = 512 \<and>
    d_selected_mode t = SD_HS \<and> d_bus_width t = 4 \<and> d_clock t = 50000000"
  using assms
  by (simp add: mmc_startup_def andthenO_def sdhc_identify sdhc_select mmc_startup_v4_def startup_mode_def is_sd_def
      mmc_set_capacity_def sdhc_capabilities sdhc_mode startup_finish_def andthen_def Let_def)

lemma sdhc_init:
  "\<exists>t. mmc_init sdhc_host (the (mmc_create sdhc_host 0)) = Some (0, t) \<and> d_lba t = 31116288 \<and>
    d_read_bl_len t = 512 \<and> d_selected_mode t = SD_HS \<and> d_bus_width t = 4 \<and> d_clock t = 50000000"
proof -
  obtain s where s: "mmc_create sdhc_host 0 = Some s" "d_op_cond_pending s = False"
    by (simp add: mmc_create_def sdhc_host_def)
  then have f: "\<not> d_has_init s" "\<not> d_init_in_progress s" "d_dsr s = 0xffffffff"
    using mmc_create_fields [OF s(1)] by auto
  let ?caps = "s\<lparr>d_host_caps := 0x3000001F\<rparr>"
  have "h_getcd sdhc_host c = (1, c)" for c
    by (simp add: sdhc_host_def)
  moreover have "cfg_host_caps sdhc_host OR MMC_CAP SD_LEGACY OR MMC_CAP MMC_LEGACY OR MMC_MODE_1BIT = 0x3000001F"
    by (simp add: sdhc_simps)
  ultimately have
    "mmc_start_init sdhc_host s = (0, (snd (mmc_get_op_cond sdhc_host ?caps))\<lparr>d_init_in_progress := True\<rparr>)"
    using f by (simp add: mmc_start_init_def sdhc_op_cond andthen_def Let_def)
  with f s show ?thesis
    using sdhc_startup [of "(snd (mmc_get_op_cond sdhc_host ?caps))\<lparr>d_init_in_progress := False\<rparr>"]
    by (auto simp: mmc_init_def sdhc_op_cond mmc_complete_init_def andthenO_def Let_def)
qed

theorem mmc_init_block_device_witness:
  "\<exists>t. mmc_init sdhc_host (the (mmc_create sdhc_host 0)) = Some (0, t) \<and> block_device t \<and> d_lba t = 31116288"
proof -
  obtain s where "mmc_create sdhc_host 0 = Some s"
    by (simp add: mmc_create_def sdhc_host_def)
  with mmc_init_block_device [OF sdhc_timed this] sdhc_init show ?thesis
    by auto
qed

end
