(* ===== verification/Mmc_Modes.thy ===== *)
theory Mmc_Modes
  imports Mmc_Ready
begin

text \<open>
  Two more facts of \<open>src/src/uboot/drivers/mmc/mmc.c\<close>: an empty slot gives an error, the bus mode of an
  SD card is one that card and host support.
\<close>

section \<open>An empty slot\<close>

text \<open>Every command that has a response times out: nothing is in the slot.\<close>

definition no_answer :: "'c host \<Rightarrow> bool" where
  "no_answer h \<longleftrightarrow>
     (\<forall>c cmd data. fst (h_send_cmd h c cmd data) = (if c_resp cmd = 0 then 0 else - ETIMEDOUT))"

lemma no_answer_send:
  "no_answer h \<Longrightarrow> fst (send h i r a s) = (if r = 0 then 0 else - ETIMEDOUT)"
  by (simp add: no_answer_def send_def case_prod_beta)

lemma no_answer_probe: "no_answer h \<Longrightarrow> fst (probe_card h s) = - EOPNOTSUPP"
  by (simp add: probe_card_def mmc_go_idle_def mmc_send_op_cond_def mmc_send_op_cond_iter_def sd_send_op_cond_def
      op_cond_loop.simps [of _ _ 1000] andthen_def send0_def case_prod_beta no_answer_send Let_def
      MMC_RSP_R1_def MMC_RSP_R3_def)

text \<open>
  When nothing answers, neither the SD nor the MMC sequence, \<open>mmc_init\<close> ends with
  \<open>EOPNOTSUPP\<close>; whether the controller can cycle the power of the card does not matter.
\<close>

theorem empty_slot:
  assumes "no_answer h" "mmc_create h c = Some s" "\<And>c. fst (h_getcd h c) \<noteq> 0" "\<And>c. fst (h_init h c) = 0"
  shows "\<exists>t. mmc_init h s = Some (- EOPNOTSUPP, t)"
proof -
  have "\<not> d_has_init s" "\<not> d_init_in_progress s"
    using assms(2) by (auto simp: mmc_create_def split: if_splits)
  moreover have "fst (mmc_get_op_cond h u) = - EOPNOTSUPP" if "\<not> d_has_init u" for u
    using that assms(4) no_answer_probe [OF assms(1)]
    by (auto simp: mmc_get_op_cond_def Let_def case_prod_beta mmc_power_cycle_def delay_def mmc_set_clock_def mmc_set_ios_def split: option.splits)
  ultimately show ?thesis
    using assms(3)
    by (auto simp: mmc_init_def mmc_start_init_def andthenO_def andthen_def Let_def case_prod_beta prod_eq_iff)
qed

definition dead_host :: "nat host" where
  "dead_host = sdhc_host\<lparr>h_send_cmd := \<lambda>c cmd data. (if c_resp cmd = 0 then 0 else - ETIMEDOUT, [], [], c + 10)\<rparr>"

theorem empty_slot_witness:
  "\<exists>t. mmc_init dead_host (the (mmc_create dead_host 0)) = Some (- EOPNOTSUPP, t)"
proof -
  have "no_answer dead_host" and d: "fst (h_getcd dead_host c) \<noteq> 0" "fst (h_init dead_host c) = 0" for c
    by (simp_all add: no_answer_def dead_host_def sdhc_host_def)
  moreover obtain s where "mmc_create dead_host 0 = Some s"
    by (simp add: mmc_create_def dead_host_def sdhc_host_def)
  ultimately show ?thesis
    using empty_slot [of dead_host 0 s] d by simp
qed

section \<open>Mode\<close>

lemma and_zero_left: "a AND b = 0 \<Longrightarrow> a AND b AND c = 0" "b AND a = 0 \<Longrightarrow> a AND b AND c = 0" for a b c :: u32
  by (simp_all flip: and.assoc add: and.commute)

lemma sd_choices_caps:
  "(mode, w) \<in> set (sd_choices caps) \<Longrightarrow>
   mode \<in> {SD_HS, SD_LEGACY} \<and> w \<in> {MMC_MODE_4BIT, MMC_MODE_1BIT} \<and> caps AND MMC_CAP mode \<noteq> 0 \<and> caps AND w \<noteq> 0"
  by (auto simp: sd_choices_def sd_modes_by_pref_def dest: and_zero_left split: if_splits)

lemma set_clock_fields:
  "d_clock (snd (mmc_set_clock h f False s)) = max (cfg_f_min h) (min (cfg_f_max h) f)"
  "d_bus_width (snd (mmc_set_clock h f False s)) = d_bus_width s"
  "d_selected_mode (snd (mmc_set_clock h f False s)) = d_selected_mode s"
  by (auto simp: mmc_set_clock_def mmc_set_ios_def Let_def case_prod_beta max_def min_def)

lemma card_speed_width: "d_bus_width (snd (sd_set_card_speed h m s)) = d_bus_width s"
  by (simp add: sd_set_card_speed_def sd_switch_def send_data_def Let_def case_prod_beta)

lemma sd_try_mode:
  assumes "fst (sd_try h (mode, w) s) = 0"
  shows "d_selected_mode (snd (sd_try h (mode, w) s)) = mode \<and>
    d_bus_width (snd (sd_try h (mode, w) s)) = of_nat (bus_width w) \<and>
    (mode = SD_HS \<longrightarrow> d_clock (snd (sd_try h (mode, w) s)) = max (cfg_f_min h) (min (cfg_f_max h) 50000000)) \<and>
    (mode = SD_LEGACY \<longrightarrow> d_clock (snd (sd_try h (mode, w) s)) = max (cfg_f_min h) (min (cfg_f_max h) 25000000))"
  using assms
  by (auto simp: sd_try_def andthen_def Let_def case_prod_beta set_clock_fields mmc_select_mode_def card_speed_width
      mmc_mode2freq_def mmc_set_bus_width_def mmc_set_ios_def split: if_splits)

lemma sd_try_all_first:
  "fst (sd_try_all h mws s) = 0 \<Longrightarrow>
   \<exists>mode w u. (mode, w) \<in> set mws \<and> fst (sd_try h (mode, w) u) = 0 \<and> snd (sd_try_all h mws s) = snd (sd_try h (mode, w) u)"
proof (induction mws arbitrary: s)
  case (Cons mw mws)
  obtain mode w where mw: "mw = (mode, w)"
    by (cases mw)
  show ?case
  proof (cases "fst (sd_try h mw s) = 0")
    case True
    then show ?thesis
      unfolding mw by (intro exI [of _ mode] exI [of _ w] exI [of _ s]) (auto simp: case_prod_beta)
  next
    case False
    then have eq: "sd_try_all h (mw # mws) s = sd_try_all h mws (sd_revert h (snd (sd_try h mw s)))"
      by (simp add: case_prod_beta)
    then show ?thesis
      using Cons.IH Cons.prems by fastforce
  qed
qed simp

text \<open>
  C32: when \<open>sd_select_mode_and_width\<close> succeeds, the bus mode and the width are ones that both the
  card and the host have, and the clock is that of the mode, within the limits of the host.
\<close>

theorem sd_mode_supported:
  assumes "sd_select_mode_and_width h caps s = (0, t)" "cfg_f_min h \<le> cfg_f_max h"
  shows "(caps AND d_host_caps s) AND MMC_CAP (d_selected_mode t) \<noteq> 0 \<and>
    (d_bus_width t = 4 \<and> (caps AND d_host_caps s) AND MMC_MODE_4BIT \<noteq> 0 \<or>
     d_bus_width t = 1 \<and> (caps AND d_host_caps s) AND MMC_MODE_1BIT \<noteq> 0) \<and>
    d_clock t = (if d_selected_mode t = SD_HS then max (cfg_f_min h) (min (cfg_f_max h) 50000000)
                 else max (cfg_f_min h) (min (cfg_f_max h) 25000000)) \<and>
    cfg_f_min h \<le> d_clock t \<and> d_clock t \<le> cfg_f_max h"
proof -
  define all where "all = caps AND d_host_caps s AND NOT UHS_CAPS"
  have "sd_try_all h (sd_choices all) s = (0, t)"
    using assms(1) by (simp add: sd_select_mode_and_width_def all_def)
  then obtain mode w u where mw: "(mode, w) \<in> set (sd_choices all)" "fst (sd_try h (mode, w) u) = 0"
      "t = snd (sd_try h (mode, w) u)"
    using sd_try_all_first [of h "sd_choices all" s] by auto
  note caps = sd_choices_caps [OF mw(1)] and tried = sd_try_mode [OF mw(2), folded mw(3)]
  have "caps AND d_host_caps s AND x \<noteq> 0" if "all AND x \<noteq> 0" for x
  proof
    assume z: "caps AND d_host_caps s AND x = 0"
    have "all AND x = (caps AND d_host_caps s AND x) AND NOT UHS_CAPS"
      by (simp add: all_def ac_simps)
    with that z show False by simp
  qed
  with caps have c: "caps AND d_host_caps s AND MMC_CAP mode \<noteq> 0" "caps AND d_host_caps s AND w \<noteq> 0"
    by auto
  have width: "w = MMC_MODE_4BIT \<and> d_bus_width t = 4 \<or> w = MMC_MODE_1BIT \<and> d_bus_width t = 1"
    using caps tried by (auto simp: bus_width_def MMC_MODE_4BIT_def MMC_MODE_1BIT_def MMC_MODE_8BIT_def)
  have clk: "d_selected_mode t = mode" "d_clock t = (if mode = SD_HS then max (cfg_f_min h) (min (cfg_f_max h) 50000000)
      else max (cfg_f_min h) (min (cfg_f_max h) 25000000))"
    using tried caps by (simp_all, elim conjE disjE) simp_all
  have lim: "cfg_f_min h \<le> d_clock t \<and> d_clock t \<le> cfg_f_max h"
    unfolding clk(2) using assms(2) by simp
  have ww: "d_bus_width t = 4 \<and> caps AND d_host_caps s AND MMC_MODE_4BIT \<noteq> 0 \<or>
      d_bus_width t = 1 \<and> caps AND d_host_caps s AND MMC_MODE_1BIT \<noteq> 0"
    using width c(2) by (elim disjE) simp_all
  show ?thesis
    using c(1) ww clk lim by (simp only: and.assoc) simp
qed

theorem sd_mode_supported_witness:
  "\<exists>s t. sd_select_mode_and_width sdhc_host 0x3000000A s = (0, t) \<and> d_selected_mode t = SD_HS \<and>
     (0x3000000A AND d_host_caps s) AND MMC_CAP SD_HS \<noteq> 0 \<and> d_clock t \<le> 52000000"
proof -
  obtain s :: "nat mdev" where s: "d_version s = 0x80030000" "d_host_caps s = 0x3000001F"
    using that [of "(the (mmc_create sdhc_host 0))\<lparr>d_version := 0x80030000, d_host_caps := 0x3000001F\<rparr>"] by simp
  note mode = sdhc_mode [OF s]
  have lim: "cfg_f_min sdhc_host \<le> cfg_f_max sdhc_host" "cfg_f_max sdhc_host = 52000000"
    by (simp_all add: sdhc_host_def)
  from sd_mode_supported [OF mode lim(1)] lim(2) mode show ?thesis
    by (intro exI [of _ s] exI conjI) auto
qed

end
