(* ===== verification/Sunxi_Mmc.thy ===== *)
theory Sunxi_Mmc
  imports Mmc_Ready Clock_Sun6i
begin

text \<open>
  The MMC controller, \<open>src/src/uboot/drivers/mmc/sunxi_mmc.c\<close>, for the A64 in the new timing mode: module
  clock, commands, transfers by the processor and by DMA, the controller as the \<open>host\<close> of
  \<open>mmc.c\<close>. Only reading is modelled, the program does not write to cards. Parameters: the device,
  the time as a function of the history in nanoseconds, the bytes that a DMA transfer brings, the
  address of the caller's buffer. Every wait is a \<open>partial_function\<close>.
\<close>

section \<open>Registers\<close>

definition mmc_base :: "nat \<Rightarrow> addr" where
  "mmc_base n = 0x01c0f000 + 0x1000 * of_nat n"

definition mclk_reg :: "nat \<Rightarrow> addr" where
  "mclk_reg n = 0x01c20088 + 4 * of_nat n"

abbreviation GCTRL :: "nat \<Rightarrow> addr" where "GCTRL n \<equiv> mmc_base n"
abbreviation CLKCR :: "nat \<Rightarrow> addr" where "CLKCR n \<equiv> mmc_base n + 0x04"
abbreviation WIDTH :: "nat \<Rightarrow> addr" where "WIDTH n \<equiv> mmc_base n + 0x0c"
abbreviation BLKSZ :: "nat \<Rightarrow> addr" where "BLKSZ n \<equiv> mmc_base n + 0x10"
abbreviation BYTECNT :: "nat \<Rightarrow> addr" where "BYTECNT n \<equiv> mmc_base n + 0x14"
abbreviation CMD :: "nat \<Rightarrow> addr" where "CMD n \<equiv> mmc_base n + 0x18"
abbreviation ARG :: "nat \<Rightarrow> addr" where "ARG n \<equiv> mmc_base n + 0x1c"
abbreviation RESP0 :: "nat \<Rightarrow> addr" where "RESP0 n \<equiv> mmc_base n + 0x20"
abbreviation RINT :: "nat \<Rightarrow> addr" where "RINT n \<equiv> mmc_base n + 0x38"
abbreviation STATUS :: "nat \<Rightarrow> addr" where "STATUS n \<equiv> mmc_base n + 0x3c"
abbreviation FTRGLEVEL :: "nat \<Rightarrow> addr" where "FTRGLEVEL n \<equiv> mmc_base n + 0x40"
abbreviation NTSR :: "nat \<Rightarrow> addr" where "NTSR n \<equiv> mmc_base n + 0x5c"
abbreviation DMAC :: "nat \<Rightarrow> addr" where "DMAC n \<equiv> mmc_base n + 0x80"
abbreviation DLBA :: "nat \<Rightarrow> addr" where "DLBA n \<equiv> mmc_base n + 0x84"
abbreviation IDST :: "nat \<Rightarrow> addr" where "IDST n \<equiv> mmc_base n + 0x88"
abbreviation IDIE :: "nat \<Rightarrow> addr" where "IDIE n \<equiv> mmc_base n + 0x8c"
abbreviation SAMP_DL :: "nat \<Rightarrow> addr" where "SAMP_DL n \<equiv> mmc_base n + 0x144"
abbreviation FIFO :: "nat \<Rightarrow> addr" where "FIFO n \<equiv> mmc_base n + 0x200"

definition GCTRL_RESET :: u32 where "GCTRL_RESET = 7"
definition RINT_ERROR :: u32 where "RINT_ERROR = 0xbfc2"
definition CMD_START :: u32 where "CMD_START = push_bit 31 1"
definition CMD_WAIT_PRE_OVER :: u32 where "CMD_WAIT_PRE_OVER = push_bit 13 1"

text \<open>The fields of \<open>sunxi_mmc_priv\<close> that stay, and the state.\<close>

record priv =
  mmc_no :: nat
  descs_at :: u64
  n_dma_descs :: u32

record idma_desc =
  de_config :: u32
  de_buf_size :: u32
  de_addr1 :: u32
  de_addr2 :: u32

record sunxi =
  s_hist :: history
  s_fatal :: bool
  s_descs :: "idma_desc list"
  s_flushed :: "(u64 \<times> u64) list"

definition on_regs :: "(history \<Rightarrow> history) \<Rightarrow> sunxi \<Rightarrow> sunxi" where
  "on_regs f s = s\<lparr>s_hist := f (s_hist s)\<rparr>"

definition timer_ms :: "(history \<Rightarrow> nat) \<Rightarrow> history \<Rightarrow> nat" where
  "timer_ms clk t = clk t div 1000000"

section \<open>The clock of the card\<close>

function halve :: "nat \<Rightarrow> u32 \<Rightarrow> nat \<times> u32" where
  "halve n dv = (if dv > 16 then halve (n + 1) ((dv + 1) div 2) else (n, dv))"
  by pat_completeness auto
termination
proof (relation "measure (\<lambda>(n, dv). unat dv)", simp)
  fix dv :: u32 and n :: nat
  assume "dv > 16"
  then have "16 < unat dv"
    by (simp add: word_less_nat_alt)
  moreover have "unat (dv + 1) \<le> unat dv + 1"
    by (simp add: unat_word_ariths)
  ultimately show "((n + 1, (dv + 1) div 2), (n, dv)) \<in> measure (\<lambda>(n, dv). unat dv)"
    by (simp add: unat_div)
qed

declare halve.simps [simp del]

text \<open>The least divisor that does not exceed the rate.\<close>

definition divisor :: "u32 \<Rightarrow> u32 \<Rightarrow> u32" where
  "divisor pll_hz hz = pll_hz div hz + (if pll_hz mod hz \<noteq> 0 then 1 else 0)"

definition mmc_set_mod_clk :: "device \<Rightarrow> nat \<Rightarrow> bool \<Rightarrow> u32 \<Rightarrow> history \<Rightarrow> int \<times> history" where
  "mmc_set_mod_clk d no is_ddr hz t =
     (let hz = hz * 2;
          hz = (if is_ddr then hz * 2 else hz);
          (pll, pll_hz, t) = (if hz \<le> 24000000 then (0, 24000000, t)
             else (let (pll6, t) = clock_get_pll6 d t in (push_bit 24 1, pll6 * 2, t)));
          (n, dv) = halve 0 (divisor pll_hz hz)
      in if n > 3 then (- 1, t)
         else
           (let t = setbits d (NTSR no) (push_bit 31 1) t;
                t = writel (push_bit 31 1 OR pll OR push_bit 16 (of_nat n) OR (dv - 1)) (mclk_reg no) t;
                (v, t) = readl d (CLKCR no) t
            in (0, writel ((v AND NOT 0xff) OR (if is_ddr then 1 else 0)) (CLKCR no) t)))"

text \<open>\<open>while (readl(a) & m) { if (get_timer(start) > limit) fail; }\<close>; whether the bits went away.\<close>

partial_function (option) wait_clear ::
    "device \<Rightarrow> (history \<Rightarrow> nat) \<Rightarrow> addr \<Rightarrow> u32 \<Rightarrow> nat \<Rightarrow> nat \<Rightarrow> history \<Rightarrow> (bool \<times> history) option" where
  "wait_clear d clk a m st0 limit t =
     (let (v, t) = readl d a t
      in if v AND m = 0 then Some (True, t)
         else if timer_ms clk t - st0 > limit then Some (False, t)
         else wait_clear d clk a m st0 limit t)"

declare wait_clear.simps [code]

definition mmc_update_clk :: "device \<Rightarrow> (history \<Rightarrow> nat) \<Rightarrow> nat \<Rightarrow> history \<Rightarrow> (bool \<times> history) option" where
  "mmc_update_clk d clk no t =
     (let st0 = timer_ms clk t; t = writel (CMD_START OR push_bit 21 1 OR CMD_WAIT_PRE_OVER) (CMD no) t
      in map_option (\<lambda>(ok, t). (ok, if ok then (let (v, t) = readl d (RINT no) t in writel v (RINT no) t) else t))
           (wait_clear d clk (CMD no) CMD_START st0 2000 t))"

definition mmc_config_clock ::
    "device \<Rightarrow> (history \<Rightarrow> nat) \<Rightarrow> nat \<Rightarrow> bool \<Rightarrow> u32 \<Rightarrow> history \<Rightarrow> (bool \<times> history) option" where
  "mmc_config_clock d clk no is_ddr clock t =
     (let t = exec d [Clrbits (CLKCR no) (push_bit 16 1), Setbits (CLKCR no) (push_bit 31 1)] t
      in Option.bind (mmc_update_clk d clk no t) (\<lambda>(ok, t).
           if \<not> ok then Some (False, t)
           else
             (let (ret, t) = mmc_set_mod_clk d no is_ddr clock t
              in if ret \<noteq> 0 then Some (False, t)
                 else mmc_update_clk d clk no
                   (exec d [Writel 0x80 (SAMP_DL no), Setbits (CLKCR no) (push_bit 16 1),
                      Clrbits (CLKCR no) (push_bit 31 1)] t))))"

definition sunxi_mmc_set_ios ::
    "device \<Rightarrow> (history \<Rightarrow> nat) \<Rightarrow> priv \<Rightarrow> ios \<Rightarrow> sunxi \<Rightarrow> (int \<times> sunxi) option" where
  "sunxi_mmc_set_ios d clk p io s =
     Option.bind
       (if io_clock io \<noteq> 0 then mmc_config_clock d clk (mmc_no p) (io_ddr io) (io_clock io) (s_hist s)
        else Some (True, s_hist s))
       (\<lambda>(ok, t).
         let no = mmc_no p; s = s\<lparr>s_hist := t\<rparr>
         in Some (if \<not> ok then (- EINVAL, s\<lparr>s_fatal := True\<rparr>)
            else (0, on_regs (exec d
              [if io_ddr io then Setbits (GCTRL no) (push_bit 10 1) else Clrbits (GCTRL no) (push_bit 10 1),
               Writel (if io_bus_width io = 8 then 2 else if io_bus_width io = 4 then 1 else 0) (WIDTH no)]) s)))"

definition sunxi_mmc_core_init :: "priv \<Rightarrow> sunxi \<Rightarrow> int \<times> sunxi" where
  "sunxi_mmc_core_init p s = (0, on_regs (\<lambda>t. udelay 1000 (writel GCTRL_RESET (GCTRL (mmc_no p)) t)) s)"

section \<open>Transfers\<close>

definition word_bytes :: "u32 \<Rightarrow> u8 list" where
  "word_bytes w = [ucast w, ucast (drop_bit 8 w), ucast (drop_bit 16 w), ucast (drop_bit 24 w)]"

fun pio_words ::
    "device \<Rightarrow> (history \<Rightarrow> nat) \<Rightarrow> nat \<Rightarrow> nat \<Rightarrow> nat \<Rightarrow> nat \<Rightarrow> history \<Rightarrow> (int \<times> u32 list \<times> history) option" where
  "pio_words d clk no st0 limit 0 t = Some (0, [], t)"
| "pio_words d clk no st0 limit (Suc k) t =
     Option.bind (wait_clear d clk (STATUS no) (push_bit 2 1) st0 limit t) (\<lambda>(ok, t).
       if \<not> ok then Some (- ETIMEDOUT, [], t)
       else
         (let (w, t) = readl d (FIFO no) t
          in map_option (\<lambda>(err, ws, t). (err, w # ws, t)) (pio_words d clk no st0 limit k t)))"

definition mmc_trans_data_by_cpu ::
    "device \<Rightarrow> (history \<Rightarrow> nat) \<Rightarrow> nat \<Rightarrow> u32 \<Rightarrow> history \<Rightarrow> (int \<times> u8 list \<times> history) option" where
  "mmc_trans_data_by_cpu d clk no byte_cnt t =
     (let limit = max (unat (drop_bit 8 byte_cnt)) 2000; t = setbits d (GCTRL no) (push_bit 31 1) t
      in map_option (\<lambda>(err, ws, t). (err, concat (map word_bytes ws), t))
           (pio_words d clk no (timer_ms clk t) limit (unat (drop_bit 2 byte_cnt)) t))"

text \<open>\<open>flush_cache_auto_align\<close>: the start and the length that are flushed.\<close>

definition flush_range :: "u64 \<Rightarrow> u64 \<Rightarrow> u64 \<times> u64" where
  "flush_range buf len = (buf AND NOT 63, (len + 128) AND NOT 63)"

definition DMA_BUF_MAX_SIZE :: u32 where "DMA_BUF_MAX_SIZE = push_bit 13 1"

definition n_desc :: "u32 \<Rightarrow> u32" where
  "n_desc byte_cnt = byte_cnt div DMA_BUF_MAX_SIZE + (if byte_cnt mod DMA_BUF_MAX_SIZE \<noteq> 0 then 1 else 0)"

definition dma_desc :: "u64 \<Rightarrow> u64 \<Rightarrow> u32 \<Rightarrow> nat \<Rightarrow> idma_desc" where
  "dma_desc at buf byte_cnt i =
     (let is_last = (i = unat (n_desc byte_cnt) - 1); is_first = (i = 0); rest = byte_cnt mod DMA_BUF_MAX_SIZE
      in \<lparr>de_config = push_bit 4 1 OR push_bit 31 1 OR (if is_last then push_bit 2 1 else push_bit 1 1) OR
             (if is_first then push_bit 3 1 else 0),
          de_buf_size = (if is_last \<and> rest \<noteq> 0 then rest else DMA_BUF_MAX_SIZE),
          de_addr1 = ucast (buf + of_nat i * ucast DMA_BUF_MAX_SIZE),
          de_addr2 = (if is_last then 0 else ucast (at + of_nat (i + 1) * 16))\<rparr>)"

definition dma_descs :: "u64 \<Rightarrow> u64 \<Rightarrow> u32 \<Rightarrow> idma_desc list" where
  "dma_descs at buf byte_cnt = map (dma_desc at buf byte_cnt) [0..<unat (n_desc byte_cnt)]"

definition mmc_trans_data_by_dma ::
    "device \<Rightarrow> priv \<Rightarrow> u64 \<Rightarrow> u32 \<Rightarrow> sunxi \<Rightarrow> (int \<times> sunxi) option" where
  "mmc_trans_data_by_dma d p buf byte_cnt s =
     (let no = mmc_no p; s = on_regs (clrbits d (GCTRL no) (push_bit 31 1)) s
      in if n_desc byte_cnt > n_dma_descs p then Some (- 12, s)
         else
           (let ds = dma_descs (descs_at p) buf byte_cnt;
                s = s\<lparr>s_descs := ds,
                      s_flushed := s_flushed s @ [flush_range buf (ucast byte_cnt),
                        flush_range (descs_at p) (16 * ucast (n_desc byte_cnt))]\<rparr>;
                s = on_regs (exec d [Setbits (GCTRL no) (push_bit 2 1 OR push_bit 5 1), Writel 1 (DMAC no)]) s
            in map_option (\<lambda>t.
                 let t = writel (push_bit 7 1 OR push_bit 1 1) (DMAC no) t;
                     (rval, t) = readl d (IDIE no) t
                 in (0, s\<lparr>s_hist := exec d
                      [Writel ((rval AND NOT (push_bit 1 1 OR push_bit 0 1)) OR push_bit 1 1) (IDIE no),
                       Writel (ucast (descs_at p)) (DLBA no),
                       Writel (if no = 2 then push_bit 28 3 OR push_bit 16 15 OR 240
                               else push_bit 28 2 OR push_bit 16 7 OR 248) (FTRGLEVEL no),
                       Writel 0xffffffff (IDST no)] t\<rparr>))
                 (spin_clear d (DMAC no) 1 (s_hist s))))"

section \<open>Commands\<close>

partial_function (option) mmc_rint_wait ::
    "device \<Rightarrow> (history \<Rightarrow> nat) \<Rightarrow> nat \<Rightarrow> nat \<Rightarrow> nat \<Rightarrow> u32 \<Rightarrow> bool \<Rightarrow> history \<Rightarrow> (int \<times> history) option" where
  "mmc_rint_wait d clk no st0 limit done_bit wait_dma t =
     (let (status, t) = readl d (RINT no) t
      in if timer_ms clk t - st0 > limit \<or> status AND RINT_ERROR \<noteq> 0 then Some (- ETIMEDOUT, t)
         else
           (let (dma_done, t) = (if wait_dma then (let (v, t) = readl d (IDST no) t in (v AND 3 \<noteq> 0, t)) else (True, t))
            in if status AND done_bit \<noteq> 0 \<and> dma_done then Some (0, t)
               else mmc_rint_wait d clk no st0 limit done_bit wait_dma t))"

declare mmc_rint_wait.simps [code]

text \<open>The wait for a card that signals busy, \<open>timeout_msecs\<close> is 2000.\<close>

partial_function (option) busy_wait ::
    "device \<Rightarrow> (history \<Rightarrow> nat) \<Rightarrow> nat \<Rightarrow> nat \<Rightarrow> history \<Rightarrow> (int \<times> history) option" where
  "busy_wait d clk no st0 t =
     (let (status, t) = readl d (STATUS no) t
      in if timer_ms clk t - st0 > 2000 then Some (- ETIMEDOUT, t)
         else if status AND push_bit 9 1 \<noteq> 0 then busy_wait d clk no st0 t
         else Some (0, t))"

declare busy_wait.simps [code]

definition cmd_value :: "command \<Rightarrow> (u32 \<times> u32) option \<Rightarrow> u32" where
  "cmd_value cmd data =
     CMD_START OR (if c_idx cmd = 0 then push_bit 15 1 else 0) OR (if c_resp cmd AND 1 \<noteq> 0 then push_bit 6 1 else 0) OR
     (if c_resp cmd AND 2 \<noteq> 0 then push_bit 7 1 else 0) OR (if c_resp cmd AND 4 \<noteq> 0 then push_bit 8 1 else 0) OR
     (case data of None \<Rightarrow> 0
      | Some (blocks, _) \<Rightarrow> push_bit 9 1 OR CMD_WAIT_PRE_OVER OR (if blocks > 1 then push_bit 12 1 else 0))"

text \<open>
  Starting the command and moving its data: the error, the bytes that the processor read, whether
  DMA is in use. After a failed set-up of the DMA the command is started all the same.
\<close>

definition start_cmd ::
    "device \<Rightarrow> (history \<Rightarrow> nat) \<Rightarrow> priv \<Rightarrow> u64 \<Rightarrow> command \<Rightarrow> (u32 \<times> u32) option \<Rightarrow> sunxi \<Rightarrow>
     (int \<times> u8 list \<times> bool \<times> sunxi) option" where
  "start_cmd d clk p buf cmd data s =
     (let no = mmc_no p; value = cmd_value cmd data OR c_idx cmd
      in (case data of
            None \<Rightarrow> Some (0, [], False, on_regs (exec d [Writel (c_arg cmd) (ARG no), Writel value (CMD no)]) s)
          | Some (blocks, blocksize) \<Rightarrow>
              (let s = on_regs (exec d [Writel blocksize (BLKSZ no), Writel (blocks * blocksize) (BYTECNT no),
                         Writel (c_arg cmd) (ARG no)]) s;
                   bytecnt = blocksize * blocks
               in if bytecnt > 64 \<and> buf \<ge> 0x4000000
                  then map_option (\<lambda>(err, s). (err, [], True, on_regs (writel value (CMD no)) s))
                         (mmc_trans_data_by_dma d p buf bytecnt s)
                  else map_option (\<lambda>(err, bs, t). (err, bs, False, s\<lparr>s_hist := t\<rparr>))
                         (mmc_trans_data_by_cpu d clk no bytecnt (writel value (CMD no) (s_hist s))))))"

text \<open>Waiting for the end of the command, of the data, of the busy state; each failure ends it.\<close>

definition finish_cmd ::
    "device \<Rightarrow> (history \<Rightarrow> nat) \<Rightarrow> nat \<Rightarrow> command \<Rightarrow> (u32 \<times> u32) option \<Rightarrow> bool \<Rightarrow> history \<Rightarrow>
     (int \<times> history) option" where
  "finish_cmd d clk no cmd data usedma t =
     andthenO (mmc_rint_wait d clk no (timer_ms clk t) 1000 (push_bit 2 1) False t) (\<lambda>t.
     andthenO (case data of
                 None \<Rightarrow> Some (0, t)
               | Some (blocks, _) \<Rightarrow>
                   mmc_rint_wait d clk no (timer_ms clk t) 10000
                     (if blocks > 1 then push_bit 14 1 else push_bit 3 1) usedma t) (\<lambda>t.
     if c_resp cmd AND 8 \<noteq> 0 then busy_wait d clk no (timer_ms clk t) t else Some (0, t)))"

definition read_response :: "device \<Rightarrow> nat \<Rightarrow> command \<Rightarrow> history \<Rightarrow> u32 list \<times> history" where
  "read_response d no cmd t =
     (let r = RESP0 no
      in if c_resp cmd AND 2 \<noteq> 0
         then (let (r0, t) = readl d (r + 12) t; (r1, t) = readl d (r + 8) t; (r2, t) = readl d (r + 4) t;
                   (r3, t) = readl d r t
               in ([r0, r1, r2, r3], t))
         else (let (r0, t) = readl d r t in ([r0], t)))"

text \<open>The code behind the label \<open>out\<close>.\<close>

definition end_cmd :: "device \<Rightarrow> (history \<Rightarrow> nat) \<Rightarrow> nat \<Rightarrow> bool \<Rightarrow> int \<Rightarrow> history \<Rightarrow> history option" where
  "end_cmd d clk no usedma err t =
     (let t = (if usedma then exec d [Writel 0 (IDIE no), Writel 0xffffffff (IDST no), Writel 0 (DMAC no),
                                      Clrbits (GCTRL no) (push_bit 5 1)] t else t)
      in map_option (exec d [Writel 0xffffffff (RINT no), Setbits (GCTRL no) (push_bit 1 1)])
           (if err < 0 then map_option snd (mmc_update_clk d clk no (writel GCTRL_RESET (GCTRL no) t)) else Some t))"

text \<open>
  What follows a command that was started: the waits, unless it failed, the response, the end. The
  bytes of a DMA transfer are those that the controller wrote, a function of the history.
\<close>

definition complete_cmd ::
    "device \<Rightarrow> (history \<Rightarrow> nat) \<Rightarrow> (history \<Rightarrow> nat \<Rightarrow> u8 list) \<Rightarrow> nat \<Rightarrow> command \<Rightarrow> (u32 \<times> u32) option \<Rightarrow>
     int \<times> u8 list \<times> bool \<times> sunxi \<Rightarrow> (int \<times> u32 list \<times> u8 list \<times> sunxi) option" where
  "complete_cmd d clk dma no cmd data r =
     (let (err, bs, usedma, s) = r
      in Option.bind (if err \<noteq> 0 then Some (err, s_hist s) else finish_cmd d clk no cmd data usedma (s_hist s)) (\<lambda>(err, t).
           let bs = (case data of
                       Some (blocks, blocksize) \<Rightarrow> if usedma then dma t (unat (blocks * blocksize)) else bs
                     | None \<Rightarrow> []);
               (r, t) = (if err = 0 then read_response d no cmd t else ([], t))
           in map_option (\<lambda>t. (err, r, bs, s\<lparr>s_hist := t\<rparr>)) (end_cmd d clk no usedma err t)))"

text \<open>
  \<open>sunxi_mmc_send_cmd_common\<close>. Without an answer the response is the empty list: the code leaves it
  as it was.
\<close>

definition sunxi_mmc_send_cmd ::
    "device \<Rightarrow> (history \<Rightarrow> nat) \<Rightarrow> (history \<Rightarrow> nat \<Rightarrow> u8 list) \<Rightarrow> priv \<Rightarrow> (command \<Rightarrow> u64) \<Rightarrow>
     sunxi \<Rightarrow> command \<Rightarrow> (u32 \<times> u32) option \<Rightarrow> (int \<times> u32 list \<times> u8 list \<times> sunxi) option" where
  "sunxi_mmc_send_cmd d clk dma p buf s cmd data =
     (if s_fatal s then Some (- 1, [], [], s)
      else if c_idx cmd = 12 then Some (0, [], [], s)
      else if data \<noteq> None \<and> buf cmd AND 3 \<noteq> 0
      then map_option (\<lambda>t. (- 1, [], [], s\<lparr>s_hist := t\<rparr>)) (end_cmd d clk (mmc_no p) False (- 1) (s_hist s))
      else Option.bind (start_cmd d clk p (buf cmd) cmd data s) (complete_cmd d clk dma (mmc_no p) cmd data))"

section \<open>The controller as a host\<close>

definition host_caps :: "nat \<Rightarrow> u32" where
  "host_caps no =
     (if no = 2 then MMC_MODE_8BIT else MMC_MODE_4BIT) OR (MMC_CAP MMC_HS_52 OR MMC_MODE_HS) OR
     (if no = 2 then MMC_CAP MMC_DDR_52 else 0)"

definition sunxi_host ::
    "device \<Rightarrow> (history \<Rightarrow> nat) \<Rightarrow> (history \<Rightarrow> nat \<Rightarrow> u8 list) \<Rightarrow> priv \<Rightarrow> (command \<Rightarrow> u64) \<Rightarrow> sunxi host" where
  "sunxi_host d clk dma p buf =
     \<lparr>h_send_cmd = (\<lambda>s cmd data. the (sunxi_mmc_send_cmd d clk dma p buf s cmd data)),
      h_set_ios = (\<lambda>io s. the (sunxi_mmc_set_ios d clk p io s)),
      h_init = sunxi_mmc_core_init p,
      h_getcd = (\<lambda>s. (1, s)),
      h_power_cycle = None,
      h_udelay = (\<lambda>n. on_regs (udelay n)),
      h_now = (\<lambda>s. timer_ms clk (s_hist s)),
      cfg_host_caps = host_caps (mmc_no p),
      cfg_voltages = 0x00300000, cfg_f_min = 400000, cfg_f_max = 52000000, cfg_b_max = 65535\<rparr>"

text \<open>
  \<open>sunxi_mmc_init\<close>, with \<open>mmc_resource_init\<close>: gate and reset of the controller, a first clock;
  \<open>None\<close> is \<open>NULL\<close>. The descriptors are at the address that \<open>malloc\<close> gave.
\<close>

definition sunxi_mmc_init :: "device \<Rightarrow> nat \<Rightarrow> u64 \<Rightarrow> history \<Rightarrow> priv option \<times> history" where
  "sunxi_mmc_init d sdc_no at t =
     (if sdc_no > 3 then (None, t)
      else
        (let t = exec d [Setbits 0x01c20060 (push_bit (8 + sdc_no) 1), Setbits 0x01c202c0 (push_bit (8 + sdc_no) 1)] t;
             (ret, t) = mmc_set_mod_clk d sdc_no False 24000000 t
         in if ret \<noteq> 0 then (None, t) else (Some \<lparr>mmc_no = sdc_no, descs_at = at, n_dma_descs = 4096\<rparr>, t)))"

end
