(* ===== verification/Sunxi_Rate.thy ===== *)
theory Sunxi_Rate
  imports Sunxi_Mmc
begin

text \<open>
  The arithmetic of \<open>src/src/uboot/drivers/mmc/sunxi_mmc.c\<close>: the divider of the module clock keeps the
  card at or below the rate that was asked for, the DMA descriptors cover the buffer.
\<close>

section \<open>The clock divider\<close>

lemma halve_bound:
  "unat dv \<le> 4294967294 \<Longrightarrow> halve n dv = (n', dv') \<Longrightarrow>
   unat dv * 2 ^ n \<le> unat dv' * 2 ^ n' \<and> unat dv' \<le> 16 \<and> (0 < unat dv \<longrightarrow> 0 < unat dv')"
proof (induction n dv rule: halve.induct)
  case (1 n dv)
  show ?case
  proof (cases "dv > 16")
    case True
    have u: "unat ((dv + 1) div 2) = (unat dv + 1) div 2"
      using "1.prems"(1) by (simp add: unat_div unat_word_ariths)
    have "halve (n + 1) ((dv + 1) div 2) = (n', dv')"
      using "1.prems"(2) True by (subst (asm) halve.simps) simp
    then have IH: "(unat dv + 1) div 2 * 2 ^ (n + 1) \<le> unat dv' * 2 ^ n' \<and> unat dv' \<le> 16 \<and>
        (0 < (unat dv + 1) div 2 \<longrightarrow> 0 < unat dv')"
      using "1.IH" [OF True] "1.prems"(1) u by simp
    have "unat dv \<le> (unat dv + 1) div 2 * 2"
      by linarith
    then have "unat dv * 2 ^ n \<le> (unat dv + 1) div 2 * 2 * 2 ^ n"
      by (rule mult_right_mono) simp
    also have "\<dots> = (unat dv + 1) div 2 * 2 ^ (n + 1)"
      by simp
    finally show ?thesis
      using IH by linarith
  next
    case False
    then have "halve n dv = (n, dv)"
      by (subst halve.simps) simp
    with False "1.prems"(2) show ?thesis
      by (simp add: word_less_nat_alt not_less)
  qed
qed

lemma divisor_bound:
  assumes "1 < hz" "0 < pll"
  shows "unat pll \<le> unat (divisor pll hz) * unat hz" "unat (divisor pll hz) \<le> 4294967294" "0 < unat (divisor pll hz)"
    "unat (divisor pll hz) \<le> unat pll div unat hz + 1"
proof -
  have h: "2 \<le> unat hz"
    using assms(1) by (simp add: word_less_nat_alt)
  have p: "unat pll < 2 ^ 32" "0 < unat pll"
    using unsigned_less [of pll] assms(2) by (simp_all add: word_less_nat_alt)
  have "unat pll div unat hz \<le> unat pll div 2"
    using h by (rule div_le_mono2 [rotated]) simp
  then have d: "unat pll div unat hz < 2 ^ 31"
    using p by auto
  have m: "pll mod hz = 0 \<longleftrightarrow> unat pll mod unat hz = 0"
    by (simp add: word_unat_eq_iff unat_mod)
  have u: "unat (divisor pll hz) = unat pll div unat hz + (if unat pll mod unat hz \<noteq> 0 then 1 else 0)"
    using d by (simp add: divisor_def m unat_div unat_word_ariths)
  show "unat (divisor pll hz) \<le> 4294967294" "unat (divisor pll hz) \<le> unat pll div unat hz + 1"
    using u d by auto
  define q where "q = unat pll div unat hz"
  define r where "r = unat pll mod unat hz"
  have e: "unat pll = q * unat hz + r" and r: "r < unat hz"
    using h by (simp_all add: q_def r_def)
  have "(q + 1) * unat hz = q * unat hz + unat hz"
    by simp
  then show a: "unat pll \<le> unat (divisor pll hz) * unat hz"
    using e r unfolding u by (cases "r = 0") (simp_all flip: q_def r_def)
  show "0 < unat (divisor pll hz)"
    using a p(2) by (cases "unat (divisor pll hz)") auto
qed

lemma halve_steps: "unat dv \<le> 16 * 2 ^ k \<Longrightarrow> k < 27 \<Longrightarrow> fst (halve n dv) \<le> n + k"
proof (induction k arbitrary: n dv)
  case 0
  then show ?case
    by (subst halve.simps) (simp add: word_less_nat_alt)
next
  case (Suc k)
  have "16 * 2 ^ Suc k \<le> 16 * (2 :: nat) ^ 27"
    using Suc.prems(2) by (intro mult_left_mono power_increasing) auto
  then have "unat ((dv + 1) div 2) = (unat dv + 1) div 2"
    using Suc.prems(1) by (simp add: unat_div unat_word_ariths)
  then have "unat ((dv + 1) div 2) \<le> 16 * 2 ^ k"
    using Suc.prems(1) by simp
  then have "fst (halve (n + 1) ((dv + 1) div 2)) \<le> (n + 1) + k"
    using Suc.prems(2) by (intro Suc.IH) auto
  then show ?case
    by (subst halve.simps) simp
qed

lemma twice_half: "even (uint p) \<Longrightarrow> word_of_int (sint p sdiv 2) * 2 = p" for p :: u32
proof -
  assume "even (uint p)"
  then have "even (sint p)"
    by (simp add: sint_uint even_signed_take_bit_iff)
  then have "sint p sdiv 2 * 2 = sint p"
    by (auto simp: signed_divide_int_def abs_mult sgn_mult sgn_mult_abs elim!: evenE)
  then have "word_of_int (sint p sdiv 2 * 2) = p"
    by simp
  then show ?thesis by simp
qed

text \<open>Twice the value is the rate of the PLL, also where the product has wrapped around.\<close>

lemma pll6_range:
  "clock_get_pll6 d t = (v, t') \<Longrightarrow>
     0 < v * 2 \<and> unat (v * 2) \<le> 3072000000 \<and> t' = Rd 0x01c20028 (d t 0x01c20028) # t"
proof -
  define n where "n = (drop_bit 8 (d t 0x01c20028) AND 0x1f) + 1"
  define k where "k = (drop_bit 4 (d t 0x01c20028) AND 3) + 1"
  assume "clock_get_pll6 d t = (v, t')"
  then have v: "v = word_of_int (sint (24000000 * n * k) sdiv 2)" and t': "t' = Rd 0x01c20028 (d t 0x01c20028) # t"
    by (simp_all add: clock_get_pll6_def readl_def Let_def n_def k_def)
  have "drop_bit 8 (d t 0x01c20028) AND 0x1f \<le> 0x1f" "drop_bit 4 (d t 0x01c20028) AND 3 \<le> 3"
    by (simp_all add: word_and_le1)
  then have n: "1 \<le> unat n" "unat n \<le> 32" and k: "1 \<le> unat k" "unat k \<le> 4"
    by (simp_all add: n_def k_def word_le_nat_alt unat_word_ariths)
  have most: "24000000 * unat n * unat k \<le> 24000000 * 32 * 4"
    using n k by (intro mult_mono) auto
  moreover have "24000000 * unat n \<le> 24000000 * 32"
    using n by simp
  ultimately have u: "unat (24000000 * n * k) = 24000000 * unat n * unat k"
    by (simp add: unat_word_ariths)
  have "even (unat (24000000 * n * k))" unfolding u by simp
  then have "even (uint (24000000 * n * k))" by (simp only: uint_nat even_of_nat)
  then have v2: "v * 2 = 24000000 * n * k"
    unfolding v by (rule twice_half)
  have "1 * 1 \<le> unat n * unat k"
    using n k by (intro mult_mono) auto
  then have "0 < unat (v * 2)" "unat (v * 2) \<le> 3072000000"
    unfolding v2 u using most by simp_all
  with t' show ?thesis
    by (simp add: word_less_nat_alt)
qed

text \<open>
  What the value of a clock register means: the source, a power of two and a divider; the new timing
  mode halves it, the internal divider of the double data rate mode halves it again.
\<close>

definition card_rate :: "u32 \<Rightarrow> u32 \<Rightarrow> bool \<Rightarrow> nat" where
  "card_rate pll v is_ddr =
     (if bit v 24 then unat pll else 24000000) div 2 ^ unat (drop_bit 16 v AND 3) div (unat (v AND 0xf) + 1) div 2 div
     (if is_ddr then 2 else 1)"

lemma mclk_fields:
  fixes m :: u32
  assumes "n \<le> 3" "1 \<le> unat m" "unat m \<le> 16" "pll = (if b then push_bit 24 1 else 0)"
  defines "v \<equiv> push_bit 31 1 OR pll OR push_bit 16 (of_nat n) OR (m - 1)"
  shows "bit v 31" "bit v 24 = b" "unat (drop_bit 16 v AND 3) = n" "unat (v AND 0xf) + 1 = unat m"
proof -
  have m1: "unat (m - 1) = unat m - 1"
    using assms(2) by (simp add: unat_sub word_le_nat_alt)
  then have low: "m - 1 = take_bit 4 (m - 1)"
    using assms(3) by (simp add: word_unat_eq_iff unsigned_take_bit_eq take_bit_nat_eq_self)
  have x15: "(m - 1) AND 0xf = m - 1"
    by (subst (2) low) (simp add: take_bit_eq_mask mask_eq_exp_minus_1)
  have x16: "drop_bit k (m - 1) = 0" if "4 \<le> k" for k
    by (subst low) (use that in \<open>simp add: drop_bit_take_bit\<close>)
  have xb: "\<not> bit (m - 1) k" if "4 \<le> k" for k
    by (subst low) (use that in \<open>simp add: bit_take_bit_iff\<close>)
  define c where "c = push_bit 31 1 OR pll OR push_bit 16 (of_nat n :: u32)"
  have v: "v = c OR (m - 1)"
    by (simp add: v_def c_def or.assoc)
  have "n \<in> {0, 1, 2, 3}"
    using assms(1) by auto
  then have c: "c AND 0xf = 0" "unat (drop_bit 16 c AND 3) = n" "bit c 31" "bit c 24 = b"
    using assms(4) by (auto simp: c_def)
  show "bit v 31" "bit v 24 = b"
    using c xb by (simp_all add: v bit_or_iff)
  have "v AND 0xf = m - 1"
    using c(1) x15 by (simp add: v bit.conj_disj_distrib2)
  then show "unat (v AND 0xf) + 1 = unat m"
    using m1 assms(2) by simp
  show "unat (drop_bit 16 v AND 3) = n"
    using c(2) x16 by (simp add: v drop_bit_or)
qed

lemma div_bound: "s \<le> m * 2 ^ n * r \<Longrightarrow> 0 < m \<Longrightarrow> s div 2 ^ n div m \<le> r" for s m r :: nat
proof -
  assume "s \<le> m * 2 ^ n * r" "0 < m"
  then have "s div (2 ^ n * m) \<le> (m * 2 ^ n * r) div (2 ^ n * m)"
    by (intro div_le_mono) simp
  also have "\<dots> = r"
    using \<open>0 < m\<close> by (simp add: mult.commute [of m])
  finally show ?thesis
    by (simp add: div_mult2_eq)
qed

text \<open>The divider that is chosen fits the fields of the register.\<close>

lemma divider_fits:
  assumes "800000 \<le> unat h" "0 < src" "unat src \<le> 3072000000" "h \<le> 24000000 \<Longrightarrow> src = 24000000"
    "halve 0 (divisor src h) = (n, m)"
  shows "n \<le> 3" "unat m \<le> 16" "0 < unat m" "unat src div 2 ^ n div unat m \<le> unat h"
proof -
  have h1: "1 < h"
    using assms(1) by (simp add: word_less_nat_alt)
  note dv = divisor_bound [OF h1 assms(2)]
  have "unat src div unat h \<le> 127"
  proof (cases "h \<le> 24000000")
    case True
    have "24000000 div unat h \<le> 24000000 div 800000"
      using assms(1) by (intro div_le_mono2) auto
    then show ?thesis
      using True assms(4) by simp
  next
    case False
    then have "24000001 \<le> unat h"
      by (simp add: word_le_nat_alt not_le word_less_nat_alt)
    then have "unat src div unat h \<le> unat src div 24000001"
      by (intro div_le_mono2) auto
    also have "\<dots> \<le> 3072000000 div 24000001"
      using assms(3) by (rule div_le_mono)
    finally show ?thesis by simp
  qed
  with dv(4) have "unat (divisor src h) \<le> 128"
    by linarith
  then show "n \<le> 3"
    using halve_steps [of "divisor src h" 3 0] assms(5) by simp
  have m: "unat (divisor src h) \<le> unat m * 2 ^ n" "unat m \<le> 16" "0 < unat m"
    using halve_bound [OF dv(2) assms(5)] dv(3) by auto
  have "unat src \<le> unat (divisor src h) * unat h"
    by (rule dv(1))
  also have "\<dots> \<le> unat m * 2 ^ n * unat h"
    using m(1) by simp
  finally show "unat src div 2 ^ n div unat m \<le> unat h"
    using m(3) by (rule div_bound)
  show "unat m \<le> 16" "0 < unat m"
    using m by simp_all
qed

text \<open>
  C35: every clock that \<open>mmc.c\<close> may ask for can be set, and what is then in the clock register, under
  either source and whatever the PLL runs at, makes the card run at that rate or slower. The divider
  of the double data rate mode and the new timing mode, which the rate relies on, are set too.
\<close>

theorem mod_clk_rate:
  assumes "400000 \<le> hz" "hz \<le> 52000000"
  shows "\<exists>t' u v w. mmc_set_mod_clk d no is_ddr hz t = (0, t') \<and>
    writes t' = (CLKCR no, w) # (mclk_reg no, v) # (NTSR no, u) # writes t \<and>
    bit u 31 \<and> bit v 31 \<and> w AND 0xff = (if is_ddr then 1 else 0) \<and>
    card_rate (fst (clock_get_pll6 d t) * 2) v is_ddr \<le> unat hz"
proof -
  define h where "h = (if is_ddr then hz * 2 * 2 else hz * 2)"
  have hz: "400000 \<le> unat hz" "unat hz \<le> 52000000"
    using assms by (simp_all add: word_le_nat_alt)
  then have h: "unat h = (if is_ddr then 4 * unat hz else 2 * unat hz)"
    by (simp add: h_def unat_word_ariths)
  obtain pll6 t1 where p: "clock_get_pll6 d t = (pll6, t1)"
    by (cases "clock_get_pll6 d t")
  note range = pll6_range [OF p]
  define src where "src = (if h \<le> 24000000 then 24000000 else pll6 * 2)"
  define t2 where "t2 = (if h \<le> 24000000 then t else t1)"
  obtain n m where nm: "halve 0 (divisor src h) = (n, m)"
    by (cases "halve 0 (divisor src h)")
  have src: "0 < src" "unat src \<le> 3072000000"
    using range by (auto simp: src_def word_less_nat_alt)
  have h8: "800000 \<le> unat h"
    using h hz by simp
  note fits = divider_fits [OF h8 src _ nm]
  have n: "n \<le> 3" and m: "unat m \<le> 16" "0 < unat m" and rate: "unat src div 2 ^ n div unat m \<le> unat h"
    by (rule fits, simp add: src_def)+
  define sel where "sel = (if \<not> h \<le> 24000000 then push_bit 24 1 else (0 :: u32))"
  define v where "v = push_bit 31 1 OR sel OR push_bit 16 (of_nat n) OR (m - 1)"
  have f: "bit v 31" "bit v 24 \<longleftrightarrow> \<not> h \<le> 24000000" "unat (drop_bit 16 v AND 3) = n" "unat (v AND 0xf) + 1 = unat m"
    using mclk_fields [OF n _ m(1) sel_def, folded v_def] m(2) by auto
  define u where "u = d t2 (NTSR no) OR push_bit 31 1"
  define t3 where "t3 = Wr (mclk_reg no) v # Wr (NTSR no) u # Rd (NTSR no) (d t2 (NTSR no)) # t2"
  define w where "w = (d t3 (CLKCR no) AND NOT 0xff) OR (if is_ddr then 1 else 0)"
  have wr: "writes t2 = writes t"
    using range by (simp add: t2_def)
  have "card_rate (pll6 * 2) v is_ddr = unat src div 2 ^ n div unat m div 2 div (if is_ddr then 2 else 1)"
    unfolding card_rate_def f(3,4) by (simp add: f(2) src_def)
  also have "\<dots> \<le> unat hz"
    using rate h by (cases is_ddr) auto
  finally have r: "card_rate (pll6 * 2) v is_ddr \<le> unat hz" .
  have "mmc_set_mod_clk d no is_ddr hz t = (0, Wr (CLKCR no) w # Rd (CLKCR no) (d t3 (CLKCR no)) # t3)"
    using n p nm by (auto simp: mmc_set_mod_clk_def h_def [symmetric] Let_def src_def t2_def sel_def v_def u_def w_def t3_def
        readl_def writel_def setbits_def split: if_splits)
  moreover have "w AND 0xff = (if is_ddr then 1 else 0)"
    by (auto simp: w_def bit.conj_disj_distrib2 and.assoc)
  moreover have "bit u 31"
    by (simp add: u_def bit_or_iff bit_push_bit_iff)
  ultimately show ?thesis
    using wr r f(1) p by (auto simp: t3_def)
qed
theorem mod_clk_rate_witness:
  "\<exists>t' u v w. mmc_set_mod_clk (\<lambda>t a. 0x1811) 2 True 52000000 [] = (0, t') \<and>
    writes t' = [(CLKCR 2, w), (mclk_reg 2, v), (NTSR 2, u)] \<and>
    card_rate (fst (clock_get_pll6 (\<lambda>t a. 0x1811) []) * 2) v True \<le> 52000000"
  using mod_clk_rate [of 52000000 "\<lambda>t a. 0x1811" 2 True "[]"] by auto

section \<open>Descriptors\<close>

text \<open>The addresses that a descriptor moves data to, and its flags.\<close>

definition desc_area :: "idma_desc \<Rightarrow> nat list" where
  "desc_area e = [unat (de_addr1 e)..<unat (de_addr1 e) + unat (de_buf_size e)]"

lemma concat_blocks: "concat (map (\<lambda>i. [b + i * k..<b + i * k + k]) [0..<n]) = [b..<b + n * k]" for b k n :: nat
proof (induction n)
  case (Suc n)
  have "[b..<b + n * k] @ [b + n * k..<b + n * k + k] = [b..<b + Suc n * k]"
    using upt_add_eq_append [of b "b + n * k" k] by (simp add: algebra_simps)
  with Suc show ?case by simp
qed simp

lemma unat_n_desc: "unat (n_desc cnt) = unat cnt div 8192 + (if unat cnt mod 8192 \<noteq> 0 then 1 else 0)"
proof -
  have "unat cnt div 8192 < 2 ^ 19"
    using u32_less [of cnt] by (simp add: less_mult_imp_div_less)
  moreover have "cnt mod 8192 = 0 \<longleftrightarrow> unat cnt mod 8192 = 0"
    by (simp add: word_unat_eq_iff unat_mod)
  ultimately show ?thesis
    by (simp add: n_desc_def DMA_BUF_MAX_SIZE_def unat_word_ariths unat_div)
qed

lemma desc_addr:
  assumes "unat buf + unat cnt \<le> 2 ^ 32" "i < unat (n_desc cnt)"
  shows "unat (de_addr1 (dma_desc at buf cnt i)) = unat buf + i * 8192"
proof -
  have "i * 8192 < unat cnt"
  proof (cases "unat cnt mod 8192 = 0")
    case True
    then have "i + 1 \<le> unat cnt div 8192" "unat cnt = unat cnt div 8192 * 8192"
      using assms(2) unfolding unat_n_desc by auto
    then show ?thesis
      by linarith
  next
    case False
    then have "i \<le> unat cnt div 8192" "unat cnt = unat cnt div 8192 * 8192 + unat cnt mod 8192"
      using assms(2) unfolding unat_n_desc by auto
    with False show ?thesis
      by linarith
  qed
  then have "unat buf + i * 8192 < 2 ^ 32"
    using assms(1) by linarith
  then show ?thesis
    by (simp add: dma_desc_def Let_def DMA_BUF_MAX_SIZE_def unsigned_ucast_eq unat_word_ariths take_bit_eq_mod unat_of_nat)
qed

lemma desc_size:
  "unat (de_buf_size (dma_desc at buf cnt i)) =
   (if i = unat (n_desc cnt) - 1 \<and> unat cnt mod 8192 \<noteq> 0 then unat cnt mod 8192 else 8192)"
proof -
  have "cnt mod 8192 = 0 \<longleftrightarrow> unat cnt mod 8192 = 0"
    by (simp add: word_unat_eq_iff unat_mod)
  then show ?thesis
    by (simp add: dma_desc_def Let_def DMA_BUF_MAX_SIZE_def unat_mod)
qed

lemma desc_areas:
  assumes "unat buf + unat cnt \<le> 2 ^ 32"
  shows "concat (map desc_area (dma_descs at buf cnt)) = [unat buf..<unat buf + unat cnt]"
proof -
  define q where "q = unat cnt div 8192"
  define r where "r = unat cnt mod 8192"
  have c: "unat cnt = q * 8192 + r" "r < 8192"
    by (simp_all add: q_def r_def)
  have full: "desc_area (dma_desc at buf cnt i) = [unat buf + i * 8192..<unat buf + i * 8192 + 8192]" if "i < q" for i
  proof -
    have "i < unat (n_desc cnt)" and "\<not> (i = unat (n_desc cnt) - 1 \<and> unat cnt mod 8192 \<noteq> 0)"
      using that unfolding unat_n_desc q_def [symmetric] by auto
    then show ?thesis
      unfolding desc_area_def desc_size if_not_P [OF \<open>\<not> (i = unat (n_desc cnt) - 1 \<and> unat cnt mod 8192 \<noteq> 0)\<close>]
      using desc_addr [OF assms, of i at] by simp
  qed
  have blocks: "concat (map desc_area (map (dma_desc at buf cnt) [0..<q])) = [unat buf..<unat buf + q * 8192]"
  proof -
    have "map desc_area (map (dma_desc at buf cnt) [0..<q]) = map (\<lambda>i. [unat buf + i * 8192..<unat buf + i * 8192 + 8192]) [0..<q]"
      using full by simp
    then show ?thesis
      by (simp only: concat_blocks)
  qed
  show ?thesis
  proof (cases "r = 0")
    case True
    then have "unat (n_desc cnt) = q"
      unfolding unat_n_desc by (simp add: q_def r_def)
    with blocks True c show ?thesis
      by (simp add: dma_descs_def)
  next
    case False
    then have n: "unat (n_desc cnt) = Suc q"
      unfolding unat_n_desc by (simp add: q_def r_def)
    then have "desc_area (dma_desc at buf cnt q) = [unat buf + q * 8192..<unat buf + q * 8192 + r]"
      using desc_addr [OF assms, of q at] desc_size [of at buf cnt q] False by (simp add: desc_area_def r_def)
    then have "concat (map desc_area (dma_descs at buf cnt)) =
        [unat buf..<unat buf + q * 8192] @ [unat buf + q * 8192..<unat buf + q * 8192 + r]"
      using blocks n by (simp add: dma_descs_def)
    also have "\<dots> = [unat buf..<unat buf + unat cnt]"
      using upt_add_eq_append [of "unat buf" "unat buf + q * 8192" r] c by (simp add: add.assoc)
    finally show ?thesis .
  qed
qed

lemma desc_flags:
  assumes "i < unat (n_desc cnt)"
  shows "bit (de_config (dma_desc at buf cnt i)) 31" "bit (de_config (dma_desc at buf cnt i)) 4"
    "bit (de_config (dma_desc at buf cnt i)) 3 \<longleftrightarrow> i = 0"
    "bit (de_config (dma_desc at buf cnt i)) 2 \<longleftrightarrow> i + 1 = unat (n_desc cnt)"
    "bit (de_config (dma_desc at buf cnt i)) 1 \<longleftrightarrow> i + 1 \<noteq> unat (n_desc cnt)"
    "de_addr2 (dma_desc at buf cnt i) = (if i + 1 = unat (n_desc cnt) then 0 else ucast (at + of_nat (i + 1) * 16))"
  using assms by (auto simp: dma_desc_def Let_def)

lemma flush_covers:
  assumes "unat buf + unat len + 128 < 2 ^ 64"
  shows "case flush_range buf len of (a, n) \<Rightarrow> unat a \<le> unat buf \<and> unat buf + unat len \<le> unat a + unat n \<and>
    unat a mod 64 = 0 \<and> unat n mod 64 = 0"
proof -
  have "unat (len + 128) = unat len + 128"
    using assms by (simp add: unat_word_ariths)
  then show ?thesis
    unfolding flush_range_def prod.case unat_and_not_63 by auto
qed

text \<open>
  C36: the descriptors of a DMA transfer move exactly the bytes of the buffer, in order and each once;
  each belongs to the controller and is flagged as chained to the next, to which it links; the first
  and only the first starts the transfer, the last and only the last ends it, and only the last
  leaves the interrupt enabled. The ranges that are flushed before are whole cache
  lines around the buffer.
\<close>

theorem dma_descs_cover:
  assumes "unat buf + unat cnt \<le> 2 ^ 32"
  shows "concat (map desc_area (dma_descs at buf cnt)) = [unat buf..<unat buf + unat cnt] \<and>
    list_all (\<lambda>i. unat (de_buf_size (dma_descs at buf cnt ! i)) \<le> 8192 \<and>
        bit (de_config (dma_descs at buf cnt ! i)) 31 \<and> bit (de_config (dma_descs at buf cnt ! i)) 4 \<and>
        (bit (de_config (dma_descs at buf cnt ! i)) 3 \<longleftrightarrow> i = 0) \<and>
        (bit (de_config (dma_descs at buf cnt ! i)) 2 \<longleftrightarrow> i + 1 = length (dma_descs at buf cnt)) \<and>
        (bit (de_config (dma_descs at buf cnt ! i)) 1 \<longleftrightarrow> i + 1 \<noteq> length (dma_descs at buf cnt)) \<and>
        de_addr2 (dma_descs at buf cnt ! i) =
          (if i + 1 = length (dma_descs at buf cnt) then 0 else ucast (at + of_nat (i + 1) * 16)))
      [0..<length (dma_descs at buf cnt)] \<and>
    (case flush_range buf (ucast cnt) of (a, n) \<Rightarrow>
       unat a \<le> unat buf \<and> unat buf + unat cnt \<le> unat a + unat n \<and> unat a mod 64 = 0 \<and> unat n mod 64 = 0)"
proof -
  have len: "length (dma_descs at buf cnt) = unat (n_desc cnt)"
    by (simp add: dma_descs_def)
  have nth: "dma_descs at buf cnt ! i = dma_desc at buf cnt i" if "i < unat (n_desc cnt)" for i
    using that by (simp add: dma_descs_def)
  have "unat (ucast cnt :: u64) = unat cnt"
    using u32_less [of cnt] by (simp add: unsigned_ucast_eq take_bit_nat_eq_self)
  then have "case flush_range buf (ucast cnt) of (a, n) \<Rightarrow>
       unat a \<le> unat buf \<and> unat buf + unat cnt \<le> unat a + unat n \<and> unat a mod 64 = 0 \<and> unat n mod 64 = 0"
    using flush_covers [of buf "ucast cnt"] assms by simp
  moreover have "list_all (\<lambda>i. unat (de_buf_size (dma_desc at buf cnt i)) \<le> 8192 \<and>
        bit (de_config (dma_desc at buf cnt i)) 31 \<and> bit (de_config (dma_desc at buf cnt i)) 4 \<and>
        (bit (de_config (dma_desc at buf cnt i)) 3 \<longleftrightarrow> i = 0) \<and>
        (bit (de_config (dma_desc at buf cnt i)) 2 \<longleftrightarrow> i + 1 = unat (n_desc cnt)) \<and>
        (bit (de_config (dma_desc at buf cnt i)) 1 \<longleftrightarrow> i + 1 \<noteq> unat (n_desc cnt)) \<and>
        de_addr2 (dma_desc at buf cnt i) = (if i + 1 = unat (n_desc cnt) then 0 else ucast (at + of_nat (i + 1) * 16)))
      [0..<unat (n_desc cnt)]"
    by (simp only: list_all_iff set_upt) (auto simp only: atLeastLessThan_iff desc_flags desc_size simp_thms, simp add: less_imp_le)
  ultimately show ?thesis
    using desc_areas [OF assms] nth by (simp add: len list_all_iff)
qed

theorem dma_descs_cover_witness:
  "concat (map desc_area (dma_descs 0x50000000 0x40000000 0x4200)) = [0x40000000..<0x40004200]"
proof -
  have "concat (map desc_area (dma_descs 0x50000000 0x40000000 0x4200)) =
      [unat (0x40000000 :: u64)..<unat (0x40000000 :: u64) + unat (0x4200 :: u32)]"
    by (rule dma_descs_cover [THEN conjunct1]) simp
  also have "\<dots> = [0x40000000..<0x40004200]"
    by (rule arg_cong2 [where f = upt]) simp_all
  finally show ?thesis .
qed

end
