(* ===== verification/Sunxi_Run.thy ===== *)
theory Sunxi_Run
  imports Sunxi_Mmc Elapse
begin

text \<open>
  Runs of the driver of \<open>src/src/uboot/drivers/mmc/sunxi_mmc.c\<close>: every wait ends when time passes, so the
  controller is a host in the sense of \<open>timed_host\<close>; a command is done only when the controller said so.
  One pass over the operations serves all properties of histories that every event keeps.
\<close>

section \<open>Time\<close>

text \<open>Time passes with every access, and the reset of the DMA unit ends after some reads.\<close>

locale sunxi_clock = hardware_clock clk
  for d :: device and clk :: "history \<Rightarrow> nat" and p :: priv +
  assumes dma_reset_ends: "\<exists>k. d (reads d (DMAC (mmc_no p)) k t) (DMAC (mmc_no p)) AND 1 = 0"

locale sunxi_run = sunxi_clock + kept

lemma passes_andthenO:
  "passes Q snd r \<Longrightarrow> (\<And>u. Q u \<Longrightarrow> passes Q snd (f u)) \<Longrightarrow> passes Q snd (andthenO r f)"
  by (auto simp: passes_def andthenO_def)

context sunxi_run begin

lemma passes_wait_clear: "Q t \<Longrightarrow> passes Q snd (wait_clear d clk a m st0 limit t)"
proof (induction "(st0 + limit + 1) * 1000000 - clk t" arbitrary: t rule: less_induct)
  case less
  define u where "u = snd (readl d a t)"
  have u: "clk t < clk u"
    by (simp add: u_def readl_def Let_def read_clk)
  have Qu: "Q u"
    using less.prems by (simp add: u_def kept_readl)
  show ?case
  proof (cases "timer_ms clk u - st0 > limit")
    case True
    then show ?thesis
      using u Qu less.prems by (subst wait_clear.simps) (simp add: Let_def case_prod_beta flip: u_def)
  next
    case False
    then have "clk u < (st0 + limit + 1) * 1000000"
      by (simp add: timer_ms_def)
    then have "passes Q snd (wait_clear d clk a m st0 limit u)"
      using u Qu less.prems by (intro less.hyps) auto
    then show ?thesis
      using u Qu less.prems by (subst wait_clear.simps) (simp add: Let_def case_prod_beta flip: u_def)
  qed
qed

lemma passes_busy_wait: "Q t \<Longrightarrow> passes Q snd (busy_wait d clk no st0 t)"
proof (induction "(st0 + 2001) * 1000000 - clk t" arbitrary: t rule: less_induct)
  case less
  define u where "u = snd (readl d (STATUS no) t)"
  have u: "clk t < clk u"
    by (simp add: u_def readl_def Let_def read_clk)
  have Qu: "Q u"
    using less.prems by (simp add: u_def kept_readl)
  show ?case
  proof (cases "timer_ms clk u - st0 > 2000")
    case True
    then show ?thesis
      using u Qu less.prems by (subst busy_wait.simps) (simp add: Let_def case_prod_beta flip: u_def)
  next
    case False
    then have "clk u < (st0 + 2001) * 1000000"
      by (simp add: timer_ms_def)
    then have "passes Q snd (busy_wait d clk no st0 u)"
      using u Qu less.prems by (intro less.hyps) auto
    then show ?thesis
      using u Qu less.prems by (subst busy_wait.simps) (simp add: Let_def case_prod_beta flip: u_def)
  qed
qed

lemma passes_rint_wait: "Q t \<Longrightarrow> passes Q snd (mmc_rint_wait d clk no st0 limit b w t)"
proof (induction "(st0 + limit + 1) * 1000000 - clk t" arbitrary: t rule: less_induct)
  case less
  define u where "u = snd (readl d (RINT no) t)"
  define v where "v = (if w then snd (readl d (IDST no) u) else u)"
  have u: "clk t < clk u" and v: "clk u \<le> clk v"
    by (auto simp: u_def v_def readl_def Let_def read_clk intro!: less_imp_le)
  have Qu: "Q u" "Q v"
    using less.prems by (simp_all add: u_def v_def kept_readl)
  show ?case
  proof (cases "timer_ms clk u - st0 > limit")
    case True
    then show ?thesis
      using u Qu less.prems by (subst mmc_rint_wait.simps) (simp add: Let_def case_prod_beta flip: u_def)
  next
    case False
    then have "clk u < (st0 + limit + 1) * 1000000"
      by (simp add: timer_ms_def)
    then have "passes Q snd (mmc_rint_wait d clk no st0 limit b w v)"
      using u v Qu less.prems by (intro less.hyps) auto
    then show ?thesis
      using u v Qu less.prems by (subst mmc_rint_wait.simps) (auto simp add: Let_def case_prod_beta v_def simp flip: u_def)
  qed
qed

lemma passes_spin [pass_rules]:
  "Q t \<Longrightarrow> passes Q (\<lambda>u. u) (spin_clear d (DMAC (mmc_no p)) 1 t)"
  using dma_reset_ends passes_spin_clear by blast

lemma passes_update_clk: "Q t \<Longrightarrow> passes Q snd (mmc_update_clk d clk no t)"
  unfolding mmc_update_clk_def Let_def
  by (rule passes_map [OF passes_wait_clear]) (auto simp: case_prod_beta intro!: pass_rules)

lemma kept_set_mod_clk [pass_rules]: "Q t \<Longrightarrow> Q (snd (mmc_set_mod_clk d no b hz t))"
  by (auto simp: mmc_set_mod_clk_def clock_get_pll6_def Let_def case_prod_beta intro!: pass_rules)

lemma passes_config_clock: "Q t \<Longrightarrow> passes Q snd (mmc_config_clock d clk no b hz t)"
  unfolding mmc_config_clock_def Let_def
  by (rule passes_bind [OF passes_update_clk])
    (auto simp: case_prod_beta simp del: exec_Cons intro!: pass_rules passes_update_clk)

lemma passes_set_ios: "Q (s_hist s) \<Longrightarrow> passes Q (\<lambda>r. s_hist (snd r)) (sunxi_mmc_set_ios d clk q io s)"
proof -
  assume "Q (s_hist s)"
  then have *: "passes Q snd (if io_clock io \<noteq> 0 then mmc_config_clock d clk (mmc_no q) (io_ddr io) (io_clock io) (s_hist s)
        else Some (True, s_hist s))"
    by (simp add: passes_config_clock)
  show ?thesis
    unfolding sunxi_mmc_set_ios_def
    by (rule passes_bind [OF *]) (auto simp: case_prod_beta Let_def on_regs_def simp del: exec_Cons intro!: pass_rules)
qed

lemma passes_pio_words: "Q t \<Longrightarrow> passes Q (\<lambda>r. snd (snd r)) (pio_words d clk no st0 limit k t)"
proof (induction k arbitrary: t)
  case (Suc k)
  show ?case
    unfolding pio_words.simps
    by (rule passes_bind [OF passes_wait_clear [OF Suc.prems]])
      (auto simp: case_prod_beta Let_def intro!: pass_rules passes_map [OF Suc.IH])
qed simp

lemma passes_by_cpu: "Q t \<Longrightarrow> passes Q (\<lambda>r. snd (snd r)) (mmc_trans_data_by_cpu d clk no n t)"
  unfolding mmc_trans_data_by_cpu_def Let_def
  by (rule passes_map [OF passes_pio_words]) (auto simp: case_prod_beta intro!: pass_rules)

lemma passes_by_dma:
  "Q (s_hist s) \<Longrightarrow> passes Q (\<lambda>r. s_hist (snd r)) (mmc_trans_data_by_dma d p buf n s)"
  unfolding mmc_trans_data_by_dma_def Let_def
proof (rule passes_if, goal_cases)
  case 2
  then show ?case
    by (intro passes_map [OF passes_spin]) (auto simp: on_regs_def case_prod_beta simp del: exec_Cons intro!: pass_rules)
qed (auto simp: on_regs_def intro!: pass_rules)

lemma passes_start_cmd:
  assumes "Q (s_hist s)"
  shows "passes Q (\<lambda>r. s_hist (snd (snd (snd r)))) (start_cmd d clk p buf cmd data s)"
proof (cases data)
  case None
  with assms show ?thesis
    by (auto simp: start_cmd_def on_regs_def Let_def simp del: exec_Cons intro!: pass_rules)
next
  case (Some bb)
  with assms show ?thesis
    unfolding start_cmd_def Let_def
    by (cases bb) (auto simp: on_regs_def case_prod_beta simp del: exec_Cons
        intro!: pass_rules passes_map [OF passes_by_dma] passes_map [OF passes_by_cpu])
qed

lemma passes_finish_cmd: "Q t \<Longrightarrow> passes Q snd (finish_cmd d clk no cmd data b t)"
  unfolding finish_cmd_def
  by (intro passes_andthenO passes_rint_wait) (auto split: option.split intro!: passes_rint_wait passes_busy_wait)

lemma kept_read_response [pass_rules]: "Q t \<Longrightarrow> Q (snd (read_response d no cmd t))"
  by (auto simp: read_response_def Let_def case_prod_beta intro!: pass_rules)

lemma passes_end_cmd: "Q t \<Longrightarrow> passes Q (\<lambda>u. u) (end_cmd d clk no b e t)"
  unfolding end_cmd_def Let_def
  by (auto simp del: exec_Cons intro!: pass_rules passes_map [OF passes_update_clk] passes_map [where g = "\<lambda>u. u"])

lemma passes_complete_cmd:
  assumes "Q (s_hist (snd (snd (snd r))))"
  shows "passes Q (\<lambda>r. s_hist (snd (snd (snd r)))) (complete_cmd d clk dma no cmd data r)"
proof -
  obtain err bs usedma u where r: "r = (err, bs, usedma, u)"
    by (cases r)
  have "passes Q snd (if err \<noteq> 0 then Some (err, s_hist u) else finish_cmd d clk no cmd data usedma (s_hist u))"
    using assms r by (simp add: passes_finish_cmd)
  then show ?thesis
    unfolding complete_cmd_def r Let_def prod.case
    by (rule passes_bind) (auto simp: case_prod_beta intro!: passes_map [OF passes_end_cmd] pass_rules)
qed

lemma passes_send_cmd:
  "Q (s_hist s) \<Longrightarrow> passes Q (\<lambda>r. s_hist (snd (snd (snd r)))) (sunxi_mmc_send_cmd d clk dma p buf s cmd data)"
  unfolding sunxi_mmc_send_cmd_def
  by (intro passes_if passes_bind [OF passes_start_cmd] passes_complete_cmd passes_map [OF passes_end_cmd]) auto

end

text \<open>The controller keeps what \<open>mmc.c\<close> asks of a timer.\<close>

sublocale sunxi_clock \<subseteq> elapsed: sunxi_run d clk p "\<lambda>u. clk t \<le> clk u" for t
  by unfold_locales

sublocale sunxi_clock \<subseteq> controller: timed_host "sunxi_host d clk dma p buf" "\<lambda>s. clk (s_hist s)"
proof
  fix c :: sunxi and n :: nat and cmd data io
  show "h_now (sunxi_host d clk dma p buf) c = clk (s_hist c) div 1000000"
    by (simp add: sunxi_host_def timer_ms_def)
  show "clk (s_hist c) + n * 1000 \<le> clk (s_hist (h_udelay (sunxi_host d clk dma p buf) n c))"
    by (simp add: sunxi_host_def on_regs_def udelay_def delay_clk)
  show "clk (s_hist c) \<le> clk (s_hist (snd (snd (snd (h_send_cmd (sunxi_host d clk dma p buf) c cmd data)))))"
    using elapsed.passes_send_cmd [of "s_hist c" c dma buf cmd data] by (auto simp: sunxi_host_def passes_def)
  show "clk (s_hist c) \<le> clk (s_hist (snd (h_set_ios (sunxi_host d clk dma p buf) io c)))"
    using elapsed.passes_set_ios [of "s_hist c" c p io] by (auto simp: sunxi_host_def passes_def)
qed


context sunxi_clock begin

lemma sunxi_init_returns:
  assumes "mmc_create (sunxi_host d clk dma p buf) c = Some s"
  shows "returns block_device (mmc_init (sunxi_host d clk dma p buf) s)"
  using mmc_create_fields [OF assms] by (intro controller.mmc_init_returns) auto

end

sublocale sunxi_clock \<subseteq> trace: sunxi_run d clk p "since t A" for t A
  by unfold_locales

section \<open>A bus that takes time\<close>

text \<open>A controller whose registers all read zero.\<close>

definition emmc_priv :: priv where
  "emmc_priv = \<lparr>mmc_no = 2, descs_at = 0x50000000, n_dma_descs = 4096\<rparr>"

interpretation dead_bus: sunxi_clock "\<lambda>t a. 0" bus_time emmc_priv
  by unfold_locales simp_all

section \<open>The driver as a whole\<close>

lemma mmc_create_sunxi: "\<exists>s. mmc_create (sunxi_host d clk dma p buf) c = Some s"
  by (simp add: mmc_create_def sunxi_host_def)

text \<open>
  C33: with the driver of the controller under it, and for every behaviour of the controller and of the
  card, as long as time passes with the accesses to registers and the reset of the DMA unit ends,
  bringing up the card returns, and a device that is reported ready is one whose blocks can be read.
\<close>

theorem sunxi_mmc_comes_up:
  assumes "sunxi_clock d clk p"
  shows "\<exists>s e t. mmc_create (sunxi_host d clk dma p buf) c = Some s \<and>
    mmc_init (sunxi_host d clk dma p buf) s = Some (e, t) \<and> (e = 0 \<longrightarrow> block_device t)"
proof -
  obtain s where s: "mmc_create (sunxi_host d clk dma p buf) c = Some s"
    using mmc_create_sunxi by blast
  from sunxi_clock.sunxi_init_returns [OF assms this] s show ?thesis
    by (auto simp: returns_def)
qed

definition fresh :: sunxi where
  "fresh = \<lparr>s_hist = [], s_fatal = False, s_descs = [], s_flushed = []\<rparr>"

theorem sunxi_mmc_comes_up_witness:
  "\<exists>s e t. mmc_create (sunxi_host (\<lambda>t a. 0) bus_time (\<lambda>t n. []) emmc_priv (\<lambda>cmd. 0x1f000)) fresh = Some s \<and>
    mmc_init (sunxi_host (\<lambda>t a. 0) bus_time (\<lambda>t n. []) emmc_priv (\<lambda>cmd. 0x1f000)) s = Some (e, t) \<and>
    (e = 0 \<longrightarrow> block_device t)"
  by (rule sunxi_mmc_comes_up [OF dead_bus.sunxi_clock_axioms])

section \<open>Completion\<close>

text \<open>What the controller reported in the events \<open>xs\<close>: a flag, in a status without an error.\<close>

definition reported :: "nat \<Rightarrow> u32 \<Rightarrow> history \<Rightarrow> bool" where
  "reported no flag xs \<longleftrightarrow> (\<exists>v. Rd (RINT no) v \<in> set xs \<and> v AND flag \<noteq> 0 \<and> v AND RINT_ERROR = 0)"

lemma reported_mono: "reported no flag xs \<Longrightarrow> set xs \<subseteq> set ys \<Longrightarrow> reported no flag ys"
  by (auto simp: reported_def)

lemma rint_wait_reported:
  assumes "mmc_rint_wait d clk no st0 limit flag w t = Some r" "fst r = 0"
  shows "\<exists>xs. snd r = xs @ t \<and> reported no flag xs"
proof -
  have "fst r = 0 \<longrightarrow> (\<exists>xs. snd r = xs @ t \<and> reported no flag xs)"
  proof (rule mmc_rint_wait.raw_induct [where P = "\<lambda>d clk no st0 limit flag w t r.
      fst r = 0 \<longrightarrow> (\<exists>xs. snd r = xs @ t \<and> reported no flag xs)", OF _ assms(1)])
    fix loop d clk no st0 limit flag w t r
    assume IH: "\<And>d clk no st0 limit flag w t r. loop d clk no st0 limit flag w t = Some r \<Longrightarrow>
        fst r = 0 \<longrightarrow> (\<exists>xs. snd r = xs @ t \<and> reported no flag xs)"
      and body: "(let (status, t) = readl d (RINT no) t
        in if timer_ms clk t - st0 > limit \<or> status AND RINT_ERROR \<noteq> 0 then Some (- ETIMEDOUT, t)
           else
             (let (dma_done, t) = (if w then (let (v, t) = readl d (IDST no) t in (v AND 3 \<noteq> 0, t)) else (True, t))
              in if status AND flag \<noteq> 0 \<and> dma_done then Some (0, t) else loop d clk no st0 limit flag w t)) = Some r"
    define v where "v = d t (RINT no)"
    define t1 where "t1 = Rd (RINT no) v # t"
    define y where "y = (if w then [Rd (IDST no) (d t1 (IDST no))] else [])"
    show "fst r = 0 \<longrightarrow> (\<exists>xs. snd r = xs @ t \<and> reported no flag xs)"
    proof (cases "timer_ms clk t1 - st0 > limit \<or> v AND RINT_ERROR \<noteq> 0")
      case True
      then show ?thesis
        using body by (auto simp: readl_def Let_def v_def t1_def)
    next
      case ok: False
      show ?thesis
      proof (cases "r = (0, y @ t1) \<and> v AND flag \<noteq> 0")
        case True
        then have "snd r = (y @ [Rd (RINT no) v]) @ t" "reported no flag (y @ [Rd (RINT no) v])"
          using ok by (auto simp: t1_def reported_def)
        then show ?thesis by blast
      next
        case False
        then have "loop d clk no st0 limit flag w (y @ t1) = Some r"
          using body ok by (auto simp: readl_def Let_def v_def [symmetric] t1_def [symmetric] y_def split: if_splits)
        from IH [OF this] show ?thesis
        proof (intro impI)
          assume "fst r = 0" and "fst r = 0 \<longrightarrow> (\<exists>xs. snd r = xs @ y @ t1 \<and> reported no flag xs)"
          then obtain xs where xs: "snd r = (xs @ y @ [Rd (RINT no) v]) @ t" "reported no flag xs"
            by (auto simp: t1_def)
          then have "reported no flag (xs @ y @ [Rd (RINT no) v])"
            by (auto elim: reported_mono)
          with xs(1) show "\<exists>xs. snd r = xs @ t \<and> reported no flag xs"
            by blast
        qed
      qed
    qed
  qed
  with assms(2) show ?thesis by blast
qed

lemma since_refl: "since t {} t"
  by (simp add: since_def)

lemma since_write: "since t A u \<Longrightarrow> since t (insert (Wr a v) A) (writel v a u)"
  by (auto simp: since_def writel_def intro: exI [of _ "_ # _"])

lemma since_reported: "since t {} u \<Longrightarrow> \<exists>xs. u = xs @ t"
  by (simp add: since_def)

context sunxi_clock begin

lemma start_cmd_since:
  assumes "start_cmd d clk p b cmd data s = Some (e, bs, usedma, u)"
  shows "since (s_hist s) {Wr (CMD (mmc_no p)) (cmd_value cmd data OR c_idx cmd), Wr (ARG (mmc_no p)) (c_arg cmd)} (s_hist u)"
proof (cases data)
  case None
  then show ?thesis
    using assms by (auto simp: start_cmd_def on_regs_def writel_def since_def Let_def)
next
  case (Some bn)
  obtain blocks n where bn: "bn = (blocks, n)"
    by (cases bn)
  let ?no = "mmc_no p"
  let ?arg = "Wr (ARG ?no) (c_arg cmd)" and ?cmd = "Wr (CMD ?no) (cmd_value cmd data OR c_idx cmd)"
  define v where "v = on_regs (exec d [Writel n (BLKSZ ?no), Writel (blocks * n) (BYTECNT ?no), Writel (c_arg cmd) (ARG ?no)]) s"
  have v: "since (s_hist s) {?arg} (s_hist v)"
    by (auto simp: v_def on_regs_def since_def writel_def)
  have dma: "passes (since (s_hist s) {?arg}) (\<lambda>r. s_hist (snd r)) (mmc_trans_data_by_dma d p b (n * blocks) v)"
    using v by (rule trace.passes_by_dma)
  have cpu: "passes (since (s_hist s) {?cmd, ?arg}) (\<lambda>r. snd (snd r))
      (mmc_trans_data_by_cpu d clk ?no (n * blocks) (writel (cmd_value cmd data OR c_idx cmd) (CMD ?no) (s_hist v)))"
    by (rule trace.passes_by_cpu [OF since_write [OF v]])
  have "start_cmd d clk p b cmd data s =
      (if n * blocks > 64 \<and> b \<ge> 0x4000000
       then map_option (\<lambda>(err, s). (err, [], True, on_regs (writel (cmd_value cmd data OR c_idx cmd) (CMD ?no)) s))
              (mmc_trans_data_by_dma d p b (n * blocks) v)
       else map_option (\<lambda>(err, bs, t). (err, bs, False, v\<lparr>s_hist := t\<rparr>))
              (mmc_trans_data_by_cpu d clk ?no (n * blocks) (writel (cmd_value cmd data OR c_idx cmd) (CMD ?no) (s_hist v))))"
    by (simp add: start_cmd_def Let_def v_def Some bn del: exec_Cons)
  then show ?thesis
    using assms dma cpu by (auto simp: passes_def on_regs_def since_write split: if_splits)
qed

lemma finish_cmd_reported:
  assumes "finish_cmd d clk no cmd data usedma t = Some (0, u)"
  shows "\<exists>zs. u = zs @ t \<and> reported no (push_bit 2 1) zs \<and>
    (case data of None \<Rightarrow> True | Some (blocks, _) \<Rightarrow> reported no (if blocks > 1 then push_bit 14 1 else push_bit 3 1) zs)"
proof -
  define flag where "flag = (case data of None \<Rightarrow> 0 | Some (blocks, _) \<Rightarrow> if blocks > 1 then push_bit 14 1 else push_bit 3 (1 :: u32))"
  obtain t1 where t1: "mmc_rint_wait d clk no (timer_ms clk t) 1000 (push_bit 2 1) False t = Some (0, t1)"
    and rest: "andthenO (case data of None \<Rightarrow> Some (0, t1) | Some (blocks, _) \<Rightarrow>
        mmc_rint_wait d clk no (timer_ms clk t1) 10000 (if blocks > 1 then push_bit 14 1 else push_bit 3 1) usedma t1)
      (\<lambda>t. if c_resp cmd AND 8 \<noteq> 0 then busy_wait d clk no (timer_ms clk t) t else Some (0, t)) = Some (0, u)"
    using assms by (auto simp: finish_cmd_def andthenO_def split: option.splits if_splits)
  obtain xs where xs: "t1 = xs @ t" "reported no (push_bit 2 1) xs"
    using rint_wait_reported [OF t1] by auto
  obtain t2 where t2: "(case data of None \<Rightarrow> Some (0, t1) | Some (blocks, _) \<Rightarrow>
        mmc_rint_wait d clk no (timer_ms clk t1) 10000 (if blocks > 1 then push_bit 14 1 else push_bit 3 1) usedma t1) = Some (0, t2)"
    and busy: "(if c_resp cmd AND 8 \<noteq> 0 then busy_wait d clk no (timer_ms clk t2) t2 else Some (0, t2)) = Some (0, u)"
    using rest by (auto simp: andthenO_def split: option.splits if_splits)
  obtain ys where ys: "t2 = ys @ t1" "data \<noteq> None \<longrightarrow> reported no flag ys"
  proof (cases data)
    case None
    then show ?thesis using t2 that [of "[]"] by simp
  next
    case (Some bn)
    then have "mmc_rint_wait d clk no (timer_ms clk t1) 10000 flag usedma t1 = Some (0, t2)"
      using t2 by (cases bn) (simp add: flag_def)
    then show ?thesis
      using rint_wait_reported that by fastforce
  qed
  have "since t2 {} u"
    using busy trace.passes_busy_wait [OF since_refl [of t2], of no "timer_ms clk t2"]
    by (auto simp: passes_def since_refl split: if_splits)
  then obtain ws where ws: "u = ws @ t2"
    by (auto simp: since_def)
  have "reported no (push_bit 2 1) (ws @ ys @ xs)"
    using xs(2) by (rule reported_mono) auto
  moreover have "data \<noteq> None \<longrightarrow> reported no flag (ws @ ys @ xs)"
    using ys(2) by (auto elim: reported_mono)
  ultimately show ?thesis
    using xs(1) ys(1) ws by (intro exI [of _ "ws @ ys @ xs"]) (auto simp: flag_def split: option.splits)
qed

lemma hist_inject [simp]: "(u\<lparr>s_hist := a\<rparr> = u\<lparr>s_hist := b\<rparr>) = (a = b)"
  by (cases u) auto

lemma complete_cmd_reported:
  assumes "complete_cmd d clk dma no cmd data (e, b, ud, u) = Some (0, r, bs, s')"
  shows "\<exists>zs. s_hist s' = zs @ s_hist u \<and> reported no (push_bit 2 1) zs \<and>
    (case data of None \<Rightarrow> True | Some (blocks, _) \<Rightarrow> reported no (if blocks > 1 then push_bit 14 1 else push_bit 3 1) zs)"
proof -
  obtain t where t: "finish_cmd d clk no cmd data ud (s_hist u) = Some (0, t)"
    and fin: "end_cmd d clk no ud 0 (snd (read_response d no cmd t)) = Some (s_hist s')"
    using assms by (auto simp: complete_cmd_def Let_def bind_eq_Some_conv case_prod_beta split: if_splits)
  have "since t {} (snd (read_response d no cmd t))"
    by (rule trace.kept_read_response [OF since_refl])
  then have "since t {} (s_hist s')"
    using trace.passes_end_cmd [of t "{}" "snd (read_response d no cmd t)" no ud 0] fin by (simp add: passes_def)
  then obtain ws where ws: "s_hist s' = ws @ t"
    by (auto simp: since_def)
  obtain zs where zs: "t = zs @ s_hist u" "reported no (push_bit 2 1) zs"
    "case data of None \<Rightarrow> True | Some (blocks, _) \<Rightarrow> reported no (if blocks > 1 then push_bit 14 1 else push_bit 3 1) zs"
    using finish_cmd_reported [OF t] by blast
  have mono: "reported no f zs \<Longrightarrow> reported no f (ws @ zs)" for f
    by (rule reported_mono) auto
  show ?thesis
    using ws zs mono by (intro exI [of _ "ws @ zs"]) (auto split: option.splits)
qed

end

lemma stop_bit: "1 < blocks \<Longrightarrow> bit (cmd_value cmd (Some (blocks, size'))) 12"
  by (simp add: cmd_value_def bit_or_iff bit_push_bit_iff)

text \<open>
  C34: a command that is reported done was written to the controller together with its argument, and
  after that the controller signalled its completion, and for a transfer that of its data, in a
  status without an error flag. The exception is command 12, which ends a transfer of several
  blocks: it is reported done at once and nothing is written, because every such transfer was
  started with the flag by which the controller sends the stop itself.
\<close>

theorem sunxi_command_reported:
  assumes "sunxi_clock d clk p" "sunxi_mmc_send_cmd d clk dma p buf s cmd data = Some (0, r, bs, s')"
  shows "if c_idx cmd = 12 then s' = s
    else (\<exists>zs ys. s_hist s' = zs @ ys @ s_hist s \<and>
      Wr (CMD (mmc_no p)) (cmd_value cmd data OR c_idx cmd) \<in> set ys \<and> Wr (ARG (mmc_no p)) (c_arg cmd) \<in> set ys \<and>
      reported (mmc_no p) (push_bit 2 1) zs \<and>
      (case data of None \<Rightarrow> True
       | Some (blocks, _) \<Rightarrow> reported (mmc_no p) (if blocks > 1 then push_bit 14 1 else push_bit 3 1) zs \<and>
           (blocks > 1 \<longrightarrow> bit (cmd_value cmd data) 12)))"
proof (cases "c_idx cmd = 12")
  case True
  then show ?thesis using assms(2) by (simp add: sunxi_mmc_send_cmd_def split: if_splits)
next
  case False
  then obtain e b ud u where start: "start_cmd d clk p (buf cmd) cmd data s = Some (e, b, ud, u)"
    and c: "complete_cmd d clk dma (mmc_no p) cmd data (e, b, ud, u) = Some (0, r, bs, s')"
    using assms(2) by (auto simp: sunxi_mmc_send_cmd_def bind_eq_Some_conv split: if_splits)
  obtain ys where ys: "s_hist u = ys @ s_hist s"
    "Wr (CMD (mmc_no p)) (cmd_value cmd data OR c_idx cmd) \<in> set ys" "Wr (ARG (mmc_no p)) (c_arg cmd) \<in> set ys"
    using sunxi_clock.start_cmd_since [OF assms(1) start] by (auto simp: since_def)
  obtain zs where zs: "s_hist s' = zs @ s_hist u" "reported (mmc_no p) (push_bit 2 1) zs"
    "case data of None \<Rightarrow> True
     | Some (blocks, _) \<Rightarrow> reported (mmc_no p) (if blocks > 1 then push_bit 14 1 else push_bit 3 1) zs"
    using sunxi_clock.complete_cmd_reported [OF assms(1) c] by blast
  have "case data of None \<Rightarrow> True
     | Some (blocks, _) \<Rightarrow> reported (mmc_no p) (if blocks > 1 then push_bit 14 1 else push_bit 3 1) zs \<and>
         (blocks > 1 \<longrightarrow> bit (cmd_value cmd data) 12)"
    using zs(3) stop_bit by (auto split: option.splits)
  with ys zs(1,2) False show ?thesis
    by (simp only: if_False) (intro exI [of _ zs] exI [of _ ys] conjI, simp_all)
qed

text \<open>A controller that reports every command and its data done.\<close>

definition ready_device :: device where
  "ready_device t a = (if a = RINT 2 then 0xc else 0)"

interpretation ready_bus: sunxi_clock ready_device bus_time emmc_priv
  by unfold_locales (auto simp: ready_device_def emmc_priv_def mmc_base_def)

definition status_cmd :: command where
  "status_cmd = \<lparr>c_idx = 13, c_resp = MMC_RSP_R1, c_arg = 0x10000\<rparr>"

lemma ready_status:
  "\<exists>r. sunxi_mmc_send_cmd ready_device bus_time (\<lambda>t n. []) emmc_priv (\<lambda>cmd. 0) fresh status_cmd None = Some (0, r)"
proof -
  have regs: "CMD 2 \<noteq> RINT 2" "RESP0 2 \<noteq> RINT 2" "GCTRL 2 \<noteq> RINT 2"
    by (simp_all add: mmc_base_def)
  have "mmc_rint_wait ready_device bus_time 2 (timer_ms bus_time t) 1000 4 False t = Some (0, Rd (RINT 2) 12 # t)" for t
  proof -
    have "(bus_time t + 100) div 1000000 - bus_time t div 1000000 \<le> 1000"
      by linarith
    then show ?thesis
      by (subst mmc_rint_wait.simps) (simp add: readl_def Let_def ready_device_def timer_ms_def RINT_ERROR_def)
  qed
  then show ?thesis
    by (simp add: sunxi_mmc_send_cmd_def start_cmd_def complete_cmd_def finish_cmd_def end_cmd_def read_response_def
        andthenO_def status_cmd_def fresh_def emmc_priv_def on_regs_def MMC_RSP_R1_def Let_def case_prod_beta)
qed

theorem sunxi_command_reported_witness:
  "\<exists>r bs s'. sunxi_mmc_send_cmd ready_device bus_time (\<lambda>t n. []) emmc_priv (\<lambda>cmd. 0) fresh status_cmd None = Some (0, r, bs, s') \<and>
    (\<exists>zs ys. s_hist s' = zs @ ys \<and> Wr (CMD 2) (cmd_value status_cmd None OR 13) \<in> set ys \<and> reported 2 (push_bit 2 1) zs)"
proof -
  obtain r bs s' where s': "sunxi_mmc_send_cmd ready_device bus_time (\<lambda>t n. []) emmc_priv (\<lambda>cmd. 0) fresh status_cmd None = Some (0, r, bs, s')"
    using ready_status by (metis prod.exhaust)
  have "c_idx status_cmd \<noteq> 12" "c_idx status_cmd = 13" "s_hist fresh = []" "mmc_no emmc_priv = 2"
    by (simp_all add: fresh_def status_cmd_def emmc_priv_def)
  with sunxi_command_reported [OF ready_bus.sunxi_clock_axioms s'] s' show ?thesis
    by auto
qed

end
