(* ===== verification/Dram.thy ===== *)
theory Dram
  imports Clock_Sun6i
begin

text \<open>
  The memory controller, \<open>src/src/uboot/arch/arm/mach-sunxi/dram_sunxi_dw.c\<close>, with the helpers of
  \<open>dram_helpers.c\<close> and the timings of \<open>dram_timings/lpddr3_stock.c\<close>, as configured: LPDDR3 at
  552 MHz on a bus of 32 bits. The driver is for four chips; the chip is an argument, as in the code.
  The time in nanoseconds is a parameter, a function of the history. A step gives \<open>None\<close> when it
  does not end, \<open>Inl\<close> when it panics, \<open>Inr\<close> when it goes on. Memory is read and written like a
  register: its addresses stay below 4 GiB.
\<close>

section \<open>Data\<close>

datatype socid = SOCID_A64 | SOCID_H3 | SOCID_H5 | SOCID_R40

record rank_para =
  page_size :: nat
  row_bits :: nat
  bank_bits :: nat

record dram_para =
  dual_rank :: bool
  bus_full_width :: bool
  rank0 :: rank_para
  rank1 :: rank_para
  dx_read_delays :: "nat list list"
  dx_write_delays :: "nat list list"
  ac_delays :: "nat list"

type_synonym 'a step_result = "(history + 'a) option"

definition on_ok :: "'a step_result \<Rightarrow> ('a \<Rightarrow> 'b step_result) \<Rightarrow> 'b step_result" where
  "on_ok r f = Option.bind r (\<lambda>r. case r of Inl t \<Rightarrow> Some (Inl t) | Inr x \<Rightarrow> f x)"

lemma on_ok_simps [simp]:
  "on_ok None f = None" "on_ok (Some (Inl t)) f = Some (Inl t)" "on_ok (Some (Inr x)) f = f x"
  by (simp_all add: on_ok_def)

definition ending :: "history option \<Rightarrow> history step_result" where
  "ending = map_option Inr"

abbreviation CR :: addr where "CR \<equiv> 0x01c62000"
abbreviation CR_R1 :: addr where "CR_R1 \<equiv> 0x01c62004"
abbreviation MCTL :: addr where "MCTL \<equiv> 0x01c63000"
abbreviation PGSR0 :: addr where "PGSR0 \<equiv> MCTL + 0x10"
abbreviation STATR :: addr where "STATR \<equiv> MCTL + 0x18"
abbreviation DTCR :: addr where "DTCR \<equiv> MCTL + 0xc0"
abbreviation PGCR0 :: addr where "PGCR0 \<equiv> MCTL + 0x100"
abbreviation PGCR1 :: addr where "PGCR1 \<equiv> MCTL + 0x104"
abbreviation PGCR2 :: addr where "PGCR2 \<equiv> MCTL + 0x108"
abbreviation ZQCR :: addr where "ZQCR \<equiv> MCTL + 0x140"
abbreviation ZQDR0 :: addr where "ZQDR0 \<equiv> MCTL + 0x148"

definition dx :: "nat \<Rightarrow> addr" where
  "dx i = MCTL + 0x300 + 0x80 * of_nat i"

abbreviation DX_GCR :: "nat \<Rightarrow> addr" where "DX_GCR i \<equiv> dx i + 0x44"
abbreviation DX_GSR0 :: "nat \<Rightarrow> addr" where "DX_GSR0 i \<equiv> dx i + 0x48"

section \<open>Waiting\<close>

definition timer_us :: "(history \<Rightarrow> nat) \<Rightarrow> history \<Rightarrow> nat" where
  "timer_us clk t = clk t div 1000"

partial_function (option) await_loop ::
    "device \<Rightarrow> (history \<Rightarrow> nat) \<Rightarrow> addr \<Rightarrow> u32 \<Rightarrow> u32 \<Rightarrow> nat \<Rightarrow> history \<Rightarrow> history step_result" where
  "await_loop d clk a m v tmo t =
     (let (x, t) = readl d a t
      in if x AND m = v then Some (Inr t)
         else if timer_us clk t > tmo then Some (Inl t)
         else await_loop d clk a m v tmo t)"

declare await_loop.simps [code]

definition mctl_await_completion ::
    "device \<Rightarrow> (history \<Rightarrow> nat) \<Rightarrow> addr \<Rightarrow> u32 \<Rightarrow> u32 \<Rightarrow> history \<Rightarrow> history step_result" where
  "mctl_await_completion d clk a m v t = await_loop d clk a m v (timer_us clk t + 1000000) t"

definition mctl_phy_init :: "device \<Rightarrow> (history \<Rightarrow> nat) \<Rightarrow> u32 \<Rightarrow> history \<Rightarrow> history step_result" where
  "mctl_phy_init d clk val t = mctl_await_completion d clk PGSR0 1 1 (writel (val OR 1) MCTL t)"

section \<open>Bit delays and priorities\<close>

definition bit_delay_ops :: "dram_para \<Rightarrow> op list" where
  "bit_delay_ops p =
     Clrbits PGCR0 (push_bit 26 1) #
     concat (map (\<lambda>i. map (\<lambda>j.
         Writel (push_bit 8 (of_nat (dx_write_delays p ! i ! j)) OR of_nat (dx_read_delays p ! i ! j))
           (dx i + 0x10 + 4 * of_nat j)) [0..<11]) [0..<4]) @
     map (\<lambda>i. Writel (push_bit 8 (of_nat (ac_delays p ! i))) (MCTL + 0x210 + 4 * of_nat i)) [0..<31] @
     [Setbits PGCR0 (push_bit 26 1)]"

definition mctl_set_bit_delays :: "device \<Rightarrow> dram_para \<Rightarrow> history \<Rightarrow> history" where
  "mctl_set_bit_delays d p = exec d (bit_delay_ops p)"

datatype mbus_qos = LOWEST | LOW | HIGH | HIGHEST

primrec qos_number :: "mbus_qos \<Rightarrow> u32" where
  "qos_number LOWEST = 0"
| "qos_number LOW = 1"
| "qos_number HIGH = 2"
| "qos_number HIGHEST = 3"

definition mbus_configure_port ::
    "u32 \<Rightarrow> bool \<Rightarrow> bool \<Rightarrow> u32 \<Rightarrow> u32 \<Rightarrow> u32 \<Rightarrow> u32 \<Rightarrow> u32 \<Rightarrow> u32 \<Rightarrow> op list" where
  "mbus_configure_port port bwlimit priority qos waittime acs bwl0 bwl1 bwl2 =
     [Writel ((if bwlimit then 1 else 0) OR (if priority then 2 else 0) OR push_bit 2 (qos AND 3) OR
        push_bit 4 (waittime AND 0xf) OR push_bit 8 (acs AND 0xff) OR push_bit 16 bwl0) (CR + 0x10 + 8 * port),
      Writel (push_bit 16 bwl2 OR (bwl1 AND 0xffff)) (CR + 0x14 + 8 * port)]"

definition MBUS_CONF :: "u32 \<Rightarrow> bool \<Rightarrow> mbus_qos \<Rightarrow> u32 \<Rightarrow> u32 \<Rightarrow> u32 \<Rightarrow> u32 \<Rightarrow> op list" where
  "MBUS_CONF port bwlimit qos acs bwl0 bwl1 bwl2 =
     mbus_configure_port port bwlimit False (qos_number qos) 0 acs bwl0 bwl1 bwl2"

definition priority_h3 :: "op list" where
  "priority_h3 = [Writel (push_bit 16 1 OR 400) (CR + 0x90), Writel 1 (CR + 0x98)] @ concat [
     MBUS_CONF 0 True HIGHEST 0 512 256 128, MBUS_CONF 1 True HIGH 0 1536 1024 256,
     MBUS_CONF 2 True HIGHEST 0 512 256 96, MBUS_CONF 3 True HIGHEST 0 256 128 32,
     MBUS_CONF 4 True HIGH 0 1792 1600 256, MBUS_CONF 5 True HIGHEST 0 256 128 32,
     MBUS_CONF 6 True HIGH 0 256 128 64, MBUS_CONF 7 True HIGHEST 0 256 128 64,
     MBUS_CONF 8 True HIGHEST 0 256 128 64, MBUS_CONF 9 True HIGH 0 1024 256 64,
     MBUS_CONF 10 True HIGHEST 3 8192 6120 1024, MBUS_CONF 11 True HIGH 0 1024 288 64]"

definition priority_a64 :: "op list" where
  "priority_a64 = [Writel 399 (CR + 0x0c), Writel (push_bit 16 1) (CR + 0x90)] @ concat [
     MBUS_CONF 0 True HIGHEST 0 160 100 80, MBUS_CONF 1 False HIGH 0 1536 1400 256,
     MBUS_CONF 2 True HIGHEST 0 512 256 96, MBUS_CONF 3 True HIGH 0 256 80 100,
     MBUS_CONF 4 True HIGH 0 1792 1600 256, MBUS_CONF 5 True HIGH 0 256 128 0,
     MBUS_CONF 6 True HIGH 0 256 128 64, MBUS_CONF 7 True HIGHEST 0 256 128 64,
     MBUS_CONF 8 True HIGHEST 0 256 128 64, MBUS_CONF 9 True HIGH 0 1024 256 64,
     MBUS_CONF 10 True HIGH 2 8192 6144 2048, MBUS_CONF 11 True HIGH 0 1280 144 64] @
     [Writel 0x81000004 (CR + 0x130)]"

definition priority_h5 :: "op list" where
  "priority_h5 = [Writel 399 (CR + 0x0c), Writel (push_bit 16 1) (CR + 0x90), Writel 1 (CR + 0x98)] @ concat [
     MBUS_CONF 0 True HIGHEST 0 300 260 150, MBUS_CONF 1 True HIGHEST 0 600 400 200,
     MBUS_CONF 2 True HIGHEST 0 512 256 96, MBUS_CONF 3 True HIGHEST 0 256 128 32,
     MBUS_CONF 4 True HIGHEST 0 1900 1500 1000, MBUS_CONF 5 True HIGHEST 0 150 120 100,
     MBUS_CONF 6 True HIGH 0 256 128 64, MBUS_CONF 7 True HIGHEST 0 256 128 64,
     MBUS_CONF 8 True HIGHEST 0 256 128 64, MBUS_CONF 9 True HIGH 0 1024 256 64,
     MBUS_CONF 10 True HIGHEST 3 3400 2400 1024, MBUS_CONF 11 True HIGHEST 0 600 400 200]"

definition priority_r40 :: "op list" where
  "priority_r40 = [Writel 399 (CR + 0x0c), Writel (push_bit 16 1) (CR + 0x90), Writel 1 (CR + 0x98)] @ concat [
     MBUS_CONF 0 True HIGHEST 0 300 260 150, MBUS_CONF 1 True HIGHEST 0 600 400 200,
     MBUS_CONF 2 True HIGHEST 0 512 256 96, MBUS_CONF 3 True HIGHEST 0 256 128 32,
     MBUS_CONF 4 True HIGHEST 0 1900 1500 1000, MBUS_CONF 5 True HIGHEST 0 150 120 100,
     MBUS_CONF 6 True HIGH 0 256 128 64, MBUS_CONF 7 True HIGHEST 0 256 128 64,
     MBUS_CONF 8 True HIGHEST 0 256 128 64, MBUS_CONF 9 True HIGH 0 1024 256 64,
     MBUS_CONF 10 True HIGH 0 128 48 0, MBUS_CONF 11 True HIGH 0 384 256 0,
     MBUS_CONF 12 True HIGHEST 0 512 384 256, MBUS_CONF 13 True HIGHEST 2 8192 6144 1024,
     MBUS_CONF 14 True HIGH 0 1280 144 64]"

fun mctl_set_master_priority :: "device \<Rightarrow> socid \<Rightarrow> history \<Rightarrow> history" where
  "mctl_set_master_priority d SOCID_H3 = exec d priority_h3"
| "mctl_set_master_priority d SOCID_A64 = exec d priority_a64"
| "mctl_set_master_priority d SOCID_H5 = exec d priority_h5"
| "mctl_set_master_priority d SOCID_R40 = exec d priority_r40"

section \<open>Calibration\<close>

definition bin_to_mgray_table :: "u32 list" where
  "bin_to_mgray_table = [
     0x00, 0x01, 0x02, 0x03, 0x06, 0x07, 0x04, 0x05, 0x0c, 0x0d, 0x0e, 0x0f, 0x0a, 0x0b, 0x08, 0x09,
     0x18, 0x19, 0x1a, 0x1b, 0x1e, 0x1f, 0x1c, 0x1d, 0x14, 0x15, 0x16, 0x17, 0x12, 0x13, 0x10, 0x11]"

definition mgray_to_bin_table :: "int list" where
  "mgray_to_bin_table = [
     0x00, 0x01, 0x02, 0x03, 0x06, 0x07, 0x04, 0x05, 0x0e, 0x0f, 0x0c, 0x0d, 0x08, 0x09, 0x0a, 0x0b,
     0x1e, 0x1f, 0x1c, 0x1d, 0x18, 0x19, 0x1a, 0x1b, 0x10, 0x11, 0x12, 0x13, 0x16, 0x17, 0x14, 0x15]"

definition bin_to_mgray :: "int \<Rightarrow> u32" where
  "bin_to_mgray val = bin_to_mgray_table ! nat (min (max val 0) 31)"

definition mgray_to_bin :: "u32 \<Rightarrow> int" where
  "mgray_to_bin val = mgray_to_bin_table ! unat (val AND 0x1f)"

definition DRAM_ZQ :: u32 where "DRAM_ZQ = 3881949"

definition zcal :: "device \<Rightarrow> (history \<Rightarrow> nat) \<Rightarrow> history \<Rightarrow> history step_result" where
  "zcal d clk t = mctl_phy_init d clk 2 (writel (push_bit 27 1) MCTL t)"

text \<open>One value of \<open>zq_val\<close>, of 16 bits; \<open>REPEAT_BYTE\<close> of it has no room for bits above a byte here.\<close>

definition zq_round :: "device \<Rightarrow> (history \<Rightarrow> nat) \<Rightarrow> nat \<Rightarrow> history \<Rightarrow> (u32 \<times> history) step_result" where
  "zq_round d clk i t =
     (let zq = drop_bit (i * 4) DRAM_ZQ AND 0xf
      in on_ok (zcal d clk (writel (push_bit 20 zq OR push_bit 16 zq OR push_bit 12 zq OR push_bit 8 zq OR
                  push_bit 4 zq OR zq) ZQCR t)) (\<lambda>t.
         let (v, t) = readl d ZQDR0 t; lo = v AND 0xff
         in on_ok (zcal d clk (writel (0x01010101 * lo) (ZQDR0 + 8) t)) (\<lambda>t.
            let (v, t) = readl d ZQDR0 t
            in Some (Inr (lo OR push_bit 8 (bin_to_mgray (mgray_to_bin (drop_bit 24 v) - 1)), t)))))"

fun zq_rounds :: "device \<Rightarrow> (history \<Rightarrow> nat) \<Rightarrow> nat list \<Rightarrow> history \<Rightarrow> (u32 list \<times> history) step_result" where
  "zq_rounds d clk [] t = Some (Inr ([], t))"
| "zq_rounds d clk (i # is) t =
     on_ok (zq_round d clk i t) (\<lambda>(z, t).
     on_ok (zq_rounds d clk is t) (\<lambda>(zs, t). Some (Inr (z # zs, t))))"

text \<open>The halves of a byte pair moved into both, as the first variant of the quirk does.\<close>

definition zq_spread :: "u32 \<Rightarrow> u32" where
  "zq_spread v = (let v = v AND (push_bit 16 0x1f OR 0x1f) in v OR push_bit 8 v)"

definition mctl_h3_zq_calibration_quirk :: "device \<Rightarrow> (history \<Rightarrow> nat) \<Rightarrow> history \<Rightarrow> history step_result" where
  "mctl_h3_zq_calibration_quirk d clk t =
     (let (v, t) = readl d 0x01c00024 t;
          (first, t) = (if v AND 0xff = 0 then (let (v, t) = readl d 0x01c000f0 t in (v AND 1 = 0, t)) else (False, t))
      in if first
         then on_ok (zcal d clk (clrsetbits d ZQCR 0xffff (DRAM_ZQ AND 0xffff) t)) (\<lambda>t.
           let (v, t) = readl d ZQDR0 t; t = writel (zq_spread v) ZQDR0 t; (v, t) = readl d (ZQDR0 + 4) t
           in Some (Inr (exec d [Writel (zq_spread v) (ZQDR0 + 4), Writel (zq_spread v) (ZQDR0 + 8)] t)))
         else on_ok (zq_rounds d clk [0..<6] (writel 0x0a0a0a0a (ZQDR0 + 8) t)) (\<lambda>(zs, t).
           Some (Inr (exec d [Writel (push_bit 16 (zs ! 1) OR zs ! 0) ZQDR0,
             Writel (push_bit 16 (zs ! 3) OR zs ! 2) (ZQDR0 + 4),
             Writel (push_bit 16 (zs ! 5) OR zs ! 4) (ZQDR0 + 8)] t))))"

section \<open>Geometry and timings\<close>

definition generic_fls :: "u32 \<Rightarrow> nat" where
  "generic_fls x =
     (if x = 0 then 0
      else
        (let (x, r) = (if x AND 0xffff0000 = 0 then (push_bit 16 x, 32 - 16) else (x, 32));
             (x, r) = (if x AND 0xff000000 = 0 then (push_bit 8 x, r - 8) else (x, r));
             (x, r) = (if x AND 0xf0000000 = 0 then (push_bit 4 x, r - 4) else (x, r));
             (x, r) = (if x AND 0xc0000000 = 0 then (push_bit 2 x, r - 2) else (x, r));
             (x, r) = (if x AND 0x80000000 = 0 then (push_bit 1 x, r - 1) else (x, r))
         in r))"

text \<open>The fields that \<open>cr\<close> and \<open>cr_r1\<close> have in common.\<close>

definition rank_value :: "dram_para \<Rightarrow> rank_para \<Rightarrow> u32" where
  "rank_value p r =
     (if bank_bits r = 3 then push_bit 2 1 else 0) OR (if bus_full_width p then push_bit 12 1 else 0) OR
     (if dual_rank p then 1 else 0) OR push_bit 8 (of_nat (generic_fls (of_nat (page_size r))) - 4) OR
     push_bit 4 (of_nat (row_bits r) - 1)"

definition set_cr_ops :: "socid \<Rightarrow> dram_para \<Rightarrow> op list" where
  "set_cr_ops socid p =
     Writel (push_bit 20 4 OR push_bit 16 7 OR push_bit 19 1 OR rank_value p (rank0 p)) CR #
     (if socid = SOCID_A64 \<or> socid = SOCID_R40 then [Writel (rank_value p (rank1 p)) CR_R1] else []) @
     (if socid = SOCID_R40 \<and> \<not> dual_rank p then [Setbits CR_R1 (push_bit 21 1)] else [])"

definition mctl_set_cr :: "device \<Rightarrow> socid \<Rightarrow> dram_para \<Rightarrow> history \<Rightarrow> history" where
  "mctl_set_cr d socid p = exec d (set_cr_ops socid p)"

definition DRAM_CLK :: nat where "DRAM_CLK = 552"

definition ns_to_t :: "nat \<Rightarrow> nat" where
  "ns_to_t ns = (DRAM_CLK div 2 * ns + 999) div 1000"

text \<open>The timings are kept in eight or sixteen bits in the code; all of them fit.\<close>

definition timing_ops :: "op list" where
  "timing_ops =
     (let tccd = 2; tfaw = max (ns_to_t 50) 4; trrd = max (ns_to_t 10) 2; trcd = max (ns_to_t 24) 2; trc = ns_to_t 70;
          txp = max (ns_to_t 8) 2; twtr = max (ns_to_t 8) 2; trtp = max (ns_to_t 8) 2; twr = max (ns_to_t 15) 3;
          trp = max (ns_to_t 27) 2; tras = ns_to_t 42; trefi = ns_to_t 3900 div 32; trfc = ns_to_t 210;
          tmrw = 5; tmrd = 5; tmod = 12; tcke = 3; tcksrx = 5; tcksre = 5; tckesr = 5; trasmax = 24;
          tcl = 6; tcwl = 3; t_rdata_en = 5; wr_latency = 2;
          tdinit0 = 200 * DRAM_CLK + 1; tdinit1 = 100 * DRAM_CLK div 1000 + 1; tdinit2 = 11 * DRAM_CLK + 1;
          tdinit3 = 1 * DRAM_CLK + 1;
          twtp = tcwl + 4 + twr + 1; twr2rd = tcwl + 4 + 1 + twtr; trd2wr = tcl + 4 + 5 - tcwl + 1;
          f = (\<lambda>n (x :: nat). push_bit n (of_nat x :: u32))
      in [Writel 0xc3 (MCTL + 0x34), Writel 0xa (MCTL + 0x38), Writel 0x2 (MCTL + 0x3c),
          Writel (f 24 twtp OR f 16 tfaw OR f 8 trasmax OR f 0 tras) (MCTL + 0x58),
          Writel (f 16 txp OR f 8 trtp OR f 0 trc) (MCTL + 0x5c),
          Writel (f 24 tcwl OR f 16 tcl OR f 8 trd2wr OR f 0 twr2rd) (MCTL + 0x60),
          Writel (f 16 tmrw OR f 12 tmrd OR f 0 tmod) (MCTL + 0x64),
          Writel (f 24 trcd OR f 16 tccd OR f 8 trrd OR f 0 trp) (MCTL + 0x68),
          Writel (f 24 tcksrx OR f 16 tcksre OR f 8 tckesr OR f 0 tcke) (MCTL + 0x6c),
          Clrsetbits (MCTL + 0x78) 0xffff 0x6610,
          Writel (push_bit 24 2 OR f 16 t_rdata_en OR push_bit 8 1 OR f 0 wr_latency) (MCTL + 0x80),
          Writel (f 0 tdinit0 OR f 20 tdinit1) (MCTL + 0x50),
          Writel (f 0 tdinit2 OR f 20 tdinit3) (MCTL + 0x54),
          Writel (f 16 trefi OR f 0 trfc) (MCTL + 0x90)])"

definition mctl_set_timing_params :: "device \<Rightarrow> history \<Rightarrow> history" where
  "mctl_set_timing_params d = exec d timing_ops"

section \<open>Clocks and resets\<close>

definition two_ranks_kept :: "socid \<Rightarrow> bool" where
  "two_ranks_kept socid \<longleftrightarrow> socid = SOCID_A64 \<or> socid = SOCID_R40"

definition mctl_sys_init :: "device \<Rightarrow> (history \<Rightarrow> nat) \<Rightarrow> socid \<Rightarrow> history \<Rightarrow> history step_result" where
  "mctl_sys_init d clk socid t =
     (let t = exec d ([Clrbits (CCM + 0x15c) (push_bit 31 1), Clrbits (CCM + 0xfc) (push_bit 31 1),
            Clrbits (CCM + 0x60) (push_bit 14 1), Clrbits (CCM + 0x2c0) (push_bit 14 1),
            Clrbits (CCM + 0x20) (push_bit 31 1)] @
            (if two_ranks_kept socid then [Clrbits (CCM + 0x4c) (push_bit 31 1)] else []) @
            [Udelay 10, Clrbits (CCM + 0xf4) (push_bit 31 1), Udelay 1000]) t;
          rate = of_nat (DRAM_CLK * 2 * 1000000);
          r = (if two_ranks_kept socid
               then map_option (clrsetbits d (CCM + 0xf4) (0xf OR push_bit 20 3) (push_bit 20 1 OR push_bit 16 1))
                      (clock_set_pll11 d rate False t)
               else Some (clrsetbits d (CCM + 0xf4) (0xf OR push_bit 20 3) (push_bit 16 1)
                      (clock_set_pll5 d rate False t)))
      in on_ok (ending r) (\<lambda>t.
         on_ok (mctl_await_completion d clk (CCM + 0xf4) (push_bit 16 1) 0 t) (\<lambda>t.
         Some (Inr (exec d [Setbits (CCM + 0x2c0) (push_bit 14 1), Setbits (CCM + 0x60) (push_bit 14 1),
           Setbits (CCM + 0xfc) (push_bit 31 1), Setbits (CCM + 0x15c) (push_bit 31 1),
           Setbits (CCM + 0xf4) (push_bit 31 1), Udelay 10,
           Writel (if socid = SOCID_H5 then 0x8000 else 0xc00e) (MCTL + 0x0c), Udelay 500] t)))))"

section \<open>The channel\<close>

definition pgcr_ops :: "socid \<Rightarrow> op list" where
  "pgcr_ops socid =
     [Clrbits PGCR0 (push_bit 30 1 OR 0x3f),
      if socid = SOCID_H5 then Setbits PGCR1 (push_bit 24 1 OR push_bit 26 1)
      else Clrsetbits PGCR1 (push_bit 24 1) (push_bit 26 1),
      Writel 0x94be6fa3 (CR + 0x800), Udelay 100, Clrsetbits (MCTL + 0x888) (push_bit 16 0xfff) (push_bit 16 0x50),
      Writel 0 (CR + 0x800), Udelay 100]"

text \<open>\<open>CONFIG_DRAM_ODT_EN\<close> is set: the termination is dynamic, a zero in the field.\<close>

definition odt_ops :: "socid \<Rightarrow> op list" where
  "odt_ops socid =
     map (\<lambda>i. Clrsetbits (DX_GCR i)
         (push_bit 4 3 OR push_bit 1 1 OR push_bit 2 3 OR push_bit 12 3 OR push_bit 14 3 OR
          (if socid = SOCID_H5 then push_bit 8 2 else 0))
         (if socid = SOCID_H5 then push_bit 8 4 else 0)) [0..<4] @
     [Clrsetbits (MCTL + 0x208) (if socid = SOCID_H5 then push_bit 11 1 else 0) (push_bit 1 1),
      Setbits PGCR2 (push_bit 6 3)]"

definition phase_ops :: "socid \<Rightarrow> op list" where
  "phase_ops socid =
     (let dynamic = Clrbits PGCR0 (push_bit 14 3 OR push_bit 12 3); phase = Clrsetbits PGCR2 (push_bit 10 3 OR push_bit 8 3)
      in case socid of
           SOCID_H3 \<Rightarrow> [dynamic, phase (push_bit 10 1 OR push_bit 8 2)]
         | SOCID_R40 \<Rightarrow> [dynamic, phase (push_bit 8 3)]
         | _ \<Rightarrow> [phase (push_bit 8 3)])"

text \<open>Up to the first training; the two upper lanes are off on half a bus.\<close>

definition half_dq :: "op list" where
  "half_dq = [Writel 0 (DX_GCR 2), Writel 0 (DX_GCR 3)]"

definition channel_setup :: "device \<Rightarrow> socid \<Rightarrow> dram_para \<Rightarrow> history \<Rightarrow> history" where
  "channel_setup d socid p t =
     exec d (pgcr_ops socid @ odt_ops socid @ phase_ops socid @ (if bus_full_width p then [] else half_dq) @
         [Clrsetbits DTCR (push_bit 24 0xf) (push_bit 24 (if dual_rank p then 3 else 1))] @ bit_delay_ops p @ [Udelay 50])
       (mctl_set_master_priority d socid (mctl_set_timing_params d (mctl_set_cr d socid p t)))"

definition train :: "device \<Rightarrow> (history \<Rightarrow> nat) \<Rightarrow> socid \<Rightarrow> history \<Rightarrow> history step_result" where
  "train d clk socid t =
     (let steps = push_bit 4 1 OR push_bit 5 1 OR push_bit 6 1 OR push_bit 7 1 OR push_bit 8 1;
          zq = clrsetbits d ZQCR 0xffffff DRAM_ZQ
      in case socid of
           SOCID_H3 \<Rightarrow> on_ok (mctl_h3_zq_calibration_quirk d clk t) (mctl_phy_init d clk (steps OR push_bit 10 1))
         | SOCID_R40 \<Rightarrow> mctl_phy_init d clk (push_bit 1 1 OR steps) (zq t)
         | _ \<Rightarrow> mctl_phy_init d clk (push_bit 1 1 OR steps OR push_bit 10 1) (zq t))"

text \<open>\<open>((readl(a) >> 24) & m) || ((readl(b) >> 24) & m)\<close>\<close>

definition lane_error :: "device \<Rightarrow> addr \<Rightarrow> addr \<Rightarrow> u32 \<Rightarrow> history \<Rightarrow> bool \<times> history" where
  "lane_error d a b m t =
     (let (v, t) = readl d a t
      in if drop_bit 24 v AND m \<noteq> 0 then (True, t)
         else (let (v, t) = readl d b t in (drop_bit 24 v AND m \<noteq> 0, t)))"

definition training_failed :: "device \<Rightarrow> history \<Rightarrow> bool \<times> history" where
  "training_failed d t = (let (v, t) = readl d PGSR0 t in (v AND push_bit 20 0xfe \<noteq> 0, t))"

text \<open>After a training with errors: one rank, half a bus, and once more. The first component is the error.\<close>

definition detect_ranks ::
    "device \<Rightarrow> (history \<Rightarrow> nat) \<Rightarrow> socid \<Rightarrow> dram_para \<Rightarrow> history \<Rightarrow> (bool \<times> dram_para \<times> history) step_result" where
  "detect_ranks d clk socid p t =
     (let (failed, t) = training_failed d t
      in if \<not> failed then Some (Inr (False, p, t))
         else
           (let (single, t) = lane_error d (DX_GSR0 0) (DX_GSR0 1) 2 t;
                t = (if single then clrsetbits d DTCR (push_bit 24 0xf) (push_bit 24 1) t else t);
                p = (if single then p\<lparr>dual_rank := False\<rparr> else p);
                (half, t) = lane_error d (DX_GSR0 2) (DX_GSR0 3) 1 t;
                t = (if half then exec d half_dq t else t);
                p = (if half then p\<lparr>bus_full_width := False\<rparr> else p);
                t = udelay 20 (mctl_set_cr d socid p t)
            in on_ok (mctl_phy_init d clk (push_bit 10 1) t) (\<lambda>t.
                 let (failed, t) = training_failed d t in Some (Inr (failed, p, t)))))"

definition mctl_channel_init ::
    "device \<Rightarrow> (history \<Rightarrow> nat) \<Rightarrow> socid \<Rightarrow> dram_para \<Rightarrow> history \<Rightarrow> (bool \<times> dram_para \<times> history) step_result" where
  "mctl_channel_init d clk socid p t =
     on_ok (train d clk socid (channel_setup d socid p t)) (\<lambda>t.
     on_ok (detect_ranks d clk socid p t) (\<lambda>(failed, p, t).
     if failed then Some (Inr (True, p, t))
     else
       on_ok (mctl_await_completion d clk STATR 1 1 t) (\<lambda>t.
       Some (Inr (False, p, exec d [Setbits (MCTL + 0x8c) (push_bit 31 1), Udelay 10,
         Clrbits (MCTL + 0x8c) (push_bit 31 1), Udelay 10,
         Writel (if socid = SOCID_H3 then 0x00aa0060 else 0xc0aa0060) (MCTL + 0x10c),
         Setbits ZQCR (push_bit 31 1), Writel 0xffffffff (CR + 0x94)] t)))))"

section \<open>The size\<close>

definition mctl_mem_matches_base :: "device \<Rightarrow> nat \<Rightarrow> nat \<Rightarrow> history \<Rightarrow> bool \<times> history" where
  "mctl_mem_matches_base d off base t =
     (let t = writel 0xaa55aa55 (of_nat (base + off)) (writel 0 (of_nat base) t);
          (v, t) = readl d (of_nat base) t; (w, t) = readl d (of_nat (base + off)) t
      in (v = w, t))"

text \<open>
  \<open>for (x = first; x < last; x = next) if (match at offset(x)) break;\<close> with the values that \<open>x\<close> runs
  through in a list; \<open>x\<close> ends at \<open>last\<close> if none matches.
\<close>

fun first_match :: "device \<Rightarrow> nat \<Rightarrow> (nat \<Rightarrow> nat) \<Rightarrow> nat list \<Rightarrow> nat \<Rightarrow> history \<Rightarrow> nat \<times> history" where
  "first_match d base off [] final t = (final, t)"
| "first_match d base off (x # xs) final t =
     (let (hit, t) = mctl_mem_matches_base d (off x) base t
      in if hit then (x, t) else first_match d base off xs final t)"

text \<open>\<open>set_rank\<close> stores the parameters into the rank that is examined.\<close>

definition mctl_auto_detect_dram_size_rank ::
    "device \<Rightarrow> socid \<Rightarrow> (rank_para \<Rightarrow> dram_para \<Rightarrow> dram_para) \<Rightarrow> nat \<Rightarrow> dram_para \<Rightarrow> history \<Rightarrow>
     rank_para \<times> dram_para \<times> history" where
  "mctl_auto_detect_dram_size_rank d socid set_rank base p t =
     (let r = \<lparr>page_size = 512, row_bits = 16, bank_bits = 2\<rparr>; p = set_rank r p;
          (rows, t) = first_match d base (\<lambda>x. 2 ^ (x + 2) * 512) [11, 12, 13, 14, 15] 16 (mctl_set_cr d socid p t);
          r = r\<lparr>row_bits := rows, bank_bits := 3\<rparr>; p = set_rank r p;
          (banks, t) = first_match d base (\<lambda>x. 2 ^ x * 512) [2] 3 (mctl_set_cr d socid p t);
          r = r\<lparr>bank_bits := banks, page_size := 8192\<rparr>; p = set_rank r p;
          (page, t) = first_match d base (\<lambda>x. x) [512, 1024, 2048, 4096] 8192 (mctl_set_cr d socid p t);
          r = r\<lparr>page_size := page\<rparr>
      in (r, set_rank r p, t))"

definition mctl_calc_rank_size :: "rank_para \<Rightarrow> nat" where
  "mctl_calc_rank_size r = 2 ^ (row_bits r + bank_bits r) * page_size r"

definition SDRAM_BASE :: nat where "SDRAM_BASE = 0x40000000"

definition set_rank0 :: "rank_para \<Rightarrow> dram_para \<Rightarrow> dram_para" where
  "set_rank0 r p = p\<lparr>rank0 := r\<rparr>"

definition set_rank1 :: "rank_para \<Rightarrow> dram_para \<Rightarrow> dram_para" where
  "set_rank1 r p = p\<lparr>rank1 := r\<rparr>"

definition mctl_auto_detect_dram_size :: "device \<Rightarrow> socid \<Rightarrow> dram_para \<Rightarrow> history \<Rightarrow> dram_para \<times> history" where
  "mctl_auto_detect_dram_size d socid p t =
     (let (r, p, t) = mctl_auto_detect_dram_size_rank d socid set_rank0 SDRAM_BASE p t
      in if two_ranks_kept socid \<and> dual_rank p
         then (let (r', p, t) = mctl_auto_detect_dram_size_rank d socid set_rank1 (SDRAM_BASE + mctl_calc_rank_size r) p t
               in (p, t))
         else (p, t))"

section \<open>The whole\<close>

definition a64_read_delays :: "nat list list" where
  "a64_read_delays =
     [[16, 16, 16, 16, 17, 16, 16, 17, 16, 1, 0], [17, 17, 17, 17, 17, 17, 17, 17, 17, 1, 0],
      [16, 17, 17, 16, 16, 16, 16, 16, 16, 0, 0], [17, 17, 17, 17, 17, 17, 17, 17, 17, 1, 0]]"

definition a64_write_delays :: "nat list list" where
  "a64_write_delays =
     [[0, 0, 0, 0, 0, 0, 0, 0, 0, 15, 15], [0, 0, 0, 0, 1, 1, 1, 1, 0, 10, 10],
      [1, 0, 1, 1, 1, 1, 1, 1, 0, 11, 11], [1, 0, 0, 1, 1, 1, 1, 1, 0, 12, 12]]"

definition a64_ac_delays :: "nat list" where
  "a64_ac_delays = [5, 5, 13, 10, 2, 5, 3, 3, 0, 3, 3, 3, 1, 0, 0, 0, 3, 4, 0, 3, 4, 1, 4, 0, 1, 1, 0, 1, 13, 5, 4]"

definition a64_para :: dram_para where
  "a64_para =
     (let r = \<lparr>page_size = 4096, row_bits = 15, bank_bits = 3\<rparr>
      in \<lparr>dual_rank = True, bus_full_width = True, rank0 = r, rank1 = r, dx_read_delays = a64_read_delays,
          dx_write_delays = a64_write_delays, ac_delays = a64_ac_delays\<rparr>)"

definition odt_finish :: "socid \<Rightarrow> dram_para \<Rightarrow> op list" where
  "odt_finish socid p =
     [Writel (if dual_rank p then 0x303 else 0x201) (MCTL + 0x120), Udelay 1] @
     (if socid = SOCID_H3 then [Writel 0x0c000400 (MCTL + 0x7c)]
      else [Setbits (MCTL + 0xb8) (push_bit 8 (if socid \<noteq> SOCID_A64 then 3 else 2)), Clrbits PGCR2 (push_bit 13 1)]) @
     [Setbits (CR + 0xd0) (push_bit 31 1), Udelay 10]"

definition dram_size :: "socid \<Rightarrow> dram_para \<Rightarrow> nat" where
  "dram_size socid p =
     mctl_calc_rank_size (rank0 p) *
       (if \<not> two_ranks_kept socid \<and> dual_rank p then 2 else 1) +
     (if two_ranks_kept socid \<and> dual_rank p then mctl_calc_rank_size (rank1 p) else 0)"

text \<open>\<open>sunxi_dram_init\<close> from its initial parameters on.\<close>

definition dram_init_from ::
    "device \<Rightarrow> (history \<Rightarrow> nat) \<Rightarrow> socid \<Rightarrow> dram_para \<Rightarrow> history \<Rightarrow> (nat \<times> history) step_result" where
  "dram_init_from d clk socid p t =
     on_ok (mctl_sys_init d clk socid t) (\<lambda>t.
     on_ok (mctl_channel_init d clk socid p t) (\<lambda>(failed, p, t).
     if failed then Some (Inr (0, t))
     else
       (let (p, t) = mctl_auto_detect_dram_size d socid p (exec d (odt_finish socid p) t)
        in Some (Inr (dram_size socid p, mctl_set_cr d socid p t)))))"

definition sunxi_dram_init :: "device \<Rightarrow> (history \<Rightarrow> nat) \<Rightarrow> history \<Rightarrow> (nat \<times> history) step_result" where
  "sunxi_dram_init d clk = dram_init_from d clk SOCID_A64 a64_para"

end
