(* ===== verification/Dram_Size.thy ===== *)
theory Dram_Size
  imports Dram
begin

text \<open>
  How the driver finds out the size of the memory. A rank of memory chips is described by its rows,
  banks and the size of its pages; the controller splits an address into these by the configuration in
  its register, and the chips ignore the lines that they do not have (locale \<open>dram_rank\<close>). For every
  such memory the driver finds the geometry, and the size that it reports is the sum of the ranks.
\<close>

section \<open>Chips\<close>

text \<open>Row bits, bank bits and the logarithm of the page size, as the register holds them.\<close>

definition geometry_of :: "u32 \<Rightarrow> nat \<times> nat \<times> nat" where
  "geometry_of c = (unat (drop_bit 4 c AND 0xf) + 1, if bit c 2 then 3 else 2, unat (drop_bit 8 c AND 0xf) + 3)"

text \<open>The configuration's row, bank and column of an offset, cut to the lines that the chip has.\<close>

fun cell :: "nat \<times> nat \<times> nat \<Rightarrow> nat \<times> nat \<times> nat \<Rightarrow> nat \<Rightarrow> nat \<times> nat \<times> nat" where
  "cell (R, B, P) (r, b, p) off =
     (off div 2 ^ (P + B) mod 2 ^ R mod 2 ^ r, off div 2 ^ P mod 2 ^ B mod 2 ^ b, off mod 2 ^ P mod 2 ^ p)"

fun window :: "nat \<times> nat \<times> nat \<Rightarrow> nat" where
  "window (R, B, P) = 2 ^ (R + B + P)"

fun configured :: "addr \<Rightarrow> history \<Rightarrow> u32 option" where
  "configured cr [] = None"
| "configured cr (Wr a v # t) = (if a = cr then Some v else configured cr t)"
| "configured cr (_ # t) = configured cr t"

text \<open>The value last written to the cell of an address, since the controller was configured.\<close>

fun stored :: "nat \<Rightarrow> nat \<times> nat \<times> nat \<Rightarrow> nat \<times> nat \<times> nat \<Rightarrow> history \<Rightarrow> nat \<Rightarrow> u32 option" where
  "stored base conf chip [] off = None"
| "stored base conf chip (Wr a v # t) off =
     (if a = CR \<or> a = CR_R1 then None
      else if base \<le> unat a \<and> unat a < base + window conf \<and> cell conf chip (unat a - base) = cell conf chip off
      then Some v else stored base conf chip t off)"
| "stored base conf chip (_ # t) off = stored base conf chip t off"

text \<open>The second rank starts where the configuration of the first one ends.\<close>

definition starts :: "addr \<Rightarrow> nat \<Rightarrow> history \<Rightarrow> bool" where
  "starts cr base t \<longleftrightarrow>
     (if cr = CR then base = SDRAM_BASE
      else \<exists>c. configured CR t = Some c \<and> base = SDRAM_BASE + window (geometry_of c))"

locale dram_rank =
  fixes d :: device and cr :: addr and base r b p :: nat
  assumes register: "cr = CR \<or> cr = CR_R1"
    and place: "0x40000000 \<le> base" "base + 2 ^ 27 \<le> 2 ^ 32"
    and rows: "11 \<le> r" "r \<le> 16" and banks: "2 \<le> b" "b \<le> 3" and page: "9 \<le> p" "p \<le> 13"
    and keeps: "configured cr t = Some c \<Longrightarrow> starts cr base t \<Longrightarrow> off < window (geometry_of c) \<Longrightarrow> base + off < 2 ^ 32 \<Longrightarrow>
      stored base (geometry_of c) (r, b, p) t off = Some v \<Longrightarrow> d t (of_nat (base + off)) = v"

section \<open>One probe\<close>

lemma two_powers_mod: "(2 :: nat) ^ x mod 2 ^ r = 0 \<longleftrightarrow> r \<le> x"
  by (metis dvd_power_iff_le le_refl mod_0_imp_dvd dvd_imp_mod_0 one_less_numeral_iff semiring_norm(76))

lemma unat_of_nat_addr: "n < 2 ^ 32 \<Longrightarrow> unat (of_nat n :: addr) = n"
  by (simp add: unsigned_of_nat take_bit_nat_eq_self)

context dram_rank
begin

lemma not_register:
  assumes "base \<le> n" "n < 2 ^ 32"
  shows "(of_nat n :: addr) \<noteq> CR" "(of_nat n :: addr) \<noteq> CR_R1" "(of_nat n :: addr) \<noteq> cr"
proof -
  have "unat (of_nat n :: addr) \<ge> 0x40000000"
    using assms place unat_of_nat_addr [of n] by simp
  moreover have "unat CR < 0x40000000" "unat CR_R1 < 0x40000000"
    by simp_all
  ultimately show "(of_nat n :: addr) \<noteq> CR" "(of_nat n :: addr) \<noteq> CR_R1" "(of_nat n :: addr) \<noteq> cr"
    using register by auto
qed

lemma probe:
  assumes c: "configured cr t = Some c" "starts cr base t" and off: "off < window (geometry_of c)" "off \<le> 2 ^ 26"
  shows "\<exists>t'. mctl_mem_matches_base d off base t =
      (cell (geometry_of c) (r, b, p) off = cell (geometry_of c) (r, b, p) 0, t') \<and> configured cr t' = Some c \<and> starts cr base t'"
proof -
  let ?conf = "geometry_of c"
  have small: "base < 2 ^ 32" "base + off < 2 ^ 32"
    using place off by simp_all
  have addr: "unat (of_nat base :: addr) = base" "unat (of_nat (base + off) :: addr) = base + off"
    using small by (simp_all add: unat_of_nat_addr del: of_nat_add)
  have other: "(of_nat base :: addr) \<noteq> CR" "(of_nat base :: addr) \<noteq> CR_R1" "(of_nat base :: addr) \<noteq> cr"
    "(of_nat (base + off) :: addr) \<noteq> CR" "(of_nat (base + off) :: addr) \<noteq> CR_R1" "(of_nat (base + off) :: addr) \<noteq> cr"
    using not_register [of base] not_register [of "base + off"] small by simp_all
  define u where "u = Wr (of_nat (base + off)) 0xaa55aa55 # Wr (of_nat base) 0 # t"
  have u: "configured cr u = Some c" "starts cr base u"
    using c other by (simp_all add: u_def starts_def del: of_nat_add)
  have zero: "0 < window ?conf"
    using off(1) by simp
  have first: "d u (of_nat (base + 0)) = (if cell ?conf (r, b, p) off = cell ?conf (r, b, p) 0 then 0xaa55aa55 else 0)"
    by (rule keeps [OF u zero]; use off zero small other addr in \<open>simp add: u_def del: of_nat_add cell.simps\<close>)
  define u' where "u' = Rd (of_nat base) (d u (of_nat base)) # u"
  have u': "configured cr u' = Some c" "starts cr base u'"
    using u by (simp_all add: u'_def starts_def)
  have second: "d u' (of_nat (base + off)) = 0xaa55aa55"
    by (rule keeps [OF u' off(1)]; use off small other addr in \<open>simp add: u'_def u_def del: of_nat_add cell.simps\<close>)
  have "mctl_mem_matches_base d off base t =
      (d u (of_nat base) = d u' (of_nat (base + off)), Rd (of_nat (base + off)) (d u' (of_nat (base + off))) # u')"
    by (simp add: mctl_mem_matches_base_def readl_def writel_def Let_def u_def u'_def del: of_nat_add)
  then show ?thesis
    using first second u' by (auto simp: starts_def)
qed

lemma probes:
  "configured cr t = Some c \<Longrightarrow> starts cr base t \<Longrightarrow> \<forall>x \<in> set xs. off x < window (geometry_of c) \<and> off x \<le> 2 ^ 26 \<Longrightarrow>
   \<exists>t'. first_match d base off xs final t =
      (case find (\<lambda>x. cell (geometry_of c) (r, b, p) (off x) = cell (geometry_of c) (r, b, p) 0) xs of
         None \<Rightarrow> final | Some x \<Rightarrow> x, t') \<and> configured cr t' = Some c"
proof (induction xs arbitrary: t)
  case (Cons x xs)
  obtain t' where "mctl_mem_matches_base d (off x) base t =
      (cell (geometry_of c) (r, b, p) (off x) = cell (geometry_of c) (r, b, p) 0, t')" "configured cr t' = Some c" "starts cr base t'"
    using probe [of t c "off x"] Cons.prems by auto
  then show ?case
    using Cons.IH [of t'] Cons.prems(3) by auto
qed simp

end

section \<open>What the driver configures\<close>

lemma fls_pages: "generic_fls 512 = 10" "generic_fls 1024 = 11" "generic_fls 2048 = 12" "generic_fls 4096 = 13"
  "generic_fls 8192 = 14"
  by (simp_all add: generic_fls_def)

lemma in_9_13: "9 \<le> n \<Longrightarrow> n \<le> 13 \<Longrightarrow> n = 9 \<or> n = 10 \<or> n = 11 \<or> n = 12 \<or> n = (13 :: nat)"
  by linarith

lemma in_11_16: "11 \<le> n \<Longrightarrow> n \<le> 16 \<Longrightarrow> n = 11 \<or> n = 12 \<or> n = 13 \<or> n = 14 \<or> n = 15 \<or> n = (16 :: nat)"
  by linarith

lemma rank_value_geometry:
  assumes "page_size k = 2 ^ n" "9 \<le> n" "n \<le> 13" "11 \<le> row_bits k" "row_bits k \<le> 16"
    "bank_bits k = 2 \<or> bank_bits k = 3"
  shows "geometry_of (rank_value q k) = (row_bits k, bank_bits k, n)"
    "geometry_of (push_bit 20 4 OR push_bit 16 7 OR push_bit 19 1 OR rank_value q k) = (row_bits k, bank_bits k, n)"
  using in_9_13 [OF assms(2,3)] in_11_16 [OF assms(4,5)] assms(1,6)
  by (elim disjE; simp add: geometry_of_def rank_value_def fls_pages)+

definition chip :: "nat \<Rightarrow> nat \<Rightarrow> nat \<Rightarrow> rank_para" where
  "chip r b p = \<lparr>page_size = 2 ^ p, row_bits = r, bank_bits = b\<rparr>"

lemma chip_size: "mctl_calc_rank_size (chip r b p) = 2 ^ (r + b + p)"
  by (simp add: mctl_calc_rank_size_def chip_def power_add)

text \<open>The two registers that may hold a rank, and the update that goes with them.\<close>

definition rank_of :: "addr \<Rightarrow> dram_para \<Rightarrow> rank_para" where
  "rank_of cr q = (if cr = CR then rank0 q else rank1 q)"

definition set_rank :: "addr \<Rightarrow> rank_para \<Rightarrow> dram_para \<Rightarrow> dram_para" where
  "set_rank cr = (if cr = CR then set_rank0 else set_rank1)"

lemma rank_of_set [simp]: "rank_of cr (set_rank cr k q) = k" "set_rank cr k (set_rank cr k' q) = set_rank cr k q"
  by (simp_all add: rank_of_def set_rank_def set_rank0_def set_rank1_def)

lemma configured_set_cr:
  assumes "cr = CR \<or> two_ranks_kept socid \<and> cr = CR_R1 \<and> (socid = SOCID_R40 \<longrightarrow> dual_rank q)"
    "page_size k = 2 ^ n" "9 \<le> n" "n \<le> 13" "11 \<le> row_bits k" "row_bits k \<le> 16" "bank_bits k = 2 \<or> bank_bits k = 3"
    "rank_of cr q = k"
  shows "\<exists>c. configured cr (mctl_set_cr d socid q t) = Some c \<and> geometry_of c = (row_bits k, bank_bits k, n)"
  using assms(1,8) rank_value_geometry [OF assms(2-7), of q]
  by (auto simp: mctl_set_cr_def set_cr_ops_def rank_of_def two_ranks_kept_def writel_def setbits_def readl_def Let_def)

text \<open>The rank before is set to its chips.\<close>

definition located :: "addr \<Rightarrow> nat \<Rightarrow> dram_para \<Rightarrow> bool" where
  "located cr base q \<longleftrightarrow>
     (if cr = CR then base = SDRAM_BASE
      else \<exists>r b p. 11 \<le> r \<and> r \<le> 16 \<and> 2 \<le> b \<and> b \<le> 3 \<and> 9 \<le> p \<and> p \<le> 13 \<and> rank0 q = chip r b p \<and>
        base = SDRAM_BASE + window (r, b, p))"

lemma located_set [simp]: "located cr base (set_rank cr k q) = located cr base q"
  by (simp add: located_def set_rank_def set_rank1_def)

lemma starts_set_cr:
  assumes "located cr base q"
  shows "starts cr base (mctl_set_cr d socid q t)"
proof (cases "cr = CR")
  case False
  then obtain r b p where g: "11 \<le> r" "r \<le> 16" "2 \<le> b" "b \<le> 3" "9 \<le> p" "p \<le> 13" "rank0 q = chip r b p"
    "base = SDRAM_BASE + window (r, b, p)"
    using assms unfolding located_def by auto
  then obtain c where "configured CR (mctl_set_cr d socid q t) = Some c" "geometry_of c = (r, b, p)"
    using configured_set_cr [of CR socid q "chip r b p" p d t] by (fastforce simp: chip_def rank_of_def)
  with False g(8) show ?thesis
    by (simp add: starts_def del: window.simps)
qed (use assms in \<open>simp add: starts_def located_def\<close>)

context dram_rank
begin

lemma cell_rows: "x < 16 \<Longrightarrow> 11 \<le> x \<Longrightarrow>
    cell (16, 2, 9) (r, b, p) (2 ^ (x + 2) * 512) = cell (16, 2, 9) (r, b, p) 0 \<longleftrightarrow> r \<le> x"
proof -
  assume x: "x < 16" "11 \<le> x"
  have "(2 :: nat) ^ (x + 2) * 512 = 2 ^ x * 2048"
    by (simp add: power_add)
  moreover have "(2 :: nat) ^ x * 2048 div 512 mod 4 = 0"
  proof -
    have "(2 :: nat) ^ x * 2048 = (2 ^ x * 4) * 512"
      by simp
    then show ?thesis
      by (simp only: nonzero_mult_div_cancel_right) simp
  qed
  moreover have "(2 :: nat) ^ x * 2048 div 2048 = 2 ^ x"
    by (rule nonzero_mult_div_cancel_right) simp
  moreover have "(2 :: nat) ^ x < 2 ^ 16"
    using x by (intro power_strict_increasing) auto
  ultimately show ?thesis
    by (simp add: two_powers_mod)
qed

lemma cell_bank: "cell (r, 3, 9) (r, b, p) 2048 = cell (r, 3, 9) (r, b, p) 0 \<longleftrightarrow> b = 2"
proof -
  have "b = 2 \<or> b = 3"
    using banks by linarith
  moreover have "(2048 :: nat) mod 512 = 0"
    by simp
  ultimately show ?thesis
    by auto
qed

lemma cell_page: "9 \<le> k \<Longrightarrow> k < 13 \<Longrightarrow> cell (r, b, 13) (r, b, p) (2 ^ k) = cell (r, b, 13) (r, b, p) 0 \<longleftrightarrow> p \<le> k"
proof -
  assume k: "9 \<le> k" "k < 13"
  have "(2 :: nat) ^ k < 2 ^ 13"
    using k by (intro power_strict_increasing) auto
  moreover from this have "(2 :: nat) ^ k < 2 ^ (13 + b)"
    by (simp add: power_add) (metis less_le_trans mult.right_neutral mult_le_mono2 one_le_numeral one_le_power)
  ultimately show ?thesis
    by (simp add: two_powers_mod)
qed

lemma find_rows:
  "find (\<lambda>x. cell (16, 2, 9) (r, b, p) (2 ^ (x + 2) * 512) = cell (16, 2, 9) (r, b, p) 0) [11, 12, 13, 14, 15] =
   (if r = 16 then None else Some r)"
proof -
  have "find (\<lambda>x. cell (16, 2, 9) (r, b, p) (2 ^ (x + 2) * 512) = cell (16, 2, 9) (r, b, p) 0) [11, 12, 13, 14, 15] =
      find (\<lambda>x. r \<le> x) [11, 12, 13, 14, 15]"
    by (intro find_cong refl cell_rows) auto
  then show ?thesis
    using in_11_16 [OF rows] by auto
qed

lemma find_banks:
  "find (\<lambda>x. cell (r, 3, 9) (r, b, p) (2 ^ x * 512) = cell (r, 3, 9) (r, b, p) 0) [2] = (if b = 3 then None else Some b)"
proof -
  have "b = 2 \<or> b = 3"
    using banks by linarith
  then show ?thesis
    using cell_bank by (auto simp del: cell.simps)
qed

lemma find_page:
  "find (\<lambda>x. cell (r, b, 13) (r, b, p) x = cell (r, b, 13) (r, b, p) 0) [512, 1024, 2048, 4096] =
   (if p = 13 then None else Some (2 ^ p))"
proof -
  have "cell (r, b, 13) (r, b, p) 512 = cell (r, b, 13) (r, b, p) 0 \<longleftrightarrow> p \<le> 9"
    "cell (r, b, 13) (r, b, p) 1024 = cell (r, b, 13) (r, b, p) 0 \<longleftrightarrow> p \<le> 10"
    "cell (r, b, 13) (r, b, p) 2048 = cell (r, b, 13) (r, b, p) 0 \<longleftrightarrow> p \<le> 11"
    "cell (r, b, 13) (r, b, p) 4096 = cell (r, b, 13) (r, b, p) 0 \<longleftrightarrow> p \<le> 12"
    using cell_page [of 9] cell_page [of 10] cell_page [of 11] cell_page [of 12] by (simp_all del: cell.simps)
  then show ?thesis
    using in_9_13 [OF page] by (auto simp del: cell.simps)
qed

lemma dual_rank_set [simp]: "dual_rank (set_rank c k q) = dual_rank q"
  by (simp add: set_rank_def set_rank0_def set_rank1_def)

lemma detect_rank:
  assumes "cr = CR \<or> two_ranks_kept socid \<and> cr = CR_R1 \<and> (socid = SOCID_R40 \<longrightarrow> dual_rank q)"
    "located cr base q"
  shows "\<exists>t'. mctl_auto_detect_dram_size_rank d socid (set_rank cr) base q t = (chip r b p, set_rank cr (chip r b p) q, t')"
proof -
  have win: "2048 < (2 :: nat) ^ (r + 3 + 9)" "4096 < (2 :: nat) ^ (r + b + 13)"
    using rows power_strict_increasing [of 11 "r + 3 + 9" "2 :: nat"] power_strict_increasing [of 12 "r + b + 13" "2 :: nat"]
    by simp_all
  define k1 where "k1 = \<lparr>page_size = 512, row_bits = 16, bank_bits = 2\<rparr>"
  define t1 where "t1 = mctl_set_cr d socid (set_rank cr k1 q) t"
  have st1: "starts cr base t1"
    unfolding t1_def by (rule starts_set_cr) (simp add: assms(2))
  obtain c1 where c1: "configured cr t1 = Some c1" "geometry_of c1 = (16, 2, 9)"
    using configured_set_cr [of cr socid "set_rank cr k1 q" k1 9 d t] assms by (auto simp: k1_def t1_def)
  obtain u1 where u1: "first_match d base (\<lambda>x. 2 ^ (x + 2) * 512) [11, 12, 13, 14, 15] 16 t1 = (r, u1)"
    using probes [OF c1(1) st1, of "[11, 12, 13, 14, 15]" "\<lambda>x. 2 ^ (x + 2) * 512" 16] find_rows rows
    by (auto simp: c1(2) simp del: cell.simps split: if_splits)
  define k2 where "k2 = \<lparr>page_size = 512, row_bits = r, bank_bits = 3\<rparr>"
  define t2 where "t2 = mctl_set_cr d socid (set_rank cr k2 q) u1"
  have st2: "starts cr base t2"
    unfolding t2_def by (rule starts_set_cr) (simp add: assms(2))
  obtain c2 where c2: "configured cr t2 = Some c2" "geometry_of c2 = (r, 3, 9)"
    using configured_set_cr [of cr socid "set_rank cr k2 q" k2 9 d u1] assms rows by (auto simp: k2_def t2_def)
  obtain u2 where u2: "first_match d base (\<lambda>x. 2 ^ x * 512) [2] 3 t2 = (b, u2)"
    using probes [OF c2(1) st2, of "[2]" "\<lambda>x. 2 ^ x * 512" 3] find_banks win
    by (auto simp: c2(2) simp del: cell.simps split: if_splits)
  define k3 where "k3 = \<lparr>page_size = 8192, row_bits = r, bank_bits = b\<rparr>"
  define t3 where "t3 = mctl_set_cr d socid (set_rank cr k3 q) u2"
  have b: "b = 2 \<or> b = 3"
    using banks by linarith
  have st3: "starts cr base t3"
    unfolding t3_def by (rule starts_set_cr) (simp add: assms(2))
  obtain c3 where c3: "configured cr t3 = Some c3" "geometry_of c3 = (r, b, 13)"
    using configured_set_cr [of cr socid "set_rank cr k3 q" k3 13 d u2] assms rows b by (auto simp: k3_def t3_def)
  obtain u3 where u3: "first_match d base (\<lambda>x. x) [512, 1024, 2048, 4096] 8192 t3 = (2 ^ p, u3)"
    using probes [OF c3(1) st3, of "[512, 1024, 2048, 4096]" "\<lambda>x. x" 8192] find_page win(2)
    by (auto simp: c3(2) simp del: cell.simps split: if_splits)
  show ?thesis
    using u1 u2 u3 unfolding mctl_auto_detect_dram_size_rank_def
    by (simp add: k1_def k2_def k3_def t1_def t2_def t3_def chip_def Let_def del: first_match.simps)
qed

end

section \<open>The size of the memory\<close>

text \<open>The memory of a board: the first rank at the start, the second one, if there is one, behind it.\<close>

definition board_memory :: "device \<Rightarrow> bool \<Rightarrow> nat \<times> nat \<times> nat \<Rightarrow> nat \<times> nat \<times> nat \<Rightarrow> bool" where
  "board_memory d dual g0 g1 \<longleftrightarrow>
     (case g0 of (r0, b0, p0) \<Rightarrow> case g1 of (r1, b1, p1) \<Rightarrow>
        dram_rank d CR SDRAM_BASE r0 b0 p0 \<and>
        (dual \<longrightarrow> dram_rank d CR_R1 (SDRAM_BASE + 2 ^ (r0 + b0 + p0)) r1 b1 p1))"

definition total_size :: "bool \<Rightarrow> nat \<times> nat \<times> nat \<Rightarrow> nat \<times> nat \<times> nat \<Rightarrow> nat" where
  "total_size dual g0 g1 = window g0 + (if dual then window g1 else 0)"

lemma auto_detect_size:
  assumes "board_memory d (dual_rank q) g0 g1"
  shows "\<exists>q' t'. mctl_auto_detect_dram_size d SOCID_A64 q t = (q', t') \<and>
    dram_size SOCID_A64 q' = total_size (dual_rank q) g0 g1"
proof -
  obtain r0 b0 p0 r1 b1 p1 where g: "g0 = (r0, b0, p0)" "g1 = (r1, b1, p1)"
    by (cases g0, cases g1)
  have rank0: "dram_rank d CR SDRAM_BASE r0 b0 p0"
    using assms by (simp add: board_memory_def g)
  have set: "set_rank CR = set_rank0" "set_rank CR_R1 = set_rank1"
    by (simp_all add: set_rank_def)
  let ?q = "set_rank0 (chip r0 b0 p0) q"
  obtain u where u: "mctl_auto_detect_dram_size_rank d SOCID_A64 set_rank0 SDRAM_BASE q t = (chip r0 b0 p0, ?q, u)"
    using dram_rank.detect_rank [OF rank0, of SOCID_A64 q t] by (auto simp: set located_def)
  show ?thesis
  proof (cases "dual_rank q")
    case True
    then have rank1: "dram_rank d CR_R1 (SDRAM_BASE + 2 ^ (r0 + b0 + p0)) r1 b1 p1"
      using assms by (simp add: board_memory_def g)
    have "located CR_R1 (SDRAM_BASE + 2 ^ (r0 + b0 + p0)) ?q"
      using dram_rank.rows [OF rank0] dram_rank.banks [OF rank0] dram_rank.page [OF rank0]
      by (auto simp: located_def set_rank0_def)
    then obtain v where "mctl_auto_detect_dram_size_rank d SOCID_A64 set_rank1 (SDRAM_BASE + 2 ^ (r0 + b0 + p0)) ?q u =
        (chip r1 b1 p1, set_rank1 (chip r1 b1 p1) ?q, v)"
      using dram_rank.detect_rank [OF rank1, of SOCID_A64 ?q u] by (auto simp: set two_ranks_kept_def)
    with u True show ?thesis
      by (simp add: mctl_auto_detect_dram_size_def dram_size_def two_ranks_kept_def total_size_def g chip_size
          set_rank0_def set_rank1_def)
  next
    case False
    with u show ?thesis
      by (simp add: mctl_auto_detect_dram_size_def dram_size_def two_ranks_kept_def total_size_def g chip_size
          set_rank0_def)
  qed
qed

text \<open>A controller whose waits end and whose first training is without errors.\<close>

definition controller_ready :: "device \<Rightarrow> bool" where
  "controller_ready d \<longleftrightarrow>
     (\<forall>t. d t PGSR0 AND (push_bit 20 0xfe OR 1) = 1 \<and> d t STATR AND 1 = 1 \<and>
       d t (CCM + 0xf4) AND push_bit 16 1 = 0 \<and> d t (CCM + 0x4c) AND push_bit 30 1 = 0)"

lemma await_ready:
  "d t a AND m = v \<Longrightarrow> mctl_await_completion d clk a m v t = Some (Inr (Rd a (d t a) # t))"
  unfolding mctl_await_completion_def by (subst await_loop.simps) (simp add: readl_def Let_def)

lemma ready_regs:
  assumes "controller_ready d"
  shows "d t PGSR0 AND 1 = 1" "d t PGSR0 AND push_bit 20 0xfe = 0" "d t STATR AND 1 = 1"
    "d t (CCM + 0xf4) AND push_bit 16 1 = 0" "d t (CCM + 0x4c) AND push_bit 30 1 = 0"
proof -
  have *: "d t PGSR0 AND (push_bit 20 0xfe OR 1) = 1"
    using assms unfolding controller_ready_def by blast
  have "d t PGSR0 AND 1 = (d t PGSR0 AND (push_bit 20 0xfe OR 1)) AND 1"
    by (simp add: and.assoc)
  then show "d t PGSR0 AND 1 = 1"
    unfolding * by simp
  have "d t PGSR0 AND push_bit 20 0xfe = (d t PGSR0 AND (push_bit 20 0xfe OR 1)) AND push_bit 20 0xfe"
    by (simp add: and.assoc)
  then show "d t PGSR0 AND push_bit 20 0xfe = 0"
    unfolding * by simp
qed (use assms in \<open>unfold controller_ready_def, blast\<close>)+

lemma sys_init_ready:
  assumes "controller_ready d"
  shows "\<exists>t'. mctl_sys_init d clk SOCID_A64 t = Some (Inr t')"
proof -
  have "spin_clear d (CCM + 0x4c) (push_bit 30 1) u = Some (Rd (CCM + 0x4c) (d u (CCM + 0x4c)) # u)" for u
    using ready_regs(5) [OF assms] by (subst spin_clear.simps) (simp add: readl_def Let_def)
  then show ?thesis
    using await_ready [of d _ "CCM + 0xf4" "push_bit 16 1" 0] ready_regs(4) [OF assms]
    by (simp add: mctl_sys_init_def two_ranks_kept_def clock_set_pll11_def ending_def Let_def)
qed

lemma channel_init_ready:
  assumes "controller_ready d"
  shows "\<exists>t'. mctl_channel_init d clk SOCID_A64 q t = Some (Inr (False, q, t'))"
proof -
  have "mctl_phy_init d clk v u = Some (Inr (Rd PGSR0 (d (writel (v OR 1) MCTL u) PGSR0) # writel (v OR 1) MCTL u))" for v u
    using await_ready [of d _ PGSR0 1 1] ready_regs(1) [OF assms] by (simp add: mctl_phy_init_def)
  then show ?thesis
    using await_ready [of d _ STATR 1 1] ready_regs(2,3) [OF assms]
    by (simp add: mctl_channel_init_def train_def detect_ranks_def training_failed_def readl_def Let_def)
qed

lemma dram_init_size:
  assumes "controller_ready d" "board_memory d True g0 g1"
  shows "\<exists>t'. sunxi_dram_init d clk t = Some (Inr (total_size True g0 g1, t'))"
proof -
  obtain t1 where t1: "mctl_sys_init d clk SOCID_A64 t = Some (Inr t1)"
    using sys_init_ready [OF assms(1)] by blast
  obtain t2 where t2: "mctl_channel_init d clk SOCID_A64 a64_para t1 = Some (Inr (False, a64_para, t2))"
    using channel_init_ready [OF assms(1)] by blast
  have dual: "dual_rank a64_para"
    by (simp add: a64_para_def Let_def)
  obtain q' t3 where "mctl_auto_detect_dram_size d SOCID_A64 a64_para (exec d (odt_finish SOCID_A64 a64_para) t2) = (q', t3)"
    "dram_size SOCID_A64 q' = total_size True g0 g1"
    using auto_detect_size [of d a64_para g0 g1 "exec d (odt_finish SOCID_A64 a64_para) t2"] assms(2) dual by auto
  with t1 t2 show ?thesis
    by (simp add: sunxi_dram_init_def dram_init_from_def)
qed

text \<open>
  C37: on a board whose controller trains without errors, \<open>sunxi_dram_init\<close> returns the size of the
  memory, the sum over both ranks of rows times banks times page size, for every geometry that the
  controller supports.
\<close>

theorem sunxi_dram_init_size:
  assumes "controller_ready d" "board_memory d True g0 g1"
  shows "\<exists>t'. sunxi_dram_init d clk t = Some (Inr (total_size True g0 g1, t'))"
  by (rule dram_init_size [OF assms])

section \<open>A simulated memory\<close>

text \<open>A controller that is always done, before memory of a given geometry.\<close>

definition simulated :: "nat \<times> nat \<times> nat \<Rightarrow> nat \<times> nat \<times> nat \<Rightarrow> device" where
  "simulated g0 g1 t a =
     (if a = PGSR0 \<or> a = STATR then 1
      else if unat a < SDRAM_BASE then 0
      else (case configured CR t of
        None \<Rightarrow> 0
      | Some c \<Rightarrow>
          (let base = SDRAM_BASE + window (geometry_of c)
           in if unat a < base then the (stored SDRAM_BASE (geometry_of c) g0 t (unat a - SDRAM_BASE))
              else (case configured CR_R1 t of
                None \<Rightarrow> 0 | Some c' \<Rightarrow> the (stored base (geometry_of c') g1 t (unat a - base))))))"

lemma simulated_ready: "controller_ready (simulated g0 g1)"
  by (simp add: controller_ready_def simulated_def SDRAM_BASE_def)

lemma simulated_first: "11 \<le> r \<Longrightarrow> r \<le> 16 \<Longrightarrow> 2 \<le> b \<Longrightarrow> b \<le> 3 \<Longrightarrow> 9 \<le> p \<Longrightarrow> p \<le> 13 \<Longrightarrow>
    dram_rank (simulated (r, b, p) g1) CR SDRAM_BASE r b p"
proof
  fix t c off v
  assume "configured CR t = Some c" "off < window (geometry_of c)" "SDRAM_BASE + off < 2 ^ 32"
    "stored SDRAM_BASE (geometry_of c) (r, b, p) t off = Some v"
  moreover from this have "unat (of_nat (SDRAM_BASE + off) :: addr) = SDRAM_BASE + off"
    by (simp add: unat_of_nat_addr del: of_nat_add)
  moreover from this have "(of_nat (SDRAM_BASE + off) :: addr) \<noteq> PGSR0 \<and> (of_nat (SDRAM_BASE + off) :: addr) \<noteq> STATR"
    by (auto simp: SDRAM_BASE_def simp del: of_nat_add)
  ultimately show "simulated (r, b, p) g1 t (of_nat (SDRAM_BASE + off)) = v"
    by (simp add: simulated_def Let_def del: of_nat_add)
qed (simp_all add: SDRAM_BASE_def)

lemma simulated_second: "11 \<le> r \<Longrightarrow> r \<le> 16 \<Longrightarrow> 2 \<le> b \<Longrightarrow> b \<le> 3 \<Longrightarrow> 9 \<le> p \<Longrightarrow> p \<le> 13 \<Longrightarrow>
    SDRAM_BASE + n + 2 ^ 27 \<le> 2 ^ 32 \<Longrightarrow> dram_rank (simulated g0 (r, b, p)) CR_R1 (SDRAM_BASE + n) r b p"
proof
  fix t c off v
  assume "configured CR_R1 t = Some c" "starts CR_R1 (SDRAM_BASE + n) t" "off < window (geometry_of c)"
    "SDRAM_BASE + n + off < 2 ^ 32" "stored (SDRAM_BASE + n) (geometry_of c) (r, b, p) t off = Some v"
  moreover from this have "unat (of_nat (SDRAM_BASE + n + off) :: addr) = SDRAM_BASE + n + off"
    by (simp add: unat_of_nat_addr del: of_nat_add)
  moreover from this have "(of_nat (SDRAM_BASE + n + off) :: addr) \<noteq> PGSR0 \<and> (of_nat (SDRAM_BASE + n + off) :: addr) \<noteq> STATR"
    by (auto simp: SDRAM_BASE_def simp del: of_nat_add)
  ultimately show "simulated g0 (r, b, p) t (of_nat (SDRAM_BASE + n + off)) = v"
    by (auto simp: simulated_def starts_def Let_def simp del: of_nat_add)
qed (simp_all add: SDRAM_BASE_def)

text \<open>The memory of the phone with 2 GiB: two ranks of 15 row bits, 8 banks and pages of 4 KiB.\<close>

interpretation phone_first: dram_rank "simulated (15, 3, 12) (15, 3, 12)" CR SDRAM_BASE 15 3 12
  by (rule simulated_first) simp_all

interpretation phone_second: dram_rank "simulated (15, 3, 12) (15, 3, 12)" CR_R1 "SDRAM_BASE + 2 ^ 30" 15 3 12
  by (rule simulated_second) (simp_all add: SDRAM_BASE_def)

theorem sunxi_dram_init_size_witness:
  "\<exists>t'. sunxi_dram_init (simulated (15, 3, 12) (15, 3, 12)) (\<lambda>t. 0) [] = Some (Inr (2 ^ 31, t'))"
proof -
  have "board_memory (simulated (15, 3, 12) (15, 3, 12)) True (15, 3, 12) (15, 3, 12)"
    using phone_first.dram_rank_axioms phone_second.dram_rank_axioms by (simp add: board_memory_def)
  from sunxi_dram_init_size [OF simulated_ready this] show ?thesis
    by (simp add: total_size_def)
qed

section \<open>The code of the calibration\<close>

text \<open>The two tables are inverse to each other.\<close>

lemma mgray_inverse:
  assumes "0 \<le> n" "n \<le> 31"
  shows "mgray_to_bin (bin_to_mgray n) = n"
proof -
  have "\<forall>n \<in> set [0..31]. mgray_to_bin (bin_to_mgray n) = n"
    by code_simp
  with assms show ?thesis
    by simp
qed

end
