(* ===== verification/Dram_Run.thy ===== *)
theory Dram_Run
  imports Dram_Size Elapse
begin

text \<open>
  Runs of the memory driver: every wait ends when time passes, whatever the controller answers; the
  driver panics, fails or reports a size, and it reports one only after a training without errors.
\<close>

section \<open>Steps that end\<close>

definition end_of :: "('r \<Rightarrow> history) \<Rightarrow> history + 'r \<Rightarrow> history" where
  "end_of g r = (case r of Inl t \<Rightarrow> t | Inr x \<Rightarrow> g x)"

lemma end_of_simps [simp]: "end_of g (Inl t) = t" "end_of g (Inr x) = g x"
  by (simp_all add: end_of_def)

lemma passes_on_ok:
  "passes Q (end_of g) r \<Longrightarrow> (\<And>x. Q (g x) \<Longrightarrow> passes Q (end_of g') (f x)) \<Longrightarrow> passes Q (end_of g') (on_ok r f)"
  by (auto simp: passes_def on_ok_def split: sum.splits)

lemma passes_ending: "passes Q (\<lambda>u. u) r \<Longrightarrow> passes Q (end_of (\<lambda>u. u)) (ending r)"
  by (auto simp: passes_def ending_def)

text \<open>Time passes, and the update of PLL 11, a wait without a bound, ends after some reads.\<close>

locale dram_clock = hardware_clock clk
  for d :: device and clk :: "history \<Rightarrow> nat" +
  assumes pll_ends: "\<exists>k. d (reads d (CCM + 0x4c) k t) (CCM + 0x4c) AND push_bit 30 1 = 0"

locale dram_run = dram_clock + kept

context dram_run begin

lemma passes_await_loop: "Q t \<Longrightarrow> passes Q (end_of (\<lambda>u. u)) (await_loop d clk a m v tmo t)"
proof (induction "(tmo + 1) * 1000 - clk t" arbitrary: t rule: less_induct)
  case less
  define u where "u = snd (readl d a t)"
  have u: "clk t < clk u"
    by (simp add: u_def readl_def Let_def read_clk)
  have Qu: "Q u"
    using less.prems by (simp add: u_def kept_readl)
  show ?case
  proof (cases "timer_us clk u > tmo")
    case True
    then show ?thesis
      using Qu by (subst await_loop.simps) (simp add: Let_def case_prod_beta flip: u_def)
  next
    case False
    then have "clk u < (tmo + 1) * 1000"
      by (simp add: timer_us_def)
    then have "passes Q (end_of (\<lambda>u. u)) (await_loop d clk a m v tmo u)"
      using u Qu by (intro less.hyps) auto
    then show ?thesis
      using Qu by (subst await_loop.simps) (simp add: Let_def case_prod_beta flip: u_def)
  qed
qed

lemma passes_await [pass_rules]: "Q t \<Longrightarrow> passes Q (end_of (\<lambda>u. u)) (mctl_await_completion d clk a m v t)"
  by (simp add: mctl_await_completion_def passes_await_loop)

lemma passes_phy_init [pass_rules]: "Q t \<Longrightarrow> passes Q (end_of (\<lambda>u. u)) (mctl_phy_init d clk v t)"
  by (simp add: mctl_phy_init_def passes_await kept_writel)

lemma passes_pll11 [pass_rules]: "Q t \<Longrightarrow> passes Q (\<lambda>u. u) (clock_set_pll11 d hz False t)"
  using pll_ends passes_spin_clear kept_writel unfolding clock_set_pll11_def Let_def by (metis (full_types))

lemma kept_clrsetbits [pass_rules]: "Q t \<Longrightarrow> Q (clrsetbits d a c v t)"
  using kept_exec1 [of t d "Clrsetbits a c v"] by simp

lemma kept_pll5 [pass_rules]: "Q t \<Longrightarrow> Q (clock_set_pll5 d hz False t)"
  by (auto simp: clock_set_pll5_def Let_def intro!: pass_rules)

lemma passes_sys_init: "Q t \<Longrightarrow> passes Q (end_of (\<lambda>u. u)) (mctl_sys_init d clk socid t)"
  unfolding mctl_sys_init_def Let_def
  by (intro passes_on_ok [where g = "\<lambda>u. u"] passes_ending passes_await)
    (auto simp del: exec_Cons intro!: pass_rules passes_map [OF passes_pll11])

lemma passes_zcal [pass_rules]: "Q t \<Longrightarrow> passes Q (end_of (\<lambda>u. u)) (zcal d clk t)"
  by (auto simp: zcal_def intro!: pass_rules)

lemma passes_zq_round: "Q t \<Longrightarrow> passes Q (end_of snd) (zq_round d clk i t)"
  unfolding zq_round_def Let_def
  by (intro passes_on_ok [where g = "\<lambda>u. u"] passes_zcal)
    (auto simp: case_prod_beta intro!: pass_rules passes_on_ok [where g = "\<lambda>u. u"])

lemma passes_zq_rounds: "Q t \<Longrightarrow> passes Q (end_of snd) (zq_rounds d clk is t)"
proof (induction "is" arbitrary: t)
  case (Cons i "is")
  then show ?case
    by (auto simp: case_prod_beta intro!: passes_on_ok [where g = snd] passes_zq_round)
qed simp

lemma passes_quirk:
  assumes "Q t"
  shows "passes Q (end_of (\<lambda>u. u)) (mctl_h3_zq_calibration_quirk d clk t)"
  unfolding mctl_h3_zq_calibration_quirk_def Let_def case_prod_beta
  by (intro passes_if)
    (rule passes_on_ok [where g = "\<lambda>u. u"] passes_on_ok [where g = snd] passes_zq_rounds passes_zcal;
     auto simp: assms simp del: exec_Cons intro!: pass_rules)+

lemma passes_train: "Q t \<Longrightarrow> passes Q (end_of (\<lambda>u. u)) (train d clk socid t)"
  by (cases socid) (auto simp: train_def Let_def intro!: pass_rules passes_quirk passes_on_ok [where g = "\<lambda>u. u"])

lemma kept_lane_error: "Q t \<Longrightarrow> Q (snd (lane_error d a b m t))"
  by (auto simp: lane_error_def Let_def case_prod_beta intro!: pass_rules)

lemma kept_training_failed [pass_rules]: "Q t \<Longrightarrow> Q (snd (training_failed d t))"
  by (auto simp: training_failed_def Let_def case_prod_beta intro!: pass_rules)

lemma kept_set_cr [pass_rules]: "Q t \<Longrightarrow> Q (mctl_set_cr d socid p t)"
  by (simp add: mctl_set_cr_def kept_exec)

lemma kept_channel_setup: "Q t \<Longrightarrow> Q (channel_setup d socid p t)"
  by (cases socid) (auto simp: channel_setup_def mctl_set_timing_params_def simp del: exec_Cons intro!: pass_rules)

lemma passes_detect_ranks: "Q t \<Longrightarrow> passes Q (end_of (\<lambda>r. snd (snd r))) (detect_ranks d clk socid p t)"
  unfolding detect_ranks_def Let_def case_prod_beta
  by (intro passes_if passes_on_ok [where g = "\<lambda>u. u"])
    (auto simp: case_prod_beta simp del: exec_Cons intro!: pass_rules kept_lane_error)

lemma passes_channel_init: "Q t \<Longrightarrow> passes Q (end_of (\<lambda>r. snd (snd r))) (mctl_channel_init d clk socid p t)"
  unfolding mctl_channel_init_def
  by (intro passes_on_ok [where g = "\<lambda>u. u"] passes_on_ok [where g = "\<lambda>r. snd (snd r)"] passes_train kept_channel_setup
      passes_detect_ranks) (auto simp: case_prod_beta simp del: exec_Cons intro!: pass_rules passes_on_ok [where g = "\<lambda>u. u"])

lemma kept_matches: "Q t \<Longrightarrow> Q (snd (mctl_mem_matches_base d off base t))"
  by (auto simp: mctl_mem_matches_base_def Let_def case_prod_beta intro!: pass_rules)

lemma kept_first_match: "Q t \<Longrightarrow> Q (snd (first_match d base off xs final t))"
  by (induction xs arbitrary: t) (auto simp: Let_def case_prod_beta intro: kept_matches)

lemma kept_detect_rank: "Q t \<Longrightarrow> Q (snd (snd (mctl_auto_detect_dram_size_rank d socid f base p t)))"
  by (auto simp: mctl_auto_detect_dram_size_rank_def Let_def case_prod_beta
      simp del: first_match.simps intro!: kept_first_match kept_set_cr)

lemma kept_detect: "Q t \<Longrightarrow> Q (snd (mctl_auto_detect_dram_size d socid p t))"
  by (auto simp: mctl_auto_detect_dram_size_def Let_def case_prod_beta intro!: kept_detect_rank)

lemma passes_dram_init: "Q t \<Longrightarrow> passes Q (end_of snd) (dram_init_from d clk socid p t)"
  unfolding dram_init_from_def
  by (intro passes_on_ok [where g = "\<lambda>u. u"] passes_on_ok [where g = "\<lambda>r. snd (snd r)"] passes_sys_init passes_channel_init)
    (auto simp: case_prod_beta Let_def simp del: exec_Cons intro!: pass_rules kept_detect)

end

section \<open>What a reported size has seen\<close>

text \<open>A read of the status of the controller after \<open>t\<close> that shows no error of the training.\<close>

definition trained :: "history \<Rightarrow> history \<Rightarrow> bool" where
  "trained t v \<longleftrightarrow> (\<exists>zs x ys. v = zs @ Rd PGSR0 x # ys @ t \<and> x AND push_bit 20 0xfe = 0)"

interpretation trained: kept "trained t" for t
  by unfold_locales (metis append_Cons trained_def)

sublocale dram_clock \<subseteq> extended: dram_run d clk "since t {}" for t
  by unfold_locales

sublocale dram_clock \<subseteq> after_training: dram_run d clk "trained t" for t
  by unfold_locales

lemma on_ok_Inr: "on_ok r f = Some (Inr y) \<longleftrightarrow> (\<exists>x. r = Some (Inr x) \<and> f x = Some (Inr y))"
proof (cases r)
  case (Some x)
  then show ?thesis by (cases x) auto
qed simp

lemma passes_Inr: "passes Q (end_of g) r \<Longrightarrow> r = Some (Inr x) \<Longrightarrow> Q (g x)"
  by (simp add: passes_def)

context dram_clock begin

lemma training_failed_False: "training_failed d w = (False, u) \<Longrightarrow> since t {} w \<Longrightarrow> trained t u"
  by (auto simp: training_failed_def readl_def Let_def trained_def since_def intro: exI [of _ "[]"])

lemma detect_ranks_trained:
  assumes "detect_ranks d clk socid p u = Some (Inr (False, p', v))" "since t {} u"
  shows "trained t v"
proof (cases "fst (training_failed d u)")
  case False
  then have "training_failed d u = (False, v)"
    using assms(1) by (auto simp: detect_ranks_def Let_def case_prod_beta prod_eq_iff)
  then show ?thesis
    using assms(2) by (rule training_failed_False)
next
  case True
  have "\<exists>a q. detect_ranks d clk socid p u = on_ok (mctl_phy_init d clk (push_bit 10 1) a)
      (\<lambda>t. Some (Inr (fst (training_failed d t), q, snd (training_failed d t)))) \<and> since t {} a"
    unfolding detect_ranks_def Let_def case_prod_beta eqTrueI [OF True] not_True_eq_False if_False
    by (rule exI, rule exI, rule conjI, rule refl)
      (use assms(2) in \<open>auto simp del: exec_Cons intro!: pass_rules extended.kept_lane_error\<close>)
  then obtain a q where e: "detect_ranks d clk socid p u = on_ok (mctl_phy_init d clk (push_bit 10 1) a)
      (\<lambda>t. Some (Inr (fst (training_failed d t), q, snd (training_failed d t))))" and a: "since t {} a"
    by blast
  obtain w where w: "mctl_phy_init d clk (push_bit 10 1) a = Some (Inr w)" "training_failed d w = (False, v)"
    using assms(1) [unfolded e on_ok_Inr] by (auto simp: prod_eq_iff)
  have "since t {} w"
    using passes_Inr [OF extended.passes_phy_init w(1)] a by blast
  with w(2) show ?thesis
    by (rule training_failed_False)
qed

lemma channel_init_trained:
  assumes "mctl_channel_init d clk socid p u = Some (Inr (False, p', v))" "since t {} u"
  shows "trained t v"
proof -
  obtain u1 u2 where u: "train d clk socid (channel_setup d socid p u) = Some (Inr u1)"
    "detect_ranks d clk socid p u1 = Some (Inr (False, p', u2))"
    and v: "on_ok (mctl_await_completion d clk STATR 1 1 u2) (\<lambda>t.
       Some (Inr (False, p', exec d [Setbits (MCTL + 0x8c) (push_bit 31 1), Udelay 10,
         Clrbits (MCTL + 0x8c) (push_bit 31 1), Udelay 10,
         Writel (if socid = SOCID_H3 then 0x00aa0060 else 0xc0aa0060) (MCTL + 0x10c),
         Setbits ZQCR (push_bit 31 1), Writel 0xffffffff (CR + 0x94)] t))) = Some (Inr (False, p', v))"
    using assms(1) by (auto simp: mctl_channel_init_def on_ok_Inr simp del: exec_Cons split: if_splits)
  have "since t {} u1"
    using passes_Inr [OF extended.passes_train u(1)] extended.kept_channel_setup assms(2) by blast
  with u(2) have "trained t u2"
    by (rule detect_ranks_trained)
  then show ?thesis
    using v by (auto simp: on_ok_Inr simp del: exec_Cons
        intro!: after_training.kept_exec dest: passes_Inr [OF after_training.passes_await, rotated])
qed

lemma dram_init_trained:
  assumes "dram_init_from d clk socid p t = Some (Inr (n, v))" "n \<noteq> 0"
  shows "trained t v"
proof -
  obtain u p' w where u: "mctl_sys_init d clk socid t = Some (Inr u)"
    "mctl_channel_init d clk socid p u = Some (Inr (False, p', w))"
    and v: "v = mctl_set_cr d socid (fst (mctl_auto_detect_dram_size d socid p' (exec d (odt_finish socid p') w)))
      (snd (mctl_auto_detect_dram_size d socid p' (exec d (odt_finish socid p') w)))"
    using assms by (auto simp: dram_init_from_def on_ok_Inr Let_def case_prod_beta split: if_splits)
  have "since t {} t"
    by (simp add: since_def)
  then have "since t {} u"
    using passes_Inr [OF extended.passes_sys_init u(1)] by blast
  with u(2) have "trained t w"
    by (rule channel_init_trained)
  then show ?thesis
    unfolding v by (intro after_training.kept_set_cr after_training.kept_detect after_training.kept_exec)
qed

lemma dram_init_ends: "passes (since t {}) (end_of snd) (dram_init_from d clk socid p t)"
  by (rule extended.passes_dram_init) (simp add: since_def)

end

text \<open>
  C38: as long as time passes and the update of PLL 11 ends, \<open>sunxi_dram_init\<close> ends, whatever the
  controller and the memory answer: it panics, or it returns a size, and a size other than zero only
  after it has read a status of the training without errors.
\<close>

theorem sunxi_dram_init_ends:
  assumes "dram_clock d clk"
  shows "\<exists>r. sunxi_dram_init d clk t = Some r \<and>
    (\<forall>n v. r = Inr (n, v) \<longrightarrow> n \<noteq> 0 \<longrightarrow> (\<exists>zs x ys. v = zs @ Rd PGSR0 x # ys @ t \<and> x AND push_bit 20 0xfe = 0))"
proof -
  have "passes (since t {}) (end_of snd) (sunxi_dram_init d clk t)"
    unfolding sunxi_dram_init_def by (rule dram_clock.dram_init_ends [OF assms])
  then show ?thesis
    using dram_clock.dram_init_trained [OF assms] by (auto simp: passes_def sunxi_dram_init_def trained_def)
qed

interpretation idle_controller: dram_clock "\<lambda>t a. 0" bus_time
  by unfold_locales simp

theorem sunxi_dram_init_ends_witness:
  "\<exists>r. sunxi_dram_init (\<lambda>t a. 0) bus_time [] = Some r"
  using sunxi_dram_init_ends [OF idle_controller.dram_clock_axioms] by blast

end
