(* ===== verification/Sram_Main.thy ===== *)
theory Sram_Main
  imports Dram_Run Mmu Ccu Lradc Boot_Images
begin

text \<open>
  \<open>main_sram_only\<close> of \<open>src/src/main.c\<close>, the part of the loader that runs from SRAM: clocks, console,
  PMIC, memory, page tables, the heap and the stack that the rest uses. It is modelled in the variant
  without the log for the kernel and the console on the display. A panic switches the power off and is
  the end. Parameters: the time, the size of the structure \<open>globals\<close>, what \<open>SCTLR_EL3\<close> holds when the
  instruction cache is on.
\<close>

section \<open>The function\<close>

record sram =
  sr_hist :: history
  sr_found :: nat
  sr_globals :: u64
  sr_heap :: heap
  sr_dram_size :: u32
  sr_t0 :: u64
  sr_tables :: dmem
  sr_asm :: "asm list"
  sr_stack_top :: u32

datatype sram_result = Sram_panic u32 history | Sram_done sram

text \<open>The globals at 256 MiB before the end of the memory, zeroed, the heap behind them.\<close>

definition place_globals :: "u64 \<Rightarrow> u64 \<Rightarrow> mem \<Rightarrow> u64 \<times> heap" where
  "place_globals gsize nbytes m =
     (let g = 0x40000000 + nbytes - 256 * 1024 * 1024
      in (g, \<lparr>mem = memset m g 0 gsize, heap_end = g + align64 gsize\<rparr>))"

definition main_sram_only ::
    "device \<Rightarrow> (history \<Rightarrow> nat) \<Rightarrow> u64 \<Rightarrow> u64 \<Rightarrow> mem \<Rightarrow> dmem \<Rightarrow> history \<Rightarrow> sram_result option" where
  "main_sram_only d clk gsize sctlr m tables t =
     (let t0 = of_nat (timer_us clk t)
      in Option.bind (ccu_init d (green_led_set d True t)) (\<lambda>t.
           let t = exec d wdog_ping (exec d lradc_enable (console_init d t));
               (ret, t) = rsb_init d t
           in if ret \<noteq> 0 then Some (Sram_panic 6 (panic_shutdown d 6 t))
              else
                Option.bind (sunxi_dram_init d clk (pmic_init d t)) (\<lambda>r. case r of
                  Inl t \<Rightarrow> Some (Sram_panic 1 (panic_shutdown d 1 t))
                | Inr (found, t) \<Rightarrow>
                    if found = 0 then Some (Sram_panic 3 (panic_shutdown d 3 t))
                    else
                      (let (g, heap) = place_globals gsize (of_nat found) m;
                           (tabs, instrs) = mmu_setup sctlr (of_nat found) tables
                       in map_option (\<lambda>t.
                            let (dram_stack, heap) = malloc (128 * 1024) heap
                            in Sram_done \<lparr>sr_hist = t, sr_found = found, sr_globals = g, sr_heap = heap,
                                 sr_dram_size = of_nat found, sr_t0 = t0, sr_tables = tabs, sr_asm = instrs,
                                 sr_stack_top = ucast (dram_stack + 128 * 1024)\<rparr>)
                          (ccu_upclock d t)))))"

section \<open>Where things lie\<close>

lemma unat_align64: "unat n \<le> 0x10000 \<Longrightarrow> unat (align64 n) = (unat n + 63) div 64 * 64"
  by (simp add: align64_eq)

lemma placed:
  fixes n :: nat and gsize :: u64
  assumes "0x10000000 \<le> n" "n \<le> 0xc0000000" "unat gsize \<le> 0x10000"
    and p: "place_globals gsize (of_nat n) m = (g, h)"
  shows "unat g = 0x30000000 + n" "unat (heap_end h) = 0x30000000 + n + unat (align64 gsize)"
    "unat (align64 gsize) \<le> 0x10000 + 63" "unat gsize \<le> unat (align64 gsize)"
    "mem h = mem_write m g (replicate (unat gsize) 0)"
proof -
  have n: "unat (of_nat n :: u64) = n"
    using assms by (simp add: unsigned_of_nat take_bit_nat_eq_self)
  have g: "g = 0x40000000 + of_nat n - 0x10000000"
    using p by (simp add: place_globals_def Let_def)
  have "unat (of_nat (0x30000000 + n) :: u64) = 0x30000000 + n"
    using assms by (simp add: unsigned_of_nat take_bit_nat_eq_self del: of_nat_add)
  then show gn: "unat g = 0x30000000 + n"
    by (simp add: g)
  show al: "unat (align64 gsize) \<le> 0x10000 + 63" "unat gsize \<le> unat (align64 gsize)"
    using assms(3) unat_align64 [of gsize] by linarith+
  have "heap_end h = g + align64 gsize"
    using p by (auto simp: place_globals_def Let_def)
  then show "unat (heap_end h) = 0x30000000 + n + unat (align64 gsize)"
    using gn al assms by (simp add: unat_word_ariths)
  show "mem h = mem_write m g (replicate (unat gsize) 0)"
    using p memset_loop_write [of "unat gsize" m g 0] assms(3) by (auto simp: place_globals_def Let_def memset_def)
qed

lemma unat_small: "n < 2 ^ 64 \<Longrightarrow> unat (of_nat n :: u64) = n"
  by (simp add: unsigned_of_nat take_bit_nat_eq_self)

lemma stack_placed:
  assumes "0x10000000 \<le> n" "n \<le> 0xc0000000" "unat gsize \<le> 0x10000"
    and p: "place_globals gsize (of_nat n) m = (g, h)"
  shows "unat (ucast (heap_end h + 0x20000) :: u32) = unat (heap_end h + align64 0x20000)"
    "unat g + unat gsize + 0x20000 \<le> unat (ucast (heap_end h + 0x20000) :: u32)"
    "unat (ucast (heap_end h + 0x20000) :: u32) \<le> unat (tt_base (of_nat n))"
proof -
  note h = placed [OF assms]
  have e: "unat (heap_end h + 0x20000) = 0x30000000 + n + unat (align64 gsize) + 0x20000"
    using h(2,3) assms(2) by (simp add: unat_word_ariths)
  then have u: "unat (ucast (heap_end h + 0x20000) :: u32) = 0x30000000 + n + unat (align64 gsize) + 0x20000"
    using h(3) assms(2) by (simp add: unsigned_ucast_eq take_bit_nat_eq_self)
  have "align64 0x20000 = 0x20000"
    by (simp add: align64_def)
  with e u show "unat (ucast (heap_end h + 0x20000) :: u32) = unat (heap_end h + align64 0x20000)"
    by simp
  show "unat g + unat gsize + 0x20000 \<le> unat (ucast (heap_end h + 0x20000) :: u32)"
    using u h(1,4) by simp
  have "tt_base (of_nat n) = of_nat (0x3fffe000 + n)"
    by (simp add: tt_base_def)
  then have "unat (tt_base (of_nat n)) = 0x3fffe000 + n"
    using unat_small [of "0x3fffe000 + n"] assms(2) by simp
  then show "unat (ucast (heap_end h + 0x20000) :: u32) \<le> unat (tt_base (of_nat n))"
    using u h(3) by simp
qed

section \<open>The clocks\<close>

text \<open>The PLLs of the CPU and of the buses lock after some reads.\<close>

locale board_clocks = dram_clock +
  assumes locks: "a = CCU_PLL_CPUX \<or> a = CCU_PLL_PERIPH0 \<Longrightarrow> \<exists>k. d (reads d a k t) a AND CCU_LOCK_MASK \<noteq> 0"
begin

lemma poll_lock_reads:
  "a = CCU_PLL_CPUX \<or> a = CCU_PLL_PERIPH0 \<Longrightarrow> \<exists>k. poll_set d a CCU_LOCK_MASK t = Some (reads d a k t)"
  using locks [of a t] poll_set_reads [of d a _ t CCU_LOCK_MASK] by blast

lemma poll_lock: "a = CCU_PLL_CPUX \<or> a = CCU_PLL_PERIPH0 \<Longrightarrow> \<exists>u. poll_set d a CCU_LOCK_MASK t = Some u"
  using poll_lock_reads by blast

lemma cpux_returns: "\<exists>u. ccu_set_pll_cpux d hz t = Some u"
proof -
  obtain u where "poll_set d CCU_PLL_CPUX CCU_LOCK_MASK (exec d [
         Writel (push_bit 16 1 OR push_bit 8 1 OR push_bit 0 2) CCU_CPUX_AXI_CFG, Udelay 2,
         Writel (pll_cpux_value hz) CCU_PLL_CPUX] t) = Some u"
    using poll_lock by blast
  then show ?thesis
    by (simp add: ccu_set_pll_cpux_def Let_def)
qed

lemma init_returns: "\<exists>u. ccu_init d t = Some u"
proof -
  obtain u where u: "ccu_set_pll_cpux d 408000000 (writel 0x1fff CCU_PLL_LOCK_CTRL t) = Some u"
    using cpux_returns by blast
  obtain v where "poll_set d CCU_PLL_PERIPH0 CCU_LOCK_MASK (writel 0x80041811 CCU_PLL_PERIPH0 u) = Some v"
    using poll_lock by blast
  with u show ?thesis
    by (simp add: ccu_init_def Let_def)
qed

lemma upclock_returns: "\<exists>u. ccu_upclock d t = Some u"
  using cpux_returns [of 816000000 t] by (auto simp: ccu_upclock_def)

text \<open>The function ends, and what it leaves when it comes to its end.\<close>

lemma main_sram_only_cases:
  "\<exists>r. main_sram_only d clk gsize sctlr m tables t = Some r \<and>
    (case r of Sram_panic code u \<Rightarrow> code \<in> {1, 3, 6}
     | Sram_done s \<Rightarrow> \<exists>u v g h.
         sunxi_dram_init d clk u = Some (Inr (sr_found s, v)) \<and> sr_found s \<noteq> 0 \<and> ccu_upclock d v = Some (sr_hist s) \<and>
         place_globals gsize (of_nat (sr_found s)) m = (g, h) \<and> sr_globals s = g \<and>
         sr_heap s = h\<lparr>heap_end := heap_end h + align64 0x20000\<rparr> \<and> sr_dram_size s = of_nat (sr_found s) \<and>
         sr_stack_top s = ucast (heap_end h + 0x20000) \<and> sr_tables s = mmu_tables (of_nat (sr_found s)) tables)"
proof -
  obtain t1 where t1: "ccu_init d (green_led_set d True t) = Some t1"
    using init_returns by blast
  obtain ret t2 where t2: "rsb_init d (exec d wdog_ping (exec d lradc_enable (console_init d t1))) = (ret, t2)"
    by fastforce
  show ?thesis
  proof (cases "ret = 0")
    case False
    with t1 t2 show ?thesis
      by (simp add: main_sram_only_def)
  next
    case True
    obtain r where r: "sunxi_dram_init d clk (pmic_init d t2) = Some r"
      using dram_init_ends [where p = a64_para and socid = SOCID_A64] by (auto simp: passes_def sunxi_dram_init_def)
    show ?thesis
    proof (cases r)
      case (Inl u)
      with t1 t2 True r show ?thesis
        by (simp add: main_sram_only_def)
    next
      case (Inr x)
      obtain found v where x: "x = (found, v)"
        by fastforce
      obtain w where w: "ccu_upclock d v = Some w"
        using upclock_returns by blast
      obtain g h where "place_globals gsize (of_nat found) m = (g, h)"
        by fastforce
      with t1 t2 True r Inr x w show ?thesis
        by (auto simp: main_sram_only_def mmu_setup_def malloc_def Let_def)
    qed
  qed
qed

lemma memory_trained: "sunxi_dram_init d clk u = Some (Inr (n, v)) \<Longrightarrow> n \<noteq> 0 \<Longrightarrow> trained u v"
  unfolding sunxi_dram_init_def by (rule dram_init_trained)

lemma upclock_trained:
  assumes "ccu_upclock d v = Some w" "trained t v"
  shows "trained t w"
proof -
  let ?v = "exec d [Writel (push_bit 16 1 OR push_bit 8 1 OR push_bit 0 2) CCU_CPUX_AXI_CFG, Udelay 2,
      Writel (pll_cpux_value 816000000) CCU_PLL_CPUX] v"
  obtain k where k: "poll_set d CCU_PLL_CPUX CCU_LOCK_MASK ?v = Some (reads d CCU_PLL_CPUX k ?v)"
    using poll_lock_reads [of CCU_PLL_CPUX ?v] by blast
  have "trained t (reads d CCU_PLL_CPUX k ?v)"
    using assms(2) by (intro after_training.kept_reads after_training.kept_exec)
  with k assms(1) show ?thesis
    by (auto simp: ccu_upclock_def ccu_set_pll_cpux_def Let_def simp del: exec_Cons
        intro!: after_training.kept_exec)
qed

end

text \<open>
  C39: \<open>main_sram_only\<close> ends whatever the hardware answers, as long as time passes and the PLLs come up.
  It panics with the code of the bus, of the training or of the memory, or it hands over: after a
  training without errors the globals are zeroed 256 MiB before the end of the memory, the stack lies
  between them and the page tables, which are in the last 8 KiB, and the heap starts at its top.
\<close>

theorem main_sram_only_hands_over:
  assumes "board_clocks d clk" "unat gsize \<le> 0x10000"
  shows "\<exists>r. main_sram_only d clk gsize sctlr m tables t = Some r \<and>
    (case r of Sram_panic code u \<Rightarrow> code \<in> {1, 3, 6}
     | Sram_done s \<Rightarrow> (\<exists>u. trained u (sr_hist s)) \<and>
        (0x10000000 \<le> sr_found s \<longrightarrow> sr_found s \<le> 0xc0000000 \<longrightarrow>
           unat (sr_dram_size s) = sr_found s \<and> unat (sr_globals s) = 0x30000000 + sr_found s \<and>
           mem (sr_heap s) = mem_write m (sr_globals s) (replicate (unat gsize) 0) \<and>
           unat (sr_stack_top s) = unat (heap_end (sr_heap s)) \<and>
           unat (sr_globals s) + unat gsize + 0x20000 \<le> unat (sr_stack_top s) \<and>
           unat (sr_stack_top s) \<le> unat (tt_base (of_nat (sr_found s))) \<and>
           sr_tables s = mmu_tables (of_nat (sr_found s)) tables))"
proof -
  obtain r where r: "main_sram_only d clk gsize sctlr m tables t = Some r"
    and cases: "case r of Sram_panic code u \<Rightarrow> code \<in> {1, 3, 6}
     | Sram_done s \<Rightarrow> \<exists>u v g h.
         sunxi_dram_init d clk u = Some (Inr (sr_found s, v)) \<and> sr_found s \<noteq> 0 \<and> ccu_upclock d v = Some (sr_hist s) \<and>
         place_globals gsize (of_nat (sr_found s)) m = (g, h) \<and> sr_globals s = g \<and>
         sr_heap s = h\<lparr>heap_end := heap_end h + align64 0x20000\<rparr> \<and> sr_dram_size s = of_nat (sr_found s) \<and>
         sr_stack_top s = ucast (heap_end h + 0x20000) \<and> sr_tables s = mmu_tables (of_nat (sr_found s)) tables"
    using board_clocks.main_sram_only_cases [OF assms(1)] by blast
  show ?thesis
  proof (cases r)
    case (Sram_panic code u)
    with r cases show ?thesis
      by simp
  next
    case (Sram_done s)
    with cases obtain u v g h where s: "sunxi_dram_init d clk u = Some (Inr (sr_found s, v))" "sr_found s \<noteq> 0"
      "ccu_upclock d v = Some (sr_hist s)" "place_globals gsize (of_nat (sr_found s)) m = (g, h)" "sr_globals s = g"
      "sr_heap s = h\<lparr>heap_end := heap_end h + align64 0x20000\<rparr>" "sr_dram_size s = of_nat (sr_found s)"
      "sr_stack_top s = ucast (heap_end h + 0x20000)" "sr_tables s = mmu_tables (of_nat (sr_found s)) tables"
      by auto
    have "trained u (sr_hist s)"
      using board_clocks.upclock_trained [OF assms(1) s(3)] board_clocks.memory_trained [OF assms(1) s(1,2)] by blast
    moreover have "unat (of_nat (sr_found s) :: u32) = sr_found s" if "sr_found s \<le> 0xc0000000"
      using that by (simp add: unsigned_of_nat take_bit_nat_eq_self)
    ultimately show ?thesis
      using r Sram_done placed [OF _ _ assms(2) s(4)] stack_placed [OF _ _ assms(2) s(4)] by (auto simp: s(5-9))
  qed
qed

section \<open>A phone with 2 GiB\<close>

text \<open>The simulated memory, and PLLs that are locked.\<close>

definition phone :: device where
  "phone t a =
     (if a = CCU_PLL_CPUX \<or> a = CCU_PLL_PERIPH0 then 0xffffffff else simulated (15, 3, 12) (15, 3, 12) t a)"

interpretation phone: board_clocks phone bus_time
proof
  show "\<exists>k. phone (reads phone (CCM + 0x4c) k t) (CCM + 0x4c) AND push_bit 30 1 = 0" for t
    by (simp add: phone_def simulated_def SDRAM_BASE_def)
  show "a = CCU_PLL_CPUX \<or> a = CCU_PLL_PERIPH0 \<Longrightarrow> \<exists>k. phone (reads phone a k t) a AND CCU_LOCK_MASK \<noteq> 0" for a t
    by (auto simp: phone_def CCU_LOCK_MASK_def)
qed

lemma same_memory:
  assumes "dram_rank d cr base r b p" "\<And>t a. 0x40000000 \<le> unat a \<Longrightarrow> d' t a = d t a"
  shows "dram_rank d' cr base r b p"
proof
  note rank = dram_rank.register [OF assms(1)] dram_rank.place [OF assms(1)] dram_rank.rows [OF assms(1)]
    dram_rank.banks [OF assms(1)] dram_rank.page [OF assms(1)]
  show "cr = CR \<or> cr = CR_R1" "0x40000000 \<le> base" "base + 2 ^ 27 \<le> 2 ^ 32" "11 \<le> r" "r \<le> 16" "2 \<le> b" "b \<le> 3"
    "9 \<le> p" "p \<le> 13"
    using rank by blast+
  fix t c off v
  assume *: "configured cr t = Some c" "starts cr base t" "off < window (geometry_of c)" "base + off < 2 ^ 32"
    "stored base (geometry_of c) (r, b, p) t off = Some v"
  have "unat (of_nat (base + off) :: addr) = base + off"
    using *(4) by (rule unat_of_nat_addr)
  then have "d' t (of_nat (base + off)) = d t (of_nat (base + off))"
    using rank(2) by (intro assms(2)) simp
  then show "d' t (of_nat (base + off)) = v"
    using dram_rank.keeps [OF assms(1) *] by simp
qed

lemma phone_memory: "board_memory phone True (15, 3, 12) (15, 3, 12)"
proof -
  have "phone t a = simulated (15, 3, 12) (15, 3, 12) t a" if "0x40000000 \<le> unat a" for t a
    using that by (auto simp: phone_def)
  then show ?thesis
    using phone_first.dram_rank_axioms phone_second.dram_rank_axioms same_memory
    by (simp add: board_memory_def)
qed

lemma phone_ready: "controller_ready phone"
  by (simp add: controller_ready_def phone_def simulated_def SDRAM_BASE_def)

lemma phone_bus: "fst (rsb_init phone t) = 0"
proof -
  have clear: "rsb_wait_bit phone a m u = (0, Rd a 0 # u)" if "a = RSB_CTRL \<or> a = RSB_PMCR" for a m u
    using that by (auto simp: rsb_wait_bit_def poll_clear.simps [of phone] phone_def simulated_def SDRAM_BASE_def readl_def Let_def)
  show ?thesis
    by (simp add: rsb_init_def rsb_init_controller_def rsb_set_bus_speed_def rsb_set_device_mode_def
        rsb_assign_runtime_address_def rsb_wait_stat_def clear phone_def simulated_def SDRAM_BASE_def readl_def Let_def
        del: exec_Cons)
qed

lemma phone_done: "\<exists>s. main_sram_only phone bus_time gsize sctlr m tables t = Some (Sram_done s) \<and> sr_found s = 2 ^ 31"
proof -
  obtain t1 where t1: "ccu_init phone (green_led_set phone True t) = Some t1"
    using phone.init_returns by blast
  obtain t2 where t2: "rsb_init phone (exec phone wdog_ping (exec phone lradc_enable (console_init phone t1))) = (0, t2)"
    using phone_bus by (metis prod.collapse)
  obtain t3 where t3: "sunxi_dram_init phone bus_time (pmic_init phone t2) = Some (Inr (2 ^ 31, t3))"
    using dram_init_size [OF phone_ready phone_memory, of bus_time "pmic_init phone t2"] by (auto simp: total_size_def)
  obtain t4 where "ccu_upclock phone t3 = Some t4"
    using phone.upclock_returns by blast
  with t1 t2 t3 show ?thesis
    by (auto simp: main_sram_only_def malloc_def mmu_setup_def Let_def case_prod_beta)
qed

theorem main_sram_only_hands_over_witness:
  "\<exists>s. main_sram_only phone bus_time 0x100 0 (\<lambda>_. 0) (\<lambda>_. 0) [] = Some (Sram_done s) \<and>
    unat (sr_globals s) = 0xb0000000 \<and> unat (sr_stack_top s) = unat (heap_end (sr_heap s)) \<and>
    sr_tables s = mmu_tables 0x80000000 (\<lambda>_. 0)"
proof -
  obtain s where s: "main_sram_only phone bus_time 0x100 0 (\<lambda>_. 0) (\<lambda>_. 0) [] = Some (Sram_done s)" "sr_found s = 0x80000000"
    using phone_done [of "0x100" 0 "\<lambda>_. 0" "\<lambda>_. 0" "[]"] by auto
  have "unat (0x100 :: u64) \<le> 0x10000"
    by simp
  from main_sram_only_hands_over [OF phone.board_clocks_axioms this, of 0 "\<lambda>_. 0" "\<lambda>_. 0" "[]"] s show ?thesis
    by auto
qed

end
