(* ===== verification/Timer.thy ===== *)
theory Timer
  imports Prelude
begin

text \<open>
  The timers, \<open>src/src/uboot/arch/arm/cpu/armv8/generic_timer.c\<close> and \<open>src/src/uboot/lib/time.c\<close>. The n-th
  read of the counter register is a parameter; a function that reads it takes and returns the number of
  reads so far. The counter of this chip sometimes reads with its lower eleven bits all zero or all one;
  \<open>timer_read_counter\<close> reads again when the lower ten bits look like that.
\<close>

section \<open>Reading the counter\<close>

partial_function (option) timer_read_counter :: "(nat \<Rightarrow> u64) \<Rightarrow> nat \<Rightarrow> (u64 \<times> nat) option" where
  "timer_read_counter cnt n =
     (let v = cnt n in if (v + 1) AND 0x3ff \<le> 1 then timer_read_counter cnt (n + 1) else Some (v, n + 1))"

declare timer_read_counter.simps [code]

definition get_ticks :: "(nat \<Rightarrow> u64) \<Rightarrow> nat \<Rightarrow> (u64 \<times> nat) option" where
  "get_ticks = timer_read_counter"

definition usec2ticks :: "u64 \<Rightarrow> u64 \<Rightarrow> u64" where
  "usec2ticks tbclk usec =
     (if usec < 1000 then (usec * (tbclk div 1000) + 500) div 1000 else usec div 10 * (tbclk div 100000))"

definition timer_get_boot_us :: "(nat \<Rightarrow> u64) \<Rightarrow> u64 \<Rightarrow> nat \<Rightarrow> (u64 \<times> nat) option" where
  "timer_get_boot_us cnt tbclk n = map_option (\<lambda>(v, n). (v * 1000000 div tbclk, n)) (get_ticks cnt n)"

section \<open>Time\<close>

text \<open>\<open>CONFIG_SYS_HZ\<close> is 1000.\<close>

definition tick_to_time :: "u64 \<Rightarrow> u64 \<Rightarrow> u64" where
  "tick_to_time tbclk tick = tick * 1000 div tbclk"

definition get_timer :: "(nat \<Rightarrow> u64) \<Rightarrow> u64 \<Rightarrow> u64 \<Rightarrow> nat \<Rightarrow> (u64 \<times> nat) option" where
  "get_timer cnt tbclk base n = map_option (\<lambda>(v, n). (tick_to_time tbclk v - base, n)) (get_ticks cnt n)"

definition tick_to_time_us :: "u64 \<Rightarrow> u64 \<Rightarrow> u64" where
  "tick_to_time_us tbclk tick = tick * 1000 div (tbclk div 1000)"

definition get_timer_us :: "(nat \<Rightarrow> u64) \<Rightarrow> u64 \<Rightarrow> u64 \<Rightarrow> nat \<Rightarrow> (u64 \<times> nat) option" where
  "get_timer_us cnt tbclk base n = map_option (\<lambda>(v, n). (tick_to_time_us tbclk v - base, n)) (get_ticks cnt n)"

definition timer_get_us :: "(nat \<Rightarrow> u64) \<Rightarrow> u64 \<Rightarrow> nat \<Rightarrow> (u64 \<times> nat) option" where
  "timer_get_us cnt tbclk n = map_option (\<lambda>(v, n). (tick_to_time tbclk (v * 1000), n)) (get_ticks cnt n)"

definition usec_to_tick :: "u64 \<Rightarrow> u64 \<Rightarrow> u64" where
  "usec_to_tick tbclk usec = usec * tbclk div 1000000"

partial_function (option) wait_ticks :: "(nat \<Rightarrow> u64) \<Rightarrow> u64 \<Rightarrow> nat \<Rightarrow> nat option" where
  "wait_ticks cnt tmp n =
     Option.bind (get_ticks cnt n) (\<lambda>(v, n). if v < tmp + 1 then wait_ticks cnt tmp n else Some n)"

declare wait_ticks.simps [code]

definition delay_us :: "(nat \<Rightarrow> u64) \<Rightarrow> u64 \<Rightarrow> u64 \<Rightarrow> nat \<Rightarrow> nat option" where
  "delay_us cnt tbclk usec n =
     Option.bind (get_ticks cnt n) (\<lambda>(v, n). wait_ticks cnt (v + usec_to_tick tbclk usec) n)"

section \<open>The erratum\<close>

text \<open>
  The counter \<open>tc\<close> and what is read of it. A read is right, or its lower eleven bits are all zero or all
  one; two reads are at most 512 ticks apart, time goes on, and within 2048 ticks there is a read
  that is right and is not next to a carry out of the lower ten bits.
\<close>

locale erratum_counter =
  fixes tc :: "nat \<Rightarrow> nat" and cnt :: "nat \<Rightarrow> u64"
  assumes order: "tc n \<le> tc (Suc n)"
    and near: "tc (Suc n) \<le> tc n + 512"
    and onward: "\<exists>m. b \<le> tc m"
    and read: "cnt n = of_nat (tc n) \<or> cnt n = of_nat (tc n) AND NOT 0x7ff \<or> cnt n = of_nat (tc n) OR 0x7ff"
    and right: "\<exists>m \<ge> n. tc m \<le> tc n + 2048 \<and> cnt m = of_nat (tc m) \<and> 0 < tc m mod 1024 \<and> tc m mod 1024 < 1023"

lemma low_masks: "(0x3ff :: u64) = mask 10" "(0x7ff :: u64) = mask 11"
  by (simp_all add: mask_eq_exp_minus_1)

lemma unat_low: "unat (take_bit 10 v :: u64) = unat v mod 1024"
  by (simp add: unsigned_take_bit_eq flip: take_bit_eq_mod [of 10 "unat v", simplified])

lemma mod_low: "n mod 2 ^ 64 mod 1024 = (n :: nat) mod 1024"
  by (rule mod_mod_cancel) simp

lemma low_Suc: "unat ((v + 1 :: u64) AND 0x3ff) = (unat v mod 1024 + 1) mod 1024"
proof -
  have "unat ((v + 1) AND 0x3ff) = unat (v + 1) mod 1024"
    unfolding low_masks take_bit_eq_mask [symmetric] by (rule unat_low)
  also have "\<dots> = (unat v + 1) mod 1024"
    using mod_low [of "unat v + 1"] by (simp add: unat_word_ariths)
  finally show ?thesis
    by (simp add: mod_simps)
qed

lemma zeros_rejected: "((x AND NOT 0x7ff) + 1 :: u64) AND 0x3ff \<le> 1"
proof -
  have "take_bit 10 (x AND NOT (mask 11)) = (0 :: u64)"
    by (rule bit_word_eqI) (auto simp: bit_simps)
  then have "unat (x AND NOT (mask 11)) mod 1024 = 0"
    using unat_low [of "x AND NOT (mask 11)"] by simp
  then show ?thesis
    using low_Suc [of "x AND NOT 0x7ff"] by (simp add: word_le_nat_alt low_masks)
qed

lemma ones_rejected: "((x OR 0x7ff) + 1 :: u64) AND 0x3ff \<le> 1"
proof -
  have "take_bit 10 (x OR mask 11) = (mask 10 :: u64)"
    by (rule bit_word_eqI) (auto simp: bit_simps)
  then have "unat (x OR mask 11) mod 1024 = 1023"
    using unat_low [of "x OR mask 11"] by (simp add: mask_eq_exp_minus_1)
  then show ?thesis
    using low_Suc [of "x OR 0x7ff"] by (simp add: word_le_nat_alt low_masks)
qed

lemma middle_accepted:
  assumes "0 < k mod 1024" "k mod 1024 < 1023"
  shows "\<not> ((of_nat k + 1 :: u64) AND 0x3ff \<le> 1)"
proof -
  have "unat (of_nat k :: u64) mod 1024 = k mod 1024"
    using mod_low [of k] by (simp add: unsigned_of_nat take_bit_eq_mod)
  then show ?thesis
    using low_Suc [of "of_nat k"] assms by (simp add: word_le_nat_alt)
qed

context erratum_counter begin

lemma tc_mono: "m \<le> n \<Longrightarrow> tc m \<le> tc n"
  by (rule lift_Suc_mono_le [of tc]) (auto intro: order)

lemma accepted_right: "\<not> ((cnt n + 1) AND 0x3ff \<le> 1) \<Longrightarrow> cnt n = of_nat (tc n)"
  using read [of n] zeros_rejected ones_rejected by metis

lemma read_counter:
  "\<exists>m \<ge> n. timer_read_counter cnt n = Some (of_nat (tc m), Suc m) \<and> tc m \<le> tc n + 2048"
proof -
  obtain m where m: "n \<le> m" "tc m \<le> tc n + 2048" "cnt m = of_nat (tc m)" "0 < tc m mod 1024" "tc m mod 1024 < 1023"
    using right by blast
  have "i \<le> m \<Longrightarrow> \<exists>k \<ge> i. k \<le> m \<and> timer_read_counter cnt i = Some (of_nat (tc k), Suc k)" for i
  proof (induction "m - i" arbitrary: i rule: less_induct)
    case less
    show ?case
    proof (cases "(cnt i + 1) AND 0x3ff \<le> 1")
      case True
      then have "i \<noteq> m"
        using middle_accepted [OF m(4,5)] m(3) by metis
      with less.prems have "m - Suc i < m - i" "Suc i \<le> m"
        by simp_all
      then obtain k where "Suc i \<le> k" "k \<le> m" "timer_read_counter cnt (Suc i) = Some (of_nat (tc k), Suc k)"
        using less.hyps [of "Suc i"] by blast
      with True show ?thesis
        by (intro exI [of _ k]) (subst timer_read_counter.simps, simp add: Let_def)
    next
      case False
      then show ?thesis
        using accepted_right [OF False] less.prems
        by (intro exI [of _ i]) (subst timer_read_counter.simps, simp add: Let_def)
    qed
  qed
  from this [OF m(1)] obtain k where "n \<le> k" "k \<le> m" "timer_read_counter cnt n = Some (of_nat (tc k), Suc k)"
    by blast
  with m(2) tc_mono [of k m] show ?thesis
    by (intro exI [of _ k]) auto
qed

lemma wait_ticks_returns:
  assumes "unat tmp + 4096 < 2 ^ 64" "tc n \<le> unat tmp + 512"
  shows "\<exists>m \<ge> n. wait_ticks cnt tmp n = Some (Suc m) \<and> unat tmp < tc m"
proof -
  obtain last where last: "unat tmp < tc last"
    using onward [of "Suc (unat tmp)"] by (auto simp: Suc_le_eq)
  show ?thesis
    using assms(2)
  proof (induction "last - n" arbitrary: n rule: less_induct)
    case less
    obtain k where k: "n \<le> k" "timer_read_counter cnt n = Some (of_nat (tc k), Suc k)" "tc k \<le> tc n + 2048"
      using read_counter by blast
    have small: "tc k < 2 ^ 64"
      using k(3) less.prems assms(1) by simp
    have t1: "unat (tmp + 1) = unat tmp + 1"
      using assms(1) by (simp add: unat_word_ariths)
    have test: "(of_nat (tc k) :: u64) < tmp + 1 \<longleftrightarrow> tc k \<le> unat tmp"
      using small t1 by (simp add: word_less_nat_alt unsigned_of_nat take_bit_nat_eq_self less_Suc_eq_le)
    show ?case
    proof (cases "tc k \<le> unat tmp")
      case True
      then have "k < last"
        using last tc_mono [of last k] by (meson le_less_trans not_le)
      moreover have "tc (Suc k) \<le> unat tmp + 512"
        using near [of k] True by simp
      moreover have "last - Suc k < last - n"
        using k(1) \<open>k < last\<close> by simp
      ultimately obtain m where "Suc k \<le> m" "wait_ticks cnt tmp (Suc k) = Some (Suc m)" "unat tmp < tc m"
        using less.hyps [of "Suc k"] k(1) Suc_leD le_trans by blast
      with True test k show ?thesis
        by (intro exI [of _ m]) (subst wait_ticks.simps, simp add: get_ticks_def)
    next
      case False
      with test k show ?thesis
        by (intro exI [of _ k]) (subst wait_ticks.simps, simp add: get_ticks_def)
    qed
  qed
qed

end

text \<open>A counter that moves with every read and jumps back at every carry into bit 11.\<close>

definition jumpy :: "nat \<Rightarrow> u64" where
  "jumpy n = (if n mod 2048 = 2047 then of_nat n AND NOT 0x7ff else of_nat n)"

interpretation jumpy: erratum_counter "\<lambda>n. n" jumpy
proof
  fix n :: nat
  have good: "jumpy m = of_nat m" if "m mod 1024 < 1023" for m
    using that mod_mod_cancel [of 1024 2048 m] by (auto simp: jumpy_def)
  consider "0 < n mod 1024 \<and> n mod 1024 < 1023" | "n mod 1024 = 0" | "n mod 1024 = 1023"
    using mod_less_divisor [of 1024 n] by linarith
  then show "\<exists>m \<ge> n. m \<le> n + 2048 \<and> jumpy m = of_nat m \<and> 0 < m mod 1024 \<and> m mod 1024 < 1023"
  proof cases
    case 1
    then show ?thesis
      using good [of n] by (intro exI [of _ n]) simp
  next
    case 2
    then have "(n + 1) mod 1024 = 1"
      by (simp add: mod_Suc)
    then show ?thesis
      using good [of "n + 1"] by (intro exI [of _ "n + 1"]) simp
  next
    case 3
    then have "(n + 2) mod 1024 = 1"
      by (simp add: mod_Suc)
    then show ?thesis
      using good [of "n + 2"] by (intro exI [of _ "n + 2"]) simp
  qed
qed (auto simp: jumpy_def)

section \<open>The properties\<close>

text \<open>
  C40: on a counter with the erratum \<open>timer_read_counter\<close> returns, and the value that it returns is the
  value that the counter had, never a wrong one.
\<close>

theorem timer_read_counter_right:
  assumes "erratum_counter tc cnt"
  shows "\<exists>m \<ge> n. timer_read_counter cnt n = Some (of_nat (tc m), Suc m) \<and> tc m \<le> tc n + 2048"
  by (rule erratum_counter.read_counter [OF assms])

text \<open>
  \<open>udelay\<close> ends, and more ticks have passed than the microseconds stand for, as long as the product
  with the frequency and the counter stay below \<open>2 ^ 64\<close>.
\<close>

theorem delay_us_lasts:
  assumes "erratum_counter tc cnt" "unat usec * unat tbclk < 2 ^ 64"
    and "tc n + unat usec * unat tbclk div 1000000 + 8192 < 2 ^ 64"
  shows "\<exists>m. delay_us cnt tbclk usec n = Some (Suc m) \<and> tc n + unat usec * unat tbclk div 1000000 < tc m"
proof -
  let ?k = "unat usec * unat tbclk div 1000000"
  obtain i where i: "n \<le> i" "timer_read_counter cnt n = Some (of_nat (tc i), Suc i)" "tc i \<le> tc n + 2048"
    using erratum_counter.read_counter [OF assms(1)] by blast
  have k: "unat (usec_to_tick tbclk usec) = ?k"
    using assms(2) by (simp add: usec_to_tick_def unat_div unat_word_ariths)
  have tmp: "unat (of_nat (tc i) + usec_to_tick tbclk usec) = tc i + ?k"
    using i(3) assms(3) k by (simp add: unat_word_ariths unsigned_of_nat take_bit_nat_eq_self)
  have "tc (Suc i) \<le> tc i + ?k + 512"
    using erratum_counter.near [OF assms(1), of i] by simp
  then obtain m where "Suc i \<le> m" "wait_ticks cnt (of_nat (tc i) + usec_to_tick tbclk usec) (Suc i) = Some (Suc m)"
    "tc i + ?k < tc m"
    using erratum_counter.wait_ticks_returns [OF assms(1), of "of_nat (tc i) + usec_to_tick tbclk usec" "Suc i"]
      tmp i(3) assms(3) by auto
  moreover have "tc n \<le> tc i"
    using erratum_counter.tc_mono [OF assms(1) i(1)] .
  ultimately show ?thesis
    using i(2) by (auto simp: delay_us_def get_ticks_def intro!: exI [of _ m])
qed

theorem timer_read_counter_right_witness:
  "\<exists>m \<ge> 2047. timer_read_counter jumpy 2047 = Some (of_nat m, Suc m) \<and> m \<le> 4095 \<and> jumpy 2047 \<noteq> 2047"
proof -
  have "jumpy 2047 \<noteq> 2047"
    by (simp add: jumpy_def)
  then show ?thesis
    using timer_read_counter_right [OF jumpy.erratum_counter_axioms, of 2047] by simp
qed

theorem delay_us_lasts_witness:
  "\<exists>m. delay_us jumpy 24000000 100 2000 = Some (Suc m) \<and> 4400 < m"
  using delay_us_lasts [OF jumpy.erratum_counter_axioms, of 100 24000000 2000] by simp

end
