(* ===== verification/Start32.thy ===== *)
theory Start32
  imports Board
begin

text \<open>
  The 32-bit preamble, \<open>src/src/start32.c\<close>: it runs first, and goes back into the boot ROM when the
  loader asked for it before a reset, otherwise on to the 64-bit loader.
\<close>

text \<open>The address that is jumped to, \<open>None\<close> for the return that goes on.\<close>

definition start32_main :: "device \<Rightarrow> history \<Rightarrow> u32 option \<times> history" where
  "start32_main d t =
     (let (mode, t) = readl d RTC_ONESHOT t;
          target = (if mode = 0xb0010fe1 then 0x20 else if mode = 0xb001e33c then 0x2f54 else 0)
      in if target \<noteq> 0 then (Some target, writel 0 RTC_ONESHOT t) else (None, t))"

text \<open>A register that keeps what was written to it, over a reset too.\<close>

definition keeps_register :: "device \<Rightarrow> addr \<Rightarrow> bool" where
  "keeps_register d a \<longleftrightarrow> (\<forall>t. a \<in> fst ` set (writes t) \<longrightarrow> d t a = last_wr (\<lambda>_. 0) t a)"

lemma kept_value: "keeps_register d a \<Longrightarrow> a \<in> fst ` set (writes t) \<Longrightarrow> d t a = last_wr (\<lambda>_. 0) t a"
  by (simp add: keeps_register_def)

text \<open>
  The request of \<open>reboot_to\<close> reaches the preamble after the reset: it jumps to the entry of the boot
  ROM that was asked for, once, and the start after that goes on to the loader.
\<close>

theorem reboot_reaches_preamble:
  assumes "keeps_register d RTC_ONESHOT" "bootsel = BOOTSEL_FEL \<or> bootsel = BOOTSEL_EMMC"
  shows "\<exists>u. start32_main d (reboot_to d bootsel t) = (Some (if bootsel = BOOTSEL_FEL then 0x20 else 0x2f54), u) \<and>
    fst (start32_main d u) = None"
proof -
  have mode: "d (reboot_to d bootsel t) RTC_ONESHOT = (if bootsel = BOOTSEL_FEL then 0xb0010fe1 else 0xb001e33c)"
    using assms(2) by (subst kept_value [OF assms(1)]) (auto simp: reboot_to_def soc_reset_def io_defs)
  have zero: "d (Wr RTC_ONESHOT 0 # u) RTC_ONESHOT = 0" for u
    by (subst kept_value [OF assms(1)]) auto
  show ?thesis
    using mode zero by (auto simp: start32_main_def readl_def writel_def Let_def)
qed

theorem reboot_reaches_preamble_witness:
  "\<exists>u. start32_main (regfile (\<lambda>_. 0)) (reboot_to (regfile (\<lambda>_. 0)) BOOTSEL_FEL []) = (Some 0x20, u)"
proof -
  have "keeps_register (regfile (\<lambda>_. 0)) RTC_ONESHOT"
    by (simp add: keeps_register_def regfile_def)
  from reboot_reaches_preamble [OF this, of BOOTSEL_FEL "[]"] show ?thesis
    by auto
qed

end
