(* ===== verification/Fdt_Lookup.thy ===== *)
theory Fdt_Lookup
  imports Fdt_Path
begin

text \<open>
  What a client of libfdt sees: the value of a property at a path, before and after an edit. The
  laws are those of a map from nodes and names to values; two paths are of the same node when they
  lead along the same children.
\<close>

section \<open>Values at paths\<close>

definition path_prop :: "mem \<Rightarrow> u64 \<Rightarrow> string \<Rightarrow> string \<Rightarrow> u8 list option" where
  "path_prop m fdt path s = do {
     node \<leftarrow> fdt_path_offset m fdt path;
     if neg node then None
     else (case fdt_getprop m fdt node s of
             Some (Inr (p, len)) \<Rightarrow> Some (read_bytes m p (unat len))
           | _ \<Rightarrow> None)
   }"

fun route :: "u8 list list \<Rightarrow> dtree \<Rightarrow> nat list option" where
  "route [] t = Some []"
| "route (s # ss) (DNode n ps ks) =
     (case dropWhile (\<lambda>k. \<not> node_named s (dt_name k)) ks of
        [] \<Rightarrow> None
      | k # _ \<Rightarrow> map_option ((#) (length (before s ks))) (route ss k))"

fun props_at :: "u8 list list \<Rightarrow> dtree \<Rightarrow> (u8 list \<rightharpoonup> u8 list) option" where
  "props_at [] t = Some (map_of (dt_props t))"
| "props_at (s # ss) (DNode n ps ks) =
     (case dropWhile (\<lambda>k. \<not> node_named s (dt_name k)) ks of [] \<Rightarrow> None | k # _ \<Rightarrow> props_at ss k)"

definition dt_get :: "dtree \<Rightarrow> string \<Rightarrow> string \<Rightarrow> u8 list option" where
  "dt_get t path s = Option.bind (props_at (parts (bytes path)) t) (\<lambda>ps. ps (bytes s))"

definition same_node :: "dtree \<Rightarrow> string \<Rightarrow> string \<Rightarrow> bool" where
  "same_node t p p' \<longleftrightarrow> route (parts (bytes p)) t = route (parts (bytes p')) t"

lemma props_at_walk: "props_at ss t = map_option (\<lambda>(_, k). map_of (dt_props k)) (walk ss pre t)"
  by (induction ss pre t rule: walk.induct) (auto simp del: dropWhile_eq_Nil_conv split: list.splits)

lemma route_walk: "route ss t = None \<longleftrightarrow> walk ss pre t = None"
  by (induction ss pre t rule: walk.induct) (auto simp del: dropWhile_eq_Nil_conv split: list.splits)

lemma value_short:
  assumes "toks_at m fdt B (pre @ flat (DNode n ps ks) @ post)" "map_of ps s = Some d"
  shows "length d < 2 ^ 31"
proof -
  have "(s, d) \<in> set ps"
    using assms(2) by (rule map_of_SomeD)
  then obtain x y where "ps = x @ (s, d) # y"
    by (metis split_list)
  then have "length d \<le> toks_len (flat (DNode n ps ks) @ post)"
    by simp
  then show ?thesis
    using toks_at_bound(1) [OF assms(1)] assms(1) blob_bounds [of m fdt B] by (simp add: toks_at_def)
qed

theorem path_prop_at:
  assumes T: "toks_at m fdt B (flat t @ post)" and p: "CHR 0x00 \<notin> set p" "take 1 p = ''/''" and s: "CHR 0x00 \<notin> set s"
  shows "path_prop m fdt p s = dt_get t p s"
proof (cases "walk (parts (bytes p)) [] t")
  case None
  then show ?thesis
    using fixed_path_at [OF T p] by (simp add: path_prop_def dt_get_def props_at_walk [of _ t "[]"])
next
  case (Some qk)
  obtain q n ps ks where w: "walk (parts (bytes p)) [] t = Some (q, DNode n ps ks)"
    using Some by (metis dtree.exhaust surj_pair)
  obtain post' where N: "toks_at m fdt B (q @ flat (DNode n ps ks) @ post')" "\<not> neg (pos q)"
    using walk_node [OF T w] by blast
  have z: "0 \<notin> set (bytes s)" using s by simp
  note g = getprop_at [OF N(1) z]
  show ?thesis
  proof (cases "map_of ps (bytes s)")
    case None
    then show ?thesis
      using g(1) N(2) w fixed_path_at [OF T p]
      by (simp add: path_prop_def dt_get_def props_at_walk [of _ t "[]"] fdt_getprop_def)
  next
    case (Some d)
    have "length d < 2 ^ 31" using value_short [OF N(1) Some] .
    then have "unat (of_nat (length d) :: u32) = length d"
      by (simp add: unat_of_nat)
    then show ?thesis
      using g(2) [OF Some] N(2) w Some fixed_path_at [OF T p]
      by (auto simp: path_prop_def dt_get_def props_at_walk [of _ t "[]"] fdt_getprop_def read_bytes_mem_bytes)
  qed
qed

section \<open>Lookup after an update\<close>

lemma first_child:
  "dropWhile (\<lambda>k. \<not> node_named s (dt_name k)) ks =
     (if length (before s ks) < length ks then ks ! length (before s ks) # drop (Suc (length (before s ks))) ks else [])"
  by (induction ks) auto

lemma on_child_update: "on_child s f ks = (let i = length (before s ks) in ks[i := f (ks ! i)])"
  by (induction ks) (auto simp: Let_def)

lemma before_length_update:
  assumes "dt_name k' = dt_name (ks ! i)"
  shows "length (before s (ks[i := k'])) = length (before s ks)"
  using assms by (induction ks arbitrary: i) (auto split: nat.splits)

lemma props_at_set:
  "route ss t \<noteq> None \<Longrightarrow>
    props_at ss' (at_path ss (set_dt s v) t) =
      (if route ss' t = route ss t then map_option (\<lambda>ps. ps(s \<mapsto> v)) (props_at ss' t) else props_at ss' t)"
proof (induction ss arbitrary: ss' t)
  case Nil
  then show ?case
    by (cases t; cases ss') (auto simp: first_child split: option.splits)
next
  case (Cons c ss)
  obtain n ps ks where t: "t = DNode n ps ks" by (cases t)
  show ?case
  proof (cases ss')
    case Nil
    then show ?thesis
      using Cons.prems by (auto simp: t first_child split: if_splits)
  next
    case (Cons c' ss'')
    define i i' where "i = length (before c ks)" and "i' = length (before c' ks)"
    have i: "i < length ks" "route ss (ks ! i) \<noteq> None"
      using Cons.prems by (auto simp: t first_child i_def split: if_splits)
    have name: "dt_name (at_path ss (set_dt s v) k) = dt_name k" for k
      by (cases ss; cases k) simp_all
    have len: "length (before c' (ks[i := at_path ss (set_dt s v) (ks ! i)])) = i'"
      by (simp add: before_length_update name i'_def)
    have kids: "on_child c (at_path ss (set_dt s v)) ks = ks[i := at_path ss (set_dt s v) (ks ! i)]"
      by (simp add: on_child_update Let_def i_def)
    show ?thesis
      using Cons.IH [OF i(2), of ss''] i
      by (auto simp: t Cons first_child len kids nth_list_update simp del: fun_upd_apply simp flip: i_def i'_def)
  qed
qed

theorem dt_get_set:
  assumes "route (parts (bytes p)) t \<noteq> None"
  shows "dt_get (at_path (parts (bytes p)) (set_dt (bytes s) v) t) p' s' =
    (if same_node t p' p \<and> s' = s then Some v else dt_get t p' s')"
proof -
  have "props_at (parts (bytes p')) t \<noteq> None" if "same_node t p' p"
    using that assms route_walk [of "parts (bytes p')" t "[]"] by (auto simp: props_at_walk [of _ t "[]"] same_node_def)
  then show ?thesis
    using props_at_set [OF assms] bytes_inject by (auto simp: dt_get_def same_node_def)
qed

section \<open>What the calls promise\<close>

lemma node_at_path:
  assumes T: "toks_at m fdt B (flat t @ post)" and p: "CHR 0x00 \<notin> set p" "take 1 p = ''/''"
    and node: "fdt_path_offset m fdt p = Some node" "\<not> neg node"
  obtains q n ps ks post' where "walk (parts (bytes p)) [] t = Some (q, DNode n ps ks)" "node = pos q"
    "\<And>f. q @ flat (f (DNode n ps ks)) @ post' = flat (at_path (parts (bytes p)) f t) @ post"
    "toks_at m fdt B (q @ flat (DNode n ps ks) @ post')"
proof -
  obtain q k where w: "walk (parts (bytes p)) [] t = Some (q, k)" "node = pos q"
    using fixed_path_at [OF T p] node by (auto split: option.splits)
  obtain n ps ks where k: "k = DNode n ps ks" by (cases k)
  show thesis
    using walk_node [OF T w(1)] that w k by metis
qed

text \<open>
  C16: a property read through an absolute path is the one that the tree has there: the lookup finds
  the node that the names of the path lead to, or reports that there is none.
\<close>

theorem fdt_lookup_in_tree:
  assumes "toks_at m fdt B (flat t @ post)" "CHR 0x00 \<notin> set p" "take 1 p = ''/''" "CHR 0x00 \<notin> set s"
  shows "fdt_path_offset m fdt p =
      Some (case walk (parts (bytes p)) [] t of None \<Rightarrow> - FDT_ERR_NOTFOUND | Some (q, _) \<Rightarrow> pos q) \<and>
    path_prop m fdt p s = dt_get t p s"
  using fixed_path_at [OF assms(1-3)] path_prop_at [OF assms] by simp

text \<open>
  C15: setting a property either succeeds, and then every path reads as before except for this
  property of this node, which reads as the value; or there is no room, and every path reads as
  before. Nothing outside of the blob changes.
\<close>

theorem fdt_setprop_lookup:
  assumes T: "toks_at m fdt B (flat t @ post)" and p: "CHR 0x00 \<notin> set p" "take 1 p = ''/''"
    and node: "fdt_path_offset m fdt p = Some node" "\<not> neg node"
    and s: "CHR 0x00 \<notin> set s" "length s < 2 ^ 30" "length v < 2 ^ 30"
  shows "\<exists>r m'. fdt_setprop fdt node s v m = Some (r, m') \<and> (r = 0 \<or> r = - FDT_ERR_NOSPACE) \<and>
    (used B + prop_cost (bytes s) v \<le> b_total B \<longrightarrow> r = 0) \<and> same_outside m m' fdt (b_total B) \<and>
    (\<forall>p' s'. CHR 0x00 \<notin> set p' \<longrightarrow> take 1 p' = ''/'' \<longrightarrow> CHR 0x00 \<notin> set s' \<longrightarrow>
       path_prop m' fdt p' s' =
         (if r = 0 \<and> same_node t p' p \<and> s' = s then Some v else path_prop m fdt p' s'))"
proof -
  obtain q n ps ks post' where w: "walk (parts (bytes p)) [] t = Some (q, DNode n ps ks)" "node = pos q"
    "\<And>f. q @ flat (f (DNode n ps ks)) @ post' = flat (at_path (parts (bytes p)) f t) @ post"
    "toks_at m fdt B (q @ flat (DNode n ps ks) @ post')"
    using node_at_path [OF T p node] by blast
  let ?t = "at_path (parts (bytes p)) (set_dt (bytes s) v) t"
  have r: "route (parts (bytes p)) t \<noteq> None"
    using w(1) route_walk [of _ t "[]"] by simp
  have "0 \<notin> set (bytes s)" "length (bytes s) < 2 ^ 30"
    using s by simp_all
  from setprop_at [OF w(4) this s(3)] obtain r m' B' where set:
    "fdt_setprop fdt node s v m = Some (r, m')" "edited m m' fdt B B'"
    "set_done B (prop_cost (bytes s) v)
      (\<lambda>m' B'. toks_at m' fdt B' (flat ?t @ post)) (\<lambda>m' B'. toks_at m' fdt B' (flat t @ post)) r m' B'"
    using w(2) w(3) [of "set_dt (bytes s) v"] w(3) [of "\<lambda>t. t"] by (auto simp: at_path_id)
  have "path_prop m' fdt p' s' = (if r = 0 \<and> same_node t p' p \<and> s' = s then Some v else path_prop m fdt p' s')"
    if "CHR 0x00 \<notin> set p'" "take 1 p' = ''/''" "CHR 0x00 \<notin> set s'" for p' s'
  proof (cases "r = 0")
    case True
    then have "toks_at m' fdt B' (flat ?t @ post)"
      using set(3) by (simp add: set_done_def)
    then show ?thesis
      using path_prop_at [OF _ that] path_prop_at [OF T that] dt_get_set [OF r] True by metis
  next
    case False
    then have "toks_at m' fdt B' (flat t @ post)"
      using set(3) by (simp add: set_done_def)
    then show ?thesis
      using path_prop_at [OF _ that] path_prop_at [OF T that] False by metis
  qed
  moreover have "r = 0 \<or> r = - FDT_ERR_NOSPACE" "used B + prop_cost (bytes s) v \<le> b_total B \<longrightarrow> r = 0"
    "same_outside m m' fdt (b_total B)"
    using set(2,3) by (auto simp: set_done_def edited_def split: if_splits)
  ultimately show ?thesis
    using set(1) by blast
qed

text \<open>
  C17: a node that was added is found under its name and cannot be added twice; deleting it gives the
  tree from before, in the same space.
\<close>

theorem fdt_subnode_roundtrip:
  assumes T: "toks_at m fdt B (flat t @ post)" and p: "CHR 0x00 \<notin> set p" "take 1 p = ''/''"
    and node: "fdt_path_offset m fdt p = Some node" "\<not> neg node"
    and s: "CHR 0x00 \<notin> set s" "length s < 2 ^ 30" "fdt_subnode_offset m fdt node s = Some (- FDT_ERR_NOTFOUND)"
    and room: "used B + node_cost (bytes s) \<le> b_total B"
  shows "\<exists>off m1 m2 B2. fdt_add_subnode fdt node s m = Some (off, m1) \<and> \<not> neg off \<and>
    fdt_subnode_offset m1 fdt node s = Some off \<and>
    fdt_add_subnode fdt node s m1 = Some (- FDT_ERR_EXISTS, m1) \<and>
    fdt_del_node fdt off m1 = Some (0, m2) \<and> edited m m2 fdt B B2 \<and> used B2 = used B \<and>
    toks_at m2 fdt B2 (flat t @ post)"
proof -
  obtain q n ps ks post' where w: "walk (parts (bytes p)) [] t = Some (q, DNode n ps ks)" "node = pos q"
    "\<And>f. q @ flat (f (DNode n ps ks)) @ post' = flat (at_path (parts (bytes p)) f t) @ post"
    "toks_at m fdt B (q @ flat (DNode n ps ks) @ post')"
    using node_at_path [OF T p node] by blast
  have z: "0 \<notin> set (bytes s)" "length (bytes s) < 2 ^ 30"
    using s by simp_all
  let ?k = "DNode (bytes s) [] []" and ?q = "q @ TBegin n # prop_toks ps"
  have none: "before (bytes s) ks = ks"
  proof (rule ccontr)
    assume ne: "before (bytes s) ks \<noteq> ks"
    have "fdt_subnode_offset m fdt node s = Some (child_pos q n ps (bytes s) ks)"
      unfolding fdt_subnode_offset_def w(2) subnode_offset_at [OF w(4) z(1)] if_not_P [OF ne] ..
    then have "child_pos q n ps (bytes s) ks = - FDT_ERR_NOTFOUND"
      using s(3) by (simp only: option.inject)
    with child_pos_not_neg [OF w(4) ne] show False
      by (simp only:) simp
  qed
  obtain m1 B1 where 1: "fdt_add_subnode fdt node s m = Some (pos ?q, m1)" "edited m m1 fdt B B1"
    "used B1 = used B + node_cost (bytes s)" "toks_at m1 fdt B1 (q @ flat (DNode n ps (?k # ks)) @ post')"
    using add_subnode_at(3) [OF w(4) z none room] w(2) by (auto simp: fdt_add_subnode_def)
  have ex: "before (bytes s) (?k # ks) \<noteq> ?k # ks"
    by simp
  have found: "fdt_subnode_offset m1 fdt node s = Some (pos ?q)"
    using subnode_offset_at [OF 1(4) z(1)] w(2) by (simp add: fdt_subnode_offset_def)
  have twice: "fdt_add_subnode fdt node s m1 = Some (- FDT_ERR_EXISTS, m1)"
    using add_subnode_at(1) [OF 1(4) z ex] w(2) by (simp add: fdt_add_subnode_def)
  have T1: "toks_at m1 fdt B1 (?q @ flat ?k @ concat (map flat ks) @ [TEndNode] @ post')"
    using 1(4) by simp
  obtain m2 B2 where 2: "fdt_del_node fdt (pos ?q) m1 = Some (0, m2)" "edited m1 m2 fdt B1 B2"
    "used B2 + toks_len (flat ?k) = used B1" "toks_at m2 fdt B2 (?q @ concat (map flat ks) @ [TEndNode] @ post')"
    using del_node_at [OF T1] by blast
  have "toks_at m2 fdt B2 (flat t @ post)"
    using 2(4) w(3) [of "\<lambda>t. t"] by (simp add: at_path_id)
  moreover have "used B2 = used B"
    using 1(3) 2(3) by (simp add: node_cost_def)
  moreover have "\<not> neg (pos ?q)"
    by (rule toks_at_pos [OF T1])
  ultimately show ?thesis
    using 1(1) found twice 2(1) edited_trans [OF 1(2) 2(2)] by blast
qed

section \<open>A blob with room\<close>

definition roomy_blob :: blob where "roomy_blob = root_blob\<lparr>b_total := 512\<rparr>"

definition roomy_mem :: mem where "roomy_mem = mem_write (\<lambda>_. 0) 0x1000 (packed roomy_blob)"

lemma roomy_toks: "toks_at roomy_mem 0x1000 roomy_blob (flat (DNode [] [] []) @ [TEnd])"
proof -
  have "mem_bytes roomy_mem 0x1000 (packed roomy_blob)"
    unfolding roomy_mem_def by (rule mem_write_bytes) (simp add: packed_def roomy_blob_def root_blob_def)
  then have "blob_at roomy_mem 0x1000 roomy_blob"
    by (intro blob_at_packed) (simp_all add: roomy_blob_def root_blob_def blob_ok_def)
  moreover have "toks_enc [] (flat (DNode [] [] []) @ [TEnd]) (b_struct roomy_blob)"
    by (simp add: roomy_blob_def root_blob_def pad4_def)
  ultimately show ?thesis
    by (simp add: toks_at_def roomy_blob_def root_blob_def)
qed

lemma parts_root: "parts (bytes ''/'') = []"
  by (simp add: parts.simps bytes_Cons)

lemma roomy_root: "fdt_path_offset roomy_mem 0x1000 ''/'' = Some 0"
  using fixed_path_at [OF roomy_toks, of "''/''"] by (simp add: parts_root)

theorem fdt_lookup_in_tree_witness:
  "fdt_path_offset roomy_mem 0x1000 ''/chosen'' = Some (- FDT_ERR_NOTFOUND) \<and>
   path_prop roomy_mem 0x1000 ''/chosen'' ''bootargs'' = None"
proof -
  have "parts (bytes ''/chosen'') = [bytes ''chosen'']"
    by (simp add: parts.simps bytes_Cons)
  then show ?thesis
    using fdt_lookup_in_tree [OF roomy_toks, of "''/chosen''" "''bootargs''"] by (simp add: dt_get_def)
qed

theorem fdt_setprop_lookup_witness:
  "\<exists>m'. fdt_setprop 0x1000 0 ''model'' [1, 2, 0] roomy_mem = Some (0, m') \<and>
     path_prop m' 0x1000 ''//'' ''model'' = Some [1, 2, 0] \<and> path_prop m' 0x1000 ''/'' ''modem'' = None"
proof -
  have "used roomy_blob + prop_cost (bytes ''model'') [1, 2, 0] \<le> b_total roomy_blob"
    by (simp add: roomy_blob_def root_blob_def prop_cost_def pad4_def)
  then obtain m' where m': "fdt_setprop 0x1000 0 ''model'' [1, 2, 0] roomy_mem = Some (0, m')"
    "\<And>p' s'. CHR 0x00 \<notin> set p' \<Longrightarrow> take 1 p' = ''/'' \<Longrightarrow> CHR 0x00 \<notin> set s' \<Longrightarrow>
       path_prop m' 0x1000 p' s' =
         (if same_node (DNode [] [] []) p' ''/'' \<and> s' = ''model'' then Some [1, 2, 0] else path_prop roomy_mem 0x1000 p' s')"
    using fdt_setprop_lookup [OF roomy_toks _ _ roomy_root, of "''model''" "[1, 2, 0]"] by auto
  have "parts (bytes ''//'') = []"
    by (simp add: parts.simps bytes_Cons)
  then have "same_node (DNode [] [] []) ''//'' ''/''"
    by (simp add: same_node_def parts_root)
  moreover have "path_prop roomy_mem 0x1000 ''/'' ''modem'' = None"
    using path_prop_at [OF roomy_toks, of "''/''" "''modem''"] by (simp add: dt_get_def parts_root)
  ultimately show ?thesis
    using m'(1) m'(2) [of "''//''" "''model''"] m'(2) [of "''/''" "''modem''"] by auto
qed

theorem fdt_subnode_roundtrip_witness:
  "\<exists>off m1 m2 B2. fdt_add_subnode 0x1000 0 ''chosen'' roomy_mem = Some (off, m1) \<and>
     fdt_subnode_offset m1 0x1000 0 ''chosen'' = Some off \<and> fdt_del_node 0x1000 off m1 = Some (0, m2) \<and>
     toks_at m2 0x1000 B2 (flat (DNode [] [] []) @ [TEnd])"
proof -
  have "fdt_subnode_offset roomy_mem 0x1000 0 ''chosen'' = Some (- FDT_ERR_NOTFOUND)"
    using subnode_offset_at [of roomy_mem "0x1000" roomy_blob "[]" "[]" "[]" "[]" "[TEnd]" "bytes ''chosen''"] roomy_toks
    by (simp add: fdt_subnode_offset_def)
  moreover have "used roomy_blob + node_cost (bytes ''chosen'') \<le> b_total roomy_blob"
    by (simp add: roomy_blob_def root_blob_def node_cost_def pad4_def)
  ultimately show ?thesis
    using fdt_subnode_roundtrip [OF roomy_toks _ _ roomy_root, of "''chosen''"] by auto
qed

end
