(* ===== verification/Boot_Fdt.thy ===== *)
theory Boot_Fdt
  imports Boot_Gui
begin

text \<open>
  The device tree that the system is started with. On a tree in order with room in its blob the
  edits of \<open>src/src/main.c\<close> are edits of the tree: the address of the wireless interface
  (\<open>fdt_fixup_wifi\<close>), and all of \<open>boot_finalize\<close>.
\<close>

section \<open>The wireless interface\<close>

lemma cstr_of_bytes:
  assumes "mem_bytes m p d" "0 \<in> set d"
  shows "cstr m p (cstring d)"
proof -
  have "dropWhile (\<lambda>c. c \<noteq> 0) d \<noteq> []"
    using assms(2) by auto
  then obtain r where "dropWhile (\<lambda>c. c \<noteq> 0) d = 0 # r"
    using hd_dropWhile [of "\<lambda>c. c \<noteq> 0" d] by (cases "dropWhile (\<lambda>c. c \<noteq> 0) d") auto
  then have "d = cstring d @ 0 # r"
    unfolding cstring_def by (metis takeWhile_dropWhile_id)
  with assms(1) have "mem_bytes m p (cstring d @ 0 # r)"
    by simp
  then show ?thesis
    by (auto simp: cstr_def cstring_def dest: set_takeWhileD)
qed

lemma read_string_eq:
  assumes "cstr m p xs" "0 \<notin> set s"
  shows "read_bytes m p (length s + 1) = s @ [0] \<longleftrightarrow> xs = s"
  using assms
proof (induction s arbitrary: p xs)
  case Nil
  then show ?case by (cases xs) (auto simp: read_bytes_def cstr_def)
next
  case (Cons c s)
  have "read_bytes m p (length (c # s) + 1) = m p # read_bytes m (p + 1) (length s + 1)"
    using read_bytes_Suc [of m p "length s + 1"] by simp
  moreover have "xs = x # ys \<Longrightarrow> m p = x \<and> cstr m (p + 1) ys" for x ys
    using Cons.prems(1) by (auto simp: cstr_def ac_simps)
  ultimately show ?case
    using Cons.IH [of "p + 1"] Cons.prems by (cases xs) (auto simp: cstr_def [of m p "[]"])
qed

text \<open>The path that the alias \<open>ethernet0\<close> gives, unless there is no such node or it is disabled.\<close>

definition wifi_path :: "dtree \<Rightarrow> u8 list list option" where
  "wifi_path t = do {
     d \<leftarrow> dt_alias ''ethernet0'' t;
     (_, k) \<leftarrow> walk (parts (cstring d)) [] t;
     if map_option cstring (map_of (dt_props k) (bytes ''status'')) = Some (bytes ''disabled'') then None
     else Some (parts (cstring d))
   }"

definition wifi_tree :: "u32 list \<Rightarrow> dtree \<Rightarrow> dtree" where
  "wifi_tree sid t =
     (case wifi_path t of
        None \<Rightarrow> t
      | Some ss \<Rightarrow>
          (let (ok, mac, _) = get_mac_address 0 sid
           in if ok then at_path ss (set_dt (bytes ''local-mac-address'') mac) t else t))"

text \<open>
  The strings are strings, the path of the alias is absolute and below the root, and the node has
  no \<open>mac-address\<close> yet: setting one may move the path that the second call reads.
\<close>

definition wifi_ok :: "dtree \<Rightarrow> bool" where
  "wifi_ok t \<longleftrightarrow>
     (\<forall>d. dt_alias ''ethernet0'' t = Some d \<longrightarrow>
        0 \<in> set d \<and> take 1 d = [slash] \<and> parts (cstring d) \<noteq> [] \<and>
        (\<forall>q k. walk (parts (cstring d)) [] t = Some (q, k) \<longrightarrow>
           (\<forall>v. map_of (dt_props k) (bytes ''status'') = Some v \<longrightarrow> 0 \<in> set v) \<and>
           map_of (dt_props k) (bytes ''mac-address'') = None))"

lemma wifi_node:
  assumes "wifi_path t = Some ss"
  obtains d q k where "dt_alias ''ethernet0'' t = Some d" "ss = parts (cstring d)" "walk ss [] t = Some (q, k)"
    "map_option cstring (map_of (dt_props k) (bytes ''status'')) \<noteq> Some (bytes ''disabled'')"
  using assms unfolding wifi_path_def by (auto simp: bind_eq_Some_conv split: if_splits)

lemma path_offset_string:
  assumes T: "toks_at m fdt B (flat t @ post)" and p: "mem_bytes m p d" "0 \<in> set d" "take 1 d = [slash]"
  shows "fdt_path_offset_at m fdt p =
    Some (case walk (parts (cstring d)) [] t of None \<Rightarrow> - FDT_ERR_NOTFOUND | Some (q, _) \<Rightarrow> pos q)"
proof -
  have c: "cstr m p (cstring d)"
    using p by (intro cstr_of_bytes)
  have "read_bytes m p (length (cstring d)) = cstring d"
    using c by (simp add: read_bytes_mem_bytes cstr_def)
  moreover have "unat (of_nat (length (cstring d)) :: u64) = length (cstring d)"
    using cstr_short [OF c] by (simp add: unat_of_nat)
  moreover have "0 \<notin> set (cstring d)"
    using c by (simp add: cstr_def)
  moreover have "take 1 (cstring d) = [slash]"
    using p(3) by (cases d) (auto simp: cstring_def)
  ultimately show ?thesis
    using path_offset_at [OF T, of "cstring d"] by (simp add: fdt_path_offset_at_def strlen_cstr [OF c])
qed

lemma get_property_value:
  assumes T: "toks_at m fdt B (pre @ flat (DNode n ps ks) @ post)" and s: "0 \<notin> set (bytes s)"
  shows "map_of ps (bytes s) = None \<Longrightarrow> fdt_get_property m fdt (pos pre) s = Some (Inl (- FDT_ERR_NOTFOUND))"
    and "map_of ps (bytes s) = Some d \<Longrightarrow>
      \<exists>prop len. fdt_get_property m fdt (pos pre) s = Some (Inr (prop, len)) \<and> mem_bytes m (prop + 12) d"
  using get_property_at [OF T s] getprop_at [OF T s]
  by (auto simp: fdt_get_property_def fdt_get_property_namelen_def fdt_getprop_namelen_def prop_data_def
      found_prop_def Let_def)

lemma get_alias_node_at:
  assumes T: "toks_at m fdt B (flat t @ post)" and ok: "wifi_ok t"
  shows "wifi_path t = None \<and> fdt_get_alias_node fdt ''ethernet0'' m = Some 0 \<or>
    (\<exists>d p. wifi_path t = Some (parts (cstring d)) \<and> dt_alias ''ethernet0'' t = Some d \<and>
       fdt_get_alias_node fdt ''ethernet0'' m = Some p \<and> p \<noteq> 0 \<and> mem_bytes m p d)"
proof (cases "dt_alias ''ethernet0'' t")
  case None
  then show ?thesis
    using get_alias_at(1) [OF T, of "''ethernet0''"] by (simp add: wifi_path_def fdt_get_alias_node_def)
next
  case (Some d)
  obtain p where p: "fdt_get_alias m fdt ''ethernet0'' = Some p" "mem_bytes m p d" "p \<noteq> 0"
    using get_alias_at(2) [OF T _ Some] by auto
  have d: "0 \<in> set d" "take 1 d = [slash]"
    using ok Some by (simp_all add: wifi_ok_def)
  note off = path_offset_string [OF T p(2) d]
  show ?thesis
  proof (cases "walk (parts (cstring d)) [] t")
    case None
    then show ?thesis
      using Some p off by (simp add: wifi_path_def fdt_get_alias_node_def)
  next
    case w: (Some qk)
    obtain q n ps ks where qk: "qk = (q, DNode n ps ks)"
      by (metis dtree.exhaust surj_pair)
    obtain post' where "q @ flat (DNode n ps ks) @ post' = [] @ flat (at_path (parts (cstring d)) (\<lambda>t. t) t) @ post"
      using walk_split [OF w [unfolded qk]] by metis
    then have N: "toks_at m fdt B (q @ flat (DNode n ps ks) @ post')"
      using T by (simp add: at_path_id)
    have nn: "\<not> neg (pos q)"
      by (rule toks_at_pos [OF N])
    have str: "0 \<in> set v" if "map_of ps (bytes ''status'') = Some v" for v
      using ok Some w qk that by (auto simp: wifi_ok_def)
    have "0 \<notin> set (bytes ''status'')" by simp
    note st = get_property_value [OF N this]
    show ?thesis
    proof (cases "map_of ps (bytes ''status'')")
      case None
      then show ?thesis
        using Some p off w qk nn st(1) d by (simp add: wifi_path_def fdt_get_alias_node_def)
    next
      case v: (Some v)
      obtain a len where a: "fdt_get_property m fdt (pos q) ''status'' = Some (Inr (a, len))" "mem_bytes m (a + 12) v"
        using st(2) [OF v] by blast
      have nine: "length (bytes ''disabled'') + 1 = 9" by simp
      have "read_bytes m (a + 12) 9 = bytes ''disabled'' @ [0] \<longleftrightarrow> cstring v = bytes ''disabled''"
        using read_string_eq [OF cstr_of_bytes [OF a(2) str [OF v]], of "bytes ''disabled''"] unfolding nine by simp
      then show ?thesis
        using Some p off w qk nn a(1) v d by (simp add: wifi_path_def fdt_get_alias_node_def)
    qed
  qed
qed

lemma mac_length: "get_mac_address 0 sid = (ok, mac, sid') \<Longrightarrow> length mac \<le> 6"
  by (auto simp: get_mac_address_def Let_def split: if_splits)

theorem fixup_wifi_at:
  assumes T: "toks_at m fdt B (flat t @ post)" and ok: "wifi_ok t" and room: "used B + 40 \<le> b_total B"
  shows "\<exists>m' B' sid'. fdt_fixup_wifi fdt sid m = Some (sid', m') \<and> edited m m' fdt B B' \<and>
    used B' \<le> used B + 40 \<and> toks_at m' fdt B' (flat (wifi_tree sid t) @ post)"
  using get_alias_node_at [OF T ok]
proof (elim disjE exE conjE)
  assume "wifi_path t = None" "fdt_get_alias_node fdt ''ethernet0'' m = Some 0"
  then show ?thesis
    using T by (intro exI [of _ m] exI [of _ B]) (simp add: fdt_fixup_wifi_def wifi_tree_def)
next
  fix d p
  assume path: "wifi_path t = Some (parts (cstring d))" and al: "dt_alias ''ethernet0'' t = Some d"
    and p: "fdt_get_alias_node fdt ''ethernet0'' m = Some p" "p \<noteq> 0" "mem_bytes m p d"
  obtain gen mac sid' where mac: "get_mac_address 0 sid = (gen, mac, sid')"
    by (metis prod_cases3)
  show ?thesis
  proof (cases gen)
    case False
    then show ?thesis
      using T p path mac by (intro exI [of _ m] exI [of _ B]) (simp add: fdt_fixup_wifi_def wifi_tree_def)
  next
    case True
    obtain q n ps ks where w: "walk (parts (cstring d)) [] t = Some (q, DNode n ps ks)"
      using wifi_node [OF path] al by (metis dtree.exhaust option.inject)
    have d: "0 \<in> set d" "take 1 d = [slash]" and none: "map_of ps (bytes ''mac-address'') = None"
      using ok al w by (auto simp: wifi_ok_def)
    have off: "fdt_path_offset_at m fdt p = Some (pos q)"
      using path_offset_string [OF T p(3) d] w by simp
    obtain post' where "q @ flat (DNode n ps ks) @ post' = [] @ flat (at_path (parts (cstring d)) (\<lambda>t. t) t) @ post"
      using walk_split [OF w] by metis
    then have N: "toks_at m fdt B (q @ flat (DNode n ps ks) @ post')"
      using T by (simp add: at_path_id)
    have nn: "\<not> neg (pos q)"
      by (rule toks_at_pos [OF N])
    have "fdt_get_property m fdt (pos q) ''mac-address'' = Some (Inl (- FDT_ERR_NOTFOUND))"
      using get_property_value(1) [OF N _ none] by simp
    then have 1: "fdt_find_and_setprop fdt p ''mac-address'' mac False m = Some (0, m)"
      using off nn by (simp add: fdt_find_and_setprop_def)
    have "prop_cost (bytes ''local-mac-address'') mac \<le> 40"
      using mac_length [OF mac] pad4_less [of "length mac"] by (simp add: prop_cost_def)
    from path_setprop_at [OF T w this room] obtain m' B' where 2:
      "fdt_setprop fdt (pos q) ''local-mac-address'' mac m = Some (0, m')" "edited m m' fdt B B'" "used B' \<le> used B + 40"
      "toks_at m' fdt B' (flat (at_path (parts (cstring d)) (set_dt (bytes ''local-mac-address'') mac) t) @ post)"
      by auto
    have "fdt_find_and_setprop fdt p ''local-mac-address'' mac True m = Some (0, m')"
      using off nn 2(1) by (simp add: fdt_find_and_setprop_def)
    then have "fdt_fixup_wifi fdt sid m = Some (sid', m')"
      using p(1,2) mac True 1 by (simp add: fdt_fixup_wifi_def)
    then show ?thesis
      using 2 path mac True by (intro exI [of _ m'] exI [of _ B']) (simp add: wifi_tree_def)
  qed
qed

section \<open>A property of a child of the root\<close>

fun set_child :: "u8 list \<Rightarrow> u8 list \<Rightarrow> u8 list \<Rightarrow> dtree \<Rightarrow> dtree" where
  "set_child c s v (DNode n ps ks) = DNode n ps (on_child c (set_dt s v) (with_child c ks))"

fun on_kids :: "((u8 list \<times> u8 list) list \<Rightarrow> dtree list \<Rightarrow> dtree list) \<Rightarrow> dtree \<Rightarrow> dtree" where
  "on_kids f (DNode n ps ks) = DNode n ps (f ps ks)"

lemma root_find_or_add:
  assumes T: "toks_at m fdt B (flat (DNode n ps ks) @ post)" and c: "CHR 0x00 \<notin> set c" "length c < 2 ^ 30"
    and cost: "node_cost (bytes c) \<le> j" and room: "used B + j \<le> b_total B"
  obtains off m1 B1 where "fdt_find_or_add_subnode fdt 0 c m = Some (off, m1)" "\<not> neg off" "edited m m1 fdt B B1"
    "used B1 \<le> used B + j" "off = child_pos [] n ps (bytes c) (with_child (bytes c) ks)"
    "toks_at m1 fdt B1 ([] @ flat (DNode n ps (with_child (bytes c) ks)) @ post)"
proof -
  let ?off = "child_pos [] n ps (bytes c) (with_child (bytes c) ks)"
  have T0: "toks_at m fdt B ([] @ flat (DNode n ps ks) @ post)"
    using T by simp
  have "used B + node_cost (bytes c) \<le> b_total B"
    using cost room by simp
  from find_or_add_at [OF T0 _ _ this] c obtain m1 B1 where 1:
    "fdt_find_or_add_subnode fdt (pos []) c m = Some (?off, m1)" "edited m m1 fdt B B1"
    "used B1 \<le> used B + node_cost (bytes c)" "toks_at m1 fdt B1 ([] @ flat (DNode n ps (with_child (bytes c) ks)) @ post)"
    by auto
  moreover have "\<not> neg ?off"
    using child_pos_not_neg [OF 1(4) with_child_named] .
  moreover have "used B1 \<le> used B + j"
    using 1(3) cost by simp
  ultimately show thesis
    using that [of ?off m1 B1] by simp
qed

lemma config_line_length: "length (config_line m fs i) \<le> 100"
proof -
  have "length (takeWhile (\<lambda>c. c \<noteq> 0) (read_bytes m a 96)) \<le> length (read_bytes m a 96)" for a
    by (rule length_takeWhile_le)
  then have "length (takeWhile (\<lambda>c. c \<noteq> 0) (read_bytes m (block_addr fs i + 1952) 96)) \<le> 96"
    by (simp add: read_bytes_def)
  then show ?thesis
    by (simp add: config_line_def)
qed

abbreviation configs :: "mem \<Rightarrow> bootfs \<Rightarrow> u8 list" where
  "configs m fs \<equiv> concat (map (config_line m fs) [0..<32])"

lemma configs_length: "length (configs m fs) \<le> 3200"
proof -
  have "sum_list (map (\<lambda>i. length (config_line m fs i)) [0..<32]) \<le> sum_list (map (\<lambda>_. 100) [0..<32 :: nat])"
    by (intro sum_list_mono config_line_length)
  then show ?thesis
    by (simp add: length_concat comp_def sum_list_triv del: upt_rec_numeral)
qed

text \<open>What the options of the build put in the node: names and values.\<close>

definition pboot_props :: "build \<Rightarrow> bootfs \<Rightarrow> mem \<Rightarrow> mem \<Rightarrow> (u8 list \<times> u8 list) list" where
  "pboot_props bld fs mc ml =
     (if PBOOT_FDT_CONFIGS bld then [(bytes ''configs'', configs mc fs)] else []) @
     (case PBOOT_FDT_LOG bld of
        None \<Rightarrow> []
      | Some (st, en) \<Rightarrow> [(bytes ''log'', read_bytes ml st (unat (en - st)))])"

fun pboot_tree :: "(u8 list \<times> u8 list) list \<Rightarrow> dtree \<Rightarrow> dtree" where
  "pboot_tree vs (DNode n ps ks) =
     DNode n ps (fold (\<lambda>(s, v). on_child (bytes ''p-boot'') (set_dt s v)) vs (with_child (bytes ''p-boot'') ks))"

definition log_size :: "build \<Rightarrow> nat" where
  "log_size bld = (case PBOOT_FDT_LOG bld of None \<Rightarrow> 0 | Some (st, en) \<Rightarrow> unat (en - st))"

lemma setprop_if:
  assumes T: "toks_at m fdt B ([] @ flat (DNode n ps ks) @ post)" and c: "before c ks \<noteq> ks"
    and cost: "prop_cost (bytes s) v \<le> k" "used B + k \<le> b_total B" "CHR 0x00 \<notin> set s" "k < 2 ^ 30"
  obtains m' B' where
    "(if P then map_option snd (fdt_setprop fdt (child_pos [] n ps c ks) s v m) else Some m) = Some m'"
    "edited m m' fdt B B'" "used B' \<le> used B + k"
    "toks_at m' fdt B' ([] @ flat (DNode n ps (if P then on_child c (set_dt (bytes s) v) ks else ks)) @ post)"
proof (cases P)
  case True
  obtain m' B' where "fdt_setprop fdt (child_pos [] n ps c ks) s v m = Some (0, m')" "edited m m' fdt B B'"
    "used B' \<le> used B + k" "toks_at m' fdt B' ([] @ flat (DNode n ps (on_child c (set_dt (bytes s) v) ks)) @ post)"
    using child_setprop_step [OF T c cost] .
  then show thesis
    using that True by simp
next
  case False
  then show thesis
    using that [of m B] T by simp
qed

lemma add_pboot_data_at:
  assumes T: "toks_at m fdt B (flat t @ post)" and room: "used B + log_size bld + 3260 \<le> b_total B" and log: "log_size bld < 2 ^ 20"
  obtains mc ml m' B' where "fdt_add_pboot_data bld fdt fs m = Some m'" "same_outside m mc fdt (b_total B)"
    "same_outside m ml fdt (b_total B)" "edited m m' fdt B B'" "used B' \<le> used B + log_size bld + 3260"
    "toks_at m' fdt B' (flat (pboot_tree (pboot_props bld fs mc ml) t) @ post)"
proof -
  let ?c = "bytes ''p-boot''"
  obtain n ps ks where t: "t = DNode n ps ks" by (cases t)
  have "node_cost ?c \<le> 16" "used B + 16 \<le> b_total B"
    using room by (simp_all add: node_cost_def pad4_def)
  then obtain off m1 B1 where 1: "fdt_find_or_add_subnode fdt 0 ''p-boot'' m = Some (off, m1)" "\<not> neg off"
    "edited m m1 fdt B B1" "used B1 \<le> used B + 16" "off = child_pos [] n ps ?c (with_child ?c ks)"
    "toks_at m1 fdt B1 ([] @ flat (DNode n ps (with_child ?c ks)) @ post)"
    using T [unfolded t] by (elim root_find_or_add [where c = "''p-boot''" and j = 16]) simp_all
  have tot1: "b_total B1 = b_total B"
    using 1(3) by (simp add: edited_def)
  have cost: "prop_cost (bytes ''configs'') (configs m1 fs) \<le> 3224"
    using configs_length [of m1 fs] pad4_less [of "length (configs m1 fs)"] by (simp add: prop_cost_def)
  let ?ks = "if PBOOT_FDT_CONFIGS bld then on_child ?c (set_dt (bytes ''configs'') (configs m1 fs)) (with_child ?c ks) else with_child ?c ks"
  have "used B1 + 3224 \<le> b_total B1"
    using 1(4) room tot1 by simp
  then obtain m2 B2 where 2:
    "(if PBOOT_FDT_CONFIGS bld then map_option snd (fdt_setprop fdt off ''configs'' (configs m1 fs) m1) else Some m1) = Some m2"
    "edited m1 m2 fdt B1 B2" "used B2 \<le> used B1 + 3224" "toks_at m2 fdt B2 ([] @ flat (DNode n ps ?ks) @ post)"
    unfolding 1(5) by (rule setprop_if [OF 1(6) with_child_named cost]) simp_all
  have tot2: "b_total B2 = b_total B"
    using 2(2) tot1 by (simp add: edited_def)
  have named: "before ?c ?ks \<noteq> ?ks"
    using on_child_named [OF name_set_dt with_child_named] with_child_named by simp
  have off: "child_pos [] n ps ?c ?ks = off"
    unfolding 1(5) using before_on_child [OF name_set_dt] by simp
  define v where "v = (case PBOOT_FDT_LOG bld of None \<Rightarrow> [] | Some (st, en) \<Rightarrow> read_bytes m2 st (unat (en - st)))"
  have v: "length v = log_size bld"
    by (simp add: v_def log_size_def read_bytes_def split: option.splits prod.splits)
  then have cost2: "prop_cost (bytes ''log'') v \<le> log_size bld + 20"
    using pad4_less [of "length v"] by (simp add: prop_cost_def)
  have "used B2 + (log_size bld + 20) \<le> b_total B2"
    using 1(4) 2(3) room tot2 by simp
  then obtain m3 B3 where 3:
    "(if PBOOT_FDT_LOG bld \<noteq> None then map_option snd (fdt_setprop fdt off ''log'' v m2) else Some m2) = Some m3"
    "edited m2 m3 fdt B2 B3" "used B3 \<le> used B2 + (log_size bld + 20)"
    "toks_at m3 fdt B3 ([] @ flat (DNode n ps (if PBOOT_FDT_LOG bld \<noteq> None then on_child ?c (set_dt (bytes ''log'') v) ?ks else ?ks)) @ post)"
    using log by (elim setprop_if [OF 2(4) named cost2, unfolded off, where P = "PBOOT_FDT_LOG bld \<noteq> None"]) simp_all
  have "fdt_add_pboot_data bld fdt fs m = Some m3"
    unfolding fdt_add_pboot_data_def 1(1)
    using 1(2) 2(1) 3(1) by (auto simp: v_def simp del: upt_rec_numeral split: option.splits prod.splits if_splits)
  moreover have "same_outside m m1 fdt (b_total B)" "same_outside m m2 fdt (b_total B)"
    using 1(3) 2(2) tot1 by (simp_all add: edited_def same_outside_def)
  moreover have "edited m m3 fdt B B3"
    using edited_trans [OF edited_trans [OF 1(3) 2(2)] 3(2)] .
  moreover have "toks_at m3 fdt B3 (flat (pboot_tree (pboot_props bld fs m1 m2) t) @ post)"
    using 3(4) by (auto simp: t pboot_props_def v_def simp del: upt_rec_numeral split: option.splits prod.splits if_splits)
  ultimately show thesis
    using that [of m3 m1 m2 B3] 1(4) 2(3) 3(3) by simp
qed

section \<open>Finalizing\<close>

text \<open>The ramdisk, if one was loaded: where it starts and ends.\<close>

definition initrd_range :: "boot \<Rightarrow> (u64 \<times> u64) option" where
  "initrd_range b =
     (let st = image_dests b ! IMAGE_INITRD; en = st + image_sizes b ! IMAGE_INITRD
      in if loaded_images b AND push_bit IMAGE_INITRD 1 \<noteq> 0 \<and> ucast st \<noteq> (ucast en :: u64)
         then Some (ucast st, ucast en) else None)"

definition finalize_tree :: "(u8 list \<times> u8 list) list \<Rightarrow> u64 \<Rightarrow> boot \<Rightarrow> dtree \<Rightarrow> dtree" where
  "finalize_tree vs dram b t =
     (let t = pboot_tree vs t;
          t = set_child (bytes ''chosen'') (bytes ''bootargs'') (bootargs b @ [0]) t;
          t = on_kids (\<lambda>ps. memory_tree ps 0x40000000 dram) t
      in case initrd_range b of None \<Rightarrow> t | Some (st, en) \<Rightarrow> on_kids (\<lambda>ps. initrd_tree ps st en) t)"

text \<open>The reservations: the ramdisk, then the blob itself if it was reserved.\<close>

definition finalize_rsv :: "boot \<Rightarrow> nat \<Rightarrow> (u64 \<times> u64) list \<Rightarrow> (u64 \<times> u64) list" where
  "finalize_rsv b tot rs =
     (let rs = (case initrd_range b of None \<Rightarrow> rs | Some (st, en) \<Rightarrow> drop_addr st rs @ [(st, en - st)]);
          fdt = boot_fdt b
      in if fdt \<in> fst ` set rs then drop_addr fdt rs @ [(fdt, of_nat tot)] else rs)"

lemma set_child_root: "set_child c s v (DNode n ps ks) = DNode n ps (on_child c (set_dt s v) (with_child c ks))"
  by simp

lemma bootargs_at:
  assumes T: "toks_at m fdt B (flat t @ post)" and room: "used B + length args + 60 \<le> b_total B" and len: "length args < 2 ^ 20"
  obtains off m1 m' B' where "fdt_find_or_add_subnode fdt 0 ''chosen'' m = Some (off, m1)" "\<not> neg off"
    "fdt_setprop fdt off ''bootargs'' (args @ [0]) m1 = Some (0, m')" "edited m m' fdt B B'"
    "used B' \<le> used B + length args + 60"
    "toks_at m' fdt B' (flat (set_child (bytes ''chosen'') (bytes ''bootargs'') (args @ [0]) t) @ post)"
proof -
  obtain n ps ks where t: "t = DNode n ps ks" by (cases t)
  have "node_cost (bytes ''chosen'') \<le> 16" "used B + 16 \<le> b_total B"
    using room by (simp_all add: node_cost_def pad4_def)
  then obtain off m1 B1 where 1: "fdt_find_or_add_subnode fdt 0 ''chosen'' m = Some (off, m1)" "\<not> neg off"
    "edited m m1 fdt B B1" "used B1 \<le> used B + 16"
    "off = child_pos [] n ps (bytes ''chosen'') (with_child (bytes ''chosen'') ks)"
    "toks_at m1 fdt B1 ([] @ flat (DNode n ps (with_child (bytes ''chosen'') ks)) @ post)"
    using T [unfolded t] by (elim root_find_or_add [where c = "''chosen''" and j = 16]) simp_all
  have cost: "prop_cost (bytes ''bootargs'') (args @ [0]) \<le> length args + 28"
    using pad4_less [of "length (args @ [0])"] by (simp add: prop_cost_def)
  have "b_total B1 = b_total B"
    using 1(3) by (simp add: edited_def)
  then have "used B1 + (length args + 28) \<le> b_total B1"
    using 1(4) room by simp
  then obtain m2 B2 where 2: "fdt_setprop fdt off ''bootargs'' (args @ [0]) m1 = Some (0, m2)" "edited m1 m2 fdt B1 B2"
    "used B2 \<le> used B1 + (length args + 28)"
    "toks_at m2 fdt B2 ([] @ flat (DNode n ps (on_child (bytes ''chosen'') (set_dt (bytes ''bootargs'') (args @ [0]))
       (with_child (bytes ''chosen'') ks))) @ post)"
    unfolding 1(5) using len by (elim child_setprop_step [OF 1(6) with_child_named cost]) simp_all
  show thesis
    using that [OF 1(1,2) 2(1) edited_trans [OF 1(3) 2(2)]] 1(4) 2(3,4) by (simp add: t)
qed

lemma memory_step:
  assumes T: "toks_at m fdt B (flat t @ post)" and cells: "dt_address_cells (dt_props t) \<in> {1, 2}" "dt_size_cells (dt_props t) \<in> {1, 2}"
    and tmp: "length tmp = 64" and room: "used B + 80 \<le> b_total B" and st: "st \<noteq> 0"
  obtains m' B' where "fdt_fixup_memory fdt tmp st sz m = Some (0, m')" "edited m m' fdt B B'" "used B' \<le> used B + 80"
    "toks_at m' fdt B' (flat (on_kids (\<lambda>ps. memory_tree ps st sz) t) @ post)"
proof -
  obtain n ps ks where t: "t = DNode n ps ks" by (cases t)
  show thesis
    using fixup_memory_at [OF T [unfolded t] _ _ _ tmp room, of st sz] cells st that by (auto simp: t)
qed

lemma initrd_step:
  fixes b :: boot and m :: mem
  assumes T: "toks_at m fdt B (flat t @ post)" and room: "used B + 108 \<le> b_total B"
  defines "st \<equiv> image_dests b ! IMAGE_INITRD"
  defines "step \<equiv> (if loaded_images b AND push_bit IMAGE_INITRD 1 \<noteq> 0
    then fdt_initrd fdt (ucast st) (ucast (st + image_sizes b ! IMAGE_INITRD)) m else Some (0, m))"
  shows "\<exists>m' B'. step = Some (0, m') \<and> b_total B' = b_total B \<and> same_outside m m' fdt (b_total B) \<and>
    used B' \<le> used B + 108 \<and>
    b_rsv B' = (case initrd_range b of None \<Rightarrow> b_rsv B | Some (st, en) \<Rightarrow> drop_addr st (b_rsv B) @ [(st, en - st)]) \<and>
    toks_at m' fdt B' (flat (case initrd_range b of None \<Rightarrow> t | Some (st, en) \<Rightarrow> on_kids (\<lambda>ps. initrd_tree ps st en) t) @ post)"
proof (cases "initrd_range b")
  case None
  then have "step = Some (0, m)"
    by (auto simp: step_def st_def initrd_range_def fdt_initrd_def Let_def split: if_splits)
  with None T show ?thesis
    by (intro exI [of _ m] exI [of _ B]) simp
next
  case (Some r)
  let ?en = "st + image_sizes b ! IMAGE_INITRD"
  have r: "r = (ucast st, ucast ?en)" and ne: "(ucast st :: u64) \<noteq> ucast ?en"
    and step: "step = fdt_initrd fdt (ucast st) (ucast ?en) m"
    using Some by (auto simp: step_def st_def initrd_range_def Let_def split: if_splits)
  obtain n ps ks where t: "t = DNode n ps ks" by (cases t)
  from initrd_at [OF T [unfolded t] ne room] show ?thesis
    unfolding step Some r by (simp add: t)
qed

lemma root_props:
  "dt_props (set_child c s v t) = dt_props t" "wifi_ok t \<Longrightarrow> dt_props (wifi_tree sid t) = dt_props t"
  "dt_props (pboot_tree vs t) = dt_props t"
proof -
  show "dt_props (pboot_tree vs t) = dt_props t"
    by (cases t) simp
  show "dt_props (set_child c s v t) = dt_props t"
    by (cases t) simp
  have at: "ss \<noteq> [] \<Longrightarrow> dt_props (at_path ss f t) = dt_props t" for ss f
    by (cases ss; cases t) simp_all
  show "dt_props (wifi_tree sid t) = dt_props t" if ok: "wifi_ok t"
  proof (cases "wifi_path t")
    case (Some ss)
    then have "ss \<noteq> []"
      using ok by (auto simp: wifi_ok_def elim!: wifi_node)
    then show ?thesis
      using Some at by (simp add: wifi_tree_def split: prod.split)
  qed (simp add: wifi_tree_def)
qed

theorem boot_finalize_at:
  assumes T: "toks_at m (boot_fdt b) B (flat t @ post)" and wifi: "wifi_ok t" and fdt: "boot_fdt b \<noteq> 0"
    and cells: "dt_address_cells (dt_props t) \<in> {1, 2}" "dt_size_cells (dt_props t) \<in> {1, 2}"
    and tmp: "length tmp = 64" and args: "length (bootargs b) < 2 ^ 20"
    and log: "log_size bld < 2 ^ 20"
    and room: "used B + length (bootargs b) + log_size bld + 3600 \<le> b_total B" and tot: "b_total B + 8192 < 2 ^ 31"
  shows "\<exists>mc ml m' B'. boot_finalize bld tmp fs dram sid b m = Some (True, m') \<and>
    same_outside m mc (boot_fdt b) (b_total B) \<and> same_outside m ml (boot_fdt b) (b_total B) \<and>
    toks_at m' (boot_fdt b) B' (flat (finalize_tree (pboot_props bld fs mc ml) (ucast dram) b (wifi_tree sid t)) @ post) \<and>
    b_rsv B' = finalize_rsv b (b_total B') (b_rsv B) \<and> (unat (boot_fdt b) + b_total B') mod 4096 = 0"
proof -
  let ?fdt = "boot_fdt b"
  have "used B + 40 \<le> b_total B" using room by simp
  from fixup_wifi_at [OF T wifi this] obtain m1 B1 sid' where 1: "fdt_fixup_wifi ?fdt sid m = Some (sid', m1)"
    "edited m m1 ?fdt B B1" "used B1 \<le> used B + 40" "toks_at m1 ?fdt B1 (flat (wifi_tree sid t) @ post)"
    by blast
  have t1: "b_total B1 = b_total B" "b_rsv B1 = b_rsv B" using 1(2) by (simp_all add: edited_def)
  have "used B1 + log_size bld + 3260 \<le> b_total B1" using 1(3) t1 room by simp
  from add_pboot_data_at [OF 1(4) this log, of fs] obtain mc ml m2 B2 where 2: "fdt_add_pboot_data bld ?fdt fs m1 = Some m2"
    "same_outside m1 mc ?fdt (b_total B1)" "same_outside m1 ml ?fdt (b_total B1)" "edited m1 m2 ?fdt B1 B2"
    "used B2 \<le> used B1 + log_size bld + 3260"
    "toks_at m2 ?fdt B2 (flat (pboot_tree (pboot_props bld fs mc ml) (wifi_tree sid t)) @ post)"
    (is "toks_at m2 ?fdt B2 (flat ?t2 @ post)") .
  have t2: "b_total B2 = b_total B" "b_rsv B2 = b_rsv B" using 2(4) t1 by (simp_all add: edited_def)
  have "used B2 + length (bootargs b) + 60 \<le> b_total B2" using 1(3) 2(5) t2 room by simp
  from bootargs_at [OF 2(6) this args] obtain off m3 m4 B4 where 3:
    "fdt_find_or_add_subnode ?fdt 0 ''chosen'' m2 = Some (off, m3)" "\<not> neg off"
    "fdt_setprop ?fdt off ''bootargs'' (bootargs b @ [0]) m3 = Some (0, m4)" "edited m2 m4 ?fdt B2 B4"
    "used B4 \<le> used B2 + length (bootargs b) + 60"
    "toks_at m4 ?fdt B4 (flat (set_child (bytes ''chosen'') (bytes ''bootargs'') (bootargs b @ [0]) ?t2) @ post)"
    (is "toks_at m4 ?fdt B4 (flat ?t3 @ post)") .
  have t4: "b_total B4 = b_total B" "b_rsv B4 = b_rsv B" using 3(4) t2 by (simp_all add: edited_def)
  have "dt_props ?t3 = dt_props t"
    using root_props(2) [OF wifi] by (simp add: root_props(1,3))
  then have c3: "dt_address_cells (dt_props ?t3) \<in> {1, 2}" "dt_size_cells (dt_props ?t3) \<in> {1, 2}"
    using cells by simp_all
  have r4: "used B4 + 80 \<le> b_total B4" using 1(3) 2(5) 3(5) t4 room by simp
  from memory_step [OF 3(6) c3 tmp r4, of "0x40000000" "ucast dram"] obtain m5 B5 where 4:
    "fdt_fixup_memory ?fdt tmp 0x40000000 (ucast dram) m4 = Some (0, m5)" "edited m4 m5 ?fdt B4 B5"
    "used B5 \<le> used B4 + 80" "toks_at m5 ?fdt B5 (flat (on_kids (\<lambda>ps. memory_tree ps 0x40000000 (ucast dram)) ?t3) @ post)"
    by auto
  have t5: "b_total B5 = b_total B" "b_rsv B5 = b_rsv B" using 4(2) t4 by (simp_all add: edited_def)
  have "used B5 + 108 \<le> b_total B5" using 1(3) 2(5) 3(5) 4(3) t5 room by simp
  from initrd_step [OF 4(4) this, of b] obtain m6 B6 where 5:
    "(if loaded_images b AND push_bit IMAGE_INITRD 1 \<noteq> 0
      then fdt_initrd ?fdt (ucast (image_dests b ! IMAGE_INITRD)) (ucast (image_dests b ! IMAGE_INITRD + image_sizes b ! IMAGE_INITRD)) m5
      else Some (0, m5)) = Some (0, m6)" "b_total B6 = b_total B5" "used B6 \<le> used B5 + 108"
    "b_rsv B6 = (case initrd_range b of None \<Rightarrow> b_rsv B5 | Some (st, en) \<Rightarrow> drop_addr st (b_rsv B5) @ [(st, en - st)])"
    "toks_at m6 ?fdt B6 (flat (finalize_tree (pboot_props bld fs mc ml) (ucast dram) b (wifi_tree sid t)) @ post)"
    unfolding finalize_tree_def Let_def by blast
  have "blob_at m6 ?fdt B6" using 5(5) by (simp add: toks_at_def)
  from blob_bounds(7) [OF this] have "used B6 + 0 + 8192 < 2 ^ 31" using 5(2) t5 tot by simp
  from shrink_at [OF 5(5) fdt this] obtain sz m7 B7 where 6: "fdt_shrink_to_minimum ?fdt 0 m6 = Some (of_nat sz, m7)"
    "toks_at m7 ?fdt B7 (flat (finalize_tree (pboot_props bld fs mc ml) (ucast dram) b (wifi_tree sid t)) @ post)"
    "b_total B7 = sz" "(unat ?fdt + sz) mod 4096 = 0"
    "b_rsv B7 = (if ?fdt \<in> fst ` set (b_rsv B6) then drop_addr ?fdt (b_rsv B6) @ [(?fdt, of_nat sz)] else b_rsv B6)"
    by auto
  have nn: "\<not> neg (of_nat sz)"
    using blob_bounds(2) [of m7 ?fdt B7] 6(2,3) by (simp add: toks_at_def)
  have "boot_finalize bld tmp fs dram sid b m = Some (True, m7)"
    unfolding boot_finalize_def Let_def
    by (simp only: 1(1) 2(1) 3(1,2,3) 4(1) 5(1) 6(1) Option.bind.bind_lunit prod.case neg_minus if_False nn not_False_eq_True)
  moreover have "same_outside m mc ?fdt (b_total B)" "same_outside m ml ?fdt (b_total B)"
    using 1(2) 2(2,3) t1 by (simp_all add: edited_def same_outside_def)
  moreover have "b_rsv B7 = finalize_rsv b (b_total B7) (b_rsv B)"
    unfolding finalize_rsv_def Let_def 6(5) 6(3) 5(4) t5(2) by (rule refl)
  ultimately show ?thesis
    using 6(2,4) unfolding 6(3) [symmetric] by (intro exI [of _ mc] exI [of _ ml] exI [of _ m7] exI [of _ B7] conjI)
qed

end
