(* ===== verification/Boot_Tree.thy ===== *)
theory Boot_Tree
  imports Boot_Fdt
begin

text \<open>
  The rest of \<open>boot_selection\<close> as edits of the tree: the framebuffer (\<open>fdt_setup_framebuffer\<close>),
  the switches for privacy and for the modem manager, and the whole way from the images to the
  hand-over.
\<close>

section \<open>Nodes at fixed paths\<close>

text \<open>A property set at a fixed path, if there is such a node.\<close>

lemma fixed_setprop_at:
  assumes T: "toks_at m fdt B (flat t @ post)" and p: "CHR 0x00 \<notin> set p" "take 1 p = ''/''"
    and cost: "prop_cost (bytes s) v \<le> k" "used B + k \<le> b_total B" "CHR 0x00 \<notin> set s" "k < 2 ^ 30"
  shows "\<exists>node m' B'. fdt_path_offset m fdt p = Some node \<and>
    (if neg node then m' = m else fdt_setprop fdt node s v m = Some (0, m')) \<and>
    edited m m' fdt B B' \<and> used B' \<le> used B + k \<and>
    toks_at m' fdt B' (flat (at_path (parts (bytes p)) (set_dt (bytes s) v) t) @ post)"
proof (cases "walk (parts (bytes p)) [] t")
  case None
  then show ?thesis
    using T at_path_missing [OF None] fixed_path_at [OF T p]
    by (intro exI [of _ "- 1"] exI [of _ m] exI [of _ B]) simp
next
  case (Some qk)
  obtain q n where qk: "walk (parts (bytes p)) [] t = Some (q, n)"
    using Some by (cases qk) simp
  have "\<not> neg (pos q)"
    using walk_node [OF T qk] by blast
  then show ?thesis
    using path_setprop_at [OF T qk cost] fixed_path_at [OF T p] qk by auto
qed

text \<open>A property deleted at a fixed path.\<close>

fun del_dt :: "u8 list \<Rightarrow> dtree \<Rightarrow> dtree" where
  "del_dt s (DNode n ps ks) = DNode n (del_prop s ps) ks"

lemma del_prop_none: "map_of ps s = None \<Longrightarrow> del_prop s ps = ps"
  by (induction s ps rule: del_prop.induct) (auto split: if_splits)

lemma fixed_delprop_at:
  assumes T: "toks_at m fdt B (flat t @ post)" and p: "CHR 0x00 \<notin> set p" "take 1 p = ''/''" and s: "CHR 0x00 \<notin> set s"
  shows "\<exists>node r m' B'. fdt_path_offset m fdt p = Some node \<and>
    (if neg node then m' = m else fdt_delprop fdt node s m = Some (r, m')) \<and>
    edited m m' fdt B B' \<and> used B' \<le> used B \<and>
    toks_at m' fdt B' (flat (at_path (parts (bytes p)) (del_dt (bytes s)) t) @ post)"
proof (cases "walk (parts (bytes p)) [] t")
  case None
  then show ?thesis
    using T at_path_missing [OF None] fixed_path_at [OF T p]
    by (intro exI [of _ "- 1"] exI [of _ 0] exI [of _ m] exI [of _ B]) simp
next
  case (Some qk)
  obtain q n ps ks where w: "walk (parts (bytes p)) [] t = Some (q, DNode n ps ks)"
    using Some by (metis dtree.exhaust surj_pair)
  obtain post' where N: "toks_at m fdt B (q @ flat (DNode n ps ks) @ post')"
    "\<And>f. q @ flat (f (DNode n ps ks)) @ post' = flat (at_path (parts (bytes p)) f t) @ post" "\<not> neg (pos q)"
    using walk_node [OF T w] by blast
  have z: "0 \<notin> set (bytes s)" using s by simp
  have off: "fdt_path_offset m fdt p = Some (pos q)"
    using fixed_path_at [OF T p] w by simp
  have tree: "flat (at_path (parts (bytes p)) (del_dt (bytes s)) t) @ post = q @ flat (DNode n (del_prop (bytes s) ps) ks) @ post'"
    using N(2) [of "del_dt (bytes s)"] by simp
  show ?thesis
  proof (cases "map_of ps (bytes s)")
    case None
    then have "fdt_delprop fdt (pos q) s m = Some (- FDT_ERR_NOTFOUND, m)"
      using delprop_at(1) [OF N(1) z] by blast
    then show ?thesis
      unfolding tree del_prop_none [OF None] using N(1,3) off
      by (intro exI [of _ "pos q"] exI [of _ "- FDT_ERR_NOTFOUND"] exI [of _ m] exI [of _ B]) simp
  next
    case (Some d)
    obtain m' B' where "fdt_delprop fdt (pos q) s m = Some (0, m')" "edited m m' fdt B B'" "used B' < used B"
      "toks_at m' fdt B' (q @ flat (DNode n (del_prop (bytes s) ps) ks) @ post')"
      using delprop_at(2) [OF N(1) z Some] by blast
    then show ?thesis
      unfolding tree using N(3) off
      by (intro exI [of _ "pos q"] exI [of _ 0] exI [of _ m'] exI [of _ B']) simp
  qed
qed

text \<open>A node deleted at a path below the root.\<close>

fun drop_child :: "u8 list \<Rightarrow> dtree list \<Rightarrow> dtree list" where
  "drop_child s [] = []"
| "drop_child s (k # ks) = (if node_named s (dt_name k) then ks else k # drop_child s ks)"

fun prune :: "u8 list list \<Rightarrow> dtree \<Rightarrow> dtree" where
  "prune [] t = t"
| "prune [s] (DNode n ps ks) = DNode n ps (drop_child s ks)"
| "prune (s # ss) (DNode n ps ks) = DNode n ps (on_child s (prune ss) ks)"

lemma drop_child_split:
  assumes "dropWhile (\<lambda>k. \<not> node_named s (dt_name k)) ks = k # rest"
  shows "ks = before s ks @ k # rest" "drop_child s ks = before s ks @ rest"
    "\<And>f. on_child s f ks = before s ks @ f k # rest"
  using assms by (induction ks) (auto split: if_splits)

lemma drop_child_none: "dropWhile (\<lambda>k. \<not> node_named s (dt_name k)) ks = [] \<Longrightarrow> drop_child s ks = ks"
  "dropWhile (\<lambda>k. \<not> node_named s (dt_name k)) ks = [] \<Longrightarrow> on_child s f ks = ks"
  by (induction ks) (auto split: if_splits)

lemma prune_missing: "walk ss pre t = None \<Longrightarrow> prune ss t = t"
proof (induction ss arbitrary: pre t)
  case (Cons s ss)
  obtain n ps ks where t: "t = DNode n ps ks" by (cases t)
  show ?case
  proof (cases "dropWhile (\<lambda>k. \<not> node_named s (dt_name k)) ks")
    case Nil
    then show ?thesis by (cases ss) (simp_all add: t drop_child_none)
  next
    case (Cons k rest)
    note d = drop_child_split [OF Cons]
    from Cons.prems have "walk ss (pre @ TBegin n # prop_toks ps @ concat (map flat (before s ks))) k = None"
      by (simp add: t Cons)
    then have "prune ss k = k" "ss \<noteq> []"
      using Cons.IH by auto
    then show ?thesis
      using d(1) by (cases ss) (simp_all add: t d(3) flip: d(1))
  qed
qed simp

lemma prune_split:
  assumes "walk ss pre t = Some (q, k)" "ss \<noteq> []"
  shows "\<exists>post'. q @ flat k @ post' = pre @ flat t @ post \<and> q @ post' = pre @ flat (prune ss t) @ post"
  using assms
proof (induction ss arbitrary: pre t post)
  case (Cons s ss)
  obtain n ps ks where t: "t = DNode n ps ks" by (cases t)
  obtain c rest where c: "dropWhile (\<lambda>k. \<not> node_named s (dt_name k)) ks = c # rest"
    using Cons.prems(1) by (auto simp: t split: list.splits)
  note d = drop_child_split [OF c]
  let ?pre = "pre @ TBegin n # prop_toks ps @ concat (map flat (before s ks))"
    and ?post = "concat (map flat rest) @ [TEndNode] @ post"
  have w: "walk ss ?pre c = Some (q, k)"
    using Cons.prems(1) by (simp add: t c)
  have toks: "concat (map flat ks) = concat (map flat (before s ks)) @ flat c @ concat (map flat rest)"
    by (subst d(1)) simp
  show ?case
  proof (cases ss)
    case Nil
    then have "q = ?pre" "k = c" using w by simp_all
    then show ?thesis
      using Nil toks by (intro exI [of _ ?post]) (simp add: t d(2))
  next
    case (Cons s' ss')
    then obtain post' where "q @ flat k @ post' = ?pre @ flat c @ ?post" "q @ post' = ?pre @ flat (prune ss c) @ ?post"
      using Cons.IH [OF w] by blast
    then show ?thesis
      using Cons toks by (intro exI [of _ post']) (simp add: t d(3))
  qed
qed simp

lemma fixed_del_node_at:
  assumes T: "toks_at m fdt B (flat t @ post)" and p: "CHR 0x00 \<notin> set p" "take 1 p = ''/''" "parts (bytes p) \<noteq> []"
  shows "\<exists>node m' B'. fdt_path_offset m fdt p = Some node \<and>
    (if neg node then m' = m else fdt_del_node fdt node m = Some (0, m')) \<and>
    edited m m' fdt B B' \<and> used B' \<le> used B \<and> toks_at m' fdt B' (flat (prune (parts (bytes p)) t) @ post)"
proof (cases "walk (parts (bytes p)) [] t")
  case None
  then show ?thesis
    using T prune_missing [OF None] fixed_path_at [OF T p(1,2)]
    by (intro exI [of _ "- 1"] exI [of _ m] exI [of _ B]) simp
next
  case (Some qk)
  obtain q k where w: "walk (parts (bytes p)) [] t = Some (q, k)"
    using Some by (cases qk) simp
  obtain post' where s: "q @ flat k @ post' = [] @ flat t @ post" "q @ post' = [] @ flat (prune (parts (bytes p)) t) @ post"
    using prune_split [OF w p(3)] by blast
  then have N: "toks_at m fdt B (q @ flat k @ post')"
    using T by simp
  have "\<not> neg (pos q)" by (rule toks_at_pos [OF N])
  moreover have "fdt_path_offset m fdt p = Some (pos q)"
    using fixed_path_at [OF T p(1,2)] w by simp
  moreover obtain m' B' where "fdt_del_node fdt (pos q) m = Some (0, m')" "edited m m' fdt B B'"
    "used B' + toks_len (flat k) = used B" "toks_at m' fdt B' (q @ post')"
    using del_node_at [OF N] by blast
  ultimately show ?thesis
    unfolding s(2) [symmetric, simplified]
    by (intro exI [of _ "pos q"] exI [of _ m'] exI [of _ B']) simp
qed

section \<open>The switches\<close>

definition disable_tree :: "string list \<Rightarrow> dtree \<Rightarrow> dtree" where
  "disable_tree ps = fold (\<lambda>p. at_path (parts (bytes p)) (set_dt (bytes ''status'') (bytes ''disabled'' @ [0]))) ps"

definition adjust_tree :: "bool \<Rightarrow> u8 list \<Rightarrow> dtree \<Rightarrow> dtree" where
  "adjust_tree privacy args t =
     (let t = at_path (parts (bytes ''/soc/rsb@1f03400/pmic@3a3/adc'')) (del_dt (bytes ''x-powers,ts-as-gpadc'')) t;
          modem = parts (bytes ''/soc/serial@1c28c00/modem'')
      in if privacy then at_path modem (set_dt (bytes ''blocked'') (be32_bytes 1)) (disable_tree priv_nodes t)
         else if contains (bytes ''eg25-manager'') args
         then at_path (parts (bytes ''/vbat-bb'')) (set_dt (bytes ''regulator-always-on'') []) (prune modem t)
         else t)"

lemma disable_paths_at:
  "toks_at m fdt B (flat t @ post) \<Longrightarrow> used B + 32 * length ps \<le> b_total B \<Longrightarrow>
    \<forall>p \<in> set ps. CHR 0x00 \<notin> set p \<and> take 1 p = ''/'' \<Longrightarrow>
    \<exists>m' B'. disable_paths fdt ps m = Some m' \<and> edited m m' fdt B B' \<and> used B' \<le> used B + 32 * length ps \<and>
      toks_at m' fdt B' (flat (disable_tree ps t) @ post)"
proof (induction ps arbitrary: m B t)
  case Nil
  then show ?case
    by (intro exI [of _ m] exI [of _ B]) (simp add: disable_tree_def)
next
  case (Cons p ps)
  have cost: "prop_cost (bytes ''status'') (bytes ''disabled'' @ [0]) \<le> 32"
    by (simp add: prop_cost_def pad4_def)
  have room: "used B + 32 \<le> b_total B"
    using Cons.prems(2) by simp
  have p: "CHR 0x00 \<notin> set p" "take 1 p = ''/''"
    using Cons.prems(3) by simp_all
  let ?t = "at_path (parts (bytes p)) (set_dt (bytes ''status'') (bytes ''disabled'' @ [0])) t"
  obtain node m1 B1 where 1: "fdt_path_offset m fdt p = Some node"
    "if neg node then m1 = m else fdt_setprop fdt node ''status'' (bytes ''disabled'' @ [0]) m = Some (0, m1)"
    "edited m m1 fdt B B1" "used B1 \<le> used B + 32" "toks_at m1 fdt B1 (flat ?t @ post)"
    using fixed_setprop_at [OF Cons.prems(1) p cost room] by auto
  have step: "fdt_path_disable fdt p m = Some m1"
    using 1(1,2) by (simp add: fdt_path_disable_def split: if_splits)
  have "b_total B1 = b_total B" using 1(3) by (simp add: edited_def)
  then have "used B1 + 32 * length ps \<le> b_total B1"
    using 1(4) Cons.prems(2) by simp
  then obtain m2 B2 where 2: "disable_paths fdt ps m1 = Some m2" "edited m1 m2 fdt B1 B2"
    "used B2 \<le> used B1 + 32 * length ps" "toks_at m2 fdt B2 (flat (disable_tree ps ?t) @ post)"
    using Cons.IH [OF 1(5)] Cons.prems(3) by auto
  then show ?case
    using step 1(4) edited_trans [OF 1(3) 2(2)]
    by (intro exI [of _ m2] exI [of _ B2]) (simp add: disable_tree_def)
qed

lemma getprop_returns:
  assumes "toks_at m fdt B (flat t @ post)" "CHR 0x00 \<notin> set s"
  shows "\<exists>r. fdt_getprop m fdt 0 s = Some r"
proof -
  obtain n ps ks where "t = DNode n ps ks" by (cases t)
  then have "toks_at m fdt B ([] @ flat (DNode n ps ks) @ post)" "0 \<notin> set (bytes s)"
    using assms by simp_all
  from getprop_at [OF this] show ?thesis
    by (cases "map_of ps (bytes s)") (auto simp: fdt_getprop_def)
qed

lemma adjust_at:
  assumes T: "toks_at m (boot_fdt b) B (flat t @ post)" and room: "used B + 220 \<le> b_total B"
  shows "\<exists>m' B'. fdt_adjust privacy b m = Some m' \<and> edited m m' (boot_fdt b) B B' \<and> used B' \<le> used B + 220 \<and>
    toks_at m' (boot_fdt b) B' (flat (adjust_tree privacy (bootargs b) t) @ post)"
proof -
  let ?fdt = "boot_fdt b" and ?adc = "''/soc/rsb@1f03400/pmic@3a3/adc''" and ?ts = "''x-powers,ts-as-gpadc''"
  let ?modem = "''/soc/serial@1c28c00/modem''"
  have parts: "parts (bytes ?modem) \<noteq> []"
    by (simp add: parts.simps bytes_Cons)
  define t1 where "t1 = at_path (parts (bytes ?adc)) (del_dt (bytes ?ts)) t"
  obtain node r m1 B1 where 1: "fdt_path_offset m ?fdt ?adc = Some node"
    "if neg node then m1 = m else fdt_delprop ?fdt node ?ts m = Some (r, m1)" "edited m m1 ?fdt B B1" "used B1 \<le> used B"
    "toks_at m1 ?fdt B1 (flat t1 @ post)"
    using fixed_delprop_at [OF T, of ?adc ?ts] unfolding t1_def by auto
  have tot: "b_total B1 = b_total B" using 1(3) by (simp add: edited_def)
  obtain x where x: "fdt_getprop m1 ?fdt 0 ''model'' = Some x"
    using getprop_returns [OF 1(5), of "''model''"] by auto
  have start: "fdt_adjust privacy b m =
    (if privacy then fdt_privacy ?fdt m1
     else if contains (bytes ''eg25-manager'') (bootargs b) then fdt_modem_manager ?fdt m1 else Some m1)"
    using 1(1,2) x by (simp add: fdt_adjust_def Let_def split: if_splits)
  consider (p) privacy | (c) "\<not> privacy" "contains (bytes ''eg25-manager'') (bootargs b)"
    | (n) "\<not> privacy" "\<not> contains (bytes ''eg25-manager'') (bootargs b)"
    by blast
  then show ?thesis
  proof cases
    case p
    have "used B1 + 32 * length priv_nodes \<le> b_total B1"
      using 1(4) tot room by (simp add: priv_nodes_def)
    from disable_paths_at [OF 1(5) this] obtain m2 B2 where 2: "disable_paths ?fdt priv_nodes m1 = Some m2"
      "edited m1 m2 ?fdt B1 B2" "used B2 \<le> used B1 + 32 * length priv_nodes"
      "toks_at m2 ?fdt B2 (flat (disable_tree priv_nodes t1) @ post)"
      by (auto simp: priv_nodes_def)
    have "b_total B2 = b_total B" using 2(2) tot by (simp add: edited_def)
    then have "used B2 + 24 \<le> b_total B2"
      using 1(4) 2(3) room by (simp add: priv_nodes_def)
    moreover have "prop_cost (bytes ''blocked'') (be32_bytes 1) \<le> 24"
      by (simp add: prop_cost_def pad4_def)
    ultimately obtain node m3 B3 where 3: "fdt_path_offset m2 ?fdt ?modem = Some node"
      "if neg node then m3 = m2 else fdt_setprop ?fdt node ''blocked'' (be32_bytes 1) m2 = Some (0, m3)"
      "edited m2 m3 ?fdt B2 B3" "used B3 \<le> used B2 + 24"
      "toks_at m3 ?fdt B3 (flat (at_path (parts (bytes ?modem)) (set_dt (bytes ''blocked'') (be32_bytes 1)) (disable_tree priv_nodes t1)) @ post)"
      using fixed_setprop_at [OF 2(4), of ?modem "''blocked''" "be32_bytes 1" 24] by auto
    have "fdt_adjust privacy b m = Some m3"
      unfolding start using p 2(1) 3(1,2) by (simp add: fdt_privacy_def fdt_setprop_u32_def split: if_splits)
    then show ?thesis
      using p 1(4) 2(3) 3(4,5) edited_trans [OF edited_trans [OF 1(3) 2(2)] 3(3)]
      by (intro exI [of _ m3] exI [of _ B3]) (simp add: adjust_tree_def Let_def t1_def priv_nodes_def)
  next
    case c
    obtain node m2 B2 where 2: "fdt_path_offset m1 ?fdt ?modem = Some node"
      "if neg node then m2 = m1 else fdt_del_node ?fdt node m1 = Some (0, m2)"
      "edited m1 m2 ?fdt B1 B2" "used B2 \<le> used B1" "toks_at m2 ?fdt B2 (flat (prune (parts (bytes ?modem)) t1) @ post)"
      using fixed_del_node_at [OF 1(5), of ?modem] parts by auto
    have "b_total B2 = b_total B" using 2(3) tot by (simp add: edited_def)
    then have "used B2 + 32 \<le> b_total B2"
      using 1(4) 2(4) room by simp
    moreover have "prop_cost (bytes ''regulator-always-on'') [] \<le> 32"
      by (simp add: prop_cost_def pad4_def)
    ultimately obtain node' m3 B3 where 3: "fdt_path_offset m2 ?fdt ''/vbat-bb'' = Some node'"
      "if neg node' then m3 = m2 else fdt_setprop ?fdt node' ''regulator-always-on'' [] m2 = Some (0, m3)"
      "edited m2 m3 ?fdt B2 B3" "used B3 \<le> used B2 + 32"
      "toks_at m3 ?fdt B3 (flat (at_path (parts (bytes ''/vbat-bb'')) (set_dt (bytes ''regulator-always-on'') []) (prune (parts (bytes ?modem)) t1)) @ post)"
      using fixed_setprop_at [OF 2(5), of "''/vbat-bb''" "''regulator-always-on''" "[]" 32] by auto
    have "fdt_adjust privacy b m = Some m3"
      unfolding start using c 2(1,2) 3(1,2) by (simp add: fdt_modem_manager_def split: if_splits)
    then show ?thesis
      using c 1(4) 2(4) 3(4,5) edited_trans [OF edited_trans [OF 1(3) 2(3)] 3(3)]
      by (intro exI [of _ m3] exI [of _ B3]) (simp add: adjust_tree_def Let_def t1_def)
  next
    case n
    then show ?thesis
      using start 1(3,4,5) by (intro exI [of _ m1] exI [of _ B1]) (simp add: adjust_tree_def Let_def t1_def)
  qed
qed

section \<open>The framebuffer\<close>

definition fb_tree :: "u32 \<Rightarrow> dtree \<Rightarrow> dtree" where
  "fb_tree fb t =
     (if fb = 0 then t
      else set_child (bytes ''chosen'') (bytes ''p-boot,framebuffer-start'') (be32_bytes fb)
        (set_child (bytes ''chosen'') (bytes ''p-boot,framebuffer'') (be32_cells [fb, 1440 * 720 * 4]) t))"

lemma with_child_again:
  assumes "\<And>k. dt_name (f k) = dt_name k"
  shows "with_child c (on_child c f (with_child c ks)) = on_child c f (with_child c ks)"
proof -
  have "before c (on_child c f (with_child c ks)) \<noteq> on_child c f (with_child c ks)"
    by (rule on_child_named [OF assms with_child_named])
  then show ?thesis
    unfolding with_child_def [of c "on_child c f (with_child c ks)"] by (simp only: if_False)
qed

lemma setup_framebuffer_at:
  assumes T: "toks_at m (boot_fdt b) B (flat t @ post)" and room: "used B + 120 \<le> b_total B" and fb: "fb \<noteq> 0"
  shows "\<exists>m' B'. fdt_setup_framebuffer b fb m = Some (0, m') \<and> b_total B' = b_total B \<and>
    same_outside m m' (boot_fdt b) (b_total B) \<and> used B' \<le> used B + 120 \<and>
    b_rsv B' = b_rsv B @ [(ucast fb, 1440 * 720 * 4)] \<and> toks_at m' (boot_fdt b) B' (flat (fb_tree fb t) @ post)"
proof -
  let ?fdt = "boot_fdt b" and ?c = "bytes ''chosen''" and ?cells = "be32_cells [fb, 1440 * 720 * 4]"
  obtain n ps ks where t: "t = DNode n ps ks" by (cases t)
  have "node_cost ?c \<le> 16" "used B + 16 \<le> b_total B"
    using room by (simp_all add: node_cost_def pad4_def)
  then obtain off m1 B1 where 1: "fdt_find_or_add_subnode ?fdt 0 ''chosen'' m = Some (off, m1)" "\<not> neg off"
    "edited m m1 ?fdt B B1" "used B1 \<le> used B + 16" "off = child_pos [] n ps ?c (with_child ?c ks)"
    "toks_at m1 ?fdt B1 ([] @ flat (DNode n ps (with_child ?c ks)) @ post)"
    using T [unfolded t] by (elim root_find_or_add [where c = "''chosen''" and j = 16]) simp_all
  let ?s = "bytes ''p-boot,framebuffer''" and ?e = "bytes ''p-boot,framebuffer-start''"
  let ?k1 = "on_child ?c (set_dt ?s ?cells) (with_child ?c ks)"
  have cost: "prop_cost ?s ?cells \<le> 40" "prop_cost ?e (be32_bytes fb) \<le> 42"
    by (simp_all add: prop_cost_def pad4_def be32_cells_def)
  have t1: "b_total B1 = b_total B" "b_rsv B1 = b_rsv B" using 1(3) by (simp_all add: edited_def)
  have "used B1 + 40 \<le> b_total B1" using 1(4) t1 room by simp
  then obtain m2 B2 where 2: "fdt_setprop ?fdt off ''p-boot,framebuffer'' ?cells m1 = Some (0, m2)" "edited m1 m2 ?fdt B1 B2"
    "used B2 \<le> used B1 + 40" "toks_at m2 ?fdt B2 ([] @ flat (DNode n ps ?k1) @ post)"
    unfolding 1(5) by (elim child_setprop_step [OF 1(6) with_child_named cost(1)]) simp_all
  have t2: "b_total B2 = b_total B" "b_rsv B2 = b_rsv B" using 2(2) t1 by (simp_all add: edited_def)
  have off2: "child_pos [] n ps ?c ?k1 = off"
    unfolding 1(5) before_on_child [OF name_set_dt] ..
  have "used B2 + 42 \<le> b_total B2" using 1(4) 2(3) t2 room by simp
  then obtain m3 B3 where 3: "fdt_setprop ?fdt off ''p-boot,framebuffer-start'' (be32_bytes fb) m2 = Some (0, m3)"
    "edited m2 m3 ?fdt B2 B3" "used B3 \<le> used B2 + 42"
    "toks_at m3 ?fdt B3 ([] @ flat (DNode n ps (on_child ?c (set_dt ?e (be32_bytes fb)) ?k1)) @ post)"
    by (elim child_setprop_step [OF 2(4) on_child_named [OF name_set_dt with_child_named] cost(2), unfolded off2]) simp_all
  have t3: "b_total B3 = b_total B" "b_rsv B3 = b_rsv B" using 3(2) t2 by (simp_all add: edited_def)
  have B3: "blob_at m3 ?fdt B3" using 3(4) by (simp add: toks_at_def)
  have r3: "used B3 + 16 \<le> b_total B3" using 1(4) 2(3) 3(3) t3 room by simp
  from add_mem_rsv_at(2) [OF B3 _ r3, of "1440 * 720 * 4" "ucast fb"] obtain m4 B4 where 4:
    "fdt_add_mem_rsv ?fdt (ucast fb) (1440 * 720 * 4) m3 = Some (0, m4)" "kept m3 m4 ?fdt B3 B4"
    "b_rsv B4 = b_rsv B3 @ [(ucast fb, 1440 * 720 * 4)]" "used B4 = used B3 + 16"
    by auto
  have tree: "fb_tree fb t = DNode n ps (on_child ?c (set_dt ?e (be32_bytes fb)) ?k1)"
    using fb by (simp add: fb_tree_def t with_child_again)
  have "toks_at m4 ?fdt B4 (flat (fb_tree fb t) @ post)"
    using kept_toks [OF 4(2) 3(4)] by (simp add: tree)
  moreover have "same_outside m m4 ?fdt (b_total B)"
    using 1(3) 2(2) 3(2) 4(2) t1 t2 t3 by (simp add: edited_def kept_def same_outside_def)
  moreover have "fdt_setup_framebuffer b fb m = Some (0, m4)"
    using 1(1,2) 2(1) 3(1) 4(1) by (simp add: fdt_setup_framebuffer_def fdt_setprop_u32_def Let_def)
  ultimately show ?thesis
    using 4(2,3,4) t3 1(4) 2(3) 3(3) by (intro exI [of _ m4] exI [of _ B4]) (simp add: kept_def)
qed

section \<open>From the images to the hand-over\<close>

text \<open>The tree that the firmware gets, from the tree that \<open>boot_prepare\<close> left.\<close>

definition handed_tree :: "gui_env \<Rightarrow> (u8 list \<times> u8 list) list \<Rightarrow> bool \<Rightarrow> u32 \<Rightarrow> boot \<Rightarrow> dtree \<Rightarrow> dtree" where
  "handed_tree e vs privacy fb b t =
     finalize_tree vs (ucast (e_dram_size e)) b
       (wifi_tree (e_sid e) (adjust_tree privacy (bootargs b) (fb_tree fb t)))"

lemma fb_step:
  assumes T: "toks_at m (boot_fdt b) B (flat t @ post)" and room: "used B + 120 \<le> b_total B"
  obtains m' B' where "(if fb \<noteq> 0 then map_option snd (fdt_setup_framebuffer b fb m) else Some m) = Some m'"
    "b_total B' = b_total B" "used B' \<le> used B + 120"
    "b_rsv B' = b_rsv B @ (if fb = 0 then [] else [(ucast fb, 1440 * 720 * 4)])"
    "toks_at m' (boot_fdt b) B' (flat (fb_tree fb t) @ post)" "same_outside m m' (boot_fdt b) (b_total B)"
proof (cases "fb = 0")
  case True
  then show thesis using T that [of m B] by (simp add: fb_tree_def same_outside_def)
next
  case False
  then show thesis using setup_framebuffer_at [OF T room False] that by auto
qed

lemma root_props_select:
  "dt_props (adjust_tree privacy args (fb_tree fb t)) = dt_props t"
proof -
  have ne: "parts (bytes ''/soc/rsb@1f03400/pmic@3a3/adc'') \<noteq> []" "parts (bytes ''/soc/serial@1c28c00/modem'') \<noteq> []"
    "parts (bytes ''/vbat-bb'') \<noteq> []"
    by (simp_all add: parts.simps bytes_Cons)
  have at: "ss \<noteq> [] \<Longrightarrow> dt_props (at_path ss f t) = dt_props t" for ss f t
    by (cases ss; cases t) simp_all
  have pr: "dt_props (prune ss t) = dt_props t" for ss t
    by (cases "(ss, t)" rule: prune.cases) simp_all
  have dis: "\<forall>p \<in> set ps. parts (bytes p) \<noteq> [] \<Longrightarrow> dt_props (disable_tree ps t) = dt_props t" for ps t
    by (induction ps arbitrary: t) (simp_all add: disable_tree_def at)
  have "\<forall>p \<in> set priv_nodes. parts (bytes p) \<noteq> []"
    by (simp add: priv_nodes_def parts.simps bytes_Cons)
  then show ?thesis
    using ne by (simp add: adjust_tree_def Let_def at pr dis fb_tree_def root_props(1))
qed

text \<open>
  C8: once the images are loaded and the tree is in order, with room in its blob, \<open>boot_selection\<close>
  always hands over to the firmware, and the blob at the fixed address then holds exactly the tree of
  \<open>handed_tree\<close>: the framebuffer, the switches for privacy or the modem, the address of the wireless
  interface, what the build adds (the list of configurations, the log), the command line, the memory and the ramdisk are set, and
  everything else in the tree is as it was loaded. The framebuffer and the ramdisk are reserved and
  the blob ends with a page.
\<close>

theorem boot_hands_over_tree:
  assumes prep: "boot_prepare m fs no w = Some (True, b, w1)" and T: "toks_at (mem w1) (boot_fdt b) B (flat t @ post)"
    and fdt: "boot_fdt b \<noteq> 0" and cells: "dt_address_cells (dt_props t) \<in> {1, 2}" "dt_size_cells (dt_props t) \<in> {1, 2}"
    and tmp: "length (e_stack e) = 64" and args: "length (bootargs b) < 2 ^ 20"
    and log: "log_size (e_build e) < 2 ^ 20"
    and room: "used B + length (bootargs b) + log_size (e_build e) + 4000 \<le> b_total B" and tot: "b_total B + 8192 < 2 ^ 31"
    and privacy: "fst (rtc_get_flag (e_dev e) 1 (hist w1)) = privacy"
    and wifi: "wifi_ok (adjust_tree privacy (bootargs b) (fb_tree fb t))"
  shows "\<exists>w2 B' mc ml. boot_selection e (m, fs) no fb w =
      Some (Handed_over \<lparr>ep_arg0 = ucast FDT_BLOB_PA, ep_pc = linux_image_pa w1\<rparr>, w2) \<and>
    same_outside (mem w1) mc (boot_fdt b) (b_total B) \<and> same_outside (mem w1) ml (boot_fdt b) (b_total B) \<and>
    toks_at (mem w2) (boot_fdt b) B' (flat (handed_tree e (pboot_props (e_build e) fs mc ml) privacy fb b t) @ post) \<and>
    b_rsv B' = finalize_rsv b (b_total B') (b_rsv B @ (if fb = 0 then [] else [(ucast fb, 1440 * 720 * 4)])) \<and>
    (unat (boot_fdt b) + b_total B') mod 4096 = 0"
proof -
  let ?fdt = "boot_fdt b"
  have "used B + 120 \<le> b_total B" using room by simp
  from fb_step [OF T this, of fb] obtain m1 B1 where 1:
    "(if fb \<noteq> 0 then map_option snd (fdt_setup_framebuffer b fb (mem w1)) else Some (mem w1)) = Some m1"
    "b_total B1 = b_total B" "used B1 \<le> used B + 120"
    "b_rsv B1 = b_rsv B @ (if fb = 0 then [] else [(ucast fb, 1440 * 720 * 4)])"
    "toks_at m1 ?fdt B1 (flat (fb_tree fb t) @ post)" "same_outside (mem w1) m1 ?fdt (b_total B)" .
  have "used B1 + 220 \<le> b_total B1" using 1(2,3) room by simp
  from adjust_at [OF 1(5) this, of privacy] obtain m2 B2 where 2: "fdt_adjust privacy b m1 = Some m2"
    "edited m1 m2 ?fdt B1 B2" "used B2 \<le> used B1 + 220"
    "toks_at m2 ?fdt B2 (flat (adjust_tree privacy (bootargs b) (fb_tree fb t)) @ post)"
    by blast
  have t2: "b_total B2 = b_total B" "b_rsv B2 = b_rsv B1" using 2(2) 1(2) by (simp_all add: edited_def)
  have r2: "used B2 + length (bootargs b) + log_size (e_build e) + 3600 \<le> b_total B2" "b_total B2 + 8192 < 2 ^ 31"
    using 1(3) 2(3) t2 room tot by simp_all
  from boot_finalize_at [OF 2(4) wifi fdt, unfolded root_props_select, OF cells tmp args log r2, of fs "e_dram_size e" "e_sid e"]
  obtain mc ml m3 B3 where 3: "boot_finalize (e_build e) (e_stack e) fs (e_dram_size e) (e_sid e) b m2 = Some (True, m3)"
    "same_outside m2 mc ?fdt (b_total B2)" "same_outside m2 ml ?fdt (b_total B2)"
    "toks_at m3 ?fdt B3 (flat (handed_tree e (pboot_props (e_build e) fs mc ml) privacy fb b t) @ post)"
    "b_rsv B3 = finalize_rsv b (b_total B3) (b_rsv B2)" "(unat ?fdt + b_total B3) mod 4096 = 0"
    unfolding handed_tree_def by (elim exE conjE)
  obtain tt where priv: "rtc_get_flag (e_dev e) 1 (hist w1) = (privacy, tt)"
    using privacy by (cases "rtc_get_flag (e_dev e) 1 (hist w1)") simp
  let ?w2 = "on_hist (boot_perform (e_dev e)) (w1\<lparr>hist := tt, mem := m3\<rparr>)"
  have "boot_selection e (m, fs) no fb w =
      Some (Handed_over \<lparr>ep_arg0 = ucast FDT_BLOB_PA, ep_pc = linux_image_pa w1\<rparr>, ?w2)"
    unfolding boot_selection_def Let_def prod.case prep Option.bind.bind_lunit 1(1)
    using priv 2(1) 3(1) by (simp add: bl33_ep_info_def)
  moreover have "mem ?w2 = m3"
    by (simp add: on_hist_def)
  moreover have "same_outside (mem w1) mc ?fdt (b_total B)" "same_outside (mem w1) ml ?fdt (b_total B)"
    using 1(2,6) 2(2) 3(2,3) t2(1) by (simp_all add: edited_def same_outside_def)
  ultimately show ?thesis
    using 3(4,5,6) unfolding t2(2) 1(4) by (intro exI [of _ ?w2] exI [of _ B3] exI [of _ mc] exI [of _ ml]) (simp del: upt_rec_numeral)
qed

definition tree_env :: gui_env where
  "tree_env = \<lparr>e_dev = (\<lambda>_ _. 0), e_clk = (\<lambda>_. 5), e_stack = replicate 64 0,
     e_build = \<lparr>PBOOT_FDT_CONFIGS = True, PBOOT_FDT_LOG = Some (0x50000000, 0x50000100)\<rparr>, e_resize = False, e_board = board_zero,
     e_boot_source = 0, e_version = bytes ''1.0'', e_dram_size = 0x80000000, e_sid = [0, 0, 0, 0]\<rparr>"

lemma small_tree: "adjust_tree False [] (fb_tree 0 (DNode [] [] [DNode (bytes ''chosen'') [] []])) =
    DNode [] [] [DNode (bytes ''chosen'') [] []]"
proof -
  have parts: "parts (bytes ''/soc/rsb@1f03400/pmic@3a3/adc'') =
    map bytes [''soc'', ''rsb@1f03400'', ''pmic@3a3'', ''adc'']"
    by (simp add: parts.simps bytes_Cons)
  have "\<not> node_named (bytes ''soc'') (bytes ''chosen'')"
    by (simp add: node_named_def bytes_Cons)
  then have "at_path (parts (bytes ''/soc/rsb@1f03400/pmic@3a3/adc'')) f (DNode [] [] [DNode (bytes ''chosen'') [] []]) =
      DNode [] [] [DNode (bytes ''chosen'') [] []]" for f
    unfolding parts by simp
  moreover have "\<not> contains (bytes ''eg25-manager'') []"
    by (simp add: bytes_Cons)
  ultimately show ?thesis
    unfolding adjust_tree_def Let_def fb_tree_def by (simp only: if_True if_False simp_thms)
qed

lemma small_wifi: "wifi_ok (DNode [] [] [DNode (bytes ''chosen'') [] []])"
proof -
  have "\<not> node_named (bytes ''aliases'') (bytes ''chosen'')"
    by (simp add: node_named_def bytes_Cons)
  then show ?thesis
    by (simp add: wifi_ok_def dt_alias_def)
qed

theorem boot_hands_over_tree_witness:
  "\<exists>b w1 w2 B' mc ml. boot_prepare (image_card kernel_disk) kernel_fs 0 kernel_world = Some (True, b, w1) \<and>
     boot_selection tree_env (image_card kernel_disk, kernel_fs) 0 0 kernel_world =
       Some (Handed_over \<lparr>ep_arg0 = ucast FDT_BLOB_PA, ep_pc = linux_image_pa w1\<rparr>, w2) \<and>
     toks_at (mem w2) 0x4a000000 B'
       (flat (handed_tree tree_env (pboot_props (e_build tree_env) kernel_fs mc ml) False 0 b (DNode [] [] [DNode (bytes ''chosen'') [] []])) @ [TEnd])"
proof -
  obtain b w1 B where 1: "boot_prepare (image_card kernel_disk) kernel_fs 0 kernel_world = Some (True, b, w1)"
    "boot_fdt b = 0x4a000000" "bootargs b = []" "used B \<le> 88" "b_total B = 72 + 2 ^ 18"
    "toks_at (mem w1) (boot_fdt b) B (flat (DNode [] [] [DNode (bytes ''chosen'') [] []]) @ [TEnd])"
    using kernel_prepare by metis
  have "\<not> fst (rtc_get_flag (e_dev tree_env) 1 (hist w1))"
    by (simp add: rtc_get_flag_def readl_def Let_def tree_env_def)
  moreover have "length (e_stack tree_env) = 64" "log_size (e_build tree_env) = 256"
    by (simp_all add: tree_env_def log_size_def)
  moreover have "wifi_ok (adjust_tree False (bootargs b) (fb_tree 0 (DNode [] [] [DNode (bytes ''chosen'') [] []])))"
    unfolding 1(3) small_tree by (rule small_wifi)
  moreover have "dt_address_cells [] \<in> {1, 2}" "dt_size_cells [] \<in> {1, 2}"
    by (simp_all add: dt_address_cells_def dt_size_cells_def dt_cells_def)
  ultimately show ?thesis
    using boot_hands_over_tree [OF 1(1,6), of tree_env False 0] 1 by fastforce
qed

end
