(* ===== verification/Spec2Isabelle.thy ===== *)
theory Spec2Isabelle
  imports Libc Strbuf Bootfs_Roundtrip Boot_Images Ccu Lradc Dsi_Tables Compositor Mmu Boot_Main Mksunxiboot Console Mkbin
    Mmc_Csd Mmc_Modes Sunxi_Rate Sunxi_Run Sram_Main Timer Start32
    Fdt_Lookup Boot_Tree
begin

text \<open>
  p-boot, the boot loader of the PinePhone.

  The repository holds two kinds of programs. On the phone runs the boot loader: the boot ROM
  loads it from a card into SRAM, it brings up clocks, console, power management and memory
  (\<open>main_sram_only\<close>), reads a boot filesystem from the SD card or the eMMC, lets the user choose a
  configuration with the volume and power keys, loads kernel, initrd and device tree and jumps
  to them (\<open>src/main.c\<close> and the files beside it). On the host run the tools that make what it
  reads: \<open>p-boot-conf\<close> (\<open>src/conf.c\<close>) writes the boot filesystem, \<open>mksunxiboot\<close> puts the header of
  the boot ROM in front of the loader, \<open>mkbin\<close> (\<open>src/fonts/mkbin.c\<close>) packs the font of the console.
  The development models both sides, and states what they owe each other: what one writes the
  other reads back.

  How the model reads. A C structure is a record, an enumeration a datatype, an integer a word of
  its width with the wrap-around of C. Functions that change state return it. An error code is the
  value the code returns; a call of \<open>exit\<close> in a tool is an \<open>Inl\<close> of the tool's error type. Memory is
  a function from 64-bit addresses to bytes (\<open>mem\<close> in \<open>Libc\<close>). What the program does to the
  hardware is a history of register reads, writes and delays, and the hardware is a parameter, a
  function from that history to the value of the next read (\<open>device\<close> in \<open>Machine\<close>); a theorem
  about a device holds for every device, or names what it asks of it. Behaviour that C leaves
  undefined is \<open>None\<close>.

  \<^item> Shared: \<open>Prelude\<close> (words, bytes, C strings, decimal numbers, loops with errors), \<open>Machine\<close>
    (the accessors of \<open>asm/io.h\<close>, runs of register operations, waits), \<open>Elapse\<close> (time, the locale
    \<open>hardware_clock\<close>; what every event keeps, the locale \<open>kept\<close>; steps that return).
  \<^item> First stage: \<open>Start32\<close> (\<open>src/start32.c\<close>, back to the boot ROM on request), \<open>Timer\<close> (\<open>generic_timer.c\<close>
    and \<open>time.c\<close>: the counter with its erratum, the locale \<open>erratum_counter\<close>, and delays), \<open>Clock_Sun6i\<close>
    (\<open>clock_sun6i.c\<close>), \<open>Dram\<close> (\<open>dram_sunxi_dw.c\<close> with its helpers and timings), \<open>Dram_Size\<close> (the size is
    found for every geometry of the chips, the locale \<open>dram_rank\<close>), \<open>Dram_Run\<close> (the driver ends),
    \<open>Sram_Main\<close> (\<open>main_sram_only\<close>: clocks, PMIC, memory, page tables, heap and stack).
  \<^item> C library: \<open>Libc\<close> (\<open>src/lib.c\<close>: \<open>memcpy\<close>, \<open>memmove\<close>, \<open>memcmp\<close>, \<open>strlen\<close>, \<open>strcmp\<close>, \<open>strstr\<close>);
    \<open>Heap\<close> (\<open>malloc\<close> and \<open>zalloc\<close> of \<open>src/main.c\<close>, under the locale \<open>allocator\<close>); \<open>Strbuf\<close>
    (\<open>src/strbuf.c\<close>, the bounded printf).
  \<^item> Boot filesystem: \<open>Bootfs_Format\<close> (\<open>src/bootfs.h\<close>, codecs under the locale \<open>fixed_codec\<close>);
    \<open>Conf_Tool\<close> and \<open>Conf_Layout\<close> (\<open>src/conf.c\<close>: the parser of \<open>boot.conf\<close>, the checks, the directory
    scan, the layout of the partition); \<open>Storage\<close> (\<open>src/storage.c\<close> and the block reads of U-Boot's
    \<open>mmc.c\<close>); \<open>Bootfs_Roundtrip\<close> (the writer against the reader).
  \<^item> Cards, \<open>src/uboot/drivers/mmc/mmc.c\<close>: \<open>Mmc_Init\<close> (identification, switching, capabilities, bus mode and
    width), \<open>Mmc_Startup\<close> (CSD, extended CSD, \<open>mmc_init\<close>), \<open>Mmc_Ready\<close> (what \<open>mmc_init\<close> guarantees,
    under the locale \<open>timed_host\<close>; a simulated card), \<open>Mmc_Csd\<close> (the capacity against the documents),
    \<open>Mmc_Modes\<close> (empty slot, supported modes). Their controller, \<open>src/uboot/drivers/mmc/sunxi_mmc.c\<close>:
    \<open>Sunxi_Mmc\<close> (module clock, bus settings, commands, transfers by the processor and by DMA, the
    operations that \<open>mmc.c\<close> calls; reading only), \<open>Sunxi_Rate\<close> (the clock divider, the DMA
    descriptors), \<open>Sunxi_Run\<close> (every wait ends, under the locale \<open>sunxi_clock\<close>, so that the driver is a
    \<open>timed_host\<close>; what a command that is reported done has seen).
  \<^item> Board: \<open>Gpio\<close> (pin controller, LEDs, board revision, set-up of the serial port), \<open>Ccu\<close>
    (\<open>src/ccu.c\<close>, clocks), \<open>Lradc\<close> (\<open>src/lradc.c\<close>, volume keys), \<open>Pmic\<close> (\<open>src/pmic.c\<close>, the serial bus
    and the power management chip), \<open>Board\<close> (RTC registers, watchdog, MAC addresses, status),
    \<open>Mmu\<close> (\<open>src/mmu.c\<close>, page tables).
  \<^item> Device trees, the copy of libfdt under \<open>src/uboot\<close>, on the bytes of memory and as the build configures
    it, without its optional checks: \<open>Fdt\<close> (\<open>fdt.c\<close>: header, tags, walking the nodes), \<open>Fdt_Ro\<close> (\<open>fdt_ro.c\<close>:
    names, properties, paths, aliases, memory reservations), \<open>Fdt_Rw\<close> (\<open>fdt_rw.c\<close>: every edit),
    \<open>Fdt_Support\<close> (U-Boot's helpers of \<open>fdt_support.c\<close>: command line, memory node, ramdisk, final size).
    Their specification is a tree, \<open>dtree\<close>: \<open>Fdt_Blob\<close> (what a blob in memory is, its structure block as
    tokens), \<open>Fdt_Tree\<close> (lookups are those of the tree), \<open>Fdt_Splice\<close> (what a splice does to the blob),
    \<open>Fdt_Edit\<close>, \<open>Fdt_Set\<close> and \<open>Fdt_Nodes\<close> (setting and deleting properties and nodes), \<open>Fdt_Rsv\<close>
    (reservations and the size), \<open>Fdt_Fixup\<close> (the helpers), \<open>Fdt_Path\<close> and \<open>Fdt_Lookup\<close> (paths, and the laws
    of a lookup after an edit).
  \<^item> Booting: \<open>Boot_Select\<close> (which card and which configuration, both variants of \<open>main\<close>),
    \<open>Boot_Images\<close> (\<open>boot_prepare\<close>, \<open>boot_finalize\<close>, \<open>boot_perform\<close>), \<open>Boot_Fdt\<close> and \<open>Boot_Tree\<close> (what they and
    \<open>boot_selection\<close> make of the device tree).
  \<^item> Display: \<open>Dsi_Codes\<close> (ECC, CRC, packets), \<open>Dsi\<close> (controller, D-PHY, panel), \<open>Dsi_Tables\<close> (the
    precomputed tables against the code that computes them), \<open>Compositor\<close> (timing controller, mixer,
    scaler, \<open>display_commit\<close>), all of \<open>src/display.c\<close>; \<open>Rle\<close> and \<open>Vidconsole\<close> (\<open>src/vidconsole.c\<close>).
  \<^item> Menu: \<open>Menu\<close> and \<open>Gui_Events\<close> (\<open>src/gui.c\<close>), \<open>Boot_Gui\<close> (\<open>boot_gui\<close> of \<open>src/main.c\<close>, a round of
    its loop as a step), \<open>Boot_Menu\<close> (its properties, over the states that rounds reach), \<open>Boot_Idle\<close> (the
    loop without input ends), \<open>Boot_Main\<close> (what \<open>main\<close> boots, over all its ways and the run of the menu).
  \<^item> Console: \<open>Debug_Fmt\<close> (the printers of \<open>src/debug.c\<close> as functions to characters), \<open>Console\<close> (where
    the characters go, the register dumps).
  \<^item> Tools: \<open>Mksunxiboot\<close> (\<open>src/uboot/tools/mksunxiboot.c\<close>), \<open>Mkbin\<close> (\<open>src/fonts/mkbin.c\<close>).

  What the lemmas show.

  \<^item> Round trips between the programs: a file or an image that \<open>p-boot-conf\<close> stored is what the
    loader brings to memory; the metadata blocks decode to the state of the tool; a font that was
    drawn is what the console unpacks, but for empty rows at its end; an image of \<open>mksunxiboot\<close> passes the check of the boot ROM.
  \<^item> Choosing and booting: the priorities of one-shot, default and keys; every path to a boot ends in
    a block with the magic of a configuration, the menu's as long as the stored default exists; without
    input the run of the menu ends with the power off, as time passes and frames come; kernel and device tree are placed and
    checked before the jump.
  \<^item> Hardware sequences, as facts about the history for every device: the CPU is back on the PLL only
    after its lock was seen; a register operation on a pin changes no other pin; the bus protocol of
    the PMIC refines a read-modify-write; the tables of the fast display set-up are those that the
    slow one computes; after a commit the mixer shows what the planes ask for, clipped to the panel;
    the page tables are the identity below 4 GiB.
  \<^item> Invariants: of the tool's state, the string buffer, the console, the menu, the debounced keys.
  \<^item> Cards: bringing up a card returns whatever card and controller answer; a device that is ready has
    a usable block length and the capacity that the documents define; mode, width and clock are ones
    that card and host support; the transfers cover the buffer and end in a status without errors.
  \<^item> First stage: the memory is reported with its exact size, and only after a training without errors;
    globals, stack and page tables lie apart in it; no delay is shorter than asked for.
  \<^item> Device tree: the functions on bytes refine lookups and edits of a tree; an edit succeeds when there
    is room and changes nothing else, or leaves the tree as it was; from a tree in order the boot path
    always reaches the firmware, with exactly the completed tree at the fixed address.
  \<^item> Errors: timeouts, missing cards, corrupt or missing images, a menu whose default is gone.

  Bounds. The waits of \<open>pmic.c\<close> and of the D-PHY are bounded in the code (\<open>MAX_TRIES\<close> is 100000) and
  keep the bound of the code. A wait without a bound in the code, and the loop of the menu, is a
  \<open>partial_function\<close> and \<open>None\<close> when it does not end; the theorems name what makes it end (the PLL
  locks, the port becomes ready) and then prove that it does. The waits of the MMC and the DRAM
  driver are bounded by the timer; they are partial functions too, and end because time passes with
  every access to a register (\<open>hardware_clock\<close>). A walk over the bytes of a device tree ends when they are a
  tree, which its lemmas prove. No other definition takes fuel: the
  loops of the code run over arrays, strings or counters and are recursions that terminate.

  Parameters: the devices, the boot timer, the files and directories of the host, the card (its
  answers to commands, or, under the driver, what the controller's registers read), the time as a
  function of the history, the reads of the counter register, the bytes of a DMA transfer, the options
  that decide what the device tree tells the system (\<open>build\<close>, in \<open>e_build\<close>), the old
  contents of the stack where the code reads an array of it (\<open>e_stack\<close>, the argument \<open>tmp\<close>).

  Not modelled. What libfdt and \<open>fdt_support.c\<close> have beyond the boot path's needs: searches by phandle,
  value or compatible string and the helpers on top of them, overlays, the sequential writer,
  regions. The start code (\<open>start.S\<close>, \<open>start32.S\<close>) and the
  entry to and return from the secure firmware: assembly. \<open>src/dtest.c\<close>: a demo for the display that
  repeats helpers of \<open>main.c\<close> and animates with floating point. The bytes of the font and of the
  splash images: data. \<open>configure.php\<close>, \<open>mkfont.php\<close>, the makefiles: other languages. Messages that
  a function only prints on its way are left out of the functions; the printers themselves and the
  dumps are in \<open>Debug_Fmt\<close> and \<open>Console\<close>.
\<close>

end
